(* ===== verification/Prelude.thy ===== *)
theory Prelude
  imports Complex_Main "HOL-Library.Code_Target_Nat"
begin

text \<open>
  Shared vocabulary of the development.

  \<^item> Fallible code returns a value of a sum type: \<open>Inl\<close> is what the source throws,
    \<open>Inr\<close> what it returns; \<open>rbind\<close> is "run, and continue unless it threw".
  \<^item> A cancellation signal is the number of further reads of \<open>signal.aborted\<close> that
    still answer \<open>false\<close> (\<open>None\<close>: no signal, or one that never fires).  Every
    place where the source reads the flag, or races a promise against the abort event,
    is one \<open>observe\<close>.  Between two reads the flag may flip, so the signals
    \<open>Some 0\<close>, \<open>Some 1\<close>, \<dots> enumerate every moment at which a
    cancellation can become visible to the code.
  \<^item> An asynchronous source, seen by the consumer that pulls it, is the finite list of
    the values it produces and the way it ends.
\<close>

named_theorems js_simps \<open>evaluation rules of the value model\<close>
named_theorems wf_intros \<open>introduction rules of the well-formedness predicates\<close>

section \<open>Results\<close>

definition rbind :: "('e + 'a) \<Rightarrow> ('a \<Rightarrow> 'e + 'b) \<Rightarrow> 'e + 'b" where
  "rbind m f = (case m of Inl e \<Rightarrow> Inl e | Inr x \<Rightarrow> f x)"

lemma rbind_simps [simp]:
  "rbind (Inl e) f = Inl e"
  "rbind (Inr x) f = f x"
  by (simp_all add: rbind_def)

lemma rbind_eq_Inr [simp]:
  "rbind m f = Inr y \<longleftrightarrow> (\<exists>x. m = Inr x \<and> f x = Inr y)"
  by (cases m) auto

lemma rbind_eq_Inl [simp]:
  "rbind m f = Inl e \<longleftrightarrow> m = Inl e \<or> (\<exists>x. m = Inr x \<and> f x = Inl e)"
  by (cases m) auto

definition is_ok :: "'e + 'a \<Rightarrow> bool" where
  "is_ok m = (case m of Inl _ \<Rightarrow> False | Inr _ \<Rightarrow> True)"

lemma is_ok_simps [simp]:
  "\<not> is_ok (Inl e)"
  "is_ok (Inr x)"
  by (simp_all add: is_ok_def)

lemma is_ok_iff: "is_ok m \<longleftrightarrow> (\<exists>x. m = Inr x)"
  by (cases m) auto

text \<open>Run a check over the elements of a list, threading a state, first error wins.\<close>

fun rfold :: "('a \<Rightarrow> 's \<Rightarrow> 'e + 's) \<Rightarrow> 'a list \<Rightarrow> 's \<Rightarrow> 'e + 's" where
  "rfold f [] s = Inr s"
| "rfold f (x # xs) s = rbind (f x s) (rfold f xs)"

lemma rfold_append: "rfold f (xs @ ys) s = rbind (rfold f xs s) (rfold f ys)"
  by (induction xs arbitrary: s) (auto simp: rbind_def split: sum.splits)

lemma rfold_cong [fundef_cong]:
  "xs = ys \<Longrightarrow> s = t \<Longrightarrow> (\<And>x u. x \<in> set ys \<Longrightarrow> f x u = g x u) \<Longrightarrow> rfold f xs s = rfold g ys t"
  by (induction xs arbitrary: ys s t) (auto simp: rbind_def split: sum.splits)

lemma rfold_invariant:
  assumes "rfold f xs s = Inr t" and "P s"
    and "\<And>x u v. x \<in> set xs \<Longrightarrow> P u \<Longrightarrow> f x u = Inr v \<Longrightarrow> P v"
  shows "P t"
  using assms
proof (induction xs arbitrary: s)
  case Nil
  then show ?case by simp
next
  case (Cons x xs)
  from Cons.prems(1) obtain u where u: "f x s = Inr u" and rest: "rfold f xs u = Inr t"
    by auto
  have "P u" using Cons.prems(2,3) u by auto
  with rest show ?case using Cons.IH Cons.prems(3) by auto
qed

text \<open>A check over a list without a state.\<close>

definition rall :: "('a \<Rightarrow> 'e + unit) \<Rightarrow> 'a list \<Rightarrow> 'e + unit" where
  "rall f xs = rfold (\<lambda>x _. f x) xs ()"

lemma rall_simps [simp]:
  "rall f [] = Inr ()"
  "rall f (x # xs) = rbind (f x) (\<lambda>_. rall f xs)"
  by (simp_all add: rall_def rbind_def split: sum.splits)

lemma rall_ok: "rall f xs = Inr u \<longleftrightarrow> (\<forall>x \<in> set xs. f x = Inr ())"
  by (induction xs) auto

lemma rall_cong [fundef_cong]:
  "xs = ys \<Longrightarrow> (\<And>x. x \<in> set ys \<Longrightarrow> f x = g x) \<Longrightarrow> rall f xs = rall g ys"
  unfolding rall_def by (intro rfold_cong) auto

text \<open>\<open>map\<close> with a function that may throw.\<close>

fun rmap :: "('a \<Rightarrow> 'e + 'b) \<Rightarrow> 'a list \<Rightarrow> 'e + 'b list" where
  "rmap f [] = Inr []"
| "rmap f (x # xs) = rbind (f x) (\<lambda>y. rbind (rmap f xs) (\<lambda>ys. Inr (y # ys)))"

lemma rmap_Inr: "rmap f xs = Inr ys \<longleftrightarrow> list_all2 (\<lambda>x y. f x = Inr y) xs ys"
  by (induction xs arbitrary: ys) (auto simp: list_all2_Cons1)

lemma rmap_values: "list_all (\<lambda>x. f (g x) = Inr x) xs \<Longrightarrow> rmap f (map g xs) = Inr xs"
  by (simp add: rmap_Inr list_all2_map1 list_all2_same list_all_iff)

lemma rmap_first_error:
  "list_all (\<lambda>x. f (g x) = (if P x then Inl e else Inr x)) xs \<Longrightarrow>
     rmap f (map g xs) = (if list_ex P xs then Inl e else Inr xs)"
  by (induction xs) auto

section \<open>Cancellation signals\<close>

type_synonym signal = "nat option"

fun observe :: "signal \<Rightarrow> bool \<times> signal" where
  "observe None = (False, None)"
| "observe (Some 0) = (True, Some 0)"
| "observe (Some (Suc n)) = (False, Some n)"

lemma observe_aborted: "observe sg = (True, sg') \<Longrightarrow> sg = Some 0 \<and> sg' = Some 0"
  by (cases sg rule: observe.cases) auto

lemma observe_stays_aborted: "observe sg = (True, sg') \<Longrightarrow> observe sg' = (True, sg')"
  by (cases sg rule: observe.cases) auto

lemma observe_None_iff: "observe sg = (b, None) \<longleftrightarrow> sg = None \<and> \<not> b"
  by (cases sg rule: observe.cases) auto

section \<open>Asynchronous sources\<close>

text \<open>How the iterator ends: \<open>next()\<close> answers \<open>done\<close>, or rejects.\<close>

datatype src_end = SrcDone | SrcThrow

type_synonym 'a source = "'a list \<times> src_end"

section \<open>Generators\<close>

text \<open>
  A stretch of an async generator that talks to the outside world: the events it yields, the
  effects it has on the world in order, the signal and the world afterwards, and the value it goes
  on with (\<open>None\<close> once the generator has returned).
\<close>

type_synonym ('e, 'x, 'w, 'a) gen = "'e list \<times> 'x list \<times> signal \<times> 'w \<times> 'a option"

definition then_run ::
  "('e, 'x, 'w, 'a) gen \<Rightarrow> ('a \<Rightarrow> signal \<Rightarrow> 'w \<Rightarrow> ('e, 'x, 'w, 'b) gen) \<Rightarrow> ('e, 'x, 'w, 'b) gen"
where
  "then_run m k =
     (case m of
        (es, fx, sg, w, None) \<Rightarrow> (es, fx, sg, w, None)
      | (es, fx, sg, w, Some a) \<Rightarrow> (case k a sg w of (fs, gx, sg', w', r) \<Rightarrow> (es @ fs, fx @ gx, sg', w', r)))"

definition run_effects :: "('e, 'x, 'w, 'a) gen \<Rightarrow> 'x list" where
  "run_effects m = (case m of (_, fx, _) \<Rightarrow> fx)"

definition run_signal :: "('e, 'x, 'w, 'a) gen \<Rightarrow> signal" where
  "run_signal m = (case m of (_, _, sg, _) \<Rightarrow> sg)"

definition events :: "('e, 'x, 'w, 'a) gen \<Rightarrow> 'e list" where
  "events m = fst m"

definition returned :: "('e, 'x, 'w, 'a) gen \<Rightarrow> bool" where
  "returned m \<longleftrightarrow> snd (snd (snd (snd m))) = None"

lemma then_run_simps [simp]:
  "then_run (es, fx, sg, w, None) k = (es, fx, sg, w, None)"
  "then_run ([], [], sg, w, Some a) k = k a sg w"
  by (simp_all add: then_run_def)

lemma then_run_assoc: "then_run (then_run m k) h = then_run m (\<lambda>a sg w. then_run (k a sg w) h)"
  by (auto simp: then_run_def split: prod.splits option.splits)

lemma run_effects_Some:
  "run_effects (then_run (es, fx, sg, w, Some a) k) = fx @ run_effects (k a sg w)"
  by (auto simp: then_run_def run_effects_def split: prod.splits)

lemma events_then:
  "events (then_run m k) =
     (case m of (es, _, _, _, None) \<Rightarrow> es | (es, _, sg, w, Some a) \<Rightarrow> es @ events (k a sg w))"
  by (auto simp: events_def then_run_def split: prod.splits option.splits)

lemma events_pair [simp]: "events (es, fx, sg, w, r) = es"
  by (simp add: events_def)

lemma returned_simps [simp]:
  "returned (es, fx, sg, w, None)"
  "\<not> returned (es, fx, sg, w, Some a)"
  by (simp_all add: returned_def)

lemma returned_then: "(\<And>a sg w. returned (k a sg w)) \<Longrightarrow> returned (then_run m k)"
  by (auto simp: then_run_def returned_def split: prod.splits option.splits) (metis snd_conv)

text \<open>
  Reasoning over generators: \<open>gen_ok P R m\<close> says that a stretch that returns yields events and
  effects in \<open>R\<close>, and one that goes on yields events, effects and a value in \<open>P\<close>.
\<close>

definition gen_ok :: "('e list \<Rightarrow> 'x list \<Rightarrow> 'a \<Rightarrow> bool) \<Rightarrow> ('e list \<Rightarrow> 'x list \<Rightarrow> bool) \<Rightarrow> ('e, 'x, 'w, 'a) gen \<Rightarrow> bool" where
  "gen_ok P R m = (case m of (es, fx, _, _, None) \<Rightarrow> R es fx | (es, fx, _, _, Some a) \<Rightarrow> P es fx a)"

lemma gen_ok_simps [simp]:
  "gen_ok P R (es, fx, sg, w, None) \<longleftrightarrow> R es fx"
  "gen_ok P R (es, fx, sg, w, Some a) \<longleftrightarrow> P es fx a"
  by (simp_all add: gen_ok_def)

lemma gen_ok_then:
  assumes "gen_ok P R m"
    and "\<And>es fx a sg w. P es fx a \<Longrightarrow> gen_ok (\<lambda>fs gx. Q (es @ fs) (fx @ gx)) (\<lambda>fs gx. R (es @ fs) (fx @ gx)) (k a sg w)"
  shows "gen_ok Q R (then_run m k)"
proof -
  obtain es fx sg w r where m: "m = (es, fx, sg, w, r)" by (cases m)
  show ?thesis
  proof (cases r)
    case (Some a)
    obtain fs gx sg' w' r' where k: "k a sg w = (fs, gx, sg', w', r')" by (cases "k a sg w")
    from assms(1) have "P es fx a" by (simp add: m Some)
    from assms(2) [OF this, of sg w] show ?thesis
      by (cases r') (simp_all add: m Some k then_run_def)
  qed (use assms(1) in \<open>simp add: m\<close>)
qed

lemma gen_ok_mono:
  assumes "gen_ok P R m" and "\<And>es fx a. P es fx a \<Longrightarrow> P' es fx a" and "\<And>es fx. R es fx \<Longrightarrow> R' es fx"
  shows "gen_ok P' R' m"
  using assms by (auto simp: gen_ok_def split: prod.splits option.splits)

section \<open>Lists\<close>

lemma ends_with_unique:
  assumes "xs = init @ [t]" and "\<forall>x \<in> set init. \<not> P x" and "P t"
  shows "length (filter P xs) = 1 \<and> P (last xs)"
  using assms by (induction init) (auto simp: filter_empty_conv)

lemma map_of_filter_neq [simp]:
  "map_of (filter (\<lambda>(k, _). k \<noteq> a) xs) = (map_of xs)(a := None)"
  by (induction xs) auto

lemma dom_map_of_set: "map_of kvs k = Some v \<Longrightarrow> (k, v) \<in> set kvs"
  by (rule map_of_SomeD)

end
