(* ===== verification/Js_Value.thy ===== *)
theory Js_Value
  imports Prelude
begin

text \<open>
  The values of the source language.

  \<^item> \<open>jsnum\<close>: a number is a finite IEEE double (its exact rational value; the two zeros
    are one value, as for \<open>===\<close>), an infinity or NaN.  \<open>js_round\<close> rounds a
    rational to the nearest double, ties to even.
  \<^item> \<open>jsval\<close>: what a variable of type \<open>unknown\<close> may hold.  \<open>JObj\<close> is an
    object whose prototype is \<open>Object.prototype\<close> or \<open>null\<close>, \<open>JInst\<close> any other
    object (a class instance, with the properties its prototype provides among its
    properties), \<open>JFun\<close> a function.  Properties are kept in property order.  Values
    are finite trees: cyclic objects, getters, proxies and sparse arrays are outside the model,
    and no property name the code reads is one of \<open>Object.prototype\<close>.
  \<^item> text is a \<open>string\<close> holding the UTF-8 encoding of the JavaScript string (one
    \<open>char\<close> per byte; a lone surrogate is its three byte form, which is also what
    \<open>TextEncoder\<close> counts for its replacement).  So \<open>length\<close> is the number of UTF-8
    bytes, \<open>utf16_length\<close> is \<open>.length\<close>, and emptiness, equality, concatenation and the
    search for an ASCII character agree with the source.
\<close>

section \<open>Numbers\<close>

datatype jsnum = Fin rat | PInf | NInf | NaN

definition max_safe_integer :: rat where
  "max_safe_integer = 9007199254740991"

fun is_finite :: "jsnum \<Rightarrow> bool" where
  "is_finite (Fin _) = True"
| "is_finite _ = False"

fun is_integer :: "jsnum \<Rightarrow> bool" where
  "is_integer (Fin q) = (of_int \<lfloor>q\<rfloor> = q)"
| "is_integer _ = False"

fun is_safe_integer :: "jsnum \<Rightarrow> bool" where
  "is_safe_integer (Fin q) =
     (of_int \<lfloor>q\<rfloor> = q \<and> \<bar>q\<bar> \<le> max_safe_integer)"
| "is_safe_integer _ = False"

text \<open>\<open><\<close> on numbers: false when one side is NaN.\<close>

fun num_less :: "jsnum \<Rightarrow> jsnum \<Rightarrow> bool" where
  "num_less (Fin a) (Fin b) = (a < b)"
| "num_less NaN _ = False"
| "num_less _ NaN = False"
| "num_less NInf b = (b \<noteq> NInf)"
| "num_less (Fin a) b = (b = PInf)"
| "num_less PInf b = False"

fun num_le :: "jsnum \<Rightarrow> jsnum \<Rightarrow> bool" where
  "num_le NaN _ = False"
| "num_le _ NaN = False"
| "num_le a b = (\<not> num_less b a)"

text \<open>The nat a non-negative safe integer stands for.\<close>

fun num_nat :: "jsnum \<Rightarrow> nat" where
  "num_nat (Fin q) = nat \<lfloor>q\<rfloor>"
| "num_nat _ = 0"

definition jsnat :: "nat \<Rightarrow> jsnum" where
  "jsnat n = Fin (of_nat n)"

lemma num_nat_jsnat [simp]: "num_nat (jsnat n) = n"
  by (simp add: jsnat_def)

lemma jsnat_inject [simp]: "jsnat m = jsnat n \<longleftrightarrow> m = n"
  by (simp add: jsnat_def)

lemma num_less_trans: "num_less a b \<Longrightarrow> num_less b c \<Longrightarrow> num_less a c"
  by (cases a; cases b; cases c) auto

lemma is_safe_integer_integer: "is_safe_integer n \<Longrightarrow> is_integer n"
  by (cases n) auto

lemma is_integer_finite: "is_integer n \<Longrightarrow> is_finite n"
  by (cases n) auto

lemma safe_integer_nat:
  assumes "is_safe_integer n" and "\<not> num_less n (Fin 0)"
  shows "n = jsnat (num_nat n)"
proof (cases n)
  case (Fin q)
  with assms have q: "of_int \<lfloor>q\<rfloor> = q" and "0 \<le> q" by auto
  then have "0 \<le> \<lfloor>q\<rfloor>" by simp
  then have "(of_nat (nat \<lfloor>q\<rfloor>) :: rat) = of_int \<lfloor>q\<rfloor>"
    by (simp add: of_nat_nat)
  with q have "rat_of_nat (nat \<lfloor>q\<rfloor>) = q" by argo
  with Fin show ?thesis by (simp add: jsnat_def)
qed (use assms in auto)

subsection \<open>Rounding to double\<close>

function ilog2 :: "int \<Rightarrow> int" where
  "ilog2 n = (if n \<le> 1 then 0 else 1 + ilog2 (n div 2))"
  by pat_completeness auto
termination
  by (relation "measure nat") auto

declare ilog2.simps [simp del]

text \<open>\<open>2 ^ e\<close> for an integer exponent.\<close>

definition two_pow :: "int \<Rightarrow> rat" where
  "two_pow e = (if 0 \<le> e then 2 ^ nat e else 1 / 2 ^ nat (- e))"

definition round_half_even :: "rat \<Rightarrow> int" where
  "round_half_even q =
     (let f = \<lfloor>q\<rfloor>; r = q - of_int f
      in if r < 1 / 2 then f
         else if r > 1 / 2 then f + 1
         else if even f then f else f + 1)"

text \<open>
  The exponent of the unit in the last place of a positive rational: the largest \<open>e\<close>
  with \<open>2 ^ (e + 52) \<le> q\<close>, never below the subnormal \<open>-1074\<close>.  The first
  guess comes from numerator and denominator and is at most one too small.
\<close>

definition ulp_exponent :: "rat \<Rightarrow> int" where
  "ulp_exponent q =
     (let (a, b) = quotient_of q;
          g = ilog2 a - ilog2 b - 1;
          e = (if two_pow (g + 1) \<le> q then g + 1 else g)
      in max (e - 52) (- 1074))"

definition js_round_pos :: "rat \<Rightarrow> jsnum" where
  "js_round_pos q =
     (let e = ulp_exponent q; m = round_half_even (q / two_pow e); r = of_int m * two_pow e
      in if r \<ge> two_pow 1024 then PInf else Fin r)"

definition js_round :: "rat \<Rightarrow> jsnum" where
  "js_round q =
     (if of_int \<lfloor>q\<rfloor> = q \<and> \<bar>q\<bar> \<le> 9007199254740992 then Fin q
      else if 0 < q then js_round_pos q
      else (case js_round_pos (- q) of Fin r \<Rightarrow> Fin (- r) | _ \<Rightarrow> NInf))"

lemma js_round_safe [simp]: "is_safe_integer (Fin q) \<Longrightarrow> js_round q = Fin q"
  by (simp add: js_round_def max_safe_integer_def)

lemma js_round_not_nan: "js_round q \<noteq> NaN"
  by (auto simp: js_round_def js_round_pos_def Let_def split: if_splits jsnum.splits)

section \<open>Values\<close>

datatype jsval =
    JUndef
  | JNull
  | JBool bool
  | JNum jsnum
  | JStr string
  | JArr "jsval list"
  | JObj "(string \<times> jsval) list"
  | JInst "(string \<times> jsval) list"
  | JFun

text \<open>\<open>value.key\<close> on an object.\<close>

fun field :: "jsval \<Rightarrow> string \<Rightarrow> jsval" where
  "field (JObj kvs) k = (case map_of kvs k of None \<Rightarrow> JUndef | Some v \<Rightarrow> v)"
| "field (JInst kvs) k = (case map_of kvs k of None \<Rightarrow> JUndef | Some v \<Rightarrow> v)"
| "field _ _ = JUndef"

text \<open>\<open>Object.keys(value)\<close> and \<open>Object.hasOwn(value, key)\<close>.\<close>

fun obj_keys :: "jsval \<Rightarrow> string list" where
  "obj_keys (JObj kvs) = map fst kvs"
| "obj_keys (JInst kvs) = map fst kvs"
| "obj_keys _ = []"

definition has_own :: "jsval \<Rightarrow> string \<Rightarrow> bool" where
  "has_own v k \<longleftrightarrow> k \<in> set (obj_keys v)"

text \<open>
  \<open>isPlainObject\<close>, which the packages define again and again with the same body
  (\<open>contracts.ts\<close>, \<open>decode-utils.ts\<close>, \<open>types.ts\<close>, \<dots>).
\<close>

fun isPlainObject :: "jsval \<Rightarrow> bool" where
  "isPlainObject (JObj _) = True"
| "isPlainObject _ = False"

fun is_array :: "jsval \<Rightarrow> bool" where
  "is_array (JArr _) = True"
| "is_array _ = False"

fun is_string :: "jsval \<Rightarrow> bool" where
  "is_string (JStr _) = True"
| "is_string _ = False"

fun is_bool :: "jsval \<Rightarrow> bool" where
  "is_bool (JBool _) = True"
| "is_bool _ = False"

text \<open>\<open>typeof value === "object" && value !== null && !Array.isArray(value)\<close>.\<close>

fun is_object :: "jsval \<Rightarrow> bool" where
  "is_object (JObj _) = True"
| "is_object (JInst _) = True"
| "is_object _ = False"

definition nullish :: "jsval \<Rightarrow> bool" where
  "nullish v \<longleftrightarrow> v = JUndef \<or> v = JNull"

text \<open>Reading a field after a cast: what the field holds when it has the type.\<close>

fun as_str :: "jsval \<Rightarrow> string" where
  "as_str (JStr s) = s"
| "as_str _ = ''''"

fun as_arr :: "jsval \<Rightarrow> jsval list" where
  "as_arr (JArr vs) = vs"
| "as_arr _ = []"

fun as_num :: "jsval \<Rightarrow> jsnum" where
  "as_num (JNum n) = n"
| "as_num _ = NaN"

lemma isPlainObject_iff: "isPlainObject v \<longleftrightarrow> (\<exists>kvs. v = JObj kvs)"
  by (cases v) auto

lemma is_array_iff: "is_array v \<longleftrightarrow> (\<exists>vs. v = JArr vs)"
  by (cases v) auto

lemma is_string_iff: "is_string v \<longleftrightarrow> (\<exists>s. v = JStr s)"
  by (cases v) auto

lemma is_bool_iff: "is_bool v \<longleftrightarrow> (\<exists>b. v = JBool b)"
  by (cases v) auto

lemma field_size:
  "field v k \<noteq> JUndef \<Longrightarrow> size (field v k) < size v"
proof -
  have key: "map_of kvs k = Some w \<Longrightarrow> size w < Suc (size_list (size_prod (\<lambda>_. 0) size) kvs)" for kvs w
    by (induction kvs) (auto split: if_splits)
  assume "field v k \<noteq> JUndef"
  then show ?thesis by (cases v) (auto split: option.splits dest: key)
qed

section \<open>Text\<close>

text \<open>
  \<open>.length\<close>: UTF-16 code units.  Every lead byte starts a code point, and a four byte
  sequence is a surrogate pair.
\<close>

definition is_continuation :: "char \<Rightarrow> bool" where
  "is_continuation c \<longleftrightarrow> 128 \<le> (of_char c :: nat) \<and> (of_char c :: nat) < 192"

fun utf16_length :: "string \<Rightarrow> nat" where
  "utf16_length [] = 0"
| "utf16_length (c # cs) =
     (if is_continuation c then 0 else if 240 \<le> (of_char c :: nat) then 2 else 1) + utf16_length cs"

lemma utf16_length_le: "utf16_length s \<le> 2 * length s"
  by (induction s) auto

subsection \<open>White space and trimming\<close>

text \<open>
  The code points of \<open>WhiteSpace\<close> and \<open>LineTerminator\<close>: what \<open>trim\<close> removes
  and \<open>\s\<close> matches, in UTF-8.
\<close>

definition ws_seqs :: "string list" where
  "ws_seqs =
     [[CHR 0x09], [CHR 0x0A], [CHR 0x0B], [CHR 0x0C], [CHR 0x0D], [CHR 0x20],
      [CHR 0xC2, CHR 0xA0],
      [CHR 0xE1, CHR 0x9A, CHR 0x80],
      [CHR 0xE2, CHR 0x80, CHR 0x80], [CHR 0xE2, CHR 0x80, CHR 0x81], [CHR 0xE2, CHR 0x80, CHR 0x82],
      [CHR 0xE2, CHR 0x80, CHR 0x83], [CHR 0xE2, CHR 0x80, CHR 0x84], [CHR 0xE2, CHR 0x80, CHR 0x85],
      [CHR 0xE2, CHR 0x80, CHR 0x86], [CHR 0xE2, CHR 0x80, CHR 0x87], [CHR 0xE2, CHR 0x80, CHR 0x88],
      [CHR 0xE2, CHR 0x80, CHR 0x89], [CHR 0xE2, CHR 0x80, CHR 0x8A],
      [CHR 0xE2, CHR 0x80, CHR 0xA8], [CHR 0xE2, CHR 0x80, CHR 0xA9], [CHR 0xE2, CHR 0x80, CHR 0xAF],
      [CHR 0xE2, CHR 0x81, CHR 0x9F],
      [CHR 0xE3, CHR 0x80, CHR 0x80],
      [CHR 0xEF, CHR 0xBB, CHR 0xBF]]"

fun strip_prefix :: "string \<Rightarrow> string \<Rightarrow> string option" where
  "strip_prefix [] s = Some s"
| "strip_prefix (p # ps) [] = None"
| "strip_prefix (p # ps) (c # cs) = (if p = c then strip_prefix ps cs else None)"

lemma strip_prefix_Some: "strip_prefix p s = Some r \<longleftrightarrow> s = p @ r"
  by (induction p s rule: strip_prefix.induct) auto

text \<open>The rest after the first of the given sequences that is a proper, non-empty prefix.\<close>

fun strip_any :: "string list \<Rightarrow> string \<Rightarrow> string option" where
  "strip_any [] s = None"
| "strip_any (w # ws) s =
     (case (if w = [] then None else strip_prefix w s) of
        Some r \<Rightarrow> Some r
      | None \<Rightarrow> strip_any ws s)"

lemma strip_prefix_append [simp]: "strip_prefix p (p @ r) = Some r"
  by (simp add: strip_prefix_Some)

lemma strip_any_Some: "strip_any ws s = Some r \<Longrightarrow> \<exists>w \<in> set ws. w \<noteq> [] \<and> s = w @ r"
  by (induction ws) (auto split: option.splits if_splits simp: strip_prefix_Some)

lemma strip_any_None:
  "strip_any ws s = None \<longleftrightarrow> (\<forall>w \<in> set ws. w \<noteq> [] \<longrightarrow> (\<forall>r. s \<noteq> w @ r))"
  by (induction ws) (auto split: option.splits if_splits simp: strip_prefix_Some)

function trim_start_with :: "string list \<Rightarrow> string \<Rightarrow> string" where
  "trim_start_with ws s = (case strip_any ws s of None \<Rightarrow> s | Some r \<Rightarrow> trim_start_with ws r)"
  by pat_completeness auto
termination
  by (relation "measure (\<lambda>(ws, s). length s)") (auto dest!: strip_any_Some)

declare trim_start_with.simps [simp del]

definition js_trim :: "string \<Rightarrow> string" where
  "js_trim s = rev (trim_start_with (map rev ws_seqs) (rev (trim_start_with ws_seqs s)))"

text \<open>\<open>/\s/.test(s)\<close>.\<close>

fun contains_ws :: "string \<Rightarrow> bool" where
  "contains_ws [] = False"
| "contains_ws (c # cs) = (strip_any ws_seqs (c # cs) \<noteq> None \<or> contains_ws cs)"

lemma trim_start_with_suffix: "\<exists>p. s = p @ trim_start_with ws s"
proof (induction ws s rule: trim_start_with.induct)
  case (1 ws s)
  show ?case
  proof (cases "strip_any ws s")
    case None
    then show ?thesis by (simp add: trim_start_with.simps [of ws s])
  next
    case (Some r)
    with "1.IH" obtain p where p: "r = p @ trim_start_with ws r" by auto
    from strip_any_Some [OF Some] obtain w where "s = w @ r" by auto
    with p have "s = (w @ p) @ trim_start_with ws r" by simp
    moreover have "trim_start_with ws s = trim_start_with ws r"
      using Some by (simp add: trim_start_with.simps [of ws s])
    ultimately show ?thesis by metis
  qed
qed

lemma trim_start_with_stop: "strip_any ws (trim_start_with ws s) = None"
proof (induction ws s rule: trim_start_with.induct)
  case (1 ws s)
  then show ?case
    by (cases "strip_any ws s") (simp_all add: trim_start_with.simps [of ws s])
qed

text \<open>\<open>js_trim s\<close> is a middle part of \<open>s\<close>.\<close>

lemma js_trim_infix: "\<exists>p q. s = p @ js_trim s @ q"
proof -
  obtain p where p: "s = p @ trim_start_with ws_seqs s"
    using trim_start_with_suffix by blast
  obtain q where q: "rev (trim_start_with ws_seqs s) = q @ rev (js_trim s)"
    using trim_start_with_suffix [of "rev (trim_start_with ws_seqs s)" "map rev ws_seqs"]
    by (auto simp: js_trim_def)
  then have "trim_start_with ws_seqs s = js_trim s @ rev q"
    by (metis rev_append rev_rev_ident)
  with p show ?thesis by metis
qed

lemma js_trim_length: "length (js_trim s) \<le> length s"
  using js_trim_infix [of s] by (metis length_append le_add1 le_add2 order_trans)

lemma js_trim_id:
  assumes "strip_any ws_seqs s = None" and "strip_any (map rev ws_seqs) (rev s) = None"
  shows "js_trim s = s"
  using assms by (simp add: js_trim_def trim_start_with.simps)

subsection \<open>Lower case\<close>

text \<open>
  \<open>toLowerCase\<close>, as far as comparing the result with an ASCII word needs it: the ASCII
  letters and the Kelvin sign U+212A, the only other code point whose lower case is one
  ASCII letter.  Every other non-ASCII sequence stays non-ASCII and is kept as it is.
\<close>

definition ascii_lower :: "char \<Rightarrow> char" where
  "ascii_lower c =
     (let n = (of_char c :: nat) in if 65 \<le> n \<and> n \<le> 90 then char_of (n + 32) else c)"

fun to_lower :: "string \<Rightarrow> string" where
  "to_lower (a # b # c # cs) =
     (if a = CHR 0xE2 \<and> b = CHR 0x84 \<and> c = CHR 0xAA then CHR ''k'' # to_lower cs
      else ascii_lower a # to_lower (b # c # cs))"
| "to_lower (a # cs) = ascii_lower a # to_lower cs"
| "to_lower [] = []"

subsection \<open>Reading the digits of a decimal numeral\<close>

definition is_digit :: "char \<Rightarrow> bool" where
  "is_digit c \<longleftrightarrow> 48 \<le> (of_char c :: nat) \<and> (of_char c :: nat) \<le> 57"

definition digit_val :: "char \<Rightarrow> int" where
  "digit_val c = of_char c - 48"

definition digits_val :: "string \<Rightarrow> int" where
  "digits_val s = fold (\<lambda>c n. 10 * n + digit_val c) s 0"

text \<open>The structural rules \<open>auto\<close> uses for run-time type tests.\<close>

lemmas js_type_iffs =
  isPlainObject_iff is_array_iff is_string_iff is_bool_iff

declare nullish_def [js_simps]

end
