(* ===== verification/Json_Text.thy ===== *)
theory Json_Text
  imports Js_Value
begin

text \<open>
  \<open>JSON.parse\<close> and \<open>JSON.stringify\<close>, the part of the language's library that decides
  what the adapters send and accept.

  Parsing is a lexer and a push-down automaton over the tokens, both structurally recursive:
  \<open>None\<close> is the \<open>SyntaxError\<close>.  Numbers round to the nearest double (an overflow is
  an infinity), a repeated key keeps its first place and its last value, and integer keys
  come first in ascending order, as property order wants.
\<close>

section \<open>Code points\<close>

fun hex_val :: "char \<Rightarrow> nat option" where
  "hex_val c =
     (let n = of_char c
      in if 48 \<le> n \<and> n \<le> 57 then Some (n - 48)
         else if 65 \<le> n \<and> n \<le> 70 then Some (n - 55)
         else if 97 \<le> n \<and> n \<le> 102 then Some (n - 87)
         else None)"

fun hex4 :: "char \<Rightarrow> char \<Rightarrow> char \<Rightarrow> char \<Rightarrow> nat option" where
  "hex4 a b c d =
     (case (hex_val a, hex_val b, hex_val c, hex_val d) of
        (Some w, Some x, Some y, Some z) \<Rightarrow> Some (((w * 16 + x) * 16 + y) * 16 + z)
      | _ \<Rightarrow> None)"

definition utf8_encode :: "nat \<Rightarrow> string" where
  "utf8_encode u =
     (if u < 128 then [char_of u]
      else if u < 2048 then [char_of (192 + u div 64), char_of (128 + u mod 64)]
      else if u < 65536 then
        [char_of (224 + u div 4096), char_of (128 + u div 64 mod 64), char_of (128 + u mod 64)]
      else
        [char_of (240 + u div 262144), char_of (128 + u div 4096 mod 64),
         char_of (128 + u div 64 mod 64), char_of (128 + u mod 64)])"

definition high_surrogate :: "nat \<Rightarrow> bool" where
  "high_surrogate u \<longleftrightarrow> 55296 \<le> u \<and> u < 56320"

definition low_surrogate :: "nat \<Rightarrow> bool" where
  "low_surrogate u \<longleftrightarrow> 56320 \<le> u \<and> u < 57344"

section \<open>Lexer\<close>

text \<open>A \<open>\u\<close> escape directly after a high surrogate: the low half, and what follows.\<close>

fun low_half :: "string \<Rightarrow> (nat \<times> string) option" where
  "low_half (s # u # a # b # c # d # r) =
     (if s = CHR 0x5C \<and> u = CHR ''u'' then
        (case hex4 a b c d of
           Some l \<Rightarrow> if low_surrogate l then Some (l, r) else None
         | None \<Rightarrow> None)
      else None)"
| "low_half _ = None"

definition simple_escape :: "char \<Rightarrow> char option" where
  "simple_escape e =
     (if e = CHR 0x22 then Some (CHR 0x22)
      else if e = CHR 0x5C then Some (CHR 0x5C)
      else if e = CHR ''/'' then Some (CHR ''/'')
      else if e = CHR ''b'' then Some (CHR 0x08)
      else if e = CHR ''f'' then Some (CHR 0x0C)
      else if e = CHR ''n'' then Some (CHR 0x0A)
      else if e = CHR ''r'' then Some (CHR 0x0D)
      else if e = CHR ''t'' then Some (CHR 0x09)
      else None)"

definition prepend :: "string \<Rightarrow> (string \<times> string) option \<Rightarrow> (string \<times> string) option" where
  "prepend p m = (case m of None \<Rightarrow> None | Some (s, r) \<Rightarrow> Some (p @ s, r))"

lemma low_half_length: "low_half s = Some (l, r) \<Longrightarrow> length r < length s"
  by (induction s rule: low_half.induct) (auto split: if_splits option.splits)

text \<open>The characters after a backslash: what the escape stands for, and the rest.\<close>

definition lex_unicode :: "string \<Rightarrow> (string \<times> string) option" where
  "lex_unicode s =
     (case s of
        h1 # h2 # h3 # h4 # r \<Rightarrow>
          (case hex4 h1 h2 h3 h4 of
             None \<Rightarrow> None
           | Some u \<Rightarrow>
               (case (if high_surrogate u then low_half r else None) of
                  Some (l, r') \<Rightarrow> Some (utf8_encode (65536 + (u - 55296) * 1024 + (l - 56320)), r')
                | None \<Rightarrow> Some (utf8_encode u, r)))
      | _ \<Rightarrow> None)"

definition lex_escape :: "string \<Rightarrow> (string \<times> string) option" where
  "lex_escape s =
     (case s of
        [] \<Rightarrow> None
      | e # r \<Rightarrow>
          if e = CHR ''u'' then lex_unicode r
          else (case simple_escape e of None \<Rightarrow> None | Some d \<Rightarrow> Some ([d], r)))"

lemma lex_unicode_length: "lex_unicode s = Some (d, r) \<Longrightarrow> length r < length s"
  by (force simp: lex_unicode_def split: list.splits option.splits if_splits dest: low_half_length)

lemma lex_escape_length: "lex_escape s = Some (d, r) \<Longrightarrow> length r < length s"
  by (auto simp: lex_escape_def split: list.splits option.splits if_splits dest: lex_unicode_length)

text \<open>The characters after the opening quote: the string, and the rest of the input.\<close>

function lex_str :: "string \<Rightarrow> (string \<times> string) option" where
  "lex_str s =
     (case s of
        [] \<Rightarrow> None
      | c # cs \<Rightarrow>
          if c = CHR 0x22 then Some ([], cs)
          else if c = CHR 0x5C then
            (case lex_escape cs of None \<Rightarrow> None | Some (d, r) \<Rightarrow> prepend d (lex_str r))
          else if (of_char c :: nat) < 32 then None
          else prepend [c] (lex_str cs))"
  by pat_completeness auto
termination
  by (relation "measure length") (auto dest!: lex_escape_length)

declare lex_str.simps [simp del]

lemma prepend_Some: "prepend p m = Some (s, r) \<longleftrightarrow> (\<exists>t. m = Some (t, r) \<and> s = p @ t)"
  by (auto simp: prepend_def split: option.splits)

lemma lex_str_length: "lex_str s = Some (t, r) \<Longrightarrow> length r < length s"
proof (induction s arbitrary: t r rule: lex_str.induct)
  case (1 s)
  show ?case
  proof (cases s)
    case Nil
    with "1.prems" show ?thesis by (simp add: lex_str.simps)
  next
    case (Cons c cs)
    with "1.prems" "1.IH" show ?thesis
      by (fastforce simp: lex_str.simps [of "c # cs"] prepend_Some split: if_splits option.splits
          dest: lex_escape_length)
  qed
qed

definition is_num_char :: "char \<Rightarrow> bool" where
  "is_num_char c \<longleftrightarrow> is_digit c \<or> c \<in> {CHR ''-'', CHR ''+'', CHR ''.'', CHR ''e'', CHR ''E''}"

definition ten_pow :: "int \<Rightarrow> rat" where
  "ten_pow e = (if 0 \<le> e then 10 ^ nat e else 1 / 10 ^ nat (- e))"

text \<open>The exponent part after the \<open>e\<close>.\<close>

definition json_exponent :: "string \<Rightarrow> int option" where
  "json_exponent s =
     (let (neg, ds) = (case s of
            [] \<Rightarrow> (False, [])
          | c # cs \<Rightarrow> if c = CHR ''-'' then (True, cs) else if c = CHR ''+'' then (False, cs) else (False, s))
      in if ds = [] \<or> \<not> list_all is_digit ds then None
         else Some (if neg then - digits_val ds else digits_val ds))"

definition json_unsigned :: "string \<Rightarrow> rat option" where
  "json_unsigned s =
     (let ds = takeWhile is_digit s; r = dropWhile is_digit s
      in if ds = [] \<or> (hd ds = CHR ''0'' \<and> tl ds \<noteq> []) then None
         else
           (let (fs, r2, bad) = (case r of
                  c # cs \<Rightarrow> if c = CHR ''.'' then
                      (takeWhile is_digit cs, dropWhile is_digit cs, takeWhile is_digit cs = [])
                    else ([], r, False)
                | [] \<Rightarrow> ([], [], False))
            in if bad then None
               else
                 (case r2 of
                    [] \<Rightarrow> Some (of_int (digits_val (ds @ fs)) * ten_pow (- int (length fs)))
                  | c # cs \<Rightarrow>
                      if c = CHR ''e'' \<or> c = CHR ''E'' then
                        (case json_exponent cs of
                           None \<Rightarrow> None
                         | Some e \<Rightarrow> Some (of_int (digits_val (ds @ fs)) * ten_pow (e - int (length fs))))
                      else None)))"

definition json_number :: "string \<Rightarrow> jsnum option" where
  "json_number s =
     (case s of
        [] \<Rightarrow> None
      | c # cs \<Rightarrow>
          if c = CHR ''-'' then map_option (\<lambda>q. js_round (- q)) (json_unsigned cs)
          else map_option js_round (json_unsigned s))"

datatype token =
    TLBrack | TRBrack | TLBrace | TRBrace | TColon | TComma
  | TStr string | TLit jsval

definition punct :: "char \<Rightarrow> token option" where
  "punct c =
     (if c = CHR ''['' then Some TLBrack
      else if c = CHR '']'' then Some TRBrack
      else if c = CHR ''{'' then Some TLBrace
      else if c = CHR ''}'' then Some TRBrace
      else if c = CHR '':'' then Some TColon
      else if c = CHR '','' then Some TComma
      else None)"

definition keyword :: "string \<Rightarrow> (jsval \<times> string) option" where
  "keyword s =
     (case strip_prefix ''true'' s of Some r \<Rightarrow> Some (JBool True, r) | None \<Rightarrow>
      case strip_prefix ''false'' s of Some r \<Rightarrow> Some (JBool False, r) | None \<Rightarrow>
      case strip_prefix ''null'' s of Some r \<Rightarrow> Some (JNull, r) | None \<Rightarrow> None)"

lemma keyword_length: "keyword s = Some (v, r) \<Longrightarrow> length r < length s"
  by (auto simp: keyword_def strip_prefix_Some split: option.splits)

lemma keyword_value: "keyword s = Some (v, r) \<Longrightarrow> v = JNull \<or> (\<exists>b. v = JBool b)"
  by (auto simp: keyword_def split: option.splits)

function json_lex :: "string \<Rightarrow> token list option" where
  "json_lex s =
     (case s of
        [] \<Rightarrow> Some []
      | c # cs \<Rightarrow>
          if c = CHR 0x20 \<or> c = CHR 0x09 \<or> c = CHR 0x0A \<or> c = CHR 0x0D then json_lex cs
          else
            (case punct c of
               Some t \<Rightarrow> map_option (Cons t) (json_lex cs)
             | None \<Rightarrow>
                 if c = CHR 0x22 then
                   (case lex_str cs of
                      None \<Rightarrow> None
                    | Some (t, r) \<Rightarrow> map_option (Cons (TStr t)) (json_lex r))
                 else if is_num_char c then
                   (case json_number (takeWhile is_num_char s) of
                      None \<Rightarrow> None
                    | Some n \<Rightarrow> map_option (Cons (TLit (JNum n))) (json_lex (dropWhile is_num_char cs)))
                 else
                   (case keyword s of
                      None \<Rightarrow> None
                    | Some (v, r) \<Rightarrow> map_option (Cons (TLit v)) (json_lex r))))"
  by pat_completeness auto
termination
  by (relation "measure length")
    (auto dest!: lex_str_length keyword_length intro: le_imp_less_Suc [OF length_dropWhile_le])

declare json_lex.simps [simp del]

section \<open>Parser\<close>

text \<open>Setting an own property: an existing key keeps its place.\<close>

fun obj_put :: "(string \<times> 'v) list \<Rightarrow> string \<Rightarrow> 'v \<Rightarrow> (string \<times> 'v) list" where
  "obj_put [] k v = [(k, v)]"
| "obj_put ((k', v') # r) k v = (if k' = k then (k, v) # r else (k', v') # obj_put r k v)"

text \<open>Property order: array indices ascending, then the other keys as they were added.\<close>

definition array_index :: "string \<Rightarrow> int option" where
  "array_index k =
     (if k \<noteq> [] \<and> list_all is_digit k \<and> (hd k = CHR ''0'' \<longrightarrow> k = ''0'') \<and> digits_val k < 4294967295
      then Some (digits_val k) else None)"

definition property_order :: "(string \<times> 'v) list \<Rightarrow> (string \<times> 'v) list" where
  "property_order kvs =
     sort_key (\<lambda>kv. the (array_index (fst kv))) (filter (\<lambda>kv. array_index (fst kv) \<noteq> None) kvs)
     @ filter (\<lambda>kv. array_index (fst kv) = None) kvs"

datatype jframe = FArr "jsval list" | FObj "(string \<times> jsval) list" string

datatype jmode =
    MVal
  | MFirst
  | MKey "(string \<times> jsval) list" bool
  | MColon "(string \<times> jsval) list" string
  | MAfter jsval

fun open_value :: "token \<Rightarrow> jmode option" where
  "open_value (TStr s) = Some (MAfter (JStr s))"
| "open_value (TLit v) = Some (MAfter v)"
| "open_value TLBrack = Some MFirst"
| "open_value TLBrace = Some (MKey [] True)"
| "open_value _ = None"

fun json_run :: "jmode \<Rightarrow> jframe list \<Rightarrow> token list \<Rightarrow> jsval option" where
  "json_run m st [] = (case (m, st) of (MAfter v, []) \<Rightarrow> Some v | _ \<Rightarrow> None)"
| "json_run MVal st (t # ts) =
     (case open_value t of None \<Rightarrow> None | Some m \<Rightarrow> json_run m st ts)"
| "json_run MFirst st (t # ts) =
     (if t = TRBrack then json_run (MAfter (JArr [])) st ts
      else (case open_value t of None \<Rightarrow> None | Some m \<Rightarrow> json_run m (FArr [] # st) ts))"
| "json_run (MKey kvs first) st (t # ts) =
     (case t of
        TStr k \<Rightarrow> json_run (MColon kvs k) st ts
      | TRBrace \<Rightarrow> if first then json_run (MAfter (JObj [])) st ts else None
      | _ \<Rightarrow> None)"
| "json_run (MColon kvs k) st (t # ts) =
     (if t = TColon then json_run MVal (FObj kvs k # st) ts else None)"
| "json_run (MAfter v) (FArr vs # st) (t # ts) =
     (if t = TComma then json_run MVal (FArr (vs @ [v]) # st) ts
      else if t = TRBrack then json_run (MAfter (JArr (vs @ [v]))) st ts
      else None)"
| "json_run (MAfter v) (FObj kvs k # st) (t # ts) =
     (if t = TComma then json_run (MKey (obj_put kvs k v) False) st ts
      else if t = TRBrace then json_run (MAfter (JObj (property_order (obj_put kvs k v)))) st ts
      else None)"
| "json_run (MAfter v) [] (t # ts) = None"

definition json_parse :: "string \<Rightarrow> jsval option" where
  "json_parse s = (case json_lex s of None \<Rightarrow> None | Some ts \<Rightarrow> json_run MVal [] ts)"

section \<open>Stringify\<close>

fun hex_digit :: "nat \<Rightarrow> char" where
  "hex_digit n = (if n < 10 then char_of (48 + n) else char_of (87 + n))"

definition hex4_text :: "nat \<Rightarrow> string" where
  "hex4_text u =
     [hex_digit (u div 4096 mod 16), hex_digit (u div 256 mod 16), hex_digit (u div 16 mod 16),
      hex_digit (u mod 16)]"

definition unicode_escape :: "nat \<Rightarrow> string" where
  "unicode_escape u = [CHR 0x5C, CHR ''u''] @ hex4_text u"

definition escape_char :: "char \<Rightarrow> string" where
  "escape_char c =
     (if c = CHR 0x22 then [CHR 0x5C, CHR 0x22]
      else if c = CHR 0x5C then [CHR 0x5C, CHR 0x5C]
      else if c = CHR 0x08 then [CHR 0x5C, CHR ''b'']
      else if c = CHR 0x0C then [CHR 0x5C, CHR ''f'']
      else if c = CHR 0x0A then [CHR 0x5C, CHR ''n'']
      else if c = CHR 0x0D then [CHR 0x5C, CHR ''r'']
      else if c = CHR 0x09 then [CHR 0x5C, CHR ''t'']
      else if (of_char c :: nat) < 32 then unicode_escape (of_char c)
      else [c])"

text \<open>A lone surrogate at the front (its three byte form), which \<open>stringify\<close> escapes.\<close>

fun surrogate_at :: "string \<Rightarrow> (nat \<times> string) option" where
  "surrogate_at (a # b # c # r) =
     (if a = CHR 0xED \<and> 160 \<le> (of_char b :: nat) \<and> is_continuation b \<and> is_continuation c
      then Some (53248 + (of_char b - 128) * 64 + (of_char c - 128), r) else None)"
| "surrogate_at _ = None"

lemma surrogate_at_length: "surrogate_at s = Some (u, r) \<Longrightarrow> length r < length s"
  by (induction s rule: surrogate_at.induct) (auto split: if_splits)

function json_escape :: "string \<Rightarrow> string" where
  "json_escape s =
     (case s of
        [] \<Rightarrow> []
      | c # cs \<Rightarrow>
          (case surrogate_at s of
             Some (u, r) \<Rightarrow> unicode_escape u @ json_escape r
           | None \<Rightarrow> escape_char c @ json_escape cs))"
  by pat_completeness auto
termination
  by (relation "measure length") (auto dest: surrogate_at_length)

declare json_escape.simps [simp del]

definition json_quote :: "string \<Rightarrow> string" where
  "json_quote s = CHR 0x22 # json_escape s @ [CHR 0x22]"

function nat_text :: "int \<Rightarrow> string" where
  "nat_text n =
     (if n < 10 then [char_of (48 + nat n)]
      else nat_text (n div 10) @ [char_of (48 + nat (n mod 10))])"
  by pat_completeness auto
termination
  by (relation "measure nat") auto

declare nat_text.simps [simp del]

text \<open>The decimal exponent: the \<open>n\<close> with \<open>10 ^ (n - 1) \<le> q < 10 ^ n\<close>, for a positive double.\<close>

definition dec_exponent :: "rat \<Rightarrow> int" where
  "dec_exponent q =
     (if 1 \<le> q then int (length (nat_text \<lfloor>q\<rfloor>))
      else (case List.find (\<lambda>m. 1 \<le> q * 10 ^ m) [1..<400] of
              Some m \<Rightarrow> 1 - int m
            | None \<Rightarrow> - 400))"

text \<open>\<open>k\<close> digits of \<open>q\<close> that still round to \<open>q\<close>, the closer of the two candidates first.\<close>

definition digits_try :: "rat \<Rightarrow> int \<Rightarrow> nat \<Rightarrow> int option" where
  "digits_try q n k =
     (let x = q * ten_pow (int k - n); lo = \<lfloor>x\<rfloor>; hi = lo + 1;
          ok = (\<lambda>s. js_round (of_int s * ten_pow (n - int k)) = Fin q)
      in if x - of_int lo \<le> of_int hi - x
         then (if ok lo then Some lo else if ok hi then Some hi else None)
         else (if ok hi then Some hi else if ok lo then Some lo else None))"

definition shortest_digits :: "rat \<Rightarrow> string \<times> int" where
  "shortest_digits q =
     (let n = dec_exponent q
      in case List.find (\<lambda>k. digits_try q n k \<noteq> None) [1..<18] of
           Some k \<Rightarrow> (nat_text (the (digits_try q n k)), n)
         | None \<Rightarrow> (nat_text \<lfloor>q\<rfloor>, n))"

definition layout_number :: "string \<Rightarrow> int \<Rightarrow> string" where
  "layout_number ds n =
     (let k = int (length ds)
      in if k \<le> n \<and> n \<le> 21 then ds @ replicate (nat (n - k)) (CHR ''0'')
         else if 0 < n \<and> n \<le> 21 then take (nat n) ds @ ''.'' @ drop (nat n) ds
         else if - 6 < n \<and> n \<le> 0 then ''0.'' @ replicate (nat (- n)) (CHR ''0'') @ ds
         else
           take 1 ds @ (if k = 1 then [] else ''.'' @ drop 1 ds) @ ''e''
             @ (if n - 1 < 0 then ''-'' else ''+'') @ nat_text \<bar>n - 1\<bar>)"

definition number_text :: "rat \<Rightarrow> string" where
  "number_text q =
     (let a = \<bar>q\<bar>;
          t = (if of_int \<lfloor>a\<rfloor> = a \<and> a \<le> 9007199254740992 then nat_text \<lfloor>a\<rfloor>
               else (case shortest_digits a of (ds, n) \<Rightarrow> layout_number ds n))
      in if q < 0 then ''-'' @ t else t)"

fun comma_sep :: "string list \<Rightarrow> string" where
  "comma_sep [] = []"
| "comma_sep [x] = x"
| "comma_sep (x # xs) = x @ '','' @ comma_sep xs"

text \<open>\<open>None\<close> is the result \<open>undefined\<close>.\<close>

fun json_stringify :: "jsval \<Rightarrow> string option" where
  "json_stringify JUndef = None"
| "json_stringify JFun = None"
| "json_stringify JNull = Some ''null''"
| "json_stringify (JBool b) = Some (if b then ''true'' else ''false'')"
| "json_stringify (JNum n) = Some (case n of Fin q \<Rightarrow> number_text q | _ \<Rightarrow> ''null'')"
| "json_stringify (JStr s) = Some (json_quote s)"
| "json_stringify (JArr vs) =
     Some (''['' @ comma_sep (map (\<lambda>v. case json_stringify v of None \<Rightarrow> ''null'' | Some t \<Rightarrow> t) vs) @ '']'')"
| "json_stringify (JObj kvs) =
     Some (''{'' @ comma_sep (concat (map (\<lambda>kv. case json_stringify (snd kv) of
        None \<Rightarrow> [] | Some t \<Rightarrow> [json_quote (fst kv) @ '':'' @ t]) kvs)) @ ''}'')"
| "json_stringify (JInst kvs) =
     Some (''{'' @ comma_sep (concat (map (\<lambda>kv. case json_stringify (snd kv) of
        None \<Rightarrow> [] | Some t \<Rightarrow> [json_quote (fst kv) @ '':'' @ t]) kvs)) @ ''}'')"

text \<open>\<open>JSON.stringify\<close> of a value that has a JSON form.\<close>

definition stringify_text :: "jsval \<Rightarrow> string" where
  "stringify_text v = (case json_stringify v of None \<Rightarrow> [] | Some t \<Rightarrow> t)"

subsection \<open>What parsing can return\<close>

fun json_ok :: "jsval \<Rightarrow> bool" where
  "json_ok JNull = True"
| "json_ok (JBool _) = True"
| "json_ok (JStr _) = True"
| "json_ok (JNum n) = (n \<noteq> NaN)"
| "json_ok (JArr vs) = list_all json_ok vs"
| "json_ok (JObj kvs) = (distinct (map fst kvs) \<and> list_all (\<lambda>kv. json_ok (snd kv)) kvs)"
| "json_ok _ = False"

definition props_ok :: "(string \<times> jsval) list \<Rightarrow> bool" where
  "props_ok kvs \<longleftrightarrow> distinct (map fst kvs) \<and> list_all (\<lambda>kv. json_ok (snd kv)) kvs"

fun token_ok :: "token \<Rightarrow> bool" where
  "token_ok (TLit v) = json_ok v"
| "token_ok _ = True"

fun frame_ok :: "jframe \<Rightarrow> bool" where
  "frame_ok (FArr vs) = list_all json_ok vs"
| "frame_ok (FObj kvs k) = props_ok kvs"

fun mode_ok :: "jmode \<Rightarrow> bool" where
  "mode_ok (MKey kvs _) = props_ok kvs"
| "mode_ok (MColon kvs _) = props_ok kvs"
| "mode_ok (MAfter v) = json_ok v"
| "mode_ok _ = True"

lemma obj_put_keys: "set (map fst (obj_put kvs k v)) = insert k (set (map fst kvs))"
  by (induction kvs k v rule: obj_put.induct) auto

lemma obj_put_values: "kv \<in> set (obj_put kvs k v) \<Longrightarrow> kv = (k, v) \<or> kv \<in> set kvs"
  by (induction kvs k v rule: obj_put.induct) (auto split: if_splits)

lemma obj_put_distinct: "distinct (map fst kvs) \<Longrightarrow> distinct (map fst (obj_put kvs k v))"
proof (induction kvs k v rule: obj_put.induct)
  case (2 k' v' r k v)
  then show ?case using obj_put_keys [of r k v] by auto
qed simp

lemma map_of_obj_put: "map_of (obj_put kvs k v) = (map_of kvs)(k \<mapsto> v)"
  by (induction kvs k v rule: obj_put.induct) auto

lemma props_ok_put: "props_ok kvs \<Longrightarrow> json_ok v \<Longrightarrow> props_ok (obj_put kvs k v)"
  by (auto simp: props_ok_def obj_put_distinct list_all_iff dest!: obj_put_values)

lemma set_property_order: "set (property_order kvs) = set kvs"
  by (auto simp: property_order_def)

lemma distinct_keys_split:
  assumes "distinct (map fst kvs)"
  shows "distinct (map fst (sort_key f (filter P kvs) @ filter (\<lambda>kv. \<not> P kv) kvs))"
proof -
  have inj: "inj_on fst (set kvs)" and d: "distinct kvs"
    using assms by (simp_all add: distinct_map)
  have "distinct (sort_key f (filter P kvs) @ filter (\<lambda>kv. \<not> P kv) kvs)"
    using d by auto
  moreover have "set (sort_key f (filter P kvs) @ filter (\<lambda>kv. \<not> P kv) kvs) = set kvs"
    by auto
  ultimately show ?thesis using inj by (simp only: distinct_map simp_thms)
qed

lemma props_ok_order: "props_ok kvs \<Longrightarrow> props_ok (property_order kvs)"
  using distinct_keys_split [of kvs _ "\<lambda>kv. array_index (fst kv) \<noteq> None"]
  by (auto simp: props_ok_def list_all_iff set_property_order) (auto simp: property_order_def)

lemma map_of_property_order:
  assumes "distinct (map fst kvs)"
  shows "map_of (property_order kvs) = map_of kvs"
proof -
  have "distinct (map fst (property_order kvs))"
    using distinct_keys_split [OF assms, of _ "\<lambda>kv. array_index (fst kv) \<noteq> None"]
    by (simp add: property_order_def)
  then show ?thesis using assms
    by (metis map_of_inject_set set_property_order)
qed

lemma json_ok_JObj: "json_ok (JObj kvs) \<longleftrightarrow> props_ok kvs"
  by (simp add: props_ok_def)

lemma open_value_ok: "open_value t = Some m \<Longrightarrow> token_ok t \<Longrightarrow> mode_ok m"
  by (cases t) (auto simp: props_ok_def)

lemma json_run_ok:
  "json_run m st ts = Some v \<Longrightarrow> mode_ok m \<Longrightarrow> list_all frame_ok st \<Longrightarrow> list_all token_ok ts
    \<Longrightarrow> json_ok v"
  by (induction m st ts rule: json_run.induct)
    (auto split: jmode.splits list.splits option.splits token.splits if_splits
      simp: open_value_ok props_ok_put props_ok_order json_ok_JObj simp del: json_ok.simps(6),
     auto simp: props_ok_def)

lemma json_number_not_nan: "json_number s = Some n \<Longrightarrow> n \<noteq> NaN"
  by (auto simp: json_number_def js_round_not_nan split: list.splits if_splits)

lemma punct_ok: "punct c = Some t \<Longrightarrow> token_ok t"
  by (auto simp: punct_def split: if_splits)

lemma json_lex_ok: "json_lex s = Some ts \<Longrightarrow> list_all token_ok ts"
proof (induction "length s" arbitrary: s ts rule: less_induct)
  case less
  note IH = less.hyps [rule_format]
  show ?case
  proof (cases s)
    case Nil
    with less.prems show ?thesis by (simp add: json_lex.simps)
  next
    case (Cons c cs)
    have drop: "length (dropWhile is_num_char cs) < length s"
      using Cons by (simp add: le_imp_less_Suc length_dropWhile_le)
    note lex = less.prems [unfolded Cons, unfolded json_lex.simps [of "c # cs"], simplified]
    show ?thesis
    proof (cases "c = CHR 0x20 \<or> c = CHR 0x09 \<or> c = CHR 0x0A \<or> c = CHR 0x0D")
      case True
      with lex have "json_lex cs = Some ts" by auto
      then show ?thesis by (rule IH [rotated]) (simp add: Cons)
    next
      case False
      note lex = lex [unfolded if_not_P [OF False]]
      show ?thesis
      proof (cases "punct c")
        case (Some t)
        with lex False obtain z where "json_lex cs = Some z" and "ts = t # z" by auto
        then show ?thesis using IH [of cs z] punct_ok [OF Some] by (simp add: Cons)
      next
        case None
        note lex = lex [unfolded None option.case]
        consider (str) t r z where "lex_str cs = Some (t, r)" "json_lex r = Some z" "ts = TStr t # z"
          | (num) n z where "json_number (takeWhile is_num_char (c # cs)) = Some n"
              "json_lex (dropWhile is_num_char cs) = Some z" "ts = TLit (JNum n) # z"
          | (lit) v r z where "keyword (c # cs) = Some (v, r)" "json_lex r = Some z" "ts = TLit v # z"
          using lex by (auto split: if_splits option.splits)
        then show ?thesis
        proof cases
          case str
          then show ?thesis using IH [of r z] lex_str_length [of cs t r] by (simp add: Cons)
        next
          case num
          then show ?thesis using IH [OF drop, of z] json_number_not_nan [OF num(1)] by simp
        next
          case lit
          then show ?thesis
            using IH [of r z] keyword_length [OF lit(1)] keyword_value [OF lit(1)] by (auto simp: Cons)
        qed
      qed
    qed
  qed
qed

theorem json_parse_ok: "json_parse s = Some v \<Longrightarrow> json_ok v"
  by (auto simp: json_parse_def split: option.splits intro: json_run_ok dest: json_lex_ok)

end
