(* ===== verification/Contracts.thy ===== *)
theory Contracts
  imports Json_Text
begin

text \<open>
  \<open>packages/agent-contracts\<close>: the data every other package exchanges and the run-time
  validators of a model request (\<open>src/contracts.ts\<close>, \<open>src/gateway-contracts.ts\<close>).

  The validators take a raw value (\<open>unknown\<close> in the source) and answer the error they
  throw, its code and its message.  The typed records are what the rest of the program reads out
  of a value once it has been validated; \<open>as_request\<close> and its companions are the casts.
  They are total, and are only read on values that the validators accept; what is proved of raw
  values is stated with the shape predicates beside them (\<open>request_shape\<close>).
\<close>

section \<open>Data\<close>

datatype agent_role = System | User | Assistant | Tool

fun role_name :: "agent_role \<Rightarrow> string" where
  "role_name System = ''system''"
| "role_name User = ''user''"
| "role_name Assistant = ''assistant''"
| "role_name Tool = ''tool''"

text \<open>
  \<open>isError\<close> is kept as a raw value (\<open>JUndef\<close> when absent): the shared validator does
  not look at it, and its readers test it again.
\<close>

datatype content_block =
    TextBlock (block_text: string)
  | ToolCallBlock (call_id: string) (call_name: string) (call_input: jsval)
  | ToolResultBlock (result_id: string) (result_content: string) (result_is_error: jsval)

record agent_message =
  role :: agent_role
  content :: "content_block list"

record tool_definition =
  tool_name :: string
  tool_description :: string
  tool_schema :: jsval

record model_request =
  requestId :: string
  routeId :: string
  model :: string
  messages :: "agent_message list"
  tools :: "tool_definition list"
  maxTokens :: jsnum

text \<open>
  What a gateway streams.  The fields that the consumers test again at run time (the parts of a
  tool call, the code and the retry flag of an error) are raw values; \<open>MOther\<close> is an event
  whose type is none of the declared ones.
\<close>

datatype model_event =
    MTextDelta string
  | MToolCall jsval jsval jsval
  | MUsage jsnum jsnum
  | MCompleted
  | MError jsval string jsval
  | MOther

section \<open>JSON values\<close>

fun isJsonPrimitive :: "jsval \<Rightarrow> bool" where
  "isJsonPrimitive JNull = True"
| "isJsonPrimitive (JStr _) = True"
| "isJsonPrimitive (JBool _) = True"
| "isJsonPrimitive (JNum n) = is_finite n"
| "isJsonPrimitive _ = False"

fun isJsonValue :: "jsval \<Rightarrow> bool" where
  "isJsonValue (JArr vs) = list_all isJsonValue vs"
| "isJsonValue (JObj kvs) = list_all (\<lambda>kv. isJsonValue (snd kv)) kvs"
| "isJsonValue v = isJsonPrimitive v"

section \<open>Validators\<close>

type_synonym validation_error = "string \<times> string"

definition forbidden_request_fields :: "string list" where
  "forbidden_request_fields =
     [''apikey'', ''api_key'', ''token'', ''authorization'', ''headers'', ''baseurl'', ''base_url'',
      ''endpoint'', ''providersecret'', ''provider_secret'', ''refreshtoken'', ''refresh_token'', ''oauth'']"

definition allowed_agent_roles :: "string list" where
  "allowed_agent_roles = [''system'', ''user'', ''assistant'', ''tool'']"

definition assertNonEmptyString :: "jsval \<Rightarrow> string \<Rightarrow> string \<Rightarrow> validation_error + unit" where
  "assertNonEmptyString v code label =
     (if \<not> is_string v \<or> as_str v = [] then Inl (code, label @ '' must be a non-empty string.'')
      else Inr ())"

definition assertJsonValue :: "jsval \<Rightarrow> string \<Rightarrow> string \<Rightarrow> validation_error + unit" where
  "assertJsonValue v code label =
     (if \<not> isJsonValue v then Inl (code, label @ '' must be a JSON-serializable value.'')
      else Inr ())"

definition assertAgentRole :: "jsval \<Rightarrow> validation_error + unit" where
  "assertAgentRole v =
     (if \<not> is_string v \<or> as_str v \<notin> set allowed_agent_roles
      then Inl (''invalid_role'', ''Each message role must be one of: system, user, assistant, tool.'')
      else Inr ())"

text \<open>One iteration of the inner loop; the state is \<open>seenToolCallIds\<close>.\<close>

definition validate_block :: "jsval \<Rightarrow> string set \<Rightarrow> validation_error + string set" where
  "validate_block block seen =
     (if \<not> isPlainObject block then
        Inl (''invalid_content_block'', ''Each content block must be an object.'')
      else if field block ''type'' = JStr ''text'' then
        (if \<not> is_string (field block ''text'')
         then Inl (''invalid_text'', ''Text content must be a string.'') else Inr seen)
      else if field block ''type'' = JStr ''tool_call'' then
        rbind (assertNonEmptyString (field block ''id'') ''empty_tool_call_id'' ''tool_call.id'') (\<lambda>_.
        rbind (assertNonEmptyString (field block ''name'') ''empty_tool_name'' ''tool_call.name'') (\<lambda>_.
        if as_str (field block ''id'') \<in> seen then
          Inl (''duplicate_tool_call_id'', ''tool_call.id values must be unique within a request.'')
        else
          rbind (assertJsonValue (field block ''input'') ''invalid_tool_input'' ''tool_call.input'') (\<lambda>_.
          Inr (insert (as_str (field block ''id'')) seen))))
      else if field block ''type'' = JStr ''tool_result'' then
        rbind (assertNonEmptyString (field block ''toolCallId'') ''empty_tool_result_id'' ''tool_result.toolCallId'') (\<lambda>_.
        if \<not> is_string (field block ''content'') then
          Inl (''invalid_tool_result_content'', ''tool_result.content must be a string.'')
        else if as_str (field block ''toolCallId'') \<notin> seen then
          Inl (''unknown_tool_call_ref'', ''tool_result.toolCallId must reference a prior tool_call.id.'')
        else Inr seen)
      else Inl (''unknown_content_block'', ''Unsupported content block type.''))"

text \<open>One iteration of the outer loop.\<close>

definition validate_message :: "jsval \<Rightarrow> string set \<Rightarrow> validation_error + string set" where
  "validate_message message seen =
     (if \<not> isPlainObject message then
        Inl (''invalid_message'', ''Each message must be an object.'')
      else
        rbind (assertAgentRole (field message ''role'')) (\<lambda>_.
        if \<not> is_array (field message ''content'') \<or> as_arr (field message ''content'') = [] then
          Inl (''empty_content'', ''Each message must contain at least one content block.'')
        else rfold validate_block (as_arr (field message ''content'')) seen))"

definition validateAgentMessages :: "jsval \<Rightarrow> validation_error + unit" where
  "validateAgentMessages msgs =
     (if \<not> is_array msgs \<or> as_arr msgs = [] then
        Inl (''empty_messages'', ''messages must be a non-empty array.'')
      else rbind (rfold validate_message (as_arr msgs) {}) (\<lambda>_. Inr ()))"

text \<open>One iteration over the tool definitions; the state is \<open>seenNames\<close>.\<close>

definition validate_tool :: "jsval \<Rightarrow> string set \<Rightarrow> validation_error + string set" where
  "validate_tool t seen =
     (if \<not> isPlainObject t then
        Inl (''invalid_tool_definition'', ''Each tool definition must be an object.'')
      else
        rbind (assertNonEmptyString (field t ''name'') ''empty_tool_name'' ''tool.name'') (\<lambda>_.
        if as_str (field t ''name'') \<in> seen then
          Inl (''duplicate_tool_name'', ''tool.name values must be unique within a request.'')
        else if \<not> is_string (field t ''description'') then
          Inl (''invalid_tool_description'', ''tool.description must be a string.'')
        else
          rbind (assertJsonValue (field t ''inputSchema'') ''invalid_tool_input_schema'' ''tool.inputSchema'') (\<lambda>_.
          Inr (insert (as_str (field t ''name'')) seen))))"

definition validateAgentToolDefinitions :: "jsval \<Rightarrow> validation_error + unit" where
  "validateAgentToolDefinitions ts =
     (if \<not> is_array ts then Inl (''invalid_tools'', ''tools must be an array.'')
      else rbind (rfold validate_tool (as_arr ts) {}) (\<lambda>_. Inr ()))"

definition positive_integer :: "jsval \<Rightarrow> bool" where
  "positive_integer v =
     (case v of JNum n \<Rightarrow> is_integer n \<and> \<not> num_le n (Fin 0) | _ \<Rightarrow> False)"

definition validateModelRequest :: "jsval \<Rightarrow> validation_error + unit" where
  "validateModelRequest request =
     (if \<not> isPlainObject request then
        Inl (''invalid_request'', ''Model request must be an object.'')
      else if list_ex (\<lambda>key. to_lower key \<in> set forbidden_request_fields) (obj_keys request) then
        Inl (''forbidden_request_field'',
             ''Model request contains a field that is not allowed on Agent Core requests.'')
      else
        rbind (assertNonEmptyString (field request ''requestId'') ''empty_request_id'' ''requestId'') (\<lambda>_.
        rbind (assertNonEmptyString (field request ''routeId'') ''empty_route_id'' ''routeId'') (\<lambda>_.
        rbind (assertNonEmptyString (field request ''model'') ''empty_model'' ''model'') (\<lambda>_.
        if \<not> positive_integer (field request ''maxTokens'') then
          Inl (''invalid_max_tokens'', ''maxTokens must be a positive integer.'')
        else if \<not> is_array (field request ''messages'') then
          Inl (''invalid_messages'', ''messages must be an array.'')
        else
          rbind (validateAgentMessages (field request ''messages'')) (\<lambda>_.
          if \<not> is_array (field request ''tools'') then
            Inl (''invalid_tools'', ''tools must be an array.'')
          else validateAgentToolDefinitions (field request ''tools''))))))"

section \<open>The casts\<close>

definition as_role :: "jsval \<Rightarrow> agent_role" where
  "as_role v =
     (if v = JStr ''system'' then System
      else if v = JStr ''user'' then User
      else if v = JStr ''assistant'' then Assistant
      else Tool)"

definition as_block :: "jsval \<Rightarrow> content_block" where
  "as_block b =
     (if field b ''type'' = JStr ''text'' then TextBlock (as_str (field b ''text''))
      else if field b ''type'' = JStr ''tool_call'' then
        ToolCallBlock (as_str (field b ''id'')) (as_str (field b ''name'')) (field b ''input'')
      else
        ToolResultBlock (as_str (field b ''toolCallId'')) (as_str (field b ''content'')) (field b ''isError''))"

definition as_message :: "jsval \<Rightarrow> agent_message" where
  "as_message m =
     \<lparr>role = as_role (field m ''role''), content = map as_block (as_arr (field m ''content''))\<rparr>"

definition as_tool :: "jsval \<Rightarrow> tool_definition" where
  "as_tool t =
     \<lparr>tool_name = as_str (field t ''name''), tool_description = as_str (field t ''description''),
      tool_schema = field t ''inputSchema''\<rparr>"

definition as_request :: "jsval \<Rightarrow> model_request" where
  "as_request r =
     \<lparr>requestId = as_str (field r ''requestId''), routeId = as_str (field r ''routeId''),
      model = as_str (field r ''model''),
      messages = map as_message (as_arr (field r ''messages'')),
      tools = map as_tool (as_arr (field r ''tools'')),
      maxTokens = as_num (field r ''maxTokens'')\<rparr>"

text \<open>And back: the object a typed record is.\<close>

fun block_value :: "content_block \<Rightarrow> jsval" where
  "block_value (TextBlock t) = JObj [(''type'', JStr ''text''), (''text'', JStr t)]"
| "block_value (ToolCallBlock i n inp) =
     JObj [(''type'', JStr ''tool_call''), (''id'', JStr i), (''name'', JStr n), (''input'', inp)]"
| "block_value (ToolResultBlock i c e) =
     JObj ([(''type'', JStr ''tool_result''), (''toolCallId'', JStr i), (''content'', JStr c)]
       @ (if e = JUndef then [] else [(''isError'', e)]))"

definition message_value :: "agent_message \<Rightarrow> jsval" where
  "message_value m =
     JObj [(''role'', JStr (role_name (role m))), (''content'', JArr (map block_value (content m)))]"

definition tool_value :: "tool_definition \<Rightarrow> jsval" where
  "tool_value t =
     JObj [(''name'', JStr (tool_name t)), (''description'', JStr (tool_description t)),
           (''inputSchema'', tool_schema t)]"

definition request_value :: "model_request \<Rightarrow> jsval" where
  "request_value r =
     JObj [(''requestId'', JStr (requestId r)), (''routeId'', JStr (routeId r)), (''model'', JStr (model r)),
           (''messages'', JArr (map message_value (messages r))),
           (''tools'', JArr (map tool_value (tools r))), (''maxTokens'', JNum (maxTokens r))]"

lemma as_role_name [simp]: "as_role (JStr (role_name r)) = r"
  by (cases r) (simp_all add: as_role_def)

lemma as_block_value [simp]: "as_block (block_value b) = b"
  by (cases b) (simp_all add: as_block_def)

lemma as_message_value [simp]: "as_message (message_value m) = m"
  by (simp add: as_message_def message_value_def comp_def)

lemma as_tool_value [simp]: "as_tool (tool_value t) = t"
  by (simp add: as_tool_def tool_value_def)

lemma as_request_value [simp]: "as_request (request_value r) = r"
  by (simp add: as_request_def request_value_def comp_def)

section \<open>What the validators establish\<close>

fun call_ids :: "content_block list \<Rightarrow> string list" where
  "call_ids [] = []"
| "call_ids (ToolCallBlock i n inp # bs) = i # call_ids bs"
| "call_ids (_ # bs) = call_ids bs"

fun block_wf :: "content_block \<Rightarrow> bool" where
  "block_wf (TextBlock t) = True"
| "block_wf (ToolCallBlock i n inp) = (i \<noteq> [] \<and> n \<noteq> [] \<and> isJsonValue inp)"
| "block_wf (ToolResultBlock i c e) = (i \<noteq> [])"

text \<open>Every tool result answers a call that stands earlier in the conversation.\<close>

definition results_follow_calls :: "content_block list \<Rightarrow> bool" where
  "results_follow_calls bs \<longleftrightarrow>
     (\<forall>xs i c e ys. bs = xs @ ToolResultBlock i c e # ys \<longrightarrow> i \<in> set (call_ids xs))"

definition conversation :: "agent_message list \<Rightarrow> content_block list" where
  "conversation ms = concat (map content ms)"

definition messages_wf :: "agent_message list \<Rightarrow> bool" where
  "messages_wf ms \<longleftrightarrow>
     ms \<noteq> [] \<and> (\<forall>m \<in> set ms. content m \<noteq> []) \<and> (\<forall>b \<in> set (conversation ms). block_wf b)
     \<and> distinct (call_ids (conversation ms)) \<and> results_follow_calls (conversation ms)"

definition tools_wf :: "tool_definition list \<Rightarrow> bool" where
  "tools_wf ts \<longleftrightarrow>
     distinct (map tool_name ts) \<and> (\<forall>t \<in> set ts. tool_name t \<noteq> [] \<and> isJsonValue (tool_schema t))"

definition request_wf :: "model_request \<Rightarrow> bool" where
  "request_wf r \<longleftrightarrow>
     requestId r \<noteq> [] \<and> routeId r \<noteq> [] \<and> model r \<noteq> []
     \<and> is_integer (maxTokens r) \<and> num_less (Fin 0) (maxTokens r)
     \<and> messages_wf (messages r) \<and> tools_wf (tools r)"

text \<open>The same condition as a scan with the ids seen so far, which is what the loop computes.\<close>

fun resolved :: "string set \<Rightarrow> content_block list \<Rightarrow> bool" where
  "resolved S [] = True"
| "resolved S (TextBlock t # bs) = resolved S bs"
| "resolved S (ToolCallBlock i n inp # bs) = (i \<notin> S \<and> resolved (insert i S) bs)"
| "resolved S (ToolResultBlock i c e # bs) = (i \<in> S \<and> resolved S bs)"

lemma call_ids_append [simp]: "call_ids (xs @ ys) = call_ids xs @ call_ids ys"
  by (induction xs rule: call_ids.induct) auto

lemma resolved_append:
  "resolved S (xs @ ys) \<longleftrightarrow> resolved S xs \<and> resolved (S \<union> set (call_ids xs)) ys"
  by (induction S xs rule: resolved.induct) auto

lemma resolved_distinct:
  "resolved S bs \<Longrightarrow> distinct (call_ids bs) \<and> set (call_ids bs) \<inter> S = {}"
  by (induction S bs rule: resolved.induct) auto

definition answers_in :: "string set \<Rightarrow> content_block list \<Rightarrow> bool" where
  "answers_in S bs \<longleftrightarrow>
     (\<forall>xs i c e ys. bs = xs @ ToolResultBlock i c e # ys \<longrightarrow> i \<in> S \<union> set (call_ids xs))"

lemma answers_in_Nil: "answers_in S []"
  by (simp add: answers_in_def)

lemma answers_in_Cons:
  "answers_in S (b # bs) \<longleftrightarrow>
     (\<forall>i c e. b = ToolResultBlock i c e \<longrightarrow> i \<in> S) \<and> answers_in (S \<union> set (call_ids [b])) bs"
  (is "?L \<longleftrightarrow> ?R")
proof
  assume L: ?L
  have "i \<in> S" if "b = ToolResultBlock i c e" for i c e
    using L [unfolded answers_in_def, rule_format, of "[]" i c e bs] that by simp
  moreover have "i \<in> S \<union> set (call_ids [b]) \<union> set (call_ids xs)"
    if "bs = xs @ ToolResultBlock i c e # ys" for xs i c e ys
    using L [unfolded answers_in_def, rule_format, of "b # xs" i c e ys] that
      call_ids_append [of "[b]" xs] by auto
  ultimately show ?R unfolding answers_in_def by blast
next
  assume R: ?R
  show ?L unfolding answers_in_def
  proof (intro allI impI)
    fix xs i c e ys
    assume eq: "b # bs = xs @ ToolResultBlock i c e # ys"
    show "i \<in> S \<union> set (call_ids xs)"
    proof (cases xs)
      case Nil
      with eq R show ?thesis by auto
    next
      case (Cons x xs')
      with eq have "bs = xs' @ ToolResultBlock i c e # ys" and "x = b" by auto
      with R Cons show ?thesis
        unfolding answers_in_def using call_ids_append [of "[b]" xs'] by fastforce
    qed
  qed
qed

lemma resolved_iff:
  "resolved S bs \<longleftrightarrow> distinct (call_ids bs) \<and> set (call_ids bs) \<inter> S = {} \<and> answers_in S bs"
proof (induction S bs rule: resolved.induct)
  case (1 S)
  show ?case by (simp add: answers_in_Nil)
qed (auto simp: answers_in_Cons)

lemma resolved_empty: "resolved {} bs \<longleftrightarrow> distinct (call_ids bs) \<and> results_follow_calls bs"
  by (simp add: resolved_iff results_follow_calls_def answers_in_def)

lemma validate_block_sound:
  "validate_block b seen = Inr seen' \<Longrightarrow>
     block_wf (as_block b) \<and> resolved seen [as_block b] \<and> seen' = seen \<union> set (call_ids [as_block b])"
  by (auto simp: validate_block_def as_block_def assertNonEmptyString_def assertJsonValue_def
      split: if_splits)

lemma validate_blocks_sound:
  "rfold validate_block bs seen = Inr seen' \<Longrightarrow>
     (\<forall>b \<in> set bs. block_wf (as_block b)) \<and> resolved seen (map as_block bs)
     \<and> seen' = seen \<union> set (call_ids (map as_block bs))"
proof (induction bs arbitrary: seen)
  case Nil
  then show ?case by simp
next
  case (Cons b bs)
  then obtain u where u: "validate_block b seen = Inr u" and rest: "rfold validate_block bs u = Inr seen'"
    by auto
  have cat: "as_block b # map as_block bs = [as_block b] @ map as_block bs" by simp
  show ?case
    using validate_block_sound [OF u] Cons.IH [OF rest]
    unfolding list.map cat resolved_append call_ids_append by auto
qed

lemma validate_messages_sound:
  "rfold validate_message ms seen = Inr seen' \<Longrightarrow>
     (\<forall>m \<in> set ms. content (as_message m) \<noteq> [])
     \<and> (\<forall>b \<in> set (conversation (map as_message ms)). block_wf b)
     \<and> resolved seen (conversation (map as_message ms))
     \<and> seen' = seen \<union> set (call_ids (conversation (map as_message ms)))"
proof (induction ms arbitrary: seen)
  case Nil
  then show ?case by (simp add: conversation_def)
next
  case (Cons m ms)
  then obtain u where u: "validate_message m seen = Inr u" and rest: "rfold validate_message ms u = Inr seen'"
    by auto
  from u have ne: "as_arr (field m ''content'') \<noteq> []"
    and blocks: "rfold validate_block (as_arr (field m ''content'')) seen = Inr u"
    by (auto simp: validate_message_def split: if_splits)
  show ?case
    using validate_blocks_sound [OF blocks] ne Cons.IH [OF rest]
    by (auto simp: conversation_def as_message_def resolved_append)
qed

lemma validateAgentMessages_sound:
  "validateAgentMessages v = Inr u \<Longrightarrow> messages_wf (map as_message (as_arr v))"
  using validate_messages_sound [of "as_arr v" "{}"]
  by (auto simp: validateAgentMessages_def messages_wf_def resolved_empty split: if_splits)

lemma validate_tools_sound:
  "rfold validate_tool ts seen = Inr seen' \<Longrightarrow>
     distinct (map tool_name (map as_tool ts)) \<and> set (map tool_name (map as_tool ts)) \<inter> seen = {}
     \<and> (\<forall>t \<in> set ts. tool_name (as_tool t) \<noteq> [] \<and> isJsonValue (tool_schema (as_tool t)))"
proof (induction ts arbitrary: seen)
  case Nil
  then show ?case by simp
next
  case (Cons t ts)
  then obtain u where u: "validate_tool t seen = Inr u" and rest: "rfold validate_tool ts u = Inr seen'"
    by auto
  from u have "tool_name (as_tool t) \<noteq> []" and "tool_name (as_tool t) \<notin> seen"
    and "isJsonValue (tool_schema (as_tool t))" and "u = insert (tool_name (as_tool t)) seen"
    by (auto simp: validate_tool_def as_tool_def assertNonEmptyString_def assertJsonValue_def split: if_splits)
  with Cons.IH [OF rest] show ?case by auto
qed

lemma validateAgentToolDefinitions_sound:
  "validateAgentToolDefinitions v = Inr u \<Longrightarrow> tools_wf (map as_tool (as_arr v))"
  using validate_tools_sound [of "as_arr v" "{}"]
  by (auto simp: validateAgentToolDefinitions_def tools_wf_def split: if_splits)

lemma positive_integer_sound:
  "positive_integer v \<Longrightarrow> is_integer (as_num v) \<and> num_less (Fin 0) (as_num v)"
  by (cases v; cases "as_num v") (auto simp: positive_integer_def)

lemma validateModelRequest_wf:
  "validateModelRequest v = Inr u \<Longrightarrow> request_wf (as_request v)"
  by (auto simp: validateModelRequest_def request_wf_def as_request_def assertNonEmptyString_def
      split: if_splits dest!: validateAgentMessages_sound validateAgentToolDefinitions_sound positive_integer_sound)

section \<open>What they accept\<close>

lemma validate_block_complete:
  "block_wf b \<Longrightarrow> resolved seen [b] \<Longrightarrow>
     validate_block (block_value b) seen = Inr (seen \<union> set (call_ids [b]))"
  by (cases b) (auto simp: validate_block_def assertNonEmptyString_def assertJsonValue_def)

lemma validate_blocks_complete:
  "(\<forall>b \<in> set bs. block_wf b) \<Longrightarrow> resolved seen bs \<Longrightarrow>
     rfold validate_block (map block_value bs) seen = Inr (seen \<union> set (call_ids bs))"
proof (induction bs arbitrary: seen)
  case Nil
  then show ?case by simp
next
  case (Cons b bs)
  have cat: "b # bs = [b] @ bs" by simp
  from Cons.prems have b: "resolved seen [b]" and bs: "resolved (seen \<union> set (call_ids [b])) bs"
    unfolding cat resolved_append by simp_all
  have ids: "seen \<union> set (call_ids (b # bs)) = (seen \<union> set (call_ids [b])) \<union> set (call_ids bs)"
    unfolding cat call_ids_append by auto
  show ?case
    unfolding ids using validate_block_complete [OF _ b] Cons.IH [OF _ bs] Cons.prems(1) by simp
qed

lemma validate_messages_complete:
  "(\<forall>m \<in> set ms. content m \<noteq> []) \<Longrightarrow> (\<forall>b \<in> set (conversation ms). block_wf b) \<Longrightarrow>
     resolved seen (conversation ms) \<Longrightarrow>
     rfold validate_message (map message_value ms) seen = Inr (seen \<union> set (call_ids (conversation ms)))"
proof (induction ms arbitrary: seen)
  case Nil
  then show ?case by (simp add: conversation_def)
next
  case (Cons m ms)
  from Cons.prems have m: "resolved seen (content m)"
    and ms: "resolved (seen \<union> set (call_ids (content m))) (conversation ms)"
    by (simp_all add: conversation_def resolved_append)
  have role: "assertAgentRole (JStr (role_name (role m))) = Inr ()"
    by (cases "role m") (simp_all add: assertAgentRole_def allowed_agent_roles_def)
  have "validate_message (message_value m) seen = Inr (seen \<union> set (call_ids (content m)))"
    using Cons.prems(1,2) validate_blocks_complete [OF _ m] role
    by (simp add: validate_message_def message_value_def conversation_def)
  then show ?case
    using Cons.IH [OF _ _ ms] Cons.prems(1,2) by (simp add: conversation_def Un_assoc)
qed

lemma validateAgentMessages_complete:
  "messages_wf ms \<Longrightarrow> validateAgentMessages (JArr (map message_value ms)) = Inr ()"
  using validate_messages_complete [of ms "{}"]
  by (auto simp: messages_wf_def validateAgentMessages_def resolved_empty)

lemma validate_tools_complete:
  "distinct (map tool_name ts) \<Longrightarrow> set (map tool_name ts) \<inter> seen = {} \<Longrightarrow>
     (\<forall>t \<in> set ts. tool_name t \<noteq> [] \<and> isJsonValue (tool_schema t)) \<Longrightarrow>
     rfold validate_tool (map tool_value ts) seen = Inr (seen \<union> set (map tool_name ts))"
  by (induction ts arbitrary: seen)
    (auto simp: validate_tool_def tool_value_def assertNonEmptyString_def assertJsonValue_def)

lemma validateAgentToolDefinitions_complete:
  "tools_wf ts \<Longrightarrow> validateAgentToolDefinitions (JArr (map tool_value ts)) = Inr ()"
  using validate_tools_complete [of ts "{}"]
  by (auto simp: tools_wf_def validateAgentToolDefinitions_def)

lemma request_value_fields_allowed:
  "\<not> list_ex (\<lambda>key. to_lower key \<in> set forbidden_request_fields) (obj_keys (request_value r))"
  by (simp add: request_value_def forbidden_request_fields_def ascii_lower_def)

lemma validateModelRequest_complete:
  assumes "request_wf r"
  shows "validateModelRequest (request_value r) = Inr ()"
proof -
  have "positive_integer (JNum (maxTokens r))"
    using assms by (cases "maxTokens r") (auto simp: request_wf_def positive_integer_def)
  with assms request_value_fields_allowed [of r] show ?thesis
    by (simp add: validateModelRequest_def request_wf_def assertNonEmptyString_def request_value_def
        validateAgentMessages_complete validateAgentToolDefinitions_complete)
qed


section \<open>The shape of a raw request\<close>

text \<open>
  What the validators test of the raw value itself, before anything is read out of it: which
  values are objects, arrays, strings and numbers, and which names a role and a block type may
  have.  The casts are total functions and give some record for every value (an unknown role is
  read as \<open>Tool\<close>, a field that is no string as the empty text), so \<open>request_wf\<close> of a
  cast value says nothing of a value that lacks its shape; on a value that has it they lose
  nothing (\<open>shaped_request_reads\<close>).  The program casts a value only once it has been
  validated.
\<close>

definition block_shape :: "jsval \<Rightarrow> bool" where
  "block_shape b \<longleftrightarrow> isPlainObject b \<and>
     (field b ''type'' = JStr ''text'' \<and> is_string (field b ''text'')
      \<or> field b ''type'' = JStr ''tool_call'' \<and> is_string (field b ''id'') \<and> is_string (field b ''name'')
      \<or> field b ''type'' = JStr ''tool_result'' \<and> is_string (field b ''toolCallId'')
          \<and> is_string (field b ''content''))"

definition message_shape :: "jsval \<Rightarrow> bool" where
  "message_shape m \<longleftrightarrow> isPlainObject m
     \<and> field m ''role'' \<in> {JStr ''system'', JStr ''user'', JStr ''assistant'', JStr ''tool''}
     \<and> is_array (field m ''content'') \<and> list_all block_shape (as_arr (field m ''content''))"

definition tool_shape :: "jsval \<Rightarrow> bool" where
  "tool_shape t \<longleftrightarrow> isPlainObject t \<and> is_string (field t ''name'') \<and> is_string (field t ''description'')"

definition request_shape :: "jsval \<Rightarrow> bool" where
  "request_shape r \<longleftrightarrow> isPlainObject r
     \<and> is_string (field r ''requestId'') \<and> is_string (field r ''routeId'') \<and> is_string (field r ''model'')
     \<and> field r ''maxTokens'' = JNum (as_num (field r ''maxTokens''))
     \<and> is_array (field r ''messages'') \<and> list_all message_shape (as_arr (field r ''messages''))
     \<and> is_array (field r ''tools'') \<and> list_all tool_shape (as_arr (field r ''tools''))"

text \<open>On values of this shape the typed record holds what the value holds.\<close>

lemma shaped_block_reads:
  "block_shape b \<Longrightarrow>
     list_all (\<lambda>k. field (block_value (as_block b)) k = field b k)
       (case as_block b of
          TextBlock _ \<Rightarrow> [''type'', ''text'']
        | ToolCallBlock _ _ _ \<Rightarrow> [''type'', ''id'', ''name'', ''input'']
        | ToolResultBlock _ _ _ \<Rightarrow> [''type'', ''toolCallId'', ''content'', ''isError''])"
  by (auto simp: block_shape_def as_block_def is_string_iff)

lemma shaped_message_reads:
  "message_shape m \<Longrightarrow>
     JStr (role_name (as_role (field m ''role''))) = field m ''role''
     \<and> length (content (as_message m)) = length (as_arr (field m ''content''))"
  by (auto simp: message_shape_def as_role_def as_message_def)

text \<open>What each loop of the validators decides, on raw values.\<close>

lemma validate_block_exact:
  "validate_block b seen = Inr seen' \<longleftrightarrow>
     block_shape b \<and> block_wf (as_block b) \<and> resolved seen [as_block b]
     \<and> seen' = seen \<union> set (call_ids [as_block b])"
proof
  assume v: "validate_block b seen = Inr seen'"
  then have "block_shape b"
    by (auto simp: validate_block_def block_shape_def assertNonEmptyString_def split: if_splits)
  with validate_block_sound [OF v]
  show "block_shape b \<and> block_wf (as_block b) \<and> resolved seen [as_block b]
     \<and> seen' = seen \<union> set (call_ids [as_block b])" by simp
next
  assume r: "block_shape b \<and> block_wf (as_block b) \<and> resolved seen [as_block b]
     \<and> seen' = seen \<union> set (call_ids [as_block b])"
  then have plain: "isPlainObject b" by (simp add: block_shape_def)
  from r consider
      (t) "field b ''type'' = JStr ''text''" and "is_string (field b ''text'')"
    | (c) "field b ''type'' = JStr ''tool_call''" and "is_string (field b ''id'')"
        and "is_string (field b ''name'')"
    | (a) "field b ''type'' = JStr ''tool_result''" and "is_string (field b ''toolCallId'')"
        and "is_string (field b ''content'')"
    unfolding block_shape_def by blast
  then show "validate_block b seen = Inr seen'"
    using r by cases (simp_all add: plain validate_block_def as_block_def assertNonEmptyString_def assertJsonValue_def)
qed

lemma validate_blocks_exact:
  "rfold validate_block bs seen = Inr seen' \<longleftrightarrow>
     list_all block_shape bs \<and> list_all block_wf (map as_block bs) \<and> resolved seen (map as_block bs)
     \<and> seen' = seen \<union> set (call_ids (map as_block bs))"
proof (induction bs arbitrary: seen)
  case Nil
  then show ?case by auto
next
  case (Cons b bs)
  have cat: "as_block b # map as_block bs = [as_block b] @ map as_block bs" by simp
  show ?case
    unfolding rfold.simps rbind_eq_Inr validate_block_exact Cons.IH list.map cat resolved_append call_ids_append
    by auto
qed

lemma assertAgentRole_exact:
  "assertAgentRole v = Inr () \<longleftrightarrow>
     v \<in> {JStr ''system'', JStr ''user'', JStr ''assistant'', JStr ''tool''}"
  by (cases v) (auto simp: assertAgentRole_def allowed_agent_roles_def)

lemma validate_message_exact:
  "validate_message m seen = Inr seen' \<longleftrightarrow>
     message_shape m \<and> content (as_message m) \<noteq> [] \<and> list_all block_wf (content (as_message m))
     \<and> resolved seen (content (as_message m)) \<and> seen' = seen \<union> set (call_ids (content (as_message m)))"
  by (auto simp: validate_message_def message_shape_def assertAgentRole_exact validate_blocks_exact
      as_message_def )

lemma validate_messages_exact:
  "rfold validate_message ms seen = Inr seen' \<longleftrightarrow>
     list_all message_shape ms \<and> list_all (\<lambda>m. content (as_message m) \<noteq> []) ms
     \<and> list_all block_wf (conversation (map as_message ms))
     \<and> resolved seen (conversation (map as_message ms))
     \<and> seen' = seen \<union> set (call_ids (conversation (map as_message ms)))"
  by (induction ms arbitrary: seen)
    (auto simp: validate_message_exact conversation_def resolved_append)

lemma validateAgentMessages_exact:
  "validateAgentMessages v = Inr () \<longleftrightarrow>
     is_array v \<and> list_all message_shape (as_arr v) \<and> messages_wf (map as_message (as_arr v))"
  by (auto simp: validateAgentMessages_def validate_messages_exact messages_wf_def 
      resolved_empty list_all_iff)

lemma validate_tools_exact:
  "rfold validate_tool ts seen = Inr seen' \<longleftrightarrow>
     list_all tool_shape ts \<and> distinct (map tool_name (map as_tool ts))
     \<and> set (map tool_name (map as_tool ts)) \<inter> seen = {}
     \<and> list_all (\<lambda>t. tool_name t \<noteq> [] \<and> isJsonValue (tool_schema t)) (map as_tool ts)
     \<and> seen' = seen \<union> set (map tool_name (map as_tool ts))"
  by (induction ts arbitrary: seen)
    (auto simp: validate_tool_def tool_shape_def as_tool_def
      assertNonEmptyString_def assertJsonValue_def)

lemma validateAgentToolDefinitions_exact:
  "validateAgentToolDefinitions v = Inr () \<longleftrightarrow>
     is_array v \<and> list_all tool_shape (as_arr v) \<and> tools_wf (map as_tool (as_arr v))"
  by (auto simp: validateAgentToolDefinitions_def validate_tools_exact tools_wf_def  list_all_iff)

lemma positive_integer_exact:
  "positive_integer v \<longleftrightarrow>
     v = JNum (as_num v) \<and> is_integer (as_num v) \<and> num_less (Fin 0) (as_num v)"
  by (cases v; cases "as_num v") (auto simp: positive_integer_def)

lemma assertNonEmptyString_exact:
  "assertNonEmptyString v code label = Inr () \<longleftrightarrow> is_string v \<and> as_str v \<noteq> []"
  by (simp add: assertNonEmptyString_def)

section \<open>Properties\<close>


text \<open>
  C40: the validator accepts exactly the well-formed raw requests.  The value and each message,
  content block and tool definition are plain objects; the three names and every text, call id,
  tool name, result id, result text and description are strings, ids and names not empty; every
  role is one of the four; there is at least one message and no message without a block; call
  ids and tool names are unique, every tool result answers a call that stands earlier, tool
  inputs and schemas are JSON values, \<open>maxTokens\<close> is a positive integer; and no key names a
  credential, an endpoint or headers, in any letter case.
\<close>

theorem request_acceptance_exact:
  "validateModelRequest v = Inr () \<longleftrightarrow>
     request_shape v \<and> request_wf (as_request v)
     \<and> list_all (\<lambda>k. to_lower k \<notin>
          {''apikey'', ''api_key'', ''token'', ''authorization'', ''headers'', ''baseurl'', ''base_url'',
           ''endpoint'', ''providersecret'', ''provider_secret'', ''refreshtoken'', ''refresh_token'',
           ''oauth''}) (obj_keys v)"
  by (auto simp: validateModelRequest_def  assertNonEmptyString_exact positive_integer_exact
      validateAgentMessages_exact validateAgentToolDefinitions_exact request_shape_def request_wf_def
      as_request_def forbidden_request_fields_def list_ex_iff list_all_iff)

text \<open>
  Read as a decision on typed requests, the validator accepts exactly the well-formed ones: it
  never rejects a request that keeps the contract.
\<close>

theorem request_validation_exact:
  "validateModelRequest (request_value r) = Inr () \<longleftrightarrow> request_wf r"
  using validateModelRequest_complete validateModelRequest_wf [of "request_value r"] by auto

end
