(* ===== verification/Adapter_Common.thy ===== *)
theory Adapter_Common
  imports Contracts
begin

text \<open>
  What the protocol adapters of \<open>packages/model-gateway/src/adapters\<close> share: the error
  codes and their fixed messages (\<open>errors.ts\<close>), the limits (\<open>types.ts\<close>) and the
  decode primitives (\<open>decode-utils.ts\<close>).
\<close>

section \<open>Errors\<close>

datatype adapter_code = InvalidAdapterRequest | UnsupportedAdapterInput | InvalidAdapterOptions

fun adapter_error_message :: "adapter_code \<Rightarrow> string" where
  "adapter_error_message InvalidAdapterRequest =
     ''The model request cannot be expressed with the supported provider protocol subset.''"
| "adapter_error_message UnsupportedAdapterInput =
     ''The model request contains a value that cannot be represented losslessly.''"
| "adapter_error_message InvalidAdapterOptions = ''The adapter options are invalid.''"

datatype stream_code = Aborted | ProviderProtocolError | UpstreamUnavailable | RateLimited | GatewayError

fun code_text :: "stream_code \<Rightarrow> string" where
  "code_text Aborted = ''aborted''"
| "code_text ProviderProtocolError = ''provider_protocol_error''"
| "code_text UpstreamUnavailable = ''upstream_unavailable''"
| "code_text RateLimited = ''rate_limited''"
| "code_text GatewayError = ''gateway_error''"

fun streamErrorMessage :: "stream_code \<Rightarrow> string" where
  "streamErrorMessage Aborted = ''Request aborted.''"
| "streamErrorMessage ProviderProtocolError = ''The provider stream is outside the supported protocol subset.''"
| "streamErrorMessage UpstreamUnavailable = ''The upstream provider is currently unavailable.''"
| "streamErrorMessage RateLimited = ''The upstream provider rate limited this request.''"
| "streamErrorMessage GatewayError = ''Model gateway request failed.''"

definition streamErrorEvent :: "stream_code \<Rightarrow> model_event" where
  "streamErrorEvent c =
     MError (JStr (code_text c)) (streamErrorMessage c) (JBool (c = RateLimited \<or> c = UpstreamUnavailable))"

lemma code_text_inject [simp]: "code_text a = code_text b \<longleftrightarrow> a = b"
  by (cases a; cases b) simp_all

lemma streamErrorEvent_inject [simp]: "streamErrorEvent a = streamErrorEvent b \<longleftrightarrow> a = b"
  by (auto simp: streamErrorEvent_def)

text \<open>The two kinds of event that end a stream, and the error events the adapters may emit.\<close>

fun is_terminal :: "model_event \<Rightarrow> bool" where
  "is_terminal MCompleted = True"
| "is_terminal (MError _ _ _) = True"
| "is_terminal _ = False"

fun sanitized :: "model_event \<Rightarrow> bool" where
  "sanitized (MError c m r) =
     list_ex (\<lambda>k. MError c m r = streamErrorEvent k)
       [Aborted, ProviderProtocolError, UpstreamUnavailable, RateLimited, GatewayError]"
| "sanitized _ = True"

lemma is_terminal_error [simp]: "is_terminal (streamErrorEvent c)"
  by (simp add: streamErrorEvent_def)

lemma sanitized_error [simp]: "sanitized (streamErrorEvent c)"
  by (cases c) (simp_all add: streamErrorEvent_def)

lemma sanitized_iff: "sanitized (MError c m r) \<longleftrightarrow> (\<exists>k. MError c m r = streamErrorEvent k)"
proof
  assume "\<exists>k. MError c m r = streamErrorEvent k"
  then show "sanitized (MError c m r)" by (metis sanitized_error)
qed auto

text \<open>\<open>AdapterStreamError("provider_protocol_error")\<close>.\<close>

definition protocolError :: stream_code where
  "protocolError = ProviderProtocolError"

section \<open>Limits\<close>

definition default_max_frame_bytes :: nat where
  "default_max_frame_bytes = 1024 * 1024"

definition default_max_tool_input_bytes :: nat where
  "default_max_tool_input_bytes = 1024 * 1024"

text \<open>
  \<open>normalizeMaxFrameBytes\<close> and \<open>readPositiveSafeInteger\<close> have one body.
\<close>

definition readPositiveSafeInteger :: "jsval \<Rightarrow> nat \<Rightarrow> adapter_code + nat" where
  "readPositiveSafeInteger v fallback =
     (if v = JUndef then Inr fallback
      else (case v of
              JNum n \<Rightarrow> if \<not> is_safe_integer n \<or> num_le n (Fin 0) then Inl InvalidAdapterOptions
                        else Inr (num_nat n)
            | _ \<Rightarrow> Inl InvalidAdapterOptions))"

definition normalizeMaxFrameBytes :: "jsval \<Rightarrow> adapter_code + nat" where
  "normalizeMaxFrameBytes v = readPositiveSafeInteger v default_max_frame_bytes"

lemma readPositiveSafeInteger_pos:
  "readPositiveSafeInteger v d = Inr n \<Longrightarrow> 0 < d \<Longrightarrow> 0 < n"
  by (cases v; cases "as_num v")
    (auto simp: readPositiveSafeInteger_def not_le zero_less_floor split: if_splits)

section \<open>Decode primitives\<close>

definition isNonNegativeInteger :: "jsval \<Rightarrow> bool" where
  "isNonNegativeInteger v =
     (case v of JNum n \<Rightarrow> is_safe_integer n \<and> num_le (Fin 0) n | _ \<Rightarrow> False)"

definition parseJsonObjectFrame :: "string \<Rightarrow> stream_code + jsval" where
  "parseJsonObjectFrame d =
     (case json_parse d of
        None \<Rightarrow> Inl protocolError
      | Some v \<Rightarrow> if \<not> isPlainObject v then Inl protocolError else Inr v)"

definition readTokenCount :: "jsval \<Rightarrow> stream_code + jsnum option" where
  "readTokenCount v =
     (if v = JUndef then Inr None
      else if \<not> isNonNegativeInteger v then Inl protocolError
      else Inr (Some (as_num v)))"

fun isFiniteJsonValue :: "jsval \<Rightarrow> nat \<Rightarrow> bool" where
  "isFiniteJsonValue v depth =
     (if 64 < depth then False
      else (case v of
              JNull \<Rightarrow> True
            | JStr _ \<Rightarrow> True
            | JBool _ \<Rightarrow> True
            | JNum n \<Rightarrow> is_finite n
            | JArr vs \<Rightarrow> list_all (\<lambda>w. isFiniteJsonValue w (depth + 1)) vs
            | JObj kvs \<Rightarrow> list_all (\<lambda>kv. isFiniteJsonValue (snd kv) (depth + 1)) kvs
            | _ \<Rightarrow> False))"

declare isFiniteJsonValue.simps [simp del]

definition assertFiniteJsonValue :: "jsval \<Rightarrow> stream_code + unit" where
  "assertFiniteJsonValue v = (if \<not> isFiniteJsonValue v 0 then Inl protocolError else Inr ())"

definition parseToolInputObject :: "string \<Rightarrow> stream_code + jsval" where
  "parseToolInputObject raw =
     (case json_parse raw of
        None \<Rightarrow> Inl protocolError
      | Some v \<Rightarrow>
          if \<not> isPlainObject v then Inl protocolError
          else rbind (assertFiniteJsonValue v) (\<lambda>_. Inr v))"

definition cache_token_fields :: "string list" where
  "cache_token_fields = [''cache_creation_input_tokens'', ''cache_read_input_tokens'']"

definition assertNoCacheTokens :: "jsval \<Rightarrow> stream_code + unit" where
  "assertNoCacheTokens usage =
     rall (\<lambda>f. let v = field usage f in
       if nullish v then Inr () else if v \<noteq> JNum (Fin 0) then Inl protocolError else Inr ())
     cache_token_fields"

text \<open>\<open>utf8ByteLength\<close>: text is kept as its UTF-8 encoding.\<close>

definition utf8ByteLength :: "string \<Rightarrow> nat" where
  "utf8ByteLength s = length s"

definition mapStructuredErrorType :: "jsval \<Rightarrow> string list \<Rightarrow> string list \<Rightarrow> stream_code" where
  "mapStructuredErrorType t rateLimitedTypes unavailableTypes =
     (if \<not> is_string t then GatewayError
      else if as_str t \<in> set rateLimitedTypes then RateLimited
      else if as_str t \<in> set unavailableTypes then UpstreamUnavailable
      else GatewayError)"

lemma isFiniteJsonValue_json: "isFiniteJsonValue v d \<Longrightarrow> isJsonValue v"
proof (induction v d rule: isFiniteJsonValue.induct)
  case (1 v depth)
  then show ?case
    by (cases v) (auto simp: isFiniteJsonValue.simps [of _ depth] list_all_iff split: if_splits)
qed

lemma parseToolInputObject_ok:
  "parseToolInputObject raw = Inr v \<Longrightarrow>
     isPlainObject v \<and> isFiniteJsonValue v 0 \<and> json_parse raw = Some v"
  by (auto simp: parseToolInputObject_def assertFiniteJsonValue_def
      split: option.splits if_splits)

lemma parseJsonObjectFrame_ok:
  "parseJsonObjectFrame d = Inr v \<Longrightarrow> isPlainObject v \<and> json_ok v"
  by (auto simp: parseJsonObjectFrame_def split: option.splits if_splits dest: json_parse_ok)

lemma isNonNegativeInteger_nat:
  assumes "isNonNegativeInteger v"
  shows "\<exists>n. v = JNum (jsnat n)"
proof (cases v)
  case (JNum n)
  with assms have "is_safe_integer n" and "\<not> num_less n (Fin 0)"
    by (cases n; simp add: isNonNegativeInteger_def)+
  then have "n = jsnat (num_nat n)" by (rule safe_integer_nat)
  with JNum show ?thesis by blast
qed (use assms in \<open>simp_all add: isNonNegativeInteger_def\<close>)

lemma readTokenCount_nat:
  "readTokenCount v = Inr (Some n) \<Longrightarrow> \<exists>k. n = jsnat k"
  using isNonNegativeInteger_nat [of v] by (auto simp: readTokenCount_def split: if_splits)


text \<open>\<open>if (input !== undefined) state.inputTokens = input\<close>.\<close>

definition or_keep :: "'a option \<Rightarrow> 'a option \<Rightarrow> 'a option" where
  "or_keep new old = (case new of None \<Rightarrow> old | Some v \<Rightarrow> Some v)"

definition usage_events :: "jsnum option \<Rightarrow> jsnum option \<Rightarrow> model_event list" where
  "usage_events input output =
     (case (input, output) of (Some i, Some ou) \<Rightarrow> [MUsage i ou] | _ \<Rightarrow> [])"

section \<open>Well-formed event streams\<close>

text \<open>
  What a consumer may rely on in the events of a decoder: no empty text, tool calls with a
  non-empty id and name and a finite JSON object as input, token counts that are natural numbers,
  errors with a fixed code and message only; no two tool calls with one id; and no text after the
  first tool call.
\<close>

definition input_ok :: "jsval \<Rightarrow> bool" where
  "input_ok v \<longleftrightarrow> isPlainObject v \<and> isFiniteJsonValue v 0"

fun event_ok :: "model_event \<Rightarrow> bool" where
  "event_ok (MTextDelta t) = (t \<noteq> [])"
| "event_ok (MToolCall i n v) =
     (is_string i \<and> as_str i \<noteq> [] \<and> is_string n \<and> as_str n \<noteq> [] \<and> input_ok v)"
| "event_ok (MUsage a b) = (a = jsnat (num_nat a) \<and> b = jsnat (num_nat b))"
| "event_ok MCompleted = True"
| "event_ok (MError c m r) = sanitized (MError c m r)"
| "event_ok MOther = False"

fun is_text :: "model_event \<Rightarrow> bool" where
  "is_text (MTextDelta _) = True"
| "is_text _ = False"

fun is_call :: "model_event \<Rightarrow> bool" where
  "is_call (MToolCall _ _ _) = True"
| "is_call _ = False"

fun called_ids :: "model_event list \<Rightarrow> jsval list" where
  "called_ids [] = []"
| "called_ids (MToolCall i _ _ # es) = i # called_ids es"
| "called_ids (_ # es) = called_ids es"

fun text_first :: "model_event list \<Rightarrow> bool" where
  "text_first [] = True"
| "text_first (e # es) = (if is_call e then list_all (\<lambda>f. \<not> is_text f) es else text_first es)"

definition stream_wf :: "model_event list \<Rightarrow> bool" where
  "stream_wf es \<longleftrightarrow> list_all event_ok es \<and> distinct (called_ids es) \<and> text_first es"

lemma called_ids_append [simp]: "called_ids (xs @ ys) = called_ids xs @ called_ids ys"
  by (induction xs rule: called_ids.induct) auto

lemma text_first_append:
  "text_first (xs @ ys) \<longleftrightarrow>
     text_first xs \<and> (if list_ex is_call xs then list_all (\<lambda>f. \<not> is_text f) ys else text_first ys)"
  by (induction xs) auto

lemma no_text_text_first: "list_all (\<lambda>f. \<not> is_text f) es \<Longrightarrow> text_first es"
  by (induction es) auto

lemma called_ids_empty: "called_ids es = [] \<longleftrightarrow> \<not> list_ex is_call es"
  by (induction es rule: called_ids.induct) auto

lemma event_ok_error [simp]: "event_ok (streamErrorEvent c)"
  by (cases c) (simp_all add: streamErrorEvent_def)

lemma stream_wf_prefix: "stream_wf (xs @ ys) \<Longrightarrow> stream_wf xs"
  by (simp add: stream_wf_def text_first_append)

lemma stream_wf_texts:
  "list_all (\<lambda>e. is_text e \<and> event_ok e) xs \<Longrightarrow> stream_wf xs \<and> \<not> list_ex is_call xs"
proof (induction xs)
  case (Cons e xs)
  then show ?case by (cases e) (auto simp: stream_wf_def)
qed (simp add: stream_wf_def)

lemma stream_wf_batch:
  assumes "stream_wf xs" and "\<not> list_ex is_call xs" and "list_all event_ok ys"
    and "distinct (called_ids ys)" and "list_all (\<lambda>f. \<not> is_text f) ys"
  shows "stream_wf (xs @ ys)"
proof -
  have "called_ids xs = []" using assms(2) by (simp add: called_ids_empty)
  with assms show ?thesis by (simp add: stream_wf_def text_first_append no_text_text_first)
qed

lemma stream_wf_tail:
  assumes "stream_wf xs" and "list_all (\<lambda>e. event_ok e \<and> \<not> is_call e \<and> \<not> is_text e) ys"
  shows "stream_wf (xs @ ys)"
proof -
  have "called_ids ys = []" and "list_all event_ok ys" and "list_all (\<lambda>f. \<not> is_text f) ys"
    using assms(2) by (auto simp: called_ids_empty list_all_iff list_ex_iff)
  with assms(1) show ?thesis by (simp add: stream_wf_def text_first_append no_text_text_first)
qed

lemma error_kind [simp]: "\<not> is_call (streamErrorEvent c)" "\<not> is_text (streamErrorEvent c)"
  by (simp_all add: streamErrorEvent_def)

lemma stream_wf_error: "stream_wf xs \<Longrightarrow> stream_wf (xs @ [streamErrorEvent c])"
  by (erule stream_wf_tail) simp

section \<open>Token counts\<close>

definition count_ok :: "jsnum option \<Rightarrow> bool" where
  "count_ok m \<longleftrightarrow> (case m of None \<Rightarrow> True | Some n \<Rightarrow> n = jsnat (num_nat n))"

lemma count_ok_read: "readTokenCount v = Inr m \<Longrightarrow> count_ok old \<Longrightarrow> count_ok (or_keep m old)"
  using readTokenCount_nat [of v] by (cases m) (auto simp: count_ok_def or_keep_def)

lemma usage_events_simps [simp]:
  "list_all (\<lambda>e. \<not> is_terminal e) (usage_events i ou)"
  "called_ids (usage_events i ou) = []"
  "list_all (\<lambda>e. \<not> is_text e) (usage_events i ou)"
  by (auto simp: usage_events_def split: option.splits)


lemma usage_events_ok: "count_ok i \<Longrightarrow> count_ok ou \<Longrightarrow> list_all event_ok (usage_events i ou)"
  by (auto simp: usage_events_def count_ok_def split: option.splits)

text \<open>The tool input that streamed JSON fragments stand for.\<close>

definition fragments_input :: "string list \<Rightarrow> stream_code + jsval" where
  "fragments_input fr =
     (let s = js_trim (concat fr) in if s = [] then Inr (JObj []) else parseToolInputObject s)"

end
