(* ===== verification/Sse.thy ===== *)
theory Sse
  imports Adapter_Common
begin

text \<open>
  \<open>packages/model-gateway/src/adapters/sse.ts\<close>: the incremental Server-Sent Events framer.

  The parser is the record of the private fields of \<open>SseFrameParser\<close>; a byte is a
  \<open>char\<close>.  The generator \<open>framesFrom\<close> is the list of the frames it yields with what
  ends it: the error it throws, or the parser after the chunk.  Its loops are kept with their
  cursors.  \<open>text_decoder\<close> is \<open>TextDecoder("utf-8", { fatal: true })\<close> used with
  \<open>stream: true\<close>: the state machine of the Encoding standard, byte by byte, which keeps an
  unfinished sequence between two calls and drops a byte order mark in front of the first
  character of the stream.
\<close>

record sse_event =
  ev_event :: "string option"
  ev_data :: string
  ev_id :: "string option"
  ev_retry :: "jsnum option"

definition LF :: char where
  "LF = CHR 0x0A"

definition CR :: char where
  "CR = CHR 0x0D"

lemma LF_neq_CR [simp]: "LF \<noteq> CR" "CR \<noteq> LF"
  by (simp_all add: LF_def CR_def)

section \<open>TextDecoder\<close>

record text_decoder =
  td_seq :: string
  td_need :: nat
  td_lower :: nat
  td_upper :: nat
  td_bom :: bool

definition td_init :: text_decoder where
  "td_init = \<lparr>td_seq = [], td_need = 0, td_lower = 128, td_upper = 191, td_bom = False\<rparr>"

definition byte_order_mark :: string where
  "byte_order_mark = [CHR 0xEF, CHR 0xBB, CHR 0xBF]"

definition td_emit :: "text_decoder \<Rightarrow> string \<Rightarrow> text_decoder \<times> string" where
  "td_emit d s =
     (d\<lparr>td_seq := [], td_need := 0, td_lower := 128, td_upper := 191, td_bom := True\<rparr>,
      if \<not> td_bom d \<and> s = byte_order_mark then [] else s)"

definition decode_byte :: "text_decoder \<Rightarrow> char \<Rightarrow> (text_decoder \<times> string) option" where
  "decode_byte d c =
     (let n = (of_char c :: nat)
      in if td_need d = 0 then
           (if n < 128 then Some (td_emit d [c])
            else if 194 \<le> n \<and> n \<le> 223 then
              Some (d\<lparr>td_seq := [c], td_need := 1, td_lower := 128, td_upper := 191\<rparr>, [])
            else if 224 \<le> n \<and> n \<le> 239 then
              Some (d\<lparr>td_seq := [c], td_need := 2, td_lower := (if n = 224 then 160 else 128),
                      td_upper := (if n = 237 then 159 else 191)\<rparr>, [])
            else if 240 \<le> n \<and> n \<le> 244 then
              Some (d\<lparr>td_seq := [c], td_need := 3, td_lower := (if n = 240 then 144 else 128),
                      td_upper := (if n = 244 then 143 else 191)\<rparr>, [])
            else None)
         else if n < td_lower d \<or> td_upper d < n then None
         else if td_need d = 1 then Some (td_emit d (td_seq d @ [c]))
         else Some (d\<lparr>td_seq := td_seq d @ [c], td_need := td_need d - 1, td_lower := 128, td_upper := 191\<rparr>, []))"

fun decode_bytes :: "text_decoder \<Rightarrow> char list \<Rightarrow> (text_decoder \<times> string) option" where
  "decode_bytes d [] = Some (d, [])"
| "decode_bytes d (c # cs) =
     (case decode_byte d c of
        None \<Rightarrow> None
      | Some (d', s) \<Rightarrow>
          (case decode_bytes d' cs of None \<Rightarrow> None | Some (d'', t) \<Rightarrow> Some (d'', s @ t)))"

text \<open>\<open>decode()\<close> without arguments: fails on an unfinished sequence.\<close>

definition decode_flush_ok :: "text_decoder \<Rightarrow> bool" where
  "decode_flush_ok d \<longleftrightarrow> td_need d = 0"

section \<open>Parser state\<close>

record sse_parser =
  maxFrameBytes :: nat
  decoder :: text_decoder
  pending :: "char list"
  frameBytes :: nat
  cur_event :: "string option"
  cur_data :: "string list"
  cur_id :: "string option"
  cur_retry :: "jsnum option"
  sawData :: bool

definition new_parser :: "nat \<Rightarrow> sse_parser" where
  "new_parser limit =
     \<lparr>maxFrameBytes = limit, decoder = td_init, pending = [], frameBytes = 0, cur_event = None,
      cur_data = [], cur_id = None, cur_retry = None, sawData = False\<rparr>"

text \<open>The constructor, with its option check.\<close>

definition create_parser :: "jsval \<Rightarrow> adapter_code + sse_parser" where
  "create_parser opt = rbind (normalizeMaxFrameBytes opt) (\<lambda>n. Inr (new_parser n))"

section \<open>Lines\<close>

text \<open>The loop of \<open>findLineEnd\<close>; \<open>start\<close> is where it began, \<open>i\<close> the index.\<close>

function scan_line_end :: "char list \<Rightarrow> nat \<Rightarrow> bool \<Rightarrow> nat \<Rightarrow> (nat \<times> nat) option" where
  "scan_line_end buf start atEof i =
     (if i < length buf then
        (if buf ! i = LF then Some (i, i + 1)
         else if buf ! i = CR then
           (if i + 1 < length buf then Some (i, if buf ! (i + 1) = LF then i + 2 else i + 1)
            else if atEof then Some (i, i + 1)
            else None)
         else scan_line_end buf start atEof (i + 1))
      else if atEof \<and> length buf > start then Some (length buf, length buf)
      else None)"
  by pat_completeness auto
termination
  by (relation "measure (\<lambda>(buf, start, atEof, i). length buf - i)") auto

declare scan_line_end.simps [simp del]

definition findLineEnd :: "char list \<Rightarrow> nat \<Rightarrow> bool \<Rightarrow> (nat \<times> nat) option" where
  "findLineEnd buf start atEof = scan_line_end buf start atEof start"

definition parseRetry :: "string \<Rightarrow> jsnum option" where
  "parseRetry v =
     (if v \<noteq> [] \<and> list_all is_digit v then Some (js_round (of_int (digits_val v))) else None)"

text \<open>\<open>Array.prototype.join\<close>.\<close>

fun join :: "string \<Rightarrow> string list \<Rightarrow> string" where
  "join sep [] = []"
| "join sep [x] = x"
| "join sep (x # xs) = x @ sep @ join sep xs"

definition overflow :: stream_code where
  "overflow = ProviderProtocolError"

definition decodeLine :: "sse_parser \<Rightarrow> char list \<Rightarrow> stream_code + (string \<times> sse_parser)" where
  "decodeLine p line =
     (case decode_bytes (decoder p) line of
        None \<Rightarrow> Inl overflow
      | Some (d, s) \<Rightarrow> Inr (s, p\<lparr>decoder := d\<rparr>))"

definition dispatch :: "sse_parser \<Rightarrow> sse_event list \<times> sse_parser" where
  "dispatch p =
     (let d = join [LF] (cur_data p)
      in (if sawData p \<and> d \<noteq> []
          then [\<lparr>ev_event = cur_event p, ev_data = d, ev_id = cur_id p, ev_retry = cur_retry p\<rparr>]
          else [],
          p\<lparr>cur_event := None, cur_data := [], cur_id := None, cur_retry := None, sawData := False,
            frameBytes := 0\<rparr>))"

text \<open>The part of a line before its first colon, and the value after it less one blank.\<close>

definition line_field :: "string \<Rightarrow> string" where
  "line_field line = takeWhile (\<lambda>c. c \<noteq> CHR '':'') line"

definition line_value :: "string \<Rightarrow> string" where
  "line_value line =
     (let raw = (case dropWhile (\<lambda>c. c \<noteq> CHR '':'') line of [] \<Rightarrow> [] | _ # r \<Rightarrow> r)
      in case raw of [] \<Rightarrow> [] | c # r \<Rightarrow> if c = CHR '' '' then r else raw)"

definition consumeLine :: "sse_parser \<Rightarrow> string \<Rightarrow> sse_event list \<times> sse_parser" where
  "consumeLine p line =
     (if line = [] then dispatch p
      else if hd line = CHR '':'' then ([], p)
      else
        (let f = line_field line; v = line_value line
         in if f = ''event'' then ([], p\<lparr>cur_event := Some v\<rparr>)
            else if f = ''data'' then ([], p\<lparr>cur_data := cur_data p @ [v], sawData := True\<rparr>)
            else if f = ''id'' then ([], if CHR 0x00 \<in> set v then p else p\<lparr>cur_id := Some v\<rparr>)
            else if f = ''retry'' then ([], p\<lparr>cur_retry := parseRetry v\<rparr>)
            else ([], p)))"

section \<open>Chunks\<close>

type_synonym frames_result = "sse_event list \<times> (stream_code + sse_parser)"

text \<open>Yield some frames and go on, unless the generator throws.\<close>

definition then_frames :: "frames_result \<Rightarrow> (sse_parser \<Rightarrow> frames_result) \<Rightarrow> frames_result" where
  "then_frames r k =
     (case r of
        (fs, Inl e) \<Rightarrow> (fs, Inl e)
      | (fs, Inr p) \<Rightarrow> (case k p of (gs, q) \<Rightarrow> (fs @ gs, q)))"

text \<open>
  A completed line: count its bytes and those of its terminator, check the bound, decode, consume.
  Every caller has just emptied \<open>pending\<close>.
\<close>

definition complete_line :: "sse_parser \<Rightarrow> char list \<Rightarrow> nat \<Rightarrow> frames_result" where
  "complete_line p line terminator =
     (let p1 = p\<lparr>pending := [], frameBytes := frameBytes p + length line + terminator\<rparr>
      in if frameBytes p1 > maxFrameBytes p1 then ([], Inl overflow)
         else
           (case decodeLine p1 line of
              Inl e \<Rightarrow> ([], Inl e)
            | Inr (s, p2) \<Rightarrow> (case consumeLine p2 s of (fs, p3) \<Rightarrow> (fs, Inr p3))))"

lemma scan_line_end_bounds:
  "scan_line_end buf start atEof i = Some (e, n) \<Longrightarrow> start \<le> i \<Longrightarrow> i \<le> length buf \<Longrightarrow>
     i \<le> e \<and> e \<le> n \<and> n \<le> length buf \<and> start < n"
proof (induction buf start atEof i rule: scan_line_end.induct)
  case (1 buf start atEof i)
  have step: "Suc i \<le> e \<and> e \<le> n \<and> n \<le> length buf \<and> start < n"
    if "scan_line_end buf start atEof (Suc i) = Some (e, n)"
      and "i < length buf" and "buf ! i \<noteq> LF" and "buf ! i \<noteq> CR"
    using "1.IH" "1.prems"(2) that by simp
  from "1.prems" show ?case
    by (auto simp: scan_line_end.simps [of buf start atEof i] split: if_splits dest: step)
qed

lemma findLineEnd_bounds:
  assumes "findLineEnd buf start atEof = Some (e, n)"
  shows "start \<le> e \<and> e \<le> n \<and> n \<le> length buf \<and> start < n"
proof -
  have "start \<le> length buf"
    using assms by (simp add: findLineEnd_def scan_line_end.simps split: if_splits)
  with assms show ?thesis
    using scan_line_end_bounds [of buf start atEof start e n] by (simp add: findLineEnd_def)
qed

text \<open>Buffer the partial line that ends the chunk.\<close>

definition buffer_tail :: "sse_parser \<Rightarrow> char list \<Rightarrow> nat \<Rightarrow> frames_result" where
  "buffer_tail p chunk cursor =
     (if cursor < length chunk then
        (if frameBytes p + length (pending p) + (length chunk - cursor) > maxFrameBytes p
         then ([], Inl overflow)
         else ([], Inr (p\<lparr>pending := pending p @ drop cursor chunk\<rparr>)))
      else ([], Inr p))"

text \<open>\<open>while (cursor < chunk.length)\<close>, then the tail.\<close>

function chunk_loop :: "sse_parser \<Rightarrow> char list \<Rightarrow> nat \<Rightarrow> frames_result" where
  "chunk_loop p chunk cursor =
     (if cursor < length chunk then
        (case findLineEnd chunk cursor False of
           None \<Rightarrow> buffer_tail p chunk cursor
         | Some (lineEnd, nxt) \<Rightarrow>
             then_frames
               (complete_line p (pending p @ take (lineEnd - cursor) (drop cursor chunk)) (nxt - lineEnd))
               (\<lambda>p'. chunk_loop p' chunk nxt))
      else buffer_tail p chunk cursor)"
  by pat_completeness auto
termination
  by (relation "measure (\<lambda>(p, chunk, cursor). length chunk - cursor)")
    (auto dest!: findLineEnd_bounds)

declare chunk_loop.simps [simp del]

definition framesFrom :: "sse_parser \<Rightarrow> char list \<Rightarrow> frames_result" where
  "framesFrom p chunk =
     (if pending p \<noteq> [] \<and> last (pending p) = CR then
        (if chunk = [] then ([], Inr p)
         else
           (let consumesLf = (hd chunk = LF)
            in then_frames (complete_line p (butlast (pending p)) (if consumesLf then 2 else 1))
                 (\<lambda>p'. chunk_loop p' chunk (if consumesLf then 1 else 0))))
      else chunk_loop p chunk 0)"

text \<open>\<open>push\<close>: a throw discards the frames of the chunk.\<close>

definition push :: "sse_parser \<Rightarrow> char list \<Rightarrow> stream_code + (sse_event list \<times> sse_parser)" where
  "push p chunk =
     (case framesFrom p chunk of (fs, Inl e) \<Rightarrow> Inl e | (fs, Inr p') \<Rightarrow> Inr (fs, p'))"

section \<open>The end of the stream\<close>

function finish_loop :: "sse_parser \<Rightarrow> char list \<Rightarrow> nat \<Rightarrow> frames_result" where
  "finish_loop p tail cursor =
     (if cursor < length tail then
        (case findLineEnd tail cursor True of
           None \<Rightarrow> complete_line p (drop cursor tail) 0
         | Some (lineEnd, nxt) \<Rightarrow>
             then_frames
               (complete_line p (take (lineEnd - cursor) (drop cursor tail)) (nxt - lineEnd))
               (\<lambda>p'. finish_loop p' tail nxt))
      else ([], Inr p))"
  by pat_completeness auto
termination
  by (relation "measure (\<lambda>(p, tail, cursor). length tail - cursor)")
    (auto dest!: findLineEnd_bounds)

declare finish_loop.simps [simp del]

definition finish :: "sse_parser \<Rightarrow> stream_code + sse_event list" where
  "finish p =
     (case finish_loop (p\<lparr>pending := []\<rparr>) (pending p) 0 of
        (_, Inl e) \<Rightarrow> Inl e
      | (out, Inr p') \<Rightarrow>
          if \<not> decode_flush_ok (decoder p') then Inl overflow
          else if sawData p' \<or> frameBytes p' > 0 then Inl overflow
          else Inr out)"

text \<open>\<open>parseSseStream\<close> over a source of chunks.\<close>

fun feed_chunks :: "sse_parser \<Rightarrow> char list list \<Rightarrow> frames_result" where
  "feed_chunks p [] = ([], Inr p)"
| "feed_chunks p (c # cs) = then_frames (framesFrom p c) (\<lambda>p'. feed_chunks p' cs)"

definition parseSseStream :: "sse_parser \<Rightarrow> char list list \<Rightarrow> sse_event list \<times> (stream_code + unit)" where
  "parseSseStream p chunks =
     (case feed_chunks p chunks of
        (fs, Inl e) \<Rightarrow> (fs, Inl e)
      | (fs, Inr p') \<Rightarrow> (case finish p' of Inl e \<Rightarrow> (fs, Inl e) | Inr gs \<Rightarrow> (fs @ gs, Inr ())))"

end
