(* ===== verification/Sse_Framing.thy ===== *)
theory Sse_Framing
  imports Sse
begin

text \<open>
  The framer of theory \<open>Sse\<close> against a reference that takes one byte at a time.  The
  reference has no cursors, no search for line ends and no held-back carriage return at the end
  of a chunk, so it cannot depend on how the bytes were cut; \<open>framesFrom_feed\<close> shows that
  the optimised generator computes the same frames, errors and parser.
\<close>

section \<open>The reference machine\<close>

definition feed_fresh :: "sse_parser \<Rightarrow> char \<Rightarrow> frames_result" where
  "feed_fresh p b =
     (if b = LF then complete_line p (pending p) 1
      else if frameBytes p + length (pending p) + 1 > maxFrameBytes p then ([], Inl overflow)
      else ([], Inr (p\<lparr>pending := pending p @ [b]\<rparr>)))"

definition holds_cr :: "sse_parser \<Rightarrow> bool" where
  "holds_cr p \<longleftrightarrow> pending p \<noteq> [] \<and> last (pending p) = CR"

definition feed_byte :: "sse_parser \<Rightarrow> char \<Rightarrow> frames_result" where
  "feed_byte p b =
     (if holds_cr p then
        (if b = LF then complete_line p (butlast (pending p)) 2
         else then_frames (complete_line p (butlast (pending p)) 1) (\<lambda>p'. feed_fresh p' b))
      else feed_fresh p b)"

fun feed_bytes :: "sse_parser \<Rightarrow> char list \<Rightarrow> frames_result" where
  "feed_bytes p [] = ([], Inr p)"
| "feed_bytes p (b # bs) = then_frames (feed_byte p b) (\<lambda>p'. feed_bytes p' bs)"

text \<open>What the parser has buffered and counted never exceeds the limit.\<close>

definition within_limit :: "sse_parser \<Rightarrow> bool" where
  "within_limit p \<longleftrightarrow> frameBytes p + length (pending p) \<le> maxFrameBytes p"

section \<open>Generator laws\<close>

lemma then_frames_simps [simp]:
  "then_frames ([], Inr p) k = k p"
  "then_frames (fs, Inl e) k = (fs, Inl e)"
  by (simp_all add: then_frames_def)

lemma then_frames_assoc:
  "then_frames (then_frames r k) h = then_frames r (\<lambda>p. then_frames (k p) h)"
  by (auto simp: then_frames_def split: prod.splits sum.splits)

lemma then_frames_right [simp]: "then_frames r (\<lambda>p. ([], Inr p)) = r"
  by (auto simp: then_frames_def split: prod.splits sum.splits)

lemma then_frames_cong:
  "r = r' \<Longrightarrow> (\<And>fs p. r' = (fs, Inr p) \<Longrightarrow> k p = h p) \<Longrightarrow> then_frames r k = then_frames r' h"
  by (auto simp: then_frames_def split: prod.splits sum.splits)

lemma then_frames_Inr:
  "then_frames r k = (gs, Inr q) \<longleftrightarrow> (\<exists>fs p hs. r = (fs, Inr p) \<and> k p = (hs, Inr q) \<and> gs = fs @ hs)"
  by (auto simp: then_frames_def split: prod.splits sum.splits)

lemma feed_bytes_append:
  "feed_bytes p (xs @ ys) = then_frames (feed_bytes p xs) (\<lambda>p'. feed_bytes p' ys)"
  by (induction xs arbitrary: p) (simp_all add: then_frames_assoc)

lemma complete_line_pending [simp]:
  "complete_line (p\<lparr>pending := x\<rparr>) line t = complete_line p line t"
  by (simp add: complete_line_def)

lemma dispatch_frame:
  "dispatch p = (fs, p') \<Longrightarrow> pending p' = pending p \<and> maxFrameBytes p' = maxFrameBytes p
     \<and> frameBytes p' = 0 \<and> decoder p' = decoder p"
  by (auto simp: dispatch_def Let_def)

lemma consumeLine_frame:
  "consumeLine p s = (fs, p') \<Longrightarrow> pending p' = pending p \<and> maxFrameBytes p' = maxFrameBytes p
     \<and> frameBytes p' \<le> frameBytes p \<and> decoder p' = decoder p"
  by (auto simp: consumeLine_def Let_def split: if_splits dest!: dispatch_frame)

lemma complete_line_Inr:
  assumes "complete_line p line t = (fs, Inr p')"
  shows "pending p' = [] \<and> maxFrameBytes p' = maxFrameBytes p \<and> within_limit p' \<and> \<not> holds_cr p'"
  using assms consumeLine_frame
  by (fastforce simp: complete_line_def Let_def decodeLine_def within_limit_def holds_cr_def
      split: if_splits option.splits sum.splits prod.splits)

lemma feed_fresh_inv:
  "feed_fresh p b = (fs, Inr p') \<Longrightarrow> within_limit p' \<and> maxFrameBytes p' = maxFrameBytes p"
  using complete_line_Inr
  by (fastforce simp: feed_fresh_def within_limit_def split: if_splits)

lemma feed_byte_inv:
  "feed_byte p b = (fs, Inr p') \<Longrightarrow> within_limit p' \<and> maxFrameBytes p' = maxFrameBytes p"
  using complete_line_Inr feed_fresh_inv
  by (fastforce simp: feed_byte_def then_frames_Inr split: if_splits)

lemma feed_bytes_inv:
  "feed_bytes p bs = (fs, Inr p') \<Longrightarrow> within_limit p \<Longrightarrow> within_limit p' \<and> maxFrameBytes p' = maxFrameBytes p"
proof (induction bs arbitrary: p fs)
  case Nil
  then show ?case by simp
next
  case (Cons b bs)
  then show ?case using feed_byte_inv by (fastforce simp: then_frames_Inr)
qed

section \<open>A stretch of bytes without a line end\<close>

definition plain_bytes :: "char list \<Rightarrow> bool" where
  "plain_bytes bs \<longleftrightarrow> LF \<notin> set bs \<and> CR \<notin> set bs"

lemma feed_plain:
  "plain_bytes bs \<Longrightarrow> within_limit p \<Longrightarrow> \<not> holds_cr p \<Longrightarrow>
     feed_bytes p bs =
       (if frameBytes p + length (pending p) + length bs > maxFrameBytes p then ([], Inl overflow)
        else ([], Inr (p\<lparr>pending := pending p @ bs\<rparr>)))"
proof (induction bs arbitrary: p)
  case Nil
  then show ?case by (simp add: within_limit_def)
next
  case (Cons b bs)
  from Cons.prems(1) have b: "b \<noteq> LF" "b \<noteq> CR" and bs: "plain_bytes bs"
    by (auto simp: plain_bytes_def)
  show ?case
  proof (cases "frameBytes p + length (pending p) + 1 > maxFrameBytes p")
    case True
    with b Cons.prems(3) show ?thesis by (simp add: feed_byte_def feed_fresh_def)
  next
    case False
    let ?p = "p\<lparr>pending := pending p @ [b]\<rparr>"
    have "within_limit ?p" and "\<not> holds_cr ?p"
      using False b by (simp_all add: within_limit_def holds_cr_def)
    from Cons.IH [OF bs this] False b Cons.prems(3) show ?thesis
      by (simp add: feed_byte_def feed_fresh_def)
  qed
qed

lemma not_holds_cr_plain:
  assumes "plain_bytes bs" and "\<not> holds_cr p"
  shows "\<not> holds_cr (p\<lparr>pending := pending p @ bs\<rparr>)"
proof (cases "bs = []")
  case True
  with assms(2) show ?thesis by (simp add: holds_cr_def)
next
  case False
  then have "last bs \<in> set bs" by simp
  with assms(1) have "last bs \<noteq> CR" by (metis plain_bytes_def)
  with False show ?thesis by (simp add: holds_cr_def)
qed

lemma feed_line_LF:
  assumes "plain_bytes bs" and "within_limit p" and "\<not> holds_cr p"
  shows "feed_bytes p (bs @ LF # rest) =
     then_frames (complete_line p (pending p @ bs) 1) (\<lambda>p'. feed_bytes p' rest)"
proof (cases "frameBytes p + length (pending p) + length bs > maxFrameBytes p")
  case True
  then show ?thesis
    by (simp add: feed_bytes_append feed_plain [OF assms] complete_line_def)
next
  case False
  have "\<not> holds_cr (p\<lparr>pending := pending p @ bs\<rparr>)"
    using assms(1,3) by (rule not_holds_cr_plain)
  with False show ?thesis
    by (simp add: feed_bytes_append feed_plain [OF assms] feed_byte_def feed_fresh_def)
qed

lemma feed_to_CR:
  assumes "plain_bytes bs" and "within_limit p" and "\<not> holds_cr p"
  shows "feed_bytes p (bs @ [CR]) =
     (if frameBytes p + length (pending p) + length bs + 1 > maxFrameBytes p then ([], Inl overflow)
      else ([], Inr (p\<lparr>pending := pending p @ bs @ [CR]\<rparr>)))"
proof (cases "frameBytes p + length (pending p) + length bs > maxFrameBytes p")
  case True
  then show ?thesis by (simp add: feed_bytes_append feed_plain [OF assms])
next
  case False
  have "\<not> holds_cr (p\<lparr>pending := pending p @ bs\<rparr>)"
    using assms(1,3) by (rule not_holds_cr_plain)
  with False show ?thesis
    by (simp add: feed_bytes_append feed_plain [OF assms] feed_byte_def feed_fresh_def)
qed

lemma feed_line_CRLF:
  assumes "plain_bytes bs" and "within_limit p" and "\<not> holds_cr p"
  shows "feed_bytes p (bs @ CR # LF # rest) =
     then_frames (complete_line p (pending p @ bs) 2) (\<lambda>p'. feed_bytes p' rest)"
proof -
  have "feed_bytes p (bs @ CR # LF # rest) =
      then_frames (feed_bytes p (bs @ [CR])) (\<lambda>p'. feed_bytes p' (LF # rest))"
    using feed_bytes_append [of p "bs @ [CR]" "LF # rest"] by simp
  also have "\<dots> = then_frames (complete_line p (pending p @ bs) 2) (\<lambda>p'. feed_bytes p' rest)"
    by (simp add: feed_to_CR [OF assms] feed_byte_def holds_cr_def butlast_append) (simp add: complete_line_def)
  finally show ?thesis .
qed

lemma feed_line_CR:
  assumes "plain_bytes bs" and "within_limit p" and "\<not> holds_cr p" and "x \<noteq> LF"
  shows "feed_bytes p (bs @ CR # x # rest) =
     then_frames (complete_line p (pending p @ bs) 1) (\<lambda>p'. feed_bytes p' (x # rest))"
proof -
  have fresh: "then_frames (complete_line p l t) (\<lambda>p'. feed_byte p' x) =
      then_frames (complete_line p l t) (\<lambda>p'. feed_fresh p' x)" for l t
    by (rule then_frames_cong) (auto simp: feed_byte_def dest: complete_line_Inr)
  have "feed_bytes p (bs @ CR # x # rest) =
      then_frames (feed_bytes p (bs @ [CR])) (\<lambda>p'. feed_bytes p' (x # rest))"
    using feed_bytes_append [of p "bs @ [CR]" "x # rest"] by simp
  also have "\<dots> = then_frames (complete_line p (pending p @ bs) 1) (\<lambda>p'. feed_bytes p' (x # rest))"
    using assms(4)
    by (simp add: feed_to_CR [OF assms(1-3)] feed_byte_def [of "p\<lparr>pending := _\<rparr>"] holds_cr_def butlast_append
        fresh [symmetric] then_frames_assoc) (simp add: complete_line_def)
  finally show ?thesis .
qed

section \<open>The chunk loop computes the reference\<close>

lemma scan_line_end_Some:
  "scan_line_end buf start False i = Some (e, n) \<Longrightarrow>
     i \<le> e \<and> e < length buf \<and> plain_bytes (take (e - i) (drop i buf))
     \<and> (buf ! e = LF \<and> n = e + 1
        \<or> buf ! e = CR \<and> e + 1 < length buf \<and> n = (if buf ! (e + 1) = LF then e + 2 else e + 1))"
proof (induction buf start False i rule: scan_line_end.induct)
  case (1 buf start i)
  show ?case
  proof (cases "i < length buf \<and> buf ! i \<noteq> LF \<and> buf ! i \<noteq> CR")
    case True
    then have rec: "scan_line_end buf start False (i + 1) = Some (e, n)"
      using "1.prems" by (simp add: scan_line_end.simps [of buf start False i])
    note IH = "1.hyps" [OF _ _ _ rec]
    from True IH have "i + 1 \<le> e" by auto
    then have "take (e - i) (drop i buf) = buf ! i # take (e - (i + 1)) (drop (i + 1) buf)"
      using True by (simp add: Cons_nth_drop_Suc [symmetric] take_Cons' Suc_diff_Suc)
    with True IH show ?thesis by (auto simp: plain_bytes_def)
  next
    case False
    then show ?thesis using "1.prems"
      by (auto simp: scan_line_end.simps [of buf start False i] plain_bytes_def split: if_splits)
  qed
qed

lemma scan_line_end_None:
  "scan_line_end buf start False i = None \<Longrightarrow>
     plain_bytes (drop i buf) \<or> (\<exists>bs. plain_bytes bs \<and> drop i buf = bs @ [CR])"
proof (induction buf start False i rule: scan_line_end.induct)
  case (1 buf start i)
  show ?case
  proof (cases "i < length buf")
    case False
    then show ?thesis by (simp add: plain_bytes_def)
  next
    case True
    then have dr: "drop i buf = buf ! i # drop (i + 1) buf"
      by (simp add: Cons_nth_drop_Suc)
    show ?thesis
    proof (cases "buf ! i = LF \<or> buf ! i = CR")
      case True
      with "1.prems" \<open>i < length buf\<close> have "buf ! i = CR" and "length buf \<le> i + 1"
        by (auto simp: scan_line_end.simps [of buf start False i] split: if_splits)
      then have "plain_bytes [] \<and> drop i buf = [] @ [CR]" by (simp add: dr plain_bytes_def)
      then show ?thesis by blast
    next
      case False
      then have "scan_line_end buf start False (i + 1) = None"
        using "1.prems" \<open>i < length buf\<close> by (simp add: scan_line_end.simps [of buf start False i])
      then consider "plain_bytes (drop (i + 1) buf)"
        | bs where "plain_bytes bs" "drop (i + 1) buf = bs @ [CR]"
        using "1.hyps" False \<open>i < length buf\<close> by auto
      then show ?thesis
      proof cases
        case 1
        with False show ?thesis by (auto simp: dr plain_bytes_def)
      next
        case (2 bs)
        with False have "plain_bytes (buf ! i # bs)" by (auto simp: plain_bytes_def)
        with 2 dr show ?thesis by (metis append_Cons)
      qed
    qed
  qed
qed

lemma drop_split:
  assumes "i \<le> e" and "e < length buf"
  shows "drop i buf = take (e - i) (drop i buf) @ buf ! e # drop (e + 1) buf"
proof -
  have "drop i buf = take (e - i) (drop i buf) @ drop (e - i) (drop i buf)"
    by (rule append_take_drop_id [symmetric])
  also have "drop (e - i) (drop i buf) = buf ! e # drop (e + 1) buf"
    using assms by (simp add: Cons_nth_drop_Suc)
  finally show ?thesis .
qed

lemma buffer_tail_feed:
  assumes "within_limit p" and "\<not> holds_cr p" and "cursor \<le> length chunk"
    and "plain_bytes (drop cursor chunk) \<or> (\<exists>bs. plain_bytes bs \<and> drop cursor chunk = bs @ [CR])"
  shows "buffer_tail p chunk cursor = feed_bytes p (drop cursor chunk)"
proof -
  have len: "length (drop cursor chunk) = length chunk - cursor" by simp
  from assms(4) show ?thesis
  proof
    assume "plain_bytes (drop cursor chunk)"
    then show ?thesis using assms(1,2) feed_plain [of "drop cursor chunk" p] len
      by (auto simp: buffer_tail_def within_limit_def)
  next
    assume "\<exists>bs. plain_bytes bs \<and> drop cursor chunk = bs @ [CR]"
    then obtain bs where bs: "plain_bytes bs" "drop cursor chunk = bs @ [CR]" by blast
    with len have "length chunk - cursor = length bs + 1" by simp
    then have "cursor < length chunk" and "length chunk - cursor = length bs + 1" by simp_all
    then show ?thesis
      unfolding bs(2) feed_to_CR [OF bs(1) assms(1,2)] by (simp add: buffer_tail_def bs(2) add.assoc)
  qed
qed

lemma chunk_loop_feed:
  "within_limit p \<Longrightarrow> \<not> holds_cr p \<Longrightarrow> cursor \<le> length chunk \<Longrightarrow>
     chunk_loop p chunk cursor = feed_bytes p (drop cursor chunk)"
proof (induction p chunk cursor rule: chunk_loop.induct)
  case (1 p chunk cursor)
  show ?case
  proof (cases "cursor < length chunk")
    case False
    with "1.prems" show ?thesis by (simp add: chunk_loop.simps [of p] buffer_tail_def)
  next
    case True
    show ?thesis
    proof (cases "findLineEnd chunk cursor False")
      case None
      with True "1.prems" show ?thesis
        using buffer_tail_feed scan_line_end_None
        by (simp add: chunk_loop.simps [of p] findLineEnd_def)
    next
      case (Some en)
      obtain e n where en: "en = (e, n)" by (cases en)
      define seg where "seg = take (e - cursor) (drop cursor chunk)"
      note found = scan_line_end_Some [OF Some [unfolded en findLineEnd_def]]
      have n: "n \<le> length chunk" using findLineEnd_bounds [OF Some [unfolded en]] by simp
      have split: "drop cursor chunk = seg @ chunk ! e # drop (e + 1) chunk"
        using drop_split found seg_def by blast
      have plain: "plain_bytes seg" using found by (simp add: seg_def)
      have IH: "then_frames (complete_line p l t) (\<lambda>p'. chunk_loop p' chunk n)
          = then_frames (complete_line p l t) (\<lambda>p'. feed_bytes p' (drop n chunk))" for l t
        by (rule then_frames_cong [OF refl])
          (use "1.IH" [OF True Some en [symmetric]] n in \<open>auto dest!: complete_line_Inr\<close>)
      have step: "chunk_loop p chunk cursor =
          then_frames (complete_line p (pending p @ seg) (n - e)) (\<lambda>p'. feed_bytes p' (drop n chunk))"
        using True Some en by (simp add: chunk_loop.simps [of p] seg_def IH)
      consider (lf) "chunk ! e = LF" "n = e + 1"
        | (crlf) "chunk ! e = CR" "e + 1 < length chunk" "chunk ! (e + 1) = LF" "n = e + 2"
        | (cr) "chunk ! e = CR" "e + 1 < length chunk" "chunk ! (e + 1) \<noteq> LF" "n = e + 1"
        using found by (auto split: if_splits)
      then show ?thesis
      proof cases
        case lf
        then show ?thesis
          unfolding step split using feed_line_LF [OF plain "1.prems"(1,2)] by simp
      next
        case crlf
        then have "drop (e + 1) chunk = LF # drop n chunk"
          using Cons_nth_drop_Suc [of "e + 1" chunk] by simp
        with crlf show ?thesis
          unfolding step split using feed_line_CRLF [OF plain "1.prems"(1,2)] by simp
      next
        case cr
        then have "drop (e + 1) chunk = chunk ! (e + 1) # drop (e + 2) chunk"
          using Cons_nth_drop_Suc [of "e + 1" chunk] by simp
        with cr show ?thesis
          unfolding step split using feed_line_CR [OF plain "1.prems"(1,2) cr(3)] by simp
      qed
    qed
  qed
qed

lemma framesFrom_feed:
  assumes "within_limit p"
  shows "framesFrom p chunk = feed_bytes p chunk"
proof (cases "holds_cr p")
  case False
  then show ?thesis
    using assms chunk_loop_feed [of p 0 chunk] by (auto simp: framesFrom_def holds_cr_def)
next
  case True
  show ?thesis
  proof (cases chunk)
    case Nil
    with True show ?thesis by (simp add: framesFrom_def holds_cr_def)
  next
    case (Cons b bs)
    have loop: "then_frames (complete_line p l t) (\<lambda>p'. chunk_loop p' (b # bs) i)
        = then_frames (complete_line p l t) (\<lambda>p'. feed_bytes p' (drop i (b # bs)))"
      if "i \<le> length (b # bs)" for l t i
      by (rule then_frames_cong [OF refl]) (use that chunk_loop_feed in \<open>auto dest!: complete_line_Inr\<close>)
    show ?thesis
    proof (cases "b = LF")
      case True
      with Cons \<open>holds_cr p\<close> loop [of 1] show ?thesis
        by (simp add: framesFrom_def holds_cr_def feed_byte_def)
    next
      case False
      have fresh: "then_frames (complete_line p l t) (\<lambda>p'. then_frames (feed_byte p' b) k)
          = then_frames (complete_line p l t) (\<lambda>p'. then_frames (feed_fresh p' b) k)" for l t k
        by (rule then_frames_cong [OF refl]) (auto simp: feed_byte_def dest: complete_line_Inr)
      from False Cons \<open>holds_cr p\<close> loop [of 0] show ?thesis
        by (simp add: framesFrom_def holds_cr_def feed_byte_def [of p] then_frames_assoc fresh)
    qed
  qed
qed

lemma within_limit_new [simp]: "within_limit (new_parser n)"
  by (simp add: within_limit_def new_parser_def)

lemma feed_chunks_feed:
  "within_limit p \<Longrightarrow> feed_chunks p cs = feed_bytes p (concat cs)"
proof (induction cs arbitrary: p)
  case Nil
  then show ?case by simp
next
  case (Cons c cs)
  have "then_frames (feed_bytes p c) (feed_chunks' cs) = then_frames (feed_bytes p c) (\<lambda>p'. feed_bytes p' (concat cs))"
    if "feed_chunks' = (\<lambda>cs p'. feed_chunks p' cs)" for feed_chunks'
    unfolding that by (rule then_frames_cong) (use Cons feed_bytes_inv in auto)
  then show ?case using Cons.prems by (simp add: framesFrom_feed feed_bytes_append)
qed


section \<open>Properties\<close>

text \<open>
  C28: the framer does not depend on how the transport cut the bytes into chunks: any sequence of
  chunks yields the frames, the error and the parser state of the same bytes in one chunk, in spite
  of its cursors and of the carriage return it holds back at the end of a chunk.
\<close>

theorem sse_chunk_independence:
  "feed_chunks (new_parser n) cs = framesFrom (new_parser n) (concat cs)"
  by (simp add: feed_chunks_feed framesFrom_feed)

text \<open>
  At every point of a stream the bytes the parser has buffered for an unfinished line and the
  bytes it has counted for the unfinished frame together stay within the configured limit.
\<close>

theorem sse_buffer_bounded:
  assumes "feed_chunks (new_parser n) cs = (fs, Inr p)"
  shows "frameBytes p + length (pending p) \<le> n \<and> maxFrameBytes p = n"
proof -
  have "feed_bytes (new_parser n) (concat cs) = (fs, Inr p)"
    using assms by (simp add: feed_chunks_feed)
  from feed_bytes_inv [OF this] show ?thesis
    by (simp add: within_limit_def) (simp add: new_parser_def)
qed

lemma sse_buffer_bounded_witness:
  "\<exists>fs p. feed_chunks (new_parser 20) [''data: x'', LF # ''dat'', ''a: yz''] = (fs, Inr p)
     \<and> frameBytes p = 8 \<and> length (pending p) = 8 \<and> frameBytes p + length (pending p) \<le> 20"
proof -
  let ?r = "feed_chunks (new_parser 20) [''data: x'', LF # ''dat'', ''a: yz'']"
  have "is_ok (snd ?r)" and sizes: "frameBytes (projr (snd ?r)) = 8 \<and> length (pending (projr (snd ?r))) = 8"
    by code_simp+
  then obtain p where r: "?r = (fst ?r, Inr p)" by (metis is_ok_iff prod.collapse)
  from sse_buffer_bounded [OF r] sizes show ?thesis by (metis r snd_conv sum.sel(2))
qed

text \<open>
  The decoder works line by line, so a UTF-8 sequence that a line break cuts in two is taken as
  one character of the joined lines and dropped with the line it ends in, and the frame is accepted
  although its bytes are not valid UTF-8.
\<close>

theorem sse_accepts_sequence_cut_by_line_break:
  "parseSseStream (new_parser 40) [''data: x'' @ [CHR 0xE2, LF, CHR 0x82, CHR 0xAC, LF, LF]] =
     ([\<lparr>ev_event = None, ev_data = ''x'', ev_id = None, ev_retry = None\<rparr>], Inr ())"
  by code_simp

end
