(* ===== verification/Sse_Roundtrip.thy ===== *)
theory Sse_Roundtrip
  imports Sse_Framing
begin

text \<open>
  What a server means by an event stream, and that the framer reads it back: events are written as
  an \<open>event\<close> line, an \<open>id\<close> line, one \<open>data\<close> line per line of data, and an empty
  line, with line feeds or with carriage return and line feed.
\<close>

section \<open>Text that decodes to itself\<close>

definition td_ready :: text_decoder where
  "td_ready = td_init\<lparr>td_bom := True\<rparr>"

definition utf8_text :: "string \<Rightarrow> bool" where
  "utf8_text s \<longleftrightarrow> decode_bytes td_ready s = Some (td_ready, s)"

lemma decode_bytes_append:
  "decode_bytes d (xs @ ys) =
     (case decode_bytes d xs of
        None \<Rightarrow> None
      | Some (d', s) \<Rightarrow> (case decode_bytes d' ys of None \<Rightarrow> None | Some (d'', t) \<Rightarrow> Some (d'', s @ t)))"
  by (induction xs arbitrary: d) (auto split: option.splits)

lemma decode_ascii:
  assumes "(of_char c :: nat) < 128" and "d = td_init \<or> d = td_ready"
  shows "decode_byte d c = Some (td_ready, [c])"
  using assms by (auto simp: decode_byte_def td_init_def td_ready_def td_emit_def byte_order_mark_def)

lemma utf8_text_ascii: "list_all (\<lambda>c. (of_char c :: nat) < 128) s \<Longrightarrow> utf8_text s"
  unfolding utf8_text_def by (induction s) (simp_all add: decode_ascii)

lemma utf8_text_prefix:
  assumes "utf8_text s" and "list_all (\<lambda>c. (of_char c :: nat) < 128) w" and "w \<noteq> []"
    and "d = td_init \<or> d = td_ready"
  shows "decode_bytes d (w @ s) = Some (td_ready, w @ s)"
proof (cases w)
  case (Cons c cs)
  then have "utf8_text cs" using assms(2) by (simp add: utf8_text_ascii)
  with Cons assms show ?thesis by (simp add: decode_ascii decode_bytes_append utf8_text_def)
qed (use assms(3) in simp)

section \<open>Writing an event\<close>

record event_text =
  tx_event :: "string option"
  tx_id :: "string option"
  tx_lines :: "string list"

definition event_lines :: "event_text \<Rightarrow> string list" where
  "event_lines e =
     (case tx_event e of None \<Rightarrow> [] | Some v \<Rightarrow> [''event: '' @ v])
     @ (case tx_id e of None \<Rightarrow> [] | Some v \<Rightarrow> [''id: '' @ v])
     @ map (\<lambda>v. ''data: '' @ v) (tx_lines e)"

definition encode_event :: "string \<Rightarrow> event_text \<Rightarrow> char list" where
  "encode_event nl e = concat (map (\<lambda>l. l @ nl) (event_lines e)) @ nl"

definition event_of :: "event_text \<Rightarrow> sse_event" where
  "event_of e =
     \<lparr>ev_event = tx_event e, ev_data = join [LF] (tx_lines e), ev_id = tx_id e, ev_retry = None\<rparr>"

definition line_ok :: "string \<Rightarrow> bool" where
  "line_ok v \<longleftrightarrow> plain_bytes v \<and> utf8_text v"

definition event_text_ok :: "nat \<Rightarrow> string \<Rightarrow> event_text \<Rightarrow> bool" where
  "event_text_ok n nl e \<longleftrightarrow>
     (case tx_event e of None \<Rightarrow> True | Some v \<Rightarrow> line_ok v)
     \<and> (case tx_id e of None \<Rightarrow> True | Some v \<Rightarrow> line_ok v \<and> CHR 0x00 \<notin> set v)
     \<and> list_all line_ok (tx_lines e) \<and> join [LF] (tx_lines e) \<noteq> []
     \<and> length (encode_event nl e) \<le> n"

definition line_break :: "string \<Rightarrow> bool" where
  "line_break nl \<longleftrightarrow> nl = [LF] \<or> nl = [CR, LF]"

section \<open>Reading it back\<close>

definition between_lines :: "sse_parser \<Rightarrow> bool" where
  "between_lines p \<longleftrightarrow> pending p = [] \<and> (decoder p = td_init \<or> decoder p = td_ready) \<and> frameBytes p \<le> maxFrameBytes p"

definition counted :: "nat \<Rightarrow> sse_parser \<Rightarrow> sse_parser" where
  "counted k p = p\<lparr>frameBytes := frameBytes p + k, decoder := td_ready\<rparr>"

lemma feed_line:
  assumes "line_break nl" and "between_lines p" and "plain_bytes line"
    and "decode_bytes (decoder p) line = Some (td_ready, line)"
    and "frameBytes p + length line + length nl \<le> maxFrameBytes p"
  shows "feed_bytes p (line @ nl @ rest) =
    then_frames (case consumeLine (counted (length line + length nl) p) line of (fs, p') \<Rightarrow> (fs, Inr p'))
      (\<lambda>p'. feed_bytes p' rest)"
proof -
  have p: "within_limit p" "\<not> holds_cr p" "pending p = []"
    using assms(2) by (simp_all add: between_lines_def within_limit_def holds_cr_def)
  have "feed_bytes p (line @ nl @ rest) =
      then_frames (complete_line p line (length nl)) (\<lambda>p'. feed_bytes p' rest)"
    using assms(1) feed_line_LF [OF assms(3) p(1,2)] feed_line_CRLF [OF assms(3) p(1,2)] p(3)
    by (auto simp: line_break_def numeral_2_eq_2)
  also have "complete_line p line (length nl) =
      (case consumeLine (counted (length line + length nl) p) line of (fs, p') \<Rightarrow> (fs, Inr p'))"
  proof -
    have "p\<lparr>pending := [], frameBytes := frameBytes p + length line + length nl, decoder := td_ready\<rparr> =
        counted (length line + length nl) p"
      using p(3) by (cases p) (simp add: counted_def)
    with assms(4,5) show ?thesis by (simp add: complete_line_def decodeLine_def)
  qed
  finally show ?thesis .
qed

lemma between_counted [simp]:
  "between_lines p \<Longrightarrow> frameBytes p + k \<le> maxFrameBytes p \<Longrightarrow> between_lines (counted k p)"
  by (simp add: between_lines_def counted_def)

lemma plain_bytes_append: "plain_bytes (xs @ ys) \<longleftrightarrow> plain_bytes xs \<and> plain_bytes ys"
  by (auto simp: plain_bytes_def)

lemma plain_prefixes: "plain_bytes ''event: ''" "plain_bytes ''id: ''" "plain_bytes ''data: ''"
  by (simp_all add: plain_bytes_def LF_def CR_def)

lemma decode_prefixes:
  assumes "utf8_text v" and "d = td_init \<or> d = td_ready"
  shows "decode_bytes d (''event: '' @ v) = Some (td_ready, ''event: '' @ v)"
    and "decode_bytes d (''id: '' @ v) = Some (td_ready, ''id: '' @ v)"
    and "decode_bytes d (''data: '' @ v) = Some (td_ready, ''data: '' @ v)"
  by (rule utf8_text_prefix [OF assms(1) _ _ assms(2)]; simp)+

lemma consume_prefixes:
  "consumeLine p (''event: '' @ v) = ([], p\<lparr>cur_event := Some v\<rparr>)"
  "CHR 0x00 \<notin> set v \<Longrightarrow> consumeLine p (''id: '' @ v) = ([], p\<lparr>cur_id := Some v\<rparr>)"
  "consumeLine p (''data: '' @ v) = ([], p\<lparr>cur_data := cur_data p @ [v], sawData := True\<rparr>)"
  by (simp_all add: consumeLine_def line_field_def line_value_def)

text \<open>One field line, its effect on the parser given.\<close>

lemma feed_field:
  assumes "line_break nl" and "between_lines p" and "line_ok v" and "plain_bytes w"
    and "\<And>d. d = td_init \<or> d = td_ready \<Longrightarrow> decode_bytes d (w @ v) = Some (td_ready, w @ v)"
    and "\<And>p. consumeLine p (w @ v) = ([], f p)"
    and "frameBytes p + length (w @ v @ nl) \<le> maxFrameBytes p"
  shows "feed_bytes p (w @ v @ nl @ rest) = feed_bytes (f (counted (length (w @ v @ nl)) p)) rest"
proof -
  have "feed_bytes p ((w @ v) @ nl @ rest) =
      then_frames (case consumeLine (counted (length (w @ v) + length nl) p) (w @ v) of (fs, p') \<Rightarrow> (fs, Inr p'))
        (\<lambda>p'. feed_bytes p' rest)"
    using assms(2-4,7)
    by (intro feed_line assms(1,2,5)) (simp_all add: line_ok_def plain_bytes_append between_lines_def)
  then show ?thesis by (simp add: assms(6) add.assoc)
qed

definition with_data :: "string list \<Rightarrow> sse_parser \<Rightarrow> sse_parser" where
  "with_data vs p = p\<lparr>cur_data := cur_data p @ vs, sawData := sawData p \<or> vs \<noteq> []\<rparr>"

lemma feed_data_lines:
  assumes "line_break nl" and "between_lines p" and "list_all line_ok vs"
    and "frameBytes p + length (concat (map (\<lambda>v. ''data: '' @ v @ nl) vs)) \<le> maxFrameBytes p" and "vs \<noteq> []"
  shows "feed_bytes p (concat (map (\<lambda>v. ''data: '' @ v @ nl) vs) @ rest) =
    feed_bytes (with_data vs (counted (length (concat (map (\<lambda>v. ''data: '' @ v @ nl) vs))) p)) rest"
  using assms(2-)
proof (induction vs arbitrary: p)
  case (Cons v vs)
  let ?rest = "concat (map (\<lambda>v. ''data: '' @ v @ nl) vs) @ rest"
  let ?q = "with_data [v] (counted (length (''data: '' @ v @ nl)) p)"
  have q: "between_lines ?q"
    using Cons.prems(1,3) by (simp add: between_lines_def counted_def with_data_def)
  have "feed_bytes p (''data: '' @ v @ nl @ ?rest) = feed_bytes ?q ?rest"
    using Cons.prems by (intro feed_field assms(1) plain_prefixes decode_prefixes)
      (simp_all add: line_ok_def consumeLine_def line_field_def line_value_def with_data_def)
  also have "\<dots> = feed_bytes (with_data (v # vs) (counted (length (concat (map (\<lambda>v. ''data: '' @ v @ nl) (v # vs)))) p)) rest"
  proof (cases "vs = []")
    case False
    have "feed_bytes ?q ?rest =
        feed_bytes (with_data vs (counted (length (concat (map (\<lambda>v. ''data: '' @ v @ nl) vs))) ?q)) rest"
      using Cons.prems False q by (intro Cons.IH) (simp_all add: counted_def with_data_def)
    then show ?thesis by (simp add: counted_def with_data_def add.assoc)
  qed simp
  finally show ?case by simp
qed simp

text \<open>A parser between two events, and what it is after an event.\<close>

definition idle :: "sse_parser \<Rightarrow> bool" where
  "idle p \<longleftrightarrow>
     between_lines p \<and> frameBytes p = 0 \<and> cur_event p = None \<and> cur_data p = [] \<and> cur_id p = None
     \<and> cur_retry p = None \<and> \<not> sawData p"

lemma idle_new: "idle (new_parser n)"
  by (simp add: idle_def between_lines_def new_parser_def)

definition set_event :: "string option \<Rightarrow> sse_parser \<Rightarrow> sse_parser" where
  "set_event v p = (case v of None \<Rightarrow> p | Some x \<Rightarrow> p\<lparr>cur_event := Some x\<rparr>)"

definition set_id :: "string option \<Rightarrow> sse_parser \<Rightarrow> sse_parser" where
  "set_id v p = (case v of None \<Rightarrow> p | Some x \<Rightarrow> p\<lparr>cur_id := Some x\<rparr>)"

definition opt_line :: "string \<Rightarrow> string \<Rightarrow> string option \<Rightarrow> string" where
  "opt_line nl w v = (case v of None \<Rightarrow> [] | Some x \<Rightarrow> w @ x @ nl)"

lemma encode_event_parts:
  "encode_event nl e =
     opt_line nl ''event: '' (tx_event e) @ opt_line nl ''id: '' (tx_id e)
     @ concat (map (\<lambda>v. ''data: '' @ v @ nl) (tx_lines e)) @ nl"
  by (simp add: encode_event_def event_lines_def opt_line_def o_def split: option.splits)

lemma counted_id: "decoder p = td_ready \<Longrightarrow> counted 0 p = p"
  by (simp add: counted_def)

lemma feed_event_line:
  assumes "line_break nl" and "between_lines p" and "case v of None \<Rightarrow> True | Some x \<Rightarrow> line_ok x"
    and "frameBytes p + length (opt_line nl ''event: '' v) \<le> maxFrameBytes p"
  shows "\<exists>d. (d = td_init \<or> d = td_ready) \<and> feed_bytes p (opt_line nl ''event: '' v @ rest) =
    feed_bytes (set_event v (p\<lparr>frameBytes := frameBytes p + length (opt_line nl ''event: '' v), decoder := d\<rparr>)) rest"
proof (cases v)
  case None
  with assms(2) show ?thesis by (intro exI [of _ "decoder p"]) (simp add: opt_line_def set_event_def between_lines_def)
next
  case (Some x)
  have "feed_bytes p (''event: '' @ x @ nl @ rest) =
      feed_bytes (set_event v (counted (length (''event: '' @ x @ nl)) p)) rest"
    using assms(3,4) Some by (intro feed_field assms(1,2) plain_prefixes decode_prefixes)
      (simp_all add: line_ok_def consumeLine_def line_field_def line_value_def set_event_def opt_line_def)
  with Some show ?thesis by (intro exI [of _ td_ready]) (simp add: opt_line_def counted_def)
qed

lemma feed_id_line:
  assumes "line_break nl" and "between_lines p"
    and "case v of None \<Rightarrow> True | Some x \<Rightarrow> line_ok x \<and> CHR 0x00 \<notin> set x"
    and "frameBytes p + length (opt_line nl ''id: '' v) \<le> maxFrameBytes p"
  shows "\<exists>d. (d = td_init \<or> d = td_ready) \<and> feed_bytes p (opt_line nl ''id: '' v @ rest) =
    feed_bytes (set_id v (p\<lparr>frameBytes := frameBytes p + length (opt_line nl ''id: '' v), decoder := d\<rparr>)) rest"
proof (cases v)
  case None
  with assms(2) show ?thesis by (intro exI [of _ "decoder p"]) (simp add: opt_line_def set_id_def between_lines_def)
next
  case (Some x)
  have "feed_bytes p (''id: '' @ x @ nl @ rest) = feed_bytes (set_id v (counted (length (''id: '' @ x @ nl)) p)) rest"
    using assms(3,4) Some by (intro feed_field assms(1,2) plain_prefixes decode_prefixes)
      (simp_all add: line_ok_def consumeLine_def line_field_def line_value_def set_id_def opt_line_def)
  with Some show ?thesis by (intro exI [of _ td_ready]) (simp add: opt_line_def counted_def)
qed

text \<open>The empty line after the data dispatches the event.\<close>

lemma feed_blank_line:
  assumes "line_break nl" and "between_lines p" and "sawData p" and "join [LF] (cur_data p) \<noteq> []"
    and "decoder p = td_ready" and "frameBytes p + length nl \<le> maxFrameBytes p"
  shows "feed_bytes p (nl @ rest) =
    then_frames ([\<lparr>ev_event = cur_event p, ev_data = join [LF] (cur_data p), ev_id = cur_id p, ev_retry = cur_retry p\<rparr>],
      Inr (p\<lparr>decoder := td_ready, cur_event := None, cur_data := [], cur_id := None, cur_retry := None, sawData := False, frameBytes := 0\<rparr>))
    (\<lambda>p'. feed_bytes p' rest)"
  using assms feed_line [OF assms(1,2), of "[]" rest]
  by (simp add: plain_bytes_def consumeLine_def dispatch_def counted_def)

lemma feed_event:
  assumes "line_break nl" and "idle p" and ok: "event_text_ok (maxFrameBytes p) nl e"
  shows "\<exists>p'. idle p' \<and> maxFrameBytes p' = maxFrameBytes p
    \<and> feed_bytes p (encode_event nl e @ rest) = then_frames ([event_of e], Inr p') (\<lambda>p'. feed_bytes p' rest)"
proof -
  let ?ev = "opt_line nl ''event: '' (tx_event e)" and ?id = "opt_line nl ''id: '' (tx_id e)"
  let ?data = "concat (map (\<lambda>v. ''data: '' @ v @ nl) (tx_lines e))"
  have fits: "length ?ev + length ?id + length ?data + length nl \<le> maxFrameBytes p"
    using ok by (simp add: event_text_ok_def encode_event_parts)
  have p: "between_lines p" "frameBytes p = 0" using assms(2) by (simp_all add: idle_def)
  obtain d1 where d1: "d1 = td_init \<or> d1 = td_ready"
    and s1: "feed_bytes p (encode_event nl e @ rest) =
      feed_bytes (set_event (tx_event e) (p\<lparr>frameBytes := length ?ev, decoder := d1\<rparr>)) (?id @ ?data @ nl @ rest)"
    using feed_event_line [OF assms(1) p(1), of "tx_event e" "?id @ ?data @ nl @ rest"] ok fits p(2)
    by (auto simp: event_text_ok_def encode_event_parts)
  let ?p1 = "set_event (tx_event e) (p\<lparr>frameBytes := length ?ev, decoder := d1\<rparr>)"
  have p1: "between_lines ?p1" and b1: "frameBytes ?p1 = length ?ev" and m1: "maxFrameBytes ?p1 = maxFrameBytes p"
    using p(1) d1 fits by (auto simp: set_event_def between_lines_def split: option.splits)
  obtain d2 where d2: "d2 = td_init \<or> d2 = td_ready"
    and s2: "feed_bytes ?p1 (?id @ ?data @ nl @ rest) =
      feed_bytes (set_id (tx_id e) (?p1\<lparr>frameBytes := length ?ev + length ?id, decoder := d2\<rparr>)) (?data @ nl @ rest)"
    using feed_id_line [OF assms(1) p1, of "tx_id e" "?data @ nl @ rest"] ok fits
    by (auto simp: event_text_ok_def b1 m1)
  let ?p2 = "set_id (tx_id e) (?p1\<lparr>frameBytes := length ?ev + length ?id, decoder := d2\<rparr>)"
  have p2: "between_lines ?p2" and b2: "frameBytes ?p2 = length ?ev + length ?id" and m2: "maxFrameBytes ?p2 = maxFrameBytes p"
    using p1 d2 fits m1 by (auto simp: set_id_def between_lines_def split: option.splits)
  have lines: "tx_lines e \<noteq> []" using ok by (auto simp: event_text_ok_def)
  have s3: "feed_bytes ?p2 (?data @ nl @ rest) = feed_bytes (with_data (tx_lines e) (counted (length ?data) ?p2)) (nl @ rest)"
    using ok fits lines by (intro feed_data_lines assms(1) p2) (simp_all add: event_text_ok_def b2 m2)
  define q where "q = with_data (tx_lines e) (counted (length ?data) ?p2)"
  have q: "between_lines q" and bq: "frameBytes q = length ?ev + length ?id + length ?data"
    and mq: "maxFrameBytes q = maxFrameBytes p"
    using p2 b2 m2 fits by (auto simp: q_def with_data_def between_lines_def counted_def)
  have fields: "cur_event q = tx_event e" "cur_id q = tx_id e" "cur_retry q = None"
      "cur_data q = tx_lines e" "sawData q" "decoder q = td_ready"
    using assms(2) lines
    by (auto simp: q_def idle_def with_data_def counted_def set_id_def set_event_def split: option.splits)
  let ?p4 = "q\<lparr>decoder := td_ready, cur_event := None, cur_data := [], cur_id := None, cur_retry := None, sawData := False, frameBytes := 0\<rparr>"
  have "join [LF] (cur_data q) \<noteq> []" using ok by (simp add: fields event_text_ok_def)
  moreover have "frameBytes q + length nl \<le> maxFrameBytes q" using fits bq mq by simp
  ultimately have "feed_bytes q (nl @ rest) = then_frames ([event_of e], Inr ?p4) (\<lambda>p'. feed_bytes p' rest)"
    using feed_blank_line [OF assms(1) q fields(5) _ fields(6), of rest] by (simp add: fields event_of_def)
  moreover have "idle ?p4" using q by (simp add: idle_def between_lines_def)
  ultimately show ?thesis using s1 s2 s3 mq by (intro exI [of _ ?p4]) (simp add: q_def)
qed

lemma feed_events:
  assumes "line_break nl" and "idle p" and "list_all (event_text_ok (maxFrameBytes p) nl) es"
  shows "\<exists>p'. idle p' \<and> feed_bytes p (concat (map (encode_event nl) es)) = (map event_of es, Inr p')"
  using assms(2,3)
proof (induction es arbitrary: p)
  case Nil
  then show ?case by auto
next
  case (Cons e es)
  then obtain p1 where p1: "idle p1" "maxFrameBytes p1 = maxFrameBytes p"
    "feed_bytes p (encode_event nl e @ concat (map (encode_event nl) es)) =
       then_frames ([event_of e], Inr p1) (\<lambda>p'. feed_bytes p' (concat (map (encode_event nl) es)))"
    using feed_event [OF assms(1) Cons.prems(1), of e "concat (map (encode_event nl) es)"] by auto
  from Cons.IH [OF p1(1)] Cons.prems(2) p1(2) obtain p2 where "idle p2"
    "feed_bytes p1 (concat (map (encode_event nl) es)) = (map event_of es, Inr p2)" by auto
  with p1(3) show ?case by (auto simp: then_frames_def)
qed

lemma parse_encoded:
  assumes "line_break nl" and "list_all (event_text_ok n nl) es" and "concat cs = concat (map (encode_event nl) es)"
  shows "\<exists>p. idle p \<and> feed_chunks (new_parser n) cs = (map event_of es, Inr p)"
proof -
  have "maxFrameBytes (new_parser n) = n" by (simp add: new_parser_def)
  with feed_events [OF assms(1) idle_new, of n es] assms(2,3) show ?thesis
    by (simp add: feed_chunks_feed)
qed

lemma finish_idle: "idle p \<Longrightarrow> finish p = Inr []"
  by (auto simp: idle_def between_lines_def finish_def finish_loop.simps decode_flush_ok_def td_init_def td_ready_def)

section \<open>Properties\<close>

text \<open>
  A stream of events written with line feeds or with carriage return and line feed is parsed to
  exactly these events, cut into chunks anywhere, when every frame with its terminators fits the
  byte limit and its lines are UTF-8 text without line breaks.
\<close>

theorem sse_round_trip:
  assumes "line_break nl" and "list_all (event_text_ok n nl) es" and "concat cs = concat (map (encode_event nl) es)"
  shows "parseSseStream (new_parser n) cs = (map event_of es, Inr ())"
proof -
  obtain p where "idle p" and "feed_chunks (new_parser n) cs = (map event_of es, Inr p)"
    using parse_encoded [OF assms] by blast
  then show ?thesis by (simp add: parseSseStream_def finish_idle)
qed

lemma sse_round_trip_witness:
  "parseSseStream (new_parser 40)
     [''data: h'', [CHR 0xC3], [CHR 0xA9, CR], [LF], ''data: x'' @ [CR, LF, CR], LF # ''event: e'' @ [CR, LF] @ ''data: y'' @ [CR, LF, CR, LF]]
   = ([\<lparr>ev_event = None, ev_data = [CHR ''h'', CHR 0xC3, CHR 0xA9, LF, CHR ''x''], ev_id = None, ev_retry = None\<rparr>,
       \<lparr>ev_event = Some ''e'', ev_data = ''y'', ev_id = None, ev_retry = None\<rparr>], Inr ())"
proof -
  let ?es = "[\<lparr>tx_event = None, tx_id = None, tx_lines = [[CHR ''h'', CHR 0xC3, CHR 0xA9], ''x'']\<rparr>,
      \<lparr>tx_event = Some ''e'', tx_id = None, tx_lines = [''y'']\<rparr>]"
  have "line_break [CR, LF]" by (simp add: line_break_def)
  moreover have "list_all (event_text_ok 40 [CR, LF]) ?es" by code_simp
  moreover have "concat [''data: h'', [CHR 0xC3], [CHR 0xA9, CR], [LF], ''data: x'' @ [CR, LF, CR],
        LF # ''event: e'' @ [CR, LF] @ ''data: y'' @ [CR, LF, CR, LF]] = concat (map (encode_event [CR, LF]) ?es)"
    by (simp add: encode_event_def event_lines_def)
  ultimately have "parseSseStream (new_parser 40) [''data: h'', [CHR 0xC3], [CHR 0xA9, CR], [LF], ''data: x'' @ [CR, LF, CR],
        LF # ''event: e'' @ [CR, LF] @ ''data: y'' @ [CR, LF, CR, LF]] = (map event_of ?es, Inr ())"
    by (rule sse_round_trip)
  then show ?thesis by (simp add: event_of_def)
qed

end
