(* ===== verification/Stream_Runtime.thy ===== *)
theory Stream_Runtime
  imports Sse_Roundtrip
begin

text \<open>
  \<open>packages/model-gateway/src/adapters/stream-runtime.ts\<close>: the driver that runs a protocol
  decoder over a byte source while staying cancellable.

  An \<open>emission\<close> is what a stretch of the generator yields: its events, the signal after the
  reads of the abort flag it made, and the value it goes on with (\<open>None\<close> once the generator
  has returned).  The interface \<open>FrameDecoder\<close> is the record \<open>frame_decoder\<close>; the
  contract both protocol decoders fulfil is the locale \<open>frame_decoder_contract\<close>, in which the
  guarantees of the driver are proved once.
\<close>

section \<open>Options and decoders\<close>

record decode_options =
  opt_frame_bytes :: nat
  opt_tool_bytes :: nat

definition normalizeDecodeOptions :: "jsval \<Rightarrow> jsval \<Rightarrow> adapter_code + decode_options" where
  "normalizeDecodeOptions frame_opt tool_opt =
     rbind (readPositiveSafeInteger frame_opt default_max_frame_bytes) (\<lambda>f.
     rbind (readPositiveSafeInteger tool_opt default_max_tool_input_bytes) (\<lambda>t.
     Inr \<lparr>opt_frame_bytes = f, opt_tool_bytes = t\<rparr>))"

record 'st frame_decoder =
  createState :: "nat \<Rightarrow> 'st"
  handleFrame :: "'st \<Rightarrow> sse_event \<Rightarrow> stream_code + (model_event list \<times> 'st)"
  isTerminal :: "'st \<Rightarrow> bool"
  finishStream :: "'st \<Rightarrow> stream_code + model_event list"

section \<open>Emissions\<close>

type_synonym 'a emission = "model_event list \<times> signal \<times> 'a option"

definition then_emit :: "'a emission \<Rightarrow> (signal \<Rightarrow> 'a \<Rightarrow> 'b emission) \<Rightarrow> 'b emission" where
  "then_emit m k =
     (case m of
        (es, sg, None) \<Rightarrow> (es, sg, None)
      | (es, sg, Some a) \<Rightarrow> (case k sg a of (fs, sg', r) \<Rightarrow> (es @ fs, sg', r)))"

lemma then_emit_simps [simp]:
  "then_emit (es, sg, None) k = (es, sg, None)"
  "then_emit ([], sg, Some a) k = k sg a"
  by (simp_all add: then_emit_def)

lemma then_emit_Some:
  "then_emit (es, sg, Some a) k = (case k sg a of (fs, sg', r) \<Rightarrow> (es @ fs, sg', r))"
  by (simp add: then_emit_def)

lemma then_emit_assoc:
  "then_emit (then_emit m k) h = then_emit m (\<lambda>sg a. then_emit (k sg a) h)"
  by (auto simp: then_emit_def split: prod.splits option.splits)

text \<open>\<open>yield streamErrorEvent(code); return\<close>, and the check before every step.\<close>

definition throw :: "stream_code \<Rightarrow> signal \<Rightarrow> 'a emission" where
  "throw c sg = ([streamErrorEvent c], sg, None)"

definition checkpoint :: "signal \<Rightarrow> unit emission" where
  "checkpoint sg =
     (case observe sg of (aborted, sg') \<Rightarrow> if aborted then throw Aborted sg' else ([], sg', Some ()))"

text \<open>
  \<open>nextStep\<close>: the flag is read, then the pending \<open>next()\<close> races the abort event.
\<close>

definition nextStep :: "signal \<Rightarrow> unit emission" where
  "nextStep sg = then_emit (checkpoint sg) (\<lambda>sg' _. checkpoint sg')"

text \<open>The events of one frame, each after another look at the flag.\<close>

fun emit :: "model_event list \<Rightarrow> signal \<Rightarrow> unit emission" where
  "emit [] sg = ([], sg, Some ())"
| "emit (e # es) sg =
     then_emit (checkpoint sg) (\<lambda>sg' _. then_emit ([e], sg', Some ()) (\<lambda>sg'' _. emit es sg''))"

section \<open>decodeFrameStream\<close>

definition process_frame :: "'st frame_decoder \<Rightarrow> 'st \<Rightarrow> sse_event \<Rightarrow> signal \<Rightarrow> 'st emission" where
  "process_frame D st f sg =
     (case handleFrame D st f of
        Inl c \<Rightarrow> throw c sg
      | Inr (evs, st') \<Rightarrow>
          then_emit (emit evs sg) (\<lambda>sg' _. if isTerminal D st' then ([], sg', None) else ([], sg', Some st')))"

text \<open>
  The inner loop over the frames of one chunk: the flag is read before the frame iterator
  advances, also before the step that finds it exhausted or makes it throw.
\<close>

fun run_frames ::
  "'st frame_decoder \<Rightarrow> 'st \<Rightarrow> sse_event list \<Rightarrow> stream_code + sse_parser \<Rightarrow> signal \<Rightarrow> ('st \<times> sse_parser) emission"
where
  "run_frames D st [] end sg =
     then_emit (checkpoint sg) (\<lambda>sg' _. case end of Inl c \<Rightarrow> throw c sg' | Inr p \<Rightarrow> ([], sg', Some (st, p)))"
| "run_frames D st (f # fs) end sg =
     then_emit (checkpoint sg) (\<lambda>sg' _.
     then_emit (process_frame D st f sg') (\<lambda>sg'' st'. run_frames D st' fs end sg''))"

text \<open>The frames of \<open>parser.finish()\<close>.\<close>

fun drain_frames :: "'st frame_decoder \<Rightarrow> 'st \<Rightarrow> sse_event list \<Rightarrow> signal \<Rightarrow> 'st emission" where
  "drain_frames D st [] sg = ([], sg, Some st)"
| "drain_frames D st (f # fs) sg =
     then_emit (checkpoint sg) (\<lambda>sg' _.
     then_emit (process_frame D st f sg') (\<lambda>sg'' st'. drain_frames D st' fs sg''))"

definition finish_events :: "'st frame_decoder \<Rightarrow> 'st \<Rightarrow> signal \<Rightarrow> unit emission" where
  "finish_events D st sg =
     (if isTerminal D st then ([], sg, None)
      else
        (case finishStream D st of
           Inl c \<Rightarrow> throw c sg
         | Inr evs \<Rightarrow> then_emit (emit evs sg) (\<lambda>sg' _. ([], sg', None))))"

text \<open>After the source is done.\<close>

definition end_of_source :: "'st frame_decoder \<Rightarrow> 'st \<Rightarrow> sse_parser \<Rightarrow> signal \<Rightarrow> unit emission" where
  "end_of_source D st p sg =
     then_emit (checkpoint sg) (\<lambda>sg' _.
     case finish p of
       Inl c \<Rightarrow> throw c sg'
     | Inr fs \<Rightarrow> then_emit (drain_frames D st fs sg') (\<lambda>sg'' st'. finish_events D st' sg''))"

text \<open>
  The outer loop.  A source that rejects is answered by \<open>gateway_error\<close>: its error is not an
  \<open>AdapterStreamError\<close>.
\<close>

fun run_chunks ::
  "'st frame_decoder \<Rightarrow> 'st \<Rightarrow> sse_parser \<Rightarrow> char list list \<Rightarrow> src_end \<Rightarrow> signal \<Rightarrow> unit emission"
where
  "run_chunks D st p [] end sg =
     then_emit (checkpoint sg) (\<lambda>sg1 _. then_emit (nextStep sg1) (\<lambda>sg2 _.
     case end of SrcThrow \<Rightarrow> throw GatewayError sg2 | SrcDone \<Rightarrow> end_of_source D st p sg2))"
| "run_chunks D st p (c # cs) end sg =
     then_emit (checkpoint sg) (\<lambda>sg1 _. then_emit (nextStep sg1) (\<lambda>sg2 _.
     case framesFrom p c of (fs, r) \<Rightarrow>
       then_emit (run_frames D st fs r sg2) (\<lambda>sg3 (st', p'). run_chunks D st' p' cs end sg3)))"

definition decodeFrameStream ::
  "'st frame_decoder \<Rightarrow> decode_options \<Rightarrow> char list source \<Rightarrow> signal \<Rightarrow> model_event list \<times> signal"
where
  "decodeFrameStream D opts src sg =
     (case then_emit (checkpoint sg) (\<lambda>sg' _.
             run_chunks D (createState D (opt_tool_bytes opts)) (new_parser (opt_frame_bytes opts))
               (fst src) (snd src) sg') of
        (es, sg', _) \<Rightarrow> (es, sg'))"

section \<open>Well-ended streams\<close>

definition open_events :: "model_event list \<Rightarrow> bool" where
  "open_events es \<longleftrightarrow> list_all (\<lambda>e. \<not> is_terminal e \<and> sanitized e) es"

text \<open>Exactly one terminal event, at the end, and every error event is one of the fixed ones.\<close>

definition ends_once :: "model_event list \<Rightarrow> bool" where
  "ends_once es \<longleftrightarrow>
     es \<noteq> [] \<and> is_terminal (last es) \<and> sanitized (last es) \<and> open_events (butlast es)"

definition emission_ok :: "('a \<Rightarrow> bool) \<Rightarrow> 'a emission \<Rightarrow> bool" where
  "emission_ok P m = (case m of (es, _, None) \<Rightarrow> ends_once es | (es, _, Some a) \<Rightarrow> open_events es \<and> P a)"

lemma open_events_simps [simp]:
  "open_events []"
  "open_events (xs @ ys) \<longleftrightarrow> open_events xs \<and> open_events ys"
  "open_events [e] \<longleftrightarrow> \<not> is_terminal e \<and> sanitized e"
  by (simp_all add: open_events_def)

lemma open_events_iff: "open_events es \<longleftrightarrow> list_all (\<lambda>e. \<not> is_terminal e) es"
proof -
  have "\<not> is_terminal e \<Longrightarrow> sanitized e" for e by (cases e) simp_all
  then show ?thesis by (auto simp: open_events_def list_all_iff)
qed

lemma open_events_take: "open_events es \<Longrightarrow> open_events (take n es)"
  by (auto simp: open_events_def list_all_iff dest: in_set_takeD)

lemma ends_once_snoc [simp]:
  "ends_once (es @ [e]) \<longleftrightarrow> open_events es \<and> is_terminal e \<and> sanitized e"
  by (auto simp: ends_once_def)

lemma ends_once_error [simp]: "ends_once [streamErrorEvent c]"
  using ends_once_snoc [of "[]"] by simp

lemma ends_once_append: "open_events xs \<Longrightarrow> ends_once ys \<Longrightarrow> ends_once (xs @ ys)"
  by (auto simp: ends_once_def butlast_append)

lemma ends_once_nonempty: "ends_once es \<Longrightarrow> es \<noteq> []"
  by (simp add: ends_once_def)

lemma emission_ok_throw [intro, simp]: "emission_ok P (throw c sg)"
  by (simp add: emission_ok_def throw_def)

lemma emission_ok_Some [simp]: "emission_ok P (es, sg, Some a) \<longleftrightarrow> open_events es \<and> P a"
  by (simp add: emission_ok_def)

lemma emission_ok_None [simp]: "emission_ok P (es, sg, None) \<longleftrightarrow> ends_once es"
  by (simp add: emission_ok_def)

lemma emission_ok_then:
  assumes "emission_ok P m" and "\<And>sg a. P a \<Longrightarrow> emission_ok Q (k sg a)"
  shows "emission_ok Q (then_emit m k)"
proof -
  obtain es sg r where m: "m = (es, sg, r)" by (cases m)
  show ?thesis
  proof (cases r)
    case None
    with assms(1) m show ?thesis by simp
  next
    case (Some a)
    obtain fs sg' r' where k: "k sg a = (fs, sg', r')" by (cases "k sg a")
    from assms(1) m Some have "open_events es" and "P a" by simp_all
    with assms(2) [of a sg] k show ?thesis
      by (cases r') (simp_all add: m Some then_emit_Some ends_once_append)
  qed
qed

lemma emission_ok_checkpoint [intro, simp]: "emission_ok (\<lambda>_. True) (checkpoint sg)"
  by (cases "observe sg") (simp add: checkpoint_def)

lemma emission_ok_nextStep [intro, simp]: "emission_ok (\<lambda>_. True) (nextStep sg)"
  unfolding nextStep_def by (rule emission_ok_then [where P = "\<lambda>_. True"]) simp_all

lemma emit_cases:
  "emit evs sg = (es, sg', r) \<Longrightarrow>
     r = Some () \<and> es = evs \<or> r = None \<and> (\<exists>n < length evs. es = take n evs @ [streamErrorEvent Aborted])"
proof (induction evs arbitrary: sg es)
  case Nil
  then show ?case by simp
next
  case (Cons e evs)
  obtain ab sg1 where ob: "observe sg = (ab, sg1)" by (cases "observe sg")
  show ?case
  proof (cases ab)
    case True
    with Cons.prems ob have "r = None \<and> es = take 0 (e # evs) @ [streamErrorEvent Aborted]"
      by (auto simp: checkpoint_def throw_def)
    then show ?thesis by blast
  next
    case False
    obtain fs sg2 r2 where em: "emit evs sg1 = (fs, sg2, r2)" by (cases "emit evs sg1")
    with Cons.prems ob False have es: "es = e # fs" and "r = r2" and "sg' = sg2"
      by (auto simp: checkpoint_def then_emit_Some)
    from em \<open>r = r2\<close> \<open>sg' = sg2\<close> have "emit evs sg1 = (fs, sg', r)" by simp
    from Cons.IH [OF this] show ?thesis
    proof (elim disjE conjE exE)
      fix n assume "r = None" "n < length evs" "fs = take n evs @ [streamErrorEvent Aborted]"
      then have "Suc n < length (e # evs) \<and> es = take (Suc n) (e # evs) @ [streamErrorEvent Aborted]"
        by (simp add: es)
      with \<open>r = None\<close> show ?thesis by blast
    qed (simp add: es)
  qed
qed

lemma emit_final_ok:
  assumes "ends_once evs"
  shows "emission_ok Q (then_emit (emit evs sg) (\<lambda>sg' _. ([], sg', None)))"
proof -
  obtain es sg' r where em: "emit evs sg = (es, sg', r)" by (cases "emit evs sg")
  have "open_events (take n evs)" if "n < length evs" for n
    using assms that open_events_take [of "butlast evs" n] by (simp add: ends_once_def take_butlast)
  with emit_cases [OF em] assms show ?thesis by (auto simp: em then_emit_Some)
qed

lemma emit_open_ok:
  assumes "open_events evs"
  shows "emission_ok (\<lambda>_. True) (emit evs sg)"
proof -
  obtain es sg' r where em: "emit evs sg = (es, sg', r)" by (cases "emit evs sg")
  with emit_cases [OF em] assms show ?thesis by (auto simp: open_events_take)
qed

section \<open>The decoder contract\<close>

text \<open>
  What the driver relies on.  While the decoder is not terminal, a frame that leaves it so yields
  no terminal event, and a frame that makes it terminal yields its events with exactly one
  terminal event at the end; the end of the bytes is answered by an error or by such a batch.
\<close>

locale frame_decoder_contract =
  fixes D :: "'st frame_decoder"
  assumes create_open: "\<not> isTerminal D (createState D n)"
    and handle_open:
      "\<not> isTerminal D st \<Longrightarrow> handleFrame D st f = Inr (evs, st') \<Longrightarrow> \<not> isTerminal D st'
        \<Longrightarrow> open_events evs"
    and handle_final:
      "\<not> isTerminal D st \<Longrightarrow> handleFrame D st f = Inr (evs, st') \<Longrightarrow> isTerminal D st'
        \<Longrightarrow> ends_once evs"
    and finish_final: "\<not> isTerminal D st \<Longrightarrow> finishStream D st = Inr evs \<Longrightarrow> ends_once evs"
begin

lemma process_frame_ok:
  assumes "\<not> isTerminal D st"
  shows "emission_ok (\<lambda>s. \<not> isTerminal D s) (process_frame D st f sg)"
proof (cases "handleFrame D st f")
  case (Inl c)
  then show ?thesis by (simp add: process_frame_def)
next
  case (Inr r)
  obtain evs st' where r: "r = (evs, st')" by (cases r)
  show ?thesis
  proof (cases "isTerminal D st'")
    case True
    with handle_final [OF assms Inr [unfolded r]] show ?thesis
      by (simp add: process_frame_def Inr r emit_final_ok)
  next
    case False
    with handle_open [OF assms Inr [unfolded r]] have "emission_ok (\<lambda>_. True) (emit evs sg)"
      by (simp add: emit_open_ok)
    then have "emission_ok (\<lambda>s. \<not> isTerminal D s) (then_emit (emit evs sg) (\<lambda>sg' _. ([], sg', Some st')))"
      by (rule emission_ok_then) (simp add: False)
    with False show ?thesis by (simp add: process_frame_def Inr r)
  qed
qed

lemma run_frames_ok:
  "\<not> isTerminal D st \<Longrightarrow> emission_ok (\<lambda>(s, _). \<not> isTerminal D s) (run_frames D st fs end sg)"
proof (induction fs arbitrary: st sg)
  case Nil
  show ?case
    unfolding run_frames.simps
    by (rule emission_ok_then [where P = "\<lambda>_. True"]) (auto simp: Nil split: sum.splits)
next
  case (Cons f fs)
  show ?case
    unfolding run_frames.simps
    by (rule emission_ok_then [where P = "\<lambda>_. True"], simp,
        rule emission_ok_then [OF process_frame_ok [OF Cons.prems]], rule Cons.IH)
qed

lemma drain_frames_ok:
  "\<not> isTerminal D st \<Longrightarrow> emission_ok (\<lambda>s. \<not> isTerminal D s) (drain_frames D st fs sg)"
proof (induction fs arbitrary: st sg)
  case Nil
  then show ?case by simp
next
  case (Cons f fs)
  show ?case
    unfolding drain_frames.simps
    by (rule emission_ok_then [where P = "\<lambda>_. True"], simp,
        rule emission_ok_then [OF process_frame_ok [OF Cons.prems]], rule Cons.IH)
qed

lemma finish_events_ok:
  "\<not> isTerminal D st \<Longrightarrow> emission_ok (\<lambda>_. False) (finish_events D st sg)"
  by (auto simp: finish_events_def split: sum.splits intro: emit_final_ok finish_final)

lemma end_of_source_ok:
  assumes "\<not> isTerminal D st"
  shows "emission_ok (\<lambda>_. False) (end_of_source D st p sg)"
  unfolding end_of_source_def
  by (rule emission_ok_then [where P = "\<lambda>_. True"], simp)
    (auto split: sum.splits intro: emission_ok_then [OF drain_frames_ok [OF assms]] finish_events_ok)

lemma run_chunks_ok:
  "\<not> isTerminal D st \<Longrightarrow> emission_ok (\<lambda>_. False) (run_chunks D st p cs end sg)"
proof (induction cs arbitrary: st p sg)
  case Nil
  show ?case
    unfolding run_chunks.simps
    by (rule emission_ok_then [where P = "\<lambda>_. True"], simp,
        rule emission_ok_then [where P = "\<lambda>_. True"], simp)
      (auto simp: end_of_source_ok [OF Nil] split: src_end.splits)
next
  case (Cons c cs)
  obtain fs r where fr: "framesFrom p c = (fs, r)" by (cases "framesFrom p c")
  show ?case
    unfolding run_chunks.simps fr prod.case
    by (rule emission_ok_then [where P = "\<lambda>_. True"], simp,
        rule emission_ok_then [where P = "\<lambda>_. True"], simp,
        rule emission_ok_then [OF run_frames_ok [OF Cons.prems]])
      (auto intro: Cons.IH)
qed

text \<open>Whatever the source sends and whenever the consumer cancels, the stream is well ended.\<close>

lemma decode_ends_once: "ends_once (fst (decodeFrameStream D opts src sg))"
proof -
  have "emission_ok (\<lambda>_. False) (then_emit (checkpoint sg) (\<lambda>sg' _.
      run_chunks D (createState D (opt_tool_bytes opts)) (new_parser (opt_frame_bytes opts)) (fst src) (snd src) sg'))"
    by (rule emission_ok_then [where P = "\<lambda>_. True"], simp, rule run_chunks_ok, rule create_open)
  then show ?thesis
    by (auto simp: decodeFrameStream_def emission_ok_def split: prod.splits option.splits)
qed

end

section \<open>History invariants of a decoder\<close>

text \<open>
  A decoder whose state stands in a relation to everything emitted so far.  What the relation
  implies for the emitted events, and what survives cutting the list and appending an error
  event, holds for every decoded stream.
\<close>

locale decoder_history = frame_decoder_contract D
  for D :: "'st frame_decoder" +
  fixes I :: "'st \<Rightarrow> model_event list \<Rightarrow> bool"
    and Q :: "model_event list \<Rightarrow> bool"
  assumes hist_init: "I (createState D n) []"
    and hist_step: "I st h \<Longrightarrow> \<not> isTerminal D st \<Longrightarrow> handleFrame D st f = Inr (evs, st') \<Longrightarrow> I st' (h @ evs)"
    and hist_finish: "I st h \<Longrightarrow> \<not> isTerminal D st \<Longrightarrow> finishStream D st = Inr evs \<Longrightarrow> Q (h @ evs)"
    and hist_sound: "I st h \<Longrightarrow> Q h"
    and prefix_closed: "Q (xs @ ys) \<Longrightarrow> Q xs"
    and error_closed: "Q xs \<Longrightarrow> Q (xs @ [streamErrorEvent c])"
begin

definition live :: "'st \<Rightarrow> model_event list \<Rightarrow> bool" where
  "live st h \<longleftrightarrow> I st h \<and> \<not> isTerminal D st"

lemma live_sound: "live st h \<Longrightarrow> Q h"
  unfolding live_def by (elim conjE) (rule hist_sound)

lemma live_init: "live (createState D n) []"
  by (simp add: live_def hist_init create_open)

definition hist_ok :: "model_event list \<Rightarrow> ('a \<Rightarrow> model_event list \<Rightarrow> bool) \<Rightarrow> 'a emission \<Rightarrow> bool" where
  "hist_ok h P m = (case m of (es, _, None) \<Rightarrow> Q (h @ es) | (es, _, Some a) \<Rightarrow> P a (h @ es))"

lemma hist_ok_then:
  assumes "hist_ok h P m" and "\<And>h' sg a. P a h' \<Longrightarrow> hist_ok h' R (k sg a)"
  shows "hist_ok h R (then_emit m k)"
proof -
  obtain es sg r where m: "m = (es, sg, r)" by (cases m)
  show ?thesis
  proof (cases r)
    case None
    with assms(1) m show ?thesis by (simp add: hist_ok_def)
  next
    case (Some a)
    with assms(1) m have "P a (h @ es)" by (simp add: hist_ok_def)
    from assms(2) [OF this, of sg] show ?thesis
      by (cases "k sg a") (auto simp: m Some then_emit_Some hist_ok_def split: option.splits)
  qed
qed

lemma hist_ok_throw: "Q h \<Longrightarrow> hist_ok h P (throw c sg)"
  by (simp add: hist_ok_def throw_def error_closed)

lemma hist_ok_checkpoint: "live st h \<Longrightarrow> hist_ok h (\<lambda>_. live st) (checkpoint sg)"
  by (cases "observe sg")
    (auto simp: checkpoint_def hist_ok_def throw_def intro: error_closed live_sound)

lemma hist_ok_nextStep:
  assumes "live st h"
  shows "hist_ok h (\<lambda>_. live st) (nextStep sg)"
  unfolding nextStep_def by (rule hist_ok_then [OF hist_ok_checkpoint [OF assms]]) (rule hist_ok_checkpoint)

lemma hist_ok_stop: "Q h \<Longrightarrow> hist_ok h P ([], sg, None)"
  by (simp add: hist_ok_def)

lemma hist_ok_emit:
  assumes "Q (h @ evs)"
  shows "hist_ok h (\<lambda>_ h'. h' = h @ evs) (emit evs sg)"
proof -
  obtain es sg' r where em: "emit evs sg = (es, sg', r)" by (cases "emit evs sg")
  have "Q (h @ take n evs)" for n
    using assms prefix_closed [of "h @ take n evs" "drop n evs"] by simp
  then have "Q (h @ take n evs @ [streamErrorEvent Aborted])" for n
    using error_closed [of "h @ take n evs" Aborted] by simp
  with emit_cases [OF em] show ?thesis by (auto simp: hist_ok_def em)
qed

lemma hist_ok_process:
  assumes "live st h"
  shows "hist_ok h live (process_frame D st f sg)"
proof (cases "handleFrame D st f")
  case (Inl c)
  then show ?thesis using live_sound [OF assms] by (simp add: process_frame_def hist_ok_throw)
next
  case (Inr r)
  obtain evs st' where r: "r = (evs, st')" by (cases r)
  from hist_step [OF _ _ Inr [unfolded r]] assms have I': "I st' (h @ evs)" by (simp add: live_def)
  have "hist_ok h live (then_emit (emit evs sg) (\<lambda>sg' _. if isTerminal D st' then ([], sg', None) else ([], sg', Some st')))"
    by (rule hist_ok_then [OF hist_ok_emit [OF hist_sound [OF I']]])
      (simp add: hist_ok_def live_def I' hist_sound [OF I'])
  then show ?thesis by (simp add: process_frame_def Inr r)
qed

lemma hist_ok_run_frames:
  "live st h \<Longrightarrow> hist_ok h (\<lambda>(s, _). live s) (run_frames D st fs end sg)"
proof (induction fs arbitrary: st h sg)
  case Nil
  show ?case
    unfolding run_frames.simps
    by (rule hist_ok_then [OF hist_ok_checkpoint [OF Nil]])
      (auto simp: hist_ok_def throw_def split: sum.splits intro: error_closed live_sound)
next
  case (Cons f fs)
  show ?case
    unfolding run_frames.simps
    by (rule hist_ok_then [OF hist_ok_checkpoint [OF Cons.prems]],
        rule hist_ok_then [OF hist_ok_process], assumption, rule Cons.IH)
qed

lemma hist_ok_drain_frames:
  "live st h \<Longrightarrow> hist_ok h live (drain_frames D st fs sg)"
proof (induction fs arbitrary: st h sg)
  case Nil
  then show ?case by (simp add: hist_ok_def)
next
  case (Cons f fs)
  show ?case
    unfolding drain_frames.simps
    by (rule hist_ok_then [OF hist_ok_checkpoint [OF Cons.prems]],
        rule hist_ok_then [OF hist_ok_process], assumption, rule Cons.IH)
qed

lemma hist_ok_finish_events:
  assumes "live st h"
  shows "hist_ok h (\<lambda>_. Q) (finish_events D st sg)"
proof -
  have "hist_ok h (\<lambda>_. Q) (then_emit (emit evs sg) (\<lambda>sg' _. ([], sg', None)))"
    if "finishStream D st = Inr evs" for evs
    by (rule hist_ok_then [OF hist_ok_emit [OF hist_finish [OF assms [unfolded live_def, THEN conjunct1] assms [unfolded live_def, THEN conjunct2] that]]])
      (simp add: hist_ok_def hist_finish [OF assms [unfolded live_def, THEN conjunct1] assms [unfolded live_def, THEN conjunct2] that])
  then show ?thesis
    using live_sound [OF assms]
    by (auto simp: finish_events_def hist_ok_throw hist_ok_stop split: sum.splits)
qed

lemma hist_ok_end_of_source:
  assumes "live st h"
  shows "hist_ok h (\<lambda>_. Q) (end_of_source D st p sg)"
  unfolding end_of_source_def
  by (rule hist_ok_then [OF hist_ok_checkpoint [OF assms]])
    (auto split: sum.splits intro: hist_ok_throw live_sound
      hist_ok_then [OF hist_ok_drain_frames] hist_ok_finish_events)

lemma hist_ok_run_chunks:
  "live st h \<Longrightarrow> hist_ok h (\<lambda>_. Q) (run_chunks D st p cs end sg)"
proof (induction cs arbitrary: st h p sg)
  case Nil
  show ?case
    unfolding run_chunks.simps
    by (rule hist_ok_then [OF hist_ok_checkpoint [OF Nil]], rule hist_ok_then [OF hist_ok_nextStep], assumption)
      (auto split: src_end.splits intro: hist_ok_throw live_sound hist_ok_end_of_source)
next
  case (Cons c cs)
  obtain fs r where fr: "framesFrom p c = (fs, r)" by (cases "framesFrom p c")
  show ?case
    unfolding run_chunks.simps fr prod.case
    by (rule hist_ok_then [OF hist_ok_checkpoint [OF Cons.prems]], rule hist_ok_then [OF hist_ok_nextStep], assumption,
        rule hist_ok_then [OF hist_ok_run_frames], assumption)
      (auto intro: Cons.IH)
qed

lemma decode_history: "Q (fst (decodeFrameStream D opts src sg))"
proof -
  have "hist_ok [] (\<lambda>_. Q) (then_emit (checkpoint sg) (\<lambda>sg' _.
      run_chunks D (createState D (opt_tool_bytes opts)) (new_parser (opt_frame_bytes opts)) (fst src) (snd src) sg'))"
    by (rule hist_ok_then [OF hist_ok_checkpoint [OF live_init]]) (rule hist_ok_run_chunks)
  then show ?thesis
    by (auto simp: decodeFrameStream_def hist_ok_def split: prod.splits option.splits)
qed

end

section \<open>Cancellation only cuts\<close>

text \<open>
  A cancelled run yields a prefix of what the uncancelled run yields, then one \<open>aborted\<close>
  event, unless it finished before the cancellation was seen.  This holds for any decoder.
\<close>

definition cut_of :: "model_event list \<Rightarrow> model_event list \<Rightarrow> bool" where
  "cut_of es full \<longleftrightarrow> (\<exists>n \<le> length full. es = take n full @ [streamErrorEvent Aborted])"

definition cut_emission :: "'a emission \<Rightarrow> 'a emission \<Rightarrow> bool" where
  "cut_emission m full =
     (case (m, full) of ((es, _, r), (es0, sg0, r0)) \<Rightarrow>
        sg0 = None \<and> (es = es0 \<and> r = r0 \<or> r = None \<and> cut_of es es0))"

lemma cut_emission_then:
  assumes "cut_emission m full" and "\<And>sg a. cut_emission (k sg a) (k None a)"
  shows "cut_emission (then_emit m k) (then_emit full k)"
proof -
  obtain es sg r es0 r0 where m: "m = (es, sg, r)" and full: "full = (es0, None, r0)"
    and rel: "es = es0 \<and> r = r0 \<or> r = None \<and> cut_of es es0"
    using assms(1) by (cases m; cases full) (auto simp: cut_emission_def)
  from rel show ?thesis
  proof
    assume eq: "es = es0 \<and> r = r0"
    show ?thesis
    proof (cases r)
      case None
      with eq m full show ?thesis by (simp add: cut_emission_def)
    next
      case (Some a)
      obtain fs sg1 r1 where k: "k sg a = (fs, sg1, r1)" by (cases "k sg a")
      obtain gs r2 where k0: "k None a = (gs, None, r2)" and cut: "fs = gs \<and> r1 = r2 \<or> r1 = None \<and> cut_of fs gs"
        using assms(2) [of sg a] k by (cases "k None a") (auto simp: cut_emission_def)
      have "cut_of (es0 @ fs) (es0 @ gs)" if "cut_of fs gs"
      proof -
        from that obtain n where "n \<le> length gs" "fs = take n gs @ [streamErrorEvent Aborted]"
          by (auto simp: cut_of_def)
        then have "es0 @ fs = take (length es0 + n) (es0 @ gs) @ [streamErrorEvent Aborted]"
          and "length es0 + n \<le> length (es0 @ gs)" by simp_all
        then show ?thesis unfolding cut_of_def by blast
      qed
      with cut eq m full Some k k0 show ?thesis by (auto simp: cut_emission_def then_emit_Some)
    qed
  next
    assume cut: "r = None \<and> cut_of es es0"
    then obtain n where n: "n \<le> length es0" "es = take n es0 @ [streamErrorEvent Aborted]"
      by (auto simp: cut_of_def)
    show ?thesis
    proof (cases r0)
      case None
      with cut m full show ?thesis by (simp add: cut_emission_def)
    next
      case (Some a)
      obtain gs r2 where k0: "k None a = (gs, None, r2)"
        using assms(2) [of None a] by (cases "k None a") (auto simp: cut_emission_def)
      from n have "n \<le> length (es0 @ gs) \<and> es = take n (es0 @ gs) @ [streamErrorEvent Aborted]" by simp
      then have "cut_of es (es0 @ gs)" unfolding cut_of_def by blast
      with cut m full Some k0 show ?thesis by (simp add: cut_emission_def then_emit_Some)
    qed
  qed
qed

lemma checkpoint_None [simp]: "checkpoint None = ([], None, Some ())"
  by (simp add: checkpoint_def)

lemma nextStep_None [simp]: "nextStep None = ([], None, Some ())"
  by (simp add: nextStep_def)

lemma emit_None [simp]: "emit evs None = (evs, None, Some ())"
  by (induction evs) (simp_all add: then_emit_Some)

lemma cut_checkpoint [simp]: "cut_emission (checkpoint sg) (checkpoint None)"
  by (cases "observe sg") (auto simp: cut_emission_def checkpoint_def throw_def cut_of_def)

lemma cut_throw [simp]: "cut_emission (throw c sg) (throw c None)"
  by (simp add: cut_emission_def throw_def)

lemma cut_return [simp]: "cut_emission (es, sg, r) (es, None, r)"
  by (simp add: cut_emission_def)

lemma cut_nextStep: "cut_emission (nextStep sg) (nextStep None)"
  unfolding nextStep_def by (intro cut_emission_then cut_checkpoint)

lemma cut_emit: "cut_emission (emit evs sg) (emit evs None)"
proof (induction evs arbitrary: sg)
  case Nil
  show ?case by simp
next
  case (Cons e evs)
  show ?case
    unfolding emit.simps by (intro cut_emission_then cut_checkpoint cut_return Cons.IH)
qed

lemma cut_process_frame: "cut_emission (process_frame D st f sg) (process_frame D st f None)"
  by (auto simp: process_frame_def simp del: emit_None split: sum.splits intro!: cut_emission_then cut_emit)

lemma cut_run_frames: "cut_emission (run_frames D st fs end sg) (run_frames D st fs end None)"
proof (induction fs arbitrary: st sg)
  case Nil
  show ?case
    unfolding run_frames.simps
    by (rule cut_emission_then, rule cut_checkpoint) (simp split: sum.splits)
next
  case (Cons f fs)
  show ?case
    unfolding run_frames.simps
    by (intro cut_emission_then cut_checkpoint cut_process_frame Cons.IH)
qed

lemma cut_drain_frames: "cut_emission (drain_frames D st fs sg) (drain_frames D st fs None)"
proof (induction fs arbitrary: st sg)
  case Nil
  show ?case by simp
next
  case (Cons f fs)
  show ?case
    unfolding drain_frames.simps
    by (intro cut_emission_then cut_checkpoint cut_process_frame Cons.IH)
qed

lemma cut_finish_events: "cut_emission (finish_events D st sg) (finish_events D st None)"
  by (auto simp: finish_events_def simp del: emit_None split: sum.splits intro!: cut_emission_then cut_emit)

lemma cut_end_of_source: "cut_emission (end_of_source D st p sg) (end_of_source D st p None)"
  unfolding end_of_source_def
  by (rule cut_emission_then, rule cut_checkpoint)
    (auto split: sum.splits intro!: cut_emission_then cut_drain_frames cut_finish_events)

lemma cut_run_chunks: "cut_emission (run_chunks D st p cs end sg) (run_chunks D st p cs end None)"
proof (induction cs arbitrary: st p sg)
  case Nil
  show ?case
    unfolding run_chunks.simps
    by (intro cut_emission_then cut_checkpoint cut_nextStep)
      (auto split: src_end.splits intro: cut_end_of_source)
next
  case (Cons c cs)
  show ?case
    unfolding run_chunks.simps
    by (rule cut_emission_then, rule cut_checkpoint, rule cut_emission_then, rule cut_nextStep)
      (auto split: prod.splits intro!: cut_emission_then cut_run_frames Cons.IH)
qed

lemma decode_cut:
  "fst (decodeFrameStream D opts src sg) = fst (decodeFrameStream D opts src None)
   \<or> cut_of (fst (decodeFrameStream D opts src sg)) (fst (decodeFrameStream D opts src None))"
proof -
  let ?m = "\<lambda>sg. then_emit (checkpoint sg) (\<lambda>sg' _.
      run_chunks D (createState D (opt_tool_bytes opts)) (new_parser (opt_frame_bytes opts)) (fst src) (snd src) sg')"
  have "cut_emission (?m sg) (?m None)"
    by (intro cut_emission_then cut_checkpoint cut_run_chunks)
  then show ?thesis
    by (cases "?m sg"; cases "?m None") (auto simp: decodeFrameStream_def cut_emission_def)
qed

section \<open>How the bytes are cut into chunks does not matter\<close>

lemma drain_frames_append:
  "drain_frames D st (fs @ gs) None =
     then_emit (drain_frames D st fs None) (\<lambda>_ st'. drain_frames D st' gs None)"
proof (induction fs arbitrary: st)
  case Nil
  show ?case by simp
next
  case (Cons f fs)
  have "then_emit (process_frame D st f None) (\<lambda>sg'' st'. drain_frames D st' (fs @ gs) sg'') =
      then_emit (process_frame D st f None) (\<lambda>sg'' st'. then_emit (drain_frames D st' fs sg'') (\<lambda>_ st''. drain_frames D st'' gs None))"
    using cut_process_frame [of D st f None]
    by (auto simp: then_emit_def cut_emission_def Cons.IH [unfolded then_emit_def] split: prod.splits option.splits)
  then show ?case by (simp add: then_emit_assoc)
qed

lemma then_emit_None_cong:
  assumes "cut_emission m m" and "\<And>a. k None a = h None a"
  shows "then_emit m k = then_emit m h"
  using assms by (cases m) (auto simp: then_emit_def cut_emission_def split: option.splits)

lemma run_frames_None:
  "run_frames D st fs end None =
     then_emit (drain_frames D st fs None)
       (\<lambda>sg' st'. case end of Inl c \<Rightarrow> throw c None | Inr p \<Rightarrow> ([], None, Some (st', p)))"
proof (induction fs arbitrary: st)
  case Nil
  show ?case by simp
next
  case (Cons f fs)
  show ?case
    by (simp add: then_emit_assoc, rule then_emit_None_cong, rule cut_process_frame) (rule Cons.IH)
qed

lemma run_chunks_None:
  "run_chunks D st p cs end None =
     (case feed_chunks p cs of (fs, r) \<Rightarrow>
        then_emit (drain_frames D st fs None) (\<lambda>_ st'.
          case r of
            Inl c \<Rightarrow> throw c None
          | Inr p' \<Rightarrow> (case end of SrcThrow \<Rightarrow> throw GatewayError None | SrcDone \<Rightarrow> end_of_source D st' p' None)))"
proof (induction cs arbitrary: st p)
  case Nil
  show ?case by simp
next
  case (Cons c cs)
  obtain fs r where fr: "framesFrom p c = (fs, r)" by (cases "framesFrom p c")
  show ?case
  proof (cases r)
    case (Inl e)
    then show ?thesis by (simp add: fr run_frames_None then_emit_assoc) (simp add: throw_def)
  next
    case (Inr p')
    obtain gs r' where rest: "feed_chunks p' cs = (gs, r')" by (cases "feed_chunks p' cs")
    show ?thesis
      by (simp add: fr Inr rest then_frames_def run_frames_None then_emit_assoc drain_frames_append,
          rule then_emit_None_cong, rule cut_drain_frames) (simp add: Cons.IH rest)
  qed
qed

lemma decode_chunking:
  "fst (decodeFrameStream D opts (cs, end) None) = fst (decodeFrameStream D opts ([concat cs], end) None)"
proof -
  have "feed_chunks (new_parser n) cs = feed_chunks (new_parser n) [concat cs]" for n
    by (simp add: feed_chunks_feed del: feed_chunks.simps)
  then show ?thesis
    by (simp add: decodeFrameStream_def run_chunks_None del: feed_chunks.simps run_chunks.simps)
qed


section \<open>Running a decoder to its end\<close>

lemma drain_step:
  assumes "handleFrame D st f = Inr (evs, st')"
  shows "drain_frames D st (f # fs) None =
    (if isTerminal D st' then (evs, None, None) else then_emit (evs, None, Some st') (\<lambda>_ s. drain_frames D s fs None))"
  using assms by (auto simp: process_frame_def then_emit_Some split: prod.splits)

lemma decode_keeps_None: "snd (decodeFrameStream D opts src None) = None"
proof -
  have "cut_emission (run_chunks D (createState D (opt_tool_bytes opts)) (new_parser (opt_frame_bytes opts))
      (fst src) (snd src) None) (run_chunks D (createState D (opt_tool_bytes opts)) (new_parser (opt_frame_bytes opts))
      (fst src) (snd src) None)"
    by (rule cut_run_chunks)
  then show ?thesis by (auto simp: decodeFrameStream_def cut_emission_def split: prod.splits)
qed

lemma drain_None_signal: "\<exists>es r. drain_frames D st fs None = (es, None, r)"
  using cut_drain_frames [of D st fs None] by (cases "drain_frames D st fs None") (auto simp: cut_emission_def)

text \<open>Once the decoder is terminal, the rest of the bytes is not looked at.\<close>

lemma decode_until_terminal:
  assumes "fst (feed_chunks (new_parser (opt_frame_bytes opts)) cs) = fs @ gs"
    and "drain_frames D (createState D (opt_tool_bytes opts)) fs None = (evs, None, None)"
  shows "fst (decodeFrameStream D opts (cs, end) None) = evs"
proof -
  obtain r where "feed_chunks (new_parser (opt_frame_bytes opts)) cs = (fs @ gs, r)"
    using assms(1) by (cases "feed_chunks (new_parser (opt_frame_bytes opts)) cs") auto
  with assms(2) show ?thesis
    by (simp add: decodeFrameStream_def run_chunks_None drain_frames_append del: run_chunks.simps)
qed


section \<open>Properties\<close>

text \<open>
  Cancelling a decoding, at whatever moment the flag is first seen, only cuts it: the consumer
  gets a prefix of the events of the uncancelled run and then one \<open>aborted\<close> error, or the whole
  run when it had already ended.  This holds for both protocols and any source.
\<close>

theorem cancellation_only_cuts:
  "fst (decodeFrameStream D opts src sg) = fst (decodeFrameStream D opts src None)
   \<or> (\<exists>n. fst (decodeFrameStream D opts src sg) =
        take n (fst (decodeFrameStream D opts src None)) @ [streamErrorEvent Aborted])"
  using decode_cut [of D opts src sg] by (auto simp: cut_of_def)

text \<open>
  The events decoded from a source do not depend on how its bytes are cut into chunks.
\<close>

theorem decoding_chunk_independence:
  "concat cs = concat ds \<Longrightarrow>
     fst (decodeFrameStream D opts (cs, end) None) = fst (decodeFrameStream D opts (ds, end) None)"
  by (metis decode_chunking)

end
