(* ===== verification/Anthropic_Stream.thy ===== *)
theory Anthropic_Stream
  imports Stream_Runtime
begin

text \<open>
  \<open>packages/model-gateway/src/adapters/anthropic-stream.ts\<close>: the decoder of an Anthropic
  Messages stream.  The fields of \<open>AnthropicState\<close> are those of the record; a handler that
  throws ends the stream, so the state it leaves behind is never read again and is not returned.
\<close>

section \<open>State\<close>

datatype block_state =
    TextState
  | ToolState (bs_id: string) (bs_name: string) (bs_initial: jsval) (bs_empty: bool) (bs_json: string)
      (bs_bytes: nat)

record pending_call =
  pc_index :: jsnum
  pc_id :: string
  pc_name :: string
  pc_input :: jsval

record anthropic_state =
  an_max_bytes :: nat
  an_started :: bool
  an_stopped :: bool
  an_terminal :: bool
  an_stop_reason :: "string option"
  an_input_tokens :: "jsnum option"
  an_output_tokens :: "jsnum option"
  an_blocks :: "(jsnum \<times> block_state) list"
  an_tool_ids :: "string set"
  an_pending :: "pending_call list"

definition rate_limited_types :: "string list" where
  "rate_limited_types = [''rate_limit_error'']"

definition unavailable_types :: "string list" where
  "unavailable_types = [''overloaded_error'']"

definition supported_stop_reasons :: "string list" where
  "supported_stop_reasons = [''end_turn'', ''tool_use'']"

type_synonym anthropic_step = "stream_code + (model_event list \<times> anthropic_state)"

section \<open>Handlers\<close>

definition readIndex :: "jsval \<Rightarrow> stream_code + jsnum" where
  "readIndex payload =
     (if \<not> isNonNegativeInteger (field payload ''index'') then Inl protocolError
      else Inr (as_num (field payload ''index'')))"

definition handleMessageStart :: "anthropic_state \<Rightarrow> jsval \<Rightarrow> anthropic_step" where
  "handleMessageStart st payload =
     (if an_started st \<or> an_stopped st then Inl protocolError
      else
        let st = st\<lparr>an_started := True\<rparr>; message = field payload ''message'' in
        if \<not> isPlainObject message then Inl protocolError
        else
          let usage = field message ''usage'' in
          if usage = JUndef then Inr ([], st)
          else if \<not> isPlainObject usage then Inl protocolError
          else
            rbind (assertNoCacheTokens usage) (\<lambda>_.
            rbind (readTokenCount (field usage ''input_tokens'')) (\<lambda>input.
            rbind (readTokenCount (field usage ''output_tokens'')) (\<lambda>output.
            Inr ([], st\<lparr>an_input_tokens := or_keep input (an_input_tokens st),
                        an_output_tokens := or_keep output (an_output_tokens st)\<rparr>)))))"

text \<open>Starting a tool block: the id is recorded before the input is looked at.\<close>

definition start_tool :: "anthropic_state \<Rightarrow> jsnum \<Rightarrow> jsval \<Rightarrow> anthropic_step" where
  "start_tool st index contentBlock =
     (let id = field contentBlock ''id''; name = field contentBlock ''name'' in
      if \<not> is_string id \<or> as_str id = [] then Inl protocolError
      else if \<not> is_string name \<or> as_str name = [] then Inl protocolError
      else if as_str id \<in> an_tool_ids st then Inl protocolError
      else
        let st = st\<lparr>an_tool_ids := insert (as_str id) (an_tool_ids st)\<rparr>;
            rawInput = field contentBlock ''input''
        in
        if rawInput = JUndef \<or> \<not> isPlainObject rawInput then Inl protocolError
        else
          rbind (assertFiniteJsonValue rawInput) (\<lambda>_.
          if an_max_bytes st < utf8ByteLength (stringify_text rawInput) then Inl protocolError
          else
            Inr ([], st\<lparr>an_blocks := an_blocks st @
              [(index, ToolState (as_str id) (as_str name) rawInput (obj_keys rawInput = []) [] 0)]\<rparr>)))"

definition handleBlockStart :: "anthropic_state \<Rightarrow> jsval \<Rightarrow> anthropic_step" where
  "handleBlockStart st payload =
     (if \<not> an_started st \<or> an_stopped st then Inl protocolError
      else
        rbind (readIndex payload) (\<lambda>index.
        if map_of (an_blocks st) index \<noteq> None then Inl protocolError
        else
          let contentBlock = field payload ''content_block'' in
          if \<not> isPlainObject contentBlock then Inl protocolError
          else if field contentBlock ''type'' = JStr ''text'' then
            Inr ([], st\<lparr>an_blocks := an_blocks st @ [(index, TextState)]\<rparr>)
          else if field contentBlock ''type'' = JStr ''tool_use'' then start_tool st index contentBlock
          else Inl protocolError))"

text \<open>The map entry of a block is replaced in place.\<close>

definition put_block :: "(jsnum \<times> block_state) list \<Rightarrow> jsnum \<Rightarrow> block_state \<Rightarrow> (jsnum \<times> block_state) list" where
  "put_block bs i b = map (\<lambda>(k, v). (k, if k = i then b else v)) bs"

definition add_fragment :: "anthropic_state \<Rightarrow> jsnum \<Rightarrow> block_state \<Rightarrow> jsval \<Rightarrow> anthropic_step" where
  "add_fragment st index block partial =
     (case block of
        TextState \<Rightarrow> Inl protocolError
      | ToolState ident name initial is_empty json bytes \<Rightarrow>
          if \<not> is_string partial then Inl protocolError
          else if as_str partial \<noteq> [] \<and> \<not> is_empty then Inl protocolError
          else
            let bytes' = bytes + utf8ByteLength (as_str partial) in
            if an_max_bytes st < bytes' then Inl protocolError
            else
              Inr ([], st\<lparr>an_blocks := put_block (an_blocks st) index
                           (ToolState ident name initial is_empty (json @ as_str partial) bytes')\<rparr>))"

definition handleBlockDelta :: "anthropic_state \<Rightarrow> jsval \<Rightarrow> anthropic_step" where
  "handleBlockDelta st payload =
     (if \<not> an_started st \<or> an_stopped st then Inl protocolError
      else
        rbind (readIndex payload) (\<lambda>index.
        case map_of (an_blocks st) index of
          None \<Rightarrow> Inl protocolError
        | Some block \<Rightarrow>
            let delta = field payload ''delta'' in
            if \<not> isPlainObject delta then Inl protocolError
            else if field delta ''type'' = JStr ''text_delta'' then
              (if block \<noteq> TextState then Inl protocolError
               else if \<not> is_string (field delta ''text'') then Inl protocolError
               else if as_str (field delta ''text'') = [] then Inr ([], st)
               else Inr ([MTextDelta (as_str (field delta ''text''))], st))
            else if field delta ''type'' = JStr ''input_json_delta'' then
              add_fragment st index block (field delta ''partial_json'')
            else Inl protocolError))"

definition handleBlockStop :: "anthropic_state \<Rightarrow> jsval \<Rightarrow> anthropic_step" where
  "handleBlockStop st payload =
     (if \<not> an_started st \<or> an_stopped st then Inl protocolError
      else
        rbind (readIndex payload) (\<lambda>index.
        case map_of (an_blocks st) index of
          None \<Rightarrow> Inl protocolError
        | Some block \<Rightarrow>
            let st = st\<lparr>an_blocks := filter (\<lambda>(k, _). k \<noteq> index) (an_blocks st)\<rparr> in
            case block of
              TextState \<Rightarrow> Inr ([], st)
            | ToolState ident name initial _ json _ \<Rightarrow>
                let accumulated = js_trim json in
                rbind (if accumulated = [] then Inr initial else parseToolInputObject accumulated) (\<lambda>input.
                Inr ([], st\<lparr>an_pending := an_pending st @
                  [\<lparr>pc_index = index, pc_id = ident, pc_name = name, pc_input = input\<rparr>]\<rparr>))))"

definition handleMessageDelta :: "anthropic_state \<Rightarrow> jsval \<Rightarrow> anthropic_step" where
  "handleMessageDelta st payload =
     (if \<not> an_started st \<or> an_stopped st then Inl protocolError
      else
        rbind (let delta = field payload ''delta'' in
               if delta = JUndef then Inr st
               else if \<not> isPlainObject delta then Inl protocolError
               else
                 let stopReason = field delta ''stop_reason'' in
                 if nullish stopReason then Inr st
                 else if \<not> is_string stopReason then Inl protocolError
                 else Inr (st\<lparr>an_stop_reason := Some (as_str stopReason)\<rparr>)) (\<lambda>st.
        let usage = field payload ''usage'' in
        if usage = JUndef then Inr ([], st)
        else if \<not> isPlainObject usage then Inl protocolError
        else
          rbind (assertNoCacheTokens usage) (\<lambda>_.
          rbind (readTokenCount (field usage ''output_tokens'')) (\<lambda>output.
          Inr ([], st\<lparr>an_output_tokens := or_keep output (an_output_tokens st)\<rparr>)))))"

text \<open>The comparator subtracts indices, which are non-negative safe integers; the sort is stable.\<close>

definition call_event :: "pending_call \<Rightarrow> model_event" where
  "call_event c = MToolCall (JStr (pc_id c)) (JStr (pc_name c)) (pc_input c)"

definition handleMessageStop :: "anthropic_state \<Rightarrow> anthropic_step" where
  "handleMessageStop st =
     (if \<not> an_started st \<or> an_stopped st then Inl protocolError
      else if 0 < length (an_blocks st) then Inl protocolError
      else if (case an_stop_reason st of None \<Rightarrow> True | Some r \<Rightarrow> r \<notin> set supported_stop_reasons)
        then Inl protocolError
      else
        Inr (map call_event (sort_key (\<lambda>c. num_nat (pc_index c)) (an_pending st))
               @ usage_events (an_input_tokens st) (an_output_tokens st) @ [MCompleted],
             st\<lparr>an_stopped := True, an_terminal := True\<rparr>))"

definition handleError :: "anthropic_state \<Rightarrow> jsval \<Rightarrow> anthropic_step" where
  "handleError st payload =
     (let error = field payload ''error'';
          t = (if isPlainObject error then field error ''type'' else JUndef)
      in Inr ([streamErrorEvent (mapStructuredErrorType t rate_limited_types unavailable_types)],
              st\<lparr>an_terminal := True\<rparr>))"

section \<open>The decoder\<close>

definition initial_anthropic :: "nat \<Rightarrow> anthropic_state" where
  "initial_anthropic maxToolInputBytes =
     \<lparr>an_max_bytes = maxToolInputBytes, an_started = False, an_stopped = False, an_terminal = False,
      an_stop_reason = None, an_input_tokens = None, an_output_tokens = None, an_blocks = [],
      an_tool_ids = {}, an_pending = []\<rparr>"

definition handle_payload :: "anthropic_state \<Rightarrow> jsval \<Rightarrow> anthropic_step" where
  "handle_payload st payload =
     (let t = field payload ''type'' in
      if \<not> is_string t then Inl protocolError
      else if as_str t = ''ping'' then Inr ([], st)
      else if as_str t = ''message_start'' then handleMessageStart st payload
      else if as_str t = ''content_block_start'' then handleBlockStart st payload
      else if as_str t = ''content_block_delta'' then handleBlockDelta st payload
      else if as_str t = ''content_block_stop'' then handleBlockStop st payload
      else if as_str t = ''message_delta'' then handleMessageDelta st payload
      else if as_str t = ''message_stop'' then handleMessageStop st
      else if as_str t = ''error'' then handleError st payload
      else Inl protocolError)"

definition anthropic_frame :: "anthropic_state \<Rightarrow> sse_event \<Rightarrow> anthropic_step" where
  "anthropic_frame st frame = rbind (parseJsonObjectFrame (ev_data frame)) (handle_payload st)"

definition anthropicDecoder :: "anthropic_state frame_decoder" where
  "anthropicDecoder =
     \<lparr>createState = initial_anthropic, handleFrame = anthropic_frame, isTerminal = an_terminal,
      finishStream = \<lambda>_. Inl protocolError\<rparr>"

definition decodeAnthropicMessagesStream ::
  "string source \<Rightarrow> jsval \<Rightarrow> jsval \<Rightarrow> signal \<Rightarrow> adapter_code + (model_event list \<times> signal)"
where
  "decodeAnthropicMessagesStream source frame_opt tool_opt sg =
     rbind (normalizeDecodeOptions frame_opt tool_opt) (\<lambda>opts.
     Inr (decodeFrameStream anthropicDecoder opts source sg))"


section \<open>State invariant\<close>

text \<open>
  The ids of the finished and of the open tool blocks are pairwise distinct and recorded, an open
  block has buffered exactly the bytes it counted, within the limit, and every tool input is a
  finite JSON object.
\<close>

fun block_ids :: "(jsnum \<times> block_state) list \<Rightarrow> string list" where
  "block_ids [] = []"
| "block_ids ((_, TextState) # bs) = block_ids bs"
| "block_ids ((_, ToolState i _ _ _ _ _) # bs) = i # block_ids bs"

fun block_ok :: "nat \<Rightarrow> block_state \<Rightarrow> bool" where
  "block_ok n TextState = True"
| "block_ok n (ToolState i nm v e j b) \<longleftrightarrow>
     i \<noteq> [] \<and> nm \<noteq> [] \<and> input_ok v \<and> e = (obj_keys v = []) \<and> (j \<noteq> [] \<longrightarrow> e) \<and> b = length j \<and> b \<le> n"

definition call_ok :: "pending_call \<Rightarrow> bool" where
  "call_ok c \<longleftrightarrow> pc_id c \<noteq> [] \<and> pc_name c \<noteq> [] \<and> input_ok (pc_input c) \<and> (\<exists>n. pc_index c = jsnat n)"

definition calls_inv ::
  "nat \<Rightarrow> (jsnum \<times> block_state) list \<Rightarrow> pending_call list \<Rightarrow> string set \<Rightarrow> bool"
where
  "calls_inv n bs ps ids \<longleftrightarrow>
     distinct (map fst bs) \<and> distinct (block_ids bs) \<and> distinct (map pc_id ps)
     \<and> (\<forall>c \<in> set ps. pc_id c \<notin> set (block_ids bs) \<and> pc_id c \<in> ids \<and> call_ok c)
     \<and> set (block_ids bs) \<subseteq> ids
     \<and> (\<forall>(k, b) \<in> set bs. (\<exists>n. k = jsnat n) \<and> block_ok n b)"

definition anthropic_inv :: "anthropic_state \<Rightarrow> bool" where
  "anthropic_inv st \<longleftrightarrow>
     calls_inv (an_max_bytes st) (an_blocks st) (an_pending st) (an_tool_ids st)
     \<and> count_ok (an_input_tokens st) \<and> count_ok (an_output_tokens st)"

lemma block_ids_append [simp]: "block_ids (xs @ ys) = block_ids xs @ block_ids ys"
  by (induction xs rule: block_ids.induct) auto

lemma block_ids_remove_subset: "set (block_ids (filter (\<lambda>(k, _). k \<noteq> i) bs)) \<subseteq> set (block_ids bs)"
  by (induction bs rule: block_ids.induct) auto

lemma block_ids_remove_distinct:
  "distinct (block_ids bs) \<Longrightarrow> distinct (block_ids (filter (\<lambda>(k, _). k \<noteq> i) bs))"
proof (induction bs rule: block_ids.induct)
  case (3 k ident nm v e j b bs)
  then show ?case using block_ids_remove_subset [of i bs] by auto
qed simp_all

lemma block_ids_member:
  "map_of bs i = Some (ToolState ident nm v e j b) \<Longrightarrow> ident \<in> set (block_ids bs)"
  by (induction bs rule: block_ids.induct) (auto split: if_splits)

lemma block_ids_removed:
  assumes "distinct (block_ids bs)" and "distinct (map fst bs)"
    and "map_of bs i = Some (ToolState ident nm v e j b)"
  shows "ident \<notin> set (block_ids (filter (\<lambda>(k, _). k \<noteq> i) bs))"
  using assms
proof (induction bs rule: block_ids.induct)
  case (3 k ident' nm' v' e' j' b' bs)
  show ?case
  proof (cases "k = i")
    case True
    with 3(4) have "ident = ident'" by simp
    with 3(2) block_ids_remove_subset [of i bs] True show ?thesis by auto
  next
    case False
    with 3(4) have m: "map_of bs i = Some (ToolState ident nm v e j b)" by simp
    from block_ids_member [OF this] 3(2) have "ident \<noteq> ident'" by auto
    with 3(1) [OF _ _ m] 3(2,3) False show ?thesis by simp
  qed
qed (auto split: if_splits)

lemma block_ids_put:
  assumes "map_of bs i = Some (ToolState ident nm v e j b)"
  shows "distinct (map fst bs) \<Longrightarrow> block_ids (put_block bs i (ToolState ident nm v e j' b')) = block_ids bs"
  using assms
proof (induction bs rule: block_ids.induct)
  case (3 k ident' nm' v' e' j' b' bs)
  then show ?case
  proof (cases "k = i")
    case True
    with 3(2) have "put_block bs i x = bs" for x
      unfolding put_block_def by (intro map_idI) (auto simp: rev_image_eqI)
    with True 3(3) show ?thesis by (simp add: put_block_def)
  next
    case False
    with 3 show ?thesis by (simp add: put_block_def)
  qed
qed (auto simp: put_block_def split: if_splits)

lemma put_block_keys [simp]: "map fst (put_block bs i b) = map fst bs"
  by (induction bs) (auto simp: put_block_def)

lemma readIndex_nat: "readIndex p = Inr i \<Longrightarrow> \<exists>n. i = jsnat n"
  using isNonNegativeInteger_nat [of "field p ''index''"]
  by (auto simp: readIndex_def split: if_splits)

lemma calls_inv_text:
  "calls_inv n bs ps ids \<Longrightarrow> map_of bs (jsnat i) = None \<Longrightarrow> calls_inv n (bs @ [(jsnat i, TextState)]) ps ids"
  by (auto simp: calls_inv_def map_of_eq_None_iff)

lemma calls_inv_tool:
  "calls_inv n bs ps ids \<Longrightarrow> map_of bs (jsnat i) = None \<Longrightarrow> ident \<notin> ids
    \<Longrightarrow> block_ok n (ToolState ident nm v e j b)
    \<Longrightarrow> calls_inv n (bs @ [(jsnat i, ToolState ident nm v e j b)]) ps (insert ident ids)"
  by (auto simp: calls_inv_def map_of_eq_None_iff)

lemma calls_inv_block_ok: "calls_inv n bs ps ids \<Longrightarrow> map_of bs i = Some b \<Longrightarrow> block_ok n b"
  by (auto simp: calls_inv_def dest!: map_of_SomeD)

lemma calls_inv_put:
  assumes "calls_inv n bs ps ids" and "map_of bs i = Some (ToolState ident nm v e j b)"
    and "block_ok n (ToolState ident nm v e j' b')"
  shows "calls_inv n (put_block bs i (ToolState ident nm v e j' b')) ps ids"
proof -
  have "block_ids (put_block bs i (ToolState ident nm v e j' b')) = block_ids bs"
    using assms(1) by (intro block_ids_put [OF assms(2)]) (simp add: calls_inv_def)
  moreover have "\<forall>(k, x) \<in> set (put_block bs i (ToolState ident nm v e j' b')). (\<exists>n. k = jsnat n) \<and> block_ok n x"
    using assms(1,3) by (auto simp: calls_inv_def put_block_def split: if_splits)
  ultimately show ?thesis using assms(1) by (simp add: calls_inv_def)
qed

lemma calls_inv_remove:
  "calls_inv n bs ps ids \<Longrightarrow> calls_inv n (filter (\<lambda>(k, _). k \<noteq> i) bs) ps ids"
  using block_ids_remove_subset [of i bs]
  by (auto simp: calls_inv_def distinct_map_filter block_ids_remove_distinct)

lemma calls_inv_finish:
  assumes "calls_inv n bs ps ids" and "map_of bs i = Some (ToolState ident nm v e j b)"
    and "input_ok w"
  shows "calls_inv n (filter (\<lambda>(k, _). k \<noteq> i) bs)
    (ps @ [\<lparr>pc_index = i, pc_id = ident, pc_name = nm, pc_input = w\<rparr>]) ids"
proof -
  have mem: "ident \<in> set (block_ids bs)" by (rule block_ids_member [OF assms(2)])
  have "block_ok n (ToolState ident nm v e j b)" by (rule calls_inv_block_ok [OF assms(1,2)])
  moreover have "ident \<notin> set (block_ids (filter (\<lambda>(k, _). k \<noteq> i) bs))"
    using assms(1) by (intro block_ids_removed [OF _ _ assms(2)]) (auto simp: calls_inv_def)
  moreover have "\<exists>n. i = jsnat n"
    using assms(1) map_of_SomeD [OF assms(2)] by (auto simp: calls_inv_def)
  moreover have "ident \<notin> pc_id ` set ps" and "ident \<in> ids"
    using assms(1) mem by (auto simp: calls_inv_def)
  ultimately show ?thesis
    using calls_inv_remove [OF assms(1), of i] assms(3) by (auto simp: calls_inv_def call_ok_def)
qed

lemma inv_init: "anthropic_inv (initial_anthropic n)"
  by (simp add: anthropic_inv_def calls_inv_def initial_anthropic_def count_ok_def)

lemma inv_message_start:
  "handleMessageStart st p = Inr (evs, st') \<Longrightarrow> anthropic_inv st \<Longrightarrow> anthropic_inv st'"
  by (auto simp: handleMessageStart_def Let_def anthropic_inv_def split: if_splits intro: count_ok_read)

lemma inv_message_delta:
  "handleMessageDelta st p = Inr (evs, st') \<Longrightarrow> anthropic_inv st \<Longrightarrow> anthropic_inv st'"
  by (auto simp: handleMessageDelta_def Let_def anthropic_inv_def split: if_splits intro: count_ok_read)

lemma inv_message_stop:
  "handleMessageStop st = Inr (evs, st') \<Longrightarrow> anthropic_inv st \<Longrightarrow> anthropic_inv st'"
  by (auto simp: handleMessageStop_def anthropic_inv_def split: if_splits)

lemma inv_error: "handleError st p = Inr (evs, st') \<Longrightarrow> anthropic_inv st \<Longrightarrow> anthropic_inv st'"
  by (auto simp: handleError_def Let_def anthropic_inv_def)

lemma inv_start_tool:
  assumes "start_tool st (jsnat i) c = Inr (evs, st')" and "map_of (an_blocks st) (jsnat i) = None"
    and "anthropic_inv st"
  shows "anthropic_inv st'"
  using assms
  by (auto simp: start_tool_def anthropic_inv_def Let_def assertFiniteJsonValue_def
      split: if_splits intro!: calls_inv_tool) (simp_all add: input_ok_def)

lemma inv_block_start:
  assumes "handleBlockStart st p = Inr (evs, st')" and "anthropic_inv st"
  shows "anthropic_inv st'"
proof -
  obtain i where i: "readIndex p = Inr (jsnat i)" and "map_of (an_blocks st) (jsnat i) = None"
    using assms(1) readIndex_nat [of p] by (fastforce simp: handleBlockStart_def split: if_splits)
  with assms show ?thesis
    by (auto simp: handleBlockStart_def Let_def split: if_splits intro: inv_start_tool)
      (simp add: anthropic_inv_def calls_inv_text)
qed

lemma inv_add_fragment:
  assumes "add_fragment st i b v = Inr (evs, st')" and "map_of (an_blocks st) i = Some b" and "anthropic_inv st"
  shows "anthropic_inv st'"
proof (cases b)
  case TextState
  with assms(1) show ?thesis by (simp add: add_fragment_def)
next
  case (ToolState ident nm ini e j n)
  with assms have inv: "calls_inv (an_max_bytes st) (an_blocks st) (an_pending st) (an_tool_ids st)"
    and at: "map_of (an_blocks st) i = Some (ToolState ident nm ini e j n)"
    by (simp_all add: anthropic_inv_def)
  have old: "block_ok (an_max_bytes st) (ToolState ident nm ini e j n)" by (rule calls_inv_block_ok [OF inv at])
  let ?b = "ToolState ident nm ini e (j @ as_str v) (n + length (as_str v))"
  have st': "st' = st\<lparr>an_blocks := put_block (an_blocks st) i ?b\<rparr>" and new: "block_ok (an_max_bytes st) ?b"
    using assms(1) old by (auto simp: add_fragment_def ToolState Let_def utf8ByteLength_def split: if_splits)
  from calls_inv_put [OF inv at new] assms(3) show ?thesis by (simp add: st' anthropic_inv_def)
qed

lemma block_delta_cases:
  assumes "handleBlockDelta st p = Inr (evs, st')"
  obtains (plain) t where "evs = [MTextDelta t]" "t \<noteq> []" "st' = st"
  | (silent) "evs = []" "st' = st"
  | (fragment) i b v where "readIndex p = Inr i" "map_of (an_blocks st) i = Some b"
      "add_fragment st i b v = Inr (evs, st')"
proof -
  obtain i b where i: "readIndex p = Inr i" and b: "map_of (an_blocks st) i = Some b"
    using assms by (auto simp: handleBlockDelta_def split: if_splits option.splits)
  have "(\<exists>t. evs = [MTextDelta t] \<and> t \<noteq> [] \<and> st' = st) \<or> evs = [] \<and> st' = st
      \<or> (\<exists>v. add_fragment st i b v = Inr (evs, st'))"
    using assms i b by (auto simp: handleBlockDelta_def Let_def split: if_splits)
  with i b plain silent fragment show thesis by blast
qed

lemma inv_block_delta:
  assumes "handleBlockDelta st p = Inr (evs, st')" and "anthropic_inv st"
  shows "anthropic_inv st'"
  using assms(1)
proof (cases rule: block_delta_cases)
  case (fragment i b v)
  from inv_add_fragment [OF fragment(3,2) assms(2)] show ?thesis .
qed (use assms(2) in simp_all)

lemma inv_block_stop:
  assumes "handleBlockStop st p = Inr (evs, st')" and "anthropic_inv st"
  shows "anthropic_inv st'"
proof -
  obtain i b where i: "readIndex p = Inr i" and b: "map_of (an_blocks st) i = Some b"
    using assms(1) by (auto simp: handleBlockStop_def split: if_splits option.splits)
  have inv: "calls_inv (an_max_bytes st) (an_blocks st) (an_pending st) (an_tool_ids st)"
    using assms(2) by (simp add: anthropic_inv_def)
  show ?thesis
  proof (cases b)
    case TextState
    with assms i b calls_inv_remove [OF inv] show ?thesis
      by (auto simp: handleBlockStop_def Let_def anthropic_inv_def split: if_splits)
  next
    case (ToolState ident nm ini e j n)
    with b have at: "map_of (an_blocks st) i = Some (ToolState ident nm ini e j n)" by simp
    have "input_ok ini" using calls_inv_block_ok [OF inv at] by simp
    moreover have "input_ok w" if "parseToolInputObject s = Inr w" for s w
      using parseToolInputObject_ok [OF that] by (simp add: input_ok_def)
    ultimately show ?thesis
      using assms i at calls_inv_finish [OF inv at]
      by (auto simp: handleBlockStop_def Let_def anthropic_inv_def split: if_splits)
  qed
qed

lemmas handler_invs =
  inv_message_start inv_message_delta inv_message_stop inv_error inv_block_start inv_block_delta inv_block_stop

lemma inv_payload:
  "handle_payload st p = Inr (evs, st') \<Longrightarrow> anthropic_inv st \<Longrightarrow> anthropic_inv st'"
  by (auto simp: handle_payload_def Let_def split: if_splits intro: handler_invs)


section \<open>What the handlers yield\<close>

lemma add_fragment_event: "add_fragment st i b v = Inr (evs, st') \<Longrightarrow> evs = [] \<and> an_terminal st' = an_terminal st"
  by (cases b) (auto simp: add_fragment_def Let_def split: if_splits)

lemma start_tool_event: "start_tool st i c = Inr (evs, st') \<Longrightarrow> evs = [] \<and> an_terminal st' = an_terminal st"
  by (auto simp: start_tool_def Let_def split: if_splits)

lemma block_stop_event:
  assumes "handleBlockStop st p = Inr (evs, st')"
  shows "evs = [] \<and> an_terminal st' = an_terminal st"
proof -
  obtain i b where "readIndex p = Inr i" and "map_of (an_blocks st) i = Some b"
    using assms by (auto simp: handleBlockStop_def split: if_splits option.splits)
  with assms show ?thesis
    by (cases b) (auto simp: handleBlockStop_def Let_def split: if_splits)
qed

text \<open>The kinds of step: text, silence, the final batch, or the provider's own error.\<close>

lemma payload_cases:
  assumes "handle_payload st p = Inr (evs, st')"
  obtains (stop) "handleMessageStop st = Inr (evs, st')"
  | (err) "handleError st p = Inr (evs, st')"
  | (delta) "list_all (\<lambda>e. is_text e \<and> event_ok e) evs" "an_terminal st' = an_terminal st"
proof -
  have start: "evs = [] \<and> an_terminal st' = an_terminal st" if "handleMessageStart st p = Inr (evs, st')"
    using that by (auto simp: handleMessageStart_def Let_def split: if_splits)
  have md: "evs = [] \<and> an_terminal st' = an_terminal st" if "handleMessageDelta st p = Inr (evs, st')"
    using that by (auto simp: handleMessageDelta_def Let_def split: if_splits)
  have bs: "evs = [] \<and> an_terminal st' = an_terminal st" if "handleBlockStart st p = Inr (evs, st')"
    using that by (auto simp: handleBlockStart_def Let_def split: if_splits dest: start_tool_event)
  have be: "evs = [] \<and> an_terminal st' = an_terminal st" if "handleBlockStop st p = Inr (evs, st')"
    using that by (rule block_stop_event)
  have bd: "list_all (\<lambda>e. is_text e \<and> event_ok e) evs \<and> an_terminal st' = an_terminal st"
    if "handleBlockDelta st p = Inr (evs, st')"
    using that by (cases rule: block_delta_cases) (auto dest: add_fragment_event)
  from assms show thesis
    using start md bs be bd stop err delta by (auto simp: handle_payload_def Let_def split: if_splits)
qed

lemma message_stop_batch:
  assumes "handleMessageStop st = Inr (evs, st')"
  shows "an_terminal st' \<and> an_blocks st = []
    \<and> evs = map call_event (sort_key (\<lambda>c. num_nat (pc_index c)) (an_pending st))
              @ usage_events (an_input_tokens st) (an_output_tokens st) @ [MCompleted]"
  using assms by (auto simp: handleMessageStop_def split: if_splits)

lemma called_ids_calls: "called_ids (map call_event cs) = map (\<lambda>c. JStr (pc_id c)) cs"
  by (induction cs) (simp_all add: call_event_def)

lemma not_terminal_call [simp]: "\<not> is_terminal (call_event c)" "\<not> is_text (call_event c)"
  by (simp_all add: call_event_def)

lemma batch_wf:
  assumes "handleMessageStop st = Inr (evs, st')" and "anthropic_inv st"
  shows "list_all event_ok evs \<and> distinct (called_ids evs) \<and> list_all (\<lambda>e. \<not> is_text e) evs"
proof -
  let ?cs = "sort_key (\<lambda>c. num_nat (pc_index c)) (an_pending st)"
  have "distinct (map pc_id (an_pending st))" and ok: "\<forall>c \<in> set (an_pending st). call_ok c"
    using assms(2) by (auto simp: anthropic_inv_def calls_inv_def)
  then have "inj_on pc_id (set ?cs)" and "distinct ?cs"
    by (simp_all add: distinct_map)
  then have "distinct (map (\<lambda>c. JStr (pc_id c)) ?cs)"
    by (auto simp: distinct_map inj_on_def)
  moreover have "list_all event_ok (map call_event ?cs)"
    using ok by (auto simp: list_all_iff call_event_def call_ok_def)
  moreover have "list_all event_ok (usage_events (an_input_tokens st) (an_output_tokens st))"
    using assms(2) by (simp add: anthropic_inv_def usage_events_ok)
  moreover have "list_all (\<lambda>e. \<not> is_text e) (map call_event ?cs)"
    by (simp add: list_all_iff)
  ultimately show ?thesis
    using message_stop_batch [OF assms(1)] by (simp add: called_ids_calls)
qed

lemma open_calls: "open_events (map call_event cs)" "open_events (usage_events i ou)"
  by (auto simp: open_events_def list_all_iff call_event_def usage_events_def split: option.splits)

lemma batch_ends: "handleMessageStop st = Inr (evs, st') \<Longrightarrow> ends_once evs"
  using ends_once_snoc [of "map call_event cs @ usage_events i ou" MCompleted for cs i ou]
  by (auto simp: open_calls dest!: message_stop_batch)

lemma text_open: "list_all (\<lambda>e. is_text e \<and> event_ok e) evs \<Longrightarrow> open_events evs"
proof (induction evs)
  case (Cons e evs)
  then show ?case by (cases e) (simp_all add: open_events_def)
qed simp

section \<open>The contracts of the driver\<close>

definition anthropic_history :: "anthropic_state \<Rightarrow> model_event list \<Rightarrow> bool" where
  "anthropic_history st h \<longleftrightarrow>
     anthropic_inv st \<and> stream_wf h
     \<and> (\<not> an_terminal st \<longrightarrow> list_all (\<lambda>e. is_text e \<and> event_ok e) h)"

lemma anthropic_step_history:
  assumes "anthropic_history st h" and "\<not> an_terminal st" and "handle_payload st p = Inr (evs, st')"
  shows "anthropic_history st' (h @ evs)"
proof -
  have texts: "list_all (\<lambda>e. is_text e \<and> event_ok e) h" and inv: "anthropic_inv st"
    using assms(1,2) by (simp_all add: anthropic_history_def)
  have inv': "anthropic_inv st'" by (rule inv_payload [OF assms(3) inv])
  note h = stream_wf_texts [OF texts]
  from assms(3) show ?thesis
  proof (cases rule: payload_cases)
    case stop
    with batch_wf [OF stop inv] h message_stop_batch [OF stop] inv' show ?thesis
      by (simp add: anthropic_history_def stream_wf_batch)
  next
    case err
    with h inv' show ?thesis
      by (auto simp: anthropic_history_def handleError_def Let_def stream_wf_error)
  next
    case delta
    with texts stream_wf_texts [of "h @ evs"] inv' show ?thesis
      by (simp add: anthropic_history_def)
  qed
qed

interpretation anthropic: frame_decoder_contract anthropicDecoder
proof
  fix n
  show "\<not> isTerminal anthropicDecoder (createState anthropicDecoder n)"
    by (simp add: anthropicDecoder_def initial_anthropic_def)
next
  fix st st' :: anthropic_state and f evs
  assume open_state: "\<not> isTerminal anthropicDecoder st"
    and step: "handleFrame anthropicDecoder st f = Inr (evs, st')"
  obtain p where p: "handle_payload st p = Inr (evs, st')"
    using step by (auto simp: anthropicDecoder_def anthropic_frame_def)
  show "open_events evs" if "\<not> isTerminal anthropicDecoder st'"
    using p that by (cases rule: payload_cases)
      (auto simp: anthropicDecoder_def handleError_def Let_def text_open dest: message_stop_batch)
  show "ends_once evs" if "isTerminal anthropicDecoder st'"
    using p that open_state by (cases rule: payload_cases)
      (auto simp: anthropicDecoder_def handleError_def Let_def ends_once_def open_events_def
        batch_ends [unfolded ends_once_def open_events_def])
next
  fix st evs
  assume "finishStream anthropicDecoder st = Inr evs"
  then show "ends_once evs" by (simp add: anthropicDecoder_def)
qed

interpretation anthropic: decoder_history anthropicDecoder anthropic_history stream_wf
proof
  fix n
  show "anthropic_history (createState anthropicDecoder n) []"
    by (simp add: anthropicDecoder_def anthropic_history_def inv_init stream_wf_def)
next
  fix st st' :: anthropic_state and h f evs
  assume "anthropic_history st h" and "\<not> isTerminal anthropicDecoder st"
    and "handleFrame anthropicDecoder st f = Inr (evs, st')"
  then show "anthropic_history st' (h @ evs)"
    by (auto simp: anthropicDecoder_def anthropic_frame_def intro: anthropic_step_history)
next
  fix st h evs
  assume "finishStream anthropicDecoder st = Inr evs"
  then show "stream_wf (h @ evs)" by (simp add: anthropicDecoder_def)
next
  fix st h
  assume "anthropic_history st h"
  then show "stream_wf h" by (simp add: anthropic_history_def)
qed (fact stream_wf_prefix stream_wf_error)+


section \<open>Reassembly of an answer\<close>

text \<open>
  What the provider means to say, and the frames that say it: an answer is a list of parts, each
  streamed under an index of its own, a text in deltas, the input of a tool call in JSON fragments.
\<close>

datatype answer_part = TextPart "string list" | ToolPart string string "string list"

definition payload :: "string \<Rightarrow> (string \<times> jsval) list \<Rightarrow> jsval" where
  "payload t kvs = JObj ((''type'', JStr t) # kvs)"

definition delta_payload :: "nat \<Rightarrow> string \<Rightarrow> string \<Rightarrow> string \<Rightarrow> jsval" where
  "delta_payload i t k s =
     payload ''content_block_delta''
       [(''index'', JNum (jsnat i)), (''delta'', JObj [(''type'', JStr t), (k, JStr s)])]"

fun part_payloads :: "nat \<times> answer_part \<Rightarrow> jsval list" where
  "part_payloads (i, TextPart ts) =
     payload ''content_block_start''
       [(''index'', JNum (jsnat i)), (''content_block'', JObj [(''type'', JStr ''text''), (''text'', JStr [])])]
     # map (delta_payload i ''text_delta'' ''text'') ts
     @ [payload ''content_block_stop'' [(''index'', JNum (jsnat i))]]"
| "part_payloads (i, ToolPart ident nm fr) =
     payload ''content_block_start''
       [(''index'', JNum (jsnat i)),
        (''content_block'', JObj [(''type'', JStr ''tool_use''), (''id'', JStr ident), (''name'', JStr nm),
                                  (''input'', JObj [])])]
     # map (delta_payload i ''input_json_delta'' ''partial_json'') fr
     @ [payload ''content_block_stop'' [(''index'', JNum (jsnat i))]]"

definition answer_payloads :: "(nat \<times> answer_part) list \<Rightarrow> nat \<Rightarrow> nat \<Rightarrow> string \<Rightarrow> jsval list" where
  "answer_payloads parts inp out reason =
     payload ''message_start''
       [(''message'', JObj [(''usage'', JObj [(''input_tokens'', JNum (jsnat inp)), (''output_tokens'', JNum (jsnat 0))])])]
     # concat (map part_payloads parts)
     @ [payload ''message_delta''
          [(''delta'', JObj [(''stop_reason'', JStr reason)]), (''usage'', JObj [(''output_tokens'', JNum (jsnat out))])],
        payload ''message_stop'' []]"

text \<open>What the consumer is to see of a part at once, and at the end of the message.\<close>

fun part_texts :: "nat \<times> answer_part \<Rightarrow> model_event list" where
  "part_texts (_, TextPart ts) = map MTextDelta (filter (\<lambda>t. t \<noteq> []) ts)"
| "part_texts (_, ToolPart _ _ _) = []"

fun part_calls :: "nat \<times> answer_part \<Rightarrow> pending_call list" where
  "part_calls (_, TextPart _) = []"
| "part_calls (i, ToolPart ident nm fr) =
     (case fragments_input fr of
        Inl _ \<Rightarrow> []
      | Inr v \<Rightarrow> [\<lparr>pc_index = jsnat i, pc_id = ident, pc_name = nm, pc_input = v\<rparr>])"

fun part_ids :: "nat \<times> answer_part \<Rightarrow> string list" where
  "part_ids (_, TextPart _) = []"
| "part_ids (_, ToolPart ident _ _) = [ident]"

fun part_ok :: "nat \<Rightarrow> nat \<times> answer_part \<Rightarrow> bool" where
  "part_ok n (i, TextPart _) = (i \<le> 9007199254740991)"
| "part_ok n (i, ToolPart ident nm fr) =
     (i \<le> 9007199254740991 \<and> ident \<noteq> [] \<and> nm \<noteq> [] \<and> 2 \<le> n \<and> length (concat fr) \<le> n
      \<and> is_ok (fragments_input fr))"

text \<open>The decoder over a list of payloads.\<close>

fun run_payloads :: "anthropic_state \<Rightarrow> jsval list \<Rightarrow> anthropic_step" where
  "run_payloads st [] = Inr ([], st)"
| "run_payloads st (p # ps) =
     rbind (handle_payload st p) (\<lambda>(es, st').
       if an_terminal st' then Inr (es, st')
       else rbind (run_payloads st' ps) (\<lambda>(fs, st''). Inr (es @ fs, st'')))"

lemma run_payloads_append:
  assumes "run_payloads st ps = Inr (es, st')" and "\<not> an_terminal st'"
  shows "run_payloads st (ps @ qs) =
    rbind (run_payloads st' qs) (\<lambda>(fs, st''). Inr (es @ fs, st''))"
  using assms
proof (induction ps arbitrary: st es)
  case Nil
  then show ?case by (cases "run_payloads st' qs") auto
next
  case (Cons p ps)
  then obtain e1 s1 where step: "handle_payload st p = Inr (e1, s1)" by auto
  show ?case
  proof (cases "an_terminal s1")
    case True
    with step Cons.prems show ?thesis by simp
  next
    case False
    with step Cons.prems(1) obtain e2 where "run_payloads s1 ps = Inr (e2, st')" and "es = e1 @ e2" by auto
    with Cons.IH [of s1 e2] Cons.prems(2) step False show ?thesis
      by (cases "run_payloads st' qs") auto
  qed
qed

lemma drain_payloads:
  assumes "list_all2 (\<lambda>f p. parseJsonObjectFrame (ev_data f) = Inr p) fs ps"
    and "run_payloads st ps = Inr (es, st')" and "\<not> an_terminal st"
  shows "drain_frames anthropicDecoder st fs None = (es, None, if an_terminal st' then None else Some st')"
  using assms
proof (induction fs ps arbitrary: st es rule: list_all2_induct)
  case Nil
  then show ?case by simp
next
  case (Cons f fs p ps)
  from Cons.prems(1) obtain e1 s1 where step: "handle_payload st p = Inr (e1, s1)" by auto
  with Cons.hyps have frame: "handleFrame anthropicDecoder st f = Inr (e1, s1)"
    by (simp add: anthropicDecoder_def anthropic_frame_def)
  show ?case
  proof (cases "an_terminal s1")
    case True
    with step Cons.prems(1) drain_step [OF frame, of fs] show ?thesis
      by (simp add: anthropicDecoder_def)
  next
    case False
    with step Cons.prems(1) obtain e2 where "run_payloads s1 ps = Inr (e2, st')" and "es = e1 @ e2" by auto
    with Cons.IH [of s1 e2] drain_step [OF frame, of fs] False show ?thesis
      by (simp add: anthropicDecoder_def then_emit_Some)
  qed
qed

text \<open>Sending one part.\<close>

definition ready :: "anthropic_state \<Rightarrow> bool" where
  "ready st \<longleftrightarrow> an_started st \<and> \<not> an_stopped st \<and> \<not> an_terminal st \<and> an_blocks st = []"

lemma payload_index:
  assumes "i \<le> 9007199254740991"
  shows "readIndex (JObj ((''type'', v) # (''index'', JNum (jsnat i)) # kvs)) = Inr (jsnat i)"
proof -
  have "isNonNegativeInteger (JNum (jsnat i))"
    using assms by (simp add: isNonNegativeInteger_def jsnat_def max_safe_integer_def)
  then show ?thesis by (simp add: readIndex_def)
qed

lemmas payload_simps = handle_payload_def payload_def delta_payload_def payload_index

lemma text_deltas:
  assumes "an_started st" and "\<not> an_stopped st" and "\<not> an_terminal st"
    and "an_blocks st = [(jsnat i, TextState)]" and "i \<le> 9007199254740991"
  shows "run_payloads st (map (delta_payload i ''text_delta'' ''text'') ts) =
    Inr (map MTextDelta (filter (\<lambda>t. t \<noteq> []) ts), st)"
proof (induction ts)
  case (Cons t ts)
  have "handle_payload st (delta_payload i ''text_delta'' ''text'' t) = Inr (if t = [] then [] else [MTextDelta t], st)"
    using assms by (simp add: payload_simps handleBlockDelta_def)
  with Cons assms(3) show ?case by simp
qed simp

lemma json_deltas:
  assumes "an_started st" and "\<not> an_stopped st" and "\<not> an_terminal st"
    and "an_blocks st = [(jsnat i, ToolState ident nm v True j (length j))]" and "i \<le> 9007199254740991"
    and "length j + length (concat fr) \<le> an_max_bytes st"
  shows "run_payloads st (map (delta_payload i ''input_json_delta'' ''partial_json'') fr) =
    Inr ([], st\<lparr>an_blocks := [(jsnat i, ToolState ident nm v True (j @ concat fr) (length (j @ concat fr)))]\<rparr>)"
  using assms
proof (induction fr arbitrary: st j)
  case (Cons s fr)
  let ?st = "st\<lparr>an_blocks := [(jsnat i, ToolState ident nm v True (j @ s) (length (j @ s)))]\<rparr>"
  have "handle_payload st (delta_payload i ''input_json_delta'' ''partial_json'' s) = Inr ([], ?st)"
    using Cons.prems
    by (simp add: payload_simps handleBlockDelta_def add_fragment_def utf8ByteLength_def put_block_def)
  with Cons.IH [of ?st "j @ s"] Cons.prems show ?case by simp
qed simp


lemma stringify_empty_object: "stringify_text (JObj []) = ''{}''"
  by (simp add: stringify_text_def)

lemma finite_empty_object: "assertFiniteJsonValue (JObj []) = Inr ()"
  by (simp add: assertFiniteJsonValue_def isFiniteJsonValue.simps)

definition after_parts :: "anthropic_state \<Rightarrow> (nat \<times> answer_part) list \<Rightarrow> anthropic_state" where
  "after_parts st parts =
     st\<lparr>an_tool_ids := an_tool_ids st \<union> set (concat (map part_ids parts)),
        an_pending := an_pending st @ concat (map part_calls parts)\<rparr>"

lemma text_part:
  assumes "ready st" and "part_ok (an_max_bytes st) (i, TextPart ts)"
  shows "run_payloads st (part_payloads (i, TextPart ts)) =
    Inr (part_texts (i, TextPart ts), after_parts st [(i, TextPart ts)])"
proof -
  let ?st = "st\<lparr>an_blocks := [(jsnat i, TextState)]\<rparr>"
  let ?stop = "payload ''content_block_stop'' [(''index'', JNum (jsnat i))]"
  have i: "i \<le> 9007199254740991" using assms(2) by simp
  have start: "handle_payload st (hd (part_payloads (i, TextPart ts))) = Inr ([], ?st)"
    using assms(1) i by (simp add: payload_simps handleBlockStart_def ready_def)
  have deltas: "run_payloads ?st (map (delta_payload i ''text_delta'' ''text'') ts) =
      Inr (part_texts (i, TextPart ts), ?st)"
    using assms(1) i by (subst text_deltas) (simp_all add: ready_def)
  have stop: "handle_payload ?st ?stop = Inr ([], st)"
    using assms(1) i by (simp add: payload_simps handleBlockStop_def ready_def)
  from run_payloads_append [OF deltas, of "[?stop]"] stop
  have "run_payloads ?st (map (delta_payload i ''text_delta'' ''text'') ts @ [?stop]) =
      Inr (part_texts (i, TextPart ts), st)"
    using assms(1) by (simp add: ready_def)
  with start assms(1) show ?thesis by (simp add: ready_def after_parts_def)
qed

lemma tool_part:
  assumes "ready st" and ok: "part_ok (an_max_bytes st) (i, ToolPart ident nm fr)" and "ident \<notin> an_tool_ids st"
  shows "run_payloads st (part_payloads (i, ToolPart ident nm fr)) =
    Inr ([], after_parts st [(i, ToolPart ident nm fr)])"
proof -
  let ?tool = "\<lambda>j. ToolState ident nm (JObj []) True j (length j)"
  let ?st = "\<lambda>j. st\<lparr>an_tool_ids := insert ident (an_tool_ids st), an_blocks := [(jsnat i, ?tool j)]\<rparr>"
  let ?stop = "payload ''content_block_stop'' [(''index'', JNum (jsnat i))]"
  have i: "i \<le> 9007199254740991" using ok by simp
  obtain v where v: "fragments_input fr = Inr v" using ok by (auto simp: is_ok_iff)
  have start: "handle_payload st (hd (part_payloads (i, ToolPart ident nm fr))) = Inr ([], ?st [])"
    using assms i by (simp add: payload_simps handleBlockStart_def start_tool_def ready_def
        stringify_empty_object finite_empty_object utf8ByteLength_def)
  have deltas: "run_payloads (?st []) (map (delta_payload i ''input_json_delta'' ''partial_json'') fr) =
      Inr ([], ?st (concat fr))"
    using assms(1) ok i json_deltas [of "?st []" i ident nm "JObj []" "[]" fr] by (simp add: ready_def)
  have stop: "handle_payload (?st (concat fr)) ?stop = Inr ([], after_parts st [(i, ToolPart ident nm fr)])"
    using assms(1) i v
    by (auto simp: payload_simps handleBlockStop_def ready_def after_parts_def fragments_input_def Let_def
        split: if_splits)
  from run_payloads_append [OF deltas, of "[?stop]"] stop
  have "run_payloads (?st []) (map (delta_payload i ''input_json_delta'' ''partial_json'') fr @ [?stop]) =
      Inr ([], after_parts st [(i, ToolPart ident nm fr)])"
    using assms(1) by (simp add: ready_def)
  with start assms(1) show ?thesis by (simp add: ready_def)
qed

lemma after_parts_ready [simp]: "ready (after_parts st ps) = ready st"
  by (simp add: ready_def after_parts_def)

lemma parts_run:
  assumes "ready st" and "list_all (part_ok (an_max_bytes st)) parts"
    and "distinct (concat (map part_ids parts))"
    and "set (concat (map part_ids parts)) \<inter> an_tool_ids st = {}"
  shows "run_payloads st (concat (map part_payloads parts)) =
    Inr (concat (map part_texts parts), after_parts st parts)"
  using assms
proof (induction parts arbitrary: st)
  case Nil
  then show ?case by (simp add: after_parts_def)
next
  case (Cons part parts)
  obtain i a where part: "part = (i, a)" by (cases part)
  have one: "run_payloads st (part_payloads part) = Inr (part_texts part, after_parts st [part])"
    using Cons.prems text_part [of st i] tool_part [of st i] by (cases a) (auto simp: part)
  have ready: "ready (after_parts st [part])" using Cons.prems(1) by simp
  have rest: "run_payloads (after_parts st [part]) (concat (map part_payloads parts)) =
      Inr (concat (map part_texts parts), after_parts (after_parts st [part]) parts)"
    using Cons.prems by (intro Cons.IH ready) (auto simp: after_parts_def)
  have "after_parts (after_parts st [part]) parts = after_parts st (part # parts)"
    by (simp add: after_parts_def Un_assoc)
  with run_payloads_append [OF one] rest ready show ?case by (simp add: ready_def)
qed

lemma token_count_nat: "n \<le> 9007199254740991 \<Longrightarrow> readTokenCount (JNum (jsnat n)) = Inr (Some (jsnat n))"
  by (simp add: readTokenCount_def isNonNegativeInteger_def jsnat_def max_safe_integer_def)

text \<open>
  An answer sent part by part comes out as its texts in order, then its tool calls in the order of
  their indices, then the usage and the completion.
\<close>

lemma answer_run:
  assumes "list_all (part_ok n) parts" and "distinct (concat (map part_ids parts))"
    and "inp \<le> 9007199254740991" and "out \<le> 9007199254740991" and "reason \<in> set supported_stop_reasons"
  shows "\<exists>st'. an_terminal st' \<and> run_payloads (initial_anthropic n) (answer_payloads parts inp out reason) =
    Inr (concat (map part_texts parts)
         @ map call_event (sort_key (\<lambda>c. num_nat (pc_index c)) (concat (map part_calls parts)))
         @ [MUsage (jsnat inp) (jsnat out), MCompleted], st')"
proof -
  let ?s1 = "(initial_anthropic n)\<lparr>an_started := True, an_input_tokens := Some (jsnat inp), an_output_tokens := Some (jsnat 0)\<rparr>"
  let ?s2 = "after_parts ?s1 parts"
  let ?s3 = "?s2\<lparr>an_stop_reason := Some reason, an_output_tokens := Some (jsnat out)\<rparr>"
  let ?calls = "map call_event (sort_key (\<lambda>c. num_nat (pc_index c)) (concat (map part_calls parts)))"
  let ?delta = "payload ''message_delta''
          [(''delta'', JObj [(''stop_reason'', JStr reason)]), (''usage'', JObj [(''output_tokens'', JNum (jsnat out))])]"
  have ready: "ready ?s1" by (simp add: ready_def initial_anthropic_def)
  have start: "handle_payload (initial_anthropic n) (hd (answer_payloads parts inp out reason)) = Inr ([], ?s1)"
    using assms(3) token_count_nat [of 0]
    by (simp add: answer_payloads_def payload_simps handleMessageStart_def initial_anthropic_def token_count_nat
        assertNoCacheTokens_def cache_token_fields_def nullish_def or_keep_def)
  have body: "run_payloads ?s1 (concat (map part_payloads parts)) = Inr (concat (map part_texts parts), ?s2)"
    using assms by (intro parts_run ready) (simp_all add: initial_anthropic_def)
  have delta: "handle_payload ?s2 ?delta = Inr ([], ?s3)"
    using ready assms(4)
    by (simp add: payload_simps handleMessageDelta_def token_count_nat assertNoCacheTokens_def
        cache_token_fields_def nullish_def or_keep_def after_parts_def ready_def)
  have stop: "handle_payload ?s3 (payload ''message_stop'' []) =
      Inr (?calls @ [MUsage (jsnat inp) (jsnat out), MCompleted], ?s3\<lparr>an_stopped := True, an_terminal := True\<rparr>)"
    using ready assms(5)
    by (simp add: payload_simps handleMessageStop_def after_parts_def ready_def usage_events_def initial_anthropic_def)
  have tail: "run_payloads ?s2 [?delta, payload ''message_stop'' []] =
      Inr (?calls @ [MUsage (jsnat inp) (jsnat out), MCompleted], ?s3\<lparr>an_stopped := True, an_terminal := True\<rparr>)"
    using delta stop ready by (simp add: ready_def after_parts_def)
  have "\<not> an_terminal ?s2" using ready by (simp add: ready_def after_parts_def)
  from run_payloads_append [OF body this] tail
  have "run_payloads ?s1 (concat (map part_payloads parts) @ [?delta, payload ''message_stop'' []]) =
      Inr (concat (map part_texts parts) @ ?calls @ [MUsage (jsnat inp) (jsnat out), MCompleted],
           ?s3\<lparr>an_stopped := True, an_terminal := True\<rparr>)"
    by (simp del: run_payloads.simps)
  with start ready show ?thesis
    by (simp add: answer_payloads_def ready_def)
qed


section \<open>Properties\<close>

text \<open>
  C1: whatever bytes an Anthropic provider sends, however they are chunked, however the source ends
  and whenever the caller cancels, the decoded stream ends exactly once, carries only the fixed
  error texts, never repeats a tool call id, never emits a tool call whose input is not a finite
  JSON object or whose id or name is empty, and emits no text after a tool call.
\<close>

theorem anthropic_stream_well_formed:
  "ends_once (fst (decodeFrameStream anthropicDecoder opts src sg))
   \<and> stream_wf (fst (decodeFrameStream anthropicDecoder opts src sg))"
  using anthropic.decode_ends_once anthropic.decode_history by blast

text \<open>
  C2: an answer whose frames reach the decoder, its texts in deltas and its tool inputs in JSON
  fragments cut anywhere, is decoded to its texts in order, then one tool call per tool part in
  index order with the parsed input, then the usage and the completion; how the bytes are chunked
  and what follows the last frame do not matter.
\<close>

theorem anthropic_reassembly:
  assumes "fst (feed_chunks (new_parser (opt_frame_bytes opts)) cs) = fs @ gs"
    and "list_all2 (\<lambda>f p. parseJsonObjectFrame (ev_data f) = Inr p) fs (answer_payloads parts inp out reason)"
    and "list_all (part_ok (opt_tool_bytes opts)) parts" and "distinct (concat (map part_ids parts))"
    and "inp \<le> 9007199254740991" and "out \<le> 9007199254740991" and "reason \<in> set supported_stop_reasons"
  shows "fst (decodeFrameStream anthropicDecoder opts (cs, end) None) =
    concat (map part_texts parts)
    @ map call_event (sort_key (\<lambda>c. num_nat (pc_index c)) (concat (map part_calls parts)))
    @ [MUsage (jsnat inp) (jsnat out), MCompleted]"
proof -
  obtain st' where "an_terminal st'" and run: "run_payloads (initial_anthropic (opt_tool_bytes opts))
      (answer_payloads parts inp out reason) = Inr (concat (map part_texts parts)
         @ map call_event (sort_key (\<lambda>c. num_nat (pc_index c)) (concat (map part_calls parts)))
         @ [MUsage (jsnat inp) (jsnat out), MCompleted], st')"
    using answer_run [OF assms(3-7)] by blast
  moreover have "\<not> an_terminal (initial_anthropic (opt_tool_bytes opts))"
    by (simp add: initial_anthropic_def)
  ultimately have "drain_frames anthropicDecoder (createState anthropicDecoder (opt_tool_bytes opts)) fs None =
      (concat (map part_texts parts)
         @ map call_event (sort_key (\<lambda>c. num_nat (pc_index c)) (concat (map part_calls parts)))
         @ [MUsage (jsnat inp) (jsnat out), MCompleted], None, None)"
    using drain_payloads [OF assms(2) run] by (simp add: anthropicDecoder_def)
  from decode_until_terminal [OF assms(1) this] show ?thesis .
qed

definition json_event :: "jsval \<Rightarrow> event_text" where
  "json_event v = \<lparr>tx_event = Some (as_str (field v ''type'')), tx_id = None, tx_lines = [stringify_text v]\<rparr>"

definition sample_parts :: "(nat \<times> answer_part) list" where
  "sample_parts = [(1, ToolPart ''a'' ''ls'' [''{\"p\"'', '': 1}'']), (0, TextPart [''Hi'', [], '' you''])]"

definition sample_payloads :: "jsval list" where
  "sample_payloads = answer_payloads sample_parts 3 5 ''tool_use''"

definition sample_bytes :: string where
  "sample_bytes = concat (map (encode_event [LF]) (map json_event sample_payloads))"

lemma sample_fits: "list_all (event_text_ok 200 [LF]) (map json_event sample_payloads)"
  by code_simp

lemma sample_parsed:
  "list_all2 (\<lambda>f p. parseJsonObjectFrame (ev_data f) = Inr p) (map event_of (map json_event sample_payloads))
     (answer_payloads sample_parts 3 5 ''tool_use'')"
  by code_simp

lemma sample_call: "fragments_input [''{\"p\"'', '': 1}''] = Inr (JObj [(''p'', JNum (Fin 1))])"
  by code_simp

theorem anthropic_reassembly_witness:
  "fst (decodeFrameStream anthropicDecoder \<lparr>opt_frame_bytes = 200, opt_tool_bytes = 20\<rparr>
     ([take 95 sample_bytes, drop 95 sample_bytes], SrcThrow) None) =
   [MTextDelta ''Hi'', MTextDelta '' you'',
    MToolCall (JStr ''a'') (JStr ''ls'') (JObj [(''p'', JNum (Fin 1))]),
    MUsage (Fin 3) (Fin 5), MCompleted]"
proof -
  let ?opts = "\<lparr>opt_frame_bytes = 200, opt_tool_bytes = 20\<rparr>"
  have "concat [take 95 sample_bytes, drop 95 sample_bytes] =
      concat (map (encode_event [LF]) (map json_event sample_payloads))"
    by (simp add: sample_bytes_def del: map_map)
  moreover have "line_break [LF]" by (simp add: line_break_def)
  ultimately obtain p where "feed_chunks (new_parser 200) [take 95 sample_bytes, drop 95 sample_bytes] =
      (map event_of (map json_event sample_payloads), Inr p)"
    using parse_encoded [OF _ sample_fits] by blast
  then have "fst (feed_chunks (new_parser (opt_frame_bytes ?opts)) [take 95 sample_bytes, drop 95 sample_bytes]) =
      map event_of (map json_event sample_payloads) @ []"
    by (simp del: feed_chunks.simps)
  from anthropic_reassembly [OF this sample_parsed, of SrcThrow]
  show ?thesis
    by (simp add: sample_payloads_def sample_parts_def sample_call supported_stop_reasons_def call_event_def jsnat_def)
qed

lemma payload_max_bytes: "handle_payload st p = Inr (evs, st') \<Longrightarrow> an_max_bytes st' = an_max_bytes st"
proof -
  have frag: "an_max_bytes st' = an_max_bytes st" if "add_fragment st i b v = Inr (evs, st')" for i b v
    using that by (cases b) (auto simp: add_fragment_def Let_def split: if_splits)
  have delta: "an_max_bytes st' = an_max_bytes st" if "handleBlockDelta st p = Inr (evs, st')"
    using that by (cases rule: block_delta_cases) (auto dest: frag)
  have stop: "an_max_bytes st' = an_max_bytes st" if s: "handleBlockStop st p = Inr (evs, st')"
  proof -
    obtain i b where "readIndex p = Inr i" and "map_of (an_blocks st) i = Some b"
      using s by (auto simp: handleBlockStop_def split: if_splits option.splits)
    with s show ?thesis by (cases b) (auto simp: handleBlockStop_def Let_def split: if_splits)
  qed
  assume "handle_payload st p = Inr (evs, st')"
  then show ?thesis
    using delta stop
    by (auto simp: handle_payload_def handleMessageStart_def handleMessageDelta_def handleBlockStart_def
        start_tool_def handleMessageStop_def handleError_def Let_def split: if_splits)
qed

lemma run_payloads_inv:
  "run_payloads st ps = Inr (es, st') \<Longrightarrow> anthropic_inv st \<Longrightarrow>
     anthropic_inv st' \<and> an_max_bytes st' = an_max_bytes st"
proof (induction ps arbitrary: st es)
  case (Cons p ps)
  then obtain e1 s1 where step: "handle_payload st p = Inr (e1, s1)" by auto
  from inv_payload [OF step Cons.prems(2)] payload_max_bytes [OF step] Cons step show ?case
    by (fastforce split: if_splits)
qed simp

text \<open>
  At every point of a message, an open tool block holds exactly the bytes it has counted, never
  more than the limit, only if its initial input was empty; and the ids of the finished and of the
  open tool calls are pairwise distinct.
\<close>

theorem anthropic_tool_buffers_bounded:
  assumes "run_payloads (initial_anthropic n) ps = Inr (es, st)"
  shows "list_all (\<lambda>(i, b). block_ok n b) (an_blocks st)
    \<and> distinct (map pc_id (an_pending st) @ block_ids (an_blocks st))"
proof -
  have "anthropic_inv st" and "an_max_bytes st = n"
    using run_payloads_inv [OF assms inv_init] by (simp_all add: initial_anthropic_def)
  then show ?thesis by (auto simp: anthropic_inv_def calls_inv_def list_all_iff)
qed

theorem anthropic_tool_buffers_bounded_witness:
  "map snd (an_blocks (snd (projr (run_payloads (initial_anthropic 20) (take 3 sample_payloads))))) =
     [ToolState ''a'' ''ls'' (JObj []) True ''{\"p\"'' 4]
   \<and> list_all (\<lambda>(i, b). block_ok 20 b)
       (an_blocks (snd (projr (run_payloads (initial_anthropic 20) (take 3 sample_payloads)))))"
proof -
  let ?r = "run_payloads (initial_anthropic 20) (take 3 sample_payloads)"
  have "is_ok ?r" by code_simp
  then obtain es st where run: "?r = Inr (es, st)" by (auto simp: is_ok_iff)
  have st: "map snd (an_blocks (snd (projr ?r))) = [ToolState ''a'' ''ls'' (JObj []) True ''{\"p\"'' 4]"
    by code_simp
  from anthropic_tool_buffers_bounded [OF run] st show ?thesis by (simp add: run)
qed

end
