(* ===== verification/OpenAI_Stream.thy ===== *)
theory OpenAI_Stream
  imports Stream_Runtime
begin

text \<open>
  \<open>packages/model-gateway/src/adapters/openai-chat-stream.ts\<close>: the decoder of an OpenAI Chat
  Completions stream.  Handlers return the events they push and the new state.
\<close>

section \<open>State\<close>

record tool_call_state =
  tc_index :: jsnum
  tc_id :: "string option"
  tc_name :: "string option"
  tc_args :: string
  tc_bytes :: nat

record openai_state =
  oa_max_bytes :: nat
  oa_saw_finish :: bool
  oa_finish_reason :: "string option"
  oa_tools_emitted :: bool
  oa_terminal :: bool
  oa_prompt :: "jsnum option"
  oa_completion :: "jsnum option"
  oa_calls :: "(jsnum \<times> tool_call_state) list"

definition openai_rate_limited :: "string list" where
  "openai_rate_limited = [''rate_limit_error'', ''rate_limit_exceeded'']"

definition openai_unavailable :: "string list" where
  "openai_unavailable = [''server_error'', ''overloaded_error'']"

definition done_sentinel :: string where
  "done_sentinel = ''[DONE]''"

type_synonym openai_step = "stream_code + (model_event list \<times> openai_state)"

section \<open>Handlers\<close>

definition mapOpenAIError :: "jsval \<Rightarrow> stream_code" where
  "mapOpenAIError error =
     (if \<not> isPlainObject error then GatewayError
      else
        let byType = mapStructuredErrorType (field error ''type'') openai_rate_limited openai_unavailable in
        if byType \<noteq> GatewayError then byType
        else mapStructuredErrorType (field error ''code'') openai_rate_limited openai_unavailable)"

text \<open>\<open>entry.id\<close> and \<open>entry.name\<close> follow one rule: set once, never changed.\<close>

definition merge_name :: "string option \<Rightarrow> jsval \<Rightarrow> stream_code + string option" where
  "merge_name old v =
     (if nullish v then Inr old
      else if \<not> is_string v \<or> as_str v = [] then Inl protocolError
      else (case old of
              None \<Rightarrow> Inr (Some (as_str v))
            | Some s \<Rightarrow> if s \<noteq> as_str v then Inl protocolError else Inr old))"

definition merge_args :: "nat \<Rightarrow> tool_call_state \<Rightarrow> jsval \<Rightarrow> stream_code + tool_call_state" where
  "merge_args max_bytes entry v =
     (if nullish v then Inr entry
      else if \<not> is_string v then Inl protocolError
      else
        let bytes = tc_bytes entry + utf8ByteLength (as_str v) in
        if max_bytes < bytes then Inl protocolError
        else Inr (entry\<lparr>tc_bytes := bytes, tc_args := tc_args entry @ as_str v\<rparr>))"

definition fresh_call :: "jsnum \<Rightarrow> tool_call_state" where
  "fresh_call index = \<lparr>tc_index = index, tc_id = None, tc_name = None, tc_args = [], tc_bytes = 0\<rparr>"

definition update_call :: "nat \<Rightarrow> tool_call_state \<Rightarrow> jsval \<Rightarrow> stream_code + tool_call_state" where
  "update_call max_bytes entry raw =
     (if \<not> nullish (field raw ''type'') \<and> field raw ''type'' \<noteq> JStr ''function'' then Inl protocolError
      else
        rbind (merge_name (tc_id entry) (field raw ''id'')) (\<lambda>i.
        let entry = entry\<lparr>tc_id := i\<rparr>; fn = field raw ''function'' in
        if nullish fn then Inr entry
        else if \<not> isPlainObject fn then Inl protocolError
        else
          rbind (merge_name (tc_name entry) (field fn ''name'')) (\<lambda>nm.
          merge_args max_bytes (entry\<lparr>tc_name := nm\<rparr>) (field fn ''arguments''))))"

text \<open>The map entry is created before the fields are looked at; a throw ends the stream.\<close>

definition put_call :: "(jsnum \<times> tool_call_state) list \<Rightarrow> jsnum \<Rightarrow> tool_call_state \<Rightarrow> (jsnum \<times> tool_call_state) list" where
  "put_call cs i c = (if map_of cs i = None then cs @ [(i, c)] else map (\<lambda>(k, v). (k, if k = i then c else v)) cs)"

definition applyToolCallDelta :: "jsval \<Rightarrow> openai_state \<Rightarrow> stream_code + openai_state" where
  "applyToolCallDelta raw st =
     (if \<not> isPlainObject raw then Inl protocolError
      else if \<not> isNonNegativeInteger (field raw ''index'') then Inl protocolError
      else
        let index = as_num (field raw ''index'');
            entry = (case map_of (oa_calls st) index of None \<Rightarrow> fresh_call index | Some e \<Rightarrow> e)
        in
        rbind (update_call (oa_max_bytes st) entry raw) (\<lambda>entry'.
        Inr (st\<lparr>oa_calls := put_call (oa_calls st) index entry'\<rparr>)))"

definition handleDelta :: "openai_state \<Rightarrow> jsval \<Rightarrow> openai_step" where
  "handleDelta st delta =
     (let content = field delta ''content''; toolCalls = field delta ''tool_calls'' in
      if oa_saw_finish st \<and> (is_string content \<and> as_str content \<noteq> [] \<or> toolCalls \<noteq> JUndef) then Inl protocolError
      else if \<not> nullish (field delta ''role'') \<and> field delta ''role'' \<noteq> JStr ''assistant'' then Inl protocolError
      else if \<not> nullish (field delta ''refusal'') then Inl protocolError
      else if \<not> nullish (field delta ''function_call'') then Inl protocolError
      else if \<not> nullish (field delta ''reasoning_content'') \<or> \<not> nullish (field delta ''reasoning'') then Inl protocolError
      else if \<not> nullish content \<and> \<not> is_string content then Inl protocolError
      else
        let events = (if is_string content \<and> as_str content \<noteq> [] then [MTextDelta (as_str content)] else []) in
        if nullish toolCalls then Inr (events, st)
        else if \<not> is_array toolCalls then Inl protocolError
        else rbind (rfold applyToolCallDelta (as_arr toolCalls) st) (\<lambda>st'. Inr (events, st')))"

text \<open>The loop of \<open>emitToolCalls\<close>: the state is \<open>seenIds\<close> and \<open>batch\<close>.\<close>

definition batch_call :: "tool_call_state \<Rightarrow> string set \<times> model_event list \<Rightarrow> stream_code + (string set \<times> model_event list)" where
  "batch_call entry acc =
     (case (tc_id entry, tc_name entry) of
        (Some i, Some nm) \<Rightarrow>
          if i \<in> fst acc then Inl protocolError
          else
            let trimmed = js_trim (tc_args entry) in
            rbind (if trimmed = [] then Inr (JObj []) else parseToolInputObject trimmed) (\<lambda>input.
            Inr (insert i (fst acc), snd acc @ [MToolCall (JStr i) (JStr nm) input]))
      | _ \<Rightarrow> Inl protocolError)"

definition emitToolCalls :: "openai_state \<Rightarrow> openai_step" where
  "emitToolCalls st =
     rbind (rfold batch_call (sort_key (\<lambda>c. num_nat (tc_index c)) (map snd (oa_calls st))) ({}, [])) (\<lambda>acc.
     Inr (snd acc, st\<lparr>oa_tools_emitted := True\<rparr>))"

definition handleFinishReason :: "openai_state \<Rightarrow> string \<Rightarrow> openai_step" where
  "handleFinishReason st reason =
     (let st = st\<lparr>oa_saw_finish := True, oa_finish_reason := Some reason\<rparr> in
      if reason = ''stop'' then
        (if 0 < length (oa_calls st) then Inl protocolError else Inr ([], st))
      else if reason = ''tool_calls'' then emitToolCalls st
      else Inl protocolError)"

definition handleChoices :: "openai_state \<Rightarrow> jsval \<Rightarrow> openai_step" where
  "handleChoices st choices =
     (if \<not> is_array choices then Inl protocolError
      else
        (case as_arr choices of
           [] \<Rightarrow> Inr ([], st)
         | [choice] \<Rightarrow>
             if \<not> isPlainObject choice then Inl protocolError
             else if field choice ''index'' \<noteq> JUndef \<and> field choice ''index'' \<noteq> JNum (Fin 0) then Inl protocolError
             else
               rbind (let delta = field choice ''delta'' in
                      if nullish delta then Inr ([], st)
                      else if \<not> isPlainObject delta then Inl protocolError
                      else handleDelta st delta) (\<lambda>(es, st).
               let reason = field choice ''finish_reason'' in
               if nullish reason then Inr (es, st)
               else if \<not> is_string reason then Inl protocolError
               else if oa_saw_finish st then Inl protocolError
               else rbind (handleFinishReason st (as_str reason)) (\<lambda>(fs, st). Inr (es @ fs, st)))
         | _ \<Rightarrow> Inl protocolError))"

definition handleUsage :: "openai_state \<Rightarrow> jsval \<Rightarrow> openai_step" where
  "handleUsage st usage =
     (if nullish usage then Inr ([], st)
      else if \<not> isPlainObject usage then Inl protocolError
      else
        rbind (readTokenCount (field usage ''prompt_tokens'')) (\<lambda>prompt.
        rbind (readTokenCount (field usage ''completion_tokens'')) (\<lambda>completion.
        Inr (usage_events prompt completion,
             st\<lparr>oa_prompt := or_keep prompt (oa_prompt st), oa_completion := or_keep completion (oa_completion st)\<rparr>))))"

definition handleDone :: "openai_state \<Rightarrow> openai_step" where
  "handleDone st =
     (if \<not> oa_saw_finish st then Inl protocolError
      else if oa_finish_reason st = Some ''tool_calls'' \<and> \<not> oa_tools_emitted st then Inl protocolError
      else Inr ([MCompleted], st\<lparr>oa_terminal := True\<rparr>))"

section \<open>The decoder\<close>

definition initial_openai :: "nat \<Rightarrow> openai_state" where
  "initial_openai maxToolInputBytes =
     \<lparr>oa_max_bytes = maxToolInputBytes, oa_saw_finish = False, oa_finish_reason = None, oa_tools_emitted = False,
      oa_terminal = False, oa_prompt = None, oa_completion = None, oa_calls = []\<rparr>"

definition openai_payload :: "openai_state \<Rightarrow> jsval \<Rightarrow> openai_step" where
  "openai_payload st payload =
     (let error = field payload ''error''; choices = field payload ''choices''; usage = field payload ''usage'' in
      if \<not> nullish error then Inr ([streamErrorEvent (mapOpenAIError error)], st\<lparr>oa_terminal := True\<rparr>)
      else if choices = JUndef \<and> usage = JUndef then Inl protocolError
      else
        rbind (if choices = JUndef then Inr ([], st) else handleChoices st choices) (\<lambda>(es, st).
        rbind (handleUsage st usage) (\<lambda>(fs, st). Inr (es @ fs, st))))"

definition openai_frame :: "openai_state \<Rightarrow> sse_event \<Rightarrow> openai_step" where
  "openai_frame st frame =
     (if js_trim (ev_data frame) = done_sentinel then handleDone st
      else rbind (parseJsonObjectFrame (ev_data frame)) (openai_payload st))"

definition openAIChatDecoder :: "openai_state frame_decoder" where
  "openAIChatDecoder =
     \<lparr>createState = initial_openai, handleFrame = openai_frame, isTerminal = oa_terminal,
      finishStream = \<lambda>_. Inl protocolError\<rparr>"

definition decodeOpenAIChatCompletionsStream ::
  "string source \<Rightarrow> jsval \<Rightarrow> jsval \<Rightarrow> signal \<Rightarrow> adapter_code + (model_event list \<times> signal)"
where
  "decodeOpenAIChatCompletionsStream source frame_opt tool_opt sg =
     rbind (normalizeDecodeOptions frame_opt tool_opt) (\<lambda>opts.
     Inr (decodeFrameStream openAIChatDecoder opts source sg))"

section \<open>State invariant\<close>

definition call_state_ok :: "nat \<Rightarrow> tool_call_state \<Rightarrow> bool" where
  "call_state_ok n c \<longleftrightarrow> tc_bytes c = length (tc_args c) \<and> tc_bytes c \<le> n \<and> tc_id c \<noteq> Some [] \<and> tc_name c \<noteq> Some []"

definition openai_inv :: "openai_state \<Rightarrow> bool" where
  "openai_inv st \<longleftrightarrow>
     distinct (map fst (oa_calls st))
     \<and> list_all (\<lambda>(k, c). tc_index c = k \<and> (\<exists>n. k = jsnat n) \<and> call_state_ok (oa_max_bytes st) c) (oa_calls st)"

lemma inv_initial: "openai_inv (initial_openai n)"
  by (simp add: openai_inv_def initial_openai_def)

lemma merge_name_ok: "merge_name old v = Inr nm \<Longrightarrow> old \<noteq> Some [] \<Longrightarrow> nm \<noteq> Some []"
  by (auto simp: merge_name_def split: if_splits option.splits)

lemma update_call_ok:
  assumes "update_call n c raw = Inr c'" and "call_state_ok n c"
  shows "call_state_ok n c' \<and> tc_index c' = tc_index c"
  using assms
  by (auto simp: update_call_def merge_args_def call_state_ok_def Let_def utf8ByteLength_def
      split: if_splits dest: merge_name_ok)

lemma put_call_keys: "set (map fst (put_call cs i c)) = insert i (set (map fst cs))"
  by (auto simp: put_call_def map_of_eq_None_iff image_iff split: if_splits) force+

lemma put_call_distinct: "distinct (map fst cs) \<Longrightarrow> distinct (map fst (put_call cs i c))"
  by (auto simp: put_call_def map_of_eq_None_iff o_def case_prod_beta)

lemma put_call_in: "kv \<in> set (put_call cs i c) \<Longrightarrow> kv = (i, c) \<or> kv \<in> set cs"
  by (auto simp: put_call_def split: if_splits)

lemma inv_apply:
  assumes "applyToolCallDelta raw st = Inr st'" and "openai_inv st"
  shows "openai_inv st' \<and> oa_max_bytes st' = oa_max_bytes st \<and> oa_saw_finish st' = oa_saw_finish st
    \<and> oa_terminal st' = oa_terminal st"
proof -
  let ?i = "as_num (field raw ''index'')"
  let ?e = "case map_of (oa_calls st) ?i of None \<Rightarrow> fresh_call ?i | Some e \<Rightarrow> e"
  obtain e' where e': "update_call (oa_max_bytes st) ?e raw = Inr e'"
    and st': "st' = st\<lparr>oa_calls := put_call (oa_calls st) ?i e'\<rparr>"
    and nat: "isNonNegativeInteger (field raw ''index'')"
    using assms(1) by (auto simp: applyToolCallDelta_def Let_def split: if_splits)
  obtain n where n: "?i = jsnat n" using isNonNegativeInteger_nat [OF nat] by auto
  have "call_state_ok (oa_max_bytes st) ?e \<and> tc_index ?e = ?i"
    using assms(2) by (auto simp: openai_inv_def list_all_iff call_state_ok_def fresh_call_def
        split: option.splits dest!: map_of_SomeD)
  with update_call_ok [OF e'] have "call_state_ok (oa_max_bytes st) e' \<and> tc_index e' = ?i" by simp
  with assms(2) n show ?thesis
    by (auto simp: st' openai_inv_def put_call_distinct list_all_iff dest!: put_call_in)
qed

lemma inv_apply_all:
  "rfold applyToolCallDelta cs st = Inr st' \<Longrightarrow> openai_inv st \<Longrightarrow>
     openai_inv st' \<and> oa_max_bytes st' = oa_max_bytes st \<and> oa_saw_finish st' = oa_saw_finish st
     \<and> oa_terminal st' = oa_terminal st"
  by (induction cs arbitrary: st) (auto dest: inv_apply)

section \<open>What the handlers yield\<close>

definition batch_ok :: "string set \<times> model_event list \<Rightarrow> bool" where
  "batch_ok acc \<longleftrightarrow>
     list_all (\<lambda>e. is_call e \<and> event_ok e) (snd acc) \<and> distinct (called_ids (snd acc))
     \<and> set (called_ids (snd acc)) = JStr ` fst acc"

lemma batch_call_ok:
  assumes "batch_call c acc = Inr acc'" and "call_state_ok n c" and "batch_ok acc"
  shows "batch_ok acc'"
proof -
  obtain i nm where names: "tc_id c = Some i" "tc_name c = Some nm" and fresh: "i \<notin> fst acc"
    using assms(1) by (auto simp: batch_call_def split: option.splits if_splits)
  obtain v where v: "input_ok v" and acc': "acc' = (insert i (fst acc), snd acc @ [MToolCall (JStr i) (JStr nm) v])"
  proof (cases "js_trim (tc_args c) = []")
    case True
    with assms(1) names fresh that [of "JObj []"] show ?thesis
      by (auto simp: batch_call_def input_ok_def isFiniteJsonValue.simps)
  next
    case False
    with assms(1) names fresh that show ?thesis
      by (auto simp: batch_call_def input_ok_def dest!: parseToolInputObject_ok)
  qed
  have "i \<noteq> []" "nm \<noteq> []" using assms(2) names by (auto simp: call_state_ok_def)
  with v fresh assms(3) show ?thesis by (auto simp: acc' batch_ok_def)
qed

lemma emit_batch:
  assumes "emitToolCalls st = Inr (es, st')" and "openai_inv st"
  shows "list_all (\<lambda>e. is_call e \<and> event_ok e) es \<and> distinct (called_ids es) \<and> st' = st\<lparr>oa_tools_emitted := True\<rparr>"
proof -
  let ?cs = "sort_key (\<lambda>c. num_nat (tc_index c)) (map snd (oa_calls st))"
  obtain acc where run: "rfold batch_call ?cs ({}, []) = Inr acc" and es: "es = snd acc"
    and st': "st' = st\<lparr>oa_tools_emitted := True\<rparr>"
    using assms(1) by (auto simp: emitToolCalls_def)
  have ok: "call_state_ok (oa_max_bytes st) c" if "c \<in> set ?cs" for c
    using that assms(2) by (auto simp: openai_inv_def list_all_iff)
  have "batch_ok acc"
  proof (rule rfold_invariant [OF run])
    show "batch_ok ({}, [])" by (simp add: batch_ok_def)
    show "batch_ok v" if "c \<in> set ?cs" and "batch_ok u" and "batch_call c u = Inr v" for c u v
      using batch_call_ok [OF that(3) ok [OF that(1)] that(2)] .
  qed
  then show ?thesis by (simp add: batch_ok_def es st')
qed

lemma delta_step:
  assumes "handleDelta st d = Inr (es, st')" and "openai_inv st"
  shows "list_all (\<lambda>e. is_text e \<and> event_ok e) es \<and> (oa_saw_finish st \<longrightarrow> es = []) \<and> openai_inv st'
    \<and> oa_max_bytes st' = oa_max_bytes st \<and> oa_saw_finish st' = oa_saw_finish st \<and> oa_terminal st' = oa_terminal st"
  using assms by (auto simp: handleDelta_def Let_def split: if_splits dest!: inv_apply_all)

lemma finish_step:
  assumes "handleFinishReason st r = Inr (es, st')" and "openai_inv st"
  shows "list_all (\<lambda>e. is_call e \<and> event_ok e) es \<and> distinct (called_ids es) \<and> openai_inv st'
    \<and> oa_max_bytes st' = oa_max_bytes st \<and> oa_saw_finish st' \<and> oa_terminal st' = oa_terminal st"
  using assms emit_batch [of "st\<lparr>oa_saw_finish := True, oa_finish_reason := Some r\<rparr>" es st']
  by (auto simp: handleFinishReason_def Let_def openai_inv_def split: if_splits)

text \<open>A chunk: some text, and the calls only with the finish reason.\<close>

lemma choices_step:
  assumes "handleChoices st cs = Inr (es, st')" and "openai_inv st"
  shows "\<exists>ts calls. es = ts @ calls \<and> list_all (\<lambda>e. is_text e \<and> event_ok e) ts
    \<and> list_all (\<lambda>e. is_call e \<and> event_ok e) calls \<and> distinct (called_ids calls)
    \<and> (oa_saw_finish st \<longrightarrow> es = [] \<and> oa_saw_finish st') \<and> (\<not> oa_saw_finish st' \<longrightarrow> calls = [])
    \<and> openai_inv st' \<and> oa_max_bytes st' = oa_max_bytes st \<and> oa_terminal st' = oa_terminal st"
proof (cases "as_arr cs")
  case Nil
  with assms show ?thesis by (auto simp: handleChoices_def split: if_splits)
next
  case (Cons choice rest)
  let ?delta = "field choice ''delta''" and ?reason = "field choice ''finish_reason''"
  have "rest = []" using assms(1) Cons by (cases rest) (auto simp: handleChoices_def split: if_splits)
  with assms(1) Cons obtain ts s1 where
      d: "(if nullish ?delta then Inr ([], st) else if \<not> isPlainObject ?delta then Inl protocolError
          else handleDelta st ?delta) = Inr (ts, s1)"
    and f: "(if nullish ?reason then Inr (ts, s1) else if \<not> is_string ?reason then Inl protocolError
          else if oa_saw_finish s1 then Inl protocolError
          else rbind (handleFinishReason s1 (as_str ?reason)) (\<lambda>(fs, st). Inr (ts @ fs, st))) = Inr (es, st')"
    by (auto simp: handleChoices_def Let_def split: if_splits)
  have s1: "list_all (\<lambda>e. is_text e \<and> event_ok e) ts" "oa_saw_finish st \<longrightarrow> ts = []" "openai_inv s1"
      "oa_max_bytes s1 = oa_max_bytes st" "oa_saw_finish s1 = oa_saw_finish st" "oa_terminal s1 = oa_terminal st"
    using d assms(2) delta_step [of st ?delta ts s1] by (auto split: if_splits)
  show ?thesis
  proof (cases "nullish ?reason")
    case True
    with f s1 show ?thesis by (intro exI [of _ ts] exI [of _ "[]"]) auto
  next
    case False
    with f obtain fs where fin: "handleFinishReason s1 (as_str ?reason) = Inr (fs, st')" and "es = ts @ fs"
      and "\<not> oa_saw_finish s1"
      by (auto split: if_splits)
    with finish_step [OF fin s1(3)] s1 show ?thesis by (intro exI [of _ ts] exI [of _ fs]) auto
  qed
qed

lemma usage_step:
  assumes "handleUsage st u = Inr (es, st')"
  shows "list_all (\<lambda>e. event_ok e \<and> \<not> is_call e \<and> \<not> is_text e \<and> \<not> is_terminal e) es \<and> openai_inv st' = openai_inv st
    \<and> oa_max_bytes st' = oa_max_bytes st \<and> oa_saw_finish st' = oa_saw_finish st \<and> oa_terminal st' = oa_terminal st"
proof (cases "nullish u")
  case True
  with assms show ?thesis by (simp add: handleUsage_def)
next
  case False
  with assms obtain p c where "readTokenCount (field u ''prompt_tokens'') = Inr p"
    and "readTokenCount (field u ''completion_tokens'') = Inr c" and es: "es = usage_events p c"
    and st': "st' = st\<lparr>oa_prompt := or_keep p (oa_prompt st), oa_completion := or_keep c (oa_completion st)\<rparr>"
    by (auto simp: handleUsage_def split: if_splits)
  then have "count_ok p" and "count_ok c" by (auto simp: count_ok_def split: option.splits dest!: readTokenCount_nat)
  then show ?thesis
    by (auto simp: es st' openai_inv_def usage_events_def count_ok_def split: option.splits)
qed

definition openai_history :: "openai_state \<Rightarrow> model_event list \<Rightarrow> bool" where
  "openai_history st h \<longleftrightarrow>
     openai_inv st \<and> stream_wf h \<and> (\<not> oa_saw_finish st \<longrightarrow> \<not> list_ex is_call h)"

lemma payload_open:
  assumes "openai_payload st p = Inr (es, st')" and "\<not> oa_terminal st'" and "openai_inv st"
  obtains ts calls us where "es = ts @ calls @ us"
    and "list_all (\<lambda>e. is_text e \<and> event_ok e) ts"
    and "list_all (\<lambda>e. is_call e \<and> event_ok e) calls" and "distinct (called_ids calls)"
    and "list_all (\<lambda>e. event_ok e \<and> \<not> is_call e \<and> \<not> is_text e \<and> \<not> is_terminal e) us"
    and "oa_saw_finish st \<longrightarrow> ts = [] \<and> calls = [] \<and> oa_saw_finish st'" and "\<not> oa_saw_finish st' \<longrightarrow> calls = []"
    and "openai_inv st'" and "oa_terminal st = oa_terminal st'" and "oa_max_bytes st' = oa_max_bytes st"
proof -
  let ?choices = "field p ''choices''" and ?usage = "field p ''usage''"
  from assms(1,2) obtain cs s1 us where
      c: "(if ?choices = JUndef then Inr ([], st) else handleChoices st ?choices) = Inr (cs, s1)"
    and u: "handleUsage s1 ?usage = Inr (us, st')" and es: "es = cs @ us"
    by (auto simp: openai_payload_def Let_def split: if_splits)
  show thesis
  proof (cases "?choices = JUndef")
    case True
    with c u es usage_step [OF u] assms(3) show ?thesis by (intro that [of "[]" "[]" us]) auto
  next
    case False
    with c have ch: "handleChoices st ?choices = Inr (cs, s1)" by simp
    obtain ts calls where "cs = ts @ calls" "list_all (\<lambda>e. is_text e \<and> event_ok e) ts"
      "list_all (\<lambda>e. is_call e \<and> event_ok e) calls" "distinct (called_ids calls)"
      "oa_saw_finish st \<longrightarrow> cs = [] \<and> oa_saw_finish s1" "\<not> oa_saw_finish s1 \<longrightarrow> calls = []"
      "openai_inv s1" "oa_max_bytes s1 = oa_max_bytes st" "oa_terminal s1 = oa_terminal st"
      using choices_step [OF ch assms(3)] by blast
    with u es usage_step [OF u] show ?thesis by (intro that [of ts calls us]) auto
  qed
qed

lemma payload_error:
  assumes "openai_payload st p = Inr (es, st')" and "oa_terminal st'" and "\<not> oa_terminal st" and "openai_inv st"
  shows "\<exists>c. es = [streamErrorEvent c] \<and> openai_inv st' \<and> oa_saw_finish st' = oa_saw_finish st"
proof (cases "nullish (field p ''error'')")
  case False
  with assms show ?thesis by (auto simp: openai_payload_def openai_inv_def)
next
  case True
  let ?choices = "field p ''choices''" and ?usage = "field p ''usage''"
  from True assms(1) obtain cs s1 us where
      c: "(if ?choices = JUndef then Inr ([], st) else handleChoices st ?choices) = Inr (cs, s1)"
    and u: "handleUsage s1 ?usage = Inr (us, st')"
    by (auto simp: openai_payload_def Let_def split: if_splits)
  then have "oa_terminal s1 = oa_terminal st"
    using choices_step [of st ?choices cs s1] assms(4) by (auto split: if_splits)
  with usage_step [OF u] assms(2,3) show ?thesis by simp
qed

lemma calls_no_text: "list_all (\<lambda>e. is_call e \<and> event_ok e) es \<Longrightarrow> list_all (\<lambda>f. \<not> is_text f) es \<and> list_all event_ok es"
proof (induction es)
  case (Cons e es)
  then show ?case by (cases e) auto
qed simp

lemma openai_step_history:
  assumes "openai_history st h" and "\<not> oa_terminal st" and "openai_payload st p = Inr (es, st')"
  shows "openai_history st' (h @ es)"
proof (cases "oa_terminal st'")
  case True
  with payload_error [OF assms(3) True assms(2)] assms(1) show ?thesis
    by (auto simp: openai_history_def stream_wf_error)
next
  case False
  have inv: "openai_inv st" and wf: "stream_wf h" using assms(1) by (simp_all add: openai_history_def)
  obtain ts calls us where es: "es = ts @ calls @ us"
    and ts: "list_all (\<lambda>e. is_text e \<and> event_ok e) ts"
    and calls: "list_all (\<lambda>e. is_call e \<and> event_ok e) calls" "distinct (called_ids calls)"
    and us: "list_all (\<lambda>e. event_ok e \<and> \<not> is_call e \<and> \<not> is_text e \<and> \<not> is_terminal e) us"
    and fin: "oa_saw_finish st \<longrightarrow> ts = [] \<and> calls = [] \<and> oa_saw_finish st'" "\<not> oa_saw_finish st' \<longrightarrow> calls = []"
    and inv': "openai_inv st'"
    by (rule payload_open [OF assms(3) False inv])
  have us': "list_all (\<lambda>e. event_ok e \<and> \<not> is_call e \<and> \<not> is_text e) us" "\<not> list_ex is_call us"
    using us by (auto simp: list_all_iff list_ex_iff)
  show ?thesis
  proof (cases "oa_saw_finish st")
    case True
    with fin us' wf inv' show ?thesis by (simp add: openai_history_def es stream_wf_tail)
  next
    case False
    then have none: "\<not> list_ex is_call h" using assms(1) by (simp add: openai_history_def)
    have "list_all event_ok ts" "distinct (called_ids ts)" using ts stream_wf_texts [OF ts] by (simp_all add: stream_wf_def)
    have wf1: "stream_wf (h @ ts)" and none': "\<not> list_ex is_call (h @ ts)"
      using wf none stream_wf_texts [OF ts] called_ids_empty [of h]
      by (simp_all add: stream_wf_def text_first_append)
    from stream_wf_batch [OF wf1 none' _ calls(2)] calls_no_text [OF calls(1)]
    have "stream_wf ((h @ ts) @ calls)" by simp
    from stream_wf_tail [OF this us'(1)] have "stream_wf (h @ es)" by (simp add: es)
    with inv' fin(2) none' us'(2) show ?thesis by (auto simp: openai_history_def es)
  qed
qed

section \<open>The contracts of the driver\<close>

lemma apply_terminal: "rfold applyToolCallDelta cs st = Inr st' \<Longrightarrow> oa_terminal st' = oa_terminal st"
proof (induction cs arbitrary: st)
  case (Cons c cs)
  then obtain s1 where one: "applyToolCallDelta c st = Inr s1" and "rfold applyToolCallDelta cs s1 = Inr st'" by auto
  from this(2) have "oa_terminal st' = oa_terminal s1" by (rule Cons.IH)
  also have "\<dots> = oa_terminal st" using one by (auto simp: applyToolCallDelta_def Let_def split: if_splits)
  finally show ?case .
qed simp

lemma batch_open: "rfold batch_call cs acc = Inr acc' \<Longrightarrow> open_events (snd acc) \<Longrightarrow> open_events (snd acc')"
  by (erule rfold_invariant [where P = "\<lambda>a. open_events (snd a)"])
    (auto simp: batch_call_def Let_def split: option.splits if_splits)

lemma finish_open:
  "handleFinishReason st r = Inr (es, st') \<Longrightarrow> open_events es \<and> oa_terminal st' = oa_terminal st"
  by (auto simp: handleFinishReason_def emitToolCalls_def Let_def split: if_splits dest!: batch_open)

lemma delta_open: "handleDelta st d = Inr (es, st') \<Longrightarrow> open_events es \<and> oa_terminal st' = oa_terminal st"
  by (auto simp: handleDelta_def Let_def split: if_splits dest!: apply_terminal)

lemma choices_open:
  assumes "handleChoices st cs = Inr (es, st')"
  shows "open_events es \<and> oa_terminal st' = oa_terminal st"
proof (cases "as_arr cs")
  case Nil
  with assms show ?thesis by (auto simp: handleChoices_def split: if_splits)
next
  case (Cons choice rest)
  have "rest = []" using assms Cons by (cases rest) (auto simp: handleChoices_def split: if_splits)
  with assms Cons show ?thesis
    by (auto simp: handleChoices_def Let_def split: if_splits dest!: delta_open finish_open)
qed

lemma payload_shape:
  assumes "openai_payload st p = Inr (es, st')" and "\<not> oa_terminal st"
  shows "if oa_terminal st' then \<exists>c. es = [streamErrorEvent c] else open_events es"
proof (cases "nullish (field p ''error'')")
  case False
  with assms show ?thesis by (auto simp: openai_payload_def)
next
  case True
  with assms obtain cs s1 us where
      c: "(if field p ''choices'' = JUndef then Inr ([], st) else handleChoices st (field p ''choices'')) = Inr (cs, s1)"
    and u: "handleUsage s1 (field p ''usage'') = Inr (us, st')" and es: "es = cs @ us"
    by (auto simp: openai_payload_def Let_def split: if_splits)
  have "open_events cs \<and> oa_terminal s1 = oa_terminal st"
    using c choices_open by (auto split: if_splits)
  moreover have "open_events us"
    using usage_step [OF u] by (simp add: open_events_iff list_all_iff)
  ultimately show ?thesis using usage_step [OF u] assms(2) es by simp
qed

lemma done_step:
  "handleDone st = Inr (es, st') \<Longrightarrow> es = [MCompleted] \<and> st' = st\<lparr>oa_terminal := True\<rparr> \<and> oa_saw_finish st"
  by (auto simp: handleDone_def split: if_splits)

lemma openai_frame_cases:
  assumes "handleFrame openAIChatDecoder st f = Inr (es, st')"
  obtains (sentinel) "handleDone st = Inr (es, st')"
  | (chunk) p where "openai_payload st p = Inr (es, st')"
  using assms by (auto simp: openAIChatDecoder_def openai_frame_def split: if_splits)

lemma openai_frame_history:
  assumes "openai_history st h" and "\<not> oa_terminal st" and "handleFrame openAIChatDecoder st f = Inr (es, st')"
  shows "openai_history st' (h @ es)"
  using assms(3)
proof (cases rule: openai_frame_cases)
  case sentinel
  with done_step [OF sentinel] assms(1) show ?thesis
    by (auto simp: openai_history_def openai_inv_def stream_wf_tail)
next
  case (chunk p)
  with openai_step_history [OF assms(1,2)] show ?thesis .
qed

interpretation openai: frame_decoder_contract openAIChatDecoder
proof
  fix n
  show "\<not> isTerminal openAIChatDecoder (createState openAIChatDecoder n)"
    by (simp add: openAIChatDecoder_def initial_openai_def)
next
  fix st st' :: openai_state and f evs
  assume "\<not> isTerminal openAIChatDecoder st" and step: "handleFrame openAIChatDecoder st f = Inr (evs, st')"
  then have live: "\<not> oa_terminal st" by (simp add: openAIChatDecoder_def)
  have "if oa_terminal st' then ends_once evs else open_events evs"
    using step
  proof (cases rule: openai_frame_cases)
    case sentinel
    with done_step [OF sentinel] show ?thesis by (simp add: ends_once_def)
  next
    case (chunk p)
    with payload_shape [OF chunk live] show ?thesis by auto
  qed
  then show "\<not> isTerminal openAIChatDecoder st' \<Longrightarrow> open_events evs"
    and "isTerminal openAIChatDecoder st' \<Longrightarrow> ends_once evs"
    by (simp_all add: openAIChatDecoder_def)
next
  fix st evs
  assume "finishStream openAIChatDecoder st = Inr evs"
  then show "ends_once evs" by (simp add: openAIChatDecoder_def)
qed

interpretation openai: decoder_history openAIChatDecoder openai_history stream_wf
proof
  fix n
  show "openai_history (createState openAIChatDecoder n) []"
    by (simp add: openAIChatDecoder_def openai_history_def inv_initial stream_wf_def)
next
  fix st st' :: openai_state and h f evs
  assume "openai_history st h" and "\<not> isTerminal openAIChatDecoder st"
    and "handleFrame openAIChatDecoder st f = Inr (evs, st')"
  then show "openai_history st' (h @ evs)"
    by (intro openai_frame_history) (simp_all add: openAIChatDecoder_def)
next
  fix st h evs
  assume "finishStream openAIChatDecoder st = Inr evs"
  then show "stream_wf (h @ evs)" by (simp add: openAIChatDecoder_def)
next
  fix st h
  assume "openai_history st h"
  then show "stream_wf h" by (simp add: openai_history_def)
qed (fact stream_wf_prefix stream_wf_error)+

section \<open>Reassembly of an answer\<close>

text \<open>
  A call is announced once, with its index, id and name; its argument text follows in fragments,
  those of different calls in any order.
\<close>

record announced_call =
  ac_index :: nat
  ac_id :: string
  ac_name :: string

definition chunk :: "(string \<times> jsval) list \<Rightarrow> jsval" where
  "chunk choice = JObj [(''choices'', JArr [JObj ((''index'', JNum (Fin 0)) # choice)])]"

definition text_chunk :: "string \<Rightarrow> jsval" where
  "text_chunk t = chunk [(''delta'', JObj [(''content'', JStr t)]), (''finish_reason'', JNull)]"

definition call_chunk :: "(string \<times> jsval) list \<Rightarrow> jsval" where
  "call_chunk call = chunk [(''delta'', JObj [(''tool_calls'', JArr [JObj call])]), (''finish_reason'', JNull)]"

definition announce_chunk :: "announced_call \<Rightarrow> jsval" where
  "announce_chunk c =
     call_chunk [(''index'', JNum (jsnat (ac_index c))), (''id'', JStr (ac_id c)), (''type'', JStr ''function''),
                 (''function'', JObj [(''name'', JStr (ac_name c)), (''arguments'', JStr [])])]"

definition fragment_chunk :: "nat \<times> string \<Rightarrow> jsval" where
  "fragment_chunk f =
     call_chunk [(''index'', JNum (jsnat (fst f))), (''function'', JObj [(''arguments'', JStr (snd f))])]"

definition finish_chunk :: "string \<Rightarrow> jsval" where
  "finish_chunk reason = chunk [(''delta'', JObj []), (''finish_reason'', JStr reason)]"

definition usage_chunk :: "nat \<Rightarrow> nat \<Rightarrow> jsval" where
  "usage_chunk p c =
     JObj [(''choices'', JArr []),
           (''usage'', JObj [(''prompt_tokens'', JNum (jsnat p)), (''completion_tokens'', JNum (jsnat c))])]"

definition openai_answer ::
  "string list \<Rightarrow> announced_call list \<Rightarrow> (nat \<times> string) list \<Rightarrow> nat \<Rightarrow> nat \<Rightarrow> jsval list"
where
  "openai_answer texts calls frags p c =
     map text_chunk texts @ map announce_chunk calls @ map fragment_chunk frags
     @ [finish_chunk ''tool_calls'', usage_chunk p c]"

definition fragments_at :: "nat \<Rightarrow> (nat \<times> string) list \<Rightarrow> string list" where
  "fragments_at i frags = map snd (filter (\<lambda>f. fst f = i) frags)"

definition answer_ok :: "nat \<Rightarrow> announced_call list \<Rightarrow> (nat \<times> string) list \<Rightarrow> bool" where
  "answer_ok n calls frags \<longleftrightarrow>
     distinct (map ac_index calls) \<and> distinct (map ac_id calls)
     \<and> list_all (\<lambda>c. ac_id c \<noteq> [] \<and> ac_name c \<noteq> [] \<and> ac_index c \<le> 9007199254740991
          \<and> length (concat (fragments_at (ac_index c) frags)) \<le> n
          \<and> is_ok (fragments_input (fragments_at (ac_index c) frags))) calls
     \<and> list_all (\<lambda>f. fst f \<in> set (map ac_index calls)) frags"

definition expected_call :: "(nat \<times> string) list \<Rightarrow> announced_call \<Rightarrow> model_event" where
  "expected_call frags c =
     MToolCall (JStr (ac_id c)) (JStr (ac_name c))
       (case fragments_input (fragments_at (ac_index c) frags) of Inl _ \<Rightarrow> JUndef | Inr v \<Rightarrow> v)"

text \<open>The decoder over payloads that do not end the stream.\<close>

fun run_chunks_of :: "openai_state \<Rightarrow> jsval list \<Rightarrow> openai_step" where
  "run_chunks_of st [] = Inr ([], st)"
| "run_chunks_of st (p # ps) =
     rbind (openai_payload st p) (\<lambda>(es, st'). rbind (run_chunks_of st' ps) (\<lambda>(fs, st''). Inr (es @ fs, st'')))"

lemma run_chunks_append:
  "run_chunks_of st (ps @ qs) =
     rbind (run_chunks_of st ps) (\<lambda>(es, st'). rbind (run_chunks_of st' qs) (\<lambda>(fs, st''). Inr (es @ fs, st'')))"
  by (induction ps arbitrary: st) (auto simp: rbind_def split: sum.splits)

definition call_entry :: "announced_call \<Rightarrow> string \<Rightarrow> jsnum \<times> tool_call_state" where
  "call_entry c s =
     (jsnat (ac_index c),
      \<lparr>tc_index = jsnat (ac_index c), tc_id = Some (ac_id c), tc_name = Some (ac_name c), tc_args = s, tc_bytes = length s\<rparr>)"

lemma index_ok: "i \<le> 9007199254740991 \<Longrightarrow> isNonNegativeInteger (JNum (jsnat i))"
  by (simp add: isNonNegativeInteger_def jsnat_def max_safe_integer_def)

lemma text_run:
  "\<not> oa_saw_finish st \<Longrightarrow>
     run_chunks_of st (map text_chunk ts) = Inr (map MTextDelta (filter (\<lambda>t. t \<noteq> []) ts), st)"
proof (induction ts)
  case (Cons t ts)
  then have "openai_payload st (text_chunk t) = Inr (if t = [] then [] else [MTextDelta t], st)"
    by (simp add: openai_payload_def text_chunk_def chunk_def handleChoices_def handleDelta_def handleUsage_def nullish_def)
  with Cons show ?case by simp
qed simp

lemma call_chunk_step:
  assumes "\<not> oa_saw_finish st" and "applyToolCallDelta (JObj call) st = Inr st'"
  shows "openai_payload st (call_chunk call) = Inr ([], st')"
  using assms
  by (simp add: openai_payload_def call_chunk_def chunk_def handleChoices_def handleDelta_def handleUsage_def nullish_def)

lemma announce_run:
  assumes "\<not> oa_saw_finish st" and "distinct (map fst (oa_calls st) @ map (\<lambda>c. jsnat (ac_index c)) cs)"
    and "list_all (\<lambda>c. ac_id c \<noteq> [] \<and> ac_name c \<noteq> [] \<and> ac_index c \<le> 9007199254740991) cs"
  shows "run_chunks_of st (map announce_chunk cs) =
    Inr ([], st\<lparr>oa_calls := oa_calls st @ map (\<lambda>c. call_entry c []) cs\<rparr>)"
  using assms
proof (induction cs arbitrary: st)
  case (Cons c cs)
  let ?st = "st\<lparr>oa_calls := oa_calls st @ [call_entry c []]\<rparr>"
  have "map_of (oa_calls st) (jsnat (ac_index c)) = None"
    using Cons.prems(2) by (auto simp: map_of_eq_None_iff)
  then have "openai_payload st (announce_chunk c) = Inr ([], ?st)"
    unfolding announce_chunk_def using Cons.prems
    by (intro call_chunk_step)
      (simp_all add: applyToolCallDelta_def index_ok update_call_def merge_name_def merge_args_def nullish_def
        fresh_call_def utf8ByteLength_def put_call_def call_entry_def Let_def)
  with Cons.IH [of ?st] Cons.prems show ?case by (simp add: call_entry_def)
qed simp

definition entries :: "(announced_call \<Rightarrow> string) \<Rightarrow> announced_call list \<Rightarrow> (jsnum \<times> tool_call_state) list" where
  "entries f cs = map (\<lambda>c. call_entry c (f c)) cs"

lemma entries_lookup:
  assumes "distinct (map ac_index cs)" and "c \<in> set cs"
  shows "map_of (entries f cs) (jsnat (ac_index c)) = Some (snd (call_entry c (f c)))"
proof -
  have "distinct (map fst (entries f cs))"
    using assms(1) by (auto simp: entries_def call_entry_def o_def distinct_map inj_on_def)
  moreover have "(jsnat (ac_index c), snd (call_entry c (f c))) \<in> set (entries f cs)"
    using assms(2) by (auto simp: entries_def call_entry_def)
  ultimately show ?thesis by simp
qed

lemma entries_put:
  assumes "distinct (map ac_index cs)" and "c \<in> set cs"
  shows "put_call (entries f cs) (jsnat (ac_index c)) (snd (call_entry c s)) = entries (f(c := s)) cs"
proof -
  have "map_of (entries f cs) (jsnat (ac_index c)) \<noteq> None" using entries_lookup [OF assms] by simp
  moreover have "ac_index c' = ac_index c \<longleftrightarrow> c' = c" if "c' \<in> set cs" for c'
    using assms that by (auto simp: distinct_map dest: inj_onD)
  ultimately show ?thesis
    by (auto simp: put_call_def entries_def call_entry_def)
qed

lemma fragments_run:
  assumes "\<not> oa_saw_finish st" and "oa_calls st = entries f cs" and "distinct (map ac_index cs)"
    and "list_all (\<lambda>g. fst g \<in> set (map ac_index cs)) frags"
    and "\<forall>c \<in> set cs. ac_index c \<le> 9007199254740991
      \<and> length (f c) + length (concat (fragments_at (ac_index c) frags)) \<le> oa_max_bytes st"
  shows "run_chunks_of st (map fragment_chunk frags) =
    Inr ([], st\<lparr>oa_calls := entries (\<lambda>c. f c @ concat (fragments_at (ac_index c) frags)) cs\<rparr>)"
  using assms
proof (induction frags arbitrary: st f)
  case Nil
  then show ?case by (simp add: fragments_at_def)
next
  case (Cons g frags)
  obtain c where c: "c \<in> set cs" and i: "fst g = ac_index c" using Cons.prems(4) by auto
  let ?f = "f(c := f c @ snd g)"
  let ?st = "st\<lparr>oa_calls := entries ?f cs\<rparr>"
  have size: "length (f c) + length (snd g) \<le> oa_max_bytes st"
    using Cons.prems(5) c by (auto simp: fragments_at_def i)
  have "snd (call_entry c (f c @ snd g)) =
      (snd (call_entry c (f c)))\<lparr>tc_bytes := length (f c) + length (snd g), tc_args := f c @ snd g\<rparr>"
    by (simp add: call_entry_def)
  with size have "update_call (oa_max_bytes st) (snd (call_entry c (f c)))
      (JObj [(''index'', JNum (jsnat (fst g))), (''function'', JObj [(''arguments'', JStr (snd g))])]) =
      Inr (snd (call_entry c (f c @ snd g)))"
    by (simp add: update_call_def merge_name_def merge_args_def nullish_def utf8ByteLength_def)
      (simp add: call_entry_def)
  then have step: "openai_payload st (fragment_chunk g) = Inr ([], ?st)"
    unfolding fragment_chunk_def using Cons.prems(1,2,3,5) c
    by (intro call_chunk_step)
      (simp_all add: applyToolCallDelta_def i index_ok Let_def entries_lookup entries_put)
  have same: "ac_index c' = ac_index c \<longleftrightarrow> c' = c" if "c' \<in> set cs" for c'
    using Cons.prems(3) c that by (auto simp: distinct_map dest: inj_onD)
  have "run_chunks_of ?st (map fragment_chunk frags) =
      Inr ([], ?st\<lparr>oa_calls := entries (\<lambda>c. ?f c @ concat (fragments_at (ac_index c) frags)) cs\<rparr>)"
  proof (rule Cons.IH [where f = ?f])
    show "\<forall>c' \<in> set cs. ac_index c' \<le> 9007199254740991
      \<and> length (?f c') + length (concat (fragments_at (ac_index c') frags)) \<le> oa_max_bytes ?st"
    proof
      fix c' assume c': "c' \<in> set cs"
      with Cons.prems(5) have "ac_index c' \<le> 9007199254740991"
        and "length (f c') + length (concat (fragments_at (ac_index c') (g # frags))) \<le> oa_max_bytes st"
        by blast+
      with same [OF c'] show "ac_index c' \<le> 9007199254740991
        \<and> length (?f c') + length (concat (fragments_at (ac_index c') frags)) \<le> oa_max_bytes ?st"
        by (cases "c' = c") (simp_all add: fragments_at_def i)
    qed
  qed (use Cons.prems in \<open>simp_all add: fun_upd_def\<close>)
  moreover have "entries (\<lambda>c. ?f c @ concat (fragments_at (ac_index c) frags)) cs =
      entries (\<lambda>c. f c @ concat (fragments_at (ac_index c) (g # frags))) cs"
    unfolding entries_def by (rule map_cong [OF refl]) (use same in \<open>auto simp: fragments_at_def i eq_commute [of "ac_index c"]\<close>)
  ultimately show ?case using step by simp
qed

lemma sort_key_map: "sort_key f (map g xs) = map g (sort_key (\<lambda>x. f (g x)) xs)"
proof -
  have "insort_key f (g x) (map g ys) = map g (insort_key (\<lambda>x. f (g x)) x ys)" for x ys
    by (induction ys) auto
  then show ?thesis by (induction xs) auto
qed

lemma batch_run:
  assumes "distinct (map ac_id cs)" and "JStr ` ids \<inter> JStr ` set (map ac_id cs) = {}"
    and "\<forall>c \<in> set cs. is_ok (fragments_input (fragments_at (ac_index c) frags))"
  shows "\<exists>ids'. rfold batch_call (map (\<lambda>c. snd (call_entry c (concat (fragments_at (ac_index c) frags)))) cs) (ids, es) =
    Inr (ids', es @ map (expected_call frags) cs)"
  using assms
proof (induction cs arbitrary: ids es)
  case (Cons c cs)
  obtain v where v: "fragments_input (fragments_at (ac_index c) frags) = Inr v"
    using Cons.prems(3) by (auto simp: is_ok_iff)
  have "ac_id c \<notin> ids" using Cons.prems(2) by auto
  with v have step: "batch_call (snd (call_entry c (concat (fragments_at (ac_index c) frags)))) (ids, es) =
      Inr (insert (ac_id c) ids, es @ [expected_call frags c])"
    by (auto simp: batch_call_def call_entry_def expected_call_def fragments_input_def Let_def split: if_splits)
  have "JStr ` insert (ac_id c) ids \<inter> JStr ` set (map ac_id cs) = {}"
    using Cons.prems(1,2) by auto
  from Cons.IH [OF _ this, of "es @ [expected_call frags c]"] Cons.prems(1,3) step show ?case by simp
qed simp

lemma openai_answer_run:
  assumes "answer_ok n calls frags" and "p \<le> 9007199254740991" and "c \<le> 9007199254740991"
  shows "\<exists>st'. run_chunks_of (initial_openai n) (openai_answer texts calls frags p c) =
      Inr (map MTextDelta (filter (\<lambda>t. t \<noteq> []) texts) @ map (expected_call frags) (sort_key ac_index calls)
           @ [MUsage (jsnat p) (jsnat c)], st')
    \<and> oa_saw_finish st' \<and> oa_tools_emitted st' \<and> \<not> oa_terminal st'"
proof -
  let ?s1 = "(initial_openai n)\<lparr>oa_calls := entries (\<lambda>_. []) calls\<rparr>"
  let ?s2 = "(initial_openai n)\<lparr>oa_calls := entries (\<lambda>c. concat (fragments_at (ac_index c) frags)) calls\<rparr>"
  let ?s3 = "?s2\<lparr>oa_saw_finish := True, oa_finish_reason := Some ''tool_calls'', oa_tools_emitted := True\<rparr>"
  let ?calls = "map (expected_call frags) (sort_key ac_index calls)"
  have ok: "distinct (map ac_index calls)" "distinct (map ac_id calls)"
    using assms(1) by (simp_all add: answer_ok_def)
  have texts: "run_chunks_of (initial_openai n) (map text_chunk texts) =
      Inr (map MTextDelta (filter (\<lambda>t. t \<noteq> []) texts), initial_openai n)"
    by (rule text_run) (simp add: initial_openai_def)
  have "distinct (map (\<lambda>c. jsnat (ac_index c)) calls)"
    using ok(1) by (auto simp: distinct_map inj_on_def)
  then have announce: "run_chunks_of (initial_openai n) (map announce_chunk calls) = Inr ([], ?s1)"
    using assms(1) by (subst announce_run) (auto simp: initial_openai_def answer_ok_def list_all_iff entries_def)
  have frags: "run_chunks_of ?s1 (map fragment_chunk frags) = Inr ([], ?s2)"
    using assms(1) ok(1)
    by (subst fragments_run [where f = "\<lambda>_. []" and cs = calls])
      (auto simp: initial_openai_def answer_ok_def list_all_iff)
  have sorted: "sort_key (\<lambda>c. num_nat (tc_index c)) (map snd (oa_calls ?s2)) =
      map (\<lambda>c. snd (call_entry c (concat (fragments_at (ac_index c) frags)))) (sort_key ac_index calls)"
    by (simp add: entries_def o_def sort_key_map call_entry_def)
  have "distinct (map ac_id (sort_key ac_index calls))"
    using ok(2) by (simp add: distinct_map)
  moreover have "\<forall>c \<in> set (sort_key ac_index calls). is_ok (fragments_input (fragments_at (ac_index c) frags))"
    using assms(1) by (simp add: answer_ok_def list_all_iff)
  ultimately obtain ids where "rfold batch_call (sort_key (\<lambda>c. num_nat (tc_index c)) (map snd (oa_calls ?s2))) ({}, []) =
      Inr (ids, ?calls)"
    using batch_run [of "sort_key ac_index calls" "{}" frags "[]"] unfolding sorted by auto
  then have finish: "openai_payload ?s2 (finish_chunk ''tool_calls'') = Inr (?calls, ?s3)"
    by (simp add: openai_payload_def finish_chunk_def chunk_def handleChoices_def handleDelta_def handleUsage_def
        nullish_def handleFinishReason_def emitToolCalls_def initial_openai_def)
  have usage: "openai_payload ?s3 (usage_chunk p c) =
      Inr ([MUsage (jsnat p) (jsnat c)], ?s3\<lparr>oa_prompt := Some (jsnat p), oa_completion := Some (jsnat c)\<rparr>)"
    using index_ok [OF assms(2)] index_ok [OF assms(3)]
    by (simp add: openai_payload_def usage_chunk_def handleChoices_def handleUsage_def nullish_def readTokenCount_def
        usage_events_def or_keep_def)
  show ?thesis
    by (simp add: openai_answer_def run_chunks_append texts announce frags finish usage) (simp add: initial_openai_def)
qed

section \<open>Properties\<close>

text \<open>
  Whatever bytes an OpenAI-compatible provider sends, however they are chunked, however the
  source ends and whenever the caller cancels, the decoded stream ends exactly once, carries only
  the fixed error texts, never repeats a tool call id, never emits a tool call whose input is not a
  finite JSON object or whose id or name is empty, and emits no text after a tool call.
\<close>

theorem openai_stream_well_formed:
  "ends_once (fst (decodeFrameStream openAIChatDecoder opts src sg))
   \<and> stream_wf (fst (decodeFrameStream openAIChatDecoder opts src sg))"
  using openai.decode_ends_once openai.decode_history by blast

lemma payload_terminal_stays:
  assumes "openai_payload st p = Inr (es, st')" and "oa_terminal st"
  shows "oa_terminal st'"
proof (cases "nullish (field p ''error'')")
  case False
  with assms show ?thesis by (auto simp: openai_payload_def)
next
  case True
  with assms obtain cs s1 us where
      c: "(if field p ''choices'' = JUndef then Inr ([], st) else handleChoices st (field p ''choices'')) = Inr (cs, s1)"
    and u: "handleUsage s1 (field p ''usage'') = Inr (us, st')"
    by (auto simp: openai_payload_def Let_def split: if_splits)
  have "oa_terminal s1 = oa_terminal st" using c choices_open by (auto split: if_splits)
  with usage_step [OF u] assms(2) show ?thesis by simp
qed

lemma run_terminal_stays: "run_chunks_of st ps = Inr (es, st') \<Longrightarrow> oa_terminal st \<Longrightarrow> oa_terminal st'"
proof (induction ps arbitrary: st es)
  case (Cons p ps)
  then obtain e1 s1 e2 where step: "openai_payload st p = Inr (e1, s1)" and "run_chunks_of s1 ps = Inr (e2, st')"
    by auto
  with Cons.IH payload_terminal_stays [OF step Cons.prems(2)] show ?case by simp
qed simp

lemma drain_chunks:
  assumes "list_all2 (\<lambda>f p. js_trim (ev_data f) \<noteq> done_sentinel \<and> parseJsonObjectFrame (ev_data f) = Inr p) fs ps"
    and "run_chunks_of st ps = Inr (es, st')" and "\<not> oa_terminal st'"
  shows "drain_frames openAIChatDecoder st fs None = (es, None, Some st')"
  using assms
proof (induction fs ps arbitrary: st es rule: list_all2_induct)
  case (Cons f fs p ps)
  from Cons.prems(1) obtain e1 s1 e2 where step: "openai_payload st p = Inr (e1, s1)"
    and rest: "run_chunks_of s1 ps = Inr (e2, st')" and es: "es = e1 @ e2" by auto
  with Cons.hyps have frame: "handleFrame openAIChatDecoder st f = Inr (e1, s1)"
    by (simp add: openAIChatDecoder_def openai_frame_def)
  have "\<not> isTerminal openAIChatDecoder s1"
    using run_terminal_stays [OF rest] Cons.prems(2) by (auto simp: openAIChatDecoder_def)
  moreover have "drain_frames openAIChatDecoder s1 fs None = (e2, None, Some st')"
    by (rule Cons.IH [OF rest Cons.prems(2)])
  ultimately show ?case using drain_step [OF frame, of fs] by (simp add: es then_emit_Some)
qed simp

text \<open>
  C13: an answer with texts and tool calls whose argument fragments arrive in any interleaving is
  decoded to its texts in order, one tool call per announced call in index order with the parsed
  concatenation of its own fragments, the usage and the completion; how the bytes are chunked and
  what follows \<open>[DONE]\<close> do not matter.
\<close>

theorem openai_reassembly:
  assumes "fst (feed_chunks (new_parser (opt_frame_bytes opts)) cs) = fs @ [last_frame] @ gs"
    and "list_all2 (\<lambda>f p. js_trim (ev_data f) \<noteq> done_sentinel \<and> parseJsonObjectFrame (ev_data f) = Inr p)
      fs (openai_answer texts calls frags p c)"
    and "js_trim (ev_data last_frame) = done_sentinel"
    and "answer_ok (opt_tool_bytes opts) calls frags" and "p \<le> 9007199254740991" and "c \<le> 9007199254740991"
  shows "fst (decodeFrameStream openAIChatDecoder opts (cs, end) None) =
    map MTextDelta (filter (\<lambda>t. t \<noteq> []) texts) @ map (expected_call frags) (sort_key ac_index calls)
    @ [MUsage (jsnat p) (jsnat c), MCompleted]"
proof -
  let ?es = "map MTextDelta (filter (\<lambda>t. t \<noteq> []) texts) @ map (expected_call frags) (sort_key ac_index calls)
    @ [MUsage (jsnat p) (jsnat c)]"
  obtain st' where run: "run_chunks_of (initial_openai (opt_tool_bytes opts)) (openai_answer texts calls frags p c) =
      Inr (?es, st')"
    and st': "oa_saw_finish st'" "oa_tools_emitted st'" "\<not> oa_terminal st'"
    using openai_answer_run [OF assms(4-6)] by blast
  have "handleFrame openAIChatDecoder st' last_frame = Inr ([MCompleted], st'\<lparr>oa_terminal := True\<rparr>)"
    using st' assms(3) by (simp add: openAIChatDecoder_def openai_frame_def handleDone_def)
  from drain_step [OF this, of "[]"]
  have "drain_frames openAIChatDecoder st' [last_frame] None = ([MCompleted], None, None)"
    by (simp add: openAIChatDecoder_def)
  moreover have "drain_frames openAIChatDecoder (initial_openai (opt_tool_bytes opts)) fs None = (?es, None, Some st')"
    by (rule drain_chunks [OF assms(2) run st'(3)])
  ultimately have "drain_frames openAIChatDecoder (initial_openai (opt_tool_bytes opts)) (fs @ [last_frame]) None =
      (?es @ [MCompleted], None, None)"
    by (simp add: drain_frames_append then_emit_Some del: drain_frames.simps)
  then have "drain_frames openAIChatDecoder (createState openAIChatDecoder (opt_tool_bytes opts)) (fs @ [last_frame]) None =
      (?es @ [MCompleted], None, None)"
    by (simp add: openAIChatDecoder_def)
  from decode_until_terminal [OF _ this] assms(1) show ?thesis by simp
qed

definition sample_chunks :: "jsval list" where
  "sample_chunks =
     openai_answer [''Hi'', []]
       [\<lparr>ac_index = 1, ac_id = ''a'', ac_name = ''ls''\<rparr>, \<lparr>ac_index = 0, ac_id = ''b'', ac_name = ''pwd''\<rparr>]
       [(1, ''{\"p\"''), (0, '' ''), (1, '': 1}'')] 3 5"

definition plain_event :: "string \<Rightarrow> event_text" where
  "plain_event d = \<lparr>tx_event = None, tx_id = None, tx_lines = [d]\<rparr>"

definition sample_events :: "event_text list" where
  "sample_events = map (\<lambda>v. plain_event (stringify_text v)) sample_chunks @ [plain_event '' [DONE]'']"

lemma openai_sample_fits: "list_all (event_text_ok 200 [LF]) sample_events"
  by code_simp

lemma openai_sample_parsed:
  "list_all2 (\<lambda>f p. js_trim (ev_data f) \<noteq> done_sentinel \<and> parseJsonObjectFrame (ev_data f) = Inr p)
     (map event_of (butlast sample_events))
     (openai_answer [''Hi'', []]
       [\<lparr>ac_index = 1, ac_id = ''a'', ac_name = ''ls''\<rparr>, \<lparr>ac_index = 0, ac_id = ''b'', ac_name = ''pwd''\<rparr>]
       [(1, ''{\"p\"''), (0, '' ''), (1, '': 1}'')] 3 5)"
  by code_simp

lemma openai_sample_call:
  "fragments_input [''{\"p\"'', '': 1}''] = Inr (JObj [(''p'', JNum (Fin 1))])" "fragments_input ['' ''] = Inr (JObj [])"
  by code_simp+

theorem openai_reassembly_witness:
  "fst (decodeFrameStream openAIChatDecoder \<lparr>opt_frame_bytes = 200, opt_tool_bytes = 20\<rparr>
     ([take 95 (concat (map (encode_event [LF]) sample_events)),
       drop 95 (concat (map (encode_event [LF]) sample_events))], SrcDone) None) =
   [MTextDelta ''Hi'', MToolCall (JStr ''b'') (JStr ''pwd'') (JObj []),
    MToolCall (JStr ''a'') (JStr ''ls'') (JObj [(''p'', JNum (Fin 1))]),
    MUsage (Fin 3) (Fin 5), MCompleted]"
proof -
  let ?opts = "\<lparr>opt_frame_bytes = 200, opt_tool_bytes = 20\<rparr>"
  let ?bytes = "concat (map (encode_event [LF]) sample_events)"
  have "concat [take 95 ?bytes, drop 95 ?bytes] = ?bytes" by simp
  moreover have "line_break [LF]" by (simp add: line_break_def)
  ultimately obtain p where "feed_chunks (new_parser 200) [take 95 ?bytes, drop 95 ?bytes] =
      (map event_of sample_events, Inr p)"
    using parse_encoded [OF _ openai_sample_fits] by blast
  moreover have "map event_of sample_events =
      map event_of (butlast sample_events) @ [event_of (plain_event '' [DONE]'')] @ []"
    by (simp add: sample_events_def)
  ultimately have frames: "fst (feed_chunks (new_parser (opt_frame_bytes ?opts)) [take 95 ?bytes, drop 95 ?bytes]) =
      map event_of (butlast sample_events) @ [event_of (plain_event '' [DONE]'')] @ []"
    by (simp del: feed_chunks.simps)
  have "js_trim (ev_data (event_of (plain_event '' [DONE]''))) = done_sentinel" by code_simp
  from openai_reassembly [OF frames openai_sample_parsed this, of SrcDone]
  show ?thesis
    by (simp add: answer_ok_def fragments_at_def openai_sample_call expected_call_def jsnat_def)
qed

lemma decoding_chunk_independence_witness:
  "fst (decodeFrameStream openAIChatDecoder \<lparr>opt_frame_bytes = 50, opt_tool_bytes = 9\<rparr> ([''data: '', ''x''], SrcDone) None) =
   fst (decodeFrameStream openAIChatDecoder \<lparr>opt_frame_bytes = 50, opt_tool_bytes = 9\<rparr> ([''d'', ''ata: x''], SrcDone) None)"
  by (rule decoding_chunk_independence) simp

end
