(* ===== verification/Request_Encoding.thy ===== *)
theory Request_Encoding
  imports Adapter_Common
begin

text \<open>
  \<open>packages/model-gateway/src/adapters\<close>: \<open>request-validation.ts\<close>,
  \<open>anthropic-request.ts\<close> and \<open>openai-chat-request.ts\<close>.  The encoders take the raw request,
  validate it and read it through the casts of theory \<open>Contracts\<close>; \<open>structuredClone\<close> of a
  JSON value is the value.
\<close>

section \<open>The protocol subset\<close>

definition runSharedValidation :: "jsval \<Rightarrow> adapter_code + unit" where
  "runSharedValidation v =
     (case validateModelRequest v of Inl _ \<Rightarrow> Inl InvalidAdapterRequest | Inr _ \<Rightarrow> Inr ())"

fun isBlockAllowedForRole :: "agent_role \<Rightarrow> nat \<Rightarrow> content_block \<Rightarrow> bool" where
  "isBlockAllowedForRole System index (TextBlock _) = (index = 0)"
| "isBlockAllowedForRole User index (TextBlock _) = True"
| "isBlockAllowedForRole Assistant index (TextBlock _) = True"
| "isBlockAllowedForRole Assistant index (ToolCallBlock _ _ _) = True"
| "isBlockAllowedForRole Tool index (ToolResultBlock _ _ _) = True"
| "isBlockAllowedForRole _ _ _ = False"

definition check_block :: "agent_role \<Rightarrow> nat \<Rightarrow> content_block \<Rightarrow> adapter_code + unit" where
  "check_block r index b =
     (if \<not> isBlockAllowedForRole r index b then Inl InvalidAdapterRequest
      else (case b of
              ToolResultBlock _ _ e \<Rightarrow>
                if e \<noteq> JUndef \<and> \<not> is_bool e then Inl InvalidAdapterRequest else Inr ()
            | _ \<Rightarrow> Inr ()))"

definition assertRoleBlockShape :: "agent_message list \<Rightarrow> adapter_code + unit" where
  "assertRoleBlockShape ms =
     rall (\<lambda>(index, m). rall (check_block (role m) index) (content m)) (zip [0..<length ms] ms)"

definition assertToolArgumentObjects :: "agent_message list \<Rightarrow> adapter_code + unit" where
  "assertToolArgumentObjects ms =
     rall (\<lambda>m. rall (\<lambda>b. case b of
         ToolCallBlock _ _ input \<Rightarrow> if \<not> isPlainObject input then Inl UnsupportedAdapterInput else Inr ()
       | _ \<Rightarrow> Inr ()) (content m)) ms"

definition assertToolSchemas :: "tool_definition list \<Rightarrow> adapter_code + unit" where
  "assertToolSchemas ts =
     rall (\<lambda>t. if \<not> isPlainObject (tool_schema t) then Inl UnsupportedAdapterInput
               else if field (tool_schema t) ''type'' \<noteq> JStr ''object'' then Inl UnsupportedAdapterInput
               else Inr ()) ts"

text \<open>\<open>assertToolCorrelation\<close>: the state is \<open>pending\<close> and \<open>settled\<close>.\<close>

type_synonym correlation = "string set \<times> string set"

definition correlate_call :: "content_block \<Rightarrow> correlation \<Rightarrow> adapter_code + correlation" where
  "correlate_call b st =
     (case b of
        ToolCallBlock i _ _ \<Rightarrow>
          if i \<in> fst st \<or> i \<in> snd st then Inl InvalidAdapterRequest
          else Inr (insert i (fst st), snd st)
      | _ \<Rightarrow> Inr st)"

definition correlate_result :: "content_block \<Rightarrow> correlation \<Rightarrow> adapter_code + correlation" where
  "correlate_result b st =
     (case b of
        ToolResultBlock i _ _ \<Rightarrow>
          if i \<notin> fst st then Inl InvalidAdapterRequest
          else Inr (fst st - {i}, insert i (snd st))
      | _ \<Rightarrow> Inr st)"

definition correlate_message :: "agent_message \<Rightarrow> correlation \<Rightarrow> adapter_code + correlation" where
  "correlate_message m st =
     (if (role m = User \<or> role m = Assistant) \<and> fst st \<noteq> {} then Inl InvalidAdapterRequest
      else if role m = Assistant then rfold correlate_call (content m) st
      else if role m = Tool then rfold correlate_result (content m) st
      else Inr st)"

definition assertToolCorrelation :: "agent_message list \<Rightarrow> adapter_code + unit" where
  "assertToolCorrelation ms =
     rbind (rfold correlate_message ms ({}, {})) (\<lambda>st.
     if fst st \<noteq> {} then Inl InvalidAdapterRequest else Inr ())"

definition assertAdapterRequest :: "jsval \<Rightarrow> adapter_code + unit" where
  "assertAdapterRequest v =
     rbind (runSharedValidation v) (\<lambda>_.
     let typed = as_request v in
     rbind (assertRoleBlockShape (messages typed)) (\<lambda>_.
     rbind (assertToolArgumentObjects (messages typed)) (\<lambda>_.
     rbind (assertToolSchemas (tools typed)) (\<lambda>_.
     assertToolCorrelation (messages typed)))))"

section \<open>Anthropic Messages\<close>

text \<open>The loop of \<open>contentBlocks\<close>; the second argument is \<open>pendingText\<close>.\<close>

definition text_block :: "string \<Rightarrow> jsval" where
  "text_block t = JObj [(''type'', JStr ''text''), (''text'', JStr t)]"

definition flush_text :: "string list \<Rightarrow> jsval list" where
  "flush_text ts = (if ts = [] then [] else [text_block (concat ts)])"

fun contentBlocks :: "content_block list \<Rightarrow> string list \<Rightarrow> jsval list" where
  "contentBlocks [] pending = flush_text pending"
| "contentBlocks (TextBlock t # bs) pending = contentBlocks bs (pending @ [t])"
| "contentBlocks (ToolCallBlock i nm input # bs) pending =
     flush_text pending
     @ JObj [(''type'', JStr ''tool_use''), (''id'', JStr i), (''name'', JStr nm), (''input'', input)]
     # contentBlocks bs []"
| "contentBlocks (ToolResultBlock _ _ _ # bs) pending = flush_text pending @ contentBlocks bs []"

fun toolResultBlocks :: "content_block list \<Rightarrow> jsval list" where
  "toolResultBlocks [] = []"
| "toolResultBlocks (ToolResultBlock i c e # bs) =
     JObj ([(''type'', JStr ''tool_result''), (''tool_use_id'', JStr i), (''content'', JStr c)]
           @ (if e \<noteq> JUndef then [(''is_error'', e)] else []))
     # toolResultBlocks bs"
| "toolResultBlocks (_ # bs) = toolResultBlocks bs"

fun textOf :: "content_block list \<Rightarrow> string" where
  "textOf [] = []"
| "textOf (TextBlock t # bs) = t @ textOf bs"
| "textOf (_ # bs) = textOf bs"

definition encode_anthropic_tools :: "model_request \<Rightarrow> jsval list" where
  "encode_anthropic_tools r =
     map (\<lambda>t. JObj [(''name'', JStr (tool_name t)), (''description'', JStr (tool_description t)),
                    (''input_schema'', tool_schema t)]) (tools r)"

type_synonym role_group = "string \<times> jsval list"

definition push_group :: "role_group list \<Rightarrow> string \<Rightarrow> jsval list \<Rightarrow> role_group list" where
  "push_group gs r encoded =
     (if gs \<noteq> [] \<and> fst (last gs) = r then butlast gs @ [(r, snd (last gs) @ encoded)]
      else gs @ [(r, encoded)])"

definition message_group :: "agent_message \<Rightarrow> string \<times> jsval list" where
  "message_group m =
     (if role m = Assistant then ''assistant'' else ''user'',
      if role m = Tool then toolResultBlocks (content m) else contentBlocks (content m) [])"

text \<open>One iteration over the messages; the state is \<open>systemText\<close> and \<open>groups\<close>.\<close>

definition group_message ::
  "string option \<times> role_group list \<Rightarrow> agent_message \<Rightarrow> string option \<times> role_group list"
where
  "group_message st m =
     (if role m = System then (Some (textOf (content m)), snd st)
      else (fst st, push_group (snd st) (fst (message_group m)) (snd (message_group m))))"

definition anthropic_body :: "model_request \<Rightarrow> jsval" where
  "anthropic_body r =
     (let st = foldl group_message (None, []) (messages r) in
      JObj ([(''model'', JStr (model r)), (''max_tokens'', JNum (maxTokens r)), (''stream'', JBool True),
             (''messages'', JArr (map (\<lambda>g. JObj [(''role'', JStr (fst g)), (''content'', JArr (snd g))]) (snd st)))]
            @ (case fst st of None \<Rightarrow> [] | Some t \<Rightarrow> [(''system'', JStr t)])
            @ (if tools r \<noteq> [] then [(''tools'', JArr (encode_anthropic_tools r))] else [])))"

definition encodeAnthropicMessagesRequest :: "jsval \<Rightarrow> adapter_code + jsval" where
  "encodeAnthropicMessagesRequest v =
     rbind (assertAdapterRequest v) (\<lambda>_. Inr (anthropic_body (as_request v)))"

section \<open>OpenAI Chat Completions\<close>

definition hasText :: "content_block list \<Rightarrow> bool" where
  "hasText bs \<longleftrightarrow> list_ex (\<lambda>b. case b of TextBlock _ \<Rightarrow> True | _ \<Rightarrow> False) bs"

definition encodeToolResultEnvelope :: "string \<Rightarrow> bool \<Rightarrow> string" where
  "encodeToolResultEnvelope c e = stringify_text (JObj [(''content'', JStr c), (''isError'', JBool e)])"

fun assistantToolCalls :: "content_block list \<Rightarrow> jsval list" where
  "assistantToolCalls [] = []"
| "assistantToolCalls (ToolCallBlock i nm input # bs) =
     JObj [(''id'', JStr i), (''type'', JStr ''function''),
           (''function'', JObj [(''name'', JStr nm), (''arguments'', JStr (stringify_text input))])]
     # assistantToolCalls bs"
| "assistantToolCalls (_ # bs) = assistantToolCalls bs"

fun toolMessages :: "content_block list \<Rightarrow> jsval list" where
  "toolMessages [] = []"
| "toolMessages (ToolResultBlock i c e # bs) =
     JObj [(''role'', JStr ''tool''), (''tool_call_id'', JStr i),
           (''content'', JStr (encodeToolResultEnvelope c (e = JBool True)))]
     # toolMessages bs"
| "toolMessages (_ # bs) = toolMessages bs"

definition encode_openai_message :: "agent_message \<Rightarrow> jsval list" where
  "encode_openai_message m =
     (if role m = Tool then toolMessages (content m)
      else if role m = Assistant then
        [JObj ([(''role'', JStr ''assistant''),
                (''content'', if hasText (content m) then JStr (textOf (content m)) else JNull)]
               @ (if assistantToolCalls (content m) \<noteq> [] then [(''tool_calls'', JArr (assistantToolCalls (content m)))]
                  else []))]
      else
        [JObj [(''role'', JStr (if role m = System then ''system'' else ''user'')),
               (''content'', JStr (textOf (content m)))]])"

definition encodeMessages :: "model_request \<Rightarrow> jsval list" where
  "encodeMessages r = concat (map encode_openai_message (messages r))"

definition encode_openai_tools :: "model_request \<Rightarrow> jsval list" where
  "encode_openai_tools r =
     map (\<lambda>t. JObj [(''type'', JStr ''function''),
                    (''function'', JObj [(''name'', JStr (tool_name t)), (''description'', JStr (tool_description t)),
                                         (''parameters'', tool_schema t)])]) (tools r)"

definition openai_token_limit_fields :: "string list" where
  "openai_token_limit_fields = [''max_tokens'', ''max_completion_tokens'']"

definition normalizeTokenLimitField :: "jsval \<Rightarrow> adapter_code + string" where
  "normalizeTokenLimitField v =
     (if v = JUndef then Inr ''max_tokens''
      else if \<not> is_string v \<or> as_str v \<notin> set openai_token_limit_fields then Inl InvalidAdapterOptions
      else Inr (as_str v))"

definition openai_body :: "model_request \<Rightarrow> string \<Rightarrow> jsval" where
  "openai_body r tokenLimitField =
     JObj ([(''model'', JStr (model r)), (''stream'', JBool True), (''n'', JNum (Fin 1)),
            (''stream_options'', JObj [(''include_usage'', JBool True)]),
            (tokenLimitField, JNum (maxTokens r)), (''messages'', JArr (encodeMessages r))]
           @ (if tools r \<noteq> [] then [(''tools'', JArr (encode_openai_tools r))] else []))"

definition encodeOpenAIChatRequest :: "jsval \<Rightarrow> string \<Rightarrow> adapter_code + jsval" where
  "encodeOpenAIChatRequest v tokenLimitField =
     rbind (assertAdapterRequest v) (\<lambda>_. Inr (openai_body (as_request v) tokenLimitField))"

section \<open>Tool correlation\<close>

fun answered_ids :: "content_block list \<Rightarrow> string list" where
  "answered_ids [] = []"
| "answered_ids (ToolResultBlock i _ _ # bs) = i # answered_ids bs"
| "answered_ids (_ # bs) = answered_ids bs"

definition role_shape :: "agent_message list \<Rightarrow> bool" where
  "role_shape ms \<longleftrightarrow>
     (\<forall>i < length ms. \<forall>b \<in> set (content (ms ! i)). isBlockAllowedForRole (role (ms ! i)) i b)"

lemma role_shape_check:
  assumes "assertRoleBlockShape ms = Inr u"
  shows "role_shape ms"
  unfolding role_shape_def
proof (intro allI impI ballI)
  fix i b assume i: "i < length ms" and b: "b \<in> set (content (ms ! i))"
  have "(i, ms ! i) \<in> set (zip [0..<length ms] ms)"
    using i by (auto simp: set_zip intro!: exI [of _ i])
  with assms b have "check_block (role (ms ! i)) i b = Inr ()"
    by (fastforce simp: assertRoleBlockShape_def rall_ok)
  then show "isBlockAllowedForRole (role (ms ! i)) i b"
    by (simp add: check_block_def split: if_splits)
qed

text \<open>The ids called and answered by a list of messages, by the roles that may do so.\<close>

definition issued :: "agent_message list \<Rightarrow> string list" where
  "issued ms = concat (map (\<lambda>m. if role m = Assistant then call_ids (content m) else []) ms)"

definition answered :: "agent_message list \<Rightarrow> string list" where
  "answered ms = concat (map (\<lambda>m. if role m = Tool then answered_ids (content m) else []) ms)"

definition correlation_inv :: "string list \<Rightarrow> string list \<Rightarrow> correlation \<Rightarrow> bool" where
  "correlation_inv is as st \<longleftrightarrow>
     fst st \<inter> snd st = {} \<and> set is = fst st \<union> snd st \<and> set as = snd st \<and> distinct is \<and> distinct as"

lemma correlate_calls:
  "rfold correlate_call bs st = Inr st' \<Longrightarrow> correlation_inv is as st \<Longrightarrow>
     correlation_inv (is @ call_ids bs) as st'"
proof (induction bs arbitrary: st "is")
  case (Cons b bs)
  then obtain s1 where one: "correlate_call b st = Inr s1" and rest: "rfold correlate_call bs s1 = Inr st'"
    by auto
  show ?case
  proof (cases b)
    case (ToolCallBlock i n v)
    with one Cons.prems(2) have "correlation_inv (is @ [i]) as s1"
      by (auto simp: correlate_call_def correlation_inv_def split: if_splits)
    from Cons.IH [OF rest this] ToolCallBlock show ?thesis by simp
  qed (use one Cons.IH [OF rest] Cons.prems(2) in \<open>auto simp: correlate_call_def\<close>)
qed simp

lemma correlate_results:
  "rfold correlate_result bs st = Inr st' \<Longrightarrow> correlation_inv is as st \<Longrightarrow>
     correlation_inv is (as @ answered_ids bs) st'"
proof (induction bs arbitrary: st as)
  case (Cons b bs)
  then obtain s1 where one: "correlate_result b st = Inr s1" and rest: "rfold correlate_result bs s1 = Inr st'"
    by auto
  show ?case
  proof (cases b)
    case (ToolResultBlock i c e)
    with one Cons.prems(2) have "correlation_inv is (as @ [i]) s1"
      by (auto simp: correlate_result_def correlation_inv_def split: if_splits)
    from Cons.IH [OF rest this] ToolResultBlock show ?thesis by simp
  qed (use one Cons.IH [OF rest] Cons.prems(2) in \<open>auto simp: correlate_result_def\<close>)
qed simp

lemma correlate_message_inv:
  assumes "correlate_message m st = Inr st'" and "correlation_inv is as st"
  shows "correlation_inv (is @ issued [m]) (as @ answered [m]) st'"
  using assms correlate_calls [of "content m" st st' "is" as] correlate_results [of "content m" st st' "is" as]
  by (cases "role m") (auto simp: correlate_message_def issued_def answered_def split: if_splits)

lemma correlate_messages_inv:
  "rfold correlate_message ms st = Inr st' \<Longrightarrow> correlation_inv is as st \<Longrightarrow>
     correlation_inv (is @ issued ms) (as @ answered ms) st'"
proof (induction ms arbitrary: st "is" as)
  case Nil
  then show ?case by (simp add: issued_def answered_def)
next
  case (Cons m ms)
  then obtain s1 where one: "correlate_message m st = Inr s1" and rest: "rfold correlate_message ms s1 = Inr st'"
    by auto
  from Cons.IH [OF rest correlate_message_inv [OF one Cons.prems(2)]] show ?case
    by (simp add: issued_def answered_def)
qed

text \<open>Before every user or assistant turn, and at the end, the answers are exactly the calls.\<close>

definition all_answered :: "agent_message list \<Rightarrow> bool" where
  "all_answered ms \<longleftrightarrow> distinct (issued ms) \<and> distinct (answered ms) \<and> set (issued ms) = set (answered ms)"

lemma correlation_sound:
  assumes "assertToolCorrelation ms = Inr u"
  shows "all_answered ms \<and> (\<forall>xs m ys. ms = xs @ m # ys \<and> (role m = User \<or> role m = Assistant) \<longrightarrow> all_answered xs)"
proof -
  obtain st where run: "rfold correlate_message ms ({}, {}) = Inr st" and last: "fst st = {}"
    using assms by (auto simp: assertToolCorrelation_def split: if_splits)
  have init: "correlation_inv [] [] ({}, {})" by (simp add: correlation_inv_def)
  have whole: "all_answered ms"
    using correlate_messages_inv [OF run init] last by (simp add: correlation_inv_def all_answered_def)
  have "all_answered xs" if ms: "ms = xs @ m # ys" and turn: "role m = User \<or> role m = Assistant" for xs m ys
  proof -
    obtain s1 s2 where "rfold correlate_message xs ({}, {}) = Inr s1" and "correlate_message m s1 = Inr s2"
      using run by (auto simp: ms rfold_append)
    with turn correlate_messages_inv [OF _ init, of xs s1] show ?thesis
      by (auto simp: correlate_message_def correlation_inv_def all_answered_def split: if_splits)
  qed
  with whole show ?thesis by blast
qed


section \<open>Reading an encoded request back\<close>

text \<open>Adjacent texts are one text; the rest of the conversation is kept block by block.\<close>

fun merge_text :: "string list \<Rightarrow> content_block list \<Rightarrow> content_block list" where
  "merge_text ts [] = (if ts = [] then [] else [TextBlock (concat ts)])"
| "merge_text ts (TextBlock t # bs) = merge_text (ts @ [t]) bs"
| "merge_text ts (b # bs) = (if ts = [] then [] else [TextBlock (concat ts)]) @ b # merge_text [] bs"

definition read_block :: "jsval \<Rightarrow> content_block" where
  "read_block v =
     (if field v ''type'' = JStr ''text'' then TextBlock (as_str (field v ''text''))
      else if field v ''type'' = JStr ''tool_use'' then
        ToolCallBlock (as_str (field v ''id'')) (as_str (field v ''name'')) (field v ''input'')
      else ToolResultBlock (as_str (field v ''tool_use_id'')) (as_str (field v ''content'')) (field v ''is_error''))"

definition no_results :: "content_block list \<Rightarrow> bool" where
  "no_results bs \<longleftrightarrow> list_all (\<lambda>b. case b of ToolResultBlock _ _ _ \<Rightarrow> False | _ \<Rightarrow> True) bs"

definition only_results :: "content_block list \<Rightarrow> bool" where
  "only_results bs \<longleftrightarrow> list_all (\<lambda>b. case b of ToolResultBlock _ _ _ \<Rightarrow> True | _ \<Rightarrow> False) bs"

lemma read_content_blocks: "no_results bs \<Longrightarrow> map read_block (contentBlocks bs ts) = merge_text ts bs"
proof (induction bs arbitrary: ts)
  case Nil
  then show ?case by (simp add: flush_text_def text_block_def read_block_def)
next
  case (Cons b bs)
  then have rest: "no_results bs" by (simp add: no_results_def)
  with Cons show ?case
    by (cases b) (simp_all add: no_results_def flush_text_def text_block_def read_block_def)
qed

lemma read_result_blocks: "only_results bs \<Longrightarrow> map read_block (toolResultBlocks bs) = bs"
proof (induction bs)
  case (Cons b bs)
  then show ?case by (cases b) (auto simp: only_results_def read_block_def)
qed simp

definition turn_blocks :: "agent_message \<Rightarrow> content_block list" where
  "turn_blocks m = (if role m = Tool then content m else merge_text [] (content m))"

definition group_blocks :: "role_group list \<Rightarrow> content_block list" where
  "group_blocks gs = concat (map (\<lambda>g. map read_block (snd g)) gs)"

definition groups_of :: "agent_message list \<Rightarrow> role_group list" where
  "groups_of ms = snd (foldl group_message (None, []) ms)"

lemma group_blocks_append: "group_blocks (xs @ ys) = group_blocks xs @ group_blocks ys"
  by (simp add: group_blocks_def)

lemma push_group_cases:
  obtains (joined) fs vs where "gs = fs @ [(r, vs)]" and "push_group gs r ws = fs @ [(r, vs @ ws)]"
  | (fresh) "gs = [] \<or> fst (last gs) \<noteq> r" and "push_group gs r ws = gs @ [(r, ws)]"
proof (cases gs rule: rev_cases)
  case Nil
  then show ?thesis using fresh by (simp add: push_group_def)
next
  case (snoc fs g)
  then show ?thesis
    using joined [of fs "snd g"] fresh by (cases "fst g = r") (auto simp: push_group_def)
qed

lemma push_group_blocks: "group_blocks (push_group gs r vs) = group_blocks gs @ map read_block vs"
  by (rule push_group_cases [of gs r vs]) (simp_all add: group_blocks_append, simp_all add: group_blocks_def)

lemma push_group_alternates:
  assumes "distinct_adj (map fst gs)"
  shows "distinct_adj (map fst (push_group gs r vs))"
  by (rule push_group_cases [of gs r vs]) (use assms in \<open>auto simp: distinct_adj_append_iff last_map\<close>)

lemma groups_fold:
  assumes "list_all (\<lambda>m. if role m = Tool then only_results (content m) else no_results (content m)) ms"
    and "distinct_adj (map fst (snd st))"
  shows "distinct_adj (map fst (snd (foldl group_message st ms)))
    \<and> group_blocks (snd (foldl group_message st ms)) =
        group_blocks (snd st) @ concat (map turn_blocks (filter (\<lambda>m. role m \<noteq> System) ms))"
  using assms
proof (induction ms arbitrary: st)
  case (Cons m ms)
  have "distinct_adj (map fst (snd (group_message st m)))"
    using Cons.prems(2) by (simp add: group_message_def push_group_alternates)
  moreover have "group_blocks (snd (group_message st m)) =
      group_blocks (snd st) @ (if role m = System then [] else turn_blocks m)"
    using Cons.prems(1)
    by (simp add: group_message_def push_group_blocks message_group_def turn_blocks_def read_result_blocks
        read_content_blocks)
  ultimately show ?case using Cons.IH [of "group_message st m"] Cons.prems(1) by simp
qed simp

lemma shape_results:
  assumes "role_shape ms"
  shows "list_all (\<lambda>m. if role m = Tool then only_results (content m) else no_results (content m)) ms"
proof -
  have "if role m = Tool then only_results (content m) else no_results (content m)"
    if member: "m \<in> set ms" for m
  proof -
    obtain i where i: "i < length ms" "m = ms ! i" using member by (auto simp: in_set_conv_nth)
    have allowed: "isBlockAllowedForRole (role m) i b" if "b \<in> set (content m)" for b
      using assms that i by (auto simp: role_shape_def)
    show ?thesis
    proof (cases "role m = Tool")
      case True
      have "case b of ToolResultBlock _ _ _ \<Rightarrow> True | _ \<Rightarrow> False" if "b \<in> set (content m)" for b
        using allowed [OF that] True by (cases b) simp_all
      with True show ?thesis by (simp add: only_results_def list_all_iff)
    next
      case False
      have "case b of ToolResultBlock _ _ _ \<Rightarrow> False | _ \<Rightarrow> True" if "b \<in> set (content m)" for b
        using allowed [OF that] False by (cases b; cases "role m") simp_all
      with False show ?thesis by (simp add: no_results_def list_all_iff)
    qed
  qed
  then show ?thesis by (simp add: list_all_iff)
qed

lemma assertAdapterRequest_parts:
  assumes "assertAdapterRequest v = Inr u"
  shows "request_wf (as_request v) \<and> role_shape (messages (as_request v))
    \<and> assertToolCorrelation (messages (as_request v)) = Inr u"
  using assms
  by (auto simp: assertAdapterRequest_def Let_def runSharedValidation_def role_shape_check
      split: sum.splits dest: validateModelRequest_wf)

text \<open>The ids of the calls and of the results in an encoded Chat Completions message list.\<close>

definition body_call_ids :: "jsval list \<Rightarrow> string list" where
  "body_call_ids vs = concat (map (\<lambda>v. map (\<lambda>c. as_str (field c ''id'')) (as_arr (field v ''tool_calls''))) vs)"

definition body_result_ids :: "jsval list \<Rightarrow> string list" where
  "body_result_ids vs =
     concat (map (\<lambda>v. if field v ''role'' = JStr ''tool'' then [as_str (field v ''tool_call_id'')] else []) vs)"

lemma tool_calls_ids: "map (\<lambda>c. as_str (field c ''id'')) (assistantToolCalls bs) = call_ids bs"
  by (induction bs rule: assistantToolCalls.induct) simp_all

lemma tool_messages_ids: "body_result_ids (toolMessages bs) = answered_ids bs \<and> body_call_ids (toolMessages bs) = []"
  by (induction bs rule: toolMessages.induct) (simp_all add: body_result_ids_def body_call_ids_def)

lemma openai_message_ids:
  "body_call_ids (encode_openai_message m) = (if role m = Assistant then call_ids (content m) else [])
   \<and> body_result_ids (encode_openai_message m) = (if role m = Tool then answered_ids (content m) else [])"
  using tool_messages_ids [of "content m"] tool_calls_ids [of "content m"]
  by (auto simp: encode_openai_message_def body_call_ids_def body_result_ids_def)

lemma openai_ids:
  "body_call_ids (encodeMessages r) = issued (messages r) \<and> body_result_ids (encodeMessages r) = answered (messages r)"
proof -
  have app: "body_call_ids (xs @ ys) = body_call_ids xs @ body_call_ids ys"
    "body_result_ids (xs @ ys) = body_result_ids xs @ body_result_ids ys" for xs ys
    by (simp_all add: body_call_ids_def body_result_ids_def)
  have "body_call_ids (concat (map encode_openai_message ms)) = issued ms
      \<and> body_result_ids (concat (map encode_openai_message ms)) = answered ms" for ms
    by (induction ms)
      (auto simp: app openai_message_ids issued_def answered_def, simp_all add: body_call_ids_def body_result_ids_def)
  then show ?thesis by (simp add: encodeMessages_def)
qed

section \<open>Properties\<close>

text \<open>
  A request that the adapters accept has tool calls and results that match one to one: before
  every user or assistant turn and at the end of the history, the calls issued so far are pairwise
  distinct and are exactly the calls answered so far, each answered once.
\<close>

theorem accepted_calls_are_answered:
  assumes "assertAdapterRequest v = Inr ()"
  shows "all_answered (messages (as_request v))
    \<and> (\<forall>xs m ys. messages (as_request v) = xs @ m # ys \<and> (role m = User \<or> role m = Assistant) \<longrightarrow> all_answered xs)"
  using assertAdapterRequest_parts [OF assms] correlation_sound by blast

definition tool_turn_request :: jsval where
  "tool_turn_request =
     request_value
       \<lparr>requestId = ''q'', routeId = ''r'', model = ''m'',
        messages =
          [\<lparr>role = User, content = [TextBlock ''a'', TextBlock ''b'']\<rparr>,
           \<lparr>role = Assistant, content = [TextBlock ''c'', ToolCallBlock ''i'' ''ls'' (JObj [])]\<rparr>,
           \<lparr>role = Tool, content = [ToolResultBlock ''i'' ''ok'' JUndef]\<rparr>,
           \<lparr>role = User, content = [TextBlock ''d'']\<rparr>],
        tools = [], maxTokens = Fin 10\<rparr>"

theorem accepted_calls_are_answered_witness:
  "all_answered (messages (as_request tool_turn_request)) \<and> issued (messages (as_request tool_turn_request)) = [''i'']"
proof
  have "assertAdapterRequest tool_turn_request = Inr ()" by code_simp
  from accepted_calls_are_answered [OF this] show "all_answered (messages (as_request tool_turn_request))" by blast
qed code_simp

text \<open>
  C39: the Anthropic body of an accepted request alternates between the two roles and loses nothing:
  read back, its blocks are the conversation without the system message, in order, with adjacent
  texts of a message joined.
\<close>

theorem anthropic_body_lossless:
  assumes "assertAdapterRequest v = Inr ()"
  shows "distinct_adj (map fst (groups_of (messages (as_request v))))
    \<and> group_blocks (groups_of (messages (as_request v))) =
        concat (map turn_blocks (filter (\<lambda>m. role m \<noteq> System) (messages (as_request v))))
    \<and> as_arr (field (anthropic_body (as_request v)) ''messages'') =
        map (\<lambda>g. JObj [(''role'', JStr (fst g)), (''content'', JArr (snd g))]) (groups_of (messages (as_request v)))"
proof -
  have "role_shape (messages (as_request v))" using assertAdapterRequest_parts [OF assms] by simp
  from groups_fold [OF shape_results [OF this], of "(None, [])"] show ?thesis
    by (simp add: groups_of_def group_blocks_def anthropic_body_def Let_def)
qed

theorem anthropic_body_lossless_witness:
  "distinct_adj (map fst (groups_of (messages (as_request tool_turn_request))))
   \<and> map fst (groups_of (messages (as_request tool_turn_request))) = [''user'', ''assistant'', ''user'']
   \<and> group_blocks (groups_of (messages (as_request tool_turn_request))) =
       [TextBlock ''ab'', TextBlock ''c'', ToolCallBlock ''i'' ''ls'' (JObj []), ToolResultBlock ''i'' ''ok'' JUndef, TextBlock ''d'']"
proof -
  have "assertAdapterRequest tool_turn_request = Inr ()" by code_simp
  from anthropic_body_lossless [OF this] have "distinct_adj (map fst (groups_of (messages (as_request tool_turn_request))))"
    by blast
  moreover have "map fst (groups_of (messages (as_request tool_turn_request))) = [''user'', ''assistant'', ''user'']
   \<and> group_blocks (groups_of (messages (as_request tool_turn_request))) =
       [TextBlock ''ab'', TextBlock ''c'', ToolCallBlock ''i'' ''ls'' (JObj []), ToolResultBlock ''i'' ''ok'' JUndef, TextBlock ''d'']"
    by code_simp
  ultimately show ?thesis by blast
qed

text \<open>
  In the Chat Completions body of an accepted request the tool call ids are pairwise distinct
  and every one of them is answered by exactly one tool message, none else.
\<close>

theorem openai_body_calls_answered:
  assumes "encodeOpenAIChatRequest v limit = Inr body" and "limit \<in> set openai_token_limit_fields"
  shows "distinct (body_call_ids (as_arr (field body ''messages'')))
    \<and> distinct (body_result_ids (as_arr (field body ''messages'')))
    \<and> set (body_call_ids (as_arr (field body ''messages''))) = set (body_result_ids (as_arr (field body ''messages'')))"
proof -
  have ok: "assertAdapterRequest v = Inr ()" and body: "body = openai_body (as_request v) limit"
    using assms(1) by (auto simp: encodeOpenAIChatRequest_def)
  have "as_arr (field body ''messages'') = encodeMessages (as_request v)"
    using assms(2) by (auto simp: body openai_body_def openai_token_limit_fields_def)
  moreover have "all_answered (messages (as_request v))"
    using assertAdapterRequest_parts [OF ok] correlation_sound by blast
  ultimately show ?thesis by (simp add: openai_ids all_answered_def)
qed

theorem openai_body_calls_answered_witness:
  "\<exists>body. encodeOpenAIChatRequest tool_turn_request ''max_tokens'' = Inr body
    \<and> body_call_ids (as_arr (field body ''messages'')) = [''i'']
    \<and> distinct (body_result_ids (as_arr (field body ''messages'')))"
proof -
  let ?r = "encodeOpenAIChatRequest tool_turn_request ''max_tokens''"
  have "is_ok ?r" and ids: "body_call_ids (as_arr (field (projr ?r) ''messages'')) = [''i'']" by code_simp+
  then obtain body where body: "?r = Inr body" by (auto simp: is_ok_iff)
  have "''max_tokens'' \<in> set openai_token_limit_fields" by (simp add: openai_token_limit_fields_def)
  from openai_body_calls_answered [OF body this] ids show ?thesis by (simp add: body)
qed

end
