(* ===== verification/Registry_Types.thy ===== *)
theory Registry_Types
  imports Contracts
begin

text \<open>
  \<open>packages/provider-registry/src/types.ts\<close> and \<open>errors.ts\<close>: provider and route
  definitions, their validators, and the fixed error codes and messages.

  \<open>new URL(text)\<close> belongs to the platform: the validators take it as a parameter, a function
  from the text to the parts of the URL the code reads, or \<open>None\<close> where it throws.
\<close>

section \<open>Errors\<close>

datatype registry_error =
    InvalidProviderId
  | DuplicateProviderId
  | ProviderNotFound
  | ProviderDisabled
  | InvalidProviderName
  | InvalidProviderProtocol
  | InvalidProviderUrl
  | InvalidProviderModels
  | InvalidProviderEnabled
  | ForbiddenProviderField
  | InvalidCredentialRef
  | InvalidCredentialValue
  | InvalidCredentialStore
  | CredentialBackendFailed
  | InvalidRouteId
  | DuplicateRouteId
  | RouteNotFound
  | RouteDisabled
  | InvalidRouteName
  | InvalidRouteModel
  | InvalidRouteEnabled
  | ForbiddenRouteField
  | InvalidFallbackProviderIds
  | DuplicateFallbackProviderId
  | FallbackProviderNotFound
  | FallbackModelNotAvailable
  | TooManyFallbackProviders
  | ProviderHasRoutes
  | ModelNotAvailable
  | InvalidRegistrySnapshot

fun registry_code :: "registry_error \<Rightarrow> string" where
  "registry_code InvalidProviderId = ''invalid_provider_id''"
| "registry_code DuplicateProviderId = ''duplicate_provider_id''"
| "registry_code ProviderNotFound = ''provider_not_found''"
| "registry_code ProviderDisabled = ''provider_disabled''"
| "registry_code InvalidProviderName = ''invalid_provider_name''"
| "registry_code InvalidProviderProtocol = ''invalid_provider_protocol''"
| "registry_code InvalidProviderUrl = ''invalid_provider_url''"
| "registry_code InvalidProviderModels = ''invalid_provider_models''"
| "registry_code InvalidProviderEnabled = ''invalid_provider_enabled''"
| "registry_code ForbiddenProviderField = ''forbidden_provider_field''"
| "registry_code InvalidCredentialRef = ''invalid_credential_ref''"
| "registry_code InvalidCredentialValue = ''invalid_credential_value''"
| "registry_code InvalidCredentialStore = ''invalid_credential_store''"
| "registry_code CredentialBackendFailed = ''credential_backend_failed''"
| "registry_code InvalidRouteId = ''invalid_route_id''"
| "registry_code DuplicateRouteId = ''duplicate_route_id''"
| "registry_code RouteNotFound = ''route_not_found''"
| "registry_code RouteDisabled = ''route_disabled''"
| "registry_code InvalidRouteName = ''invalid_route_name''"
| "registry_code InvalidRouteModel = ''invalid_route_model''"
| "registry_code InvalidRouteEnabled = ''invalid_route_enabled''"
| "registry_code ForbiddenRouteField = ''forbidden_route_field''"
| "registry_code InvalidFallbackProviderIds = ''invalid_fallback_provider_ids''"
| "registry_code DuplicateFallbackProviderId = ''duplicate_fallback_provider_id''"
| "registry_code FallbackProviderNotFound = ''fallback_provider_not_found''"
| "registry_code FallbackModelNotAvailable = ''fallback_model_not_available''"
| "registry_code TooManyFallbackProviders = ''too_many_fallback_providers''"
| "registry_code ProviderHasRoutes = ''provider_has_routes''"
| "registry_code ModelNotAvailable = ''model_not_available''"
| "registry_code InvalidRegistrySnapshot = ''invalid_registry_snapshot''"

fun registry_message :: "registry_error \<Rightarrow> string" where
  "registry_message InvalidProviderId =
     ''Provider id must match ^[a-z][a-z0-9._-]{0,63}$.''"
| "registry_message DuplicateProviderId =
     ''A provider with this id is already registered.''"
| "registry_message ProviderNotFound =
     ''Provider is not registered.''"
| "registry_message ProviderDisabled =
     ''Provider is disabled.''"
| "registry_message InvalidProviderName =
     ''Provider name must be a non-empty string without leading or trailing whitespace.''"
| "registry_message InvalidProviderProtocol =
     ''Provider protocol must be anthropic_messages or openai_compatible.''"
| "registry_message InvalidProviderUrl =
     ''Provider baseUrl must be an absolute http or https URL without user info, query or hash.''"
| "registry_message InvalidProviderModels =
     ''Provider models must be a non-empty list of unique model names.''"
| "registry_message InvalidProviderEnabled =
     ''Provider enabled must be a boolean.''"
| "registry_message ForbiddenProviderField =
     ''Provider definition contains a field that is not allowed in user supplied configuration.''"
| "registry_message InvalidCredentialRef =
     ''credentialRef must be null or match ^credential:[a-z][a-z0-9._-]{0,63}$.''"
| "registry_message InvalidCredentialValue =
     ''Credential value is invalid.''"
| "registry_message InvalidCredentialStore =
     ''Credential store options are invalid.''"
| "registry_message CredentialBackendFailed =
     ''Credential operation failed.''"
| "registry_message InvalidRouteId =
     ''Route id must match ^[a-z][a-z0-9._-]{0,63}$.''"
| "registry_message DuplicateRouteId =
     ''A route with this id is already registered.''"
| "registry_message RouteNotFound =
     ''Route is not registered.''"
| "registry_message RouteDisabled =
     ''Route is disabled.''"
| "registry_message InvalidRouteName =
     ''Route name must be a non-empty string without leading or trailing whitespace.''"
| "registry_message InvalidRouteModel =
     ''Route model must be a non-empty model name.''"
| "registry_message InvalidRouteEnabled =
     ''Route enabled must be a boolean.''"
| "registry_message ForbiddenRouteField =
     ''Route definition contains a field that is not allowed in user supplied configuration.''"
| "registry_message InvalidFallbackProviderIds =
     ''Route fallbackProviderIds must be an ordered list of provider ids.''"
| "registry_message DuplicateFallbackProviderId =
     ''Route fallbackProviderIds must not repeat a provider or the primary provider.''"
| "registry_message FallbackProviderNotFound =
     ''A fallback provider is not registered.''"
| "registry_message FallbackModelNotAvailable =
     ''A fallback provider does not serve the model of the route.''"
| "registry_message TooManyFallbackProviders =
     ''Route fallbackProviderIds exceeds the supported number of fallbacks.''"
| "registry_message ProviderHasRoutes =
     ''Provider is still referenced by a route and cannot be removed.''"
| "registry_message ModelNotAvailable =
     ''Route model is not available on the referenced provider.''"
| "registry_message InvalidRegistrySnapshot =
     ''Registry state is inconsistent.''"

section \<open>Data\<close>

datatype provider_protocol = AnthropicMessages | OpenAICompatible

record provider_definition =
  pv_id :: string
  pv_name :: string
  pv_protocol :: provider_protocol
  pv_base_url :: string
  pv_credential :: "string option"
  pv_models :: "string list"
  pv_enabled :: bool

record route_definition =
  rt_id :: string
  rt_name :: string
  rt_provider :: string
  rt_model :: string
  rt_enabled :: bool
  rt_fallbacks :: "string list option"

record resolved_route =
  rr_route :: string
  rr_provider :: string
  rr_protocol :: provider_protocol
  rr_base_url :: string
  rr_model :: string
  rr_credential :: "string option"

record url_parts =
  url_protocol :: string
  url_username :: string
  url_password :: string

type_synonym url_parser = "string \<Rightarrow> url_parts option"

section \<open>Patterns\<close>

definition is_lower_letter :: "char \<Rightarrow> bool" where
  "is_lower_letter c \<longleftrightarrow> 97 \<le> (of_char c :: nat) \<and> (of_char c :: nat) \<le> 122"

definition is_id_char :: "char \<Rightarrow> bool" where
  "is_id_char c \<longleftrightarrow> is_lower_letter c \<or> is_digit c \<or> c = CHR ''.'' \<or> c = CHR ''_'' \<or> c = CHR ''-''"

text \<open>\<open>/^[a-z][a-z0-9._-]{0,63}$/\<close>.\<close>

definition matches_id :: "string \<Rightarrow> bool" where
  "matches_id s \<longleftrightarrow>
     (case s of [] \<Rightarrow> False | c # cs \<Rightarrow> is_lower_letter c \<and> list_all is_id_char cs \<and> length cs \<le> 63)"

text \<open>\<open>/^credential:[a-z][a-z0-9._-]{0,63}$/\<close>.\<close>

definition matches_credential_ref :: "string \<Rightarrow> bool" where
  "matches_credential_ref s \<longleftrightarrow>
     (case strip_prefix ''credential:'' s of None \<Rightarrow> False | Some r \<Rightarrow> matches_id r)"

definition provider_protocols :: "string list" where
  "provider_protocols = [''anthropic_messages'', ''openai_compatible'']"

definition forbidden_provider_fields :: "string list" where
  "forbidden_provider_fields =
     [''apikey'', ''api_key'', ''api-key'', ''token'', ''authorization'', ''headers'', ''secret'', ''password'',
      ''credential'', ''access_token'', ''accesstoken'', ''refresh_token'', ''refreshtoken'', ''client_secret'',
      ''clientsecret'', ''provider_secret'', ''providersecret'', ''bearer'', ''oauth'']"

definition forbidden_route_fields :: "string list" where
  "forbidden_route_fields =
     [''apikey'', ''api_key'', ''api-key'', ''token'', ''authorization'', ''headers'', ''secret'', ''password'',
      ''credential'', ''baseurl'', ''base_url'', ''endpoint'', ''access_token'', ''accesstoken'', ''refresh_token'',
      ''refreshtoken'', ''client_secret'', ''clientsecret'', ''bearer'', ''oauth'']"

text \<open>
  \<open>SECRET_LIKE_MODEL_PATTERNS\<close>, case-insensitive: the text is lowered first, ASCII letters only
  (without the \<open>u\<close> flag no other code point folds to an ASCII letter).
\<close>

definition is_alnum :: "char \<Rightarrow> bool" where
  "is_alnum c \<longleftrightarrow> is_lower_letter c \<or> is_digit c"

definition matches_bearer :: "string \<Rightarrow> bool" where
  "matches_bearer s \<longleftrightarrow>
     (case strip_prefix ''bearer'' s of
        None \<Rightarrow> False
      | Some r \<Rightarrow>
          strip_any ws_seqs r \<noteq> None \<and> trim_start_with ws_seqs r \<noteq> [] \<and> \<not> contains_ws (trim_start_with ws_seqs r))"

definition secret_like :: "string \<Rightarrow> bool" where
  "secret_like text =
     (let s = map ascii_lower text in
      (case strip_prefix ''sk-'' s of
         None \<Rightarrow> False
       | Some r \<Rightarrow> 8 \<le> length r \<and> list_all (\<lambda>c. is_alnum c \<or> c = CHR ''_'' \<or> c = CHR ''-'') r)
      \<or> (case s of
           g # h # k # u # r \<Rightarrow>
             g = CHR ''g'' \<and> h = CHR ''h'' \<and> k \<in> set ''pousr'' \<and> u = CHR ''_'' \<and> r \<noteq> [] \<and> list_all is_alnum r
         | _ \<Rightarrow> False)
      \<or> (case strip_prefix ''xox'' s of
           Some (k # d # _) \<Rightarrow> k \<in> set ''baprs'' \<and> d = CHR ''-''
         | _ \<Rightarrow> False)
      \<or> matches_bearer s
      \<or> s \<in> set [''apikey'', ''api_key'', ''api-key'', ''authorization'', ''token'', ''secret'', ''password''])"

definition max_route_fallbacks :: nat where
  "max_route_fallbacks = 4"

section \<open>Validators\<close>

definition hasForbiddenField :: "jsval \<Rightarrow> string list \<Rightarrow> bool" where
  "hasForbiddenField v forbidden \<longleftrightarrow> list_ex (\<lambda>key. to_lower key \<in> set forbidden) (obj_keys v)"

definition assertId :: "registry_error \<Rightarrow> jsval \<Rightarrow> registry_error + unit" where
  "assertId e v = (if \<not> is_string v \<or> \<not> matches_id (as_str v) then Inl e else Inr ())"

definition assertDisplayName :: "registry_error \<Rightarrow> jsval \<Rightarrow> registry_error + unit" where
  "assertDisplayName e v =
     (if \<not> is_string v \<or> as_str v = [] \<or> js_trim (as_str v) \<noteq> as_str v then Inl e else Inr ())"

text \<open>\<open>text.includes(part)\<close>.\<close>

fun includes_text :: "string \<Rightarrow> string \<Rightarrow> bool" where
  "includes_text part [] = (part = [])"
| "includes_text part (c # cs) = (strip_prefix part (c # cs) \<noteq> None \<or> includes_text part cs)"

definition assertModelName :: "registry_error \<Rightarrow> jsval \<Rightarrow> registry_error + unit" where
  "assertModelName e v =
     (if \<not> is_string v \<or> as_str v = [] \<or> contains_ws (as_str v) then Inl e
      else if includes_text ''://'' (as_str v) \<or> secret_like (as_str v) then Inl e
      else Inr ())"

definition assertCredentialRef :: "jsval \<Rightarrow> registry_error + unit" where
  "assertCredentialRef v =
     (if \<not> is_string v \<or> \<not> matches_credential_ref (as_str v) then Inl InvalidCredentialRef else Inr ())"

definition isValidCredentialRef :: "jsval \<Rightarrow> bool" where
  "isValidCredentialRef v \<longleftrightarrow> is_string v \<and> matches_credential_ref (as_str v)"

definition assertBaseUrl :: "url_parser \<Rightarrow> jsval \<Rightarrow> registry_error + unit" where
  "assertBaseUrl parse v =
     (if \<not> is_string v \<or> as_str v = [] \<or> contains_ws (as_str v) then Inl InvalidProviderUrl
      else if CHR ''?'' \<in> set (as_str v) \<or> CHR ''#'' \<in> set (as_str v) then Inl InvalidProviderUrl
      else (case parse (as_str v) of
              None \<Rightarrow> Inl InvalidProviderUrl
            | Some u \<Rightarrow>
                if url_protocol u \<noteq> ''http:'' \<and> url_protocol u \<noteq> ''https:'' then Inl InvalidProviderUrl
                else if url_username u \<noteq> [] \<or> url_password u \<noteq> [] then Inl InvalidProviderUrl
                else Inr ()))"

definition assertProtocol :: "jsval \<Rightarrow> registry_error + unit" where
  "assertProtocol v =
     (if \<not> is_string v \<or> as_str v \<notin> set provider_protocols then Inl InvalidProviderProtocol else Inr ())"

definition protocol_of :: "string \<Rightarrow> provider_protocol" where
  "protocol_of s = (if s = ''anthropic_messages'' then AnthropicMessages else OpenAICompatible)"

definition assertEnabled :: "registry_error \<Rightarrow> jsval \<Rightarrow> registry_error + unit" where
  "assertEnabled e v = (if \<not> is_bool v then Inl e else Inr ())"

definition validate_model :: "jsval \<Rightarrow> string set \<Rightarrow> registry_error + string set" where
  "validate_model v seen =
     rbind (assertModelName InvalidProviderModels v) (\<lambda>_.
     if as_str v \<in> seen then Inl InvalidProviderModels else Inr (insert (as_str v) seen))"

definition validateProviderDefinition :: "url_parser \<Rightarrow> jsval \<Rightarrow> registry_error + provider_definition" where
  "validateProviderDefinition parse input =
     (if \<not> isPlainObject input then Inl InvalidProviderId
      else if hasForbiddenField input forbidden_provider_fields then Inl ForbiddenProviderField
      else
        let cred = field input ''credentialRef''; models = field input ''models'' in
        rbind (assertId InvalidProviderId (field input ''id'')) (\<lambda>_.
        rbind (assertDisplayName InvalidProviderName (field input ''name'')) (\<lambda>_.
        rbind (assertProtocol (field input ''protocol'')) (\<lambda>_.
        rbind (assertBaseUrl parse (field input ''baseUrl'')) (\<lambda>_.
        rbind (if nullish cred then Inr () else assertCredentialRef cred) (\<lambda>_.
        if \<not> is_array models \<or> as_arr models = [] then Inl InvalidProviderModels
        else
          rbind (rfold validate_model (as_arr models) {}) (\<lambda>_.
          rbind (assertEnabled InvalidProviderEnabled (field input ''enabled'')) (\<lambda>_.
          Inr \<lparr>pv_id = as_str (field input ''id''), pv_name = as_str (field input ''name''),
               pv_protocol = protocol_of (as_str (field input ''protocol'')),
               pv_base_url = as_str (field input ''baseUrl''),
               pv_credential = (if nullish cred then None else Some (as_str cred)),
               pv_models = map as_str (as_arr models),
               pv_enabled = (field input ''enabled'' = JBool True)\<rparr>))))))))"

definition validate_fallback :: "jsval \<Rightarrow> string set \<Rightarrow> registry_error + string set" where
  "validate_fallback v seen =
     (if \<not> is_string v \<or> \<not> matches_id (as_str v) then Inl InvalidFallbackProviderIds
      else if secret_like (as_str v) then Inl InvalidFallbackProviderIds
      else if as_str v \<in> seen then Inl DuplicateFallbackProviderId
      else Inr (insert (as_str v) seen))"

definition assertFallbackProviderIds :: "jsval \<Rightarrow> string \<Rightarrow> registry_error + string list" where
  "assertFallbackProviderIds v primary =
     (if \<not> is_array v then Inl InvalidFallbackProviderIds
      else if max_route_fallbacks < length (as_arr v) then Inl TooManyFallbackProviders
      else rbind (rfold validate_fallback (as_arr v) {primary}) (\<lambda>_. Inr (map as_str (as_arr v))))"

definition validateRouteDefinition :: "jsval \<Rightarrow> registry_error + route_definition" where
  "validateRouteDefinition input =
     (if \<not> isPlainObject input then Inl InvalidRouteId
      else if hasForbiddenField input forbidden_route_fields then Inl ForbiddenRouteField
      else
        let providerId = field input ''providerId''; rawFallbacks = field input ''fallbackProviderIds'' in
        rbind (assertId InvalidRouteId (field input ''id'')) (\<lambda>_.
        rbind (assertDisplayName InvalidRouteName (field input ''name'')) (\<lambda>_.
        if \<not> is_string providerId \<or> as_str providerId = [] then Inl ProviderNotFound
        else
          rbind (assertModelName InvalidRouteModel (field input ''model'')) (\<lambda>_.
          rbind (assertEnabled InvalidRouteEnabled (field input ''enabled'')) (\<lambda>_.
          rbind (if rawFallbacks = JUndef then Inr None
                 else rbind (assertFallbackProviderIds rawFallbacks (as_str providerId)) (\<lambda>ids. Inr (Some ids))) (\<lambda>fallbacks.
          Inr \<lparr>rt_id = as_str (field input ''id''), rt_name = as_str (field input ''name''),
               rt_provider = as_str providerId, rt_model = as_str (field input ''model''),
               rt_enabled = (field input ''enabled'' = JBool True), rt_fallbacks = fallbacks\<rparr>))))))"

section \<open>What the validators establish\<close>

definition model_name_ok :: "string \<Rightarrow> bool" where
  "model_name_ok s \<longleftrightarrow> s \<noteq> [] \<and> \<not> contains_ws s \<and> \<not> includes_text ''://'' s \<and> \<not> secret_like s"

definition base_url_ok :: "url_parser \<Rightarrow> string \<Rightarrow> bool" where
  "base_url_ok parse s \<longleftrightarrow>
     s \<noteq> [] \<and> \<not> contains_ws s \<and> CHR ''?'' \<notin> set s \<and> CHR ''#'' \<notin> set s
     \<and> (\<exists>u. parse s = Some u \<and> (url_protocol u = ''http:'' \<or> url_protocol u = ''https:'')
            \<and> url_username u = [] \<and> url_password u = [])"

definition provider_wf :: "url_parser \<Rightarrow> provider_definition \<Rightarrow> bool" where
  "provider_wf parse p \<longleftrightarrow>
     matches_id (pv_id p) \<and> pv_name p \<noteq> [] \<and> js_trim (pv_name p) = pv_name p \<and> base_url_ok parse (pv_base_url p)
     \<and> (\<forall>r. pv_credential p = Some r \<longrightarrow> matches_credential_ref r)
     \<and> pv_models p \<noteq> [] \<and> distinct (pv_models p) \<and> list_all model_name_ok (pv_models p)"

definition fallbacks_of :: "route_definition \<Rightarrow> string list" where
  "fallbacks_of r = (case rt_fallbacks r of None \<Rightarrow> [] | Some ids \<Rightarrow> ids)"

definition route_wf :: "route_definition \<Rightarrow> bool" where
  "route_wf r \<longleftrightarrow>
     matches_id (rt_id r) \<and> rt_name r \<noteq> [] \<and> js_trim (rt_name r) = rt_name r \<and> rt_provider r \<noteq> []
     \<and> model_name_ok (rt_model r) \<and> list_all matches_id (fallbacks_of r) \<and> length (fallbacks_of r) \<le> max_route_fallbacks
     \<and> distinct (rt_provider r # fallbacks_of r)"

lemma validate_models_sound:
  "rfold validate_model ms seen = Inr seen' \<Longrightarrow>
     distinct (map as_str ms) \<and> set (map as_str ms) \<inter> seen = {} \<and> list_all model_name_ok (map as_str ms)
     \<and> list_all is_string ms"
proof (induction ms arbitrary: seen)
  case (Cons m ms)
  then obtain s1 where one: "validate_model m seen = Inr s1" and rest: "rfold validate_model ms s1 = Inr seen'"
    by auto
  from one have "assertModelName InvalidProviderModels m = Inr ()" and "as_str m \<notin> seen"
    and s1: "s1 = insert (as_str m) seen"
    by (auto simp: validate_model_def split: if_splits)
  with Cons.IH [OF rest] show ?case
    by (auto simp: assertModelName_def model_name_ok_def split: if_splits)
qed simp

lemma validate_fallbacks_sound:
  "rfold validate_fallback vs seen = Inr seen' \<Longrightarrow>
     distinct (map as_str vs) \<and> set (map as_str vs) \<inter> seen = {} \<and> list_all matches_id (map as_str vs)"
proof (induction vs arbitrary: seen)
  case (Cons v vs)
  then obtain s1 where one: "validate_fallback v seen = Inr s1" and rest: "rfold validate_fallback vs s1 = Inr seen'"
    by auto
  from one have "matches_id (as_str v)" and "as_str v \<notin> seen" and s1: "s1 = insert (as_str v) seen"
    by (auto simp: validate_fallback_def split: if_splits)
  with Cons.IH [OF rest] show ?case by auto
qed simp

lemma assertBaseUrl_ok: "assertBaseUrl parse v = Inr u \<Longrightarrow> base_url_ok parse (as_str v)"
  by (auto simp: assertBaseUrl_def base_url_ok_def split: if_splits option.splits)

lemma assertDisplayName_ok: "assertDisplayName e v = Inr u \<Longrightarrow> as_str v \<noteq> [] \<and> js_trim (as_str v) = as_str v"
  by (simp add: assertDisplayName_def split: if_split_asm)

lemma assertId_ok: "assertId e v = Inr u \<Longrightarrow> matches_id (as_str v)"
  by (simp add: assertId_def split: if_split_asm)

lemma assertModelName_ok: "assertModelName e v = Inr u \<Longrightarrow> model_name_ok (as_str v)"
  by (simp add: assertModelName_def model_name_ok_def split: if_split_asm)

lemma assertCredentialRef_ok: "assertCredentialRef v = Inr u \<Longrightarrow> matches_credential_ref (as_str v)"
  by (simp add: assertCredentialRef_def split: if_split_asm)

lemma assertFallbackProviderIds_ok:
  "assertFallbackProviderIds v primary = Inr ids \<Longrightarrow>
     list_all matches_id ids \<and> length ids \<le> max_route_fallbacks \<and> distinct (primary # ids)"
  by (auto simp: assertFallbackProviderIds_def split: if_split_asm dest!: validate_fallbacks_sound)

lemma validateProviderDefinition_wf:
  assumes "validateProviderDefinition parse v = Inr p"
  shows "provider_wf parse p"
proof -
  let ?f = "\<lambda>k. as_str (field v k)"
  obtain s where facts: "assertId InvalidProviderId (field v ''id'') = Inr ()"
      "assertDisplayName InvalidProviderName (field v ''name'') = Inr ()"
      "assertBaseUrl parse (field v ''baseUrl'') = Inr ()"
      "(if nullish (field v ''credentialRef'') then Inr () else assertCredentialRef (field v ''credentialRef'')) = Inr ()"
      "as_arr (field v ''models'') \<noteq> []" "rfold validate_model (as_arr (field v ''models'')) {} = Inr s"
    and p: "pv_id p = ?f ''id''" "pv_name p = ?f ''name''" "pv_base_url p = ?f ''baseUrl''"
      "pv_credential p = (if nullish (field v ''credentialRef'') then None else Some (?f ''credentialRef''))"
      "pv_models p = map as_str (as_arr (field v ''models''))"
    using assms by (simp add: validateProviderDefinition_def Let_def split: if_split_asm) auto
  show ?thesis
    unfolding provider_wf_def p
    using facts assertId_ok assertDisplayName_ok [OF facts(2)] assertBaseUrl_ok [OF facts(3)]
      assertCredentialRef_ok [of "field v ''credentialRef''"] validate_models_sound [OF facts(6)]
    by (simp split: if_split_asm)
qed

lemma validateRouteDefinition_wf:
  assumes "validateRouteDefinition v = Inr r"
  shows "route_wf r"
proof -
  let ?f = "\<lambda>k. as_str (field v k)"
  obtain fs where facts: "assertId InvalidRouteId (field v ''id'') = Inr ()"
      "assertDisplayName InvalidRouteName (field v ''name'') = Inr ()" "?f ''providerId'' \<noteq> []"
      "assertModelName InvalidRouteModel (field v ''model'') = Inr ()"
      "(if field v ''fallbackProviderIds'' = JUndef then Inr None
        else rbind (assertFallbackProviderIds (field v ''fallbackProviderIds'') (?f ''providerId'')) (\<lambda>ids. Inr (Some ids))) = Inr fs"
    and r: "rt_id r = ?f ''id''" "rt_name r = ?f ''name''" "rt_provider r = ?f ''providerId''"
      "rt_model r = ?f ''model''" "rt_fallbacks r = fs"
    using assms by (simp add: validateRouteDefinition_def Let_def split: if_split_asm) auto
  have "list_all matches_id (fallbacks_of r) \<and> length (fallbacks_of r) \<le> max_route_fallbacks
      \<and> distinct (rt_provider r # fallbacks_of r)"
    using facts(5) by (cases fs) (auto simp: fallbacks_of_def r split: if_split_asm dest!: assertFallbackProviderIds_ok)
  with facts r assertId_ok assertDisplayName_ok [OF facts(2)] assertModelName_ok [OF facts(4)]
  show ?thesis by (simp add: route_wf_def)
qed

end
