(* ===== verification/Registry.thy ===== *)
theory Registry
  imports Registry_Types
begin

text \<open>
  \<open>packages/provider-registry/src/registry.ts\<close>: \<open>InMemoryProviderRegistry\<close>.  The two
  private maps are association lists in insertion order; definitions are values, so the copies that
  \<open>cloneProviderDefinition\<close> and \<open>cloneRouteDefinition\<close> make are the definitions themselves.
\<close>

section \<open>State\<close>

record registry =
  providers :: "(string \<times> provider_definition) list"
  routes :: "(string \<times> route_definition) list"

definition empty_registry :: registry where
  "empty_registry = \<lparr>providers = [], routes = []\<rparr>"

definition routeProviderIds :: "route_definition \<Rightarrow> string list" where
  "routeProviderIds r = rt_provider r # fallbacks_of r"

definition routeReferencesProvider :: "route_definition \<Rightarrow> string \<Rightarrow> bool" where
  "routeReferencesProvider r p \<longleftrightarrow> rt_provider r = p \<or> p \<in> set (fallbacks_of r)"

section \<open>Providers\<close>

definition registerProvider :: "url_parser \<Rightarrow> registry \<Rightarrow> jsval \<Rightarrow> registry_error + registry" where
  "registerProvider parse g v =
     rbind (validateProviderDefinition parse v) (\<lambda>p.
     if map_of (providers g) (pv_id p) \<noteq> None then Inl DuplicateProviderId
     else Inr (g\<lparr>providers := obj_put (providers g) (pv_id p) p\<rparr>))"

definition updateProvider :: "url_parser \<Rightarrow> registry \<Rightarrow> jsval \<Rightarrow> registry_error + registry" where
  "updateProvider parse g v =
     rbind (validateProviderDefinition parse v) (\<lambda>p.
     if map_of (providers g) (pv_id p) = None then Inl ProviderNotFound
     else
       rbind (rall (\<lambda>(_, r).
                if \<not> routeReferencesProvider r (pv_id p) then Inr ()
                else if rt_model r \<notin> set (pv_models p) then Inl ModelNotAvailable
                else Inr ()) (routes g)) (\<lambda>_.
       Inr (g\<lparr>providers := obj_put (providers g) (pv_id p) p\<rparr>)))"

definition removeProvider :: "registry \<Rightarrow> string \<Rightarrow> registry_error + registry" where
  "removeProvider g i =
     (if map_of (providers g) i = None then Inl ProviderNotFound
      else if list_ex (\<lambda>(_, r). routeReferencesProvider r i) (routes g) then Inl ProviderHasRoutes
      else Inr (g\<lparr>providers := filter (\<lambda>(k, _). k \<noteq> i) (providers g)\<rparr>))"

definition getProvider :: "registry \<Rightarrow> string \<Rightarrow> provider_definition option" where
  "getProvider g i = map_of (providers g) i"

definition listProviders :: "registry \<Rightarrow> provider_definition list" where
  "listProviders g = map snd (providers g)"

section \<open>Routes\<close>

definition assertFallbackProviders :: "registry \<Rightarrow> route_definition \<Rightarrow> registry_error + unit" where
  "assertFallbackProviders g r =
     rall (\<lambda>i. case map_of (providers g) i of
                 None \<Rightarrow> Inl FallbackProviderNotFound
               | Some p \<Rightarrow> if rt_model r \<notin> set (pv_models p) then Inl FallbackModelNotAvailable else Inr ())
       (fallbacks_of r)"

text \<open>What \<open>registerRoute\<close> and \<open>updateRoute\<close> check alike.\<close>

definition assertRouteProvider :: "registry \<Rightarrow> route_definition \<Rightarrow> registry_error + unit" where
  "assertRouteProvider g r =
     (case map_of (providers g) (rt_provider r) of
        None \<Rightarrow> Inl ProviderNotFound
      | Some p \<Rightarrow>
          if rt_model r \<notin> set (pv_models p) then Inl ModelNotAvailable
          else if \<not> pv_enabled p \<and> rt_enabled r then Inl ProviderDisabled
          else Inr ())"

definition registerRoute :: "registry \<Rightarrow> jsval \<Rightarrow> registry_error + registry" where
  "registerRoute g v =
     rbind (validateRouteDefinition v) (\<lambda>r.
     if map_of (routes g) (rt_id r) \<noteq> None then Inl DuplicateRouteId
     else
       rbind (assertRouteProvider g r) (\<lambda>_.
       rbind (assertFallbackProviders g r) (\<lambda>_.
       Inr (g\<lparr>routes := obj_put (routes g) (rt_id r) r\<rparr>))))"

definition updateRoute :: "registry \<Rightarrow> jsval \<Rightarrow> registry_error + registry" where
  "updateRoute g v =
     rbind (validateRouteDefinition v) (\<lambda>r.
     if map_of (routes g) (rt_id r) = None then Inl RouteNotFound
     else
       rbind (assertRouteProvider g r) (\<lambda>_.
       rbind (assertFallbackProviders g r) (\<lambda>_.
       Inr (g\<lparr>routes := obj_put (routes g) (rt_id r) r\<rparr>))))"

definition removeRoute :: "registry \<Rightarrow> string \<Rightarrow> registry_error + registry" where
  "removeRoute g i =
     (if map_of (routes g) i = None then Inl RouteNotFound
      else Inr (g\<lparr>routes := filter (\<lambda>(k, _). k \<noteq> i) (routes g)\<rparr>))"

definition getRoute :: "registry \<Rightarrow> string \<Rightarrow> route_definition option" where
  "getRoute g i = map_of (routes g) i"

definition listRoutes :: "registry \<Rightarrow> route_definition list" where
  "listRoutes g = map snd (routes g)"

section \<open>Resolution\<close>

definition as_resolved :: "route_definition \<Rightarrow> provider_definition \<Rightarrow> resolved_route" where
  "as_resolved r p =
     \<lparr>rr_route = rt_id r, rr_provider = pv_id p, rr_protocol = pv_protocol p, rr_base_url = pv_base_url p,
      rr_model = rt_model r, rr_credential = pv_credential p\<rparr>"

definition resolveRoute :: "registry \<Rightarrow> string \<Rightarrow> registry_error + resolved_route" where
  "resolveRoute g i =
     (case map_of (routes g) i of
        None \<Rightarrow> Inl RouteNotFound
      | Some r \<Rightarrow>
          if \<not> rt_enabled r then Inl RouteDisabled
          else
            (case map_of (providers g) (rt_provider r) of
               None \<Rightarrow> Inl ProviderNotFound
             | Some p \<Rightarrow>
                 if \<not> pv_enabled p then Inl ProviderDisabled
                 else if rt_model r \<notin> set (pv_models p) then Inl InvalidRegistrySnapshot
                 else Inr (as_resolved r p)))"

text \<open>One iteration of the loop over the provider ids; the state is \<open>candidates\<close>.\<close>

definition add_candidate ::
  "registry \<Rightarrow> route_definition \<Rightarrow> string \<Rightarrow> resolved_route list \<Rightarrow> registry_error + resolved_route list"
where
  "add_candidate g r i cs =
     (case map_of (providers g) i of
        None \<Rightarrow> Inl (if i = rt_provider r then ProviderNotFound else FallbackProviderNotFound)
      | Some p \<Rightarrow>
          if rt_model r \<notin> set (pv_models p)
          then Inl (if i = rt_provider r then InvalidRegistrySnapshot else FallbackModelNotAvailable)
          else if \<not> pv_enabled p then Inr cs
          else Inr (cs @ [as_resolved r p]))"

definition resolveRouteCandidates :: "registry \<Rightarrow> string \<Rightarrow> registry_error + resolved_route list" where
  "resolveRouteCandidates g i =
     (case map_of (routes g) i of
        None \<Rightarrow> Inl RouteNotFound
      | Some r \<Rightarrow>
          if \<not> rt_enabled r then Inl RouteDisabled
          else
            rbind (rfold (add_candidate g r) (routeProviderIds r) []) (\<lambda>cs.
            if cs = [] then Inl ProviderDisabled else Inr cs))"

section \<open>Histories\<close>

datatype registry_op =
    RegisterProvider jsval | UpdateProvider jsval | RemoveProvider string
  | RegisterRoute jsval | UpdateRoute jsval | RemoveRoute string

fun registry_step :: "url_parser \<Rightarrow> registry \<Rightarrow> registry_op \<Rightarrow> registry_error + registry" where
  "registry_step parse g (RegisterProvider v) = registerProvider parse g v"
| "registry_step parse g (UpdateProvider v) = updateProvider parse g v"
| "registry_step parse g (RemoveProvider i) = removeProvider g i"
| "registry_step parse g (RegisterRoute v) = registerRoute g v"
| "registry_step parse g (UpdateRoute v) = updateRoute g v"
| "registry_step parse g (RemoveRoute i) = removeRoute g i"

text \<open>A call that throws leaves the registry as it was.\<close>

definition registry_apply :: "url_parser \<Rightarrow> registry \<Rightarrow> registry_op \<Rightarrow> registry" where
  "registry_apply parse g op = (case registry_step parse g op of Inl _ \<Rightarrow> g | Inr g' \<Rightarrow> g')"

definition registry_after :: "url_parser \<Rightarrow> registry_op list \<Rightarrow> registry" where
  "registry_after parse ops = foldl (registry_apply parse) empty_registry ops"

section \<open>The registry invariant\<close>

text \<open>
  Keys are the ids of well-formed definitions, and every provider a route names, as primary or as a
  fallback, is registered and serves the model of the route.
\<close>

definition serves :: "registry \<Rightarrow> string \<Rightarrow> string \<Rightarrow> bool" where
  "serves g m i \<longleftrightarrow> (\<exists>p. map_of (providers g) i = Some p \<and> m \<in> set (pv_models p))"

definition registry_inv :: "url_parser \<Rightarrow> registry \<Rightarrow> bool" where
  "registry_inv parse g \<longleftrightarrow>
     (\<forall>i p. map_of (providers g) i = Some p \<longrightarrow> pv_id p = i \<and> provider_wf parse p)
     \<and> (\<forall>i r. map_of (routes g) i = Some r \<longrightarrow>
          rt_id r = i \<and> route_wf r \<and> list_all (serves g (rt_model r)) (routeProviderIds r))
     \<and> distinct (map fst (providers g)) \<and> distinct (map fst (routes g))"

lemma inv_empty: "registry_inv parse empty_registry"
  by (simp add: registry_inv_def empty_registry_def)

lemma filter_keys_distinct: "distinct (map fst xs) \<Longrightarrow> distinct (map fst (filter P xs))"
  by (simp add: distinct_map_filter)

lemma references_iff: "routeReferencesProvider r i \<longleftrightarrow> i \<in> set (routeProviderIds r)"
  by (auto simp: routeReferencesProvider_def routeProviderIds_def)

lemma inv_registerProvider:
  assumes "registerProvider parse g v = Inr g'" and "registry_inv parse g"
  shows "registry_inv parse g'"
proof -
  obtain p where wf: "provider_wf parse p" and new: "map_of (providers g) (pv_id p) = None"
    and g': "g' = g\<lparr>providers := obj_put (providers g) (pv_id p) p\<rparr>"
    using assms(1) by (auto simp: registerProvider_def split: if_splits dest: validateProviderDefinition_wf)
  have "serves g m i \<Longrightarrow> serves g' m i" for m i
    using new by (auto simp: serves_def g' map_of_obj_put)
  with assms(2) wf show ?thesis
    by (auto simp: registry_inv_def g' map_of_obj_put obj_put_distinct list_all_iff)
qed

lemma inv_updateProvider:
  assumes "updateProvider parse g v = Inr g'" and "registry_inv parse g"
  shows "registry_inv parse g'"
proof -
  obtain p where wf: "provider_wf parse p"
    and checked: "rall (\<lambda>(_, r). if \<not> routeReferencesProvider r (pv_id p) then Inr ()
        else if rt_model r \<notin> set (pv_models p) then Inl ModelNotAvailable else Inr ()) (routes g) = Inr ()"
    and g': "g' = g\<lparr>providers := obj_put (providers g) (pv_id p) p\<rparr>"
    using assms(1)
    by (auto simp: updateProvider_def split: if_splits dest: validateProviderDefinition_wf)
  have ok: "rt_model r \<in> set (pv_models p)"
    if "(k, r) \<in> set (routes g)" and "routeReferencesProvider r (pv_id p)" for k r
    using checked that by (fastforce simp: rall_ok split: if_splits)
  have "serves g' (rt_model r) i"
    if "map_of (routes g) k = Some r" and "i \<in> set (routeProviderIds r)" and "serves g (rt_model r) i" for k r i
    using that ok map_of_SomeD [OF that(1)] by (auto simp: serves_def g' map_of_obj_put references_iff)
  with assms(2) wf show ?thesis
    by (auto simp: registry_inv_def g' map_of_obj_put obj_put_distinct list_all_iff)
qed

lemma inv_removeProvider:
  assumes "removeProvider g i = Inr g'" and "registry_inv parse g"
  shows "registry_inv parse g'"
proof -
  have free: "i \<notin> set (routeProviderIds r)" if "map_of (routes g) k = Some r" for k r
    using assms(1) map_of_SomeD [OF that]
    by (auto simp: removeProvider_def list_ex_iff references_iff split: if_splits)
  have g': "g' = g\<lparr>providers := filter (\<lambda>(k, _). k \<noteq> i) (providers g)\<rparr>"
    using assms(1) by (simp add: removeProvider_def split: if_splits)
  have "serves g' m j" if "serves g m j" and "j \<noteq> i" for m j
    using that by (auto simp: serves_def g')
  with assms(2) free show ?thesis
    unfolding registry_inv_def list_all_iff
    by (auto simp: g' filter_keys_distinct split: if_splits) metis
qed

lemma route_checked:
  assumes "assertRouteProvider g r = Inr u" and "assertFallbackProviders g r = Inr w"
  shows "list_all (serves g (rt_model r)) (routeProviderIds r)"
  using assms
  by (auto simp: assertRouteProvider_def assertFallbackProviders_def routeProviderIds_def serves_def rall_ok
      list_all_iff split: option.splits if_splits)

lemma inv_put_route:
  assumes "registry_inv parse g" and "route_wf r" and "list_all (serves g (rt_model r)) (routeProviderIds r)"
  shows "registry_inv parse (g\<lparr>routes := obj_put (routes g) (rt_id r) r\<rparr>)"
proof -
  have "serves (g\<lparr>routes := x\<rparr>) m i = serves g m i" for x m i by (simp add: serves_def)
  with assms show ?thesis
    by (auto simp: registry_inv_def map_of_obj_put obj_put_distinct list_all_iff)
qed

lemma inv_registerRoute:
  "registerRoute g v = Inr g' \<Longrightarrow> registry_inv parse g \<Longrightarrow> registry_inv parse g'"
  by (auto simp: registerRoute_def split: if_splits intro: inv_put_route route_checked validateRouteDefinition_wf)

lemma inv_updateRoute:
  "updateRoute g v = Inr g' \<Longrightarrow> registry_inv parse g \<Longrightarrow> registry_inv parse g'"
  by (auto simp: updateRoute_def split: if_splits intro: inv_put_route route_checked validateRouteDefinition_wf)

lemma inv_removeRoute:
  assumes "removeRoute g i = Inr g'" and "registry_inv parse g"
  shows "registry_inv parse g'"
proof -
  have g': "g' = g\<lparr>routes := filter (\<lambda>(k, _). k \<noteq> i) (routes g)\<rparr>"
    using assms(1) by (simp add: removeRoute_def split: if_splits)
  have "serves g' m j = serves g m j" for m j by (simp add: serves_def g')
  with assms(2) show ?thesis
    by (auto simp: registry_inv_def g' filter_keys_distinct list_all_iff split: if_splits)
qed

lemma inv_step: "registry_step parse g op = Inr g' \<Longrightarrow> registry_inv parse g \<Longrightarrow> registry_inv parse g'"
  by (cases op)
    (auto intro: inv_registerProvider inv_updateProvider inv_removeProvider inv_registerRoute inv_updateRoute
      inv_removeRoute)

lemma inv_after: "registry_inv parse (registry_after parse ops)"
proof -
  have "registry_inv parse g \<Longrightarrow> registry_inv parse (foldl (registry_apply parse) g ops)" for g
  proof (induction ops arbitrary: g)
    case (Cons op ops)
    have "registry_inv parse (registry_apply parse g op)"
      using Cons.prems by (auto simp: registry_apply_def split: sum.splits intro: inv_step)
    with Cons.IH show ?case by simp
  qed simp
  then show ?thesis by (simp add: registry_after_def inv_empty)
qed

section \<open>What resolution answers\<close>

text \<open>The candidates of a route: its enabled providers, the primary first, in the configured order.\<close>

definition enabled_candidates :: "registry \<Rightarrow> route_definition \<Rightarrow> resolved_route list" where
  "enabled_candidates g r =
     map (as_resolved r) (filter pv_enabled (map (\<lambda>i. the (map_of (providers g) i)) (routeProviderIds r)))"

lemma add_candidates:
  "list_all (serves g (rt_model r)) ids \<Longrightarrow>
     rfold (add_candidate g r) ids cs =
       Inr (cs @ map (as_resolved r) (filter pv_enabled (map (\<lambda>i. the (map_of (providers g) i)) ids)))"
  by (induction ids arbitrary: cs) (auto simp: add_candidate_def serves_def)

lemma candidates_exact:
  assumes "registry_inv parse g"
  shows "resolveRouteCandidates g i =
    (case map_of (routes g) i of
       None \<Rightarrow> Inl RouteNotFound
     | Some r \<Rightarrow>
         if \<not> rt_enabled r then Inl RouteDisabled
         else if enabled_candidates g r = [] then Inl ProviderDisabled
         else Inr (enabled_candidates g r))"
proof (cases "map_of (routes g) i")
  case (Some r)
  then have "list_all (serves g (rt_model r)) (routeProviderIds r)"
    using assms by (auto simp: registry_inv_def)
  with Some show ?thesis
    by (simp add: resolveRouteCandidates_def add_candidates enabled_candidates_def)
qed (simp add: resolveRouteCandidates_def)

lemma candidates_ok:
  assumes inv: "registry_inv parse g" and res: "resolveRouteCandidates g i = Inr cs"
  shows "cs \<noteq> [] \<and> length cs \<le> Suc max_route_fallbacks \<and> distinct (map rr_provider cs)
    \<and> (\<forall>c \<in> set cs. \<exists>p. map_of (providers g) (rr_provider c) = Some p \<and> pv_enabled p
          \<and> rr_model c \<in> set (pv_models p) \<and> rr_credential c = pv_credential p \<and> rr_base_url c = pv_base_url p
          \<and> rr_protocol c = pv_protocol p \<and> rr_route c = i)"
proof -
  obtain r where r: "map_of (routes g) i = Some r" and cs: "cs = enabled_candidates g r" and "cs \<noteq> []"
    using res by (auto simp: candidates_exact [OF inv] split: option.splits if_splits)
  have rwf: "rt_id r = i" "route_wf r" "list_all (serves g (rt_model r)) (routeProviderIds r)"
    using inv r by (auto simp: registry_inv_def)
  let ?ps = "map (\<lambda>i. the (map_of (providers g) i)) (routeProviderIds r)"
  have served: "\<exists>p. map_of (providers g) j = Some p \<and> rt_model r \<in> set (pv_models p) \<and> pv_id p = j"
    if "j \<in> set (routeProviderIds r)" for j
  proof -
    from rwf(3) that obtain p where p: "map_of (providers g) j = Some p" "rt_model r \<in> set (pv_models p)"
      by (auto simp: serves_def list_all_iff)
    moreover from inv p(1) have "pv_id p = j" unfolding registry_inv_def by blast
    ultimately show ?thesis by blast
  qed
  have ids: "map pv_id ?ps = routeProviderIds r"
  proof -
    have "pv_id (the (map_of (providers g) j)) = j" if "j \<in> set (routeProviderIds r)" for j
      using served [OF that] by auto
    then show ?thesis by (simp add: map_idI)
  qed
  have "length cs \<le> length (routeProviderIds r)"
    using length_filter_le [of pv_enabled ?ps] by (simp add: cs enabled_candidates_def)
  moreover have "length (routeProviderIds r) \<le> Suc max_route_fallbacks"
    using rwf(2) by (simp add: routeProviderIds_def route_wf_def)
  moreover have "distinct (map rr_provider cs)"
  proof -
    have "distinct (map pv_id ?ps)" using rwf(2) unfolding ids by (simp add: routeProviderIds_def route_wf_def)
    then have "distinct (map pv_id (filter pv_enabled ?ps))" by (rule distinct_map_filter)
    then show ?thesis by (simp add: cs enabled_candidates_def o_def as_resolved_def)
  qed
  moreover have "\<forall>c \<in> set cs. \<exists>p. map_of (providers g) (rr_provider c) = Some p \<and> pv_enabled p
          \<and> rr_model c \<in> set (pv_models p) \<and> rr_credential c = pv_credential p \<and> rr_base_url c = pv_base_url p
          \<and> rr_protocol c = pv_protocol p \<and> rr_route c = i"
  proof
    fix c assume "c \<in> set cs"
    then obtain j where "j \<in> set (routeProviderIds r)" and "pv_enabled (the (map_of (providers g) j))"
      and "c = as_resolved r (the (map_of (providers g) j))"
      by (auto simp: cs enabled_candidates_def)
    with served [of j] rwf(1) show "\<exists>p. map_of (providers g) (rr_provider c) = Some p \<and> pv_enabled p
          \<and> rr_model c \<in> set (pv_models p) \<and> rr_credential c = pv_credential p \<and> rr_base_url c = pv_base_url p
          \<and> rr_protocol c = pv_protocol p \<and> rr_route c = i"
      by (auto simp: as_resolved_def)
  qed
  ultimately show ?thesis using \<open>cs \<noteq> []\<close> by simp
qed

lemma resolve_head:
  assumes inv: "registry_inv parse g" and "resolveRoute g i = Inr c"
  shows "\<exists>cs. resolveRouteCandidates g i = Inr (c # cs)"
proof -
  obtain r p where "map_of (routes g) i = Some r" "rt_enabled r" "map_of (providers g) (rt_provider r) = Some p"
    "pv_enabled p" "c = as_resolved r p"
    using assms(2) by (auto simp: resolveRoute_def split: option.splits if_splits)
  then show ?thesis
    by (simp add: candidates_exact [OF inv] enabled_candidates_def routeProviderIds_def)
qed

section \<open>Properties\<close>

text \<open>
  C35: whatever calls are made on a registry, failed ones included, its maps hold well-formed
  definitions under their own ids, and every provider that a stored route names, as primary or as a
  fallback, is registered and serves the model of the route.
\<close>

theorem registry_always_consistent:
  "registry_inv parse (registry_after parse ops)"
  by (rule inv_after)

text \<open>
  Resolving the candidates of a route in any reachable registry never reports an inconsistency: it
  fails only for an unknown or disabled route or when no provider is enabled, and otherwise answers
  exactly the enabled providers of the route, the primary first and the fallbacks in their order.
\<close>

theorem candidates_are_enabled_providers:
  "resolveRouteCandidates (registry_after parse ops) i =
    (case map_of (routes (registry_after parse ops)) i of
       None \<Rightarrow> Inl RouteNotFound
     | Some r \<Rightarrow>
         if \<not> rt_enabled r then Inl RouteDisabled
         else if enabled_candidates (registry_after parse ops) r = [] then Inl ProviderDisabled
         else Inr (enabled_candidates (registry_after parse ops) r))"
  by (rule candidates_exact [OF inv_after])

text \<open>
  A resolved candidate list is not empty, has at most five entries with pairwise distinct
  providers, and every entry carries the address, protocol and credential reference of a registered,
  enabled provider that serves the model of the route.
\<close>

theorem candidates_well_formed:
  assumes "resolveRouteCandidates (registry_after parse ops) i = Inr cs"
  shows "cs \<noteq> [] \<and> length cs \<le> Suc max_route_fallbacks \<and> distinct (map rr_provider cs)
    \<and> (\<forall>c \<in> set cs. \<exists>p. map_of (providers (registry_after parse ops)) (rr_provider c) = Some p \<and> pv_enabled p
          \<and> rr_model c \<in> set (pv_models p) \<and> rr_credential c = pv_credential p \<and> rr_base_url c = pv_base_url p
          \<and> rr_protocol c = pv_protocol p \<and> rr_route c = i)"
  by (rule candidates_ok [OF inv_after assms])

definition sample_url :: url_parser where
  "sample_url s =
     (if s = ''http://h'' then Some \<lparr>url_protocol = ''http:'', url_username = [], url_password = []\<rparr> else None)"

definition sample_provider :: "string \<Rightarrow> bool \<Rightarrow> jsval" where
  "sample_provider i on =
     JObj [(''id'', JStr i), (''name'', JStr ''P''), (''protocol'', JStr ''anthropic_messages''),
           (''baseUrl'', JStr ''http://h''), (''credentialRef'', JStr ''credential:k''), (''models'', JArr [JStr ''m'']),
           (''enabled'', JBool on)]"

definition sample_ops :: "registry_op list" where
  "sample_ops =
     [RegisterProvider (sample_provider ''a'' True), RegisterProvider (sample_provider ''b'' False),
      RegisterProvider (sample_provider ''c'' True),
      RegisterRoute (JObj [(''id'', JStr ''r''), (''name'', JStr ''R''), (''providerId'', JStr ''a''), (''model'', JStr ''m''),
                           (''enabled'', JBool True), (''fallbackProviderIds'', JArr [JStr ''b'', JStr ''c''])]),
      RemoveProvider ''c'']"

theorem candidates_well_formed_witness:
  "\<exists>cs. resolveRouteCandidates (registry_after sample_url sample_ops) ''r'' = Inr cs
     \<and> map rr_provider cs = [''a'', ''c''] \<and> distinct (map rr_provider cs)"
proof -
  let ?r = "resolveRouteCandidates (registry_after sample_url sample_ops) ''r''"
  have "is_ok ?r" and ids: "map rr_provider (projr ?r) = [''a'', ''c'']" by code_simp+
  then obtain cs where cs: "?r = Inr cs" by (auto simp: is_ok_iff)
  from candidates_well_formed [OF cs] ids show ?thesis by (simp add: cs)
qed

text \<open>
  The provider that the single-shot resolution picks is the first candidate of the ordered
  resolution: the two agree whenever the primary provider is usable.
\<close>

theorem resolve_route_is_first_candidate:
  assumes "resolveRoute (registry_after parse ops) i = Inr c"
  shows "\<exists>cs. resolveRouteCandidates (registry_after parse ops) i = Inr (c # cs)"
  by (rule resolve_head [OF inv_after assms])

theorem resolve_route_is_first_candidate_witness:
  "\<exists>c cs. resolveRouteCandidates (registry_after sample_url sample_ops) ''r'' = Inr (c # cs) \<and> rr_provider c = ''a''"
proof -
  let ?r = "resolveRoute (registry_after sample_url sample_ops) ''r''"
  have "is_ok ?r" and ids: "rr_provider (projr ?r) = ''a''" by code_simp+
  then obtain c where c: "?r = Inr c" by (auto simp: is_ok_iff)
  from resolve_route_is_first_candidate [OF c] ids show ?thesis by (auto simp: c)
qed

end
