(* ===== verification/Http_Attempt.thy ===== *)
theory Http_Attempt
  imports Anthropic_Stream OpenAI_Stream Request_Encoding Registry
begin

text \<open>
  \<open>packages/model-gateway/src\<close>: \<open>http-transport.ts\<close> and \<open>candidate-attempt.ts\<close>,
  with the adapters of \<open>adapters/index.ts\<close>.

  The outside world is a state \<open>'w\<close> with two functions on it: the credential store and the
  HTTP client, both supplied by the caller of the gateway; the platform URL parser is a third
  parameter.  What the code does to the world is recorded as a list of effects.
\<close>

section \<open>Transport\<close>

record http_request =
  hr_url :: string
  hr_headers :: "(string \<times> string) list"
  hr_body :: string

record http_response =
  rs_status :: nat
  rs_body :: "string source option"

text \<open>An \<open>HttpClient\<close> throws synchronously, or its promise rejects, or resolves.\<close>

datatype transport = TransportThrow | TransportReject | TransportResponse http_response

text \<open>\<open>CredentialStore.get\<close> rejects, resolves to \<open>undefined\<close>, or to the secret.\<close>

datatype credential_read = CredentialFailed | CredentialAbsent | CredentialSecret string

datatype effect =
    CredentialRead string
  | Sent http_request
  | BodyReleased
  | Waited jsnum

definition anthropic_messages_endpoint :: string where
  "anthropic_messages_endpoint = ''/v1/messages''"

definition openai_chat_completions_endpoint :: string where
  "openai_chat_completions_endpoint = ''/chat/completions''"

definition retryable_transport_statuses :: "nat list" where
  "retryable_transport_statuses = [408, 425, 500, 502, 503, 504]"

definition strip_trailing_slashes :: "string \<Rightarrow> string" where
  "strip_trailing_slashes s = rev (dropWhile (\<lambda>c. c = CHR ''/'') (rev s))"

definition buildProviderUrl :: "url_parser \<Rightarrow> string \<Rightarrow> string \<Rightarrow> string option" where
  "buildProviderUrl parse baseUrl endpoint =
     (let url = strip_trailing_slashes baseUrl @ endpoint in
      case parse url of
        None \<Rightarrow> None
      | Some parsed \<Rightarrow>
          if url_protocol parsed \<noteq> ''http:'' \<and> url_protocol parsed \<noteq> ''https:'' then None
          else if url_username parsed \<noteq> [] \<or> url_password parsed \<noteq> [] then None
          else Some url)"

definition buildAnthropicHeaders :: "string \<Rightarrow> (string \<times> string) list" where
  "buildAnthropicHeaders secret =
     [(''content-type'', ''application/json''), (''accept'', ''text/event-stream''),
      (''anthropic-version'', ''2023-06-01''), (''x-api-key'', secret)]"

definition buildOpenAIChatHeaders :: "string \<Rightarrow> (string \<times> string) list" where
  "buildOpenAIChatHeaders secret =
     [(''content-type'', ''application/json''), (''accept'', ''text/event-stream''),
      (''authorization'', ''Bearer '' @ secret)]"

definition mapHttpStatusToErrorCode :: "nat \<Rightarrow> stream_code" where
  "mapHttpStatusToErrorCode status =
     (if status = 429 then RateLimited
      else if status \<in> set retryable_transport_statuses then UpstreamUnavailable
      else GatewayError)"

definition releaseResponseBody :: "string source option \<Rightarrow> effect list" where
  "releaseResponseBody body = (if body = None then [] else [BodyReleased])"

section \<open>Adapters\<close>

record protocol_adapter =
  pa_encode :: "jsval \<Rightarrow> adapter_code + jsval"
  pa_decode :: "string source \<Rightarrow> jsval \<Rightarrow> jsval \<Rightarrow> signal \<Rightarrow> adapter_code + (model_event list \<times> signal)"

definition createAnthropicMessagesAdapter :: protocol_adapter where
  "createAnthropicMessagesAdapter =
     \<lparr>pa_encode = encodeAnthropicMessagesRequest, pa_decode = decodeAnthropicMessagesStream\<rparr>"

definition openai_adapter :: "string \<Rightarrow> protocol_adapter" where
  "openai_adapter tokenLimitField =
     \<lparr>pa_encode = (\<lambda>v. encodeOpenAIChatRequest v tokenLimitField),
      pa_decode = decodeOpenAIChatCompletionsStream\<rparr>"

definition createOpenAIChatCompletionsAdapter :: "jsval \<Rightarrow> adapter_code + protocol_adapter" where
  "createOpenAIChatCompletionsAdapter option =
     rbind (normalizeTokenLimitField option) (\<lambda>tokenLimitField. Inr (openai_adapter tokenLimitField))"

record 'w attempt_options =
  ao_credentials :: "string \<Rightarrow> 'w \<Rightarrow> credential_read \<times> 'w"
  ao_http :: "http_request \<Rightarrow> 'w \<Rightarrow> transport \<times> 'w"
  ao_parse_url :: url_parser
  ao_anthropic :: protocol_adapter
  ao_openai :: protocol_adapter
  ao_frame_bytes :: jsval
  ao_tool_bytes :: jsval

section \<open>One attempt\<close>

text \<open>A stretch of a gateway generator.\<close>

type_synonym ('w, 'a) run = "(model_event, effect, 'w, 'a) gen"

definition fail_run :: "stream_code \<Rightarrow> signal \<Rightarrow> 'w \<Rightarrow> ('w, 'a) run" where
  "fail_run c sg w = ([streamErrorEvent c], [], sg, w, None)"

text \<open>\<open>if (isAborted(signal)) { yield streamErrorEvent("aborted"); return; }\<close>\<close>

definition abort_check :: "signal \<Rightarrow> 'w \<Rightarrow> ('w, unit) run" where
  "abort_check sg w =
     (case observe sg of (aborted, sg') \<Rightarrow> if aborted then fail_run Aborted sg' w else ([], [], sg', w, Some ()))"

record invocation =
  iv_adapter :: protocol_adapter
  iv_url :: string
  iv_headers :: "(string \<times> string) list"
  iv_body :: string

definition endpointFor :: "provider_protocol \<Rightarrow> string" where
  "endpointFor p = (if p = AnthropicMessages then anthropic_messages_endpoint else openai_chat_completions_endpoint)"

definition headersFor :: "provider_protocol \<Rightarrow> string \<Rightarrow> (string \<times> string) list" where
  "headersFor p secret =
     (if p = AnthropicMessages then buildAnthropicHeaders secret else buildOpenAIChatHeaders secret)"

text \<open>The part of \<open>prepareInvocation\<close> after the credential has been read.\<close>

definition build_invocation ::
  "'w attempt_options \<Rightarrow> resolved_route \<Rightarrow> jsval \<Rightarrow> string \<Rightarrow> invocation option"
where
  "build_invocation opts cand v secret =
     (let adapter = (if rr_protocol cand = AnthropicMessages then ao_anthropic opts else ao_openai opts) in
      case pa_encode adapter v of
        Inl _ \<Rightarrow> None
      | Inr body \<Rightarrow>
          (case json_stringify body of
             None \<Rightarrow> None
           | Some encoded \<Rightarrow>
               (case buildProviderUrl (ao_parse_url opts) (rr_base_url cand) (endpointFor (rr_protocol cand)) of
                  None \<Rightarrow> None
                | Some url \<Rightarrow>
                    Some \<lparr>iv_adapter = adapter, iv_url = url,
                          iv_headers = headersFor (rr_protocol cand) secret, iv_body = encoded\<rparr>)))"

definition prepareInvocation ::
  "'w attempt_options \<Rightarrow> resolved_route \<Rightarrow> jsval \<Rightarrow> 'w \<Rightarrow> effect list \<times> 'w \<times> invocation option"
where
  "prepareInvocation opts cand v w =
     (if field v ''model'' \<noteq> JStr (rr_model cand) then ([], w, None)
      else
        (case rr_credential cand of
           None \<Rightarrow> ([], w, None)
         | Some ref \<Rightarrow>
             (case ao_credentials opts ref w of
                (CredentialSecret secret, w') \<Rightarrow>
                  ([CredentialRead ref], w', if secret = [] then None else build_invocation opts cand v secret)
              | (_, w') \<Rightarrow> ([CredentialRead ref], w', None))))"

text \<open>
  \<open>sendRequest\<close> with the \<open>try\<close> around its call: the flag is read, the request goes out, and
  unless the client threw at once its promise races the abort event.  The failure path reads the
  flag again.
\<close>

definition transport_failed :: "signal \<Rightarrow> 'w \<Rightarrow> ('w, 'a) run" where
  "transport_failed sg w =
     (case observe sg of (aborted, sg') \<Rightarrow> fail_run (if aborted then Aborted else UpstreamUnavailable) sg' w)"

definition sendRequest :: "'w attempt_options \<Rightarrow> invocation \<Rightarrow> signal \<Rightarrow> 'w \<Rightarrow> ('w, http_response) run" where
  "sendRequest opts iv sg w =
     then_run (abort_check sg w) (\<lambda>_ sg1 w1.
     let request = \<lparr>hr_url = iv_url iv, hr_headers = iv_headers iv, hr_body = iv_body iv\<rparr> in
     case ao_http opts request w1 of (outcome, w2) \<Rightarrow>
       then_run ([], [Sent request], sg1, w2, Some ()) (\<lambda>_ sg1 w2.
       if outcome = TransportThrow then transport_failed sg1 w2
       else
         then_run (abort_check sg1 w2) (\<lambda>_ sg2 w3.
         case outcome of
           TransportResponse response \<Rightarrow> ([], [], sg2, w3, Some response)
         | _ \<Rightarrow> transport_failed sg2 w3)))"

definition read_response ::
  "'w attempt_options \<Rightarrow> invocation \<Rightarrow> http_response \<Rightarrow> signal \<Rightarrow> 'w \<Rightarrow> ('w, unit) run"
where
  "read_response opts iv response sg w =
     (if rs_status response < 200 \<or> 299 < rs_status response then
        ([streamErrorEvent (mapHttpStatusToErrorCode (rs_status response))],
         releaseResponseBody (rs_body response), sg, w, None)
      else
        (case rs_body response of
           None \<Rightarrow> fail_run ProviderProtocolError sg w
         | Some source \<Rightarrow>
             (case pa_decode (iv_adapter iv) source (ao_frame_bytes opts) (ao_tool_bytes opts) sg of
                Inr (es, sg') \<Rightarrow> (es, [], sg', w, None)
              | Inl _ \<Rightarrow>
                  (case observe sg of (aborted, sg') \<Rightarrow>
                     fail_run (if aborted then Aborted else GatewayError) sg' w))))"

definition runCandidateAttempt ::
  "'w attempt_options \<Rightarrow> resolved_route \<Rightarrow> jsval \<Rightarrow> signal \<Rightarrow> 'w \<Rightarrow> ('w, unit) run"
where
  "runCandidateAttempt opts cand v sg w =
     (case prepareInvocation opts cand v w of (fx, w', invocation) \<Rightarrow>
        then_run ([], fx, sg, w', Some ()) (\<lambda>_ sg w.
        case invocation of
          None \<Rightarrow> fail_run GatewayError sg w
        | Some iv \<Rightarrow>
            then_run (sendRequest opts iv sg w) (\<lambda>response sg' w'. read_response opts iv response sg' w')))"

section \<open>What an adapter promises\<close>

definition answer_ok :: "model_event list \<Rightarrow> bool" where
  "answer_ok es \<longleftrightarrow> ends_once es \<and> stream_wf es"

lemma answer_ok_error [simp]: "answer_ok [streamErrorEvent c]"
  using stream_wf_error [of "[]" c] by (simp add: answer_ok_def stream_wf_def)

locale adapter_contract =
  fixes A :: protocol_adapter
  assumes decode_answer: "pa_decode A src f t sg = Inr (es, sg') \<Longrightarrow> answer_ok es"
    and decode_uncancelled: "pa_decode A src f t None = Inr (es, sg') \<Longrightarrow> sg' = None"

interpretation anthropic_adapter: adapter_contract createAnthropicMessagesAdapter
proof
  fix src f t sg es sg'
  assume "pa_decode createAnthropicMessagesAdapter src f t sg = Inr (es, sg')"
  then obtain opts where "decodeFrameStream anthropicDecoder opts src sg = (es, sg')"
    by (auto simp: createAnthropicMessagesAdapter_def decodeAnthropicMessagesStream_def)
  then show "answer_ok es"
    using anthropic.decode_ends_once [of opts src sg] anthropic.decode_history [of opts src sg]
    by (simp add: answer_ok_def)
next
  fix src f t es sg'
  assume "pa_decode createAnthropicMessagesAdapter src f t None = Inr (es, sg')"
  then obtain opts where "decodeFrameStream anthropicDecoder opts src None = (es, sg')"
    by (auto simp: createAnthropicMessagesAdapter_def decodeAnthropicMessagesStream_def)
  then show "sg' = None" using decode_keeps_None [of anthropicDecoder opts src] by simp
qed

interpretation openai_adapter: adapter_contract "openai_adapter field" for field
proof
  fix src f t sg es sg'
  assume "pa_decode (openai_adapter field) src f t sg = Inr (es, sg')"
  then obtain opts where "decodeFrameStream openAIChatDecoder opts src sg = (es, sg')"
    by (auto simp: openai_adapter_def decodeOpenAIChatCompletionsStream_def)
  then show "answer_ok es"
    using openai.decode_ends_once [of opts src sg] openai.decode_history [of opts src sg]
    by (simp add: answer_ok_def)
next
  fix src f t es sg'
  assume "pa_decode (openai_adapter field) src f t None = Inr (es, sg')"
  then obtain opts where "decodeFrameStream openAIChatDecoder opts src None = (es, sg')"
    by (auto simp: openai_adapter_def decodeOpenAIChatCompletionsStream_def)
  then show "sg' = None" using decode_keeps_None [of openAIChatDecoder opts src] by simp
qed

section \<open>Runs\<close>

text \<open>A run that has returned has yielded an answer; one that goes on has yielded nothing yet.\<close>

definition run_ok :: "('w, 'a) run \<Rightarrow> bool" where
  "run_ok m = (case m of (es, _, _, _, None) \<Rightarrow> answer_ok es | (es, _, _, _, Some _) \<Rightarrow> es = [])"

fun is_sent :: "effect \<Rightarrow> bool" where
  "is_sent (Sent _) = True"
| "is_sent _ = False"

definition requests :: "effect list \<Rightarrow> nat" where
  "requests fx = length (filter is_sent fx)"

lemma requests_simps [simp]:
  "requests [] = 0"
  "requests (xs @ ys) = requests xs + requests ys"
  "requests [CredentialRead r] = 0"
  "requests [Sent q] = 1"
  "requests [Waited d] = 0"
  by (simp_all add: requests_def)

lemma then_run_ok:
  assumes "run_ok m" and "\<And>a sg w. run_ok (k a sg w)"
  shows "run_ok (then_run m k)"
proof -
  obtain es fx sg w r where m: "m = (es, fx, sg, w, r)" by (cases m)
  show ?thesis
  proof (cases r)
    case (Some a)
    obtain fs gx sg' w' r' where k: "k a sg w = (fs, gx, sg', w', r')" by (cases "k a sg w")
    have "es = []" using assms(1) by (simp add: m Some run_ok_def)
    moreover have "run_ok (fs, gx, sg', w', r')" using assms(2) [of a sg w] k by simp
    ultimately show ?thesis by (simp add: m Some k then_run_def run_ok_def)
  qed (use assms m in \<open>simp add: run_ok_def\<close>)
qed

lemma run_effects_abort:
  "run_effects (then_run (abort_check sg w) k) =
     (if fst (observe sg) then [] else run_effects (k () (snd (observe sg)) w))"
  by (cases "observe sg") (simp add: abort_check_def fail_run_def run_effects_Some, simp add: run_effects_def)

lemma fail_run_ok [simp]: "run_ok (fail_run c sg w)" "run_effects (fail_run c sg w) = []"
  by (simp_all add: fail_run_def run_ok_def run_effects_def)

lemma abort_check_ok [simp]: "run_ok (abort_check sg w)" "run_effects (abort_check sg w) = []"
  by (cases "observe sg"; simp add: abort_check_def; simp add: run_ok_def run_effects_def fail_run_def)+

lemma transport_failed_ok [simp]: "run_ok (transport_failed sg w)" "run_effects (transport_failed sg w) = []"
  by (cases "observe sg"; simp add: transport_failed_def)+

lemma silent_ok [simp]: "run_ok ([], fx, sg, w, Some a)" "run_effects ([], fx, sg, w, r) = fx"
  by (simp_all add: run_ok_def run_effects_def)

lemma sendRequest_ok: "run_ok (sendRequest opts iv sg w)"
  unfolding sendRequest_def Let_def
  by (intro then_run_ok abort_check_ok) (auto split: prod.splits transport.splits intro!: then_run_ok)

lemma sendRequest_effects:
  "run_effects (sendRequest opts iv sg w) = []
   \<or> run_effects (sendRequest opts iv sg w) = [Sent \<lparr>hr_url = iv_url iv, hr_headers = iv_headers iv, hr_body = iv_body iv\<rparr>]"
  by (cases "observe sg"; cases "fst (observe sg)")
    (simp_all add: sendRequest_def Let_def run_effects_abort run_effects_Some split: prod.splits transport.splits)

section \<open>What an attempt promises\<close>

text \<open>
  The contract the gateways rely on: an attempt yields one answer and sends at most one request.
\<close>

locale attempt_contract =
  fixes run :: "resolved_route \<Rightarrow> jsval \<Rightarrow> signal \<Rightarrow> 'w \<Rightarrow> ('w, unit) run"
  assumes attempt_returns: "snd (snd (snd (snd (run c v sg w)))) = None"
    and attempt_answer: "run_ok (run c v sg w)"
    and attempt_request: "requests (run_effects (run c v sg w)) \<le> 1"
    and attempt_uncancelled: "run_signal (run c v None w) = None"
begin

lemma attempt_cases:
  obtains es fx sg' w' where "run c v sg w = (es, fx, sg', w', None)" and "answer_ok es" and "requests fx \<le> 1"
proof -
  obtain es fx sg' w' r where run: "run c v sg w = (es, fx, sg', w', r)" by (cases "run c v sg w")
  with attempt_returns [of c v sg w] have "r = None" by simp
  with that [of es fx sg' w'] run attempt_answer [of c v sg w] attempt_request [of c v sg w] show ?thesis
    by (simp add: run_ok_def run_effects_def)
qed

end

locale candidate_attempts =
  fixes opts :: "'w attempt_options"
  assumes anthropic_side: "adapter_contract (ao_anthropic opts)"
    and openai_side: "adapter_contract (ao_openai opts)"
begin

lemma built_adapter: "build_invocation opts cand v secret = Some iv \<Longrightarrow> adapter_contract (iv_adapter iv)"
  using anthropic_side openai_side
  by (auto simp: build_invocation_def Let_def split: sum.splits option.splits if_splits)

lemma prepared_adapter: "prepareInvocation opts cand v w = (fx, w', Some iv) \<Longrightarrow> adapter_contract (iv_adapter iv)"
  using built_adapter
  by (auto simp: prepareInvocation_def split: option.splits if_splits prod.splits credential_read.splits)

lemma read_response_ok:
  assumes "adapter_contract (iv_adapter iv)"
  shows "run_ok (read_response opts iv response sg w)"
proof -
  have "run_ok (es, [], sg', w, None :: unit option)"
    if "pa_decode (iv_adapter iv) src f t sg = Inr (es, sg')" for es sg' src f t
    using adapter_contract.decode_answer [OF assms that] by (simp add: run_ok_def)
  then show ?thesis
    by (auto simp: read_response_def split: option.splits sum.splits prod.splits) (simp_all add: run_ok_def)
qed

lemma candidate_answer: "run_ok (runCandidateAttempt opts cand v sg w)"
proof -
  obtain fx w' iv where prep: "prepareInvocation opts cand v w = (fx, w', iv)"
    by (cases "prepareInvocation opts cand v w")
  show ?thesis
  proof (cases iv)
    case (Some i)
    show ?thesis
      unfolding runCandidateAttempt_def prep Some prod.case option.case
      by (intro then_run_ok silent_ok sendRequest_ok read_response_ok prepared_adapter [OF prep [unfolded Some]])
  qed (auto simp: runCandidateAttempt_def prep intro!: then_run_ok)
qed

lemma candidate_uncancelled: "run_signal (runCandidateAttempt opts cand v None w) = None"
proof -
  obtain fx w' iv where prep: "prepareInvocation opts cand v w = (fx, w', iv)"
    by (cases "prepareInvocation opts cand v w")
  have read: "run_signal (read_response opts i rs None u) = None" if "iv = Some i" for i rs u
    using adapter_contract.decode_uncancelled [OF prepared_adapter [OF prep [unfolded that]]]
    by (auto simp: read_response_def run_signal_def fail_run_def split: option.splits sum.splits prod.splits)
  have send: "\<exists>es gx u r. sendRequest opts i None w' = (es, gx, None, u, r)" for i
    by (auto simp: sendRequest_def Let_def abort_check_def transport_failed_def fail_run_def then_run_def
        split: prod.splits transport.splits)
  show ?thesis
  proof (cases iv)
    case (Some i)
    from send [of i] obtain es gx u r where "sendRequest opts i None w' = (es, gx, None, u, r)" by blast
    with read [OF Some, of "the r" u] show ?thesis
      by (cases r) (auto simp: runCandidateAttempt_def prep Some then_run_def run_signal_def split: prod.splits)
  qed (simp add: runCandidateAttempt_def prep then_run_def fail_run_def run_signal_def)
qed

end

lemma read_response_returns: "snd (snd (snd (snd (read_response opts iv rs sg w)))) = None"
  by (auto simp: read_response_def fail_run_def split: option.splits sum.splits prod.splits)

lemma read_response_requests: "requests (run_effects (read_response opts iv rs sg w)) = 0"
  by (auto simp: read_response_def fail_run_def releaseResponseBody_def run_effects_def requests_def
      split: option.splits sum.splits prod.splits)

lemma prepareInvocation_requests: "requests (fst (prepareInvocation opts cand v w)) = 0"
  by (auto simp: prepareInvocation_def split: option.splits prod.splits credential_read.splits)

lemma then_run_returns:
  assumes "\<And>a sg w. snd (snd (snd (snd (k a sg w)))) = None"
  shows "snd (snd (snd (snd (then_run m k)))) = None"
  using assms by (auto simp: then_run_def split: prod.splits option.splits) (metis snd_conv)

lemma runCandidateAttempt_returns: "snd (snd (snd (snd (runCandidateAttempt opts cand v sg w)))) = None"
  unfolding runCandidateAttempt_def
  by (auto simp: fail_run_def split: prod.splits option.splits
      intro!: then_run_returns read_response_returns)

text \<open>The request an attempt sends, if it sends one.\<close>

lemma runCandidateAttempt_sent:
  assumes "Sent q \<in> set (run_effects (runCandidateAttempt opts cand v sg w))"
  obtains fx w' iv where "prepareInvocation opts cand v w = (fx, w', Some iv)"
    and "q = \<lparr>hr_url = iv_url iv, hr_headers = iv_headers iv, hr_body = iv_body iv\<rparr>"
proof -
  obtain fx w' iv where prep: "prepareInvocation opts cand v w = (fx, w', iv)"
    by (cases "prepareInvocation opts cand v w")
  have silent: "Sent q \<notin> set fx"
    using prepareInvocation_requests [of opts cand v w] prep
    by (auto simp: requests_def filter_empty_conv)
  obtain i where iv: "iv = Some i"
    using assms silent by (cases iv) (auto simp: runCandidateAttempt_def prep run_effects_Some)
  obtain es gx sg2 w2 r where send: "sendRequest opts i sg w' = (es, gx, sg2, w2, r)"
    by (cases "sendRequest opts i sg w'")
  have "Sent q \<notin> set (run_effects (read_response opts i rs s w))" for rs s w
    using read_response_requests [of opts i rs s w] by (auto simp: requests_def filter_empty_conv)
  with assms silent have "Sent q \<in> set gx"
    by (cases r) (auto simp: runCandidateAttempt_def prep iv run_effects_Some send, auto simp: run_effects_def)
  with sendRequest_effects [of opts i sg w'] send
  have "q = \<lparr>hr_url = iv_url i, hr_headers = iv_headers i, hr_body = iv_body i\<rparr>" by (auto simp: run_effects_def)
  with that prep iv show ?thesis by blast
qed

lemma runCandidateAttempt_requests: "requests (run_effects (runCandidateAttempt opts cand v sg w)) \<le> 1"
proof -
  obtain fx w' iv where prep: "prepareInvocation opts cand v w = (fx, w', iv)"
    by (cases "prepareInvocation opts cand v w")
  have silent: "requests fx = 0" using prepareInvocation_requests [of opts cand v w] prep by simp
  show ?thesis
  proof (cases iv)
    case (Some i)
    obtain es gx sg2 w2 r where send: "sendRequest opts i sg w' = (es, gx, sg2, w2, r)"
      by (cases "sendRequest opts i sg w'")
    have "requests gx \<le> 1" using sendRequest_effects [of opts i sg w'] send by (auto simp: run_effects_def)
    with silent show ?thesis
      by (cases r)
        (simp_all add: runCandidateAttempt_def prep Some run_effects_Some send read_response_requests, simp add: run_effects_def)
  qed (simp add: runCandidateAttempt_def prep run_effects_Some silent)
qed

sublocale candidate_attempts \<subseteq> attempt_contract "runCandidateAttempt opts"
  by unfold_locales (rule runCandidateAttempt_returns candidate_answer runCandidateAttempt_requests candidate_uncancelled)+

end
