(* ===== verification/Resilience.thy ===== *)
theory Resilience
  imports Http_Attempt
begin

text \<open>
  \<open>packages/model-gateway/src/resilience.ts\<close>: the retry policy, the backoff and the
  classification of stream events.
\<close>

section \<open>Arithmetic on doubles\<close>

definition inf_of :: "rat \<Rightarrow> jsnum" where
  "inf_of a = (if a = 0 then NaN else if 0 < a then PInf else NInf)"

text \<open>Multiplication, the powers of two with a natural exponent, and \<open>Math.min\<close>.\<close>

fun num_mul :: "jsnum \<Rightarrow> jsnum \<Rightarrow> jsnum" where
  "num_mul (Fin a) (Fin b) = js_round (a * b)"
| "num_mul (Fin a) PInf = inf_of a"
| "num_mul (Fin a) NInf = inf_of (- a)"
| "num_mul PInf (Fin b) = inf_of b"
| "num_mul NInf (Fin b) = inf_of (- b)"
| "num_mul PInf PInf = PInf"
| "num_mul PInf NInf = NInf"
| "num_mul NInf PInf = NInf"
| "num_mul NInf NInf = PInf"
| "num_mul _ _ = NaN"

definition num_pow2 :: "nat \<Rightarrow> jsnum" where
  "num_pow2 n = (if n < 1024 then Fin (2 ^ n) else PInf)"

definition num_min :: "jsnum \<Rightarrow> jsnum \<Rightarrow> jsnum" where
  "num_min a b = (if a = NaN \<or> b = NaN then NaN else if num_less a b then a else b)"

section \<open>Policy\<close>

record retry_policy =
  maxAttemptsPerProvider :: nat
  maxTotalAttempts :: nat
  initialBackoffMs :: nat
  maxBackoffMs :: nat

definition default_retry_policy :: retry_policy where
  "default_retry_policy =
     \<lparr>maxAttemptsPerProvider = 2, maxTotalAttempts = 8, initialBackoffMs = 250, maxBackoffMs = 2000\<rparr>"

definition retryable_stream_error_codes :: "string list" where
  "retryable_stream_error_codes = [''rate_limited'', ''upstream_unavailable'']"

text \<open>The only thing these functions throw is a \<open>ResilienceOptionError\<close>, with a fixed message.\<close>

datatype resilience_error = ResilienceOptionError

definition readAttemptCount :: "jsval \<Rightarrow> nat \<Rightarrow> resilience_error + nat" where
  "readAttemptCount v fallback =
     (if v = JUndef then Inr fallback
      else (case v of
              JNum n \<Rightarrow> if \<not> is_safe_integer n \<or> num_less n (Fin 1) then Inl ResilienceOptionError
                        else Inr (num_nat n)
            | _ \<Rightarrow> Inl ResilienceOptionError))"

definition readDelay :: "jsval \<Rightarrow> nat \<Rightarrow> resilience_error + nat" where
  "readDelay v fallback =
     (if v = JUndef then Inr fallback
      else (case v of
              JNum n \<Rightarrow> if \<not> is_safe_integer n \<or> num_less n (Fin 0) then Inl ResilienceOptionError
                        else Inr (num_nat n)
            | _ \<Rightarrow> Inl ResilienceOptionError))"

definition normalizeRetryPolicy :: "jsval \<Rightarrow> resilience_error + retry_policy" where
  "normalizeRetryPolicy input =
     (if input \<noteq> JUndef \<and> \<not> is_object input \<and> \<not> is_array input then Inl ResilienceOptionError
      else
        rbind (readAttemptCount (field input ''maxAttemptsPerProvider'') (maxAttemptsPerProvider default_retry_policy)) (\<lambda>a.
        rbind (readAttemptCount (field input ''maxTotalAttempts'') (maxTotalAttempts default_retry_policy)) (\<lambda>t.
        rbind (readDelay (field input ''initialBackoffMs'') (initialBackoffMs default_retry_policy)) (\<lambda>i.
        rbind (readDelay (field input ''maxBackoffMs'') (maxBackoffMs default_retry_policy)) (\<lambda>m.
        if m < i then Inl ResilienceOptionError
        else Inr \<lparr>maxAttemptsPerProvider = a, maxTotalAttempts = t, initialBackoffMs = i, maxBackoffMs = m\<rparr>)))))"

definition computeBackoffDelayMs :: "retry_policy \<Rightarrow> jsnum \<Rightarrow> jsnum" where
  "computeBackoffDelayMs policy retryIndex =
     (let index = (if is_safe_integer retryIndex \<and> num_less (Fin 0) retryIndex then num_nat retryIndex else 0);
          scaled = num_mul (jsnat (initialBackoffMs policy)) (num_pow2 index)
      in num_min scaled (jsnat (maxBackoffMs policy)))"

section \<open>Classification\<close>

definition isRetryableStreamError :: "model_event \<Rightarrow> bool" where
  "isRetryableStreamError e =
     (case e of
        MError c _ r \<Rightarrow> r = JBool True \<and> is_string c \<and> as_str c \<in> set retryable_stream_error_codes
      | _ \<Rightarrow> False)"

definition isVisibleStreamEvent :: "model_event \<Rightarrow> bool" where
  "isVisibleStreamEvent e = (case e of MError _ _ _ \<Rightarrow> False | _ \<Rightarrow> True)"

text \<open>
  \<open>defaultRetryWait\<close>: the flag is read once; otherwise the timer races the abort event.
\<close>

definition defaultRetryWait :: "jsnum \<Rightarrow> signal \<Rightarrow> 'w \<Rightarrow> signal \<times> 'w" where
  "defaultRetryWait delay sg w =
     (case observe sg of (aborted, sg') \<Rightarrow> if aborted then (sg', w) else (snd (observe sg'), w))"

section \<open>What the policy guarantees\<close>

definition policy_ok :: "retry_policy \<Rightarrow> bool" where
  "policy_ok p \<longleftrightarrow>
     1 \<le> maxAttemptsPerProvider p \<and> 1 \<le> maxTotalAttempts p \<and> initialBackoffMs p \<le> maxBackoffMs p
     \<and> is_safe_integer (jsnat (maxBackoffMs p))"

lemma num_nat_safe:
  assumes "is_safe_integer n" and "\<not> num_less n (Fin 0)"
  shows "n = jsnat (num_nat n)"
  using safe_integer_nat [OF assms] .

lemma readAttemptCount_pos: "readAttemptCount v d = Inr n \<Longrightarrow> 1 \<le> d \<Longrightarrow> 1 \<le> n"
  by (cases v; cases "as_num v")
    (auto simp: readAttemptCount_def not_less le_floor_iff le_nat_iff split: if_splits)

lemma readDelay_safe:
  assumes "readDelay v d = Inr n" and "is_safe_integer (jsnat d)"
  shows "is_safe_integer (jsnat n)"
proof (cases v)
  case (JNum k)
  with assms(1) have k: "is_safe_integer k" "\<not> num_less k (Fin 0)" and n: "n = num_nat k"
    by (auto simp: readDelay_def split: if_splits)
  from num_nat_safe [OF k] k(1) n show ?thesis by simp
qed (use assms in \<open>auto simp: readDelay_def\<close>)

lemma normalizeRetryPolicy_ok:
  assumes "normalizeRetryPolicy v = Inr p"
  shows "policy_ok p"
proof -
  have safe: "is_safe_integer (jsnat 2000)" by code_simp
  from assms obtain a t i m where
    a: "readAttemptCount (field v ''maxAttemptsPerProvider'') 2 = Inr a" and
    t: "readAttemptCount (field v ''maxTotalAttempts'') 8 = Inr t" and
    m: "readDelay (field v ''maxBackoffMs'') 2000 = Inr m" and
    p: "p = \<lparr>maxAttemptsPerProvider = a, maxTotalAttempts = t, initialBackoffMs = i, maxBackoffMs = m\<rparr>" and "i \<le> m"
    by (auto simp: normalizeRetryPolicy_def default_retry_policy_def split: if_splits)
  with readAttemptCount_pos [OF a] readAttemptCount_pos [OF t] readDelay_safe [OF m safe] show ?thesis
    by (simp add: policy_ok_def)
qed

section \<open>The backoff is exact\<close>

lemma ilog2_one: "ilog2 1 = 0"
  by (simp add: ilog2.simps)

lemma ilog2_bounds: "1 \<le> n \<Longrightarrow> 0 \<le> ilog2 n \<and> 2 ^ nat (ilog2 n) \<le> n \<and> n < 2 ^ nat (ilog2 n + 1)"
proof (induction n rule: ilog2.induct)
  case (1 n)
  show ?case
  proof (cases "n \<le> 1")
    case True
    with 1 have "n = 1" by simp
    then show ?thesis by (simp add: ilog2_one)
  next
    case False
    with "1.IH" have ih: "0 \<le> ilog2 (n div 2)" "2 ^ nat (ilog2 (n div 2)) \<le> n div 2"
        "n div 2 < 2 ^ nat (ilog2 (n div 2) + 1)"
      by auto
    have e: "nat (1 + ilog2 (n div 2)) = Suc (nat (ilog2 (n div 2)))"
      "nat (1 + ilog2 (n div 2) + 1) = Suc (nat (ilog2 (n div 2) + 1))"
      using ih(1) by (simp_all add: nat_add_distrib)
    have "2 * (n div 2) \<le> n \<and> n < 2 * (n div 2) + 2" by presburger
    with ih(2,3) have "2 * 2 ^ nat (ilog2 (n div 2)) \<le> n \<and> n < 2 * 2 ^ nat (ilog2 (n div 2) + 1)" by linarith
    with False ih(1) e show ?thesis by (simp add: ilog2.simps [of n])
  qed
qed

lemma two_pow_add: "two_pow (a + b) = two_pow a * two_pow b"
  by (simp add: two_pow_def power_add [symmetric] nat_add_distrib [symmetric] field_simps)

lemma two_pow_pos [simp]: "0 < two_pow e"
  by (simp add: two_pow_def)

lemma two_pow_nat: "0 \<le> e \<Longrightarrow> two_pow e = of_int (2 ^ nat e)"
  by (simp add: two_pow_def)

lemma ulp_below:
  assumes "1 \<le> q"
  shows "two_pow (ulp_exponent q + 52) \<le> q"
proof -
  obtain a b where ab: "quotient_of q = (a, b)" by (cases "quotient_of q")
  have b: "0 < b" using quotient_of_denom_pos [OF ab] .
  have q: "q = of_int a / of_int b" using quotient_of_div [OF ab] .
  have "of_int b \<le> (of_int a :: rat)" using assms b by (simp add: q field_simps)
  then have a: "1 \<le> a" using b by simp
  have la: "0 \<le> ilog2 a" "2 ^ nat (ilog2 a) \<le> a" and lb: "0 \<le> ilog2 b" "b < 2 ^ nat (ilog2 b + 1)"
    using ilog2_bounds [OF a] ilog2_bounds [of b] b by simp_all
  have num: "two_pow (ilog2 a) \<le> of_int a"
    using la by (simp only: two_pow_nat [OF la(1)] of_int_le_iff)
  have den: "of_int b \<le> two_pow (ilog2 b + 1)"
    using lb by (simp only: two_pow_nat [of "ilog2 b + 1"] of_int_le_iff add_nonneg_nonneg zero_le_one less_imp_le)
  have "two_pow (ilog2 a) = two_pow (ilog2 a - ilog2 b - 1) * two_pow (ilog2 b + 1)"
    by (simp add: two_pow_add [symmetric])
  then have "two_pow (ilog2 a - ilog2 b - 1) * of_int b \<le> of_int a"
    using num mult_left_mono [OF den less_imp_le [OF two_pow_pos], of "ilog2 a - ilog2 b - 1"] by linarith
  then have guess: "two_pow (ilog2 a - ilog2 b - 1) \<le> q"
    using b by (simp add: q field_simps)
  have "two_pow (- 1022) \<le> 1" by (simp add: two_pow_def)
  with guess assms show ?thesis
    by (simp add: ulp_exponent_def ab Let_def max_def)
qed

lemma round_half_even_ge: "q - 1 / 2 \<le> of_int (round_half_even q)"
proof -
  have "q < of_int \<lfloor>q\<rfloor> + 1" by linarith
  then show ?thesis by (simp add: round_half_even_def Let_def)
qed

lemma js_round_large:
  assumes "2 ^ 53 \<le> q"
  shows "js_round q = PInf \<or> (\<exists>r. js_round q = Fin r \<and> 2 ^ 53 - 1 \<le> r)"
proof -
  define e where "e = ulp_exponent q"
  have pos: "1 \<le> q" using assms by simp
  have "two_pow e * 2 ^ 52 \<le> q"
    using ulp_below [OF pos] by (simp add: e_def two_pow_add) (simp add: two_pow_def)
  then have small: "two_pow e / 2 \<le> q / 2 ^ 53" by simp
  have "q / two_pow e - 1 / 2 \<le> of_int (round_half_even (q / two_pow e))"
    by (rule round_half_even_ge)
  moreover have "two_pow e \<noteq> 0" using two_pow_pos [of e] by linarith
  ultimately
  have "q - two_pow e / 2 \<le> of_int (round_half_even (q / two_pow e)) * two_pow e"
    using mult_right_mono [of "q / two_pow e - 1 / 2" _ "two_pow e"] by (simp add: left_diff_distrib less_imp_le)
  moreover have "2 ^ 53 - 1 \<le> q - q / 2 ^ 53" using assms by simp
  ultimately have low: "2 ^ 53 - 1 \<le> of_int (round_half_even (q / two_pow e)) * two_pow e"
    using small by linarith
  show ?thesis
  proof (cases "of_int \<lfloor>q\<rfloor> = q \<and> \<bar>q\<bar> \<le> 9007199254740992")
    case True
    with assms show ?thesis by (simp add: js_round_def)
  next
    case False
    with assms low show ?thesis by (simp add: js_round_def js_round_pos_def Let_def e_def)
  qed
qed

text \<open>
  For a policy that the normalisation accepts, the delay before a retry is exactly the initial
  delay doubled per retry and capped: double rounding and overflow never show below 1024 retries.
\<close>

theorem backoff_exact:
  assumes "policy_ok p" and "i < 1024"
  shows "computeBackoffDelayMs p (jsnat i) = jsnat (min (initialBackoffMs p * 2 ^ i) (maxBackoffMs p))"
proof -
  define q :: rat where "q = of_nat (initialBackoffMs p * 2 ^ i)"
  have safe: "of_nat (maxBackoffMs p) \<le> max_safe_integer"
    using assms(1) by (simp add: policy_ok_def jsnat_def)
  have "is_safe_integer (jsnat i)" using assms(2) by (simp add: jsnat_def max_safe_integer_def)
  then have d: "computeBackoffDelayMs p (jsnat i) = num_min (js_round q) (jsnat (maxBackoffMs p))"
    using assms(2) by (simp add: computeBackoffDelayMs_def Let_def num_pow2_def jsnat_def q_def)
  show ?thesis
  proof (cases "q \<le> 9007199254740992")
    case True
    then have "js_round q = Fin q" by (simp add: js_round_def q_def)
    then have "computeBackoffDelayMs p (jsnat i) = (if q < of_nat (maxBackoffMs p) then Fin q else jsnat (maxBackoffMs p))"
      using d by (simp add: num_min_def jsnat_def)
    also have "\<dots> = jsnat (min (initialBackoffMs p * 2 ^ i) (maxBackoffMs p))"
      unfolding q_def of_nat_less_iff by (simp add: min_def jsnat_def not_less)
    finally show ?thesis .
  next
    case False
    then have big: "2 ^ 53 \<le> q" by simp
    have "of_nat (maxBackoffMs p) < q" using False safe by (simp add: max_safe_integer_def)
    then have "maxBackoffMs p < initialBackoffMs p * 2 ^ i" unfolding q_def of_nat_less_iff .
    moreover have "num_min (js_round q) (jsnat (maxBackoffMs p)) = jsnat (maxBackoffMs p)"
      using js_round_large [OF big]
    proof
      assume "\<exists>r. js_round q = Fin r \<and> 2 ^ 53 - 1 \<le> r"
      then obtain r where r: "js_round q = Fin r" "2 ^ 53 - 1 \<le> r" by blast
      have "rat_of_nat (maxBackoffMs p) \<le> r" by (rule order_trans [OF safe]) (use r(2) in \<open>simp add: max_safe_integer_def\<close>)
      with r(1) show ?thesis by (simp add: num_min_def jsnat_def)
    qed (simp add: num_min_def jsnat_def)
    ultimately show ?thesis by (simp add: d min_def)
  qed
qed

theorem backoff_exact_witness:
  "computeBackoffDelayMs default_retry_policy (jsnat 2) = jsnat 1000
   \<and> computeBackoffDelayMs default_retry_policy (jsnat 1000) = jsnat 2000"
proof -
  have ok: "policy_ok default_retry_policy"
    by (simp add: policy_ok_def default_retry_policy_def jsnat_def max_safe_integer_def)
  have big: "(2000::nat) \<le> 250 * 2 ^ 1000"
    by (rule order_trans [of _ "250 * 2 ^ 4"]) (simp, rule mult_le_mono2, rule power_increasing, simp_all)
  have "computeBackoffDelayMs default_retry_policy (jsnat 2) = jsnat 1000"
    using backoff_exact [OF ok, of 2] by (simp add: default_retry_policy_def min_def)
  moreover have "computeBackoffDelayMs default_retry_policy (jsnat 1000) = jsnat 2000"
    using backoff_exact [OF ok, of 1000] big by (simp add: default_retry_policy_def min_def)
  ultimately show ?thesis ..
qed

text \<open>
  From the 1025th retry of one provider on, the power of two is infinite: the delay is the cap
  when the initial delay is positive, but not a number when the initial delay is zero, where zero
  was asked for.
\<close>

theorem backoff_overflow:
  assumes "is_safe_integer (jsnat i)" and "1024 \<le> i"
  shows "computeBackoffDelayMs p (jsnat i) =
    (if initialBackoffMs p = 0 then NaN else jsnat (maxBackoffMs p))"
  using assms by (simp add: computeBackoffDelayMs_def Let_def num_pow2_def jsnat_def num_min_def inf_of_def)

theorem backoff_overflow_witness:
  "computeBackoffDelayMs \<lparr>maxAttemptsPerProvider = 2000, maxTotalAttempts = 2000, initialBackoffMs = 0, maxBackoffMs = 0\<rparr>
     (jsnat 1024) = NaN"
  by (subst backoff_overflow) (simp_all add: jsnat_def max_safe_integer_def)

end
