(* ===== verification/Gateways.thy ===== *)
theory Gateways
  imports Resilience
begin

text \<open>
  \<open>packages/model-gateway/src\<close>: \<open>routed-http-gateway.ts\<close>,
  \<open>resilient-routed-gateway.ts\<close> and \<open>fake-gateway.ts\<close>.

  The resilient gateway is parameterised by what it calls: the attempt, the wait and the resolution
  of candidates.  Its guarantees are proved from the contract of an attempt (locale
  \<open>failover\<close>, which extends \<open>attempt_contract\<close>) and hold for the gateway by
  interpretation on \<open>runCandidateAttempt\<close> and the registry.
\<close>

section \<open>The shared attempt options\<close>

definition new_attempts ::
  "(string \<Rightarrow> 'w \<Rightarrow> credential_read \<times> 'w) \<Rightarrow> (http_request \<Rightarrow> 'w \<Rightarrow> transport \<times> 'w) \<Rightarrow> url_parser
     \<Rightarrow> jsval \<Rightarrow> jsval \<Rightarrow> 'w attempt_options"
where
  "new_attempts credentials http parse frame_opt tool_opt =
     \<lparr>ao_credentials = credentials, ao_http = http, ao_parse_url = parse,
      ao_anthropic = createAnthropicMessagesAdapter,
      ao_openai = projr (createOpenAIChatCompletionsAdapter JUndef),
      ao_frame_bytes = frame_opt, ao_tool_bytes = tool_opt\<rparr>"

text \<open>\<open>registry.resolveRoute(request.routeId)\<close>: a map has no entry under a key that is not a string.\<close>

definition resolve_with :: "(string \<Rightarrow> registry_error + 'a) \<Rightarrow> jsval \<Rightarrow> registry_error + 'a" where
  "resolve_with resolve v =
     (if is_string (field v ''routeId'') then resolve (as_str (field v ''routeId'')) else Inl RouteNotFound)"

section \<open>One route, one request\<close>

definition routed_stream ::
  "registry \<Rightarrow> 'w attempt_options \<Rightarrow> jsval \<Rightarrow> signal \<Rightarrow> 'w \<Rightarrow> ('w, unit) run"
where
  "routed_stream reg opts v sg w =
     then_run (abort_check sg w) (\<lambda>_ sg w.
     case resolve_with (resolveRoute reg) v of
       Inl _ \<Rightarrow> fail_run GatewayError sg w
     | Inr cand \<Rightarrow> runCandidateAttempt opts cand v sg w)"

section \<open>Retry and failover\<close>

text \<open>
  The loop over the events of one attempt: what is passed on, and whether the stream is over, the
  events have run out, or a retryable error was swallowed.
\<close>

datatype consumed = Surfaced | Exhausted bool | Swallowed stream_code

definition retryable_code :: "model_event \<Rightarrow> stream_code" where
  "retryable_code e =
     (case e of MError c _ _ \<Rightarrow> if as_str c = ''rate_limited'' then RateLimited else UpstreamUnavailable
      | _ \<Rightarrow> GatewayError)"

fun consume :: "bool \<Rightarrow> model_event list \<Rightarrow> model_event list \<times> consumed" where
  "consume visible [] = ([], Exhausted visible)"
| "consume visible (e # es) =
     (if isVisibleStreamEvent e then (case consume True es of (out, c) \<Rightarrow> (e # out, c))
      else if visible \<or> \<not> isRetryableStreamError e then ([e], Surfaced)
      else ([], Swallowed (retryable_code e)))"

text \<open>\<open>attemptsUsed\<close>, \<open>lastRetryableCode\<close>, and whether \<open>break candidates\<close> was taken.\<close>

record failover_state =
  attemptsUsed :: nat
  lastRetryableCode :: "stream_code option"
  left_loop :: bool

type_synonym 'w attempt_fun = "resolved_route \<Rightarrow> jsval \<Rightarrow> signal \<Rightarrow> 'w \<Rightarrow> ('w, unit) run"
type_synonym 'w wait_fun = "jsnum \<Rightarrow> signal \<Rightarrow> 'w \<Rightarrow> signal \<times> 'w"

definition backoff :: "retry_policy \<Rightarrow> 'w wait_fun \<Rightarrow> nat \<Rightarrow> signal \<Rightarrow> 'w \<Rightarrow> ('w, unit) run" where
  "backoff policy wait attempt sg w =
     (if 0 < attempt then
        (let delay = computeBackoffDelayMs policy (jsnat (attempt - 1)) in
         case wait delay sg w of (sg', w') \<Rightarrow>
           then_run ([], [Waited delay], sg', w', Some ()) (\<lambda>_ sg w. abort_check sg w))
      else ([], [], sg, w, Some ()))"

text \<open>The body of the inner loop, from the first look at the flag.\<close>

definition finish_attempt ::
  "failover_state \<Rightarrow> ('w, unit) run \<Rightarrow> ('w, failover_state) run"
where
  "finish_attempt st m =
     (case m of (es, fx, sg, w, _) \<Rightarrow>
        (case consume False es of
           (out, Surfaced) \<Rightarrow> (out, fx, sg, w, None)
         | (out, Exhausted visible) \<Rightarrow>
             (if visible then out else out @ [streamErrorEvent GatewayError], fx, sg, w, None)
         | (out, Swallowed code) \<Rightarrow>
             (out, fx, sg, w,
              Some (st\<lparr>attemptsUsed := attemptsUsed st + 1, lastRetryableCode := Some code\<rparr>))))"

definition try_attempt ::
  "retry_policy \<Rightarrow> 'w wait_fun \<Rightarrow> 'w attempt_fun \<Rightarrow> jsval \<Rightarrow> resolved_route \<Rightarrow> nat
     \<Rightarrow> failover_state \<Rightarrow> signal \<Rightarrow> 'w \<Rightarrow> ('w, failover_state) run"
where
  "try_attempt policy wait run v cand attempt st sg w =
     then_run (abort_check sg w) (\<lambda>_ sg w.
     if maxTotalAttempts policy \<le> attemptsUsed st then ([], [], sg, w, Some (st\<lparr>left_loop := True\<rparr>))
     else
       then_run (backoff policy wait attempt sg w) (\<lambda>_ sg w.
       finish_attempt st (run cand v sg w)))"

text \<open>\<open>for (let attempt = 0; attempt < maxAttemptsPerProvider; attempt += 1)\<close>: the first
  argument counts the iterations left.\<close>

fun provider_loop ::
  "nat \<Rightarrow> retry_policy \<Rightarrow> 'w wait_fun \<Rightarrow> 'w attempt_fun \<Rightarrow> jsval \<Rightarrow> resolved_route \<Rightarrow> nat
     \<Rightarrow> failover_state \<Rightarrow> signal \<Rightarrow> 'w \<Rightarrow> ('w, failover_state) run"
where
  "provider_loop 0 policy wait run v cand attempt st sg w = ([], [], sg, w, Some st)"
| "provider_loop (Suc k) policy wait run v cand attempt st sg w =
     then_run (try_attempt policy wait run v cand attempt st sg w) (\<lambda>st' sg w.
     if left_loop st' then ([], [], sg, w, Some st')
     else provider_loop k policy wait run v cand (attempt + 1) st' sg w)"

fun candidates_loop ::
  "retry_policy \<Rightarrow> 'w wait_fun \<Rightarrow> 'w attempt_fun \<Rightarrow> jsval \<Rightarrow> resolved_route list
     \<Rightarrow> failover_state \<Rightarrow> signal \<Rightarrow> 'w \<Rightarrow> ('w, failover_state) run"
where
  "candidates_loop policy wait run v [] st sg w = ([], [], sg, w, Some st)"
| "candidates_loop policy wait run v (c # cs) st sg w =
     then_run (provider_loop (maxAttemptsPerProvider policy) policy wait run v c 0 st sg w) (\<lambda>st' sg w.
     if left_loop st' then ([], [], sg, w, Some st')
     else candidates_loop policy wait run v cs st' sg w)"

definition try_candidates ::
  "retry_policy \<Rightarrow> 'w wait_fun \<Rightarrow> 'w attempt_fun \<Rightarrow> jsval \<Rightarrow> resolved_route list \<Rightarrow> signal \<Rightarrow> 'w \<Rightarrow> ('w, unit) run"
where
  "try_candidates policy wait run v cs sg w =
     then_run
       (candidates_loop policy wait run v cs
          \<lparr>attemptsUsed = 0, lastRetryableCode = None, left_loop = False\<rparr> sg w)
       (\<lambda>st sg w. fail_run (case lastRetryableCode st of None \<Rightarrow> GatewayError | Some c \<Rightarrow> c) sg w)"

definition failover_stream ::
  "(string \<Rightarrow> registry_error + resolved_route list) \<Rightarrow> retry_policy \<Rightarrow> 'w wait_fun \<Rightarrow> 'w attempt_fun
     \<Rightarrow> jsval \<Rightarrow> signal \<Rightarrow> 'w \<Rightarrow> ('w, unit) run"
where
  "failover_stream resolve policy wait run v sg w =
     then_run (abort_check sg w) (\<lambda>_ sg w.
     case resolve_with resolve v of
       Inl _ \<Rightarrow> fail_run GatewayError sg w
     | Inr candidates \<Rightarrow> try_candidates policy wait run v candidates sg w)"

definition resilient_stream ::
  "registry \<Rightarrow> 'w attempt_options \<Rightarrow> retry_policy \<Rightarrow> 'w wait_fun \<Rightarrow> jsval \<Rightarrow> signal \<Rightarrow> 'w \<Rightarrow> ('w, unit) run"
where
  "resilient_stream reg opts policy wait v sg w =
     failover_stream (resolveRouteCandidates reg) policy wait (runCandidateAttempt opts) v sg w"

section \<open>The fake gateway\<close>

text \<open>Cloning an event is the event.\<close>

definition abortedEvent :: model_event where
  "abortedEvent = MError (JStr ''aborted'') ''Request aborted before completion.'' (JBool False)"

fun fake_events :: "model_event list \<Rightarrow> signal \<Rightarrow> model_event list" where
  "fake_events [] sg = []"
| "fake_events (e # es) sg =
     (case observe sg of (aborted, sg') \<Rightarrow> if aborted then [abortedEvent] else e # fake_events es sg')"

definition fake_stream :: "model_event list \<Rightarrow> signal \<Rightarrow> model_event list" where
  "fake_stream es sg =
     (case observe sg of (aborted, sg') \<Rightarrow> if aborted then [abortedEvent] else fake_events es sg')"

section \<open>Consuming an answer\<close>

lemma consume_visible:
  "list_all isVisibleStreamEvent xs \<Longrightarrow>
     consume b (xs @ ys) =
       (case consume (b \<or> xs \<noteq> []) ys of (out, c) \<Rightarrow> (xs @ out, c))"
  by (induction xs arbitrary: b) (auto split: prod.splits)

lemma open_visible: "open_events es \<Longrightarrow> list_all isVisibleStreamEvent es"
  by (auto simp: open_events_iff list_all_iff isVisibleStreamEvent_def split: model_event.splits)

definition swallowable :: "model_event list \<Rightarrow> stream_code \<Rightarrow> bool" where
  "swallowable es c \<longleftrightarrow> (c = RateLimited \<or> c = UpstreamUnavailable) \<and> es = [streamErrorEvent c]"

lemma retryable_iff:
  "isRetryableStreamError (streamErrorEvent c) \<longleftrightarrow> c = RateLimited \<or> c = UpstreamUnavailable"
  by (cases c) (simp_all add: isRetryableStreamError_def streamErrorEvent_def retryable_stream_error_codes_def)

lemma retryable_code_of: "c = RateLimited \<or> c = UpstreamUnavailable \<Longrightarrow> retryable_code (streamErrorEvent c) = c"
  by (auto simp: retryable_code_def streamErrorEvent_def)

lemma error_not_visible [simp]: "\<not> isVisibleStreamEvent (streamErrorEvent c)"
  by (simp add: isVisibleStreamEvent_def streamErrorEvent_def)

lemma consume_answer:
  assumes "answer_ok es"
  obtains (surfaced) c where "consume False es = (es, c)" and "c = Surfaced \<or> c = Exhausted True"
      and "\<And>k. \<not> swallowable es k"
  | (swallowed) c where "consume False es = ([], Swallowed c)" and "swallowable es c"
proof -
  have ends: "ends_once es" using assms by (simp add: answer_ok_def)
  then obtain xs t where es: "es = xs @ [t]" by (metis ends_once_nonempty rev_exhaust)
  with ends have xs: "list_all isVisibleStreamEvent xs" and t: "is_terminal t" "sanitized t"
    using open_visible by auto
  have run: "consume False es = (case consume (xs \<noteq> []) [t] of (out, c) \<Rightarrow> (xs @ out, c))"
    using consume_visible [OF xs, of False "[t]"] by (simp add: es)
  from t(1) show thesis
  proof (cases t)
    case MCompleted
    then have "consume False es = (es, Exhausted True)" unfolding run by (simp add: es isVisibleStreamEvent_def)
    moreover have "\<not> swallowable es k" for k
      using MCompleted by (simp add: swallowable_def es streamErrorEvent_def)
    ultimately show thesis using surfaced by blast
  next
    case (MError k m r)
    with t(2) obtain c where c: "t = streamErrorEvent c" by (auto simp: sanitized_iff)
    show thesis
    proof (cases "xs = [] \<and> (c = RateLimited \<or> c = UpstreamUnavailable)")
      case True
      then have "consume False es = ([], Swallowed c)"
        unfolding run by (auto simp: c retryable_iff retryable_code_of)
      with True show thesis using swallowed by (auto simp: swallowable_def es c)
    next
      case False
      then have "consume False es = (es, Surfaced)" unfolding run by (auto simp: c retryable_iff es)
      moreover have "\<not> swallowable es k" for k using False by (auto simp: swallowable_def es c)
      ultimately show thesis using surfaced by blast
    qed
  qed simp_all
qed

section \<open>Every stream ends once, within the budget\<close>

text \<open>
  \<open>in_budget n p st m\<close>: a stretch from state \<open>st\<close> sends at most \<open>n\<close> requests, all of
  them counted in \<open>attemptsUsed\<close> and within \<open>maxTotalAttempts\<close>.
\<close>

definition in_budget :: "nat \<Rightarrow> retry_policy \<Rightarrow> failover_state \<Rightarrow> ('w, failover_state) run \<Rightarrow> bool" where
  "in_budget n p st m =
     (case m of (_, fx, _, _, r) \<Rightarrow>
        requests fx \<le> n \<and> requests fx + attemptsUsed st \<le> maxTotalAttempts p
        \<and> (case r of None \<Rightarrow> True
           | Some st' \<Rightarrow> requests fx + attemptsUsed st \<le> attemptsUsed st' \<and> attemptsUsed st' \<le> maxTotalAttempts p))"

lemma in_budget_then:
  assumes "in_budget n p st m"
    and "\<And>st' sg w. attemptsUsed st' \<le> maxTotalAttempts p \<Longrightarrow> in_budget k p st' (f st' sg w)"
  shows "in_budget (n + k) p st (then_run m f)"
proof -
  obtain es fx sg w r where m: "m = (es, fx, sg, w, r)" by (cases m)
  show ?thesis
  proof (cases r)
    case None
    with assms(1) show ?thesis by (simp add: m in_budget_def)
  next
    case (Some st')
    obtain fs gx sg' w' r' where f: "f st' sg w = (fs, gx, sg', w', r')" by (cases "f st' sg w")
    have "attemptsUsed st' \<le> maxTotalAttempts p" using assms(1) by (simp add: m Some in_budget_def)
    from assms(2) [OF this, of sg w] assms(1) show ?thesis
      by (auto simp: m Some f in_budget_def then_run_def split: option.splits)
  qed
qed

lemma in_budget_mono: "in_budget n p st m \<Longrightarrow> n \<le> k \<Longrightarrow> in_budget k p st m"
  by (auto simp: in_budget_def)

lemma in_budget_stay: "attemptsUsed st \<le> maxTotalAttempts p \<Longrightarrow> attemptsUsed st' = attemptsUsed st
    \<Longrightarrow> in_budget n p st ([], [], sg, w, Some st')"
  by (simp add: in_budget_def)

lemma backoff_effects [simp]: "requests (run_effects (backoff p wait i sg w)) = 0"
  by (auto simp: backoff_def Let_def run_effects_Some split: prod.splits)

lemma backoff_ok [simp]: "run_ok (backoff p wait i sg w)"
  by (auto simp: backoff_def Let_def split: prod.splits intro!: then_run_ok)

context attempt_contract
begin

lemma finish_attempt_cases:
  obtains (over) es fx sg' w' where "finish_attempt st (run c v sg w) = (es, fx, sg', w', None)"
      and "answer_ok es" and "requests fx \<le> 1" and "\<And>k. \<not> swallowable es k"
      and "fst (run c v sg w) = es"
  | (again) k fx sg' w' where "finish_attempt st (run c v sg w) =
        ([], fx, sg', w', Some (st\<lparr>attemptsUsed := attemptsUsed st + 1, lastRetryableCode := Some k\<rparr>))"
      and "requests fx \<le> 1" and "swallowable (fst (run c v sg w)) k"
      and "run c v sg w = (fst (run c v sg w), fx, sg', w', None)"
proof -
  obtain es fx sg' w' where run: "run c v sg w = (es, fx, sg', w', None)" and ok: "answer_ok es" and one: "requests fx \<le> 1"
    by (rule attempt_cases)
  from ok show thesis
  proof (cases rule: consume_answer)
    case (surfaced k)
    then have "finish_attempt st (run c v sg w) = (es, fx, sg', w', None)"
      by (auto simp: finish_attempt_def run)
    with over ok one surfaced(3) run show thesis by simp
  next
    case (swallowed k)
    then have "finish_attempt st (run c v sg w) =
        ([], fx, sg', w', Some (st\<lparr>attemptsUsed := attemptsUsed st + 1, lastRetryableCode := Some k\<rparr>))"
      by (simp add: finish_attempt_def run)
    with again one swallowed(2) run show thesis by simp
  qed
qed

lemma finish_attempt_ok: "run_ok (finish_attempt st (run c v sg w))"
  by (rule finish_attempt_cases [of st c v sg w]) (simp_all add: run_ok_def)

lemma try_attempt_ok: "run_ok (try_attempt p wait run v c i st sg w)"
  unfolding try_attempt_def by (auto intro!: then_run_ok finish_attempt_ok)

lemma provider_loop_ok: "run_ok (provider_loop k p wait run v c i st sg w)"
  by (induction k arbitrary: i st sg w) (auto intro!: then_run_ok try_attempt_ok)

lemma candidates_loop_ok: "run_ok (candidates_loop p wait run v cs st sg w)"
  by (induction cs arbitrary: st sg w) (auto intro!: then_run_ok provider_loop_ok)

lemma failover_ok: "run_ok (failover_stream resolve p wait run v sg w)"
  unfolding failover_stream_def try_candidates_def
  by (auto intro!: then_run_ok candidates_loop_ok split: sum.splits)

lemma try_attempt_in_budget:
  assumes "attemptsUsed st \<le> maxTotalAttempts p"
  shows "in_budget 1 p st (try_attempt p wait run v c i st sg w)"
proof -
  have tail: "in_budget 1 p st (finish_attempt st (run c v sg w))" if "attemptsUsed st < maxTotalAttempts p" for sg w
    by (rule finish_attempt_cases [of st c v sg w]) (use that in \<open>auto simp: in_budget_def\<close>)
  have quiet: "in_budget 1 p st (then_run m (\<lambda>_ sg w. f sg w))"
    if "requests (run_effects m) = 0" and "\<And>sg w. in_budget 1 p st (f sg w)"
    for m :: "('w, unit) run" and f :: "signal \<Rightarrow> 'w \<Rightarrow> ('w, failover_state) run"
  proof -
    obtain es fx sg w r where m: "m = (es, fx, sg, w, r)" by (cases m)
    show ?thesis
      using that(1) that(2) [of sg w] assms
      by (cases r) (auto simp: m in_budget_def then_run_def run_effects_def split: prod.splits option.splits)
  qed
  show ?thesis
    unfolding try_attempt_def
    by (rule quiet) (auto intro!: quiet tail in_budget_stay assms simp: not_le simp del: One_nat_def)
qed

lemma provider_loop_in_budget:
  "attemptsUsed st \<le> maxTotalAttempts p \<Longrightarrow> in_budget k p st (provider_loop k p wait run v c i st sg w)"
proof (induction k arbitrary: i st sg w)
  case (Suc k)
  have "in_budget (1 + k) p st (provider_loop (Suc k) p wait run v c i st sg w)"
    unfolding provider_loop.simps
    by (rule in_budget_then [OF try_attempt_in_budget [OF Suc.prems]]) (auto intro: in_budget_stay Suc.IH)
  then show ?case by simp
qed (simp add: in_budget_stay)

lemma candidates_loop_in_budget:
  "attemptsUsed st \<le> maxTotalAttempts p \<Longrightarrow>
     in_budget (maxAttemptsPerProvider p * length cs) p st (candidates_loop p wait run v cs st sg w)"
proof (induction cs arbitrary: st sg w)
  case (Cons c cs)
  have "in_budget (maxAttemptsPerProvider p + maxAttemptsPerProvider p * length cs) p st
      (candidates_loop p wait run v (c # cs) st sg w)"
    unfolding candidates_loop.simps
    by (rule in_budget_then [OF provider_loop_in_budget [OF Cons.prems]]) (auto intro: in_budget_stay Cons.IH)
  then show ?case by simp
qed (simp add: in_budget_stay)

lemma try_candidates_requests:
  "requests (run_effects (try_candidates p wait run v cs sg w))
     \<le> min (maxTotalAttempts p) (maxAttemptsPerProvider p * length cs)"
proof -
  let ?st = "\<lparr>attemptsUsed = 0, lastRetryableCode = None, left_loop = False\<rparr>"
  obtain es fx sg' w' r where loop: "candidates_loop p wait run v cs ?st sg w = (es, fx, sg', w', r)"
    by (cases "candidates_loop p wait run v cs ?st sg w")
  have "in_budget (maxAttemptsPerProvider p * length cs) p ?st (candidates_loop p wait run v cs ?st sg w)"
    by (rule candidates_loop_in_budget) simp
  then have "requests fx \<le> min (maxTotalAttempts p) (maxAttemptsPerProvider p * length cs)"
    by (simp add: loop in_budget_def)
  then show ?thesis
    by (cases r) (simp_all add: try_candidates_def loop run_effects_Some, simp add: run_effects_def)
qed

end

section \<open>The abstract failover\<close>

text \<open>
  What the nested loops compute when nobody cancels: candidates and attempt numbers form one
  schedule, cut at the total budget; the answer is that of the first attempt that is more than a
  lone retryable error, and the last swallowed code when there is none.
\<close>

definition schedule :: "retry_policy \<Rightarrow> resolved_route list \<Rightarrow> (resolved_route \<times> nat) list" where
  "schedule p cs = concat (map (\<lambda>c. map (Pair c) [0..<maxAttemptsPerProvider p]) cs)"

definition swallowed_code :: "model_event list \<Rightarrow> stream_code option" where
  "swallowed_code es =
     (if es = [streamErrorEvent RateLimited] then Some RateLimited
      else if es = [streamErrorEvent UpstreamUnavailable] then Some UpstreamUnavailable
      else None)"

fun first_answer ::
  "retry_policy \<Rightarrow> 'w wait_fun \<Rightarrow> 'w attempt_fun \<Rightarrow> jsval \<Rightarrow> (resolved_route \<times> nat) list
     \<Rightarrow> stream_code option \<Rightarrow> 'w \<Rightarrow> model_event list"
where
  "first_answer p wait run v [] code w = [streamErrorEvent (case code of None \<Rightarrow> GatewayError | Some c \<Rightarrow> c)]"
| "first_answer p wait run v ((c, i) # xs) code w =
     (let w1 = (if 0 < i then snd (wait (computeBackoffDelayMs p (jsnat (i - 1))) None w) else w) in
      case run c v None w1 of (es, _, _, w2, _) \<Rightarrow>
        (case swallowed_code es of None \<Rightarrow> es | Some k \<Rightarrow> first_answer p wait run v xs (Some k) w2))"

lemma swallowed_code_iff: "swallowed_code es = Some k \<longleftrightarrow> swallowable es k"
  by (auto simp: swallowed_code_def swallowable_def)

lemma swallowed_code_None: "(\<And>k. \<not> swallowable es k) \<Longrightarrow> swallowed_code es = None"
  using swallowed_code_iff [of es] by (cases "swallowed_code es") auto

lemma abort_check_None [simp]: "abort_check None w = ([], [], None, w, Some ())"
  by (simp add: abort_check_def)

locale failover = attempt_contract run
  for run :: "'w attempt_fun" +
  fixes wait :: "'w wait_fun"
  assumes wait_uncancelled: "fst (wait d None w) = None"
begin

lemma backoff_None:
  "\<exists>fx. backoff p wait i None w =
     ([], fx, None, (if 0 < i then snd (wait (computeBackoffDelayMs p (jsnat (i - 1))) None w) else w), Some ())"
proof (cases "wait (computeBackoffDelayMs p (jsnat (i - 1))) None w")
  case (Pair sg w')
  with wait_uncancelled [of "computeBackoffDelayMs p (jsnat (i - 1))" w] have "sg = None" by simp
  with Pair show ?thesis by (auto simp: backoff_def Let_def then_run_def)
qed

lemma try_attempt_spec:
  assumes "attemptsUsed st < maxTotalAttempts p"
    and "\<And>k w'. events (K (st\<lparr>attemptsUsed := attemptsUsed st + 1, lastRetryableCode := Some k\<rparr>) None w')
      = first_answer p wait run v xs (Some k) w'"
  shows "events (then_run (try_attempt p wait run v c i st None w) K) = first_answer p wait run v ((c, i) # xs) code w"
proof -
  define w1 where "w1 = (if 0 < i then snd (wait (computeBackoffDelayMs p (jsnat (i - 1))) None w) else w)"
  from backoff_None [of p i w] obtain gx where b: "backoff p wait i None w = ([], gx, None, w1, Some ())"
    by (auto simp: w1_def)
  have events_try: "events (then_run (try_attempt p wait run v c i st None w) K) =
      events (then_run (finish_attempt st (run c v None w1)) K)"
    using assms(1) by (simp add: try_attempt_def b events_then, simp add: then_run_def split: prod.splits option.splits)
  show ?thesis
  proof (rule finish_attempt_cases [of st c v None w1])
    fix es fx sg' w'
    assume fin: "finish_attempt st (run c v None w1) = (es, fx, sg', w', None)"
      and no: "\<And>k. \<not> swallowable es k" and es: "fst (run c v None w1) = es"
    have "swallowed_code es = None" using no by (rule swallowed_code_None)
    with fin es show ?thesis
      unfolding events_try by (auto simp: events_then events_def Let_def simp flip: w1_def split: prod.splits)
  next
    fix k fx sg' w'
    assume fin: "finish_attempt st (run c v None w1) =
        ([], fx, sg', w', Some (st\<lparr>attemptsUsed := attemptsUsed st + 1, lastRetryableCode := Some k\<rparr>))"
      and sw: "swallowable (fst (run c v None w1)) k"
      and run: "run c v None w1 = (fst (run c v None w1), fx, sg', w', None)"
    have "sg' = None" using attempt_uncancelled [of c v w1] by (subst (asm) run) (simp add: run_signal_def)
    moreover have "swallowed_code (fst (run c v None w1)) = Some k" using sw by (simp add: swallowed_code_iff)
    ultimately show ?thesis
      unfolding events_try using assms(2) [of k w']
      by (simp add: events_then fin Let_def flip: w1_def) (subst run, simp)
  qed
qed

lemma provider_loop_spec:
  assumes "\<not> left_loop st" and "attemptsUsed st \<le> maxTotalAttempts p"
    and "\<And>st w. attemptsUsed st \<le> maxTotalAttempts p \<Longrightarrow> events (K st None w) =
      first_answer p wait run v (if left_loop st then [] else take (maxTotalAttempts p - attemptsUsed st) ys)
        (lastRetryableCode st) w"
  shows "events (then_run (provider_loop k p wait run v c i st None w) K) =
    first_answer p wait run v (take (maxTotalAttempts p - attemptsUsed st) (map (Pair c) [i..<i + k] @ ys))
      (lastRetryableCode st) w"
  using assms(1,2)
proof (induction k arbitrary: i st w)
  case 0
  then show ?case using assms(3) [of st w] by simp
next
  case (Suc k)
  let ?next = "\<lambda>st' sg w. if left_loop st' then ([], [], sg, w, Some st') else provider_loop k p wait run v c (i + 1) st' sg w"
  have assoc: "events (then_run (then_run m ?next) K) = events (then_run m (\<lambda>st' sg w. then_run (?next st' sg w) K))" for m
    by (auto simp: events_then then_run_def split: prod.splits option.splits) 
  show ?case
  proof (cases "attemptsUsed st = maxTotalAttempts p")
    case True
    with assms(3) [of "st\<lparr>left_loop := True\<rparr>" w] show ?thesis
      by (simp add: try_attempt_def)
  next
    case False
    with Suc.prems have less: "attemptsUsed st < maxTotalAttempts p" by simp
    have upt: "[i..<i + Suc k] = i # [i + 1..<i + 1 + k]" by (simp add: upt_conv_Cons)
    have budget: "maxTotalAttempts p - attemptsUsed st = Suc (maxTotalAttempts p - Suc (attemptsUsed st))"
      using less by simp
    show ?thesis
      unfolding provider_loop.simps assoc upt budget list.map append_Cons take_Suc_Cons
      by (rule try_attempt_spec [OF less]) (use Suc.prems Suc.IH less in \<open>simp del: take_append\<close>)
  qed
qed

lemma candidates_loop_spec:
  assumes "\<not> left_loop st" and "attemptsUsed st \<le> maxTotalAttempts p"
    and "\<And>st w. attemptsUsed st \<le> maxTotalAttempts p \<Longrightarrow> events (K st None w) =
      first_answer p wait run v [] (lastRetryableCode st) w"
  shows "events (then_run (candidates_loop p wait run v cs st None w) K) =
    first_answer p wait run v (take (maxTotalAttempts p - attemptsUsed st) (schedule p cs)) (lastRetryableCode st) w"
  using assms(1,2)
proof (induction cs arbitrary: st w)
  case Nil
  then show ?case using assms(3) [of st w] by (simp add: schedule_def)
next
  case (Cons c cs)
  let ?next = "\<lambda>st' sg w. if left_loop st' then ([], [], sg, w, Some st') else candidates_loop p wait run v cs st' sg w"
  have assoc: "events (then_run (then_run m ?next) K) = events (then_run m (\<lambda>st' sg w. then_run (?next st' sg w) K))" for m
    by (auto simp: events_then then_run_def split: prod.splits option.splits)
  have "events (then_run (provider_loop (maxAttemptsPerProvider p) p wait run v c 0 st None w) (\<lambda>st' sg w. then_run (?next st' sg w) K)) =
    first_answer p wait run v
      (take (maxTotalAttempts p - attemptsUsed st) (map (Pair c) [0..<0 + maxAttemptsPerProvider p] @ schedule p cs))
      (lastRetryableCode st) w"
    by (rule provider_loop_spec [OF Cons.prems]) (simp add: assms(3) Cons.IH)
  then show ?case by (simp add: assoc schedule_def)
qed

lemma try_candidates_spec:
  "events (try_candidates p wait run v cs None w) =
     first_answer p wait run v (take (maxTotalAttempts p) (schedule p cs)) None w"
  unfolding try_candidates_def
  by (subst candidates_loop_spec) (simp_all add: fail_run_def events_def)

end

section \<open>The gateways\<close>

locale route_source =
  fixes resolve :: "string \<Rightarrow> registry_error + resolved_route list"
  assumes few_candidates: "resolve i = Inr cs \<Longrightarrow> cs \<noteq> [] \<and> length cs \<le> Suc max_route_fallbacks"

interpretation registry_routes: route_source "resolveRouteCandidates (registry_after parse ops)" for parse ops
  by unfold_locales (use candidates_ok [OF inv_after] in blast)

locale failover_gateway = failover run wait + route_source resolve
  for run :: "'w attempt_fun" and wait :: "'w wait_fun"
    and resolve :: "string \<Rightarrow> registry_error + resolved_route list"
begin

lemma resolve_with_few: "resolve_with resolve v = Inr cs \<Longrightarrow> length cs \<le> Suc max_route_fallbacks"
  using few_candidates by (auto simp: resolve_with_def split: if_splits)

lemma stream_requests:
  "requests (run_effects (failover_stream resolve p wait run v sg w))
     \<le> min (maxTotalAttempts p) (maxAttemptsPerProvider p * Suc max_route_fallbacks)"
proof (cases "resolve_with resolve v")
  case (Inr cs)
  have "maxAttemptsPerProvider p * length cs \<le> maxAttemptsPerProvider p * Suc max_route_fallbacks"
    by (rule mult_le_mono2 [OF resolve_with_few [OF Inr]])
  with try_candidates_requests [of p wait v cs] show ?thesis
    by (simp add: failover_stream_def run_effects_abort Inr) (meson le_trans)
qed (simp add: failover_stream_def run_effects_abort)

lemma stream_spec:
  "events (failover_stream resolve p wait run v None w) =
     (case resolve_with resolve v of
        Inl _ \<Rightarrow> [streamErrorEvent GatewayError]
      | Inr cs \<Rightarrow> first_answer p wait run v (take (maxTotalAttempts p) (schedule p cs)) None w)"
  by (auto simp: failover_stream_def try_candidates_spec fail_run_def events_def [of "(_, _)"] split: sum.splits)

end

lemma default_openai_adapter: "createOpenAIChatCompletionsAdapter JUndef = Inr (openai_adapter ''max_tokens'')"
  by (simp add: createOpenAIChatCompletionsAdapter_def normalizeTokenLimitField_def)

interpretation gateway_attempts: candidate_attempts "new_attempts credentials http parse f t"
  for credentials http parse f t
  by unfold_locales
    (simp_all add: new_attempts_def default_openai_adapter anthropic_adapter.decode_answer
      anthropic_adapter.decode_uncancelled openai_adapter.decode_answer openai_adapter.decode_uncancelled)

lemma default_wait_None: "fst (defaultRetryWait d None w) = None"
  by (simp add: defaultRetryWait_def)

interpretation gateway: failover_gateway
  "runCandidateAttempt (new_attempts credentials http parse f t)" defaultRetryWait
  "resolveRouteCandidates (registry_after parse ops)"
  for credentials http parse f t ops
  by unfold_locales (rule default_wait_None)

text \<open>
  Whatever the registry, the policy, the providers, the bytes they answer and the moment the
  caller cancels, the stream of the resilient gateway returns, ends with exactly one completion or
  error, and its events are well formed: no text after a tool call, distinct call ids, fixed errors.
\<close>

theorem resilient_stream_ends_once:
  "snd (snd (snd (snd (resilient_stream (registry_after parse ops) (new_attempts credentials http parse f t) p wait v sg w)))) = None
   \<and> ends_once (events (resilient_stream (registry_after parse ops) (new_attempts credentials http parse f t) p wait v sg w))
   \<and> stream_wf (events (resilient_stream (registry_after parse ops) (new_attempts credentials http parse f t) p wait v sg w))"
proof -
  let ?m = "resilient_stream (registry_after parse ops) (new_attempts credentials http parse f t) p wait v sg w"
  have ret: "snd (snd (snd (snd ?m))) = None"
    by (auto simp: resilient_stream_def failover_stream_def try_candidates_def fail_run_def
        intro!: then_run_returns split: sum.splits)
  moreover have "run_ok ?m"
    unfolding resilient_stream_def by (rule gateway_attempts.failover_ok)
  ultimately show ?thesis
    by (cases ?m) (auto simp: run_ok_def events_def answer_ok_def)
qed

text \<open>
  One call of the resilient gateway never sends more requests than the total budget, nor more
  than the attempts per provider times the five providers a route can name.
\<close>

theorem resilient_requests_bounded:
  "requests (run_effects (resilient_stream (registry_after parse ops) (new_attempts credentials http parse f t) p
      defaultRetryWait v sg w))
   \<le> min (maxTotalAttempts p) (maxAttemptsPerProvider p * Suc max_route_fallbacks)"
  unfolding resilient_stream_def by (rule gateway.stream_requests)

text \<open>
  C3: without cancellation the nested loops of the gateway compute the abstract failover: along the
  schedule of candidates and attempt numbers, cut at the total budget, the answer is that of the
  first attempt that is not a lone retryable error, passed on unchanged; so nothing is sent again
  after output was shown.
\<close>

theorem resilient_stream_refines_failover:
  "events (resilient_stream (registry_after parse ops) (new_attempts credentials http parse f t) p defaultRetryWait v None w) =
    (case resolve_with (resolveRouteCandidates (registry_after parse ops)) v of
       Inl _ \<Rightarrow> [streamErrorEvent GatewayError]
     | Inr cs \<Rightarrow>
         first_answer p defaultRetryWait (runCandidateAttempt (new_attempts credentials http parse f t)) v
           (take (maxTotalAttempts p) (schedule p cs)) None w)"
  unfolding resilient_stream_def by (rule gateway.stream_spec)

text \<open>
  The single-shot gateway returns one well-formed answer and sends at most one request.
\<close>

theorem routed_stream_single_shot:
  "ends_once (events (routed_stream reg (new_attempts credentials http parse f t) v sg w))
   \<and> stream_wf (events (routed_stream reg (new_attempts credentials http parse f t) v sg w))
   \<and> requests (run_effects (routed_stream reg (new_attempts credentials http parse f t) v sg w)) \<le> 1"
proof -
  let ?m = "routed_stream reg (new_attempts credentials http parse f t) v sg w"
  have "snd (snd (snd (snd ?m))) = None"
    by (auto simp: routed_stream_def fail_run_def intro!: then_run_returns runCandidateAttempt_returns split: sum.splits)
  moreover have "run_ok ?m"
    unfolding routed_stream_def
    by (auto intro!: then_run_ok gateway_attempts.candidate_answer split: sum.splits)
  moreover have "requests (run_effects ?m) \<le> 1"
    using runCandidateAttempt_requests [of "new_attempts credentials http parse f t"]
    by (auto simp: routed_stream_def run_effects_abort split: sum.splits)
  ultimately show ?thesis
    by (cases ?m) (auto simp: run_ok_def events_def answer_ok_def)
qed

text \<open>
  C37: the request of an attempt carries the secret that the credential store answered for the
  candidate's reference, in the headers of the protocol only: its address is the provider's base
  address with the fixed endpoint and its body the encoded request, both without the secret.
\<close>

theorem secret_in_headers_only:
  assumes "Sent q \<in> set (run_effects (runCandidateAttempt (new_attempts credentials http parse f t) cand v sg w))"
  shows "\<exists>ref secret. rr_credential cand = Some ref \<and> fst (credentials ref w) = CredentialSecret secret \<and> secret \<noteq> []
    \<and> hr_headers q = headersFor (rr_protocol cand) secret
    \<and> buildProviderUrl parse (rr_base_url cand) (endpointFor (rr_protocol cand)) = Some (hr_url q)
    \<and> (\<exists>body. (if rr_protocol cand = AnthropicMessages then encodeAnthropicMessagesRequest v
              else encodeOpenAIChatRequest v ''max_tokens'') = Inr body
          \<and> json_stringify body = Some (hr_body q))"
proof -
  from assms obtain fx w' iv where
    prep: "prepareInvocation (new_attempts credentials http parse f t) cand v w = (fx, w', Some iv)" and
    q: "q = \<lparr>hr_url = iv_url iv, hr_headers = iv_headers iv, hr_body = iv_body iv\<rparr>"
    by (rule runCandidateAttempt_sent)
  from prep obtain ref secret where ref: "rr_credential cand = Some ref"
    and secret: "fst (credentials ref w) = CredentialSecret secret" "secret \<noteq> []"
    and built: "build_invocation (new_attempts credentials http parse f t) cand v secret = Some iv"
    by (auto simp: prepareInvocation_def new_attempts_def split: option.splits if_splits prod.splits credential_read.splits)
  from built obtain body where
    "(if rr_protocol cand = AnthropicMessages then encodeAnthropicMessagesRequest v
      else encodeOpenAIChatRequest v ''max_tokens'') = Inr body"
    and "json_stringify body = Some (iv_body iv)"
    and "buildProviderUrl parse (rr_base_url cand) (endpointFor (rr_protocol cand)) = Some (iv_url iv)"
    and "iv_headers iv = headersFor (rr_protocol cand) secret"
    by (auto simp: build_invocation_def Let_def new_attempts_def default_openai_adapter openai_adapter_def
        createAnthropicMessagesAdapter_def split: sum.splits option.splits if_splits)
  with ref secret show ?thesis by (auto simp: q)
qed

definition sample_credentials :: "string \<Rightarrow> unit \<Rightarrow> credential_read \<times> unit" where
  "sample_credentials ref w = (CredentialSecret ''k'', w)"

definition sample_http :: "http_request \<Rightarrow> unit \<Rightarrow> transport \<times> unit" where
  "sample_http q w = (TransportReject, w)"

definition sample_parse :: url_parser where
  "sample_parse s = Some \<lparr>url_protocol = ''https:'', url_username = [], url_password = []\<rparr>"

definition sample_candidate :: resolved_route where
  "sample_candidate =
     \<lparr>rr_route = ''r'', rr_provider = ''a'', rr_protocol = AnthropicMessages, rr_base_url = ''https://h/'',
      rr_model = ''m'', rr_credential = Some ''credential:k''\<rparr>"

theorem secret_in_headers_only_witness:
  "\<exists>q. hr_url q = ''https://h/v1/messages'' \<and> hr_headers q = buildAnthropicHeaders ''k''
     \<and> Sent q \<in> set (run_effects (runCandidateAttempt
          (new_attempts sample_credentials sample_http sample_parse JUndef JUndef) sample_candidate tool_turn_request None ()))"
proof -
  let ?m = "runCandidateAttempt (new_attempts sample_credentials sample_http sample_parse JUndef JUndef)
    sample_candidate tool_turn_request None ()"
  have "list_ex is_sent (run_effects ?m)" by code_simp
  then obtain q where q: "Sent q \<in> set (run_effects ?m)"
    by (auto simp: list_ex_iff elim: is_sent.elims)
  from secret_in_headers_only [OF q] q show ?thesis
    by (auto simp: sample_candidate_def sample_credentials_def headersFor_def buildProviderUrl_def sample_parse_def
        strip_trailing_slashes_def endpointFor_def anthropic_messages_endpoint_def)
qed

end
