(* ===== verification/Agent_Core.thy ===== *)
theory Agent_Core
  imports Adapter_Common
begin

text \<open>
  \<open>packages/agent-core/src/agent-core.ts\<close>: one request to a model gateway, validated first and
  with every gateway error replaced by one of a fixed set.  The gateway is a parameter: a function of
  the request, the signal and the world that answers a source of events.  A stream that throws when it
  is created and one whose iterator rejects are handled by the same \<open>catch\<close>, so both are sources
  that end with \<open>SrcThrow\<close>.
\<close>

section \<open>Events\<close>

datatype agent_event =
    ARouteSelected string string string
  | ATextDelta string string
  | AToolCall string jsval jsval jsval
  | AUsage string jsnum jsnum
  | ACompleted string
  | AError string string string bool

type_synonym 'w gateway = "jsval \<Rightarrow> signal \<Rightarrow> 'w \<Rightarrow> model_event source \<times> 'w"

definition safe_gateway_error_codes :: "string list" where
  "safe_gateway_error_codes =
     [''aborted'', ''rate_limited'', ''upstream_unavailable'', ''provider_protocol_error'', ''gateway_error'']"

definition gateway_error_message :: string where
  "gateway_error_message = ''Model gateway request failed.''"

definition gateway_aborted_message :: string where
  "gateway_aborted_message = ''Request aborted.''"

definition sanitizedGatewayError :: "string \<Rightarrow> jsval \<Rightarrow> jsval \<Rightarrow> agent_event" where
  "sanitizedGatewayError rid code retryable =
     (let safeCode = (if is_string code \<and> as_str code \<in> set safe_gateway_error_codes then as_str code
                      else ''gateway_error'')
      in AError rid safeCode
           (if safeCode = ''aborted'' then gateway_aborted_message else gateway_error_message)
           (retryable = JBool True))"

text \<open>The validator throws nothing but an \<open>AgentValidationError\<close> on acyclic values.\<close>

definition invalidRequestError :: "jsval \<Rightarrow> validation_error \<Rightarrow> agent_event" where
  "invalidRequestError request e =
     AError (if is_string (field request ''requestId'') then as_str (field request ''requestId'') else [])
       (fst e) (snd e) False"

fun mapGatewayEvent :: "string \<Rightarrow> model_event \<Rightarrow> agent_event" where
  "mapGatewayEvent rid (MTextDelta t) = ATextDelta rid t"
| "mapGatewayEvent rid (MToolCall i n v) = AToolCall rid i n v"
| "mapGatewayEvent rid (MUsage a b) = AUsage rid a b"
| "mapGatewayEvent rid MCompleted = ACompleted rid"
| "mapGatewayEvent rid (MError c m r) = sanitizedGatewayError rid c r"
| "mapGatewayEvent rid MOther = sanitizedGatewayError rid (JStr ''gateway_error'') (JBool False)"

section \<open>run\<close>

text \<open>
  The generator in two parts: up to its first event, which is either the validation error, after
  which it returns, or \<open>route_selected\<close>; and from there, once the consumer asks for more.
\<close>

definition core_start :: "jsval \<Rightarrow> agent_event + agent_event" where
  "core_start request =
     (case validateModelRequest request of
        Inl e \<Rightarrow> Inl (invalidRequestError request e)
      | Inr _ \<Rightarrow>
          Inr (ARouteSelected (as_str (field request ''requestId'')) (as_str (field request ''routeId''))
                 (as_str (field request ''model''))))"

definition core_stream :: "string \<Rightarrow> model_event source \<Rightarrow> agent_event list" where
  "core_stream rid src =
     map (mapGatewayEvent rid) (fst src)
     @ (case snd src of
          SrcDone \<Rightarrow> []
        | SrcThrow \<Rightarrow> [AError rid ''gateway_error'' gateway_error_message False])"

definition core_run :: "'w gateway \<Rightarrow> jsval \<Rightarrow> signal \<Rightarrow> 'w \<Rightarrow> agent_event list \<times> 'w" where
  "core_run gateway request sg w =
     (case core_start request of
        Inl e \<Rightarrow> ([e], w)
      | Inr e \<Rightarrow>
          (case gateway request sg w of
             (src, w') \<Rightarrow> (e # core_stream (as_str (field request ''requestId'')) src, w')))"

section \<open>Properties\<close>

text \<open>What an error event of the core may say: a code of the fixed set with its fixed message.\<close>

fun core_event_ok :: "agent_event \<Rightarrow> bool" where
  "core_event_ok (AError rid c m r) \<longleftrightarrow>
     c \<in> set safe_gateway_error_codes
     \<and> m = (if c = ''aborted'' then gateway_aborted_message else gateway_error_message)"
| "core_event_ok _ = True"

fun event_request :: "agent_event \<Rightarrow> string" where
  "event_request (ARouteSelected rid _ _) = rid"
| "event_request (ATextDelta rid _) = rid"
| "event_request (AToolCall rid _ _ _) = rid"
| "event_request (AUsage rid _ _) = rid"
| "event_request (ACompleted rid) = rid"
| "event_request (AError rid _ _ _) = rid"

lemma sanitizedGatewayError_ok [simp]:
  "core_event_ok (sanitizedGatewayError rid c r)" "event_request (sanitizedGatewayError rid c r) = rid"
  by (simp_all add: sanitizedGatewayError_def Let_def safe_gateway_error_codes_def)

lemma mapGatewayEvent_ok [simp]:
  "core_event_ok (mapGatewayEvent rid e)" "event_request (mapGatewayEvent rid e) = rid"
  by (cases e; simp)+

lemma core_stream_ok: "list_all (\<lambda>e. core_event_ok e \<and> event_request e = rid) (core_stream rid src)"
  by (auto simp: core_stream_def list_all_iff safe_gateway_error_codes_def split: src_end.splits)

text \<open>
  An accepted request is announced first and every later event belongs to it; whatever codes and
  messages the gateway puts into its errors, an error event of the core has one of the five safe codes
  and the fixed message of that code.
\<close>

theorem core_errors_sanitized:
  assumes "validateModelRequest request = Inr ()"
  shows "\<exists>tail w'. core_run gateway request sg w =
      (ARouteSelected (as_str (field request ''requestId'')) (as_str (field request ''routeId''))
         (as_str (field request ''model'')) # tail, w')
    \<and> list_all (\<lambda>e. core_event_ok e \<and> event_request e = as_str (field request ''requestId'')) tail"
  using core_stream_ok [of "as_str (field request ''requestId'')"]
  by (auto simp: core_run_def core_start_def assms split: prod.splits)

definition plain_request :: jsval where
  "plain_request =
     request_value
       \<lparr>requestId = ''q'', routeId = ''r'', model = ''m'', messages = [\<lparr>role = User, content = [TextBlock ''a'']\<rparr>],
        tools = [], maxTokens = Fin 10\<rparr>"

definition leaking_gateway :: "unit gateway" where
  "leaking_gateway v sg w =
     (([MTextDelta ''x'', MError (JStr ''sk-secret'') ''key sk-secret rejected'' (JBool True)], SrcDone), w)"

theorem core_errors_sanitized_witness:
  "fst (core_run leaking_gateway plain_request None ()) =
     [ARouteSelected ''q'' ''r'' ''m'', ATextDelta ''q'' ''x'', AError ''q'' ''gateway_error'' gateway_error_message True]
   \<and> list_all core_event_ok (tl (fst (core_run leaking_gateway plain_request None ())))"
proof
  have "is_ok (validateModelRequest plain_request)" by code_simp
  then have ok: "validateModelRequest plain_request = Inr ()" by (auto simp: is_ok_iff)
  show "list_all core_event_ok (tl (fst (core_run leaking_gateway plain_request None ())))"
    using core_errors_sanitized [OF ok, of leaking_gateway None "()"] by (auto simp: list_all_iff)
qed code_simp

end
