(* ===== verification/Agent_Loop.thy ===== *)
theory Agent_Loop
  imports Agent_Core
begin

text \<open>
  \<open>packages/agent-runtime/src\<close>: \<open>errors.ts\<close>, \<open>types.ts\<close> and \<open>agent-loop.ts\<close>, the bounded
  multi-turn loop.

  The gateway and the tool executor are parameters on a world \<open>'w\<close>.  The loop is a generator in
  the sense of theory \<open>Prelude\<close>: its effects are the model requests it makes and the tools it
  runs, in order.
\<close>

section \<open>Errors and limits\<close>

datatype loop_error =
    InvalidLoopOptions
  | LoopAborted
  | ToolExecutionUnavailable
  | UnknownTool
  | InvalidToolCall
  | DuplicateToolCallId
  | TooManyToolCalls
  | MaxTurnsExceeded
  | ToolExecutionFailed
  | IncompleteModelResponse
  | GatewayFailure

fun loop_error_code :: "loop_error \<Rightarrow> string" where
  "loop_error_code InvalidLoopOptions = ''invalid_loop_options''"
| "loop_error_code LoopAborted = ''aborted''"
| "loop_error_code ToolExecutionUnavailable = ''tool_execution_unavailable''"
| "loop_error_code UnknownTool = ''unknown_tool''"
| "loop_error_code InvalidToolCall = ''invalid_tool_call''"
| "loop_error_code DuplicateToolCallId = ''duplicate_tool_call_id''"
| "loop_error_code TooManyToolCalls = ''too_many_tool_calls''"
| "loop_error_code MaxTurnsExceeded = ''max_turns_exceeded''"
| "loop_error_code ToolExecutionFailed = ''tool_execution_failed''"
| "loop_error_code IncompleteModelResponse = ''incomplete_model_response''"
| "loop_error_code GatewayFailure = ''gateway_error''"

fun agentLoopMessage :: "loop_error \<Rightarrow> string" where
  "agentLoopMessage InvalidLoopOptions = ''Agent loop options are invalid.''"
| "agentLoopMessage LoopAborted = ''Request aborted.''"
| "agentLoopMessage ToolExecutionUnavailable = ''Tool execution is unavailable.''"
| "agentLoopMessage UnknownTool = ''The requested tool is not available.''"
| "agentLoopMessage InvalidToolCall = ''The model returned an invalid tool call.''"
| "agentLoopMessage DuplicateToolCallId = ''The model returned a duplicate tool call id.''"
| "agentLoopMessage TooManyToolCalls = ''The model returned too many tool calls.''"
| "agentLoopMessage MaxTurnsExceeded = ''The agent loop reached its maximum number of turns.''"
| "agentLoopMessage ToolExecutionFailed = ''Tool execution failed.''"
| "agentLoopMessage IncompleteModelResponse = ''The model stream ended before completion.''"
| "agentLoopMessage GatewayFailure = ''Model gateway request failed.''"

definition tool_failure_content :: string where
  "tool_failure_content = agentLoopMessage ToolExecutionFailed"

text \<open>
  An injected dependency is absent, is an object without the method, or has it
  (\<open>hasCallableMethod\<close>).
\<close>

datatype 'f injected = Absent | NotCallable | Callable 'f

definition default_max_turns :: nat where "default_max_turns = 8"
definition default_max_tool_calls :: nat where "default_max_tool_calls = 16"
definition default_max_result_bytes :: nat where "default_max_result_bytes = 65536"

record tool_request =
  tr_id :: string
  tr_name :: string
  tr_input :: jsval

datatype tool_answer = ToolThrew | ToolRejected | ToolAnswered jsval

type_synonym 'w executor = "tool_request \<Rightarrow> signal \<Rightarrow> 'w \<Rightarrow> tool_answer \<times> 'w"

record 'w agent_loop =
  al_gateway :: "'w gateway"
  al_executor :: "'w executor option"
  al_max_turns :: nat
  al_max_calls :: nat
  al_max_bytes :: nat

definition resolveLimit :: "jsval \<Rightarrow> nat \<Rightarrow> loop_error + nat" where
  "resolveLimit v fallback =
     (if v = JUndef then Inr fallback
      else (case v of
              JNum n \<Rightarrow> if \<not> is_safe_integer n \<or> num_le n (Fin 0) then Inl InvalidLoopOptions else Inr (num_nat n)
            | _ \<Rightarrow> Inl InvalidLoopOptions))"

definition resolveAgentLoopOptions ::
  "'w gateway injected \<Rightarrow> 'w executor injected \<Rightarrow> jsval \<Rightarrow> jsval \<Rightarrow> jsval \<Rightarrow> loop_error + 'w agent_loop"
where
  "resolveAgentLoopOptions gateway executor maxTurns maxCalls maxBytes =
     (case gateway of
        Callable g \<Rightarrow>
          (if executor = NotCallable then Inl InvalidLoopOptions
           else
             rbind (resolveLimit maxTurns default_max_turns) (\<lambda>t.
             rbind (resolveLimit maxCalls default_max_tool_calls) (\<lambda>c.
             rbind (resolveLimit maxBytes default_max_result_bytes) (\<lambda>b.
             Inr \<lparr>al_gateway = g, al_executor = (case executor of Callable e \<Rightarrow> Some e | _ \<Rightarrow> None),
                  al_max_turns = t, al_max_calls = c, al_max_bytes = b\<rparr>))))
      | _ \<Rightarrow> Inl InvalidLoopOptions)"

section \<open>Copies\<close>

text \<open>
  \<open>cloneJsonValue\<close> rebuilds an object by assignment.  Assigning to \<open>__proto__\<close> does not add a
  property: an object or an array becomes the prototype of the copy, which is no plain object
  any more, \<open>null\<close> clears the prototype, and a primitive is ignored.
\<close>

definition proto_key :: string where
  "proto_key = ''__proto__''"

definition rebuild_object :: "(string \<times> jsval) list \<Rightarrow> jsval" where
  "rebuild_object kvs =
     (let own = filter (\<lambda>kv. fst kv \<noteq> proto_key) kvs in
      case map_of kvs proto_key of
        Some (JObj _) \<Rightarrow> JInst own
      | Some (JArr _) \<Rightarrow> JInst own
      | Some (JInst _) \<Rightarrow> JInst own
      | _ \<Rightarrow> JObj own)"

fun clone_json :: "jsval \<Rightarrow> jsval" where
  "clone_json (JArr vs) = JArr (map clone_json vs)"
| "clone_json (JObj kvs) = rebuild_object (map (\<lambda>kv. (fst kv, clone_json (snd kv))) kvs)"
| "clone_json v = v"

definition cloneJsonValue :: "jsval \<Rightarrow> jsval" where
  "cloneJsonValue v = (if \<not> isJsonValue v then v else clone_json v)"

definition cloneContentBlock :: "jsval \<Rightarrow> jsval" where
  "cloneContentBlock b =
     (if \<not> isPlainObject b then b
      else if field b ''type'' = JStr ''text'' then
        JObj [(''type'', JStr ''text''), (''text'', field b ''text'')]
      else if field b ''type'' = JStr ''tool_call'' then
        JObj [(''type'', JStr ''tool_call''), (''id'', field b ''id''), (''name'', field b ''name''),
              (''input'', cloneJsonValue (field b ''input''))]
      else if field b ''type'' = JStr ''tool_result'' then
        JObj ([(''type'', JStr ''tool_result''), (''toolCallId'', field b ''toolCallId''),
               (''content'', field b ''content'')]
              @ (if field b ''isError'' = JUndef then []
                 else [(''isError'', JBool (field b ''isError'' = JBool True))]))
      else b)"

definition clone_message :: "jsval \<Rightarrow> jsval" where
  "clone_message m =
     (let source = (if isPlainObject m then m else JObj []);
          blocks = (if is_array (field source ''content'') then as_arr (field source ''content'') else [])
      in JObj [(''role'', field source ''role''), (''content'', JArr (map cloneContentBlock blocks))])"

definition cloneMessages :: "jsval \<Rightarrow> jsval list" where
  "cloneMessages raw = (if \<not> is_array raw then [] else map clone_message (as_arr raw))"

definition clone_tool :: "jsval \<Rightarrow> jsval" where
  "clone_tool t =
     (let source = (if isPlainObject t then t else JObj []) in
      JObj [(''name'', field source ''name''), (''description'', field source ''description''),
            (''inputSchema'', cloneJsonValue (field source ''inputSchema''))])"

definition cloneToolDefinitions :: "jsval \<Rightarrow> jsval list" where
  "cloneToolDefinitions raw = (if \<not> is_array raw then [] else map clone_tool (as_arr raw))"

definition collectToolNames :: "jsval \<Rightarrow> string list" where
  "collectToolNames raw =
     (if \<not> is_array raw then []
      else concat (map (\<lambda>t. if isPlainObject t \<and> is_string (field t ''name'') then [as_str (field t ''name'')] else [])
                     (as_arr raw)))"

definition message_call_ids :: "jsval \<Rightarrow> string list" where
  "message_call_ids m =
     (if \<not> isPlainObject m \<or> \<not> is_array (field m ''content'') then []
      else concat (map (\<lambda>b.
             if isPlainObject b \<and> field b ''type'' = JStr ''tool_call'' \<and> is_string (field b ''id'')
             then [as_str (field b ''id'')] else []) (as_arr (field m ''content''))))"

definition collectToolCallIds :: "jsval \<Rightarrow> string list" where
  "collectToolCallIds raw =
     (if \<not> is_array raw then [] else concat (map message_call_ids (as_arr raw)))"

definition buildTurnRequest :: "jsval \<Rightarrow> jsval list \<Rightarrow> jsval" where
  "buildTurnRequest request msgs =
     JObj [(''requestId'', field request ''requestId''), (''routeId'', field request ''routeId''),
           (''model'', field request ''model''), (''messages'', JArr (cloneMessages (JArr msgs))),
           (''tools'', JArr (cloneToolDefinitions (field request ''tools''))),
           (''maxTokens'', field request ''maxTokens'')]"

section \<open>Events and effects\<close>

datatype loop_event =
    LTurnStarted string nat
  | LRouteSelected string nat string string
  | LTextDelta string nat string
  | LToolCall string nat string string jsval
  | LUsage string nat jsnum jsnum
  | LToolStarted string nat string string
  | LToolFinished string nat string bool
  | LCompleted string nat
  | LLoopCompleted string nat
  | LError string nat string string bool

datatype loop_effect = ModelAsked jsval | ToolRun tool_request

type_synonym ('w, 'a) loop_gen = "(loop_event, loop_effect, 'w, 'a) gen"

definition runtimeError :: "string \<Rightarrow> nat \<Rightarrow> loop_error \<Rightarrow> loop_event" where
  "runtimeError rid turn k = LError rid turn (loop_error_code k) (agentLoopMessage k) False"

definition stop_with :: "loop_event \<Rightarrow> signal \<Rightarrow> 'w \<Rightarrow> ('w, 'a) loop_gen" where
  "stop_with e sg w = ([e], [], sg, w, None)"

definition say :: "loop_event list \<Rightarrow> 'a \<Rightarrow> signal \<Rightarrow> 'w \<Rightarrow> ('w, 'a) loop_gen" where
  "say es a sg w = (es, [], sg, w, Some a)"

definition loop_check :: "string \<Rightarrow> nat \<Rightarrow> signal \<Rightarrow> 'w \<Rightarrow> ('w, unit) loop_gen" where
  "loop_check rid turn sg w =
     (case observe sg of (aborted, sg') \<Rightarrow>
        if aborted then stop_with (runtimeError rid turn LoopAborted) sg' w else say [] () sg' w)"

section \<open>Reading one turn\<close>

definition readToolCall :: "jsval \<Rightarrow> jsval \<Rightarrow> jsval \<Rightarrow> string list \<Rightarrow> loop_error + tool_request" where
  "readToolCall i n input seen =
     (if \<not> is_string i \<or> as_str i = [] then Inl InvalidToolCall
      else if \<not> is_string n \<or> as_str n = [] then Inl InvalidToolCall
      else if \<not> isJsonValue input then Inl InvalidToolCall
      else if as_str i \<in> set seen then Inl DuplicateToolCallId
      else Inr \<lparr>tr_id = as_str i, tr_name = as_str n, tr_input = cloneJsonValue input\<rparr>)"

text \<open>The locals of a turn, and how its inner loop was left.\<close>

record turn =
  tu_texts :: "string list"
  tu_calls :: "tool_request list"
  tu_completed :: bool
  tu_seen :: "string list"

datatype turn_exit = StreamEnded | GatewayFailed loop_event | CallRefused loop_error

text \<open>The body of the loop for one event: what it yields, the turn afterwards, and the break.\<close>

fun handle_event :: "string \<Rightarrow> nat \<Rightarrow> agent_event \<Rightarrow> turn \<Rightarrow> loop_event list \<times> turn \<times> turn_exit option" where
  "handle_event rid i (ARouteSelected _ route m) t = ([LRouteSelected rid i route m], t, None)"
| "handle_event rid i (ATextDelta _ s) t =
     ([LTextDelta rid i s], t\<lparr>tu_texts := tu_texts t @ [s]\<rparr>, None)"
| "handle_event rid i (AUsage _ a b) t = ([LUsage rid i a b], t, None)"
| "handle_event rid i (ACompleted _) t = ([LCompleted rid i], t\<lparr>tu_completed := True\<rparr>, None)"
| "handle_event rid i (AError _ c m r) t = ([], t, Some (GatewayFailed (LError rid i c m r)))"
| "handle_event rid i (AToolCall _ k n input) t =
     (case readToolCall k n input (tu_seen t) of
        Inl e \<Rightarrow> ([], t, Some (CallRefused e))
      | Inr call \<Rightarrow>
          ([LToolCall rid i (tr_id call) (tr_name call) (cloneJsonValue (tr_input call))],
           t\<lparr>tu_seen := tu_seen t @ [tr_id call], tu_calls := tu_calls t @ [call]\<rparr>, None))"

text \<open>
  \<open>nextStep\<close> reads the flag and asks for the next event; the answer races the abort event.
  \<open>read_pending\<close> starts where an event has been asked for.
\<close>

fun read_pending ::
  "string \<Rightarrow> nat \<Rightarrow> agent_event list \<Rightarrow> turn \<Rightarrow> signal \<Rightarrow> 'w \<Rightarrow> ('w, turn \<times> turn_exit) loop_gen"
where
  "read_pending rid i [] t sg w = then_run (loop_check rid i sg w) (\<lambda>_ sg w. say [] (t, StreamEnded) sg w)"
| "read_pending rid i (e # es) t sg w =
     then_run (loop_check rid i sg w) (\<lambda>_ sg w.
     case handle_event rid i e t of (out, t', exit) \<Rightarrow>
       then_run (say out () sg w) (\<lambda>_ sg w.
       case exit of
         Some x \<Rightarrow> say [] (t', x) sg w
       | None \<Rightarrow> then_run (loop_check rid i sg w) (\<lambda>_ sg w. read_pending rid i es t' sg w)))"

text \<open>
  A turn's stream: Agent Core answers \<open>route_selected\<close>, or the validation error, before it calls
  the gateway, which happens when the loop asks for the second event.
\<close>

definition read_turn ::
  "'w gateway \<Rightarrow> string \<Rightarrow> nat \<Rightarrow> jsval \<Rightarrow> turn \<Rightarrow> signal \<Rightarrow> 'w \<Rightarrow> ('w, turn \<times> turn_exit) loop_gen"
where
  "read_turn gateway rid i request t sg w =
     then_run (loop_check rid i sg w) (\<lambda>_ sg w.
     case core_start request of
       Inl e \<Rightarrow> read_pending rid i [e] t sg w
     | Inr e \<Rightarrow>
         then_run (loop_check rid i sg w) (\<lambda>_ sg w.
         then_run (say (fst (handle_event rid i e t)) () sg w) (\<lambda>_ sg w.
         then_run (loop_check rid i sg w) (\<lambda>_ sg w.
         case gateway request sg w of (src, w') \<Rightarrow>
           then_run ([], [ModelAsked request], sg, w', Some ()) (\<lambda>_ sg w.
           read_pending rid i (core_stream (as_str (field request ''requestId'')) src) t sg w)))))"

section \<open>Running the tools\<close>

definition classifyToolResult :: "jsval \<Rightarrow> nat \<Rightarrow> string \<times> bool" where
  "classifyToolResult raw maxBytes =
     (if \<not> isPlainObject raw then (tool_failure_content, True)
      else if \<not> is_string (field raw ''content'') then (tool_failure_content, True)
      else if field raw ''isError'' \<noteq> JUndef \<and> \<not> is_bool (field raw ''isError'') then (tool_failure_content, True)
      else if maxBytes < utf8ByteLength (as_str (field raw ''content'')) then (tool_failure_content, True)
      else (as_str (field raw ''content''), field raw ''isError'' = JBool True))"

text \<open>
  \<open>executeTool\<close>: the flag is read, the executor is called, and unless it threw at once its
  promise races the abort event.  \<open>None\<close> is the outcome \<open>aborted\<close>; a failed call is the value
  \<open>undefined\<close>.
\<close>

definition executeTool ::
  "'w executor \<Rightarrow> tool_request \<Rightarrow> signal \<Rightarrow> 'w \<Rightarrow> ('w, jsval option) loop_gen"
where
  "executeTool execute request sg w =
     (case observe sg of (aborted, sg1) \<Rightarrow>
        if aborted then say [] None sg1 w
        else
          (case execute request sg1 w of (answer, w') \<Rightarrow>
             if answer = ToolThrew then ([], [ToolRun request], sg1, w', Some (Some JUndef))
             else
               (case observe sg1 of (aborted', sg2) \<Rightarrow>
                  ([], [ToolRun request], sg2, w',
                   Some (if aborted' then None
                         else Some (case answer of ToolAnswered v \<Rightarrow> v | _ \<Rightarrow> JUndef))))))"

definition result_block :: "string \<Rightarrow> string \<times> bool \<Rightarrow> jsval" where
  "result_block i c =
     JObj ([(''type'', JStr ''tool_result''), (''toolCallId'', JStr i), (''content'', JStr (fst c))]
           @ (if snd c then [(''isError'', JBool True)] else []))"

fun run_tools ::
  "'w executor \<Rightarrow> nat \<Rightarrow> string \<Rightarrow> nat \<Rightarrow> tool_request list \<Rightarrow> signal \<Rightarrow> 'w \<Rightarrow> ('w, jsval list) loop_gen"
where
  "run_tools execute maxBytes rid i [] sg w = say [] [] sg w"
| "run_tools execute maxBytes rid i (call # calls) sg w =
     then_run (loop_check rid i sg w) (\<lambda>_ sg w.
     then_run (say [LToolStarted rid i (tr_id call) (tr_name call)] () sg w) (\<lambda>_ sg w.
     then_run (executeTool execute (call\<lparr>tr_input := cloneJsonValue (tr_input call)\<rparr>) sg w) (\<lambda>outcome sg w.
     case outcome of
       None \<Rightarrow> stop_with (runtimeError rid i LoopAborted) sg w
     | Some raw \<Rightarrow>
         then_run (say [LToolFinished rid i (tr_id call) (snd (classifyToolResult raw maxBytes))] () sg w) (\<lambda>_ sg w.
         then_run (run_tools execute maxBytes rid i calls sg w) (\<lambda>blocks sg w.
         say [] (result_block (tr_id call) (classifyToolResult raw maxBytes) # blocks) sg w)))))"

definition call_block :: "tool_request \<Rightarrow> jsval" where
  "call_block c =
     JObj [(''type'', JStr ''tool_call''), (''id'', JStr (tr_id c)), (''name'', JStr (tr_name c)),
           (''input'', cloneJsonValue (tr_input c))]"

definition assistant_blocks :: "turn \<Rightarrow> jsval list" where
  "assistant_blocks t =
     (let assistantText = concat (tu_texts t) in
      (if assistantText \<noteq> [] then [JObj [(''type'', JStr ''text''), (''text'', JStr assistantText)]] else [])
      @ map call_block (tu_calls t))"

definition append_turn :: "jsval list \<Rightarrow> turn \<Rightarrow> jsval list \<Rightarrow> jsval list" where
  "append_turn msgs t results =
     msgs @ [JObj [(''role'', JStr ''assistant''), (''content'', JArr (assistant_blocks t))],
             JObj [(''role'', JStr ''tool''), (''content'', JArr results)]]"

section \<open>The turns\<close>

text \<open>
  What follows the stream of a turn: the end of the loop, or the conversation the next turn
  starts from.
\<close>

definition after_stream ::
  "'w agent_loop \<Rightarrow> string \<Rightarrow> string list \<Rightarrow> nat \<Rightarrow> jsval list \<Rightarrow> turn \<Rightarrow> turn_exit \<Rightarrow> signal \<Rightarrow> 'w
     \<Rightarrow> ('w, jsval list) loop_gen"
where
  "after_stream L rid available i msgs t exit sg w =
     (case exit of
        GatewayFailed e \<Rightarrow> stop_with e sg w
      | CallRefused k \<Rightarrow> stop_with (runtimeError rid i k) sg w
      | StreamEnded \<Rightarrow>
          then_run (loop_check rid i sg w) (\<lambda>_ sg w.
          if \<not> tu_completed t then stop_with (runtimeError rid i IncompleteModelResponse) sg w
          else if tu_calls t = [] then stop_with (LLoopCompleted rid (i + 1)) sg w
          else if al_max_calls L < length (tu_calls t) then stop_with (runtimeError rid i TooManyToolCalls) sg w
          else
            (case al_executor L of
               None \<Rightarrow> stop_with (runtimeError rid i ToolExecutionUnavailable) sg w
             | Some execute \<Rightarrow>
                 if \<not> list_all (\<lambda>c. tr_name c \<in> set available) (tu_calls t) then
                   stop_with (runtimeError rid i UnknownTool) sg w
                 else if al_max_turns L \<le> i + 1 then stop_with (runtimeError rid i MaxTurnsExceeded) sg w
                 else
                   then_run (run_tools execute (al_max_bytes L) rid i (tu_calls t) sg w) (\<lambda>results sg w.
                   say [] (append_turn msgs t results) sg w))))"

text \<open>\<open>for (let turnIndex = 0; turnIndex < maxTurns; turnIndex += 1)\<close>: the first argument counts
  the iterations left.\<close>

fun loop_turns ::
  "nat \<Rightarrow> 'w agent_loop \<Rightarrow> jsval \<Rightarrow> string \<Rightarrow> string list \<Rightarrow> nat \<Rightarrow> jsval list \<Rightarrow> string list
     \<Rightarrow> signal \<Rightarrow> 'w \<Rightarrow> ('w, unit) loop_gen"
where
  "loop_turns 0 L request rid available i msgs seen sg w =
     stop_with (runtimeError rid (al_max_turns L - 1) MaxTurnsExceeded) sg w"
| "loop_turns (Suc k) L request rid available i msgs seen sg w =
     then_run (loop_check rid i sg w) (\<lambda>_ sg w.
     then_run (say [LTurnStarted rid i] () sg w) (\<lambda>_ sg w.
     then_run (read_turn (al_gateway L) rid i (buildTurnRequest request msgs)
                 \<lparr>tu_texts = [], tu_calls = [], tu_completed = False, tu_seen = seen\<rparr> sg w) (\<lambda>(t, exit) sg w.
     then_run (after_stream L rid available i msgs t exit sg w) (\<lambda>msgs' sg w.
     loop_turns k L request rid available (i + 1) msgs' (tu_seen t) sg w))))"

text \<open>
  \<open>run\<close>.  On \<open>null\<close> and \<open>undefined\<close> reading \<open>request.tools\<close> throws, so the generator rejects
  (\<open>None\<close>) unless the signal was already aborted.
\<close>

definition agent_loop_run :: "'w agent_loop \<Rightarrow> jsval \<Rightarrow> signal \<Rightarrow> 'w \<Rightarrow> ('w, unit) loop_gen option" where
  "agent_loop_run L request sg w =
     (let rid = (if is_string (field request ''requestId'') then as_str (field request ''requestId'') else []) in
      case observe sg of (aborted, sg') \<Rightarrow>
        if aborted then Some (stop_with (runtimeError rid 0 LoopAborted) sg' w)
        else if nullish request then None
        else
          Some (loop_turns (al_max_turns L) L request rid (collectToolNames (field request ''tools'')) 0
                  (cloneMessages (field request ''messages'')) (collectToolCallIds (field request ''messages'')) sg' w))"

section \<open>How a run ends\<close>

fun loop_terminal :: "loop_event \<Rightarrow> bool" where
  "loop_terminal (LLoopCompleted _ _) = True"
| "loop_terminal (LError _ _ _ _ _) = True"
| "loop_terminal _ = False"

definition quiet :: "loop_event list \<Rightarrow> bool" where
  "quiet es \<longleftrightarrow> list_all (\<lambda>e. \<not> loop_terminal e) es"

definition ended :: "loop_event list \<Rightarrow> bool" where
  "ended es \<longleftrightarrow> es \<noteq> [] \<and> loop_terminal (last es) \<and> quiet (butlast es)"

lemma quiet_simps [simp]:
  "quiet []"
  "quiet (e # es) \<longleftrightarrow> \<not> loop_terminal e \<and> quiet es"
  "quiet (xs @ ys) \<longleftrightarrow> quiet xs \<and> quiet ys"
  by (simp_all add: quiet_def)

lemma ended_single [simp]: "ended [e] \<longleftrightarrow> loop_terminal e"
  by (simp add: ended_def)

lemma ended_append: "quiet xs \<Longrightarrow> ended ys \<Longrightarrow> ended (xs @ ys)"
  by (auto simp: ended_def butlast_append)

lemma runtimeError_terminal [simp]: "loop_terminal (runtimeError rid i k)"
  by (simp add: runtimeError_def)

section \<open>What a stretch of the loop does\<close>

text \<open>
  The contract of a stretch: while it goes on it has yielded no terminal event, once it has
  returned it has yielded exactly one, at the end; \<open>P\<close> and \<open>R\<close> speak about its effects.
\<close>

definition stretch :: "(loop_effect list \<Rightarrow> 'a \<Rightarrow> bool) \<Rightarrow> (loop_effect list \<Rightarrow> bool) \<Rightarrow> ('w, 'a) loop_gen \<Rightarrow> bool" where
  "stretch P R m = gen_ok (\<lambda>es fx a. quiet es \<and> P fx a) (\<lambda>es fx. ended es \<and> R fx) m"

lemma stretch_then:
  assumes "stretch P R m"
    and "\<And>fx a sg w. P fx a \<Longrightarrow> stretch (\<lambda>gx. Q (fx @ gx)) (\<lambda>gx. R (fx @ gx)) (k a sg w)"
  shows "stretch Q R (then_run m k)"
  unfolding stretch_def
proof (rule gen_ok_then)
  show "gen_ok (\<lambda>es fx a. quiet es \<and> P fx a) (\<lambda>es fx. ended es \<and> R fx) m"
    using assms(1) by (simp add: stretch_def)
  fix es fx a sg w assume "quiet es \<and> P fx a"
  with assms(2) [of fx a sg w]
  show "gen_ok (\<lambda>fs gx b. quiet (es @ fs) \<and> Q (fx @ gx) b) (\<lambda>fs gx. ended (es @ fs) \<and> R (fx @ gx)) (k a sg w)"
    unfolding stretch_def by (auto elim: gen_ok_mono simp: ended_append)
qed

lemma stretch_mono:
  "stretch P R m \<Longrightarrow> (\<And>fx a. P fx a \<Longrightarrow> P' fx a) \<Longrightarrow> (\<And>fx. R fx \<Longrightarrow> R' fx) \<Longrightarrow> stretch P' R' m"
  unfolding stretch_def by (erule gen_ok_mono) auto

lemma stretch_say [simp]: "stretch P R (say es a sg w) \<longleftrightarrow> quiet es \<and> P [] a"
  by (simp add: stretch_def say_def)

lemma stretch_stop [simp]: "stretch P R (stop_with e sg w) \<longleftrightarrow> loop_terminal e \<and> R []"
  by (simp add: stretch_def stop_with_def)

lemma stretch_check: "R [] \<Longrightarrow> stretch (\<lambda>fx _. fx = []) R (loop_check rid i sg w)"
  by (cases "observe sg") (simp add: loop_check_def)

lemma stretch_after_check:
  assumes "R []" and "\<And>sg w. stretch P R (k sg w)"
  shows "stretch P R (then_run (loop_check rid i sg w) (\<lambda>_ sg w. k sg w))"
  by (rule stretch_then [OF stretch_check]) (use assms in auto)

lemma stretch_after_say:
  assumes "quiet es" and "\<And>sg w. stretch P R (k sg w)"
  shows "stretch P R (then_run (say es () sg w) (\<lambda>_ sg w. k sg w))"
  by (rule stretch_then [where P = "\<lambda>fx _. fx = []"]) (use assms in auto)

section \<open>A turn\<close>

lemma readToolCall_ok:
  "readToolCall i n v seen = Inr c \<Longrightarrow>
     tr_id c \<noteq> [] \<and> tr_name c \<noteq> [] \<and> tr_id c \<notin> set seen \<and> isJsonValue v \<and> tr_input c = cloneJsonValue v
     \<and> i = JStr (tr_id c) \<and> n = JStr (tr_name c)"
  by (auto simp: readToolCall_def is_string_iff split: if_splits)

text \<open>What the stream of a turn adds to it: calls with fresh ids, drawn from the events.\<close>

definition drawn :: "agent_event list \<Rightarrow> tool_request \<Rightarrow> bool" where
  "drawn es c \<longleftrightarrow>
     tr_id c \<noteq> [] \<and> tr_name c \<noteq> []
     \<and> list_ex (\<lambda>e. case e of AToolCall _ _ _ v \<Rightarrow> isJsonValue v \<and> tr_input c = cloneJsonValue v | _ \<Rightarrow> False) es"

lemma drawn_append: "drawn es c \<or> drawn fs c \<Longrightarrow> drawn (es @ fs) c"
  by (auto simp: drawn_def)

definition turn_grows :: "agent_event list \<Rightarrow> turn \<Rightarrow> turn \<Rightarrow> bool" where
  "turn_grows es t t' \<longleftrightarrow>
     (\<exists>cs. tu_calls t' = tu_calls t @ cs \<and> tu_seen t' = tu_seen t @ map tr_id cs
        \<and> distinct (map tr_id cs) \<and> set (map tr_id cs) \<inter> set (tu_seen t) = {} \<and> (\<forall>c \<in> set cs. drawn es c))"

lemma turn_grows_refl: "turn_grows es t t"
  by (auto simp: turn_grows_def)

lemma turn_grows_trans:
  assumes "turn_grows es t u" and "turn_grows fs u v"
  shows "turn_grows (es @ fs) t v"
proof -
  from assms(1) obtain cs where cs: "tu_calls u = tu_calls t @ cs" "tu_seen u = tu_seen t @ map tr_id cs"
      "distinct (map tr_id cs)" "set (map tr_id cs) \<inter> set (tu_seen t) = {}"
    and cs_src: "\<forall>c \<in> set cs. drawn es c"
    by (auto simp: turn_grows_def)
  from assms(2) obtain ds where ds: "tu_calls v = tu_calls u @ ds" "tu_seen v = tu_seen u @ map tr_id ds"
      "distinct (map tr_id ds)" "set (map tr_id ds) \<inter> set (tu_seen u) = {}"
    and ds_src: "\<forall>c \<in> set ds. drawn fs c"
    by (auto simp: turn_grows_def)
  have "distinct (map tr_id (cs @ ds))" and "set (map tr_id (cs @ ds)) \<inter> set (tu_seen t) = {}"
    using cs ds by auto
  moreover have "\<forall>c \<in> set (cs @ ds). drawn (es @ fs) c"
    using cs_src ds_src by (auto intro: drawn_append)
  ultimately show ?thesis
    unfolding turn_grows_def using cs(1,2) ds(1,2) by (intro exI [of _ "cs @ ds"]) simp
qed

lemma handle_event_ok:
  assumes "handle_event rid i e t = (out, t', exit)"
  shows "quiet out \<and> turn_grows [e] t t' \<and> (\<forall>x. exit = Some (GatewayFailed x) \<longrightarrow> loop_terminal x)"
proof (cases e)
  case (AToolCall r k n v)
  show ?thesis
  proof (cases "readToolCall k n v (tu_seen t)")
    case (Inr c)
    with readToolCall_ok [OF Inr] AToolCall assms show ?thesis
      by (auto simp: turn_grows_def drawn_def intro!: exI [of _ "[c]"])
  qed (use AToolCall assms in \<open>auto simp: turn_grows_refl\<close>)
qed (use assms in \<open>auto simp: turn_grows_def\<close>)

lemma read_pending_ok:
  "R [] \<Longrightarrow> stretch (\<lambda>fx r. fx = [] \<and> turn_grows es t (fst r) \<and> (\<forall>x. snd r = GatewayFailed x \<longrightarrow> loop_terminal x)) R
     (read_pending rid i es t sg (w :: 'w))"
proof (induction es arbitrary: t sg w)
  case Nil
  then show ?case by (simp add: stretch_after_check turn_grows_refl)
next
  case (Cons e es)
  obtain out t1 exit where h: "handle_event rid i e t = (out, t1, exit)" by (cases "handle_event rid i e t")
  note ok = handle_event_ok [OF h]
  have keep: "turn_grows (e # es) t u" if "turn_grows es t1 u" for u
    using turn_grows_trans [of "[e]" t t1 es u] ok that by simp
  have stop: "turn_grows (e # es) t t1" using keep turn_grows_refl by blast
  have rest: "stretch (\<lambda>fx r. fx = [] \<and> turn_grows (e # es) t (fst r)
      \<and> (\<forall>x. snd r = GatewayFailed x \<longrightarrow> loop_terminal x)) R (read_pending rid i es t1 sg w)"
    for sg and w :: 'w
    by (rule stretch_mono [OF Cons.IH [OF Cons.prems]]) (auto simp: keep)
  show ?case
    unfolding read_pending.simps h prod.case
    using ok stop rest Cons.prems
    by (intro stretch_after_check stretch_after_say) (auto split: option.splits intro!: stretch_after_check)
qed

text \<open>A turn that asked the gateway adds calls that the gateway streamed for that request.\<close>

definition streamed :: "'w gateway \<Rightarrow> jsval \<Rightarrow> agent_event list \<Rightarrow> bool" where
  "streamed gateway request es \<longleftrightarrow>
     es = [] \<or> (\<exists>sg w. es = core_stream (as_str (field request ''requestId'')) (fst (gateway request sg w)))"

definition turn_result :: "'w gateway \<Rightarrow> jsval \<Rightarrow> turn \<Rightarrow> turn \<times> turn_exit \<Rightarrow> bool" where
  "turn_result gateway request t r \<longleftrightarrow>
     (\<exists>es. streamed gateway request es \<and> turn_grows es t (fst r)) \<and> (\<forall>x. snd r = GatewayFailed x \<longrightarrow> loop_terminal x)"

lemma read_turn_ok:
  assumes "R []" and "R [ModelAsked request]"
  shows "stretch (\<lambda>fx r. (fx = [] \<or> fx = [ModelAsked request]) \<and> turn_result gateway request t r) R
    (read_turn gateway rid i request t sg w)"
proof (cases "core_start request")
  case (Inl e)
  have "\<exists>r c m b. e = AError r c m b"
    using Inl by (auto simp: core_start_def invalidRequestError_def split: sum.splits)
  then have "turn_grows [] t u" if "turn_grows [e] t u" for u
    using that by (auto simp: turn_grows_def drawn_def)
  then have "turn_result gateway request t r"
    if "turn_grows [e] t (fst r)" and "\<forall>x. snd r = GatewayFailed x \<longrightarrow> loop_terminal x" for r
    using that by (auto simp: turn_result_def streamed_def intro: exI [of _ "[]"])
  then show ?thesis
    unfolding read_turn_def Inl sum.case
    by (intro stretch_after_check assms(1)) (rule stretch_mono [OF read_pending_ok], use assms(1) in auto)
next
  case (Inr e)
  have "quiet (fst (handle_event rid i e t))"
    using handle_event_ok [of rid i e t] by (cases "handle_event rid i e t") simp
  then show ?thesis
    unfolding read_turn_def Inr sum.case
  proof (intro stretch_after_check stretch_after_say assms(1))
    fix sg w
    obtain src w' where g: "gateway request sg w = (src, w')" by (cases "gateway request sg w")
    define es where "es = core_stream (as_str (field request ''requestId'')) src"
    have "es = core_stream (as_str (field request ''requestId'')) (fst (gateway request sg w))"
      using g by (simp add: es_def)
    then have "streamed gateway request es" by (auto simp: streamed_def)
    then have result: "turn_result gateway request t r"
      if "turn_grows es t (fst r)" and "\<forall>x. snd r = GatewayFailed x \<longrightarrow> loop_terminal x" for r
      using that by (auto simp: turn_result_def)
    show "stretch (\<lambda>fx r. (fx = [] \<or> fx = [ModelAsked request]) \<and> turn_result gateway request t r) R
      (case gateway request sg w of (src, w') \<Rightarrow>
         then_run ([], [ModelAsked request], sg, w', Some ()) (\<lambda>_ sg w.
         read_pending rid i (core_stream (as_str (field request ''requestId'')) src) t sg w))"
      unfolding g prod.case es_def [symmetric]
    proof (rule stretch_then [where P = "\<lambda>fx _. fx = [ModelAsked request]"])
      show "stretch (\<lambda>fx _. fx = [ModelAsked request]) R ([], [ModelAsked request], sg, w', Some ())"
        by (simp add: stretch_def)
    qed (rule stretch_mono [OF read_pending_ok], use assms(2) result in auto)
  qed
qed

section \<open>Running the tools of a turn\<close>

definition sent_call :: "tool_request \<Rightarrow> tool_request" where
  "sent_call c = c\<lparr>tr_input := cloneJsonValue (tr_input c)\<rparr>"

lemma sent_call_simps [simp]: "tr_id (sent_call c) = tr_id c" "tr_name (sent_call c) = tr_name c"
  by (simp_all add: sent_call_def)

text \<open>The result of a call as the model will see it: bounded, or the fixed failure text.\<close>

definition answers :: "nat \<Rightarrow> tool_request \<Rightarrow> jsval \<Rightarrow> bool" where
  "answers maxBytes c b \<longleftrightarrow>
     (\<exists>s e. b = result_block (tr_id c) (s, e) \<and> (s = tool_failure_content \<or> utf8ByteLength s \<le> maxBytes))"

lemma classify_answers: "answers maxBytes c (result_block (tr_id c) (classifyToolResult raw maxBytes))"
  by (auto simp: answers_def classifyToolResult_def)

lemma executeTool_ok:
  assumes "R []" and "R [ToolRun c]"
  shows "stretch (\<lambda>fx out. fx = [] \<and> out = None \<or> fx = [ToolRun c]) R (executeTool execute c sg w)"
  using assms by (auto simp: executeTool_def stretch_def say_def split: prod.splits)

lemma run_tools_ok:
  assumes "\<And>n. R (map ToolRun (take n (map sent_call calls)))"
  shows "stretch (\<lambda>fx bs. fx = map ToolRun (map sent_call calls) \<and> list_all2 (answers maxBytes) calls bs) R
    (run_tools execute maxBytes rid i calls sg (w :: 'w))"
  using assms
proof (induction calls arbitrary: R sg w)
  case Nil
  then show ?case by simp
next
  case (Cons c calls)
  let ?c = "sent_call c"
  have none: "R []" using Cons.prems [of 0] by simp
  have one: "R (ToolRun ?c # map ToolRun (take n (map sent_call calls)))" for n
    using Cons.prems [of "Suc n"] by simp
  have rest: "stretch (\<lambda>gx bs. [ToolRun ?c] @ gx = map ToolRun (map sent_call (c # calls)) \<and> list_all2 (answers maxBytes) (c # calls) bs)
      (\<lambda>gx. R ([ToolRun ?c] @ gx))
      (then_run (run_tools execute maxBytes rid i calls sg w) (\<lambda>blocks sg w.
        say [] (result_block (tr_id c) (classifyToolResult raw maxBytes) # blocks) sg w))" for raw sg and w :: 'w
    by (rule stretch_then, rule Cons.IH [of "\<lambda>gx. R ([ToolRun ?c] @ gx)"]) (use one classify_answers in auto)
  show ?case
    unfolding run_tools.simps sent_call_def [symmetric]
  proof (intro stretch_after_check stretch_after_say none)
    fix sg and w :: 'w
    show "stretch (\<lambda>fx bs. fx = map ToolRun (map sent_call (c # calls)) \<and> list_all2 (answers maxBytes) (c # calls) bs) R
      (then_run (executeTool execute ?c sg w) (\<lambda>outcome sg w.
        case outcome of
          None \<Rightarrow> stop_with (runtimeError rid i LoopAborted) sg w
        | Some raw \<Rightarrow>
            then_run (say [LToolFinished rid i (tr_id c) (snd (classifyToolResult raw maxBytes))] () sg w) (\<lambda>_ sg w.
            then_run (run_tools execute maxBytes rid i calls sg w) (\<lambda>blocks sg w.
            say [] (result_block (tr_id c) (classifyToolResult raw maxBytes) # blocks) sg w))))"
    proof (rule stretch_then [OF executeTool_ok])
      show "R []" and "R [ToolRun ?c]" using none one [of 0] by simp_all
    next
      fix fx and out :: "jsval option" and sg and w :: 'w
      assume fx: "fx = [] \<and> out = None \<or> fx = [ToolRun ?c]"
      show "stretch (\<lambda>gx bs. fx @ gx = map ToolRun (map sent_call (c # calls)) \<and> list_all2 (answers maxBytes) (c # calls) bs)
          (\<lambda>gx. R (fx @ gx))
        (case out of
          None \<Rightarrow> stop_with (runtimeError rid i LoopAborted) sg w
        | Some raw \<Rightarrow>
            then_run (say [LToolFinished rid i (tr_id c) (snd (classifyToolResult raw maxBytes))] () sg w) (\<lambda>_ sg w.
            then_run (run_tools execute maxBytes rid i calls sg w) (\<lambda>blocks sg w.
            say [] (result_block (tr_id c) (classifyToolResult raw maxBytes) # blocks) sg w)))"
      proof (cases out)
        case None
        with fx none one [of 0] show ?thesis by auto
      next
        case (Some raw)
        with fx rest show ?thesis by (auto intro!: stretch_after_say)
      qed
    qed
  qed simp_all
qed

section \<open>After the stream\<close>

definition turn_allowed :: "'w agent_loop \<Rightarrow> string list \<Rightarrow> nat \<Rightarrow> turn \<Rightarrow> bool" where
  "turn_allowed L available i t \<longleftrightarrow>
     tu_calls t \<noteq> [] \<and> length (tu_calls t) \<le> al_max_calls L \<and> i + 1 < al_max_turns L
     \<and> (\<forall>c \<in> set (tu_calls t). tr_name c \<in> set available)"

lemma after_stream_ok:
  assumes "\<forall>x. exit = GatewayFailed x \<longrightarrow> loop_terminal x"
    and none: "R []"
    and some: "\<And>n. turn_allowed L available i t \<Longrightarrow> R (map ToolRun (take n (map sent_call (tu_calls t))))"
  shows "stretch
    (\<lambda>fx msgs'. turn_allowed L available i t \<and> fx = map ToolRun (map sent_call (tu_calls t))
       \<and> (\<exists>bs. msgs' = append_turn msgs t bs \<and> list_all2 (answers (al_max_bytes L)) (tu_calls t) bs)) R
    (after_stream L rid available i msgs t exit sg w)"
proof (cases exit)
  case StreamEnded
  show ?thesis
  proof (cases "tu_completed t \<and> turn_allowed L available i t \<and> al_executor L \<noteq> None")
    case True
    then obtain execute where ex: "al_executor L = Some execute" by auto
    have names: "list_all (\<lambda>c. tr_name c \<in> set available) (tu_calls t)" and "\<not> al_max_calls L < length (tu_calls t)"
      and "\<not> al_max_turns L \<le> i + 1" and "tu_calls t \<noteq> []" and "turn_allowed L available i t"
      using True by (auto simp: turn_allowed_def list_all_iff)
    then show ?thesis
      unfolding after_stream_def StreamEnded turn_exit.case ex option.case using True
      by (intro stretch_after_check none)
        (simp, rule stretch_then, rule run_tools_ok [where R = R and maxBytes = "al_max_bytes L"], use some in auto)
  next
    case False
    then show ?thesis
      unfolding after_stream_def StreamEnded turn_exit.case
      by (intro stretch_after_check none)
        (auto simp: none turn_allowed_def list_all_iff not_le not_less split: option.splits)
  qed
qed (use assms in \<open>simp_all add: after_stream_def\<close>)

section \<open>The whole loop\<close>

fun model_requests :: "loop_effect list \<Rightarrow> jsval list" where
  "model_requests [] = []"
| "model_requests (ModelAsked v # fx) = v # model_requests fx"
| "model_requests (ToolRun _ # fx) = model_requests fx"

fun tool_runs :: "loop_effect list \<Rightarrow> tool_request list" where
  "tool_runs [] = []"
| "tool_runs (ToolRun c # fx) = c # tool_runs fx"
| "tool_runs (ModelAsked _ # fx) = tool_runs fx"

lemma model_requests_append [simp]: "model_requests (xs @ ys) = model_requests xs @ model_requests ys"
  by (induction xs rule: model_requests.induct) auto

lemma tool_runs_append [simp]: "tool_runs (xs @ ys) = tool_runs xs @ tool_runs ys"
  by (induction xs rule: tool_runs.induct) auto

lemma effects_of_runs [simp]:
  "model_requests (map ToolRun cs) = []" "tool_runs (map ToolRun cs) = cs"
  "model_requests (map (\<lambda>x. ToolRun (f x)) xs) = []" "tool_runs (map (\<lambda>x. ToolRun (f x)) xs) = map f xs"
proof -
  show "model_requests (map (\<lambda>x. ToolRun (f x)) xs) = []" "tool_runs (map (\<lambda>x. ToolRun (f x)) xs) = map f xs" for f :: "'a \<Rightarrow> _" and xs
    by (induction xs) simp_all
  show "model_requests (map ToolRun cs) = []" "tool_runs (map ToolRun cs) = cs"
    by (induction cs) simp_all
qed

text \<open>
  The budget and the freshness of a stretch of turns: at most \<open>k\<close> model requests, at most
  \<open>maxToolCallsPerTurn\<close> tools for each of them but the last, only available tools, and call ids
  that are pairwise distinct and none of \<open>seen\<close>.
\<close>

definition trace_ok :: "'w agent_loop \<Rightarrow> string list \<Rightarrow> string list \<Rightarrow> nat \<Rightarrow> loop_effect list \<Rightarrow> bool" where
  "trace_ok L available seen k fx \<longleftrightarrow>
     length (model_requests fx) \<le> k \<and> length (tool_runs fx) \<le> (k - 1) * al_max_calls L
     \<and> (\<forall>c \<in> set (tool_runs fx). tr_name c \<in> set available)
     \<and> distinct (map tr_id (tool_runs fx)) \<and> set (map tr_id (tool_runs fx)) \<inter> set seen = {}"

lemma trace_ok_Nil [simp]: "trace_ok L available seen k []"
  by (simp add: trace_ok_def)

lemma trace_ok_asked [simp]: "trace_ok L available seen (Suc k) [ModelAsked v]"
  by (simp add: trace_ok_def)

lemma turn_grows_fresh:
  assumes "turn_grows es \<lparr>tu_texts = [], tu_calls = [], tu_completed = False, tu_seen = seen\<rparr> t"
  shows "tu_seen t = seen @ map tr_id (tu_calls t) \<and> distinct (map tr_id (tu_calls t))
    \<and> set (map tr_id (tu_calls t)) \<inter> set seen = {} \<and> (\<forall>c \<in> set (tu_calls t). drawn es c)"
  using assms by (auto simp: turn_grows_def)

lemma trace_ok_turn:
  assumes "fx = [] \<or> fx = [ModelAsked v]" and "distinct (map tr_id (tu_calls t))"
    and "set (map tr_id (tu_calls t)) \<inter> set seen = {}" and "turn_allowed L available i t" and "i + Suc k = al_max_turns L"
  shows "trace_ok L available seen (Suc k) (fx @ map ToolRun (take n (map sent_call (tu_calls t))))"
proof -
  have "map tr_id (take n (map sent_call (tu_calls t))) = take n (map tr_id (tu_calls t))"
    by (simp add: take_map comp_def)
  moreover have "set (take n (map tr_id (tu_calls t))) \<subseteq> set (map tr_id (tu_calls t))" by (rule set_take_subset)
  moreover have "min (length (tu_calls t)) n \<le> k * al_max_calls L"
  proof -
    have "0 < k" using assms(4,5) by (simp add: turn_allowed_def)
    then have "al_max_calls L \<le> k * al_max_calls L" by simp
    moreover have "min (length (tu_calls t)) n \<le> al_max_calls L"
      using assms(4) by (simp add: turn_allowed_def min.coboundedI1)
    ultimately show ?thesis by (rule le_trans [rotated])
  qed
  moreover have "\<forall>c \<in> set (take n (map sent_call (tu_calls t))). tr_name c \<in> set available"
    using assms(4) by (auto simp: turn_allowed_def dest!: in_set_takeD)
  ultimately show ?thesis
    using assms(1,2,3) distinct_take [of "map tr_id (tu_calls t)" n] unfolding trace_ok_def by auto
qed

lemma trace_ok_next:
  assumes "fx = [] \<or> fx = [ModelAsked v]" and "distinct (map tr_id (tu_calls t))"
    and "set (map tr_id (tu_calls t)) \<inter> set seen = {}" and "turn_allowed L available i t" and "i + Suc k = al_max_turns L"
    and "trace_ok L available (seen @ map tr_id (tu_calls t)) k gx"
  shows "trace_ok L available seen (Suc k) (fx @ map ToolRun (map sent_call (tu_calls t)) @ gx)"
proof -
  have "0 < k" using assms(4,5) by (simp add: turn_allowed_def)
  then obtain j where j: "k = Suc j" by (cases k) auto
  have ids: "map tr_id (map sent_call (tu_calls t)) = map tr_id (tu_calls t)" by (simp add: comp_def)
  have gx: "length (tool_runs gx) \<le> j * al_max_calls L" "distinct (map tr_id (tool_runs gx))"
      "set (map tr_id (tool_runs gx)) \<inter> set (seen @ map tr_id (tu_calls t)) = {}"
      "\<forall>c \<in> set (tool_runs gx). tr_name c \<in> set available" "length (model_requests gx) \<le> k"
    using assms(6) by (simp_all add: trace_ok_def j)
  have "length (tu_calls t) \<le> al_max_calls L" and "\<forall>c \<in> set (tu_calls t). tr_name c \<in> set available"
    using assms(4) by (auto simp: turn_allowed_def)
  with gx assms(1,2,3) show ?thesis
    unfolding trace_ok_def by (auto simp: j ids comp_def)
qed

lemma loop_turns_ok:
  "i + k = al_max_turns L \<Longrightarrow>
     stretch (\<lambda>_ _. False) (trace_ok L available seen k) (loop_turns k L request rid available i msgs seen sg (w :: 'w))"
proof (induction k arbitrary: i msgs seen sg w)
  case (Suc k)
  let ?t0 = "\<lparr>tu_texts = [], tu_calls = [], tu_completed = False, tu_seen = seen\<rparr>"
  let ?v = "buildTurnRequest request msgs"
  show ?case
    unfolding loop_turns.simps
  proof (intro stretch_after_check stretch_after_say trace_ok_Nil)
    fix sg and w :: 'w
    show "stretch (\<lambda>_ _. False) (trace_ok L available seen (Suc k))
      (then_run (read_turn (al_gateway L) rid i ?v ?t0 sg w) (\<lambda>(t, exit) sg w.
       then_run (after_stream L rid available i msgs t exit sg w) (\<lambda>msgs' sg w.
       loop_turns k L request rid available (i + 1) msgs' (tu_seen t) sg w)))"
    proof (rule stretch_then [OF read_turn_ok], simp, simp, clarify)
      fix fx t exit sg and w :: 'w
      assume fx: "fx = [] \<or> fx = [ModelAsked ?v]" and res: "turn_result (al_gateway L) ?v ?t0 (t, exit)"
      from res obtain es where "turn_grows es ?t0 t" by (auto simp: turn_result_def)
      note fresh = turn_grows_fresh [OF this]
      have start: "trace_ok L available seen (Suc k) fx" using fx by auto
      show "stretch (\<lambda>_ _. False) (\<lambda>gx. trace_ok L available seen (Suc k) (fx @ gx))
        (then_run (after_stream L rid available i msgs t exit sg w) (\<lambda>msgs' sg w.
          loop_turns k L request rid available (i + 1) msgs' (tu_seen t) sg w))"
      proof (rule stretch_then [OF after_stream_ok])
        show "\<forall>x. exit = GatewayFailed x \<longrightarrow> loop_terminal x" using res by (simp add: turn_result_def)
      next
        fix n assume "turn_allowed L available i t"
        then show "trace_ok L available seen (Suc k) (fx @ map ToolRun (take n (map sent_call (tu_calls t))))"
          using trace_ok_turn [OF fx] fresh Suc.prems by blast
      next
        fix gx msgs' sg and w :: 'w
        assume after: "turn_allowed L available i t \<and> gx = map ToolRun (map sent_call (tu_calls t))
          \<and> (\<exists>bs. msgs' = append_turn msgs t bs \<and> list_all2 (answers (al_max_bytes L)) (tu_calls t) bs)"
        have "stretch (\<lambda>_ _. False) (trace_ok L available (tu_seen t) k)
            (loop_turns k L request rid available (i + 1) msgs' (tu_seen t) sg w)"
          by (rule Suc.IH) (use Suc.prems in simp)
        then show "stretch (\<lambda>_ _. False) (\<lambda>hx. trace_ok L available seen (Suc k) (fx @ gx @ hx))
            (loop_turns k L request rid available (i + 1) msgs' (tu_seen t) sg w)"
          by (rule stretch_mono) (use trace_ok_next [OF fx] fresh after Suc.prems in auto)
      qed (use start in simp)
    qed
  qed simp_all
qed simp

lemma stretch_False:
  "stretch (\<lambda>_ _. False) R m \<Longrightarrow> returned m \<and> ended (events m) \<and> R (run_effects m)"
  by (auto simp: stretch_def gen_ok_def run_effects_def returned_def events_def split: prod.splits option.splits)

lemma agent_loop_run_ok:
  assumes "agent_loop_run L request sg w = Some m"
  shows "returned m \<and> ended (events m)
    \<and> trace_ok L (collectToolNames (field request ''tools'')) (collectToolCallIds (field request ''messages''))
        (al_max_turns L) (run_effects m)"
  using assms
  by (auto simp: agent_loop_run_def Let_def split: prod.splits if_splits
      intro!: stretch_False loop_turns_ok)

lemma agent_loop_run_None: "agent_loop_run L request sg w = None \<Longrightarrow> nullish request"
  by (auto simp: agent_loop_run_def Let_def split: prod.splits if_splits)

text \<open>
  C8: a run of the loop always returns, whatever the model answers, the tools do and the caller
  cancels, and it yields exactly one terminal event, \<open>loop_completed\<close> or an error, as its last;
  only a request that is \<open>null\<close> or \<open>undefined\<close> makes the generator reject instead.
\<close>

theorem loop_returns_and_ends_once:
  "case agent_loop_run L request sg w of
     None \<Rightarrow> nullish request
   | Some m \<Rightarrow> returned m \<and> ended (events m)"
proof (cases "agent_loop_run L request sg w")
  case (Some m)
  with agent_loop_run_ok [OF Some] show ?thesis by simp
qed (simp add: agent_loop_run_None)

text \<open>
  C14: a run makes at most \<open>maxTurns\<close> model requests and runs at most \<open>maxToolCallsPerTurn\<close> tools
  for each of them but the last.
\<close>

theorem loop_budget:
  "case agent_loop_run L request sg w of
     None \<Rightarrow> nullish request
   | Some m \<Rightarrow>
       length (model_requests (run_effects m)) \<le> al_max_turns L
       \<and> length (tool_runs (run_effects m)) \<le> (al_max_turns L - 1) * al_max_calls L"
proof (cases "agent_loop_run L request sg w")
  case (Some m)
  with agent_loop_run_ok [OF Some] show ?thesis by (simp add: trace_ok_def)
qed (simp add: agent_loop_run_None)

text \<open>
  Every tool that a run executes is one the request declared, and no tool call id is executed
  twice or reused from the history of the request.
\<close>

theorem loop_runs_declared_tools_once:
  "case agent_loop_run L request sg w of
     None \<Rightarrow> nullish request
   | Some m \<Rightarrow>
       set (map tr_name (tool_runs (run_effects m))) \<subseteq> set (collectToolNames (field request ''tools''))
       \<and> distinct (map tr_id (tool_runs (run_effects m)))
       \<and> set (map tr_id (tool_runs (run_effects m))) \<inter> set (collectToolCallIds (field request ''messages'')) = {}"
proof (cases "agent_loop_run L request sg w")
  case (Some m)
  with agent_loop_run_ok [OF Some] show ?thesis by (auto simp: trace_ok_def)
qed (simp add: agent_loop_run_None)

end
