(* ===== verification/Tool_Policy.thy ===== *)
theory Tool_Policy
  imports Agent_Loop
begin

text \<open>
  \<open>packages/agent-runtime/src/tool-policy.ts\<close>: the executor that asks a policy, and when the policy
  says so a human, before it lets a tool run.  Policy, approval handler and the wrapped executor are
  parameters on the world; each call is recorded as an effect.
\<close>

section \<open>Configuration\<close>

datatype policy_error = InvalidToolPolicyOptions

definition policy_error_code :: "policy_error \<Rightarrow> string" where
  "policy_error_code e = ''invalid_tool_policy_options''"

definition policy_error_message :: "policy_error \<Rightarrow> string" where
  "policy_error_message e = ''Tool policy options are invalid.''"

definition tool_policy_denied_content :: string where
  "tool_policy_denied_content = ''Tool execution was denied.''"

definition tool_approval_unavailable_content :: string where
  "tool_approval_unavailable_content = ''Tool approval is unavailable.''"

definition tool_approval_denied_content :: string where
  "tool_approval_denied_content = ''Tool execution was denied.''"

definition tool_approval_failed_content :: string where
  "tool_approval_failed_content = ''Tool approval failed.''"

definition tool_policy_failed_content :: string where
  "tool_policy_failed_content = ''Tool policy evaluation failed.''"

text \<open>A call answers a value, or throws or rejects (\<open>None\<close>): both are caught in the same place.\<close>

type_synonym 'w asked = "tool_request \<Rightarrow> signal \<Rightarrow> 'w \<Rightarrow> jsval option \<times> 'w"

record 'w governance =
  go_execute :: "'w asked"
  go_policy :: "'w asked option"
  go_approval :: "'w asked option"

definition createGovernedToolExecutor ::
  "'w asked injected \<Rightarrow> 'w asked injected \<Rightarrow> 'w asked injected \<Rightarrow> policy_error + 'w governance"
where
  "createGovernedToolExecutor executor policy approval =
     (case executor of
        Callable run \<Rightarrow>
          if policy = NotCallable then Inl InvalidToolPolicyOptions
          else if approval = NotCallable then Inl InvalidToolPolicyOptions
          else
            Inr \<lparr>go_execute = run,
                 go_policy = (case policy of Callable p \<Rightarrow> Some p | _ \<Rightarrow> None),
                 go_approval = (case approval of Callable a \<Rightarrow> Some a | _ \<Rightarrow> None)\<rparr>
      | _ \<Rightarrow> Inl InvalidToolPolicyOptions)"

section \<open>execute\<close>

datatype policy_effect = PolicyAsked tool_request | ApprovalAsked tool_request | Executed tool_request

text \<open>\<open>{ content, isError: true }\<close> as the answer of the promise.\<close>

definition failed :: "string \<Rightarrow> jsval" where
  "failed c = JObj [(''content'', JStr c), (''isError'', JBool True)]"

text \<open>A step of the async function: it has answered, or goes on with a value.\<close>

type_synonym ('w, 'a) governed = "policy_effect list \<times> signal \<times> 'w \<times> (jsval + 'a)"

definition then_govern ::
  "('w, 'a) governed \<Rightarrow> ('a \<Rightarrow> signal \<Rightarrow> 'w \<Rightarrow> ('w, 'b) governed) \<Rightarrow> ('w, 'b) governed"
where
  "then_govern m k =
     (case m of
        (fx, sg, w, Inl v) \<Rightarrow> (fx, sg, w, Inl v)
      | (fx, sg, w, Inr a) \<Rightarrow> (case k a sg w of (gx, sg', w', r) \<Rightarrow> (fx @ gx, sg', w', r)))"

definition refuse :: "string \<Rightarrow> signal \<Rightarrow> 'w \<Rightarrow> ('w, 'a) governed" where
  "refuse c sg w = ([], sg, w, Inl (failed c))"

definition unless_aborted :: "signal \<Rightarrow> 'w \<Rightarrow> ('w, unit) governed" where
  "unless_aborted sg w =
     (case observe sg of (aborted, sg') \<Rightarrow>
        if aborted then refuse tool_failure_content sg' w else ([], sg', w, Inr ()))"

definition decide :: "'w governance \<Rightarrow> tool_request \<Rightarrow> signal \<Rightarrow> 'w \<Rightarrow> ('w, jsval) governed" where
  "decide G request sg w =
     (case go_policy G of
        None \<Rightarrow> ([], sg, w, Inr (JStr ''deny''))
      | Some policy \<Rightarrow>
          (case policy request sg w of
             (None, w') \<Rightarrow> ([PolicyAsked request], sg, w', Inl (failed tool_policy_failed_content))
           | (Some d, w') \<Rightarrow> ([PolicyAsked request], sg, w', Inr d)))"

text \<open>The branch \<open>decision === "ask"\<close>; it goes on when the verdict is \<open>"approved"\<close>.\<close>

definition approve :: "'w governance \<Rightarrow> tool_request \<Rightarrow> signal \<Rightarrow> 'w \<Rightarrow> ('w, unit) governed" where
  "approve G request sg w =
     (case go_approval G of
        None \<Rightarrow> refuse tool_approval_unavailable_content sg w
      | Some approval \<Rightarrow>
          (case approval request sg w of
             (None, w') \<Rightarrow> ([ApprovalAsked request], sg, w', Inl (failed tool_approval_failed_content))
           | (Some verdict, w') \<Rightarrow>
               then_govern ([ApprovalAsked request], sg, w', Inr ()) (\<lambda>_ sg w.
               then_govern (unless_aborted sg w) (\<lambda>_ sg w.
               if verdict = JStr ''denied'' then refuse tool_approval_denied_content sg w
               else if verdict \<noteq> JStr ''approved'' then refuse tool_approval_failed_content sg w
               else ([], sg, w, Inr ())))))"

definition execute_allowed :: "'w governance \<Rightarrow> tool_request \<Rightarrow> signal \<Rightarrow> 'w \<Rightarrow> ('w, unit) governed" where
  "execute_allowed G request sg w =
     (case go_execute G request sg w of
        (answer, w') \<Rightarrow>
          ([Executed request], sg, w', Inl (case answer of None \<Rightarrow> failed tool_failure_content | Some v \<Rightarrow> v)))"

definition governed_execute :: "'w governance \<Rightarrow> tool_request \<Rightarrow> signal \<Rightarrow> 'w \<Rightarrow> ('w, unit) governed" where
  "governed_execute G request sg w =
     then_govern (unless_aborted sg w) (\<lambda>_ sg w.
     then_govern (decide G request sg w) (\<lambda>decision sg w.
     then_govern (unless_aborted sg w) (\<lambda>_ sg w.
     if decision = JStr ''deny'' then refuse tool_policy_denied_content sg w
     else if decision = JStr ''ask'' then
       then_govern (approve G request sg w) (\<lambda>_ sg w. execute_allowed G request sg w)
     else if decision \<noteq> JStr ''allow'' then refuse tool_policy_failed_content sg w
     else execute_allowed G request sg w)))"

text \<open>The executor a governed configuration is, for the agent loop.\<close>

definition governed_executor :: "'w governance \<Rightarrow> 'w executor" where
  "governed_executor G request sg w =
     (case governed_execute G request sg w of
        (_, _, w', Inl v) \<Rightarrow> (ToolAnswered v, w')
      | (_, _, w', Inr _) \<Rightarrow> (ToolAnswered JUndef, w'))"

section \<open>Fail closed\<close>

text \<open>
  An execution is licensed when it is the last effect, of this very request, after the policy was
  asked about it and said \<open>allow\<close>, or said \<open>ask\<close> and the approval handler said \<open>approved\<close>; the
  handlers answer in the world that the effects before them have left.
\<close>

definition licensed :: "'w governance \<Rightarrow> tool_request \<Rightarrow> 'w \<Rightarrow> policy_effect list \<Rightarrow> bool" where
  "licensed G request w fx \<longleftrightarrow>
     (\<exists>policy sg w1. go_policy G = Some policy
        \<and> (policy request sg w = (Some (JStr ''allow''), w1) \<and> fx = [PolicyAsked request, Executed request]
           \<or> policy request sg w = (Some (JStr ''ask''), w1)
             \<and> (\<exists>approval sg' w2. go_approval G = Some approval
                   \<and> approval request sg' w1 = (Some (JStr ''approved''), w2)
                   \<and> fx = [PolicyAsked request, ApprovalAsked request, Executed request])))"

text \<open>Without an execution the answer is one of the fixed failures.\<close>

definition refusals :: "jsval list" where
  "refusals =
     map failed [tool_failure_content, tool_policy_denied_content, tool_approval_unavailable_content,
                 tool_approval_denied_content, tool_approval_failed_content, tool_policy_failed_content]"

definition refused_with :: "('w, 'a) governed \<Rightarrow> bool" where
  "refused_with m \<longleftrightarrow> (case m of (_, _, _, r) \<Rightarrow> list_ex (\<lambda>v. r = Inl v) refusals)"

lemma refused_with_iff: "refused_with (fx, sg, w, r) \<longleftrightarrow> (\<exists>v \<in> set refusals. r = Inl v)"
  by (auto simp: refused_with_def list_ex_iff)

lemma failed_refusals [simp]:
  "failed tool_failure_content \<in> set refusals" "failed tool_policy_denied_content \<in> set refusals"
  "failed tool_approval_unavailable_content \<in> set refusals" "failed tool_approval_denied_content \<in> set refusals"
  "failed tool_approval_failed_content \<in> set refusals" "failed tool_policy_failed_content \<in> set refusals"
  by (simp_all add: refusals_def)

fun is_executed :: "policy_effect \<Rightarrow> bool" where
  "is_executed (Executed _) = True"
| "is_executed _ = False"

lemma unless_aborted_cases:
  obtains (stop) sg' where "observe sg = (True, sg')" "unless_aborted sg w = ([], sg', w, Inl (failed tool_failure_content))"
  | (pass) sg' where "observe sg = (False, sg')" "unless_aborted sg w = ([], sg', w, Inr ())"
  by (cases "observe sg"; cases "fst (observe sg)") (auto simp: unless_aborted_def refuse_def)

lemma then_govern_simps [simp]:
  "then_govern (fx, sg, w, Inl v) k = (fx, sg, w, Inl v)"
  "then_govern ([], sg, w, Inr a) k = k a sg w"
  by (simp_all add: then_govern_def)

lemma then_govern_effects:
  "fst (then_govern (fx, sg, w, Inr a) k) = fx @ fst (k a sg w)"
  by (simp add: then_govern_def split: prod.splits)

lemma approve_cases:
  obtains (refused) gx sg' w' v where "approve G request sg w = (gx, sg', w', Inl v)" and "\<not> list_ex is_executed gx"
      and "v \<in> set refusals"
  | (approved) approval sg' w' where "go_approval G = Some approval"
      and "approval request sg w = (Some (JStr ''approved''), w')"
      and "approve G request sg w = ([ApprovalAsked request], sg', w', Inr ())"
proof (cases "go_approval G")
  case None
  then show thesis using refused by (simp add: approve_def refuse_def)
next
  case (Some approval)
  obtain verdict w' where a: "approval request sg w = (verdict, w')" by (cases "approval request sg w")
  show thesis
  proof (cases verdict)
    case None
    then show thesis using refused by (simp add: approve_def Some a)
  next
    case (Some verdict')
    show thesis
    proof (cases rule: unless_aborted_cases [of sg w'])
      case (stop sg')
      then show thesis
        using refused by (simp add: approve_def \<open>go_approval G = Some approval\<close> a Some then_govern_def)
    next
      case (pass sg')
      then show thesis
        using refused approved
        by (cases "verdict' = JStr ''approved''"; cases "verdict' = JStr ''denied''")
          (simp_all add: approve_def \<open>go_approval G = Some approval\<close> a Some then_govern_def refuse_def)
    qed
  qed
qed

lemma execute_allowed_runs: "\<exists>w' v. execute_allowed G request sg w = ([Executed request], sg, w', Inl v)"
  by (auto simp: execute_allowed_def split: prod.splits)

lemma governed_effects:
  "\<not> list_ex is_executed (fst (governed_execute G request sg w)) \<and> refused_with (governed_execute G request sg w)
   \<or> licensed G request w (fst (governed_execute G request sg w))"
proof (cases rule: unless_aborted_cases [of sg w])
  case (stop sg')
  then show ?thesis by (simp add: governed_execute_def refused_with_iff)
next
  case (pass sg')
  show ?thesis
  proof (cases "go_policy G")
    case None
    show ?thesis
      by (cases rule: unless_aborted_cases [of sg' w])
        (simp_all add: governed_execute_def pass decide_def None refuse_def refused_with_iff)
  next
    case (Some policy)
    obtain d w1 where p: "policy request sg' w = (d, w1)" by (cases "policy request sg' w")
    show ?thesis
    proof (cases d)
      case None
      then show ?thesis by (simp add: governed_execute_def pass decide_def Some p refused_with_iff)
    next
      case (Some decision)
      show ?thesis
      proof (cases rule: unless_aborted_cases [of sg' w1])
        case (stop sg2)
        then show ?thesis
          by (simp add: governed_execute_def pass decide_def \<open>go_policy G = Some policy\<close> p Some then_govern_def refused_with_iff)
      next
        case second: (pass sg2)
        from execute_allowed_runs [of G request sg2 w1] obtain w2 v2
          where run: "execute_allowed G request sg2 w1 = ([Executed request], sg2, w2, Inl v2)" by blast
        show ?thesis
        proof (cases rule: approve_cases [of G request sg2 w1])
          case (refused gx sg3 w3 v)
          then show ?thesis
            using p Some run \<open>go_policy G = Some policy\<close>
            by (auto simp: governed_execute_def pass(2) second(2) decide_def then_govern_def refuse_def licensed_def refused_with_iff
                split: prod.splits)
        next
          case (approved approval sg3 w3)
          from execute_allowed_runs [of G request sg3 w3] obtain w4 v4
            where "execute_allowed G request sg3 w3 = ([Executed request], sg3, w4, Inl v4)" by blast
          with approved show ?thesis
            using p Some run \<open>go_policy G = Some policy\<close>
            by (auto simp: governed_execute_def pass(2) second(2) decide_def then_govern_def refuse_def licensed_def refused_with_iff
                split: prod.splits)
        qed
      qed
    qed
  qed
qed

lemma licensed_once: "licensed G request w fx \<Longrightarrow> filter is_executed fx = [Executed request]"
  by (auto simp: licensed_def)

text \<open>
  C12: the governed executor fails closed: either it answers one of the fixed refusals and never calls
  the wrapped executor, or it calls it once, for the request it was given, and the policy was asked
  and answered \<open>allow\<close>, or answered \<open>ask\<close> and the approval handler, asked after it, answered
  \<open>approved\<close>.
\<close>

theorem governed_execution_licensed:
  "if filter is_executed (fst (governed_execute G request sg w)) = []
   then refused_with (governed_execute G request sg w)
   else filter is_executed (fst (governed_execute G request sg w)) = [Executed request]
     \<and> licensed G request w (fst (governed_execute G request sg w))"
proof (cases "licensed G request w (fst (governed_execute G request sg w))")
  case True
  from licensed_once [OF this] True show ?thesis by simp
next
  case False
  with governed_effects [of G request sg w] show ?thesis by (auto simp: list_ex_iff filter_empty_conv)
qed

end
