(* ===== verification/Loop_Requests.thy ===== *)
theory Loop_Requests
  imports Agent_Loop Request_Encoding
begin

text \<open>
  The agent loop against the protocol adapters: the conversation the loop builds turn by turn is one
  that the adapters' request checks accept, with the exception of tool inputs that the copying of
  JSON values does not keep.
\<close>

section \<open>Inputs that copying keeps\<close>

fun no_proto :: "jsval \<Rightarrow> bool" where
  "no_proto (JArr vs) = list_all no_proto vs"
| "no_proto (JObj kvs) = list_all (\<lambda>kv. fst kv \<noteq> proto_key \<and> no_proto (snd kv)) kvs"
| "no_proto _ = True"

lemma clone_json_same: "no_proto v \<Longrightarrow> clone_json v = v"
proof (induction v rule: clone_json.induct)
  case (1 vs)
  then show ?case by (auto simp: list_all_iff intro!: map_idI)
next
  case (2 kvs)
  have same: "map (\<lambda>kv. (fst kv, clone_json (snd kv))) kvs = kvs"
    using 2 by (auto simp: list_all_iff intro!: map_idI)
  have "map_of kvs proto_key = None" using 2(2) by (auto simp: map_of_eq_None_iff list_all_iff)
  moreover have "filter (\<lambda>kv. fst kv \<noteq> proto_key) kvs = kvs" using 2(2) by (auto simp: filter_id_conv list_all_iff)
  ultimately show ?case by (simp add: same rebuild_object_def Let_def)
qed simp_all

lemma cloneJsonValue_same: "no_proto v \<Longrightarrow> cloneJsonValue v = v"
  by (simp add: cloneJsonValue_def clone_json_same)

section \<open>The typed form of a turn\<close>

definition assistant_message :: "turn \<Rightarrow> agent_message" where
  "assistant_message t =
     \<lparr>role = Assistant,
      content = (if concat (tu_texts t) \<noteq> [] then [TextBlock (concat (tu_texts t))] else [])
        @ map (\<lambda>c. ToolCallBlock (tr_id c) (tr_name c) (tr_input c)) (tu_calls t)\<rparr>"

definition result_message :: "tool_request list \<Rightarrow> (string \<times> bool) list \<Rightarrow> agent_message" where
  "result_message cs rs =
     \<lparr>role = Tool,
      content = map2 (\<lambda>c r. ToolResultBlock (tr_id c) (fst r) (if snd r then JBool True else JUndef)) cs rs\<rparr>"

lemma answers_results:
  "list_all2 (answers n) cs bs \<Longrightarrow>
     \<exists>rs. length rs = length cs
       \<and> bs = map block_value (map2 (\<lambda>c r. ToolResultBlock (tr_id c) (fst r) (if snd r then JBool True else JUndef)) cs rs)"
proof (induction rule: list_all2_induct)
  case (Cons c cs b bs)
  from Cons.hyps(1) obtain s e where "b = result_block (tr_id c) (s, e)" by (auto simp: answers_def)
  moreover from Cons.IH obtain rs where "length rs = length cs"
    and "bs = map block_value (map2 (\<lambda>c r. ToolResultBlock (tr_id c) (fst r) (if snd r then JBool True else JUndef)) cs rs)"
    by blast
  ultimately show ?case by (intro exI [of _ "(s, e) # rs"]) (simp add: result_block_def)
qed simp

definition calls_kept :: "turn \<Rightarrow> bool" where
  "calls_kept t \<longleftrightarrow>
     list_all (\<lambda>c. tr_id c \<noteq> [] \<and> tr_name c \<noteq> [] \<and> isPlainObject (tr_input c) \<and> isJsonValue (tr_input c)
       \<and> no_proto (tr_input c)) (tu_calls t)"

lemma clone_block_value:
  assumes "case b of ToolCallBlock _ _ v \<Rightarrow> no_proto v | ToolResultBlock _ _ e \<Rightarrow> e = JUndef \<or> e = JBool True | _ \<Rightarrow> True"
  shows "cloneContentBlock (block_value b) = block_value b"
  using assms by (cases b) (auto simp: cloneContentBlock_def cloneJsonValue_same)

lemma clone_message_value:
  assumes "\<And>b. b \<in> set (content m) \<Longrightarrow> cloneContentBlock (block_value b) = block_value b"
  shows "clone_message (message_value m) = message_value m"
  using assms by (simp add: clone_message_def message_value_def Let_def)

lemma append_turn_typed:
  assumes kept: "calls_kept t" and rs: "list_all2 (answers n) (tu_calls t) bs"
  obtains rs where "length rs = length (tu_calls t)"
    and "map clone_message (append_turn msgs t bs) =
      map clone_message msgs @ map message_value [assistant_message t, result_message (tu_calls t) rs]"
proof -
  from answers_results [OF rs] obtain rs where len: "length rs = length (tu_calls t)"
    and bs: "bs = map block_value (content (result_message (tu_calls t) rs))"
    by (auto simp: result_message_def)
  have "assistant_blocks t = map block_value (content (assistant_message t))"
    using kept by (auto simp: assistant_blocks_def assistant_message_def Let_def call_block_def calls_kept_def
        list_all_iff cloneJsonValue_same)
  then have a: "JObj [(''role'', JStr ''assistant''), (''content'', JArr (assistant_blocks t))] = message_value (assistant_message t)"
    by (simp add: message_value_def assistant_message_def)
  have r: "JObj [(''role'', JStr ''tool''), (''content'', JArr bs)] = message_value (result_message (tu_calls t) rs)"
    by (simp add: bs message_value_def) (simp add: result_message_def)
  have "clone_message (message_value (assistant_message t)) = message_value (assistant_message t)"
    by (rule clone_message_value, rule clone_block_value)
      (use kept in \<open>auto simp: assistant_message_def calls_kept_def list_all_iff\<close>)
  moreover have "clone_message (message_value (result_message (tu_calls t) rs)) = message_value (result_message (tu_calls t) rs)"
    by (rule clone_message_value, rule clone_block_value) (auto simp: result_message_def)
  ultimately show thesis using that [of rs] len by (simp add: append_turn_def a r)
qed

section \<open>The checks over an extended conversation\<close>

lemma assertRoleBlockShape_iff:
  "assertRoleBlockShape ms = Inr () \<longleftrightarrow>
     (\<forall>i < length ms. \<forall>b \<in> set (content (ms ! i)). check_block (role (ms ! i)) i b = Inr ())"
proof -
  have "set (zip [0..<length ms] ms) = (\<lambda>i. (i, ms ! i)) ` {..<length ms}" by (force simp: set_zip)
  then show ?thesis by (auto simp: assertRoleBlockShape_def rall_ok)
qed

lemma shape_append:
  assumes "assertRoleBlockShape ms = Inr ()"
    and "\<And>m b i. m \<in> set ns \<Longrightarrow> b \<in> set (content m) \<Longrightarrow> check_block (role m) i b = Inr ()"
  shows "assertRoleBlockShape (ms @ ns) = Inr ()"
  using assms by (auto simp: assertRoleBlockShape_iff nth_append)

definition turn_calls :: "tool_request list \<Rightarrow> content_block list" where
  "turn_calls cs = map (\<lambda>c. ToolCallBlock (tr_id c) (tr_name c) (tr_input c)) cs"

definition turn_results :: "tool_request list \<Rightarrow> (string \<times> bool) list \<Rightarrow> content_block list" where
  "turn_results cs rs =
     map2 (\<lambda>c r. ToolResultBlock (tr_id c) (fst r) (if snd r then JBool True else JUndef)) cs rs"

lemma turn_calls_simps [simp]: "turn_calls [] = []"
  "turn_calls (c # cs) = ToolCallBlock (tr_id c) (tr_name c) (tr_input c) # turn_calls cs"
  by (simp_all add: turn_calls_def)

lemma turn_results_simps [simp]: "turn_results [] rs = []"
  "turn_results (c # cs) (r # rs) =
     ToolResultBlock (tr_id c) (fst r) (if snd r then JBool True else JUndef) # turn_results cs rs"
  by (simp_all add: turn_results_def)

lemma turn_calls_ids [simp]: "call_ids (turn_calls cs) = map tr_id cs"
  by (induction cs) simp_all

lemma turn_results_ids [simp]: "length rs = length cs \<Longrightarrow> call_ids (turn_results cs rs) = []"
  by (induction cs rs rule: list_induct2') auto

lemma resolved_turn_calls:
  "distinct (map tr_id cs) \<Longrightarrow> set (map tr_id cs) \<inter> S = {} \<Longrightarrow> resolved S (turn_calls cs)"
  by (induction cs arbitrary: S) auto

lemma resolved_turn_results: "length rs = length cs \<Longrightarrow> set (map tr_id cs) \<subseteq> S \<Longrightarrow> resolved S (turn_results cs rs)"
  by (induction cs rs rule: list_induct2') auto

lemma correlate_turn_calls:
  "distinct (map tr_id cs) \<Longrightarrow> set (map tr_id cs) \<inter> (P \<union> Q) = {} \<Longrightarrow>
     rfold correlate_call (turn_calls cs) (P, Q) = Inr (P \<union> set (map tr_id cs), Q)"
  by (induction cs arbitrary: P) (auto simp: correlate_call_def insert_commute)

lemma correlate_turn_results:
  "length rs = length cs \<Longrightarrow> distinct (map tr_id cs) \<Longrightarrow> set (map tr_id cs) \<subseteq> P \<Longrightarrow>
     rfold correlate_result (turn_results cs rs) (P, Q) = Inr (P - set (map tr_id cs), Q \<union> set (map tr_id cs))"
proof (induction cs rs arbitrary: P Q rule: list_induct2')
  case (4 c cs r rs)
  have "set (map tr_id cs) \<subseteq> P - {tr_id c}" using 4 by (auto simp del: imageI intro: rev_image_eqI)
  with 4 have "rfold correlate_result (turn_results cs rs) (P - {tr_id c}, insert (tr_id c) Q) =
      Inr (P - {tr_id c} - set (map tr_id cs), insert (tr_id c) Q \<union> set (map tr_id cs))" by simp
  moreover have "P - {tr_id c} - set (map tr_id cs) = P - set (map tr_id (c # cs))" by auto
  moreover have "correlate_result (ToolResultBlock (tr_id c) s e) (P, Q) = Inr (P - {tr_id c}, insert (tr_id c) Q)" for s e
    using 4 by (simp add: correlate_result_def)
  ultimately show ?case by simp
qed auto

lemma assistant_content: "content (assistant_message t) =
    (if concat (tu_texts t) \<noteq> [] then [TextBlock (concat (tu_texts t))] else []) @ turn_calls (tu_calls t)"
  by (simp add: assistant_message_def turn_calls_def)

lemma result_content_eq: "content (result_message cs rs) = turn_results cs rs"
  by (simp add: result_message_def turn_results_def)

lemma turn_conversation:
  "conversation [assistant_message t, result_message (tu_calls t) rs] =
     (if concat (tu_texts t) \<noteq> [] then [TextBlock (concat (tu_texts t))] else [])
     @ turn_calls (tu_calls t) @ turn_results (tu_calls t) rs"
  by (simp add: conversation_def assistant_content result_content_eq)

lemma issued_call_ids: "set (issued ms) \<subseteq> set (call_ids (conversation ms))"
  by (induction ms) (auto simp: issued_def conversation_def)

lemma correlation_append:
  assumes ok: "assertToolCorrelation ms = Inr ()" and len: "length rs = length (tu_calls t)"
    and ids: "distinct (map tr_id (tu_calls t))"
    and new: "set (map tr_id (tu_calls t)) \<inter> set (call_ids (conversation ms)) = {}"
  shows "assertToolCorrelation (ms @ [assistant_message t, result_message (tu_calls t) rs]) = Inr ()"
proof -
  obtain st where run: "rfold correlate_message ms ({}, {}) = Inr st" and "fst st = {}"
    using ok by (auto simp: assertToolCorrelation_def split: if_splits)
  then obtain Q where st: "st = ({}, Q)" by (cases st) auto
  have "correlation_inv [] [] ({}, {})" by (simp add: correlation_inv_def)
  from correlate_messages_inv [OF run this] have "Q = set (issued ms)"
    by (simp add: correlation_inv_def st)
  with new issued_call_ids [of ms] have fresh: "set (map tr_id (tu_calls t)) \<inter> ({} \<union> Q) = {}" by auto
  have "rfold correlate_call (content (assistant_message t)) ({}, Q) = Inr (set (map tr_id (tu_calls t)), Q)"
    using correlate_turn_calls [OF ids fresh] by (simp add: assistant_content correlate_call_def)
  then have "correlate_message (assistant_message t) ({}, Q) = Inr (set (map tr_id (tu_calls t)), Q)"
    by (simp add: correlate_message_def assistant_message_def)
  moreover have "correlate_message (result_message (tu_calls t) rs) (set (map tr_id (tu_calls t)), Q)
      = Inr ({}, Q \<union> set (map tr_id (tu_calls t)))"
    using correlate_turn_results [OF len ids subset_refl, of Q]
    by (simp add: correlate_message_def result_content_eq) (simp add: result_message_def)
  ultimately show ?thesis
    by (simp add: assertToolCorrelation_def rfold_append run st)
qed

section \<open>Turn requests\<close>

text \<open>What the checks ask of the parts of a turn request that stay the same.\<close>

definition turn_base :: "jsval \<Rightarrow> bool" where
  "turn_base request \<longleftrightarrow>
     is_ok (assertNonEmptyString (field request ''requestId'') ''empty_request_id'' ''requestId'')
     \<and> is_ok (assertNonEmptyString (field request ''routeId'') ''empty_route_id'' ''routeId'')
     \<and> is_ok (assertNonEmptyString (field request ''model'') ''empty_model'' ''model'')
     \<and> positive_integer (field request ''maxTokens'')
     \<and> validateAgentToolDefinitions (JArr (cloneToolDefinitions (field request ''tools''))) = Inr ()
     \<and> assertToolSchemas (map as_tool (cloneToolDefinitions (field request ''tools''))) = Inr ()"

definition turn_messages :: "jsval list \<Rightarrow> agent_message list" where
  "turn_messages msgs = map as_message (map clone_message msgs)"

lemma turn_keys_allowed:
  "\<not> list_ex (\<lambda>key. to_lower key \<in> set forbidden_request_fields) (obj_keys (buildTurnRequest request msgs))"
  by (simp add: buildTurnRequest_def forbidden_request_fields_def ascii_lower_def)

lemma turn_fields [simp]:
  "field (buildTurnRequest request msgs) ''requestId'' = field request ''requestId''"
  "field (buildTurnRequest request msgs) ''routeId'' = field request ''routeId''"
  "field (buildTurnRequest request msgs) ''model'' = field request ''model''"
  "field (buildTurnRequest request msgs) ''messages'' = JArr (map clone_message msgs)"
  "field (buildTurnRequest request msgs) ''tools'' = JArr (cloneToolDefinitions (field request ''tools''))"
  "field (buildTurnRequest request msgs) ''maxTokens'' = field request ''maxTokens''"
  "isPlainObject (buildTurnRequest request msgs)"
  by (simp_all add: buildTurnRequest_def cloneMessages_def)

lemma turn_accepted_iff:
  "assertAdapterRequest (buildTurnRequest request msgs) = Inr () \<longleftrightarrow>
     turn_base request \<and> msgs \<noteq> [] \<and> is_ok (rfold validate_message (map clone_message msgs) {})
     \<and> assertRoleBlockShape (turn_messages msgs) = Inr () \<and> assertToolArgumentObjects (turn_messages msgs) = Inr ()
     \<and> assertToolCorrelation (turn_messages msgs) = Inr ()"
proof -
  have "validateModelRequest (buildTurnRequest request msgs) = Inr () \<longleftrightarrow>
      is_ok (assertNonEmptyString (field request ''requestId'') ''empty_request_id'' ''requestId'')
      \<and> is_ok (assertNonEmptyString (field request ''routeId'') ''empty_route_id'' ''routeId'')
      \<and> is_ok (assertNonEmptyString (field request ''model'') ''empty_model'' ''model'')
      \<and> positive_integer (field request ''maxTokens'')
      \<and> msgs \<noteq> [] \<and> is_ok (rfold validate_message (map clone_message msgs) {})
      \<and> validateAgentToolDefinitions (JArr (cloneToolDefinitions (field request ''tools''))) = Inr ()"
    using turn_keys_allowed [of request msgs]
    by (auto simp: validateModelRequest_def validateAgentMessages_def is_ok_iff)
  then show ?thesis
    by (auto simp: assertAdapterRequest_def runSharedValidation_def Let_def as_request_def turn_base_def turn_messages_def
        split: sum.splits)
qed

lemma accept_next_turn:
  assumes ok: "assertAdapterRequest (buildTurnRequest request msgs) = Inr ()"
    and seen: "set (call_ids (conversation (turn_messages msgs))) \<subseteq> set seen"
    and kept: "calls_kept t" and some: "tu_calls t \<noteq> []"
    and ids: "distinct (map tr_id (tu_calls t))" "set (map tr_id (tu_calls t)) \<inter> set seen = {}"
    and bs: "list_all2 (answers n) (tu_calls t) bs"
  shows "assertAdapterRequest (buildTurnRequest request (append_turn msgs t bs)) = Inr ()
    \<and> set (call_ids (conversation (turn_messages (append_turn msgs t bs)))) \<subseteq> set (seen @ map tr_id (tu_calls t))"
proof -
  from append_turn_typed [OF kept bs, of msgs] obtain rs where len: "length rs = length (tu_calls t)"
    and raw: "map clone_message (append_turn msgs t bs) =
      map clone_message msgs @ map message_value [assistant_message t, result_message (tu_calls t) rs]" by metis
  let ?new = "[assistant_message t, result_message (tu_calls t) rs]"
  have typed: "turn_messages (append_turn msgs t bs) = turn_messages msgs @ ?new"
    unfolding turn_messages_def raw by simp
  have fresh: "set (map tr_id (tu_calls t)) \<inter> set (call_ids (conversation (turn_messages msgs))) = {}"
    using ids(2) seen by blast
  from ok have base: "turn_base request" "msgs \<noteq> []" "assertRoleBlockShape (turn_messages msgs) = Inr ()"
      "assertToolArgumentObjects (turn_messages msgs) = Inr ()" "assertToolCorrelation (turn_messages msgs) = Inr ()"
    and "is_ok (rfold validate_message (map clone_message msgs) {})"
    by (simp_all add: turn_accepted_iff)
  then obtain S where S: "rfold validate_message (map clone_message msgs) {} = Inr S" by (auto simp: is_ok_iff)
  have S_eq: "S = set (call_ids (conversation (turn_messages msgs)))"
    using validate_messages_sound [OF S] by (simp add: turn_messages_def)
  have blocks: "set (conversation ?new) = set (if concat (tu_texts t) \<noteq> [] then [TextBlock (concat (tu_texts t))] else [])
      \<union> set (turn_calls (tu_calls t)) \<union> set (turn_results (tu_calls t) rs)"
    unfolding turn_conversation by auto
  have call_blocks: "\<exists>c \<in> set (tu_calls t). b = ToolCallBlock (tr_id c) (tr_name c) (tr_input c)"
    if "b \<in> set (turn_calls (tu_calls t))" for b
    using that by (auto simp: turn_calls_def)
  have result_blocks: "\<exists>c \<in> set (tu_calls t). \<exists>s e. b = ToolResultBlock (tr_id c) s e \<and> (e = JUndef \<or> is_bool e)"
    if "b \<in> set (turn_results (tu_calls t) rs)" for b
    using that by (auto simp: turn_results_def dest!: set_zip_leftD split: if_splits)
  have checked: "rfold validate_message (map message_value ?new) S = Inr (S \<union> set (call_ids (conversation ?new)))"
  proof (rule validate_messages_complete)
    show "\<forall>m \<in> set ?new. content m \<noteq> []"
      using some len by (auto simp: assistant_content result_content_eq turn_calls_def turn_results_def)
    show "\<forall>b \<in> set (conversation ?new). block_wf b"
      using kept unfolding blocks
      by (auto dest!: call_blocks result_blocks simp: calls_kept_def list_all_iff split: if_splits)
    show "resolved S (conversation ?new)"
      unfolding turn_conversation
      using resolved_turn_calls [OF ids(1), of S] resolved_turn_results [OF len, of "S \<union> set (map tr_id (tu_calls t))"] fresh
      by (auto simp: resolved_append S_eq)
  qed
  have "is_ok (rfold validate_message (map clone_message (append_turn msgs t bs)) {})"
    unfolding raw by (simp only: rfold_append S rbind_simps checked is_ok_simps)
  moreover have "assertRoleBlockShape (turn_messages (append_turn msgs t bs)) = Inr ()"
    unfolding typed
  proof (rule shape_append [OF base(3)])
    fix m b i assume "m \<in> set ?new" and b: "b \<in> set (content m)"
    then consider "m = assistant_message t" | "m = result_message (tu_calls t) rs" by auto
    then show "check_block (role m) i b = Inr ()"
    proof cases
      case 1
      with b have "(\<exists>s. b = TextBlock s) \<or> (\<exists>k n v. b = ToolCallBlock k n v)"
        by (auto simp: assistant_content dest!: call_blocks split: if_splits)
      with 1 show ?thesis by (auto simp: check_block_def assistant_message_def)
    next
      case 2
      with b have "b \<in> set (turn_results (tu_calls t) rs)" by (simp add: result_content_eq)
      from result_blocks [OF this] 2 show ?thesis by (auto simp: check_block_def result_message_def)
    qed
  qed
  moreover have "assertToolArgumentObjects (turn_messages (append_turn msgs t bs)) = Inr ()"
  proof -
    have "assertToolArgumentObjects ?new = Inr ()"
      using kept
      by (auto simp: assertToolArgumentObjects_def rall_ok assistant_content result_content_eq calls_kept_def list_all_iff
          dest!: call_blocks result_blocks split: if_splits)
    with base(4) show ?thesis unfolding typed assertToolArgumentObjects_def by (auto simp: rall_ok)
  qed
  moreover have "assertToolCorrelation (turn_messages (append_turn msgs t bs)) = Inr ()"
    unfolding typed by (rule correlation_append [OF base(5) len ids(1) fresh])
  moreover have "append_turn msgs t bs \<noteq> []" by (simp add: append_turn_def)
  ultimately have "assertAdapterRequest (buildTurnRequest request (append_turn msgs t bs)) = Inr ()"
    using base(1) by (simp add: turn_accepted_iff)
  moreover have "set (call_ids (conversation (turn_messages (append_turn msgs t bs)))) \<subseteq> set (seen @ map tr_id (tu_calls t))"
    using seen len unfolding typed conversation_def
    by (auto simp: assistant_content result_content_eq)
  ultimately show ?thesis by blast
qed


section \<open>The ids a run starts from\<close>

text \<open>The calls of the copied history are among the ids that \<open>collectToolCallIds\<close> found.\<close>

definition raw_call_ids :: "jsval \<Rightarrow> string list" where
  "raw_call_ids b =
     (if isPlainObject b \<and> field b ''type'' = JStr ''tool_call'' \<and> is_string (field b ''id'')
      then [as_str (field b ''id'')] else [])"

lemma clone_block_fields:
  assumes "isPlainObject b"
  shows "isPlainObject (cloneContentBlock b)" "field (cloneContentBlock b) ''type'' = field b ''type''"
    and "field b ''type'' = JStr ''tool_call'' \<Longrightarrow> field (cloneContentBlock b) ''id'' = field b ''id''"
  using assms by (auto simp: cloneContentBlock_def)

lemma clone_block_plain: "isPlainObject (cloneContentBlock b) \<longleftrightarrow> isPlainObject b"
  using clone_block_fields(1) [of b] by (auto simp: cloneContentBlock_def)

lemma validated_block_ids:
  assumes "validate_block (cloneContentBlock (cloneContentBlock b)) S = Inr S'"
  shows "S' \<subseteq> S \<union> set (raw_call_ids b)"
proof -
  have plain: "isPlainObject b"
    using assms clone_block_plain by (auto simp: validate_block_def split: if_splits)
  have kind: "field (cloneContentBlock (cloneContentBlock b)) ''type'' = field b ''type''"
    using clone_block_fields(1,2) [OF plain] clone_block_fields(2) [of "cloneContentBlock b"] by simp
  show ?thesis
  proof (cases "field b ''type'' = JStr ''tool_call''")
    case True
    have "field (cloneContentBlock (cloneContentBlock b)) ''id'' = field b ''id''"
      using clone_block_fields [OF plain] clone_block_fields(3) [of "cloneContentBlock b"] True by simp
    with assms True kind plain show ?thesis
      by (auto simp: validate_block_def assertNonEmptyString_def raw_call_ids_def split: if_splits)
  next
    case False
    with assms kind show ?thesis by (auto simp: validate_block_def split: if_splits)
  qed
qed

lemma validated_blocks_ids:
  "rfold validate_block (map cloneContentBlock (map cloneContentBlock bs)) S = Inr S' \<Longrightarrow>
     S' \<subseteq> S \<union> set (concat (map raw_call_ids bs))"
proof (induction bs arbitrary: S)
  case (Cons b bs)
  then obtain T where "validate_block (cloneContentBlock (cloneContentBlock b)) S = Inr T"
    and "rfold validate_block (map cloneContentBlock (map cloneContentBlock bs)) T = Inr S'" by auto
  with validated_block_ids [of b S T] Cons.IH [of T] show ?case by auto
qed simp

lemma clone_message_twice:
  "clone_message (clone_message m) =
     (let bs = (if isPlainObject m \<and> is_array (field m ''content'') then as_arr (field m ''content'') else []) in
      JObj [(''role'', if isPlainObject m then field m ''role'' else JUndef),
            (''content'', JArr (map cloneContentBlock (map cloneContentBlock bs)))])"
  by (simp add: clone_message_def Let_def)

lemma validated_message_ids:
  assumes "validate_message (clone_message (clone_message m)) S = Inr S'"
  shows "S' \<subseteq> S \<union> set (message_call_ids m)"
proof -
  let ?bs = "if isPlainObject m \<and> is_array (field m ''content'') then as_arr (field m ''content'') else []"
  have "rfold validate_block (map cloneContentBlock (map cloneContentBlock ?bs)) S = Inr S'"
    using assms unfolding clone_message_twice by (auto simp: validate_message_def Let_def split: if_splits)
  from validated_blocks_ids [OF this] show ?thesis
    by (auto simp: message_call_ids_def raw_call_ids_def split: if_splits)
qed

lemma validated_messages_ids:
  "rfold validate_message (map clone_message (map clone_message ms)) S = Inr S' \<Longrightarrow>
     S' \<subseteq> S \<union> set (concat (map message_call_ids ms))"
proof (induction ms arbitrary: S)
  case (Cons m ms)
  then obtain T where "validate_message (clone_message (clone_message m)) S = Inr T"
    and "rfold validate_message (map clone_message (map clone_message ms)) T = Inr S'" by auto
  with validated_message_ids [of m S T] Cons.IH [of T] show ?case by auto
qed simp

lemma initial_ids_seen:
  assumes "assertAdapterRequest (buildTurnRequest request (cloneMessages (field request ''messages''))) = Inr ()"
  shows "set (call_ids (conversation (turn_messages (cloneMessages (field request ''messages'')))))
    \<subseteq> set (collectToolCallIds (field request ''messages''))"
proof (cases "is_array (field request ''messages'')")
  case True
  let ?ms = "as_arr (field request ''messages'')"
  from assms obtain S where S: "rfold validate_message (map clone_message (map clone_message ?ms)) {} = Inr S"
    using True by (auto simp: turn_accepted_iff cloneMessages_def is_ok_iff)
  with validate_messages_sound [OF S] validated_messages_ids [OF S] True show ?thesis
    by (simp add: turn_messages_def cloneMessages_def collectToolCallIds_def)
qed (simp add: cloneMessages_def turn_messages_def conversation_def)

section \<open>Every request of a run\<close>

text \<open>What is asked of the gateway: the inputs of its tool calls are objects that copying keeps.\<close>

fun input_kept :: "model_event \<Rightarrow> bool" where
  "input_kept (MToolCall _ _ v) = (isPlainObject v \<and> no_proto v)"
| "input_kept _ = True"

definition requests_accepted :: "loop_effect list \<Rightarrow> bool" where
  "requests_accepted fx \<longleftrightarrow> list_all (\<lambda>v. assertAdapterRequest v = Inr ()) (model_requests fx)"

lemma requests_accepted_simps [simp]:
  "requests_accepted []"
  "requests_accepted (xs @ ys) \<longleftrightarrow> requests_accepted xs \<and> requests_accepted ys"
  "requests_accepted [ModelAsked v] \<longleftrightarrow> assertAdapterRequest v = Inr ()"
  "requests_accepted (map ToolRun cs)"
  "requests_accepted (map (ToolRun \<circ> f) xs)"
  by (simp_all add: requests_accepted_def comp_def)

lemma drawn_kept:
  assumes kept: "\<And>v sg w. list_all input_kept (fst (fst (gateway v sg w)))"
    and es: "streamed gateway request es" and c: "drawn es c"
  shows "tr_id c \<noteq> [] \<and> tr_name c \<noteq> [] \<and> isPlainObject (tr_input c) \<and> isJsonValue (tr_input c) \<and> no_proto (tr_input c)"
proof -
  from c have names: "tr_id c \<noteq> []" "tr_name c \<noteq> []" by (simp_all add: drawn_def)
  from c obtain a where "a \<in> set es" and
    "case a of AToolCall _ _ _ v \<Rightarrow> isJsonValue v \<and> tr_input c = cloneJsonValue v | _ \<Rightarrow> False"
    by (auto simp: drawn_def list_ex_iff)
  then obtain rid i n v where call: "AToolCall rid i n v \<in> set es" and v: "isJsonValue v" "tr_input c = cloneJsonValue v"
    by (cases a rule: agent_event.exhaust) auto
  from es call obtain sg w where "AToolCall rid i n v \<in> set (core_stream (as_str (field request ''requestId'')) (fst (gateway request sg w)))"
    by (auto simp: streamed_def)
  then obtain e where e: "e \<in> set (fst (fst (gateway request sg w)))" "mapGatewayEvent (as_str (field request ''requestId'')) e = AToolCall rid i n v"
    by (auto simp: core_stream_def split: src_end.splits)
  from e(2) have "\<exists>i n. e = MToolCall i n v" by (cases e) (auto simp: sanitizedGatewayError_def Let_def)
  with kept [of request sg w] e(1) have "isPlainObject v \<and> no_proto v" by (auto simp: list_all_iff)
  with v names show ?thesis by (simp add: cloneJsonValue_same)
qed

lemma loop_requests_accepted:
  assumes kept: "\<And>v sg w. list_all input_kept (fst (fst (al_gateway L v sg w)))"
  shows "assertAdapterRequest (buildTurnRequest request msgs) = Inr () \<Longrightarrow>
     set (call_ids (conversation (turn_messages msgs))) \<subseteq> set seen \<Longrightarrow>
     stretch (\<lambda>_ _. False) requests_accepted (loop_turns k L request rid available i msgs seen sg (w :: 'w))"
proof (induction k arbitrary: i msgs seen sg w)
  case (Suc k)
  let ?t0 = "\<lparr>tu_texts = [], tu_calls = [], tu_completed = False, tu_seen = seen\<rparr>"
  let ?v = "buildTurnRequest request msgs"
  show ?case
    unfolding loop_turns.simps
  proof (intro stretch_after_check stretch_after_say)
    fix sg and w :: 'w
    show "stretch (\<lambda>_ _. False) requests_accepted
      (then_run (read_turn (al_gateway L) rid i ?v ?t0 sg w) (\<lambda>(t, exit) sg w.
       then_run (after_stream L rid available i msgs t exit sg w) (\<lambda>msgs' sg w.
       loop_turns k L request rid available (i + 1) msgs' (tu_seen t) sg w)))"
    proof (rule stretch_then [OF read_turn_ok], simp, simp add: Suc.prems(1), clarify)
      fix fx t exit sg and w :: 'w
      assume fx: "fx = [] \<or> fx = [ModelAsked ?v]" and res: "turn_result (al_gateway L) ?v ?t0 (t, exit)"
      from res obtain es where es: "streamed (al_gateway L) ?v es" and grows: "turn_grows es ?t0 t"
        by (auto simp: turn_result_def)
      note fresh = turn_grows_fresh [OF grows]
      have calls: "calls_kept t"
        using fresh drawn_kept [OF kept es] by (auto simp: calls_kept_def list_all_iff)
      have start: "requests_accepted fx" using fx Suc.prems(1) by auto
      show "stretch (\<lambda>_ _. False) (\<lambda>gx. requests_accepted (fx @ gx))
        (then_run (after_stream L rid available i msgs t exit sg w) (\<lambda>msgs' sg w.
          loop_turns k L request rid available (i + 1) msgs' (tu_seen t) sg w))"
      proof (rule stretch_then [OF after_stream_ok])
        show "\<forall>x. exit = GatewayFailed x \<longrightarrow> loop_terminal x" using res by (simp add: turn_result_def)
      next
        fix gx msgs' sg and w :: 'w
        assume after: "turn_allowed L available i t \<and> gx = map ToolRun (map sent_call (tu_calls t))
          \<and> (\<exists>bs. msgs' = append_turn msgs t bs \<and> list_all2 (answers (al_max_bytes L)) (tu_calls t) bs)"
        then obtain bs where bs: "msgs' = append_turn msgs t bs" "list_all2 (answers (al_max_bytes L)) (tu_calls t) bs"
          and some: "tu_calls t \<noteq> []" by (auto simp: turn_allowed_def)
        have "stretch (\<lambda>_ _. False) requests_accepted
            (loop_turns k L request rid available (i + 1) msgs' (tu_seen t) sg w)"
          using accept_next_turn [OF Suc.prems calls some _ _ bs(2)] fresh bs(1) by (intro Suc.IH) auto
        then show "stretch (\<lambda>_ _. False) (\<lambda>hx. requests_accepted (fx @ gx @ hx))
            (loop_turns k L request rid available (i + 1) msgs' (tu_seen t) sg w)"
          by (rule stretch_mono) (use start after in \<open>auto simp flip: map_map\<close>)
      qed (use start in \<open>simp_all\<close>)
    qed
  qed simp_all
qed simp

section \<open>Every turn gets past the validation\<close>

text \<open>
  A turn that has been announced goes on with the selected route, which the core announces once it has accepted the request the loop has
  built, or it is the last and was aborted.  It never goes on with a refusal of that request.
\<close>

fun turns_go_on :: "loop_event list \<Rightarrow> bool" where
  "turns_go_on [] = True"
| "turns_go_on (LTurnStarted r i # es) =
     ((case es of
         LRouteSelected r' j _ _ # _ \<Rightarrow> r' = r \<and> j = i
       | [LError r' j code _ _] \<Rightarrow> r' = r \<and> j = i \<and> code = ''aborted''
       | _ \<Rightarrow> False)
      \<and> turns_go_on es)"
| "turns_go_on (e # es) = turns_go_on es"

fun announces :: "loop_event \<Rightarrow> bool" where
  "announces (LTurnStarted _ _) = True"
| "announces _ = False"

definition no_turn :: "loop_event list \<Rightarrow> bool" where "no_turn es \<longleftrightarrow> list_all (\<lambda>e. \<not> announces e) es"

lemma no_turn_simps [simp]:
  "no_turn []" "no_turn (e # es) \<longleftrightarrow> \<not> announces e \<and> no_turn es" "no_turn (xs @ ys) \<longleftrightarrow> no_turn xs \<and> no_turn ys"
  by (simp_all add: no_turn_def)

lemma turns_go_on_skip: "no_turn xs \<Longrightarrow> turns_go_on (xs @ ys) = turns_go_on ys"
proof (induction xs)
  case (Cons x xs)
  then show ?case by (cases x) simp_all
qed simp

lemma turns_go_on_quiet: "no_turn xs \<Longrightarrow> turns_go_on xs"
  using turns_go_on_skip [of xs "[]"] by simp

lemma terminal_announces: "loop_terminal e \<Longrightarrow> \<not> announces e"
  by (cases e) simp_all

text \<open>A stretch that announces no turn.\<close>

definition silent :: "('w, 'a) loop_gen \<Rightarrow> bool" where "silent m \<longleftrightarrow> no_turn (events m)"

lemma silent_simps [simp]:
  "silent (say es a sg w) \<longleftrightarrow> no_turn es" "silent (stop_with e sg w) \<longleftrightarrow> \<not> announces e"
  "silent (es, fx, sg, w, r) \<longleftrightarrow> no_turn es"
  by (simp_all add: silent_def say_def stop_with_def)

lemma silent_then: "silent m \<Longrightarrow> (\<And>a sg w. silent (k a sg w)) \<Longrightarrow> silent (then_run m k)"
  by (auto simp: silent_def events_then split: prod.splits option.splits)

lemma silent_check: "silent (loop_check rid i sg w)"
  by (cases "observe sg") (simp add: loop_check_def runtimeError_def)

lemma handle_event_silent: "handle_event rid i e t = (out, t', exit) \<Longrightarrow> no_turn out"
  by (cases e) (auto split: sum.splits)

lemma silent_pending: "silent (read_pending rid i es t sg (w :: 'w))"
proof (induction es arbitrary: t sg w)
  case Nil
  show ?case by (auto intro!: silent_then silent_check)
next
  case (Cons e es)
  obtain out t1 exit where h: "handle_event rid i e t = (out, t1, exit)" by (cases "handle_event rid i e t")
  show ?case
    unfolding read_pending.simps h prod.case
    by (intro silent_then silent_check) (auto simp: handle_event_silent [OF h] Cons.IH split: option.splits intro!: silent_then silent_check)
qed

lemma silent_tool: "silent (executeTool execute c sg w)"
  by (auto simp: executeTool_def say_def split: prod.splits)

lemma silent_tools: "silent (run_tools execute n rid i calls sg (w :: 'w))"
proof (induction calls arbitrary: sg w)
  case (Cons c calls)
  show ?case
    unfolding run_tools.simps
    by (intro silent_then silent_check silent_tool)
      (auto simp: Cons.IH runtimeError_def split: option.splits intro!: silent_then)
qed simp

lemma silent_after_stream:
  assumes "\<forall>x. exit = GatewayFailed x \<longrightarrow> loop_terminal x"
  shows "silent (after_stream L rid available i msgs t exit sg w)"
  using assms
  by (auto simp: after_stream_def terminal_announces runtimeError_def split: turn_exit.splits option.splits
      intro!: silent_then silent_check silent_tools)

text \<open>The first event of a turn whose request the core accepts.\<close>

definition turn_goes_on :: "string \<Rightarrow> nat \<Rightarrow> loop_event list \<Rightarrow> bool" where
  "turn_goes_on rid i es \<longleftrightarrow>
     es = [runtimeError rid i LoopAborted] \<or> (\<exists>route mdl rest. es = LRouteSelected rid i route mdl # rest \<and> no_turn rest)"

lemma turn_goes_on_events: "turn_goes_on rid i es \<Longrightarrow> turns_go_on (LTurnStarted rid i # es)"
  by (auto simp: turn_goes_on_def runtimeError_def turns_go_on_quiet)

lemma checked_then:
  assumes "\<And>sg w. gen_ok P R (k sg w)" and "R [runtimeError rid i LoopAborted] []"
  shows "gen_ok P R (then_run (loop_check rid i sg w) (\<lambda>_ sg w. k sg w))"
  using assms by (cases "observe sg") (auto simp: loop_check_def stop_with_def say_def)

lemma read_turn_goes_on:
  assumes "validateModelRequest request = Inr ()"
  shows "gen_ok (\<lambda>es _ _. turn_goes_on rid i es \<and> hd es \<noteq> runtimeError rid i LoopAborted) (\<lambda>es _. turn_goes_on rid i es)
    (read_turn gateway rid i request t sg w)"
proof -
  let ?e = "LRouteSelected rid i (as_str (field request ''routeId'')) (as_str (field request ''model''))"
  have start: "core_start request = Inr (ARouteSelected (as_str (field request ''requestId'')) (as_str (field request ''routeId''))
      (as_str (field request ''model'')))"
    by (simp add: core_start_def assms)
  have rest: "gen_ok (\<lambda>es _ _. no_turn es) (\<lambda>es _. no_turn es) m" if "silent m" for m :: "('c, 'd) loop_gen"
    using that by (auto simp: silent_def gen_ok_def events_def split: prod.splits option.splits)
  have body: "silent (then_run (loop_check rid i sg w) (\<lambda>_ sg w.
      case gateway request sg w of (src, w') \<Rightarrow>
        then_run ([], [ModelAsked request], sg, w', Some ()) (\<lambda>_ sg w.
        read_pending rid i (core_stream (as_str (field request ''requestId'')) src) t sg w)))" for sg w
    by (intro silent_then silent_check) (auto intro!: silent_then silent_pending split: prod.splits)
  show ?thesis
    unfolding read_turn_def start sum.case
  proof (rule checked_then, rule checked_then, rule gen_ok_then [where P = "\<lambda>es _ _. es = [?e]"])
    fix es :: "loop_event list" and fx :: "loop_effect list" and sg w assume es: "es = [?e]"
    show "gen_ok (\<lambda>fs gx _. turn_goes_on rid i (es @ fs) \<and> hd (es @ fs) \<noteq> runtimeError rid i LoopAborted)
        (\<lambda>fs gx. turn_goes_on rid i (es @ fs))
      (then_run (loop_check rid i sg w) (\<lambda>_ sg w.
        case gateway request sg w of (src, w') \<Rightarrow>
          then_run ([], [ModelAsked request], sg, w', Some ()) (\<lambda>_ sg w.
          read_pending rid i (core_stream (as_str (field request ''requestId'')) src) t sg w)))"
      by (rule gen_ok_mono [OF rest [OF body]]) (auto simp: es turn_goes_on_def runtimeError_def)
  qed (simp_all add: say_def turn_goes_on_def)
qed

lemma accepted_valid: "assertAdapterRequest v = Inr () \<Longrightarrow> validateModelRequest v = Inr ()"
  by (auto simp: assertAdapterRequest_def runSharedValidation_def Let_def split: sum.splits)

lemma gen_ok_conj: "gen_ok P R m \<Longrightarrow> gen_ok P' R' m \<Longrightarrow> gen_ok (\<lambda>es fx a. P es fx a \<and> P' es fx a) (\<lambda>es fx. R es fx \<and> R' es fx) m"
  by (auto simp: gen_ok_def split: prod.splits option.splits)

lemma loop_turns_go_on:
  assumes kept: "\<And>v sg w. list_all input_kept (fst (fst (al_gateway L v sg w)))"
  shows "assertAdapterRequest (buildTurnRequest request msgs) = Inr () \<Longrightarrow>
     set (call_ids (conversation (turn_messages msgs))) \<subseteq> set seen \<Longrightarrow>
     gen_ok (\<lambda>es _ _. turns_go_on es) (\<lambda>es _. turns_go_on es) (loop_turns k L request rid available i msgs seen sg (w :: 'w))"
proof (induction k arbitrary: i msgs seen sg w)
  case (Suc k)
  let ?t0 = "\<lparr>tu_texts = [], tu_calls = [], tu_completed = False, tu_seen = seen\<rparr>"
  let ?v = "buildTurnRequest request msgs"
  let ?rest = "\<lambda>r sg w. then_run (after_stream L rid available i msgs (fst r) (snd r) sg w) (\<lambda>msgs' sg w.
    loop_turns k L request rid available (i + 1) msgs' (tu_seen (fst r)) sg w)"
  have next_turn: "gen_ok (\<lambda>es _ _. turns_go_on es) (\<lambda>es _. turns_go_on es) (?rest (t, exit) sg w)"
    if res: "turn_result (al_gateway L) ?v ?t0 (t, exit)" for t exit sg and w :: 'w
  proof -
    from res obtain es where es: "streamed (al_gateway L) ?v es" and grows: "turn_grows es ?t0 t"
      by (auto simp: turn_result_def)
    note fresh = turn_grows_fresh [OF grows]
    have calls: "calls_kept t"
      using fresh drawn_kept [OF kept es] by (auto simp: calls_kept_def list_all_iff)
    have exit: "\<forall>x. exit = GatewayFailed x \<longrightarrow> loop_terminal x" using res by (simp add: turn_result_def)
    have after: "gen_ok (\<lambda>es fx msgs'. no_turn es \<and> tu_calls t \<noteq> []
          \<and> (\<exists>bs. msgs' = append_turn msgs t bs \<and> list_all2 (answers (al_max_bytes L)) (tu_calls t) bs)) (\<lambda>es _. turns_go_on es)
        (after_stream L rid available i msgs t exit sg w)"
    proof -
      have "stretch (\<lambda>fx msgs'. turn_allowed L available i t \<and> fx = map ToolRun (map sent_call (tu_calls t))
         \<and> (\<exists>bs. msgs' = append_turn msgs t bs \<and> list_all2 (answers (al_max_bytes L)) (tu_calls t) bs)) (\<lambda>_. True)
        (after_stream L rid available i msgs t exit sg w)"
        by (rule after_stream_ok [OF exit]) simp_all
      then show ?thesis
        using silent_after_stream [OF exit, of L rid available i msgs t sg w]
        by (auto simp: stretch_def silent_def events_def gen_ok_def turn_allowed_def turns_go_on_quiet split: prod.splits option.splits)
    qed
    show ?thesis
      unfolding fst_conv snd_conv
    proof (rule gen_ok_then [OF after])
      fix es fx msgs' sg and w :: 'w
      assume a: "no_turn es \<and> tu_calls t \<noteq> []
        \<and> (\<exists>bs. msgs' = append_turn msgs t bs \<and> list_all2 (answers (al_max_bytes L)) (tu_calls t) bs)"
      then obtain bs where bs: "msgs' = append_turn msgs t bs" "list_all2 (answers (al_max_bytes L)) (tu_calls t) bs"
        and some: "tu_calls t \<noteq> []" by blast
      have "gen_ok (\<lambda>es _ _. turns_go_on es) (\<lambda>es _. turns_go_on es)
          (loop_turns k L request rid available (i + 1) msgs' (tu_seen t) sg w)"
        using accept_next_turn [OF Suc.prems calls some _ _ bs(2)] fresh bs(1) by (intro Suc.IH) auto
      with a show "gen_ok (\<lambda>fs gx _. turns_go_on (es @ fs)) (\<lambda>fs gx. turns_go_on (es @ fs))
          (loop_turns k L request rid available (i + 1) msgs' (tu_seen t) sg w)"
        by (simp add: turns_go_on_skip)
    qed
  qed
  have valid: "validateModelRequest ?v = Inr ()" by (rule accepted_valid [OF Suc.prems(1)])
  have read: "gen_ok (\<lambda>es fx r. turn_goes_on rid i es \<and> hd es \<noteq> runtimeError rid i LoopAborted \<and> turn_result (al_gateway L) ?v ?t0 r)
      (\<lambda>es _. turns_go_on (LTurnStarted rid i # es)) (read_turn (al_gateway L) rid i ?v ?t0 sg w)" for sg and w :: 'w
  proof -
    have "stretch (\<lambda>fx r. (fx = [] \<or> fx = [ModelAsked ?v]) \<and> turn_result (al_gateway L) ?v ?t0 r) (\<lambda>_. True)
        (read_turn (al_gateway L) rid i ?v ?t0 sg w)" by (rule read_turn_ok) simp_all
    from gen_ok_conj [OF read_turn_goes_on [OF valid, of rid i "al_gateway L" ?t0 sg w] this [unfolded stretch_def]]
    show ?thesis by (rule gen_ok_mono) (auto simp: turn_goes_on_events simp del: turns_go_on.simps)
  qed
  have turn: "gen_ok (\<lambda>es _ _. turns_go_on (LTurnStarted rid i # es)) (\<lambda>es _. turns_go_on (LTurnStarted rid i # es))
      (then_run (read_turn (al_gateway L) rid i ?v ?t0 sg w) ?rest)" for sg and w :: 'w
  proof (rule gen_ok_then [OF read])
    fix es fx r sg and w :: 'w
    assume r: "turn_goes_on rid i es \<and> hd es \<noteq> runtimeError rid i LoopAborted \<and> turn_result (al_gateway L) ?v ?t0 r"
    then obtain route mdl rest where es: "es = LRouteSelected rid i route mdl # rest" "no_turn rest" by (auto simp: turn_goes_on_def)
    obtain t exit where "r = (t, exit)" by fastforce
    with r next_turn [of t exit sg w] have "gen_ok (\<lambda>es _ _. turns_go_on es) (\<lambda>es _. turns_go_on es) (?rest r sg w)" by simp
    then show "gen_ok (\<lambda>fs gx _. turns_go_on (LTurnStarted rid i # es @ fs)) (\<lambda>fs gx. turns_go_on (LTurnStarted rid i # es @ fs)) (?rest r sg w)"
      using es by (simp add: turns_go_on_skip)
  qed
  have split: "(\<lambda>(t, exit) sg w. then_run (after_stream L rid available i msgs t exit sg w) (\<lambda>msgs' sg w.
      loop_turns k L request rid available (i + 1) msgs' (tu_seen t) sg w)) = ?rest" by (auto simp: fun_eq_iff)
  show ?case
    unfolding loop_turns.simps split
    by (intro checked_then gen_ok_then [where P = "\<lambda>es _ _. es = [LTurnStarted rid i]" and m = "say [LTurnStarted rid i] () _ _"])
      (use turn in \<open>auto simp: say_def runtimeError_def\<close>)
qed (simp add: stop_with_def runtimeError_def)

section \<open>Properties\<close>

text \<open>
  C4: the loop builds no request that is refused later.  When the adapters accept the first request a run builds and the gateway streams
  tool inputs that are plain objects without a \<open>__proto__\<close> key at any depth, then every turn the run announces gets past the
  validation of the request that is built for it, unless the run is aborted just then, and each request that reaches the gateway
  is accepted by the adapters: tool calls and results stay matched one to one, ids stay unique, roles and blocks keep the
  supported shape.  The hypothesis on the inputs is needed (\<open>proto_input_ends_the_run\<close>).
\<close>

theorem later_requests_accepted:
  assumes "assertAdapterRequest (buildTurnRequest request (cloneMessages (field request ''messages''))) = Inr ()"
    and "\<And>v sg w. list_all input_kept (fst (fst (al_gateway L v sg w)))"
    and "agent_loop_run L request sg w = Some m"
  shows "turns_go_on (events m) \<and> list_all (\<lambda>v. assertAdapterRequest v = Inr ()) (model_requests (run_effects m))"
proof
  let ?msgs = "cloneMessages (field request ''messages'')" and ?seen = "collectToolCallIds (field request ''messages'')"
  have "gen_ok (\<lambda>es _ _. turns_go_on es) (\<lambda>es _. turns_go_on es) (loop_turns k L request rid available i ?msgs ?seen sg' w)"
    for k rid available i sg'
    by (rule loop_turns_go_on [OF assms(2) assms(1) initial_ids_seen [OF assms(1)]])
  with assms(3) have "gen_ok (\<lambda>es _ _. turns_go_on es) (\<lambda>es _. turns_go_on es) m"
    by (auto simp: agent_loop_run_def Let_def stop_with_def runtimeError_def split: prod.splits if_splits)
  then show "turns_go_on (events m)" by (auto simp: gen_ok_def events_def split: prod.splits option.splits)
  have "stretch (\<lambda>_ _. False) requests_accepted (loop_turns k L request rid available i ?msgs ?seen sg' w)"
    for k rid available i sg'
    by (rule loop_requests_accepted [OF assms(2) assms(1) initial_ids_seen [OF assms(1)]])
  with assms(3) have "stretch (\<lambda>_ _. False) requests_accepted m"
    by (auto simp: agent_loop_run_def Let_def split: prod.splits if_splits)
  from stretch_False [OF this] show "list_all (\<lambda>v. assertAdapterRequest v = Inr ()) (model_requests (run_effects m))"
    by (simp add: requests_accepted_def)
qed

definition two_turn_gateway :: "jsval \<Rightarrow> nat gateway" where
  "two_turn_gateway input v sg n =
     ((if n = 0 then [MToolCall (JStr ''i'') (JStr ''ls'') input, MCompleted] else [MTextDelta ''ok'', MCompleted], SrcDone),
      n + 1)"

definition echo_executor :: "nat executor" where
  "echo_executor c sg n = (ToolAnswered (JObj [(''content'', JStr ''done'')]), n)"

definition two_turn_loop :: "jsval \<Rightarrow> nat agent_loop" where
  "two_turn_loop input =
     \<lparr>al_gateway = two_turn_gateway input, al_executor = Some echo_executor, al_max_turns = 8, al_max_calls = 16,
      al_max_bytes = 65536\<rparr>"

definition tool_loop_request :: jsval where
  "tool_loop_request =
     request_value
       \<lparr>requestId = ''q'', routeId = ''r'', model = ''m'', messages = [\<lparr>role = User, content = [TextBlock ''a'']\<rparr>],
        tools = [\<lparr>tool_name = ''ls'', tool_description = ''list'', tool_schema = JObj [(''type'', JStr ''object'')]\<rparr>],
        maxTokens = Fin 10\<rparr>"

theorem later_requests_accepted_witness:
  "\<exists>m. agent_loop_run (two_turn_loop (JObj [])) tool_loop_request None 0 = Some m
     \<and> length (model_requests (run_effects m)) = 2 \<and> length (filter announces (events m)) = 2 \<and> turns_go_on (events m)
     \<and> list_all (\<lambda>v. assertAdapterRequest v = Inr ()) (model_requests (run_effects m))
     \<and> last (events m) = LLoopCompleted ''q'' 2"
proof -
  let ?run = "agent_loop_run (two_turn_loop (JObj [])) tool_loop_request None 0"
  have facts: "?run \<noteq> None" "length (model_requests (run_effects (the ?run))) = 2"
    "length (filter announces (events (the ?run))) = 2" "last (events (the ?run)) = LLoopCompleted ''q'' 2"
    and first: "assertAdapterRequest (buildTurnRequest tool_loop_request (cloneMessages (field tool_loop_request ''messages''))) = Inr ()"
    by code_simp+
  then obtain m where m: "?run = Some m" by auto
  have "list_all input_kept (fst (fst (al_gateway (two_turn_loop (JObj [])) v sg w)))" for v sg w
    by (simp add: two_turn_loop_def two_turn_gateway_def)
  from later_requests_accepted [OF first this m] facts show ?thesis by (simp add: m)
qed

text \<open>
  A tool call whose input has the key \<open>__proto__\<close>, which the stream decoders deliver and the loop
  accepts and executes, is not kept by the copies the loop makes: the request of the next turn fails
  the validation and the run ends with that error instead of the model's answer.
\<close>

theorem proto_input_ends_the_run:
  "parseToolInputObject (CHR ''{'' # CHR 0x22 # proto_key @ [CHR 0x22] @ '':{}}'') = Inr (JObj [(proto_key, JObj [])])
   \<and> (\<exists>m. agent_loop_run (two_turn_loop (JObj [(proto_key, JObj [])])) tool_loop_request None 0 = Some m
        \<and> map tr_id (tool_runs (run_effects m)) = [''i'']
        \<and> last (events m) =
            LError ''q'' 1 ''invalid_tool_input'' ''tool_call.input must be a JSON-serializable value.'' False
        \<and> \<not> turns_go_on (events m))"
proof
  let ?run = "agent_loop_run (two_turn_loop (JObj [(proto_key, JObj [])])) tool_loop_request None 0"
  have "?run \<noteq> None" "map tr_id (tool_runs (run_effects (the ?run))) = [''i'']"
    "last (events (the ?run)) = LError ''q'' 1 ''invalid_tool_input'' ''tool_call.input must be a JSON-serializable value.'' False"
    "\<not> turns_go_on (events (the ?run))"
    by code_simp+
  then show "\<exists>m. ?run = Some m \<and> map tr_id (tool_runs (run_effects m)) = [''i'']
      \<and> last (events m) = LError ''q'' 1 ''invalid_tool_input'' ''tool_call.input must be a JSON-serializable value.'' False
      \<and> \<not> turns_go_on (events m)"
    by auto
qed code_simp

end
