(* ===== verification/Agent_Backend.thy ===== *)
theory Agent_Backend
  imports Gateways Tool_Policy Loop_Requests
begin

text \<open>
  \<open>packages/agent-backend/src\<close>: the runner that puts the resilient gateway, the agent loop and the
  governed tool executor together, and the translation of the loop's events into the events of the
  Local Agent API.

  Options are a raw value, in which a method is a function value; what the methods do is the
  record \<open>services\<close>.  A request has the declared type: \<open>undefined\<close> is \<open>None\<close>, and the members of
  \<open>messages\<close> and \<open>tools\<close> are raw values because the code validates them again.
\<close>

section \<open>Errors\<close>

datatype backend_error = InvalidBackendOptions | InvalidBackendRequest

fun backend_error_code :: "backend_error \<Rightarrow> string" where
  "backend_error_code InvalidBackendOptions = ''invalid_options''"
| "backend_error_code InvalidBackendRequest = ''invalid_request''"

fun backend_error_message :: "backend_error \<Rightarrow> string" where
  "backend_error_message InvalidBackendOptions = ''Agent backend options are invalid.''"
| "backend_error_message InvalidBackendRequest = ''Agent backend request is invalid.''"

section \<open>Options\<close>

definition hasCallableMethod :: "jsval \<Rightarrow> string \<Rightarrow> bool" where
  "hasCallableMethod v name = (if \<not> is_object v then False else field v name = JFun)"

definition isProviderRegistry :: "jsval \<Rightarrow> bool" where
  "isProviderRegistry v = hasCallableMethod v ''resolveRoute''"

definition isCredentialStore :: "jsval \<Rightarrow> bool" where
  "isCredentialStore v = hasCallableMethod v ''get''"

definition isHttpClient :: "jsval \<Rightarrow> bool" where
  "isHttpClient v \<longleftrightarrow> v = JFun"

definition isToolExecutor :: "jsval \<Rightarrow> bool" where
  "isToolExecutor v = hasCallableMethod v ''execute''"

definition isToolPolicy :: "jsval \<Rightarrow> bool" where
  "isToolPolicy v = hasCallableMethod v ''decide''"

definition isToolApprovalHandler :: "jsval \<Rightarrow> bool" where
  "isToolApprovalHandler v = hasCallableMethod v ''requestApproval''"

definition isPositiveSafeInteger :: "jsval \<Rightarrow> bool" where
  "isPositiveSafeInteger v =
     (case v of JNum n \<Rightarrow> is_safe_integer n \<and> num_less (Fin 0) n | _ \<Rightarrow> False)"

definition limit_keys :: "string list" where
  "limit_keys =
     [''defaultMaxTokens'', ''maxTurns'', ''maxToolCallsPerTurn'', ''maxToolResultBytes'', ''maxFrameBytes'',
      ''maxToolInputBytes'']"

definition validateBackendOptions :: "jsval \<Rightarrow> backend_error + unit" where
  "validateBackendOptions options =
     (let bad = Inl InvalidBackendOptions; given = (\<lambda>k. field options k \<noteq> JUndef) in
      if \<not> is_object options then bad
      else if \<not> isProviderRegistry (field options ''registry'') \<or> \<not> isCredentialStore (field options ''credentials'') then bad
      else if given ''httpClient'' \<and> \<not> isHttpClient (field options ''httpClient'') then bad
      else if given ''toolExecutor'' \<and> \<not> isToolExecutor (field options ''toolExecutor'') then bad
      else if given ''policy'' \<and> \<not> isToolPolicy (field options ''policy'') then bad
      else if given ''approvalHandler'' \<and> \<not> isToolApprovalHandler (field options ''approvalHandler'') then bad
      else if list_ex (\<lambda>k. given k \<and> \<not> isPositiveSafeInteger (field options k)) limit_keys then bad
      else if given ''retryPolicy'' \<and> \<not> is_object (field options ''retryPolicy'') then bad
      else if given ''retryPolicy''
           \<and> list_ex (\<lambda>k. field (field options ''retryPolicy'') k \<noteq> JUndef
                        \<and> \<not> isPositiveSafeInteger (field (field options ''retryPolicy'') k))
                [''maxAttemptsPerProvider'', ''maxTotalAttempts''] then bad
      else if given ''wait'' \<and> field options ''wait'' \<noteq> JFun then bad
      else Inr ())"

section \<open>Requests\<close>

definition default_backend_max_tokens :: nat where "default_backend_max_tokens = 4096"

record runner_request =
  rq_session :: string
  rq_turn :: string
  rq_messages :: "jsval list"
  rq_tools :: "jsval list option"
  rq_route :: "string option"
  rq_model :: "string option"
  rq_max_tokens :: "jsnum option"

definition isNonEmptyString :: "string option \<Rightarrow> bool" where
  "isNonEmptyString s = (case s of None \<Rightarrow> False | Some t \<Rightarrow> t \<noteq> [])"

definition toModelRequest :: "runner_request \<Rightarrow> jsnum \<Rightarrow> backend_error + jsval" where
  "toModelRequest rq defaultMaxTokens =
     (if rq_turn rq = [] then Inl InvalidBackendRequest
      else if \<not> isNonEmptyString (rq_route rq) \<or> \<not> isNonEmptyString (rq_model rq) then Inl InvalidBackendRequest
      else
        let max_tokens = (case rq_max_tokens rq of None \<Rightarrow> defaultMaxTokens | Some n \<Rightarrow> n) in
        if \<not> is_safe_integer max_tokens \<or> num_le max_tokens (Fin 0) then Inl InvalidBackendRequest
        else
          let modelRequest =
            JObj [(''requestId'', JStr (rq_turn rq)), (''routeId'', JStr (the (rq_route rq))),
                  (''model'', JStr (the (rq_model rq))), (''messages'', JArr (rq_messages rq)),
                  (''tools'', JArr (case rq_tools rq of None \<Rightarrow> [] | Some ts \<Rightarrow> ts)),
                  (''maxTokens'', JNum max_tokens)]
          in
            (case validateModelRequest modelRequest of
               Inl _ \<Rightarrow> Inl InvalidBackendRequest
             | Inr _ \<Rightarrow> Inr modelRequest))"

section \<open>Events\<close>

text \<open>
  \<open>mapAgentLoopEvents\<close>: the completion of a turn is held back and only becomes the end of the stream
  when the loop has finished.  The second argument is \<open>pendingCompleted\<close>.
\<close>

fun mapAgentLoopEvents :: "string \<Rightarrow> agent_event option \<Rightarrow> loop_event list \<Rightarrow> agent_event list" where
  "mapAgentLoopEvents turn held [] = []"
| "mapAgentLoopEvents turn held (LTurnStarted _ _ # es) = mapAgentLoopEvents turn held es"
| "mapAgentLoopEvents turn held (LToolStarted _ _ _ _ # es) = mapAgentLoopEvents turn held es"
| "mapAgentLoopEvents turn held (LToolFinished _ _ _ _ # es) = mapAgentLoopEvents turn held es"
| "mapAgentLoopEvents turn held (LRouteSelected _ _ route m # es) =
     ARouteSelected turn route m # mapAgentLoopEvents turn None es"
| "mapAgentLoopEvents turn held (LTextDelta _ _ t # es) = ATextDelta turn t # mapAgentLoopEvents turn None es"
| "mapAgentLoopEvents turn held (LToolCall _ _ i n v # es) =
     AToolCall turn (JStr i) (JStr n) v # mapAgentLoopEvents turn None es"
| "mapAgentLoopEvents turn held (LUsage _ _ a b # es) = AUsage turn a b # mapAgentLoopEvents turn None es"
| "mapAgentLoopEvents turn held (LCompleted _ _ # es) = mapAgentLoopEvents turn (Some (ACompleted turn)) es"
| "mapAgentLoopEvents turn held (LLoopCompleted _ _ # es) =
     [case held of None \<Rightarrow> ACompleted turn | Some e \<Rightarrow> e]"
| "mapAgentLoopEvents turn held (LError _ _ c m r # es) =
     [AError turn (if c \<noteq> [] then c else ''gateway_error'')
        (if m \<noteq> [] then m else ''Agent backend request failed.'') r]"

section \<open>The assembly\<close>

text \<open>
  What the injected objects do.  \<open>sv_view\<close> is the moment at which an abort becomes visible to the
  code that reads the same flag on its own, the gateway and the executor: any moment is possible.
\<close>

record 'w services =
  sv_registry :: "'w \<Rightarrow> registry"
  sv_credentials :: "string \<Rightarrow> 'w \<Rightarrow> credential_read \<times> 'w"
  sv_http :: "http_request \<Rightarrow> 'w \<Rightarrow> transport \<times> 'w"
  sv_parse :: url_parser
  sv_wait :: "'w wait_fun"
  sv_execute :: "'w asked"
  sv_decide :: "'w asked"
  sv_approve :: "'w asked"
  sv_view :: "'w \<Rightarrow> signal \<Rightarrow> signal"

text \<open>
  The world of a turn: that of the services, with the log of what the gateway did to it.
\<close>

definition backend_gateway :: "'w services \<Rightarrow> jsval \<Rightarrow> retry_policy \<Rightarrow> ('w \<times> effect list) gateway" where
  "backend_gateway sv options policy v sg wl =
     (case wl of (w, trace) \<Rightarrow>
        (case resilient_stream (sv_registry sv w)
                (new_attempts (sv_credentials sv) (sv_http sv) (sv_parse sv)
                   (field options ''maxFrameBytes'') (field options ''maxToolInputBytes''))
                policy (if field options ''wait'' = JUndef then defaultRetryWait else sv_wait sv) v
                (sv_view sv w sg) w of
           (es, fx, _, w', _) \<Rightarrow> ((es, SrcDone), (w', trace @ fx))))"

definition backend_executor :: "'w services \<Rightarrow> 'w governance \<Rightarrow> ('w \<times> effect list) executor" where
  "backend_executor sv G c sg wl =
     (case wl of (w, trace) \<Rightarrow>
        (case governed_executor G c (sv_view sv w sg) w of (answer, w') \<Rightarrow> (answer, (w', trace))))"

text \<open>An exception of \<open>createAgentBackend\<close>: its own, or one of a constructor it calls.\<close>

datatype assembly_error =
    OwnError backend_error
  | GatewayRefused resilience_error
  | PolicyRefused policy_error
  | LoopRefused loop_error

definition lift_error :: "('e \<Rightarrow> 'f) \<Rightarrow> 'e + 'a \<Rightarrow> 'f + 'a" where
  "lift_error g m = (case m of Inl e \<Rightarrow> Inl (g e) | Inr a \<Rightarrow> Inr a)"

record 'w backend =
  bk_loop :: "('w \<times> effect list) agent_loop"
  bk_default_tokens :: jsnum

text \<open>A dependency that is handed on when it was given.\<close>

definition handed_on :: "jsval \<Rightarrow> string \<Rightarrow> 'f \<Rightarrow> 'f injected" where
  "handed_on v name f =
     (if v = JUndef then Absent else if hasCallableMethod v name then Callable f else NotCallable)"

text \<open>The constructor of the resilient gateway: its policy and the method it needs.\<close>

definition create_gateway :: "jsval \<Rightarrow> resilience_error + retry_policy" where
  "create_gateway options =
     rbind (normalizeRetryPolicy (field options ''retryPolicy'')) (\<lambda>policy.
     if field (field options ''registry'') ''resolveRouteCandidates'' \<noteq> JFun then Inl ResilienceOptionError
     else Inr policy)"

definition create_executor :: "'w services \<Rightarrow> jsval \<Rightarrow> policy_error + 'w governance option" where
  "create_executor sv options =
     (if field options ''toolExecutor'' = JUndef then Inr None
      else
        rbind (createGovernedToolExecutor (handed_on (field options ''toolExecutor'') ''execute'' (sv_execute sv))
                 (handed_on (field options ''policy'') ''decide'' (sv_decide sv))
                 (handed_on (field options ''approvalHandler'') ''requestApproval'' (sv_approve sv))) (\<lambda>G.
        Inr (Some G)))"

definition createAgentBackend :: "'w services \<Rightarrow> jsval \<Rightarrow> assembly_error + 'w backend" where
  "createAgentBackend sv options =
     rbind (lift_error OwnError (validateBackendOptions options)) (\<lambda>_.
     rbind (lift_error GatewayRefused (create_gateway options)) (\<lambda>policy.
     rbind (lift_error PolicyRefused (create_executor sv options)) (\<lambda>governance.
     rbind (lift_error LoopRefused
              (resolveAgentLoopOptions (Callable (backend_gateway sv options policy))
                 (case governance of None \<Rightarrow> Absent | Some G \<Rightarrow> Callable (backend_executor sv G))
                 (field options ''maxTurns'') (field options ''maxToolCallsPerTurn'')
                 (field options ''maxToolResultBytes''))) (\<lambda>L.
     Inr \<lparr>bk_loop = L,
          bk_default_tokens =
            (if nullish (field options ''defaultMaxTokens'') then jsnat default_backend_max_tokens
             else as_num (field options ''defaultMaxTokens''))\<rparr>))))"

text \<open>
  \<open>runner.run\<close>: the events it yields, the effects of the loop, and the world; the loop rejects on no
  request this function builds, so the generator always returns.
\<close>

definition backend_run ::
  "'w backend \<Rightarrow> runner_request \<Rightarrow> signal \<Rightarrow> 'w \<times> effect list
     \<Rightarrow> (agent_event, loop_effect, 'w \<times> effect list, unit) gen"
where
  "backend_run B rq sg w =
     (let turn = rq_turn rq in
      case observe sg of (aborted, sg') \<Rightarrow>
        if aborted then ([AError turn ''aborted'' ''Turn aborted.'' False], [], sg', w, None)
        else
          (case toModelRequest rq (bk_default_tokens B) of
             Inl _ \<Rightarrow> ([AError turn ''invalid_request'' ''Agent backend request is invalid.'' False], [], sg', w, None)
           | Inr v \<Rightarrow>
               (case agent_loop_run (bk_loop B) v sg' w of
                  None \<Rightarrow> ([], [], sg', w, Some ())
                | Some (es, fx, sg2, w2, _) \<Rightarrow> (mapAgentLoopEvents turn None es, fx, sg2, w2, None))))"


section \<open>How a turn ends\<close>

fun agent_terminal :: "agent_event \<Rightarrow> bool" where
  "agent_terminal (ACompleted _) = True"
| "agent_terminal (AError _ _ _ _) = True"
| "agent_terminal _ = False"

text \<open>What the caller sees of an event of the loop that does not end it.\<close>

fun shown :: "string \<Rightarrow> loop_event \<Rightarrow> agent_event list" where
  "shown turn (LRouteSelected _ _ route m) = [ARouteSelected turn route m]"
| "shown turn (LTextDelta _ _ t) = [ATextDelta turn t]"
| "shown turn (LToolCall _ _ i n v) = [AToolCall turn (JStr i) (JStr n) v]"
| "shown turn (LUsage _ _ a b) = [AUsage turn a b]"
| "shown turn _ = []"

fun shown_end :: "string \<Rightarrow> loop_event \<Rightarrow> agent_event" where
  "shown_end turn (LError _ _ c m r) =
     AError turn (if c \<noteq> [] then c else ''gateway_error'') (if m \<noteq> [] then m else ''Agent backend request failed.'') r"
| "shown_end turn _ = ACompleted turn"

lemma shown_ok: "list_all (\<lambda>e. \<not> agent_terminal e \<and> event_request e = turn) (shown turn e)"
  by (cases e) simp_all

lemma shown_end_ok: "loop_terminal e \<Longrightarrow> agent_terminal (shown_end turn e) \<and> event_request (shown_end turn e) = turn"
  by (cases e) simp_all

lemma shown_list_ok: "list_all (\<lambda>e. \<not> agent_terminal e \<and> event_request e = turn) (concat (map (shown turn) es))"
  using shown_ok by (induction es) auto

lemma mapAgentLoopEvents_spec:
  assumes "held = None \<or> held = Some (ACompleted turn)" and "quiet es" and "loop_terminal e"
  shows "mapAgentLoopEvents turn held (es @ [e]) = concat (map (shown turn) es) @ [shown_end turn e]"
  using assms(1,2)
proof (induction es arbitrary: held)
  case Nil
  with assms(3) show ?case by (cases e) auto
next
  case (Cons x es)
  then show ?case by (cases x) simp_all
qed

lemma toModelRequest_value: "toModelRequest rq n = Inr v \<Longrightarrow> validateModelRequest v = Inr () \<and> \<not> nullish v"
  by (auto simp: toModelRequest_def Let_def nullish_def split: if_splits sum.splits)

lemma backend_run_loop:
  assumes "observe sg = (False, sg')" and "toModelRequest rq (bk_default_tokens B) = Inr v"
  obtains es e fx sg2 w2 where "agent_loop_run (bk_loop B) v sg' w = Some (es @ [e], fx, sg2, w2, None)"
    and "quiet es" and "loop_terminal e"
    and "backend_run B rq sg w =
      (concat (map (shown (rq_turn rq)) es) @ [shown_end (rq_turn rq) e], fx, sg2, w2, None)"
proof -
  have "agent_loop_run (bk_loop B) v sg' w \<noteq> None"
    using agent_loop_run_None [of "bk_loop B" v sg' w] toModelRequest_value [OF assms(2)] by metis
  then obtain m where m: "agent_loop_run (bk_loop B) v sg' w = Some m" by blast
  obtain fs fx sg2 w2 r where parts: "m = (fs, fx, sg2, w2, r)" by (cases m)
  from agent_loop_run_ok [OF m] have "r = None" and over: "ended fs" by (simp_all add: parts returned_def)
  define e where "e = last fs"
  have fs: "fs = butlast fs @ [e]" and quiet: "quiet (butlast fs)" and fin: "loop_terminal e"
    using over by (simp_all add: ended_def e_def)
  have "backend_run B rq sg w =
      (concat (map (shown (rq_turn rq)) (butlast fs)) @ [shown_end (rq_turn rq) e], fx, sg2, w2, None)"
    using mapAgentLoopEvents_spec [of None "rq_turn rq", OF _ quiet fin]
    by (simp add: backend_run_def assms m parts flip: fs)
  with that [of "butlast fs" e fx sg2 w2] m parts \<open>r = None\<close> fs quiet fin show thesis by simp
qed

section \<open>What a turn costs\<close>

text \<open>
  A measure of the world that the gateway raises by at most \<open>price\<close> for each request of the loop and
  the executor does not raise.
\<close>

definition cost_ok :: "('w \<Rightarrow> nat) \<Rightarrow> nat \<Rightarrow> 'w \<Rightarrow> ('w, 'a) loop_gen \<Rightarrow> bool" where
  "cost_ok spent price w m \<longleftrightarrow>
     (case m of (_, fx, _, w', _) \<Rightarrow> spent w' \<le> spent w + price * length (model_requests fx))"

lemma cost_ok_pair [simp]:
  "cost_ok spent price w (es, fx, sg, w', r) \<longleftrightarrow> spent w' \<le> spent w + price * length (model_requests fx)"
  by (simp add: cost_ok_def)

lemma cost_ok_say [simp]: "cost_ok spent price w (say es a sg w)"
  by (simp add: say_def)

lemma cost_ok_stop [simp]: "cost_ok spent price w (stop_with e sg w)"
  by (simp add: stop_with_def)

lemma cost_ok_check [simp]: "cost_ok spent price w (loop_check rid i sg w)"
  by (simp add: loop_check_def split: prod.splits)

lemma cost_ok_then:
  assumes "cost_ok spent price w m" and "\<And>a sg w'. cost_ok spent price w' (k a sg w')"
  shows "cost_ok spent price w (then_run m k)"
proof -
  obtain es fx sg w1 r where m: "m = (es, fx, sg, w1, r)" by (cases m)
  show ?thesis
  proof (cases r)
    case (Some a)
    obtain fs gx sg' w2 r' where k: "k a sg w1 = (fs, gx, sg', w2, r')" by (cases "k a sg w1")
    with assms(1) assms(2) [of w1 a sg] show ?thesis by (simp add: m Some then_run_def algebra_simps)
  qed (use assms(1) in \<open>simp add: m\<close>)
qed

locale priced_loop =
  fixes L :: "'w agent_loop" and spent :: "'w \<Rightarrow> nat" and price :: nat
  assumes gateway_price: "spent (snd (al_gateway L v sg w)) \<le> spent w + price"
    and executor_free: "al_executor L = Some execute \<Longrightarrow> spent (snd (execute c sg w)) \<le> spent w"
begin

lemma read_pending_cost: "cost_ok spent price w (read_pending rid i es t sg w)"
  by (induction es arbitrary: t sg w)
    (auto intro!: cost_ok_then simp: Let_def split: prod.splits option.splits)

lemma read_turn_cost: "cost_ok spent price w (read_turn (al_gateway L) rid i request t sg w)"
proof (cases "core_start request")
  case (Inr e)
  have ask: "cost_ok spent price w
      (case al_gateway L request sg w of (src, w') \<Rightarrow>
         then_run ([], [ModelAsked request], sg, w', Some ()) (\<lambda>_ sg w.
         read_pending rid i (core_stream (as_str (field request ''requestId'')) src) t sg w))" for sg w
    using gateway_price [of request sg w]
    by (cases "al_gateway L request sg w") (auto intro!: cost_ok_then read_pending_cost)
  show ?thesis
    unfolding read_turn_def Inr sum.case by (intro cost_ok_then cost_ok_check cost_ok_say ask)
qed (auto simp: read_turn_def simp del: read_pending.simps intro!: cost_ok_then read_pending_cost)

lemma executeTool_cost:
  "al_executor L = Some execute \<Longrightarrow> cost_ok spent price w (executeTool execute c sg w)"
  using executor_free [of execute c _ w]
  by (auto simp: executeTool_def say_def split: prod.splits) (metis add.right_neutral snd_conv)+

lemma run_tools_cost:
  "al_executor L = Some execute \<Longrightarrow> cost_ok spent price w (run_tools execute n rid i cs sg w)"
  by (induction cs arbitrary: sg w)
    (auto intro!: cost_ok_then executeTool_cost split: option.splits)

lemma after_stream_cost: "cost_ok spent price w (after_stream L rid available i msgs t exit sg w)"
  by (auto simp: after_stream_def intro!: cost_ok_then run_tools_cost split: turn_exit.splits option.splits)

lemma loop_turns_cost: "cost_ok spent price w (loop_turns k L request rid available i msgs seen sg w)"
  by (induction k arbitrary: i msgs seen sg w)
    (auto intro!: cost_ok_then read_turn_cost after_stream_cost split: prod.splits)

lemma run_cost: "agent_loop_run L request sg w = Some m \<Longrightarrow> cost_ok spent price w m"
  by (auto simp: agent_loop_run_def Let_def loop_turns_cost split: prod.splits if_splits)

end

definition assembled_loop ::
  "'w services \<Rightarrow> jsval \<Rightarrow> retry_policy \<Rightarrow> 'w governance option \<Rightarrow> nat \<Rightarrow> nat \<Rightarrow> nat \<Rightarrow> ('w \<times> effect list) agent_loop"
where
  "assembled_loop sv options policy G t c b =
     \<lparr>al_gateway = backend_gateway sv options policy, al_executor = map_option (backend_executor sv) G,
      al_max_turns = t, al_max_calls = c, al_max_bytes = b\<rparr>"

lemma resilient_stream_total:
  "requests (run_effects (resilient_stream reg (new_attempts credentials http parse f t) p wait v sg w)) \<le> maxTotalAttempts p"
proof (cases "resolve_with (resolveRouteCandidates reg) v")
  case (Inr cs)
  with gateway_attempts.try_candidates_requests [of p wait credentials http parse f t v cs _ w] show ?thesis
    by (simp add: resilient_stream_def failover_stream_def run_effects_abort)
qed (simp add: resilient_stream_def failover_stream_def run_effects_abort)

interpretation turn_costs: priced_loop "assembled_loop sv options policy G t c b" "\<lambda>(_, trace). requests trace"
  "maxTotalAttempts policy" for sv options policy G t c b
proof
  fix v sg and w :: "'a \<times> effect list"
  obtain u trace where w: "w = (u, trace)" by (cases w)
  let ?m = "resilient_stream (sv_registry sv u)
    (new_attempts (sv_credentials sv) (sv_http sv) (sv_parse sv) (field options ''maxFrameBytes'')
      (field options ''maxToolInputBytes''))
    policy (if field options ''wait'' = JUndef then defaultRetryWait else sv_wait sv) v (sv_view sv u sg) u"
  have "requests (run_effects ?m) \<le> maxTotalAttempts policy" by (rule resilient_stream_total)
  then show "(case snd (al_gateway (assembled_loop sv options policy G t c b) v sg w) of (_, trace) \<Rightarrow> requests trace)
      \<le> (case w of (_, trace) \<Rightarrow> requests trace) + maxTotalAttempts policy"
    by (cases ?m) (simp add: assembled_loop_def backend_gateway_def w run_effects_def)
next
  fix execute call sg and w :: "'a \<times> effect list"
  assume "al_executor (assembled_loop sv options policy G t c b) = Some execute"
  then show "(case snd (execute call sg w) of (_, trace) \<Rightarrow> requests trace) \<le> (case w of (_, trace) \<Rightarrow> requests trace)"
    by (auto simp: assembled_loop_def backend_executor_def split: prod.splits)
qed

section \<open>Creation\<close>

lemma positive_limit:
  assumes "v = JUndef \<or> isPositiveSafeInteger v"
  shows "is_ok (resolveLimit v n)"
proof (cases v)
  case (JNum m)
  with assms have "is_safe_integer m" and "num_less (Fin 0) m" by (simp_all add: isPositiveSafeInteger_def)
  then show ?thesis by (cases m) (simp_all add: JNum resolveLimit_def)
qed (use assms in \<open>simp_all add: isPositiveSafeInteger_def resolveLimit_def\<close>)

lemma validated_limits:
  assumes "validateBackendOptions options = Inr ()" and "k \<in> set limit_keys"
  shows "field options k = JUndef \<or> isPositiveSafeInteger (field options k)"
proof -
  have "\<not> list_ex (\<lambda>k. field options k \<noteq> JUndef \<and> \<not> isPositiveSafeInteger (field options k)) limit_keys"
    using assms(1) unfolding validateBackendOptions_def Let_def by (simp split: if_split_asm)
  with assms(2) show ?thesis by (auto simp: list_ex_iff)
qed

lemma validated_parts:
  assumes "validateBackendOptions options = Inr ()"
  shows "field options ''toolExecutor'' = JUndef \<or> hasCallableMethod (field options ''toolExecutor'') ''execute''"
    and "field options ''policy'' = JUndef \<or> hasCallableMethod (field options ''policy'') ''decide''"
    and "field options ''approvalHandler'' = JUndef
      \<or> hasCallableMethod (field options ''approvalHandler'') ''requestApproval''"
  using assms
  unfolding validateBackendOptions_def Let_def isToolExecutor_def isToolPolicy_def isToolApprovalHandler_def
  by (simp_all split: if_split_asm)

lemma validated_executor:
  assumes "validateBackendOptions options = Inr ()"
  shows "is_ok (create_executor sv options)"
  using validated_parts [OF assms]
  by (auto simp: create_executor_def createGovernedToolExecutor_def handed_on_def is_ok_iff)

lemma validated_loop:
  assumes "validateBackendOptions options = Inr ()"
  shows "is_ok (resolveAgentLoopOptions (Callable g) (case G of None \<Rightarrow> Absent | Some G \<Rightarrow> Callable (h G))
      (field options ''maxTurns'') (field options ''maxToolCallsPerTurn'') (field options ''maxToolResultBytes''))"
proof -
  have limit: "is_ok (resolveLimit (field options k) n)" if "k \<in> set limit_keys" for k n
    using validated_limits [OF assms that] by (rule positive_limit)
  obtain t c b where "resolveLimit (field options ''maxTurns'') default_max_turns = Inr t"
    and "resolveLimit (field options ''maxToolCallsPerTurn'') default_max_tool_calls = Inr c"
    and "resolveLimit (field options ''maxToolResultBytes'') default_max_result_bytes = Inr b"
    using limit [of "''maxTurns''" default_max_turns] limit [of "''maxToolCallsPerTurn''" default_max_tool_calls]
      limit [of "''maxToolResultBytes''" default_max_result_bytes]
    by (auto simp: is_ok_iff limit_keys_def)
  then show ?thesis by (simp add: resolveAgentLoopOptions_def split: option.splits)
qed

lemma created_loop:
  assumes "createAgentBackend sv options = Inr B"
  obtains policy G t c b where "create_gateway options = Inr policy" and "create_executor sv options = Inr G"
    and "bk_loop B = assembled_loop sv options policy G t c b"
  using assms
  by (auto simp: createAgentBackend_def lift_error_def assembled_loop_def resolveAgentLoopOptions_def
      split: sum.splits option.splits if_splits)

section \<open>Properties\<close>

lemma backend_run_cases:
  obtains (refused) c m sg' where "backend_run B rq sg w = ([AError (rq_turn rq) c m False], [], sg', w, None)"
  | (looped) v sg' es e fx sg2 w2 where "agent_loop_run (bk_loop B) v sg' w = Some (es @ [e], fx, sg2, w2, None)"
      and "loop_terminal e"
      and "backend_run B rq sg w =
        (concat (map (shown (rq_turn rq)) es) @ [shown_end (rq_turn rq) e], fx, sg2, w2, None)"
proof (cases "observe sg")
  case (Pair aborted sg')
  show thesis
  proof (cases aborted)
    case True
    then show thesis using refused Pair by (simp add: backend_run_def Let_def)
  next
    case False
    with Pair have obs: "observe sg = (False, sg')" by simp
    show thesis
    proof (cases "toModelRequest rq (bk_default_tokens B)")
      case (Inl e)
      then show thesis using refused obs by (simp add: backend_run_def Let_def)
    next
      case (Inr v)
      show thesis by (rule backend_run_loop [OF obs Inr, of w]) (rule looped)
    qed
  qed
qed

lemma backend_run_ended:
  assumes run: "backend_run B rq sg w = (es, fx, sg', w', r)"
  shows "r = None \<and>
    (\<exists>init e. es = init @ [e] \<and> agent_terminal e \<and> list_all (\<lambda>x. \<not> agent_terminal x) init
       \<and> list_all (\<lambda>x. event_request x = rq_turn rq) (init @ [e]))"
proof (cases rule: backend_run_cases [of B rq sg w])
  case (refused c m sg1)
  with run show ?thesis by (auto intro!: exI [of _ "[]"])
next
  case (looped v sg1 fs e gx sg2 w2)
  with run shown_list_ok [of "rq_turn rq" fs] shown_end_ok [of e "rq_turn rq"] show ?thesis
    by (auto simp: list_all_iff)
qed

text \<open>
  C10: a turn of the backend always returns and its stream ends exactly once, with \<open>completed\<close> or an
  error, whatever providers, tools and the moment of a cancellation do: the completions of the
  model's turns in between never reach the caller, and every event belongs to the turn.
\<close>

theorem backend_stream_ends_once:
  "returned (backend_run B rq sg w)
   \<and> (\<exists>init e. events (backend_run B rq sg w) = init @ [e] \<and> agent_terminal e
        \<and> list_all (\<lambda>x. \<not> agent_terminal x) init
        \<and> list_all (\<lambda>x. event_request x = rq_turn rq) (init @ [e]))"
proof -
  obtain es fx sg' w' r where run: "backend_run B rq sg w = (es, fx, sg', w', r)" by (cases "backend_run B rq sg w")
  from backend_run_ended [OF run] show ?thesis by (simp add: run)
qed

text \<open>
  One turn of an assembled backend sends at most \<open>maxTurns\<close> times \<open>maxTotalAttempts\<close> requests to
  the providers, retries and failover included.
\<close>

theorem backend_turn_requests_bounded:
  "case createAgentBackend sv options of
     Inl _ \<Rightarrow> True
   | Inr B \<Rightarrow>
       (case backend_run B rq sg (w, []) of
          (_, _, _, (_, trace), _) \<Rightarrow>
            requests trace \<le> maxTotalAttempts (projr (create_gateway options)) * al_max_turns (bk_loop B))"
proof (cases "createAgentBackend sv options")
  case (Inr B)
  then obtain policy G t c b where policy: "create_gateway options = Inr policy"
    and loop: "bk_loop B = assembled_loop sv options policy G t c b" by (rule created_loop)
  show ?thesis
  proof (cases rule: backend_run_cases [of B rq sg "(w, [])"])
    case (refused c m sg')
    then show ?thesis by (simp add: Inr requests_def)
  next
    case (looped v sg' es e fx sg2 w2)
    obtain u trace where w2: "w2 = (u, trace)" by (cases w2)
    have "requests trace \<le> maxTotalAttempts policy * length (model_requests fx)"
      using turn_costs.run_cost [OF looped(1) [unfolded loop]] by (simp add: w2 requests_def)
    also have "\<dots> \<le> maxTotalAttempts policy * al_max_turns (bk_loop B)"
      using agent_loop_run_ok [OF looped(1)] by (intro mult_le_mono2) (simp add: trace_ok_def run_effects_def)
    finally show ?thesis by (simp add: Inr looped(3) w2 policy)
  qed
qed simp

text \<open>Options whose registry lacks the method that only the gateway asks for.\<close>

definition half_registry_options :: jsval where
  "half_registry_options =
     JObj [(''registry'', JObj [(''resolveRoute'', JFun)]), (''credentials'', JObj [(''get'', JFun)])]"

text \<open>
  Creating a backend fails with the fixed \<open>invalid_options\<close> error exactly when the validation of
  the options refuses them; accepted options are refused by no later constructor except that of the
  gateway, whose own error then escapes, for a registry without \<open>resolveRouteCandidates\<close> or an
  unusable retry policy.
\<close>

theorem backend_creation_errors:
  "createAgentBackend sv half_registry_options = Inl (GatewayRefused ResilienceOptionError)
   \<and> (case createAgentBackend sv options of
        Inl (OwnError e) \<Rightarrow> e = InvalidBackendOptions \<and> \<not> is_ok (validateBackendOptions options)
      | Inl (GatewayRefused e) \<Rightarrow> is_ok (validateBackendOptions options) \<and> \<not> is_ok (create_gateway options)
      | Inl _ \<Rightarrow> False
      | Inr _ \<Rightarrow> is_ok (validateBackendOptions options) \<and> is_ok (create_gateway options))"
proof
  have "validateBackendOptions half_registry_options = Inr ()" and "create_gateway half_registry_options = Inl ResilienceOptionError"
    by (simp_all add: half_registry_options_def validateBackendOptions_def limit_keys_def isProviderRegistry_def isCredentialStore_def
        hasCallableMethod_def create_gateway_def normalizeRetryPolicy_def readAttemptCount_def readDelay_def default_retry_policy_def)
  then show "createAgentBackend sv half_registry_options = Inl (GatewayRefused ResilienceOptionError)"
    by (simp add: createAgentBackend_def lift_error_def)
next
  show "case createAgentBackend sv options of
      Inl (OwnError e) \<Rightarrow> e = InvalidBackendOptions \<and> \<not> is_ok (validateBackendOptions options)
    | Inl (GatewayRefused e) \<Rightarrow> is_ok (validateBackendOptions options) \<and> \<not> is_ok (create_gateway options)
    | Inl _ \<Rightarrow> False
    | Inr _ \<Rightarrow> is_ok (validateBackendOptions options) \<and> is_ok (create_gateway options)"
  proof (cases "validateBackendOptions options")
    case (Inl e)
    then show ?thesis by (cases e) (simp_all add: createAgentBackend_def lift_error_def validateBackendOptions_def Let_def split: if_splits)
  next
    case (Inr u)
    then have ok: "validateBackendOptions options = Inr ()" by simp
    show ?thesis
    proof (cases "create_gateway options")
      case (Inr policy)
      from validated_executor [OF ok, of sv] obtain G where G: "create_executor sv options = Inr G" by (auto simp: is_ok_iff)
      with validated_loop [OF ok, where g = "backend_gateway sv options policy" and G = G and h = "backend_executor sv"] show ?thesis
        by (auto simp: createAgentBackend_def lift_error_def ok Inr is_ok_iff)
    qed (simp add: createAgentBackend_def lift_error_def ok)
  qed
qed

end
