(* ===== verification/Json_Roundtrip.thy ===== *)
theory Json_Roundtrip
  imports Json_Text
begin

text \<open>
  \<open>JSON.parse(JSON.stringify(v))\<close> is \<open>v\<close> for the values both sides of the local API and the stores
  exchange: no \<open>undefined\<close> and no function, finite numbers whose shortest decimal form reads back
  (every safe integer does), strings that are well formed, objects whose keys are in property
  order.  The text of a value never contains a line break, which is what a format of one JSON text
  per line needs.
\<close>

section \<open>Strings\<close>

text \<open>No high surrogate directly before a low one: a pair has its own four byte form.\<close>

function text_kept :: "string \<Rightarrow> bool" where
  "text_kept s =
     (case s of
        [] \<Rightarrow> True
      | c # cs \<Rightarrow>
          (case surrogate_at s of
             Some (u, r) \<Rightarrow>
               \<not> (high_surrogate u \<and> (case surrogate_at r of None \<Rightarrow> False | Some (l, _) \<Rightarrow> low_surrogate l))
               \<and> text_kept r
           | None \<Rightarrow> text_kept cs))"
  by pat_completeness auto
termination
  by (relation "measure length") (auto dest: surrogate_at_length)

declare text_kept.simps [simp del]

lemma hex_val_digit: "n < 16 \<Longrightarrow> hex_val (hex_digit n) = Some n"
proof -
  assume "n < 16"
  then have "n \<in> set [0..<16]" by simp
  moreover have "\<forall>n \<in> set [0..<16]. hex_val (hex_digit n) = Some n" by code_simp
  ultimately show ?thesis by blast
qed

lemma hex4_text_value:
  "u < 65536 \<Longrightarrow> hex4 (hex_digit (u div 4096 mod 16)) (hex_digit (u div 256 mod 16)) (hex_digit (u div 16 mod 16))
     (hex_digit (u mod 16)) = Some u"
proof -
  assume "u < 65536"
  then have less: "u div 4096 < 16" by simp
  then have top: "u div 4096 mod 16 = u div 4096" by simp
  have parts: "u div 256 = u div 4096 * 16 + u div 256 mod 16" "u div 16 = u div 256 * 16 + u div 16 mod 16"
    using div_mult_mod_eq [of "u div 256" 16] div_mult_mod_eq [of "u div 16" 16]
    by (simp_all flip: div_mult2_eq)
  have "((u div 4096 mod 16 * 16 + u div 256 mod 16) * 16 + u div 16 mod 16) * 16 + u mod 16 = u"
    unfolding top parts(1) [symmetric] parts(2) [symmetric] by (rule div_mult_mod_eq)
  then show ?thesis by (simp add: hex_val_digit top less del: hex_val.simps hex_digit.simps)
qed

lemma lex_unicode_hex4:
  "u < 65536 \<Longrightarrow> \<not> high_surrogate u \<or> low_half r = None \<Longrightarrow> lex_unicode (hex4_text u @ r) = Some (utf8_encode u, r)"
  using hex4_text_value [of u]
  by (auto simp: lex_unicode_def hex4_text_def simp del: hex4.simps hex_digit.simps)

lemma base64: "q < 64 \<Longrightarrow> (a * 64 + q) div 64 = a \<and> (a * 64 + q) mod 64 = (q :: nat)"
  by simp

lemma surrogate_value:
  assumes "surrogate_at s = Some (u, r)"
  shows "55296 \<le> u \<and> u < 57344 \<and> s = utf8_encode u @ r"
proof -
  from assms obtain a b c where s: "s = a # b # c # r" and a: "a = CHR 0xED" and b: "160 \<le> (of_char b :: nat)" "is_continuation b"
    and c: "is_continuation c" and u: "u = 53248 + (of_char b - 128) * 64 + (of_char c - 128)"
    by (cases s rule: surrogate_at.cases) (auto split: if_splits)
  let ?b = "of_char b :: nat" and ?c = "of_char c :: nat"
  have b': "160 \<le> ?b" "?b < 192" and c': "128 \<le> ?c" "?c < 192" using b c by (auto simp: is_continuation_def)
  define p q where "p = ?b - 128" and "q = ?c - 128"
  have pq: "32 \<le> p" "p < 64" "q < 64" using b' c' by (simp_all add: p_def q_def)
  have u': "u = (13 * 64 + p) * 64 + q" by (simp add: u p_def q_def)
  have u64: "u div 64 = 13 * 64 + p" "u mod 64 = q" using base64 [OF pq(3), of "13 * 64 + p"] by (simp_all only: u')
  moreover have "u div 64 div 64 = 13" "u div 64 mod 64 = p" using base64 [OF pq(2), of 13] by (simp_all only: u64)
  moreover have "u div 4096 = u div 64 div 64" by (simp flip: div_mult2_eq)
  ultimately have div: "u div 4096 = 13" "u div 64 mod 64 = ?b - 128" "u mod 64 = ?c - 128"
    by (simp_all add: p_def q_def)
  have "(char_of (128 + (?b - 128)) :: char) = b" and "(char_of (128 + (?c - 128)) :: char) = c"
    using b' c' by simp_all
  moreover have "(char_of (237 :: nat) :: char) = a" unfolding a by code_simp
  moreover have range: "55296 \<le> u" "u < 57344" using b' c' unfolding u by linarith+
  ultimately show ?thesis using div by (simp add: s utf8_encode_def)
qed

lemma escape_char_plain:
  "\<not> (of_char c :: nat) < 32 \<Longrightarrow> c \<noteq> CHR 0x22 \<Longrightarrow> c \<noteq> CHR 0x5C \<Longrightarrow> escape_char c = [c]"
  by (auto simp: escape_char_def)


lemma small_code: "(of_char c :: nat) < 32 \<Longrightarrow> utf8_encode (of_char c) = [c]"
  by (simp add: utf8_encode_def)

text \<open>What escapes one character, read back.\<close>

lemma lex_escaped_char:
  "lex_str (escape_char c @ r) = prepend [c] (lex_str r)"
proof -
  have quoted: "lex_str (CHR 0x5C # e # r) = prepend [d] (lex_str r)" if "simple_escape e = Some d" "e \<noteq> CHR ''u''" for e d
    using that by (simp add: lex_str.simps [of "CHR 0x5C # e # r"] lex_escape_def)
  show ?thesis
  proof (cases "c \<in> {CHR 0x22, CHR 0x5C, CHR 0x08, CHR 0x0C, CHR 0x0A, CHR 0x0D, CHR 0x09}")
    case True
    then obtain e where "escape_char c = [CHR 0x5C, e]" and "simple_escape e = Some c" and "e \<noteq> CHR ''u''"
      by (elim insertE) (simp_all add: escape_char_def simple_escape_def)
    then show ?thesis by (simp add: quoted)
  next
    case False
    show ?thesis
    proof (cases "(of_char c :: nat) < 32")
      case True
      then have "\<not> high_surrogate (of_char c)" by (simp add: high_surrogate_def)
      with True have "lex_unicode (hex4_text (of_char c) @ r) = Some ([c], r)"
        by (subst lex_unicode_hex4) (simp_all add: small_code)
      with True False show ?thesis
        by (simp add: escape_char_def unicode_escape_def lex_escape_def
            lex_str.simps [of "CHR 0x5C # CHR ''u'' # hex4_text (of_char c) @ r"])
    next
      case plain: False
      with False show ?thesis by (simp add: escape_char_plain lex_str.simps [of "c # r"])
    qed
  qed
qed

text \<open>No low half starts where the text goes on without a low surrogate.\<close>

lemma low_half_unicode:
  assumes "u < 65536" and "\<not> low_surrogate u"
  shows "low_half (unicode_escape u @ r) = None"
  using assms hex4_text_value [of u]
  by (auto simp: unicode_escape_def hex4_text_def simp del: hex4.simps hex_digit.simps)

lemma low_half_escaped:
  assumes "case surrogate_at s of None \<Rightarrow> True | Some (l, _) \<Rightarrow> \<not> low_surrogate l"
  shows "low_half (json_escape s @ CHR 0x22 # r) = None"
proof -
  have other: "low_half (a # x) = None" if "a \<noteq> CHR 0x5C" for a x
    using that by (cases "a # x" rule: low_half.cases) auto
  have other2: "low_half (a # b # x) = None" if "b \<noteq> CHR ''u''" for a b x
    using that by (cases "a # b # x" rule: low_half.cases) auto
  show ?thesis
  proof (cases s)
    case Nil
    then show ?thesis by (simp add: json_escape.simps other)
  next
    case (Cons c cs)
    show ?thesis
    proof (cases "surrogate_at s")
      case None
      then have "json_escape s = escape_char c @ json_escape cs" by (simp add: Cons json_escape.simps [of "c # cs"])
      moreover have "low_half (escape_char c @ x) = None" for x
      proof (cases "c \<noteq> CHR 0x22 \<and> c \<noteq> CHR 0x5C \<and> \<not> (of_char c :: nat) < 32")
        case True
        then show ?thesis by (simp add: escape_char_plain other)
      next
        case False
        have "low_half (unicode_escape (of_char c) @ x) = None" if "(of_char c :: nat) < 32"
          using that by (intro low_half_unicode) (auto simp: low_surrogate_def)
        with False show ?thesis by (auto simp: escape_char_def other2)
      qed
      ultimately show ?thesis by simp
    next
      case (Some p)
      then obtain u t where p: "surrogate_at s = Some (u, t)" by (cases p) auto
      with assms have "\<not> low_surrogate u" by simp
      with surrogate_value [OF p] have "low_half (unicode_escape u @ x) = None" for x
        by (intro low_half_unicode) auto
      with p show ?thesis by (simp add: Cons json_escape.simps [of "c # cs"])
    qed
  qed
qed

lemma lex_str_escape: "text_kept s \<Longrightarrow> lex_str (json_escape s @ CHR 0x22 # r) = Some (s, r)"
proof (induction s rule: json_escape.induct)
  case (1 s)
  show ?case
  proof (cases s)
    case Nil
    then show ?thesis by (simp add: json_escape.simps lex_str.simps)
  next
    case (Cons c cs)
    show ?thesis
    proof (cases "surrogate_at s")
      case None
      with "1.prems" have "text_kept cs" by (simp add: Cons text_kept.simps [of "c # cs"])
      with "1.IH"(1) [OF Cons None] None show ?thesis
        by (simp add: Cons json_escape.simps [of "c # cs"] lex_escaped_char prepend_def)
    next
      case (Some p)
      then obtain u t where p: "surrogate_at s = Some (u, t)" by (cases p) auto
      with "1.prems" have kept: "text_kept t"
        and no: "\<not> high_surrogate u \<or> low_half (json_escape t @ CHR 0x22 # r) = None"
        using low_half_escaped [of t r]
        by (auto simp: Cons text_kept.simps [of "c # cs"] split: option.splits)
      note val = surrogate_value [OF p]
      have "lex_str (json_escape t @ CHR 0x22 # r) = Some (t, r)"
        using "1.IH"(2) [OF Cons _ _ kept] p Some by (cases p) auto
      moreover have "lex_unicode (hex4_text u @ json_escape t @ CHR 0x22 # r) = Some (utf8_encode u, json_escape t @ CHR 0x22 # r)"
        using val no by (intro lex_unicode_hex4) auto
      moreover have "json_escape s = unicode_escape u @ json_escape t" using p by (simp add: Cons json_escape.simps [of "c # cs"])
      ultimately show ?thesis
        using val by (simp add: unicode_escape_def lex_escape_def prepend_def
            lex_str.simps [of "CHR 0x5C # CHR ''u'' # hex4_text u @ json_escape t @ CHR 0x22 # r"])
    qed
  qed
qed

section \<open>Numbers\<close>

text \<open>A number whose decimal text reads back.\<close>

definition number_kept :: "rat \<Rightarrow> bool" where
  "number_kept q \<longleftrightarrow>
     number_text q \<noteq> [] \<and> list_all is_num_char (number_text q) \<and> json_number (number_text q) = Some (Fin q)"

lemma digits_val_snoc: "digits_val (ds @ [c]) = 10 * digits_val ds + digit_val c"
  by (simp add: digits_val_def)

lemma small_digit:
  assumes "0 \<le> n" and "n < 10"
  shows "is_digit (char_of (48 + nat n))" and "digit_val (char_of (48 + nat n)) = n"
proof -
  have "n \<in> set [0..9]" using assms by simp
  moreover have "\<forall>n \<in> set [0..9]. is_digit (char_of (48 + nat n)) \<and> digit_val (char_of (48 + nat n)) = n" by code_simp
  ultimately show "is_digit (char_of (48 + nat n))" and "digit_val (char_of (48 + nat n)) = n" by blast+
qed

lemma nat_text_value:
  "0 \<le> n \<Longrightarrow> nat_text n \<noteq> [] \<and> list_all is_digit (nat_text n) \<and> digits_val (nat_text n) = n
     \<and> (hd (nat_text n) = CHR ''0'' \<longrightarrow> nat_text n = ''0'')"
proof (induction n rule: nat_text.induct)
  case (1 n)
  show ?case
  proof (cases "n < 10")
    case True
    with 1(2) show ?thesis
      using small_digit [of n] by (auto simp: nat_text.simps [of n] digits_val_def)
  next
    case False
    then have pos: "0 \<le> n div 10" and less: "0 \<le> n mod 10" "n mod 10 < 10" by simp_all
    note ih = "1.IH" [OF False pos]
    have "hd (nat_text (n div 10)) \<noteq> CHR ''0''"
    proof
      assume "hd (nat_text (n div 10)) = CHR ''0''"
      with ih have "digits_val ''0'' = n div 10" by auto
      then have "n div 10 = 0" by (simp add: digits_val_def digit_val_def)
      with False show False by simp
    qed
    with ih small_digit [OF less] False show ?thesis
      by (auto simp: nat_text.simps [of n] digits_val_snoc hd_append)
  qed
qed

lemma digit_not_sign: "is_digit c \<Longrightarrow> c \<noteq> CHR ''-''"
  by (auto simp: is_digit_def)

lemma json_unsigned_nat_text: "0 \<le> n \<Longrightarrow> json_unsigned (nat_text n) = Some (of_int n)"
proof -
  assume "0 \<le> n"
  note v = nat_text_value [OF this]
  then have all: "takeWhile is_digit (nat_text n) = nat_text n" "dropWhile is_digit (nat_text n) = []"
    by (auto simp: list_all_iff takeWhile_eq_all_conv dropWhile_eq_Nil_conv)
  show ?thesis
    using v unfolding json_unsigned_def Let_def all by (cases "hd (nat_text n) = CHR ''0''") (simp_all add: ten_pow_def, metis)
qed

lemma number_kept_integer:
  assumes "of_int \<lfloor>q\<rfloor> = q" and "\<bar>q\<bar> \<le> 9007199254740992"
  shows "number_kept q"
proof -
  define n where "n = \<lfloor>\<bar>q\<bar>\<rfloor>"
  have n: "0 \<le> n" by (simp add: n_def)
  have abs: "of_int n = \<bar>q\<bar>"
  proof -
    have "\<bar>q\<bar> = of_int \<bar>\<lfloor>q\<rfloor>\<bar>" using assms(1) by (metis of_int_abs)
    then show ?thesis unfolding n_def by (metis floor_of_int)
  qed
  have form: "number_text q = (if q < 0 then ''-'' @ nat_text n else nat_text n)"
    using assms(2) unfolding number_text_def Let_def abs [symmetric] by simp
  note v = nat_text_value [OF n]
  have digits: "list_all is_num_char (nat_text n)"
    using v by (auto simp: list_all_iff is_num_char_def)
  have round: "js_round q = Fin q" using assms by (simp add: js_round_def)
  show ?thesis
  proof (cases "q < 0")
    case True
    then have "of_int n = - q" using abs by simp
    with True v digits round json_unsigned_nat_text [OF n] show ?thesis
      by (simp add: number_kept_def form json_number_def is_num_char_def)
  next
    case False
    then have "of_int n = q" using abs by simp
    moreover have "json_number (nat_text n) = map_option js_round (json_unsigned (nat_text n))"
      using v by (cases "nat_text n") (auto simp: json_number_def dest: digit_not_sign)
    ultimately show ?thesis
      using False v digits round json_unsigned_nat_text [OF n] by (simp add: number_kept_def form)
  qed
qed

lemma number_kept_safe: "is_safe_integer (Fin q) \<Longrightarrow> number_kept q"
  by (rule number_kept_integer) (auto simp: max_safe_integer_def)

section \<open>Values\<close>

definition keys_ordered :: "(string \<times> 'v) list \<Rightarrow> bool" where
  "keys_ordered kvs \<longleftrightarrow> distinct (map fst kvs) \<and> property_order kvs = kvs"

fun json_kept :: "jsval \<Rightarrow> bool" where
  "json_kept JNull = True"
| "json_kept (JBool _) = True"
| "json_kept (JStr s) = text_kept s"
| "json_kept (JNum n) = (case n of Fin q \<Rightarrow> number_kept q | _ \<Rightarrow> False)"
| "json_kept (JArr vs) = list_all json_kept vs"
| "json_kept (JObj kvs) = (keys_ordered kvs \<and> list_all (\<lambda>kv. text_kept (fst kv) \<and> json_kept (snd kv)) kvs)"
| "json_kept _ = False"

fun sep_tokens :: "token list list \<Rightarrow> token list" where
  "sep_tokens [] = []"
| "sep_tokens [x] = x"
| "sep_tokens (x # xs) = x @ TComma # sep_tokens xs"

fun tokens_of :: "jsval \<Rightarrow> token list" where
  "tokens_of (JStr s) = [TStr s]"
| "tokens_of (JArr vs) = TLBrack # sep_tokens (map tokens_of vs) @ [TRBrack]"
| "tokens_of (JObj kvs) =
     TLBrace # sep_tokens (map (\<lambda>kv. TStr (fst kv) # TColon # tokens_of (snd kv)) kvs) @ [TRBrace]"
| "tokens_of v = [TLit v]"

text \<open>\<open>s\<close> is read as \<open>ts\<close> wherever it stands, unless a number could go on after it.\<close>

definition lexes :: "string \<Rightarrow> token list \<Rightarrow> bool" where
  "lexes s ts \<longleftrightarrow>
     (\<forall>r. (r = [] \<or> \<not> is_num_char (hd r)) \<longrightarrow> json_lex (s @ r) = map_option ((@) ts) (json_lex r))"

lemma lexesD: "lexes s ts \<Longrightarrow> r = [] \<or> \<not> is_num_char (hd r) \<Longrightarrow> json_lex (s @ r) = map_option ((@) ts) (json_lex r)"
  unfolding lexes_def by blast

lemma map_option_Nil: "map_option ((@) []) m = m"
  by (cases m) simp_all

lemma map_option_append: "map_option ((@) xs) (map_option ((@) ys) m) = map_option ((@) (xs @ ys)) m"
  by (cases m) simp_all

lemma map_option_Cons: "map_option (Cons x) (map_option ((@) ys) m) = map_option ((@) (x # ys)) m"
  by (cases m) simp_all

lemma json_lex_punct:
  "punct c = Some t \<Longrightarrow> json_lex (c # r) = map_option (Cons t) (json_lex r)"
  by (auto simp: json_lex.simps [of "c # r"] punct_def split: if_splits)

lemma punct_chars [simp]:
  "punct (CHR ''['') = Some TLBrack" "punct (CHR '']'') = Some TRBrack" "punct (CHR ''{'') = Some TLBrace"
  "punct (CHR ''}'') = Some TRBrace" "punct (CHR '':'') = Some TColon" "punct (CHR '','') = Some TComma"
  by (simp_all add: punct_def)

lemma punct_not_num [simp]:
  "\<not> is_num_char (CHR ''['')" "\<not> is_num_char (CHR '']'')" "\<not> is_num_char (CHR ''{'')"
  "\<not> is_num_char (CHR ''}'')" "\<not> is_num_char (CHR '':'')" "\<not> is_num_char (CHR '','')"
  by (simp_all add: is_num_char_def is_digit_def)

lemma lexes_quote:
  assumes "text_kept s"
  shows "json_lex (json_quote s @ r) = map_option (Cons (TStr s)) (json_lex r)"
  using lex_str_escape [OF assms, of r]
  by (simp add: json_quote_def json_lex.simps [of "CHR 0x22 # json_escape s @ CHR 0x22 # r"] punct_def)

lemma num_char_first:
  assumes "is_num_char c"
  shows "c \<notin> {CHR 0x20, CHR 0x09, CHR 0x0A, CHR 0x0D, CHR 0x22} \<and> punct c = None"
proof -
  have "c = char_of (of_char c :: nat)" by simp
  moreover have "of_char c \<in> set [0..<256 :: nat]" by simp
  ultimately have "c \<in> set (map char_of [0..<256 :: nat])" by (metis image_eqI list.set_map)
  moreover have "\<forall>c \<in> set (map char_of [0..<256 :: nat]). is_num_char c \<longrightarrow>
      c \<notin> {CHR 0x20, CHR 0x09, CHR 0x0A, CHR 0x0D, CHR 0x22} \<and> punct c = None"
    by code_simp
  ultimately show ?thesis using assms by blast
qed

lemma lexes_number: "number_kept q \<Longrightarrow> lexes (number_text q) [TLit (JNum (Fin q))]"
proof (unfold lexes_def, intro allI impI)
  fix r assume q: "number_kept q" and r: "r = [] \<or> \<not> is_num_char (hd r)"
  from q obtain c cs where text': "number_text q = c # cs" and num: "is_num_char c" "list_all is_num_char cs"
    and val: "json_number (c # cs) = Some (Fin q)"
    by (cases "number_text q") (auto simp: number_kept_def)
  have stop: "takeWhile is_num_char (cs @ r) = cs" "dropWhile is_num_char (cs @ r) = r"
    using num r by (auto simp: list_all_iff takeWhile_append2 dropWhile_append2 takeWhile_eq_Nil_iff dropWhile_eq_self_iff)
  from num_char_first [OF num(1)] show "json_lex (number_text q @ r) = map_option ((@) [TLit (JNum (Fin q))]) (json_lex r)"
    using num stop val by (simp add: text' json_lex.simps [of "c # cs @ r"]) (metis append_Cons append_Nil)
qed

lemma lexes_word:
  "json_lex (''null'' @ r) = map_option (Cons (TLit JNull)) (json_lex r)"
  "json_lex (''true'' @ r) = map_option (Cons (TLit (JBool True))) (json_lex r)"
  "json_lex (''false'' @ r) = map_option (Cons (TLit (JBool False))) (json_lex r)"
  by (simp_all add: json_lex.simps [of "_ # _"] punct_def is_num_char_def is_digit_def keyword_def)

lemma lexes_sep:
  "list_all2 lexes ss tss \<Longrightarrow> lexes (comma_sep ss) (sep_tokens tss)"
proof (induction ss tss rule: list_all2_induct)
  case Nil
  then show ?case by (simp add: lexes_def map_option_Nil)
next
  case (Cons s ss ts tss)
  show ?case
  proof (cases ss)
    case Nil
    with Cons show ?thesis by simp
  next
    case (Cons s' ss')
    with Cons.hyps obtain ts' tss' where tss: "tss = ts' # tss'" by (cases tss) auto
    show ?thesis
      unfolding lexes_def
    proof (intro allI impI)
      fix r :: string assume r: "r = [] \<or> \<not> is_num_char (hd r)"
      have "json_lex (comma_sep (s # ss) @ r) = json_lex (s @ CHR '','' # comma_sep ss @ r)"
        by (simp add: Cons)
      also have "\<dots> = map_option ((@) ts) (json_lex (CHR '','' # comma_sep ss @ r))"
        by (rule lexesD [OF \<open>lexes s ts\<close>]) simp
      also have "\<dots> = map_option ((@) (ts @ TComma # sep_tokens tss)) (json_lex r)"
        using lexesD [OF Cons.IH r] by (simp add: json_lex_punct map_option_Cons map_option_append)
      finally show "json_lex (comma_sep (s # ss) @ r) = map_option ((@) (sep_tokens (ts # tss))) (json_lex r)"
        by (simp add: tss)
    qed
  qed
qed

lemma lexes_bracketed:
  assumes "lexes s ts" and "punct a = Some x" and "punct b = Some y" and "\<not> is_num_char b"
  shows "lexes (a # s @ [b]) (x # ts @ [y])"
  unfolding lexes_def
proof (intro allI impI)
  fix r :: string assume "r = [] \<or> \<not> is_num_char (hd r)"
  have "json_lex (s @ b # r) = map_option ((@) (ts @ [y])) (json_lex r)"
    using lexesD [OF assms(1), of "b # r"] assms(3,4) by (cases "json_lex r") (simp_all add: json_lex_punct)
  then show "json_lex ((a # s @ [b]) @ r) = map_option ((@) (x # ts @ [y])) (json_lex r)"
    by (simp add: json_lex_punct [OF assms(2)] map_option_Cons)
qed

lemma lexes_one: "(\<And>r. json_lex (s @ r) = map_option (Cons t) (json_lex r)) \<Longrightarrow> lexes s [t]"
proof -
  have "(@) [t] = Cons t" by (rule ext) simp
  then show "(\<And>r. json_lex (s @ r) = map_option (Cons t) (json_lex r)) \<Longrightarrow> lexes s [t]"
    unfolding lexes_def by metis
qed

lemma lexes_property:
  assumes "text_kept k" and "lexes t ts"
  shows "lexes (json_quote k @ '':'' @ t) (TStr k # TColon # ts)"
  using assms by (simp add: lexes_def lexes_quote json_lex_punct map_option_Cons)

lemma lexes_value: "json_kept v \<Longrightarrow> \<exists>t. json_stringify v = Some t \<and> lexes t (tokens_of v)"
proof (induction v rule: json_kept.induct)
  case (3 s)
  then show ?case by (auto intro!: lexes_one lexes_quote)
next
  case (4 n)
  then show ?case by (cases n) (simp_all add: lexes_number)
next
  case (5 vs)
  let ?text = "\<lambda>v. case json_stringify v of None \<Rightarrow> ''null'' | Some t \<Rightarrow> t"
  have "list_all2 lexes (map ?text vs) (map tokens_of vs)"
    using 5 by (fastforce simp: list_all2_map1 list_all2_map2 list_all2_same list_all_iff)
  then have "lexes (CHR ''['' # comma_sep (map ?text vs) @ [CHR '']'']) (TLBrack # sep_tokens (map tokens_of vs) @ [TRBrack])"
    by (intro lexes_bracketed lexes_sep) simp_all
  then show ?case by simp
next
  case (6 kvs)
  let ?text = "\<lambda>kv. json_quote (fst kv) @ '':'' @ (case json_stringify (snd kv) of None \<Rightarrow> [] | Some t \<Rightarrow> t)"
  let ?toks = "\<lambda>kv. TStr (fst kv) # TColon # tokens_of (snd kv)"
  have some: "json_stringify (snd kv) \<noteq> None" if "kv \<in> set kvs" for kv
    using 6 that by (fastforce simp: list_all_iff)
  then have parts: "concat (map (\<lambda>kv. case json_stringify (snd kv) of None \<Rightarrow> [] | Some t \<Rightarrow> [json_quote (fst kv) @ '':'' @ t]) kvs)
      = map ?text kvs"
    by (induction kvs) (auto split: option.splits)
  have "lexes (?text kv) (?toks kv)" if "kv \<in> set kvs" for kv
    using "6.IH" [of kv] "6.prems" that by (fastforce simp: list_all_iff intro!: lexes_property)
  then have "list_all2 lexes (map ?text kvs) (map ?toks kvs)"
    by (auto simp: list_all2_map1 list_all2_map2 list_all2_same)
  then have "lexes (CHR ''{'' # comma_sep (map ?text kvs) @ [CHR ''}'']) (TLBrace # sep_tokens (map ?toks kvs) @ [TRBrace])"
    by (intro lexes_bracketed lexes_sep) simp_all
  then show ?case by (simp add: parts)
qed (auto intro!: lexes_one simp: lexes_word [simplified])

section \<open>Reading the tokens\<close>

lemma obj_put_new: "k \<notin> fst ` set kvs \<Longrightarrow> obj_put kvs k v = kvs @ [(k, v)]"
  by (induction kvs k v rule: obj_put.induct) auto

lemma tokens_open: "json_kept v \<Longrightarrow> \<exists>t ts m. tokens_of v = t # ts \<and> open_value t = Some m \<and> t \<noteq> TRBrack"
  by (cases v) auto

lemma run_array:
  assumes "\<And>v st ts. v \<in> set vs \<Longrightarrow> json_run MVal st (tokens_of v @ ts) = json_run (MAfter v) st ts" and "vs \<noteq> []"
  shows "json_run MVal (FArr us # st) (sep_tokens (map tokens_of vs) @ TRBrack # ts) = json_run (MAfter (JArr (us @ vs))) st ts"
  using assms
proof (induction vs arbitrary: us)
  case (Cons v vs)
  then show ?case by (cases vs) simp_all
qed simp

lemma run_object:
  assumes "\<And>kv st ts. kv \<in> set kvs \<Longrightarrow> json_run MVal st (tokens_of (snd kv) @ ts) = json_run (MAfter (snd kv)) st ts"
    and "kvs \<noteq> []" and "distinct (map fst (us @ kvs))"
  shows "json_run (MKey us b) st (sep_tokens (map (\<lambda>kv. TStr (fst kv) # TColon # tokens_of (snd kv)) kvs) @ TRBrace # ts)
    = json_run (MAfter (JObj (property_order (us @ kvs)))) st ts"
  using assms
proof (induction kvs arbitrary: us b)
  case (Cons kv kvs)
  have put: "obj_put us (fst kv) (snd kv) = us @ [kv]"
    using Cons.prems(3) by (subst obj_put_new) auto
  show ?case
  proof (cases kvs)
    case Nil
    then show ?thesis using Cons.prems(1) by (simp add: put)
  next
    case (Cons kv' kvs')
    with Cons.IH [of "us @ [kv]" False] Cons.prems \<open>kvs = _\<close> show ?thesis
      by (simp add: put)
  qed
qed simp

lemma run_value: "json_kept v \<Longrightarrow> json_run MVal st (tokens_of v @ ts) = json_run (MAfter v) st ts"
proof (induction v arbitrary: st ts rule: json_kept.induct)
  case (5 vs)
  show ?case
  proof (cases vs)
    case (Cons v ws)
    with "5.prems" obtain t rest m where t: "tokens_of v = t # rest" "open_value t = Some m" "t \<noteq> TRBrack"
      using tokens_open [of v] by auto
    have "json_run MFirst st (sep_tokens (map tokens_of vs) @ TRBrack # ts) =
        json_run MVal (FArr [] # st) (sep_tokens (map tokens_of vs) @ TRBrack # ts)"
      using t Cons by (cases ws) simp_all
    also have "\<dots> = json_run (MAfter (JArr ([] @ vs))) st ts"
      using 5 Cons by (intro run_array) (auto simp: list_all_iff)
    finally show ?thesis by simp
  qed simp
next
  case (6 kvs)
  have each: "json_run MVal st (tokens_of (snd kv) @ ts) = json_run (MAfter (snd kv)) st ts" if "kv \<in> set kvs" for kv st ts
    using "6.IH" [OF that] "6.prems" that by (auto simp: list_all_iff)
  show ?case
  proof (cases kvs)
    case (Cons kv kvs')
    have "json_run (MKey [] True) st (sep_tokens (map (\<lambda>kv. TStr (fst kv) # TColon # tokens_of (snd kv)) kvs) @ TRBrace # ts)
        = json_run (MAfter (JObj (property_order ([] @ kvs)))) st ts"
      using "6.prems" Cons by (intro run_object each) (auto simp: keys_ordered_def)
    with 6 show ?thesis by (simp add: keys_ordered_def)
  qed simp
qed simp_all

text \<open>What is written is what is read.\<close>

theorem parse_stringify: "json_kept v \<Longrightarrow> json_parse (stringify_text v) = Some v"
proof -
  assume v: "json_kept v"
  from lexes_value [OF this] obtain t where t: "json_stringify v = Some t" and "lexes t (tokens_of v)" by blast
  from lexesD [OF this(2), of "[]"] have "json_lex t = Some (tokens_of v)" by (simp add: json_lex.simps)
  with run_value [OF v, of "[]" "[]"] show ?thesis by (simp add: json_parse_def stringify_text_def t)
qed

section \<open>One line\<close>

definition printable :: "string \<Rightarrow> bool" where
  "printable s = list_all (\<lambda>c. 32 \<le> (of_char c :: nat)) s"

lemma printable_simps [simp]:
  "printable []"
  "printable (c # cs) \<longleftrightarrow> 32 \<le> (of_char c :: nat) \<and> printable cs"
  "printable (s @ t) \<longleftrightarrow> printable s \<and> printable t"
  by (simp_all add: printable_def)

lemma printable_no_break: "printable s \<Longrightarrow> CHR 0x0A \<notin> set s \<and> CHR 0x0D \<notin> set s"
  by (auto simp: printable_def list_all_iff)

lemma hex_digit_printable: "n < 16 \<Longrightarrow> 32 \<le> (of_char (hex_digit n) :: nat)"
proof -
  assume "n < 16"
  then have "n \<in> set [0..<16]" by simp
  moreover have "\<forall>n \<in> set [0..<16]. 32 \<le> (of_char (hex_digit n) :: nat)" by code_simp
  ultimately show ?thesis by blast
qed

lemma unicode_escape_printable: "printable (unicode_escape u)"
  by (simp add: unicode_escape_def hex4_text_def hex_digit_printable del: hex_digit.simps)

lemma escape_char_printable: "printable (escape_char c)"
  by (simp add: escape_char_def unicode_escape_printable)

lemma json_escape_printable: "printable (json_escape s)"
proof (induction s rule: json_escape.induct)
  case (1 s)
  show ?case
  proof (cases s)
    case (Cons c cs)
    then show ?thesis
      using "1.IH" by (auto simp: json_escape.simps [of "c # cs"] escape_char_printable unicode_escape_printable split: option.splits)
  qed (simp add: json_escape.simps)
qed

lemma json_quote_printable: "printable (json_quote s)"
  by (simp add: json_quote_def json_escape_printable)

lemma num_char_printable: "is_num_char c \<Longrightarrow> 32 \<le> (of_char c :: nat)"
  by (auto simp: is_num_char_def is_digit_def)

lemma comma_sep_printable: "list_all printable ss \<Longrightarrow> printable (comma_sep ss)"
  by (induction ss rule: comma_sep.induct) simp_all

lemma stringify_printable: "json_kept v \<Longrightarrow> printable (stringify_text v)"
proof (induction v rule: json_kept.induct)
  case (4 n)
  then show ?case
    by (cases n) (auto simp: stringify_text_def number_kept_def printable_def list_all_iff num_char_printable)
next
  case (5 vs)
  have "printable (case json_stringify v of None \<Rightarrow> ''null'' | Some t \<Rightarrow> t)" if "v \<in> set vs" for v
    using "5.IH" [OF that] "5.prems" that lexes_value [of v] by (auto simp: list_all_iff stringify_text_def)
  then show ?case by (simp add: stringify_text_def comma_sep_printable list_all_iff)
next
  case (6 kvs)
  have "printable t" if "kv \<in> set kvs" and "json_stringify (snd kv) = Some t" for kv t
    using "6.IH" [OF that(1)] "6.prems" that by (auto simp: list_all_iff stringify_text_def)
  then show ?case
    by (auto simp: stringify_text_def list_all_iff json_quote_printable intro!: comma_sep_printable split: option.splits)
qed (simp_all add: stringify_text_def json_quote_printable)

end
