(* ===== verification/Local_Api.thy ===== *)
theory Local_Api
  imports Agent_Backend Json_Roundtrip
begin

text \<open>
  \<open>packages/local-agent-api/src\<close>: \<open>errors.ts\<close>, \<open>types.ts\<close>, \<open>session-store.ts\<close>, \<open>ndjson.ts\<close> and
  \<open>validation.ts\<close>: the fixed error payloads, the in-memory session store, the event lines and the
  validation of options and turn requests.

  The clock (\<open>Date.now\<close>) and the identifier source (\<open>randomUUID\<close>) are arguments of the operations
  that use them.  Cloning is the identity on immutable values.
\<close>

section \<open>Errors\<close>

datatype api_error =
    ApiNotFound
  | ApiMethodNotAllowed
  | ApiInvalidJson
  | ApiInvalidRequest
  | ApiSessionNotFound
  | ApiSessionBusy
  | ApiPayloadTooLarge
  | ApiInvalidHost
  | ApiServerError
  | ApiConfigurationUnavailable
  | ApiInvalidConfigRequest
  | ApiConfigPersistenceFailed

fun api_error_code :: "api_error \<Rightarrow> string" where
  "api_error_code ApiNotFound = ''not_found''"
| "api_error_code ApiMethodNotAllowed = ''method_not_allowed''"
| "api_error_code ApiInvalidJson = ''invalid_json''"
| "api_error_code ApiInvalidRequest = ''invalid_request''"
| "api_error_code ApiSessionNotFound = ''session_not_found''"
| "api_error_code ApiSessionBusy = ''session_busy''"
| "api_error_code ApiPayloadTooLarge = ''payload_too_large''"
| "api_error_code ApiInvalidHost = ''invalid_host''"
| "api_error_code ApiServerError = ''server_error''"
| "api_error_code ApiConfigurationUnavailable = ''configuration_unavailable''"
| "api_error_code ApiInvalidConfigRequest = ''invalid_config_request''"
| "api_error_code ApiConfigPersistenceFailed = ''config_persistence_failed''"

fun api_error_message :: "api_error \<Rightarrow> string" where
  "api_error_message ApiNotFound = ''Resource not found.''"
| "api_error_message ApiMethodNotAllowed = ''HTTP method is not allowed.''"
| "api_error_message ApiInvalidJson = ''Request body is not valid JSON.''"
| "api_error_message ApiInvalidRequest = ''Request is invalid.''"
| "api_error_message ApiSessionNotFound = ''Session not found.''"
| "api_error_message ApiSessionBusy = ''Session is busy.''"
| "api_error_message ApiPayloadTooLarge = ''Request body is too large.''"
| "api_error_message ApiInvalidHost = ''Only loopback hosts are allowed.''"
| "api_error_message ApiServerError = ''Internal server error.''"
| "api_error_message ApiConfigurationUnavailable = ''Configuration is unavailable.''"
| "api_error_message ApiInvalidConfigRequest = ''Configuration request is invalid.''"
| "api_error_message ApiConfigPersistenceFailed = ''Configuration persistence failed.''"

definition apiErrorPayload :: "api_error \<Rightarrow> jsval" where
  "apiErrorPayload k =
     JObj [(''error'', JObj [(''code'', JStr (api_error_code k)), (''message'', JStr (api_error_message k))])]"

definition default_max_body_bytes :: nat where "default_max_body_bytes = 1024 * 1024"

section \<open>Sessions\<close>

datatype session_status = SessionIdle | SessionRunning | SessionCompleted | SessionCancelled | SessionFailed

fun status_name :: "session_status \<Rightarrow> string" where
  "status_name SessionIdle = ''idle''"
| "status_name SessionRunning = ''running''"
| "status_name SessionCompleted = ''completed''"
| "status_name SessionCancelled = ''cancelled''"
| "status_name SessionFailed = ''failed''"

record session_record =
  ss_id :: string
  ss_status :: session_status
  ss_created :: nat
  ss_updated :: nat
  ss_turn :: "string option"
  ss_events :: "agent_event list"

text \<open>The private map of \<open>InMemoryLocalAgentSessionStore\<close>, in insertion order.\<close>

type_synonym session_store = "(string \<times> session_record) list"

text \<open>What \<open>cloneSession\<close> answers: the record without its events, as the object it is.\<close>

definition cloneSession :: "session_record \<Rightarrow> jsval" where
  "cloneSession r =
     JObj ([(''id'', JStr (ss_id r)), (''status'', JStr (status_name (ss_status r))),
            (''createdAt'', JNum (jsnat (ss_created r))), (''updatedAt'', JNum (jsnat (ss_updated r)))]
           @ (case ss_turn r of None \<Rightarrow> [] | Some t \<Rightarrow> [(''activeTurnId'', JStr t)]))"

definition new_session :: "string \<Rightarrow> nat \<Rightarrow> session_record" where
  "new_session i now =
     \<lparr>ss_id = i, ss_status = SessionIdle, ss_created = now, ss_updated = now, ss_turn = None, ss_events = []\<rparr>"

definition create_session :: "string \<Rightarrow> nat \<Rightarrow> session_store \<Rightarrow> jsval \<times> session_store" where
  "create_session i now st = (cloneSession (new_session i now), obj_put st i (new_session i now))"

definition get_session :: "session_store \<Rightarrow> string \<Rightarrow> jsval option" where
  "get_session st i = map_option cloneSession (map_of st i)"

definition listEvents :: "session_store \<Rightarrow> string \<Rightarrow> agent_event list" where
  "listEvents st i = (case map_of st i of None \<Rightarrow> [] | Some r \<Rightarrow> ss_events r)"

definition appendEvent :: "nat \<Rightarrow> string \<Rightarrow> agent_event \<Rightarrow> session_store \<Rightarrow> session_store" where
  "appendEvent now i e st =
     (case map_of st i of
        None \<Rightarrow> st
      | Some r \<Rightarrow> obj_put st i (r\<lparr>ss_events := ss_events r @ [e], ss_updated := now\<rparr>))"

definition setStatus :: "nat \<Rightarrow> string \<Rightarrow> session_status \<Rightarrow> string option \<Rightarrow> session_store \<Rightarrow> session_store" where
  "setStatus now i s turn st =
     (case map_of st i of
        None \<Rightarrow> st
      | Some r \<Rightarrow> obj_put st i (r\<lparr>ss_status := s, ss_turn := turn, ss_updated := now\<rparr>))"

section \<open>Event lines\<close>

text \<open>The object an event is; the fields stand in the order the runner writes them.\<close>

fun event_value :: "agent_event \<Rightarrow> jsval" where
  "event_value (ARouteSelected rid route m) =
     JObj [(''type'', JStr ''route_selected''), (''requestId'', JStr rid), (''routeId'', JStr route), (''model'', JStr m)]"
| "event_value (ATextDelta rid t) =
     JObj [(''type'', JStr ''text_delta''), (''requestId'', JStr rid), (''text'', JStr t)]"
| "event_value (AToolCall rid i n v) =
     JObj [(''type'', JStr ''tool_call''), (''requestId'', JStr rid), (''id'', i), (''name'', n), (''input'', v)]"
| "event_value (AUsage rid a b) =
     JObj [(''type'', JStr ''usage''), (''requestId'', JStr rid), (''inputTokens'', JNum a), (''outputTokens'', JNum b)]"
| "event_value (ACompleted rid) = JObj [(''type'', JStr ''completed''), (''requestId'', JStr rid)]"
| "event_value (AError rid c m r) =
     JObj [(''type'', JStr ''error''), (''requestId'', JStr rid), (''code'', JStr c), (''message'', JStr m),
           (''retryable'', JBool r)]"

definition writeNdjsonLine :: "agent_event \<Rightarrow> string" where
  "writeNdjsonLine e = stringify_text (event_value e) @ [CHR 0x0A]"

section \<open>Sensitive fields\<close>

definition sensitive_fields :: "string list" where
  "sensitive_fields =
     [''apikey'', ''api_key'', ''token'', ''authorization'', ''headers'', ''secret'', ''password'', ''credential'',
      ''endpoint'', ''baseurl'', ''base_url'', ''accesstoken'', ''refreshtoken'', ''clientsecret'']"

definition max_sensitive_scan_depth :: nat where "max_sensitive_scan_depth = 32"

fun assertNoSensitiveFields :: "jsval \<Rightarrow> nat \<Rightarrow> api_error + unit" where
  "assertNoSensitiveFields (JArr vs) depth =
     (if max_sensitive_scan_depth < depth then Inl ApiInvalidRequest
      else rall (\<lambda>v. assertNoSensitiveFields v (depth + 1)) vs)"
| "assertNoSensitiveFields (JObj kvs) depth =
     (if max_sensitive_scan_depth < depth then Inl ApiInvalidRequest
      else rall (\<lambda>kv. if to_lower (fst kv) \<in> set sensitive_fields then Inl ApiInvalidRequest
                      else assertNoSensitiveFields (snd kv) (depth + 1)) kvs)"
| "assertNoSensitiveFields v depth =
     (if max_sensitive_scan_depth < depth then Inl ApiInvalidRequest else Inr ())"

section \<open>Options\<close>

definition assertCallableMethod :: "jsval \<Rightarrow> string \<Rightarrow> api_error + unit" where
  "assertCallableMethod v name =
     (if \<not> is_object v \<and> \<not> is_array v then Inl ApiInvalidRequest
      else if field v name \<noteq> JFun then Inl ApiInvalidRequest
      else Inr ())"

definition config_manager_methods :: "string list" where
  "config_manager_methods =
     [''getSnapshot'', ''createProvider'', ''updateProvider'', ''deleteProvider'', ''createRoute'', ''updateRoute'',
      ''deleteRoute'']"

definition isConfigManager :: "jsval \<Rightarrow> bool" where
  "isConfigManager v =
     (if \<not> is_object v then False else list_all (\<lambda>name. field v name = JFun) config_manager_methods)"

record api_options =
  ap_host :: string
  ap_port :: jsnum
  ap_custom_store :: bool
  ap_max_body :: jsnum
  ap_config_manager :: bool

definition parseApiOptions :: "jsval \<Rightarrow> api_error + api_options" where
  "parseApiOptions options =
     (if \<not> is_object options then Inl ApiInvalidRequest
      else
        let host = (if nullish (field options ''host'') then JStr ''127.0.0.1'' else field options ''host'');
            port = field options ''port'';
            runner = field options ''runner'';
            store = field options ''store'';
            max_body = (if nullish (field options ''maxBodyBytes'') then JNum (jsnat default_max_body_bytes)
                        else field options ''maxBodyBytes'');
            manager = field options ''configManager''
        in
        if host \<noteq> JStr ''127.0.0.1'' \<and> host \<noteq> JStr ''localhost'' then Inl ApiInvalidHost
        else if (case port of JNum n \<Rightarrow> \<not> is_integer n \<or> num_less n (Fin 0) \<or> num_less (Fin 65535) n | _ \<Rightarrow> True)
          then Inl ApiInvalidRequest
        else if nullish runner then Inl ApiInvalidRequest
        else
          rbind (assertCallableMethod runner ''run'') (\<lambda>_.
          rbind (if store = JUndef then Inr ()
                 else rall (assertCallableMethod store)
                        [''create'', ''get'', ''listEvents'', ''appendEvent'', ''setStatus'']) (\<lambda>_.
          if \<not> positive_integer max_body then Inl ApiInvalidRequest
          else
            rbind (assertNoSensitiveFields options 0) (\<lambda>_.
            if manager \<noteq> JUndef \<and> \<not> isConfigManager manager then Inl ApiInvalidRequest
            else Inr \<lparr>ap_host = as_str host, ap_port = as_num port, ap_custom_store = (store \<noteq> JUndef),
                      ap_max_body = as_num max_body, ap_config_manager = (manager \<noteq> JUndef)\<rparr>))))"

section \<open>Turn requests\<close>

record turn_request =
  tq_messages :: "jsval list"
  tq_tools :: "jsval list option"
  tq_route :: "string option"
  tq_model :: "string option"
  tq_max_tokens :: "jsnum option"

definition turn_fields :: "string list" where
  "turn_fields = [''messages'', ''tools'', ''routeId'', ''model'', ''maxTokens'']"

definition optional_string :: "jsval \<Rightarrow> string option" where
  "optional_string v = (if v = JUndef then None else Some (as_str v))"

definition parseTurnRequest :: "jsval \<Rightarrow> api_error + turn_request" where
  "parseTurnRequest input =
     (if \<not> isPlainObject input then Inl ApiInvalidRequest
      else
        rbind (assertNoSensitiveFields input 0) (\<lambda>_.
        let msgs = field input ''messages''; ts = field input ''tools''; n = field input ''maxTokens'' in
        if list_ex (\<lambda>k. k \<notin> set turn_fields) (obj_keys input) then Inl ApiInvalidRequest
        else if \<not> is_array msgs \<or> as_arr msgs = [] then Inl ApiInvalidRequest
        else if \<not> is_ok (validateAgentMessages msgs) then Inl ApiInvalidRequest
        else if ts \<noteq> JUndef \<and> \<not> is_array ts then Inl ApiInvalidRequest
        else if ts \<noteq> JUndef \<and> \<not> is_ok (validateAgentToolDefinitions ts) then Inl ApiInvalidRequest
        else if field input ''routeId'' \<noteq> JUndef \<and> \<not> is_string (field input ''routeId'') then Inl ApiInvalidRequest
        else if field input ''model'' \<noteq> JUndef \<and> \<not> is_string (field input ''model'') then Inl ApiInvalidRequest
        else if n \<noteq> JUndef \<and> \<not> positive_integer n then Inl ApiInvalidRequest
        else
          Inr \<lparr>tq_messages = as_arr msgs, tq_tools = (if ts = JUndef then None else Some (as_arr ts)),
               tq_route = optional_string (field input ''routeId''), tq_model = optional_string (field input ''model''),
               tq_max_tokens = (if n = JUndef then None else Some (as_num n))\<rparr>))"

end
