(* ===== verification/Desktop_View.thy ===== *)
theory Desktop_View
  imports Local_Api Json_Roundtrip
begin

text \<open>
  \<open>apps/desktop/src/types.ts\<close>, \<open>errors.ts\<close>, \<open>view-model.ts\<close> and \<open>render.ts\<close>: the state of the desktop client, the view of an event and the page as HTML
  text.  How a browser reads that text is not modelled; what is shown of it is said of the text itself: escaped text has none of the
  characters that make tags and quotes, and no two texts are escaped alike.
\<close>

section \<open>State\<close>

datatype desktop_connection = DesktopIdle | DesktopLoading | DesktopReady | DesktopFailed

fun connection_name :: "desktop_connection \<Rightarrow> string" where
  "connection_name DesktopIdle = ''idle''"
| "connection_name DesktopLoading = ''loading''"
| "connection_name DesktopReady = ''ready''"
| "connection_name DesktopFailed = ''failed''"

record desktop_session =
  ds_id :: string
  ds_status :: session_status
  ds_created :: jsnum
  ds_updated :: jsnum
  ds_active_turn :: "string option"

record desktop_state =
  dk_connection :: desktop_connection
  dk_sessions :: "desktop_session list"
  dk_active :: "string option"
  dk_events :: "agent_event list"
  dk_draft :: string
  dk_error :: "string option"
  dk_submitting :: bool

section \<open>Errors\<close>

datatype desktop_error =
    DesktopNotConnected
  | DesktopConnectionFailed
  | DesktopSessionCreateFailed
  | DesktopSessionNotFound
  | DesktopTurnFailed
  | DesktopCancelFailed
  | DesktopConfigLoadFailed
  | DesktopConfigMutationFailed

fun desktop_code :: "desktop_error \<Rightarrow> string" where
  "desktop_code DesktopNotConnected = ''not_connected''"
| "desktop_code DesktopConnectionFailed = ''connection_failed''"
| "desktop_code DesktopSessionCreateFailed = ''session_create_failed''"
| "desktop_code DesktopSessionNotFound = ''session_not_found''"
| "desktop_code DesktopTurnFailed = ''turn_failed''"
| "desktop_code DesktopCancelFailed = ''cancel_failed''"
| "desktop_code DesktopConfigLoadFailed = ''config_load_failed''"
| "desktop_code DesktopConfigMutationFailed = ''config_mutation_failed''"

fun desktop_message :: "desktop_error \<Rightarrow> string" where
  "desktop_message DesktopNotConnected = ''Not connected to Local Agent API.''"
| "desktop_message DesktopConnectionFailed = ''Failed to connect to Local Agent API.''"
| "desktop_message DesktopSessionCreateFailed = ''Failed to create session.''"
| "desktop_message DesktopSessionNotFound = ''Session not found.''"
| "desktop_message DesktopTurnFailed = ''Failed to submit turn.''"
| "desktop_message DesktopCancelFailed = ''Failed to cancel turn.''"
| "desktop_message DesktopConfigLoadFailed = ''Failed to load configuration.''"
| "desktop_message DesktopConfigMutationFailed = ''Failed to save configuration.''"

section \<open>Escaping\<close>

text \<open>\<open>text.replace(/c/g, r)\<close> for one character.\<close>

definition replace_char :: "char \<Rightarrow> string \<Rightarrow> string \<Rightarrow> string" where
  "replace_char c r t = concat (map (\<lambda>x. if x = c then r else [x]) t)"

definition escapeHtml :: "string \<Rightarrow> string" where
  "escapeHtml t =
     replace_char (CHR 0x27) ''&#39;'' (replace_char (CHR 0x22) ''&quot;''
       (replace_char (CHR ''>'') ''&gt;'' (replace_char (CHR ''<'') ''&lt;'' (replace_char (CHR ''&'') ''&amp;'' t))))"

section \<open>The view of an event\<close>

record event_view =
  vm_type :: string
  vm_name :: "string option"
  vm_text :: "string option"
  vm_message :: "string option"
  vm_code :: "string option"
  vm_input :: "jsnum option"
  vm_output :: "jsnum option"
  vm_retryable :: "bool option"

definition bare_view :: "string \<Rightarrow> event_view" where
  "bare_view t =
     \<lparr>vm_type = t, vm_name = None, vm_text = None, vm_message = None, vm_code = None, vm_input = None, vm_output = None,
      vm_retryable = None\<rparr>"

fun createEventViewModel :: "agent_event \<Rightarrow> event_view" where
  "createEventViewModel (AToolCall _ _ name _) = (bare_view ''tool_call'')\<lparr>vm_name := Some (as_str name)\<rparr>"
| "createEventViewModel (ATextDelta _ t) = (bare_view ''text_delta'')\<lparr>vm_text := Some t\<rparr>"
| "createEventViewModel (AUsage _ i out) = (bare_view ''usage'')\<lparr>vm_input := Some i, vm_output := Some out\<rparr>"
| "createEventViewModel (ARouteSelected _ _ _) = bare_view ''route_selected''"
| "createEventViewModel (AError _ code msg retryable) =
     (bare_view ''error'')\<lparr>vm_code := Some code, vm_message := Some msg, vm_retryable := Some retryable\<rparr>"
| "createEventViewModel (ACompleted _) = bare_view ''completed''"

text \<open>\<open>x || d\<close> on an optional text, and a number in a template.\<close>

definition or_text :: "string option \<Rightarrow> string \<Rightarrow> string" where
  "or_text s d = (case s of None \<Rightarrow> d | Some t \<Rightarrow> if t = [] then d else t)"

fun num_text :: "jsnum \<Rightarrow> string" where
  "num_text (Fin q) = number_text q"
| "num_text PInf = ''Infinity''"
| "num_text NInf = ''-Infinity''"
| "num_text NaN = ''NaN''"

abbreviation dq :: string where "dq \<equiv> [CHR 0x22]"

definition tag_class :: "string \<Rightarrow> string \<Rightarrow> string" where
  "tag_class name cls = ''<'' @ name @ '' class='' @ dq @ cls @ dq @ ''>''"

definition renderEventToHtml :: "event_view \<Rightarrow> string" where
  "renderEventToHtml v =
     (if vm_type v = ''tool_call'' then
        tag_class ''div'' ''event tool-call'' @ ''<strong>Tool:</strong> '' @ escapeHtml (or_text (vm_name v) []) @ ''</div>''
      else if vm_type v = ''text_delta'' then
        tag_class ''span'' ''text-delta'' @ escapeHtml (or_text (vm_text v) []) @ ''</span>''
      else if vm_type v = ''usage'' then
        tag_class ''div'' ''event usage'' @ ''Tokens: '' @ num_text (case vm_input v of None \<Rightarrow> Fin 0 | Some n \<Rightarrow> n) @ '' in, ''
          @ num_text (case vm_output v of None \<Rightarrow> Fin 0 | Some n \<Rightarrow> n) @ '' out</div>''
      else if vm_type v = ''route_selected'' then tag_class ''div'' ''event route-selected'' @ ''Route selected</div>''
      else if vm_type v = ''error'' then
        tag_class ''div'' ''event error'' @ ''<strong>Error:</strong> '' @ escapeHtml (or_text (vm_message v) ''Unknown error'') @ ''</div>''
      else if vm_type v = ''completed'' then tag_class ''div'' ''event completed'' @ ''Completed</div>''
      else tag_class ''div'' ''event unknown'' @ ''Unknown event</div>'')"

section \<open>The page\<close>

definition renderConnectionStatus :: "string \<Rightarrow> string" where
  "renderConnectionStatus status =
     tag_class ''div'' (''connection-status connection-'' @ escapeHtml status) @ escapeHtml status @ ''</div>''"

definition renderError :: "string \<Rightarrow> string" where
  "renderError e = tag_class ''div'' ''desktop-error'' @ escapeHtml e @ ''</div>''"

definition session_item :: "string option \<Rightarrow> desktop_session \<Rightarrow> string" where
  "session_item active s =
     ''<div class='' @ dq @ ''session-item'' @ (if Some (ds_id s) = active then '' session-active'' else []) @ dq
       @ '' data-session-id='' @ dq @ escapeHtml (ds_id s) @ dq @ ''>'' @ escapeHtml (ds_id s) @ ''</div>''"

definition renderSessionList :: "desktop_session list \<Rightarrow> string option \<Rightarrow> string" where
  "renderSessionList sessions active =
     (if sessions = [] then tag_class ''div'' ''session-list-empty'' @ ''No sessions yet</div>''
      else tag_class ''div'' ''session-list'' @ concat (map (session_item active) sessions) @ ''</div>'')"

text \<open>\<open>if (x)\<close> on an optional text.\<close>

definition with_text :: "string option \<Rightarrow> (string \<Rightarrow> string) \<Rightarrow> string" where
  "with_text s f = (case s of None \<Rightarrow> [] | Some t \<Rightarrow> if t = [] then [] else f t)"

definition renderEvent :: "event_view \<Rightarrow> string" where
  "renderEvent v =
     (if vm_type v = ''text_delta'' then
        with_text (vm_text v) (\<lambda>t. tag_class ''div'' ''event event-text-delta'' @ escapeHtml t @ ''</div>'')
      else if vm_type v = ''tool_call'' then
        with_text (vm_name v) (\<lambda>t. tag_class ''div'' ''event event-tool-call'' @ ''Tool: '' @ escapeHtml t @ ''</div>'')
      else if vm_type v = ''usage'' then
        (case (vm_input v, vm_output v) of
           (Some i, Some out) \<Rightarrow>
             tag_class ''div'' ''event event-usage'' @ ''Usage: '' @ num_text i @ '' in, '' @ num_text out @ '' out</div>''
         | _ \<Rightarrow> [])
      else if vm_type v = ''completed'' then tag_class ''div'' ''event event-completed'' @ ''Completed</div>''
      else if vm_type v = ''error'' then
        with_text (vm_message v) (\<lambda>t.
          tag_class ''div'' ''event event-error'' @ ''Error: '' @ escapeHtml t
            @ with_text (vm_code v) (\<lambda>c. '' ('' @ escapeHtml c @ '')'') @ ''</div>'')
      else if vm_type v = ''route_selected'' then tag_class ''div'' ''event event-route-selected'' @ ''Route selected</div>''
      else tag_class ''div'' ''event event-unknown'' @ ''Unknown event: '' @ escapeHtml (vm_type v) @ ''</div>'')"

definition renderTranscript :: "agent_event list \<Rightarrow> string" where
  "renderTranscript evs =
     (if evs = [] then tag_class ''div'' ''transcript-empty'' @ ''No events yet</div>''
      else tag_class ''div'' ''transcript-events'' @ concat (map (\<lambda>e. renderEvent (createEventViewModel e)) evs) @ ''</div>'')"

text \<open>The literal parts of a template, line by line.\<close>

definition on_lines :: "string list \<Rightarrow> string" where
  "on_lines ls = concat (map (\<lambda>l. CHR 0x0A # l) ls)"

definition draft_head :: string where
  "draft_head = on_lines [''    '' @ tag_class ''div'' ''draft-container'', ''      '' @ tag_class ''div'' ''draft-input'']"

definition draft_foot :: string where
  "draft_foot = ''</div>'' @ on_lines
     [''      '' @ tag_class ''div'' ''draft-controls'', ''        '' @ tag_class ''button'' ''draft-send'' @ ''Send</button>'',
      ''        '' @ tag_class ''button'' ''draft-cancel'' @ ''Cancel</button>'', ''      </div>'', ''    </div>'', ''  '']"

definition renderDraftInput :: "string \<Rightarrow> string" where
  "renderDraftInput draft = draft_head @ escapeHtml draft @ draft_foot"

definition page_head :: string where
  "page_head = ''<!DOCTYPE html>'' @ on_lines
     [''<html lang='' @ dq @ ''en'' @ dq @ ''>'', ''<head>'', ''  <meta charset='' @ dq @ ''UTF-8'' @ dq @ ''>'',
      ''  <meta name='' @ dq @ ''viewport'' @ dq @ '' content='' @ dq @ ''width=device-width, initial-scale=1.0'' @ dq @ ''>'',
      ''  <title>Agent Workbench Desktop</title>'',
      ''  <link rel='' @ dq @ ''stylesheet'' @ dq @ '' href='' @ dq @ ''./styles.css'' @ dq @ ''>'', ''</head>'', ''<body>'',
      ''  <div id='' @ dq @ ''app'' @ dq @ ''>'', ''    '' @ tag_class ''header'' ''desktop-header'', ''      <h1>Agent Workbench Desktop</h1>'', ''      '']"

definition after_status :: string where "after_status = on_lines [''    </header>'', ''    '']"

definition before_sessions :: string where
  "before_sessions = on_lines
     [''    '' @ tag_class ''div'' ''desktop-main'', ''      '' @ tag_class ''aside'' ''desktop-sidebar'', ''        <h2>Sessions</h2>'', ''        '']"

definition before_transcript :: string where
  "before_transcript = on_lines
     [''      </aside>'', ''      '' @ tag_class ''main'' ''desktop-content'', ''        '' @ tag_class ''div'' ''desktop-transcript'', ''          '']"

definition before_draft :: string where
  "before_draft = on_lines [''        </div>'', ''        '' @ tag_class ''div'' ''desktop-composer'', ''          '']"

definition page_foot :: string where
  "page_foot = on_lines [''        </div>'', ''      </main>'', ''    </div>'', ''  </div>'', ''</body>'', ''</html>'']"

definition page_body :: "desktop_state \<Rightarrow> string" where
  "page_body st =
     page_head @ renderConnectionStatus (connection_name (dk_connection st)) @ after_status @ with_text (dk_error st) renderError
       @ before_sessions @ renderSessionList (dk_sessions st) (dk_active st) @ before_transcript @ renderTranscript (dk_events st)
       @ before_draft @ renderDraftInput (dk_draft st) @ page_foot"

definition renderDesktopPage :: "desktop_state \<Rightarrow> string" where
  "renderDesktopPage st = js_trim (CHR 0x0A # page_body st @ CHR 0x0A # ''  '')"


section \<open>Escaped text\<close>

text \<open>The characters that make tags and quoted attributes, and those of a text, in their order.\<close>

definition markup :: "char \<Rightarrow> bool" where
  "markup c \<longleftrightarrow> c \<in> {CHR ''<'', CHR ''>'', CHR 0x22, CHR 0x27}"

definition marks :: "string \<Rightarrow> string" where "marks s = filter markup s"

lemma marks_eqs [simp]:
  "marks [] = []" "marks (c # s) = (if markup c then c # marks s else marks s)" "marks (s @ t) = marks s @ marks t"
  "marks (concat ss) = concat (map marks ss)"
  by (simp_all add: marks_def [abs_def] filter_concat)

lemma no_marks: "marks s = [] \<longleftrightarrow> list_all (\<lambda>c. \<not> markup c) s"
  by (simp add: marks_def filter_empty_conv list_all_iff)

definition html_char :: "char \<Rightarrow> string" where
  "html_char c =
     (if c = CHR ''&'' then ''&amp;'' else if c = CHR ''<'' then ''&lt;'' else if c = CHR ''>'' then ''&gt;''
      else if c = CHR 0x22 then ''&quot;'' else if c = CHR 0x27 then ''&#39;'' else [c])"

lemma replace_char_append: "replace_char c r (s @ t) = replace_char c r s @ replace_char c r t"
  by (simp add: replace_char_def)

text \<open>The five passes over the text are one pass.\<close>

lemma escapeHtml_map: "escapeHtml t = concat (map html_char t)"
proof (induction t)
  case Nil
  show ?case by (simp add: escapeHtml_def replace_char_def)
next
  case (Cons c t)
  have "escapeHtml (c # t) = escapeHtml [c] @ escapeHtml t"
    by (simp add: escapeHtml_def flip: replace_char_append)
  moreover have "escapeHtml [c] = html_char c"
    by (simp add: escapeHtml_def replace_char_def html_char_def)
  ultimately show ?case using Cons by simp
qed

text \<open>
  An inverse of escaping: the references it writes, one after the other.  It serves to show that no text is lost; nothing of the program
  is modelled by it.
\<close>

definition named_char :: "string \<Rightarrow> string" where
  "named_char r =
     (if r = ''amp'' then ''&'' else if r = ''lt'' then ''<'' else if r = ''gt'' then ''>'' else if r = ''quot'' then [CHR 0x22]
      else if r = ''#39'' then [CHR 0x27] else if r = ''nbsp'' then [CHR 0xC2, CHR 0xA0] else [])"

fun unescape :: "string option \<Rightarrow> string \<Rightarrow> string" where
  "unescape h [] = []"
| "unescape None (c # cs) = (if c = CHR ''&'' then unescape (Some []) cs else c # unescape None cs)"
| "unescape (Some r) (c # cs) = (if c = CHR '';'' then named_char r @ unescape None cs else unescape (Some (r @ [c])) cs)"

lemma unescape_char: "unescape None (html_char c @ s) = c # unescape None s"
  by (simp add: html_char_def named_char_def)

lemma unescape_escaped: "unescape None (escapeHtml t) = t"
  unfolding escapeHtml_map by (induction t) (simp_all add: unescape_char)

lemma escaped_marks: "marks (escapeHtml t) = []"
proof -
  have "marks (html_char c) = []" for c by (simp add: html_char_def markup_def)
  then show ?thesis by (simp add: escapeHtml_map o_def)
qed

text \<open>Escaping adds no tag and no quote, and loses nothing.\<close>

theorem escaping_is_safe: "marks (escapeHtml t) = [] \<and> (escapeHtml s = escapeHtml t \<longleftrightarrow> s = t)"
  using escaped_marks unescape_escaped by metis

definition plain_char :: "char \<Rightarrow> bool" where "plain_char c \<longleftrightarrow> \<not> markup c"

lemma number_marks: "marks (num_text n) = []"
proof -
  note plain_defs = plain_char_def markup_def
  have small: "is_digit c \<Longrightarrow> plain_char c" for c by (auto simp: is_digit_def plain_defs)
  have nat_: "list_all plain_char (nat_text k)" for k
  proof (cases "0 \<le> k")
    case True
    then show ?thesis using nat_text_value [of k] small by (auto simp: list_all_iff)
  next
    case False
    moreover have "char_of (48 :: nat) = CHR ''0''" by code_simp
    ultimately have "nat_text k = ''0''" by (simp add: nat_text.simps [of k])
    then show ?thesis by (simp add: plain_defs)
  qed
  have part: "list_all plain_char ds \<Longrightarrow> list_all plain_char (take m ds) \<and> list_all plain_char (drop m ds)" for ds :: string and m
    by (auto simp: list_all_iff dest: in_set_takeD in_set_dropD)
  have zeros: "list_all plain_char (replicate m (CHR ''0''))" for m
    by (simp add: list_all_iff plain_defs)
  have lay: "list_all plain_char ds \<Longrightarrow> list_all plain_char (layout_number ds k)" for ds k
    using part [of ds] by (simp add: layout_number_def Let_def zeros nat_ plain_defs del: replicate.simps)
  have "list_all plain_char (fst (shortest_digits q))" for q
    by (auto simp: shortest_digits_def Let_def nat_ split: option.split)
  then have "list_all plain_char (case shortest_digits q of (ds, n) \<Rightarrow> layout_number ds n)" for q
    by (metis (no_types, lifting) lay case_prod_beta)
  then have "list_all plain_char (number_text q)" for q
    by (simp add: number_text_def Let_def nat_ plain_defs)
  then have "list_all plain_char (num_text n)" by (cases n) (simp_all add: plain_defs)
  then show ?thesis by (simp add: no_marks list_all_iff plain_char_def)
qed


section \<open>What a page shows\<close>

text \<open>The white space around the template is all that \<open>trim\<close> takes away.\<close>

lemma trim_template: "js_trim (CHR 0x0A # CHR ''<'' # s @ [CHR ''>'', CHR 0x0A, CHR '' '', CHR '' '']) = CHR ''<'' # s @ ''>''"
  by (simp add: js_trim_def trim_start_with.simps ws_seqs_def)

lemma page_is_body: "renderDesktopPage st = page_body st"
proof -
  obtain s where s: "page_body st = CHR ''<'' # s @ ''>''"
    by (simp add: page_body_def page_head_def page_foot_def on_lines_def)
  then show ?thesis using trim_template [of s] by (simp add: renderDesktopPage_def)
qed

fun public_event :: "agent_event \<Rightarrow> agent_event" where
  "public_event (AToolCall r i name v) = AToolCall [] JNull name JNull"
| "public_event (ARouteSelected r route mdl) = ARouteSelected [] [] []"
| "public_event (ATextDelta r t) = ATextDelta [] t"
| "public_event (AUsage r i out) = AUsage [] i out"
| "public_event (ACompleted r) = ACompleted []"
| "public_event (AError r code msg b) = AError [] code msg False"

definition public_session :: "desktop_session \<Rightarrow> desktop_session" where
  "public_session s = \<lparr>ds_id = ds_id s, ds_status = SessionIdle, ds_created = NaN, ds_updated = NaN, ds_active_turn = None\<rparr>"

definition public_state :: "desktop_state \<Rightarrow> desktop_state" where
  "public_state st =
     st\<lparr>dk_events := map public_event (dk_events st),
        dk_sessions := map public_session (dk_sessions st)\<rparr>"

lemma public_item: "session_item a (public_session s) = session_item a s"
  by (simp add: session_item_def public_session_def)

lemma public_render: "renderEvent (createEventViewModel (public_event e)) = renderEvent (createEventViewModel e)"
  by (cases e) (simp_all add: renderEvent_def bare_view_def)

lemma page_of_public: "page_body (public_state st) = page_body st"
proof -
  have "concat (map (session_item a) (dk_sessions (public_state st))) = concat (map (session_item a) (dk_sessions st))" for a
    by (simp add: public_state_def public_item o_def)
  moreover have "concat (map (\<lambda>e. renderEvent (createEventViewModel e)) (dk_events (public_state st)))
      = concat (map (\<lambda>e. renderEvent (createEventViewModel e)) (dk_events st))"
    by (simp add: public_state_def public_render o_def)
  ultimately show ?thesis
    by (simp add: page_body_def renderTranscript_def renderSessionList_def) (simp add: public_state_def)
qed

text \<open>
  The page shows the public part of the state and nothing else: it does not depend on the inputs of tool calls, on route and model names, on
  identifiers of requests and on the times of sessions.  And whatever the draft is, the tags and quotes of the page are those of the page
  without it.
\<close>

theorem page_shows_the_public_state:
  "renderDesktopPage (public_state st) = renderDesktopPage st
   \<and> marks (renderDesktopPage (st\<lparr>dk_draft := t\<rparr>)) = marks (renderDesktopPage (st\<lparr>dk_draft := []\<rparr>))"
  by (simp add: page_is_body page_of_public)
    (simp add: page_body_def renderDraftInput_def escaped_marks)

end
