(* ===== verification/Desktop_Controller.thy ===== *)
theory Desktop_Controller
  imports Desktop_View "HOL-Library.Sublist"
begin

text \<open>
  \<open>apps/desktop/src/controller.ts\<close>: the controller of the desktop as a machine.  An input is a call of a method or an answer of the API client
  (the connection, a new session, an event or the end of a turn); between two inputs the code runs until it waits.  A turn is the call of
  \<open>submitTurn\<close> it belongs to; its abort controller is its number.
\<close>

section \<open>State\<close>

record running_turn =
  rn_session :: string
  rn_draft :: string
  rn_aborted :: bool

record controller =
  ct_state :: desktop_state
  ct_loading :: bool
  ct_creating :: nat
  ct_turns :: "(nat \<times> running_turn) list"
  ct_next :: nat
  ct_abort :: "(string \<times> nat) list"
  ct_subscribers :: "nat list"
  ct_disposed :: bool
  ct_cancelled :: "(string \<times> string) list"
  ct_notified :: "(nat \<times> desktop_state) list"

definition initial_state :: desktop_state where
  "initial_state =
     \<lparr>dk_connection = DesktopIdle, dk_sessions = [], dk_active = None, dk_events = [], dk_draft = [], dk_error = None, dk_submitting = False\<rparr>"

definition new_controller :: controller where
  "new_controller =
     \<lparr>ct_state = initial_state, ct_loading = False, ct_creating = 0, ct_turns = [], ct_next = 0, ct_abort = [], ct_subscribers = [],
      ct_disposed = False, ct_cancelled = [], ct_notified = []\<rparr>"

text \<open>\<open>setState\<close>: every subscriber is told the new state; what a subscriber throws is swallowed.\<close>

definition set_state :: "(desktop_state \<Rightarrow> desktop_state) \<Rightarrow> controller \<Rightarrow> controller" where
  "set_state f c =
     (if ct_disposed c then c
      else c\<lparr>ct_state := f (ct_state c), ct_notified := ct_notified c @ map (\<lambda>i. (i, f (ct_state c))) (ct_subscribers c)\<rparr>)"

section \<open>Inputs\<close>

datatype controller_input =
    Subscribe nat
  | Unsubscribe nat
  | Connect
  | Loaded bool
  | NewSession
  | SessionAnswer "desktop_session option"
  | SubmitTurn string
  | TurnEvent nat agent_event
  | TurnEnded nat
  | TurnThrown nat bool
  | CancelTurn string
  | SetActive string
  | UpdateDraft string
  | ClearError
  | Dispose

datatype controller_answer = Accepted | Refused desktop_error

definition find_session :: "string \<Rightarrow> controller \<Rightarrow> desktop_session option" where
  "find_session i c = find (\<lambda>s. ds_id s = i) (dk_sessions (ct_state c))"

definition connection_failed_text :: string where "connection_failed_text = ''Failed to connect to Desktop API.''"
definition session_failed_text :: string where "session_failed_text = ''Failed to create session.''"
definition turn_failed_text :: string where "turn_failed_text = ''Failed to submit turn.''"
definition model_failed_text :: string where "model_failed_text = ''Model request failed. Check your route and credentials.''"
definition aborted_text :: string where "aborted_text = ''Request aborted.''"

section \<open>Turns\<close>

definition submit_turn :: "string \<Rightarrow> controller \<Rightarrow> controller_answer \<times> controller" where
  "submit_turn i c =
     (if ct_disposed c then (Refused DesktopTurnFailed, c)
      else if find_session i c = None then (Refused DesktopSessionNotFound, c)
      else
        (Accepted,
         set_state (\<lambda>s. s\<lparr>dk_submitting := True, dk_draft := [], dk_error := None, dk_events := []\<rparr>)
           (c\<lparr>ct_abort := (i, ct_next c) # filter (\<lambda>(k, _). k \<noteq> i) (ct_abort c),
              ct_turns := ct_turns c @ [(ct_next c, \<lparr>rn_session = i, rn_draft = dk_draft (ct_state c), rn_aborted = False\<rparr>)],
              ct_next := ct_next c + 1\<rparr>)))"

text \<open>The \<open>finally\<close> block, and the two ways into it.\<close>

definition close_turn :: "nat \<Rightarrow> running_turn \<Rightarrow> controller \<Rightarrow> controller" where
  "close_turn n t c =
     (let c1 = c\<lparr>ct_abort := filter (\<lambda>(k, _). k \<noteq> rn_session t) (ct_abort c), ct_turns := filter (\<lambda>(k, _). k \<noteq> n) (ct_turns c)\<rparr> in
      if rn_aborted t then c1 else set_state (\<lambda>s. s\<lparr>dk_submitting := False\<rparr>) c1)"

definition abort_turn :: "nat \<Rightarrow> running_turn \<Rightarrow> controller \<Rightarrow> controller" where
  "abort_turn n t c = close_turn n t (set_state (\<lambda>s. s\<lparr>dk_draft := rn_draft t, dk_submitting := False\<rparr>) c)"

text \<open>
  What an event does to the state.  An event that ends the turn, or one that finds it aborted, leaves the loop by \<open>break\<close>; the source
  then waits for the iterator's \<open>return()\<close> before it closes the turn.  Here the two are one step, so an input that arrives during that wait
  is told apart neither from one before the event nor from one after the turn.
\<close>

definition show_event :: "running_turn \<Rightarrow> agent_event \<Rightarrow> desktop_state \<Rightarrow> desktop_state" where
  "show_event t e s =
     (let s1 = s\<lparr>dk_events := dk_events s @ [e]\<rparr> in
      case e of
        AError _ code _ _ \<Rightarrow> s1\<lparr>dk_error := Some (if code = ''aborted'' then aborted_text else model_failed_text), dk_draft := rn_draft t\<rparr>
      | _ \<Rightarrow> s1)"

definition turn_event :: "nat \<Rightarrow> running_turn \<Rightarrow> agent_event \<Rightarrow> controller \<Rightarrow> controller" where
  "turn_event n t e c =
     (if rn_aborted t then abort_turn n t c
      else
        (let c1 = set_state (show_event t e) c in
         if (case e of AError _ _ _ _ \<Rightarrow> True | ACompleted _ \<Rightarrow> True | _ \<Rightarrow> False) then close_turn n t c1 else c1))"

definition turn_ended :: "nat \<Rightarrow> running_turn \<Rightarrow> controller \<Rightarrow> controller" where
  "turn_ended n t c = (if rn_aborted t then abort_turn n t c else close_turn n t c)"

text \<open>The flag says whether the error that was thrown is the one with the message \<open>Request aborted.\<close>\<close>

definition turn_thrown :: "nat \<Rightarrow> running_turn \<Rightarrow> bool \<Rightarrow> controller \<Rightarrow> controller" where
  "turn_thrown n t says_aborted c =
     (if rn_aborted t \<or> says_aborted then abort_turn n t c
      else close_turn n t (set_state (\<lambda>s. s\<lparr>dk_error := Some turn_failed_text\<rparr>) c))"

definition mark_aborted :: "nat \<Rightarrow> controller \<Rightarrow> controller" where
  "mark_aborted n c = c\<lparr>ct_turns := map (\<lambda>(k, t). (k, if k = n then t\<lparr>rn_aborted := True\<rparr> else t)) (ct_turns c)\<rparr>"

definition cancel_turn :: "string \<Rightarrow> controller \<Rightarrow> controller" where
  "cancel_turn i c =
     (let found = map_of (ct_abort c) i;
          c1 = (case found of None \<Rightarrow> c | Some n \<Rightarrow> mark_aborted n c) in
      case find_session i c of
        None \<Rightarrow> c1
      | Some s \<Rightarrow>
          if (case ds_active_turn s of None \<Rightarrow> False | Some t \<Rightarrow> t \<noteq> []) \<or> found \<noteq> None
          then c1\<lparr>ct_cancelled := ct_cancelled c1 @ [(i, case ds_active_turn s of None \<Rightarrow> ''current'' | Some t \<Rightarrow> t)]\<rparr>
          else c1)"

section \<open>The other methods\<close>

definition connect :: "controller \<Rightarrow> controller" where
  "connect c =
     (if ct_disposed c \<or> ct_loading c then c
      else (set_state (\<lambda>s. s\<lparr>dk_connection := DesktopLoading\<rparr>) c)\<lparr>ct_loading := True\<rparr>)"

definition loaded :: "bool \<Rightarrow> controller \<Rightarrow> controller" where
  "loaded ok c =
     (if \<not> ct_loading c then c
      else
        (set_state (\<lambda>s. if ok then s\<lparr>dk_connection := DesktopReady, dk_error := None\<rparr>
                        else s\<lparr>dk_connection := DesktopFailed, dk_error := Some connection_failed_text\<rparr>) c)
          \<lparr>ct_loading := False\<rparr>)"

definition new_session_call :: "controller \<Rightarrow> controller_answer \<times> controller" where
  "new_session_call c =
     (if ct_disposed c \<or> dk_connection (ct_state c) \<noteq> DesktopReady then (Refused DesktopNotConnected, c)
      else (Accepted, c\<lparr>ct_creating := ct_creating c + 1\<rparr>))"

definition session_answer :: "desktop_session option \<Rightarrow> controller \<Rightarrow> controller" where
  "session_answer answer c =
     (if ct_creating c = 0 then c
      else
        (set_state (\<lambda>s. case answer of
             Some x \<Rightarrow> s\<lparr>dk_sessions := dk_sessions s @ [x], dk_active := Some (ds_id x), dk_events := [], dk_draft := [], dk_error := None\<rparr>
           | None \<Rightarrow> s\<lparr>dk_error := Some session_failed_text\<rparr>) c)
          \<lparr>ct_creating := ct_creating c - 1\<rparr>)"

definition set_active :: "string \<Rightarrow> controller \<Rightarrow> controller_answer \<times> controller" where
  "set_active i c =
     (if ct_disposed c then (Accepted, c)
      else if find_session i c = None then (Refused DesktopSessionNotFound, c)
      else if dk_submitting (ct_state c) \<or> dk_active (ct_state c) = Some i then (Accepted, c)
      else (Accepted, set_state (\<lambda>s. s\<lparr>dk_active := Some i, dk_events := [], dk_draft := [], dk_error := None\<rparr>) c))"

definition dispose :: "controller \<Rightarrow> controller" where
  "dispose c =
     (if ct_disposed c then c
      else (foldr mark_aborted (map snd (ct_abort c)) c)\<lparr>ct_disposed := True, ct_abort := [], ct_subscribers := []\<rparr>)"

definition with_turn :: "nat \<Rightarrow> (running_turn \<Rightarrow> controller \<Rightarrow> controller) \<Rightarrow> controller \<Rightarrow> controller" where
  "with_turn n f c = (case map_of (ct_turns c) n of None \<Rightarrow> c | Some t \<Rightarrow> f t c)"

fun controller_step :: "controller \<Rightarrow> controller_input \<Rightarrow> controller_answer \<times> controller" where
  "controller_step c (Subscribe i) = (Accepted, if ct_disposed c \<or> i \<in> set (ct_subscribers c) then c else c\<lparr>ct_subscribers := ct_subscribers c @ [i]\<rparr>)"
| "controller_step c (Unsubscribe i) = (Accepted, c\<lparr>ct_subscribers := remove1 i (ct_subscribers c)\<rparr>)"
| "controller_step c Connect = (Accepted, connect c)"
| "controller_step c (Loaded ok) = (Accepted, loaded ok c)"
| "controller_step c NewSession = new_session_call c"
| "controller_step c (SessionAnswer a) = (Accepted, session_answer a c)"
| "controller_step c (SubmitTurn i) = submit_turn i c"
| "controller_step c (TurnEvent n e) = (Accepted, with_turn n (\<lambda>t. turn_event n t e) c)"
| "controller_step c (TurnEnded n) = (Accepted, with_turn n (turn_ended n) c)"
| "controller_step c (TurnThrown n says) = (Accepted, with_turn n (\<lambda>t. turn_thrown n t says) c)"
| "controller_step c (CancelTurn i) = (Accepted, cancel_turn i c)"
| "controller_step c (SetActive i) = set_active i c"
| "controller_step c (UpdateDraft d) = (Accepted, set_state (\<lambda>s. s\<lparr>dk_draft := d\<rparr>) c)"
| "controller_step c ClearError = (Accepted, set_state (\<lambda>s. s\<lparr>dk_error := None\<rparr>) c)"
| "controller_step c Dispose = (Accepted, dispose c)"

definition controller_run :: "controller_input list \<Rightarrow> controller" where
  "controller_run ins = foldl (\<lambda>c i. snd (controller_step c i)) new_controller ins"


section \<open>All runs\<close>

text \<open>What holds whatever is called in whatever order.\<close>

definition abort_entries_ok :: "controller \<Rightarrow> bool" where
  "abort_entries_ok c \<longleftrightarrow>
     list_all (\<lambda>(i, n). case map_of (ct_turns c) n of None \<Rightarrow> False | Some t \<Rightarrow> rn_session t = i) (ct_abort c)"

definition active_listed :: "desktop_state \<Rightarrow> bool" where
  "active_listed s \<longleftrightarrow> (case dk_active s of None \<Rightarrow> True | Some i \<Rightarrow> i \<in> ds_id ` set (dk_sessions s))"

definition controller_ok :: "controller \<Rightarrow> bool" where
  "controller_ok c \<longleftrightarrow>
     active_listed (ct_state c)
     \<and> abort_entries_ok c
     \<and> distinct (map fst (ct_turns c)) \<and> list_all (\<lambda>(n, _). n < ct_next c) (ct_turns c)
     \<and> (ct_disposed c \<longrightarrow> ct_subscribers c = [] \<and> ct_abort c = [])"

lemma set_state_simps [simp]:
  "ct_turns (set_state f c) = ct_turns c" "ct_next (set_state f c) = ct_next c" "ct_abort (set_state f c) = ct_abort c"
  "ct_subscribers (set_state f c) = ct_subscribers c" "ct_disposed (set_state f c) = ct_disposed c"
  "ct_loading (set_state f c) = ct_loading c" "ct_creating (set_state f c) = ct_creating c" "ct_cancelled (set_state f c) = ct_cancelled c"
  "ct_state (set_state f c) = (if ct_disposed c then ct_state c else f (ct_state c))"
  by (simp_all add: set_state_def)

lemma mark_simps [simp]:
  "ct_state (mark_aborted n c) = ct_state c" "ct_next (mark_aborted n c) = ct_next c" "ct_abort (mark_aborted n c) = ct_abort c"
  "ct_subscribers (mark_aborted n c) = ct_subscribers c" "ct_disposed (mark_aborted n c) = ct_disposed c"
  "map fst (ct_turns (mark_aborted n c)) = map fst (ct_turns c)" "ct_notified (mark_aborted n c) = ct_notified c"
  "ct_creating (mark_aborted n c) = ct_creating c" "ct_cancelled (mark_aborted n c) = ct_cancelled c"
  by (simp_all add: mark_aborted_def o_def case_prod_beta)

lemma mark_turn: "map_of (ct_turns (mark_aborted n c)) k = map_option (\<lambda>t. if k = n then t\<lparr>rn_aborted := True\<rparr> else t) (map_of (ct_turns c) k)"
proof -
  have "map_of (map (\<lambda>(k, t). (k, if k = n then t\<lparr>rn_aborted := True\<rparr> else t)) ts) k
      = map_option (\<lambda>t. if k = n then t\<lparr>rn_aborted := True\<rparr> else t) (map_of ts k)" for ts :: "(nat \<times> running_turn) list"
    by (induction ts) auto
  then show ?thesis by (simp add: mark_aborted_def)
qed

lemma mark_ok: "controller_ok c \<Longrightarrow> controller_ok (mark_aborted n c)"
proof -
  assume c: "controller_ok c"
  have "abort_entries_ok (mark_aborted n c)"
    using c by (auto simp: controller_ok_def abort_entries_ok_def mark_turn list_all_iff split: option.splits)
  moreover have "list_all (\<lambda>(k, _). k < ct_next c) (ct_turns (mark_aborted n c))"
    using c by (auto simp: controller_ok_def mark_aborted_def list_all_iff)
  ultimately show ?thesis using c by (simp add: controller_ok_def)
qed

lemma marks_ok: "controller_ok c \<Longrightarrow> controller_ok (foldr mark_aborted ns c)"
  by (induction ns) (auto intro: mark_ok)

lemma marks_simps [simp]:
  "ct_state (foldr mark_aborted ns c) = ct_state c" "ct_notified (foldr mark_aborted ns c) = ct_notified c"
  "ct_disposed (foldr mark_aborted ns c) = ct_disposed c"
  by (induction ns) simp_all

definition keeps_active :: "(desktop_state \<Rightarrow> desktop_state) \<Rightarrow> bool" where
  "keeps_active f \<longleftrightarrow> (\<forall>s. dk_active (f s) = dk_active s \<and> dk_sessions (f s) = dk_sessions s)"

lemma keeps_listed: "keeps_active f \<Longrightarrow> active_listed (f s) = active_listed s"
  by (simp add: keeps_active_def active_listed_def split: option.split)

lemma set_state_ok: "controller_ok c \<Longrightarrow> keeps_active f \<Longrightarrow> controller_ok (set_state f c)"
  by (simp add: controller_ok_def abort_entries_ok_def keeps_listed)

lemma close_ok:
  assumes "controller_ok c" and "map_of (ct_turns c) n = Some t"
  shows "controller_ok (close_turn n t c)"
proof -
  let ?c1 = "c\<lparr>ct_abort := filter (\<lambda>(k, _). k \<noteq> rn_session t) (ct_abort c), ct_turns := filter (\<lambda>(k, _). k \<noteq> n) (ct_turns c)\<rparr>"
  have same: "k \<noteq> n \<Longrightarrow> map_of (filter (\<lambda>(k, _). k \<noteq> n) ts) k = map_of ts k" for k and ts :: "(nat \<times> running_turn) list"
    by (induction ts) auto
  have "(i, k) \<in> set (ct_abort c) \<Longrightarrow> i \<noteq> rn_session t \<Longrightarrow> k \<noteq> n" for i k
    using assms by (auto simp: controller_ok_def abort_entries_ok_def list_all_iff)
  then have "abort_entries_ok ?c1"
    using assms(1) by (auto simp: controller_ok_def abort_entries_ok_def list_all_iff same)
  moreover have "distinct (map fst (filter (\<lambda>(k, _). k \<noteq> n) (ct_turns c)))"
    using assms(1) by (simp add: controller_ok_def distinct_map_filter)
  ultimately have "controller_ok ?c1" using assms(1) by (auto simp: controller_ok_def list_all_iff)
  then show ?thesis by (simp add: close_turn_def Let_def set_state_ok keeps_active_def)
qed

lemma show_keeps: "keeps_active (show_event t e)"
  by (cases e) (simp_all add: keeps_active_def show_event_def)

lemma turn_steps_ok:
  assumes "controller_ok c" and "map_of (ct_turns c) n = Some t"
  shows "controller_ok (abort_turn n t c)" and "controller_ok (turn_event n t e c)" and "controller_ok (turn_ended n t c)"
    and "controller_ok (turn_thrown n t b c)"
proof -
  have s: "keeps_active f \<Longrightarrow> controller_ok (close_turn n t (set_state f c))" for f
    using assms by (intro close_ok set_state_ok) simp_all
  then show a: "controller_ok (abort_turn n t c)" by (simp add: abort_turn_def keeps_active_def)
  show "controller_ok (turn_event n t e c)"
    using a s [OF show_keeps] set_state_ok [OF assms(1) show_keeps] by (simp add: turn_event_def Let_def)
  show "controller_ok (turn_ended n t c)" using a close_ok [OF assms] by (simp add: turn_ended_def)
  show "controller_ok (turn_thrown n t b c)" using a s by (simp add: turn_thrown_def keeps_active_def)
qed

lemma found_session: "find_session i c = Some s \<Longrightarrow> s \<in> set (dk_sessions (ct_state c)) \<and> ds_id s = i"
  by (auto simp: find_session_def find_Some_iff)

lemma submit_ok: "controller_ok c \<Longrightarrow> controller_ok (snd (submit_turn i c))"
proof (cases "ct_disposed c \<or> find_session i c = None")
  case False
  assume c: "controller_ok c"
  let ?c1 = "c\<lparr>ct_abort := (i, ct_next c) # filter (\<lambda>(k, _). k \<noteq> i) (ct_abort c),
      ct_turns := ct_turns c @ [(ct_next c, \<lparr>rn_session = i, rn_draft = dk_draft (ct_state c), rn_aborted = False\<rparr>)], ct_next := ct_next c + 1\<rparr>"
  have fresh: "map_of (ct_turns c) (ct_next c) = None"
    using c by (auto simp: controller_ok_def list_all_iff map_of_eq_None_iff)
  have "abort_entries_ok ?c1"
    using c fresh by (auto simp: controller_ok_def abort_entries_ok_def list_all_iff map_add_def split: option.splits)
  then have "controller_ok ?c1"
    using c False fresh by (auto simp: controller_ok_def list_all_iff map_of_eq_None_iff)
  then have "controller_ok (set_state f ?c1)" if "keeps_active f" for f using that by (rule set_state_ok)
  with False show ?thesis by (auto simp: submit_turn_def keeps_active_def)
qed (auto simp: submit_turn_def)


lemma listed_simps [simp]:
  "active_listed (s\<lparr>dk_error := e\<rparr>) = active_listed s"
  "active_listed (s\<lparr>dk_sessions := dk_sessions s @ [x], dk_active := Some (ds_id x), dk_events := evs, dk_draft := d\<rparr>)"
  by (simp_all add: active_listed_def split: option.split)

lemma step_ok: "controller_ok c \<Longrightarrow> controller_ok (snd (controller_step c i))"
proof -
  assume c: "controller_ok c"
  have set_: "keeps_active f \<Longrightarrow> controller_ok (set_state f c)" for f using c by (rule set_state_ok)
  have turn: "controller_ok (with_turn n f c)" if "\<And>t. map_of (ct_turns c) n = Some t \<Longrightarrow> controller_ok (f t c)" for n f
    using that c by (simp add: with_turn_def split: option.split)
  show ?thesis
  proof (cases i)
    case (Subscribe k)
    with c show ?thesis by (simp add: controller_ok_def abort_entries_ok_def)
  next
    case (Unsubscribe k)
    with c show ?thesis by (auto simp: controller_ok_def abort_entries_ok_def)
  next
    case Connect
    have "controller_ok (set_state (\<lambda>s. s\<lparr>dk_connection := DesktopLoading\<rparr>) c)" by (rule set_) (simp add: keeps_active_def)
    with c Connect show ?thesis by (auto simp: connect_def controller_ok_def abort_entries_ok_def)
  next
    case (Loaded ok)
    have "keeps_active (\<lambda>s. if ok then s\<lparr>dk_connection := DesktopReady, dk_error := None\<rparr>
        else s\<lparr>dk_connection := DesktopFailed, dk_error := Some connection_failed_text\<rparr>)" by (simp add: keeps_active_def)
    from set_ [OF this] c Loaded show ?thesis by (simp add: loaded_def controller_ok_def abort_entries_ok_def)
  next
    case NewSession
    with c show ?thesis by (simp add: new_session_call_def controller_ok_def abort_entries_ok_def)
  next
    case (SessionAnswer a)
    with c show ?thesis
      by (cases a) (auto simp: session_answer_def controller_ok_def abort_entries_ok_def)
  next
    case (SubmitTurn k)
    with c show ?thesis by (simp add: submit_ok)
  next
    case (TurnEvent n e)
    then show ?thesis using turn_steps_ok(2) [OF c] by (simp add: turn)
  next
    case (TurnEnded n)
    then show ?thesis using turn_steps_ok(3) [OF c] by (simp add: turn)
  next
    case (TurnThrown n b)
    then show ?thesis using turn_steps_ok(4) [OF c] by (simp add: turn)
  next
    case (CancelTurn k)
    have "controller_ok (c'\<lparr>ct_cancelled := x\<rparr>)" if "controller_ok c'" for c' x
      using that by (simp add: controller_ok_def abort_entries_ok_def)
    with CancelTurn c mark_ok [OF c] show ?thesis by (auto simp: cancel_turn_def Let_def split: option.split)
  next
    case (SetActive k)
    have "controller_ok (set_state (\<lambda>s. s\<lparr>dk_active := Some k, dk_events := [], dk_draft := [], dk_error := None\<rparr>) c)"
      if "find_session k c \<noteq> None"
      using that c by (auto simp: controller_ok_def abort_entries_ok_def active_listed_def dest: found_session)
    with SetActive c show ?thesis by (simp add: set_active_def)
  next
    case (UpdateDraft d)
    then show ?thesis using set_ by (simp add: keeps_active_def)
  next
    case ClearError
    then show ?thesis using set_ by (simp add: keeps_active_def)
  next
    case Dispose
    have "controller_ok (c'\<lparr>ct_disposed := True, ct_abort := [], ct_subscribers := []\<rparr>)" if "controller_ok c'" for c'
      using that by (simp add: controller_ok_def abort_entries_ok_def)
    with Dispose c marks_ok [OF c] show ?thesis by (simp add: dispose_def)
  qed
qed

lemma controller_run_snoc: "controller_run (ins @ [i]) = snd (controller_step (controller_run ins) i)"
  by (simp add: controller_run_def)

lemma run_ok: "controller_ok (controller_run ins)"
proof (induction ins rule: rev_induct)
  case Nil
  show ?case
    by (simp add: controller_run_def new_controller_def controller_ok_def abort_entries_ok_def active_listed_def initial_state_def)
next
  case (snoc i ins)
  then show ?case by (simp add: controller_run_snoc step_ok)
qed

text \<open>After \<open>dispose\<close> nothing changes that anyone can see.\<close>

definition silent :: "controller \<Rightarrow> controller \<Rightarrow> bool" where
  "silent c c' \<longleftrightarrow> ct_disposed c' \<and> ct_state c' = ct_state c \<and> ct_notified c' = ct_notified c \<and> ct_subscribers c' = []"

lemma disposed_set [simp]: "ct_disposed c \<Longrightarrow> set_state f c = c"
  by (simp add: set_state_def)

lemma disposed_step:
  assumes "silent c c'"
  shows "silent c (snd (controller_step c' i))"
proof -
  have close: "silent c (close_turn n t c')" for n t using assms by (simp add: close_turn_def silent_def Let_def)
  have "silent c (with_turn n f c')" if "\<And>t. silent c (f t c')" for n f
    using that assms by (simp add: with_turn_def split: option.split)
  note turn = this
  have d: "ct_disposed c'" using assms by (simp add: silent_def)
  show ?thesis
  proof (cases i)
    case (CancelTurn k)
    have "silent c (mark_aborted n c')" for n using assms by (simp add: silent_def)
    with assms CancelTurn show ?thesis
      by (auto simp: cancel_turn_def Let_def silent_def split: option.split)
  qed (use assms d close in \<open>auto simp: silent_def connect_def loaded_def new_session_call_def session_answer_def submit_turn_def set_active_def
      dispose_def with_turn_def turn_event_def abort_turn_def turn_ended_def turn_thrown_def Let_def split: option.split\<close>)
qed

lemma disposed_run: "silent c c' \<Longrightarrow> silent c (foldl (\<lambda>c i. snd (controller_step c i)) c' ins)"
  by (induction ins arbitrary: c') (simp_all add: disposed_step)

lemma dispose_silent: "silent c (dispose c)" if "ct_disposed c \<longrightarrow> ct_subscribers c = []"
  using that by (simp add: silent_def dispose_def)


text \<open>
  After \<open>dispose\<close> the controller is silent: whatever is called and whatever arrives, its state stays as it was, no subscriber is told anything,
  and no turn or session is started; and at every time the active session is one of the sessions.
\<close>

theorem dispose_is_final:
  "ct_state (controller_run (ins @ Dispose # later)) = ct_state (controller_run ins)
   \<and> ct_notified (controller_run (ins @ Dispose # later)) = ct_notified (controller_run ins)
   \<and> ct_subscribers (controller_run (ins @ Dispose # later)) = []
   \<and> fst (controller_step (controller_run (ins @ Dispose # later)) (SubmitTurn i)) = Refused DesktopTurnFailed
   \<and> fst (controller_step (controller_run (ins @ Dispose # later)) NewSession) = Refused DesktopNotConnected
   \<and> active_listed (ct_state (controller_run ins))"
proof -
  let ?c = "controller_run ins"
  have "ct_disposed ?c \<longrightarrow> ct_subscribers ?c = []" using run_ok [of ins] by (simp add: controller_ok_def)
  then have "silent ?c (dispose ?c)" by (rule dispose_silent)
  from disposed_run [OF this, of later] have "silent ?c (controller_run (ins @ Dispose # later))"
    by (simp add: controller_run_def)
  then show ?thesis
    using run_ok [of ins] by (simp add: silent_def submit_turn_def new_session_call_def controller_ok_def)
qed

section \<open>One turn at a time\<close>

text \<open>
  The user interface sends a turn only when none is running and creates a session only when no turn is running and none is being created.  That no turn
  may be sent while a session is being created is one guard more than it has.
\<close>

definition in_turn :: "controller \<Rightarrow> controller_input \<Rightarrow> bool" where
  "in_turn c i \<longleftrightarrow>
     (case i of
        SubmitTurn _ \<Rightarrow> \<not> dk_submitting (ct_state c) \<and> ct_creating c = 0
      | NewSession \<Rightarrow> \<not> dk_submitting (ct_state c) \<and> ct_creating c = 0
      | _ \<Rightarrow> True)"

fun polite :: "controller \<Rightarrow> controller_input list \<Rightarrow> bool" where
  "polite c [] \<longleftrightarrow> True"
| "polite c (i # ins) \<longleftrightarrow> in_turn c i \<and> polite (snd (controller_step c i)) ins"

text \<open>The events the turn that was sent last has received.\<close>

definition received :: "controller \<Rightarrow> agent_event list \<Rightarrow> controller_input \<Rightarrow> agent_event list" where
  "received c evs i =
     (case i of
        SubmitTurn k \<Rightarrow> if fst (controller_step c i) = Accepted then [] else evs
      | TurnEvent n e \<Rightarrow> (case map_of (ct_turns c) n of None \<Rightarrow> evs | Some t \<Rightarrow> if rn_aborted t then evs else evs @ [e])
      | _ \<Rightarrow> evs)"

definition tracked_from :: "controller \<times> agent_event list \<Rightarrow> controller_input list \<Rightarrow> controller \<times> agent_event list" where
  "tracked_from = foldl (\<lambda>(c, evs) i. (snd (controller_step c i), received c evs i))"

definition tracked :: "controller_input list \<Rightarrow> agent_event list" where
  "tracked ins = snd (tracked_from (new_controller, []) ins)"

definition one_turn :: "controller \<Rightarrow> agent_event list \<Rightarrow> bool" where
  "one_turn c evs \<longleftrightarrow>
     (if ct_disposed c then True
      else
        (case ct_turns c of
           [] \<Rightarrow> \<not> dk_submitting (ct_state c) \<and> ct_abort c = []
         | [(n, t)] \<Rightarrow>
             dk_submitting (ct_state c) \<and> ct_abort c = [(rn_session t, n)] \<and> dk_events (ct_state c) = evs \<and> ct_creating c = 0
         | _ \<Rightarrow> False))"

lemma tracked_run: "fst (tracked_from (c, evs) ins) = foldl (\<lambda>c i. snd (controller_step c i)) c ins"
  unfolding tracked_from_def by (induction ins arbitrary: c evs) simp_all

lemma disposed_stays: "ct_disposed c \<Longrightarrow> ct_disposed (snd (controller_step c i))"
  by (cases i)
    (auto simp: connect_def loaded_def new_session_call_def session_answer_def submit_turn_def with_turn_def turn_event_def turn_ended_def
      turn_thrown_def abort_turn_def close_turn_def cancel_turn_def set_active_def dispose_def Let_def split: option.split)

lemma one_turn_cases:
  assumes "one_turn c evs" and "\<not> ct_disposed c"
  obtains "ct_turns c = []" "\<not> dk_submitting (ct_state c)" "ct_abort c = []"
  | n t where "ct_turns c = [(n, t)]" "dk_submitting (ct_state c)" "ct_abort c = [(rn_session t, n)]" "dk_events (ct_state c) = evs" "ct_creating c = 0"
  using assms by (cases "ct_turns c"; cases "tl (ct_turns c)") (auto simp: one_turn_def)

lemma one_turn_step:
  assumes "one_turn c evs" and "in_turn c i"
  shows "one_turn (snd (controller_step c i)) (received c evs i)"
proof (cases "ct_disposed c")
  case True
  with disposed_stays show ?thesis by (simp add: one_turn_def)
next
  case no: False
  show ?thesis
    using assms(1) no
  proof (cases rule: one_turn_cases)
    case 1
    then show ?thesis
      using no assms(2)
      by (cases i) (auto simp: one_turn_def received_def in_turn_def connect_def loaded_def new_session_call_def session_answer_def submit_turn_def
          with_turn_def cancel_turn_def set_active_def dispose_def Let_def split: option.split)
  next
    case (2 n t)
    show ?thesis
    proof (cases i)
      case (TurnEvent k e)
      then show ?thesis
        using no 2 by (cases e; cases "k = n"; cases "rn_aborted t")
          (simp_all add: one_turn_def received_def with_turn_def turn_event_def abort_turn_def close_turn_def show_event_def Let_def)
    next
      case (TurnEnded k)
      then show ?thesis
        using no 2 by (cases "k = n"; cases "rn_aborted t")
          (simp_all add: one_turn_def received_def with_turn_def turn_ended_def abort_turn_def close_turn_def Let_def)
    next
      case (TurnThrown k b)
      then show ?thesis
        using no 2 by (cases "k = n"; cases "rn_aborted t"; cases b)
          (simp_all add: one_turn_def received_def with_turn_def turn_thrown_def abort_turn_def close_turn_def Let_def)
    next
      case (CancelTurn k)
      then show ?thesis
        using no 2 by (cases "k = rn_session t")
          (auto simp: one_turn_def received_def cancel_turn_def mark_aborted_def Let_def split: option.split)
    qed (use no 2 assms(2) in \<open>auto simp: one_turn_def received_def in_turn_def connect_def loaded_def session_answer_def set_active_def dispose_def\<close>)
  qed
qed

lemma one_turn_run:
  "one_turn c evs \<Longrightarrow> polite c ins \<Longrightarrow> one_turn (fst (tracked_from (c, evs) ins)) (snd (tracked_from (c, evs) ins))"
  unfolding tracked_from_def by (induction ins arbitrary: c evs) (auto dest: one_turn_step)

lemma polite_one_turn: "polite new_controller ins \<Longrightarrow> one_turn (controller_run ins) (tracked ins)"
  using one_turn_run [of new_controller "[]" ins]
  by (simp add: tracked_run tracked_def controller_run_def one_turn_def new_controller_def initial_state_def)

text \<open>
  C18: the controller shows the turn it runs.  When turns and sessions are started one at a time, the state says it is submitting exactly while a turn
  is open, the only abort controller is that of the open turn, and the events shown are all those the turn has received since it was
  sent, whatever else is called meanwhile; after \<open>dispose\<close> there is no abort controller and no subscriber left.
\<close>

theorem controller_shows_its_turn:
  "if polite new_controller ins
   then
     (if ct_disposed (controller_run ins) then ct_subscribers (controller_run ins) = [] \<and> ct_abort (controller_run ins) = []
      else
        (case ct_turns (controller_run ins) of
           [] \<Rightarrow> \<not> dk_submitting (ct_state (controller_run ins)) \<and> ct_abort (controller_run ins) = []
         | [(n, t)] \<Rightarrow>
             dk_submitting (ct_state (controller_run ins)) \<and> ct_abort (controller_run ins) = [(rn_session t, n)]
             \<and> dk_events (ct_state (controller_run ins)) = tracked ins
         | _ \<Rightarrow> False))
   else True"
  using polite_one_turn [of ins] run_ok [of ins]
  by (auto simp: one_turn_def controller_ok_def split: list.split)


section \<open>Cancelling\<close>

text \<open>A cancelled turn that gives back its draft and shows nothing more.\<close>

definition given_back :: "running_turn \<Rightarrow> agent_event list \<Rightarrow> controller \<Rightarrow> bool" where
  "given_back t evs c \<longleftrightarrow>
     ct_turns c = [] \<and> ct_abort c = [] \<and> \<not> dk_submitting (ct_state c) \<and> dk_draft (ct_state c) = rn_draft t \<and> dk_events (ct_state c) = evs"

text \<open>
  C21: a cancelled turn gives the draft back.  When the session of the running turn is cancelled, then whatever the API client answers next for
  this turn (an event, the end, an error), the turn is closed, the draft is the one that was sent, and no event is added to those shown.
\<close>

theorem cancel_restores_the_draft:
  "if polite new_controller ins \<and> \<not> ct_disposed (controller_run ins)
   then
     (case ct_turns (controller_run ins) of
        [(n, t)] \<Rightarrow>
          list_all (\<lambda>x. given_back t (tracked ins) (controller_run (ins @ [CancelTurn (rn_session t), x])))
            [TurnEvent n e, TurnEnded n, TurnThrown n b]
      | _ \<Rightarrow> True)
   else True"
proof (cases "polite new_controller ins \<and> \<not> ct_disposed (controller_run ins)")
  case True
  let ?c = "controller_run ins"
  from True have one: "one_turn ?c (tracked ins)" by (simp add: polite_one_turn)
  have last_two: "controller_run (ins @ [i, x]) = snd (controller_step (snd (controller_step ?c i)) x)" for i x
    by (simp add: controller_run_def)
  show ?thesis
    using one True [THEN conjunct2]
  proof (cases rule: one_turn_cases)
    case 1
    then show ?thesis by simp
  next
    case (2 n t)
    have "\<exists>x. cancel_turn (rn_session t) ?c = (mark_aborted n ?c)\<lparr>ct_cancelled := x\<rparr>"
    proof (cases "find_session (rn_session t) ?c")
      case None
      with 2 show ?thesis by (intro exI [of _ "ct_cancelled (mark_aborted n ?c)"]) (simp add: cancel_turn_def)
    next
      case (Some s)
      with 2 show ?thesis by (auto simp: cancel_turn_def Let_def)
    qed
    then obtain x where c: "cancel_turn (rn_session t) ?c = (mark_aborted n ?c)\<lparr>ct_cancelled := x\<rparr>" by blast
    have m: "ct_turns (mark_aborted n ?c) = [(n, t\<lparr>rn_aborted := True\<rparr>)]" using 2(1) by (simp add: mark_aborted_def)
    show ?thesis
      using 2 True
      by (simp add: last_two c m with_turn_def turn_event_def turn_ended_def turn_thrown_def abort_turn_def close_turn_def given_back_def Let_def)
  qed
qed auto

section \<open>What is not guarded\<close>

definition sample_session :: "string \<Rightarrow> desktop_session" where
  "sample_session i = \<lparr>ds_id = i, ds_status = SessionIdle, ds_created = Fin 0, ds_updated = Fin 0, ds_active_turn = None\<rparr>"

definition sample_ready :: "controller_input list" where
  "sample_ready = [Connect, Loaded True, NewSession, SessionAnswer (Some (sample_session ''s1'')), UpdateDraft ''hi'']"

text \<open>The premise of the properties can be met: a turn with two events, its cancellation and its draft.\<close>

lemma sample_turn:
  "polite new_controller (sample_ready @ [SubmitTurn ''s1'', TurnEvent 0 (ATextDelta ''r'' ''a'')])"
  "dk_events (ct_state (controller_run (sample_ready @ [SubmitTurn ''s1'', TurnEvent 0 (ATextDelta ''r'' ''a'')]))) = [ATextDelta ''r'' ''a'']"
  "dk_draft (ct_state (controller_run (sample_ready @ [SubmitTurn ''s1'', TurnEvent 0 (ATextDelta ''r'' ''a''), CancelTurn ''s1'', TurnThrown 0 True])))
     = ''hi''"
  by code_simp+

text \<open>Two turns of one session: when the first ends, the second runs on without an abort controller and is not reported as submitting.\<close>

lemma overlapping_turns_lose_the_abort:
  "let c = controller_run (sample_ready @ [SubmitTurn ''s1'', SubmitTurn ''s1'', TurnEvent 0 (ACompleted ''r''), CancelTurn ''s1''])
   in ct_turns c = [(1, \<lparr>rn_session = ''s1'', rn_draft = [], rn_aborted = False\<rparr>)]
      \<and> \<not> dk_submitting (ct_state c) \<and> ct_cancelled c = []"
  by code_simp

text \<open>A session that is created while a turn runs takes over the events of that turn; what was shown before is gone.\<close>

lemma session_created_during_a_turn:
  "let c = controller_run (sample_ready @ [NewSession, SubmitTurn ''s1'', TurnEvent 0 (ATextDelta ''r'' ''a''),
             SessionAnswer (Some (sample_session ''s2'')), TurnEvent 0 (ATextDelta ''r'' ''b''), TurnEvent 0 (ACompleted ''r'')])
   in dk_active (ct_state c) = Some ''s2'' \<and> dk_events (ct_state c) = [ATextDelta ''r'' ''b'', ACompleted ''r'']"
  by code_simp

text \<open>The draft comes back after an error event and after a cancellation, but not when the client throws.\<close>

lemma thrown_turn_loses_the_draft:
  "dk_draft (ct_state (controller_run (sample_ready @ [SubmitTurn ''s1'', TurnThrown 0 False]))) = []"
  "dk_draft (ct_state (controller_run (sample_ready @ [SubmitTurn ''s1'', TurnEvent 0 (AError ''r'' ''c'' ''m'' False)]))) = ''hi''"
  by code_simp+

end
