(* ===== verification/Api_Server.thy ===== *)
theory Api_Server
  imports Local_Api
begin

text \<open>
  \<open>packages/local-agent-api/src/server.ts\<close>, everything but the streaming of a turn: reading a
  request body, the path of a request, the configuration routes and the session routes.

  A request is what the platform hands to the handler: the method, the path that the platform's URL
  parser found, and the body as it arrives.  The configuration manager is a parameter on a world
  \<open>'w\<close>: each method answers a value or throws one.
\<close>

section \<open>Request bodies\<close>

text \<open>\<open>Buffer.toString("utf8")\<close>: a byte that fits no sequence becomes the replacement character.\<close>

definition replacement_char :: string where
  "replacement_char = [CHR 0xEF, CHR 0xBF, CHR 0xBD]"

definition td_plain :: text_decoder where
  "td_plain = td_init\<lparr>td_bom := True\<rparr>"

fun utf8_lossy :: "text_decoder \<Rightarrow> string \<Rightarrow> string" where
  "utf8_lossy d [] = (if td_need d = 0 then [] else replacement_char)"
| "utf8_lossy d (c # cs) =
     (case decode_byte d c of
        Some (d', out) \<Rightarrow> out @ utf8_lossy d' cs
      | None \<Rightarrow>
          replacement_char
          @ (if td_need d = 0 then utf8_lossy td_plain cs
             else (case decode_byte td_plain c of
                     Some (d', out) \<Rightarrow> out @ utf8_lossy d' cs
                   | None \<Rightarrow> replacement_char @ utf8_lossy td_plain cs)))"

text \<open>How the body stops: \<open>end\<close> or \<open>error\<close>.\<close>

datatype body_end = BodyEnded | BodyBroken

fun read_body_from :: "jsnum \<Rightarrow> string \<Rightarrow> string list \<Rightarrow> body_end \<Rightarrow> api_error + string" where
  "read_body_from limit got [] BodyEnded = Inr (utf8_lossy td_plain got)"
| "read_body_from limit got [] BodyBroken = Inl ApiInvalidJson"
| "read_body_from limit got (part # parts) e =
     (if num_less limit (jsnat (length (got @ part))) then Inl ApiPayloadTooLarge
      else read_body_from limit (got @ part) parts e)"

definition readBody :: "jsnum \<Rightarrow> string list \<Rightarrow> body_end \<Rightarrow> api_error + string" where
  "readBody limit chunks e = read_body_from limit [] chunks e"

definition parseJsonBody :: "string \<Rightarrow> api_error + jsval" where
  "parseJsonBody raw =
     (if js_trim raw = [] then Inr (JObj [])
      else (case json_parse raw of None \<Rightarrow> Inl ApiInvalidJson | Some v \<Rightarrow> Inr v))"

record http_call =
  hc_method :: string
  hc_path :: string
  hc_chunks :: "string list"
  hc_end :: body_end

definition call_body :: "jsnum \<Rightarrow> http_call \<Rightarrow> api_error + jsval" where
  "call_body limit rq = rbind (readBody limit (hc_chunks rq) (hc_end rq)) parseJsonBody"

section \<open>Responses\<close>

record response =
  rp_status :: nat
  rp_payload :: jsval

definition sendJson :: "nat \<Rightarrow> jsval \<Rightarrow> response" where
  "sendJson status v = \<lparr>rp_status = status, rp_payload = v\<rparr>"

definition sendError :: "nat \<Rightarrow> api_error \<Rightarrow> response" where
  "sendError status k = sendJson status (apiErrorPayload k)"

text \<open>The text of the body that \<open>sendJson\<close> writes.\<close>

definition response_text :: "response \<Rightarrow> string" where
  "response_text r = stringify_text (rp_payload r) @ [CHR 0x0A]"

text \<open>The \<open>catch\<close> of \<open>#readJson\<close>.\<close>

definition body_failure :: "api_error \<Rightarrow> response" where
  "body_failure k = sendError (if api_error_code k = ''payload_too_large'' then 413 else 400) k"

section \<open>Paths\<close>

text \<open>\<open>decodeURIComponent\<close>: \<open>None\<close> is the \<open>URIError\<close>.\<close>

fun decode_uri :: "text_decoder \<Rightarrow> string \<Rightarrow> string option" where
  "decode_uri d [] = (if td_need d = 0 then Some [] else None)"
| "decode_uri d (c # cs) =
     (if c = CHR ''%'' then
        (case cs of
           h # l # r \<Rightarrow>
             (case (hex_val h, hex_val l) of
                (Some x, Some y) \<Rightarrow>
                  (case decode_byte d (char_of (x * 16 + y)) of
                     None \<Rightarrow> None
                   | Some (d', out) \<Rightarrow> map_option ((@) out) (decode_uri d' r))
              | _ \<Rightarrow> None)
         | _ \<Rightarrow> None)
      else if td_need d = 0 then map_option (Cons c) (decode_uri d cs)
      else None)"

definition decodePathSegment :: "string \<Rightarrow> string" where
  "decodePathSegment s =
     (case decode_uri td_plain s of
        None \<Rightarrow> s
      | Some t \<Rightarrow> if t = [] \<or> CHR 0x00 \<in> set t then s else t)"

fun split_path :: "string \<Rightarrow> string list" where
  "split_path [] = [[]]"
| "split_path (c # cs) =
     (if c = CHR ''/'' then [] # split_path cs
      else (case split_path cs of [] \<Rightarrow> [[c]] | s # ss \<Rightarrow> (c # s) # ss))"

datatype api_route =
    HealthRoute
  | ConfigRoute
  | ProvidersRoute
  | ProviderRoute string
  | RoutesRoute
  | RouteRoute string
  | SessionsRoute
  | SessionRoute string
  | EventsRoute string
  | CancelRoute string
  | TurnsRoute string
  | UnknownRoute

text \<open>The path tests of \<open>#handle\<close> and \<open>#handleConfig\<close>; they exclude each other.\<close>

definition route_of :: "string \<Rightarrow> api_route" where
  "route_of path =
     (let segs = split_path path in
      if segs = [[], ''health''] then HealthRoute
      else if segs = [[], ''v1'', ''config''] then ConfigRoute
      else if segs = [[], ''v1'', ''providers''] then ProvidersRoute
      else if segs = [[], ''v1'', ''routes''] then RoutesRoute
      else if segs = [[], ''v1'', ''sessions''] then SessionsRoute
      else
        (case segs of
           [a, b, c, d] \<Rightarrow>
             if a = [] \<and> b = ''v1'' \<and> d \<noteq> [] then
               (if c = ''providers'' then ProviderRoute (decodePathSegment d)
                else if c = ''routes'' then RouteRoute (decodePathSegment d)
                else if c = ''sessions'' then SessionRoute (decodePathSegment d)
                else UnknownRoute)
             else UnknownRoute
         | [a, b, c, d, e] \<Rightarrow>
             if a = [] \<and> b = ''v1'' \<and> c = ''sessions'' \<and> d \<noteq> [] then
               (if e = ''events'' then EventsRoute (decodePathSegment d)
                else if e = ''cancel'' then CancelRoute (decodePathSegment d)
                else if e = ''turns'' then TurnsRoute (decodePathSegment d)
                else UnknownRoute)
             else UnknownRoute
         | _ \<Rightarrow> UnknownRoute))"

section \<open>Configuration routes\<close>

definition config_forbidden_fields :: "string list" where
  "config_forbidden_fields =
     [''apikey'', ''api_key'', ''api-key'', ''token'', ''authorization'', ''headers'', ''secret'', ''password'',
      ''credential'', ''endpoint'', ''access_token'', ''refresh_token'', ''client_secret'', ''bearer'', ''oauth'']"

fun assertNoConfigSecrets :: "jsval \<Rightarrow> nat \<Rightarrow> api_error + unit" where
  "assertNoConfigSecrets (JArr vs) depth =
     (if 32 < depth then Inl ApiInvalidConfigRequest else rall (\<lambda>v. assertNoConfigSecrets v (depth + 1)) vs)"
| "assertNoConfigSecrets (JObj kvs) depth =
     (if 32 < depth then Inl ApiInvalidConfigRequest
      else rall (\<lambda>kv. if to_lower (fst kv) \<in> set config_forbidden_fields then Inl ApiInvalidConfigRequest
                      else assertNoConfigSecrets (snd kv) (depth + 1)) kvs)"
| "assertNoConfigSecrets (JInst kvs) depth =
     (if 32 < depth then Inl ApiInvalidConfigRequest
      else rall (\<lambda>kv. if to_lower (fst kv) \<in> set config_forbidden_fields then Inl ApiInvalidConfigRequest
                      else assertNoConfigSecrets (snd kv) (depth + 1)) kvs)"
| "assertNoConfigSecrets v depth = (if 32 < depth then Inl ApiInvalidConfigRequest else Inr ())"

definition provider_fields :: "string list" where
  "provider_fields = [''id'', ''name'', ''protocol'', ''baseUrl'', ''credentialRef'', ''models'', ''enabled'']"

definition route_fields :: "string list" where
  "route_fields = [''id'', ''name'', ''providerId'', ''model'', ''enabled'', ''fallbackProviderIds'']"

definition assertOnlyAllowedConfigFields :: "jsval \<Rightarrow> string list \<Rightarrow> api_error + unit" where
  "assertOnlyAllowedConfigFields v allowed =
     (if list_ex (\<lambda>k. k \<notin> set allowed) (obj_keys v) then Inl ApiInvalidConfigRequest else Inr ())"

text \<open>What a handler may see thrown: its own validation error, or any value.\<close>

datatype thrown = OwnThrown api_error | ForeignThrown jsval

text \<open>\<open>new Error("invalid config response")\<close>: an error object without a code.\<close>

definition bad_config_response :: "thrown + 'a" where
  "bad_config_response = Inl (ForeignThrown (JInst [(''message'', JStr ''invalid config response'')]))"

definition assertSafeProvider :: "jsval \<Rightarrow> thrown + jsval" where
  "assertSafeProvider v =
     (if \<not> is_object v \<or> list_ex (\<lambda>k. k \<notin> set provider_fields) (obj_keys v) then bad_config_response
      else if \<not> is_string (field v ''id'') \<or> \<not> is_string (field v ''name'')
        \<or> field v ''protocol'' \<noteq> JStr ''anthropic_messages'' \<and> field v ''protocol'' \<noteq> JStr ''openai_compatible''
        \<or> \<not> is_string (field v ''baseUrl'')
        \<or> field v ''credentialRef'' \<noteq> JNull \<and> \<not> is_string (field v ''credentialRef'')
        \<or> \<not> is_array (field v ''models'') \<or> \<not> list_all is_string (as_arr (field v ''models''))
        \<or> \<not> is_bool (field v ''enabled'')
        then bad_config_response
      else Inr v)"

definition assertSafeRoute :: "jsval \<Rightarrow> thrown + jsval" where
  "assertSafeRoute v =
     (if \<not> is_object v \<or> list_ex (\<lambda>k. k \<notin> set route_fields) (obj_keys v) then bad_config_response
      else if \<not> is_string (field v ''id'') \<or> \<not> is_string (field v ''name'') \<or> \<not> is_string (field v ''providerId'')
        \<or> \<not> is_string (field v ''model'') \<or> \<not> is_bool (field v ''enabled'')
        \<or> field v ''fallbackProviderIds'' \<noteq> JUndef
          \<and> (\<not> is_array (field v ''fallbackProviderIds'')
             \<or> \<not> list_all is_string (as_arr (field v ''fallbackProviderIds'')))
        then bad_config_response
      else Inr v)"

definition safeConfigSnapshot :: "jsval \<Rightarrow> thrown + jsval" where
  "safeConfigSnapshot v =
     (if \<not> is_object v \<or> field v ''version'' \<noteq> JNum (Fin 1) then bad_config_response
      else if \<not> list_all (\<lambda>k. k = ''version'' \<or> k = ''providers'' \<or> k = ''routes'') (obj_keys v) then bad_config_response
      else if \<not> is_array (field v ''providers'') \<or> \<not> is_array (field v ''routes'') then bad_config_response
      else
        rbind (rmap assertSafeProvider (as_arr (field v ''providers''))) (\<lambda>ps.
        rbind (rmap assertSafeRoute (as_arr (field v ''routes''))) (\<lambda>rs.
        Inr (JObj [(''version'', JNum (Fin 1)), (''providers'', JArr ps), (''routes'', JArr rs)]))))"

definition safeConfigEntity :: "jsval \<Rightarrow> bool \<Rightarrow> thrown + jsval" where
  "safeConfigEntity v provider =
     rbind (if provider then assertSafeProvider v else assertSafeRoute v) (\<lambda>e.
     Inr (JObj [(if provider then ''provider'' else ''route'', e)]))"

definition client_error_codes :: "string list" where
  "client_error_codes =
     [''invalid_config_request'', ''invalid_provider_id'', ''invalid_provider_name'', ''invalid_provider_protocol'',
      ''invalid_provider_url'', ''invalid_provider_models'', ''invalid_provider_enabled'', ''invalid_credential_ref'',
      ''forbidden_provider_field'', ''duplicate_provider_id'', ''provider_not_found'', ''provider_has_routes'',
      ''provider_disabled'', ''invalid_route_id'', ''invalid_route_name'', ''invalid_route_model'',
      ''invalid_route_enabled'', ''invalid_fallback_provider_ids'', ''duplicate_fallback_provider_id'',
      ''too_many_fallback_providers'', ''forbidden_route_field'', ''duplicate_route_id'', ''route_not_found'',
      ''fallback_provider_not_found'', ''fallback_model_not_available'', ''model_not_available'']"

fun configErrorKey :: "thrown \<Rightarrow> api_error" where
  "configErrorKey (OwnThrown _) = ApiInvalidConfigRequest"
| "configErrorKey (ForeignThrown v) =
     (let code = (if is_object v \<and> is_string (field v ''code'') then as_str (field v ''code'') else '''') in
      if code = ''invalid_config_request'' then ApiInvalidConfigRequest
      else if code = ''config_persistence_failed'' then ApiConfigPersistenceFailed
      else if code \<in> set client_error_codes then ApiInvalidConfigRequest
      else ApiServerError)"

definition sendConfigFailure :: "thrown \<Rightarrow> response" where
  "sendConfigFailure e =
     (let k = configErrorKey e in sendError (if k = ApiInvalidConfigRequest then 400 else 500) k)"

text \<open>The manager: a thrown value is \<open>Inl\<close>.\<close>

record 'w config_manager =
  cm_snapshot :: "'w \<Rightarrow> jsval + jsval"
  cm_create_provider :: "jsval \<Rightarrow> 'w \<Rightarrow> (jsval + jsval) \<times> 'w"
  cm_update_provider :: "jsval \<Rightarrow> 'w \<Rightarrow> (jsval + jsval) \<times> 'w"
  cm_delete_provider :: "string \<Rightarrow> 'w \<Rightarrow> (jsval + unit) \<times> 'w"
  cm_create_route :: "jsval \<Rightarrow> 'w \<Rightarrow> (jsval + jsval) \<times> 'w"
  cm_update_route :: "jsval \<Rightarrow> 'w \<Rightarrow> (jsval + jsval) \<times> 'w"
  cm_delete_route :: "string \<Rightarrow> 'w \<Rightarrow> (jsval + unit) \<times> 'w"

definition from_manager :: "jsval + 'a \<Rightarrow> thrown + 'a" where
  "from_manager m = (case m of Inl e \<Rightarrow> Inl (ForeignThrown e) | Inr a \<Rightarrow> Inr a)"

definition or_config_failure :: "nat \<Rightarrow> thrown + jsval \<Rightarrow> response" where
  "or_config_failure status m = (case m of Inl e \<Rightarrow> sendConfigFailure e | Inr v \<Rightarrow> sendJson status v)"

text \<open>A body that passes the checks goes to the manager, and its answer through the whitelist.\<close>

definition write_config ::
  "nat \<Rightarrow> bool \<Rightarrow> string option \<Rightarrow> (jsval \<Rightarrow> 'w \<Rightarrow> (jsval + jsval) \<times> 'w) \<Rightarrow> jsval \<Rightarrow> 'w \<Rightarrow> response \<times> 'w"
where
  "write_config status provider expected_id call body w =
     (case rbind (assertNoConfigSecrets body 0) (\<lambda>_.
           if \<not> is_object body
              \<or> (case expected_id of None \<Rightarrow> False | Some i \<Rightarrow> field body ''id'' \<noteq> JStr i)
           then Inl ApiInvalidConfigRequest
           else assertOnlyAllowedConfigFields body (if provider then provider_fields else route_fields)) of
        Inl e \<Rightarrow> (sendConfigFailure (OwnThrown e), w)
      | Inr _ \<Rightarrow>
          (case call body w of (answer, w') \<Rightarrow>
             (or_config_failure status (rbind (from_manager answer) (\<lambda>v. safeConfigEntity v provider)), w')))"

definition delete_config :: "(string \<Rightarrow> 'w \<Rightarrow> (jsval + unit) \<times> 'w) \<Rightarrow> string \<Rightarrow> 'w \<Rightarrow> response \<times> 'w" where
  "delete_config call i w =
     (case call i w of (answer, w') \<Rightarrow>
        (or_config_failure 200 (rbind (from_manager answer) (\<lambda>_. Inr (JObj [(''ok'', JBool True)]))), w'))"

definition with_body :: "jsnum \<Rightarrow> http_call \<Rightarrow> (jsval \<Rightarrow> 'w \<Rightarrow> response \<times> 'w) \<Rightarrow> 'w \<Rightarrow> response \<times> 'w" where
  "with_body limit rq k w = (case call_body limit rq of Inl e \<Rightarrow> (body_failure e, w) | Inr v \<Rightarrow> k v w)"

text \<open>\<open>#handleConfig\<close>: \<open>None\<close> when the path is not one of the configuration.\<close>

definition handleConfig ::
  "jsnum \<Rightarrow> 'w config_manager option \<Rightarrow> http_call \<Rightarrow> 'w \<Rightarrow> (response \<times> 'w) option"
where
  "handleConfig limit manager rq w =
     (let path_route = route_of (hc_path rq); method = hc_method rq;
          not_allowed = (sendError 405 ApiMethodNotAllowed, w) in
      if (case path_route of ConfigRoute \<Rightarrow> False | ProvidersRoute \<Rightarrow> False | ProviderRoute _ \<Rightarrow> False
            | RoutesRoute \<Rightarrow> False | RouteRoute _ \<Rightarrow> False | _ \<Rightarrow> True) then None
      else
        (case manager of
           None \<Rightarrow> Some (sendError 503 ApiConfigurationUnavailable, w)
         | Some m \<Rightarrow>
             Some (case path_route of
                 ConfigRoute \<Rightarrow>
                   if method \<noteq> ''GET'' then not_allowed
                   else (or_config_failure 200 (rbind (from_manager (cm_snapshot m w)) safeConfigSnapshot), w)
               | ProvidersRoute \<Rightarrow>
                   if method = ''POST'' then with_body limit rq (write_config 201 True None (cm_create_provider m)) w
                   else not_allowed
               | RoutesRoute \<Rightarrow>
                   if method = ''POST'' then with_body limit rq (write_config 201 False None (cm_create_route m)) w
                   else not_allowed
               | ProviderRoute i \<Rightarrow>
                   if method = ''DELETE'' then delete_config (cm_delete_provider m) i w
                   else if method = ''PUT'' then
                     with_body limit rq (write_config 200 True (Some i) (cm_update_provider m)) w
                   else not_allowed
               | RouteRoute i \<Rightarrow>
                   if method = ''DELETE'' then delete_config (cm_delete_route m) i w
                   else if method = ''PUT'' then
                     with_body limit rq (write_config 200 False (Some i) (cm_update_route m)) w
                   else not_allowed
               | _ \<Rightarrow> not_allowed)))"

section \<open>Sessions over HTTP\<close>

text \<open>
  \<open>#store\<close> and \<open>#active\<close>: the turn that holds each busy session.  The abort controller of a turn is
  part of the turn itself (theory \<open>Api_Turns\<close>).
\<close>

record api_state =
  as_store :: session_store
  as_active :: "(string \<times> string) list"

definition service_name :: jsval where
  "service_name =
     JObj [(''ok'', JBool True), (''service'', JStr ''agent-workbench-local-api''), (''version'', JNum (Fin 1))]"

definition session_payload :: "jsval \<Rightarrow> jsval" where
  "session_payload s = JObj [(''session'', s)]"

definition events_payload :: "string \<Rightarrow> agent_event list \<Rightarrow> jsval" where
  "events_payload i es = JObj [(''sessionId'', JStr i), (''events'', JArr (map event_value es))]"

text \<open>
  The routes of \<open>#handle\<close> other than turns and configuration: the response, the state, and the turn
  whose controller was aborted.
\<close>

definition handle_session_route ::
  "jsnum \<Rightarrow> http_call \<Rightarrow> string \<Rightarrow> nat \<Rightarrow> api_state \<Rightarrow> response \<times> api_state \<times> string option"
where
  "handle_session_route limit rq uuid now st =
     (let method = hc_method rq in
      case route_of (hc_path rq) of
        HealthRoute \<Rightarrow>
          (if method \<noteq> ''GET'' then sendError 405 ApiMethodNotAllowed else sendJson 200 service_name, st, None)
      | SessionsRoute \<Rightarrow>
          if method \<noteq> ''POST'' then (sendError 405 ApiMethodNotAllowed, st, None)
          else
            (case call_body limit rq of
               Inl e \<Rightarrow> (body_failure e, st, None)
             | Inr _ \<Rightarrow>
                 (case create_session uuid now (as_store st) of
                    (s, store) \<Rightarrow> (sendJson 201 (session_payload s), st\<lparr>as_store := store\<rparr>, None)))
      | SessionRoute i \<Rightarrow>
          (if method \<noteq> ''GET'' then sendError 405 ApiMethodNotAllowed
           else (case get_session (as_store st) i of
                   None \<Rightarrow> sendError 404 ApiSessionNotFound
                 | Some s \<Rightarrow> sendJson 200 (session_payload s)), st, None)
      | EventsRoute i \<Rightarrow>
          (if method \<noteq> ''GET'' then sendError 405 ApiMethodNotAllowed
           else if get_session (as_store st) i = None then sendError 404 ApiSessionNotFound
           else sendJson 200 (events_payload i (listEvents (as_store st) i)), st, None)
      | CancelRoute i \<Rightarrow>
          if method \<noteq> ''POST'' then (sendError 405 ApiMethodNotAllowed, st, None)
          else if get_session (as_store st) i = None then (sendError 404 ApiSessionNotFound, st, None)
          else
            (case map_of (as_active st) i of
               None \<Rightarrow>
                 (sendJson 200 (JObj [(''ok'', JBool True), (''code'', JStr ''not_running''),
                                      (''message'', JStr ''No turn is running.'')]), st, None)
             | Some turn_id \<Rightarrow>
                 (sendJson 200 (JObj [(''ok'', JBool True), (''code'', JStr ''cancelling'')]), st, Some turn_id))
      | TurnsRoute i \<Rightarrow> (sendError 405 ApiMethodNotAllowed, st, None)
      | _ \<Rightarrow> (sendError 404 ApiNotFound, st, None))"

text \<open>\<open>#handle\<close> for a request that does not start a turn; \<open>http_handle\<close> of \<open>Api_Turns\<close> is the whole.\<close>

definition handle ::
  "jsnum \<Rightarrow> 'w config_manager option \<Rightarrow> http_call \<Rightarrow> string \<Rightarrow> nat \<Rightarrow> api_state \<Rightarrow> 'w
     \<Rightarrow> response \<times> api_state \<times> string option \<times> 'w"
where
  "handle limit manager rq uuid now st w =
     (case handleConfig limit manager rq w of
        Some (r, w') \<Rightarrow> (r, st, None, w')
      | None \<Rightarrow> (case handle_session_route limit rq uuid now st of (r, st', cancelled) \<Rightarrow> (r, st', cancelled, w)))"

end
