(* ===== verification/Api_Turns.thy ===== *)
theory Api_Turns
  imports Api_Server
begin

text \<open>
  \<open>#handleTurn\<close> of \<open>packages/local-agent-api/src/server.ts\<close>: admission of a turn, its stream of
  events, and how it leaves the session; first alone, then as a step relation in which the turns of
  several requests interleave at the places where the handler awaits.
\<close>

section \<open>The parts of the handler\<close>

definition abortedEvent :: "string \<Rightarrow> agent_event" where
  "abortedEvent turn_id = AError turn_id ''aborted'' ''Turn aborted.'' False"

definition runnerErrorEvent :: "string \<Rightarrow> agent_event" where
  "runnerErrorEvent turn_id = AError turn_id ''runner_error'' ''Agent runner failed.'' False"

text \<open>Up to the first \<open>await\<close>: the session exists and no turn holds it.\<close>

definition admit_turn :: "api_state \<Rightarrow> string \<Rightarrow> response + unit" where
  "admit_turn st i =
     (if get_session (as_store st) i = None then Inl (sendError 404 ApiSessionNotFound)
      else if map_of (as_active st) i \<noteq> None then Inl (sendError 409 ApiSessionBusy)
      else Inr ())"

definition turn_body :: "jsnum \<Rightarrow> http_call \<Rightarrow> response + turn_request" where
  "turn_body limit rq =
     (case call_body limit rq of
        Inl e \<Rightarrow> Inl (body_failure e)
      | Inr v \<Rightarrow> (case parseTurnRequest v of Inl e \<Rightarrow> Inl (sendError 400 e) | Inr q \<Rightarrow> Inr q))"

text \<open>After the body, without an \<open>await\<close> in between: the session is taken.\<close>

definition take_session :: "nat \<Rightarrow> string \<Rightarrow> string \<Rightarrow> api_state \<Rightarrow> api_state" where
  "take_session now i turn_id st =
     st\<lparr>as_active := obj_put (as_active st) i turn_id,
        as_store := setStatus now i SessionRunning (Some turn_id) (as_store st)\<rparr>"

definition log_event :: "nat \<Rightarrow> string \<Rightarrow> agent_event \<Rightarrow> api_state \<Rightarrow> api_state" where
  "log_event now i e st = st\<lparr>as_store := appendEvent now i e (as_store st)\<rparr>"

text \<open>\<open>finish\<close>: the entry of the session is deleted, whoever made it.\<close>

definition finish_turn :: "nat \<Rightarrow> string \<Rightarrow> session_status \<Rightarrow> api_state \<Rightarrow> api_state" where
  "finish_turn now i s st =
     st\<lparr>as_active := filter (\<lambda>(k, _). k \<noteq> i) (as_active st),
        as_store := setStatus now i s None (as_store st)\<rparr>"

text \<open>The request that goes to the runner.\<close>

definition runner_call :: "string \<Rightarrow> string \<Rightarrow> turn_request \<Rightarrow> runner_request" where
  "runner_call i turn_id q =
     \<lparr>rq_session = i, rq_turn = turn_id, rq_messages = tq_messages q,
      rq_tools = Some (case tq_tools q of None \<Rightarrow> [] | Some ts \<Rightarrow> ts),
      rq_route = tq_route q, rq_model = tq_model q, rq_max_tokens = tq_max_tokens q\<rparr>"

text \<open>The status that a terminal event decides.\<close>

fun final_status :: "agent_event \<Rightarrow> session_status" where
  "final_status (AError _ c _ _) = (if c = ''aborted'' then SessionCancelled else SessionFailed)"
| "final_status _ = SessionCompleted"

text \<open>
  One round of the loop, given whether the abort won: what is emitted, and how the loop goes on or
  leaves the session.  A runner whose \<open>run\<close> threw has no source.
\<close>

fun turn_round ::
  "string \<Rightarrow> bool \<Rightarrow> agent_event source option \<Rightarrow> agent_event list \<times> (agent_event source option + session_status)"
where
  "turn_round turn_id True src = ([abortedEvent turn_id], Inr SessionCancelled)"
| "turn_round turn_id False None = ([runnerErrorEvent turn_id], Inr SessionFailed)"
| "turn_round turn_id False (Some ([], SrcDone)) = ([], Inr SessionCompleted)"
| "turn_round turn_id False (Some ([], SrcThrow)) = ([runnerErrorEvent turn_id], Inr SessionFailed)"
| "turn_round turn_id False (Some (e # es, en)) =
     ([e], if agent_terminal e then Inr (final_status e) else Inl (Some (es, en)))"

text \<open>The whole loop against a signal: the flag is read, and the next event races the abort.\<close>

definition abort_seen :: "signal \<Rightarrow> bool \<times> signal" where
  "abort_seen sg = (case observe sg of (stopped, sg1) \<Rightarrow> if stopped then (True, sg1) else observe sg1)"

fun serve_events :: "string \<Rightarrow> agent_event list \<Rightarrow> src_end \<Rightarrow> signal \<Rightarrow> agent_event list \<times> session_status" where
  "serve_events turn_id [] en sg =
     (case abort_seen sg of (aborted, _) \<Rightarrow>
        (case turn_round turn_id aborted (Some ([], en)) of
           (out, Inr s) \<Rightarrow> (out, s)
         | (out, Inl _) \<Rightarrow> (out, SessionCompleted)))"
| "serve_events turn_id (e # es) en sg =
     (case abort_seen sg of (aborted, sg2) \<Rightarrow>
        (case turn_round turn_id aborted (Some (e # es, en)) of
           (out, Inr s) \<Rightarrow> (out, s)
         | (out, Inl _) \<Rightarrow> (case serve_events turn_id es en sg2 of (rest, s) \<Rightarrow> (out @ rest, s))))"

type_synonym 'w runner = "runner_request \<Rightarrow> signal \<Rightarrow> 'w \<Rightarrow> agent_event source option \<times> 'w"

definition serve_turn ::
  "'w runner \<Rightarrow> runner_request \<Rightarrow> signal \<Rightarrow> 'w \<Rightarrow> agent_event list \<times> session_status \<times> 'w"
where
  "serve_turn run rq sg w =
     (case observe sg of (aborted, sg') \<Rightarrow>
        if aborted then ([abortedEvent (rq_turn rq)], SessionCancelled, w)
        else
          (case run rq sg' w of
             (None, w') \<Rightarrow> ([runnerErrorEvent (rq_turn rq)], SessionFailed, w')
           | (Some (es, en), w') \<Rightarrow> (case serve_events (rq_turn rq) es en sg' of (out, s) \<Rightarrow> (out, s, w'))))"

text \<open>
  \<open>#handleTurn\<close> with nothing else going on in between: a plain response, or the turn id of the
  header and the events whose lines were streamed.  The clock stands still.
\<close>

definition handleTurn ::
  "jsnum \<Rightarrow> 'w runner \<Rightarrow> http_call \<Rightarrow> string \<Rightarrow> string \<Rightarrow> nat \<Rightarrow> api_state \<Rightarrow> signal \<Rightarrow> 'w
     \<Rightarrow> (response + string \<times> agent_event list) \<times> api_state \<times> 'w"
where
  "handleTurn limit run rq i turn_id now st sg w =
     (case rbind (admit_turn st i) (\<lambda>_. turn_body limit rq) of
        Inl r \<Rightarrow> (Inl r, st, w)
      | Inr q \<Rightarrow>
          (case serve_turn run (runner_call i turn_id q) sg w of
             (out, s, w') \<Rightarrow>
               (Inr (turn_id, out),
                finish_turn now i s (fold (log_event now i) out (take_session now i turn_id st)), w')))"

text \<open>\<open>#handle\<close>: a turn that is posted is handled as one, everything else answers a plain response.\<close>

definition http_handle ::
  "jsnum \<Rightarrow> 'w config_manager option \<Rightarrow> 'w runner \<Rightarrow> http_call \<Rightarrow> string \<Rightarrow> nat \<Rightarrow> api_state \<Rightarrow> signal \<Rightarrow> 'w
     \<Rightarrow> (response + string \<times> agent_event list) \<times> api_state \<times> string option \<times> 'w"
where
  "http_handle limit manager run rq uuid now st sg w =
     (let others = (case handle limit manager rq uuid now st w of (r, st', cancelled, w') \<Rightarrow> (Inl r, st', cancelled, w')) in
      case route_of (hc_path rq) of
        TurnsRoute i \<Rightarrow>
          if hc_method rq = ''POST'' then
            (case handleTurn limit run rq i uuid now st sg w of (r, st', w') \<Rightarrow> (r, st', None, w'))
          else others
      | _ \<Rightarrow> others)"

definition streamed_text :: "agent_event list \<Rightarrow> string" where
  "streamed_text es = concat (map writeNdjsonLine es)"

section \<open>A turn on its own\<close>

text \<open>
  The four ways a source is served: cut by a cancellation, up to its first terminal event, to its end
  without one, or to where it throws.
\<close>

definition served :: "string \<Rightarrow> agent_event source \<Rightarrow> agent_event list \<Rightarrow> session_status \<Rightarrow> bool" where
  "served turn_id src out s \<longleftrightarrow>
     (\<exists>xs ys. fst src = xs @ ys \<and> list_all (\<lambda>e. \<not> agent_terminal e) xs
        \<and> (out = xs @ [abortedEvent turn_id] \<and> s = SessionCancelled
           \<or> (\<exists>e zs. ys = e # zs \<and> agent_terminal e \<and> out = xs @ [e] \<and> s = final_status e)
           \<or> ys = [] \<and> snd src = SrcDone \<and> out = xs \<and> s = SessionCompleted
           \<or> ys = [] \<and> snd src = SrcThrow \<and> out = xs @ [runnerErrorEvent turn_id] \<and> s = SessionFailed))"

lemma served_cut: "served turn_id src [abortedEvent turn_id] SessionCancelled"
  unfolding served_def by (rule exI [of _ "[]"]) simp

lemma served_here: "agent_terminal e \<Longrightarrow> served turn_id (e # es, en) [e] (final_status e)"
  unfolding served_def by (rule exI [of _ "[]"]) simp

lemma served_step:
  assumes "\<not> agent_terminal e" and "served turn_id (es, en) out s"
  shows "served turn_id (e # es, en) (e # out) s"
proof -
  from assms(2) obtain xs ys where "es = xs @ ys" and "list_all (\<lambda>e. \<not> agent_terminal e) xs"
    and "out = xs @ [abortedEvent turn_id] \<and> s = SessionCancelled
      \<or> (\<exists>e zs. ys = e # zs \<and> agent_terminal e \<and> out = xs @ [e] \<and> s = final_status e)
      \<or> ys = [] \<and> en = SrcDone \<and> out = xs \<and> s = SessionCompleted
      \<or> ys = [] \<and> en = SrcThrow \<and> out = xs @ [runnerErrorEvent turn_id] \<and> s = SessionFailed"
    by (auto simp: served_def)
  with assms(1) show ?thesis unfolding served_def by (intro exI [of _ "e # xs"] exI [of _ ys]) auto
qed

lemma serve_events_served: "serve_events turn_id es en sg = (out, s) \<Longrightarrow> served turn_id (es, en) out s"
proof (induction es arbitrary: sg out)
  case Nil
  obtain b sg' where "abort_seen sg = (b, sg')" by (cases "abort_seen sg")
  with Nil show ?case by (cases b; cases en) (auto simp: served_def)
next
  case (Cons e es)
  obtain b sg' where seen: "abort_seen sg = (b, sg')" by (cases "abort_seen sg")
  obtain rest s' where rest: "serve_events turn_id es en sg' = (rest, s')" by (cases "serve_events turn_id es en sg'")
  from Cons.prems seen rest Cons.IH [OF _] show ?case
    by (cases b; cases "agent_terminal e") (auto intro: served_cut served_here served_step)
qed

section \<open>What a turn leaves behind\<close>

lemma map_of_put [simp]: "map_of (obj_put kvs k v) = (map_of kvs)(k \<mapsto> v)"
  by (rule map_of_obj_put)

lemma map_of_setStatus:
  "map_of (setStatus now i s t st) j =
     (if j = i then map_option (\<lambda>r. r\<lparr>ss_status := s, ss_turn := t, ss_updated := now\<rparr>) (map_of st i) else map_of st j)"
  by (auto simp: setStatus_def split: option.splits)

lemma map_of_appendEvent:
  "map_of (appendEvent now i e st) j =
     (if j = i then map_option (\<lambda>r. r\<lparr>ss_events := ss_events r @ [e], ss_updated := now\<rparr>) (map_of st i) else map_of st j)"
  by (auto simp: appendEvent_def split: option.splits)

definition session_of :: "api_state \<Rightarrow> string \<Rightarrow> session_record option" where
  "session_of st i = map_of (as_store st) i"

lemma session_of_take [simp]:
  "session_of (take_session now i t st) j =
     (if j = i then map_option (\<lambda>r. r\<lparr>ss_status := SessionRunning, ss_turn := Some t, ss_updated := now\<rparr>) (session_of st i)
      else session_of st j)"
  by (simp add: session_of_def take_session_def map_of_setStatus)

lemma session_of_finish [simp]:
  "session_of (finish_turn now i s st) j =
     (if j = i then map_option (\<lambda>r. r\<lparr>ss_status := s, ss_turn := None, ss_updated := now\<rparr>) (session_of st i)
      else session_of st j)"
  by (simp add: session_of_def finish_turn_def map_of_setStatus)

lemma session_of_log [simp]:
  "session_of (log_event now i e st) j =
     (if j = i then map_option (\<lambda>r. r\<lparr>ss_events := ss_events r @ [e], ss_updated := now\<rparr>) (session_of st i)
      else session_of st j)"
  by (simp add: session_of_def log_event_def map_of_appendEvent)

lemma active_simps [simp]:
  "map_of (as_active (take_session now i t st)) = (map_of (as_active st))(i \<mapsto> t)"
  "map_of (as_active (finish_turn now i s st)) = (map_of (as_active st))(i := None)"
  "as_active (log_event now i e st) = as_active st"
  by (simp_all add: take_session_def finish_turn_def log_event_def)

lemma active_logs [simp]: "as_active (fold (log_event now i) es st) = as_active st"
  by (induction es arbitrary: st) simp_all

text \<open>A session after a batch of events.\<close>

definition with_events :: "nat \<Rightarrow> agent_event list \<Rightarrow> session_record \<Rightarrow> session_record" where
  "with_events now es r = (if es = [] then r else r\<lparr>ss_events := ss_events r @ es, ss_updated := now\<rparr>)"

lemma with_events_fields [simp]:
  "ss_events (with_events now es r) = ss_events r @ es" "ss_status (with_events now es r) = ss_status r"
  "ss_turn (with_events now es r) = ss_turn r" "ss_id (with_events now es r) = ss_id r"
  by (simp_all add: with_events_def)

lemma session_of_logs:
  "session_of (fold (log_event now i) es st) j =
     (if j = i then map_option (with_events now es) (session_of st i) else session_of st j)"
proof (induction es arbitrary: st)
  case Nil
  then show ?case by (simp add: with_events_def option.map_ident)
next
  case (Cons e es)
  then show ?case
    by (cases "session_of st i") (simp_all add: with_events_def)
qed

lemma admitted_session: "admit_turn st i = Inr u \<Longrightarrow> \<exists>r. session_of st i = Some r"
  by (auto simp: admit_turn_def get_session_def session_of_def split: if_splits)

text \<open>
  The runner of the assembled backend (theory \<open>Agent_Backend\<close>) as the server calls it.
\<close>

definition backend_runner :: "'w backend \<Rightarrow> ('w \<times> effect list) runner" where
  "backend_runner B rq sg w =
     (case backend_run B rq sg w of
        (es, fx, sg', w', r) \<Rightarrow> (Some (es, if r = None then SrcDone else SrcThrow), w'))"

lemma served_ended:
  assumes "served t (init @ [e], en) out s" and "agent_terminal e" and "list_all (\<lambda>x. \<not> agent_terminal x) init"
    and "list_all (\<lambda>x. event_request x = t) (init @ [e])"
  shows "\<exists>out' e'. out = out' @ [e'] \<and> agent_terminal e' \<and> list_all (\<lambda>x. \<not> agent_terminal x) out'
    \<and> list_all (\<lambda>x. event_request x = t) out \<and> s = final_status e'"
proof -
  from assms(1) obtain xs ys where split: "init @ [e] = xs @ ys" and xs: "list_all (\<lambda>x. \<not> agent_terminal x) xs"
    and out: "out = xs @ [abortedEvent t] \<and> s = SessionCancelled
      \<or> (\<exists>e zs. ys = e # zs \<and> agent_terminal e \<and> out = xs @ [e] \<and> s = final_status e)
      \<or> ys = []"
    by (auto simp: served_def)
  from split assms(4) have req: "list_all (\<lambda>x. event_request x = t) (xs @ ys)" by simp
  from out consider (cut) "out = xs @ [abortedEvent t]" "s = SessionCancelled"
    | (full) f zs where "ys = f # zs" "agent_terminal f" "out = xs @ [f]" "s = final_status f"
    | (none) "ys = []"
    by blast
  then show ?thesis
  proof cases
    case cut
    with xs req show ?thesis by (auto simp: abortedEvent_def)
  next
    case full
    with xs req show ?thesis by auto
  next
    case none
    with split have "xs = init @ [e]" by simp
    with xs assms(2) show ?thesis by (simp add: list_all_iff)
  qed
qed

lemma serve_backend_turn:
  assumes "serve_turn (backend_runner B) rq sg w = (out, s, w')"
  shows "\<exists>out' e. out = out' @ [e] \<and> agent_terminal e \<and> list_all (\<lambda>x. \<not> agent_terminal x) out'
    \<and> list_all (\<lambda>x. event_request x = rq_turn rq) out \<and> s = final_status e"
proof -
  obtain aborted sg' where obs: "observe sg = (aborted, sg')" by (cases "observe sg")
  show ?thesis
  proof (cases aborted)
    case True
    with assms obs show ?thesis by (auto simp: serve_turn_def abortedEvent_def intro: exI [of _ "[]"])
  next
    case False
    obtain es fx sg2 w2 r where run: "backend_run B rq sg' w = (es, fx, sg2, w2, r)" by (cases "backend_run B rq sg' w")
    from backend_run_ended [OF run] obtain init e where es: "es = init @ [e]" "agent_terminal e"
      "list_all (\<lambda>x. \<not> agent_terminal x) init" "list_all (\<lambda>x. event_request x = rq_turn rq) (init @ [e])" by blast
    from assms obs False run obtain en where "serve_events (rq_turn rq) es en sg' = (out, s)"
      by (auto simp: serve_turn_def backend_runner_def split: prod.splits)
    from served_ended [OF serve_events_served [OF this [unfolded es(1)]] es(2-4)] show ?thesis .
  qed
qed

lemma handleTurn_cases:
  obtains (refused) r where "handleTurn limit run rq i t now st sg w = (Inl r, st, w)"
  | (streamed) q out s w' r where "session_of st i = Some r"
      and "serve_turn run (runner_call i t q) sg w = (out, s, w')"
      and "handleTurn limit run rq i t now st sg w =
        (Inr (t, out), finish_turn now i s (fold (log_event now i) out (take_session now i t st)), w')"
proof (cases "rbind (admit_turn st i) (\<lambda>_. turn_body limit rq)")
  case (Inl r)
  show thesis by (rule refused [of r]) (unfold handleTurn_def Inl sum.case, rule refl)
next
  case (Inr q)
  then obtain r where r: "session_of st i = Some r" using admitted_session [of st i] by auto
  obtain out s w' where served: "serve_turn run (runner_call i t q) sg w = (out, s, w')"
    by (cases "serve_turn run (runner_call i t q) sg w")
  show thesis
    by (rule streamed [OF r served]) (unfold handleTurn_def Inr sum.case served prod.case, rule refl)
qed

text \<open>
  C11: a turn served from an assembled backend, with any providers, tools and cancellation: a refused
  request changes nothing; otherwise the client gets events of this turn that end exactly once, what
  it got is appended to the session's event log, the session is released, and its status is the one
  the last event decides: completed, cancelled for an \<open>aborted\<close> error, failed for any other error.
\<close>

theorem served_turn_consistent:
  "case handleTurn limit (backend_runner B) rq i t now st sg w of
     (Inl r, st', w') \<Rightarrow> st' = st \<and> w' = w
   | (Inr (t', out), st', w') \<Rightarrow>
       t' = t \<and> map_of (as_active st') i = None \<and> listEvents (as_store st') i = listEvents (as_store st) i @ out
       \<and> (\<exists>init e. out = init @ [e] \<and> agent_terminal e \<and> list_all (\<lambda>x. \<not> agent_terminal x) init
            \<and> list_all (\<lambda>x. event_request x = t) out
            \<and> map_option ss_status (session_of st' i) = Some (final_status e))"
proof (cases rule: handleTurn_cases [of limit "backend_runner B" rq i t now st sg w])
  case (streamed q out s w' r)
  from serve_backend_turn [OF streamed(2)] obtain init e where out: "out = init @ [e]" "agent_terminal e"
      "list_all (\<lambda>x. \<not> agent_terminal x) init" "s = final_status e"
    and req: "list_all (\<lambda>x. event_request x = t) out"
    by (auto simp: runner_call_def)
  let ?st = "finish_turn now i s (fold (log_event now i) out (take_session now i t st))"
  obtain r' where after: "session_of ?st i = Some r'" "ss_events r' = ss_events r @ out" "ss_status r' = s"
    using streamed(1) by (simp add: session_of_logs)
  then have "listEvents (as_store ?st) i = listEvents (as_store st) i @ out"
    using streamed(1) by (simp add: listEvents_def session_of_def)
  moreover have "map_option ss_status (session_of ?st i) = Some (final_status e)"
    unfolding out(4) [symmetric] by (simp only: after(1) option.map after(3))
  moreover have "map_of (as_active ?st) i = None" by simp
  ultimately show ?thesis
    unfolding streamed(3) prod.case sum.case using out(1-3) req by (intro conjI exI [of _ init] exI [of _ e]) simp_all
qed simp

section \<open>Turns that interleave\<close>

text \<open>
  A request for a turn between its awaits: its body is being read, or its events are streamed, with
  the state of its abort controller and what is left of the runner's source.
\<close>

datatype task =
    ReadingBody string
  | Streaming string string bool "agent_event source option"

record server_state =
  srv_api :: api_state
  srv_tasks :: "nat \<Rightarrow> task option"

fun task_session :: "task \<Rightarrow> string" where
  "task_session (ReadingBody i) = i"
| "task_session (Streaming i _ _ _) = i"

text \<open>The session and the turn a task streams for.\<close>

fun task_holds :: "task option \<Rightarrow> string \<Rightarrow> string \<Rightarrow> bool" where
  "task_holds (Some (Streaming i t _ _)) j u \<longleftrightarrow> i = j \<and> t = u"
| "task_holds _ j u \<longleftrightarrow> False"

text \<open>Random identifiers do not repeat.\<close>

definition fresh_turn :: "string \<Rightarrow> server_state \<Rightarrow> bool" where
  "fresh_turn t s \<longleftrightarrow> (\<forall>k i. \<not> task_holds (srv_tasks s k) i t)"

definition with_task :: "server_state \<Rightarrow> nat \<Rightarrow> task option \<Rightarrow> server_state" where
  "with_task s k x = s\<lparr>srv_tasks := (srv_tasks s)(k := x)\<rparr>"

definition with_api :: "server_state \<Rightarrow> api_state \<Rightarrow> server_state" where
  "with_api s a = s\<lparr>srv_api := a\<rparr>"

inductive api_step :: "server_state \<Rightarrow> server_state \<Rightarrow> bool" where
  admitted: "srv_tasks s k = None \<Longrightarrow> admit_turn (srv_api s) i = Inr () \<Longrightarrow>
    api_step s (with_task s k (Some (ReadingBody i)))"
| body_refused: "srv_tasks s k = Some (ReadingBody i) \<Longrightarrow> api_step s (with_task s k None)"
| body_read: "srv_tasks s k = Some (ReadingBody i) \<Longrightarrow> fresh_turn t s \<Longrightarrow>
    api_step s (with_task (with_api s (take_session now i t (srv_api s))) k (Some (Streaming i t False src)))"
| round: "srv_tasks s k = Some (Streaming i t b src) \<Longrightarrow> turn_round t b src = (out, Inl src') \<Longrightarrow>
    api_step s (with_task (with_api s (fold (log_event now i) out (srv_api s))) k (Some (Streaming i t b src')))"
| left: "srv_tasks s k = Some (Streaming i t b src) \<Longrightarrow> turn_round t b src = (out, Inr st) \<Longrightarrow>
    api_step s (with_task (with_api s (finish_turn now i st (fold (log_event now i) out (srv_api s)))) k None)"
| cancelled: "map_of (as_active (srv_api s)) i = Some t \<Longrightarrow> srv_tasks s k = Some (Streaming j t b src) \<Longrightarrow>
    api_step s (with_task s k (Some (Streaming j t True src)))"
| disconnected: "srv_tasks s k = Some (Streaming i t b src) \<Longrightarrow>
    api_step s (with_task s k (Some (Streaming i t True src)))"
| session_created: "session_of (srv_api s) i = None \<Longrightarrow>
    api_step s (with_api s ((srv_api s)\<lparr>as_store := snd (create_session i now (as_store (srv_api s)))\<rparr>))"

text \<open>
  The rule the API states: one turn at a time for a session.  \<open>single_tasks\<close> says that the clients
  keep it, \<open>consistent\<close> that the server's books agree with what runs.
\<close>

definition single_tasks :: "server_state \<Rightarrow> bool" where
  "single_tasks s \<longleftrightarrow>
     (\<forall>k l x y. srv_tasks s k = Some x \<longrightarrow> srv_tasks s l = Some y \<longrightarrow> task_session x = task_session y \<longrightarrow> k = l)"

definition holds_session :: "server_state \<Rightarrow> string \<Rightarrow> string \<Rightarrow> bool" where
  "holds_session s i t \<longleftrightarrow> (\<exists>k. task_holds (srv_tasks s k) i t)"

definition consistent :: "server_state \<Rightarrow> bool" where
  "consistent s \<longleftrightarrow>
     (\<forall>i t. map_of (as_active (srv_api s)) i = Some t \<longleftrightarrow> holds_session s i t)
     \<and> (\<forall>k x. srv_tasks s k = Some x \<longrightarrow> session_of (srv_api s) (task_session x) \<noteq> None)
     \<and> (\<forall>i r. session_of (srv_api s) i = Some r \<longrightarrow>
          (ss_status r = SessionRunning \<longleftrightarrow> map_of (as_active (srv_api s)) i \<noteq> None)
          \<and> ss_turn r = map_of (as_active (srv_api s)) i)"

definition no_tasks :: "api_state \<Rightarrow> server_state" where
  "no_tasks a = \<lparr>srv_api = a, srv_tasks = (\<lambda>_. None)\<rparr>"

definition empty_api :: api_state where
  "empty_api = \<lparr>as_store = [], as_active = []\<rparr>"

inductive single_reach :: "server_state \<Rightarrow> bool" where
  start: "single_reach (no_tasks empty_api)"
| step: "single_reach s \<Longrightarrow> api_step s s' \<Longrightarrow> single_tasks s' \<Longrightarrow> single_reach s'"

inductive_cases api_step_cases: "api_step s s'"

lemmas api_stepE = api_step_cases
  [consumes 1, case_names admitted body_refused body_read round left cancelled disconnected session_created]

lemma state_simps [simp]:
  "srv_api (with_task s k x) = srv_api s" "srv_tasks (with_task s k x) = (srv_tasks s)(k := x)"
  "srv_api (with_api s a) = a" "srv_tasks (with_api s a) = srv_tasks s"
  "holds_session (with_api s a) i t = holds_session s i t"
  by (simp_all add: with_task_def with_api_def holds_session_def)

lemma holds_with_task:
  "holds_session (with_task s k x) i t \<longleftrightarrow> task_holds x i t \<or> (\<exists>l. l \<noteq> k \<and> task_holds (srv_tasks s l) i t)"
  by (auto simp: holds_session_def)

text \<open>A task that keeps its session and turn changes nothing about who holds what.\<close>

lemma holds_same:
  "task_holds x = task_holds (srv_tasks s k) \<Longrightarrow> holds_session (with_task s k x) = holds_session s"
  by (intro ext) (metis holds_session_def holds_with_task)

lemma task_holds_fun [simp]:
  "task_holds None = (\<lambda>_ _. False)" "task_holds (Some (ReadingBody i)) = (\<lambda>_ _. False)"
  "task_holds (Some (Streaming i t b src)) = (\<lambda>j u. i = j \<and> t = u)"
  by (intro ext, simp)+

lemma task_holds_Some: "task_holds x i t \<Longrightarrow> \<exists>b src. x = Some (Streaming i t b src)"
  by (cases "(x, i, t)" rule: task_holds.cases) auto

lemma session_of_created [simp]:
  "session_of (a\<lparr>as_store := snd (create_session i now (as_store a))\<rparr>) j =
     (if j = i then Some (new_session i now) else session_of a j)"
  by (simp add: session_of_def create_session_def)

lemma single_other:
  "single_tasks s \<Longrightarrow> srv_tasks s k = Some x \<Longrightarrow> srv_tasks s l = Some y \<Longrightarrow> task_session x = task_session y \<Longrightarrow> l = k"
  unfolding single_tasks_def by metis

lemma consistentI:
  assumes "\<And>i t. map_of (as_active (srv_api s)) i = Some t \<longleftrightarrow> holds_session s i t"
    and "\<And>k x. srv_tasks s k = Some x \<Longrightarrow> session_of (srv_api s) (task_session x) \<noteq> None"
    and "\<And>i r. session_of (srv_api s) i = Some r \<Longrightarrow>
          (ss_status r = SessionRunning \<longleftrightarrow> map_of (as_active (srv_api s)) i \<noteq> None)
          \<and> ss_turn r = map_of (as_active (srv_api s)) i"
  shows "consistent s"
  using assms unfolding consistent_def by blast

lemma consistentD:
  assumes "consistent s"
  shows "map_of (as_active (srv_api s)) i = Some t \<longleftrightarrow> holds_session s i t"
    and "srv_tasks s k = Some x \<Longrightarrow> session_of (srv_api s) (task_session x) \<noteq> None"
    and "session_of (srv_api s) i = Some r \<Longrightarrow>
          (ss_status r = SessionRunning \<longleftrightarrow> map_of (as_active (srv_api s)) i \<noteq> None)
          \<and> ss_turn r = map_of (as_active (srv_api s)) i"
  using assms unfolding consistent_def by blast+

lemma round_status: "turn_round t b src = (out, Inr st) \<Longrightarrow> st \<noteq> SessionRunning"
  by (cases "(t, b, src)" rule: turn_round.cases) (auto split: if_splits elim: final_status.elims)

lemma consistent_start: "consistent (no_tasks empty_api)"
  by (simp add: consistent_def no_tasks_def empty_api_def holds_session_def session_of_def)

lemma consistent_same:
  assumes "consistent s" and "holds_session s' = holds_session s" and "srv_api s' = srv_api s"
    and "\<And>k x. srv_tasks s' k = Some x \<Longrightarrow> session_of (srv_api s) (task_session x) \<noteq> None"
  shows "consistent s'"
  using consistentD [OF assms(1)] assms(2-4) by (intro consistentI) auto

lemma consistent_step:
  assumes "api_step s s'" and c: "consistent s" and single: "single_tasks s"
  shows "consistent s'"
  using assms(1)
proof (cases rule: api_stepE)
  case (admitted k i)
  then show ?thesis
    using admitted_session [of "srv_api s" i] consistentD(2) [OF c]
    by (intro consistent_same [OF c]) (auto simp: holds_same split: if_splits)
next
  case (body_refused k i)
  then show ?thesis
    using consistentD(2) [OF c] by (intro consistent_same [OF c]) (auto simp: holds_same split: if_splits)
next
  case (body_read k i t now src)
  have no: "\<not> holds_session s i t'" for t'
    using single_other [OF single body_read(2)] body_read(2)
    by (auto simp: holds_session_def dest!: task_holds_Some)
  have holds: "holds_session s' j t' \<longleftrightarrow> holds_session s j t' \<or> j = i \<and> t' = t" for j t'
    using body_read(2) unfolding body_read(1) holds_with_task
    by (auto simp: holds_session_def) (metis task_holds_fun(2))+
  show ?thesis
  proof (rule consistentI)
    fix j t'
    show "map_of (as_active (srv_api s')) j = Some t' \<longleftrightarrow> holds_session s' j t'"
      using no consistentD(1) [OF c] unfolding holds by (auto simp: body_read(1))
  next
    fix l x assume "srv_tasks s' l = Some x"
    then show "session_of (srv_api s') (task_session x) \<noteq> None"
      using consistentD(2) [OF c] consistentD(2) [OF c body_read(2)] by (auto simp: body_read(1) split: if_splits)
  next
    fix j r assume "session_of (srv_api s') j = Some r"
    then show "(ss_status r = SessionRunning \<longleftrightarrow> map_of (as_active (srv_api s')) j \<noteq> None)
        \<and> ss_turn r = map_of (as_active (srv_api s')) j"
      using consistentD(3) [OF c] by (auto simp: body_read(1) split: if_splits)
  qed
next
  case (round k i t b src out src' now)
  show ?thesis
  proof (rule consistentI)
    fix j t'
    show "map_of (as_active (srv_api s')) j = Some t' \<longleftrightarrow> holds_session s' j t'"
      using consistentD(1) [OF c] round(2)
      by (simp add: round(1) holds_same [of _ "with_api s _"])
  next
    fix l x assume "srv_tasks s' l = Some x"
    then show "session_of (srv_api s') (task_session x) \<noteq> None"
      using consistentD(2) [OF c] consistentD(2) [OF c round(2)] by (auto simp: round(1) session_of_logs split: if_splits)
  next
    fix j r assume "session_of (srv_api s') j = Some r"
    then show "(ss_status r = SessionRunning \<longleftrightarrow> map_of (as_active (srv_api s')) j \<noteq> None)
        \<and> ss_turn r = map_of (as_active (srv_api s')) j"
      using consistentD(3) [OF c] by (auto simp: round(1) session_of_logs split: if_splits)
  qed
next
  case (left k i t b src out st now)
  have mine: "\<not> (l \<noteq> k \<and> task_holds (srv_tasks s l) i t')" for l t'
    using single_other [OF single left(2)] by (auto dest!: task_holds_Some)
  have holds: "holds_session s' j t' \<longleftrightarrow> holds_session s j t' \<and> j \<noteq> i" for j t'
    using mine left(2) unfolding left(1) holds_with_task
    by (auto simp: holds_session_def) (metis task_holds_fun(3))+
  show ?thesis
  proof (rule consistentI)
    fix j t'
    show "map_of (as_active (srv_api s')) j = Some t' \<longleftrightarrow> holds_session s' j t'"
      using consistentD(1) [OF c] unfolding holds by (auto simp: left(1))
  next
    fix l x assume "srv_tasks s' l = Some x"
    then show "session_of (srv_api s') (task_session x) \<noteq> None"
      using consistentD(2) [OF c] by (auto simp: left(1) session_of_logs split: if_splits)
  next
    fix j r assume "session_of (srv_api s') j = Some r"
    then show "(ss_status r = SessionRunning \<longleftrightarrow> map_of (as_active (srv_api s')) j \<noteq> None)
        \<and> ss_turn r = map_of (as_active (srv_api s')) j"
      using consistentD(3) [OF c] round_status [OF left(3)] by (auto simp: left(1) session_of_logs split: if_splits)
  qed
next
  case (cancelled i t k j b src)
  then show ?thesis
    using consistentD(2) [OF c] consistentD(2) [OF c cancelled(3)]
    by (intro consistent_same [OF c]) (auto simp: holds_same split: if_splits)
next
  case (disconnected k i t b src)
  then show ?thesis
    using consistentD(2) [OF c] consistentD(2) [OF c disconnected(2)]
    by (intro consistent_same [OF c]) (auto simp: holds_same split: if_splits)
next
  case (session_created i now)
  have "map_of (as_active (srv_api s)) i = None"
  proof (rule ccontr)
    assume "\<not> ?thesis"
    then obtain t where "map_of (as_active (srv_api s)) i = Some t" by auto
    with consistentD(1) [OF c] obtain k b src where "srv_tasks s k = Some (Streaming i t b src)"
      by (auto simp: holds_session_def dest!: task_holds_Some)
    from consistentD(2) [OF c this] session_created(2) show False by simp
  qed
  then have idle: "map_of (as_active (srv_api s)) i = None" .
  show ?thesis
  proof (rule consistentI)
    fix j t
    show "map_of (as_active (srv_api s')) j = Some t \<longleftrightarrow> holds_session s' j t"
      using consistentD(1) [OF c] by (simp add: session_created(1))
  next
    fix l x assume "srv_tasks s' l = Some x"
    then show "session_of (srv_api s') (task_session x) \<noteq> None"
      using consistentD(2) [OF c] by (simp add: session_created(1))
  next
    fix j r assume "session_of (srv_api s') j = Some r"
    then show "(ss_status r = SessionRunning \<longleftrightarrow> map_of (as_active (srv_api s')) j \<noteq> None)
        \<and> ss_turn r = map_of (as_active (srv_api s')) j"
      using consistentD(3) [OF c] idle by (auto simp: session_created(1) new_session_def split: if_splits)
  qed
qed

section \<open>One turn at a time\<close>

text \<open>
  As long as no request for a turn arrives while another one for the same session is still
  reading its body or streaming, the server's books are right in every reachable state, however
  turns of different sessions, cancellations and disconnects interleave: the active map names exactly
  the turns that stream, a session is marked \<open>running\<close> with the id of that turn just as long, and no
  streaming turn lacks its session.
\<close>

theorem single_turns_consistent: "single_reach s \<Longrightarrow> consistent s"
proof -
  assume "single_reach s"
  then have "consistent s \<and> single_tasks s"
  proof (induction rule: single_reach.induct)
    case start
    have "single_tasks (no_tasks empty_api)" by (simp add: single_tasks_def no_tasks_def)
    with consistent_start show ?case ..
  next
    case (step s s')
    then show ?case using consistent_step by blast
  qed
  then show ?thesis ..
qed

text \<open>A session, and a turn of it that streams.\<close>

definition one_session :: api_state where
  "one_session = empty_api\<lparr>as_store := snd (create_session ''s'' 1 (as_store empty_api))\<rparr>"

definition done_source :: "agent_event source option" where
  "done_source = Some ([], SrcDone)"

theorem single_turns_consistent_witness:
  "\<exists>s. single_reach s \<and> holds_session s ''s'' ''t'' \<and> consistent s"
proof -
  let ?s0 = "no_tasks empty_api" and ?s1 = "with_api (no_tasks empty_api) one_session"
  let ?s2 = "with_task ?s1 1 (Some (ReadingBody ''s''))"
  let ?s3 = "with_task (with_api ?s2 (take_session 2 ''s'' ''t'' (srv_api ?s2))) 1 (Some (Streaming ''s'' ''t'' False done_source))"
  have "api_step ?s0 ?s1"
    using api_step.session_created [of ?s0 "''s''" 1]
    by (simp add: one_session_def no_tasks_def session_of_def empty_api_def)
  moreover have "api_step ?s1 ?s2"
    by (rule api_step.admitted)
      (simp_all add: no_tasks_def admit_turn_def one_session_def empty_api_def create_session_def get_session_def)
  moreover have "api_step ?s2 ?s3"
    by (rule api_step.body_read [where src = done_source]) (simp_all add: fresh_turn_def no_tasks_def)
  moreover have "single_tasks ?s1" and "single_tasks ?s2" and "single_tasks ?s3"
    by (simp_all add: single_tasks_def no_tasks_def)
  ultimately have reach: "single_reach ?s3"
    using single_reach.start single_reach.step by blast
  have "holds_session ?s3 ''s'' ''t''" by (simp add: holds_with_task)
  with reach single_turns_consistent [OF reach] show ?thesis by blast
qed

text \<open>
  Two requests for the same session whose bodies are read at the same time: both were admitted,
  because a session is only taken once the body has arrived.
\<close>

definition two_readers :: server_state where
  "two_readers =
     with_task (with_task (with_api (no_tasks empty_api) one_session) 1 (Some (ReadingBody ''s'')))
       2 (Some (ReadingBody ''s''))"

definition two_streams :: server_state where
  "two_streams =
     with_task
       (with_api
         (with_task (with_api two_readers (take_session 2 ''s'' ''t'' (srv_api two_readers))) 1
           (Some (Streaming ''s'' ''t'' False done_source)))
         (take_session 3 ''s'' ''u'' (take_session 2 ''s'' ''t'' (srv_api two_readers))))
       2 (Some (Streaming ''s'' ''u'' False done_source))"

definition one_left :: server_state where
  "one_left =
     with_task (with_api two_streams (finish_turn 4 ''s'' SessionCompleted (srv_api two_streams))) 1 None"

lemma two_readers_reached: "api_step\<^sup>*\<^sup>* (no_tasks empty_api) two_readers"
proof -
  let ?s0 = "no_tasks empty_api" and ?s1 = "with_api (no_tasks empty_api) one_session"
  let ?s2 = "with_task ?s1 1 (Some (ReadingBody ''s''))"
  have "api_step ?s0 ?s1"
    using api_step.session_created [of ?s0 "''s''" 1]
    by (simp add: one_session_def no_tasks_def session_of_def empty_api_def)
  moreover have "api_step ?s1 ?s2"
    by (rule api_step.admitted)
      (simp_all add: no_tasks_def admit_turn_def one_session_def empty_api_def create_session_def get_session_def)
  moreover have "api_step ?s2 two_readers"
    unfolding two_readers_def
    by (rule api_step.admitted)
      (simp_all add: no_tasks_def admit_turn_def one_session_def empty_api_def create_session_def get_session_def)
  ultimately show ?thesis by (meson converse_rtranclp_into_rtranclp rtranclp.rtrancl_refl)
qed

lemma one_left_reached: "api_step\<^sup>*\<^sup>* two_readers one_left"
proof -
  let ?s1 = "with_task (with_api two_readers (take_session 2 ''s'' ''t'' (srv_api two_readers))) 1
    (Some (Streaming ''s'' ''t'' False done_source))"
  have "api_step two_readers ?s1"
    by (rule api_step.body_read) (simp_all add: two_readers_def fresh_turn_def no_tasks_def)
  moreover have "api_step ?s1 two_streams"
    using api_step.body_read [of ?s1 2 "''s''" "''u''" 3 done_source]
    by (simp add: two_streams_def two_readers_def fresh_turn_def no_tasks_def)
  moreover have "api_step two_streams one_left"
    using api_step.left [of two_streams 1 "''s''" "''t''" False done_source "[]" SessionCompleted 4]
    by (simp add: one_left_def two_streams_def done_source_def)
  ultimately show ?thesis by (meson converse_rtranclp_into_rtranclp rtranclp.rtrancl_refl)
qed

definition cancel_call :: http_call where
  "cancel_call = \<lparr>hc_method = ''POST'', hc_path = ''/v1/sessions/s/cancel'', hc_chunks = [], hc_end = BodyEnded\<rparr>"

text \<open>
  C19: the admission test does not keep the rule of one turn per session: two requests whose bodies
  arrive together are both admitted and both stream, the second one takes over the active entry, and
  when the first one ends it deletes that entry: the session is marked completed and free, and a
  cancellation answers \<open>not_running\<close> while the second turn still runs.
\<close>

theorem overlapping_turns_lose_the_session:
  "\<exists>s k src r.
     api_step\<^sup>*\<^sup>* (no_tasks empty_api) s \<and> srv_tasks s k = Some (Streaming ''s'' ''u'' False src)
     \<and> session_of (srv_api s) ''s'' = Some r \<and> ss_status r = SessionCompleted
     \<and> admit_turn (srv_api s) ''s'' = Inr ()
     \<and> fst (handle_session_route (jsnat default_max_body_bytes) cancel_call ''x'' 5 (srv_api s)) =
         sendJson 200 (JObj [(''ok'', JBool True), (''code'', JStr ''not_running''),
                             (''message'', JStr ''No turn is running.'')])"
proof (intro exI conjI)
  show "api_step\<^sup>*\<^sup>* (no_tasks empty_api) one_left"
    using two_readers_reached one_left_reached by (rule rtranclp_trans)
  show "srv_tasks one_left 2 = Some (Streaming ''s'' ''u'' False done_source)"
    by (simp add: one_left_def two_streams_def)
  let ?r = "(new_session ''s'' 1)\<lparr>ss_status := SessionCompleted, ss_turn := None, ss_updated := 4\<rparr>"
  show rec: "session_of (srv_api one_left) ''s'' = Some ?r"
    by (simp add: one_left_def two_streams_def two_readers_def one_session_def no_tasks_def)
  show "ss_status ?r = SessionCompleted" by simp
  have free: "map_of (as_active (srv_api one_left)) ''s'' = None"
    by (simp add: one_left_def two_streams_def two_readers_def one_session_def no_tasks_def)
  with rec show "admit_turn (srv_api one_left) ''s'' = Inr ()"
    by (simp add: admit_turn_def get_session_def session_of_def)
  have "route_of ''/v1/sessions/s/cancel'' = CancelRoute ''s''" by code_simp
  with rec free show "fst (handle_session_route (jsnat default_max_body_bytes) cancel_call ''x'' 5 (srv_api one_left)) =
      sendJson 200 (JObj [(''ok'', JBool True), (''code'', JStr ''not_running''), (''message'', JStr ''No turn is running.'')])"
    by (simp add: handle_session_route_def cancel_call_def get_session_def session_of_def)
qed

end
