(* ===== verification/Local_Client.thy ===== *)
theory Local_Client
  imports Api_Turns Sse_Roundtrip
begin

text \<open>
  \<open>packages/local-agent-client/src\<close>: the client of the Local Agent API that the command line and the
  desktop share.  The URL parser and \<open>fetch\<close> are parameters; a response body is a source of chunks, a
  chunk that is no byte array is \<open>None\<close>.  A promise that rejects with an error that is not one of the
  client's own is \<open>RawFailure\<close>.
\<close>

section \<open>Errors and limits\<close>

datatype client_error =
    ClientInvalidArguments
  | ClientInvalidBaseUrl
  | ClientApiUnavailable
  | ClientApiHttpError
  | ClientApiProtocolError
  | ClientStreamTooLarge
  | ClientAborted

fun client_error_code :: "client_error \<Rightarrow> string" where
  "client_error_code ClientInvalidArguments = ''invalid_arguments''"
| "client_error_code ClientInvalidBaseUrl = ''invalid_base_url''"
| "client_error_code ClientApiUnavailable = ''api_unavailable''"
| "client_error_code ClientApiHttpError = ''api_http_error''"
| "client_error_code ClientApiProtocolError = ''api_protocol_error''"
| "client_error_code ClientStreamTooLarge = ''stream_too_large''"
| "client_error_code ClientAborted = ''aborted''"

fun client_error_message :: "client_error \<Rightarrow> string" where
  "client_error_message ClientInvalidArguments = ''Local Agent client arguments are invalid.''"
| "client_error_message ClientInvalidBaseUrl = ''Local API URL is invalid.''"
| "client_error_message ClientApiUnavailable = ''Local Agent API is unavailable.''"
| "client_error_message ClientApiHttpError = ''Local Agent API request failed.''"
| "client_error_message ClientApiProtocolError = ''Local Agent API returned invalid data.''"
| "client_error_message ClientStreamTooLarge = ''Local Agent API response is too large.''"
| "client_error_message ClientAborted = ''Operation aborted.''"

datatype client_failure = ClientFailed client_error | RawFailure

definition default_max_line_bytes :: nat where "default_max_line_bytes = 256 * 1024"
definition default_max_total_bytes :: nat where "default_max_total_bytes = 16 * 1024 * 1024"
definition default_client_body_bytes :: nat where "default_client_body_bytes = 1024 * 1024"

section \<open>URLs\<close>

record loopback_url =
  lu_protocol :: string
  lu_hostname :: string
  lu_username :: string
  lu_password :: string
  lu_pathname :: string
  lu_search :: string
  lu_hash :: string
  lu_href :: string

definition strip_slash :: "string \<Rightarrow> string" where
  "strip_slash s = (if s \<noteq> [] \<and> last s = CHR ''/'' then butlast s else s)"

definition normalizeLoopbackBaseUrl :: "(string \<Rightarrow> loopback_url option) \<Rightarrow> jsval \<Rightarrow> client_error + string" where
  "normalizeLoopbackBaseUrl parse v =
     (if \<not> is_string v \<or> js_trim (as_str v) = [] then Inl ClientInvalidBaseUrl
      else
        (case parse (as_str v) of
           None \<Rightarrow> Inl ClientInvalidBaseUrl
         | Some url \<Rightarrow>
             if lu_protocol url \<noteq> ''http:''
                \<or> lu_hostname url \<notin> {''127.0.0.1'', ''localhost''}
                \<or> lu_username url \<noteq> [] \<or> lu_password url \<noteq> []
                \<or> lu_pathname url \<noteq> [] \<and> lu_pathname url \<noteq> ''/''
                \<or> lu_search url \<noteq> [] \<or> lu_hash url \<noteq> []
             then Inl ClientInvalidBaseUrl
             else Inr (strip_slash (lu_href url))))"

text \<open>\<open>encodeURIComponent\<close>: \<open>None\<close> is the \<open>URIError\<close> for a lone surrogate.\<close>

definition uri_unreserved :: "char \<Rightarrow> bool" where
  "uri_unreserved c \<longleftrightarrow>
     (let n = (of_char c :: nat) in 48 \<le> n \<and> n \<le> 57 \<or> 65 \<le> n \<and> n \<le> 90 \<or> 97 \<le> n \<and> n \<le> 122)
     \<or> c \<in> set ''-_.!~*()'' \<or> c = CHR 0x27"

fun upper_hex :: "nat \<Rightarrow> char" where
  "upper_hex n = (if n < 10 then char_of (48 + n) else char_of (55 + n))"

definition percent_byte :: "char \<Rightarrow> string" where
  "percent_byte c =
     [CHR ''%'', upper_hex ((of_char c :: nat) div 16), upper_hex ((of_char c :: nat) mod 16)]"

fun encode_uri :: "string \<Rightarrow> string option" where
  "encode_uri [] = Some []"
| "encode_uri (c # cs) =
     (if surrogate_at (c # cs) \<noteq> None then None
      else map_option ((@) (if uri_unreserved c then [c] else percent_byte c)) (encode_uri cs))"

definition encodePathSegment :: "jsval \<Rightarrow> client_failure + string" where
  "encodePathSegment v =
     (if \<not> is_string v \<or> as_str v = [] then Inl (ClientFailed ClientInvalidArguments)
      else (case encode_uri (as_str v) of None \<Rightarrow> Inl RawFailure | Some s \<Rightarrow> Inr s))"

section \<open>Events\<close>

definition exactFields :: "jsval \<Rightarrow> string list \<Rightarrow> client_error + unit" where
  "exactFields v names =
     (if length (obj_keys v) \<noteq> length names \<or> list_ex (\<lambda>k. \<not> has_own v k) names then Inl ClientApiProtocolError
      else Inr ())"

definition stringField :: "jsval \<Rightarrow> client_error + unit" where
  "stringField v = (if is_string v then Inr () else Inl ClientApiProtocolError)"

definition finiteNumberField :: "jsval \<Rightarrow> client_error + unit" where
  "finiteNumberField v = (case v of JNum n \<Rightarrow> if is_finite n then Inr () else Inl ClientApiProtocolError
     | _ \<Rightarrow> Inl ClientApiProtocolError)"

definition validateAgentEvent :: "jsval \<Rightarrow> client_error + agent_event" where
  "validateAgentEvent v =
     (let f = field v; s = (\<lambda>k. as_str (field v k)); ty = field v ''type'' in
      if \<not> is_object v then Inl ClientApiProtocolError
      else if ty = JStr ''route_selected'' then
        rbind (exactFields v [''type'', ''requestId'', ''routeId'', ''model'']) (\<lambda>_.
        rbind (rall (\<lambda>k. stringField (f k)) [''requestId'', ''routeId'', ''model'']) (\<lambda>_.
        Inr (ARouteSelected (s ''requestId'') (s ''routeId'') (s ''model''))))
      else if ty = JStr ''text_delta'' then
        rbind (exactFields v [''type'', ''requestId'', ''text'']) (\<lambda>_.
        rbind (rall (\<lambda>k. stringField (f k)) [''requestId'', ''text'']) (\<lambda>_.
        Inr (ATextDelta (s ''requestId'') (s ''text''))))
      else if ty = JStr ''tool_call'' then
        rbind (exactFields v [''type'', ''requestId'', ''id'', ''name'', ''input'']) (\<lambda>_.
        rbind (rall (\<lambda>k. stringField (f k)) [''requestId'', ''id'', ''name'']) (\<lambda>_.
        if \<not> is_object (f ''input'') then Inl ClientApiProtocolError
        else Inr (AToolCall (s ''requestId'') (f ''id'') (f ''name'') (f ''input''))))
      else if ty = JStr ''usage'' then
        rbind (exactFields v [''type'', ''requestId'', ''inputTokens'', ''outputTokens'']) (\<lambda>_.
        rbind (stringField (f ''requestId'')) (\<lambda>_.
        rbind (rall (\<lambda>k. finiteNumberField (f k)) [''inputTokens'', ''outputTokens'']) (\<lambda>_.
        Inr (AUsage (s ''requestId'') (as_num (f ''inputTokens'')) (as_num (f ''outputTokens''))))))
      else if ty = JStr ''completed'' then
        rbind (exactFields v [''type'', ''requestId'']) (\<lambda>_.
        rbind (stringField (f ''requestId'')) (\<lambda>_. Inr (ACompleted (s ''requestId''))))
      else if ty = JStr ''error'' then
        rbind (exactFields v [''type'', ''requestId'', ''code'', ''message'', ''retryable'']) (\<lambda>_.
        rbind (rall (\<lambda>k. stringField (f k)) [''requestId'', ''code'', ''message'']) (\<lambda>_.
        if \<not> is_bool (f ''retryable'') then Inl ClientApiProtocolError
        else Inr (AError (s ''requestId'') (s ''code'') (s ''message'') (f ''retryable'' = JBool True))))
      else Inl ClientApiProtocolError)"

section \<open>Lines\<close>

text \<open>\<open>buffer.split("\n")\<close>: the lines, and the last piece, which is popped.\<close>

fun split_lines :: "string \<Rightarrow> string list \<times> string" where
  "split_lines [] = ([], [])"
| "split_lines (c # cs) =
     (case split_lines cs of
        (ls, r) \<Rightarrow>
          if c = LF then ([] # ls, r)
          else (case ls of [] \<Rightarrow> ([], c # r) | l # ls' \<Rightarrow> ((c # l) # ls', r)))"

definition strip_cr :: "string \<Rightarrow> string" where
  "strip_cr l = (if l \<noteq> [] \<and> last l = CR then butlast l else l)"

text \<open>The loop over the lines of one chunk: the events it yields, and the error or \<open>terminated\<close>.\<close>

fun nd_lines :: "nat \<Rightarrow> bool \<Rightarrow> string list \<Rightarrow> agent_event list \<times> (client_error + bool)" where
  "nd_lines max_line terminated [] = ([], Inr terminated)"
| "nd_lines max_line terminated (raw # ls) =
     (let line = strip_cr raw in
      if line = [] then nd_lines max_line terminated ls
      else if max_line < utf8ByteLength line then ([], Inl ClientStreamTooLarge)
      else if terminated then ([], Inl ClientApiProtocolError)
      else
        (case json_parse line of
           None \<Rightarrow> ([], Inl ClientApiProtocolError)
         | Some v \<Rightarrow>
             (case validateAgentEvent v of
                Inl e \<Rightarrow> ([], Inl e)
              | Inr ev \<Rightarrow> (case nd_lines max_line (agent_terminal ev) ls of (es, r) \<Rightarrow> (ev # es, r)))))"

record nd_limits =
  nl_line :: nat
  nl_total :: nat

record nd_state =
  nd_decoder :: text_decoder
  nd_buffer :: string
  nd_bytes :: nat
  nd_terminated :: bool

definition nd_start :: nd_state where
  "nd_start = \<lparr>nd_decoder = td_init, nd_buffer = [], nd_bytes = 0, nd_terminated = False\<rparr>"

definition nd_chunk :: "nd_limits \<Rightarrow> string \<Rightarrow> nd_state \<Rightarrow> agent_event list \<times> (client_error + nd_state)" where
  "nd_chunk L bytes st =
     (let total = nd_bytes st + length bytes in
      if nl_total L < total then ([], Inl ClientStreamTooLarge)
      else
        (case decode_bytes (nd_decoder st) bytes of
           None \<Rightarrow> ([], Inl ClientApiProtocolError)
         | Some (d, decoded) \<Rightarrow>
             (let buffer = nd_buffer st @ decoded in
              if nl_line L < utf8ByteLength buffer \<and> LF \<notin> set buffer then ([], Inl ClientStreamTooLarge)
              else
                (case split_lines buffer of
                   (ls, r) \<Rightarrow>
                     if nl_line L < utf8ByteLength r then ([], Inl ClientStreamTooLarge)
                     else
                       (case nd_lines (nl_line L) (nd_terminated st) ls of
                          (es, Inl e) \<Rightarrow> (es, Inl e)
                        | (es, Inr t) \<Rightarrow>
                            (es, Inr \<lparr>nd_decoder = d, nd_buffer = r, nd_bytes = total, nd_terminated = t\<rparr>))))))"

definition nd_finish :: "nd_state \<Rightarrow> client_error option" where
  "nd_finish st =
     (if \<not> decode_flush_ok (nd_decoder st) then Some ClientApiProtocolError
      else if nd_buffer st \<noteq> [] \<or> \<not> nd_terminated st then Some ClientApiProtocolError
      else None)"

text \<open>
  One read: \<open>checkAbort\<close>, the test of \<open>readWithAbort\<close>, and the race with the abort event.
\<close>

definition read_aborted :: "signal \<Rightarrow> bool \<times> signal" where
  "read_aborted sg =
     (case observe sg of (a, sg1) \<Rightarrow> if a then (True, sg1) else
        (case observe sg1 of (b, sg2) \<Rightarrow> if b then (True, sg2) else observe sg2))"

fun nd_run :: "nd_limits \<Rightarrow> nd_state \<Rightarrow> string option list \<Rightarrow> src_end \<Rightarrow> signal
    \<Rightarrow> agent_event list \<times> client_failure option" where
  "nd_run L st [] en sg =
     (case read_aborted sg of (aborted, _) \<Rightarrow>
        if aborted then ([], Some (ClientFailed ClientAborted))
        else
          (case en of
             SrcThrow \<Rightarrow> ([], Some RawFailure)
           | SrcDone \<Rightarrow> ([], map_option ClientFailed (nd_finish st))))"
| "nd_run L st (value # values) en sg =
     (case read_aborted sg of (aborted, sg') \<Rightarrow>
        if aborted then ([], Some (ClientFailed ClientAborted))
        else
          (case value of
             None \<Rightarrow> ([], Some (ClientFailed ClientApiProtocolError))
           | Some bytes \<Rightarrow>
               (case nd_chunk L bytes st of
                  (es, Inl e) \<Rightarrow> (es, Some (ClientFailed e))
                | (es, Inr st') \<Rightarrow> (case nd_run L st' values en sg' of (fs, r) \<Rightarrow> (es @ fs, r)))))"

definition limit_value :: "jsval \<Rightarrow> nat \<Rightarrow> jsval" where
  "limit_value v fallback = (if nullish v then JNum (jsnat fallback) else v)"

definition safe_positive :: "jsval \<Rightarrow> bool" where
  "safe_positive v = (case v of JNum n \<Rightarrow> is_safe_integer n \<and> \<not> num_le n (Fin 0) | _ \<Rightarrow> False)"

definition read_limits :: "jsval \<Rightarrow> client_error + nd_limits" where
  "read_limits limits =
     (let line = limit_value (field limits ''maxLineBytes'') default_max_line_bytes;
          total = limit_value (field limits ''maxTotalBytes'') default_max_total_bytes in
      if \<not> safe_positive line \<or> \<not> safe_positive total then Inl ClientInvalidArguments
      else Inr \<lparr>nl_line = num_nat (as_num line), nl_total = num_nat (as_num total)\<rparr>)"

text \<open>
  The second argument is a signal or, when it is not signal-like, the limits; the third one is read only
  beside a signal.
\<close>

datatype signal_or_limits = GivenSignal signal | GivenLimits jsval

definition effective_limits :: "signal_or_limits \<Rightarrow> jsval \<Rightarrow> jsval" where
  "effective_limits second limits =
     (case second of
        GivenSignal _ \<Rightarrow> limits
      | GivenLimits v \<Rightarrow> if nullish v then JObj [] else v)"

definition given_signal :: "signal_or_limits \<Rightarrow> signal" where
  "given_signal second = (case second of GivenSignal sg \<Rightarrow> sg | GivenLimits _ \<Rightarrow> None)"

definition parseNDJSONStream :: "string option source \<Rightarrow> signal_or_limits \<Rightarrow> jsval
    \<Rightarrow> agent_event list \<times> client_failure option" where
  "parseNDJSONStream src second limits =
     (case read_limits (effective_limits second limits) of
        Inl e \<Rightarrow> ([], Some (ClientFailed e))
      | Inr L \<Rightarrow>
          (case observe (given_signal second) of (aborted, sg') \<Rightarrow>
             if aborted then ([], Some (ClientFailed ClientAborted))
             else nd_run L nd_start (fst src) (snd src) sg'))"

end
