(* ===== verification/Ndjson_Roundtrip.thy ===== *)
theory Ndjson_Roundtrip
  imports Local_Client Json_Roundtrip
begin

text \<open>
  What the server writes with \<open>writeNdjsonLine\<close> is what the client's \<open>parseNDJSONStream\<close> yields, however
  the transport cuts the bytes, and the two ways in which the reader departs from its interface.
\<close>

section \<open>One event\<close>

definition sent :: "agent_event \<Rightarrow> bool" where
  "sent e \<longleftrightarrow> json_kept (event_value e) \<and>
     (case e of AToolCall _ i n v \<Rightarrow> is_string i \<and> is_string n \<and> is_object v | _ \<Rightarrow> True)"

lemma validate_event_value: "sent e \<Longrightarrow> validateAgentEvent (event_value e) = Inr e"
  by (cases e)
    (auto simp: sent_def validateAgentEvent_def exactFields_def has_own_def stringField_def finiteNumberField_def
      is_string_iff split: jsnum.splits)

section \<open>Lines\<close>

definition line_text :: "agent_event \<Rightarrow> string" where
  "line_text e = stringify_text (event_value e)"

lemma writeNdjsonLine_text: "writeNdjsonLine e = line_text e @ [LF]"
  by (simp add: writeNdjsonLine_def line_text_def LF_def)

lemma line_text_break: "sent e \<Longrightarrow> LF \<notin> set (line_text e) \<and> CR \<notin> set (line_text e)"
  using printable_no_break [OF stringify_printable] by (simp add: sent_def line_text_def LF_def CR_def)

lemma line_text_Nil: "sent e \<Longrightarrow> line_text e \<noteq> []"
  using parse_stringify [of "event_value e"]
  by (auto simp: sent_def line_text_def json_parse_def json_lex.simps)

lemma line_text_parse: "sent e \<Longrightarrow> json_parse (line_text e) = Some (event_value e)"
  by (simp add: sent_def line_text_def parse_stringify)

lemma strip_cr_line: "CR \<notin> set l \<Longrightarrow> strip_cr l = l"
  by (metis strip_cr_def last_in_set)

lemma split_lines_joined:
  "split_lines s = (ls, r) \<Longrightarrow>
     s = concat (map (\<lambda>l. l @ [LF]) ls) @ r \<and> LF \<notin> set r \<and> list_all (\<lambda>l. LF \<notin> set l) ls"
proof (induction s arbitrary: ls r)
  case (Cons c cs)
  obtain ls' r' where rec: "split_lines cs = (ls', r')" by (cases "split_lines cs")
  from Cons.prems have "(if c = LF then ([] # ls', r')
      else (case ls' of [] \<Rightarrow> ([], c # r') | l # ls'' \<Rightarrow> ((c # l) # ls'', r'))) = (ls, r)" by (simp add: rec)
  with Cons.IH [OF rec] show ?case by (cases ls') (auto split: if_splits)
qed simp

lemma line_prefix:
  assumes "xs @ LF # s = ys @ LF # t" and "LF \<notin> set xs" and "LF \<notin> set ys"
  shows "xs = ys \<and> s = t"
  using assms
proof (induction xs arbitrary: ys)
  case Nil
  then show ?case by (cases ys) auto
next
  case (Cons x xs)
  then show ?case by (cases ys) auto
qed

text \<open>The complete lines of a prefix of the text are its first lines.\<close>

lemma lines_of_prefix:
  assumes "concat (map (\<lambda>l. l @ [LF]) ls) @ rest = concat (map (\<lambda>l. l @ [LF]) ms)"
    and "list_all (\<lambda>l. LF \<notin> set l) ls" and "list_all (\<lambda>l. LF \<notin> set l) ms"
  shows "\<exists>ns. ms = ls @ ns \<and> rest = concat (map (\<lambda>l. l @ [LF]) ns)"
  using assms
proof (induction ls arbitrary: ms)
  case (Cons l ls)
  then obtain m ms' where ms: "ms = m # ms'" by (cases ms) auto
  from Cons.prems have "l @ LF # (concat (map (\<lambda>l. l @ [LF]) ls) @ rest) = m @ LF # concat (map (\<lambda>l. l @ [LF]) ms')"
    by (simp add: ms)
  from line_prefix [OF this] Cons.prems(2,3) have "l = m"
    and eq: "concat (map (\<lambda>l. l @ [LF]) ls) @ rest = concat (map (\<lambda>l. l @ [LF]) ms')" by (simp_all add: ms)
  from Cons.IH [OF eq] Cons.prems(2,3) show ?case by (auto simp: ms \<open>l = m\<close>)
qed simp

lemma rest_below_line:
  assumes "r @ t = concat (map (\<lambda>l. l @ [LF]) ms)" and "LF \<notin> set r" and "list_all (\<lambda>l. length l \<le> n) ms"
  shows "length r \<le> n"
proof (cases ms)
  case Nil
  with assms(1) show ?thesis by simp
next
  case (Cons m ms')
  show ?thesis
  proof (rule ccontr)
    assume "\<not> length r \<le> n"
    then have "length m < length r" using assms(3) by (simp add: Cons)
    moreover have "(r @ t) ! length m = LF" using assms(1) by (simp add: Cons nth_append)
    ultimately have "r ! length m = LF" by (simp add: nth_append)
    with \<open>length m < length r\<close> assms(2) show False using nth_mem by fastforce
  qed
qed

section \<open>The stream\<close>

text \<open>The events still to come: none, or some that end with the only terminal one.\<close>

definition closes :: "agent_event list \<Rightarrow> bool" where
  "closes es \<longleftrightarrow> es = [] \<or> agent_terminal (last es) \<and> list_all (\<lambda>e. \<not> agent_terminal e) (butlast es)"

lemma closes_Cons: "closes (e # es) \<Longrightarrow> closes es \<and> (agent_terminal e \<longleftrightarrow> es = [])"
  by (cases es) (auto simp: closes_def)

lemma nd_lines_events:
  assumes "list_all sent es" and "list_all (\<lambda>e. length (line_text e) \<le> n) es" and "closes (es @ fs)"
    and "t \<longleftrightarrow> es @ fs = []"
  shows "nd_lines n t (map line_text es) = (es, Inr (fs = []))"
  using assms
proof (induction es arbitrary: t)
  case (Cons e es)
  from Cons.prems closes_Cons [of e "es @ fs"]
  have c: "closes (es @ fs)" "agent_terminal e \<longleftrightarrow> es @ fs = []" by simp_all
  have strip: "strip_cr (line_text e) = line_text e" using Cons.prems by (simp add: strip_cr_line line_text_break)
  from Cons.prems Cons.IH [OF _ _ c] show ?case
    by (simp add: strip line_text_Nil line_text_parse validate_event_value utf8ByteLength_def)
qed simp

definition body_of :: "agent_event list \<Rightarrow> string" where
  "body_of es = concat (map writeNdjsonLine es)"

lemma body_of_lines: "body_of es = concat (map (\<lambda>l. l @ [LF]) (map line_text es))"
  by (induction es) (simp_all add: body_of_def writeNdjsonLine_text)

lemma nd_run_events:
  assumes "list_all sent es" and "list_all (\<lambda>e. length (line_text e) \<le> nl_line L) es" and "closes es"
    and "nd_terminated st \<longleftrightarrow> es = []"
    and "decode_bytes (nd_decoder st) (concat cs) = Some (d, t)" and "decode_flush_ok d"
    and "nd_buffer st @ t = body_of es" and "LF \<notin> set (nd_buffer st)"
    and "nd_bytes st + length (concat cs) \<le> nl_total L"
  shows "nd_run L st (map Some cs) SrcDone None = (es, None)"
  using assms
proof (induction cs arbitrary: st es t)
  case Nil
  have "es = []"
  proof (cases es)
    case (Cons e es')
    with Nil.prems(5,7) have "LF \<in> set (nd_buffer st)" by (simp add: body_of_lines)
    with Nil.prems(8) show ?thesis by simp
  qed simp
  with Nil.prems show ?case by (simp add: read_aborted_def nd_finish_def body_of_def)
next
  case (Cons c cs)
  from Cons.prems(5) obtain d' u v where dec: "decode_bytes (nd_decoder st) c = Some (d', u)"
    and rest: "decode_bytes d' (concat cs) = Some (d, v)" and t: "t = u @ v"
    by (auto simp: decode_bytes_append split: option.splits)
  obtain ls r where spl: "split_lines (nd_buffer st @ u) = (ls, r)" by (cases "split_lines (nd_buffer st @ u)")
  from split_lines_joined [OF spl] have joined: "nd_buffer st @ u = concat (map (\<lambda>l. l @ [LF]) ls) @ r"
    and r: "LF \<notin> set r" and ls: "list_all (\<lambda>l. LF \<notin> set l) ls" by simp_all
  have free: "list_all (\<lambda>l. LF \<notin> set l) (map line_text es)"
    using Cons.prems(1) by (auto simp: list_all_iff line_text_break)
  have "concat (map (\<lambda>l. l @ [LF]) ls) @ (r @ v) = concat (map (\<lambda>l. l @ [LF]) (map line_text es))"
    using Cons.prems(7) joined unfolding t body_of_lines by (metis append.assoc)
  from lines_of_prefix [OF this ls free] obtain ns where ns: "map line_text es = ls @ ns"
    and rv: "r @ v = concat (map (\<lambda>l. l @ [LF]) ns)" by blast
  then obtain es1 es2 where es: "es = es1 @ es2" "ls = map line_text es1" "ns = map line_text es2"
    by (auto simp: map_eq_append_conv)
  have c: "closes es2" using Cons.prems(3) by (auto simp: es closes_def butlast_append split: if_splits)
  have short: "length r \<le> nl_line L"
    by (rule rest_below_line [OF rv r]) (use Cons.prems(2) in \<open>simp add: es list_all_iff\<close>)
  have lines: "nd_lines (nl_line L) (nd_terminated st) ls = (es1, Inr (es2 = []))"
    unfolding es(2) by (rule nd_lines_events) (use Cons.prems(1-4) in \<open>simp_all add: es\<close>)
  have "LF \<notin> set (nd_buffer st @ u) \<Longrightarrow> nd_buffer st @ u = r" using joined by (cases ls) auto
  then have whole: "\<not> (nl_line L < utf8ByteLength (nd_buffer st @ u) \<and> LF \<notin> set (nd_buffer st @ u))"
    using short by (metis leD utf8ByteLength_def)
  let ?st = "\<lparr>nd_decoder = d', nd_buffer = r, nd_bytes = nd_bytes st + length c, nd_terminated = (es2 = [])\<rparr>"
  have "nd_chunk L c st = (es1, Inr ?st)"
    unfolding nd_chunk_def Let_def dec option.case prod.case if_not_P [OF whole] spl lines
    using Cons.prems(9) short by (simp add: utf8ByteLength_def)
  moreover have "nd_run L ?st (map Some cs) SrcDone None = (es2, None)"
    by (rule Cons.IH [of es2 ?st v])
      (use Cons.prems c rest rv r in \<open>simp_all add: es body_of_lines\<close>)
  ultimately show ?case by (simp add: read_aborted_def es)
qed

text \<open>The text of an event is a text that the decoder keeps, the first byte of the stream is no byte order mark.\<close>

lemma utf8_text_append: "utf8_text s \<Longrightarrow> utf8_text t \<Longrightarrow> utf8_text (s @ t)"
  by (simp add: utf8_text_def decode_bytes_append)

lemma utf8_body: "list_all (\<lambda>e. utf8_text (line_text e)) es \<Longrightarrow> utf8_text (body_of es)"
proof (induction es)
  case Nil
  then show ?case by (simp add: body_of_def utf8_text_def)
next
  case (Cons e es)
  have "utf8_text [LF]" by (rule utf8_text_ascii) (simp add: LF_def)
  then have "utf8_text (writeNdjsonLine e)" using Cons.prems by (simp add: writeNdjsonLine_text utf8_text_append)
  with Cons show ?case by (simp add: body_of_def utf8_text_append)
qed

lemma line_text_brace: "sent e \<Longrightarrow> \<exists>s. line_text e = CHR ''{'' # s"
  by (cases e) (auto simp: line_text_def stringify_text_def sent_def)

lemma decode_body:
  assumes "list_all sent es" and "list_all (\<lambda>e. utf8_text (line_text e)) es" and "es \<noteq> []"
  shows "decode_bytes td_init (body_of es) = Some (td_ready, body_of es)"
proof -
  from assms(1,3) obtain s where b: "body_of es = CHR ''{'' # s"
    by (cases es) (auto simp: body_of_def writeNdjsonLine_text dest!: line_text_brace)
  have "utf8_text s" using utf8_body [OF assms(2)]
    by (auto simp: b utf8_text_def decode_ascii split: option.splits prod.splits)
  from utf8_text_prefix [OF this, of "[CHR ''{'']" td_init] show ?thesis by (simp add: b)
qed

lemma ndjson_read:
  assumes "es \<noteq> []" and "closes es" and "list_all sent es" and "list_all (\<lambda>e. utf8_text (line_text e)) es"
    and "read_limits limits = Inr L"
    and "list_all (\<lambda>e. length (line_text e) \<le> nl_line L) es" and "length (body_of es) \<le> nl_total L"
    and "concat cs = body_of es"
  shows "parseNDJSONStream (map Some cs, SrcDone) (GivenSignal None) limits = (es, None)"
proof -
  have "nd_run L nd_start (map Some cs) SrcDone None = (es, None)"
    by (rule nd_run_events [where d = td_ready and t = "body_of es"])
      (use assms decode_body [OF assms(3,4,1)] in
        \<open>simp_all add: nd_start_def decode_flush_ok_def td_ready_def td_init_def\<close>)
  then show ?thesis by (simp add: parseNDJSONStream_def effective_limits_def given_signal_def assms(5))
qed

section \<open>Properties\<close>

text \<open>
  C27: the events of a turn, of which the last one and only the last one is terminal, written by the
  server as NDJSON and delivered by the transport in any chunks, are exactly the events the client yields,
  without an error, when no line and not the whole is longer than the client's limits.
\<close>

theorem ndjson_round_trip:
  assumes "es \<noteq> []" and "closes es" and "list_all sent es" and "list_all (\<lambda>e. utf8_text (line_text e)) es"
    and "read_limits limits = Inr L"
    and "list_all (\<lambda>e. length (line_text e) \<le> nl_line L) es" and "length (body_of es) \<le> nl_total L"
    and "concat cs = body_of es"
  shows "parseNDJSONStream (map Some cs, SrcDone) (GivenSignal None) limits = (es, None)"
  using assms by (rule ndjson_read)

definition short_turn :: "agent_event list" where
  "short_turn = [ATextDelta ''t'' ''a'', ACompleted ''t'']"

lemma ndjson_round_trip_witness:
  "parseNDJSONStream (map Some [take 7 (body_of short_turn), drop 7 (body_of short_turn)], SrcDone)
     (GivenSignal None) (JObj [(''maxLineBytes'', JNum (Fin 100))]) = (short_turn, None)"
proof (rule ndjson_round_trip)
  show "read_limits (JObj [(''maxLineBytes'', JNum (Fin 100))])
      = Inr \<lparr>nl_line = 100, nl_total = default_max_total_bytes\<rparr>" by code_simp
qed (simp_all add: short_turn_def, code_simp+)

text \<open>What a chunk yields: events before the first terminal one, and at most that one; nothing after it.\<close>

lemma nd_lines_closes:
  "nd_lines n t ls = (es, r) \<Longrightarrow>
     (t \<longrightarrow> es = []) \<and> list_all (\<lambda>e. \<not> agent_terminal e) (butlast es)
     \<and> (case r of Inl _ \<Rightarrow> True | Inr t' \<Rightarrow> t' \<longleftrightarrow> (if es = [] then t else agent_terminal (last es)))"
proof (induction ls arbitrary: t es r)
  case (Cons l ls)
  show ?case
  proof (cases "strip_cr l = []")
    case True
    with Cons show ?thesis by simp
  next
    case False
    show ?thesis
    proof (cases "\<exists>v ev. \<not> n < utf8ByteLength (strip_cr l) \<and> \<not> t \<and> json_parse (strip_cr l) = Some v \<and> validateAgentEvent v = Inr ev")
      case True
      then obtain ev es' where es': "nd_lines n (agent_terminal ev) ls = (es', r)" and es: "es = ev # es'" "\<not> t"
        using Cons.prems False by (auto simp: Let_def split: prod.splits)
      from Cons.IH [OF es'] show ?thesis by (auto simp: es split: sum.splits)
    next
      case no: False
      then have "es = [] \<and> (\<exists>e. r = Inl e)"
        using Cons.prems False by (auto simp: Let_def split: if_splits option.splits sum.splits)
      then show ?thesis by auto
    qed
  qed
qed simp

lemma nd_chunk_lines:
  assumes "nd_chunk L bytes st = (es, r)"
  obtains (failed) e where "es = []" "r = Inl e"
  | (lines) ls q where "nd_lines (nl_line L) (nd_terminated st) ls = (es, q)"
      "case r of Inl _ \<Rightarrow> True | Inr st' \<Rightarrow> q = Inr (nd_terminated st')"
proof -
  obtain ls rest where spl: "split_lines (nd_buffer st @ (case decode_bytes (nd_decoder st) bytes of None \<Rightarrow> [] | Some (d, s) \<Rightarrow> s))
      = (ls, rest)" by fastforce
  obtain out q where nl: "nd_lines (nl_line L) (nd_terminated st) ls = (out, q)" by fastforce
  from assms spl nl have "es = [] \<and> (\<exists>e. r = Inl e) \<or> es = out \<and> (case r of Inl _ \<Rightarrow> True | Inr st' \<Rightarrow> q = Inr (nd_terminated st'))"
    by (auto simp: nd_chunk_def Let_def split: if_splits option.splits prod.splits sum.splits)
  with nl failed lines show thesis by blast
qed

lemma nd_chunk_closes:
  assumes "nd_chunk L bytes st = (es, r)"
  shows "(nd_terminated st \<longrightarrow> es = []) \<and> list_all (\<lambda>e. \<not> agent_terminal e) (butlast es)
    \<and> (case r of Inl _ \<Rightarrow> True
        | Inr st' \<Rightarrow> nd_terminated st' \<longleftrightarrow> (if es = [] then nd_terminated st else agent_terminal (last es)))"
  using assms
proof (cases rule: nd_chunk_lines)
  case (lines ls q)
  from nd_lines_closes [OF lines(1)] lines(2) show ?thesis by (auto split: sum.splits)
qed simp

lemma nd_run_closes:
  "nd_run L st cs en sg = (es, r) \<Longrightarrow>
     (nd_terminated st \<longrightarrow> es = []) \<and> list_all (\<lambda>e. \<not> agent_terminal e) (butlast es)
     \<and> (r = None \<longrightarrow> (if es = [] then nd_terminated st else agent_terminal (last es)))"
proof (induction L st cs en sg arbitrary: es r rule: nd_run.induct)
  case (1 L st en sg)
  then show ?case by (auto simp: nd_finish_def split: prod.splits if_splits src_end.splits)
next
  case (2 L st v cs en sg)
  obtain aborted sg' where ra: "read_aborted sg = (aborted, sg')" by (cases "read_aborted sg")
  show ?case
  proof (cases "aborted \<or> v = None")
    case True
    with "2.prems" ra have "es = [] \<and> r \<noteq> None" by (cases aborted) auto
    then show ?thesis by auto
  next
    case False
    then obtain bytes where v: "v = Some bytes" by auto
    obtain es1 q where ch: "nd_chunk L bytes st = (es1, q)" by (cases "nd_chunk L bytes st")
    note c1 = nd_chunk_closes [OF ch]
    show ?thesis
    proof (cases q)
      case (Inl e)
      with "2.prems" ra False v ch c1 show ?thesis by auto
    next
      case (Inr st')
      obtain es2 r2 where run: "nd_run L st' cs en sg' = (es2, r2)" by (cases "nd_run L st' cs en sg'")
      have es: "es = es1 @ es2" "r = r2" using "2.prems" ra False v ch Inr run by auto
      from "2.IH" [OF ra [symmetric] _ v ch [symmetric] Inr run] False
      have c2: "(nd_terminated st' \<longrightarrow> es2 = []) \<and> list_all (\<lambda>e. \<not> agent_terminal e) (butlast es2)
        \<and> (r2 = None \<longrightarrow> (if es2 = [] then nd_terminated st' else agent_terminal (last es2)))" by blast
      show ?thesis
      proof (cases "es2 = []")
        case True
        with c1 c2 Inr show ?thesis by (auto simp: es)
      next
        case False
        with c1 c2 Inr have "list_all (\<lambda>e. \<not> agent_terminal e) (butlast es1)" "es1 \<noteq> [] \<Longrightarrow> \<not> agent_terminal (last es1)"
          by auto
        then have "list_all (\<lambda>e. \<not> agent_terminal e) es1" by (cases es1 rule: rev_cases) simp_all
        with False c1 c2 Inr show ?thesis by (auto simp: es butlast_append)
      qed
    qed
  qed
qed

text \<open>
  Whatever bytes arrive, in whatever chunks, and whenever the signal fires, the client yields no event
  after a terminal one; and if it ends without an error, the last event it yielded was terminal.
\<close>

theorem client_stream_ends_once:
  "case parseNDJSONStream src second limits of
     (es, r) \<Rightarrow> list_all (\<lambda>e. \<not> agent_terminal e) (butlast es)
       \<and> (if r = None then es \<noteq> [] \<and> agent_terminal (last es) else True)"
proof -
  obtain es r where res: "parseNDJSONStream src second limits = (es, r)"
    by (cases "parseNDJSONStream src second limits")
  have "list_all (\<lambda>e. \<not> agent_terminal e) (butlast es) \<and> (r = None \<longrightarrow> es \<noteq> [] \<and> agent_terminal (last es))"
    if "nd_run L nd_start cs en sg = (es, r)" for L cs en sg
    using nd_run_closes [OF that] by (simp add: nd_start_def split: if_splits)
  with res have "list_all (\<lambda>e. \<not> agent_terminal e) (butlast es) \<and> (r = None \<longrightarrow> es \<noteq> [] \<and> agent_terminal (last es))"

    by (auto simp: parseNDJSONStream_def split: sum.splits prod.splits if_splits)
  then show ?thesis by (simp add: res)
qed

end
