(* ===== verification/Client_Calls.thy ===== *)
theory Client_Calls
  imports Ndjson_Roundtrip
begin

text \<open>
  \<open>packages/local-agent-client/src/client.ts\<close>: the constructor and the calls of the client.  \<open>fetch\<close> is a
  parameter on a world \<open>'w\<close>: it throws, rejects, or answers a response whose body is a source of
  chunks.  A signal is read where the code reads it and once more by the race of an \<open>await\<close>.
\<close>

section \<open>The client\<close>

record fetch_init =
  fi_method :: string
  fi_json :: bool
  fi_body :: "string option"

record fetched =
  fd_ok :: bool
  fd_body :: "string option source option"

datatype fetch_answer = FetchThrew | FetchRejected | FetchAnswered fetched

type_synonym 'w fetcher = "string \<Rightarrow> fetch_init \<Rightarrow> 'w \<Rightarrow> fetch_answer \<times> 'w"

record 'w api_client =
  cl_base :: string
  cl_fetch :: "'w fetcher"
  cl_line :: nat
  cl_total :: nat
  cl_body :: nat

text \<open>\<open>DEFAULT_FETCH\<close>: without a platform \<open>fetch\<close> it throws.\<close>

definition default_fetch :: "'w fetcher option \<Rightarrow> 'w fetcher" where
  "default_fetch platform url init w = (case platform of None \<Rightarrow> (FetchThrew, w) | Some f \<Rightarrow> f url init w)"

definition client_limit :: "jsval \<Rightarrow> nat \<Rightarrow> client_error + nat" where
  "client_limit v fallback =
     (let n = limit_value v fallback in
      if safe_positive n \<and> num_le (as_num n) (jsnat default_max_total_bytes) then Inr (num_nat (as_num n))
      else Inl ClientInvalidArguments)"

text \<open>The constructor: the first argument is the address or an object with the options.\<close>

definition new_client ::
  "(string \<Rightarrow> loopback_url option) \<Rightarrow> jsval \<Rightarrow> 'w fetcher option \<Rightarrow> 'w fetcher option \<Rightarrow> client_failure + 'w api_client"
where
  "new_client parse first given platform =
     (let options = (if is_string first then JObj [(''baseUrl'', first)] else first) in
      if nullish options then Inl RawFailure
      else
        (case rbind (normalizeLoopbackBaseUrl parse (field options ''baseUrl'')) (\<lambda>base.
              rbind (client_limit (field options ''maxLineBytes'') default_max_line_bytes) (\<lambda>line.
              rbind (client_limit (field options ''maxTotalBytes'') default_max_total_bytes) (\<lambda>sum.
              rbind (client_limit (field options ''maxBodyBytes'') default_client_body_bytes) (\<lambda>body.
              Inr \<lparr>cl_base = base, cl_fetch = (case given of None \<Rightarrow> default_fetch platform | Some f \<Rightarrow> f),
                   cl_line = line, cl_total = sum, cl_body = body\<rparr>)))) of
           Inl e \<Rightarrow> Inl (ClientFailed e)
         | Inr c \<Rightarrow> Inr c))"

section \<open>Requests\<close>

text \<open>\<open>#fetchResponse\<close>: the check, the call, and the race of the answer with the abort.\<close>

definition fetchResponse ::
  "'w api_client \<Rightarrow> string \<Rightarrow> fetch_init \<Rightarrow> signal \<Rightarrow> 'w \<Rightarrow> (client_error + fetched) \<times> signal \<times> 'w"
where
  "fetchResponse C url init sg w =
     (case observe sg of (aborted, sg1) \<Rightarrow>
        if aborted then (Inl ClientAborted, sg1, w)
        else
          (case cl_fetch C url init w of
             (FetchThrew, w') \<Rightarrow> (Inl ClientApiUnavailable, sg1, w')
           | (answer, w') \<Rightarrow>
               (case abort_seen sg1 of (aborted', sg2) \<Rightarrow>
                  (if aborted' then Inl ClientAborted
                   else (case answer of FetchAnswered r \<Rightarrow> Inr r | _ \<Rightarrow> Inl ClientApiUnavailable), sg2, w'))))"

text \<open>The loop of \<open>readBodyText\<close>.\<close>

fun body_text :: "nat \<Rightarrow> text_decoder \<Rightarrow> string \<Rightarrow> nat \<Rightarrow> string option list \<Rightarrow> src_end \<Rightarrow> signal \<Rightarrow> client_failure + string" where
  "body_text limit d got count [] en sg =
     (if fst (read_aborted sg) then Inl (ClientFailed ClientAborted)
      else
        (case en of
           SrcThrow \<Rightarrow> Inl RawFailure
         | SrcDone \<Rightarrow> if decode_flush_ok d then Inr got else Inl (ClientFailed ClientApiProtocolError)))"
| "body_text limit d got count (value # values) en sg =
     (case read_aborted sg of (aborted, sg') \<Rightarrow>
        if aborted then Inl (ClientFailed ClientAborted)
        else
          (case value of
             None \<Rightarrow> Inl (ClientFailed ClientApiProtocolError)
           | Some bytes \<Rightarrow>
               if limit < count + length bytes then Inl (ClientFailed ClientStreamTooLarge)
               else
                 (case decode_bytes d bytes of
                    None \<Rightarrow> Inl (ClientFailed ClientApiProtocolError)
                  | Some (d', s) \<Rightarrow> body_text limit d' (got @ s) (count + length bytes) values en sg')))"

definition readBodyText :: "fetched \<Rightarrow> signal \<Rightarrow> nat \<Rightarrow> client_failure + string" where
  "readBodyText r sg limit =
     (case fd_body r of None \<Rightarrow> Inr [] | Some (values, en) \<Rightarrow> body_text limit td_init [] 0 values en sg)"

definition serializeJson :: "jsval \<Rightarrow> client_error + string" where
  "serializeJson v = (case json_stringify v of None \<Rightarrow> Inl ClientInvalidArguments | Some s \<Rightarrow> Inr s)"

definition json_init :: "string \<Rightarrow> string option \<Rightarrow> fetch_init" where
  "json_init verb body = \<lparr>fi_method = verb, fi_json = (body \<noteq> None), fi_body = body\<rparr>"

text \<open>\<open>#fetchJson\<close> after its path is known.\<close>

definition response_json :: "'w api_client \<Rightarrow> fetched \<Rightarrow> signal \<Rightarrow> client_error + jsval" where
  "response_json C r sg =
     (if \<not> fd_ok r then Inl ClientApiHttpError
      else
        (case readBodyText r sg (cl_body C) of
           Inl (ClientFailed e) \<Rightarrow> Inl e
         | Inl RawFailure \<Rightarrow> Inl ClientApiProtocolError
         | Inr text \<Rightarrow> (case json_parse text of None \<Rightarrow> Inl ClientApiProtocolError | Some v \<Rightarrow> Inr v)))"

definition fetchJson ::
  "'w api_client \<Rightarrow> string \<Rightarrow> string \<Rightarrow> jsval option \<Rightarrow> signal \<Rightarrow> 'w \<Rightarrow> (client_error + jsval) \<times> 'w"
where
  "fetchJson C verb path body sg w =
     (case (case body of None \<Rightarrow> Inr None | Some v \<Rightarrow> rbind (serializeJson v) (\<lambda>s. Inr (Some s))) of
        Inl e \<Rightarrow> (Inl e, w)
      | Inr text \<Rightarrow>
          (case fetchResponse C (cl_base C @ path) (json_init verb text) sg w of
             (Inl e, _, w') \<Rightarrow> (Inl e, w')
           | (Inr r, sg', w') \<Rightarrow> (response_json C r sg', w')))"

section \<open>Sessions\<close>

definition validateSession :: "jsval \<Rightarrow> client_error + jsval" where
  "validateSession v =
     (let c = (if is_object v \<and> has_own v ''session'' then field v ''session'' else v) in
      if \<not> is_object c then Inl ClientApiProtocolError
      else if \<not> is_string (field c ''id'') \<or> \<not> is_string (field c ''status'')
        \<or> \<not> is_ok (finiteNumberField (field c ''createdAt'')) \<or> \<not> is_ok (finiteNumberField (field c ''updatedAt''))
        \<or> field c ''activeTurnId'' \<noteq> JUndef \<and> \<not> is_string (field c ''activeTurnId'')
        then Inl ClientApiProtocolError
      else Inr c)"

text \<open>A call on the path of a session; a bad session id fails before anything is sent.\<close>

definition session_call ::
  "'w api_client \<Rightarrow> string \<Rightarrow> jsval \<Rightarrow> string \<Rightarrow> jsval option \<Rightarrow> signal \<Rightarrow> 'w \<Rightarrow> (client_failure + jsval) \<times> 'w"
where
  "session_call C verb session rest body sg w =
     (case encodePathSegment session of
        Inl e \<Rightarrow> (Inl e, w)
      | Inr s \<Rightarrow>
          (case fetchJson C verb (''/v1/sessions/'' @ s @ rest) body sg w of
             (Inl e, w') \<Rightarrow> (Inl (ClientFailed e), w')
           | (Inr v, w') \<Rightarrow> (Inr v, w')))"

definition lift_client :: "client_error + 'a \<Rightarrow> client_failure + 'a" where
  "lift_client r = (case r of Inl e \<Rightarrow> Inl (ClientFailed e) | Inr v \<Rightarrow> Inr v)"

definition call_health :: "'w api_client \<Rightarrow> signal \<Rightarrow> 'w \<Rightarrow> (client_error + jsval) \<times> 'w" where
  "call_health C sg w = fetchJson C ''GET'' ''/health'' None sg w"

definition call_create_session :: "'w api_client \<Rightarrow> signal \<Rightarrow> 'w \<Rightarrow> (client_error + jsval) \<times> 'w" where
  "call_create_session C sg w =
     (case fetchJson C ''POST'' ''/v1/sessions'' (Some (JObj [])) sg w of
        (r, w') \<Rightarrow> (rbind r validateSession, w'))"

definition call_get_session :: "'w api_client \<Rightarrow> jsval \<Rightarrow> signal \<Rightarrow> 'w \<Rightarrow> (client_failure + jsval) \<times> 'w" where
  "call_get_session C session sg w =
     (case session_call C ''GET'' session [] None sg w of
        (r, w') \<Rightarrow> (rbind r (\<lambda>v. lift_client (validateSession v)), w'))"

definition listed_events :: "jsval \<Rightarrow> client_error + agent_event list" where
  "listed_events v =
     (if is_array v then rmap validateAgentEvent (as_arr v)
      else if is_object v \<and> is_array (field v ''events'') then rmap validateAgentEvent (as_arr (field v ''events''))
      else Inl ClientApiProtocolError)"

definition call_list_events :: "'w api_client \<Rightarrow> jsval \<Rightarrow> signal \<Rightarrow> 'w \<Rightarrow> (client_failure + agent_event list) \<times> 'w" where
  "call_list_events C session sg w =
     (case session_call C ''GET'' session ''/events'' None sg w of
        (r, w') \<Rightarrow> (rbind r (\<lambda>v. lift_client (listed_events v)), w'))"

definition call_cancel :: "'w api_client \<Rightarrow> jsval \<Rightarrow> signal \<Rightarrow> 'w \<Rightarrow> (client_failure + jsval) \<times> 'w" where
  "call_cancel C session sg w = session_call C ''POST'' session ''/cancel'' (Some (JObj [])) sg w"

section \<open>Turns\<close>

definition serializeTurnRequest :: "jsval \<Rightarrow> client_error + string" where
  "serializeTurnRequest request =
     (if \<not> is_object request \<or> \<not> is_array (field request ''messages'') then Inl ClientInvalidArguments
      else if list_ex (\<lambda>k. k \<notin> set turn_fields) (obj_keys request) then Inl ClientInvalidArguments
      else serializeJson request)"

text \<open>
  \<open>runTurn\<close>: \<open>None\<close> is a call without a signal, which passes \<open>undefined\<close> on to the reader.
\<close>

definition runTurn ::
  "'w api_client \<Rightarrow> jsval \<Rightarrow> jsval \<Rightarrow> signal option \<Rightarrow> 'w \<Rightarrow> (agent_event list \<times> client_failure option) \<times> 'w"
where
  "runTurn C session request given w =
     (case observe (case given of None \<Rightarrow> None | Some sg \<Rightarrow> sg) of (aborted, sg0) \<Rightarrow>
        if aborted then (([], Some (ClientFailed ClientAborted)), w)
        else
          (case rbind (lift_client (serializeTurnRequest request)) (\<lambda>body.
                rbind (encodePathSegment session) (\<lambda>s. Inr (body, s))) of
             Inl e \<Rightarrow> (([], Some e), w)
           | Inr (body, s) \<Rightarrow>
               (case fetchResponse C (cl_base C @ ''/v1/sessions/'' @ s @ ''/turns'')
                       (json_init ''POST'' (Some body)) sg0 w of
                  (Inl e, _, w') \<Rightarrow> (([], Some (ClientFailed e)), w')
                | (Inr r, sg1, w') \<Rightarrow>
                    if \<not> fd_ok r then (([], Some (ClientFailed ClientApiHttpError)), w')
                    else
                      (case fd_body r of
                         None \<Rightarrow> (([], Some (ClientFailed ClientApiProtocolError)), w')
                       | Some src \<Rightarrow>
                           (parseNDJSONStream src
                              (case given of None \<Rightarrow> GivenLimits JUndef | Some _ \<Rightarrow> GivenSignal sg1)
                              (JObj [(''maxLineBytes'', JNum (jsnat (cl_line C))),
                                     (''maxTotalBytes'', JNum (jsnat (cl_total C)))]), w')))))"

section \<open>Properties\<close>

text \<open>
  A turn without a signal is read with the default limits whatever limits the client was built
  with: \<open>runTurn\<close> passes \<open>undefined\<close> as the second argument of \<open>parseNDJSONStream\<close>, which then reads no
  third one.
\<close>

theorem turn_limits_need_a_signal:
  "runTurn (C\<lparr>cl_line := line, cl_total := whole\<rparr>) session request None w = runTurn C session request None w"
  by (simp add: runTurn_def fetchResponse_def parseNDJSONStream_def effective_limits_def nullish_def
      cong: if_cong option.case_cong sum.case_cong)

end
