(* ===== verification/Tauri_Client.thy ===== *)
theory Tauri_Client
  imports Desktop_View Client_Calls "HOL-Library.Sublist"
begin

text \<open>
  \<open>apps/desktop/src/tauri-api-client.ts\<close>: the client that talks to the native host through \<open>invoke\<close> and \<open>listen\<close>.  What the host answers is
  input to the definitions: a call is a parameter, and a turn is a machine that reads what happens to it (answers of the host, event envelopes,
  the abort event, requests for the next event).  Between two inputs the code runs until it waits again.
\<close>

section \<open>Checks\<close>

definition tauri_commands :: "string list" where
  "tauri_commands =
     [''agent_health'', ''agent_create_session'', ''agent_start_turn'', ''agent_cancel_turn'', ''agent_get_config'', ''agent_create_provider'',
      ''agent_update_provider'', ''agent_delete_provider'', ''agent_create_route'', ''agent_update_route'', ''agent_delete_route'',
      ''agent_set_credential'', ''agent_has_credential'', ''agent_delete_credential'']"

definition bridge_method :: "jsval \<Rightarrow> string \<Rightarrow> bool" where
  "bridge_method v name \<longleftrightarrow> is_object v \<and> field v name = JFun"

definition assertBridgeOptions :: "jsval \<Rightarrow> desktop_error + unit" where
  "assertBridgeOptions v =
     (if \<not> is_object v \<or> \<not> bridge_method v ''invoke'' \<or> \<not> bridge_method v ''listen'' then Inl DesktopConnectionFailed
      else Inr ())"

definition assertAbortSignal :: "jsval \<Rightarrow> desktop_error + unit" where
  "assertAbortSignal v =
     (if v \<noteq> JUndef \<and> (\<not> is_object v \<or> \<not> is_bool (field v ''aborted'') \<or> \<not> bridge_method v ''addEventListener''
                        \<or> \<not> bridge_method v ''removeEventListener'')
      then Inl DesktopTurnFailed else Inr ())"

text \<open>A check that throws an error of no importance: every caller replaces it.\<close>

definition non_empty :: "jsval \<Rightarrow> bool" where
  "non_empty v \<longleftrightarrow> is_string v \<and> as_str v \<noteq> []"

fun named_status :: "string \<Rightarrow> session_status option" where
  "named_status s =
     (if s = ''idle'' then Some SessionIdle else if s = ''running'' then Some SessionRunning
      else if s = ''completed'' then Some SessionCompleted else if s = ''cancelled'' then Some SessionCancelled
      else if s = ''failed'' then Some SessionFailed else None)"

definition bridge_number :: "jsval \<Rightarrow> bool" where
  "bridge_number v = (case v of JNum n \<Rightarrow> is_finite n | _ \<Rightarrow> False)"

definition parseSession :: "jsval \<Rightarrow> desktop_session option" where
  "parseSession v =
     (let c = (if is_object (field v ''session'') then field v ''session'' else v); turn_id = field c ''activeTurnId'' in
      if \<not> is_object v then None
      else if has_own v ''session'' \<and> length (obj_keys v) \<noteq> 1 then None
      else if list_ex (\<lambda>k. k \<notin> {''id'', ''status'', ''createdAt'', ''updatedAt'', ''activeTurnId''}) (obj_keys c) then None
      else if \<not> non_empty (field c ''id'') then None
      else if \<not> is_string (field c ''status'') \<or> named_status (as_str (field c ''status'')) = None then None
      else if \<not> bridge_number (field c ''createdAt'') \<or> \<not> bridge_number (field c ''updatedAt'') then None
      else if turn_id \<noteq> JUndef \<and> \<not> non_empty turn_id then None
      else Some \<lparr>ds_id = as_str (field c ''id''), ds_status = the (named_status (as_str (field c ''status''))),
                 ds_created = as_num (field c ''createdAt''), ds_updated = as_num (field c ''updatedAt''),
                 ds_active_turn = (if turn_id = JUndef then None else Some (as_str turn_id))\<rparr>)"

text \<open>\<open>cloneValue\<close> copies by assignment, like the loop's copy of a JSON value.\<close>

fun clone_value :: "jsval \<Rightarrow> jsval" where
  "clone_value (JArr vs) = JArr (map clone_value vs)"
| "clone_value (JObj kvs) = rebuild_object (map (\<lambda>kv. (fst kv, clone_value (snd kv))) kvs)"
| "clone_value (JInst kvs) = rebuild_object (map (\<lambda>kv. (fst kv, clone_value (snd kv))) kvs)"
| "clone_value v = v"

definition given_field :: "jsval \<Rightarrow> string \<Rightarrow> (string \<times> jsval) list" where
  "given_field v k = (if field v k = JUndef then [] else [(k, field v k)])"

definition cloneTurnRequest :: "jsval \<Rightarrow> jsval" where
  "cloneTurnRequest request =
     JObj ([(''messages'', JArr (map (\<lambda>m. JObj [(''role'', field m ''role''), (''content'', JArr (map clone_value (as_arr (field m ''content''))))])
              (as_arr (field request ''messages''))))]
       @ (if field request ''tools'' = JUndef then []
          else [(''tools'', JArr (map (\<lambda>t. JObj [(''name'', field t ''name''), (''description'', field t ''description''),
                  (''inputSchema'', clone_value (field t ''inputSchema''))]) (as_arr (field request ''tools''))))])
       @ given_field request ''routeId'' @ given_field request ''model'' @ given_field request ''maxTokens'')"

definition assertSafeTurnRequest :: "jsval \<Rightarrow> bool" where
  "assertSafeTurnRequest request \<longleftrightarrow>
     is_object request
     \<and> list_all (\<lambda>k. k \<in> set turn_fields) (obj_keys request)
     \<and> is_ok (validateAgentMessages (field request ''messages''))
     \<and> (field request ''tools'' = JUndef \<or> is_ok (validateAgentToolDefinitions (field request ''tools'')))
     \<and> list_all (\<lambda>k. field request k = JUndef \<or> non_empty (field request k)) [''routeId'', ''model'']
     \<and> (field request ''maxTokens'' = JUndef
        \<or> (case field request ''maxTokens'' of JNum n \<Rightarrow> is_safe_integer n \<and> \<not> num_le n (Fin 0) | _ \<Rightarrow> False))"

definition parseTurnId :: "jsval \<Rightarrow> string option" where
  "parseTurnId v =
     (if \<not> is_object v \<or> length (obj_keys v) \<noteq> 1 then None
      else if \<not> non_empty (field v ''turnId'') then None
      else Some (as_str (field v ''turnId'')))"

record turn_payload =
  tp_session :: string
  tp_turn :: string
  tp_event :: jsval

definition parseTurnEventPayload :: "jsval \<Rightarrow> turn_payload option" where
  "parseTurnEventPayload v =
     (if \<not> is_object v \<or> length (obj_keys v) \<noteq> 3 then None
      else if \<not> non_empty (field v ''sessionId'') \<or> \<not> non_empty (field v ''turnId'') then None
      else Some \<lparr>tp_session = as_str (field v ''sessionId''), tp_turn = as_str (field v ''turnId''), tp_event = field v ''event''\<rparr>)"

section \<open>Calls\<close>

text \<open>\<open>invoke\<close>: it throws or rejects (\<open>None\<close>), or answers a value.\<close>

type_synonym 'w invoker = "string \<Rightarrow> jsval option \<Rightarrow> 'w \<Rightarrow> jsval option \<times> 'w"

definition tauri_load :: "'w invoker \<Rightarrow> 'w \<Rightarrow> (desktop_error + unit) \<times> 'w" where
  "tauri_load invoke w =
     (case invoke ''agent_health'' None w of
        (Some v, w') \<Rightarrow> (if \<not> is_object v \<or> field v ''ok'' \<noteq> JBool True then Inl DesktopConnectionFailed else Inr (), w')
      | (None, w') \<Rightarrow> (Inl DesktopConnectionFailed, w'))"

definition tauri_create_session :: "'w invoker \<Rightarrow> 'w \<Rightarrow> (desktop_error + desktop_session) \<times> 'w" where
  "tauri_create_session invoke w =
     (case invoke ''agent_create_session'' None w of
        (Some v, w') \<Rightarrow> (case parseSession v of None \<Rightarrow> Inl DesktopSessionCreateFailed | Some s \<Rightarrow> Inr s, w')
      | (None, w') \<Rightarrow> (Inl DesktopSessionCreateFailed, w'))"

definition tauri_cancel_turn :: "'w invoker \<Rightarrow> jsval \<Rightarrow> jsval \<Rightarrow> 'w \<Rightarrow> (desktop_error + unit) \<times> 'w" where
  "tauri_cancel_turn invoke session turn_id w =
     (if \<not> non_empty session \<or> \<not> non_empty turn_id then (Inl DesktopCancelFailed, w)
      else
        (case invoke ''agent_cancel_turn'' (Some (JObj [(''sessionId'', session), (''turnId'', turn_id)])) w of
           (Some _, w') \<Rightarrow> (Inr (), w')
         | (None, w') \<Rightarrow> (Inl DesktopCancelFailed, w')))"


section \<open>The queue of events\<close>

datatype 'a queue_answer = QueueValue 'a | QueueDone | QueueFailed desktop_error

text \<open>A waiter is the number of the \<open>next\<close> call it belongs to; an operation answers some calls.\<close>

record 'a event_queue =
  eq_values :: "'a list"
  eq_waiters :: "nat list"
  eq_closed :: bool
  eq_failure :: "desktop_error option"

type_synonym 'a settled = "(nat \<times> 'a queue_answer) list"

definition empty_queue :: "'a event_queue" where
  "empty_queue = \<lparr>eq_values = [], eq_waiters = [], eq_closed = False, eq_failure = None\<rparr>"

definition queue_push :: "'a \<Rightarrow> 'a event_queue \<Rightarrow> 'a settled \<times> 'a event_queue" where
  "queue_push v q =
     (if eq_closed q then ([], q)
      else
        (case eq_waiters q of
           w # ws \<Rightarrow> ([(w, QueueValue v)], q\<lparr>eq_waiters := ws\<rparr>)
         | [] \<Rightarrow> ([], q\<lparr>eq_values := eq_values q @ [v]\<rparr>)))"

text \<open>\<open>#drain\<close>: one value to one waiter, then the end to all, when no value is left.\<close>

definition drain_one :: "'a event_queue \<Rightarrow> 'a settled \<times> 'a event_queue" where
  "drain_one q =
     (case (eq_values q, eq_waiters q) of
        (v # vs, w # ws) \<Rightarrow> ([(w, QueueValue v)], q\<lparr>eq_values := vs, eq_waiters := ws\<rparr>)
      | _ \<Rightarrow> ([], q))"

definition queue_drain :: "'a event_queue \<Rightarrow> 'a settled \<times> 'a event_queue" where
  "queue_drain q0 =
     (case drain_one q0 of
        (first, q) \<Rightarrow>
          if eq_values q \<noteq> [] then (first, q)
          else
            (first
               @ (case eq_failure q of
                    Some e \<Rightarrow> map (\<lambda>w. (w, QueueFailed e)) (eq_waiters q)
                  | None \<Rightarrow> if eq_closed q then map (\<lambda>w. (w, QueueDone)) (eq_waiters q) else []),
             q\<lparr>eq_waiters := []\<rparr>))"

definition queue_close :: "'a event_queue \<Rightarrow> 'a settled \<times> 'a event_queue" where
  "queue_close q = queue_drain (q\<lparr>eq_closed := True\<rparr>)"

definition queue_fail :: "desktop_error \<Rightarrow> 'a event_queue \<Rightarrow> 'a settled \<times> 'a event_queue" where
  "queue_fail e q =
     queue_drain
       (if eq_closed q \<and> eq_failure q = None then q\<lparr>eq_failure := Some e\<rparr>
        else if \<not> eq_closed q then q\<lparr>eq_failure := Some e, eq_closed := True\<rparr>
        else q)"

definition queue_next :: "nat \<Rightarrow> 'a event_queue \<Rightarrow> 'a settled \<times> 'a event_queue" where
  "queue_next i q =
     (case eq_values q of
        v # vs \<Rightarrow> ([(i, QueueValue v)], q\<lparr>eq_values := vs\<rparr>)
      | [] \<Rightarrow>
          (case eq_failure q of
             Some e \<Rightarrow> ([(i, QueueFailed e)], q)
           | None \<Rightarrow> if eq_closed q then ([(i, QueueDone)], q) else ([], q\<lparr>eq_waiters := eq_waiters q @ [i]\<rparr>)))"

subsection \<open>First in, first out\<close>

datatype 'a queue_op = QPush 'a | QClose | QFail desktop_error | QNext

text \<open>A history of the queue: the answers so far, the number of the next call, the queue.\<close>

type_synonym 'a queue_history = "'a settled \<times> nat \<times> 'a event_queue"

fun queue_act :: "'a queue_history \<Rightarrow> 'a queue_op \<Rightarrow> 'a queue_history" where
  "queue_act (ans, n, q) (QPush v) = (case queue_push v q of (s, q') \<Rightarrow> (ans @ s, n, q'))"
| "queue_act (ans, n, q) QClose = (case queue_close q of (s, q') \<Rightarrow> (ans @ s, n, q'))"
| "queue_act (ans, n, q) (QFail e) = (case queue_fail e q of (s, q') \<Rightarrow> (ans @ s, n, q'))"
| "queue_act (ans, n, q) QNext = (case queue_next n q of (s, q') \<Rightarrow> (ans @ s, n + 1, q'))"

definition queue_history :: "'a queue_op list \<Rightarrow> 'a queue_history" where
  "queue_history ops = foldl queue_act ([], 0, empty_queue) ops"

text \<open>The values the queue takes: those pushed before it is closed or fails.\<close>

fun taken :: "'a queue_op list \<Rightarrow> 'a list" where
  "taken [] = []"
| "taken (QPush v # ops) = v # taken ops"
| "taken (QNext # ops) = taken ops"
| "taken (_ # ops) = []"

definition shut :: "'a queue_op list \<Rightarrow> bool" where
  "shut ops \<longleftrightarrow> list_ex (\<lambda>x. case x of QClose \<Rightarrow> True | QFail _ \<Rightarrow> True | _ \<Rightarrow> False) ops"

fun answer_value :: "'a queue_answer \<Rightarrow> 'a list" where
  "answer_value (QueueValue v) = [v]"
| "answer_value _ = []"

definition answered_values :: "'a settled \<Rightarrow> 'a list" where
  "answered_values ans = concat (map (\<lambda>a. answer_value (snd a)) ans)"

definition next_calls :: "'a queue_op list \<Rightarrow> nat" where
  "next_calls ops = length (filter (\<lambda>x. case x of QNext \<Rightarrow> True | _ \<Rightarrow> False) ops)"

lemma taken_snoc:
  "taken (ops @ [x]) = (if shut ops then taken ops else taken ops @ (case x of QPush v \<Rightarrow> [v] | _ \<Rightarrow> []))"
  by (induction ops rule: taken.induct) (auto simp: shut_def split: queue_op.splits)

lemma shut_snoc: "shut (ops @ [x]) \<longleftrightarrow> shut ops \<or> (case x of QClose \<Rightarrow> True | QFail _ \<Rightarrow> True | _ \<Rightarrow> False)"
  by (auto simp: shut_def)

lemma next_calls_snoc: "next_calls (ops @ [x]) = next_calls ops + (case x of QNext \<Rightarrow> 1 | _ \<Rightarrow> 0)"
  by (simp add: next_calls_def split: queue_op.split)

lemma answered_append: "answered_values (a @ b) = answered_values a @ answered_values b"
  by (simp add: answered_values_def)

text \<open>A call waits only while nothing is there and the queue is open.\<close>

definition queue_ok :: "'a event_queue \<Rightarrow> bool" where
  "queue_ok q \<longleftrightarrow> (eq_waiters q = [] \<or> eq_values q = [] \<and> \<not> eq_closed q) \<and> (eq_failure q = None \<or> eq_closed q)"

definition history_ok :: "'a queue_op list \<Rightarrow> 'a queue_history \<Rightarrow> bool" where
  "history_ok ops h =
     (case h of (ans, n, q) \<Rightarrow>
        queue_ok q \<and> n = next_calls ops \<and> eq_closed q = shut ops
        \<and> map fst ans @ eq_waiters q = [0..<n]
        \<and> answered_values ans @ eq_values q = taken ops)"

lemma queue_history_snoc: "queue_history (ops @ [x]) = queue_act (queue_history ops) x"
  by (simp add: queue_history_def)

lemma queue_history_ok: "history_ok ops (queue_history ops)"
proof (induction ops rule: rev_induct)
  case Nil
  show ?case
    by (simp add: history_ok_def queue_history_def queue_ok_def empty_queue_def next_calls_def shut_def answered_values_def)
next
  case (snoc x ops)
  obtain ans n q where h: "queue_history ops = (ans, n, q)" by (metis prod_cases3)
  note defs = history_ok_def queue_history_snoc h taken_snoc shut_snoc next_calls_snoc answered_append queue_ok_def
  from snoc h have ok: "history_ok ops (ans, n, q)" by simp
  show ?case
  proof (cases x)
    case (QPush v)
    with ok show ?thesis
      by (cases "eq_waiters q") (auto simp: defs queue_push_def answered_values_def)
  next
    case QClose
    with ok show ?thesis
      by (cases "eq_values q"; cases "eq_waiters q")
        (auto simp: defs queue_close_def queue_drain_def drain_one_def answered_values_def o_def split: option.splits)
  next
    case (QFail e)
    with ok show ?thesis
      by (cases "eq_values q"; cases "eq_waiters q")
        (auto simp: defs queue_fail_def queue_drain_def drain_one_def answered_values_def o_def split: option.splits)
  next
    case QNext
    with ok show ?thesis
      by (cases "eq_values q") (auto simp: defs queue_next_def answered_values_def split: option.splits)
  qed
qed

text \<open>
  C31: the queue hands out what was pushed, in order, and keeps nobody waiting in vain.  After any sequence of operations the calls of \<open>next\<close> that
  were answered are the first ones, each answered once; the values they got, followed by the values in the queue, are those pushed before the queue was
  closed; and a call waits only while the queue is open and empty.
\<close>

theorem queue_is_fifo:
  "case queue_history ops of (ans, n, q) \<Rightarrow>
     map fst ans @ eq_waiters q = [0..<next_calls ops]
     \<and> answered_values ans @ eq_values q = taken ops
     \<and> (eq_waiters q = [] \<or> eq_values q = [] \<and> \<not> shut ops)"
proof -
  obtain ans n q where h: "queue_history ops = (ans, n, q)" by (metis prod_cases3)
  with queue_history_ok [of ops] show ?thesis by (auto simp: history_ok_def queue_ok_def)
qed


section \<open>A turn\<close>

record turn_config =
  tc_session :: jsval
  tc_request :: jsval
  tc_signal :: jsval

datatype turn_end = TurnReturned | TurnDropped | TurnAborted | TurnThrew

text \<open>Where the generator stands: not started, awaiting the listener, the start of the turn or an event, after a \<open>yield\<close>, or over.\<close>

datatype turn_phase = TurnIdle | TurnListening | TurnStarting | TurnWaiting nat | TurnYielded | TurnOver turn_end

record tauri_turn =
  tt_phase :: turn_phase
  tt_queue :: "agent_event event_queue"
  tt_calls :: nat
  tt_turn_id :: string
  tt_pending :: "jsval list"
  tt_aborted :: bool
  tt_yielded :: "agent_event list"
  tt_handler :: bool
  tt_listen_settled :: bool
  tt_unlisten :: bool
  tt_cleanup :: bool
  tt_released :: bool
  tt_unlistened :: nat
  tt_started :: "jsval list"

definition max_pending :: nat where "max_pending = 256"

definition new_turn :: "turn_config \<Rightarrow> tauri_turn" where
  "new_turn C =
     \<lparr>tt_phase = TurnIdle, tt_queue = empty_queue, tt_calls = 0, tt_turn_id = [], tt_pending = [],
      tt_aborted = (field (tc_signal C) ''aborted'' = JBool True), tt_yielded = [], tt_handler = False, tt_listen_settled = False,
      tt_unlisten = False, tt_cleanup = False, tt_released = False, tt_unlistened = 0, tt_started = []\<rparr>"

text \<open>The listener is released once; the \<open>finally\<close> block.\<close>

definition release_listener :: "tauri_turn \<Rightarrow> tauri_turn" where
  "release_listener st =
     (if tt_released st then st else st\<lparr>tt_released := True, tt_unlistened := tt_unlistened st + 1\<rparr>)"

definition end_turn :: "turn_end \<Rightarrow> tauri_turn \<Rightarrow> tauri_turn" where
  "end_turn e st =
     (let st1 = st\<lparr>tt_phase := TurnOver e, tt_cleanup := True, tt_queue := snd (queue_close (tt_queue st))\<rparr> in
      if tt_unlisten st1 then release_listener st1 else st1)"

text \<open>The \<open>catch\<close> block for an error that is not the abort.\<close>

definition fail_turn :: "tauri_turn \<Rightarrow> tauri_turn" where
  "fail_turn st = end_turn (if tt_aborted st then TurnAborted else TurnThrew) st"

text \<open>The awaited call of \<open>next\<close> was answered.\<close>

definition resume_turn :: "agent_event queue_answer \<Rightarrow> tauri_turn \<Rightarrow> tauri_turn" where
  "resume_turn a st =
     (case a of
        QueueValue v \<Rightarrow> st\<lparr>tt_yielded := tt_yielded st @ [v], tt_phase := TurnYielded\<rparr>
      | QueueDone \<Rightarrow> end_turn TurnReturned st
      | QueueFailed _ \<Rightarrow> fail_turn st)"

definition wake :: "agent_event settled \<times> tauri_turn \<Rightarrow> tauri_turn" where
  "wake r =
     (case r of (sa, st) \<Rightarrow>
        (case tt_phase st of
           TurnWaiting i \<Rightarrow> (case map_of sa i of None \<Rightarrow> st | Some a \<Rightarrow> resume_turn a st)
         | _ \<Rightarrow> st))"

text \<open>One round of the loop: the abort flag, then the next event.\<close>

definition await_event :: "tauri_turn \<Rightarrow> tauri_turn" where
  "await_event st =
     (if tt_aborted st then end_turn TurnAborted st
      else
        (case queue_next (tt_calls st) (tt_queue st) of
           (sa, q) \<Rightarrow>
             wake (sa, st\<lparr>tt_queue := q, tt_calls := tt_calls st + 1, tt_phase := TurnWaiting (tt_calls st)\<rparr>)))"

definition on_queue :: "(agent_event event_queue \<Rightarrow> agent_event settled \<times> agent_event event_queue) \<Rightarrow> tauri_turn \<Rightarrow> agent_event settled \<times> tauri_turn" where
  "on_queue f st = (case f (tt_queue st) of (sa, q) \<Rightarrow> (sa, st\<lparr>tt_queue := q\<rparr>))"

fun safe_event :: "agent_event \<Rightarrow> agent_event" where
  "safe_event (AError r code _ b) =
     AError r code (if code = ''aborted'' then gateway_aborted_message else gateway_error_message) b"
| "safe_event e = e"

text \<open>What an envelope of this turn carries, if it is well formed.\<close>

definition relayed_event :: "jsval \<Rightarrow> agent_event option" where
  "relayed_event v =
     (case parseTurnEventPayload v of
        None \<Rightarrow> None
      | Some p \<Rightarrow> (case validateAgentEvent (tp_event p) of Inl _ \<Rightarrow> None | Inr e \<Rightarrow> Some (safe_event e)))"

text \<open>Pushing an event and closing the queue after the last one.\<close>

definition push_event :: "agent_event \<Rightarrow> agent_event event_queue \<Rightarrow> agent_event settled \<times> agent_event event_queue" where
  "push_event e q =
     (case queue_push e q of (a, q1) \<Rightarrow>
        if agent_terminal e then (case queue_close q1 of (b, q2) \<Rightarrow> (a @ b, q2)) else (a, q1))"

text \<open>\<open>acceptEvent\<close>, the handler of the host's events.\<close>

definition accept_event :: "turn_config \<Rightarrow> jsval \<Rightarrow> tauri_turn \<Rightarrow> agent_event settled \<times> tauri_turn" where
  "accept_event C v st =
     (if \<not> is_object v then on_queue (queue_fail DesktopTurnFailed) st
      else if field v ''sessionId'' \<noteq> tc_session C then ([], st)
      else if tt_turn_id st = [] then
        (if max_pending \<le> length (tt_pending st) then on_queue (queue_fail DesktopTurnFailed) st
         else ([], st\<lparr>tt_pending := tt_pending st @ [v]\<rparr>))
      else if field v ''turnId'' \<noteq> JStr (tt_turn_id st) then ([], st)
      else
        (case relayed_event v of
           None \<Rightarrow> on_queue (queue_fail DesktopTurnFailed) st
         | Some e \<Rightarrow> on_queue (push_event e) st))"

text \<open>What can happen to a turn.\<close>

datatype turn_input =
    Pull
  | Abandon
  | ListenAnswer bool
  | StartAnswer "jsval option"
  | Envelope jsval
  | AbortEvent

definition begin_turn :: "turn_config \<Rightarrow> tauri_turn \<Rightarrow> tauri_turn" where
  "begin_turn C st =
     (if \<not> is_ok (assertAbortSignal (tc_signal C)) then fail_turn st
      else if tt_aborted st then end_turn TurnAborted st
      else if \<not> non_empty (tc_session C) \<or> \<not> assertSafeTurnRequest (tc_request C) then fail_turn st
      else st\<lparr>tt_handler := True, tt_phase := TurnListening\<rparr>)"

definition listen_answered :: "turn_config \<Rightarrow> bool \<Rightarrow> tauri_turn \<Rightarrow> tauri_turn" where
  "listen_answered C ok st0 =
     (let st = st0\<lparr>tt_listen_settled := True\<rparr>;
          st1 = (if ok \<and> tt_cleanup st then release_listener st else st) in
      if tt_phase st1 \<noteq> TurnListening then st1
      else if \<not> ok then fail_turn st1
      else st1\<lparr>tt_unlisten := True, tt_phase := TurnStarting,
               tt_started := tt_started st1 @ [JObj [(''sessionId'', tc_session C), (''request'', cloneTurnRequest (tc_request C))]]\<rparr>)"

definition start_answered :: "turn_config \<Rightarrow> jsval option \<Rightarrow> tauri_turn \<Rightarrow> tauri_turn" where
  "start_answered C answer st =
     (case answer of
        None \<Rightarrow> fail_turn st
      | Some v \<Rightarrow>
          (case parseTurnId v of
             None \<Rightarrow> fail_turn st
           | Some i \<Rightarrow>
               await_event (foldl (\<lambda>s p. snd (accept_event C p s)) (st\<lparr>tt_turn_id := i, tt_pending := []\<rparr>) (tt_pending st))))"

fun turn_step :: "turn_config \<Rightarrow> tauri_turn \<Rightarrow> turn_input \<Rightarrow> tauri_turn" where
  "turn_step C st Pull =
     (case tt_phase st of TurnIdle \<Rightarrow> begin_turn C st | TurnYielded \<Rightarrow> await_event st | _ \<Rightarrow> st)"
| "turn_step C st Abandon =
     (case tt_phase st of
        TurnIdle \<Rightarrow> st\<lparr>tt_phase := TurnOver TurnDropped\<rparr>
      | TurnYielded \<Rightarrow> end_turn TurnDropped st
      | _ \<Rightarrow> st)"
| "turn_step C st (ListenAnswer ok) =
     (if tt_handler st \<and> \<not> tt_listen_settled st then listen_answered C ok st else st)"
| "turn_step C st (StartAnswer answer) = (if tt_phase st = TurnStarting then start_answered C answer st else st)"
| "turn_step C st (Envelope v) = (if tt_handler st then wake (accept_event C v st) else st)"
| "turn_step C st AbortEvent =
     (if tc_signal C = JUndef then st
      else
        (let st1 = st\<lparr>tt_aborted := True\<rparr> in
         case tt_phase st of
           TurnListening \<Rightarrow> end_turn TurnAborted st1
         | TurnStarting \<Rightarrow> end_turn TurnAborted st1
         | TurnWaiting _ \<Rightarrow> end_turn TurnAborted st1
         | _ \<Rightarrow> st1))"

definition turn_run :: "turn_config \<Rightarrow> turn_input list \<Rightarrow> tauri_turn" where
  "turn_run C ins = foldl (turn_step C) (new_turn C) ins"


section \<open>What a turn yields\<close>

text \<open>
  The events of a turn as a function of the envelopes alone: those of the session and of the turn, in order, up to the first terminal event or the
  first envelope that is malformed.
\<close>

datatype relay_end = RelayOpen | RelayDone | RelayBroken

definition relay_step :: "jsval \<Rightarrow> string \<Rightarrow> agent_event list \<times> relay_end \<Rightarrow> jsval \<Rightarrow> agent_event list \<times> relay_end" where
  "relay_step S t r v =
     (case r of (R, x) \<Rightarrow>
        if x \<noteq> RelayOpen then (R, x)
        else if \<not> is_object v then (R, RelayBroken)
        else if field v ''sessionId'' \<noteq> S \<or> field v ''turnId'' \<noteq> JStr t then (R, x)
        else
          (case relayed_event v of
             None \<Rightarrow> (R, RelayBroken)
           | Some e \<Rightarrow> (R @ [e], if agent_terminal e then RelayDone else RelayOpen)))"

definition relay :: "jsval \<Rightarrow> string \<Rightarrow> jsval list \<Rightarrow> agent_event list \<times> relay_end" where
  "relay S t vs = foldl (relay_step S t) ([], RelayOpen) vs"

lemma relay_Nil [simp]: "relay S t [] = ([], RelayOpen)"
  by (simp add: relay_def)

lemma relay_snoc [simp]: "relay S t (vs @ [v]) = relay_step S t (relay S t vs) v"
  by (simp add: relay_def)

text \<open>The envelopes that reach the handler: those after the first call of \<open>next\<close>.\<close>

definition envelopes :: "turn_input list \<Rightarrow> jsval list" where
  "envelopes ins = concat (map (\<lambda>i. case i of Envelope v \<Rightarrow> [v] | _ \<Rightarrow> []) ins)"

definition heard :: "turn_input list \<Rightarrow> jsval list" where
  "heard ins = envelopes (dropWhile (\<lambda>i. i \<noteq> Pull) ins)"

text \<open>\<open>linked R x Y q\<close>: what was handed out and what the queue holds is the relay.\<close>

definition linked :: "agent_event list \<times> relay_end \<Rightarrow> agent_event list \<Rightarrow> agent_event event_queue \<Rightarrow> bool" where
  "linked r Y q \<longleftrightarrow>
     prefix (Y @ eq_values q) (fst r)
     \<and> (eq_failure q = None \<longrightarrow> Y @ eq_values q = fst r \<and> snd r = (if eq_closed q then RelayDone else RelayOpen))"

lemma relay_grows: "prefix (fst r) (fst (relay_step S t r v))"
  by (cases r) (auto simp: relay_step_def split: option.split)

lemma linked_fail:
  assumes "linked r Y q" and "queue_ok q" and "queue_fail e q = (sa, q')"
  shows "linked (relay_step S t r v) (Y @ answered_values sa) q'" and "queue_ok q'" and "eq_failure q' \<noteq> None" and "eq_waiters q' = []"
    and "eq_waiters q = [] \<Longrightarrow> sa = []" and "eq_waiters q = [i] \<Longrightarrow> sa = [(i, QueueFailed e)]"
proof -
  have shape: "queue_ok q' \<and> eq_failure q' \<noteq> None \<and> eq_waiters q' = [] \<and> eq_values q' = eq_values q
      \<and> answered_values sa = [] \<and> (eq_waiters q = [] \<longrightarrow> sa = []) \<and> (eq_waiters q = [i] \<longrightarrow> sa = [(i, QueueFailed e)])"
    using assms(2,3)
    by (cases "eq_values q"; cases "eq_waiters q")
      (auto simp: queue_ok_def queue_fail_def queue_drain_def drain_one_def answered_values_def o_def split: if_splits option.splits)
  moreover have "prefix (Y @ eq_values q) (fst (relay_step S t r v))"
    using assms(1) relay_grows [of r S t v] by (auto simp: linked_def intro: prefix_order.trans)
  ultimately show "linked (relay_step S t r v) (Y @ answered_values sa) q'"
    by (auto simp: linked_def)
  from shape show "queue_ok q'" and "eq_failure q' \<noteq> None" and "eq_waiters q' = []"
    and "eq_waiters q = [] \<Longrightarrow> sa = []" and "eq_waiters q = [i] \<Longrightarrow> sa = [(i, QueueFailed e)]" by simp_all
qed

lemma linked_push:
  assumes "linked r Y q" and "queue_ok q" and "push_event e q = (sa, q')"
    and step: "snd r = RelayOpen \<Longrightarrow> r' = (fst r @ [e], if agent_terminal e then RelayDone else RelayOpen)"
    and stay: "snd r \<noteq> RelayOpen \<Longrightarrow> r' = r" and grows: "prefix (fst r) (fst r')"
  shows "linked r' (Y @ answered_values sa) q'" and "queue_ok q'"
    and "eq_waiters q = [] \<Longrightarrow> sa = [] \<and> eq_waiters q' = []" and "eq_waiters q = [i] \<Longrightarrow> sa = [(i, QueueValue e)] \<and> eq_waiters q' = []"
proof -
  show "eq_waiters q = [] \<Longrightarrow> sa = [] \<and> eq_waiters q' = []" and "eq_waiters q = [i] \<Longrightarrow> sa = [(i, QueueValue e)] \<and> eq_waiters q' = []"
    using assms(2,3)
    by (auto simp: push_event_def queue_ok_def queue_push_def queue_close_def queue_drain_def drain_one_def split: if_splits list.splits option.splits)
  show "queue_ok q'"
    using assms(2,3)
    by (auto simp: push_event_def queue_ok_def queue_push_def queue_close_def queue_drain_def drain_one_def split: if_splits list.splits option.splits)
  show "linked r' (Y @ answered_values sa) q'"
  proof (cases "eq_closed q")
    case True
    with assms(2,3) have "q' = q" and "sa = []"
      by (auto simp: push_event_def queue_ok_def queue_push_def queue_close_def queue_drain_def drain_one_def split: if_splits list.splits option.splits)
    moreover have "prefix (Y @ eq_values q) (fst r')" using assms(1) grows by (auto simp: linked_def intro: prefix_order.trans)
    moreover have "eq_failure q = None \<Longrightarrow> r' = r" using assms(1) True stay by (simp add: linked_def)
    ultimately show ?thesis using assms(1) by (auto simp: linked_def answered_values_def)
  next
    case False
    with assms(1,2) have "eq_failure q = None" and eq: "Y @ eq_values q = fst r" and open_: "snd r = RelayOpen"
      by (auto simp: linked_def queue_ok_def)
    moreover have "eq_failure q' = None \<and> eq_closed q' = agent_terminal e \<and> answered_values sa @ eq_values q' = eq_values q @ [e]"
      using assms(2,3) False \<open>eq_failure q = None\<close>
      by (auto simp: push_event_def queue_ok_def queue_push_def queue_close_def queue_drain_def drain_one_def answered_values_def
          split: if_splits list.splits option.splits)
    ultimately show ?thesis using step by (simp add: linked_def)
  qed
qed


subsection \<open>The invariant of a turn\<close>

definition of_session :: "turn_config \<Rightarrow> jsval \<Rightarrow> bool" where
  "of_session C v \<longleftrightarrow> field v ''sessionId'' = tc_session C"

text \<open>Running: after the start of the turn was answered.  Over: what holds to the end.\<close>

definition running_ok :: "agent_event list \<times> relay_end \<Rightarrow> tauri_turn \<Rightarrow> bool" where
  "running_ok r st \<longleftrightarrow>
     queue_ok (tt_queue st) \<and> linked r (tt_yielded st) (tt_queue st)
     \<and> (case tt_phase st of TurnWaiting i \<Rightarrow> eq_waiters (tt_queue st) = [i] | _ \<Rightarrow> eq_waiters (tt_queue st) = [])"

definition over_ok :: "agent_event list \<times> relay_end \<Rightarrow> tauri_turn \<Rightarrow> bool" where
  "over_ok r st \<longleftrightarrow> prefix (tt_yielded st) (fst r) \<and> (tt_phase st = TurnOver TurnReturned \<longrightarrow> r = (tt_yielded st, RelayDone))"

definition early_ok :: "turn_config \<Rightarrow> jsval list \<Rightarrow> tauri_turn \<Rightarrow> bool" where
  "early_ok C vs st \<longleftrightarrow>
     tt_yielded st = [] \<and> queue_ok (tt_queue st) \<and> eq_values (tt_queue st) = [] \<and> eq_waiters (tt_queue st) = []
     \<and> list_all is_object (tt_pending st)
     \<and> (if eq_closed (tt_queue st) then eq_failure (tt_queue st) \<noteq> None
        else list_all is_object vs \<and> tt_pending st = filter (of_session C) vs)"

definition turn_ok :: "turn_config \<Rightarrow> jsval list \<Rightarrow> tauri_turn \<Rightarrow> bool" where
  "turn_ok C vs st \<longleftrightarrow>
     (case tt_phase st of
        TurnIdle \<Rightarrow> \<not> tt_handler st \<and> tt_turn_id st = [] \<and> early_ok C [] st
      | TurnListening \<Rightarrow> tt_handler st \<and> tt_turn_id st = [] \<and> early_ok C vs st
      | TurnStarting \<Rightarrow> tt_handler st \<and> tt_turn_id st = [] \<and> early_ok C vs st
      | TurnOver _ \<Rightarrow> over_ok (relay (tc_session C) (tt_turn_id st) vs) st
      | _ \<Rightarrow> tt_handler st \<and> tt_turn_id st \<noteq> [] \<and> running_ok (relay (tc_session C) (tt_turn_id st) vs) st)"

lemma release_simps [simp]:
  "tt_phase (release_listener st) = tt_phase st" "tt_yielded (release_listener st) = tt_yielded st"
  "tt_turn_id (release_listener st) = tt_turn_id st" "tt_queue (release_listener st) = tt_queue st"
  "tt_handler (release_listener st) = tt_handler st" "tt_aborted (release_listener st) = tt_aborted st"
  "tt_pending (release_listener st) = tt_pending st" "tt_cleanup (release_listener st) = tt_cleanup st"
  "tt_unlisten (release_listener st) = tt_unlisten st" "tt_listen_settled (release_listener st) = tt_listen_settled st"
  by (simp_all add: release_listener_def)

lemma finish_simps [simp]:
  "tt_phase (end_turn e st) = TurnOver e" "tt_yielded (end_turn e st) = tt_yielded st"
  "tt_turn_id (end_turn e st) = tt_turn_id st" "tt_handler (end_turn e st) = tt_handler st"
  by (simp_all add: end_turn_def Let_def)

lemma over_turn_ok:
  assumes "e \<noteq> TurnReturned" and "prefix (tt_yielded st) (fst (relay (tc_session C) (tt_turn_id st) vs))"
  shows "turn_ok C vs (end_turn e st)"
  using assms by (simp add: turn_ok_def over_ok_def)

lemma fail_turn_ok:
  assumes "prefix (tt_yielded st) (fst (relay (tc_session C) (tt_turn_id st) vs))"
  shows "turn_ok C vs (fail_turn st)"
  using assms unfolding fail_turn_def by (intro over_turn_ok) auto

lemma running_prefix: "running_ok r st \<Longrightarrow> prefix (tt_yielded st) (fst r)"
  by (auto simp: running_ok_def linked_def dest: append_prefixD)

lemma await_ok:
  assumes "tt_handler st" and "tt_turn_id st \<noteq> []" and "queue_ok (tt_queue st)" and "eq_waiters (tt_queue st) = []"
    and "linked (relay (tc_session C) (tt_turn_id st) vs) (tt_yielded st) (tt_queue st)"
  shows "turn_ok C vs (await_event st)"
proof -
  let ?r = "relay (tc_session C) (tt_turn_id st) vs"
  have pre: "prefix (tt_yielded st) (fst ?r)" using assms(5) by (auto simp: linked_def dest: append_prefixD)
  show ?thesis
  proof (cases "tt_aborted st")
    case True
    then show ?thesis using pre by (simp add: await_event_def over_turn_ok)
  next
    case False
    show ?thesis
    proof (cases "eq_values (tt_queue st)")
      case (Cons v vs')
      with False assms show ?thesis
        by (auto simp: await_event_def queue_next_def wake_def resume_turn_def turn_ok_def running_ok_def linked_def queue_ok_def)
    next
      case Nil
      show ?thesis
      proof (cases "eq_failure (tt_queue st)")
        case None
        with False Nil assms show ?thesis
          by (cases "eq_closed (tt_queue st)"; cases ?r)
            (auto simp: await_event_def queue_next_def wake_def resume_turn_def turn_ok_def running_ok_def over_ok_def linked_def queue_ok_def)
      next
        case (Some e)
        then show ?thesis
          using False Nil pre by (simp add: await_event_def queue_next_def wake_def resume_turn_def fail_turn_ok)
      qed
    qed
  qed
qed

text \<open>An envelope that is handled once the turn is known.\<close>

lemma accept_running:
  assumes "queue_ok (tt_queue st)" and "linked (relay (tc_session C) (tt_turn_id st) vs) Y (tt_queue st)" and "tt_turn_id st \<noteq> []"
    and "accept_event C v st = (sa, st')"
  shows "\<exists>q'. st' = st\<lparr>tt_queue := q'\<rparr> \<and> queue_ok q' \<and> linked (relay (tc_session C) (tt_turn_id st) (vs @ [v])) (Y @ answered_values sa) q'
    \<and> (eq_waiters (tt_queue st) = [] \<longrightarrow> sa = [] \<and> eq_waiters q' = [])
    \<and> (\<forall>i. eq_waiters (tt_queue st) = [i] \<longrightarrow>
         sa = [] \<and> eq_waiters q' = [i] \<or> eq_waiters q' = [] \<and> (\<exists>a. sa = [(i, a)] \<and> a \<noteq> QueueDone \<and> (answer_value a = [] \<longrightarrow> eq_failure q' \<noteq> None)))"
proof -
  let ?S = "tc_session C" and ?t = "tt_turn_id st" and ?q = "tt_queue st"
  let ?r = "relay ?S ?t vs"
  consider (broken) "\<not> is_object v \<or> of_session C v \<and> field v ''turnId'' = JStr ?t \<and> relayed_event v = None"
    | (ours) e where "is_object v" "of_session C v" "field v ''turnId'' = JStr ?t" "relayed_event v = Some e"
    | (other) "is_object v" "\<not> of_session C v \<or> field v ''turnId'' \<noteq> JStr ?t"
    by (cases "relayed_event v") auto
  then show ?thesis
  proof cases
    case broken
    obtain b q' where f: "queue_fail DesktopTurnFailed ?q = (b, q')" by fastforce
    with broken assms(3,4) have "sa = b" and st': "st' = st\<lparr>tt_queue := q'\<rparr>"
      by (auto simp: accept_event_def on_queue_def of_session_def split: if_splits)
    with linked_fail(1) [OF assms(2,1) f, of ?S ?t v] linked_fail(2-4) [OF assms(2,1) f] linked_fail(5) [OF assms(2,1) f] linked_fail(6) [OF assms(2,1) f] show ?thesis
      by (intro exI [of _ q']) auto
  next
    case (ours e)
    obtain b q' where f: "push_event e ?q = (b, q')" by fastforce
    with ours assms(3,4) have "sa = b" and st': "st' = st\<lparr>tt_queue := q'\<rparr>"
      by (auto simp: accept_event_def on_queue_def of_session_def split: if_splits)
    moreover have "linked (relay ?S ?t (vs @ [v])) (Y @ answered_values b) q'" "queue_ok q'"
      using linked_push(1,2) [OF assms(2,1) f, of "relay ?S ?t (vs @ [v])"] ours relay_grows [of ?r ?S ?t v]
      by (auto simp: relay_step_def of_session_def split: prod.splits)
    moreover have "snd ?r = RelayOpen \<Longrightarrow> relay ?S ?t (vs @ [v]) = (fst ?r @ [e], if agent_terminal e then RelayDone else RelayOpen)"
      and "snd ?r \<noteq> RelayOpen \<Longrightarrow> relay ?S ?t (vs @ [v]) = ?r" and "prefix (fst ?r) (fst (relay ?S ?t (vs @ [v])))"
      using ours relay_grows [of ?r ?S ?t v] by (auto simp: relay_step_def of_session_def split: prod.splits)
    note w = linked_push(3,4) [OF assms(2,1) f this]
    ultimately show ?thesis using w by (intro exI [of _ q']) auto
  next
    case other
    with assms(3,4) have "sa = []" and "st' = st"
      by (auto simp: accept_event_def of_session_def split: if_splits)
    moreover have "relay ?S ?t (vs @ [v]) = ?r" using other by (auto simp: relay_step_def of_session_def split: prod.split)
    ultimately show ?thesis using assms(1,2) by (intro exI [of _ ?q]) (auto simp: answered_values_def)
  qed
qed


lemma accept_keeps:
  assumes "accept_event C v st = (sa, st')"
  shows "tt_phase st' = tt_phase st" and "tt_yielded st' = tt_yielded st" and "tt_turn_id st' = tt_turn_id st" and "tt_handler st' = tt_handler st"
    and "tt_unlisten st' = tt_unlisten st" and "tt_released st' = tt_released st" and "tt_unlistened st' = tt_unlistened st"
    and "tt_listen_settled st' = tt_listen_settled st" and "tt_cleanup st' = tt_cleanup st"
  using assms by (auto simp: accept_event_def on_queue_def split: if_splits prod.splits option.splits)

lemma wake_idle: "(\<And>i. tt_phase st \<noteq> TurnWaiting i) \<Longrightarrow> wake (sa, st) = st"
  by (auto simp: wake_def split: turn_phase.split)

lemma envelope_running:
  assumes "turn_ok C vs st" and "tt_phase st = TurnYielded \<or> tt_phase st = TurnWaiting i"
  shows "turn_ok C (vs @ [v]) (wake (accept_event C v st))"
proof -
  let ?S = "tc_session C" and ?t = "tt_turn_id st"
  let ?r = "relay ?S ?t vs" and ?r' = "relay ?S ?t (vs @ [v])"
  obtain sa st' where a: "accept_event C v st = (sa, st')" by fastforce
  from assms have run: "running_ok ?r st" and t: "?t \<noteq> []" and h: "tt_handler st" by (auto simp: turn_ok_def)
  then have q: "queue_ok (tt_queue st)" "linked ?r (tt_yielded st) (tt_queue st)" by (auto simp: running_ok_def)
  from accept_running [OF q t a] obtain q' where st': "st' = st\<lparr>tt_queue := q'\<rparr>" and ok: "queue_ok q'"
    and l: "linked ?r' (tt_yielded st @ answered_values sa) q'"
    and none: "eq_waiters (tt_queue st) = [] \<Longrightarrow> sa = [] \<and> eq_waiters q' = []"
    and one: "eq_waiters (tt_queue st) = [i] \<Longrightarrow> sa = [] \<and> eq_waiters q' = [i]
      \<or> eq_waiters q' = [] \<and> (\<exists>a. sa = [(i, a)] \<and> a \<noteq> QueueDone \<and> (answer_value a = [] \<longrightarrow> eq_failure q' \<noteq> None))"
    by blast
  show ?thesis
  proof (cases "tt_phase st = TurnYielded")
    case True
    with run have "eq_waiters (tt_queue st) = []" by (simp add: running_ok_def)
    with True none l ok t h show ?thesis by (simp add: a st' wake_def turn_ok_def running_ok_def answered_values_def)
  next
    case False
    with assms(2) have ph: "tt_phase st = TurnWaiting i" by simp
    with run have "eq_waiters (tt_queue st) = [i]" by (simp add: running_ok_def)
    from one [OF this] show ?thesis
    proof (elim disjE conjE exE)
      assume "sa = []" and "eq_waiters q' = [i]"
      with ph l ok t h show ?thesis by (simp add: a st' wake_def turn_ok_def running_ok_def answered_values_def)
    next
      fix b assume b: "eq_waiters q' = []" "sa = [(i, b)]" "b \<noteq> QueueDone" "answer_value b = [] \<longrightarrow> eq_failure q' \<noteq> None"
      show ?thesis
      proof (cases b)
        case (QueueValue e)
        with b ph l ok t h show ?thesis
          by (simp add: a st' wake_def resume_turn_def turn_ok_def running_ok_def answered_values_def)
      next
        case (QueueFailed e)
        then have "prefix (tt_yielded st) (fst ?r')" using l b by (auto simp: linked_def answered_values_def dest: append_prefixD)
        then show ?thesis
          using QueueFailed b ph by (simp add: a st' wake_def resume_turn_def fail_turn_ok)
      qed (use b in simp)
    qed
  qed
qed

lemma envelope_over:
  assumes "turn_ok C vs st" and "tt_phase st = TurnOver e"
  shows "turn_ok C (vs @ [v]) (wake (accept_event C v st))"
proof -
  obtain sa st' where a: "accept_event C v st = (sa, st')" by fastforce
  note k = accept_keeps [OF a]
  let ?r = "relay (tc_session C) (tt_turn_id st) vs"
  from assms have o: "over_ok ?r st" by (simp add: turn_ok_def)
  then have "prefix (tt_yielded st) (fst (relay (tc_session C) (tt_turn_id st) (vs @ [v])))"
    using relay_grows [of ?r "tc_session C" "tt_turn_id st" v] by (auto simp: over_ok_def intro: prefix_order.trans)
  moreover have "?r = (tt_yielded st, RelayDone) \<Longrightarrow> relay (tc_session C) (tt_turn_id st) (vs @ [v]) = (tt_yielded st, RelayDone)"
    by (simp add: relay_step_def)
  ultimately have "over_ok (relay (tc_session C) (tt_turn_id st') (vs @ [v])) st'"
    using o k by (auto simp: over_ok_def)
  then show ?thesis using assms(2) k by (simp add: a wake_idle turn_ok_def)
qed

lemma envelope_early:
  assumes "early_ok C vs st" and "tt_turn_id st = []" and "accept_event C v st = (sa, st')"
  shows "early_ok C (vs @ [v]) st'"
proof -
  obtain b q' where f: "queue_fail DesktopTurnFailed (tt_queue st) = (b, q')" by fastforce
  have "eq_values q' = [] \<and> eq_waiters q' = [] \<and> queue_ok q' \<and> eq_closed q' \<and> eq_failure q' \<noteq> None"
    using assms(1) f
    by (auto simp: early_ok_def queue_ok_def queue_fail_def queue_drain_def drain_one_def split: if_splits option.splits)
  with assms f show ?thesis
    by (auto simp: early_ok_def accept_event_def on_queue_def of_session_def split: if_splits)
qed

text \<open>The envelopes kept back are handled when the turn is known.\<close>

lemma replay_open:
  assumes "queue_ok (tt_queue st)" and "eq_waiters (tt_queue st) = []" and "tt_turn_id st \<noteq> []"
    and "linked (relay (tc_session C) (tt_turn_id st) us) Y (tt_queue st)"
  shows "\<exists>q'. foldl (\<lambda>s p. snd (accept_event C p s)) st ps = st\<lparr>tt_queue := q'\<rparr> \<and> queue_ok q' \<and> eq_waiters q' = []
    \<and> linked (relay (tc_session C) (tt_turn_id st) (us @ ps)) Y q'"
  using assms
proof (induction ps arbitrary: st us)
  case Nil
  then show ?case by (intro exI [of _ "tt_queue st"]) simp
next
  case (Cons p ps)
  obtain sa st' where a: "accept_event C p st = (sa, st')" by fastforce
  from accept_running [OF Cons.prems(1,4,3) a] Cons.prems(2) obtain q' where st': "st' = st\<lparr>tt_queue := q'\<rparr>" and "queue_ok q'"
    and l: "linked (relay (tc_session C) (tt_turn_id st) (us @ [p])) (Y @ answered_values sa) q'" and "sa = []" "eq_waiters q' = []"
    by blast
  moreover from l \<open>sa = []\<close> have "linked (relay (tc_session C) (tt_turn_id st) (us @ [p])) Y q'" by (simp add: answered_values_def)
  ultimately show ?case
    using Cons.IH [of st' "us @ [p]"] Cons.prems(3) by (simp add: a)
qed

lemma replay_closed:
  assumes "eq_closed (tt_queue st)" and "eq_failure (tt_queue st) \<noteq> None" and "eq_values (tt_queue st) = []" and "eq_waiters (tt_queue st) = []"
    and "tt_turn_id st \<noteq> []"
  shows "foldl (\<lambda>s p. snd (accept_event C p s)) st ps = st"
proof (induction ps)
  case (Cons p ps)
  have "snd (accept_event C p st) = st"
    using assms
    by (auto simp: accept_event_def on_queue_def queue_fail_def push_event_def queue_push_def queue_close_def queue_drain_def drain_one_def
        split: option.split)
  with Cons show ?case by simp
qed simp

lemma relay_of_session: "list_all is_object vs \<Longrightarrow> relay (tc_session C) t (filter (of_session C) vs) = relay (tc_session C) t vs"
proof (induction vs rule: rev_induct)
  case (snoc v vs)
  then show ?case by (auto simp: of_session_def relay_step_def split: prod.split)
qed simp

lemma start_ok:
  assumes "early_ok C vs st" and "tt_turn_id st = []" and "tt_handler st"
  shows "turn_ok C vs (start_answered C answer st)"
proof (cases answer)
  case None
  with assms(1) show ?thesis by (simp add: start_answered_def fail_turn_ok early_ok_def)
next
  case (Some v)
  show ?thesis
  proof (cases "parseTurnId v")
    case None
    with Some assms(1) show ?thesis by (simp add: start_answered_def fail_turn_ok early_ok_def)
  next
    case (Some i)
    then have i: "i \<noteq> []" by (auto simp: parseTurnId_def non_empty_def split: if_splits)
    define st0 where "st0 = st\<lparr>tt_turn_id := i, tt_pending := []\<rparr>"
    have st0: "tt_turn_id st0 = i" "tt_handler st0" "tt_yielded st0 = []" "queue_ok (tt_queue st0)" "eq_waiters (tt_queue st0) = []"
      "eq_values (tt_queue st0) = []"
      using assms by (simp_all add: st0_def early_ok_def)
    have go: "start_answered C answer st = await_event (foldl (\<lambda>s p. snd (accept_event C p s)) st0 (tt_pending st))"
      using \<open>answer = Some v\<close> Some by (simp add: start_answered_def st0_def)
    show ?thesis
    proof (cases "eq_closed (tt_queue st)")
      case True
      with assms(1) have "eq_closed (tt_queue st0)" "eq_failure (tt_queue st0) \<noteq> None" by (simp_all add: early_ok_def st0_def)
      with replay_closed [of st0] st0 i go have "start_answered C answer st = await_event st0" by simp
      moreover have "linked (relay (tc_session C) (tt_turn_id st0) vs) (tt_yielded st0) (tt_queue st0)"
        using st0 \<open>eq_failure (tt_queue st0) \<noteq> None\<close> by (auto simp: linked_def)
      ultimately show ?thesis using await_ok [of st0 C vs] st0 i by simp
    next
      case False
      with assms(1) have objs: "list_all is_object vs" and p: "tt_pending st = filter (of_session C) vs" by (simp_all add: early_ok_def)
      from False assms(1) have "linked (relay (tc_session C) (tt_turn_id st0) []) [] (tt_queue st0)"
        by (auto simp: linked_def early_ok_def st0_def queue_ok_def)
      from replay_open [OF st0(4,5) _ this, of "tt_pending st"] st0 i obtain q' where
        f: "foldl (\<lambda>s p. snd (accept_event C p s)) st0 (tt_pending st) = st0\<lparr>tt_queue := q'\<rparr>" and "queue_ok q'" "eq_waiters q' = []"
        and "linked (relay (tc_session C) i ([] @ tt_pending st)) [] q'" by auto
      then show ?thesis
        using await_ok [of "st0\<lparr>tt_queue := q'\<rparr>" C vs] st0 i go by (simp add: p relay_of_session [OF objs])
    qed
  qed
qed


subsection \<open>All runs\<close>

lemma envelopes_append [simp]: "envelopes (a @ b) = envelopes a @ envelopes b"
  by (simp add: envelopes_def)

lemma heard_snoc: "heard (ins @ [i]) = (if Pull \<in> set ins then heard ins @ envelopes [i] else [])"
proof (cases "Pull \<in> set ins")
  case False
  then have "dropWhile (\<lambda>i. i \<noteq> Pull) ins = []" by (auto simp: dropWhile_eq_Nil_conv)
  with False show ?thesis by (simp add: heard_def dropWhile_append envelopes_def)
qed (simp add: heard_def dropWhile_append1)

lemma over_grows:
  assumes "turn_ok C vs st" and "tt_phase st = TurnOver e"
  shows "turn_ok C (vs @ envelopes [i]) st"
proof (cases i)
  case (Envelope v)
  let ?r = "relay (tc_session C) (tt_turn_id st) vs"
  from assms have o: "over_ok ?r st" by (simp add: turn_ok_def)
  moreover have "prefix (fst ?r) (fst (relay (tc_session C) (tt_turn_id st) (vs @ [v])))"
    using relay_grows [of ?r "tc_session C" "tt_turn_id st" v] by simp
  moreover have "?r = (tt_yielded st, RelayDone) \<Longrightarrow> relay (tc_session C) (tt_turn_id st) (vs @ [v]) = (tt_yielded st, RelayDone)"
    by (simp add: relay_step_def)
  ultimately have "over_ok (relay (tc_session C) (tt_turn_id st) (vs @ [v])) st"
    by (auto simp: over_ok_def intro: prefix_order.trans)
  with assms(2) Envelope show ?thesis by (simp add: turn_ok_def envelopes_def)
qed (use assms in \<open>simp_all add: envelopes_def\<close>)

lemma turn_ok_cong:
  assumes "turn_ok C vs st" and "tt_phase st = TurnOver e" and "tt_phase st' = TurnOver e"
    and "tt_yielded st' = tt_yielded st" and "tt_turn_id st' = tt_turn_id st"
  shows "turn_ok C vs st'"
  using assms by (simp add: turn_ok_def over_ok_def)

lemma over_step:
  assumes "turn_ok C vs st" and "tt_phase st = TurnOver e"
  shows "turn_ok C (vs @ envelopes [i]) (turn_step C st i)"
proof (cases i)
  case (Envelope v)
  then show ?thesis
    using envelope_over [OF assms, of v] over_grows [OF assms, of i] by (simp add: envelopes_def)
next
  case (ListenAnswer ok)
  have "turn_ok C vs (listen_answered C ok st)"
    by (rule turn_ok_cong [OF assms]) (simp_all add: listen_answered_def Let_def assms(2))
  with ListenAnswer assms(1) show ?thesis by (simp add: envelopes_def)
next
  case AbortEvent
  have "turn_ok C vs (st\<lparr>tt_aborted := True\<rparr>)"
    by (rule turn_ok_cong [OF assms]) (simp_all add: assms(2))
  with AbortEvent assms show ?thesis by (simp add: envelopes_def Let_def)
qed (use assms in \<open>simp_all add: envelopes_def\<close>)

lemma begin_ok: "turn_ok C [] st \<Longrightarrow> tt_phase st = TurnIdle \<Longrightarrow> turn_ok C [] (begin_turn C st)"
  by (auto simp: begin_turn_def intro!: fail_turn_ok over_turn_ok) (auto simp: turn_ok_def early_ok_def)

lemma running_step:
  assumes "turn_ok C vs st" and "tt_phase st = TurnYielded \<or> tt_phase st = TurnWaiting k"
  shows "turn_ok C (vs @ envelopes [i]) (turn_step C st i)"
proof -
  let ?r = "relay (tc_session C) (tt_turn_id st) vs"
  from assms have run: "running_ok ?r st" "tt_turn_id st \<noteq> []" "tt_handler st" by (auto simp: turn_ok_def)
  note pre = running_prefix [OF run(1)]
  show ?thesis
  proof (cases i)
    case Pull
    have "tt_phase st = TurnYielded \<Longrightarrow> turn_ok C vs (await_event st)"
      using run by (intro await_ok) (auto simp: running_ok_def)
    with Pull assms show ?thesis by (auto simp: envelopes_def)
  next
    case Abandon
    with assms pre show ?thesis by (auto simp: envelopes_def intro: over_turn_ok)
  next
    case (ListenAnswer ok)
    from assms have "tt_phase st \<noteq> TurnListening" by auto
    then have "turn_ok C vs (listen_answered C ok st)"
      using assms run by (auto simp: listen_answered_def Let_def turn_ok_def running_ok_def)
    with ListenAnswer assms(1) show ?thesis by (simp add: envelopes_def)
  next
    case (StartAnswer a)
    with assms show ?thesis by (auto simp: envelopes_def)
  next
    case (Envelope v)
    with envelope_running [OF assms, of v] run(3) show ?thesis by (simp add: envelopes_def)
  next
    case AbortEvent
    have "tt_phase st = TurnYielded \<Longrightarrow> turn_ok C vs (st\<lparr>tt_aborted := True\<rparr>)"
      using run by (auto simp: turn_ok_def running_ok_def)
    moreover have "turn_ok C vs (end_turn TurnAborted (st\<lparr>tt_aborted := True\<rparr>))"
      using pre by (intro over_turn_ok) simp_all
    ultimately show ?thesis using AbortEvent assms by (auto simp: envelopes_def Let_def)
  qed
qed

lemma early_step:
  assumes "turn_ok C vs st" and "tt_phase st = TurnListening \<or> tt_phase st = TurnStarting"
  shows "turn_ok C (vs @ envelopes [i]) (turn_step C st i)"
proof -
  from assms have early: "early_ok C vs st" "tt_turn_id st = []" "tt_handler st" by (auto simp: turn_ok_def)
  then have y: "tt_yielded st = []" by (simp add: early_ok_def)
  have over: "turn_ok C vs (end_turn TurnAborted (st\<lparr>tt_aborted := True\<rparr>))" using y by (intro over_turn_ok) simp_all
  show ?thesis
  proof (cases i)
    case (ListenAnswer ok)
    have "turn_ok C vs (listen_answered C ok st)"
      using assms early y by (auto simp: listen_answered_def Let_def intro!: fail_turn_ok) (auto simp: turn_ok_def early_ok_def)
    with ListenAnswer assms(1) show ?thesis by (simp add: envelopes_def)
  next
    case (StartAnswer a)
    with assms start_ok [OF early, of a] show ?thesis by (auto simp: envelopes_def)
  next
    case (Envelope v)
    obtain sa st' where a: "accept_event C v st = (sa, st')" by fastforce
    note k = accept_keeps [OF a]
    have "early_ok C (vs @ [v]) st'" by (rule envelope_early [OF early(1,2) a])
    then have "turn_ok C (vs @ [v]) st'" using assms(2) early k by (auto simp: turn_ok_def)
    moreover have "wake (sa, st') = st'" using assms(2) k by (intro wake_idle) auto
    ultimately show ?thesis using Envelope early(3) by (simp add: a envelopes_def)
  next
    case AbortEvent
    with assms over show ?thesis by (auto simp: envelopes_def Let_def)
  qed (use assms in \<open>auto simp: envelopes_def\<close>)
qed


lemma fail_phase [simp]: "\<exists>e. tt_phase (fail_turn st) = TurnOver e" "tt_phase (fail_turn st) \<noteq> TurnIdle"
  by (simp_all add: fail_turn_def)

lemma resume_phase: "tt_phase (resume_turn a st) \<noteq> TurnIdle"
  by (simp add: resume_turn_def split: queue_answer.split)

lemma wake_phase: "tt_phase (snd r) \<noteq> TurnIdle \<Longrightarrow> tt_phase (wake r) \<noteq> TurnIdle"
  by (auto simp: wake_def resume_phase split: prod.split turn_phase.split option.split)

lemma await_phase: "tt_phase (await_event st) \<noteq> TurnIdle"
  by (simp add: await_event_def wake_phase split: prod.split)

lemma begin_started: "tt_phase (begin_turn C st) \<noteq> TurnIdle"
  by (simp add: begin_turn_def)

lemma step_started: "tt_phase st \<noteq> TurnIdle \<Longrightarrow> tt_phase (turn_step C st i) \<noteq> TurnIdle"
proof (cases i)
  case (Envelope v)
  then show "tt_phase st \<noteq> TurnIdle \<Longrightarrow> tt_phase (turn_step C st i) \<noteq> TurnIdle"
    by (cases "accept_event C v st") (auto simp: wake_phase accept_keeps)
qed (auto simp: listen_answered_def start_answered_def Let_def await_phase split: turn_phase.splits option.splits)

lemma dropped_stays:
  assumes "tt_phase st = TurnOver e" and "\<not> tt_handler st"
  shows "tt_phase (turn_step C st i) = TurnOver e \<and> \<not> tt_handler (turn_step C st i) \<and> tt_yielded (turn_step C st i) = tt_yielded st"
  using assms by (cases i) (simp_all add: Let_def)

lemma turn_run_ok: "turn_ok C (heard ins) (turn_run C ins) \<and> (tt_phase (turn_run C ins) = TurnIdle \<longrightarrow> Pull \<notin> set ins)
  \<and> (Pull \<notin> set ins \<longrightarrow> tt_phase (turn_run C ins) = TurnIdle \<or> tt_phase (turn_run C ins) = TurnOver TurnDropped)
  \<and> (Pull \<notin> set ins \<longrightarrow> \<not> tt_handler (turn_run C ins) \<and> tt_yielded (turn_run C ins) = [])"
proof (induction ins rule: rev_induct)
  case Nil
  show ?case by (simp add: turn_run_def new_turn_def turn_ok_def early_ok_def queue_ok_def empty_queue_def)
next
  case (snoc i ins)
  let ?st = "turn_run C ins"
  have run: "turn_run C (ins @ [i]) = turn_step C ?st i" by (simp add: turn_run_def)
  show ?case
  proof (cases "Pull \<in> set ins")
    case True
    then have h: "heard (ins @ [i]) = heard ins @ envelopes [i]" by (simp add: heard_snoc)
    from snoc True have ok: "turn_ok C (heard ins) ?st" and "tt_phase ?st \<noteq> TurnIdle" by auto
    then consider e where "tt_phase ?st = TurnOver e" | k where "tt_phase ?st = TurnYielded \<or> tt_phase ?st = TurnWaiting k"
      | "tt_phase ?st = TurnListening \<or> tt_phase ?st = TurnStarting" by (cases "tt_phase ?st") auto
    then have "turn_ok C (heard ins @ envelopes [i]) (turn_step C ?st i)"
    proof cases
      case 1
      then show ?thesis by (rule over_step [OF ok])
    next
      case 2
      then show ?thesis by (rule running_step [OF ok])
    next
      case 3
      then show ?thesis by (rule early_step [OF ok])
    qed
    moreover have "tt_phase (turn_step C ?st i) \<noteq> TurnIdle" using \<open>tt_phase ?st \<noteq> TurnIdle\<close> by (rule step_started)
    ultimately show ?thesis using True h run by simp
  next
    case False
    then have none: "dropWhile (\<lambda>i. i \<noteq> Pull) ins = []" by (auto simp: dropWhile_eq_Nil_conv)
    have h: "heard ins = []" unfolding heard_def none by (simp add: envelopes_def)
    from False have h': "heard (ins @ [i]) = []" by (simp add: heard_snoc)
    from snoc False consider "tt_phase ?st = TurnIdle" | "tt_phase ?st = TurnOver TurnDropped" by auto
    then show ?thesis
    proof cases
      case 1
      with snoc h have ok: "turn_ok C [] ?st" by simp
      show ?thesis
      proof (cases "i = Pull")
        case True
        then show ?thesis using begin_ok [OF ok 1] 1 h h' run by (simp add: begin_started)
      next
        case no: False
        with ok 1 h h' run False show ?thesis
          by (cases i) (auto simp: turn_ok_def over_ok_def early_ok_def Let_def)
      qed
    next
      case 2
      from snoc False have "\<not> tt_handler ?st" "tt_yielded ?st = []" by auto
      with dropped_stays [OF 2, of C i] h h' run show ?thesis
        by (cases "i = Pull") (simp_all add: turn_ok_def over_ok_def)
    qed
  qed
qed


lemma relay_shape:
  "list_all (\<lambda>e. \<not> agent_terminal e) (butlast (fst (relay S t vs)))
   \<and> (snd (relay S t vs) = RelayOpen \<longrightarrow> list_all (\<lambda>e. \<not> agent_terminal e) (fst (relay S t vs)))
   \<and> list_all (\<lambda>e. safe_event e = e) (fst (relay S t vs))"
proof (induction vs rule: rev_induct)
  case (snoc v vs)
  have "safe_event (safe_event e) = safe_event e" for e by (cases e) simp_all
  then have safe: "relayed_event v = Some e \<Longrightarrow> safe_event e = e" for e
    by (auto simp: relayed_event_def split: option.splits sum.splits)
  with snoc show ?case
    by (cases "relay S t vs") (auto simp: relay_step_def butlast_append split: option.split)
qed simp

lemma prefix_butlast:
  assumes "prefix xs ys" and "list_all P (butlast ys)"
  shows "list_all P (butlast xs)"
proof -
  obtain zs where "ys = xs @ zs" using assms(1) by (auto simp: prefix_def)
  with assms(2) show ?thesis by (cases "zs = []") (auto simp: butlast_append list_all_iff dest: in_set_butlastD)
qed

text \<open>
  C15: a turn yields the events of its session and its turn and no others.  In any order of answers of the host, envelopes, aborts and requests, what is
  yielded is a beginning of the relay of the envelopes heard, which stops at the first terminal event and carries only the two fixed error
  messages; an envelope that came before the turn had its name counts like any other; while the consumer waits nothing is held back; and a turn that
  returns has yielded the whole relay, which was complete.
\<close>

theorem turn_relays_its_events:
  "case relay (tc_session C) (tt_turn_id (turn_run C ins)) (heard ins) of (R, x) \<Rightarrow>
     prefix (tt_yielded (turn_run C ins)) R
     \<and> list_all (\<lambda>e. \<not> agent_terminal e) (butlast (tt_yielded (turn_run C ins)))
     \<and> list_all (\<lambda>e. safe_event e = e) (tt_yielded (turn_run C ins))
     \<and> (case tt_phase (turn_run C ins) of
          TurnWaiting _ \<Rightarrow> tt_yielded (turn_run C ins) = R \<and> x = RelayOpen
        | TurnOver TurnReturned \<Rightarrow> tt_yielded (turn_run C ins) = R \<and> x = RelayDone
        | _ \<Rightarrow> True)"
proof -
  let ?st = "turn_run C ins"
  obtain R x where r: "relay (tc_session C) (tt_turn_id ?st) (heard ins) = (R, x)" by fastforce
  have ok: "turn_ok C (heard ins) ?st" using turn_run_ok by blast
  have pre: "prefix (tt_yielded ?st) R"
    using ok running_prefix [of "(R, x)" ?st] by (auto simp: turn_ok_def over_ok_def early_ok_def r split: turn_phase.splits)
  have shape: "list_all (\<lambda>e. \<not> agent_terminal e) (butlast R)" "list_all (\<lambda>e. safe_event e = e) R"
    using relay_shape [of "tc_session C" "tt_turn_id ?st" "heard ins"] by (simp_all add: r)
  have "list_all (\<lambda>e. safe_event e = e) (tt_yielded ?st)"
    using shape(2) pre by (auto simp: list_all_iff dest: set_mono_prefix)
  moreover have "case tt_phase ?st of
          TurnWaiting _ \<Rightarrow> tt_yielded ?st = R \<and> x = RelayOpen
        | TurnOver TurnReturned \<Rightarrow> tt_yielded ?st = R \<and> x = RelayDone
        | _ \<Rightarrow> True"
    using ok by (auto simp: turn_ok_def running_ok_def over_ok_def linked_def queue_ok_def r split: turn_phase.split turn_end.split)
  ultimately show ?thesis using pre prefix_butlast [OF pre shape(1)] by (simp add: r)
qed

section \<open>The listener\<close>

text \<open>What the host answered to \<open>listen\<close>, which is called once, by the first \<open>next\<close>.\<close>

fun listen_result :: "turn_input list \<Rightarrow> bool option" where
  "listen_result [] = None"
| "listen_result (ListenAnswer ok # _) = Some ok"
| "listen_result (_ # ins) = listen_result ins"

definition listened :: "turn_input list \<Rightarrow> bool option" where
  "listened ins = listen_result (dropWhile (\<lambda>i. i \<noteq> Pull) ins)"

lemma listen_result_append: "listen_result (a @ b) = (case listen_result a of None \<Rightarrow> listen_result b | Some x \<Rightarrow> Some x)"
  by (induction a rule: listen_result.induct) auto

lemma listened_snoc:
  "listened (ins @ [i]) = (if Pull \<in> set ins then (case listened ins of None \<Rightarrow> listen_result [i] | Some x \<Rightarrow> Some x) else None)"
proof (cases "Pull \<in> set ins")
  case False
  then have "dropWhile (\<lambda>i. i \<noteq> Pull) ins = []" by (auto simp: dropWhile_eq_Nil_conv)
  with False show ?thesis by (cases "i = Pull") (simp_all add: listened_def dropWhile_append)
qed (simp add: listened_def dropWhile_append1 listen_result_append)

definition listener_ok :: "bool option \<Rightarrow> tauri_turn \<Rightarrow> bool" where
  "listener_ok l st \<longleftrightarrow>
     tt_unlistened st = (if tt_released st then 1 else 0)
     \<and> (tt_handler st \<longrightarrow> tt_listen_settled st = (l \<noteq> None))
     \<and> (\<not> tt_handler st \<longrightarrow> \<not> tt_unlisten st \<and> \<not> tt_released st \<and> \<not> tt_listen_settled st)
     \<and> (tt_unlisten st \<longrightarrow> l = Some True)
     \<and> (case tt_phase st of
          TurnOver _ \<Rightarrow> (tt_handler st \<longrightarrow> tt_cleanup st) \<and> (tt_handler st \<longrightarrow> tt_released st = (l = Some True))
        | TurnIdle \<Rightarrow> \<not> tt_released st \<and> \<not> tt_handler st \<and> \<not> tt_cleanup st
        | TurnListening \<Rightarrow> \<not> tt_released st \<and> tt_handler st \<and> \<not> tt_unlisten st \<and> l = None \<and> \<not> tt_cleanup st
        | _ \<Rightarrow> \<not> tt_released st \<and> tt_handler st \<and> tt_unlisten st \<and> \<not> tt_cleanup st)"


lemma finish_listener: "listener_ok l st \<Longrightarrow> (\<And>x. tt_phase st \<noteq> TurnOver x) \<Longrightarrow> listener_ok l (end_turn e st)"
  by (cases "tt_phase st") (auto simp: listener_ok_def end_turn_def release_listener_def Let_def)

lemma fail_listener: "listener_ok l st \<Longrightarrow> (\<And>x. tt_phase st \<noteq> TurnOver x) \<Longrightarrow> listener_ok l (fail_turn st)"
  unfolding fail_turn_def by (rule finish_listener)

definition mid_phase :: "turn_phase \<Rightarrow> bool" where
  "mid_phase p \<longleftrightarrow> (case p of TurnStarting \<Rightarrow> True | TurnWaiting _ \<Rightarrow> True | TurnYielded \<Rightarrow> True | _ \<Rightarrow> False)"

lemma listener_move:
  assumes "listener_ok l st" and "tt_phase st' = tt_phase st \<or> mid_phase (tt_phase st) \<and> mid_phase (tt_phase st')"
    and "tt_handler st' = tt_handler st" and "tt_unlisten st' = tt_unlisten st" and "tt_released st' = tt_released st"
    and "tt_unlistened st' = tt_unlistened st" and "tt_listen_settled st' = tt_listen_settled st" and "tt_cleanup st' = tt_cleanup st"
  shows "listener_ok l st'"
  using assms by (cases "tt_phase st"; cases "tt_phase st'") (auto simp: listener_ok_def mid_phase_def)

lemma resume_listener: "listener_ok l st \<Longrightarrow> mid_phase (tt_phase st) \<Longrightarrow> listener_ok l (resume_turn a st)"
  by (cases a) (auto simp: resume_turn_def mid_phase_def intro!: finish_listener fail_listener elim: listener_move)

lemma wake_listener: "listener_ok l st \<Longrightarrow> listener_ok l (wake (sa, st))"
  by (cases "tt_phase st") (auto simp: wake_def mid_phase_def intro: resume_listener split: option.split)

lemma await_listener:
  assumes "listener_ok l st" and "mid_phase (tt_phase st)"
  shows "listener_ok l (await_event st)"
proof (cases "tt_aborted st")
  case True
  with assms show ?thesis by (auto simp: await_event_def mid_phase_def intro: finish_listener)
next
  case False
  obtain sa q where q: "queue_next (tt_calls st) (tt_queue st) = (sa, q)" by fastforce
  have "listener_ok l (st\<lparr>tt_queue := q, tt_calls := tt_calls st + 1, tt_phase := TurnWaiting (tt_calls st)\<rparr>)"
    using assms by (elim listener_move) (simp_all add: mid_phase_def)
  with False show ?thesis by (simp add: await_event_def q wake_listener)
qed

lemma accept_listener:
  assumes "listener_ok l st" and "accept_event C v st = (sa, st')"
  shows "listener_ok l st'"
  using assms(1) by (rule listener_move) (simp_all add: accept_keeps [OF assms(2)])

lemma replay_listener: "listener_ok l st \<Longrightarrow> listener_ok l (foldl (\<lambda>s p. snd (accept_event C p s)) st ps) \<and>
  tt_phase (foldl (\<lambda>s p. snd (accept_event C p s)) st ps) = tt_phase st"
proof (induction ps arbitrary: st)
  case (Cons p ps)
  obtain sa st' where a: "accept_event C p st = (sa, st')" by fastforce
  from Cons.IH [OF accept_listener [OF Cons.prems a]] show ?case by (simp add: a accept_keeps [OF a])
qed simp

lemma start_listener: "listener_ok l st \<Longrightarrow> tt_phase st = TurnStarting \<Longrightarrow> listener_ok l (start_answered C answer st)"
proof -
  assume st: "listener_ok l st" "tt_phase st = TurnStarting"
  have mid: "mid_phase TurnStarting" by (simp add: mid_phase_def)
  have "listener_ok l (st\<lparr>tt_turn_id := i, tt_pending := []\<rparr>)" for i using st(1) by (rule listener_move) simp_all
  then have "listener_ok l (await_event (foldl (\<lambda>s p. snd (accept_event C p s)) (st\<lparr>tt_turn_id := i, tt_pending := []\<rparr>) (tt_pending st)))" for i
    using replay_listener [of l "st\<lparr>tt_turn_id := i, tt_pending := []\<rparr>" C "tt_pending st"] st(2) mid
    by (intro await_listener) simp_all
  with st show ?thesis by (auto simp: start_answered_def intro: fail_listener split: option.split)
qed

lemma listen_listener:
  assumes "listener_ok None st" and "tt_handler st" and "\<not> tt_listen_settled st"
  shows "listener_ok (Some ok) (listen_answered C ok st)"
  using assms by (cases "tt_phase st"; cases ok)
    (auto simp: listener_ok_def listen_answered_def release_listener_def fail_turn_def end_turn_def Let_def)

text \<open>Where the host's answer is not awaited, the state does not change.\<close>

lemma step_listener:
  assumes "listener_ok l st" and "tt_phase st \<noteq> TurnIdle" and "tt_handler st \<or> (\<exists>e. tt_phase st = TurnOver e)"
  shows "listener_ok (case l of None \<Rightarrow> listen_result [i] | Some x \<Rightarrow> Some x) (turn_step C st i)"
proof (cases i)
  case Pull
  have "tt_phase st = TurnYielded \<Longrightarrow> listener_ok l (await_event st)"
    using assms(1) by (rule await_listener) (simp add: mid_phase_def)
  with Pull assms show ?thesis by (cases "tt_phase st"; cases l) simp_all
next
  case Abandon
  have "tt_phase st = TurnYielded \<Longrightarrow> listener_ok l (end_turn TurnDropped st)"
    using assms(1) by (rule finish_listener) simp
  with Abandon assms show ?thesis by (cases "tt_phase st"; cases l) simp_all
next
  case (ListenAnswer ok)
  have l: "tt_handler st \<Longrightarrow> tt_listen_settled st = (l \<noteq> None)" using assms(1) by (simp add: listener_ok_def)
  show ?thesis
  proof (cases "tt_handler st \<and> \<not> tt_listen_settled st")
    case True
    with l have "l = None" by simp
    with True ListenAnswer assms(1) listen_listener [of st ok C] show ?thesis by simp
  next
    case False
    show ?thesis
    proof (cases "tt_handler st")
      case True
      with False l ListenAnswer assms(1) show ?thesis by (cases l) auto
    next
      case no: False
      with ListenAnswer assms show ?thesis by (cases l) (auto simp: listener_ok_def)
    qed
  qed
next
  case (StartAnswer a)
  with assms start_listener [of l st C a] show ?thesis by (cases l) auto
next
  case (Envelope v)
  obtain sa st' where a: "accept_event C v st = (sa, st')" by fastforce
  from wake_listener [OF accept_listener [OF assms(1) a], of sa] assms(1) Envelope show ?thesis by (cases l) (simp_all add: a)
next
  case AbortEvent
  have st1: "listener_ok l (st\<lparr>tt_aborted := True\<rparr>)" using assms(1) by (rule listener_move) simp_all
  then have "(\<And>x. tt_phase st \<noteq> TurnOver x) \<Longrightarrow> listener_ok l (end_turn TurnAborted (st\<lparr>tt_aborted := True\<rparr>))"
    by (rule finish_listener) simp
  with st1 AbortEvent assms(1) show ?thesis by (cases "tt_phase st"; cases l) (simp_all add: Let_def)
qed

lemma turn_run_listener: "listener_ok (listened ins) (turn_run C ins)"
proof (induction ins rule: rev_induct)
  case Nil
  show ?case by (simp add: listener_ok_def turn_run_def new_turn_def listened_def)
next
  case (snoc i ins)
  let ?st = "turn_run C ins"
  have run: "turn_run C (ins @ [i]) = turn_step C ?st i" by (simp add: turn_run_def)
  show ?case
  proof (cases "Pull \<in> set ins")
    case True
    with turn_run_ok [of C ins] have "tt_phase ?st \<noteq> TurnIdle" and "turn_ok C (heard ins) ?st" by auto
    then have "tt_handler ?st \<or> (\<exists>e. tt_phase ?st = TurnOver e)" by (cases "tt_phase ?st") (auto simp: turn_ok_def)
    with step_listener [OF snoc \<open>tt_phase ?st \<noteq> TurnIdle\<close>, of i C] True show ?thesis by (simp add: run listened_snoc)
  next
    case False
    then have none: "dropWhile (\<lambda>i. i \<noteq> Pull) ins = []" by (auto simp: dropWhile_eq_Nil_conv)
    have l: "listened ins = None" unfolding listened_def none by simp
    from False have l': "listened (ins @ [i]) = None" by (simp add: listened_snoc)
    from turn_run_ok [of C ins] False have h: "\<not> tt_handler ?st"
      and ph: "tt_phase ?st = TurnIdle \<or> tt_phase ?st = TurnOver TurnDropped" by auto
    have start: "tt_phase ?st = TurnIdle \<Longrightarrow> listener_ok None (begin_turn C ?st)"
      using snoc l by (auto simp: begin_turn_def intro!: fail_listener finish_listener) (auto simp: listener_ok_def)
    have same: "listener_ok None (?st\<lparr>tt_aborted := True\<rparr>)" using snoc unfolding l by (rule listener_move) simp_all
    have dropped: "tt_phase ?st = TurnIdle \<Longrightarrow> listener_ok None (?st\<lparr>tt_phase := TurnOver TurnDropped\<rparr>)"
      using snoc h unfolding l by (simp add: listener_ok_def)
    from snoc l have "listener_ok None ?st" by simp
    with h ph start same dropped show ?thesis
      unfolding run l' by (cases i; elim disjE) (simp_all add: Let_def)
  qed
qed

text \<open>
  C30: the listener does not leak.  In every run the listener of the host is released at most once, never before the turn is over, and when the turn
  is over and the host answered the call of \<open>listen\<close>, also after the end, exactly once.
\<close>

theorem listener_released_once:
  "tt_unlistened (turn_run C ins) \<le> 1
   \<and> (case tt_phase (turn_run C ins) of
        TurnOver _ \<Rightarrow> (if tt_handler (turn_run C ins) \<and> listened ins = Some True then tt_unlistened (turn_run C ins) = 1
                       else tt_unlistened (turn_run C ins) = 0)
      | _ \<Rightarrow> tt_unlistened (turn_run C ins) = 0)"
  using turn_run_listener [of ins C] by (auto simp: listener_ok_def split: turn_phase.splits)


section \<open>Examples\<close>

definition sample_turn :: turn_config where
  "sample_turn =
     \<lparr>tc_session = JStr ''s1'',
      tc_request = JObj [(''messages'', JArr [JObj [(''role'', JStr ''user''), (''content'', JArr [JObj [(''type'', JStr ''text''), (''text'', JStr ''hi'')]])]])],
      tc_signal = JUndef\<rparr>"

definition sample_envelope :: "string \<Rightarrow> agent_event \<Rightarrow> turn_input" where
  "sample_envelope t e = Envelope (JObj [(''sessionId'', JStr ''s1''), (''turnId'', JStr t), (''event'', event_value e)])"

definition sample_start :: turn_input where "sample_start = StartAnswer (Some (JObj [(''turnId'', JStr ''t1'')]))"

text \<open>An early envelope of the turn, one of another turn, an error with a message of its own.\<close>

lemma sample_turn_completes:
  "tt_yielded (turn_run sample_turn
      [Pull, ListenAnswer True, sample_envelope ''t1'' (ATextDelta ''r'' ''a''), sample_envelope ''t0'' (ATextDelta ''r'' ''x''), sample_start,
       Pull, sample_envelope ''t1'' (AError ''r'' ''aborted'' ''secret'' False), Pull])
     = [ATextDelta ''r'' ''a'', AError ''r'' ''aborted'' ''Request aborted.'' False]"
  "tt_phase (turn_run sample_turn
      [Pull, ListenAnswer True, sample_envelope ''t1'' (ATextDelta ''r'' ''a''), sample_envelope ''t0'' (ATextDelta ''r'' ''x''), sample_start,
       Pull, sample_envelope ''t1'' (AError ''r'' ''aborted'' ''secret'' False), Pull])
     = TurnOver TurnReturned"
  by code_simp+

text \<open>
  A malformed payload on the channel, of whatever session, makes a completed turn throw, when its last event has not been asked for yet: the queue
  takes a failure after it is closed.
\<close>

lemma stray_payload_breaks_a_complete_turn:
  "tt_yielded (turn_run sample_turn
      [Pull, ListenAnswer True, sample_start, sample_envelope ''t1'' (ATextDelta ''r'' ''a''), sample_envelope ''t1'' (ACompleted ''r''),
       Envelope JNull, Pull, Pull])
     = [ATextDelta ''r'' ''a'', ACompleted ''r'']"
  "tt_phase (turn_run sample_turn
      [Pull, ListenAnswer True, sample_start, sample_envelope ''t1'' (ATextDelta ''r'' ''a''), sample_envelope ''t1'' (ACompleted ''r''),
       Envelope JNull, Pull, Pull])
     = TurnOver TurnThrew"
  by code_simp+

end
