(* ===== verification/Json_Pretty.thy ===== *)
theory Json_Pretty
  imports Json_Roundtrip
begin

text \<open>
  JSON files: \<open>JSON.stringify (value, null, 2)\<close>, and that a file with either form of text, followed by a line feed, is
  parsed back to the value.
\<close>

section \<open>Names and lines\<close>

lemma text_kept_plain: "CHR 0xED \<notin> set s \<Longrightarrow> text_kept s"
proof (induction s)
  case (Cons c cs)
  then have "surrogate_at (c # cs) = None" by (cases "c # cs" rule: surrogate_at.cases) auto
  with Cons show ?case by (simp add: text_kept.simps [of "c # cs"])
qed (simp add: text_kept.simps)

lemma property_order_names: "list_all (\<lambda>kv. array_index (fst kv) = None) kvs \<Longrightarrow> property_order kvs = kvs"
  by (simp add: property_order_def filter_empty_conv filter_id_conv list_all_iff)

lemma parse_line: "json_kept v \<Longrightarrow> json_parse (stringify_text v @ [CHR 0x0A]) = Some v"
proof -
  assume v: "json_kept v"
  from lexes_value [OF this] obtain t where t: "json_stringify v = Some t" and "lexes t (tokens_of v)" by blast
  from lexesD [OF this(2), of "[CHR 0x0A]"] have "json_lex (t @ [CHR 0x0A]) = Some (tokens_of v)"
    by (simp add: json_lex.simps is_num_char_def is_digit_def)
  with run_value [OF v, of "[]" "[]"] show ?thesis by (simp add: json_parse_def stringify_text_def t)
qed

lemma trim_line: "js_trim (CHR ''{'' # s @ [CHR ''}'', CHR 0x0A]) = CHR ''{'' # s @ [CHR ''}'']"
  by (simp add: js_trim_def trim_start_with.simps ws_seqs_def)

lemma stringify_object_text: "\<exists>s. stringify_text (JObj kvs) = CHR ''{'' # s @ [CHR ''}'']"
  by (auto simp: stringify_text_def)

section \<open>Indented text\<close>

definition indent :: "nat \<Rightarrow> string" where
  "indent d = CHR 0x0A # replicate d (CHR 0x20)"

fun sep_with :: "string \<Rightarrow> string list \<Rightarrow> string" where
  "sep_with sep [] = []"
| "sep_with sep [x] = x"
| "sep_with sep (x # xs) = x @ sep @ sep_with sep xs"

definition bracketed :: "nat \<Rightarrow> char \<Rightarrow> char \<Rightarrow> string list \<Rightarrow> string" where
  "bracketed d a b items =
     (if items = [] then [a, b]
      else a # indent (d + 2) @ sep_with (CHR '','' # indent (d + 2)) items @ indent d @ [b])"

text \<open>The text at the depth \<open>d\<close>; \<open>None\<close> is the result \<open>undefined\<close>.\<close>

fun json_pretty :: "nat \<Rightarrow> jsval \<Rightarrow> string option" where
  "json_pretty d (JArr vs) =
     Some (bracketed d (CHR ''['') (CHR '']'')
       (map (\<lambda>v. case json_pretty (d + 2) v of None \<Rightarrow> ''null'' | Some t \<Rightarrow> t) vs))"
| "json_pretty d (JObj kvs) =
     Some (bracketed d (CHR ''{'') (CHR ''}'')
       (concat (map (\<lambda>kv. case json_pretty (d + 2) (snd kv) of
          None \<Rightarrow> [] | Some t \<Rightarrow> [json_quote (fst kv) @ '': '' @ t]) kvs)))"
| "json_pretty d (JInst kvs) =
     Some (bracketed d (CHR ''{'') (CHR ''}'')
       (concat (map (\<lambda>kv. case json_pretty (d + 2) (snd kv) of
          None \<Rightarrow> [] | Some t \<Rightarrow> [json_quote (fst kv) @ '': '' @ t]) kvs)))"
| "json_pretty d v = json_stringify v"

definition pretty_text :: "jsval \<Rightarrow> string" where
  "pretty_text v = (case json_pretty 0 v of None \<Rightarrow> [] | Some t \<Rightarrow> t)"

section \<open>Reading it back\<close>

definition blank :: "string \<Rightarrow> bool" where
  "blank w \<longleftrightarrow> list_all (\<lambda>c. c = CHR 0x20 \<or> c = CHR 0x0A) w"

lemma lex_blank: "blank w \<Longrightarrow> json_lex (w @ r) = json_lex r"
  by (induction w) (auto simp: blank_def json_lex.simps [of "_ # _"])

lemma blank_indent [simp]: "blank (indent d)"
  by (simp add: blank_def indent_def list_all_iff)

lemma lexes_before: "blank w \<Longrightarrow> lexes s ts \<Longrightarrow> lexes (w @ s) ts"
  by (simp add: lexes_def lex_blank)

lemma lexes_after:
  assumes "lexes s ts"
  shows "lexes (s @ indent d) ts"
  unfolding lexes_def
proof (intro allI impI)
  fix r :: string
  have "json_lex (s @ indent d @ r) = map_option ((@) ts) (json_lex (indent d @ r))"
    by (rule lexesD [OF assms]) (simp add: indent_def is_num_char_def is_digit_def)
  then show "json_lex ((s @ indent d) @ r) = map_option ((@) ts) (json_lex r)" by (simp add: lex_blank)
qed

lemma lexes_sep_with:
  "list_all2 lexes ss tss \<Longrightarrow> blank w \<Longrightarrow> lexes (sep_with (CHR '','' # w) ss) (sep_tokens tss)"
proof (induction ss tss rule: list_all2_induct)
  case Nil
  then show ?case by (simp add: lexes_def map_option_Nil)
next
  case (Cons s ss ts tss)
  show ?case
  proof (cases ss)
    case Nil
    with Cons show ?thesis by simp
  next
    case (Cons s' ss')
    with Cons.hyps obtain ts' tss' where tss: "tss = ts' # tss'" by (cases tss) auto
    show ?thesis
      unfolding lexes_def
    proof (intro allI impI)
      fix r :: string assume r: "r = [] \<or> \<not> is_num_char (hd r)"
      have "json_lex (sep_with (CHR '','' # w) (s # ss) @ r) = json_lex (s @ CHR '','' # w @ sep_with (CHR '','' # w) ss @ r)"
        by (simp add: Cons)
      also have "\<dots> = map_option ((@) ts) (json_lex (CHR '','' # w @ sep_with (CHR '','' # w) ss @ r))"
        by (rule lexesD [OF \<open>lexes s ts\<close>]) simp
      also have "\<dots> = map_option ((@) (ts @ TComma # sep_tokens tss)) (json_lex r)"
        using lexesD [OF Cons.IH [OF \<open>blank w\<close>] r]
        by (simp add: json_lex_punct map_option_Cons map_option_append lex_blank [OF \<open>blank w\<close>])
      finally show "json_lex (sep_with (CHR '','' # w) (s # ss) @ r) = map_option ((@) (sep_tokens (ts # tss))) (json_lex r)"
        by (simp add: tss)
    qed
  qed
qed

lemma lexes_block:
  assumes "list_all2 lexes ss tss" and "punct a = Some x" and "punct b = Some y" and "\<not> is_num_char b"
  shows "lexes (bracketed d a b ss) (x # sep_tokens tss @ [y])"
proof (cases "ss = []")
  case True
  with assms lexes_bracketed [of "[]" "[]" a x b y] show ?thesis
    by (simp add: bracketed_def lexes_def map_option_Nil)
next
  case False
  from lexes_sep_with [OF assms(1), of "indent (d + 2)"]
  have "lexes (indent (d + 2) @ sep_with (CHR '','' # indent (d + 2)) ss @ indent d) (sep_tokens tss)"
    by (intro lexes_before lexes_after) simp_all
  from lexes_bracketed [OF this assms(2-4)] False show ?thesis by (simp add: bracketed_def)
qed

lemma lexes_pretty_property:
  assumes "text_kept k" and "lexes t ts"
  shows "lexes (json_quote k @ '': '' @ t) (TStr k # TColon # ts)"
proof -
  have "lexes ('' '' @ t) ts" by (rule lexes_before [OF _ assms(2)]) (simp add: blank_def)
  with assms(1) lexes_property [of k "'' '' @ t" ts] show ?thesis by simp
qed

lemma lexes_pretty: "json_kept v \<Longrightarrow> \<exists>t. json_pretty d v = Some t \<and> lexes t (tokens_of v)"
proof (induction v arbitrary: d rule: json_kept.induct)
  case (3 s)
  then show ?case by (auto intro!: lexes_one lexes_quote)
next
  case (4 n)
  then show ?case by (cases n) (simp_all add: lexes_number)
next
  case (5 vs)
  let ?text = "\<lambda>v. case json_pretty (d + 2) v of None \<Rightarrow> ''null'' | Some t \<Rightarrow> t"
  have "lexes (?text v) (tokens_of v)" if "v \<in> set vs" for v
    using "5.IH" [OF that, of "d + 2"] "5.prems" that by (auto simp: list_all_iff)
  then have "list_all2 lexes (map ?text vs) (map tokens_of vs)"
    by (simp add: list_all2_map1 list_all2_map2 list_all2_same)
  from lexes_block [OF this, of "CHR ''[''" TLBrack "CHR '']''" TRBrack] show ?case by simp
next
  case (6 kvs)
  let ?item = "\<lambda>kv. json_quote (fst kv) @ '': '' @ the (json_pretty (d + 2) (snd kv))"
  have each: "\<exists>t. json_pretty (d + 2) (snd kv) = Some t \<and> lexes t (tokens_of (snd kv))" "text_kept (fst kv)"
    if "kv \<in> set kvs" for kv
    using "6.IH" [OF that, of "d + 2"] "6.prems" that by (auto simp: list_all_iff)
  then have items: "concat (map (\<lambda>kv. case json_pretty (d + 2) (snd kv) of
      None \<Rightarrow> [] | Some t \<Rightarrow> [json_quote (fst kv) @ '': '' @ t]) kvs) = map ?item kvs"
    by (induction kvs) (force, fastforce)
  have "lexes (?item kv) (TStr (fst kv) # TColon # tokens_of (snd kv))" if "kv \<in> set kvs" for kv
    using each [OF that] lexes_pretty_property by auto
  then have "list_all2 lexes (map ?item kvs) (map (\<lambda>kv. TStr (fst kv) # TColon # tokens_of (snd kv)) kvs)"
    by (simp add: list_all2_map1 list_all2_map2 list_all2_same)
  from lexes_block [OF this, of "CHR ''{''" TLBrace "CHR ''}''" TRBrace d]
  show ?case unfolding json_pretty.simps items by simp
qed (auto intro!: lexes_one lexes_word)

lemma parse_pretty_line: "json_kept v \<Longrightarrow> json_parse (pretty_text v @ [CHR 0x0A]) = Some v"
proof -
  assume v: "json_kept v"
  from lexes_pretty [OF this, of 0] obtain t where t: "json_pretty 0 v = Some t" and "lexes t (tokens_of v)" by blast
  from lexesD [OF this(2), of "[CHR 0x0A]"] have "json_lex (t @ [CHR 0x0A]) = Some (tokens_of v)"
    by (simp add: json_lex.simps is_num_char_def is_digit_def)
  with run_value [OF v, of "[]" "[]"] show ?thesis by (simp add: json_parse_def pretty_text_def t)
qed

lemma pretty_object_text: "\<exists>s. pretty_text (JObj kvs) = CHR ''{'' # s @ [CHR ''}'']"
  by (auto simp: pretty_text_def bracketed_def)

end
