(* ===== verification/Config_Snapshot.thy ===== *)
theory Config_Snapshot
  imports Registry Json_Pretty "HOL-Library.List_Lexorder" "HOL-Library.Char_ord"
begin

text \<open>
  \<open>packages/local-persistence/src\<close>: the versioned snapshot of a provider registry (\<open>errors.ts\<close>, \<open>types.ts\<close>,
  \<open>snapshot.ts\<close>), and the stores that hold it (\<open>json-store.ts\<close>, \<open>file-store.ts\<close>).  A file is its content, or
  nothing while it does not exist; the outcomes of reading, writing and renaming are arguments.  Saves of one store run
  one after the other through its queue, so that concurrent saves are a sequence of saves.
\<close>

section \<open>Errors\<close>

datatype persistence_error =
    PeInvalidConfig
  | PeUnsupportedVersion
  | PeInvalidProvider
  | PeInvalidRoute
  | PeDuplicateProvider
  | PeDuplicateRoute
  | PeProviderNotFound
  | PeModelNotAvailable
  | PeForbiddenField
  | PeFileNotFound
  | PeFileInvalid
  | PeFileWriteFailed
  | PeFileReplaceFailed
  | PeInvalidFilePath

fun persistence_code :: "persistence_error \<Rightarrow> string" where
  "persistence_code PeInvalidConfig = ''invalid_persisted_config''"
| "persistence_code PeUnsupportedVersion = ''unsupported_config_version''"
| "persistence_code PeInvalidProvider = ''invalid_persisted_provider''"
| "persistence_code PeInvalidRoute = ''invalid_persisted_route''"
| "persistence_code PeDuplicateProvider = ''duplicate_persisted_provider''"
| "persistence_code PeDuplicateRoute = ''duplicate_persisted_route''"
| "persistence_code PeProviderNotFound = ''persisted_provider_not_found''"
| "persistence_code PeModelNotAvailable = ''persisted_model_not_available''"
| "persistence_code PeForbiddenField = ''persisted_forbidden_field''"
| "persistence_code PeFileNotFound = ''config_file_not_found''"
| "persistence_code PeFileInvalid = ''config_file_invalid''"
| "persistence_code PeFileWriteFailed = ''config_file_write_failed''"
| "persistence_code PeFileReplaceFailed = ''config_file_replace_failed''"
| "persistence_code PeInvalidFilePath = ''invalid_config_file_path''"

fun persistence_message :: "persistence_error \<Rightarrow> string" where
  "persistence_message PeInvalidConfig = ''The persisted configuration is invalid.''"
| "persistence_message PeUnsupportedVersion = ''The persisted configuration version is unsupported.''"
| "persistence_message PeInvalidProvider = ''A persisted provider definition is invalid.''"
| "persistence_message PeInvalidRoute = ''A persisted route definition is invalid.''"
| "persistence_message PeDuplicateProvider = ''A persisted provider id is duplicated.''"
| "persistence_message PeDuplicateRoute = ''A persisted route id is duplicated.''"
| "persistence_message PeProviderNotFound = ''A persisted route references an unknown provider.''"
| "persistence_message PeModelNotAvailable =
     ''A persisted route model is not available on the referenced provider.''"
| "persistence_message PeForbiddenField = ''The persisted configuration contains a field that is not allowed.''"
| "persistence_message PeFileNotFound = ''The configuration file was not found.''"
| "persistence_message PeFileInvalid = ''The configuration file could not be read.''"
| "persistence_message PeFileWriteFailed = ''The configuration file could not be written.''"
| "persistence_message PeFileReplaceFailed = ''The configuration file could not be replaced atomically.''"
| "persistence_message PeInvalidFilePath = ''The configuration file path is invalid.''"

fun mapRegistryError :: "registry_error \<Rightarrow> persistence_error" where
  "mapRegistryError ForbiddenProviderField = PeForbiddenField"
| "mapRegistryError ForbiddenRouteField = PeForbiddenField"
| "mapRegistryError InvalidProviderId = PeInvalidProvider"
| "mapRegistryError InvalidProviderName = PeInvalidProvider"
| "mapRegistryError InvalidProviderProtocol = PeInvalidProvider"
| "mapRegistryError InvalidProviderUrl = PeInvalidProvider"
| "mapRegistryError InvalidProviderModels = PeInvalidProvider"
| "mapRegistryError InvalidProviderEnabled = PeInvalidProvider"
| "mapRegistryError InvalidCredentialRef = PeInvalidProvider"
| "mapRegistryError InvalidRouteId = PeInvalidRoute"
| "mapRegistryError InvalidRouteName = PeInvalidRoute"
| "mapRegistryError InvalidRouteModel = PeInvalidRoute"
| "mapRegistryError InvalidRouteEnabled = PeInvalidRoute"
| "mapRegistryError InvalidFallbackProviderIds = PeInvalidRoute"
| "mapRegistryError DuplicateFallbackProviderId = PeInvalidRoute"
| "mapRegistryError TooManyFallbackProviders = PeInvalidRoute"
| "mapRegistryError DuplicateProviderId = PeDuplicateProvider"
| "mapRegistryError DuplicateRouteId = PeDuplicateRoute"
| "mapRegistryError ProviderNotFound = PeProviderNotFound"
| "mapRegistryError FallbackProviderNotFound = PeProviderNotFound"
| "mapRegistryError ModelNotAvailable = PeModelNotAvailable"
| "mapRegistryError FallbackModelNotAvailable = PeModelNotAvailable"
| "mapRegistryError ProviderDisabled = PeModelNotAvailable"
| "mapRegistryError _ = PeInvalidConfig"

definition mapped :: "registry_error + 'a \<Rightarrow> persistence_error + 'a" where
  "mapped r = (case r of Inl e \<Rightarrow> Inl (mapRegistryError e) | Inr x \<Rightarrow> Inr x)"

section \<open>Snapshots\<close>

record persisted_config =
  pc_providers :: "provider_definition list"
  pc_routes :: "route_definition list"

text \<open>The objects that \<open>cloneProviderDefinition\<close> and \<open>cloneRouteDefinition\<close> make.\<close>

definition protocol_name :: "provider_protocol \<Rightarrow> string" where
  "protocol_name p = (case p of AnthropicMessages \<Rightarrow> ''anthropic_messages'' | OpenAICompatible \<Rightarrow> ''openai_compatible'')"

definition provider_value :: "provider_definition \<Rightarrow> jsval" where
  "provider_value p =
     JObj [(''id'', JStr (pv_id p)), (''name'', JStr (pv_name p)), (''protocol'', JStr (protocol_name (pv_protocol p))),
           (''baseUrl'', JStr (pv_base_url p)),
           (''credentialRef'', case pv_credential p of None \<Rightarrow> JNull | Some r \<Rightarrow> JStr r),
           (''models'', JArr (map JStr (pv_models p))), (''enabled'', JBool (pv_enabled p))]"

definition route_value :: "route_definition \<Rightarrow> jsval" where
  "route_value r =
     JObj ([(''id'', JStr (rt_id r)), (''name'', JStr (rt_name r)), (''providerId'', JStr (rt_provider r)),
            (''model'', JStr (rt_model r)), (''enabled'', JBool (rt_enabled r))]
           @ (case rt_fallbacks r of None \<Rightarrow> [] | Some ids \<Rightarrow> [(''fallbackProviderIds'', JArr (map JStr ids))]))"

definition config_value :: "persisted_config \<Rightarrow> jsval" where
  "config_value c =
     JObj [(''version'', JNum (jsnat 1)), (''providers'', JArr (map provider_value (pc_providers c))),
           (''routes'', JArr (map route_value (pc_routes c)))]"

definition createConfigSnapshot :: "registry \<Rightarrow> persisted_config" where
  "createConfigSnapshot g =
     \<lparr>pc_providers = sort_key pv_id (listProviders g), pc_routes = sort_key rt_id (listRoutes g)\<rparr>"

definition persisted_root_fields :: "string list" where
  "persisted_root_fields = [''version'', ''providers'', ''routes'']"

definition persisted_provider_fields :: "string list" where
  "persisted_provider_fields =
     [''id'', ''name'', ''protocol'', ''baseUrl'', ''credentialRef'', ''models'', ''enabled'']"

definition persisted_route_fields :: "string list" where
  "persisted_route_fields = [''id'', ''name'', ''providerId'', ''model'', ''enabled'', ''fallbackProviderIds'']"

definition secret_like_fields :: "string list" where
  "secret_like_fields =
     [''apikey'', ''api_key'', ''api-key'', ''token'', ''authorization'', ''headers'', ''secret'', ''password'',
      ''credential'', ''access_token'', ''accesstoken'', ''refresh_token'', ''refreshtoken'', ''client_secret'',
      ''clientsecret'', ''provider_secret'', ''providersecret'', ''bearer'', ''oauth'', ''endpoint'']"

fun persistable :: "jsval \<Rightarrow> bool" where
  "persistable JNull = True"
| "persistable (JStr _) = True"
| "persistable (JBool _) = True"
| "persistable (JNum n) = is_finite n"
| "persistable (JArr vs) = list_all persistable vs"
| "persistable (JObj kvs) = list_all (\<lambda>kv. persistable (snd kv)) kvs"
| "persistable _ = False"

text \<open>\<open>SECRET_LIKE_CREDENTIAL_REF\<close>, case-insensitive.\<close>

definition secret_words :: "string list" where
  "secret_words = [''secret'', ''password'', ''token'', ''apikey'', ''api_key'', ''bearer'', ''authorization'']"

definition secret_like_ref :: "string \<Rightarrow> bool" where
  "secret_like_ref s = list_ex (\<lambda>w. includes_text w (map ascii_lower s)) secret_words"

definition assertSafeCredentialRef :: "string option \<Rightarrow> persistence_error + unit" where
  "assertSafeCredentialRef ref =
     (case ref of
        None \<Rightarrow> Inr ()
      | Some s \<Rightarrow> if \<not> isValidCredentialRef (JStr s) \<or> secret_like_ref s then Inl PeInvalidProvider else Inr ())"

text \<open>What the two validators of entries check alike.\<close>

definition check_entry :: "persistence_error \<Rightarrow> string list \<Rightarrow> jsval \<Rightarrow> persistence_error + unit" where
  "check_entry e allowed v =
     (if \<not> isPlainObject v then Inl e
      else if list_ex (\<lambda>k. to_lower k \<in> set secret_like_fields) (obj_keys v) then Inl PeForbiddenField
      else if list_ex (\<lambda>k. k \<notin> set allowed) (obj_keys v) then Inl PeForbiddenField
      else if \<not> persistable v then Inl e
      else Inr ())"

definition validateProviderEntry :: "url_parser \<Rightarrow> jsval \<Rightarrow> persistence_error + provider_definition" where
  "validateProviderEntry parse v =
     rbind (check_entry PeInvalidProvider persisted_provider_fields v) (\<lambda>_.
     rbind (mapped (validateProviderDefinition parse v)) (\<lambda>p.
     rbind (assertSafeCredentialRef (pv_credential p)) (\<lambda>_. Inr p)))"

definition validateRouteEntry :: "jsval \<Rightarrow> persistence_error + route_definition" where
  "validateRouteEntry v =
     rbind (check_entry PeInvalidRoute persisted_route_fields v) (\<lambda>_. mapped (validateRouteDefinition v))"

definition index_provider ::
  "provider_definition \<Rightarrow> (string \<times> provider_definition) list \<Rightarrow> persistence_error + (string \<times> provider_definition) list"
where
  "index_provider p m =
     (if map_of m (pv_id p) \<noteq> None then Inl PeDuplicateProvider else Inr (obj_put m (pv_id p) p))"

text \<open>One iteration over the routes; the state is \<open>routeById\<close>.\<close>

definition check_route ::
  "(string \<times> provider_definition) list \<Rightarrow> route_definition \<Rightarrow> string list \<Rightarrow> persistence_error + string list"
where
  "check_route m r seen =
     (if rt_id r \<in> set seen then Inl PeDuplicateRoute
      else
        (case map_of m (rt_provider r) of
           None \<Rightarrow> Inl PeProviderNotFound
         | Some p \<Rightarrow>
             if rt_model r \<notin> set (pv_models p) then Inl PeModelNotAvailable
             else if \<not> pv_enabled p \<and> rt_enabled r then Inl PeInvalidProvider
             else
               rbind (rall (\<lambda>i. case map_of m i of
                        None \<Rightarrow> Inl PeProviderNotFound
                      | Some q \<Rightarrow> if rt_model r \<notin> set (pv_models q) then Inl PeModelNotAvailable else Inr ())
                        (fallbacks_of r)) (\<lambda>_. Inr (rt_id r # seen))))"

definition validateConfigSnapshot :: "url_parser \<Rightarrow> jsval \<Rightarrow> persistence_error + persisted_config" where
  "validateConfigSnapshot parse v =
     (if \<not> isPlainObject v then Inl PeInvalidConfig
      else if list_ex (\<lambda>k. k \<notin> set persisted_root_fields) (obj_keys v) then Inl PeForbiddenField
      else if field v ''version'' \<noteq> JNum (jsnat 1) then Inl PeUnsupportedVersion
      else if \<not> is_array (field v ''providers'') then Inl PeInvalidConfig
      else if \<not> is_array (field v ''routes'') then Inl PeInvalidConfig
      else
        rbind (rmap (validateProviderEntry parse) (as_arr (field v ''providers''))) (\<lambda>ps.
        rbind (rmap validateRouteEntry (as_arr (field v ''routes''))) (\<lambda>rs.
        rbind (rfold index_provider ps []) (\<lambda>m.
        rbind (rfold (check_route m) rs []) (\<lambda>_.
        Inr \<lparr>pc_providers = ps, pc_routes = rs\<rparr>)))))"

definition createRegistryFromSnapshot :: "url_parser \<Rightarrow> jsval \<Rightarrow> persistence_error + registry" where
  "createRegistryFromSnapshot parse v =
     rbind (validateConfigSnapshot parse v) (\<lambda>c.
     mapped
       (rbind (rfold (\<lambda>p g. registerProvider parse g (provider_value p)) (pc_providers c) empty_registry) (\<lambda>g.
        rfold (\<lambda>r g. registerRoute g (route_value r)) (pc_routes c) g)))"

section \<open>Stores\<close>

text \<open>The in-memory store.\<close>

definition memory_config_load :: "persisted_config option \<Rightarrow> persisted_config option" where
  "memory_config_load current = current"

definition memory_config_save ::
  "url_parser \<Rightarrow> jsval \<Rightarrow> persisted_config option \<Rightarrow> (persistence_error + unit) \<times> persisted_config option"
where
  "memory_config_save parse v current =
     (case validateConfigSnapshot parse v of Inl e \<Rightarrow> (Inl e, current) | Inr c \<Rightarrow> (Inr (), Some c))"

definition isValidPersistedSnapshot :: "url_parser \<Rightarrow> jsval \<Rightarrow> bool" where
  "isValidPersistedSnapshot parse v = is_ok (validateConfigSnapshot parse v)"

text \<open>The file store.\<close>

definition config_path_ok :: "(string \<Rightarrow> bool) \<Rightarrow> jsval \<Rightarrow> persistence_error + unit" where
  "config_path_ok is_absolute v =
     (if \<not> is_string v \<or> as_str v = [] then Inl PeInvalidFilePath
      else if CHR 0x00 \<in> set (as_str v) \<or> CHR ''?'' \<in> set (as_str v) \<or> CHR ''#'' \<in> set (as_str v)
        then Inl PeInvalidFilePath
      else if \<not> is_absolute (as_str v) then Inl PeInvalidFilePath
      else Inr ())"

definition createFileJsonConfigStore :: "(string \<Rightarrow> bool) \<Rightarrow> jsval \<Rightarrow> persistence_error + string" where
  "createFileJsonConfigStore is_absolute options =
     (if \<not> is_object options \<and> \<not> is_array options then Inl PeInvalidFilePath
      else rbind (config_path_ok is_absolute (field options ''filePath'')) (\<lambda>_. Inr (as_str (field options ''filePath''))))"

definition serializeSnapshot :: "persisted_config \<Rightarrow> string" where
  "serializeSnapshot c = pretty_text (config_value c) @ [CHR 0x0A]"

definition config_load :: "url_parser \<Rightarrow> bool \<Rightarrow> string option \<Rightarrow> persistence_error + persisted_config option" where
  "config_load parse readable disk =
     (case disk of
        None \<Rightarrow> if readable then Inr None else Inl PeFileInvalid
      | Some raw \<Rightarrow>
          if \<not> readable then Inl PeFileInvalid
          else if js_trim raw = [] then Inl PeFileInvalid
          else
            (case json_parse raw of
               None \<Rightarrow> Inl PeFileInvalid
             | Some v \<Rightarrow> rbind (validateConfigSnapshot parse v) (\<lambda>c. Inr (Some c))))"

definition saveOnce ::
  "url_parser \<Rightarrow> bool \<Rightarrow> bool \<Rightarrow> jsval \<Rightarrow> string option \<Rightarrow> (persistence_error + unit) \<times> string option"
where
  "saveOnce parse written renamed v disk =
     (case validateConfigSnapshot parse v of
        Inl e \<Rightarrow> (Inl e, disk)
      | Inr c \<Rightarrow>
          if \<not> written then (Inl PeFileWriteFailed, disk)
          else if \<not> renamed then (Inl PeFileReplaceFailed, disk)
          else (Inr (), Some (serializeSnapshot c)))"

text \<open>The queue: saves run in the order they were called in, each with its own outcome.\<close>

fun config_saves ::
  "url_parser \<Rightarrow> (bool \<times> bool \<times> jsval) list \<Rightarrow> string option \<Rightarrow> (persistence_error + unit) list \<times> string option"
where
  "config_saves parse [] disk = ([], disk)"
| "config_saves parse ((written, renamed, v) # rest) disk =
     (case saveOnce parse written renamed v disk of
        (r, disk') \<Rightarrow> (case config_saves parse rest disk' of (rs, out) \<Rightarrow> (r # rs, out)))"

definition loadProviderRegistry :: "url_parser \<Rightarrow> bool \<Rightarrow> string option \<Rightarrow> persistence_error + registry" where
  "loadProviderRegistry parse readable disk =
     rbind (config_load parse readable disk) (\<lambda>c.
     case c of None \<Rightarrow> Inr empty_registry | Some s \<Rightarrow> createRegistryFromSnapshot parse (config_value s))"

definition saveProviderRegistry ::
  "url_parser \<Rightarrow> bool \<Rightarrow> bool \<Rightarrow> registry \<Rightarrow> string option \<Rightarrow> (persistence_error + unit) \<times> string option"
where
  "saveProviderRegistry parse written renamed g disk =
     saveOnce parse written renamed (config_value (createConfigSnapshot g)) disk"

end
