(* ===== verification/Config_Saved.thy ===== *)
theory Config_Saved
  imports Config_Snapshot "HOL-Library.Multiset"
begin

text \<open>
  Saving and loading a registry: which registries have a snapshot that is accepted, what an accepted snapshot is
  turned into, and that a saved registry is loaded back.
\<close>

section \<open>Definitions are validated to themselves\<close>

lemma models_again: "rfold validate_model ms seen = Inr s \<Longrightarrow> rfold validate_model (map JStr (map as_str ms)) seen = Inr s"
  by (induction ms arbitrary: seen) (auto simp: validate_model_def assertModelName_def split: if_splits)

lemma fallbacks_again:
  "rfold validate_fallback vs seen = Inr s \<Longrightarrow> rfold validate_fallback (map JStr (map as_str vs)) seen = Inr s"
  by (induction vs arbitrary: seen) (auto simp: validate_fallback_def split: if_splits)

lemma protocol_name_of: "v \<in> set provider_protocols \<Longrightarrow> protocol_name (protocol_of v) = v"
  by (auto simp: provider_protocols_def protocol_of_def protocol_name_def)

lemma provider_value_fields [simp]:
  "field (provider_value p) ''id'' = JStr (pv_id p)" "field (provider_value p) ''name'' = JStr (pv_name p)"
  "field (provider_value p) ''protocol'' = JStr (protocol_name (pv_protocol p))"
  "field (provider_value p) ''baseUrl'' = JStr (pv_base_url p)"
  "field (provider_value p) ''credentialRef'' = (case pv_credential p of None \<Rightarrow> JNull | Some r \<Rightarrow> JStr r)"
  "field (provider_value p) ''models'' = JArr (map JStr (pv_models p))"
  "field (provider_value p) ''enabled'' = JBool (pv_enabled p)"
  "isPlainObject (provider_value p)" "\<not> hasForbiddenField (provider_value p) forbidden_provider_fields"
proof -
  show "\<not> hasForbiddenField (provider_value p) forbidden_provider_fields"
    by (simp add: provider_value_def hasForbiddenField_def forbidden_provider_fields_def ascii_lower_def Let_def)
qed (simp_all add: provider_value_def)

lemma provider_again:
  assumes "validateProviderDefinition parse v = Inr p"
  shows "validateProviderDefinition parse (provider_value p) = Inr p"
proof -
  let ?f = "\<lambda>k. field v k"
  obtain s where facts: "assertId InvalidProviderId (?f ''id'') = Inr ()"
      "assertDisplayName InvalidProviderName (?f ''name'') = Inr ()" "assertProtocol (?f ''protocol'') = Inr ()"
      "assertBaseUrl parse (?f ''baseUrl'') = Inr ()"
      "(if nullish (?f ''credentialRef'') then Inr () else assertCredentialRef (?f ''credentialRef'')) = Inr ()"
      "as_arr (?f ''models'') \<noteq> []" "rfold validate_model (as_arr (?f ''models'')) {} = Inr s"
    and p: "p = \<lparr>pv_id = as_str (?f ''id''), pv_name = as_str (?f ''name''),
               pv_protocol = protocol_of (as_str (?f ''protocol'')),
               pv_base_url = as_str (?f ''baseUrl''),
               pv_credential = (if nullish (?f ''credentialRef'') then None else Some (as_str (?f ''credentialRef''))),
               pv_models = map as_str (as_arr (?f ''models'')),
               pv_enabled = (?f ''enabled'' = JBool True)\<rparr>"
    using assms by (simp add: validateProviderDefinition_def Let_def split: if_split_asm) auto
  have same: "assertId InvalidProviderId (JStr (pv_id p)) = Inr ()"
    "assertDisplayName InvalidProviderName (JStr (pv_name p)) = Inr ()"
    "assertBaseUrl parse (JStr (pv_base_url p)) = Inr ()"
    using facts(1,2,4) by (auto simp: p assertId_def assertDisplayName_def assertBaseUrl_def split: if_splits)
  have "assertProtocol (JStr (protocol_name (pv_protocol p))) = Inr ()"
    "protocol_of (protocol_name (pv_protocol p)) = pv_protocol p"
    using facts(3) protocol_name_of [of "as_str (?f ''protocol'')"] by (auto simp: p assertProtocol_def split: if_splits)
  moreover have "(case pv_credential p of None \<Rightarrow> True | Some r \<Rightarrow> assertCredentialRef (JStr r) = Inr ())"
    using facts(5) by (auto simp: p assertCredentialRef_def split: if_splits)
  moreover have "rfold validate_model (map JStr (pv_models p)) {} = Inr s" "pv_models p \<noteq> []"
    using models_again [OF facts(7)] facts(6) by (simp_all add: p)
  ultimately show ?thesis
    using same
    by (auto simp: validateProviderDefinition_def Let_def assertEnabled_def nullish_def comp_def split: option.splits)
qed

lemma route_value_fields [simp]:
  "field (route_value r) ''id'' = JStr (rt_id r)" "field (route_value r) ''name'' = JStr (rt_name r)"
  "field (route_value r) ''providerId'' = JStr (rt_provider r)" "field (route_value r) ''model'' = JStr (rt_model r)"
  "field (route_value r) ''enabled'' = JBool (rt_enabled r)"
  "field (route_value r) ''fallbackProviderIds''
     = (case rt_fallbacks r of None \<Rightarrow> JUndef | Some ids \<Rightarrow> JArr (map JStr ids))"
  "isPlainObject (route_value r)" "\<not> hasForbiddenField (route_value r) forbidden_route_fields"
proof -
  show "\<not> hasForbiddenField (route_value r) forbidden_route_fields"
    by (simp add: route_value_def hasForbiddenField_def forbidden_route_fields_def ascii_lower_def Let_def split: option.split)
qed (simp_all add: route_value_def split: option.split)

lemma route_again:
  assumes "validateRouteDefinition v = Inr r"
  shows "validateRouteDefinition (route_value r) = Inr r"
proof -
  let ?f = "\<lambda>k. field v k"
  obtain fs where facts: "assertId InvalidRouteId (?f ''id'') = Inr ()"
      "assertDisplayName InvalidRouteName (?f ''name'') = Inr ()" "as_str (?f ''providerId'') \<noteq> []"
      "assertModelName InvalidRouteModel (?f ''model'') = Inr ()"
      "(if ?f ''fallbackProviderIds'' = JUndef then Inr None
        else rbind (assertFallbackProviderIds (?f ''fallbackProviderIds'') (as_str (?f ''providerId'')))
          (\<lambda>ids. Inr (Some ids))) = Inr fs"
    and r: "r = \<lparr>rt_id = as_str (?f ''id''), rt_name = as_str (?f ''name''), rt_provider = as_str (?f ''providerId''),
               rt_model = as_str (?f ''model''), rt_enabled = (?f ''enabled'' = JBool True), rt_fallbacks = fs\<rparr>"
    using assms by (simp add: validateRouteDefinition_def Let_def split: if_split_asm) auto
  have same: "assertId InvalidRouteId (JStr (rt_id r)) = Inr ()"
    "assertDisplayName InvalidRouteName (JStr (rt_name r)) = Inr ()"
    "assertModelName InvalidRouteModel (JStr (rt_model r)) = Inr ()" "rt_provider r \<noteq> []"
    using facts(1-4) by (auto simp: r assertId_def assertDisplayName_def assertModelName_def split: if_splits)
  have "case rt_fallbacks r of None \<Rightarrow> True
      | Some ids \<Rightarrow> assertFallbackProviderIds (JArr (map JStr ids)) (rt_provider r) = Inr ids"
  proof (cases fs)
    case (Some ids)
    with facts(5) have "assertFallbackProviderIds (?f ''fallbackProviderIds'') (as_str (?f ''providerId'')) = Inr ids"
      by (auto split: if_splits)
    then obtain s where
      "length (as_arr (?f ''fallbackProviderIds'')) \<le> max_route_fallbacks" "ids = map as_str (as_arr (?f ''fallbackProviderIds''))"
      "rfold validate_fallback (as_arr (?f ''fallbackProviderIds'')) {as_str (?f ''providerId'')} = Inr s"
      by (auto simp: assertFallbackProviderIds_def split: if_splits)
    with fallbacks_again [OF this(3)] show ?thesis
      by (simp add: r Some assertFallbackProviderIds_def comp_def)
  qed (simp add: r)
  with same show ?thesis
    by (auto simp: validateRouteDefinition_def Let_def assertEnabled_def split: option.splits)
qed

lemma entry_checked [simp]:
  "check_entry e persisted_provider_fields (provider_value p) = Inr ()"
  "check_entry e persisted_route_fields (route_value r) = Inr ()"
proof -
  have "\<not> list_ex (\<lambda>k. to_lower k \<in> set secret_like_fields) (obj_keys (provider_value p))"
    "\<not> list_ex (\<lambda>k. to_lower k \<in> set secret_like_fields) (obj_keys (route_value r))"
    by (simp_all add: provider_value_def route_value_def secret_like_fields_def ascii_lower_def Let_def split: option.split)
  moreover have "\<not> list_ex (\<lambda>k. k \<notin> set persisted_provider_fields) (obj_keys (provider_value p))"
    "\<not> list_ex (\<lambda>k. k \<notin> set persisted_route_fields) (obj_keys (route_value r))"
    by (simp_all add: provider_value_def route_value_def persisted_provider_fields_def persisted_route_fields_def
        split: option.split)
  moreover have "list_all persistable (map JStr xs)" for xs by (simp add: list_all_iff)
  then have "persistable (provider_value p)" "persistable (route_value r)"
    by (simp_all add: provider_value_def route_value_def split: option.split)
  ultimately show "check_entry e persisted_provider_fields (provider_value p) = Inr ()"
    "check_entry e persisted_route_fields (route_value r) = Inr ()"
    by (simp_all add: check_entry_def)
qed

section \<open>Registries hold validated definitions\<close>

definition self_valid :: "url_parser \<Rightarrow> registry \<Rightarrow> bool" where
  "self_valid parse g \<longleftrightarrow>
     list_all (\<lambda>(_, p). validateProviderDefinition parse (provider_value p) = Inr p) (providers g)
     \<and> list_all (\<lambda>(_, r). validateRouteDefinition (route_value r) = Inr r) (routes g)"

lemma self_valid_step: "registry_step parse g op = Inr g' \<Longrightarrow> self_valid parse g \<Longrightarrow> self_valid parse g'"
proof (cases op)
  case (RegisterProvider v)
  assume "registry_step parse g op = Inr g'" "self_valid parse g"
  then show ?thesis
    by (auto simp: RegisterProvider registerProvider_def self_valid_def list_all_iff
        split: if_splits dest!: obj_put_values dest: provider_again)
next
  case (UpdateProvider v)
  assume "registry_step parse g op = Inr g'" "self_valid parse g"
  then show ?thesis
    by (auto simp: UpdateProvider updateProvider_def self_valid_def list_all_iff
        split: if_splits dest!: obj_put_values dest: provider_again)
next
  case (RegisterRoute v)
  assume "registry_step parse g op = Inr g'" "self_valid parse g"
  then show ?thesis
    by (auto simp: RegisterRoute registerRoute_def self_valid_def list_all_iff
        split: if_splits dest!: obj_put_values dest: route_again)
next
  case (UpdateRoute v)
  assume "registry_step parse g op = Inr g'" "self_valid parse g"
  then show ?thesis
    by (auto simp: UpdateRoute updateRoute_def self_valid_def list_all_iff
        split: if_splits dest!: obj_put_values dest: route_again)
qed (auto simp: removeProvider_def removeRoute_def self_valid_def list_all_iff split: if_splits)

lemma self_valid_after: "self_valid parse (registry_after parse ops)"
proof -
  have "self_valid parse g \<Longrightarrow> self_valid parse (foldl (registry_apply parse) g ops)" for g
  proof (induction ops arbitrary: g)
    case (Cons op ops)
    have "self_valid parse (registry_apply parse g op)"
      using Cons.prems by (auto simp: registry_apply_def split: sum.splits intro: self_valid_step)
    with Cons.IH show ?case by simp
  qed simp
  then show ?thesis by (simp add: registry_after_def empty_registry_def self_valid_def)
qed

section \<open>What an accepted snapshot becomes\<close>

definition keyed_providers :: "provider_definition list \<Rightarrow> (string \<times> provider_definition) list" where
  "keyed_providers ps = map (\<lambda>p. (pv_id p, p)) ps"

definition keyed_routes :: "route_definition list \<Rightarrow> (string \<times> route_definition) list" where
  "keyed_routes rs = map (\<lambda>r. (rt_id r, r)) rs"

lemma keyed_simps [simp]:
  "map fst (keyed_providers ps) = map pv_id ps" "map fst (keyed_routes rs) = map rt_id rs"
  "map snd (keyed_providers ps) = ps" "map snd (keyed_routes rs) = rs"
  "fst ` set (keyed_providers ps) = pv_id ` set ps" "fst ` set (keyed_routes rs) = rt_id ` set rs"
  by (simp_all add: keyed_providers_def keyed_routes_def comp_def image_image)

lemma index_result:
  "rfold index_provider ps m =
     (if distinct (map pv_id ps) \<and> set (map pv_id ps) \<inter> fst ` set m = {} then Inr (m @ keyed_providers ps)
      else Inl PeDuplicateProvider)"
proof (induction ps arbitrary: m)
  case (Cons p ps)
  show ?case
  proof (cases "pv_id p \<in> fst ` set m")
    case True
    then have "map_of m (pv_id p) \<noteq> None" by (simp add: map_of_eq_None_iff)
    then show ?thesis using True by (auto simp: index_provider_def)
  next
    case False
    then have "map_of m (pv_id p) = None" by (simp add: map_of_eq_None_iff)
    with False Cons.IH [of "m @ [(pv_id p, p)]"] show ?thesis
      by (auto simp: index_provider_def obj_put_new keyed_providers_def)
  qed
qed (simp add: keyed_providers_def)

definition route_served :: "(string \<times> provider_definition) list \<Rightarrow> route_definition \<Rightarrow> bool" where
  "route_served m r \<longleftrightarrow>
     list_all (\<lambda>i. case map_of m i of None \<Rightarrow> False | Some p \<Rightarrow> rt_model r \<in> set (pv_models p)) (routeProviderIds r)"

definition route_stranded :: "(string \<times> provider_definition) list \<Rightarrow> route_definition \<Rightarrow> bool" where
  "route_stranded m r \<longleftrightarrow>
     rt_enabled r \<and> (case map_of m (rt_provider r) of None \<Rightarrow> False | Some p \<Rightarrow> \<not> pv_enabled p)"

lemma check_route_cases:
  "check_route m r seen = Inr seen' \<longleftrightarrow>
     rt_id r \<notin> set seen \<and> route_served m r \<and> \<not> route_stranded m r \<and> seen' = rt_id r # seen"
  by (auto simp: check_route_def route_served_def route_stranded_def routeProviderIds_def rall_ok list_all_iff
      split: option.splits if_splits)

lemma check_route_stranded:
  "rt_id r \<notin> set seen \<Longrightarrow> route_served m r \<Longrightarrow> route_stranded m r \<Longrightarrow> check_route m r seen = Inl PeInvalidProvider"
  by (auto simp: check_route_def route_served_def route_stranded_def routeProviderIds_def split: option.splits if_splits)

lemma check_routes_Inr:
  "rfold (check_route m) rs seen = Inr seen' \<longleftrightarrow>
     distinct (map rt_id rs) \<and> set (map rt_id rs) \<inter> set seen = {} \<and> list_all (\<lambda>r. route_served m r \<and> \<not> route_stranded m r) rs
     \<and> seen' = rev (map rt_id rs) @ seen"
  by (induction rs arbitrary: seen) (auto simp: check_route_cases)

lemma check_routes_stranded:
  assumes "distinct (map rt_id rs)" and "set (map rt_id rs) \<inter> set seen = {}" and "list_all (route_served m) rs"
    and "list_ex (route_stranded m) rs"
  shows "rfold (check_route m) rs seen = Inl PeInvalidProvider"
  using assms
proof (induction rs arbitrary: seen)
  case (Cons r rs)
  show ?case
  proof (cases "route_stranded m r")
    case True
    with Cons.prems show ?thesis by (simp add: check_route_stranded)
  next
    case False
    with Cons.prems have "check_route m r seen = Inr (rt_id r # seen)" by (simp add: check_route_cases)
    with False Cons show ?thesis by simp
  qed
qed simp

lemma mapped_Inr [simp]: "mapped r = Inr x \<longleftrightarrow> r = Inr x"
  by (cases r) (simp_all add: mapped_def)

lemma provider_entry_valid:
  assumes "validateProviderEntry parse x = Inr p"
  shows "validateProviderDefinition parse (provider_value p) = Inr p"
    and "case pv_credential p of None \<Rightarrow> True | Some s \<Rightarrow> \<not> secret_like_ref s"
  using assms
  by (auto simp: validateProviderEntry_def assertSafeCredentialRef_def intro: provider_again split: option.splits if_splits)

lemma route_entry_valid: "validateRouteEntry x = Inr r \<Longrightarrow> validateRouteDefinition (route_value r) = Inr r"
  by (auto simp: validateRouteEntry_def intro: route_again)

lemma accepted_snapshot:
  assumes "validateConfigSnapshot parse v = Inr c"
  shows "list_all (\<lambda>p. validateProviderDefinition parse (provider_value p) = Inr p) (pc_providers c)"
    and "list_all (\<lambda>r. validateRouteDefinition (route_value r) = Inr r) (pc_routes c)"
    and "distinct (map pv_id (pc_providers c))" and "distinct (map rt_id (pc_routes c))"
    and "list_all (\<lambda>r. route_served (keyed_providers (pc_providers c)) r \<and> \<not> route_stranded (keyed_providers (pc_providers c)) r)
           (pc_routes c)"
    and "list_all (\<lambda>p. case pv_credential p of None \<Rightarrow> True | Some s \<Rightarrow> \<not> secret_like_ref s) (pc_providers c)"
proof -
  from assms obtain ps rs m seen where ps: "rmap (validateProviderEntry parse) (as_arr (field v ''providers'')) = Inr ps"
    and rs: "rmap validateRouteEntry (as_arr (field v ''routes'')) = Inr rs"
    and m: "rfold index_provider ps [] = Inr m" and seen: "rfold (check_route m) rs [] = Inr seen"
    and c: "c = \<lparr>pc_providers = ps, pc_routes = rs\<rparr>"
    by (auto simp: validateConfigSnapshot_def split: if_splits)
  from m have m': "m = keyed_providers ps" and "distinct (map pv_id ps)" by (auto simp: index_result split: if_splits)
  then show "distinct (map pv_id (pc_providers c))" by (simp add: c)
  from ps have each: "list_all2 (\<lambda>x p. validateProviderEntry parse x = Inr p) (as_arr (field v ''providers'')) ps"
    by (simp add: rmap_Inr)
  then have "\<exists>x. validateProviderEntry parse x = Inr p" if "p \<in> set ps" for p
    using that by (fastforce simp: list_all2_conv_all_nth in_set_conv_nth)
  with provider_entry_valid show "list_all (\<lambda>p. validateProviderDefinition parse (provider_value p) = Inr p) (pc_providers c)"
    "list_all (\<lambda>p. case pv_credential p of None \<Rightarrow> True | Some s \<Rightarrow> \<not> secret_like_ref s) (pc_providers c)"
    unfolding list_all_iff c by (simp, blast, simp) blast
  from rs have "list_all2 (\<lambda>x r. validateRouteEntry x = Inr r) (as_arr (field v ''routes'')) rs" by (simp add: rmap_Inr)
  then have "\<exists>x. validateRouteEntry x = Inr r" if "r \<in> set rs" for r
    using that by (fastforce simp: list_all2_conv_all_nth in_set_conv_nth)
  with route_entry_valid show "list_all (\<lambda>r. validateRouteDefinition (route_value r) = Inr r) (pc_routes c)"
    unfolding list_all_iff c by simp blast
  from seen show "distinct (map rt_id (pc_routes c))"
    "list_all (\<lambda>r. route_served (keyed_providers (pc_providers c)) r \<and> \<not> route_stranded (keyed_providers (pc_providers c)) r)
       (pc_routes c)"
    by (simp_all add: check_routes_Inr c m')
qed

definition registry_of :: "persisted_config \<Rightarrow> registry" where
  "registry_of c = \<lparr>providers = keyed_providers (pc_providers c), routes = keyed_routes (pc_routes c)\<rparr>"

lemma register_providers:
  assumes "list_all (\<lambda>p. validateProviderDefinition parse (provider_value p) = Inr p) ps" and "distinct (map pv_id ps)"
    and "set (map pv_id ps) \<inter> fst ` set (providers g) = {}"
  shows "rfold (\<lambda>p g. registerProvider parse g (provider_value p)) ps g
    = Inr (g\<lparr>providers := providers g @ keyed_providers ps\<rparr>)"
  using assms
proof (induction ps arbitrary: g)
  case (Cons p ps)
  then have new: "pv_id p \<notin> fst ` set (providers g)" by simp
  then have "map_of (providers g) (pv_id p) = None" by (simp add: map_of_eq_None_iff)
  with new Cons show ?case by (simp add: registerProvider_def obj_put_new keyed_providers_def)
qed (simp add: keyed_providers_def)

lemma register_routes:
  assumes "list_all (\<lambda>r. validateRouteDefinition (route_value r) = Inr r) rs" and "distinct (map rt_id rs)"
    and "set (map rt_id rs) \<inter> fst ` set (routes g) = {}"
    and "list_all (\<lambda>r. route_served (providers g) r \<and> \<not> route_stranded (providers g) r) rs"
  shows "rfold (\<lambda>r g. registerRoute g (route_value r)) rs g = Inr (g\<lparr>routes := routes g @ keyed_routes rs\<rparr>)"
  using assms
proof (induction rs arbitrary: g)
  case (Cons r rs)
  then have new: "rt_id r \<notin> fst ` set (routes g)" by simp
  then have "map_of (routes g) (rt_id r) = None" by (simp add: map_of_eq_None_iff)
  moreover have "assertRouteProvider g r = Inr ()" "assertFallbackProviders g r = Inr ()"
    using Cons.prems(4)
    by (auto simp: assertRouteProvider_def assertFallbackProviders_def route_served_def route_stranded_def
        routeProviderIds_def rall_ok list_all_iff split: option.splits)
  ultimately show ?case using new Cons by (simp add: registerRoute_def obj_put_new keyed_routes_def)
qed (simp add: keyed_routes_def)

section \<open>The snapshot of a registry\<close>

lemma sorted_permutes:
  assumes "distinct (map fst xs)" and "list_all (\<lambda>(k, x). h x = k) xs"
  shows "map_of (map (\<lambda>x. (h x, x)) (sort_key h (map snd xs))) = map_of xs"
    and "distinct (map h (sort_key h (map snd xs)))"
proof -
  have keys: "map h (map snd xs) = map fst xs" using assms(2) by (auto simp: list_all_iff)
  have "mset (map h (sort_key h (map snd xs))) = mset (map fst xs)"
    by (simp only: mset_map mset_sort keys [symmetric])
  with assms(1) show d: "distinct (map h (sort_key h (map snd xs)))" by (metis mset_eq_imp_distinct_iff)
  have "set (map (\<lambda>x. (h x, x)) (sort_key h (map snd xs))) = set xs"
    using assms(2) by (force simp: list_all_iff)
  moreover have "distinct (map fst (map (\<lambda>x. (h x, x)) (sort_key h (map snd xs))))" using d by (simp add: comp_def)
  ultimately show "map_of (map (\<lambda>x. (h x, x)) (sort_key h (map snd xs))) = map_of xs"
    using map_of_inject_set [OF _ assms(1)] by blast
qed

definition snapshot_of :: "registry \<Rightarrow> registry" where
  "snapshot_of g = registry_of (createConfigSnapshot g)"

lemma snapshot_maps:
  assumes "registry_inv parse g"
  shows "map_of (providers (snapshot_of g)) = map_of (providers g)" and "map_of (routes (snapshot_of g)) = map_of (routes g)"
    and "distinct (map pv_id (pc_providers (createConfigSnapshot g)))"
    and "distinct (map rt_id (pc_routes (createConfigSnapshot g)))"
proof -
  have p: "distinct (map fst (providers g))" "list_all (\<lambda>(k, p). pv_id p = k) (providers g)"
    and r: "distinct (map fst (routes g))" "list_all (\<lambda>(k, r). rt_id r = k) (routes g)"
    using assms by (auto simp: registry_inv_def list_all_iff)
  show "map_of (providers (snapshot_of g)) = map_of (providers g)" "map_of (routes (snapshot_of g)) = map_of (routes g)"
    "distinct (map pv_id (pc_providers (createConfigSnapshot g)))" "distinct (map rt_id (pc_routes (createConfigSnapshot g)))"
    using sorted_permutes [OF p] sorted_permutes [OF r]
    by (simp_all add: snapshot_of_def registry_of_def createConfigSnapshot_def keyed_providers_def keyed_routes_def
        listProviders_def listRoutes_def)
qed

text \<open>Why a consistent registry cannot be saved.\<close>

definition unsavable :: "registry \<Rightarrow> bool" where
  "unsavable g \<longleftrightarrow>
     list_ex (\<lambda>p. case pv_credential p of None \<Rightarrow> False | Some s \<Rightarrow> secret_like_ref s) (listProviders g)
     \<or> list_ex (route_stranded (providers g)) (listRoutes g)"

lemma snapshot_result:
  assumes inv: "registry_inv parse g" and valid: "self_valid parse g"
  shows "validateConfigSnapshot parse (config_value (createConfigSnapshot g))
    = (if unsavable g then Inl PeInvalidProvider else Inr (createConfigSnapshot g))"
proof -
  let ?c = "createConfigSnapshot g"
  let ?bad = "\<lambda>p. case pv_credential p of None \<Rightarrow> False | Some s \<Rightarrow> secret_like_ref s"
  let ?m = "keyed_providers (pc_providers ?c)"
  have m: "map_of ?m = map_of (providers g)"
    using snapshot_maps(1) [OF inv] by (simp add: snapshot_of_def registry_of_def)
  have ps: "set (pc_providers ?c) = set (listProviders g)" "set (pc_routes ?c) = set (listRoutes g)"
    by (simp_all add: createConfigSnapshot_def)
  have "validateProviderEntry parse (provider_value p) = (if ?bad p then Inl PeInvalidProvider else Inr p)"
    if "p \<in> set (pc_providers ?c)" for p
  proof -
    from that valid have p: "validateProviderDefinition parse (provider_value p) = Inr p"
      by (auto simp: ps listProviders_def self_valid_def list_all_iff)
    then have "case pv_credential p of None \<Rightarrow> True | Some s \<Rightarrow> isValidCredentialRef (JStr s)"
      using validateProviderDefinition_wf [OF p] by (auto simp: provider_wf_def isValidCredentialRef_def split: option.split)
    then show ?thesis by (simp add: validateProviderEntry_def p mapped_def assertSafeCredentialRef_def split: option.splits)
  qed
  then have providers: "rmap (validateProviderEntry parse) (map provider_value (pc_providers ?c))
      = (if list_ex ?bad (pc_providers ?c) then Inl PeInvalidProvider else Inr (pc_providers ?c))"
    by (intro rmap_first_error) (simp add: list_all_iff)
  have routes: "rmap validateRouteEntry (map route_value (pc_routes ?c)) = Inr (pc_routes ?c)"
    using valid by (intro rmap_values)
      (auto simp: ps listRoutes_def self_valid_def list_all_iff validateRouteEntry_def mapped_def)
  have index: "rfold index_provider (pc_providers ?c) [] = Inr ?m"
    by (simp add: index_result snapshot_maps(3) [OF inv])
  have stranded: "route_stranded ?m = route_stranded (providers g)" by (rule ext) (simp add: route_stranded_def m)
  have served: "list_all (route_served ?m) (pc_routes ?c)"
    unfolding list_all_iff ps
  proof
    fix r assume "r \<in> set (listRoutes g)"
    then obtain i where "(i, r) \<in> set (routes g)" by (auto simp: listRoutes_def)
    with inv have "map_of (routes g) i = Some r" by (simp add: registry_inv_def)
    with inv have "list_all (serves g (rt_model r)) (routeProviderIds r)" unfolding registry_inv_def by blast
    then show "route_served ?m r" unfolding route_served_def m list_all_iff serves_def by (auto split: option.splits)
  qed
  have "rfold (check_route ?m) (pc_routes ?c) []
      = (if list_ex (route_stranded (providers g)) (pc_routes ?c) then Inl PeInvalidProvider
         else Inr (rev (map rt_id (pc_routes ?c))))"
    using check_routes_stranded [of "pc_routes ?c" "[]" ?m] check_routes_Inr [of ?m "pc_routes ?c" "[]"]
      served snapshot_maps(4) [OF inv]
    by (auto simp: stranded list_ex_iff list_all_iff)
  moreover have "list_ex P (pc_providers ?c) = list_ex P (listProviders g)" for P by (simp add: list_ex_iff ps)
  moreover have "list_ex P (pc_routes ?c) = list_ex P (listRoutes g)" for P by (simp add: list_ex_iff ps)
  ultimately show ?thesis
    by (simp add: validateConfigSnapshot_def config_value_def persisted_root_fields_def providers routes index unsavable_def)
qed

lemma create_accepted:
  assumes "validateConfigSnapshot parse v = Inr c"
  shows "createRegistryFromSnapshot parse v = Inr (registry_of c)"
proof -
  note ok = accepted_snapshot [OF assms]
  have "rfold (\<lambda>p g. registerProvider parse g (provider_value p)) (pc_providers c) empty_registry
      = Inr (empty_registry\<lparr>providers := keyed_providers (pc_providers c)\<rparr>)"
    using register_providers [OF ok(1,3), of empty_registry] by (simp add: empty_registry_def)
  moreover have "rfold (\<lambda>r g. registerRoute g (route_value r)) (pc_routes c)
      (empty_registry\<lparr>providers := keyed_providers (pc_providers c)\<rparr>) = Inr (registry_of c)"
    using register_routes [OF ok(2,4), of "empty_registry\<lparr>providers := keyed_providers (pc_providers c)\<rparr>"] ok(5)
    by (simp add: empty_registry_def registry_of_def)
  ultimately show ?thesis by (simp add: createRegistryFromSnapshot_def assms)
qed

lemma load_saved:
  assumes "registry_inv parse g" and "self_valid parse g" and "\<not> unsavable g"
    and "json_kept (config_value (createConfigSnapshot g))"
  shows "loadProviderRegistry parse True (Some (serializeSnapshot (createConfigSnapshot g))) = Inr (snapshot_of g)"
proof -
  let ?c = "createConfigSnapshot g"
  have valid: "validateConfigSnapshot parse (config_value ?c) = Inr ?c"
    using snapshot_result [OF assms(1,2)] assms(3) by simp
  obtain kvs where kvs: "config_value ?c = JObj kvs" by (simp add: config_value_def)
  from pretty_object_text [of kvs] obtain s where "pretty_text (config_value ?c) = CHR ''{'' # s @ [CHR ''}'']"
    by (auto simp: kvs)
  then have "js_trim (serializeSnapshot ?c) \<noteq> []" using trim_line [of s] by (simp add: serializeSnapshot_def)
  moreover have "json_parse (serializeSnapshot ?c) = Some (config_value ?c)"
    unfolding serializeSnapshot_def by (rule parse_pretty_line [OF assms(4)])
  ultimately show ?thesis
    by (simp add: loadProviderRegistry_def config_load_def valid create_accepted [OF valid] snapshot_of_def)
qed

lemma save_result:
  assumes "registry_inv parse g" and "self_valid parse g"
  shows "saveProviderRegistry parse written renamed g disk =
    (if unsavable g then (Inl PeInvalidProvider, disk)
     else if \<not> written then (Inl PeFileWriteFailed, disk)
     else if \<not> renamed then (Inl PeFileReplaceFailed, disk)
     else (Inr (), Some (serializeSnapshot (createConfigSnapshot g))))"
  by (simp add: saveProviderRegistry_def saveOnce_def snapshot_result [OF assms])

lemma snapshot_resolves:
  assumes "registry_inv parse g"
  shows "resolveRouteCandidates (snapshot_of g) i = resolveRouteCandidates g i"
proof -
  have same: "add_candidate (snapshot_of g) = add_candidate g"
    by (intro ext) (simp add: add_candidate_def snapshot_maps(1) [OF assms])
  show ?thesis unfolding resolveRouteCandidates_def snapshot_maps(2) [OF assms] same ..
qed

section \<open>Properties\<close>

text \<open>
  An accepted snapshot always becomes a registry, entirely: once the validation has passed, no registration fails, so
  that the errors of a load are those of the validation and a registry is never filled in part.
\<close>

theorem snapshot_becomes_registry:
  "createRegistryFromSnapshot parse v = rbind (validateConfigSnapshot parse v) (\<lambda>c. Inr (registry_of c))"
proof (cases "validateConfigSnapshot parse v")
  case (Inr c)
  then show ?thesis by (simp add: create_accepted)
qed (simp add: createRegistryFromSnapshot_def)

text \<open>
  Which registries can be saved.  The snapshot of a reachable registry is accepted as it is, unless a
  credential reference reads like a secret or an enabled route has a disabled primary provider; then it is
  refused as an invalid provider, although the registry itself is consistent.
\<close>

theorem snapshot_saved_exactly:
  "validateConfigSnapshot parse (config_value (createConfigSnapshot (registry_after parse ops)))
     = (if unsavable (registry_after parse ops) then Inl PeInvalidProvider
        else Inr (createConfigSnapshot (registry_after parse ops)))"
  by (rule snapshot_result [OF inv_after self_valid_after])

text \<open>
  What is saved is loaded back.  Saving a reachable registry either leaves the file as it was or writes a file from which a
  registry is loaded with the same providers and routes under the same ids, so that every route resolves to the same
  candidates.
\<close>

theorem saved_registry_is_loaded:
  assumes "json_kept (config_value (createConfigSnapshot (registry_after parse ops)))"
  shows "case saveProviderRegistry parse True True (registry_after parse ops) disk of
      (Inl e, disk') \<Rightarrow> e = PeInvalidProvider \<and> unsavable (registry_after parse ops) \<and> disk' = disk
    | (Inr _, disk') \<Rightarrow>
        (case loadProviderRegistry parse True disk' of
           Inl _ \<Rightarrow> False
         | Inr g \<Rightarrow>
             map_of (providers g) = map_of (providers (registry_after parse ops))
             \<and> map_of (routes g) = map_of (routes (registry_after parse ops))
             \<and> resolveRouteCandidates g i = resolveRouteCandidates (registry_after parse ops) i)"
proof (cases "unsavable (registry_after parse ops)")
  case False
  from load_saved [OF inv_after self_valid_after False assms] show ?thesis
    using False by (simp add: save_result [OF inv_after self_valid_after] snapshot_maps [OF inv_after]
      snapshot_resolves [OF inv_after])
qed (simp add: save_result [OF inv_after self_valid_after])

lemma saved_registry_is_loaded_witness:
  "\<exists>d g. saveProviderRegistry sample_url True True (registry_after sample_url sample_ops) None = (Inr (), Some d)
     \<and> loadProviderRegistry sample_url True (Some d) = Inr g
     \<and> resolveRouteCandidates g ''r'' = resolveRouteCandidates (registry_after sample_url sample_ops) ''r''"
proof -
  let ?g = "registry_after sample_url sample_ops"
  have kept: "json_kept (config_value (createConfigSnapshot ?g))" by code_simp
  have "\<not> unsavable ?g" by code_simp
  then have "validateConfigSnapshot sample_url (config_value (createConfigSnapshot ?g)) = Inr (createConfigSnapshot ?g)"
    unfolding snapshot_result [OF inv_after self_valid_after] by simp
  then obtain d where d: "saveProviderRegistry sample_url True True ?g None = (Inr (), Some d)"
    by (simp add: saveProviderRegistry_def saveOnce_def)
  from saved_registry_is_loaded [OF kept, of None "''r''"] show ?thesis
    unfolding d by (auto split: sum.splits)
qed

text \<open>
  A registry that was filled by accepted calls only and cannot be saved: the provider of an enabled route is switched
  off.
\<close>

lemma disabled_provider_blocks_save:
  "unsavable (registry_after sample_url (sample_ops @ [UpdateProvider (sample_provider ''a'' False)]))
     \<and> is_ok (updateProvider sample_url (registry_after sample_url sample_ops) (sample_provider ''a'' False))"
  by code_simp

end
