(* ===== verification/Credentials.thy ===== *)
theory Credentials
  imports Registry_Types Json_Text
begin

text \<open>
  \<open>provider-registry/src/credential-store.ts\<close> and \<open>presets.ts\<close>: the store that guards a credential backend, the store that is never
  available, the store in memory and the built-in provider templates.  A backend is a parameter; the locale \<open>secret_backend\<close> says what
  a working one promises, and the store in memory provides it.
\<close>

section \<open>Checks\<close>

definition max_credential_bytes :: nat where "max_credential_bytes = 16 * 1024"

text \<open>\<open>assertCredentialRef\<close> and \<open>assertCredentialValue\<close>; a text is its UTF-8 bytes.\<close>

definition checkCredentialRef :: "jsval \<Rightarrow> registry_error + unit" where
  "checkCredentialRef ref = (if isValidCredentialRef ref then Inr () else Inl InvalidCredentialRef)"

definition control_char :: "char \<Rightarrow> bool" where
  "control_char c \<longleftrightarrow> (of_char c :: nat) < 32 \<and> c \<notin> {CHR 0x0A, CHR 0x0D, CHR 0x09}"

definition assertCredentialValue :: "jsval \<Rightarrow> registry_error + unit" where
  "assertCredentialValue secret =
     (if \<not> is_string secret \<or> as_str secret = [] then Inl InvalidCredentialValue
      else if js_trim (as_str secret) = [] then Inl InvalidCredentialValue
      else if max_credential_bytes < length (as_str secret) then Inl InvalidCredentialValue
      else if list_ex control_char (as_str secret) then Inl InvalidCredentialValue
      else Inr ())"

definition assertCredentialBackend :: "jsval \<Rightarrow> registry_error + unit" where
  "assertCredentialBackend v =
     (if \<not> is_object v then Inl InvalidCredentialStore
      else if list_ex (\<lambda>name. field v name \<noteq> JFun) [''get'', ''set'', ''has'', ''delete''] then Inl InvalidCredentialStore
      else Inr ())"

definition createSecureCredentialStore :: "jsval \<Rightarrow> registry_error + unit" where
  "createSecureCredentialStore options =
     (if \<not> is_object options then Inl InvalidCredentialStore else assertCredentialBackend (field options ''backend''))"

section \<open>The guarding store\<close>

text \<open>A call of the backend throws, an error of the registry or another, or answers; it may change the world.\<close>

record 'w credential_backend =
  cb_get :: "string \<Rightarrow> 'w \<Rightarrow> (registry_error option + jsval) \<times> 'w"
  cb_set :: "string \<Rightarrow> string \<Rightarrow> 'w \<Rightarrow> (registry_error option + unit) \<times> 'w"
  cb_has :: "string \<Rightarrow> 'w \<Rightarrow> (registry_error option + jsval) \<times> 'w"
  cb_delete :: "string \<Rightarrow> 'w \<Rightarrow> (registry_error option + unit) \<times> 'w"

text \<open>\<open>Boolean(value)\<close>.\<close>

fun truthy :: "jsval \<Rightarrow> bool" where
  "truthy JUndef = False"
| "truthy JNull = False"
| "truthy (JBool b) = b"
| "truthy (JNum n) = (n \<noteq> NaN \<and> n \<noteq> Fin 0)"
| "truthy (JStr s) = (s \<noteq> [])"
| "truthy _ = True"

definition collapsed :: "(registry_error option + 'a) \<times> 'w \<Rightarrow> (registry_error + 'a) \<times> 'w" where
  "collapsed r = (case r of (Inl _, w) \<Rightarrow> (Inl CredentialBackendFailed, w) | (Inr a, w) \<Rightarrow> (Inr a, w))"

definition secure_set :: "'w credential_backend \<Rightarrow> jsval \<Rightarrow> jsval \<Rightarrow> 'w \<Rightarrow> (registry_error + unit) \<times> 'w" where
  "secure_set B ref secret w =
     (case rbind (checkCredentialRef ref) (\<lambda>_. assertCredentialValue secret) of
        Inl e \<Rightarrow> (Inl e, w)
      | Inr _ \<Rightarrow> collapsed (cb_set B (as_str ref) (as_str secret) w))"

definition secure_get :: "'w credential_backend \<Rightarrow> jsval \<Rightarrow> 'w \<Rightarrow> (registry_error + string option) \<times> 'w" where
  "secure_get B ref w =
     (case checkCredentialRef ref of
        Inl e \<Rightarrow> (Inl e, w)
      | Inr _ \<Rightarrow>
          (case cb_get B (as_str ref) w of
             (Inl (Some e), w') \<Rightarrow> (Inl e, w')
           | (Inl None, w') \<Rightarrow> (Inl CredentialBackendFailed, w')
           | (Inr v, w') \<Rightarrow>
               (if v = JUndef then Inr None
                else if \<not> is_string v \<or> as_str v = [] then Inl CredentialBackendFailed
                else Inr (Some (as_str v)), w')))"

definition secure_has :: "'w credential_backend \<Rightarrow> jsval \<Rightarrow> 'w \<Rightarrow> (registry_error + bool) \<times> 'w" where
  "secure_has B ref w =
     (case checkCredentialRef ref of
        Inl e \<Rightarrow> (Inl e, w)
      | Inr _ \<Rightarrow>
          (case collapsed (cb_has B (as_str ref) w) of
             (Inl e, w') \<Rightarrow> (Inl e, w')
           | (Inr v, w') \<Rightarrow> (Inr (truthy v), w')))"

definition secure_delete :: "'w credential_backend \<Rightarrow> jsval \<Rightarrow> 'w \<Rightarrow> (registry_error + unit) \<times> 'w" where
  "secure_delete B ref w =
     (case checkCredentialRef ref of
        Inl e \<Rightarrow> (Inl e, w)
      | Inr _ \<Rightarrow> collapsed (cb_delete B (as_str ref) w))"

section \<open>Stores\<close>

text \<open>\<open>UnavailableCredentialStore\<close> and \<open>InMemoryCredentialStore\<close>, as backends.\<close>

definition unavailable_store :: "'w credential_backend" where
  "unavailable_store =
     \<lparr>cb_get = \<lambda>_ w. (Inr JUndef, w), cb_set = \<lambda>_ _ w. (Inr (), w), cb_has = \<lambda>_ w. (Inr (JBool False), w),
      cb_delete = \<lambda>_ w. (Inr (), w)\<rparr>"

type_synonym secrets = "(string \<times> string) list"

definition memory_secret_set :: "string \<Rightarrow> string \<Rightarrow> secrets \<Rightarrow> (registry_error option + unit) \<times> secrets" where
  "memory_secret_set ref secret m =
     (if \<not> matches_credential_ref ref then (Inl (Some InvalidCredentialRef), m)
      else if secret = [] then (Inl (Some InvalidCredentialValue), m)
      else (Inr (), obj_put m ref secret))"

definition memory_secret_get :: "string \<Rightarrow> secrets \<Rightarrow> (registry_error option + jsval) \<times> secrets" where
  "memory_secret_get ref m =
     (if \<not> matches_credential_ref ref then (Inr JUndef, m)
      else (Inr (case map_of m ref of None \<Rightarrow> JUndef | Some s \<Rightarrow> JStr s), m))"

definition memory_secret_has :: "string \<Rightarrow> secrets \<Rightarrow> (registry_error option + jsval) \<times> secrets" where
  "memory_secret_has ref m =
     (if \<not> matches_credential_ref ref then (Inr (JBool False), m) else (Inr (JBool (map_of m ref \<noteq> None)), m))"

definition memory_secret_delete :: "string \<Rightarrow> secrets \<Rightarrow> (registry_error option + unit) \<times> secrets" where
  "memory_secret_delete ref m =
     (if \<not> matches_credential_ref ref then (Inr (), m) else (Inr (), filter (\<lambda>(k, _). k \<noteq> ref) m))"

definition memory_secrets :: "secrets credential_backend" where
  "memory_secrets =
     \<lparr>cb_get = memory_secret_get, cb_set = memory_secret_set, cb_has = memory_secret_has, cb_delete = memory_secret_delete\<rparr>"

section \<open>Presets\<close>

record provider_preset =
  pp_id :: string
  pp_name :: string
  pp_protocol :: provider_protocol
  pp_base_url :: string

definition getOfficialProviderPresets :: "provider_preset list" where
  "getOfficialProviderPresets =
     [\<lparr>pp_id = ''anthropic-official'', pp_name = ''Anthropic'', pp_protocol = AnthropicMessages,
       pp_base_url = ''https://api.anthropic.com''\<rparr>,
      \<lparr>pp_id = ''openai-official'', pp_name = ''OpenAI'', pp_protocol = OpenAICompatible,
       pp_base_url = ''https://api.openai.com/v1''\<rparr>]"

lemma presets_have_valid_ids: "list_all (\<lambda>p. matches_id (pp_id p)) getOfficialProviderPresets"
  by code_simp

section \<open>What a working backend promises\<close>

text \<open>\<open>look\<close> is what the backend holds; the promises are for the calls the guarding store lets through.\<close>

locale secret_backend =
  fixes B :: "'w credential_backend"
    and look :: "'w \<Rightarrow> string \<Rightarrow> string option"
  assumes get_law: "matches_credential_ref r \<Longrightarrow>
      cb_get B r w = (Inr (case look w r of None \<Rightarrow> JUndef | Some s \<Rightarrow> JStr s), w)"
    and has_law: "matches_credential_ref r \<Longrightarrow> cb_has B r w = (Inr (JBool (look w r \<noteq> None)), w)"
    and set_law: "matches_credential_ref r \<Longrightarrow> s \<noteq> [] \<Longrightarrow>
      fst (cb_set B r s w) = Inr () \<and> look (snd (cb_set B r s w)) = (look w)(r \<mapsto> s)"
    and delete_law: "matches_credential_ref r \<Longrightarrow>
      fst (cb_delete B r w) = Inr () \<and> look (snd (cb_delete B r w)) = (look w)(r := None)"
begin

text \<open>No secret is empty; the guarding store keeps it so.\<close>

definition sound :: "'w \<Rightarrow> bool" where
  "sound w \<longleftrightarrow> (\<forall>r. look w r \<noteq> Some [])"

lemma secure_get_law:
  "sound w \<Longrightarrow> isValidCredentialRef ref \<Longrightarrow> secure_get B ref w = (Inr (look w (as_str ref)), w)"
  by (auto simp: secure_get_def checkCredentialRef_def isValidCredentialRef_def get_law sound_def split: option.splits)

lemma secure_has_law:
  "isValidCredentialRef ref \<Longrightarrow> secure_has B ref w = (Inr (look w (as_str ref) \<noteq> None), w)"
  by (simp add: secure_has_def checkCredentialRef_def isValidCredentialRef_def has_law collapsed_def)

lemma secure_set_law:
  assumes "isValidCredentialRef ref" and "assertCredentialValue secret = Inr ()"
  shows "fst (secure_set B ref secret w) = Inr ()
    \<and> look (snd (secure_set B ref secret w)) = (look w)(as_str ref \<mapsto> as_str secret)
    \<and> (sound w \<longrightarrow> sound (snd (secure_set B ref secret w)))"
proof -
  have "as_str secret \<noteq> []" using assms(2) by (auto simp: assertCredentialValue_def split: if_split_asm)
  with set_law [of "as_str ref" "as_str secret" w] assms show ?thesis
    by (cases "cb_set B (as_str ref) (as_str secret) w")
      (auto simp: secure_set_def checkCredentialRef_def isValidCredentialRef_def collapsed_def sound_def)
qed

lemma secure_delete_law:
  assumes "isValidCredentialRef ref"
  shows "fst (secure_delete B ref w) = Inr () \<and> look (snd (secure_delete B ref w)) = (look w)(as_str ref := None)
    \<and> (sound w \<longrightarrow> sound (snd (secure_delete B ref w)))"
  using delete_law [of "as_str ref" w] assms
  by (cases "cb_delete B (as_str ref) w")
    (auto simp: secure_delete_def checkCredentialRef_def isValidCredentialRef_def collapsed_def sound_def)

end

lemma map_of_drop: "map_of (filter (\<lambda>(k, _). k \<noteq> r) m) = (map_of m)(r := None)"
  by (induction m) auto

interpretation secrets_in_memory: secret_backend memory_secrets map_of
  by unfold_locales
    (auto simp: memory_secrets_def memory_secret_get_def memory_secret_set_def memory_secret_has_def memory_secret_delete_def
      map_of_obj_put map_of_drop)

section \<open>A sequence of calls\<close>

datatype credential_call = SetSecret jsval jsval | GetSecret jsval | HasSecret jsval | DeleteSecret jsval

datatype credential_answer = CallRefused registry_error | CallDone | SecretIs "string option" | SecretThere bool

definition answer_with :: "('a \<Rightarrow> credential_answer) \<Rightarrow> (registry_error + 'a) \<times> 'w \<Rightarrow> credential_answer \<times> 'w" where
  "answer_with f r = (case r of (Inl e, w) \<Rightarrow> (CallRefused e, w) | (Inr a, w) \<Rightarrow> (f a, w))"

fun credential_step :: "'w credential_backend \<Rightarrow> credential_call \<Rightarrow> 'w \<Rightarrow> credential_answer \<times> 'w" where
  "credential_step B (SetSecret ref secret) w = answer_with (\<lambda>_. CallDone) (secure_set B ref secret w)"
| "credential_step B (GetSecret ref) w = answer_with SecretIs (secure_get B ref w)"
| "credential_step B (HasSecret ref) w = answer_with SecretThere (secure_has B ref w)"
| "credential_step B (DeleteSecret ref) w = answer_with (\<lambda>_. CallDone) (secure_delete B ref w)"

fun credential_run :: "'w credential_backend \<Rightarrow> credential_call list \<Rightarrow> 'w \<Rightarrow> credential_answer list" where
  "credential_run B [] w = []"
| "credential_run B (c # cs) w = (case credential_step B c w of (a, w') \<Rightarrow> a # credential_run B cs w')"

text \<open>The abstract store: a partial map from references to secrets, with the two checks.\<close>

fun secret_spec :: "credential_call \<Rightarrow> (string \<rightharpoonup> string) \<Rightarrow> credential_answer \<times> (string \<rightharpoonup> string)" where
  "secret_spec (SetSecret ref secret) m =
     (if \<not> isValidCredentialRef ref then (CallRefused InvalidCredentialRef, m)
      else if assertCredentialValue secret \<noteq> Inr () then (CallRefused InvalidCredentialValue, m)
      else (CallDone, m(as_str ref \<mapsto> as_str secret)))"
| "secret_spec (GetSecret ref) m =
     (if \<not> isValidCredentialRef ref then (CallRefused InvalidCredentialRef, m) else (SecretIs (m (as_str ref)), m))"
| "secret_spec (HasSecret ref) m =
     (if \<not> isValidCredentialRef ref then (CallRefused InvalidCredentialRef, m) else (SecretThere (m (as_str ref) \<noteq> None), m))"
| "secret_spec (DeleteSecret ref) m =
     (if \<not> isValidCredentialRef ref then (CallRefused InvalidCredentialRef, m) else (CallDone, m(as_str ref := None)))"

fun secret_spec_run :: "credential_call list \<Rightarrow> (string \<rightharpoonup> string) \<Rightarrow> credential_answer list" where
  "secret_spec_run [] m = []"
| "secret_spec_run (c # cs) m = (case secret_spec c m of (a, m') \<Rightarrow> a # secret_spec_run cs m')"

lemma value_error: "assertCredentialValue v = Inl e \<Longrightarrow> e = InvalidCredentialValue"
  by (auto simp: assertCredentialValue_def split: if_split_asm)

context secret_backend
begin

lemma step_refines:
  assumes "sound w"
  shows "fst (credential_step B c w) = fst (secret_spec c (look w))
    \<and> look (snd (credential_step B c w)) = snd (secret_spec c (look w)) \<and> sound (snd (credential_step B c w))"
proof (cases c)
  case (SetSecret ref secret)
  show ?thesis
  proof (cases "isValidCredentialRef ref \<and> assertCredentialValue secret = Inr ()")
    case True
    then have ok: "isValidCredentialRef ref" "assertCredentialValue secret = Inr ()" by simp_all
    with secure_set_law [OF ok, of w] assms show ?thesis
      by (cases "secure_set B ref secret w") (auto simp: SetSecret answer_with_def)
  next
    case False
    then show ?thesis
      using assms by (cases "assertCredentialValue secret")
        (auto simp: SetSecret answer_with_def secure_set_def checkCredentialRef_def dest: value_error)
  qed
next
  case (GetSecret ref)
  with assms secure_get_law [OF assms, of ref] show ?thesis
    by (cases "isValidCredentialRef ref") (auto simp: answer_with_def secure_get_def checkCredentialRef_def)
next
  case (HasSecret ref)
  with assms secure_has_law [of ref w] show ?thesis
    by (cases "isValidCredentialRef ref") (auto simp: answer_with_def secure_has_def checkCredentialRef_def)
next
  case (DeleteSecret ref)
  show ?thesis
  proof (cases "isValidCredentialRef ref")
    case True
    with secure_delete_law [OF True, of w] assms show ?thesis
      by (cases "secure_delete B ref w") (auto simp: DeleteSecret answer_with_def)
  qed (use assms in \<open>simp add: DeleteSecret answer_with_def secure_delete_def checkCredentialRef_def\<close>)
qed

lemma run_refines: "sound w \<Longrightarrow> credential_run B cs w = secret_spec_run cs (look w)"
proof (induction cs arbitrary: w)
  case (Cons c cs)
  with step_refines [of w c] show ?case
    by (cases "credential_step B c w"; cases "secret_spec c (look w)") auto
qed simp

end

section \<open>Properties\<close>

text \<open>
  C33: the guarding store over a working backend is a map from references to secrets: whatever calls are made with whatever values, each is
  answered as the map answers it, and a call with an ill-formed reference or secret is refused and changes nothing.
\<close>

theorem secure_store_is_a_map: "credential_run memory_secrets calls [] = secret_spec_run calls Map.empty"
  using secrets_in_memory.run_refines [of "[]" calls] by (simp add: secrets_in_memory.sound_def)

end
