(* ===== verification/Desktop_Config.thy ===== *)
theory Desktop_Config
  imports Tauri_Client Config_Saved Credentials
begin

text \<open>
  \<open>apps/desktop/src/config-client.ts\<close> and \<open>credential-client.ts\<close>: what the desktop accepts from the forms and from the host, and its calls.  Every
  error of a check is replaced by the fixed error of the call, so a check is an option.
\<close>

section \<open>Checks\<close>

definition assertConfigClientOptions :: "jsval \<Rightarrow> desktop_error + unit" where
  "assertConfigClientOptions v =
     (if \<not> is_object v \<or> field v ''invoke'' \<noteq> JFun \<or> field v ''listen'' \<noteq> JFun then Inl DesktopConnectionFailed else Inr ())"

definition desktop_provider_fields :: "string list" where
  "desktop_provider_fields = [''id'', ''name'', ''protocol'', ''baseUrl'', ''credentialRef'', ''models'', ''enabled'']"

definition desktop_route_fields :: "string list" where
  "desktop_route_fields = [''id'', ''name'', ''providerId'', ''model'', ''enabled'', ''fallbackProviderIds'']"

definition desktop_forbidden_fields :: "string list" where
  "desktop_forbidden_fields =
     [''apikey'', ''api_key'', ''api-key'', ''token'', ''authorization'', ''headers'', ''secret'', ''password'', ''credential'', ''endpoint'',
      ''access_token'', ''refresh_token'', ''client_secret'', ''bearer'', ''oauth'']"

fun no_sensitive_fields :: "jsval \<Rightarrow> nat \<Rightarrow> bool" where
  "no_sensitive_fields (JArr vs) depth \<longleftrightarrow> depth \<le> 32 \<and> list_all (\<lambda>v. no_sensitive_fields v (depth + 1)) vs"
| "no_sensitive_fields (JObj kvs) depth \<longleftrightarrow>
     depth \<le> 32 \<and> list_all (\<lambda>kv. to_lower (fst kv) \<notin> set desktop_forbidden_fields \<and> no_sensitive_fields (snd kv) (depth + 1)) kvs"
| "no_sensitive_fields (JInst kvs) depth \<longleftrightarrow>
     depth \<le> 32 \<and> list_all (\<lambda>kv. to_lower (fst kv) \<notin> set desktop_forbidden_fields \<and> no_sensitive_fields (snd kv) (depth + 1)) kvs"
| "no_sensitive_fields _ depth \<longleftrightarrow> depth \<le> 32"

definition allowed_keys :: "jsval \<Rightarrow> string list \<Rightarrow> bool" where
  "allowed_keys v allowed \<longleftrightarrow> list_all (\<lambda>k. k \<in> set allowed) (obj_keys v)"

definition trimmed_text :: "jsval \<Rightarrow> bool" where
  "trimmed_text v \<longleftrightarrow> is_string v \<and> as_str v \<noteq> [] \<and> js_trim (as_str v) = as_str v"

definition texts :: "jsval \<Rightarrow> bool" where
  "texts v \<longleftrightarrow> is_array v \<and> list_all non_empty (as_arr v)"

definition parseProvider :: "jsval \<Rightarrow> provider_definition option" where
  "parseProvider v =
     (let f = field v; ref = f ''credentialRef'' in
      if \<not> is_object v then None
      else if \<not> allowed_keys v desktop_provider_fields then None
      else if \<not> is_string (f ''id'') \<or> \<not> is_string (f ''name'')
        \<or> f ''protocol'' \<notin> {JStr ''anthropic_messages'', JStr ''openai_compatible''}
        \<or> \<not> is_string (f ''baseUrl'')
        \<or> ref \<noteq> JUndef \<and> ref \<noteq> JNull \<and> \<not> is_string ref
        \<or> \<not> texts (f ''models'') \<or> as_arr (f ''models'') = []
        \<or> \<not> is_bool (f ''enabled'') then None
      else if \<not> trimmed_text (f ''id'') \<or> \<not> trimmed_text (f ''name'') \<or> \<not> trimmed_text (f ''baseUrl'') then None
      else if ref \<noteq> JUndef \<and> ref \<noteq> JNull \<and> \<not> trimmed_text ref then None
      else
        Some \<lparr>pv_id = as_str (f ''id''), pv_name = as_str (f ''name''),
              pv_protocol = (if f ''protocol'' = JStr ''anthropic_messages'' then AnthropicMessages else OpenAICompatible),
              pv_base_url = as_str (f ''baseUrl''),
              pv_credential = (if ref = JUndef \<or> ref = JNull then None else Some (as_str ref)),
              pv_models = map as_str (as_arr (f ''models'')), pv_enabled = (f ''enabled'' = JBool True)\<rparr>)"

definition parseRoute :: "jsval \<Rightarrow> route_definition option" where
  "parseRoute v =
     (let f = field v; ids = f ''fallbackProviderIds'' in
      if \<not> is_object v then None
      else if \<not> allowed_keys v desktop_route_fields then None
      else if \<not> is_string (f ''id'') \<or> \<not> is_string (f ''name'') \<or> \<not> is_string (f ''providerId'') \<or> \<not> is_string (f ''model'')
        \<or> \<not> is_bool (f ''enabled'') \<or> ids \<noteq> JUndef \<and> \<not> texts ids then None
      else if \<not> trimmed_text (f ''id'') \<or> \<not> trimmed_text (f ''name'') \<or> \<not> trimmed_text (f ''providerId'') \<or> \<not> trimmed_text (f ''model'') then None
      else
        Some \<lparr>rt_id = as_str (f ''id''), rt_name = as_str (f ''name''), rt_provider = as_str (f ''providerId''),
              rt_model = as_str (f ''model''), rt_enabled = (f ''enabled'' = JBool True),
              rt_fallbacks = (if ids = JUndef then None else Some (map as_str (as_arr ids)))\<rparr>)"

definition validateProviderInput :: "jsval \<Rightarrow> provider_definition option" where
  "validateProviderInput v = (if no_sensitive_fields v 0 then parseProvider v else None)"

definition validateRouteInput :: "jsval \<Rightarrow> route_definition option" where
  "validateRouteInput v = (if no_sensitive_fields v 0 then parseRoute v else None)"

text \<open>\<open>map\<close> with a function that may throw.\<close>

fun map_all :: "('a \<Rightarrow> 'b option) \<Rightarrow> 'a list \<Rightarrow> 'b list option" where
  "map_all f [] = Some []"
| "map_all f (x # xs) = (case f x of None \<Rightarrow> None | Some y \<Rightarrow> map_option (Cons y) (map_all f xs))"

definition parseSnapshot :: "jsval \<Rightarrow> persisted_config option" where
  "parseSnapshot v =
     (if \<not> is_object v \<or> field v ''version'' \<noteq> JNum (Fin 1) then None
      else if \<not> allowed_keys v [''version'', ''providers'', ''routes''] then None
      else if \<not> is_array (field v ''providers'') \<or> \<not> is_array (field v ''routes'') then None
      else
        (case map_all parseProvider (as_arr (field v ''providers'')) of
           None \<Rightarrow> None
         | Some ps \<Rightarrow>
             (case map_all parseRoute (as_arr (field v ''routes'')) of
                None \<Rightarrow> None
              | Some rs \<Rightarrow> Some \<lparr>pc_providers = ps, pc_routes = rs\<rparr>)))"

section \<open>Calls\<close>

text \<open>\<open>if (signal?.aborted)\<close>.\<close>

definition is_aborted :: "jsval \<Rightarrow> bool" where
  "is_aborted sg \<longleftrightarrow> truthy (field sg ''aborted'')"

definition desktop_get_config :: "'w invoker \<Rightarrow> jsval \<Rightarrow> 'w \<Rightarrow> (desktop_error + persisted_config) \<times> 'w" where
  "desktop_get_config invoke sg w =
     (if is_aborted sg then (Inl DesktopConfigLoadFailed, w)
      else
        (case invoke ''agent_get_config'' None w of
           (answer, w') \<Rightarrow>
             (case answer of
                None \<Rightarrow> Inl DesktopConfigLoadFailed
              | Some v \<Rightarrow> (case parseSnapshot v of None \<Rightarrow> Inl DesktopConfigLoadFailed | Some c \<Rightarrow> Inr c), w')))"

text \<open>The body that the four operations share: check, call, read the answer; everything that fails is one error.\<close>

definition entity_call ::
  "string \<Rightarrow> (jsval \<Rightarrow> 'a option) \<Rightarrow> (jsval \<Rightarrow> 'a option) \<Rightarrow> ('a \<Rightarrow> jsval) \<Rightarrow> 'w invoker \<Rightarrow> string \<Rightarrow> jsval \<Rightarrow> jsval \<Rightarrow> 'w
     \<Rightarrow> (desktop_error + 'a) \<times> 'w"
where
  "entity_call name check parse value invoke command input sg w =
     (if is_aborted sg then (Inl DesktopConfigMutationFailed, w)
      else
        (case check input of
           None \<Rightarrow> (Inl DesktopConfigMutationFailed, w)
         | Some x \<Rightarrow>
             (case invoke command (Some (JObj [(name, value x)])) w of
                (Some response, w') \<Rightarrow>
                  (if \<not> is_object response \<or> \<not> has_own response name then Inl DesktopConfigMutationFailed
                   else (case parse (field response name) of None \<Rightarrow> Inl DesktopConfigMutationFailed | Some y \<Rightarrow> Inr y), w')
              | (None, w') \<Rightarrow> (Inl DesktopConfigMutationFailed, w'))))"

definition desktop_create_provider :: "'w invoker \<Rightarrow> jsval \<Rightarrow> jsval \<Rightarrow> 'w \<Rightarrow> (desktop_error + provider_definition) \<times> 'w" where
  "desktop_create_provider invoke = entity_call ''provider'' validateProviderInput parseProvider provider_value invoke ''agent_create_provider''"

definition desktop_update_provider :: "'w invoker \<Rightarrow> jsval \<Rightarrow> jsval \<Rightarrow> 'w \<Rightarrow> (desktop_error + provider_definition) \<times> 'w" where
  "desktop_update_provider invoke = entity_call ''provider'' validateProviderInput parseProvider provider_value invoke ''agent_update_provider''"

definition desktop_create_route :: "'w invoker \<Rightarrow> jsval \<Rightarrow> jsval \<Rightarrow> 'w \<Rightarrow> (desktop_error + route_definition) \<times> 'w" where
  "desktop_create_route invoke = entity_call ''route'' validateRouteInput parseRoute route_value invoke ''agent_create_route''"

definition desktop_update_route :: "'w invoker \<Rightarrow> jsval \<Rightarrow> jsval \<Rightarrow> 'w \<Rightarrow> (desktop_error + route_definition) \<times> 'w" where
  "desktop_update_route invoke = entity_call ''route'' validateRouteInput parseRoute route_value invoke ''agent_update_route''"

definition delete_call :: "string \<Rightarrow> 'w invoker \<Rightarrow> string \<Rightarrow> jsval \<Rightarrow> jsval \<Rightarrow> 'w \<Rightarrow> (desktop_error + unit) \<times> 'w" where
  "delete_call name invoke command i sg w =
     (if is_aborted sg \<or> \<not> trimmed_text i then (Inl DesktopConfigMutationFailed, w)
      else
        (case invoke command (Some (JObj [(name, i)])) w of
           (Some _, w') \<Rightarrow> (Inr (), w')
         | (None, w') \<Rightarrow> (Inl DesktopConfigMutationFailed, w')))"

definition desktop_delete_provider :: "'w invoker \<Rightarrow> jsval \<Rightarrow> jsval \<Rightarrow> 'w \<Rightarrow> (desktop_error + unit) \<times> 'w" where
  "desktop_delete_provider invoke = delete_call ''providerId'' invoke ''agent_delete_provider''"

definition desktop_delete_route :: "'w invoker \<Rightarrow> jsval \<Rightarrow> jsval \<Rightarrow> 'w \<Rightarrow> (desktop_error + unit) \<times> 'w" where
  "desktop_delete_route invoke = delete_call ''routeId'' invoke ''agent_delete_route''"

section \<open>Credentials\<close>

text \<open>A secret is at most 2560 bytes of visible ASCII.\<close>

definition visible_char :: "char \<Rightarrow> bool" where
  "visible_char c \<longleftrightarrow> 0x21 \<le> (of_char c :: nat) \<and> (of_char c :: nat) \<le> 0x7E"

definition secret_ok :: "string \<Rightarrow> bool" where
  "secret_ok s \<longleftrightarrow> s \<noteq> [] \<and> length s \<le> 2560 \<and> list_all visible_char s"

definition host_credential :: "'w invoker \<Rightarrow> string \<Rightarrow> jsval \<Rightarrow> string option \<Rightarrow> 'w \<Rightarrow> jsval option \<times> 'w" where
  "host_credential invoke command ref secret w =
     (if \<not> isValidCredentialRef ref then (None, w)
      else if (case secret of None \<Rightarrow> False | Some s \<Rightarrow> \<not> secret_ok s) then (None, w)
      else invoke command (Some (JObj ([(''credentialRef'', ref)] @ (case secret of None \<Rightarrow> [] | Some s \<Rightarrow> [(''secret'', JStr s)])))) w)"

text \<open>\<open>None\<close> is the one error, \<open>Credential operation failed.\<close>\<close>

definition credential_set :: "'w invoker \<Rightarrow> jsval \<Rightarrow> jsval \<Rightarrow> 'w \<Rightarrow> unit option \<times> 'w" where
  "credential_set invoke ref secret w =
     (if \<not> is_string secret then (None, w)
      else
        (case host_credential invoke ''agent_set_credential'' ref (Some (as_str secret)) w of
           (reply, w') \<Rightarrow> (if reply = Some JNull then Some () else None, w')))"

definition credential_has :: "'w invoker \<Rightarrow> jsval \<Rightarrow> 'w \<Rightarrow> bool option \<times> 'w" where
  "credential_has invoke ref w =
     (case host_credential invoke ''agent_has_credential'' ref None w of
        (reply, w') \<Rightarrow> (case reply of Some (JBool b) \<Rightarrow> Some b | _ \<Rightarrow> None, w'))"

definition credential_delete :: "'w invoker \<Rightarrow> jsval \<Rightarrow> 'w \<Rightarrow> unit option \<times> 'w" where
  "credential_delete invoke ref w =
     (case host_credential invoke ''agent_delete_credential'' ref None w of
        (reply, w') \<Rightarrow> (if reply = Some JNull then Some () else None, w'))"


section \<open>What the host serves, the desktop reads\<close>

lemma contains_ws_middle: "w \<in> set ws_seqs \<Longrightarrow> contains_ws (a @ w @ b)"
proof (induction a)
  case Nil
  assume w: "w \<in> set ws_seqs"
  then obtain c cs where "w = c # cs" by (cases w) (auto simp: ws_seqs_def)
  with w show ?case
    by (metis append_Cons append_Nil contains_ws.simps(2) list.distinct(1) strip_any_None)
qed simp

lemma no_ws_trim:
  assumes "\<not> contains_ws s"
  shows "js_trim s = s"
proof (rule js_trim_id)
  show "strip_any ws_seqs s = None"
    using assms contains_ws_middle [of _ "[]"] by (auto simp: strip_any_None)
  show "strip_any (map rev ws_seqs) (rev s) = None"
    unfolding strip_any_None
  proof (intro ballI impI allI notI)
    fix w r assume "w \<in> set (map rev ws_seqs)" and "rev s = w @ r"
    then obtain x where "x \<in> set ws_seqs" and "s = rev r @ x @ []" by (auto simp: rev_swap)
    with contains_ws_middle assms show False by blast
  qed
qed

lemma id_char_no_ws: "list_all is_id_char s \<Longrightarrow> \<not> contains_ws s"
proof (induction s)
  case (Cons c s)
  have "\<not> is_id_char d" if "w \<in> set ws_seqs" and "w = d # ds" for w d ds
    using that by (auto simp: ws_seqs_def is_id_char_def is_lower_letter_def is_digit_def)
  moreover have "is_id_char c" using Cons.prems by simp
  ultimately have "strip_any ws_seqs (c # s) = None"
    unfolding strip_any_None by (metis append_Cons list.exhaust list.inject)
  with Cons show ?case by simp
qed simp

lemma id_trimmed: "matches_id s \<Longrightarrow> trimmed_text (JStr s)"
  using no_ws_trim [OF id_char_no_ws, of s]
  by (auto simp: matches_id_def trimmed_text_def is_id_char_def list_all_iff split: list.splits)

lemma ref_trimmed:
  assumes "matches_credential_ref s"
  shows "trimmed_text (JStr s)"
proof -
  obtain r where r: "s = ''credential:'' @ r" and i: "matches_id r"
    using assms by (auto simp: matches_credential_ref_def strip_prefix_Some split: option.splits)
  have "\<not> contains_ws s"
  proof
    assume "contains_ws s"
    moreover have "contains_ws (''credential:'' @ r) = contains_ws r" by (simp add: ws_seqs_def)
    moreover have "list_all is_id_char r" using i by (auto simp: matches_id_def is_id_char_def split: list.splits)
    ultimately show False using id_char_no_ws r by simp
  qed
  from no_ws_trim [OF this] r show ?thesis by (simp add: trimmed_text_def)
qed

lemma model_trimmed: "model_name_ok s \<Longrightarrow> trimmed_text (JStr s)"
  by (simp add: model_name_ok_def trimmed_text_def no_ws_trim)

lemma strings_texts: "list_all (\<lambda>s. s \<noteq> []) ss \<Longrightarrow> texts (JArr (map JStr ss))"
  by (induction ss) (auto simp: texts_def non_empty_def)

lemma provider_read:
  assumes "provider_wf parse p"
  shows "parseProvider (provider_value p) = Some p"
proof -
  have "trimmed_text (JStr (pv_id p))" "trimmed_text (JStr (pv_name p))" "trimmed_text (JStr (pv_base_url p))"
    using assms id_trimmed no_ws_trim by (auto simp: provider_wf_def base_url_ok_def trimmed_text_def)
  moreover have "case pv_credential p of None \<Rightarrow> True | Some r \<Rightarrow> trimmed_text (JStr r)"
    using assms ref_trimmed by (auto simp: provider_wf_def split: option.split)
  moreover have "texts (JArr (map JStr (pv_models p)))"
    using assms by (intro strings_texts) (auto simp: provider_wf_def list_all_iff model_name_ok_def)
  moreover have "pv_models p \<noteq> []" using assms by (simp add: provider_wf_def)
  moreover have "allowed_keys (provider_value p) desktop_provider_fields"
    by (simp add: allowed_keys_def provider_value_def desktop_provider_fields_def)
  moreover have "is_object (provider_value p)" by (simp add: provider_value_def)
  moreover have "map (as_str \<circ> JStr) (pv_models p) = pv_models p" by (induction "pv_models p") (simp_all add: map_idI)
  ultimately show ?thesis
    by (cases "pv_credential p"; cases "pv_protocol p") (simp_all add: parseProvider_def Let_def protocol_name_def)
qed


lemma route_read:
  assumes "route_wf r" and "matches_id (rt_provider r)"
  shows "parseRoute (route_value r) = Some r"
proof -
  have "trimmed_text (JStr (rt_id r))" "trimmed_text (JStr (rt_name r))" "trimmed_text (JStr (rt_provider r))" "trimmed_text (JStr (rt_model r))"
    using assms id_trimmed model_trimmed by (auto simp: route_wf_def trimmed_text_def)
  moreover have "case rt_fallbacks r of None \<Rightarrow> True | Some ids \<Rightarrow> texts (JArr (map JStr ids))"
    using assms by (auto simp: route_wf_def fallbacks_of_def list_all_iff matches_id_def intro!: strings_texts split: option.split)
  moreover have "allowed_keys (route_value r) desktop_route_fields"
    by (simp add: allowed_keys_def route_value_def desktop_route_fields_def split: option.split)
  moreover have "is_object (route_value r)" by (simp add: route_value_def)
  moreover have "map (as_str \<circ> JStr) ids = ids" for ids by (simp add: map_idI)
  ultimately show ?thesis
    by (cases "rt_fallbacks r") (simp_all add: parseRoute_def route_value_def Let_def)
qed

lemma map_all_read: "list_all (\<lambda>x. f (g x) = Some x) xs \<Longrightarrow> map_all f (map g xs) = Some xs"
  by (induction xs) auto

text \<open>
  C32: every configuration the host can serve is read by the desktop as it is: providers, routes, references to credentials and fallbacks, whatever URL
  parser validated it.
\<close>

theorem served_config_is_read:
  "case validateConfigSnapshot parse v of Inl _ \<Rightarrow> True | Inr c \<Rightarrow> parseSnapshot (config_value c) = Some c"
proof (cases "validateConfigSnapshot parse v")
  case (Inr c)
  note acc = accepted_snapshot [OF Inr]
  have ps: "list_all (provider_wf parse) (pc_providers c)"
    using acc(1) by (auto simp: list_all_iff intro: validateProviderDefinition_wf)
  have "matches_id (rt_provider r)" if "r \<in> set (pc_routes c)" for r
  proof -
    from that acc(5) obtain p where "map_of (keyed_providers (pc_providers c)) (rt_provider r) = Some p"
      by (fastforce simp: list_all_iff route_served_def routeProviderIds_def split: option.splits)
    then have "p \<in> set (pc_providers c)" and "pv_id p = rt_provider r" by (force simp: keyed_providers_def dest!: map_of_SomeD)+
    with ps show ?thesis by (auto simp: list_all_iff provider_wf_def)
  qed
  with acc(2) have "list_all (\<lambda>r. parseRoute (route_value r) = Some r) (pc_routes c)"
    by (auto simp: list_all_iff intro: route_read validateRouteDefinition_wf)
  moreover have "list_all (\<lambda>p. parseProvider (provider_value p) = Some p) (pc_providers c)"
    using ps by (auto simp: list_all_iff intro: provider_read)
  ultimately show ?thesis
    using Inr by (simp add: parseSnapshot_def config_value_def allowed_keys_def jsnat_def map_all_read)
qed simp

section \<open>What leaves the desktop\<close>

text \<open>A host that records the calls.\<close>

type_synonym host_calls = "(string \<times> jsval option) list"

definition recorded :: "(string \<Rightarrow> jsval option \<Rightarrow> jsval option) \<Rightarrow> host_calls invoker" where
  "recorded answer command args calls = (answer command args, calls @ [(command, args)])"

text \<open>What was accepted once is accepted again, as it is sent.\<close>

lemma parsed_again: "parseProvider v = Some p \<Longrightarrow> parseProvider (provider_value p) = Some p"
proof -
  assume v: "parseProvider v = Some p"
  let ?f = "field v"
  from v have t: "trimmed_text (?f ''id'')" "trimmed_text (?f ''name'')" "trimmed_text (?f ''baseUrl'')"
    and ref: "?f ''credentialRef'' = JUndef \<or> ?f ''credentialRef'' = JNull \<or> trimmed_text (?f ''credentialRef'')"
    and m: "texts (?f ''models'')" "as_arr (?f ''models'') \<noteq> []"
    and p: "p = \<lparr>pv_id = as_str (?f ''id''), pv_name = as_str (?f ''name''),
              pv_protocol = (if ?f ''protocol'' = JStr ''anthropic_messages'' then AnthropicMessages else OpenAICompatible),
              pv_base_url = as_str (?f ''baseUrl''),
              pv_credential = (if ?f ''credentialRef'' = JUndef \<or> ?f ''credentialRef'' = JNull then None else Some (as_str (?f ''credentialRef''))),
              pv_models = map as_str (as_arr (?f ''models'')), pv_enabled = (?f ''enabled'' = JBool True)\<rparr>"
    unfolding parseProvider_def Let_def by (simp_all split: if_split_asm) blast+
  have "trimmed_text (JStr (pv_id p))" "trimmed_text (JStr (pv_name p))" "trimmed_text (JStr (pv_base_url p))"
    using t by (auto simp: p trimmed_text_def)
  moreover have "case pv_credential p of None \<Rightarrow> True | Some r \<Rightarrow> trimmed_text (JStr r)"
    using ref by (auto simp: p trimmed_text_def)
  moreover have "texts (JArr (map JStr (pv_models p)))"
    using m by (intro strings_texts) (auto simp: p texts_def list_all_iff non_empty_def)
  moreover have "pv_models p \<noteq> []" using m(2) by (simp add: p)
  moreover have "allowed_keys (provider_value p) desktop_provider_fields"
    by (simp add: allowed_keys_def provider_value_def desktop_provider_fields_def)
  moreover have "is_object (provider_value p)" by (simp add: provider_value_def)
  moreover have "map (as_str \<circ> JStr) (pv_models p) = pv_models p" by (simp add: map_idI)
  ultimately show ?thesis
    by (cases "pv_credential p"; cases "pv_protocol p") (simp_all add: parseProvider_def Let_def protocol_name_def)
qed


lemma clean_value: "validateProviderInput v = Some p \<Longrightarrow> validateProviderInput (provider_value p) = Some p"
proof -
  assume v: "validateProviderInput v = Some p"
  have "no_sensitive_fields (provider_value p) 0"
    by (auto simp: provider_value_def desktop_forbidden_fields_def ascii_lower_def Let_def list_all_iff split: option.split)
  moreover have "parseProvider (provider_value p) = Some p"
    using v by (intro parsed_again [of v]) (simp add: validateProviderInput_def split: if_splits)
  ultimately show ?thesis by (simp add: validateProviderInput_def)
qed

text \<open>A call carries the accepted definition and nothing else; a refused input is never sent.\<close>

lemma provider_call_clean:
  "case desktop_create_provider (recorded answer) input sg [] of (r, calls) \<Rightarrow>
     case validateProviderInput input of
       None \<Rightarrow> calls = [] \<and> r = Inl DesktopConfigMutationFailed
     | Some p \<Rightarrow>
         validateProviderInput (provider_value p) = Some p
         \<and> (if is_aborted sg then calls = [] \<and> r = Inl DesktopConfigMutationFailed
            else calls = [(''agent_create_provider'', Some (JObj [(''provider'', provider_value p)]))])"
  using clean_value [of input]
  by (auto simp: desktop_create_provider_def entity_call_def recorded_def split: option.split)

end
