(* ===== verification/Desktop_Ui.thy ===== *)
theory Desktop_Ui
  imports Desktop_Controller Desktop_Config
begin

text \<open>
  \<open>apps/desktop/src/ui.ts\<close>: the mounted user interface as a machine over the controller.  An input is something the user does (a click, a key, a
  form that is submitted), or an answer of the API client or of the configuration client; between two inputs the handlers run until they
  wait.  A call of the configuration or credential client is a job with a number, and its answer names the job.  What the page shows is in
  \<open>Desktop_Panel\<close>.
\<close>

section \<open>Checks at the mount\<close>

definition config_client_methods :: "string list" where
  "config_client_methods =
     [''getConfig'', ''createProvider'', ''updateProvider'', ''deleteProvider'', ''createRoute'', ''updateRoute'', ''deleteRoute'']"

definition isConfigClient :: "jsval \<Rightarrow> bool" where
  "isConfigClient v \<longleftrightarrow> is_object v \<and> list_all (\<lambda>m. field v m = JFun) config_client_methods"

definition isCredentialClient :: "jsval \<Rightarrow> bool" where
  "isCredentialClient v \<longleftrightarrow> is_object v \<and> list_all (\<lambda>m. field v m = JFun) [''set'', ''has'', ''delete'']"

definition mount_checks :: "jsval \<Rightarrow> jsval \<Rightarrow> jsval \<Rightarrow> jsval \<Rightarrow> string + unit" where
  "mount_checks container client config credential =
     (if \<not> truthy container then Inl ''Container element is required.''
      else if \<not> truthy client then Inl ''DesktopApiClient is required.''
      else if config \<noteq> JUndef \<and> \<not> isConfigClient config then Inl ''DesktopConfigApiClient is invalid.''
      else if credential \<noteq> JUndef \<and> \<not> isCredentialClient credential then Inl ''DesktopCredentialClient is invalid.''
      else Inr ())"

section \<open>State\<close>

datatype chat_role = ChatUser | ChatAssistant

record chat_message =
  cm_role :: chat_role
  cm_text :: string

datatype config_status = ConfigIdle | ConfigLoading | ConfigReady | ConfigFailed

text \<open>What a handler asks the configuration client or the credential client, and what it does when the answer comes.\<close>

datatype config_call =
    GetConfig
  | SetSecret string string
  | CreateProvider jsval
  | UpdateProvider jsval
  | DeleteProvider string
  | CreateRoute jsval
  | UpdateRoute jsval
  | DeleteRoute string

datatype config_job = LoadJob | SecretJob string jsval | ProviderJob | RouteJob | DropProviderJob | DropRouteJob

record ui_request =
  rq_session :: string
  rq_messages :: "chat_message list"
  rq_route :: "(string \<times> string) option"

record desktop_ui =
  ui_controller :: controller
  ui_config :: bool
  ui_credentials :: bool
  ui_status :: config_status
  ui_snapshot :: "persisted_config option"
  ui_config_error :: "string option"
  ui_edit_provider :: "string option"
  ui_edit_route :: "string option"
  ui_unmounted :: bool
  ui_settings :: bool
  ui_selected :: string
  ui_creating :: bool
  ui_connects :: nat
  ui_chats :: "(string \<times> chat_message list) list"
  ui_requests :: "ui_request list"
  ui_jobs :: "(nat \<times> config_job) list"
  ui_next_job :: nat
  ui_calls :: "config_call list"

text \<open>A mounted interface; its own subscription is number 0.\<close>

definition new_ui :: "bool \<Rightarrow> bool \<Rightarrow> desktop_ui" where
  "new_ui config credentials =
     \<lparr>ui_controller = snd (controller_step new_controller (Subscribe 0)), ui_config = config, ui_credentials = credentials,
      ui_status = (if config then ConfigLoading else ConfigIdle), ui_snapshot = None, ui_config_error = None, ui_edit_provider = None,
      ui_edit_route = None, ui_unmounted = False, ui_settings = False, ui_selected = [], ui_creating = False, ui_connects = 0, ui_chats = [],
      ui_requests = [], ui_jobs = [], ui_next_job = 0, ui_calls = []\<rparr>"

abbreviation ui_state :: "desktop_ui \<Rightarrow> desktop_state" where
  "ui_state u \<equiv> ct_state (ui_controller u)"

definition ui_routes :: "desktop_ui \<Rightarrow> route_definition list" where
  "ui_routes u = (case ui_snapshot u of None \<Rightarrow> [] | Some c \<Rightarrow> filter rt_enabled (pc_routes c))"

text \<open>\<open>a ?? b\<close> on what \<open>find\<close> and an index answer.\<close>

definition currentRoute :: "desktop_ui \<Rightarrow> route_definition option" where
  "currentRoute u =
     (case find (\<lambda>r. rt_id r = ui_selected u) (ui_routes u) of
        Some r \<Rightarrow> Some r
      | None \<Rightarrow> (case ui_routes u of [] \<Rightarrow> None | r # _ \<Rightarrow> Some r))"

definition canSend :: "desktop_ui \<Rightarrow> bool" where
  "canSend u \<longleftrightarrow>
     \<not> dk_submitting (ui_state u) \<and> js_trim (dk_draft (ui_state u)) \<noteq> []
     \<and> (\<not> ui_config u \<or> ui_status u = ConfigReady \<and> currentRoute u \<noteq> None)"

section \<open>Conversations\<close>

definition chat :: "desktop_ui \<Rightarrow> string \<Rightarrow> chat_message list" where
  "chat u i = (case map_of (ui_chats u) i of None \<Rightarrow> [] | Some ms \<Rightarrow> ms)"

definition add_message :: "string \<Rightarrow> chat_message \<Rightarrow> desktop_ui \<Rightarrow> desktop_ui" where
  "add_message i m u = u\<lparr>ui_chats := obj_put (ui_chats u) i (chat u i @ [m])\<rparr>"

fun delta_text :: "agent_event \<Rightarrow> string" where
  "delta_text (ATextDelta _ t) = t"
| "delta_text _ = []"

definition events_text :: "agent_event list \<Rightarrow> string" where
  "events_text evs = concat (map delta_text evs)"

text \<open>The request of a turn as the object it is.\<close>

definition chat_value :: "chat_message \<Rightarrow> jsval" where
  "chat_value m =
     JObj [(''role'', JStr (case cm_role m of ChatUser \<Rightarrow> ''user'' | ChatAssistant \<Rightarrow> ''assistant'')),
           (''content'', JArr [JObj [(''type'', JStr ''text''), (''text'', JStr (cm_text m))]])]"

definition turn_value :: "ui_request \<Rightarrow> jsval" where
  "turn_value r =
     JObj ([(''messages'', JArr (map chat_value (rq_messages r)))]
           @ (case rq_route r of None \<Rightarrow> [] | Some (route, mdl) \<Rightarrow> [(''routeId'', JStr route), (''model'', JStr mdl)]))"

definition move :: "controller_input \<Rightarrow> desktop_ui \<Rightarrow> desktop_ui" where
  "move i u = u\<lparr>ui_controller := snd (controller_step (ui_controller u) i)\<rparr>"

text \<open>The \<open>finally\<close> block of \<open>handleSend\<close>: the text that was received becomes a message.\<close>

definition settle_send :: "string \<Rightarrow> desktop_ui \<Rightarrow> desktop_ui" where
  "settle_send i u =
     (let t = events_text (dk_events (ui_state u)) in
      if t = [] then u else add_message i \<lparr>cm_role = ChatAssistant, cm_text = t\<rparr> u)"

definition handleSend :: "desktop_ui \<Rightarrow> desktop_ui" where
  "handleSend u =
     (case dk_active (ui_state u) of
        None \<Rightarrow> u
      | Some i \<Rightarrow>
          if i = [] \<or> \<not> canSend u then u
          else
            (let u1 = add_message i \<lparr>cm_role = ChatUser, cm_text = dk_draft (ui_state u)\<rparr> u;
                 r = \<lparr>rq_session = i, rq_messages = chat u1 i, rq_route = map_option (\<lambda>r. (rt_id r, rt_model r)) (currentRoute u)\<rparr> in
             case controller_step (ui_controller u1) (SubmitTurn i) of
               (Accepted, c) \<Rightarrow> u1\<lparr>ui_controller := c, ui_requests := ui_requests u1 @ [r]\<rparr>
             | (Refused _, _) \<Rightarrow> settle_send i u1))"

text \<open>What reaches a running turn, and the end of \<open>submitTurn\<close> when it is the last.\<close>

definition turn_moved :: "nat \<Rightarrow> controller_input \<Rightarrow> desktop_ui \<Rightarrow> desktop_ui" where
  "turn_moved n i u =
     (case map_of (ct_turns (ui_controller u)) n of
        None \<Rightarrow> u
      | Some t \<Rightarrow>
          (let u1 = move i u in
           if map_of (ct_turns (ui_controller u1)) n = None then settle_send (rn_session t) u1 else u1))"

definition handleCancel :: "desktop_ui \<Rightarrow> desktop_ui" where
  "handleCancel u =
     (case dk_active (ui_state u) of None \<Rightarrow> u | Some i \<Rightarrow> if i = [] then u else move (CancelTurn i) u)"

section \<open>Sessions and connection\<close>

definition handleNewSession :: "desktop_ui \<Rightarrow> desktop_ui" where
  "handleNewSession u =
     (if ui_creating u \<or> dk_submitting (ui_state u) then u
      else
        (case controller_step (ui_controller u) NewSession of
           (Accepted, c) \<Rightarrow> u\<lparr>ui_controller := c, ui_creating := True\<rparr>
         | (Refused _, _) \<Rightarrow> u))"

definition session_answered :: "desktop_session option \<Rightarrow> desktop_ui \<Rightarrow> desktop_ui" where
  "session_answered a u =
     (if ct_creating (ui_controller u) = 0 then u else (move (SessionAnswer a) u)\<lparr>ui_creating := False\<rparr>)"

definition handleSessionClick :: "string \<Rightarrow> desktop_ui \<Rightarrow> desktop_ui" where
  "handleSessionClick i u = (if i = [] then u else move (SetActive i) u)"

text \<open>While the user types nothing but the button is drawn anew.\<close>

definition handleDraftInput :: "string \<Rightarrow> desktop_ui \<Rightarrow> desktop_ui" where
  "handleDraftInput t u = move (UpdateDraft t) u"

section \<open>Configuration\<close>

definition start_job :: "config_call \<Rightarrow> config_job \<Rightarrow> desktop_ui \<Rightarrow> desktop_ui" where
  "start_job call job u =
     u\<lparr>ui_jobs := ui_jobs u @ [(ui_next_job u, job)], ui_next_job := ui_next_job u + 1, ui_calls := ui_calls u @ [call]\<rparr>"

definition loadConfig :: "desktop_ui \<Rightarrow> desktop_ui" where
  "loadConfig u =
     (if \<not> ui_config u \<or> ui_unmounted u then u
      else start_job GetConfig LoadJob (u\<lparr>ui_status := ConfigLoading, ui_config_error := None\<rparr>))"

definition config_failed :: "string \<Rightarrow> desktop_ui \<Rightarrow> desktop_ui" where
  "config_failed t u = u\<lparr>ui_status := ConfigFailed, ui_config_error := Some t\<rparr>"

definition load_failed_text :: string where "load_failed_text = ''Failed to load configuration.''"
definition provider_failed_text :: string where "provider_failed_text = ''Failed to save provider.''"
definition route_failed_text :: string where "route_failed_text = ''Failed to save route.''"
definition drop_provider_failed_text :: string where "drop_provider_failed_text = ''Failed to delete provider.''"
definition drop_route_failed_text :: string where "drop_route_failed_text = ''Failed to delete route.''"

text \<open>\<open>connect\<close> joins a connection that is being made; every caller goes on when it has been.\<close>

definition handleConnect :: "desktop_ui \<Rightarrow> desktop_ui" where
  "handleConnect u =
     (if ct_disposed (ui_controller u) then u else (move Connect u)\<lparr>ui_connects := ui_connects u + 1\<rparr>)"

definition connection_answered :: "bool \<Rightarrow> desktop_ui \<Rightarrow> desktop_ui" where
  "connection_answered ok u =
     (if \<not> ct_loading (ui_controller u) then u
      else
        (let u1 = (move (Loaded ok) u)\<lparr>ui_connects := 0\<rparr> in
         if dk_connection (ui_state u1) = DesktopReady then (loadConfig ^^ ui_connects u) u1 else u1))"

text \<open>The texts of the fields of a form; a field that the form does not have is empty.\<close>

record provider_form =
  pf_id :: string
  pf_name :: string
  pf_protocol :: string
  pf_base_url :: string
  pf_credential :: string
  pf_models :: string
  pf_enabled :: bool
  pf_secret :: string

record route_form =
  rf_id :: string
  rf_name :: string
  rf_provider :: string
  rf_model :: string
  rf_enabled :: bool
  rf_fallbacks :: string

fun split_commas :: "string \<Rightarrow> string list" where
  "split_commas [] = [[]]"
| "split_commas (c # cs) =
     (if c = CHR '','' then [] # split_commas cs
      else (case split_commas cs of [] \<Rightarrow> [[c]] | s # ss \<Rightarrow> (c # s) # ss))"

definition listed_words :: "string \<Rightarrow> string list" where
  "listed_words t = filter (\<lambda>s. s \<noteq> []) (map js_trim (split_commas t))"

definition provider_input :: "provider_form \<Rightarrow> jsval" where
  "provider_input f =
     JObj [(''id'', JStr (pf_id f)), (''name'', JStr (pf_name f)), (''protocol'', JStr (pf_protocol f)), (''baseUrl'', JStr (pf_base_url f)),
           (''credentialRef'', if pf_credential f = [] then JNull else JStr (pf_credential f)),
           (''models'', JArr (map JStr (listed_words (pf_models f)))), (''enabled'', JBool (pf_enabled f))]"

definition route_input :: "route_form \<Rightarrow> jsval" where
  "route_input f =
     JObj [(''id'', JStr (rf_id f)), (''name'', JStr (rf_name f)), (''providerId'', JStr (rf_provider f)), (''model'', JStr (rf_model f)),
           (''enabled'', JBool (rf_enabled f)), (''fallbackProviderIds'', JArr (map JStr (listed_words (rf_fallbacks f))))]"

definition known_provider :: "string \<Rightarrow> desktop_ui \<Rightarrow> bool" where
  "known_provider i u \<longleftrightarrow> (case ui_snapshot u of None \<Rightarrow> False | Some c \<Rightarrow> list_ex (\<lambda>p. pv_id p = i) (pc_providers c))"

definition known_route :: "string \<Rightarrow> desktop_ui \<Rightarrow> bool" where
  "known_route i u \<longleftrightarrow> (case ui_snapshot u of None \<Rightarrow> False | Some c \<Rightarrow> list_ex (\<lambda>r. rt_id r = i) (pc_routes c))"

definition put_provider :: "string \<Rightarrow> jsval \<Rightarrow> desktop_ui \<Rightarrow> desktop_ui" where
  "put_provider i input u = start_job (if known_provider i u then UpdateProvider input else CreateProvider input) ProviderJob u"

definition saveProvider :: "provider_form \<Rightarrow> desktop_ui \<Rightarrow> desktop_ui" where
  "saveProvider f u =
     (if \<not> ui_config u then u
      else if pf_secret f = [] then put_provider (pf_id f) (provider_input f) u
      else if \<not> ui_credentials u \<or> pf_credential f = [] then config_failed provider_failed_text u
      else start_job (SetSecret (pf_credential f) (pf_secret f)) (SecretJob (pf_id f) (provider_input f)) u)"

definition saveRoute :: "route_form \<Rightarrow> desktop_ui \<Rightarrow> desktop_ui" where
  "saveRoute f u =
     (if \<not> ui_config u then u
      else start_job (if known_route (rf_id f) u then UpdateRoute (route_input f) else CreateRoute (route_input f)) RouteJob u)"

definition deleteProvider :: "string \<Rightarrow> desktop_ui \<Rightarrow> desktop_ui" where
  "deleteProvider i u = (if \<not> ui_config u \<or> i = [] then u else start_job (DeleteProvider i) DropProviderJob u)"

definition deleteRoute :: "string \<Rightarrow> desktop_ui \<Rightarrow> desktop_ui" where
  "deleteRoute i u = (if \<not> ui_config u \<or> i = [] then u else start_job (DeleteRoute i) DropRouteJob u)"

text \<open>What a handler does when its call has succeeded or failed; the answer of a load is the configuration.\<close>

fun job_answered :: "config_job \<Rightarrow> bool \<Rightarrow> desktop_ui \<Rightarrow> desktop_ui" where
  "job_answered LoadJob ok u = u"
| "job_answered (SecretJob i input) ok u = (if ok then put_provider i input u else config_failed provider_failed_text u)"
| "job_answered ProviderJob ok u = (if ok then loadConfig (u\<lparr>ui_edit_provider := None\<rparr>) else config_failed provider_failed_text u)"
| "job_answered RouteJob ok u = (if ok then loadConfig (u\<lparr>ui_edit_route := None\<rparr>) else config_failed route_failed_text u)"
| "job_answered DropProviderJob ok u = (if ok then loadConfig u else config_failed drop_provider_failed_text u)"
| "job_answered DropRouteJob ok u = (if ok then loadConfig u else config_failed drop_route_failed_text u)"

definition load_answered :: "persisted_config option \<Rightarrow> desktop_ui \<Rightarrow> desktop_ui" where
  "load_answered a u =
     (case a of Some c \<Rightarrow> u\<lparr>ui_snapshot := Some c, ui_status := ConfigReady\<rparr> | None \<Rightarrow> config_failed load_failed_text u)"

definition take_job :: "nat \<Rightarrow> desktop_ui \<Rightarrow> desktop_ui" where
  "take_job n u = u\<lparr>ui_jobs := filter (\<lambda>(k, _). k \<noteq> n) (ui_jobs u)\<rparr>"

definition job_done :: "nat \<Rightarrow> bool \<Rightarrow> desktop_ui \<Rightarrow> desktop_ui" where
  "job_done n ok u =
     (case map_of (ui_jobs u) n of
        None \<Rightarrow> u
      | Some job \<Rightarrow> if job = LoadJob then u else job_answered job ok (take_job n u))"

definition load_done :: "nat \<Rightarrow> persisted_config option \<Rightarrow> desktop_ui \<Rightarrow> desktop_ui" where
  "load_done n a u = (if map_of (ui_jobs u) n = Some LoadJob then load_answered a (take_job n u) else u)"

section \<open>Steps\<close>

datatype ui_input =
    ClickConnect
  | ConnectionAnswer bool
  | ClickNewSession
  | CreatedSession "desktop_session option"
  | ClickSession string
  | DraftInput string
  | ClickSend
  | PressEnter bool bool
  | ArrivedEvent nat agent_event
  | ArrivedEnd nat
  | ArrivedError nat bool
  | ClickCancel
  | OpenSettings
  | CloseSettings
  | ChooseRoute string
  | ClickRefresh
  | SubmitProvider provider_form
  | SubmitRoute route_form
  | EditProvider string
  | EditRoute string
  | ClickDeleteProvider string
  | ClickDeleteRoute string
  | JobAnswer nat bool
  | LoadAnswer nat "persisted_config option"
  | ListenUi nat
  | UnlistenUi nat
  | Unmount

definition unmount :: "desktop_ui \<Rightarrow> desktop_ui" where
  "unmount u = (if ui_unmounted u then u else (move Dispose (move (Unsubscribe 0) u))\<lparr>ui_unmounted := True\<rparr>)"

fun ui_step :: "desktop_ui \<Rightarrow> ui_input \<Rightarrow> desktop_ui" where
  "ui_step u ClickConnect = handleConnect u"
| "ui_step u (ConnectionAnswer ok) = connection_answered ok u"
| "ui_step u ClickNewSession = handleNewSession u"
| "ui_step u (CreatedSession a) = session_answered a u"
| "ui_step u (ClickSession i) = handleSessionClick i u"
| "ui_step u (DraftInput t) = handleDraftInput t u"
| "ui_step u ClickSend = handleSend u"
| "ui_step u (PressEnter shift composing) = (if \<not> shift \<and> \<not> composing then handleSend u else u)"
| "ui_step u (ArrivedEvent n e) = turn_moved n (TurnEvent n e) u"
| "ui_step u (ArrivedEnd n) = turn_moved n (TurnEnded n) u"
| "ui_step u (ArrivedError n aborted) = turn_moved n (TurnThrown n aborted) u"
| "ui_step u ClickCancel = handleCancel u"
| "ui_step u OpenSettings = u\<lparr>ui_settings := True\<rparr>"
| "ui_step u CloseSettings = u\<lparr>ui_settings := False\<rparr>"
| "ui_step u (ChooseRoute i) = u\<lparr>ui_selected := i\<rparr>"
| "ui_step u ClickRefresh = loadConfig u"
| "ui_step u (SubmitProvider f) = saveProvider f u"
| "ui_step u (SubmitRoute f) = saveRoute f u"
| "ui_step u (EditProvider i) = u\<lparr>ui_edit_provider := Some i, ui_edit_route := None\<rparr>"
| "ui_step u (EditRoute i) = u\<lparr>ui_edit_route := Some i, ui_edit_provider := None\<rparr>"
| "ui_step u (ClickDeleteProvider i) = deleteProvider i u"
| "ui_step u (ClickDeleteRoute i) = deleteRoute i u"
| "ui_step u (JobAnswer n ok) = job_done n ok u"
| "ui_step u (LoadAnswer n a) = load_done n a u"
| "ui_step u (ListenUi i) = (if ui_unmounted u then u else move (Subscribe (Suc i)) u)"
| "ui_step u (UnlistenUi i) = move (Unsubscribe (Suc i)) u"
| "ui_step u Unmount = unmount u"

definition ui_run :: "desktop_ui \<Rightarrow> ui_input list \<Rightarrow> desktop_ui" where
  "ui_run u ins = foldl ui_step u ins"



section \<open>The interface drives the controller\<close>

text \<open>The calls of the controller that an input leads to.\<close>

definition controller_calls :: "desktop_ui \<Rightarrow> ui_input \<Rightarrow> controller_input list" where
  "controller_calls u x =
     (let c = ui_controller u; s = ct_state c;
          at_active = (\<lambda>f. case dk_active s of None \<Rightarrow> [] | Some i \<Rightarrow> if i = [] then [] else [f i]);
          on_turn = (\<lambda>n i. if map_of (ct_turns c) n = None then [] else [i]) in
      case x of
        ClickConnect \<Rightarrow> if ct_disposed c then [] else [Connect]
      | ConnectionAnswer ok \<Rightarrow> if ct_loading c then [Loaded ok] else []
      | ClickNewSession \<Rightarrow> if ui_creating u \<or> dk_submitting s then [] else [NewSession]
      | CreatedSession a \<Rightarrow> if ct_creating c = 0 then [] else [SessionAnswer a]
      | ClickSession i \<Rightarrow> if i = [] then [] else [SetActive i]
      | DraftInput t \<Rightarrow> [UpdateDraft t]
      | ClickSend \<Rightarrow> if canSend u then at_active SubmitTurn else []
      | PressEnter shift composing \<Rightarrow> if \<not> shift \<and> \<not> composing \<and> canSend u then at_active SubmitTurn else []
      | ArrivedEvent n e \<Rightarrow> on_turn n (TurnEvent n e)
      | ArrivedEnd n \<Rightarrow> on_turn n (TurnEnded n)
      | ArrivedError n aborted \<Rightarrow> on_turn n (TurnThrown n aborted)
      | ClickCancel \<Rightarrow> at_active CancelTurn
      | ListenUi i \<Rightarrow> if ui_unmounted u then [] else [Subscribe (Suc i)]
      | UnlistenUi i \<Rightarrow> [Unsubscribe (Suc i)]
      | Unmount \<Rightarrow> if ui_unmounted u then [] else [Unsubscribe 0, Dispose]
      | _ \<Rightarrow> [])"

fun driven :: "desktop_ui \<Rightarrow> ui_input list \<Rightarrow> controller_input list" where
  "driven u [] = []"
| "driven u (x # xs) = controller_calls u x @ driven (ui_step u x) xs"

lemma ui_controller_simps [simp]:
  "ui_controller (add_message i m u) = ui_controller u" "ui_controller (settle_send i u) = ui_controller u"
  "ui_controller (move ci u) = snd (controller_step (ui_controller u) ci)" "ui_controller (start_job call job u) = ui_controller u"
  "ui_controller (loadConfig u) = ui_controller u" "ui_controller (config_failed t u) = ui_controller u"
  "ui_controller (put_provider i v u) = ui_controller u" "ui_controller (take_job n u) = ui_controller u"
  "ui_controller (load_answered a u) = ui_controller u"
  by (simp_all add: add_message_def settle_send_def move_def start_job_def loadConfig_def config_failed_def put_provider_def take_job_def
      load_answered_def Let_def split: option.split)

lemma ui_controller_jobs [simp]:
  "ui_controller (job_answered job ok u) = ui_controller u" "ui_controller ((loadConfig ^^ k) u) = ui_controller u"
  by (cases job; simp) (induction k; simp)

lemma refused_submit: "submit_turn i c = (Refused e, c') \<Longrightarrow> c' = c"
  by (auto simp: submit_turn_def split: if_splits)

lemma refused_new_session: "new_session_call c = (Refused e, c') \<Longrightarrow> c' = c"
  by (auto simp: new_session_call_def split: if_splits)

lemma send_controller:
  "ui_controller (handleSend u) =
     foldl (\<lambda>c i. snd (controller_step c i)) (ui_controller u)
       (if canSend u then (case dk_active (ui_state u) of None \<Rightarrow> [] | Some i \<Rightarrow> if i = [] then [] else [SubmitTurn i]) else [])"
  by (auto simp: handleSend_def Let_def dest: refused_submit split: option.split prod.split controller_answer.split)

lemma step_controller:
  "ui_controller (ui_step u x) = foldl (\<lambda>c i. snd (controller_step c i)) (ui_controller u) (controller_calls u x)"
proof (cases x)
  case ClickNewSession
  then show ?thesis
    by (auto simp: controller_calls_def handleNewSession_def dest: refused_new_session split: prod.split controller_answer.split)
next
  case (ArrivedEvent n e)
  then show ?thesis by (auto simp: controller_calls_def turn_moved_def Let_def split: option.split)
next
  case (ArrivedEnd n)
  then show ?thesis by (auto simp: controller_calls_def turn_moved_def Let_def split: option.split)
next
  case (ArrivedError n b)
  then show ?thesis by (auto simp: controller_calls_def turn_moved_def Let_def split: option.split)
qed (auto simp: controller_calls_def send_controller handleConnect_def connection_answered_def session_answered_def handleSessionClick_def handleDraftInput_def
    handleCancel_def saveProvider_def saveRoute_def deleteProvider_def deleteRoute_def job_done_def load_done_def unmount_def Let_def
    split: option.split)

lemma run_controller:
  "ui_controller (ui_run u ins) = foldl (\<lambda>c i. snd (controller_step c i)) (ui_controller u) (driven u ins)"
  by (induction ins arbitrary: u) (simp_all add: ui_run_def step_controller)

lemma new_ui_run: "ui_controller (ui_run (new_ui a b) ins) = controller_run (Subscribe 0 # driven (new_ui a b) ins)"
  by (simp add: run_controller controller_run_def new_ui_def)


section \<open>One turn at a time\<close>

text \<open>What the buttons see to, whether or not a session is being created meanwhile.\<close>

definition single_turn :: "controller \<Rightarrow> bool" where
  "single_turn c \<longleftrightarrow>
     (if ct_disposed c then True
      else
        (case ct_turns c of
           [] \<Rightarrow> \<not> dk_submitting (ct_state c) \<and> ct_abort c = []
         | [(n, t)] \<Rightarrow> dk_submitting (ct_state c) \<and> ct_abort c = [(rn_session t, n)]
         | _ \<Rightarrow> False))"

definition sends_late :: "controller \<Rightarrow> controller_input \<Rightarrow> bool" where
  "sends_late c i \<longleftrightarrow> (case i of SubmitTurn _ \<Rightarrow> dk_submitting (ct_state c) | _ \<Rightarrow> False)"

lemma single_turn_cases:
  assumes "single_turn c" and "\<not> ct_disposed c"
  obtains "ct_turns c = []" "\<not> dk_submitting (ct_state c)" "ct_abort c = []"
  | n t where "ct_turns c = [(n, t)]" "dk_submitting (ct_state c)" "ct_abort c = [(rn_session t, n)]"
  using assms by (cases "ct_turns c"; cases "tl (ct_turns c)") (auto simp: single_turn_def)

lemma single_turn_step:
  assumes "single_turn c" and "\<not> sends_late c i"
  shows "single_turn (snd (controller_step c i))"
proof (cases "ct_disposed c")
  case True
  with disposed_stays show ?thesis by (simp add: single_turn_def)
next
  case no: False
  show ?thesis
    using assms(1) no
  proof (cases rule: single_turn_cases)
    case 1
    then show ?thesis
      using no
      by (cases i) (auto simp: single_turn_def connect_def loaded_def new_session_call_def session_answer_def submit_turn_def
          with_turn_def cancel_turn_def set_active_def dispose_def Let_def split: option.split)
  next
    case (2 n t)
    show ?thesis
    proof (cases i)
      case (TurnEvent k e)
      then show ?thesis
        using no 2 by (cases e; cases "k = n"; cases "rn_aborted t")
          (simp_all add: single_turn_def with_turn_def turn_event_def abort_turn_def close_turn_def show_event_def Let_def)
    next
      case (TurnEnded k)
      then show ?thesis
        using no 2 by (cases "k = n"; cases "rn_aborted t")
          (simp_all add: single_turn_def with_turn_def turn_ended_def abort_turn_def close_turn_def Let_def)
    next
      case (TurnThrown k b)
      then show ?thesis
        using no 2 by (cases "k = n"; cases "rn_aborted t"; cases b)
          (simp_all add: single_turn_def with_turn_def turn_thrown_def abort_turn_def close_turn_def Let_def)
    next
      case (CancelTurn k)
      then show ?thesis
        using no 2 by (cases "k = rn_session t") (auto simp: single_turn_def cancel_turn_def mark_aborted_def Let_def split: option.split)
    qed (use no 2 assms(2) in \<open>auto simp: single_turn_def sends_late_def connect_def loaded_def session_answer_def new_session_call_def
        set_active_def dispose_def split: option.split\<close>)
  qed
qed

lemma calls_in_time: "list_all (\<lambda>i. \<not> sends_late (ui_controller u) i) (controller_calls u x)"
  by (cases x) (auto simp: controller_calls_def sends_late_def canSend_def Let_def split: option.split)

lemma calls_short: "controller_calls u x = [] \<or> (\<exists>i. controller_calls u x = [i]) \<or> controller_calls u x = [Unsubscribe 0, Dispose]"
  by (cases x) (auto simp: controller_calls_def Let_def split: option.split)

lemma ui_single_step: "single_turn (ui_controller u) \<Longrightarrow> single_turn (ui_controller (ui_step u x))"
proof -
  assume u: "single_turn (ui_controller u)"
  from calls_short consider "controller_calls u x = []" | i where "controller_calls u x = [i]" | "controller_calls u x = [Unsubscribe 0, Dispose]"
    by blast
  then show ?thesis
  proof cases
    case 3
    with u show ?thesis using single_turn_step [of _ "Unsubscribe 0"] single_turn_step [of _ Dispose]
      by (simp add: step_controller sends_late_def del: controller_step.simps)
  qed (use u calls_in_time [of u x] in \<open>simp_all add: step_controller single_turn_step del: controller_step.simps\<close>)
qed

lemma ui_single_run: "single_turn (ui_controller (ui_run (new_ui a b) ins))"
proof (induction ins rule: rev_induct)
  case Nil
  show ?case by (simp add: ui_run_def new_ui_def single_turn_def new_controller_def initial_state_def)
next
  case (snoc x ins)
  then show ?case by (simp add: ui_run_def ui_single_step)
qed

text \<open>The controller is disposed of exactly when the interface is unmounted, and a session is asked for exactly when one is awaited.\<close>

definition in_step :: "desktop_ui \<Rightarrow> bool" where
  "in_step u \<longleftrightarrow>
     ct_disposed (ui_controller u) = ui_unmounted u \<and> ct_creating (ui_controller u) = (if ui_creating u then 1 else 0)"

lemma creating_step:
  "ct_creating (snd (controller_step c i)) =
     (case i of NewSession \<Rightarrow> if ct_disposed c \<or> dk_connection (ct_state c) \<noteq> DesktopReady then ct_creating c else ct_creating c + 1
      | SessionAnswer _ \<Rightarrow> ct_creating c - 1 | _ \<Rightarrow> ct_creating c)"
proof -
  have marks: "ct_creating (foldr mark_aborted ns c) = ct_creating c" for ns by (induction ns) simp_all
  show ?thesis
    by (cases i) (auto simp: connect_def loaded_def new_session_call_def session_answer_def submit_turn_def with_turn_def turn_event_def
      turn_ended_def turn_thrown_def abort_turn_def close_turn_def cancel_turn_def set_active_def dispose_def Let_def marks split: option.split)
qed

lemma disposed_exactly: "ct_disposed (snd (controller_step c i)) \<longleftrightarrow> ct_disposed c \<or> i = Dispose"
  by (cases i)
    (auto simp: connect_def loaded_def new_session_call_def session_answer_def submit_turn_def with_turn_def turn_event_def turn_ended_def
      turn_thrown_def abort_turn_def close_turn_def cancel_turn_def set_active_def dispose_def Let_def split: option.split)


section \<open>What the handlers keep\<close>

lemma ui_unmounted_simps [simp]:
  "ui_unmounted (add_message i m u) = ui_unmounted u" "ui_unmounted (settle_send i u) = ui_unmounted u" "ui_unmounted (move ci u) = ui_unmounted u"
  "ui_unmounted (start_job call job u) = ui_unmounted u" "ui_unmounted (loadConfig u) = ui_unmounted u" "ui_unmounted (config_failed t u) = ui_unmounted u"
  "ui_unmounted (put_provider i v u) = ui_unmounted u" "ui_unmounted (take_job n u) = ui_unmounted u" "ui_unmounted (load_answered a u) = ui_unmounted u"
  by (simp_all add: add_message_def settle_send_def move_def start_job_def loadConfig_def config_failed_def put_provider_def take_job_def
      load_answered_def Let_def split: option.split)

lemma ui_unmounted_jobs [simp]: "ui_unmounted (job_answered job ok u) = ui_unmounted u" "ui_unmounted ((loadConfig ^^ k) u) = ui_unmounted u"
  by (cases job; simp) (induction k; simp)

lemma ui_creating_simps [simp]:
  "ui_creating (add_message i m u) = ui_creating u" "ui_creating (settle_send i u) = ui_creating u" "ui_creating (move ci u) = ui_creating u"
  "ui_creating (start_job call job u) = ui_creating u" "ui_creating (loadConfig u) = ui_creating u" "ui_creating (config_failed t u) = ui_creating u"
  "ui_creating (put_provider i v u) = ui_creating u" "ui_creating (take_job n u) = ui_creating u" "ui_creating (load_answered a u) = ui_creating u"
  by (simp_all add: add_message_def settle_send_def move_def start_job_def loadConfig_def config_failed_def put_provider_def take_job_def
      load_answered_def Let_def split: option.split)

lemma ui_creating_jobs [simp]: "ui_creating (job_answered job ok u) = ui_creating u" "ui_creating ((loadConfig ^^ k) u) = ui_creating u"
  by (cases job; simp) (induction k; simp)

lemma ui_config_simps [simp]:
  "ui_config (add_message i m u) = ui_config u" "ui_config (settle_send i u) = ui_config u" "ui_config (move ci u) = ui_config u"
  "ui_config (start_job call job u) = ui_config u" "ui_config (loadConfig u) = ui_config u" "ui_config (config_failed t u) = ui_config u"
  "ui_config (put_provider i v u) = ui_config u" "ui_config (take_job n u) = ui_config u" "ui_config (load_answered a u) = ui_config u"
  by (simp_all add: add_message_def settle_send_def move_def start_job_def loadConfig_def config_failed_def put_provider_def take_job_def
      load_answered_def Let_def split: option.split)

lemma ui_config_jobs [simp]: "ui_config (job_answered job ok u) = ui_config u" "ui_config ((loadConfig ^^ k) u) = ui_config u"
  by (cases job; simp) (induction k; simp)

lemma ui_chats_simps [simp]:
  "ui_chats (move ci u) = ui_chats u" "ui_chats (start_job call job u) = ui_chats u" "ui_chats (loadConfig u) = ui_chats u"
  "ui_chats (config_failed t u) = ui_chats u" "ui_chats (put_provider i v u) = ui_chats u" "ui_chats (take_job n u) = ui_chats u"
  "ui_chats (load_answered a u) = ui_chats u"
  by (simp_all add: add_message_def settle_send_def move_def start_job_def loadConfig_def config_failed_def put_provider_def take_job_def
      load_answered_def Let_def split: option.split)

lemma ui_chats_jobs [simp]: "ui_chats (job_answered job ok u) = ui_chats u" "ui_chats ((loadConfig ^^ k) u) = ui_chats u"
  by (cases job; simp) (induction k; simp)

lemma ui_requests_simps [simp]:
  "ui_requests (add_message i m u) = ui_requests u" "ui_requests (settle_send i u) = ui_requests u" "ui_requests (move ci u) = ui_requests u"
  "ui_requests (start_job call job u) = ui_requests u" "ui_requests (loadConfig u) = ui_requests u" "ui_requests (config_failed t u) = ui_requests u"
  "ui_requests (put_provider i v u) = ui_requests u" "ui_requests (take_job n u) = ui_requests u" "ui_requests (load_answered a u) = ui_requests u"
  by (simp_all add: add_message_def settle_send_def move_def start_job_def loadConfig_def config_failed_def put_provider_def take_job_def
      load_answered_def Let_def split: option.split)

lemma ui_requests_jobs [simp]: "ui_requests (job_answered job ok u) = ui_requests u" "ui_requests ((loadConfig ^^ k) u) = ui_requests u"
  by (cases job; simp) (induction k; simp)

lemma ui_snapshot_simps [simp]:
  "ui_snapshot (add_message i m u) = ui_snapshot u" "ui_snapshot (settle_send i u) = ui_snapshot u" "ui_snapshot (move ci u) = ui_snapshot u"
  "ui_snapshot (start_job call job u) = ui_snapshot u" "ui_snapshot (loadConfig u) = ui_snapshot u" "ui_snapshot (config_failed t u) = ui_snapshot u"
  "ui_snapshot (put_provider i v u) = ui_snapshot u" "ui_snapshot (take_job n u) = ui_snapshot u"
  by (simp_all add: add_message_def settle_send_def move_def start_job_def loadConfig_def config_failed_def put_provider_def take_job_def
      load_answered_def Let_def split: option.split)

lemma ui_snapshot_jobs [simp]: "ui_snapshot (job_answered job ok u) = ui_snapshot u" "ui_snapshot ((loadConfig ^^ k) u) = ui_snapshot u"
  by (cases job; simp) (induction k; simp)


lemma send_keeps [simp]:
  "ui_unmounted (handleSend u) = ui_unmounted u" "ui_creating (handleSend u) = ui_creating u" "ui_config (handleSend u) = ui_config u"
  "ui_snapshot (handleSend u) = ui_snapshot u"
  by (simp_all add: handleSend_def Let_def split: option.split prod.split controller_answer.split)

lemma unmounted_step: "ui_unmounted (ui_step u x) \<longleftrightarrow> ui_unmounted u \<or> x = Unmount"
  by (cases x) (simp_all add: handleConnect_def connection_answered_def handleNewSession_def session_answered_def handleSessionClick_def handleDraftInput_def turn_moved_def
      handleCancel_def saveProvider_def saveRoute_def deleteProvider_def deleteRoute_def job_done_def load_done_def unmount_def Let_def
      split: option.split prod.split controller_answer.split)

lemma creating_ui_step:
  "ui_creating (ui_step u x) =
     (case x of ClickNewSession \<Rightarrow> ui_creating u \<or> \<not> dk_submitting (ui_state u) \<and> fst (new_session_call (ui_controller u)) = Accepted
      | CreatedSession _ \<Rightarrow> ui_creating u \<and> ct_creating (ui_controller u) = 0 | _ \<Rightarrow> ui_creating u)"
  by (cases x) (simp_all add: handleConnect_def connection_answered_def handleNewSession_def session_answered_def handleSessionClick_def handleDraftInput_def turn_moved_def
      handleCancel_def saveProvider_def saveRoute_def deleteProvider_def deleteRoute_def job_done_def load_done_def unmount_def Let_def
      split: option.split prod.split controller_answer.split)

lemma disposing_call: "list_ex ((=) Dispose) (controller_calls u x) \<longleftrightarrow> x = Unmount \<and> \<not> ui_unmounted u"
  by (cases x) (auto simp: controller_calls_def Let_def split: option.splits)

lemma in_step_step: "in_step u \<Longrightarrow> in_step (ui_step u x)"
proof -
  assume u: "in_step u"
  have d: "ct_disposed (ui_controller (ui_step u x)) \<longleftrightarrow> ct_disposed (ui_controller u) \<or> list_ex ((=) Dispose) (controller_calls u x)"
    using calls_short [of u x] by (auto simp: step_controller disposed_exactly simp del: controller_step.simps ui_step.simps)
  note e = disposing_call [of u x]
  have c: "ct_creating (ui_controller (ui_step u x)) = (if ui_creating (ui_step u x) then 1 else 0)"
    using u
    by (cases x) (auto simp: in_step_def step_controller creating_step creating_ui_step controller_calls_def new_session_call_def Let_def
        simp del: controller_step.simps ui_step.simps split: option.split)
  from u d e c show ?thesis by (auto simp: in_step_def unmounted_step simp del: ui_step.simps)
qed

lemma in_step_run: "in_step (ui_run (new_ui a b) ins)"
proof (induction ins rule: rev_induct)
  case Nil
  show ?case by (simp add: ui_run_def new_ui_def in_step_def new_controller_def)
next
  case (snoc x ins)
  then show ?case by (simp add: ui_run_def in_step_step del: ui_step.simps)
qed

text \<open>
  C20: the interface drives its controller with one turn at a time.  Whatever the user clicks, whatever answers arrive and in whatever order, the
  controller is in a state its own machine reaches; until the interface is unmounted at most one turn is open, the state says it is
  submitting exactly while one is, and the abort controller is that of the open turn; one session at most is being created; after
  the interface is unmounted the controller is disposed of, with no subscriber and no abort controller.
\<close>

theorem ui_drives_one_turn:
  "case ui_run (new_ui config credentials) ins of u \<Rightarrow>
     ui_controller u = controller_run (Subscribe 0 # driven (new_ui config credentials) ins)
     \<and> ct_disposed (ui_controller u) = ui_unmounted u
     \<and> ct_creating (ui_controller u) = (if ui_creating u then 1 else 0)
     \<and> (if ui_unmounted u then ct_subscribers (ui_controller u) = [] \<and> ct_abort (ui_controller u) = []
        else
          (case ct_turns (ui_controller u) of
             [] \<Rightarrow> \<not> dk_submitting (ui_state u) \<and> ct_abort (ui_controller u) = []
           | [(n, t)] \<Rightarrow> dk_submitting (ui_state u) \<and> ct_abort (ui_controller u) = [(rn_session t, n)]
           | _ \<Rightarrow> False))"
  using ui_single_run [of config credentials ins] in_step_run [of config credentials ins]
    run_ok [of "Subscribe 0 # driven (new_ui config credentials) ins"]
  by (simp add: single_turn_def in_step_def controller_ok_def flip: new_ui_run)

section \<open>Conversations and requests\<close>

lemma chat_add: "chat (add_message i m u) j = (if j = i then chat u i @ [m] else chat u j)"
  by (simp add: chat_def add_message_def map_of_obj_put)

lemma chat_same: "ui_chats u = ui_chats v \<Longrightarrow> chat u = chat v"
  by (simp add: chat_def fun_eq_iff)

definition user_texts :: "chat_message list \<Rightarrow> string list" where
  "user_texts ms = map cm_text (filter (\<lambda>m. cm_role m = ChatUser) ms)"

definition sent_to :: "string \<Rightarrow> desktop_ui \<Rightarrow> ui_request list" where
  "sent_to i u = filter (\<lambda>r. rq_session r = i) (ui_requests u)"

text \<open>What is shown of a conversation is what was sent of it.\<close>

definition chats_ok :: "desktop_ui \<Rightarrow> bool" where
  "chats_ok u \<longleftrightarrow>
     (\<forall>i. user_texts (chat u i) = map (\<lambda>r. cm_text (last (rq_messages r))) (sent_to i u))
     \<and> list_all (\<lambda>r. prefix (rq_messages r) (chat u (rq_session r))) (ui_requests u)"

definition request_ok :: "ui_request \<Rightarrow> bool" where
  "request_ok r \<longleftrightarrow>
     rq_messages r \<noteq> [] \<and> cm_role (last (rq_messages r)) = ChatUser \<and> js_trim (cm_text (last (rq_messages r))) \<noteq> []"

lemma chats_assistant: "chats_ok u \<Longrightarrow> chats_ok (add_message i \<lparr>cm_role = ChatAssistant, cm_text = t\<rparr> u)"
  by (auto simp: chats_ok_def chat_add user_texts_def sent_to_def list_all_iff)

lemma chats_settle: "chats_ok u \<Longrightarrow> chats_ok (settle_send i u)"
  by (simp add: settle_send_def Let_def chats_assistant)

lemma chats_move: "chats_ok (move i u) = chats_ok u"
  by (simp add: chats_ok_def sent_to_def chat_same [of "move i u" u])

lemma chats_send:
  assumes "chats_ok u" and "\<not> ct_disposed (ui_controller u)" and "controller_ok (ui_controller u)"
  shows "chats_ok (handleSend u)"
proof (cases "\<exists>i. dk_active (ui_state u) = Some i \<and> i \<noteq> [] \<and> canSend u")
  case False
  then show ?thesis using assms by (auto simp: handleSend_def split: option.split)
next
  case True
  then obtain i where i: "dk_active (ui_state u) = Some i" "i \<noteq> []" "canSend u" by blast
  have "find_session i (ui_controller u) \<noteq> None"
    using assms(3) i(1) by (auto simp: controller_ok_def active_listed_def find_session_def find_None_iff)
  then obtain c where c: "submit_turn i (ui_controller u) = (Accepted, c)" using assms(2) by (simp add: submit_turn_def)
  let ?u1 = "add_message i \<lparr>cm_role = ChatUser, cm_text = dk_draft (ui_state u)\<rparr> u"
  have "handleSend u = ?u1\<lparr>ui_controller := c,
      ui_requests := ui_requests u @ [\<lparr>rq_session = i, rq_messages = chat ?u1 i, rq_route = map_option (\<lambda>r. (rt_id r, rt_model r)) (currentRoute u)\<rparr>]\<rparr>"
    using i c by (simp add: handleSend_def Let_def)
  then show ?thesis
    using assms(1) by (auto simp: chats_ok_def chat_add user_texts_def sent_to_def list_all_iff chat_same [of "_ \<lparr>ui_controller := c, ui_requests := _\<rparr>" ?u1])
qed

text \<open>The other handlers do not touch conversations and requests.\<close>

lemma chats_ok_cong: "ui_chats u = ui_chats v \<Longrightarrow> ui_requests u = ui_requests v \<Longrightarrow> chats_ok u = chats_ok v"
  by (simp add: chats_ok_def sent_to_def chat_same [of u v])

definition talks :: "ui_input \<Rightarrow> bool" where
  "talks x \<longleftrightarrow>
     (case x of ClickSend \<Rightarrow> True | PressEnter _ _ \<Rightarrow> True | ArrivedEvent _ _ \<Rightarrow> True | ArrivedEnd _ \<Rightarrow> True | ArrivedError _ _ \<Rightarrow> True | _ \<Rightarrow> False)"

lemma silent_step: "\<not> talks x \<Longrightarrow> ui_chats (ui_step u x) = ui_chats u \<and> ui_requests (ui_step u x) = ui_requests u"
  by (cases x) (simp_all add: talks_def handleConnect_def connection_answered_def handleNewSession_def session_answered_def handleSessionClick_def handleDraftInput_def
      handleCancel_def saveProvider_def saveRoute_def deleteProvider_def deleteRoute_def job_done_def load_done_def unmount_def Let_def
      split: option.split prod.split controller_answer.split)

lemma moved_requests: "ui_requests (turn_moved n i u) = ui_requests u"
  by (simp add: turn_moved_def Let_def split: option.split)

lemma chats_moved: "chats_ok u \<Longrightarrow> chats_ok (turn_moved n i u)"
  by (simp add: turn_moved_def Let_def chats_settle chats_move split: option.split)

lemma chats_step:
  assumes "chats_ok u" and "\<not> ct_disposed (ui_controller u)" and "controller_ok (ui_controller u)"
  shows "chats_ok (ui_step u x)"
proof (cases "talks x")
  case False
  from silent_step [OF this, of u] assms(1) show ?thesis using chats_ok_cong by blast
next
  case True
  then show ?thesis using chats_send [OF assms] chats_moved [OF assms(1)] assms(1) by (cases x) (simp_all add: talks_def)
qed

text \<open>What the configuration client answers has routes with names and models.\<close>

definition routes_named :: "persisted_config \<Rightarrow> bool" where
  "routes_named c \<longleftrightarrow> list_all (\<lambda>r. rt_id r \<noteq> [] \<and> rt_model r \<noteq> []) (pc_routes c)"

definition served_named :: "ui_input \<Rightarrow> bool" where
  "served_named x \<longleftrightarrow> (case x of LoadAnswer _ a \<Rightarrow> (case a of None \<Rightarrow> True | Some c \<Rightarrow> routes_named c) | _ \<Rightarrow> True)"

lemma map_all_all: "map_all f xs = Some ys \<Longrightarrow> (\<And>x y. f x = Some y \<Longrightarrow> P y) \<Longrightarrow> list_all P ys"
  by (induction xs arbitrary: ys) (auto split: option.splits)

lemma parsed_routes_named: "parseSnapshot v = Some c \<Longrightarrow> routes_named c"
  unfolding routes_named_def
  by (auto simp: parseSnapshot_def parseRoute_def trimmed_text_def Let_def split: if_splits option.splits elim!: map_all_all)

definition snapshot_named :: "desktop_ui \<Rightarrow> bool" where
  "snapshot_named u \<longleftrightarrow> (case ui_snapshot u of None \<Rightarrow> True | Some c \<Rightarrow> routes_named c)"

definition request_named :: "ui_request \<Rightarrow> bool" where
  "request_named r \<longleftrightarrow> request_ok r \<and> (case rq_route r of None \<Rightarrow> True | Some (a, b) \<Rightarrow> a \<noteq> [] \<and> b \<noteq> [])"

lemma current_listed: "currentRoute u = Some r \<Longrightarrow> r \<in> set (ui_routes u)"
  by (auto simp: currentRoute_def find_Some_iff split: option.splits list.splits)

lemma current_named: "snapshot_named u \<Longrightarrow> currentRoute u = Some r \<Longrightarrow> rt_id r \<noteq> [] \<and> rt_model r \<noteq> []"
  using current_listed [of u r] by (auto simp: snapshot_named_def ui_routes_def routes_named_def list_all_iff split: option.splits)

lemma requests_send:
  assumes "snapshot_named u" and "list_all request_named (ui_requests u)"
  shows "list_all request_named (ui_requests (handleSend u))"
proof -
  have "request_named \<lparr>rq_session = i, rq_messages = ms @ [\<lparr>cm_role = ChatUser, cm_text = dk_draft (ui_state u)\<rparr>],
      rq_route = map_option (\<lambda>r. (rt_id r, rt_model r)) (currentRoute u)\<rparr>" if "canSend u" for i ms
    using that current_named [OF assms(1)] by (auto simp: request_named_def request_ok_def canSend_def split: option.split)
  with assms(2) show ?thesis
    by (auto simp: handleSend_def Let_def chat_add split: option.split prod.split controller_answer.split)
qed

lemma snapshot_step: "served_named x \<Longrightarrow> snapshot_named u \<Longrightarrow> snapshot_named (ui_step u x)"
proof -
  assume x: "served_named x" and u: "snapshot_named u"
  have same: "ui_snapshot v = ui_snapshot u \<Longrightarrow> snapshot_named v" for v using u by (simp add: snapshot_named_def)
  show ?thesis
  proof (cases x)
    case (LoadAnswer n a)
    with x same show ?thesis
      by (auto simp: load_done_def load_answered_def config_failed_def take_job_def served_named_def snapshot_named_def split: option.splits)
  qed (intro same, simp add: handleConnect_def connection_answered_def handleNewSession_def session_answered_def handleSessionClick_def handleDraftInput_def turn_moved_def
      handleCancel_def saveProvider_def saveRoute_def deleteProvider_def deleteRoute_def job_done_def unmount_def Let_def
      split: option.split prod.split controller_answer.split)+
qed

lemma requests_step:
  assumes "snapshot_named u" and "list_all request_named (ui_requests u)"
  shows "list_all request_named (ui_requests (ui_step u x))"
proof (cases "talks x")
  case False
  from silent_step [OF this, of u] assms(2) show ?thesis by simp
next
  case True
  then show ?thesis using requests_send [OF assms] assms(2) by (cases x) (simp_all add: talks_def moved_requests)
qed

text \<open>A request as the validators on the way to the backend see it.\<close>

definition chat_agent_message :: "chat_message \<Rightarrow> agent_message" where
  "chat_agent_message m = \<lparr>role = (case cm_role m of ChatUser \<Rightarrow> User | ChatAssistant \<Rightarrow> Assistant), content = [TextBlock (cm_text m)]\<rparr>"

lemma chat_value_message: "chat_value = message_value \<circ> chat_agent_message"
  by (rule ext) (simp add: chat_value_def message_value_def chat_agent_message_def split: chat_role.split)

lemma chat_conversation: "conversation (map chat_agent_message ms) = map (\<lambda>m. TextBlock (cm_text m)) ms"
  by (induction ms) (simp_all add: conversation_def chat_agent_message_def)

lemma text_calls: "call_ids (map (\<lambda>m. TextBlock (cm_text m)) ms) = []"
  by (induction ms) simp_all

lemma chat_messages_valid:
  assumes "ms \<noteq> []"
  shows "validateAgentMessages (JArr (map chat_value ms)) = Inr ()"
proof -
  have "resolved {} (map (\<lambda>m. TextBlock (cm_text m)) xs)" for xs by (induction xs) simp_all
  with assms have "rfold validate_message (map message_value (map chat_agent_message ms)) {} = Inr ({} \<union> set (call_ids (conversation (map chat_agent_message ms))))"
    by (intro validate_messages_complete) (auto simp: chat_conversation chat_agent_message_def)
  with assms show ?thesis by (simp add: validateAgentMessages_def chat_value_message)
qed

lemma chat_not_sensitive: "assertNoSensitiveFields (chat_value m) 2 = Inr ()"
  by (simp add: chat_value_def max_sensitive_scan_depth_def sensitive_fields_def)

lemma sent_request_accepted:
  assumes "request_named r"
  shows "assertSafeTurnRequest (turn_value r)"
    and "parseTurnRequest (turn_value r) =
      Inr \<lparr>tq_messages = map chat_value (rq_messages r), tq_tools = None, tq_route = map_option fst (rq_route r),
           tq_model = map_option snd (rq_route r), tq_max_tokens = None\<rparr>"
proof -
  have ms: "rq_messages r \<noteq> []" using assms by (simp add: request_named_def request_ok_def)
  note valid = chat_messages_valid [OF ms]
  show "assertSafeTurnRequest (turn_value r)"
    using assms valid
    by (auto simp: assertSafeTurnRequest_def turn_value_def request_named_def turn_fields_def is_ok_def non_empty_def split: option.splits)
  have "rall (\<lambda>v. assertNoSensitiveFields v 2) (map chat_value xs) = Inr ()" for xs
    by (induction xs) (simp_all add: chat_not_sensitive)
  moreover have "to_lower ''messages'' = ''messages''" "to_lower ''routeId'' = ''routeid''" "to_lower ''model'' = ''model''" by code_simp+
  ultimately have "assertNoSensitiveFields (turn_value r) 0 = Inr ()"
    by (simp add: turn_value_def max_sensitive_scan_depth_def sensitive_fields_def numeral_2_eq_2 del: to_lower.simps split: option.split)
  moreover have "isPlainObject (turn_value r)" "field (turn_value r) ''messages'' = JArr (map chat_value (rq_messages r))"
    "field (turn_value r) ''tools'' = JUndef" "field (turn_value r) ''maxTokens'' = JUndef"
    "field (turn_value r) ''routeId'' = (case rq_route r of None \<Rightarrow> JUndef | Some (a, b) \<Rightarrow> JStr a)"
    "field (turn_value r) ''model'' = (case rq_route r of None \<Rightarrow> JUndef | Some (a, b) \<Rightarrow> JStr b)"
    "\<not> list_ex (\<lambda>k. k \<notin> set turn_fields) (obj_keys (turn_value r))"
    by (simp_all add: turn_value_def turn_fields_def split: option.split)
  ultimately show "parseTurnRequest (turn_value r) =
      Inr \<lparr>tq_messages = map chat_value (rq_messages r), tq_tools = None, tq_route = map_option fst (rq_route r),
           tq_model = map_option snd (rq_route r), tq_max_tokens = None\<rparr>"
    using ms valid by (cases "rq_route r") (auto simp: parseTurnRequest_def is_ok_def optional_string_def Let_def)
qed

lemma ui_run_snoc: "ui_run u (ins @ [x]) = ui_step (ui_run u ins) x"
  by (simp add: ui_run_def)

lemma ui_run_append: "ui_run u (xs @ ys) = ui_run (ui_run u xs) ys"
  by (simp add: ui_run_def)

lemma run_requests:
  "list_all served_named ins \<Longrightarrow>
     snapshot_named (ui_run (new_ui a b) ins) \<and> list_all request_named (ui_requests (ui_run (new_ui a b) ins))"
proof (induction ins rule: rev_induct)
  case Nil
  show ?case by (simp add: ui_run_def new_ui_def snapshot_named_def)
next
  case (snoc x ins)
  then show ?case by (simp add: ui_run_snoc snapshot_step requests_step del: ui_step.simps)
qed

lemma run_controller_ok: "controller_ok (ui_controller (ui_run (new_ui a b) ins))"
  by (simp add: new_ui_run run_ok)

lemma run_chats: "\<not> ui_unmounted (ui_run (new_ui a b) ins) \<Longrightarrow> chats_ok (ui_run (new_ui a b) ins)"
proof (induction ins rule: rev_induct)
  case Nil
  show ?case by (simp add: ui_run_def new_ui_def chats_ok_def chat_def user_texts_def sent_to_def)
next
  case (snoc x ins)
  let ?u = "ui_run (new_ui a b) ins"
  from snoc.prems have no: "\<not> ui_unmounted ?u" by (simp add: ui_run_snoc unmounted_step del: ui_step.simps)
  then have "\<not> ct_disposed (ui_controller ?u)" using in_step_run [of a b ins] by (simp add: in_step_def)
  from chats_step [OF snoc.IH [OF no] this run_controller_ok] show ?case by (simp add: ui_run_snoc del: ui_step.simps)
qed

text \<open>
  C17: every request the interface sends is one that the host accepts.  Whatever the user does, whatever the turns answer, and whatever
  configuration is served (with named routes and models, as the parser of the desktop only lets through), each request passes the check
  of the Tauri client and the validation of the local API, which reads it as the messages of the conversation in their order, with
  the route and the model that are selected.
\<close>

theorem sent_requests_are_accepted:
  "if list_all served_named ins
   then list_all (\<lambda>r.
          assertSafeTurnRequest (turn_value r)
          \<and> parseTurnRequest (turn_value r) =
              Inr \<lparr>tq_messages = map chat_value (rq_messages r), tq_tools = None, tq_route = map_option fst (rq_route r),
                   tq_model = map_option snd (rq_route r), tq_max_tokens = None\<rparr>)
        (ui_requests (ui_run (new_ui config credentials) ins))
   else True"
  using run_requests [of ins config credentials] sent_request_accepted by (auto simp: list_all_iff)

text \<open>
  C22: a conversation is what was sent of it.  In every run of the mounted interface the texts of the user in a conversation are the drafts that were sent
  to its session, one for each request and in their order, and the messages of every request are a beginning of the conversation as it
  stands now: nothing that was sent is changed or removed later.
\<close>

theorem conversation_is_what_was_sent:
  "case ui_run (new_ui config credentials) ins of u \<Rightarrow>
     if ui_unmounted u then True
     else
       user_texts (chat u i) = map (\<lambda>r. cm_text (last (rq_messages r))) (sent_to i u)
       \<and> list_all (\<lambda>r. prefix (rq_messages r) (chat u (rq_session r))) (ui_requests u)"
  using run_chats [of config credentials ins] by (simp add: chats_ok_def)

section \<open>One exchange\<close>

text \<open>What a turn from the click to its end leaves.\<close>

definition streams :: "agent_event \<Rightarrow> bool" where
  "streams e \<longleftrightarrow> (case e of AError _ _ _ _ \<Rightarrow> False | ACompleted _ \<Rightarrow> False | _ \<Rightarrow> True)"

definition reply_messages :: "string \<Rightarrow> chat_message list" where
  "reply_messages t = (if t = [] then [] else [\<lparr>cm_role = ChatAssistant, cm_text = t\<rparr>])"

definition exchanged :: "string \<Rightarrow> agent_event list \<Rightarrow> desktop_ui \<Rightarrow> desktop_ui \<Rightarrow> bool" where
  "exchanged i evs u v \<longleftrightarrow>
     chat v i = chat u i @ \<lparr>cm_role = ChatUser, cm_text = dk_draft (ui_state u)\<rparr> # reply_messages (events_text evs)
     \<and> ct_turns (ui_controller v) = [] \<and> \<not> dk_submitting (ui_state v)"

text \<open>Within the turn.\<close>

definition replying :: "nat \<Rightarrow> running_turn \<Rightarrow> agent_event list \<Rightarrow> desktop_ui \<Rightarrow> desktop_ui \<Rightarrow> bool" where
  "replying n t evs u v \<longleftrightarrow>
     ct_turns (ui_controller v) = [(n, t)] \<and> \<not> ct_disposed (ui_controller v) \<and> dk_events (ui_state v) = evs
     \<and> chat v (rn_session t) = chat u (rn_session t) @ [\<lparr>cm_role = ChatUser, cm_text = dk_draft (ui_state u)\<rparr>]"

lemma chat_move: "chat (move i u) = chat u"
  by (simp add: chat_def fun_eq_iff)

lemma replying_event:
  assumes "replying n t evs u v" and "streams e" and "\<not> rn_aborted t"
  shows "replying n t (evs @ [e]) u (ui_step v (ArrivedEvent n e))"
  using assms
  by (cases e) (simp_all add: replying_def streams_def turn_moved_def with_turn_def turn_event_def show_event_def chat_move Let_def)

lemma replying_events:
  "replying n t es u v \<Longrightarrow> list_all streams evs \<Longrightarrow> \<not> rn_aborted t \<Longrightarrow> replying n t (es @ evs) u (ui_run v (map (ArrivedEvent n) evs))"
proof (induction evs arbitrary: es v)
  case (Cons e evs)
  then have "replying n t (es @ [e]) u (ui_step v (ArrivedEvent n e))" by (simp add: replying_event del: ui_step.simps)
  from Cons.IH [OF this] Cons.prems show ?case by (simp add: ui_run_def del: ui_step.simps)
qed (simp add: ui_run_def)

lemma settle_chat: "chat (settle_send i u) i = chat u i @ reply_messages (events_text (dk_events (ui_state u)))"
  by (simp add: settle_send_def reply_messages_def chat_add Let_def)

lemma events_text_simps [simp]: "events_text [] = []" "events_text (evs @ [e]) = events_text evs @ delta_text e"
  by (simp_all add: events_text_def)

lemma replying_ends:
  assumes v: "replying n t evs u v" and t: "\<not> rn_aborted t"
    and x: "x \<in> {ArrivedEvent n (ACompleted r), ArrivedEvent n (AError r c m b), ArrivedEnd n, ArrivedError n a}"
  shows "exchanged (rn_session t) evs u (ui_step v x)"
  using x v t
  by (cases a) (auto simp: replying_def exchanged_def turn_moved_def with_turn_def turn_event_def turn_ended_def turn_thrown_def abort_turn_def close_turn_def
      show_event_def settle_chat chat_move Let_def)

lemma click_replies:
  assumes "single_turn (ui_controller u)" and "\<not> ct_disposed (ui_controller u)" and "controller_ok (ui_controller u)"
    and i: "dk_active (ui_state u) = Some i" "i \<noteq> []" "canSend u"
  shows "replying (ct_next (ui_controller u)) \<lparr>rn_session = i, rn_draft = dk_draft (ui_state u), rn_aborted = False\<rparr> [] u (handleSend u)"
proof -
  have "find_session i (ui_controller u) \<noteq> None"
    using assms(3) i(1) by (auto simp: controller_ok_def active_listed_def find_session_def find_None_iff)
  then obtain c where c: "submit_turn i (ui_controller u) = (Accepted, c)"
    and c_state: "ct_turns c = ct_turns (ui_controller u) @ [(ct_next (ui_controller u), \<lparr>rn_session = i, rn_draft = dk_draft (ui_state u), rn_aborted = False\<rparr>)]"
      "\<not> ct_disposed c" "dk_events (ct_state c) = []"
    using assms(2) by (simp add: submit_turn_def)
  have "ct_turns (ui_controller u) = []"
    using assms(1,2) i(3) by (cases rule: single_turn_cases) (auto simp: canSend_def)
  then show ?thesis
    using i c c_state by (simp add: replying_def handleSend_def Let_def chat_same [of "_ \<lparr>ui_controller := c, ui_requests := _\<rparr>"] chat_add)
qed

text \<open>
  C16: an exchange is recorded as it was.  When the user sends a draft and the turn answers with any events and then ends in any way (completed, with an
  error, without a word, or by an exception), the conversation gets the draft and, when there was any text, the text that was
  received, whole and in order, and nothing else; the turn is closed and the next one can be sent.
\<close>

theorem exchange_is_recorded:
  "case ui_run (new_ui config credentials) ins of u \<Rightarrow>
   case dk_active (ui_state u) of
     None \<Rightarrow> True
   | Some i \<Rightarrow>
       if i \<noteq> [] \<and> canSend u \<and> \<not> ui_unmounted u \<and> list_all streams evs
       then
         (case ct_next (ui_controller u) of n \<Rightarrow>
            list_all (\<lambda>x. exchanged i evs u (ui_run u (ClickSend # map (ArrivedEvent n) evs @ [x])))
              [ArrivedEvent n (ACompleted r), ArrivedEvent n (AError r c m b), ArrivedEnd n, ArrivedError n a])
       else True"
proof -
  let ?u = "ui_run (new_ui config credentials) ins"
  let ?n = "ct_next (ui_controller ?u)"
  have "exchanged i evs ?u (ui_run ?u (ClickSend # map (ArrivedEvent ?n) evs @ [x]))"
    if i: "dk_active (ui_state ?u) = Some i" "i \<noteq> []" "canSend ?u" and mounted: "\<not> ui_unmounted ?u" and evs: "list_all streams evs"
      and x: "x \<in> {ArrivedEvent ?n (ACompleted r), ArrivedEvent ?n (AError r c m b), ArrivedEnd ?n, ArrivedError ?n a}" for i x
  proof -
    let ?t = "\<lparr>rn_session = i, rn_draft = dk_draft (ui_state ?u), rn_aborted = False\<rparr>"
    have "\<not> ct_disposed (ui_controller ?u)" using mounted in_step_run [of config credentials ins] by (simp add: in_step_def)
    from click_replies [OF ui_single_run this run_controller_ok i] have "replying ?n ?t [] ?u (handleSend ?u)" .
    from replying_ends [OF replying_events [OF this evs] _ x] show ?thesis
      by (simp add: ui_run_def del: ui_step.simps(9,10,11))
  qed
  then show ?thesis by (simp split: option.split)
qed

section \<open>Saving\<close>

definition jobs_fresh :: "desktop_ui \<Rightarrow> bool" where
  "jobs_fresh u \<longleftrightarrow> list_all (\<lambda>(k, _). k < ui_next_job u) (ui_jobs u)"

lemma fresh_cong: "ui_jobs u = ui_jobs v \<Longrightarrow> ui_next_job u = ui_next_job v \<Longrightarrow> jobs_fresh u = jobs_fresh v"
  by (simp add: jobs_fresh_def)













lemma start_simps [simp]:
  "ui_next_job (start_job call job u) = ui_next_job u + 1" "ui_calls (start_job call job u) = ui_calls u @ [call]"
  "ui_status (start_job call job u) = ui_status u" "ui_config_error (start_job call job u) = ui_config_error u"
  "ui_edit_provider (start_job call job u) = ui_edit_provider u"
  "ui_next_job (take_job n u) = ui_next_job u" "ui_calls (take_job n u) = ui_calls u" "ui_status (take_job n u) = ui_status u"
  "ui_edit_provider (take_job n u) = ui_edit_provider u"
  by (simp_all add: start_job_def take_job_def)





section \<open>What is not guarded\<close>

definition sample_config :: persisted_config where
  "sample_config =
     \<lparr>pc_providers = [\<lparr>pv_id = ''p'', pv_name = ''P'', pv_protocol = OpenAICompatible, pv_base_url = ''http://h'', pv_credential = None,
        pv_models = [''m''], pv_enabled = True\<rparr>],
      pc_routes = [\<lparr>rt_id = ''r'', rt_name = ''R'', rt_provider = ''p'', rt_model = ''m'', rt_enabled = True, rt_fallbacks = None\<rparr>]\<rparr>"

definition sample_form :: provider_form where
  "sample_form =
     \<lparr>pf_id = ''p'', pf_name = ''P'', pf_protocol = ''openai_compatible'', pf_base_url = ''http://h'', pf_credential = ''credential:p'',
      pf_models = ''m, n'', pf_enabled = True, pf_secret = ''k''\<rparr>"

definition sample_start :: "ui_input list" where
  "sample_start =
     [ClickConnect, ConnectionAnswer True, LoadAnswer 0 (Some sample_config), ClickNewSession, CreatedSession (Some (sample_session ''s1'')),
      DraftInput ''hi'']"

text \<open>A connected interface can send; the exchange is in the conversation.\<close>

lemma sample_exchange:
  "canSend (ui_run (new_ui True True) sample_start)"
  "chat (ui_run (new_ui True True) (sample_start @ [ClickSend, ArrivedEvent 0 (ATextDelta ''q'' ''yo''), ArrivedEvent 0 (ACompleted ''q'')])) ''s1''
     = [\<lparr>cm_role = ChatUser, cm_text = ''hi''\<rparr>, \<lparr>cm_role = ChatAssistant, cm_text = ''yo''\<rparr>]"
  by code_simp+

text \<open>A turn that fails leaves its message in the conversation and gives the draft back: sending it again sends it twice.\<close>

lemma failed_message_is_sent_again:
  "map cm_text (rq_messages (last (ui_requests (ui_run (new_ui True True)
     (sample_start @ [ClickSend, ArrivedEvent 0 (AError ''q'' ''c'' ''m'' True), ClickSend]))))) = [''hi'', ''hi'']"
  by code_simp

text \<open>A save that fails shuts the composer although the configuration shown is still valid; a refresh opens it again.\<close>

lemma failed_save_blocks_sending:
  "let u = ui_run (new_ui True True) (sample_start @ [SubmitProvider sample_form, JobAnswer 1 False])
   in ui_snapshot u = Some sample_config \<and> \<not> canSend u \<and> canSend (ui_run u [ClickRefresh, LoadAnswer 2 (Some sample_config)])"
  by code_simp

text \<open>A turn that was sent while its successor session was being created loses the text it had received when the session arrives.\<close>

lemma created_session_cuts_the_reply:
  "chat (ui_run (new_ui True True)
     (sample_start @ [ClickNewSession, ClickSend, ArrivedEvent 0 (ATextDelta ''q'' ''a''), CreatedSession (Some (sample_session ''s2'')),
        ArrivedEvent 0 (ATextDelta ''q'' ''b''), ArrivedEvent 0 (ACompleted ''q'')])) ''s1''
     = [\<lparr>cm_role = ChatUser, cm_text = ''hi''\<rparr>, \<lparr>cm_role = ChatAssistant, cm_text = ''b''\<rparr>]"
  by code_simp

end
