(* ===== verification/Desktop_Panel.thy ===== *)
theory Desktop_Panel
  imports Desktop_Ui
begin

text \<open>
  The rendering half of \<open>apps/desktop/src/ui.ts\<close>: the HTML text the interface puts into its container, piece by piece as the code appends it.
  A piece is a literal part of a template, or a text that the code escapes first.  In a literal the back quote stands for the double
  quote, and \<open>Uni\<close> is a run of characters outside ASCII, by their code points.  How a browser reads the page is not modelled: the
  property is about the text that is put into the container, its tags and quotes, and the texts that stand between them.
\<close>

section \<open>Escaping\<close>

text \<open>What a browser writes for the text of an element: the serialisation of a text node, with U+00A0 as its two bytes.\<close>

fun inner_html :: "string \<Rightarrow> string" where
  "inner_html [] = []"
| "inner_html (c # cs) =
     (if c = CHR ''&'' then ''&amp;'' @ inner_html cs
      else if c = CHR ''<'' then ''&lt;'' @ inner_html cs
      else if c = CHR ''>'' then ''&gt;'' @ inner_html cs
      else if c = CHR 0xC2 then
        (case cs of
           [] \<Rightarrow> [c]
         | d # ds \<Rightarrow> if d = CHR 0xA0 then ''&nbsp;'' @ inner_html ds else c # inner_html cs)
      else c # inner_html cs)"

definition ui_escapeHtml :: "string \<Rightarrow> string" where
  "ui_escapeHtml t = replace_char (CHR 0x27) ''&#39;'' (replace_char (CHR 0x22) ''&quot;'' (inner_html t))"

section \<open>Pieces\<close>

text \<open>\<open>Txt\<close> and \<open>Att\<close> are an escaped text between tags and within a quoted attribute; \<open>Num\<close> is a number in a template.\<close>

datatype piece = Lit string | Uni "nat list" | Txt string | Att string | Num nat

definition unquote :: "string \<Rightarrow> string" where
  "unquote s = map (\<lambda>c. if c = CHR ''`'' then CHR 0x22 else c) s"

fun piece_text :: "piece \<Rightarrow> string" where
  "piece_text (Lit s) = unquote s"
| "piece_text (Uni us) = concat (map utf8_encode us)"
| "piece_text (Txt t) = ui_escapeHtml t"
| "piece_text (Att t) = ui_escapeHtml t"
| "piece_text (Num n) = num_text (jsnat n)"

definition pieces_text :: "piece list \<Rightarrow> string" where
  "pieces_text ps = concat (map piece_text ps)"

section \<open>The configuration\<close>

definition edited_provider :: "desktop_ui \<Rightarrow> provider_definition option" where
  "edited_provider u = (case ui_snapshot u of None \<Rightarrow> None | Some c \<Rightarrow> find (\<lambda>p. Some (pv_id p) = ui_edit_provider u) (pc_providers c))"

definition edited_route :: "desktop_ui \<Rightarrow> route_definition option" where
  "edited_route u = (case ui_snapshot u of None \<Rightarrow> None | Some c \<Rightarrow> find (\<lambda>r. Some (rt_id r) = ui_edit_route u) (pc_routes c))"

text \<open>\<open>value(provider?.name)\<close>: the text of a field of what is edited, or the empty text.\<close>

definition field_text :: "('a \<Rightarrow> string) \<Rightarrow> 'a option \<Rightarrow> string" where
  "field_text f x = (case x of None \<Rightarrow> [] | Some y \<Rightarrow> f y)"

definition fallbacks_text :: "route_definition \<Rightarrow> string \<Rightarrow> string" where
  "fallbacks_text r d = (case rt_fallbacks r of None \<Rightarrow> d | Some ids \<Rightarrow> join '', '' ids)"

definition renderProviderItem :: "string option \<Rightarrow> provider_definition \<Rightarrow> piece list" where
  "renderProviderItem editing p =
     [Lit ''<article class=`config-item'', if Some (pv_id p) = editing then Lit '' config-item-active'' else Lit [],
      Lit ''`><div class=`config-item-title`><strong>'', Txt (pv_name p), Lit ''</strong><span>'', Txt (pv_id p),
      Lit ''</span></div><div class=`config-item-meta`><span>'', Txt (protocol_name (pv_protocol p)), Lit ''</span><span>'',
      Txt (join '', '' (pv_models p)), Lit ''</span><span>'', if pv_enabled p then Lit ''Enabled'' else Lit ''Disabled'',
      Lit ''</span></div><div class=`config-item-actions`><button type=`button` data-edit-provider=`'', Att (pv_id p),
      Lit ''`>Edit</button><button type=`button` data-delete-provider=`'', Att (pv_id p), Lit ''`>Delete</button></div></article>'']"

definition renderRouteItem :: "string option \<Rightarrow> route_definition \<Rightarrow> piece list" where
  "renderRouteItem editing r =
     [Lit ''<article class=`config-item'', if Some (rt_id r) = editing then Lit '' config-item-active'' else Lit [],
      Lit ''`><div class=`config-item-title`><strong>'', Txt (rt_name r), Lit ''</strong><span>'', Txt (rt_id r),
      Lit ''</span></div><div class=`config-item-meta`><span>'', Txt (rt_provider r), Lit '' / '', Txt (rt_model r), Lit ''</span><span>'',
      Txt (fallbacks_text r ''No fallback''), Lit ''</span><span>'', if rt_enabled r then Lit ''Enabled'' else Lit ''Disabled'',
      Lit ''</span></div><div class=`config-item-actions`><button type=`button` data-edit-route=`'', Att (rt_id r),
      Lit ''`>Edit</button><button type=`button` data-delete-route=`'', Att (rt_id r), Lit ''`>Delete</button></div></article>'']"

definition credential_field :: "piece list" where
  "credential_field =
     [Lit ''<label>API key<input name=`secret` type=`password` autocomplete=`new-password` placeholder=`Enter a key (never stored in config)`></label><p class=`credential-help`>The key is stored in Windows Credential Manager. Leave it blank to keep the existing key.</p>'']"

definition provider_form_head :: "provider_definition option \<Rightarrow> piece list" where
  "provider_form_head x =
     [Lit ''<form class=`provider-form config-form`><h3>'', if x \<noteq> None then Lit ''Edit provider'' else Lit ''Add provider'',
      Lit ''</h3><label>Id<input name=`id` required value=`'', Att (field_text pv_id x),
      Lit ''`></label><label>Name<input name=`name` required value=`'', Att (field_text pv_name x),
      Lit ''`></label><label>Protocol<select name=`protocol`><option value=`openai_compatible`'',
      if case x of None \<Rightarrow> True | Some p \<Rightarrow> pv_protocol p = OpenAICompatible then Lit '' selected'' else Lit [],
      Lit ''>OpenAI compatible</option><option value=`anthropic_messages`'',
      if case x of None \<Rightarrow> False | Some p \<Rightarrow> pv_protocol p = AnthropicMessages then Lit '' selected'' else Lit [],
      Lit ''>Anthropic Messages</option></select></label><label>Base URL<input name=`baseUrl` required value=`'', Att (field_text pv_base_url x),
      Lit ''`></label><label>Credential reference<input name=`credentialRef` placeholder=`credential:example` value=`'',
      Att (field_text (\<lambda>p. case pv_credential p of None \<Rightarrow> [] | Some ref \<Rightarrow> ref) x), Lit ''`></label>'']"

definition provider_form_foot :: "provider_definition option \<Rightarrow> piece list" where
  "provider_form_foot x =
     [Lit ''<label>Models<input name=`models` required placeholder=`model-a, model-b` value=`'',
      Att (field_text (\<lambda>p. join '', '' (pv_models p)) x),
      Lit ''`></label><label class=`config-checkbox`><input type=`checkbox` name=`enabled`'',
      if case x of None \<Rightarrow> True | Some p \<Rightarrow> pv_enabled p then Lit '' checked'' else Lit [],
      Lit ''> Enabled</label><button type=`submit`>'', if x \<noteq> None then Lit ''Save provider'' else Lit ''Add provider'',
      Lit ''</button></form>'']"

definition renderProviderForm :: "desktop_ui \<Rightarrow> piece list" where
  "renderProviderForm u =
     provider_form_head (edited_provider u) @ (if ui_credentials u then credential_field else []) @ provider_form_foot (edited_provider u)"

definition route_form_pieces :: "route_definition option \<Rightarrow> piece list" where
  "route_form_pieces x =
     [Lit ''<form class=`route-form config-form`><h3>'', if x \<noteq> None then Lit ''Edit route'' else Lit ''Add route'',
      Lit ''</h3><label>Id<input name=`id` required value=`'', Att (field_text rt_id x),
      Lit ''`></label><label>Name<input name=`name` required value=`'', Att (field_text rt_name x),
      Lit ''`></label><label>Provider id<input name=`providerId` required value=`'', Att (field_text rt_provider x),
      Lit ''`></label><label>Model<input name=`model` required value=`'', Att (field_text rt_model x),
      Lit ''`></label><label>Fallback provider ids<input name=`fallbackProviderIds` placeholder=`provider-b, provider-c` value=`'',
      Att (field_text (\<lambda>r. fallbacks_text r []) x),
      Lit ''`></label><label class=`config-checkbox`><input type=`checkbox` name=`enabled`'',
      if case x of None \<Rightarrow> True | Some r \<Rightarrow> rt_enabled r then Lit '' checked'' else Lit [],
      Lit ''> Enabled</label><button type=`submit`>'', if x \<noteq> None then Lit ''Save route'' else Lit ''Add route'',
      Lit ''</button></form>'']"

definition renderRouteForm :: "desktop_ui \<Rightarrow> piece list" where
  "renderRouteForm u =
     route_form_pieces (edited_route u)"

definition panel_head :: "piece list" where
  "panel_head =
     [Lit ''<section class=`config-panel` aria-label=`Configuration`>'',
      Lit ''<div class=`config-panel-header`><div><h2>Configuration</h2><p>Providers and routes</p></div>'',
      Lit ''<button type=`button` class=`config-refresh`>Refresh</button></div>'']"

definition panel_status :: "desktop_ui \<Rightarrow> piece list" where
  "panel_status u =
     (case ui_status u of
        ConfigLoading \<Rightarrow> [Lit ''<div class=`config-status`>Loading configuration...</div>'']
      | ConfigFailed \<Rightarrow>
          [Lit ''<div class=`config-status config-error`>'',
           Txt (case ui_config_error u of None \<Rightarrow> ''Configuration unavailable.'' | Some e \<Rightarrow> e), Lit ''</div>'']
      | _ \<Rightarrow> [])"

definition snapshot_providers :: "desktop_ui \<Rightarrow> provider_definition list" where
  "snapshot_providers u =
     (case ui_snapshot u of None \<Rightarrow> [] | Some c \<Rightarrow> pc_providers c)"

definition snapshot_routes :: "desktop_ui \<Rightarrow> route_definition list" where
  "snapshot_routes u =
     (case ui_snapshot u of None \<Rightarrow> [] | Some c \<Rightarrow> pc_routes c)"

definition panel_counts :: "nat \<Rightarrow> nat \<Rightarrow> piece list" where
  "panel_counts p r =
     [Lit ''<div class=`config-summary`>'', Lit ''<div class=`config-count`><strong>'', Num p, Lit ''</strong><span>Providers</span></div>'',
      Lit ''<div class=`config-count`><strong>'', Num r, Lit ''</strong><span>Routes</span></div>'', Lit ''</div>'',
      Lit ''<div class=`config-lists`>'', Lit ''<div class=`config-list`><h3>Providers</h3>'']"

definition renderConfigPanel :: "desktop_ui \<Rightarrow> piece list" where
  "renderConfigPanel u =
     panel_head @ panel_status u @ panel_counts (length (snapshot_providers u)) (length (snapshot_routes u))
       @ (if snapshot_providers u = [] then [Lit ''<p class=`config-empty`>No providers configured.</p>''] else [])
       @ concat (map (renderProviderItem (ui_edit_provider u)) (snapshot_providers u))
       @ [Lit ''</div><div class=`config-list`><h3>Routes</h3>'']
       @ (if snapshot_routes u = [] then [Lit ''<p class=`config-empty`>No routes configured.</p>''] else [])
       @ concat (map (renderRouteItem (ui_edit_route u)) (snapshot_routes u))
       @ [Lit ''</div></div>''] @ renderProviderForm u @ renderRouteForm u @ [Lit ''</section>'']"

section \<open>The conversation\<close>

text \<open>\<open>t.slice(0, n)\<close> counts UTF-16 units: a character of four bytes is two units, and half of it is a lone surrogate.\<close>

fun slice_units :: "nat \<Rightarrow> string \<Rightarrow> string" where
  "slice_units 0 _ = []"
| "slice_units (Suc n) [] = []"
| "slice_units (Suc n) (c # cs) =
     (let b = of_char c :: nat in
      if b < 192 then c # slice_units n cs
      else if b < 224 then c # take 1 cs @ slice_units n (drop 1 cs)
      else if b < 240 then c # take 2 cs @ slice_units n (drop 2 cs)
      else
        (case n of
           0 \<Rightarrow>
             (let rest = map (\<lambda>d. of_char d mod 64 :: nat) (take 3 cs);
                  u = foldl (\<lambda>a d. a * 64 + d) (b mod 8) rest in
              utf8_encode (55296 + (u - 65536) div 1024))
         | Suc m \<Rightarrow> c # take 3 cs @ slice_units m (drop 3 cs)))"

definition session_title :: "desktop_ui \<Rightarrow> string \<Rightarrow> piece" where
  "session_title u i =
     (case find (\<lambda>m. cm_role m = ChatUser) (chat u i) of
        None \<Rightarrow> Uni [26032, 23545, 35805]
      | Some m \<Rightarrow> Txt (slice_units 36 (cm_text m)))"

definition session_entry :: "desktop_ui \<Rightarrow> desktop_session \<Rightarrow> piece list" where
  "session_entry u s =
     [Lit ''<li><button class=`session-item'', if dk_active (ui_state u) = Some (ds_id s) then Lit '' active'' else Lit [],
      Lit ''` data-session-id=`'', Att (ds_id s), Lit ''`'', if dk_submitting (ui_state u) then Lit '' disabled'' else Lit [],
      Lit ''><span class=`session-title`>'', session_title u (ds_id s), Lit ''</span><span class=`session-id`>'', Txt (slice_units 8 (ds_id s)),
      Lit ''</span></button></li>'']"

definition sidebar_head :: "desktop_ui \<Rightarrow> piece list" where
  "sidebar_head u =
     [Lit ''<aside class=`product-sidebar`><div class=`product-brand`><span class=`brand-mark`>R</span><strong>Routebench</strong><span class=`edition`>LOCAL</span></div>'',
      Lit ''<button class=`new-session-btn`'', if ui_creating u \<or> dk_submitting (ui_state u) then Lit '' disabled'' else Lit [], Lit ''>'',
      Uni [65291], Lit '' '']
       @ (if ui_creating u then [Lit ''Creating'', Uni [8230]] else [Lit ''New Session''])
       @ [Lit ''</button><div class=`workspace-label`>'', Uni [26412, 22320, 24037, 20316, 21306], Lit '' <span>'', Uni [20250, 35805],
          Lit ''</span></div>'', Lit ''<ul class=`session-list`>'']"

definition sidebar_foot :: "piece list" where
  "sidebar_foot =
     [Lit ''</ul><div class=`sidebar-bottom`><button class=`settings-toggle` type=`button`>'', Uni [9881], Lit '' '',
      Uni [35774, 32622, 19982, 27169, 22411], Lit ''</button><div class=`connection-status`><span class=`status-dot`></span>Connected <span>'',
      Uni [26412, 22320, 26381, 21153],
      Lit ''</span></div></div></aside><main class=`session-section chat-main`><header class=`chat-header`><div><span class=`eyebrow`>AGENT WORKSPACE</span><h1>'',
      Uni [19968, 36215, 25226, 24819, 27861, 21464, 25104, 34892, 21160], Lit ''</h1></div><span class=`local-badge`>'',
      Uni [26412, 22320, 36816, 34892], Lit ''</span></header>'', Lit ''<div class=`chat-transcript` aria-live=`polite`>'']"

definition empty_chat :: "piece list" where
  "empty_chat =
     [Lit ''<div class=`chat-empty`><div class=`empty-mark`>'', Uni [8599], Lit ''</div><h2>'',
      Uni [20170, 22825, 24819, 23436, 25104, 20160, 20040, 65311], Lit ''</h2><p>'',
      Uni [36873, 25321, 19968, 26465, 27169, 22411, 36335, 30001, 65292, 24320, 22987, 19968, 27573, 19987, 27880, 30340, 23545, 35805, 12290],
      Lit ''</p><div class=`starter-tags`><span>'', Uni [26803, 29702, 24605, 36335], Lit ''</span><span>'', Uni [35299, 37322, 20195, 30721],
      Lit ''</span><span>'', Uni [36215, 33609, 26041, 26696], Lit ''</span></div></div>'']"

definition message_pieces :: "chat_message \<Rightarrow> piece list" where
  "message_pieces m =
     (case cm_role m of
        ChatUser \<Rightarrow>
          [Lit ''<article class=`chat-message user`><div class=`message-author`>'', Uni [20320], Lit ''</div><div class=`message-text`>'',
           Txt (cm_text m), Lit ''</div></article>'']
      | ChatAssistant \<Rightarrow>
          [Lit ''<article class=`chat-message assistant`><div class=`message-author`>Routebench</div><div class=`message-text streaming-text`>'',
           Txt (cm_text m), Lit ''</div></article>''])"

definition streaming_pieces :: "string \<Rightarrow> piece list" where
  "streaming_pieces t =
     [Lit ''<article class=`chat-message assistant streaming-events`><div class=`message-author`>Routebench</div><div class=`streaming-text message-text`>'',
      Txt (t), Lit ''</div></article>'']"

definition working_pieces :: "piece list" where
  "working_pieces =
     [Lit ''<div class=`working-indicator` role=`status`>'', Uni [27491, 22312, 31561, 24453, 27169, 22411, 21709, 24212, 8230], Lit ''</div>'']"

definition transcript_pieces :: "desktop_ui \<Rightarrow> piece list" where
  "transcript_pieces u =
     (let s = ui_state u;
          history = chat u (case dk_active s of None \<Rightarrow> [] | Some i \<Rightarrow> i);
          t = events_text (dk_events s) in
      (if history = [] \<and> dk_events s = [] then empty_chat else [])
        @ concat (map message_pieces history)
        @ (if t \<noteq> [] \<and> dk_submitting s then streaming_pieces t else [])
        @ (if dk_submitting s \<and> t = [] then working_pieces else [])
        @ [Lit ''</div>''])"

definition route_option :: "string option \<Rightarrow> route_definition \<Rightarrow> piece list" where
  "route_option current r =
     [Lit ''<option value=`'', Att (rt_id r), Lit ''`'', if current = Some (rt_id r) then Lit '' selected'' else Lit [], Lit ''>'',
      Txt (rt_name r), Lit '' '', Uni [183], Lit '' '', Txt (rt_model r), Lit ''</option>'']"

definition route_picker :: "desktop_ui \<Rightarrow> piece list" where
  "route_picker u =
     [Lit ''<label class=`route-picker`>'', Uni [27169, 22411, 36335, 30001], Lit '' <select class=`route-select` aria-label=`'',
      Uni [27169, 22411, 36335, 30001], Lit ''`>'']
       @ (if currentRoute u = None then [Lit ''<option value=``>'', Uni [23578, 26410, 37197, 32622, 36335, 30001], Lit ''</option>''] else [])
       @ concat (map (route_option (map_option rt_id (currentRoute u))) (ui_routes u))
       @ [Lit ''</select></label>'']
       @ (if currentRoute u = None
          then [Lit ''<p class=`setup-hint`>'', Uni [35831, 20808, 22312, 35774, 32622, 20013, 28155, 21152], Lit '' Provider '',
               Uni [21644, 36335, 30001, 65292, 20877, 21457, 36865, 28040, 24687, 12290], Lit ''</p>''] else [])"

definition composer_pieces :: "desktop_ui \<Rightarrow> piece list" where
  "composer_pieces u =
     [Lit ''<div class=`composer-box`><textarea class=`draft-input` aria-label=`'', Uni [28040, 24687], Lit ''` placeholder=`Enter message...`'',
      if dk_submitting (ui_state u) then Lit '' disabled'' else Lit [], Lit ''>'', Txt (dk_draft (ui_state u)),
      Lit ''</textarea><div class=`composer-actions`><span>Enter '', Uni [21457, 36865], Lit '' '', Uni [183], Lit '' Shift+Enter '',
      Uni [25442, 34892], Lit ''</span>'']
       @ (if dk_submitting (ui_state u) then [Lit ''<button class=`cancel-btn`>Cancel</button>'']
          else [Lit ''<button class=`send-btn`'', if canSend u then Lit [] else Lit '' disabled'', Lit ''>Send</button>''])
       @ [Lit ''</div></div></div>'']"

definition draft_pieces :: "desktop_ui \<Rightarrow> piece list" where
  "draft_pieces u =
     (case dk_active (ui_state u) of
        None \<Rightarrow> []
      | Some i \<Rightarrow>
          if i = [] then []
          else [Lit ''<div class=`draft-section`>''] @ (if ui_config u then route_picker u else []) @ composer_pieces u)"

definition renderSessionSection :: "desktop_ui \<Rightarrow> piece list" where
  "renderSessionSection u =
     sidebar_head u @ concat (map (session_entry u) (dk_sessions (ui_state u))) @ sidebar_foot @ transcript_pieces u @ draft_pieces u
       @ [Lit ''</main>'']"

section \<open>The page\<close>

definition error_pieces :: "desktop_ui \<Rightarrow> piece list" where
  "error_pieces u =
     (case dk_error (ui_state u) of
        None \<Rightarrow> []
      | Some e \<Rightarrow> if e = [] then [] else [Lit ''<div class=`error product-error` role=`alert`>'', Txt (e), Lit ''</div>''])"

definition welcome_pieces :: "piece list" where
  "welcome_pieces =
     [Lit ''<main class=`welcome`><div class=`brand-mark`>R</div><h1>Agent Routebench</h1><p>'', Uni [20320, 30340, 26412, 22320],
      Lit '' Agent '', Uni [24037, 20316, 21488], Lit ''</p><button class=`connect-btn primary-button`>Connect</button><p class=`muted`>'',
      Uni [36830, 25509, 26412, 26426, 26381, 21153, 65292, 24320, 22987, 26032, 30340, 23545, 35805, 12290], Lit ''</p></main>'']"

definition settings_pieces :: "desktop_ui \<Rightarrow> piece list" where
  "settings_pieces u =
     [Lit ''<div class=`settings-overlay`'', if ui_settings u then Lit [] else Lit '' hidden'',
      Lit ''><div class=`settings-sheet`><button class=`settings-close` type=`button`>'', Uni [36820, 22238, 23545, 35805], Lit '' '', Uni [215],
      Lit ''</button>'']
       @ renderConfigPanel u @ [Lit ''</div></div>'']"

definition renderHtml :: "desktop_ui \<Rightarrow> piece list" where
  "renderHtml u =
     [Lit ''<div class=`desktop-ui product-shell`>''] @ error_pieces u
       @ (case dk_connection (ui_state u) of
            DesktopIdle \<Rightarrow> welcome_pieces
          | DesktopFailed \<Rightarrow> welcome_pieces
          | DesktopLoading \<Rightarrow> [Lit ''<button class=`connect-btn` disabled>Connecting...</button>'']
          | DesktopReady \<Rightarrow> renderSessionSection u @ (if ui_config u then settings_pieces u else []))
       @ [Lit ''</div>'']"

text \<open>What is in the container between two inputs; unmounting empties it.\<close>

definition ui_page :: "desktop_ui \<Rightarrow> string" where
  "ui_page u = (if ui_unmounted u then [] else pieces_text (renderHtml u))"

section \<open>Escaped text in the page\<close>

lemma utf8_high: "128 \<le> u \<Longrightarrow> u < 65536 \<Longrightarrow> c \<in> set (utf8_encode u) \<Longrightarrow> 128 \<le> (of_char c :: nat)"
  by (auto simp: utf8_encode_def split: if_splits)

lemma utf8_marks: "list_all (\<lambda>u. 128 \<le> u \<and> u < 65536) us \<Longrightarrow> marks (concat (map utf8_encode us)) = []"
proof (induction us)
  case (Cons u us)
  have "\<not> markup c" if "c \<in> set (utf8_encode u)" for c
  proof -
    have "128 \<le> (of_char c :: nat)" using Cons.prems that utf8_high [of u c] by simp
    then show ?thesis by (auto simp: markup_def)
  qed
  then have "marks (utf8_encode u) = []" by (simp add: no_marks list_all_iff)
  with Cons show ?case by simp
qed simp

lemma replace_char_simps:
  "replace_char c r [] = []" "replace_char c r (x # t) = (if x = c then r else [x]) @ replace_char c r t"
  by (simp_all add: replace_char_def)

text \<open>One character is escaped, or the two bytes of U+00A0 are.\<close>

lemma ui_escape_step:
  "ui_escapeHtml [] = []"
  "c \<noteq> CHR 0xC2 \<Longrightarrow> ui_escapeHtml (c # cs) = html_char c @ ui_escapeHtml cs"
  "ui_escapeHtml (CHR 0xC2 # CHR 0xA0 # ds) = ''&nbsp;'' @ ui_escapeHtml ds"
  "cs = [] \<or> hd cs \<noteq> CHR 0xA0 \<Longrightarrow> ui_escapeHtml (CHR 0xC2 # cs) = CHR 0xC2 # ui_escapeHtml cs"
proof -
  show "ui_escapeHtml [] = []" by (simp add: ui_escapeHtml_def replace_char_simps)
  show "c \<noteq> CHR 0xC2 \<Longrightarrow> ui_escapeHtml (c # cs) = html_char c @ ui_escapeHtml cs"
    by (simp add: ui_escapeHtml_def replace_char_simps html_char_def)
  show "ui_escapeHtml (CHR 0xC2 # CHR 0xA0 # ds) = ''&nbsp;'' @ ui_escapeHtml ds"
    by (simp add: ui_escapeHtml_def replace_char_simps)
  show "cs = [] \<or> hd cs \<noteq> CHR 0xA0 \<Longrightarrow> ui_escapeHtml (CHR 0xC2 # cs) = CHR 0xC2 # ui_escapeHtml cs"
    by (cases cs) (simp_all add: ui_escapeHtml_def replace_char_simps)
qed

lemma ui_escape_induct [case_names Nil Char Space Byte]:
  assumes "P []" and "\<And>c cs. c \<noteq> CHR 0xC2 \<Longrightarrow> P cs \<Longrightarrow> P (c # cs)"
    and "\<And>ds. P ds \<Longrightarrow> P (CHR 0xC2 # CHR 0xA0 # ds)"
    and "\<And>cs. cs = [] \<or> hd cs \<noteq> CHR 0xA0 \<Longrightarrow> P cs \<Longrightarrow> P (CHR 0xC2 # cs)"
  shows "P t"
proof (induction t rule: length_induct)
  case (1 t)
  show ?case
  proof (cases t)
    case (Cons c cs)
    with 1 have cs: "P cs" by simp
    show ?thesis
    proof (cases "c = CHR 0xC2")
      case True
      show ?thesis
      proof (cases "cs = [] \<or> hd cs \<noteq> CHR 0xA0")
        case False
        then obtain ds where ds: "cs = CHR 0xA0 # ds" by (cases cs) auto
        with 1 Cons have "P ds" by simp
        then show ?thesis using assms(3) Cons True ds by simp
      qed (use assms(4) cs Cons True in simp)
    qed (use assms(2) cs Cons in simp)
  qed (use assms(1) in simp)
qed

lemma ui_escaped_marks: "marks (ui_escapeHtml t) = []"
proof (induction t rule: ui_escape_induct)
  case (Char c cs)
  have "marks (html_char c) = []" by (simp add: html_char_def markup_def)
  with Char show ?case by (simp add: ui_escape_step)
qed (simp_all add: ui_escape_step markup_def)

lemma unescape_ui_escaped: "unescape None (ui_escapeHtml t) = t"
proof (induction t rule: ui_escape_induct)
  case (Char c cs)
  then show ?case by (simp add: ui_escape_step unescape_char)
qed (simp_all add: ui_escape_step named_char_def)

section \<open>Where the texts stand\<close>

text \<open>The tags and quotes of the literal parts, and the texts that a list of pieces shows between tags and in attributes.\<close>

fun literal_marks :: "piece \<Rightarrow> string" where
  "literal_marks (Lit s) = marks (unquote s)"
| "literal_marks _ = []"

definition all_marks :: "piece list \<Rightarrow> string" where "all_marks ps = concat (map literal_marks ps)"

fun text_of :: "piece \<Rightarrow> string list" where
  "text_of (Txt t) = [t]"
| "text_of _ = []"

definition shown_texts :: "piece list \<Rightarrow> string list" where "shown_texts ps = concat (map text_of ps)"

fun attribute_of :: "piece \<Rightarrow> string list" where
  "attribute_of (Att t) = [t]"
| "attribute_of _ = []"

definition attributes :: "piece list \<Rightarrow> string list" where "attributes ps = concat (map attribute_of ps)"

text \<open>
  Every text stands between tags: the last tag or quote character before it ends a tag, and the next one begins a tag.  \<open>m\<close> is the last one
  so far.
\<close>

fun between_tags :: "string \<Rightarrow> piece list \<Rightarrow> bool" where
  "between_tags m [] = True"
| "between_tags m (p # ps) =
     ((case p of Txt _ \<Rightarrow> m = ''>'' \<and> take 1 (all_marks ps) = ''<'' | _ \<Rightarrow> True)
      \<and> between_tags (if literal_marks p = [] then m else [last (literal_marks p)]) ps)"

text \<open>Every attribute stands directly between a literal that opens its quotes and one that closes them.\<close>

fun in_quotes :: "piece list \<Rightarrow> bool" where
  "in_quotes [] = True"
| "in_quotes (Lit s # Att t # Lit r # ps) =
     (drop (length s - 2) (unquote s) = [CHR ''='', CHR 0x22] \<and> take 1 (unquote r) = [CHR 0x22] \<and> in_quotes (Lit r # ps))"
| "in_quotes (Att t # ps) = False"
| "in_quotes (p # ps) = in_quotes ps"

text \<open>Tags and quotes pair up: a tag ends before the next one begins, and within a tag each quote that is opened is closed.\<close>

datatype place = Outside | Inside | Quoted

fun mark_step :: "place option \<Rightarrow> char \<Rightarrow> place option" where
  "mark_step (Some Outside) c = (if c = CHR ''<'' then Some Inside else None)"
| "mark_step (Some Inside) c = (if c = CHR ''>'' then Some Outside else if c = CHR 0x22 then Some Quoted else None)"
| "mark_step (Some Quoted) c = (if c = CHR 0x22 then Some Inside else None)"
| "mark_step None c = None"

definition tags_pair :: "string \<Rightarrow> bool" where "tags_pair ms \<longleftrightarrow> foldl mark_step (Some Outside) ms = Some Outside"

text \<open>The characters outside ASCII in a template are given by code points that make them so.\<close>

fun outside_ascii :: "piece \<Rightarrow> bool" where
  "outside_ascii (Uni us) = list_all (\<lambda>u. 128 \<le> u \<and> u < 65536) us"
| "outside_ascii _ = True"

definition well_placed :: "piece list \<Rightarrow> bool" where
  "well_placed ps \<longleftrightarrow> between_tags [] ps \<and> in_quotes ps \<and> tags_pair (all_marks ps) \<and> list_all outside_ascii ps"

lemma piece_marks: "outside_ascii p \<Longrightarrow> marks (piece_text p) = literal_marks p"
  by (cases p) (simp_all add: ui_escaped_marks number_marks utf8_marks del: marks_eqs(4))

lemma pieces_marks: "list_all outside_ascii ps \<Longrightarrow> marks (pieces_text ps) = all_marks ps"
  by (induction ps) (simp_all add: pieces_text_def all_marks_def piece_marks del: marks_eqs(4))

lemma all_marks_append [simp]: "all_marks (ps @ qs) = all_marks ps @ all_marks qs"
  by (simp add: all_marks_def)

lemma between_from_start: "between_tags [] ps \<Longrightarrow> between_tags m ps"
proof (induction ps)
  case (Cons p ps)
  then show ?case by (cases "literal_marks p = []") (auto split: piece.splits)
qed simp

lemma between_append: "between_tags m ps \<Longrightarrow> between_tags [] qs \<Longrightarrow> between_tags m (ps @ qs)"
proof (induction ps arbitrary: m)
  case Nil
  then show ?case by (simp add: between_from_start)
next
  case (Cons p ps)
  have "take 1 (all_marks ps) = ''<'' \<Longrightarrow> take 1 (all_marks ps @ all_marks qs) = ''<''" by (cases "all_marks ps") auto
  with Cons show ?case by (auto split: piece.splits)
qed

lemma in_quotes_append: "in_quotes ps \<Longrightarrow> in_quotes qs \<Longrightarrow> in_quotes (ps @ qs)"
  by (induction ps rule: in_quotes.induct) (auto elim: in_quotes.elims)

lemma placed_append: "well_placed ps \<Longrightarrow> well_placed qs \<Longrightarrow> well_placed (ps @ qs)"
  by (simp add: well_placed_def between_append in_quotes_append tags_pair_def)

lemma placed_Nil: "well_placed []"
  by (simp add: well_placed_def tags_pair_def all_marks_def)

lemma placed_concat: "(\<And>x. well_placed (f x)) \<Longrightarrow> well_placed (concat (map f xs))"
  by (induction xs) (simp_all add: placed_Nil placed_append)

lemmas placed_eval = well_placed_def unquote_def all_marks_def markup_def tags_pair_def

lemma placed_items: "well_placed (renderProviderItem e p)" "well_placed (renderRouteItem e r)"
  by (simp_all add: renderProviderItem_def renderRouteItem_def placed_eval)

lemma placed_fixed: "well_placed credential_field" "well_placed panel_head" "well_placed (panel_counts p r)" "well_placed sidebar_foot" "well_placed empty_chat" "well_placed working_pieces"
  "well_placed welcome_pieces"
  by (simp_all add: credential_field_def panel_head_def panel_counts_def sidebar_foot_def empty_chat_def working_pieces_def welcome_pieces_def
      placed_eval)

lemma placed_forms: "well_placed (provider_form_head x)" "well_placed (provider_form_foot x)" "well_placed (route_form_pieces y)"
  by (simp_all add: provider_form_head_def provider_form_foot_def route_form_pieces_def placed_eval)

lemma placed_provider_form: "well_placed (renderProviderForm u)"
  by (simp add: renderProviderForm_def placed_append placed_forms placed_fixed placed_Nil)

lemma placed_parts: "well_placed (panel_status u)" "well_placed (message_pieces m)" "well_placed (streaming_pieces t)" "well_placed (route_option o' r)" "well_placed (error_pieces u)"
  by (simp_all add: panel_status_def message_pieces_def streaming_pieces_def route_option_def error_pieces_def placed_eval
      split: config_status.split chat_role.split option.split)

text \<open>The title of a session is a text of the state or fixed; both may stand where the entry has it.\<close>

lemma title_cases: "(\<exists>t. session_title u i = Txt t) \<or> session_title u i = Uni [26032, 23545, 35805]"
  by (simp add: session_title_def split: option.split)

lemma placed_entry: "well_placed (session_entry u s)"
  using title_cases [of u "ds_id s"] by (elim disjE exE) (simp_all add: session_entry_def placed_eval)

lemma placed_panel: "well_placed (renderConfigPanel u)"
proof -
  have lits: "well_placed [Lit ''<p class=`config-empty`>No providers configured.</p>'']" "well_placed [Lit ''</div><div class=`config-list`><h3>Routes</h3>'']"
    "well_placed [Lit ''<p class=`config-empty`>No routes configured.</p>'']" "well_placed [Lit ''</div></div>'']" "well_placed [Lit ''</section>'']"
    by (simp_all add: placed_eval)
  show ?thesis
    unfolding renderConfigPanel_def renderRouteForm_def
    by (intro placed_append placed_concat placed_items placed_fixed placed_parts placed_forms placed_provider_form lits) (simp_all add: lits placed_Nil)
qed

lemma placed_sidebar: "well_placed (sidebar_head u)"
  by (cases "ui_creating u"; cases "dk_submitting (ui_state u)") (simp_all add: sidebar_head_def placed_eval)

lemma placed_transcript: "well_placed (transcript_pieces u)"
proof -
  have "well_placed [Lit ''</div>'']" by (simp add: placed_eval)
  then show ?thesis
    unfolding transcript_pieces_def Let_def
    by (intro placed_append placed_concat placed_parts) (simp_all add: placed_fixed placed_parts placed_Nil)
qed

lemma placed_picker: "well_placed (route_picker u)"
proof -
  have lits: "well_placed [Lit ''<label class=`route-picker`>'', Uni [27169, 22411, 36335, 30001], Lit '' <select class=`route-select` aria-label=`'',
      Uni [27169, 22411, 36335, 30001], Lit ''`>'']"
    "well_placed [Lit ''<option value=``>'', Uni [23578, 26410, 37197, 32622, 36335, 30001], Lit ''</option>'']" "well_placed [Lit ''</select></label>'']"
    "well_placed [Lit ''<p class=`setup-hint`>'', Uni [35831, 20808, 22312, 35774, 32622, 20013, 28155, 21152], Lit '' Provider '',
      Uni [21644, 36335, 30001, 65292, 20877, 21457, 36865, 28040, 24687, 12290], Lit ''</p>'']"
    by (simp_all add: placed_eval)
  show ?thesis
    unfolding route_picker_def by (intro placed_append placed_concat placed_parts lits) (simp_all only: lits placed_Nil simp_thms split: if_split)
qed

lemma placed_composer: "well_placed (composer_pieces u)"
  by (cases "dk_submitting (ui_state u)") (simp_all add: composer_pieces_def placed_eval)

lemma placed_draft: "well_placed (draft_pieces u)"
proof -
  have "well_placed [Lit ''<div class=`draft-section`>'']" by (simp add: placed_eval)
  then show ?thesis
    by (auto simp: draft_pieces_def placed_Nil simp del: append_Cons append_Nil intro!: placed_append placed_picker placed_composer split: option.split)
qed

lemma placed_settings: "well_placed (settings_pieces u)"
proof -
  have "well_placed [Lit ''<div class=`settings-overlay`'', if ui_settings u then Lit [] else Lit '' hidden'',
      Lit ''><div class=`settings-sheet`><button class=`settings-close` type=`button`>'', Uni [36820, 22238, 23545, 35805], Lit '' '', Uni [215],
      Lit ''</button>'']" "well_placed [Lit ''</div></div>'']"
    by (simp_all add: placed_eval)
  then show ?thesis unfolding settings_pieces_def by (intro placed_append placed_panel)
qed

lemma placed_page: "well_placed (renderHtml u)"
proof -
  have lits: "well_placed [Lit ''<div class=`desktop-ui product-shell`>'']" "well_placed [Lit ''<button class=`connect-btn` disabled>Connecting...</button>'']"
    "well_placed [Lit ''</main>'']" "well_placed [Lit ''</div>'']"
    by (simp_all add: placed_eval)
  have session: "well_placed (renderSessionSection u)"
    unfolding renderSessionSection_def by (intro placed_append placed_concat placed_sidebar placed_entry placed_fixed placed_transcript placed_draft lits)
  have "well_placed (case dk_connection (ui_state u) of DesktopIdle \<Rightarrow> welcome_pieces | DesktopFailed \<Rightarrow> welcome_pieces
      | DesktopLoading \<Rightarrow> [Lit ''<button class=`connect-btn` disabled>Connecting...</button>'']
      | DesktopReady \<Rightarrow> renderSessionSection u @ (if ui_config u then settings_pieces u else []))"
    by (cases "dk_connection (ui_state u)") (simp_all only: desktop_connection.case placed_fixed lits, auto intro!: placed_append session placed_settings placed_Nil)
  then show ?thesis unfolding renderHtml_def by (intro placed_append placed_parts lits)
qed

section \<open>What the page shows\<close>

definition conversation_shown :: "desktop_ui \<Rightarrow> bool" where
  "conversation_shown u \<longleftrightarrow>
     (case (dk_connection (ui_state u), dk_active (ui_state u)) of
        (DesktopReady, Some i) \<Rightarrow>
          (\<exists>xs ys. shown_texts (renderHtml u) = xs @ map cm_text (chat u i) @ ys)
          \<and> (if i = [] then True else dk_draft (ui_state u) \<in> set (shown_texts (renderHtml u)))
      | _ \<Rightarrow> True)"

definition sessions_shown :: "desktop_ui \<Rightarrow> bool" where
  "sessions_shown u \<longleftrightarrow>
     (if dk_connection (ui_state u) = DesktopReady
      then \<exists>xs ys. attributes (renderHtml u) = xs @ map ds_id (dk_sessions (ui_state u)) @ ys else True)"

definition error_shown :: "desktop_ui \<Rightarrow> bool" where
  "error_shown u \<longleftrightarrow>
     (case dk_error (ui_state u) of None \<Rightarrow> True | Some e \<Rightarrow> if e = [] then True else e \<in> set (shown_texts (renderHtml u)))"

lemma texts_simps [simp]:
  "shown_texts [] = []" "shown_texts (p # ps) = text_of p @ shown_texts ps" "shown_texts (xs @ ys) = shown_texts xs @ shown_texts ys"
  by (simp_all add: shown_texts_def)

lemma attributes_simps [simp]:
  "attributes [] = []" "attributes (p # ps) = attribute_of p @ attributes ps" "attributes (xs @ ys) = attributes xs @ attributes ys"
  by (simp_all add: attributes_def)

lemma texts_messages: "shown_texts (concat (map message_pieces ms)) = map cm_text ms"
  by (induction ms) (simp_all add: message_pieces_def split: chat_role.split)

lemma attributes_sessions: "attributes (concat (map (session_entry u) ss)) = map ds_id ss"
proof (induction ss)
  case (Cons s ss)
  have "attributes (session_entry u s) = [ds_id s]"
    using title_cases [of u "ds_id s"] by (elim disjE exE) (simp_all add: session_entry_def)
  with Cons show ?case by simp
qed simp

lemma attributes_error: "attributes (error_pieces u) = []"
  by (simp add: error_pieces_def split: option.split)

lemma attributes_head: "attributes (sidebar_head u) = []"
  by (simp add: sidebar_head_def)

lemma error_is_shown: "error_shown u"
  by (simp add: error_shown_def renderHtml_def error_pieces_def split: option.split)

lemma sessions_are_shown: "sessions_shown u"
proof (cases "dk_connection (ui_state u) = DesktopReady")
  case True
  let ?rest = "sidebar_foot @ transcript_pieces u @ draft_pieces u @ [Lit ''</main>''] @ (if ui_config u then settings_pieces u else [])
    @ [Lit ''</div>'']"
  have "attributes (renderHtml u) = [] @ map ds_id (dk_sessions (ui_state u)) @ attributes ?rest"
    by (simp add: renderHtml_def renderSessionSection_def True attributes_error attributes_head attributes_sessions)
  then show ?thesis unfolding sessions_shown_def using True by metis
qed (simp add: sessions_shown_def)

lemma conversation_is_shown: "conversation_shown u"
proof (cases "dk_connection (ui_state u) = DesktopReady")
  case True
  show ?thesis
  proof (cases "dk_active (ui_state u)")
    case (Some i)
    let ?before = "[Lit ''<div class=`desktop-ui product-shell`>''] @ error_pieces u @ sidebar_head u
      @ concat (map (session_entry u) (dk_sessions (ui_state u))) @ sidebar_foot
      @ (if chat u i = [] \<and> dk_events (ui_state u) = [] then empty_chat else [])"
    let ?t = "events_text (dk_events (ui_state u))"
    let ?after = "(if ?t \<noteq> [] \<and> dk_submitting (ui_state u) then streaming_pieces ?t else [])
      @ (if dk_submitting (ui_state u) \<and> ?t = [] then working_pieces else []) @ [Lit ''</div>'']
      @ draft_pieces u @ [Lit ''</main>''] @ (if ui_config u then settings_pieces u else []) @ [Lit ''</div>'']"
    have page: "renderHtml u = ?before @ concat (map message_pieces (chat u i)) @ ?after"
      by (simp add: renderHtml_def renderSessionSection_def transcript_pieces_def Let_def True Some)
    have "shown_texts (renderHtml u) = shown_texts ?before @ map cm_text (chat u i) @ shown_texts ?after"
      unfolding page by (simp only: texts_simps(3) texts_messages)
    then have chat: "\<exists>xs ys. shown_texts (renderHtml u) = xs @ map cm_text (chat u i) @ ys" by blast
    have "dk_draft (ui_state u) \<in> set (shown_texts (draft_pieces u))" if "i \<noteq> []"
      using that Some by (simp add: draft_pieces_def composer_pieces_def)
    then have "if i = [] then True else dk_draft (ui_state u) \<in> set (shown_texts (renderHtml u))"
      unfolding page by (simp only: texts_simps(3) set_append Un_iff) simp
    with chat show ?thesis by (simp add: conversation_shown_def True Some)
  qed (simp add: conversation_shown_def True)
qed (simp add: conversation_shown_def split: desktop_connection.split)

text \<open>
  C23: the page of the interface holds the texts of the state as texts.  In every state, reached or not, the tags and quotes of the page are
  those of its templates, in their order, and pair up: no message, draft, error, name of a session, provider or route adds one.  Each text stands between the end
  of one tag and the begin of another, each attribute directly between the quotes of its template; the escaping loses nothing, so different
  texts are written differently.  The error, all messages of the conversation in their order, the draft and the ids of the sessions are
  there.  What a browser makes of this text is outside the model; of a draft that begins with a line break an HTML parser drops that line break.
\<close>

theorem ui_page_shows_texts:
  "if ui_unmounted u then ui_page u = []
   else
     marks (ui_page u) = all_marks (renderHtml u) \<and> tags_pair (marks (ui_page u))
     \<and> between_tags [] (renderHtml u) \<and> in_quotes (renderHtml u)
     \<and> (ui_escapeHtml s = ui_escapeHtml t \<longleftrightarrow> s = t)
     \<and> error_shown u \<and> conversation_shown u \<and> sessions_shown u"
proof -
  have well_placed: "between_tags [] (renderHtml u)" "in_quotes (renderHtml u)" "list_all outside_ascii (renderHtml u)"
    "tags_pair (all_marks (renderHtml u))"
    using placed_page [of u] by (simp_all add: well_placed_def)
  have "ui_escapeHtml s = ui_escapeHtml t \<longleftrightarrow> s = t" using unescape_ui_escaped by metis
  with well_placed pieces_marks [OF well_placed(3)] error_is_shown conversation_is_shown sessions_are_shown show ?thesis
    by (simp add: ui_page_def)
qed

end
