(* ===== verification/Desktop_Entry.thy ===== *)
theory Desktop_Entry
  imports Desktop_Panel
begin

text \<open>
  The entry points of the desktop: \<open>browser-entry.ts\<close>, \<open>tauri-entry.ts\<close>, and \<open>local-api-client.ts\<close>, the client of the loopback API in the shape
  the controller uses.  The element with the name \<open>app\<close> and the clients the host has put on the global object are inputs.
\<close>

section \<open>The loopback client\<close>

definition loopback_load :: "'w api_client \<Rightarrow> 'w \<Rightarrow> (client_error + unit) \<times> 'w" where
  "loopback_load C w = (case call_health C None w of (r, w') \<Rightarrow> (rbind r (\<lambda>_. Inr ()), w'))"

definition loopback_create_session :: "'w api_client \<Rightarrow> 'w \<Rightarrow> (client_error + jsval) \<times> 'w" where
  "loopback_create_session C w = call_create_session C None w"

definition loopback_submit_turn ::
  "'w api_client \<Rightarrow> string \<Rightarrow> jsval \<Rightarrow> signal \<Rightarrow> 'w \<Rightarrow> (agent_event list \<times> client_failure option) \<times> 'w"
where
  "loopback_submit_turn C i request sg w = runTurn C (JStr i) request (Some sg) w"

definition loopback_cancel_turn :: "'w api_client \<Rightarrow> string \<Rightarrow> string \<Rightarrow> 'w \<Rightarrow> (client_failure + unit) \<times> 'w" where
  "loopback_cancel_turn C i turn_id w = (case call_cancel C (JStr i) None w of (r, w') \<Rightarrow> (rbind r (\<lambda>_. Inr ()), w'))"

section \<open>Mounting\<close>

definition mountDesktopUi :: "jsval \<Rightarrow> jsval \<Rightarrow> jsval \<Rightarrow> jsval \<Rightarrow> string + desktop_ui" where
  "mountDesktopUi container client config credential =
     rbind (mount_checks container client config credential) (\<lambda>_. Inr (new_ui (config \<noteq> JUndef) (credential \<noteq> JUndef)))"

definition isDesktopApiClient :: "jsval \<Rightarrow> bool" where
  "isDesktopApiClient v \<longleftrightarrow>
     is_object v \<and> list_all (\<lambda>m. field v m = JFun) [''load'', ''createSession'', ''submitTurn'', ''cancelTurn'']"

definition isDesktopConfigApiClient :: "jsval \<Rightarrow> bool" where
  "isDesktopConfigApiClient v \<longleftrightarrow> is_object v \<and> list_all (\<lambda>m. field v m = JFun) config_client_methods"

definition bootstrapDesktopUi :: "jsval \<Rightarrow> jsval \<Rightarrow> jsval \<Rightarrow> string + desktop_ui" where
  "bootstrapDesktopUi container client config = mountDesktopUi container client config JUndef"

definition bootstrapDesktopUiFromDocument :: "jsval \<Rightarrow> jsval \<Rightarrow> jsval \<Rightarrow> string + desktop_ui option" where
  "bootstrapDesktopUiFromDocument container client config =
     (if \<not> truthy container \<or> \<not> isDesktopApiClient client then Inr None
      else rbind (bootstrapDesktopUi container client (if isDesktopConfigApiClient config then config else JUndef)) (\<lambda>u. Inr (Some u)))"

text \<open>What the factories of the three clients give back: objects with the methods of their interface.\<close>

definition methods_object :: "string list \<Rightarrow> jsval" where
  "methods_object names = JObj (map (\<lambda>m. (m, JFun)) names)"

definition client_methods :: "string list" where
  "client_methods = [''load'', ''createSession'', ''submitTurn'', ''cancelTurn'']"

definition bootstrapTauriDesktopUi :: "jsval \<Rightarrow> jsval \<Rightarrow> jsval \<Rightarrow> string + desktop_ui option" where
  "bootstrapTauriDesktopUi container invoke listen =
     (if \<not> truthy container then Inr None
      else
        (let options = JObj [(''invoke'', invoke), (''listen'', listen)];
             failed = (\<lambda>e. Inl (desktop_message e)) in
         case assertBridgeOptions options of
           Inl e \<Rightarrow> failed e
         | Inr _ \<Rightarrow>
             (case assertConfigClientOptions options of
                Inl e \<Rightarrow> failed e
              | Inr _ \<Rightarrow>
                  rbind (mountDesktopUi container (methods_object client_methods) (methods_object config_client_methods)
                           (methods_object [''set'', ''has'', ''delete'']))
                    (\<lambda>u. Inr (Some u)))))"

section \<open>What is mounted\<close>

text \<open>In a browser nothing the host has left out can make the page throw: it is not mounted, or mounted without the configuration.\<close>

lemma document_never_throws:
  "bootstrapDesktopUiFromDocument container client config =
     Inr (if truthy container \<and> isDesktopApiClient client then Some (new_ui (isConfigClient config) False) else None)"
proof -
  have client: "truthy client" if "isDesktopApiClient client" using that by (cases client) (auto simp: isDesktopApiClient_def)
  have config: "config \<noteq> JUndef" if "isConfigClient config" using that by (auto simp: isConfigClient_def)
  show ?thesis
    using client config
    by (auto simp: bootstrapDesktopUiFromDocument_def bootstrapDesktopUi_def mountDesktopUi_def mount_checks_def isDesktopConfigApiClient_def
        isConfigClient_def)
qed

text \<open>With the bridge of the host the native page is mounted with everything; without it nothing is, and the error is the fixed one.\<close>

lemma native_mount:
  "truthy container \<Longrightarrow>
     bootstrapTauriDesktopUi container invoke listen =
       (if invoke = JFun \<and> listen = JFun then Inr (Some (new_ui True True)) else Inl (desktop_message DesktopConnectionFailed))"
  by (simp add: bootstrapTauriDesktopUi_def assertBridgeOptions_def assertConfigClientOptions_def bridge_method_def mountDesktopUi_def mount_checks_def
      methods_object_def client_methods_def config_client_methods_def isConfigClient_def isCredentialClient_def Let_def)

end
