(* ===== verification/Build_Desktop.thy ===== *)
theory Build_Desktop
  imports Prelude
begin

text \<open>
  \<open>scripts/build-desktop.mjs\<close>: the build of the desktop as processes that share one directory.  A process is at one of the calls of \<open>main\<close>; an
  event lets it make that call, at a time of the clock, and says whether the outside world (the compiler, the file system) lets it succeed.
  What is in a directory is the list of the parts that have been written into it; the directory \<open>dist\<close>, the staging directory, the
  directories that are being retired and the lock are what the processes share.  The fingerprint of the inputs is a parameter.
\<close>

section \<open>What the processes share\<close>

datatype build_part = Renderer | VendorPackages | TauriApi | ImportsRewritten | IndexPage | StaticAssets | BuildStamp string

record build_files =
  bf_dist :: "build_part list option"
  bf_staging :: "build_part list option"
  bf_retired :: "(nat \<times> build_part list) list"
  bf_lock :: "nat option"

definition lock_timeout_ms :: nat where "lock_timeout_ms = 5 * 60 * 1000"
definition stale_lock_ms :: nat where "stale_lock_ms = 10 * 60 * 1000"

datatype build_outcome = UpToDate | Built | BuildFailed

text \<open>Where a process stands; the numbers are when it began to wait for the lock and the number in the name of what it retires.\<close>

datatype build_pc =
    AtSweep
  | AtCheck
  | AtLock nat
  | AtStat nat
  | AtBreak nat
  | AtWipe
  | AtCompile
  | AtVendor
  | AtTauri
  | AtRewrite
  | AtIndex
  | AtAssets
  | AtStamp
  | AtSwapOut
  | AtSwapIn nat
  | AtRetire nat
  | AtLastSweep
  | AtRelease build_outcome
  | Finished build_outcome

section \<open>Steps\<close>

text \<open>\<open>cleanupStaleOutputs\<close>: every staging and retiring directory goes, whosever it is.\<close>

definition cleanupStaleOutputs :: "build_files \<Rightarrow> build_files" where
  "cleanupStaleOutputs f = f\<lparr>bf_staging := None, bf_retired := []\<rparr>"

definition up_to_date :: "string \<Rightarrow> build_files \<Rightarrow> bool" where
  "up_to_date fp f \<longleftrightarrow> (case bf_dist f of None \<Rightarrow> False | Some ps \<Rightarrow> BuildStamp fp \<in> set ps)"

text \<open>Writing into the staging directory: some writers make the directory, the others throw when it is not there.\<close>

definition staged :: "build_files \<Rightarrow> build_part list" where
  "staged f = (case bf_staging f of None \<Rightarrow> [] | Some ps \<Rightarrow> ps)"

definition put_part :: "build_part \<Rightarrow> build_pc \<Rightarrow> bool \<Rightarrow> build_files \<Rightarrow> build_pc \<times> build_files" where
  "put_part x next_pc ok f =
     (if ok then (next_pc, f\<lparr>bf_staging := Some (staged f @ [x])\<rparr>) else (AtRelease BuildFailed, f))"

definition put_existing :: "build_part \<Rightarrow> build_pc \<Rightarrow> bool \<Rightarrow> build_files \<Rightarrow> build_pc \<times> build_files" where
  "put_existing x next_pc ok f = put_part x next_pc (ok \<and> bf_staging f \<noteq> None) f"

text \<open>One turn of the loop of \<open>acquireBuildLock\<close> is up to three calls.\<close>

definition try_lock :: "nat \<Rightarrow> bool \<Rightarrow> nat \<Rightarrow> build_files \<Rightarrow> build_pc \<times> build_files" where
  "try_lock now ok since f =
     (if \<not> ok then (Finished BuildFailed, f)
      else if bf_lock f = None then (AtWipe, f\<lparr>bf_lock := Some now\<rparr>)
      else (AtStat since, f))"

definition stat_lock :: "nat \<Rightarrow> nat \<Rightarrow> build_files \<Rightarrow> build_pc \<times> build_files" where
  "stat_lock now since f =
     (case bf_lock f of
        None \<Rightarrow> (AtLock since, f)
      | Some m \<Rightarrow>
          if stale_lock_ms < now - m then (AtBreak since, f)
          else if lock_timeout_ms < now - since then (Finished BuildFailed, f)
          else (AtLock since, f))"

text \<open>\<open>swapStagingIntoDist\<close>: two renames; the second throws when there is no staging directory or a \<open>dist\<close> in its way.\<close>

definition swap_out :: "nat \<Rightarrow> bool \<Rightarrow> build_files \<Rightarrow> build_pc \<times> build_files" where
  "swap_out now ok f =
     (case bf_dist f of
        None \<Rightarrow> (AtSwapIn now, f)
      | Some ps \<Rightarrow>
          if ok then (AtSwapIn now, f\<lparr>bf_dist := None, bf_retired := (now, ps) # bf_retired f\<rparr>) else (AtRelease BuildFailed, f))"

definition swap_in :: "nat \<Rightarrow> bool \<Rightarrow> build_files \<Rightarrow> build_pc \<times> build_files" where
  "swap_in k ok f =
     (if ok \<and> bf_staging f \<noteq> None \<and> bf_dist f = None
      then (AtRetire k, f\<lparr>bf_dist := bf_staging f, bf_staging := None\<rparr>)
      else (AtRelease BuildFailed, f))"

fun advance :: "string \<Rightarrow> nat \<Rightarrow> bool \<Rightarrow> build_pc \<Rightarrow> build_files \<Rightarrow> build_pc \<times> build_files" where
  "advance fp now ok AtSweep f = (AtCheck, cleanupStaleOutputs f)"
| "advance fp now ok AtCheck f = (if \<not> ok then Finished BuildFailed else if up_to_date fp f then Finished UpToDate else AtLock now, f)"
| "advance fp now ok (AtLock since) f = try_lock now ok since f"
| "advance fp now ok (AtStat since) f = stat_lock now since f"
| "advance fp now ok (AtBreak since) f = (AtLock since, if ok then f\<lparr>bf_lock := None\<rparr> else f)"
| "advance fp now ok AtWipe f = (if ok then (AtCompile, f\<lparr>bf_staging := None\<rparr>) else (AtRelease BuildFailed, f))"
| "advance fp now ok AtCompile f = put_part Renderer AtVendor ok f"
| "advance fp now ok AtVendor f = put_part VendorPackages AtTauri ok f"
| "advance fp now ok AtTauri f = put_part TauriApi AtRewrite ok f"
| "advance fp now ok AtRewrite f = put_existing ImportsRewritten AtIndex ok f"
| "advance fp now ok AtIndex f = put_existing IndexPage AtAssets ok f"
| "advance fp now ok AtAssets f = put_part StaticAssets AtStamp ok f"
| "advance fp now ok AtStamp f = put_existing (BuildStamp fp) AtSwapOut ok f"
| "advance fp now ok AtSwapOut f = swap_out now ok f"
| "advance fp now ok (AtSwapIn k) f = swap_in k ok f"
| "advance fp now ok (AtRetire k) f = (AtLastSweep, f\<lparr>bf_retired := filter (\<lambda>(n, _). n \<noteq> k) (bf_retired f)\<rparr>)"
| "advance fp now ok AtLastSweep f = (AtRelease Built, cleanupStaleOutputs f)"
| "advance fp now ok (AtRelease out) f = (Finished out, f\<lparr>bf_lock := None\<rparr>)"
| "advance fp now ok (Finished out) f = (Finished out, f)"

record build_world =
  bw_files :: build_files
  bw_procs :: "(nat \<times> build_pc) list"

datatype build_event = Launch nat | Advance nat nat bool

fun build_step :: "string \<Rightarrow> build_world \<Rightarrow> build_event \<Rightarrow> build_world" where
  "build_step fp w (Launch p) = (if map_of (bw_procs w) p = None then w\<lparr>bw_procs := bw_procs w @ [(p, AtSweep)]\<rparr> else w)"
| "build_step fp w (Advance p now ok) =
     (case map_of (bw_procs w) p of
        None \<Rightarrow> w
      | Some pc \<Rightarrow>
          (case advance fp now ok pc (bw_files w) of
             (pc', f) \<Rightarrow> w\<lparr>bw_files := f, bw_procs := map (\<lambda>(q, k). (q, if q = p then pc' else k)) (bw_procs w)\<rparr>))"

definition build_run :: "string \<Rightarrow> build_files \<Rightarrow> build_event list \<Rightarrow> build_world" where
  "build_run fp f evs = foldl (build_step fp) \<lparr>bw_files = f, bw_procs = []\<rparr> evs"

section \<open>One build at a time\<close>

text \<open>The calls between taking the lock and giving it back.\<close>

fun building :: "build_pc \<Rightarrow> bool" where
  "building AtSweep = False"
| "building AtCheck = False"
| "building (AtLock _) = False"
| "building (AtStat _) = False"
| "building (AtBreak _) = False"
| "building (Finished _) = False"
| "building _ = True"

definition builders :: "build_world \<Rightarrow> (nat \<times> build_pc) list" where
  "builders w = filter (\<lambda>(_, pc). building pc) (bw_procs w)"


definition complete_build :: "string \<Rightarrow> build_part list" where
  "complete_build fp = [Renderer, VendorPackages, TauriApi, ImportsRewritten, IndexPage, StaticAssets, BuildStamp fp]"








text \<open>
  Between the two renames, and past the second: a builder there has put its directory in place.  \<open>renames_succeed\<close> says that no second
  rename of a run fails.
\<close>

fun at_swap_in :: "build_pc \<Rightarrow> bool" where
  "at_swap_in (AtSwapIn _) = True"
| "at_swap_in _ = False"







section \<open>All interleavings\<close>

lemmas advance_defs = put_part_def put_existing_def try_lock_def stat_lock_def swap_out_def swap_in_def cleanupStaleOutputs_def staged_def




text \<open>One process among the others.\<close>

definition others :: "nat \<Rightarrow> build_world \<Rightarrow> (nat \<times> build_pc) list" where
  "others p w = filter (\<lambda>(q, _). q \<noteq> p) (builders w)"







lemma waiting_not_swapping: "\<not> building pc \<Longrightarrow> \<not> at_swap_in pc"
  by (cases pc) simp_all








section \<open>A build alone\<close>

definition build_alone :: "string \<Rightarrow> build_files \<Rightarrow> nat list \<Rightarrow> build_world" where
  "build_alone fp f ts = build_run fp f (Launch 0 # map (\<lambda>t. Advance 0 t True) ts)"

lemma solo_step:
  "build_step fp \<lparr>bw_files = f, bw_procs = [(0, pc)]\<rparr> (Advance 0 t b) =
     \<lparr>bw_files = snd (advance fp t b pc f), bw_procs = [(0, fst (advance fp t b pc f))]\<rparr>"
  by (simp add: case_prod_beta)

definition solo :: "string \<Rightarrow> build_pc \<times> build_files \<Rightarrow> nat list \<Rightarrow> build_pc \<times> build_files" where
  "solo fp = foldl (\<lambda>(pc, f) t. advance fp t True pc f)"

lemma solo_run:
  "foldl (build_step fp) \<lparr>bw_files = f, bw_procs = [(0, pc)]\<rparr> (map (\<lambda>t. Advance 0 t True) ts) =
     \<lparr>bw_files = snd (solo fp (pc, f) ts), bw_procs = [(0, fst (solo fp (pc, f) ts))]\<rparr>"
  by (induction ts arbitrary: pc f) (simp_all add: solo_def solo_step case_prod_beta del: build_step.simps)

lemma solo_Cons: "solo fp (pc, f) (t # ts) = solo fp (advance fp t True pc f) ts"
  by (simp add: solo_def)

lemma solo_finished: "solo fp (Finished out, f) ts = (Finished out, f)"
  by (induction ts) (simp_all add: solo_def)

text \<open>
  A build that is alone ends and leaves a complete directory.  From any state of the directories in which the lock is free, a process whose
  calls succeed ends after sixteen of them; what \<open>dist\<close> then holds is complete and has the stamp of the inputs, or had this stamp
  before; nothing transient and no lock is left.
\<close>

theorem build_alone_completes:
  "if bf_lock f = None \<and> length ts = 16
   then
     bw_procs (build_alone fp f ts) = [(0, Finished (if up_to_date fp f then UpToDate else Built))]
     \<and> bw_files (build_alone fp f ts) =
         \<lparr>bf_dist = (if up_to_date fp f then bf_dist f else Some (complete_build fp)), bf_staging = None, bf_retired = [], bf_lock = None\<rparr>
   else True"
proof (cases "bf_lock f = None \<and> length ts = 16")
  case True
  then obtain t1 t2 t3 t4 t5 t6 t7 t8 t9 t10 t11 t12 t13 t14 t15 t16 where
    ts: "ts = [t1, t2, t3, t4, t5, t6, t7, t8, t9, t10, t11, t12, t13, t14, t15, t16]"
    by (auto simp: length_Suc_conv numeral_eq_Suc)
  have up: "up_to_date fp (f\<lparr>bf_staging := None, bf_retired := []\<rparr>) = up_to_date fp f" by (simp add: up_to_date_def)
  have "solo fp (AtSweep, f) ts =
      (Finished (if up_to_date fp f then UpToDate else Built),
       \<lparr>bf_dist = (if up_to_date fp f then bf_dist f else Some (complete_build fp)), bf_staging = None, bf_retired = [], bf_lock = None\<rparr>)"
  proof (cases "up_to_date fp f")
    case ready: True
    with True show ?thesis
      by (cases f) (simp add: ts solo_Cons solo_finished cleanupStaleOutputs_def up_to_date_def)
  next
    case False
    with True show ?thesis
      by (cases f; cases "bf_dist f") (simp_all add: ts solo_Cons advance_defs up_to_date_def complete_build_def, simp_all add: solo_def)
  qed
  then show ?thesis by (simp add: build_alone_def build_run_def solo_run)
qed auto

section \<open>What is not guarded\<close>

definition free_files :: build_files where
  "free_files = \<lparr>bf_dist = None, bf_staging = None, bf_retired = [], bf_lock = None\<rparr>"

definition calls_of :: "nat \<Rightarrow> nat \<Rightarrow> build_event list" where
  "calls_of p n = replicate n (Advance p 0 True)"

text \<open>
  The sweep at the start does not wait for the lock: a second build that starts when the first has compiled takes its staging directory away, the
  first goes on into a new one, and what it ships has no renderer, but the stamp of an up-to-date build, so that no later build repairs it.
\<close>

lemma late_sweep_ships_a_torso:
  "let w = build_run ''fp'' free_files (Launch 0 # calls_of 0 5 @ [Launch 1, Advance 1 0 True] @ calls_of 0 11 @ [Launch 2] @ calls_of 2 2) in
   bf_dist (bw_files w) = Some [VendorPackages, TauriApi, ImportsRewritten, IndexPage, StaticAssets, BuildStamp ''fp'']
   \<and> map_of (bw_procs w) 0 = Some (Finished Built) \<and> map_of (bw_procs w) 2 = Some (Finished UpToDate)"
  by code_simp

text \<open>Between the two renames there is no \<open>dist\<close>; when the second fails, there is none afterwards either, although there was one before.\<close>

lemma dist_is_missing_in_the_swap:
  "let f = free_files\<lparr>bf_dist := Some [Renderer, BuildStamp ''old'']\<rparr> in
   bf_dist (bw_files (build_run ''fp'' f (Launch 0 # calls_of 0 12))) = None
   \<and> bf_dist (bw_files (build_run ''fp'' f (Launch 0 # calls_of 0 12 @ [Advance 0 0 False, Advance 0 0 True]))) = None"
  by code_simp

text \<open>Two processes that find the same lock stale: the second removes the lock the first has just taken, and both build.\<close>

lemma stale_lock_taken_twice:
  "let f = free_files\<lparr>bf_lock := Some 0\<rparr>; late = (\<lambda>p. Advance p (stale_lock_ms + 1) True) in
   length (builders (build_run ''fp'' f
     ([Launch 0, Launch 1] @ map late [0, 0, 0, 0, 1, 1, 1, 1, 0, 0, 1, 1]))) = 2"
  by code_simp

end
