(* ===== verification/Js_Number.thy ===== *)
theory Js_Number
  imports Json_Text
begin

text \<open>
  \<open>Number(text)\<close> of the language, which the command lines use to read a number.
\<close>

text \<open>\<open>Number(text)\<close>: white space is trimmed, the empty text is zero, and the three radix prefixes take digits only.\<close>

definition js_decimal :: "string \<Rightarrow> rat option" where
  "js_decimal s =
     (let ds = takeWhile is_digit s; r = dropWhile is_digit s;
          (fs, r2) = (case r of
              c # cs \<Rightarrow> if c = CHR ''.'' then (takeWhile is_digit cs, dropWhile is_digit cs) else ([], r)
            | [] \<Rightarrow> ([], []))
      in if ds = [] \<and> fs = [] then None
         else
           (case r2 of
              [] \<Rightarrow> Some (of_int (digits_val (ds @ fs)) * ten_pow (- int (length fs)))
            | c # cs \<Rightarrow>
                if c = CHR ''e'' \<or> c = CHR ''E'' then
                  map_option (\<lambda>e. of_int (digits_val (ds @ fs)) * ten_pow (e - int (length fs))) (json_exponent cs)
                else None))"

definition radix_number :: "nat \<Rightarrow> string \<Rightarrow> jsnum" where
  "radix_number b s =
     (if s = [] \<or> list_ex (\<lambda>c. case hex_val c of None \<Rightarrow> True | Some d \<Rightarrow> b \<le> d) s then NaN
      else js_round (of_nat (fold (\<lambda>c v. v * b + the (hex_val c)) s 0)))"

definition js_number :: "string \<Rightarrow> jsnum" where
  "js_number s =
     (let t = js_trim s;
          signed = (\<lambda>u. case u of
              c # cs \<Rightarrow> if c = CHR ''-'' then (True, cs) else if c = CHR ''+'' then (False, cs) else (False, u)
            | [] \<Rightarrow> (False, u))
      in if t = [] then Fin 0
         else if take 2 t \<in> {''0x'', ''0X''} then radix_number 16 (drop 2 t)
         else if take 2 t \<in> {''0o'', ''0O''} then radix_number 8 (drop 2 t)
         else if take 2 t \<in> {''0b'', ''0B''} then radix_number 2 (drop 2 t)
         else
           (case signed t of (neg, u) \<Rightarrow>
              if u = ''Infinity'' then (if neg then NInf else PInf)
              else
                (case js_decimal u of
                   None \<Rightarrow> NaN
                 | Some q \<Rightarrow> js_round (if neg then - q else q))))"

end
