(* ===== verification/Cli.thy ===== *)
theory Cli
  imports Js_Number Client_Calls
begin

text \<open>
  \<open>apps/cli/src\<close>: the command line, the commands over the client of the local API, and the exit codes.  The URL parser and \<open>fetch\<close> are
  parameters.
\<close>

section \<open>Errors\<close>

datatype cli_error =
    CliInvalidArguments
  | CliInvalidBaseUrl
  | CliApiUnavailable
  | CliApiHttpError
  | CliApiProtocolError
  | CliStreamTooLarge
  | CliAborted

fun cli_code :: "cli_error \<Rightarrow> string" where
  "cli_code CliInvalidArguments = ''invalid_arguments''"
| "cli_code CliInvalidBaseUrl = ''invalid_base_url''"
| "cli_code CliApiUnavailable = ''api_unavailable''"
| "cli_code CliApiHttpError = ''api_http_error''"
| "cli_code CliApiProtocolError = ''api_protocol_error''"
| "cli_code CliStreamTooLarge = ''stream_too_large''"
| "cli_code CliAborted = ''aborted''"

fun cli_message :: "cli_error \<Rightarrow> string" where
  "cli_message CliInvalidArguments = ''CLI arguments are invalid.''"
| "cli_message CliInvalidBaseUrl = ''Local API URL is invalid.''"
| "cli_message CliApiUnavailable = ''Local Agent API is unavailable.''"
| "cli_message CliApiHttpError = ''Local Agent API request failed.''"
| "cli_message CliApiProtocolError = ''Local Agent API returned invalid data.''"
| "cli_message CliStreamTooLarge = ''Local Agent API response is too large.''"
| "cli_message CliAborted = ''Operation aborted.''"

section \<open>Arguments\<close>

definition sensitive_params :: "string list" where
  "sensitive_params =
     [''--api-key'', ''--apikey'', ''--token'', ''--secret'', ''--password'', ''--authorization'', ''--headers'', ''--credential'',
      ''--credential-ref'']"

definition default_base_url :: string where "default_base_url = ''http://127.0.0.1:4317''"

definition validateBaseUrl :: "(string \<Rightarrow> loopback_url option) \<Rightarrow> string \<Rightarrow> cli_error + unit" where
  "validateBaseUrl parse url =
     (case parse url of
        None \<Rightarrow> Inl CliInvalidBaseUrl
      | Some parsed \<Rightarrow>
          if lu_protocol parsed \<noteq> ''http:'' then Inl CliInvalidBaseUrl
          else if lu_hostname parsed \<noteq> ''127.0.0.1'' \<and> lu_hostname parsed \<noteq> ''localhost'' then Inl CliInvalidBaseUrl
          else if lu_username parsed \<noteq> [] \<or> lu_password parsed \<noteq> [] then Inl CliInvalidBaseUrl
          else if lu_search parsed \<noteq> [] \<or> lu_hash parsed \<noteq> [] then Inl CliInvalidBaseUrl
          else if list_ex (\<lambda>w. includes_text w (to_lower url)) [''token'', ''secret'', ''apikey'', ''authorization'']
            then Inl CliInvalidBaseUrl
          else Inr ())"

datatype cli_command = CliHelp | CliVersion | CliHealth | CliSessionCreate | CliSessionShow | CliSessionEvents | CliRun | CliCancel

record cli_args =
  ci_command :: cli_command
  ci_session :: "string option"
  ci_message :: "string option"
  ci_route :: "string option"
  ci_model :: "string option"
  ci_max_tokens :: "jsnum option"
  ci_base :: string
  ci_json :: bool

text \<open>
  \<open>consumeFlag\<close> and \<open>consumeBooleanFlag\<close>: the first occurrence is taken out.  The set \<open>seenFlags\<close> never stops anything, as no flag is asked
  for twice.
\<close>

definition consumeFlag :: "string \<Rightarrow> string list \<Rightarrow> cli_error + (string option \<times> string list)" where
  "consumeFlag flag args =
     (case dropWhile (\<lambda>a. a \<noteq> flag) args of
        [] \<Rightarrow> Inr (None, args)
      | [_] \<Rightarrow> Inl CliInvalidArguments
      | _ # v # rest \<Rightarrow> Inr (Some v, takeWhile (\<lambda>a. a \<noteq> flag) args @ rest))"

definition consumeBooleanFlag :: "string \<Rightarrow> string list \<Rightarrow> bool \<times> string list" where
  "consumeBooleanFlag flag args = (if flag \<in> set args then (True, remove1 flag args) else (False, args))"

definition plain_args :: "cli_command \<Rightarrow> string \<Rightarrow> bool \<Rightarrow> cli_args" where
  "plain_args c base json =
     \<lparr>ci_command = c, ci_session = None, ci_message = None, ci_route = None, ci_model = None, ci_max_tokens = None,
      ci_base = base, ci_json = json\<rparr>"

definition read_max_tokens :: "string option \<Rightarrow> cli_error + jsnum option" where
  "read_max_tokens s =
     (case s of
        None \<Rightarrow> Inr None
      | Some t \<Rightarrow>
          let n = js_number t in
          if \<not> is_integer n \<or> num_le n (Fin 0) then Inl CliInvalidArguments else Inr (Some n))"

text \<open>The part of \<open>parseArgs\<close> after the options: the words that are left.\<close>

definition session_args :: "cli_command \<Rightarrow> string list \<Rightarrow> string \<Rightarrow> bool \<Rightarrow> cli_error + cli_args" where
  "session_args c words base json =
     (case words of
        [i] \<Rightarrow> Inr ((plain_args c base json)\<lparr>ci_session := Some i\<rparr>)
      | _ \<Rightarrow> Inl CliInvalidArguments)"

definition command_args ::
  "string list \<Rightarrow> string \<Rightarrow> bool \<Rightarrow> string option \<Rightarrow> string option \<Rightarrow> string option \<Rightarrow> jsnum option \<Rightarrow> cli_error + cli_args"
where
  "command_args words base json msg route mdl tokens =
     (case words of
        [] \<Rightarrow> Inl CliInvalidArguments
      | command # args \<Rightarrow>
          if command = ''health'' then (if args \<noteq> [] then Inl CliInvalidArguments else Inr (plain_args CliHealth base json))
          else if command = ''session'' then
            (case args of
               [] \<Rightarrow> Inl CliInvalidArguments
             | sub # rest \<Rightarrow>
                 if sub = ''create'' then
                   (if rest \<noteq> [] then Inl CliInvalidArguments else Inr (plain_args CliSessionCreate base json))
                 else if sub = ''show'' then session_args CliSessionShow rest base json
                 else if sub = ''events'' then session_args CliSessionEvents rest base json
                 else Inl CliInvalidArguments)
          else if command = ''run'' then
            rbind (session_args CliRun args base json) (\<lambda>p.
            if msg = None \<or> msg = Some [] then Inl CliInvalidArguments
            else Inr (p\<lparr>ci_message := msg, ci_route := route, ci_model := mdl, ci_max_tokens := tokens\<rparr>))
          else if command = ''cancel'' then session_args CliCancel args base json
          else Inl CliInvalidArguments)"

definition parseArgs :: "(string \<Rightarrow> loopback_url option) \<Rightarrow> string list \<Rightarrow> cli_error + cli_args" where
  "parseArgs parse argv =
     (if list_ex (\<lambda>a. a \<in> set sensitive_params) argv then Inl CliInvalidArguments
      else if fst (consumeBooleanFlag ''--help'' argv) then Inr (plain_args CliHelp default_base_url False)
      else if fst (consumeBooleanFlag ''--version'' argv) then Inr (plain_args CliVersion default_base_url False)
      else
        rbind (consumeFlag ''--base-url'' argv) (\<lambda>(given, args1).
        rbind (case given of None \<Rightarrow> Inr default_base_url | Some u \<Rightarrow> rbind (validateBaseUrl parse u) (\<lambda>_. Inr u)) (\<lambda>base.
        case consumeBooleanFlag ''--json'' args1 of (json, args2) \<Rightarrow>
        rbind (consumeFlag ''--message'' args2) (\<lambda>(msg, args3).
        rbind (consumeFlag ''--route-id'' args3) (\<lambda>(route, args4).
        rbind (consumeFlag ''--model'' args4) (\<lambda>(mdl, args5).
        rbind (consumeFlag ''--max-tokens'' args5) (\<lambda>(tokens, args6).
        rbind (read_max_tokens tokens) (\<lambda>limit.
        command_args args6 base json msg route mdl limit))))))))"

section \<open>Commands\<close>

datatype cli_output = Stdout string | Stderr string

datatype cli_thrown = CliThrew cli_error | ClientThrew client_failure

definition help_text :: string where
  "help_text = concat (map (\<lambda>l. l @ [CHR 0x0A])
     [''agent-workbench CLI'', '''', ''Usage:'', ''  agent-workbench <command> [options]'', '''', ''Commands:'',
      ''  help                      Show this help message'',
      ''  version                   Show version'',
      ''  health                    Check API health'',
      ''  session-create            Create a new session'',
      ''  session-show <id>         Show session details'',
      ''  session-events <id>       List session events'',
      ''  run <id> <message>        Run a turn in a session'',
      ''  cancel <id>               Cancel active turn'', '''', ''Options:'',
      ''  --base-url <url>          Local API base URL (default: http://127.0.0.1:4317)'',
      ''  --json                    Output JSON format'',
      ''  --route-id <id>           Route ID for run command'',
      ''  --model <name>            Model name for run command'',
      ''  --max-tokens <n>          Max tokens for run command''])"

definition cli_version :: string where "cli_version = ''0.0.0''"

text \<open>What a command prints of one event.  An event is printed as the object with its fields in the order the server writes them.\<close>

definition event_output :: "bool \<Rightarrow> agent_event \<Rightarrow> cli_output list" where
  "event_output json e =
     (if json then [Stdout (stringify_text (event_value e))]
      else
        (case e of
           ATextDelta _ t \<Rightarrow> [Stdout t]
         | ACompleted _ \<Rightarrow> [Stderr (CHR 0x0A # ''[Completed]'')]
         | AError _ code _ _ \<Rightarrow> [Stderr (CHR 0x0A # ''[Error: '' @ code @ '']'')]
         | _ \<Rightarrow> []))"

definition turn_request_of :: "cli_args \<Rightarrow> jsval" where
  "turn_request_of a =
     JObj ([(''messages'', JArr [JObj [(''role'', JStr ''user''),
              (''content'', JArr [JObj [(''type'', JStr ''text''), (''text'', JStr (the (ci_message a)))]])]])]
       @ (case ci_route a of None \<Rightarrow> [] | Some r \<Rightarrow> if r = [] then [] else [(''routeId'', JStr r)])
       @ (case ci_model a of None \<Rightarrow> [] | Some m \<Rightarrow> if m = [] then [] else [(''model'', JStr m)])
       @ (case ci_max_tokens a of None \<Rightarrow> [] | Some n \<Rightarrow> [(''maxTokens'', JNum n)]))"

text \<open>One line of output for the result of a call, or what it threw.\<close>

definition printed :: "(client_failure + 'a) \<times> 'w \<Rightarrow> ('a \<Rightarrow> string) \<Rightarrow> (cli_output list \<times> cli_thrown option) \<times> 'w" where
  "printed r f = (case r of (Inl e, w) \<Rightarrow> (([], Some (ClientThrew e)), w) | (Inr a, w) \<Rightarrow> (([Stdout (f a)], None), w))"

definition no_session :: "cli_args \<Rightarrow> bool" where
  "no_session a \<longleftrightarrow> ci_session a = None \<or> ci_session a = Some []"

definition runCli ::
  "(string \<Rightarrow> loopback_url option) \<Rightarrow> 'w fetcher \<Rightarrow> 'w fetcher option \<Rightarrow> cli_args \<Rightarrow> 'w
     \<Rightarrow> (cli_output list \<times> cli_thrown option) \<times> 'w"
where
  "runCli parse fetch platform a w =
     (if ci_command a = CliHelp then (([Stdout help_text], None), w)
      else if ci_command a = CliVersion then (([Stdout (''agent-workbench v'' @ cli_version)], None), w)
      else
        (case new_client parse (JStr (ci_base a)) (Some fetch) platform of
           Inl e \<Rightarrow> (([], Some (ClientThrew e)), w)
         | Inr C \<Rightarrow>
             (let session = JStr (the (ci_session a));
                  bad = (([], Some (CliThrew CliInvalidArguments)), w);
                  lifted = (\<lambda>r. case r of (x, w') \<Rightarrow> (lift_client x, w'));
                  shown = (\<lambda>text v. if ci_json a then stringify_text v else text v) in
              case ci_command a of
                CliHealth \<Rightarrow> printed (lifted (call_health C None w)) (shown (\<lambda>_. ''OK''))
              | CliSessionCreate \<Rightarrow>
                  printed (lifted (call_create_session C None w)) (shown (\<lambda>v. ''Created session: '' @ as_str (field v ''id'')))
              | CliSessionShow \<Rightarrow>
                  if no_session a then bad
                  else
                    printed (call_get_session C session None w)
                      (shown (\<lambda>v. ''Session '' @ as_str (field v ''id'') @ '': '' @ as_str (field v ''status'')))
              | CliSessionEvents \<Rightarrow>
                  if no_session a then bad
                  else
                    printed (call_list_events C session None w)
                      (\<lambda>es. if ci_json a then stringify_text (JArr (map event_value es))
                            else nat_text (int (length es)) @ '' events'')
              | CliCancel \<Rightarrow>
                  if no_session a then bad
                  else
                    printed (call_cancel C session None w)
                      (\<lambda>_. if ci_json a then stringify_text (JObj [(''cancelled'', JBool True)]) else ''Cancelled'')
              | CliRun \<Rightarrow>
                  if no_session a \<or> ci_message a = None \<or> ci_message a = Some [] then bad
                  else
                    (case runTurn C session (turn_request_of a) None w of
                       ((es, failure), w') \<Rightarrow>
                         ((concat (map (event_output (ci_json a)) es), map_option ClientThrew failure), w'))
              | _ \<Rightarrow> bad)))"

section \<open>The program\<close>

definition thrown_code :: "cli_thrown \<Rightarrow> (string \<times> string) option" where
  "thrown_code t =
     (case t of
        CliThrew e \<Rightarrow> Some (cli_code e, cli_message e)
      | ClientThrew (ClientFailed e) \<Rightarrow> Some (client_error_code e, client_error_message e)
      | ClientThrew RawFailure \<Rightarrow> None)"

definition exit_of_code :: "string \<Rightarrow> nat option" where
  "exit_of_code code =
     (if code = ''invalid_arguments'' \<or> code = ''invalid_base_url'' then Some 1
      else if code \<in> {''api_unavailable'', ''api_http_error'', ''api_protocol_error'', ''stream_too_large''} then Some 2
      else if code = ''aborted'' then Some 3
      else None)"

definition failure_exit :: "cli_thrown \<Rightarrow> cli_output \<times> nat" where
  "failure_exit t =
     (let unexpected = (Stderr (''Error: An unexpected error occurred.'' @ [CHR 0x0A]), 1) in
      case thrown_code t of
        None \<Rightarrow> unexpected
      | Some (code, msg) \<Rightarrow>
          (case exit_of_code code of
             None \<Rightarrow> unexpected
           | Some n \<Rightarrow> (Stderr (''Error: '' @ msg @ [CHR 0x0A]), n)))"

definition cli_main ::
  "(string \<Rightarrow> loopback_url option) \<Rightarrow> 'w fetcher \<Rightarrow> 'w fetcher option \<Rightarrow> string list \<Rightarrow> 'w \<Rightarrow> (cli_output list \<times> nat) \<times> 'w"
where
  "cli_main parse fetch platform argv w =
     (case parseArgs parse argv of
        Inl e \<Rightarrow> (case failure_exit (CliThrew e) of (out, n) \<Rightarrow> (([out], n), w))
      | Inr a \<Rightarrow>
          (case runCli parse fetch platform a w of
             ((outs, None), w') \<Rightarrow> ((outs, 0), w')
           | ((outs, Some t), w') \<Rightarrow> (case failure_exit t of (out, n) \<Rightarrow> ((outs @ [out], n), w'))))"


section \<open>Options anywhere\<close>

datatype cli_item = CliWord string | CliOption string string | CliSwitch string

fun item_args :: "cli_item \<Rightarrow> string list" where
  "item_args (CliWord w) = [w]"
| "item_args (CliOption f v) = [f, v]"
| "item_args (CliSwitch f) = [f]"

definition item_list :: "cli_item list \<Rightarrow> string list" where
  "item_list items = concat (map item_args items)"

definition option_flags :: "string list" where
  "option_flags = [''--base-url'', ''--message'', ''--route-id'', ''--model'', ''--max-tokens'']"

definition switch_flags :: "string list" where
  "switch_flags = [''--help'', ''--version'', ''--json'']"

fun item_flag :: "cli_item \<Rightarrow> string option" where
  "item_flag (CliWord _) = None"
| "item_flag (CliOption f _) = Some f"
| "item_flag (CliSwitch f) = Some f"

definition plain_word :: "string \<Rightarrow> bool" where
  "plain_word w \<longleftrightarrow> w \<notin> set option_flags \<and> w \<notin> set switch_flags \<and> w \<notin> set sensitive_params"

fun item_ok :: "cli_item \<Rightarrow> bool" where
  "item_ok (CliWord w) \<longleftrightarrow> plain_word w"
| "item_ok (CliOption f v) \<longleftrightarrow> f \<in> set option_flags \<and> plain_word v"
| "item_ok (CliSwitch f) \<longleftrightarrow> f \<in> set switch_flags"

text \<open>No flag twice, and no word or value that is a flag.\<close>

definition items_ok :: "cli_item list \<Rightarrow> bool" where
  "items_ok items \<longleftrightarrow> list_all item_ok items \<and> distinct (List.map_filter item_flag items)"

definition without :: "string \<Rightarrow> cli_item list \<Rightarrow> cli_item list" where
  "without f items = filter (\<lambda>x. item_flag x \<noteq> Some f) items"

fun option_in :: "string \<Rightarrow> cli_item \<Rightarrow> string option" where
  "option_in f (CliOption g v) = (if g = f then Some v else None)"
| "option_in _ _ = None"

fun option_of :: "string \<Rightarrow> cli_item list \<Rightarrow> string option" where
  "option_of f [] = None"
| "option_of f (x # xs) = (case option_in f x of None \<Rightarrow> option_of f xs | Some v \<Rightarrow> Some v)"

fun word_in :: "cli_item \<Rightarrow> string option" where
  "word_in (CliWord w) = Some w" | "word_in _ = None"

definition words_of :: "cli_item list \<Rightarrow> string list" where
  "words_of items = List.map_filter word_in items"

lemma item_list_simps [simp]:
  "item_list [] = []" "item_list (x # xs) = item_args x @ item_list xs"
  by (simp_all add: item_list_def)

lemma map_filter_Cons: "List.map_filter f (x # xs) = (case f x of None \<Rightarrow> List.map_filter f xs | Some y \<Rightarrow> y # List.map_filter f xs)"
  by (simp add: List.map_filter_def split: option.split)

lemma map_filter_Nil: "List.map_filter f [] = []"
  by (simp add: List.map_filter_def)

lemma items_ok_Cons: "items_ok (x # xs) \<Longrightarrow> item_ok x \<and> items_ok xs"
  by (auto simp: items_ok_def map_filter_Cons split: option.splits)

lemma flag_once: "items_ok (x # xs) \<Longrightarrow> item_flag x = Some f \<Longrightarrow> without f xs = xs \<and> f \<notin> set (List.map_filter item_flag xs)"
  by (auto simp: items_ok_def map_filter_Cons without_def filter_id_conv List.map_filter_def image_iff)

lemma without_ok: "items_ok items \<Longrightarrow> items_ok (without f items)"
proof (induction items)
  case (Cons x xs)
  have "set (List.map_filter item_flag (without f xs)) \<subseteq> set (List.map_filter item_flag xs)"
    by (auto simp: List.map_filter_def without_def)
  with Cons items_ok_Cons [OF Cons.prems] show ?case
    by (auto simp: without_def items_ok_def map_filter_Cons split: option.splits)
qed (simp add: without_def)

lemma consumeFlag_skip:
  "a \<noteq> f \<Longrightarrow> consumeFlag f (a # args) = rbind (consumeFlag f args) (\<lambda>(v, rest). Inr (v, a # rest))"
proof (cases "f \<in> set args")
  case False
  then have e: "dropWhile (\<lambda>a. a \<noteq> f) args = []" by (auto simp: dropWhile_eq_Nil_conv)
  show "a \<noteq> f \<Longrightarrow> ?thesis" by (simp add: consumeFlag_def e)
qed (auto simp: consumeFlag_def split: list.split)

lemma flags_differ: "f \<in> set option_flags \<Longrightarrow> f \<notin> set switch_flags"
  by (auto simp: option_flags_def switch_flags_def)

lemma consume_option:
  assumes "items_ok items" and "f \<in> set option_flags"
  shows "consumeFlag f (item_list items) = Inr (option_of f items, item_list (without f items))"
  using assms(1)
proof (induction items)
  case Nil
  show ?case by (simp add: consumeFlag_def without_def)
next
  case (Cons x xs)
  note IH = Cons.IH [OF conjunct2 [OF items_ok_Cons [OF Cons.prems]]]
  have ok: "item_ok x" using items_ok_Cons [OF Cons.prems] by simp
  show ?case
  proof (cases x)
    case (CliWord w)
    with ok assms(2) have "w \<noteq> f" by (auto simp: plain_word_def)
    with IH show ?thesis by (simp add: CliWord consumeFlag_skip without_def)
  next
    case (CliOption g v)
    show ?thesis
    proof (cases "g = f")
      case True
      with flag_once [OF Cons.prems, of f] CliOption show ?thesis by (simp add: consumeFlag_def without_def)
    next
      case False
      have "v \<noteq> f" using ok assms(2) by (auto simp: CliOption plain_word_def)
      with IH False show ?thesis by (simp add: CliOption consumeFlag_skip without_def)
    qed
  next
    case (CliSwitch g)
    with ok assms(2) have "g \<noteq> f" by (auto dest: flags_differ)
    with IH show ?thesis by (simp add: CliSwitch consumeFlag_skip without_def)
  qed
qed

lemma consume_switch:
  assumes "items_ok items" and "f \<in> set switch_flags"
  shows "consumeBooleanFlag f (item_list items) = (CliSwitch f \<in> set items, item_list (without f items))"
  using assms(1)
proof (induction items)
  case Nil
  show ?case by (simp add: consumeBooleanFlag_def without_def)
next
  case (Cons x xs)
  note IH = Cons.IH [OF conjunct2 [OF items_ok_Cons [OF Cons.prems]]]
  have ok: "item_ok x" using items_ok_Cons [OF Cons.prems] by simp
  show ?case
  proof (cases x)
    case (CliWord w)
    with ok assms(2) have "w \<noteq> f" by (auto simp: plain_word_def)
    with IH show ?thesis by (auto simp: CliWord consumeBooleanFlag_def without_def split: if_splits)
  next
    case (CliOption g v)
    with ok assms(2) have "g \<noteq> f" "v \<noteq> f" by (auto simp: plain_word_def dest: flags_differ)
    with IH show ?thesis by (auto simp: CliOption consumeBooleanFlag_def without_def split: if_splits)
  next
    case (CliSwitch g)
    show ?thesis
    proof (cases "g = f")
      case True
      with flag_once [OF Cons.prems, of f] CliSwitch show ?thesis by (simp add: consumeBooleanFlag_def without_def)
    next
      case False
      with IH show ?thesis by (auto simp: CliSwitch consumeBooleanFlag_def without_def split: if_splits)
    qed
  qed
qed

lemma option_of_without: "f \<noteq> g \<Longrightarrow> option_of f (without g items) = option_of f items"
proof (induction items)
  case (Cons x xs)
  then show ?case by (cases x) (auto simp: without_def)
qed (simp add: without_def)

lemma switch_without: "f \<noteq> g \<Longrightarrow> CliSwitch f \<in> set (without g items) \<longleftrightarrow> CliSwitch f \<in> set items"
  by (auto simp: without_def)

lemma words_left:
  assumes "list_all item_ok items" and "list_all (\<lambda>x. item_flag x = None) items"
  shows "item_list items = words_of items"
  using assms
proof (induction items)
  case (Cons x xs)
  then show ?case by (cases x) (auto simp: words_of_def map_filter_Cons)
qed (simp add: words_of_def map_filter_Nil)

lemma words_without: "words_of (without f items) = words_of items"
proof (induction items)
  case (Cons x xs)
  then show ?case by (cases x) (auto simp: words_of_def without_def map_filter_Cons)
qed (simp add: words_of_def without_def)


lemma no_sensitive: "items_ok items \<Longrightarrow> \<not> list_ex (\<lambda>a. a \<in> set sensitive_params) (item_list items)"
proof (induction items)
  case (Cons x xs)
  have flags: "f \<in> set option_flags \<union> set switch_flags \<Longrightarrow> f \<notin> set sensitive_params" for f
    by (auto simp: option_flags_def switch_flags_def sensitive_params_def)
  from Cons items_ok_Cons [OF Cons.prems] show ?case
    by (cases x) (auto simp: plain_word_def dest: flags [OF UnI1] flags [OF UnI2])
qed simp

lemma no_flag_left:
  assumes "\<not> (CliSwitch ''--help'' \<in> set items \<or> CliSwitch ''--version'' \<in> set items)" and "items_ok items"
  shows "list_all (\<lambda>x. item_flag x = None) (without ''--max-tokens'' (without ''--model'' (without ''--route-id''
    (without ''--message'' (without ''--json'' (without ''--base-url'' items))))))"
  unfolding list_all_iff
proof (intro ballI)
  fix x
  assume x: "x \<in> set (without ''--max-tokens'' (without ''--model'' (without ''--route-id''
    (without ''--message'' (without ''--json'' (without ''--base-url'' items))))))"
  then have "x \<in> set items" and free: "item_flag x \<notin> Some ` {''--max-tokens'', ''--model'', ''--route-id'', ''--message'', ''--json'', ''--base-url''}"
    by (auto simp: without_def)
  then have "item_ok x" using assms(2) by (auto simp: items_ok_def list_all_iff)
  with free \<open>x \<in> set items\<close> assms(1) show "item_flag x = None"
    by (cases x) (auto simp: option_flags_def switch_flags_def)
qed

section \<open>Properties\<close>

text \<open>
  C38: the options of a command may stand anywhere.  For arguments in which no word and no value looks like a flag and no flag comes twice,
  the result depends on the words in their order and on the values of the flags alone: help and version come first, then the address
  is checked, then the limit of tokens, then the words are taken as the command.
\<close>

theorem cli_options_anywhere:
  assumes "items_ok items"
  shows "parseArgs parse (item_list items) =
    (if CliSwitch ''--help'' \<in> set items then Inr (plain_args CliHelp default_base_url False)
     else if CliSwitch ''--version'' \<in> set items then Inr (plain_args CliVersion default_base_url False)
     else
       rbind (case option_of ''--base-url'' items of
                None \<Rightarrow> Inr default_base_url
              | Some u \<Rightarrow> rbind (validateBaseUrl parse u) (\<lambda>_. Inr u)) (\<lambda>base.
       rbind (read_max_tokens (option_of ''--max-tokens'' items)) (\<lambda>limit.
       command_args (words_of items) base (CliSwitch ''--json'' \<in> set items) (option_of ''--message'' items)
         (option_of ''--route-id'' items) (option_of ''--model'' items) limit)))"
proof (cases "CliSwitch ''--help'' \<in> set items \<or> CliSwitch ''--version'' \<in> set items")
  case True
  have flags: "''--help'' \<in> set switch_flags" "''--version'' \<in> set switch_flags" by (simp_all add: switch_flags_def)
  have "\<not> list_ex (\<lambda>a. a \<in> set sensitive_params) (item_list items)" by (rule no_sensitive [OF assms])
  with True show ?thesis
    by (auto simp: parseArgs_def consume_switch [OF assms flags(1)] consume_switch [OF assms flags(2)])
next
  case False
  let ?i1 = "without ''--base-url'' items"
  let ?i2 = "without ''--json'' ?i1"
  let ?i3 = "without ''--message'' ?i2"
  let ?i4 = "without ''--route-id'' ?i3"
  let ?i5 = "without ''--model'' ?i4"
  let ?i6 = "without ''--max-tokens'' ?i5"
  have flags: "''--help'' \<in> set switch_flags" "''--version'' \<in> set switch_flags" "''--json'' \<in> set switch_flags"
    "''--base-url'' \<in> set option_flags" "''--message'' \<in> set option_flags" "''--route-id'' \<in> set option_flags"
    "''--model'' \<in> set option_flags" "''--max-tokens'' \<in> set option_flags"
    by (simp_all add: switch_flags_def option_flags_def)
  have ok: "items_ok ?i1" "items_ok ?i2" "items_ok ?i3" "items_ok ?i4" "items_ok ?i5"
    by (simp_all add: without_ok assms)
  note taken = consume_switch [OF assms flags(1)] consume_switch [OF assms flags(2)] consume_option [OF assms flags(4)]
    consume_switch [OF ok(1) flags(3)] consume_option [OF ok(2) flags(5)] consume_option [OF ok(3) flags(6)]
    consume_option [OF ok(4) flags(7)] consume_option [OF ok(5) flags(8)]
  have given: "CliSwitch ''--json'' \<in> set ?i1 \<longleftrightarrow> CliSwitch ''--json'' \<in> set items"
    "option_of ''--message'' ?i2 = option_of ''--message'' items" "option_of ''--route-id'' ?i3 = option_of ''--route-id'' items"
    "option_of ''--model'' ?i4 = option_of ''--model'' items" "option_of ''--max-tokens'' ?i5 = option_of ''--max-tokens'' items"
    by (simp_all add: option_of_without switch_without)
  have "list_all item_ok ?i6" using assms by (auto simp: items_ok_def without_def list_all_iff)
  moreover have "list_all (\<lambda>x. item_flag x = None) ?i6" using False assms by (rule no_flag_left)
  ultimately have words: "item_list ?i6 = words_of items" by (simp add: words_left words_without)
  have "\<not> list_ex (\<lambda>a. a \<in> set sensitive_params) (item_list items)" by (rule no_sensitive [OF assms])
  with False show ?thesis
    by (cases "read_max_tokens (option_of ''--max-tokens'' items)"; cases "option_of ''--base-url'' items";
        cases "validateBaseUrl parse (the (option_of ''--base-url'' items))")
      (simp_all add: parseArgs_def taken given words)
qed

definition sample_items :: "cli_item list" where
  "sample_items =
     [CliOption ''--message'' ''hi'', CliWord ''run'', CliSwitch ''--json'', CliWord ''s1'', CliOption ''--max-tokens'' ''12'']"

lemma cli_options_anywhere_witness:
  "parseArgs (\<lambda>_. None) [''--message'', ''hi'', ''run'', ''--json'', ''s1'', ''--max-tokens'', ''12'']
     = Inr ((plain_args CliRun default_base_url True)\<lparr>ci_session := Some ''s1'', ci_message := Some ''hi'',
         ci_max_tokens := Some (Fin 12)\<rparr>)"
proof -
  have "items_ok sample_items" by code_simp
  moreover have "item_list sample_items = [''--message'', ''hi'', ''run'', ''--json'', ''s1'', ''--max-tokens'', ''12'']" by code_simp
  moreover have "read_max_tokens (Some ''12'') = Inr (Some (Fin 12))" by code_simp
  ultimately show ?thesis
    using cli_options_anywhere [of sample_items "\<lambda>_. None"]
    by (simp add: sample_items_def words_of_def map_filter_Cons map_filter_Nil command_args_def session_args_def plain_args_def)
qed

definition error_lines :: "string list" where
  "error_lines = map (\<lambda>m. ''Error: '' @ m @ [CHR 0x0A])
     [''CLI arguments are invalid.'', ''Local Agent client arguments are invalid.'', ''Local API URL is invalid.'',
      ''Local Agent API is unavailable.'', ''Local Agent API request failed.'', ''Local Agent API returned invalid data.'',
      ''Local Agent API response is too large.'', ''Operation aborted.'', ''An unexpected error occurred.'']"

lemma failure_exit_fixed: "failure_exit t = (out, n) \<Longrightarrow> 1 \<le> n \<and> n \<le> 3 \<and> out \<in> Stderr ` set error_lines"
proof -
  have "fst (failure_exit t) \<in> Stderr ` set error_lines \<and> snd (failure_exit t) \<in> {1, 2, 3}"
  proof (cases t)
    case (CliThrew e)
    then show ?thesis
      by (cases e) (simp_all add: failure_exit_def thrown_code_def exit_of_code_def error_lines_def)
  next
    case (ClientThrew c)
    show ?thesis
    proof (cases c)
      case (ClientFailed e)
      then show ?thesis
        by (cases e) (simp_all add: ClientThrew failure_exit_def thrown_code_def exit_of_code_def error_lines_def)
    next
      case RawFailure
      then show ?thesis by (simp add: ClientThrew failure_exit_def thrown_code_def error_lines_def)
    qed
  qed
  then show "failure_exit t = (out, n) \<Longrightarrow> ?thesis" by auto
qed

text \<open>
  The exit code says how a command ended, and the error output tells nothing.  Whatever the arguments, the address and the server are, the code
  is 0 exactly when nothing was thrown; otherwise it is 1, 2 or 3 and the output ends with one of the fixed error lines.
\<close>

theorem cli_exit_is_classified:
  "case cli_main parse fetch platform argv w of ((outs, n), _) \<Rightarrow>
     (n = 0 \<longleftrightarrow> (case parseArgs parse argv of Inl _ \<Rightarrow> False | Inr a \<Rightarrow> snd (fst (runCli parse fetch platform a w)) = None))
     \<and> (if n = 0 then True else n \<le> 3 \<and> outs \<noteq> [] \<and> last outs \<in> Stderr ` set error_lines)"
proof (cases "parseArgs parse argv")
  case (Inl e)
  obtain out n where f: "failure_exit (CliThrew e) = (out, n)" by fastforce
  with failure_exit_fixed [OF f] show ?thesis by (simp add: cli_main_def Inl)
next
  case (Inr a)
  obtain outs thrown w' where r: "runCli parse fetch platform a w = ((outs, thrown), w')" by (metis prod.exhaust)
  show ?thesis
  proof (cases thrown)
    case None
    then show ?thesis by (simp add: cli_main_def Inr r)
  next
    case (Some t)
    obtain out n where f: "failure_exit t = (out, n)" by fastforce
    with failure_exit_fixed [OF f] show ?thesis by (simp add: cli_main_def Inr r Some)
  qed
qed

text \<open>
  A turn whose last event is an error is printed like any other, and the program ends with code 0; and the events of \<open>--json\<close> are written one
  after the other without a line break between them.
\<close>

lemma failed_turn_exits_with_zero:
  assumes "runTurn C session request None w = ((es @ [AError i c m b], None), w')"
    and "new_client parse (JStr (ci_base a)) (Some fetch) platform = Inr C" and "ci_command a = CliRun"
    and "session = JStr (the (ci_session a))" and "request = turn_request_of a" and "\<not> no_session a" and "ci_message a = Some (x # xs)"
    and "parseArgs parse argv = Inr a"
  shows "snd (fst (cli_main parse fetch platform argv w)) = 0"
  using assms by (simp add: cli_main_def runCli_def Let_def)

lemma json_events_run_together:
  "concat (map (event_output True) [ATextDelta ''t'' ''a'', ACompleted ''t''])
     = [Stdout (stringify_text (event_value (ATextDelta ''t'' ''a''))), Stdout (stringify_text (event_value (ACompleted ''t'')))]
   \<and> CHR 0x0A \<notin> set (stringify_text (event_value (ATextDelta ''t'' ''a'')))"
  by code_simp

text \<open>The help text names commands that the parser refuses.\<close>

lemma documented_commands_refused:
  "list_all (\<lambda>argv. parseArgs (\<lambda>_. None) argv = Inl CliInvalidArguments)
     [[''help''], [''version''], [''session-create''], [''session-show'', ''s1''], [''session-events'', ''s1''], [''run'', ''s1'', ''hello'']]"
  by code_simp

end
