(* ===== verification/Agent_Host.thy ===== *)
theory Agent_Host
  imports Agent_Backend Local_Api
begin

text \<open>
  \<open>apps/local-agent-host/src\<close>: the fixed errors, the validation of the options and the life of a host (\<open>host.ts\<close>), which owns one
  server of the local API after the other.  The calls of a host are asynchronous: \<open>start\<close> waits for the listener, \<open>close\<close> for a
  start that is under way and then for the listener.  \<open>host_event\<close> is what can happen next, in any order; a run is a list of them.
\<close>

section \<open>Errors\<close>

datatype host_error =
    HostInvalidOptions
  | HostNotLoopback
  | HostInvalidPort
  | HostAlreadyStarted
  | HostStartFailed
  | HostCloseFailed
  | HostRunnerNotReady
  | HostInvalidConfigPath
  | HostConfigNotFound
  | HostConfigWriteFailed
  | HostConfigInvalid
  | HostInvalidCredentials
  | HostInvalidBackendOptions

fun host_error_code :: "host_error \<Rightarrow> string" where
  "host_error_code HostInvalidOptions = ''invalid_options''"
| "host_error_code HostNotLoopback = ''host_not_loopback''"
| "host_error_code HostInvalidPort = ''invalid_port''"
| "host_error_code HostAlreadyStarted = ''already_started''"
| "host_error_code HostStartFailed = ''start_failed''"
| "host_error_code HostCloseFailed = ''close_failed''"
| "host_error_code HostRunnerNotReady = ''runner_not_ready''"
| "host_error_code HostInvalidConfigPath = ''invalid_config_path''"
| "host_error_code HostConfigNotFound = ''config_not_found''"
| "host_error_code HostConfigWriteFailed = ''config_write_failed''"
| "host_error_code HostConfigInvalid = ''config_invalid''"
| "host_error_code HostInvalidCredentials = ''invalid_credentials''"
| "host_error_code HostInvalidBackendOptions = ''invalid_backend_options''"

fun host_error_message :: "host_error \<Rightarrow> string" where
  "host_error_message HostInvalidOptions = ''Local agent host options are invalid.''"
| "host_error_message HostNotLoopback = ''Local agent host must listen on loopback only.''"
| "host_error_message HostInvalidPort = ''Local agent host port is invalid.''"
| "host_error_message HostAlreadyStarted = ''Local agent host is already started.''"
| "host_error_message HostStartFailed = ''Local agent host failed to start.''"
| "host_error_message HostCloseFailed = ''Local agent host failed to close.''"
| "host_error_message HostRunnerNotReady = ''Local agent runner is not ready.''"
| "host_error_message HostInvalidConfigPath = ''Configuration file path is invalid.''"
| "host_error_message HostConfigNotFound = ''Configuration file was not found.''"
| "host_error_message HostConfigWriteFailed = ''Configuration file could not be created.''"
| "host_error_message HostConfigInvalid = ''Configuration file is invalid.''"
| "host_error_message HostInvalidCredentials = ''Credential store is invalid.''"
| "host_error_message HostInvalidBackendOptions = ''Agent backend options are invalid.''"

section \<open>Options\<close>

definition loopback_hosts :: "string list" where
  "loopback_hosts = [''127.0.0.1'', ''localhost'']"

definition isLocalAgentRunner :: "jsval \<Rightarrow> bool" where
  "isLocalAgentRunner v = (if \<not> is_object v then False else field v ''run'' = JFun)"

definition isLocalAgentSessionStore :: "jsval \<Rightarrow> bool" where
  "isLocalAgentSessionStore v =
     (if \<not> is_object v then False
      else field v ''create'' = JFun \<and> field v ''get'' = JFun \<and> field v ''listEvents'' = JFun
        \<and> field v ''appendEvent'' = JFun \<and> field v ''setStatus'' = JFun)"

definition isLocalAgentConfigManager :: "jsval \<Rightarrow> bool" where
  "isLocalAgentConfigManager v =
     (if \<not> is_object v then False
      else list_all (\<lambda>name. field v name = JFun)
        [''getSnapshot'', ''createProvider'', ''updateProvider'', ''deleteProvider'', ''createRoute'', ''updateRoute'',
         ''deleteRoute''])"

definition host_positive_integer :: "jsval \<Rightarrow> bool" where
  "host_positive_integer v = (case v of JNum n \<Rightarrow> is_safe_integer n \<and> num_less (Fin 0) n | _ \<Rightarrow> False)"

definition validateLoopbackAndPort :: "jsval \<Rightarrow> host_error + unit" where
  "validateLoopbackAndPort options =
     (let host = field options ''host''; port = field options ''port'' in
      rbind (if host = JUndef then Inr ()
             else if \<not> is_string host then Inl HostInvalidOptions
             else if as_str host \<notin> set loopback_hosts then Inl HostNotLoopback
             else Inr ()) (\<lambda>_.
      case port of
        JNum n \<Rightarrow>
          if \<not> is_safe_integer n \<or> num_less n (Fin 1) \<or> num_less (Fin 65535) n then Inl HostInvalidPort else Inr ()
      | _ \<Rightarrow> Inl HostInvalidPort))"

definition host_keys :: "string list" where
  "host_keys = [''host'', ''port'', ''runner'', ''store'', ''maxBodyBytes'', ''configManager'']"

definition validateHostOptions :: "jsval \<Rightarrow> host_error + unit" where
  "validateHostOptions options =
     (let wrong = (\<lambda>k p. field options k \<noteq> JUndef \<and> \<not> p (field options k)) in
      if \<not> is_object options then Inl HostInvalidOptions
      else if list_ex (\<lambda>k. k \<notin> set host_keys) (obj_keys options) then Inl HostInvalidOptions
      else
        rbind (validateLoopbackAndPort options) (\<lambda>_.
        if wrong ''runner'' isLocalAgentRunner then Inl HostInvalidOptions
        else if wrong ''store'' isLocalAgentSessionStore then Inl HostInvalidOptions
        else if wrong ''maxBodyBytes'' host_positive_integer then Inl HostInvalidOptions
        else if wrong ''configManager'' isLocalAgentConfigManager then Inl HostInvalidOptions
        else Inr ()))"

definition runnable_keys :: "string list" where
  "runnable_keys = [''host'', ''port'', ''backend'', ''store'', ''maxBodyBytes'', ''configManager'']"

definition validateRunnableHostOptions :: "jsval \<Rightarrow> host_error + unit" where
  "validateRunnableHostOptions options =
     (let wrong = (\<lambda>k p. field options k \<noteq> JUndef \<and> \<not> p (field options k)) in
      if \<not> is_object options then Inl HostInvalidOptions
      else if list_ex (\<lambda>k. k \<notin> set runnable_keys) (obj_keys options) then Inl HostInvalidOptions
      else
        rbind (validateLoopbackAndPort options) (\<lambda>_.
        if \<not> is_object (field options ''backend'') then Inl HostInvalidOptions
        else if wrong ''store'' isLocalAgentSessionStore then Inl HostInvalidOptions
        else if wrong ''maxBodyBytes'' host_positive_integer then Inl HostInvalidOptions
        else if wrong ''configManager'' isLocalAgentConfigManager then Inl HostInvalidOptions
        else Inr ()))"

section \<open>Creation\<close>

text \<open>An object of a class, with its methods.\<close>

definition instance_with :: "string list \<Rightarrow> jsval" where
  "instance_with names = JInst (map (\<lambda>name. (name, JFun)) names)"

definition not_ready_runner :: jsval where
  "not_ready_runner = instance_with [''run'']"

definition handed :: "jsval \<Rightarrow> string \<Rightarrow> (string \<times> jsval) list" where
  "handed options k = (if field options k = JUndef then [] else [(k, field options k)])"

text \<open>What the host gives to \<open>createLocalAgentApiServer\<close>.\<close>

definition server_options :: "jsval \<Rightarrow> jsval" where
  "server_options options =
     JObj ([(''host'', if nullish (field options ''host'') then JStr ''127.0.0.1'' else field options ''host''),
            (''port'', field options ''port''),
            (''runner'', if nullish (field options ''runner'') then not_ready_runner else field options ''runner'')]
       @ handed options ''store'' @ handed options ''maxBodyBytes'' @ handed options ''configManager'')"

datatype lifecycle = HostCreated | HostStarting | HostRunning | HostClosing | HostClosed

text \<open>
  The closure of a host: \<open>ho_server\<close> is \<open>server\<close> and \<open>ho_start\<close> is \<open>startPromise\<close>, both named by the number of the start that made
  them.
\<close>

record host =
  ho_server_options :: jsval
  ho_state :: lifecycle
  ho_server :: "nat option"
  ho_start :: "nat option"

definition createLocalAgentHost :: "jsval \<Rightarrow> host_error + host" where
  "createLocalAgentHost options =
     rbind (validateHostOptions options) (\<lambda>_.
     Inr \<lparr>ho_server_options = server_options options, ho_state = HostCreated, ho_server = None, ho_start = None\<rparr>)"

definition runnable_options :: "jsval \<Rightarrow> jsval" where
  "runnable_options options =
     JObj (handed options ''host'' @ [(''port'', field options ''port''), (''runner'', instance_with [''run''])]
       @ handed options ''store'' @ handed options ''maxBodyBytes'' @ handed options ''configManager'')"

text \<open>A thrown value: of the host, or of the assembly of the backend, which is not converted.\<close>

definition createRunnableLocalAgentHost :: "'w services \<Rightarrow> jsval \<Rightarrow> (host_error + assembly_error) + (host \<times> 'w backend)" where
  "createRunnableLocalAgentHost sv options =
     rbind (lift_error Inl (validateRunnableHostOptions options)) (\<lambda>_.
     rbind (lift_error Inr (createAgentBackend sv (field options ''backend''))) (\<lambda>b.
     rbind (lift_error Inl (createLocalAgentHost (runnable_options options))) (\<lambda>h. Inr (h, b))))"

section \<open>Life of a host\<close>

datatype attempt = AttemptPending | AttemptListens | AttemptFailed

datatype close_task = AwaitStart nat | AwaitSocket nat

text \<open>
  A host among what surrounds it: the outcome of every start so far, the listeners that are open, the calls of \<open>close\<close> that wait,
  and what the settled ones answered.
\<close>

record host_world =
  hw_host :: host
  hw_starts :: "attempt list"
  hw_open :: "nat list"
  hw_closing :: "(nat \<times> close_task) list"
  hw_answers :: "(nat \<times> (host_error + unit)) list"

definition fresh_host :: "host \<Rightarrow> host_world" where
  "fresh_host h = \<lparr>hw_host = h, hw_starts = [], hw_open = [], hw_closing = [], hw_answers = []\<rparr>"

definition with_host :: "(host \<Rightarrow> host) \<Rightarrow> host_world \<Rightarrow> host_world" where
  "with_host f w = w\<lparr>hw_host := f (hw_host w)\<rparr>"

text \<open>\<open>start()\<close>; a server that refuses its options is a failed start at once.\<close>

definition host_start :: "host_world \<Rightarrow> (host_error + nat) \<times> host_world" where
  "host_start w =
     (let h = hw_host w; n = length (hw_starts w) in
      if ho_state h \<noteq> HostCreated then (Inl HostAlreadyStarted, w)
      else
        (case parseApiOptions (ho_server_options h) of
           Inl _ \<Rightarrow>
             (Inr n, w\<lparr>hw_host := h\<lparr>ho_state := HostCreated, ho_server := None, ho_start := Some n\<rparr>,
                       hw_starts := hw_starts w @ [AttemptFailed]\<rparr>)
         | Inr _ \<Rightarrow>
             (Inr n, w\<lparr>hw_host := h\<lparr>ho_state := HostStarting, ho_start := Some n\<rparr>,
                       hw_starts := hw_starts w @ [AttemptPending]\<rparr>)))"

definition start_listens :: "nat \<Rightarrow> host_world \<Rightarrow> host_world" where
  "start_listens n w =
     w\<lparr>hw_host := (hw_host w)\<lparr>ho_server := Some n, ho_state := HostRunning\<rparr>,
       hw_starts := (hw_starts w)[n := AttemptListens], hw_open := n # hw_open w\<rparr>"

definition start_fails :: "nat \<Rightarrow> host_world \<Rightarrow> host_world" where
  "start_fails n w =
     w\<lparr>hw_host := (hw_host w)\<lparr>ho_server := None, ho_state := HostCreated\<rparr>,
       hw_starts := (hw_starts w)[n := AttemptFailed]\<rparr>"

text \<open>\<open>close()\<close>: up to the first \<open>await\<close>, what follows the wait for a start, and what follows the wait for the listener.\<close>

definition close_rest :: "nat \<Rightarrow> host_world \<Rightarrow> host_world" where
  "close_rest k w =
     (let h = hw_host w; waiting = filter (\<lambda>(j, _). j \<noteq> k) (hw_closing w) in
      if ho_state h = HostClosed then w\<lparr>hw_closing := waiting, hw_answers := (k, Inr ()) # hw_answers w\<rparr>
      else
        (case ho_server h of
           None \<Rightarrow>
             w\<lparr>hw_host := h\<lparr>ho_server := None, ho_state := HostClosed\<rparr>, hw_closing := waiting,
               hw_answers := (k, Inr ()) # hw_answers w\<rparr>
         | Some s \<Rightarrow>
             w\<lparr>hw_host := h\<lparr>ho_server := None, ho_state := HostClosing\<rparr>,
               hw_closing := (k, AwaitSocket s) # waiting\<rparr>))"

definition host_close :: "nat \<Rightarrow> host_world \<Rightarrow> host_world" where
  "host_close k w =
     (case ho_start (hw_host w) of
        None \<Rightarrow> close_rest k w
      | Some n \<Rightarrow>
          if ho_state (hw_host w) = HostStarting then w\<lparr>hw_closing := (k, AwaitStart n) # hw_closing w\<rparr>
          else close_rest k w)"

definition close_settled :: "bool \<Rightarrow> nat \<Rightarrow> nat \<Rightarrow> host_world \<Rightarrow> host_world" where
  "close_settled shut k s w =
     w\<lparr>hw_host := (hw_host w)\<lparr>ho_state := HostClosed\<rparr>, hw_closing := filter (\<lambda>(j, _). j \<noteq> k) (hw_closing w),
       hw_open := (if shut then removeAll s (hw_open w) else hw_open w),
       hw_answers := (k, if shut then Inr () else Inl HostCloseFailed) # hw_answers w\<rparr>"

text \<open>\<open>address()\<close>; \<open>addr\<close> gives the address of a server.\<close>

definition host_address :: "(nat \<Rightarrow> string option) \<Rightarrow> host \<Rightarrow> string option" where
  "host_address addr h =
     (if ho_state h = HostClosing \<or> ho_state h = HostClosed then None
      else (case ho_server h of None \<Rightarrow> None | Some s \<Rightarrow> addr s))"

datatype host_event =
    StartCall
  | StartListens nat
  | StartFails nat
  | CloseCall nat
  | CloseResumes nat
  | SocketSettles nat bool

text \<open>One event; an event that cannot happen changes nothing.\<close>

fun host_step :: "host_event \<Rightarrow> host_world \<Rightarrow> host_world" where
  "host_step StartCall w = snd (host_start w)"
| "host_step (StartListens n) w =
     (if n < length (hw_starts w) \<and> hw_starts w ! n = AttemptPending then start_listens n w else w)"
| "host_step (StartFails n) w =
     (if n < length (hw_starts w) \<and> hw_starts w ! n = AttemptPending then start_fails n w else w)"
| "host_step (CloseCall k) w =
     (if k \<in> fst ` set (hw_closing w) \<union> fst ` set (hw_answers w) then w else host_close k w)"
| "host_step (CloseResumes k) w =
     (case map_of (hw_closing w) k of
        Some (AwaitStart n) \<Rightarrow> if hw_starts w ! n = AttemptPending then w else close_rest k w
      | _ \<Rightarrow> w)"
| "host_step (SocketSettles k shut) w =
     (case map_of (hw_closing w) k of
        Some (AwaitSocket s) \<Rightarrow> close_settled shut k s w
      | _ \<Rightarrow> w)"

definition host_run :: "jsval \<Rightarrow> host_event list \<Rightarrow> host_error + host_world" where
  "host_run options es = rbind (createLocalAgentHost options) (\<lambda>h. Inr (fold host_step es (fresh_host h)))"


section \<open>The listeners of a host\<close>

text \<open>The listeners that calls of \<open>close\<close> wait for.\<close>

fun awaited :: "(nat \<times> close_task) list \<Rightarrow> nat list" where
  "awaited [] = []"
| "awaited ((_, AwaitSocket s) # ts) = s # awaited ts"
| "awaited ((_, AwaitStart _) # ts) = awaited ts"

definition close_failed :: "host_world \<Rightarrow> bool" where
  "close_failed w \<longleftrightarrow> list_ex (\<lambda>(_, r). r = Inl HostCloseFailed) (hw_answers w)"

text \<open>
  Only the last start can be under way or have succeeded; what the host holds and what is open follows from how it went.
\<close>

definition holds :: "host_world \<Rightarrow> nat option \<Rightarrow> nat list \<Rightarrow> nat list \<Rightarrow> lifecycle set \<Rightarrow> bool" where
  "holds w s opened waited states \<longleftrightarrow>
     ho_server (hw_host w) = s \<and> hw_open w = opened \<and> awaited (hw_closing w) = waited \<and> ho_state (hw_host w) \<in> states"

definition host_inv :: "host_world \<Rightarrow> bool" where
  "host_inv w \<longleftrightarrow>
     list_all (\<lambda>a. a = AttemptFailed) (butlast (hw_starts w)) \<and> distinct (map fst (hw_closing w))
     \<and> (let n = length (hw_starts w) - 1 in
        if hw_starts w = [] \<or> last (hw_starts w) = AttemptFailed then holds w None [] [] {HostCreated, HostClosed}
        else if last (hw_starts w) = AttemptPending then
          holds w None [] [] {HostStarting, HostClosed} \<and> ho_start (hw_host w) = Some n
        else
          holds w (Some n) [n] [] {HostRunning} \<or> holds w None [n] [n] {HostClosing, HostClosed}
          \<or> holds w None [] [] {HostClosed} \<or> holds w None [n] [] {HostClosed} \<and> close_failed w)"

lemma last_attempt:
  assumes "list_all (\<lambda>a. a = AttemptFailed) (butlast st)" and "n < length st" and "st ! n \<noteq> AttemptFailed"
  shows "n = length st - 1 \<and> last st = st ! n \<and> st \<noteq> []"
proof -
  have "\<not> n < length (butlast st)"
    using assms by (auto simp: list_all_length nth_butlast)
  with assms(2) have "n = length st - 1" "st \<noteq> []" by auto
  then show ?thesis by (simp add: last_conv_nth)
qed

lemma awaited_drop: "map_of ts k = Some (AwaitStart n) \<Longrightarrow> distinct (map fst ts) \<Longrightarrow>
    awaited (filter (\<lambda>(j, _). j \<noteq> k) ts) = awaited ts"
proof (induction ts rule: awaited.induct)
  case (2 j s ts)
  then show ?case by (auto split: if_splits)
next
  case (3 j m ts)
  then show ?case by (auto split: if_splits intro!: arg_cong [of _ _ awaited] filter_True simp: image_iff)
qed simp

lemma awaited_member: "map_of ts k = Some (AwaitSocket s) \<Longrightarrow> s \<in> set (awaited ts)"
  by (induction ts rule: awaited.induct) (auto split: if_splits)

lemma awaited_one: "map_of ts k = Some (AwaitSocket s) \<Longrightarrow> awaited ts = [n] \<Longrightarrow>
    awaited (filter (\<lambda>(j, _). j \<noteq> k) ts) = [] \<and> s = n"
proof (induction ts rule: awaited.induct)
  case (2 j r ts)
  have "awaited (filter p ts) = []" if "awaited ts = []" for p
    using that by (induction ts rule: awaited.induct) auto
  with 2 awaited_member [of ts k s] show ?case by (auto split: if_splits)
qed (auto split: if_splits)

lemma awaited_absent: "k \<notin> fst ` set ts \<Longrightarrow> filter (\<lambda>(j, _). j \<noteq> k) ts = ts"
  by (induction ts) auto


lemmas host_defs = host_inv_def holds_def close_failed_def Let_def

lemma created_all_failed:
  assumes "host_inv w" and "ho_state (hw_host w) = HostCreated"
  shows "list_all (\<lambda>a. a = AttemptFailed) (hw_starts w) \<and> holds w None [] [] {HostCreated}"
proof (cases "hw_starts w = []")
  case False
  with assms have "last (hw_starts w) = AttemptFailed"
    by (cases "last (hw_starts w)") (auto simp: host_inv_def holds_def Let_def)
  with False assms have "list_all (\<lambda>a. a = AttemptFailed) (butlast (hw_starts w) @ [last (hw_starts w)])" "holds w None [] [] {HostCreated}"
    by (simp_all add: host_inv_def holds_def)
  with False show ?thesis by simp
qed (use assms in \<open>simp add: host_inv_def holds_def\<close>)

lemma host_start_inv:
  assumes "host_inv w"
  shows "host_inv (snd (host_start w))"
proof (cases "ho_state (hw_host w) = HostCreated")
  case True
  note created_all_failed [OF assms True]
  moreover from assms have "distinct (map fst (hw_closing w))" by (simp add: host_inv_def)
  ultimately show ?thesis
    using True by (cases "parseApiOptions (ho_server_options (hw_host w))") (simp_all add: host_start_def host_inv_def holds_def Let_def)
qed (simp add: host_start_def assms Let_def)

lemma inv_listens:
  assumes "host_inv w" and "n < length (hw_starts w)" and "hw_starts w ! n = AttemptPending"
  shows "host_inv (start_listens n w) \<and> host_inv (start_fails n w)"
proof -
  from assms have "list_all (\<lambda>a. a = AttemptFailed) (butlast (hw_starts w))" by (simp add: host_inv_def)
  from last_attempt [OF this assms(2)] assms(3)
  have l: "n = length (hw_starts w) - 1" "last (hw_starts w) = AttemptPending" "hw_starts w \<noteq> []" by auto
  then obtain xs where xs: "hw_starts w = xs @ [AttemptPending]" by (metis append_butlast_last_id)
  with assms(1) l(1) show ?thesis by (auto simp: host_defs start_listens_def start_fails_def)
qed

lemma inv_rest:
  assumes "host_inv w" and "k \<notin> fst ` set (hw_closing w) \<or> (\<exists>n. map_of (hw_closing w) k = Some (AwaitStart n))"
  shows "host_inv (close_rest k w)"
proof -
  let ?waiting = "filter (\<lambda>(j, _). j \<noteq> k) (hw_closing w)"
  from assms(1) have d: "distinct (map fst (hw_closing w))" by (simp add: host_inv_def)
  then have "awaited ?waiting = awaited (hw_closing w)" "distinct (map fst ?waiting)" "k \<notin> fst ` set ?waiting"
    using assms(2) awaited_drop [of "hw_closing w" k] by (auto simp: awaited_absent distinct_map inj_on_def)
  with assms(1) show ?thesis
    by (cases "hw_starts w = []"; cases "last (hw_starts w)")
      (auto simp: host_defs close_rest_def split: option.splits)
qed


lemma host_close_inv:
  assumes "host_inv w" and "k \<notin> fst ` set (hw_closing w)"
  shows "host_inv (host_close k w)"
proof (cases "ho_state (hw_host w) = HostStarting \<and> ho_start (hw_host w) \<noteq> None")
  case True
  then obtain n where "ho_start (hw_host w) = Some n" by blast
  with True assms show ?thesis
    by (cases "hw_starts w = []"; cases "last (hw_starts w)")
      (simp_all add: host_close_def host_inv_def holds_def close_failed_def Let_def)
qed (use inv_rest [OF assms(1)] assms(2) in \<open>auto simp: host_close_def split: option.splits\<close>)

lemma inv_settled:
  assumes "host_inv w" and "map_of (hw_closing w) k = Some (AwaitSocket s)"
  shows "host_inv (close_settled shut k s w)"
proof -
  from awaited_member [OF assms(2)] have "awaited (hw_closing w) \<noteq> []" by auto
  with assms(1) have w: "list_all (\<lambda>a. a = AttemptFailed) (butlast (hw_starts w))" "distinct (map fst (hw_closing w))"
    "hw_starts w \<noteq> []" "last (hw_starts w) = AttemptListens"
    "holds w None [length (hw_starts w) - 1] [length (hw_starts w) - 1] {HostClosing, HostClosed}"
    by (cases "hw_starts w = []"; cases "last (hw_starts w)"; auto simp: host_inv_def holds_def Let_def)+
  moreover from awaited_one [OF assms(2), of "length (hw_starts w) - 1"] w(5)
  have "awaited (filter (\<lambda>(j, _). j \<noteq> k) (hw_closing w)) = []" "s = length (hw_starts w) - 1" by (simp_all add: holds_def)
  ultimately show ?thesis
    by (auto simp: host_defs close_settled_def distinct_map inj_on_def)
qed

lemma host_step_inv: "host_inv w \<Longrightarrow> host_inv (host_step e w)"
proof (cases e)
  case (CloseResumes k)
  assume "host_inv w"
  with CloseResumes inv_rest [of w k] show ?thesis by (auto split: option.splits close_task.splits)
next
  case (SocketSettles k shut)
  assume "host_inv w"
  with SocketSettles inv_settled [of w k] show ?thesis by (auto split: option.splits close_task.splits)
next
  case StartCall
  assume "host_inv w"
  with StartCall host_start_inv show ?thesis by simp
next
  case (StartListens n)
  assume "host_inv w"
  with StartListens inv_listens [of w n] show ?thesis by simp
next
  case (StartFails n)
  assume "host_inv w"
  with StartFails inv_listens [of w n] show ?thesis by simp
next
  case (CloseCall k)
  assume "host_inv w"
  with CloseCall host_close_inv [of w k] show ?thesis by simp
qed

lemma host_run_inv:
  assumes "host_run options es = Inr w"
  shows "host_inv w"
proof -
  have steps: "host_inv (fold host_step es w)" if "host_inv w" for w
    using that by (induction es arbitrary: w) (simp_all add: host_step_inv)
  from assms obtain h where h: "createLocalAgentHost options = Inr h" "w = fold host_step es (fresh_host h)"
    by (cases "createLocalAgentHost options") (auto simp: host_run_def)
  from h(1) have "host_inv (fresh_host h)"
    by (cases "validateHostOptions options") (auto simp: createLocalAgentHost_def fresh_host_def host_inv_def holds_def)
  with steps h(2) show ?thesis by simp
qed


section \<open>The options reach the server\<close>

lemma handed_field: "map_of (handed v k) j = (if j = k \<and> field v k \<noteq> JUndef then Some (field v k) else None)"
  by (simp add: handed_def)

lemma server_fields:
  "field (server_options v) ''host'' = (if nullish (field v ''host'') then JStr ''127.0.0.1'' else field v ''host'')"
  "field (server_options v) ''port'' = field v ''port''"
  "field (server_options v) ''runner'' = (if nullish (field v ''runner'') then not_ready_runner else field v ''runner'')"
  "field (server_options v) ''store'' = field v ''store''"
  "field (server_options v) ''maxBodyBytes'' = field v ''maxBodyBytes''"
  "field (server_options v) ''configManager'' = field v ''configManager''"
  by (simp_all add: server_options_def map_add_def handed_field split: option.splits)

lemma not_ready_runs: "is_object not_ready_runner \<and> field not_ready_runner ''run'' = JFun"
  by (simp add: not_ready_runner_def instance_with_def)

text \<open>What the validation of the host has accepted.\<close>

definition host_accepts :: "jsval \<Rightarrow> bool" where
  "host_accepts v \<longleftrightarrow>
     (field v ''host'' = JUndef \<or> field v ''host'' \<in> {JStr ''127.0.0.1'', JStr ''localhost''})
     \<and> (case field v ''port'' of JNum n \<Rightarrow> is_safe_integer n \<and> num_le (Fin 1) n \<and> num_le n (Fin 65535) | _ \<Rightarrow> False)
     \<and> (field v ''runner'' = JUndef \<or> isLocalAgentRunner (field v ''runner''))
     \<and> (field v ''store'' = JUndef \<or> isLocalAgentSessionStore (field v ''store''))
     \<and> (field v ''maxBodyBytes'' = JUndef \<or> host_positive_integer (field v ''maxBodyBytes''))
     \<and> (field v ''configManager'' = JUndef \<or> isLocalAgentConfigManager (field v ''configManager''))"

lemma safe_num_le: "is_safe_integer n \<Longrightarrow> num_le (Fin a) n \<longleftrightarrow> \<not> num_less n (Fin a)"
  "is_safe_integer n \<Longrightarrow> num_le n (Fin a) \<longleftrightarrow> \<not> num_less (Fin a) n"
  by (cases n; simp)+

lemma accepted_options: "validateHostOptions v = Inr () \<Longrightarrow> host_accepts v"
  by (cases "field v ''host''"; cases "field v ''port''")
    (auto simp: validateHostOptions_def validateLoopbackAndPort_def loopback_hosts_def Let_def host_accepts_def safe_num_le
      split: if_split_asm)

lemma positive_here_and_there: "host_positive_integer v \<Longrightarrow> positive_integer v \<and> \<not> nullish v"
proof (cases v)
  case (JNum n)
  then show "host_positive_integer v \<Longrightarrow> ?thesis"
    by (cases n) (auto simp: host_positive_integer_def positive_integer_def nullish_def)
qed (simp_all add: host_positive_integer_def)

lemma server_accepts:
  assumes "validateHostOptions v = Inr ()"
  shows "parseApiOptions (server_options v) =
    (case assertNoSensitiveFields (server_options v) 0 of
       Inl e \<Rightarrow> Inl e
     | Inr _ \<Rightarrow> Inr \<lparr>ap_host = (if field v ''host'' = JUndef then ''127.0.0.1'' else as_str (field v ''host'')),
          ap_port = as_num (field v ''port''), ap_custom_store = (field v ''store'' \<noteq> JUndef),
          ap_max_body = (if field v ''maxBodyBytes'' = JUndef then jsnat default_max_body_bytes
             else as_num (field v ''maxBodyBytes'')),
          ap_config_manager = (field v ''configManager'' \<noteq> JUndef)\<rparr>)"
proof -
  note ok = accepted_options [OF assms, unfolded host_accepts_def]
  note host = ok [THEN conjunct1] and ok' = ok [THEN conjunct2, THEN conjunct2]
  note runner = ok' [THEN conjunct1] and custom = ok' [THEN conjunct2, THEN conjunct1]
    and limit = ok' [THEN conjunct2, THEN conjunct2, THEN conjunct1] and config = ok' [THEN conjunct2, THEN conjunct2, THEN conjunct2]
  from ok [THEN conjunct2, THEN conjunct1] obtain n where n: "field v ''port'' = JNum n" "is_safe_integer n" "num_le (Fin 1) n" "num_le n (Fin 65535)"
    by (auto split: jsval.splits)
  have n': "is_integer n" "\<not> num_less n (Fin 0)" "\<not> num_less (Fin 65535) n" using n(2-4) by (cases n; simp)+
  have obj: "is_object (server_options v)" by (simp add: server_options_def)
  have run: "assertCallableMethod (if nullish (field v ''runner'') then not_ready_runner else field v ''runner'') ''run'' = Inr ()"
    "\<not> nullish (if nullish (field v ''runner'') then not_ready_runner else field v ''runner'')"
    using runner not_ready_runs
    by (auto simp: assertCallableMethod_def isLocalAgentRunner_def nullish_def not_ready_runner_def instance_with_def split: if_splits)
  have store: "(if field v ''store'' = JUndef then Inr ()
      else rall (assertCallableMethod (field v ''store'')) [''create'', ''get'', ''listEvents'', ''appendEvent'', ''setStatus'']) = Inr ()"
    using custom by (auto simp: assertCallableMethod_def isLocalAgentSessionStore_def rall_def split: if_splits)
  have body: "positive_integer (if nullish (field v ''maxBodyBytes'') then JNum (jsnat default_max_body_bytes)
      else field v ''maxBodyBytes'')" "nullish (field v ''maxBodyBytes'') \<longleftrightarrow> field v ''maxBodyBytes'' = JUndef"
    using limit positive_here_and_there [of "field v ''maxBodyBytes''"]
    by (auto simp: nullish_def positive_integer_def default_max_body_bytes_def jsnat_def)
  have manager: "field v ''configManager'' = JUndef \<or> isConfigManager (field v ''configManager'')"
    using config by (auto simp: isLocalAgentConfigManager_def isConfigManager_def config_manager_methods_def)
  let ?h = "if nullish (field (server_options v) ''host'') then JStr ''127.0.0.1'' else field (server_options v) ''host''"
  have loopback: "(?h \<noteq> JStr ''127.0.0.1'' \<and> ?h \<noteq> JStr ''localhost'') = False"
    and name: "as_str ?h = (if field v ''host'' = JUndef then ''127.0.0.1'' else as_str (field v ''host''))"
    using host by (auto simp: server_fields(1) nullish_def)
  show ?thesis
    unfolding parseApiOptions_def Let_def server_fields(2-) run(1) store loopback name
    using obj run(2) body manager n(1) n'
    by (cases "assertNoSensitiveFields (server_options v) 0") simp_all
qed

section \<open>Properties\<close>

text \<open>
  C25: whatever options a host is created with, and in whatever order calls, listeners and their failures come, the host opens one
  listener at most in its whole life; it has a valid loopback address and port; while it is open, the host holds it or a call of \<open>close\<close>
  waits for it, unless the closing itself has failed; and the host gives an address only for the listener it holds.
\<close>

theorem host_owns_its_listener:
  "case host_run options es of
     Inl e \<Rightarrow> e \<in> {HostInvalidOptions, HostNotLoopback, HostInvalidPort}
   | Inr w \<Rightarrow>
       length (filter (\<lambda>a. a = AttemptListens) (hw_starts w)) \<le> 1 \<and> length (hw_open w) \<le> 1
       \<and> (hw_open w = [] \<or> hw_open w = awaited (hw_closing w) \<or> ho_server (hw_host w) = Some (hd (hw_open w)) \<or> close_failed w)
       \<and> (case host_address addr (hw_host w) of None \<Rightarrow> True | Some a \<Rightarrow> addr (hd (hw_open w)) = Some a \<and> ho_state (hw_host w) = HostRunning)
       \<and> host_accepts options"
proof (cases "host_run options es")
  case (Inl e)
  then have "validateHostOptions options = Inl e"
    by (cases "validateHostOptions options") (auto simp: host_run_def createLocalAgentHost_def)
  then show ?thesis
    by (auto simp: Inl validateHostOptions_def validateLoopbackAndPort_def Let_def split: if_split_asm jsval.splits)
next
  case (Inr w)
  from Inr have "host_accepts options"
    by (cases "validateHostOptions options") (auto simp: host_run_def createLocalAgentHost_def accepted_options)
  moreover have inv: "host_inv w" by (rule host_run_inv [OF Inr])
  then have "filter (\<lambda>a. a = AttemptListens) (butlast (hw_starts w)) = []"
    by (auto simp: host_inv_def list_all_iff filter_empty_conv)
  then have "length (filter (\<lambda>a. a = AttemptListens) (hw_starts w)) \<le> 1"
    by (cases "hw_starts w" rule: rev_cases) auto
  moreover from inv have "length (hw_open w) \<le> 1
      \<and> (hw_open w = [] \<or> hw_open w = awaited (hw_closing w) \<or> ho_server (hw_host w) = Some (hd (hw_open w)) \<or> close_failed w)
      \<and> (case ho_server (hw_host w) of None \<Rightarrow> True | Some s \<Rightarrow> ho_state (hw_host w) = HostRunning \<and> hw_open w = [s])"
    by (cases "hw_starts w = []"; cases "last (hw_starts w)") (auto simp: host_inv_def holds_def Let_def)
  ultimately show ?thesis
    by (auto simp: Inr host_address_def split: option.splits if_split_asm)
qed

definition plain_host :: jsval where
  "plain_host = JObj [(''port'', JNum (Fin 8080))]"

lemma plain_host_created:
  "createLocalAgentHost plain_host
     = Inr \<lparr>ho_server_options = server_options plain_host, ho_state = HostCreated, ho_server = None, ho_start = None\<rparr>"
  by (simp add: createLocalAgentHost_def validateHostOptions_def validateLoopbackAndPort_def plain_host_def host_keys_def Let_def
      max_safe_integer_def)

lemma plain_host_served: "\<exists>a. parseApiOptions (server_options plain_host) = Inr a"
proof -
  have "validateHostOptions plain_host = Inr ()"
    using plain_host_created by (cases "validateHostOptions plain_host") (simp_all add: createLocalAgentHost_def)
  moreover have "assertNoSensitiveFields (server_options plain_host) 0 = Inr ()" by code_simp
  ultimately show ?thesis using server_accepts [of plain_host] by simp
qed

text \<open>
  Two races of \<open>close\<close>.  A second call of \<open>close\<close> that comes while the first waits for the listener answers at once, and the state is
  \<open>closed\<close>, although the listener is open.  And a \<open>close\<close> called during a start that fails, when the caller's own handler of the failure
  starts the host again first, answers although that second start is under way; the closed host then runs with an open listener.
\<close>

theorem close_races:
  "(case host_run plain_host [StartCall, StartListens 0, CloseCall 1, CloseCall 2] of
      Inl _ \<Rightarrow> False
    | Inr w \<Rightarrow> hw_answers w = [(2, Inr ())] \<and> ho_state (hw_host w) = HostClosed \<and> hw_open w = [0])
   \<and> (case host_run plain_host [StartCall, CloseCall 1, StartFails 0, StartCall, CloseResumes 1, StartListens 1] of
      Inl _ \<Rightarrow> False
    | Inr w \<Rightarrow> hw_answers w = [(1, Inr ())] \<and> hw_closing w = [] \<and> ho_state (hw_host w) = HostRunning \<and> hw_open w = [1])"
proof -
  obtain a where "parseApiOptions (server_options plain_host) = Inr a" using plain_host_served by blast
  then show ?thesis
    by (simp add: host_run_def plain_host_created fresh_host_def host_start_def start_listens_def start_fails_def host_close_def
        close_rest_def)
qed

end
