(* ===== verification/Config_Manager.thy ===== *)
theory Config_Manager
  imports Config_Saved Api_Server
begin

text \<open>
  \<open>apps/local-agent-host/src/config-manager.ts\<close>: the configuration manager, which applies a change to the shared
  registry, saves the registry to its file and restores it when either fails.  Operations run one after the other through
  the queue of the manager.  The \<open>k\<close>th save is told by \<open>fate k\<close> whether its write and its rename succeed.  A thrown value is an
  error object.
\<close>

section \<open>State and errors\<close>

record config_world =
  cw_registry :: registry
  cw_disk :: "string option"
  cw_saves :: nat

definition error_value :: "string \<Rightarrow> string \<Rightarrow> jsval" where
  "error_value code msg = JInst [(''message'', JStr msg), (''code'', JStr code)]"

definition invalid_config_message :: string where
  "invalid_config_message = ''Configuration request is invalid.''"

text \<open>\<open>invalidConfigError\<close> on an error of the registry.\<close>

definition invalidConfigError :: "registry_error \<Rightarrow> jsval" where
  "invalidConfigError e = error_value (registry_code e) invalid_config_message"

definition persistence_failed :: jsval where
  "persistence_failed = error_value ''config_persistence_failed'' ''Config persistence failed.''"

section \<open>Restoring\<close>

text \<open>A loop that changes the registry until a call throws.\<close>

fun apply_all :: "('a \<Rightarrow> registry \<Rightarrow> registry_error + registry) \<Rightarrow> 'a list \<Rightarrow> registry \<Rightarrow> jsval option \<times> registry" where
  "apply_all f [] g = (None, g)"
| "apply_all f (x # xs) g =
     (case f x g of
        Inl e \<Rightarrow> (Some (error_value (registry_code e) (registry_message e)), g)
      | Inr g' \<Rightarrow> apply_all f xs g')"

definition and_then :: "jsval option \<times> registry \<Rightarrow> (registry \<Rightarrow> jsval option \<times> registry) \<Rightarrow> jsval option \<times> registry" where
  "and_then r k = (case r of (Some t, g) \<Rightarrow> (Some t, g) | (None, g) \<Rightarrow> k g)"

definition restore :: "url_parser \<Rightarrow> persisted_config \<Rightarrow> registry \<Rightarrow> jsval option \<times> registry" where
  "restore parse snapshot g =
     (case createRegistryFromSnapshot parse (config_value snapshot) of
        Inl e \<Rightarrow> (Some (error_value (persistence_code e) (persistence_message e)), g)
      | Inr restored \<Rightarrow>
          and_then (apply_all (\<lambda>r g. removeRoute g (rt_id r)) (listRoutes g) g) (\<lambda>g.
          and_then (apply_all (\<lambda>p g. removeProvider g (pv_id p)) (listProviders g) g) (\<lambda>g.
          and_then (apply_all (\<lambda>p g. registerProvider parse g (provider_value p)) (listProviders restored) g) (\<lambda>g.
          apply_all (\<lambda>r g. registerRoute g (route_value r)) (listRoutes restored) g))))"

section \<open>Operations\<close>

text \<open>What a failed operation leaves, and what it throws: \<open>t\<close>, or what the restoring itself throws.\<close>

definition roll_back ::
  "url_parser \<Rightarrow> persisted_config \<Rightarrow> jsval \<Rightarrow> registry \<Rightarrow> config_world \<Rightarrow> (jsval + unit) \<times> config_world"
where
  "roll_back parse snapshot t g w =
     (case restore parse snapshot g of
        (Some t', g') \<Rightarrow> (Inl t', w\<lparr>cw_registry := g'\<rparr>)
      | (None, g') \<Rightarrow> (Inl t, w\<lparr>cw_registry := g'\<rparr>))"

definition config_mutate ::
  "url_parser \<Rightarrow> (nat \<Rightarrow> bool \<times> bool) \<Rightarrow> registry_op \<Rightarrow> config_world \<Rightarrow> (jsval + unit) \<times> config_world"
where
  "config_mutate parse fate op w =
     (let snapshot = createConfigSnapshot (cw_registry w) in
      case registry_step parse (cw_registry w) op of
        Inl e \<Rightarrow> roll_back parse snapshot (invalidConfigError e) (cw_registry w) w
      | Inr g \<Rightarrow>
          (case fate (cw_saves w) of
             (written, renamed) \<Rightarrow>
               (case saveProviderRegistry parse written renamed g (cw_disk w) of
                  (Inl _, disk) \<Rightarrow>
                    roll_back parse snapshot persistence_failed g (w\<lparr>cw_disk := disk, cw_saves := Suc (cw_saves w)\<rparr>)
                | (Inr _, disk) \<Rightarrow> (Inr (), \<lparr>cw_registry = g, cw_disk = disk, cw_saves = Suc (cw_saves w)\<rparr>))))"

definition answering :: "(config_world \<Rightarrow> 'a) \<Rightarrow> (jsval + unit) \<times> config_world \<Rightarrow> (jsval + 'a) \<times> config_world" where
  "answering f r = (case r of (Inl t, w) \<Rightarrow> (Inl t, w) | (Inr _, w) \<Rightarrow> (Inr (f w), w))"

definition provider_answer :: "jsval \<Rightarrow> config_world \<Rightarrow> jsval" where
  "provider_answer v w =
     (case getProvider (cw_registry w) (as_str (field v ''id'')) of None \<Rightarrow> JUndef | Some p \<Rightarrow> provider_value p)"

definition route_answer :: "jsval \<Rightarrow> config_world \<Rightarrow> jsval" where
  "route_answer v w =
     (case getRoute (cw_registry w) (as_str (field v ''id'')) of None \<Rightarrow> JUndef | Some r \<Rightarrow> route_value r)"

definition config_get_snapshot :: "config_world \<Rightarrow> jsval" where
  "config_get_snapshot w = config_value (createConfigSnapshot (cw_registry w))"

definition config_create_provider where
  "config_create_provider parse fate v w = answering (provider_answer v) (config_mutate parse fate (RegisterProvider v) w)"

definition config_update_provider where
  "config_update_provider parse fate v w = answering (provider_answer v) (config_mutate parse fate (UpdateProvider v) w)"

definition config_delete_provider where
  "config_delete_provider parse fate i w = config_mutate parse fate (RemoveProvider i) w"

definition config_create_route where
  "config_create_route parse fate v w = answering (route_answer v) (config_mutate parse fate (RegisterRoute v) w)"

definition config_update_route where
  "config_update_route parse fate v w = answering (route_answer v) (config_mutate parse fate (UpdateRoute v) w)"

definition config_delete_route where
  "config_delete_route parse fate i w = config_mutate parse fate (RemoveRoute i) w"

text \<open>The manager as the HTTP handler sees it.\<close>

definition file_config_manager :: "url_parser \<Rightarrow> (nat \<Rightarrow> bool \<times> bool) \<Rightarrow> config_world config_manager" where
  "file_config_manager parse fate =
     \<lparr>cm_snapshot = \<lambda>w. Inr (config_get_snapshot w),
      cm_create_provider = config_create_provider parse fate, cm_update_provider = config_update_provider parse fate,
      cm_delete_provider = config_delete_provider parse fate, cm_create_route = config_create_route parse fate,
      cm_update_route = config_update_route parse fate, cm_delete_route = config_delete_route parse fate\<rparr>"

definition createConfigManager :: "jsval \<Rightarrow> jsval + unit" where
  "createConfigManager options =
     (let failed = Inl (error_value ''invalid_config_request'' ''Config manager options are invalid.'');
          r = field options ''registry''; s = field options ''jsonStore'' in
      if \<not> is_object options then failed
      else if \<not> is_object r \<and> \<not> is_array r then failed
      else if \<not> is_object s \<and> \<not> is_array s \<or> field s ''save'' \<noteq> JFun then failed
      else Inr ())"

section \<open>Restoring gives back the registry\<close>

lemma apply_all_Inr: "rfold f xs g = Inr g' \<Longrightarrow> apply_all f xs g = (None, g')"
  by (induction xs arbitrary: g) auto

lemma remove_all_routes:
  assumes "distinct (map fst rs)" and "list_all (\<lambda>(i, r). rt_id r = i) rs" and "routes g = rs"
  shows "apply_all (\<lambda>r g. removeRoute g (rt_id r)) (map snd rs) g = (None, g\<lparr>routes := []\<rparr>)"
  using assms
proof (induction rs arbitrary: g)
  case (Cons x rs)
  obtain i r where x: "x = (i, r)" by fastforce
  from Cons.prems have "filter (\<lambda>(k, _). k \<noteq> i) rs = rs" by (auto simp: x filter_id_conv image_iff)
  with Cons.prems have "removeRoute g (rt_id r) = Inr (g\<lparr>routes := rs\<rparr>)" by (simp add: x removeRoute_def)
  moreover from Cons.prems Cons.IH [of "g\<lparr>routes := rs\<rparr>"]
  have "apply_all (\<lambda>r g. removeRoute g (rt_id r)) (map snd rs) (g\<lparr>routes := rs\<rparr>) = (None, g\<lparr>routes := []\<rparr>)"
    by (simp add: x)
  ultimately show ?case by (simp add: x)
qed simp

lemma remove_all_providers:
  assumes "distinct (map fst ps)" and "list_all (\<lambda>(i, p). pv_id p = i) ps" and "providers g = ps" and "routes g = []"
  shows "apply_all (\<lambda>p g. removeProvider g (pv_id p)) (map snd ps) g = (None, g\<lparr>providers := []\<rparr>)"
  using assms
proof (induction ps arbitrary: g)
  case (Cons x ps)
  obtain i p where x: "x = (i, p)" by fastforce
  from Cons.prems have "filter (\<lambda>(k, _). k \<noteq> i) ps = ps" by (auto simp: x filter_id_conv image_iff)
  with Cons.prems have "removeProvider g (pv_id p) = Inr (g\<lparr>providers := ps\<rparr>)" by (simp add: x removeProvider_def)
  moreover from Cons.prems Cons.IH [of "g\<lparr>providers := ps\<rparr>"]
  have "apply_all (\<lambda>p g. removeProvider g (pv_id p)) (map snd ps) (g\<lparr>providers := ps\<rparr>) = (None, g\<lparr>providers := []\<rparr>)"
    by (simp add: x)
  ultimately show ?case by (simp add: x)
qed simp

lemma restore_exact:
  assumes "registry_inv parse g0" and "self_valid parse g0" and "\<not> unsavable g0" and "registry_inv parse g"
  shows "restore parse (createConfigSnapshot g0) g = (None, snapshot_of g0)"
proof -
  let ?c = "createConfigSnapshot g0"
  have valid: "validateConfigSnapshot parse (config_value ?c) = Inr ?c"
    using snapshot_result [OF assms(1,2)] assms(3) by simp
  note ok = accepted_snapshot [OF valid]
  have "list_all (\<lambda>(i, r). rt_id r = i) (routes g)" "distinct (map fst (routes g))"
    "list_all (\<lambda>(i, p). pv_id p = i) (providers g)" "distinct (map fst (providers g))"
    using assms(4) by (auto simp: registry_inv_def list_all_iff)
  then have removed: "apply_all (\<lambda>r g. removeRoute g (rt_id r)) (listRoutes g) g = (None, g\<lparr>routes := []\<rparr>)"
    "apply_all (\<lambda>p g. removeProvider g (pv_id p)) (listProviders (g\<lparr>routes := []\<rparr>)) (g\<lparr>routes := []\<rparr>) = (None, empty_registry)"
    using remove_all_routes [of "routes g" g] remove_all_providers [of "providers g" "g\<lparr>routes := []\<rparr>"]
    by (simp_all add: listRoutes_def listProviders_def empty_registry_def)
  have lists: "listProviders (snapshot_of g0) = pc_providers ?c" "listRoutes (snapshot_of g0) = pc_routes ?c"
    by (simp_all add: snapshot_of_def registry_of_def listProviders_def listRoutes_def)
  have providers: "apply_all (\<lambda>p g. registerProvider parse g (provider_value p)) (pc_providers ?c) empty_registry
      = (None, empty_registry\<lparr>providers := keyed_providers (pc_providers ?c)\<rparr>)"
    using register_providers [OF ok(1,3), of empty_registry] by (intro apply_all_Inr) (simp add: empty_registry_def)
  have routes: "apply_all (\<lambda>r g. registerRoute g (route_value r)) (pc_routes ?c)
      (empty_registry\<lparr>providers := keyed_providers (pc_providers ?c)\<rparr>) = (None, snapshot_of g0)"
    using register_routes [OF ok(2,4), of "empty_registry\<lparr>providers := keyed_providers (pc_providers ?c)\<rparr>"] ok(5)
    by (intro apply_all_Inr) (simp add: empty_registry_def snapshot_of_def registry_of_def)
  show ?thesis
    by (simp add: restore_def create_accepted [OF valid] removed lists providers routes and_then_def
        flip: snapshot_of_def)
qed

section \<open>Registry and file agree\<close>

lemma same_providers: "registry_inv parse g \<Longrightarrow> set (providers (snapshot_of g)) = set (providers g)"
  using snapshot_maps [of parse g]
  by (subst map_of_inject_set [symmetric])
    (auto simp: registry_inv_def snapshot_of_def registry_of_def simp del: map_map)

lemma same_routes: "registry_inv parse g \<Longrightarrow> set (routes (snapshot_of g)) = set (routes g)"
  using snapshot_maps [of parse g]
  by (subst map_of_inject_set [symmetric])
    (auto simp: registry_inv_def snapshot_of_def registry_of_def simp del: map_map)

definition registry_kept :: "registry \<Rightarrow> bool" where
  "registry_kept g \<longleftrightarrow>
     list_all (\<lambda>(_, p). json_kept (provider_value p)) (providers g)
     \<and> list_all (\<lambda>(_, r). json_kept (route_value r)) (routes g)"

lemma snapshot_kept: "registry_kept g \<Longrightarrow> json_kept (config_value (createConfigSnapshot g))"
  by (auto simp: config_value_def createConfigSnapshot_def listProviders_def listRoutes_def registry_kept_def list_all_iff
      keys_ordered_def property_order_names array_index_def is_digit_def text_kept_plain jsnat_def intro!: number_kept_safe)
    (simp add: max_safe_integer_def)

definition registry_fine :: "url_parser \<Rightarrow> registry \<Rightarrow> bool" where
  "registry_fine parse g \<longleftrightarrow> registry_inv parse g \<and> self_valid parse g \<and> \<not> unsavable g \<and> registry_kept g"

lemma snapshot_fine:
  assumes "registry_fine parse g"
  shows "registry_fine parse (snapshot_of g)"
proof -
  from assms have inv: "registry_inv parse g" by (simp add: registry_fine_def)
  note sets = same_providers [OF inv] same_routes [OF inv]
  have "serves (snapshot_of g) = serves g"
    by (intro ext) (simp add: serves_def snapshot_maps(1) [OF inv])
  then have "registry_inv parse (snapshot_of g)"
    using inv snapshot_maps(3,4) [OF inv]
    unfolding registry_inv_def snapshot_maps(1,2) [OF inv]
    by (simp add: snapshot_of_def registry_of_def)
  moreover have "route_stranded (providers (snapshot_of g)) = route_stranded (providers g)"
    by (rule ext) (simp add: route_stranded_def snapshot_maps(1) [OF inv])
  then have "unsavable (snapshot_of g) = unsavable g"
    by (simp add: unsavable_def list_ex_iff listProviders_def listRoutes_def sets)
  moreover have "self_valid parse (snapshot_of g) = self_valid parse g" "registry_kept (snapshot_of g) = registry_kept g"
    by (simp_all add: self_valid_def registry_kept_def list_all_iff sets)
  ultimately show ?thesis using assms by (simp add: registry_fine_def)
qed

text \<open>What JSON text keeps of an input, it keeps of the definition made from it.\<close>

lemma kept_field: "json_kept v \<Longrightarrow> field v k \<noteq> JUndef \<Longrightarrow> json_kept (field v k)"
  by (cases v) (auto simp: list_all_iff split: option.splits dest!: map_of_SomeD)

lemma kept_text: "json_kept v \<Longrightarrow> text_kept (as_str (field v k))"
proof (cases "field v k")
  case (JStr s)
  assume "json_kept v"
  from kept_field [OF this, of k] show ?thesis by (simp add: JStr)
qed (simp_all add: text_kept_plain)

lemma kept_texts: "json_kept v \<Longrightarrow> list_all (\<lambda>x. text_kept (as_str x)) (as_arr (field v k))"
proof (cases "field v k")
  case (JArr vs)
  assume "json_kept v"
  from kept_field [OF this, of k] have "list_all json_kept vs" by (simp add: JArr)
  then have "text_kept (as_str x)" if "x \<in> set vs" for x
    using that by (cases x) (auto simp: list_all_iff text_kept_plain)
  then show ?thesis by (simp add: JArr list_all_iff)
qed simp_all

lemma provider_value_kept:
  assumes "text_kept (pv_id p)" and "text_kept (pv_name p)" and "text_kept (pv_base_url p)"
    and "case pv_credential p of None \<Rightarrow> True | Some r \<Rightarrow> text_kept r" and "list_all text_kept (pv_models p)"
  shows "json_kept (provider_value p)"
proof -
  have "text_kept (protocol_name (pv_protocol p))"
    by (rule text_kept_plain) (simp add: protocol_name_def split: provider_protocol.split)
  with assms show ?thesis
    by (auto simp: provider_value_def keys_ordered_def property_order_names array_index_def is_digit_def text_kept_plain
        list_all_iff split: option.splits)
qed

lemma route_value_kept:
  assumes "text_kept (rt_id r)" and "text_kept (rt_name r)" and "text_kept (rt_provider r)" and "text_kept (rt_model r)"
    and "list_all text_kept (fallbacks_of r)"
  shows "json_kept (route_value r)"
  using assms
  by (auto simp: route_value_def keys_ordered_def property_order_names array_index_def is_digit_def text_kept_plain
      list_all_iff fallbacks_of_def split: option.splits)

lemma provider_kept:
  assumes "validateProviderDefinition parse v = Inr p" and "json_kept v"
  shows "json_kept (provider_value p)"
proof -
  have p: "pv_id p = as_str (field v ''id'')" "pv_name p = as_str (field v ''name'')"
    "pv_base_url p = as_str (field v ''baseUrl'')"
    "pv_credential p = (if nullish (field v ''credentialRef'') then None else Some (as_str (field v ''credentialRef'')))"
    "pv_models p = map as_str (as_arr (field v ''models''))"
    using assms(1) by (simp add: validateProviderDefinition_def Let_def split: if_split_asm; auto)+
  show ?thesis
    by (rule provider_value_kept)
      (use kept_text [OF assms(2)] kept_texts [OF assms(2), of "''models''"] in \<open>simp_all add: p list_all_iff\<close>)
qed

lemma route_kept:
  assumes "validateRouteDefinition v = Inr r" and "json_kept v"
  shows "json_kept (route_value r)"
proof -
  have r: "rt_id r = as_str (field v ''id'')" "rt_name r = as_str (field v ''name'')"
    "rt_provider r = as_str (field v ''providerId'')" "rt_model r = as_str (field v ''model'')"
    "fallbacks_of r = [] \<or> fallbacks_of r = map as_str (as_arr (field v ''fallbackProviderIds''))"
    using assms(1)
    by (simp add: validateRouteDefinition_def Let_def fallbacks_of_def assertFallbackProviderIds_def split: if_split_asm; auto)+
  show ?thesis
    by (rule route_value_kept)
      (use r(5) kept_text [OF assms(2)] kept_texts [OF assms(2), of "''fallbackProviderIds''"] in
        \<open>auto simp add: r(1-4) list_all_iff\<close>)
qed

fun op_kept :: "registry_op \<Rightarrow> bool" where
  "op_kept (RegisterProvider v) = json_kept v"
| "op_kept (UpdateProvider v) = json_kept v"
| "op_kept (RegisterRoute v) = json_kept v"
| "op_kept (UpdateRoute v) = json_kept v"
| "op_kept _ = True"

lemma step_kept: "registry_step parse g op = Inr g' \<Longrightarrow> op_kept op \<Longrightarrow> registry_kept g \<Longrightarrow> registry_kept g'"
  by (cases op)
    (auto simp: registerProvider_def updateProvider_def registerRoute_def updateRoute_def removeProvider_def removeRoute_def
      registry_kept_def list_all_iff split: if_splits dest!: obj_put_values dest: provider_kept route_kept)

definition agrees :: "url_parser \<Rightarrow> config_world \<Rightarrow> bool" where
  "agrees parse w \<longleftrightarrow>
     (case loadProviderRegistry parse True (cw_disk w) of
        Inl _ \<Rightarrow> False
      | Inr g \<Rightarrow> map_of (providers g) = map_of (providers (cw_registry w)) \<and> map_of (routes g) = map_of (routes (cw_registry w)))"

lemma roll_back_result:
  assumes "registry_fine parse g0" and "registry_inv parse g"
  shows "roll_back parse (createConfigSnapshot g0) t g w = (Inl t, w\<lparr>cw_registry := snapshot_of g0\<rparr>)"
  using restore_exact [of parse g0 g] assms by (simp add: roll_back_def registry_fine_def)

lemma config_mutate_cases:
  assumes "registry_fine parse (cw_registry w)" and "op_kept op"
  obtains (refused) t saves where "config_mutate parse fate op w
      = (Inl t, w\<lparr>cw_registry := snapshot_of (cw_registry w), cw_saves := saves\<rparr>)"
  | (changed) g where "registry_step parse (cw_registry w) op = Inr g" "registry_fine parse g"
      "config_mutate parse fate op w
        = (Inr (), \<lparr>cw_registry = g, cw_disk = Some (serializeSnapshot (createConfigSnapshot g)), cw_saves = Suc (cw_saves w)\<rparr>)"
proof (cases "registry_step parse (cw_registry w) op")
  case (Inl e)
  then have "config_mutate parse fate op w = (Inl (invalidConfigError e), w\<lparr>cw_registry := snapshot_of (cw_registry w)\<rparr>)"
    using assms(1) by (simp add: config_mutate_def Let_def roll_back_result registry_fine_def)
  then show thesis using refused [of "invalidConfigError e" "cw_saves w"] by simp
next
  case (Inr g)
  obtain written renamed where f: "fate (cw_saves w) = (written, renamed)" by fastforce
  have g: "registry_inv parse g" "self_valid parse g" "registry_kept g"
    using inv_step [OF Inr] self_valid_step [OF Inr] step_kept [OF Inr assms(2)] assms(1) by (auto simp: registry_fine_def)
  show thesis
  proof (cases "unsavable g \<or> \<not> written \<or> \<not> renamed")
    case True
    then have "\<exists>e. saveProviderRegistry parse written renamed g (cw_disk w) = (Inl e, cw_disk w)"
      by (auto simp: save_result [OF g(1,2)])
    then obtain e where "saveProviderRegistry parse written renamed g (cw_disk w) = (Inl e, cw_disk w)" by blast
    then have "config_mutate parse fate op w = (Inl persistence_failed,
        w\<lparr>cw_registry := snapshot_of (cw_registry w), cw_saves := Suc (cw_saves w)\<rparr>)"
      by (simp add: config_mutate_def Let_def Inr f roll_back_result [OF assms(1) g(1)])
    then show thesis by (rule refused)
  next
    case False
    then have "saveProviderRegistry parse written renamed g (cw_disk w)
        = (Inr (), Some (serializeSnapshot (createConfigSnapshot g)))"
      by (simp add: save_result [OF g(1,2)])
    then show thesis
      using False g by (intro changed [OF Inr]) (simp_all add: config_mutate_def Let_def Inr f registry_fine_def)
  qed
qed

lemma config_mutate_agrees:
  assumes "registry_fine parse (cw_registry w)" and "agrees parse w" and "op_kept op"
    and "config_mutate parse fate op w = (r, w')"
  shows "registry_fine parse (cw_registry w') \<and> agrees parse w'"
  using assms(1,3)
proof (cases rule: config_mutate_cases [where fate = fate])
  case (refused t saves)
  from assms(1) have "registry_inv parse (cw_registry w)" by (simp add: registry_fine_def)
  note same = snapshot_maps(1,2) [OF this]
  have "cw_registry w' = snapshot_of (cw_registry w)" "cw_disk w' = cw_disk w" using refused assms(4) by auto
  with assms(1,2) snapshot_fine show ?thesis unfolding agrees_def by (simp add: same split: sum.splits)
next
  case (changed g)
  then have g: "registry_inv parse g" "self_valid parse g" "\<not> unsavable g" "registry_kept g" by (auto simp: registry_fine_def)
  have "w' = \<lparr>cw_registry = g, cw_disk = Some (serializeSnapshot (createConfigSnapshot g)), cw_saves = Suc (cw_saves w)\<rparr>"
    using changed assms(4) by simp
  with load_saved [OF g(1-3) snapshot_kept [OF g(4)]] changed snapshot_maps [OF g(1)] show ?thesis
    by (simp add: agrees_def)
qed

text \<open>A sequence of operations on the manager, whatever each of them answers.\<close>

definition config_after ::
  "url_parser \<Rightarrow> (nat \<Rightarrow> bool \<times> bool) \<Rightarrow> registry_op list \<Rightarrow> config_world \<Rightarrow> config_world"
where
  "config_after parse fate ops w = fold (\<lambda>op w. snd (config_mutate parse fate op w)) ops w"

section \<open>Properties\<close>

text \<open>
  C6: the configuration in memory and the configuration on disk do not drift apart.  Starting from a registry that agrees with its
  file, after any sequence of changes, refused or accepted, and with any outcome of the writes, a host that
  starts from the file has the same providers and routes as the running one, and resolves every route to the same candidates.
\<close>

theorem config_stays_on_disk:
  assumes "registry_fine parse (cw_registry w)" and "agrees parse w" and "list_all op_kept ops"
  shows "case loadProviderRegistry parse True (cw_disk (config_after parse fate ops w)) of
      Inl _ \<Rightarrow> False
    | Inr g \<Rightarrow>
        map_of (providers g) = map_of (providers (cw_registry (config_after parse fate ops w)))
        \<and> map_of (routes g) = map_of (routes (cw_registry (config_after parse fate ops w)))
        \<and> resolveRouteCandidates g i = resolveRouteCandidates (cw_registry (config_after parse fate ops w)) i"
proof -
  have "registry_fine parse (cw_registry (config_after parse fate ops w)) \<and> agrees parse (config_after parse fate ops w)"
    using assms
  proof (induction ops arbitrary: w)
    case (Cons op ops)
    obtain r w' where step: "config_mutate parse fate op w = (r, w')" by fastforce
    with Cons config_mutate_agrees [OF Cons.prems(1,2) _ step] show ?case by (simp add: config_after_def)
  qed (simp add: config_after_def)
  then have agree: "agrees parse (config_after parse fate ops w)" by blast
  then show ?thesis
  proof (cases "loadProviderRegistry parse True (cw_disk (config_after parse fate ops w))")
    case (Inr g)
    with agree have maps: "map_of (providers g) = map_of (providers (cw_registry (config_after parse fate ops w)))"
      "map_of (routes g) = map_of (routes (cw_registry (config_after parse fate ops w)))" by (auto simp: agrees_def)
    then have same: "add_candidate g = add_candidate (cw_registry (config_after parse fate ops w))"
      by (intro ext) (simp add: add_candidate_def)
    show ?thesis unfolding Inr sum.case resolveRouteCandidates_def maps same by simp
  qed (simp add: agrees_def)
qed

text \<open>
  A change that fails changes nothing.  Whatever a change throws, every provider and every route is what it was before, and
  the file is untouched.
\<close>

theorem failed_change_is_undone:
  assumes "registry_fine parse (cw_registry w)" and "op_kept op" and "config_mutate parse fate op w = (Inl t, w')"
  shows "map_of (providers (cw_registry w')) = map_of (providers (cw_registry w))
    \<and> map_of (routes (cw_registry w')) = map_of (routes (cw_registry w)) \<and> cw_disk w' = cw_disk w"
  using assms(1,2)
proof (cases rule: config_mutate_cases [where fate = fate])
  case (refused t saves)
  from assms(1) have "registry_inv parse (cw_registry w)" by (simp add: registry_fine_def)
  with snapshot_maps refused assms(3) show ?thesis by auto
qed (use assms(3) in auto)


definition sample_config :: config_world where
  "sample_config = \<lparr>cw_registry = registry_after sample_url sample_ops, cw_disk = None, cw_saves = 0\<rparr>"

lemma sample_config_fine: "registry_fine sample_url (cw_registry sample_config)"
proof -
  have "\<not> unsavable (registry_after sample_url sample_ops)" by code_simp
  moreover have "registry_kept (registry_after sample_url sample_ops)" by code_simp
  ultimately show ?thesis by (simp add: sample_config_def registry_fine_def inv_after self_valid_after)
qed

lemma config_stays_on_disk_witness:
  "\<exists>g. loadProviderRegistry sample_url True
      (cw_disk (config_after sample_url (\<lambda>k. (k \<noteq> 1, True)) sample_ops \<lparr>cw_registry = empty_registry, cw_disk = None, cw_saves = 0\<rparr>)) = Inr g
    \<and> resolveRouteCandidates g ''r''
      = resolveRouteCandidates (cw_registry (config_after sample_url (\<lambda>k. (k \<noteq> 1, True)) sample_ops
          \<lparr>cw_registry = empty_registry, cw_disk = None, cw_saves = 0\<rparr>)) ''r''"
proof -
  let ?w = "\<lparr>cw_registry = empty_registry, cw_disk = None, cw_saves = 0\<rparr>"
  have "registry_after sample_url [] = empty_registry" by code_simp
  then have "registry_fine sample_url empty_registry"
    using inv_after [of sample_url "[]"] self_valid_after [of sample_url "[]"]
    by (simp add: registry_fine_def registry_kept_def empty_registry_def unsavable_def listProviders_def listRoutes_def)
  then have "registry_fine sample_url (cw_registry ?w)" by simp
  moreover have "loadProviderRegistry sample_url True None = Inr empty_registry" by code_simp
  then have "agrees sample_url ?w" by (simp add: agrees_def)
  moreover have "list_all op_kept sample_ops" by code_simp
  ultimately show ?thesis
    using config_stays_on_disk [of sample_url ?w sample_ops "\<lambda>k. (k \<noteq> 1, True)" "''r''"] by (auto split: sum.splits)
qed

lemma failed_change_is_undone_witness:
  "\<exists>w'. config_mutate sample_url (\<lambda>_. (True, True)) (UpdateProvider (sample_provider ''a'' False)) sample_config
      = (Inl persistence_failed, w')
    \<and> map_of (providers (cw_registry w')) = map_of (providers (cw_registry sample_config))"
proof -
  let ?op = "UpdateProvider (sample_provider ''a'' False)"
  let ?r = "config_mutate sample_url (\<lambda>_. (True, True)) ?op sample_config"
  have failed: "fst ?r = Inl persistence_failed" by code_simp
  have "op_kept ?op" by code_simp
  with sample_config_fine failed failed_change_is_undone [of sample_url sample_config ?op "\<lambda>_. (True, True)" _ "snd ?r"]
  show ?thesis by (metis prod.collapse)
qed

text \<open>
  Over HTTP: a provider that serves an enabled route cannot be switched off.  The request is well formed and the registry accepts
  it, but the answer is status 500 with \<open>config_persistence_failed\<close>, as if the disk had failed.
\<close>

lemma disabling_a_used_provider_fails:
  "fst (config_update_provider sample_url (\<lambda>_. (True, True)) (sample_provider ''a'' False) sample_config) = Inl persistence_failed"
  by code_simp

end
