(* ===== verification/Host_Main.thy ===== *)
theory Host_Main
  imports Agent_Host Config_Manager Js_Number
begin

text \<open>
  How a host comes up: the listener of a server of the local API (\<open>LocalAgentApiServerImpl.start\<close> and \<open>close\<close>), the host made from a
  configuration file (\<open>configured-host.ts\<close>), the command line and the exit code (\<open>main.ts\<close>) and the credentials read from a helper
  process (\<open>credential-source.ts\<close>).
\<close>

section \<open>The listener of a server\<close>

text \<open>
  \<open>lw_server\<close> is \<open>#server\<close>, named by a number, \<open>lw_active\<close> is \<open>#active\<close>; \<open>lw_open\<close> are the sockets that listen and \<open>lw_aborted\<close> the turns
  that were aborted.
\<close>

record listener_world =
  lw_server :: "nat option"
  lw_address :: "string option"
  lw_active :: "(string \<times> string) list"
  lw_next :: nat
  lw_open :: "nat list"
  lw_aborted :: "string list"

definition new_listener :: listener_world where
  "new_listener = \<lparr>lw_server = None, lw_address = None, lw_active = [], lw_next = 0, lw_open = [], lw_aborted = []\<rparr>"

text \<open>\<open>start()\<close>: \<open>None\<close> says that the call returns at once, \<open>Some n\<close> that it waits for socket \<open>n\<close>.\<close>

definition server_start :: "listener_world \<Rightarrow> nat option \<times> listener_world" where
  "server_start w =
     (case lw_server w of
        Some _ \<Rightarrow> (None, w)
      | None \<Rightarrow> (Some (lw_next w), w\<lparr>lw_server := Some (lw_next w), lw_next := Suc (lw_next w)\<rparr>))"

text \<open>
  The listener answers: it failed, or it listens and has a bound address or none.  The result says whether \<open>start\<close> returns.
\<close>

definition server_listen_failed :: "listener_world \<Rightarrow> bool \<times> listener_world" where
  "server_listen_failed w = (False, w)"

definition server_listens :: "nat \<Rightarrow> (string \<times> nat) option \<Rightarrow> listener_world \<Rightarrow> bool \<times> listener_world" where
  "server_listens n bound w =
     (let w' = w\<lparr>lw_open := n # lw_open w\<rparr> in
      case bound of
        None \<Rightarrow> (False, w'\<lparr>lw_server := None\<rparr>)
      | Some (address, port) \<Rightarrow>
          (let host = (if CHR '':'' \<in> set address then ''['' @ address @ '']'' else address) in
           (True, w'\<lparr>lw_address := Some (''http://'' @ host @ '':'' @ nat_text (int port))\<rparr>)))"

text \<open>\<open>close()\<close> up to its wait, and what follows it.\<close>

definition server_close :: "listener_world \<Rightarrow> nat option \<times> listener_world" where
  "server_close w =
     (case lw_server w of
        None \<Rightarrow> (None, w)
      | Some n \<Rightarrow> (Some n, w\<lparr>lw_server := None, lw_aborted := map snd (lw_active w) @ lw_aborted w, lw_active := []\<rparr>))"

definition server_closed :: "nat \<Rightarrow> listener_world \<Rightarrow> listener_world" where
  "server_closed n w = w\<lparr>lw_open := removeAll n (lw_open w), lw_address := None\<rparr>"

section \<open>The host made from a file\<close>

definition backend_option_keys :: "string list" where
  "backend_option_keys =
     [''httpClient'', ''retryPolicy'', ''wait'', ''toolExecutor'', ''policy'', ''approvalHandler'', ''maxTurns'',
      ''maxToolCallsPerTurn'', ''maxToolResultBytes'', ''defaultMaxTokens'', ''maxFrameBytes'', ''maxToolInputBytes'']"

datatype bootstrap_error =
    Bootstrap host_error
  | HostRefused host_error
  | StoreRefused persistence_error
  | ManagerRefused jsval

definition assertConfigPath :: "(string \<Rightarrow> bool) \<Rightarrow> jsval \<Rightarrow> host_error + unit" where
  "assertConfigPath is_absolute v =
     (if \<not> is_string v \<or> as_str v = [] then Inl HostInvalidConfigPath
      else if CHR 0x00 \<in> set (as_str v) \<or> CHR ''?'' \<in> set (as_str v) \<or> CHR ''#'' \<in> set (as_str v)
        then Inl HostInvalidConfigPath
      else if \<not> is_absolute (as_str v) then Inl HostInvalidConfigPath
      else Inr ())"

definition assertCredentialStore :: "jsval \<Rightarrow> host_error + unit" where
  "assertCredentialStore v =
     (if \<not> is_object v then Inl HostInvalidCredentials
      else if field v ''get'' \<noteq> JFun then Inl HostInvalidCredentials
      else Inr ())"

definition unavailable_credentials :: jsval where
  "unavailable_credentials = instance_with [''get'', ''set'', ''has'', ''delete'']"

definition registry_object :: jsval where
  "registry_object =
     instance_with [''registerProvider'', ''updateProvider'', ''removeProvider'', ''registerRoute'', ''updateRoute'', ''removeRoute'',
       ''getProvider'', ''getRoute'', ''listProviders'', ''listRoutes'', ''resolveRoute'', ''resolveRouteCandidates'']"

definition empty_config :: jsval where
  "empty_config = JObj [(''version'', JNum (Fin 1)), (''providers'', JArr []), (''routes'', JArr [])]"

definition config_backend_options :: "jsval \<Rightarrow> jsval \<Rightarrow> jsval" where
  "config_backend_options options credentials =
     JObj ([(''registry'', registry_object), (''credentials'', credentials)] @ concat (map (handed options) backend_option_keys))"

definition config_manager_object :: jsval where
  "config_manager_object = instance_with config_manager_methods"

text \<open>
  The surroundings: what the path says, whether the directory can be made, the temporary file written and renamed, the file read,
  and whether the port can be listened on.
\<close>

record bootstrap_env =
  be_absolute :: "string \<Rightarrow> bool"
  be_parse :: url_parser
  be_mkdir :: bool
  be_written :: bool
  be_renamed :: bool
  be_readable :: bool
  be_listens :: bool
  be_saves :: "nat \<Rightarrow> bool \<times> bool"

text \<open>
  What the host is made of.  The registry that the file was loaded into is one object: the configuration manager changes it and the
  gateway of the backend reads it.  It stands with the file in \<open>cf_world\<close>, the state of the manager, and the backend runs on pairs of
  that state and the rest of the world.  \<open>boot_effect\<close> are the steps that the order matters of: the file is created, its registry is
  restored, the port is tried.
\<close>

record 'w configured =
  cf_backend :: "(config_world \<times> 'w) backend"
  cf_manager :: "config_world config_manager"
  cf_world :: config_world
  cf_host :: host_world

datatype boot_effect = MadeFile | RestoredRegistry registry | TriedPort

text \<open>
  What the backend is given: the registry object, and the credentials of the caller or, without any, the store that has none.
\<close>

definition configured_services :: "jsval \<Rightarrow> (config_world \<times> 'w) services \<Rightarrow> (config_world \<times> 'w) services" where
  "configured_services options sv =
     sv\<lparr>sv_registry := (\<lambda>w. cw_registry (fst w)),
        sv_credentials := (if field options ''credentials'' = JUndef then (\<lambda>_ w. (CredentialAbsent, w)) else sv_credentials sv)\<rparr>"

text \<open>The checks before the file is looked at; the host name and the credentials they leave.\<close>

definition checkConfiguredOptions :: "bootstrap_env \<Rightarrow> jsval \<Rightarrow> bootstrap_error + (jsval \<times> jsval)" where
  "checkConfiguredOptions E options =
     (let host = (if nullish (field options ''host'') then JStr ''127.0.0.1'' else field options ''host'');
          bad = Inl (Bootstrap HostInvalidConfigPath) in
      if \<not> is_object options then bad
      else if host \<noteq> JStr ''127.0.0.1'' \<and> host \<noteq> JStr ''localhost'' then bad
      else if (case field options ''port'' of
                 JNum n \<Rightarrow> \<not> is_integer n \<or> num_less n (Fin 1) \<or> num_less (Fin 65535) n
               | _ \<Rightarrow> True) then bad
      else
        rbind (lift_error Bootstrap (assertConfigPath (be_absolute E) (field options ''configFilePath''))) (\<lambda>_.
        if field options ''credentials'' = JUndef then Inr (host, unavailable_credentials)
        else
          rbind (lift_error Bootstrap (assertCredentialStore (field options ''credentials''))) (\<lambda>_.
          Inr (host, field options ''credentials''))))"

text \<open>The file, created when it is missing and this is wanted; then the registry it holds.\<close>

definition createIfMissing :: "bootstrap_env \<Rightarrow> jsval \<Rightarrow> string option \<Rightarrow> (bootstrap_error + unit) \<times> string option" where
  "createIfMissing E options disk =
     (if disk = None \<and> field options ''createIfMissing'' = JBool True then
        (if \<not> be_mkdir E then (Inl (Bootstrap HostConfigWriteFailed), disk)
         else
           (case saveOnce (be_parse E) (be_written E) (be_renamed E) empty_config disk of
              (Inl _, disk') \<Rightarrow> (Inl (Bootstrap HostConfigWriteFailed), disk')
            | (Inr _, disk') \<Rightarrow> (Inr (), disk')))
      else (Inr (), disk))"

definition loadConfiguredRegistry :: "bootstrap_env \<Rightarrow> string option \<Rightarrow> bootstrap_error + registry" where
  "loadConfiguredRegistry E disk =
     (if disk = None then Inl (Bootstrap HostConfigNotFound)
      else
        (case loadProviderRegistry (be_parse E) (be_readable E) disk of
           Inl _ \<Rightarrow> Inl (Bootstrap HostConfigInvalid)
         | Inr g \<Rightarrow> Inr g))"

text \<open>\<open>await localHost.start()\<close>, with the outcome of the listener.\<close>

definition started :: "bool \<Rightarrow> host \<Rightarrow> bootstrap_error + host_world" where
  "started listens h =
     (case host_start (fresh_host h) of
        (Inl e, _) \<Rightarrow> Inl (HostRefused e)
      | (Inr n, w) \<Rightarrow>
          if hw_starts w ! n = AttemptPending \<and> listens then Inr (start_listens n w)
          else Inl (HostRefused HostStartFailed))"

text \<open>\<open>start()\<close> reaches the listener.\<close>

definition tried_port :: "host \<Rightarrow> boot_effect list" where
  "tried_port h =
     (case host_start (fresh_host h) of
        (Inl _, _) \<Rightarrow> []
      | (Inr n, w) \<Rightarrow> if hw_starts w ! n = AttemptPending then [TriedPort] else [])"

definition assembleConfiguredHost ::
  "(config_world \<times> 'w) services \<Rightarrow> bootstrap_env \<Rightarrow> jsval \<Rightarrow> jsval \<times> jsval \<Rightarrow> config_world
     \<Rightarrow> (bootstrap_error + 'w configured) \<times> boot_effect list"
where
  "assembleConfiguredHost sv E options hc cw =
     (case createAgentBackend (configured_services options sv) (config_backend_options options (snd hc)) of
        Inl _ \<Rightarrow> (Inl (Bootstrap HostInvalidBackendOptions), [])
      | Inr b \<Rightarrow>
          (case createConfigManager (JObj [(''registry'', registry_object), (''jsonStore'', instance_with [''load'', ''save''])]) of
             Inl t \<Rightarrow> (Inl (ManagerRefused t), [])
           | Inr _ \<Rightarrow>
               (case createLocalAgentHost (JObj [(''host'', fst hc), (''port'', field options ''port''),
                        (''runner'', instance_with [''run'']), (''configManager'', config_manager_object)]) of
                  Inl e \<Rightarrow> (Inl (HostRefused e), [])
                | Inr h \<Rightarrow>
                    (rbind (started (be_listens E) h) (\<lambda>w.
                       Inr \<lparr>cf_backend = b, cf_manager = file_config_manager (be_parse E) (be_saves E), cf_world = cw, cf_host = w\<rparr>),
                     tried_port h))))"

text \<open>The result, the steps taken, and the file as it is left.\<close>

definition createConfiguredLocalAgentHost ::
  "(config_world \<times> 'w) services \<Rightarrow> bootstrap_env \<Rightarrow> jsval \<Rightarrow> string option
     \<Rightarrow> (bootstrap_error + 'w configured) \<times> boot_effect list \<times> string option"
where
  "createConfiguredLocalAgentHost sv E options disk =
     (case checkConfiguredOptions E options of
        Inl e \<Rightarrow> (Inl e, [], disk)
      | Inr hc \<Rightarrow>
          (case createFileJsonConfigStore (be_absolute E) (JObj [(''filePath'', field options ''configFilePath'')]) of
             Inl e \<Rightarrow> (Inl (StoreRefused e), [], disk)
           | Inr _ \<Rightarrow>
               (case createIfMissing E options disk of
                  (Inl e, disk') \<Rightarrow> (Inl e, [], disk')
                | (Inr _, disk') \<Rightarrow>
                    (let made = (if disk' = disk then [] else [MadeFile]) in
                     case loadConfiguredRegistry E disk' of
                       Inl e \<Rightarrow> (Inl e, made, disk')
                     | Inr g \<Rightarrow>
                         (case assembleConfiguredHost sv E options hc \<lparr>cw_registry = g, cw_disk = disk', cw_saves = 0\<rparr> of
                            (r, fx) \<Rightarrow> (r, made @ RestoredRegistry g # fx, disk'))))))"


section \<open>The command line\<close>

definition is_option :: "string \<Rightarrow> bool" where
  "is_option s \<longleftrightarrow> take 2 s = ''--''"

text \<open>The variables of \<open>parseArguments\<close>; \<open>sawHost\<close> and the like say that the value is there.\<close>

record seen_arguments =
  sa_helper :: "string option"
  sa_host :: "string option"
  sa_port :: "string option"
  sa_config :: "string option"
  sa_create :: bool

definition no_arguments :: seen_arguments where
  "no_arguments = \<lparr>sa_helper = None, sa_host = None, sa_port = None, sa_config = None, sa_create = False\<rparr>"

text \<open>The argument after an option: it is missing, or it is taken.\<close>

definition option_value :: "string list \<Rightarrow> host_error + string" where
  "option_value rest = (case rest of [] \<Rightarrow> Inl HostInvalidOptions | v # _ \<Rightarrow> if is_option v then Inl HostInvalidOptions else Inr v)"

function read_arguments :: "string list \<Rightarrow> seen_arguments \<Rightarrow> host_error + seen_arguments" where
  "read_arguments [] st = Inr st"
| "read_arguments (a # rest) st =
     (if a = ''--credential-helper'' then
        (if sa_helper st \<noteq> None then Inl HostInvalidOptions
         else rbind (option_value rest) (\<lambda>v.
           if v = [] then Inl HostInvalidOptions else read_arguments (tl rest) (st\<lparr>sa_helper := Some v\<rparr>)))
      else if a = ''--host'' then
        (if sa_host st \<noteq> None then Inl HostInvalidOptions
         else rbind (option_value rest) (\<lambda>v. read_arguments (tl rest) (st\<lparr>sa_host := Some v\<rparr>)))
      else if a = ''--port'' then
        (if sa_port st \<noteq> None then Inl HostInvalidOptions
         else rbind (option_value rest) (\<lambda>v. read_arguments (tl rest) (st\<lparr>sa_port := Some v\<rparr>)))
      else if a = ''--config'' then
        (if sa_config st \<noteq> None then Inl HostInvalidOptions
         else rbind (option_value rest) (\<lambda>v. read_arguments (tl rest) (st\<lparr>sa_config := Some v\<rparr>)))
      else if a = ''--create-if-missing'' then
        (if sa_create st then Inl HostInvalidOptions else read_arguments rest (st\<lparr>sa_create := True\<rparr>))
      else Inl HostInvalidOptions)"
  by pat_completeness auto
termination by (relation "measure (\<lambda>(xs, _). length xs)") auto

record parsed_arguments =
  pa_helper :: "string option"
  pa_host :: "string option"
  pa_port :: jsnum
  pa_config :: "string option"
  pa_create :: bool

definition host_options_of :: "string option \<Rightarrow> jsnum \<Rightarrow> jsval" where
  "host_options_of host port =
     JObj ((case host of None \<Rightarrow> [] | Some h \<Rightarrow> [(''host'', JStr h)]) @ [(''port'', JNum port)])"

definition parseArguments :: "string list \<Rightarrow> host_error + parsed_arguments" where
  "parseArguments argv =
     rbind (read_arguments argv no_arguments) (\<lambda>st.
     case sa_port st of
       None \<Rightarrow> Inl HostInvalidOptions
     | Some raw \<Rightarrow>
         if sa_host st = Some [] then Inl HostInvalidOptions
         else if sa_create st \<and> sa_config st = None then Inl HostInvalidOptions
         else if sa_helper st \<noteq> None \<and> sa_config st = None then Inl HostInvalidOptions
         else
           rbind (validateHostOptions (host_options_of (sa_host st) (js_number raw))) (\<lambda>_.
           Inr \<lparr>pa_helper = sa_helper st, pa_host = sa_host st, pa_port = js_number raw, pa_config = sa_config st,
                pa_create = sa_create st\<rparr>))"

section \<open>Credentials of a helper process\<close>

definition helper_ref_ok :: "jsval \<Rightarrow> bool" where
  "helper_ref_ok v \<longleftrightarrow> is_string v \<and> matches_credential_ref (as_str v)"

definition helper_path_ok :: "(string \<Rightarrow> bool) \<Rightarrow> string \<Rightarrow> bool" where
  "helper_path_ok is_absolute p \<longleftrightarrow>
     is_absolute p \<and> CHR 0x00 \<notin> set p \<and> 4 \<le> length p \<and> to_lower (drop (length p - 4) p) = ''.exe''"

text \<open>What the process does: output, an error, the end with its exit code, or nothing for five seconds.\<close>

datatype helper_event = HelperData string | HelperError | HelperClose "int option" | HelperTimeout

record helper_state =
  hp_chunks :: "string list"
  hp_bytes :: nat
  hp_done :: bool
  hp_answers :: "string option list"
  hp_killed :: bool

definition helper_start :: helper_state where
  "helper_start = \<lparr>hp_chunks = [], hp_bytes = 0, hp_done = False, hp_answers = [], hp_killed = False\<rparr>"

definition printable_ascii :: "char \<Rightarrow> bool" where
  "printable_ascii c \<longleftrightarrow> CHR 0x21 \<le> c \<and> c \<le> CHR 0x7E"

text \<open>\<open>finish(value)\<close>: the promise is settled once; the buffers are overwritten.\<close>

definition helper_finish :: "string option \<Rightarrow> helper_state \<Rightarrow> helper_state" where
  "helper_finish value s =
     (if hp_done s then s
      else s\<lparr>hp_done := True, hp_chunks := map (\<lambda>c. replicate (length c) (CHR 0x00)) (hp_chunks s),
             hp_answers := hp_answers s @ [value]\<rparr>)"

fun helper_step :: "helper_event \<Rightarrow> helper_state \<Rightarrow> helper_state" where
  "helper_step (HelperData piece) s =
     (if hp_done s then s
      else
        let s' = s\<lparr>hp_bytes := hp_bytes s + length piece\<rparr> in
        if 2560 < hp_bytes s' then helper_finish None (s'\<lparr>hp_killed := True\<rparr>)
        else s'\<lparr>hp_chunks := hp_chunks s' @ [piece]\<rparr>)"
| "helper_step HelperError s = helper_finish None s"
| "helper_step HelperTimeout s = helper_finish None (s\<lparr>hp_killed := True\<rparr>)"
| "helper_step (HelperClose code) s =
     (if hp_done s then s
      else
        let value = concat (hp_chunks s) in
        helper_finish (if code = Some 0 \<and> value \<noteq> [] \<and> list_all printable_ascii value then Some value else None) s)"

definition helper_run :: "helper_event list \<Rightarrow> helper_state" where
  "helper_run es = fold helper_step es helper_start"

text \<open>\<open>get(ref)\<close>: the answer, or nothing while the process runs; \<open>spawned\<close> says whether it could be started.\<close>

definition helper_get :: "jsval \<Rightarrow> bool \<Rightarrow> helper_event list \<Rightarrow> string option option" where
  "helper_get ref spawned es =
     (if \<not> helper_ref_ok ref then Some None
      else if \<not> spawned then Some None
      else (case hp_answers (helper_run es) of [] \<Rightarrow> None | a # _ \<Rightarrow> Some a))"

definition helper_has :: "jsval \<Rightarrow> bool \<Rightarrow> helper_event list \<Rightarrow> bool option" where
  "helper_has ref spawned es = map_option (\<lambda>a. a \<noteq> None) (helper_get ref spawned es)"

section \<open>The entry point\<close>

text \<open>The host the arguments ask for, started.\<close>

definition launch ::
  "(config_world \<times> 'w) services \<Rightarrow> bootstrap_env \<Rightarrow> parsed_arguments \<Rightarrow> string option \<Rightarrow> (string + host_world) \<times> string option"
where
  "launch sv E p disk =
     (let failed = ''Local agent host failed to start.'' in
      case pa_config p of
        None \<Rightarrow>
          (case rbind (lift_error HostRefused (createLocalAgentHost (host_options_of (pa_host p) (pa_port p)))) (started (be_listens E)) of
             Inl (HostRefused e) \<Rightarrow> (Inl (host_error_message e), disk)
           | Inl _ \<Rightarrow> (Inl failed, disk)
           | Inr w \<Rightarrow> (Inr w, disk))
      | Some config \<Rightarrow>
          if (case pa_helper p of None \<Rightarrow> False | Some h \<Rightarrow> \<not> helper_path_ok (be_absolute E) h) then (Inl failed, disk)
          else
            (case createConfiguredLocalAgentHost sv E
                   (JObj ((case pa_host p of None \<Rightarrow> [] | Some h \<Rightarrow> [(''host'', JStr h)])
                      @ [(''port'', JNum (pa_port p)), (''configFilePath'', JStr config),
                         (''createIfMissing'', JBool (pa_create p))]
                      @ (case pa_helper p of None \<Rightarrow> [] | Some _ \<Rightarrow>
                           [(''credentials'', instance_with [''get'', ''has'', ''set'', ''delete''])]))) disk of
               (Inl (Bootstrap e), _, disk') \<Rightarrow> (Inl (host_error_message e), disk')
             | (Inl (HostRefused e), _, disk') \<Rightarrow> (Inl (host_error_message e), disk')
             | (Inl _, _, disk') \<Rightarrow> (Inl failed, disk')
             | (Inr c, _, disk') \<Rightarrow> (Inr (cf_host c), disk')))"

text \<open>
  \<open>runLocalAgentHostMain\<close>: the lines it logs and the exit code, once there is one.  After a start every signal calls \<open>close\<close>, and the first
  call that settles ends the wait; \<open>es\<close> is what happens to the host from then on.
\<close>

definition runLocalAgentHostMain ::
  "(config_world \<times> 'w) services \<Rightarrow> bootstrap_env \<Rightarrow> string list \<Rightarrow> string option \<Rightarrow> host_event list \<Rightarrow> (string list \<times> nat option) \<times> string option"
where
  "runLocalAgentHostMain sv E argv disk es =
     (case parseArguments argv of
        Inl e \<Rightarrow> (([host_error_message e], Some 1), disk)
      | Inr p \<Rightarrow>
          (case launch sv E p disk of
             (Inl msg, disk') \<Rightarrow> (([msg], Some 1), disk')
           | (Inr w, disk') \<Rightarrow> (([], if hw_answers (fold host_step es w) = [] then None else Some 0), disk')))"


section \<open>Groups of arguments\<close>

datatype argument_group =
    GroupHelper string
  | GroupHost string
  | GroupPort string
  | GroupConfig string
  | GroupCreate

fun group_words :: "argument_group \<Rightarrow> string list" where
  "group_words (GroupHelper v) = [''--credential-helper'', v]"
| "group_words (GroupHost v) = [''--host'', v]"
| "group_words (GroupPort v) = [''--port'', v]"
| "group_words (GroupConfig v) = [''--config'', v]"
| "group_words GroupCreate = [''--create-if-missing'']"

fun group_kind :: "argument_group \<Rightarrow> nat" where
  "group_kind (GroupHelper _) = 0"
| "group_kind (GroupHost _) = 1"
| "group_kind (GroupPort _) = 2"
| "group_kind (GroupConfig _) = 3"
| "group_kind GroupCreate = 4"

fun group_ok :: "argument_group \<Rightarrow> bool" where
  "group_ok (GroupHelper v) \<longleftrightarrow> v \<noteq> [] \<and> \<not> is_option v"
| "group_ok (GroupHost v) \<longleftrightarrow> \<not> is_option v"
| "group_ok (GroupPort v) \<longleftrightarrow> \<not> is_option v"
| "group_ok (GroupConfig v) \<longleftrightarrow> \<not> is_option v"
| "group_ok GroupCreate \<longleftrightarrow> True"

fun group_put :: "argument_group \<Rightarrow> seen_arguments \<Rightarrow> seen_arguments" where
  "group_put (GroupHelper v) st = st\<lparr>sa_helper := Some v\<rparr>"
| "group_put (GroupHost v) st = st\<lparr>sa_host := Some v\<rparr>"
| "group_put (GroupPort v) st = st\<lparr>sa_port := Some v\<rparr>"
| "group_put (GroupConfig v) st = st\<lparr>sa_config := Some v\<rparr>"
| "group_put GroupCreate st = st\<lparr>sa_create := True\<rparr>"

definition seen_kinds :: "seen_arguments \<Rightarrow> nat set" where
  "seen_kinds st =
     (if sa_helper st = None then {} else {0}) \<union> (if sa_host st = None then {} else {1}) \<union> (if sa_port st = None then {} else {2})
     \<union> (if sa_config st = None then {} else {3}) \<union> (if sa_create st then {4} else {})"

lemma read_group:
  "read_arguments (group_words g @ rest) st =
     (if group_ok g \<and> group_kind g \<notin> seen_kinds st then read_arguments rest (group_put g st) else Inl HostInvalidOptions)"
  by (cases g) (auto simp: option_value_def seen_kinds_def)

lemma seen_put: "seen_kinds (group_put g st) = insert (group_kind g) (seen_kinds st)"
  by (cases g) (auto simp: seen_kinds_def)

lemma read_groups:
  "read_arguments (concat (map group_words gs)) st =
     (if list_all group_ok gs \<and> distinct (map group_kind gs) \<and> list_all (\<lambda>g. group_kind g \<notin> seen_kinds st) gs
      then Inr (fold group_put gs st) else Inl HostInvalidOptions)"
proof (induction gs arbitrary: st)
  case (Cons g gs)
  have "list_all (\<lambda>h. group_kind h \<notin> insert (group_kind g) (seen_kinds st)) gs
      \<longleftrightarrow> group_kind g \<notin> set (map group_kind gs) \<and> list_all (\<lambda>h. group_kind h \<notin> seen_kinds st) gs"
    by (simp add: list_all_iff image_iff) metis
  note tail = Cons.IH [of "group_put g st", unfolded seen_put this]
  show ?case
  proof (cases "group_ok g \<and> group_kind g \<notin> seen_kinds st")
    case True
    then have "read_arguments (concat (map group_words (g # gs))) st = read_arguments (concat (map group_words gs)) (group_put g st)"
      by (simp add: read_group)
    with True show ?thesis by (simp add: tail conj_ac)
  next
    case False
    then have "read_arguments (concat (map group_words (g # gs))) st = Inl HostInvalidOptions"
      by (auto simp: read_group)
    with False show ?thesis by (auto)
  qed
qed simp

text \<open>What a list of groups gives, wherever the groups stand.\<close>

fun helper_of :: "argument_group \<Rightarrow> string option" where
  "helper_of (GroupHelper v) = Some v" | "helper_of _ = None"

fun host_of :: "argument_group \<Rightarrow> string option" where
  "host_of (GroupHost v) = Some v" | "host_of _ = None"

fun port_of :: "argument_group \<Rightarrow> string option" where
  "port_of (GroupPort v) = Some v" | "port_of _ = None"

fun config_of :: "argument_group \<Rightarrow> string option" where
  "config_of (GroupConfig v) = Some v" | "config_of _ = None"

definition given :: "(argument_group \<Rightarrow> string option) \<Rightarrow> argument_group list \<Rightarrow> string option" where
  "given f gs = (case List.map_filter f gs of [] \<Rightarrow> None | v # _ \<Rightarrow> Some v)"

lemma map_filter_none: "list_all (\<lambda>g. f g = None) gs \<Longrightarrow> List.map_filter f gs = []"
  by (induction gs) (auto simp: List.map_filter_def)

lemma given_Cons: "given f (g # gs) = (case f g of None \<Rightarrow> given f gs | Some v \<Rightarrow> Some v)"
  by (simp add: given_def List.map_filter_def split: option.split)

lemma put_groups:
  assumes "distinct (map group_kind gs)" and "list_all (\<lambda>g. group_kind g \<notin> seen_kinds st) gs"
  shows "fold group_put gs st =
    \<lparr>sa_helper = (case given helper_of gs of None \<Rightarrow> sa_helper st | Some v \<Rightarrow> Some v),
     sa_host = (case given host_of gs of None \<Rightarrow> sa_host st | Some v \<Rightarrow> Some v),
     sa_port = (case given port_of gs of None \<Rightarrow> sa_port st | Some v \<Rightarrow> Some v),
     sa_config = (case given config_of gs of None \<Rightarrow> sa_config st | Some v \<Rightarrow> Some v),
     sa_create = (sa_create st \<or> GroupCreate \<in> set gs)\<rparr>"
  using assms
proof (induction gs arbitrary: st)
  case Nil
  show ?case by (simp add: given_def List.map_filter_def)
next
  case (Cons g gs)
  have rest: "list_all (\<lambda>h. group_kind h \<notin> seen_kinds (group_put g st)) gs"
    using Cons.prems by (simp add: seen_put list_all_iff) (metis imageI)
  have other: "given f gs = None" if "\<And>h. f h \<noteq> None \<Longrightarrow> group_kind h = group_kind g" for f
  proof -
    have "list_all (\<lambda>h. f h = None) gs"
      unfolding list_all_iff
    proof (intro ballI)
      fix h
      assume "h \<in> set gs"
      then have "group_kind h \<noteq> group_kind g" using Cons.prems(1) by (metis distinct.simps(2) image_eqI list.map(2) list.set_map)
      with that show "f h = None" by blast
    qed
    then show ?thesis by (simp add: given_def map_filter_none)
  qed
  from Cons.IH [OF _ rest] Cons.prems(1)
  have tail: "fold group_put (g # gs) st =
    \<lparr>sa_helper = (case given helper_of gs of None \<Rightarrow> sa_helper (group_put g st) | Some v \<Rightarrow> Some v),
     sa_host = (case given host_of gs of None \<Rightarrow> sa_host (group_put g st) | Some v \<Rightarrow> Some v),
     sa_port = (case given port_of gs of None \<Rightarrow> sa_port (group_put g st) | Some v \<Rightarrow> Some v),
     sa_config = (case given config_of gs of None \<Rightarrow> sa_config (group_put g st) | Some v \<Rightarrow> Some v),
     sa_create = (sa_create (group_put g st) \<or> GroupCreate \<in> set gs)\<rparr>" by simp
  show ?case
  proof (cases g)
    case (GroupHelper v)
    then have "given helper_of gs = None" by (intro other) (auto elim: helper_of.elims)
    with tail show ?thesis by (simp add: GroupHelper given_Cons cong: option.case_cong)
  next
    case (GroupHost v)
    then have "given host_of gs = None" by (intro other) (auto elim: host_of.elims)
    with tail show ?thesis by (simp add: GroupHost given_Cons cong: option.case_cong)
  next
    case (GroupPort v)
    then have "given port_of gs = None" by (intro other) (auto elim: port_of.elims)
    with tail show ?thesis by (simp add: GroupPort given_Cons cong: option.case_cong)
  next
    case (GroupConfig v)
    then have "given config_of gs = None" by (intro other) (auto elim: config_of.elims)
    with tail show ?thesis by (simp add: GroupConfig given_Cons cong: option.case_cong)
  next
    case GroupCreate
    with tail show ?thesis by (simp add: given_Cons cong: option.case_cong)
  qed
qed


lemma read_shape: "read_arguments argv st = Inr st' \<Longrightarrow> \<exists>gs. argv = concat (map group_words gs)"
proof (induction argv st rule: read_arguments.induct)
  case (1 st)
  show ?case by (rule exI [of _ "[]"]) simp
next
  case (2 a rest st)
  have valued: "\<exists>gs. a # rest = concat (map group_words gs)"
    if "option_value rest = Inr v" and "\<exists>gs. tl rest = concat (map group_words gs)" and "group_words g = [a, v]" for v g
  proof -
    from that(1) have "rest = v # tl rest" by (auto simp: option_value_def split: list.splits if_splits)
    moreover from that(2) obtain gs where "tl rest = concat (map group_words gs)" by blast
    ultimately have "a # rest = concat (map group_words (g # gs))" using that(3) by simp
    then show ?thesis by blast
  qed
  from 2(6) consider "a = ''--credential-helper''" | "a = ''--host''" | "a = ''--port''" | "a = ''--config''"
    | "a = ''--create-if-missing''" by (auto split: if_split_asm)
  then show ?case
  proof cases
    case 1
    with 2(6) obtain v where v: "option_value rest = Inr v" "v \<noteq> []" "sa_helper st = None"
      "read_arguments (tl rest) (st\<lparr>sa_helper := Some v\<rparr>) = Inr st'"
      by (auto split: if_split_asm)
    from valued [OF v(1) 2(1) [OF 1 _ v(2,4)], of "GroupHelper v"] v(3) 1 show ?thesis by simp
  next
    case a: 2
    with 2(6) obtain v where v: "option_value rest = Inr v" "sa_host st = None"
      "read_arguments (tl rest) (st\<lparr>sa_host := Some v\<rparr>) = Inr st'"
      by (auto split: if_split_asm)
    from valued [OF v(1) 2(2) [OF _ a _ v(3)], of "GroupHost v"] v(2) a show ?thesis by simp
  next
    case a: 3
    with 2(6) obtain v where v: "option_value rest = Inr v" "sa_port st = None"
      "read_arguments (tl rest) (st\<lparr>sa_port := Some v\<rparr>) = Inr st'"
      by (auto split: if_split_asm)
    from valued [OF v(1) 2(3) [OF _ _ a _ v(3)], of "GroupPort v"] v(2) a show ?thesis by simp
  next
    case a: 4
    with 2(6) obtain v where v: "option_value rest = Inr v" "sa_config st = None"
      "read_arguments (tl rest) (st\<lparr>sa_config := Some v\<rparr>) = Inr st'"
      by (auto split: if_split_asm)
    from valued [OF v(1) 2(4) [OF _ _ _ a _ v(3)], of "GroupConfig v"] v(2) a show ?thesis by simp
  next
    case a: 5
    with 2(6) 2(5) obtain gs where "rest = concat (map group_words gs)" by (auto split: if_split_asm)
    then have "a # rest = concat (map group_words (GroupCreate # gs))" by (simp add: a)
    then show ?thesis by blast
  qed
qed

text \<open>What a launch needs: every option at most once and with a usable value, and the port.\<close>

definition launchable :: "argument_group list \<Rightarrow> bool" where
  "launchable gs \<longleftrightarrow>
     list_all group_ok gs \<and> distinct (map group_kind gs)
     \<and> (case given port_of gs of
          None \<Rightarrow> False
        | Some raw \<Rightarrow> is_safe_integer (js_number raw) \<and> num_le (Fin 1) (js_number raw) \<and> num_le (js_number raw) (Fin 65535))
     \<and> (case given host_of gs of None \<Rightarrow> True | Some h \<Rightarrow> h \<in> {''127.0.0.1'', ''localhost''})
     \<and> (if GroupCreate \<in> set gs \<or> given helper_of gs \<noteq> None then given config_of gs \<noteq> None else True)"

definition launched :: "argument_group list \<Rightarrow> parsed_arguments" where
  "launched gs =
     \<lparr>pa_helper = given helper_of gs, pa_host = given host_of gs, pa_port = js_number (the (given port_of gs)),
      pa_config = given config_of gs, pa_create = (GroupCreate \<in> set gs)\<rparr>"

lemma validated_host_options:
  "validateHostOptions (host_options_of host port) = Inr () \<longleftrightarrow>
     (case host of None \<Rightarrow> True | Some h \<Rightarrow> h \<in> {''127.0.0.1'', ''localhost''})
     \<and> is_safe_integer port \<and> num_le (Fin 1) port \<and> num_le port (Fin 65535)"
proof -
  let ?v = "host_options_of host port"
  have fields: "field ?v ''host'' = (case host of None \<Rightarrow> JUndef | Some h \<Rightarrow> JStr h)" "field ?v ''port'' = JNum port"
    "field ?v ''runner'' = JUndef" "field ?v ''store'' = JUndef" "field ?v ''maxBodyBytes'' = JUndef"
    "field ?v ''configManager'' = JUndef" "is_object ?v" "\<not> list_ex (\<lambda>k. k \<notin> set host_keys) (obj_keys ?v)"
    by (cases host; simp add: host_options_of_def host_keys_def)+
  have "validateHostOptions ?v = validateLoopbackAndPort ?v"
    using fields(7,8) by (cases "validateLoopbackAndPort ?v") (simp_all add: validateHostOptions_def fields(3-6))
  moreover have "validateLoopbackAndPort ?v = Inr () \<longleftrightarrow>
      (case host of None \<Rightarrow> True | Some h \<Rightarrow> h \<in> {''127.0.0.1'', ''localhost''})
      \<and> is_safe_integer port \<and> \<not> num_less port (Fin 1) \<and> \<not> num_less (Fin 65535) port"
    unfolding validateLoopbackAndPort_def Let_def fields by (cases host) (simp_all add: loopback_hosts_def)
  ultimately show ?thesis by (auto simp: safe_num_le)
qed

lemma read_all:
  "read_arguments (concat (map group_words gs)) no_arguments =
     (if list_all group_ok gs \<and> distinct (map group_kind gs) then
        Inr \<lparr>sa_helper = given helper_of gs, sa_host = given host_of gs, sa_port = given port_of gs, sa_config = given config_of gs,
             sa_create = (GroupCreate \<in> set gs)\<rparr>
      else Inl HostInvalidOptions)"
proof -
  have fresh: "seen_kinds no_arguments = {}" by (simp add: no_arguments_def seen_kinds_def)
  have slots: "sa_helper no_arguments = None" "sa_host no_arguments = None" "sa_port no_arguments = None"
    "sa_config no_arguments = None" "sa_create no_arguments = False" by (simp_all add: no_arguments_def)
  have old: "(case x of None \<Rightarrow> None | Some v \<Rightarrow> Some v) = x" for x :: "string option" by (cases x) simp_all
  have "fold group_put gs no_arguments =
      \<lparr>sa_helper = given helper_of gs, sa_host = given host_of gs, sa_port = given port_of gs, sa_config = given config_of gs,
       sa_create = (GroupCreate \<in> set gs)\<rparr>" if "distinct (map group_kind gs)"
    using put_groups [OF that, of no_arguments, unfolded slots old] by (simp add: fresh list_all_iff)
  then show ?thesis by (simp add: read_groups fresh list_all_iff)
qed

lemma parse_groups:
  "parseArguments (concat (map group_words gs)) = Inr p \<longleftrightarrow> launchable gs \<and> p = launched gs"
proof (cases "given port_of gs")
  case None
  then show ?thesis by (simp add: parseArguments_def read_all launchable_def)
next
  case (Some raw)
  note valid = validated_host_options [of "given host_of gs" "js_number raw"]
  show ?thesis
  proof (cases "validateHostOptions (host_options_of (given host_of gs) (js_number raw))")
    case (Inl e)
    with valid show ?thesis by (auto simp: parseArguments_def read_all launchable_def Some)
  next
    case (Inr u)
    with valid have "given host_of gs \<noteq> Some []" by auto
    with Inr valid show ?thesis by (auto simp: parseArguments_def read_all launchable_def launched_def Some)
  qed
qed


section \<open>Properties\<close>

text \<open>
  The command line is understood in any order and only then: a list of arguments is accepted exactly when it consists of options with
  their values, each option at most once, no value that looks like an option, a port from 1 to 65535, a loopback host if any, and a
  configuration file if it is to be created or a credential helper is named; the result holds these values.
\<close>

theorem arguments_exact:
  "parseArguments argv = Inr p
     \<longleftrightarrow> (\<exists>gs. argv = concat (map group_words gs) \<and> launchable gs \<and> p = launched gs)"
proof
  assume ok: "parseArguments argv = Inr p"
  then obtain st where "read_arguments argv no_arguments = Inr st"
    by (cases "read_arguments argv no_arguments") (auto simp: parseArguments_def)
  from read_shape [OF this] obtain gs where "argv = concat (map group_words gs)" by blast
  with ok show "\<exists>gs. argv = concat (map group_words gs) \<and> launchable gs \<and> p = launched gs" by (auto simp: parse_groups)
qed (auto simp: parse_groups)

fun helper_output :: "helper_event \<Rightarrow> string" where
  "helper_output (HelperData piece) = piece"
| "helper_output _ = []"

definition helper_inv :: "string \<Rightarrow> helper_state \<Rightarrow> bool" where
  "helper_inv out s \<longleftrightarrow>
     (if hp_done s then
        length (hp_answers s) = 1 \<and> list_all (\<lambda>c. c = CHR 0x00) (concat (hp_chunks s))
        \<and> (case hd (hp_answers s) of
             None \<Rightarrow> True
           | Some v \<Rightarrow> v \<noteq> [] \<and> length v \<le> 2560 \<and> list_all printable_ascii v \<and> (\<exists>rest. out = v @ rest))
      else hp_answers s = [] \<and> concat (hp_chunks s) = out \<and> hp_bytes s = length out \<and> length out \<le> 2560)"

lemma helper_finish_inv:
  assumes "hp_answers s = []" and "\<not> hp_done s"
    and "case value of None \<Rightarrow> True | Some v \<Rightarrow> v \<noteq> [] \<and> length v \<le> 2560 \<and> list_all printable_ascii v \<and> (\<exists>rest. out = v @ rest)"
  shows "helper_inv out (helper_finish value s)"
  using assms by (auto simp: helper_inv_def helper_finish_def list_all_iff)

lemma helper_step_inv: "helper_inv out s \<Longrightarrow> helper_inv (out @ helper_output e) (helper_step e s)"
proof (cases "hp_done s")
  case True
  assume "helper_inv out s"
  with True show ?thesis
    by (cases e) (auto simp: helper_inv_def helper_finish_def split: option.splits)
next
  case False
  assume inv: "helper_inv out s"
  then have s: "hp_answers s = []" "concat (hp_chunks s) = out" "hp_bytes s = length out" "length out \<le> 2560"
    using False by (simp_all add: helper_inv_def)
  show ?thesis
  proof (cases e)
    case (HelperData piece)
    show ?thesis
    proof (cases "2560 < length out + length piece")
      case True
      have "helper_inv (out @ piece) (helper_finish None (s\<lparr>hp_bytes := length out + length piece, hp_killed := True\<rparr>))"
        by (rule helper_finish_inv) (simp_all add: s False)
      with True False show ?thesis by (simp add: HelperData s)
    next
      case small: False
      with False show ?thesis by (simp add: HelperData s helper_inv_def)
    qed
  next
    case HelperError
    have "helper_inv out (helper_finish None s)" by (rule helper_finish_inv) (simp_all add: s False)
    then show ?thesis by (simp add: HelperError)
  next
    case (HelperClose code)
    have "helper_inv out (helper_finish (if code = Some 0 \<and> out \<noteq> [] \<and> list_all printable_ascii out then Some out else None) s)"
      by (rule helper_finish_inv) (simp_all add: s False)
    with False show ?thesis by (simp add: HelperClose Let_def s)
  next
    case HelperTimeout
    have "helper_inv out (helper_finish None (s\<lparr>hp_killed := True\<rparr>))" by (rule helper_finish_inv) (simp_all add: s False)
    then show ?thesis by (simp add: HelperTimeout)
  qed
qed

lemma helper_run_inv: "helper_inv (concat (map helper_output es)) (helper_run es)"
proof (induction es rule: rev_induct)
  case (snoc e es)
  with helper_step_inv [of _ _ e] show ?case by (simp add: helper_run_def)
qed (simp add: helper_run_def helper_start_def helper_inv_def)

text \<open>
  Whatever a credential helper writes and however it ends, at most one answer is given; an answer that is a secret was asked for under
  a well-formed reference, is not empty, has at most 2560 printable_ascii ASCII characters and no white space, and is all the helper wrote;
  and once there is an answer no part of the output is left in memory.
\<close>

theorem helper_answers_a_printable_secret:
  "length (hp_answers (helper_run es)) \<le> 1
   \<and> (case helper_get ref spawned es of
        None \<Rightarrow> True
      | Some None \<Rightarrow> True
      | Some (Some v) \<Rightarrow>
          helper_ref_ok ref \<and> v \<noteq> [] \<and> length v \<le> 2560 \<and> list_all printable_ascii v \<and> (\<exists>rest. concat (map helper_output es) = v @ rest)
          \<and> list_all (\<lambda>c. c = CHR 0x00) (concat (hp_chunks (helper_run es))))"
  using helper_run_inv [of es]
  by (cases "hp_answers (helper_run es)")
    (auto simp: helper_inv_def helper_get_def split: option.splits if_splits)


lemma started_owns: "started listens h = Inr w \<Longrightarrow> ho_state h = HostCreated \<Longrightarrow>
    hw_open w = [0] \<and> ho_state (hw_host w) = HostRunning \<and> ho_server_options (hw_host w) = ho_server_options h
    \<and> is_ok (parseApiOptions (ho_server_options h))"
  by (auto simp: started_def host_start_def fresh_host_def start_listens_def Let_def is_ok_def split: sum.splits if_splits)

text \<open>
  What it means that the gateway of a backend asks a registry: each request is resolved there, and then tried with the caller's services
  under the policies the options give.
\<close>

definition gateway_asks ::
  "(config_world \<times> 'w) services \<Rightarrow> jsval \<Rightarrow> registry \<Rightarrow> ((config_world \<times> 'w) \<times> effect list) gateway
     \<Rightarrow> jsval \<Rightarrow> signal \<Rightarrow> config_world \<times> 'w \<Rightarrow> effect list \<Rightarrow> bool"
where
  "gateway_asks sv options g gateway v sg w trace \<longleftrightarrow>
     (case normalizeRetryPolicy (field options ''retryPolicy'') of
        Inl _ \<Rightarrow> False
      | Inr policy \<Rightarrow>
          gateway v sg (w, trace) =
            (case failover_stream (resolveRouteCandidates g) policy
                    (if field options ''wait'' = JUndef then defaultRetryWait else sv_wait sv)
                    (runCandidateAttempt
                       (new_attempts
                          (if field options ''credentials'' = JUndef then (\<lambda>_ w. (CredentialAbsent, w)) else sv_credentials sv)
                          (sv_http sv) (sv_parse sv) (field options ''maxFrameBytes'') (field options ''maxToolInputBytes'')))
                    v (sv_view sv w sg) w of
               (es, fx, _, w', _) \<Rightarrow> ((es, SrcDone), (w', trace @ fx))))"

lemma handed_options:
  "field (JObj (x @ concat (map (handed options) ks))) k =
     (case map_of x k of Some v \<Rightarrow> v | None \<Rightarrow> if k \<in> set ks then field options k else JUndef)"
proof -
  have skip: "map_of (handed options j) k = (if k = j \<and> field options j \<noteq> JUndef then Some (field options j) else None)" for j
    by (auto simp: handed_def)
  have "map_of (concat (map (handed options) ks)) k =
      (if k \<in> set ks \<and> field options k \<noteq> JUndef then Some (field options k) else None)"
    by (induction ks) (auto simp: skip map_add_def split: option.splits)
  then show ?thesis by (auto simp: map_add_def split: option.splits)
qed

lemma configured_gateway:
  assumes "createAgentBackend (configured_services options sv) (config_backend_options options credentials) = Inr b"
  shows "gateway_asks sv options (cw_registry (fst w)) (al_gateway (bk_loop b)) v sg w trace"
proof -
  have given: "field (config_backend_options options credentials) k = field options k" if "k \<in> set backend_option_keys" for k
  proof -
    have "\<not> list_ex (\<lambda>j. j = ''registry'' \<or> j = ''credentials'') backend_option_keys" by code_simp
    with that have "k \<noteq> ''registry''" and "k \<noteq> ''credentials''" by (auto simp: list_ex_iff)
    with that show ?thesis unfolding config_backend_options_def handed_options by simp
  qed
  have keys: "{''retryPolicy'', ''wait'', ''maxFrameBytes'', ''maxToolInputBytes''} \<subseteq> set backend_option_keys"
    by (simp add: backend_option_keys_def)
  let ?o = "config_backend_options options credentials" and ?sv = "configured_services options sv"
  from keys have opts: "field ?o ''retryPolicy'' = field options ''retryPolicy''" "field ?o ''wait'' = field options ''wait''"
    "field ?o ''maxFrameBytes'' = field options ''maxFrameBytes''"
    "field ?o ''maxToolInputBytes'' = field options ''maxToolInputBytes''" by (simp_all add: given)
  from assms obtain policy ex t m n where policy: "create_gateway ?o = Inr policy"
    and L: "resolveAgentLoopOptions (Callable (backend_gateway ?sv ?o policy)) ex t m n = Inr (bk_loop b)"
    by (auto simp: createAgentBackend_def lift_error_def split: sum.splits)
  from policy have "normalizeRetryPolicy (field options ''retryPolicy'') = Inr policy"
    by (auto simp: create_gateway_def opts split: if_splits)
  moreover from L have "al_gateway (bk_loop b) = backend_gateway ?sv ?o policy"
    by (auto simp: resolveAgentLoopOptions_def split: if_splits) (metis agent_loop.select_convs(1))
  ultimately show ?thesis
    by (simp add: gateway_asks_def backend_gateway_def configured_services_def resilient_stream_def opts)
qed

lemma assembled:
  assumes "assembleConfiguredHost sv E options hc cw = (Inr c, fx)"
  shows "fx = [TriedPort] \<and> cf_world c = cw \<and> cf_manager c = file_config_manager (be_parse E) (be_saves E)
    \<and> gateway_asks sv options (cw_registry (fst w)) (al_gateway (bk_loop (cf_backend c))) v sg w trace
    \<and> hw_open (cf_host c) = [0] \<and> ho_state (hw_host (cf_host c)) = HostRunning
    \<and> (\<exists>a. parseApiOptions (ho_server_options (hw_host (cf_host c))) = Inr a
         \<and> ap_host a \<in> {''127.0.0.1'', ''localhost''} \<and> ap_config_manager a)"
proof -
  let ?v = "JObj [(''host'', fst hc), (''port'', field options ''port''), (''runner'', instance_with [''run'']),
    (''configManager'', config_manager_object)]"
  from assms obtain b h hw where parts: "createLocalAgentHost ?v = Inr h" "started (be_listens E) h = Inr hw"
    "createAgentBackend (configured_services options sv) (config_backend_options options (snd hc)) = Inr b"
    "c = \<lparr>cf_backend = b, cf_manager = file_config_manager (be_parse E) (be_saves E), cf_world = cw, cf_host = hw\<rparr>"
    "fx = tried_port h"
    by (auto simp: assembleConfiguredHost_def split: sum.splits)
  then have v: "validateHostOptions ?v = Inr ()" and h: "h = \<lparr>ho_server_options = server_options ?v, ho_state = HostCreated, ho_server = None, ho_start = None\<rparr>"
    by (cases "validateHostOptions ?v"; auto simp: createLocalAgentHost_def)+
  have hw: "hw_open hw = [0] \<and> ho_state (hw_host hw) = HostRunning \<and> ho_server_options (hw_host hw) = server_options ?v
      \<and> is_ok (parseApiOptions (server_options ?v))"
    using started_owns [OF parts(2)] h by simp
  have "tried_port h = [TriedPort]"
    using parts(2) by (auto simp: started_def tried_port_def split: sum.splits prod.splits if_splits)
  obtain a where a: "parseApiOptions (server_options ?v) = Inr a" using hw by (auto simp: is_ok_def split: sum.splits)
  moreover have "ap_host a \<in> {''127.0.0.1'', ''localhost''} \<and> ap_config_manager a"
    using a server_accepts [OF v] accepted_options [OF v]
    by (auto simp: host_accepts_def config_manager_object_def instance_with_def split: sum.splits if_splits)
  ultimately show ?thesis
    using hw parts(4,5) \<open>tried_port h = [TriedPort]\<close> configured_gateway [OF parts(3)] by simp
qed

lemma assembly_steps: "assembleConfiguredHost sv E options hc cw = (r, fx) \<Longrightarrow> fx = [] \<or> fx = [TriedPort]"
  by (auto simp: assembleConfiguredHost_def tried_port_def split: sum.splits prod.splits if_splits)

lemma created_if_missing:
  assumes "createIfMissing E options disk = (r, disk')"
  shows "disk' = disk \<or> disk = None \<and> field options ''createIfMissing'' = JBool True \<and> be_mkdir E \<and> be_written E \<and> be_renamed E \<and> r = Inr ()"
  using assms by (auto simp: createIfMissing_def saveOnce_def split: if_splits sum.splits)

definition own_error :: "bootstrap_error \<Rightarrow> bool" where
  "own_error e = (case e of StoreRefused _ \<Rightarrow> False | ManagerRefused _ \<Rightarrow> False | _ \<Rightarrow> True)"

lemma checked_options:
  "checkConfiguredOptions E options = Inl e \<Longrightarrow> own_error e"
  "checkConfiguredOptions E options = Inr hc \<Longrightarrow> assertConfigPath (be_absolute E) (field options ''configFilePath'') = Inr ()"
  by (auto simp: checkConfiguredOptions_def Let_def lift_error_def own_error_def split: sum.splits if_split_asm)

lemma config_path_accepted:
  "assertConfigPath is_absolute v = Inr () \<Longrightarrow> \<exists>p. createFileJsonConfigStore is_absolute (JObj [(''filePath'', v)]) = Inr p"
  by (auto simp: assertConfigPath_def createFileJsonConfigStore_def config_path_ok_def split: if_split_asm)

lemma assemble_own_error: "assembleConfiguredHost sv E options hc cw = (Inl e, fx) \<Longrightarrow> own_error e"
  by (auto simp: assembleConfiguredHost_def lift_error_def createConfigManager_def instance_with_def registry_object_def own_error_def
      started_def Let_def split: sum.splits if_splits prod.splits)

lemma load_own_error: "loadConfiguredRegistry E disk = Inl e \<Longrightarrow> own_error e"
  by (auto simp: loadConfiguredRegistry_def own_error_def split: sum.splits if_splits)

lemma create_own_error: "createIfMissing E options disk = (Inl e, disk') \<Longrightarrow> own_error e"
  by (auto simp: createIfMissing_def own_error_def split: sum.splits if_splits prod.splits)

text \<open>The order of the steps: the port is tried only once the registry is restored, and at most once.\<close>

fun in_boot_order :: "boot_effect list \<Rightarrow> bool" where
  "in_boot_order [] = True"
| "in_boot_order [MadeFile] = True"
| "in_boot_order [RestoredRegistry _] = True"
| "in_boot_order [RestoredRegistry _, TriedPort] = True"
| "in_boot_order [MadeFile, RestoredRegistry _] = True"
| "in_boot_order [MadeFile, RestoredRegistry _, TriedPort] = True"
| "in_boot_order _ = False"

definition serves_file ::
  "(config_world \<times> 'w) services \<Rightarrow> bootstrap_env \<Rightarrow> jsval \<Rightarrow> string option \<Rightarrow> 'w configured
     \<Rightarrow> jsval \<Rightarrow> signal \<Rightarrow> config_world \<times> 'w \<Rightarrow> effect list \<Rightarrow> bool"
where
  "serves_file sv E options disk c v sg w trace \<longleftrightarrow>
     disk \<noteq> None \<and> cw_disk (cf_world c) = disk
     \<and> loadProviderRegistry (be_parse E) (be_readable E) disk = Inr (cw_registry (cf_world c))
     \<and> cm_snapshot (cf_manager c) (cf_world c) = Inr (config_value (createConfigSnapshot (cw_registry (cf_world c))))
     \<and> gateway_asks sv options (cw_registry (fst w)) (al_gateway (bk_loop (cf_backend c))) v sg w trace
     \<and> hw_open (cf_host c) = [0] \<and> ho_state (hw_host (cf_host c)) = HostRunning
     \<and> (\<exists>a. parseApiOptions (ho_server_options (hw_host (cf_host c))) = Inr a
          \<and> ap_host a \<in> {''127.0.0.1'', ''localhost''} \<and> ap_config_manager a)"

text \<open>
  C26: a host is started from a file only when the file can be read and holds a valid configuration, and then it serves that.  The port is
  tried only after the registry has been restored from the file, and at most once.  A host that is started begins with this registry and
  this file as the state of its configuration manager, whose snapshot is the registry's; in whatever state the manager has left the shared
  registry by the time of a model request, the gateway of the backend resolves the request there, with the caller's services, and without
  a credential store of the caller finds no credential; the listener is open on a loopback address with the manager attached.  The file is
  left alone, except that one is created where none is and the caller asked for it.
\<close>

theorem configured_host_serves_its_file:
  "case createConfiguredLocalAgentHost sv E options disk of (r, fx, disk') \<Rightarrow>
     (if disk' = disk then True else disk = None \<and> field options ''createIfMissing'' = JBool True \<and> be_mkdir E \<and> be_written E \<and> be_renamed E)
     \<and> in_boot_order fx \<and> (MadeFile \<in> set fx \<longleftrightarrow> disk' \<noteq> disk)
     \<and> list_all (\<lambda>e. case e of RestoredRegistry g \<Rightarrow> loadProviderRegistry (be_parse E) (be_readable E) disk' = Inr g | _ \<Rightarrow> True) fx
     \<and> (case r of
          Inl e \<Rightarrow> own_error e
        | Inr c \<Rightarrow> last fx = TriedPort \<and> serves_file sv E options disk' c v sg w trace)"
proof (cases "checkConfiguredOptions E options")
  case (Inl e)
  then show ?thesis by (simp add: createConfiguredLocalAgentHost_def checked_options(1))
next
  case (Inr hc)
  obtain p where store: "createFileJsonConfigStore (be_absolute E) (JObj [(''filePath'', field options ''configFilePath'')]) = Inr p"
    using config_path_accepted [OF checked_options(2) [OF Inr]] by blast
  obtain created disk' where made: "createIfMissing E options disk = (created, disk')" by fastforce
  show ?thesis
  proof (cases created)
    case refused: (Inl e)
    with created_if_missing [OF made] create_own_error [of E options disk e disk'] made show ?thesis
      by (auto simp: createConfiguredLocalAgentHost_def Inr store)
  next
    case ready: (Inr u)
    let ?made = "if disk' = disk then [] else [MadeFile]"
    show ?thesis
    proof (cases "loadConfiguredRegistry E disk'")
      case failed: (Inl e)
      with created_if_missing [OF made] load_own_error [OF failed] show ?thesis
        by (auto simp: createConfiguredLocalAgentHost_def Inr store made ready Let_def)
    next
      case loaded: (Inr g)
      then have on_disk: "disk' \<noteq> None" "loadProviderRegistry (be_parse E) (be_readable E) disk' = Inr g"
        by (auto simp: loadConfiguredRegistry_def split: if_splits sum.splits)
      let ?cw = "\<lparr>cw_registry = g, cw_disk = disk', cw_saves = 0\<rparr>"
      obtain r fx where run: "assembleConfiguredHost sv E options hc ?cw = (r, fx)" by fastforce
      have eq: "createConfiguredLocalAgentHost sv E options disk = (r, ?made @ RestoredRegistry g # fx, disk')"
        by (simp add: createConfiguredLocalAgentHost_def Inr store made ready loaded run Let_def)
      have "fx = [] \<or> fx = [TriedPort]" by (rule assembly_steps [OF run])
      moreover have "case r of Inl e \<Rightarrow> own_error e | Inr c \<Rightarrow> last fx = TriedPort \<and> fx \<noteq> [] \<and> serves_file sv E options disk' c v sg w trace"
      proof (cases r)
        case (Inl e)
        with assemble_own_error [of sv E options hc ?cw e fx] run show ?thesis by simp
      next
        case (Inr c)
        with assembled [of sv E options hc ?cw c fx] run on_disk show ?thesis
          by (simp add: serves_file_def file_config_manager_def config_get_snapshot_def)
      qed
      ultimately show ?thesis
        using created_if_missing [OF made] on_disk by (cases "fx = []") (auto simp: eq split: sum.splits)
    qed
  qed
qed


text \<open>
  A server whose listener failed, say because the port is taken, keeps its socket: a second \<open>start\<close> returns at once although nothing listens,
  and there is no address.
\<close>

lemma failed_listen_blocks_the_server:
  "(case server_start new_listener of (waits, w) \<Rightarrow>
      case server_listen_failed w of (returns, w') \<Rightarrow>
        waits = Some 0 \<and> \<not> returns \<and> fst (server_start w') = None \<and> lw_open (snd (server_start w')) = [] \<and> lw_address w' = None)"
  by code_simp


definition sample_boot :: bootstrap_env where
  "sample_boot =
     \<lparr>be_absolute = (\<lambda>_. True), be_parse = (\<lambda>_. None), be_mkdir = True, be_written = True, be_renamed = True, be_readable = True,
      be_listens = True, be_saves = (\<lambda>_. (True, True))\<rparr>"

definition sample_boot_options :: jsval where
  "sample_boot_options =
     JObj [(''port'', JNum (Fin 4312)), (''configFilePath'', JStr ''/c.json''), (''createIfMissing'', JBool True)]"

lemma sample_file_restored:
  "case createIfMissing sample_boot sample_boot_options None of
     (r, disk) \<Rightarrow> r = Inr () \<and> disk \<noteq> None \<and> loadConfiguredRegistry sample_boot disk = Inr empty_registry"
  by code_simp

lemma sample_options_checked:
  "checkConfiguredOptions sample_boot sample_boot_options = Inr (JStr ''127.0.0.1'', unavailable_credentials)"
  "createFileJsonConfigStore (be_absolute sample_boot) (JObj [(''filePath'', field sample_boot_options ''configFilePath'')])
     = Inr ''/c.json''"
  by code_simp+

lemma sample_backend_made: "is_ok (createAgentBackend (configured_services sample_boot_options sv)
    (config_backend_options sample_boot_options unavailable_credentials))"
proof -
  let ?o = "config_backend_options sample_boot_options unavailable_credentials"
  have "validateBackendOptions ?o = Inr ()" "is_ok (create_gateway ?o)" "field ?o ''toolExecutor'' = JUndef"
    "field ?o ''maxTurns'' = JUndef" "field ?o ''maxToolCallsPerTurn'' = JUndef" "field ?o ''maxToolResultBytes'' = JUndef" by code_simp+
  then show ?thesis
    by (auto simp: createAgentBackend_def create_executor_def resolveAgentLoopOptions_def resolveLimit_def lift_error_def is_ok_def
        split: sum.splits)
qed

text \<open>There is such a host: without a file, one is made, and then the empty configuration is served.\<close>

lemma configured_host_starts:
  "case createConfiguredLocalAgentHost sv sample_boot sample_boot_options None of
     (r, fx, disk) \<Rightarrow> is_ok r \<and> fx = [MadeFile, RestoredRegistry empty_registry, TriedPort] \<and> disk \<noteq> None"
proof -
  let ?v = "JObj [(''host'', JStr ''127.0.0.1''), (''port'', field sample_boot_options ''port''), (''runner'', instance_with [''run'']),
    (''configManager'', config_manager_object)]"
  have up: "case createLocalAgentHost ?v of Inl _ \<Rightarrow> False | Inr h \<Rightarrow> is_ok (started True h) \<and> tried_port h = [TriedPort]" by code_simp
  have manager: "createConfigManager (JObj [(''registry'', registry_object), (''jsonStore'', instance_with [''load'', ''save''])]) = Inr ()"
    by code_simp
  obtain disk where made: "createIfMissing sample_boot sample_boot_options None = (Inr (), Some disk)"
    "loadConfiguredRegistry sample_boot (Some disk) = Inr empty_registry"
    using sample_file_restored by (auto split: prod.splits)
  have "be_listens sample_boot" by (simp add: sample_boot_def)
  with up sample_backend_made [of sv] show ?thesis
    unfolding createConfiguredLocalAgentHost_def assembleConfiguredHost_def sample_options_checked made
    by (auto simp: manager made is_ok_def split: sum.splits)
qed

end
