(* ===== verification/Discovery.thy ===== *)
theory Discovery
  imports Http_Attempt
begin

text \<open>
  \<open>packages/provider-discovery/src\<close>: the health check and the model catalogue of a provider: options, the one request it makes with its race
  against cancellation, the reading of the body and the parsing of the catalogue.  The registry, the credential store, the HTTP client and the
  clock are what the caller injects, on a world \<open>'w\<close>; the URL parser is a parameter.
\<close>

section \<open>Errors\<close>

datatype discovery_error =
    DiscInvalidOptions
  | DiscInvalidProviderId
  | DiscProviderNotFound
  | DiscProviderDisabled
  | DiscMissingCredential
  | DiscCredentialNotFound
  | DiscUnauthorized
  | DiscRateLimited
  | DiscUpstreamUnavailable
  | DiscProtocolError
  | DiscAborted
  | DiscInvalidCatalog
  | DiscDuplicateModelId
  | DiscTooLarge

fun discovery_code :: "discovery_error \<Rightarrow> string" where
  "discovery_code DiscInvalidOptions = ''invalid_discovery_options''"
| "discovery_code DiscInvalidProviderId = ''invalid_provider_id''"
| "discovery_code DiscProviderNotFound = ''provider_not_found''"
| "discovery_code DiscProviderDisabled = ''provider_disabled''"
| "discovery_code DiscMissingCredential = ''missing_credential''"
| "discovery_code DiscCredentialNotFound = ''credential_not_found''"
| "discovery_code DiscUnauthorized = ''unauthorized''"
| "discovery_code DiscRateLimited = ''rate_limited''"
| "discovery_code DiscUpstreamUnavailable = ''upstream_unavailable''"
| "discovery_code DiscProtocolError = ''provider_protocol_error''"
| "discovery_code DiscAborted = ''aborted''"
| "discovery_code DiscInvalidCatalog = ''invalid_model_catalog''"
| "discovery_code DiscDuplicateModelId = ''duplicate_model_id''"
| "discovery_code DiscTooLarge = ''response_too_large''"

fun discovery_message :: "discovery_error \<Rightarrow> string" where
  "discovery_message DiscInvalidOptions = ''Provider discovery options are invalid.''"
| "discovery_message DiscInvalidProviderId = ''Provider id is invalid.''"
| "discovery_message DiscProviderNotFound = ''Provider is not registered.''"
| "discovery_message DiscProviderDisabled = ''Provider is disabled.''"
| "discovery_message DiscMissingCredential = ''Provider has no credential reference.''"
| "discovery_message DiscCredentialNotFound = ''Credential is not available.''"
| "discovery_message DiscUnauthorized = ''Provider rejected the credential.''"
| "discovery_message DiscRateLimited = ''Provider rate limited the request.''"
| "discovery_message DiscUpstreamUnavailable = ''Provider is unavailable.''"
| "discovery_message DiscProtocolError = ''Provider returned an unexpected protocol response.''"
| "discovery_message DiscAborted = ''Request aborted.''"
| "discovery_message DiscInvalidCatalog = ''Model catalog is invalid.''"
| "discovery_message DiscDuplicateModelId = ''Model catalog contains a duplicate id.''"
| "discovery_message DiscTooLarge = ''Provider response exceeded the size limit.''"

text \<open>A rejection: an error of this package, or one that an injected object or another package threw.\<close>

datatype discovery_failure = DiscFailed discovery_error | DiscEscaped

section \<open>Options\<close>

definition default_max_response_bytes :: nat where "default_max_response_bytes = 1024 * 1024"
definition max_response_bytes_limit :: nat where "max_response_bytes_limit = 8 * 1024 * 1024"

definition normalizeMaxBytes :: "jsval \<Rightarrow> discovery_error + nat" where
  "normalizeMaxBytes v =
     (case v of
        JUndef \<Rightarrow> Inr default_max_response_bytes
      | JNum n \<Rightarrow>
          if \<not> is_integer n \<or> num_le n (Fin 0) \<or> num_less (jsnat max_response_bytes_limit) n then Inl DiscInvalidOptions
          else Inr (num_nat n)
      | _ \<Rightarrow> Inl DiscInvalidOptions)"

definition assertCallable :: "jsval \<Rightarrow> string \<Rightarrow> discovery_error + unit" where
  "assertCallable v name =
     (if \<not> is_object v \<and> \<not> is_array v then Inl DiscInvalidOptions
      else if field v name \<noteq> JFun then Inl DiscInvalidOptions
      else Inr ())"

text \<open>The limit the options leave; what they inject is in \<open>discovery\<close> below.\<close>

definition assertOptions :: "jsval \<Rightarrow> discovery_error + nat" where
  "assertOptions options =
     (if \<not> is_object options then Inl DiscInvalidOptions
      else if nullish (field options ''registry'') then Inl DiscInvalidOptions
      else
        rbind (assertCallable (field options ''registry'') ''getProvider'') (\<lambda>_.
        if nullish (field options ''credentialStore'') then Inl DiscInvalidOptions
        else
          rbind (assertCallable (field options ''credentialStore'') ''get'') (\<lambda>_.
          if field options ''httpClient'' \<noteq> JFun then Inl DiscInvalidOptions
          else if \<not> nullish (field options ''clock'') \<and> field options ''clock'' \<noteq> JFun then Inl DiscInvalidOptions
          else normalizeMaxBytes (field options ''maxResponseBytes''))))"

section \<open>The model catalogue\<close>

record model_entry =
  mo_id :: string
  mo_created :: "jsnum option"
  mo_created_at :: "string option"
  mo_owned_by :: "string option"
  mo_display_name :: "string option"

definition optional_text :: "jsval \<Rightarrow> discovery_error + string option" where
  "optional_text v = (case v of JUndef \<Rightarrow> Inr None | JStr s \<Rightarrow> Inr (Some s) | _ \<Rightarrow> Inl DiscProtocolError)"

definition optional_number :: "jsval \<Rightarrow> discovery_error + jsnum option" where
  "optional_number v =
     (case v of
        JUndef \<Rightarrow> Inr None
      | JNum n \<Rightarrow> if is_finite n then Inr (Some n) else Inl DiscProtocolError
      | _ \<Rightarrow> Inl DiscProtocolError)"

definition parseModelEntry :: "jsval \<Rightarrow> discovery_error + model_entry" where
  "parseModelEntry raw =
     (if \<not> isPlainObject raw then Inl DiscProtocolError
      else if \<not> is_string (field raw ''id'') \<or> as_str (field raw ''id'') = [] then Inl DiscProtocolError
      else
        rbind (optional_number (field raw ''created'')) (\<lambda>created.
        rbind (optional_text (field raw ''created_at'')) (\<lambda>created_at.
        rbind (optional_text (field raw ''owned_by'')) (\<lambda>owned_by.
        rbind (optional_text (field raw ''display_name'')) (\<lambda>display_name.
        Inr \<lparr>mo_id = as_str (field raw ''id''), mo_created = created, mo_created_at = created_at, mo_owned_by = owned_by,
             mo_display_name = display_name\<rparr>)))))"

text \<open>The loop over \<open>data\<close>: \<open>seen\<close> and \<open>models\<close>.\<close>

fun parse_models :: "jsval list \<Rightarrow> string set \<Rightarrow> discovery_error + model_entry list" where
  "parse_models [] seen = Inr []"
| "parse_models (v # vs) seen =
     rbind (parseModelEntry v) (\<lambda>e.
     if mo_id e \<in> seen then Inl DiscDuplicateModelId
     else rbind (parse_models vs (insert (mo_id e) seen)) (\<lambda>es. Inr (e # es)))"

record model_catalog =
  ca_provider :: string
  ca_protocol :: provider_protocol
  ca_models :: "model_entry list"
  ca_checked :: jsnum

definition parseModelCatalogDocument :: "string \<Rightarrow> string \<Rightarrow> provider_protocol \<Rightarrow> jsnum \<Rightarrow> discovery_error + model_catalog" where
  "parseModelCatalogDocument text i protocol checkedAt =
     (case json_parse text of
        None \<Rightarrow> Inl DiscProtocolError
      | Some parsed \<Rightarrow>
          if \<not> isPlainObject parsed then Inl DiscProtocolError
          else if \<not> is_array (field parsed ''data'') then Inl DiscProtocolError
          else
            rbind (parse_models (as_arr (field parsed ''data'')) {}) (\<lambda>models.
            Inr \<lparr>ca_provider = i, ca_protocol = protocol, ca_models = models, ca_checked = checkedAt\<rparr>))"

section \<open>The body\<close>

text \<open>The two reads of the flag before a chunk is waited for and the race with the abort event.\<close>

definition chunk_aborted :: "signal \<Rightarrow> bool \<times> signal" where
  "chunk_aborted sg =
     (case observe sg of (a, sg1) \<Rightarrow> if a then (True, sg1) else
        (case observe sg1 of (b, sg2) \<Rightarrow> if b then (True, sg2) else observe sg2))"

text \<open>
  \<open>readBodyText\<close>; \<open>None\<close> stands for a chunk that is not a \<open>Uint8Array\<close>.  The chunks are joined and decoded at the end.
\<close>

fun body_chunks :: "nat \<Rightarrow> string \<Rightarrow> string option list \<Rightarrow> src_end \<Rightarrow> signal \<Rightarrow> (discovery_error + string) \<times> signal" where
  "body_chunks limit got [] en sg =
     (case chunk_aborted sg of (aborted, sg') \<Rightarrow>
        (if aborted then Inl DiscAborted else if en = SrcThrow then Inl DiscProtocolError else Inr got, sg'))"
| "body_chunks limit got (value # values) en sg =
     (case chunk_aborted sg of (aborted, sg') \<Rightarrow>
        if aborted then (Inl DiscAborted, sg')
        else
          (case value of
             None \<Rightarrow> (Inl DiscProtocolError, sg')
           | Some bytes \<Rightarrow>
               if limit < length got + length bytes then (Inl DiscTooLarge, sg')
               else body_chunks limit (got @ bytes) values en sg'))"

definition decode_utf8 :: "string \<Rightarrow> string option" where
  "decode_utf8 bytes =
     (case decode_bytes td_init bytes of
        None \<Rightarrow> None
      | Some (d, text) \<Rightarrow> if decode_flush_ok d then Some text else None)"

definition discovery_body :: "string option source \<Rightarrow> nat \<Rightarrow> signal \<Rightarrow> (discovery_error + string) \<times> signal" where
  "discovery_body body limit sg =
     (case body_chunks limit [] (fst body) (snd body) sg of
        (Inl e, sg') \<Rightarrow> (Inl e, sg')
      | (Inr bytes, sg') \<Rightarrow> (case decode_utf8 bytes of None \<Rightarrow> Inl DiscProtocolError | Some text \<Rightarrow> Inr text, sg'))"

section \<open>The request\<close>

record discovery_response =
  dr_status :: nat
  dr_body :: "string option source option"

text \<open>
  An HTTP client throws at once, or its promise rejects, or resolves; a failure may itself be the \<open>aborted\<close> error of this package.
\<close>

datatype discovery_answer = AnswerThrew bool | AnswerRejected bool | AnswerCame discovery_response

datatype disc_effect = RegistryRead string | SecretRead string | GetSent http_request | BodyLeft

record 'w discovery =
  dv_registry :: "'w \<Rightarrow> registry"
  dv_credentials :: "string \<Rightarrow> 'w \<Rightarrow> credential_read \<times> 'w"
  dv_http :: "http_request \<Rightarrow> 'w \<Rightarrow> discovery_answer \<times> 'w"
  dv_clock :: "'w \<Rightarrow> rat \<times> 'w"
  dv_parse :: url_parser
  dv_limit :: nat

definition anthropic_models_endpoint :: string where "anthropic_models_endpoint = ''/v1/models''"
definition openai_models_endpoint :: string where "openai_models_endpoint = ''/models''"

definition models_endpoint :: "provider_protocol \<Rightarrow> string" where
  "models_endpoint p = (if p = AnthropicMessages then anthropic_models_endpoint else openai_models_endpoint)"

definition discovery_headers :: "provider_protocol \<Rightarrow> string \<Rightarrow> (string \<times> string) list" where
  "discovery_headers p secret = (if p = AnthropicMessages then buildAnthropicHeaders secret else buildOpenAIChatHeaders secret)"

definition mapStatusToError :: "nat \<Rightarrow> discovery_error" where
  "mapStatusToError status =
     (if status = 401 \<or> status = 403 then DiscUnauthorized
      else if status = 429 then DiscRateLimited
      else DiscUpstreamUnavailable)"

definition resolveProvider :: "registry \<Rightarrow> jsval \<Rightarrow> discovery_error + provider_definition" where
  "resolveProvider g v =
     (if \<not> is_string v \<or> \<not> matches_id (as_str v) then Inl DiscInvalidProviderId
      else
        (case getProvider g (as_str v) of
           None \<Rightarrow> Inl DiscProviderNotFound
         | Some p \<Rightarrow> if \<not> pv_enabled p then Inl DiscProviderDisabled else Inr p))"

text \<open>\<open>None\<close> when the URL is refused, with an error of the other package.\<close>

definition discovery_request :: "url_parser \<Rightarrow> provider_definition \<Rightarrow> string \<Rightarrow> http_request option" where
  "discovery_request parse p secret =
     map_option (\<lambda>url. \<lparr>hr_url = url, hr_headers = discovery_headers (pv_protocol p) secret, hr_body = []\<rparr>)
       (buildProviderUrl parse (pv_base_url p) (models_endpoint (pv_protocol p)))"

text \<open>The results of the stretches below: what was thrown or read, the effects, the signal and the world.\<close>

type_synonym ('w, 'a) disc_run = "(discovery_failure + 'a) \<times> disc_effect list \<times> signal \<times> 'w"

definition left_body :: "discovery_response \<Rightarrow> disc_effect list" where
  "left_body r = (if dr_body r = None then [] else [BodyLeft])"

text \<open>The failure of the client: the flag is read where it is caught and again by the caller.\<close>

definition client_failed :: "bool \<Rightarrow> signal \<Rightarrow> discovery_error \<times> signal" where
  "client_failed own sg =
     (case (if own then (True, sg) else observe sg) of (caught, sg1) \<Rightarrow>
        if caught then (DiscAborted, sg1)
        else (case observe sg1 of (aborted, sg2) \<Rightarrow> (if aborted then DiscAborted else DiscUpstreamUnavailable, sg2)))"

definition fetchCatalogText :: "'w discovery \<Rightarrow> http_request \<Rightarrow> signal \<Rightarrow> 'w \<Rightarrow> ('w, string) disc_run" where
  "fetchCatalogText D request sg w =
     (case observe sg of (stopped, sg1) \<Rightarrow>
        if stopped then (Inl (DiscFailed DiscAborted), [], sg1, w)
        else
          (case dv_http D request w of (answer, w') \<Rightarrow>
             (case answer of
                AnswerThrew own \<Rightarrow>
                  (case client_failed own sg1 of (e, sg2) \<Rightarrow> (Inl (DiscFailed e), [GetSent request], sg2, w'))
              | AnswerRejected own \<Rightarrow>
                  (case observe sg1 of (raced, sg2) \<Rightarrow>
                     if raced then (Inl (DiscFailed DiscAborted), [GetSent request], sg2, w')
                     else
                       (case client_failed own sg2 of (e, sg3) \<Rightarrow> (Inl (DiscFailed e), [GetSent request], sg3, w')))
              | AnswerCame response \<Rightarrow>
                  (case observe sg1 of (raced, sg2) \<Rightarrow>
                     if raced then (Inl (DiscFailed DiscAborted), GetSent request # left_body response, sg2, w')
                     else
                       (case observe sg2 of (aborted, sg3) \<Rightarrow>
                          if aborted then (Inl (DiscFailed DiscAborted), GetSent request # left_body response, sg3, w')
                          else if dr_status response < 200 \<or> 300 \<le> dr_status response then
                            (Inl (DiscFailed (mapStatusToError (dr_status response))), GetSent request # left_body response, sg3, w')
                          else
                            (case dr_body response of
                               None \<Rightarrow> (Inl (DiscFailed DiscProtocolError), [GetSent request], sg3, w')
                             | Some body \<Rightarrow>
                                 (case discovery_body body (dv_limit D) sg3 of
                                    (Inl e, sg4) \<Rightarrow> (Inl (DiscFailed e), [GetSent request], sg4, w')
                                  | (Inr text, sg4) \<Rightarrow> (Inr text, [GetSent request], sg4, w'))))))))"

text \<open>\<open>loadCatalog\<close>, up to the credential, after it, and the whole.\<close>

definition request_catalog ::
  "'w discovery \<Rightarrow> provider_definition \<Rightarrow> string \<Rightarrow> jsnum \<Rightarrow> signal \<Rightarrow> 'w \<Rightarrow> ('w, model_catalog) disc_run"
where
  "request_catalog D p secret checkedAt sg w =
     (case discovery_request (dv_parse D) p secret of
        None \<Rightarrow> (Inl DiscEscaped, [], sg, w)
      | Some request \<Rightarrow>
          (case fetchCatalogText D request sg w of
             (Inl e, fx, sg1, w1) \<Rightarrow> (Inl e, fx, sg1, w1)
           | (Inr text, fx, sg1, w1) \<Rightarrow>
               (case observe sg1 of (aborted, sg2) \<Rightarrow>
                  if aborted then (Inl (DiscFailed DiscAborted), fx, sg2, w1)
                  else
                    (case parseModelCatalogDocument text (pv_id p) (pv_protocol p) checkedAt of
                       Inl e \<Rightarrow> (Inl (DiscFailed e), fx, sg2, w1)
                     | Inr c \<Rightarrow> (Inr c, fx, sg2, w1)))))"

definition with_secret ::
  "'w discovery \<Rightarrow> provider_definition \<Rightarrow> string \<Rightarrow> jsnum \<Rightarrow> signal \<Rightarrow> 'w \<Rightarrow> ('w, model_catalog) disc_run"
where
  "with_secret D p ref checkedAt sg w =
     (case dv_credentials D ref w of
        (CredentialFailed, w1) \<Rightarrow> (Inl DiscEscaped, [SecretRead ref], sg, w1)
      | (got, w1) \<Rightarrow>
          (case observe sg of (aborted, sg1) \<Rightarrow>
             if aborted then (Inl (DiscFailed DiscAborted), [SecretRead ref], sg1, w1)
             else
               (case got of
                  CredentialSecret secret \<Rightarrow>
                    if secret = [] then (Inl (DiscFailed DiscCredentialNotFound), [SecretRead ref], sg1, w1)
                    else
                      (case request_catalog D p secret checkedAt sg1 w1 of
                         (r, fx, sg2, w2) \<Rightarrow> (r, SecretRead ref # fx, sg2, w2))
                | _ \<Rightarrow> (Inl (DiscFailed DiscCredentialNotFound), [SecretRead ref], sg1, w1))))"

definition loadCatalog :: "'w discovery \<Rightarrow> jsval \<Rightarrow> signal \<Rightarrow> jsnum \<Rightarrow> 'w \<Rightarrow> ('w, model_catalog) disc_run" where
  "loadCatalog D i sg checkedAt w =
     (case observe sg of (aborted, sg1) \<Rightarrow>
        if aborted then (Inl (DiscFailed DiscAborted), [], sg1, w)
        else
          (let fx = (if is_string i \<and> matches_id (as_str i) then [RegistryRead (as_str i)] else []) in
           case resolveProvider (dv_registry D w) i of
             Inl e \<Rightarrow> (Inl (DiscFailed e), fx, sg1, w)
           | Inr p \<Rightarrow>
               (case pv_credential p of
                  None \<Rightarrow> (Inl (DiscFailed DiscMissingCredential), fx, sg1, w)
                | Some ref \<Rightarrow>
                    (case with_secret D p ref checkedAt sg1 w of (r, fx', sg2, w2) \<Rightarrow> (r, fx @ fx', sg2, w2)))))"

section \<open>The two calls\<close>

datatype health_status = Healthy | Unauthorized | HealthRateLimited | Unavailable | HealthProtocolError | HealthAborted

record provider_health =
  ph_provider :: string
  ph_status :: health_status
  ph_latency :: rat
  ph_checked :: rat

definition config_error_codes :: "string list" where
  "config_error_codes =
     [''invalid_provider_id'', ''provider_not_found'', ''provider_disabled'', ''missing_credential'', ''credential_not_found'',
      ''invalid_discovery_options'']"

definition isConfigError :: "discovery_failure \<Rightarrow> bool" where
  "isConfigError e = (case e of DiscFailed d \<Rightarrow> discovery_code d \<in> set config_error_codes | DiscEscaped \<Rightarrow> False)"

definition healthStatusForError :: "discovery_failure \<Rightarrow> health_status" where
  "healthStatusForError e =
     (case e of
        DiscEscaped \<Rightarrow> Unavailable
      | DiscFailed d \<Rightarrow>
          if discovery_code d = ''aborted'' then HealthAborted
          else if discovery_code d = ''unauthorized'' then Unauthorized
          else if discovery_code d = ''rate_limited'' then HealthRateLimited
          else if discovery_code d \<in> {''provider_protocol_error'', ''invalid_model_catalog'', ''duplicate_model_id'', ''response_too_large''}
            then HealthProtocolError
          else Unavailable)"

definition listModels :: "'w discovery \<Rightarrow> jsval \<Rightarrow> signal \<Rightarrow> 'w \<Rightarrow> ('w, model_catalog) disc_run" where
  "listModels D i sg w = (case dv_clock D w of (checkedAt, w1) \<Rightarrow> loadCatalog D i sg (Fin checkedAt) w1)"

definition checkProvider :: "'w discovery \<Rightarrow> jsval \<Rightarrow> signal \<Rightarrow> 'w \<Rightarrow> ('w, provider_health) disc_run" where
  "checkProvider D i sg w =
     (case dv_clock D w of (startedAt, w1) \<Rightarrow>
        (case loadCatalog D i sg (Fin startedAt) w1 of
           (r, fx, sg2, w2) \<Rightarrow>
             (case dv_clock D w2 of (finishedAt, w3) \<Rightarrow>
                (let health = (\<lambda>s. \<lparr>ph_provider = as_str i, ph_status = s, ph_latency = max 0 (finishedAt - startedAt), ph_checked = finishedAt\<rparr>) in
                 case r of
                   Inr _ \<Rightarrow> (Inr (health Healthy), fx, sg2, w3)
                 | Inl e \<Rightarrow>
                     if isConfigError e then (Inl e, fx, sg2, w2)
                     else (Inr (health (healthStatusForError e)), fx, sg2, w3)))))"


section \<open>The catalogue\<close>

lemma parse_models_exact:
  "parse_models vs seen = Inr es \<longleftrightarrow> rmap parseModelEntry vs = Inr es \<and> distinct (map mo_id es) \<and> list_all (\<lambda>e. mo_id e \<notin> seen) es"
proof (induction vs arbitrary: seen es)
  case (Cons v vs)
  show ?case
  proof (cases "parseModelEntry v")
    case (Inr e)
    show ?thesis
    proof (cases "mo_id e \<in> seen")
      case True
      then show ?thesis by (cases "rmap parseModelEntry vs") (auto simp: Inr)
    next
      case False
      have apart: "list_all (\<lambda>x. mo_id x \<notin> insert a seen) fs \<longleftrightarrow> a \<notin> mo_id ` set fs \<and> list_all (\<lambda>x. mo_id x \<notin> seen) fs" for a fs
        by (induction fs) auto
      have "parse_models (v # vs) seen = Inr es
          \<longleftrightarrow> (\<exists>fs. es = e # fs \<and> parse_models vs (insert (mo_id e) seen) = Inr fs)"
        using False by (cases "parse_models vs (insert (mo_id e) seen)") (auto simp: Inr)
      also have "\<dots> \<longleftrightarrow> rmap parseModelEntry (v # vs) = Inr es \<and> distinct (map mo_id es) \<and> list_all (\<lambda>e. mo_id e \<notin> seen) es"
        using False by (cases "rmap parseModelEntry vs") (auto simp: Inr Cons.IH apart simp del: insert_iff)
      finally show ?thesis .
    qed
  qed simp
qed auto

lemma all_models_exact: "parse_models vs {} = Inr es \<longleftrightarrow> rmap parseModelEntry vs = Inr es \<and> distinct (map mo_id es)"
  using parse_models_exact [of vs "{}" es] by (simp add: list_all_iff)

text \<open>
  A catalogue is what the document says: it is accepted exactly when the text is JSON of an object whose \<open>data\<close> is an array of
  well-formed entries with distinct identifiers, and holds these entries in their order.
\<close>

theorem catalog_exact:
  "parseModelCatalogDocument text i protocol checkedAt = Inr c \<longleftrightarrow>
     (\<exists>v vs es. json_parse text = Some v \<and> isPlainObject v \<and> field v ''data'' = JArr vs
        \<and> rmap parseModelEntry vs = Inr es \<and> distinct (map mo_id es)
        \<and> c = \<lparr>ca_provider = i, ca_protocol = protocol, ca_models = es, ca_checked = checkedAt\<rparr>)"
proof (cases "json_parse text")
  case (Some v)
  show ?thesis
  proof (cases "isPlainObject v \<and> is_array (field v ''data'')")
    case True
    then obtain vs where vs: "field v ''data'' = JArr vs" by (cases "field v ''data''") auto
    with True show ?thesis
      by (cases "parse_models vs {}")
        (use all_models_exact [of vs] in \<open>auto simp: parseModelCatalogDocument_def Some\<close>)
  next
    case False
    then show ?thesis by (auto simp: parseModelCatalogDocument_def Some)
  qed
qed (simp add: parseModelCatalogDocument_def)

section \<open>What a call does\<close>

fun get_of :: "disc_effect \<Rightarrow> http_request option" where
  "get_of (GetSent q) = Some q" | "get_of _ = None"

fun secret_of :: "disc_effect \<Rightarrow> string option" where
  "secret_of (SecretRead ref) = Some ref" | "secret_of _ = None"

abbreviation gets :: "disc_effect list \<Rightarrow> http_request list" where
  "gets fx \<equiv> List.map_filter get_of fx"

abbreviation secrets_read :: "disc_effect list \<Rightarrow> string list" where
  "secrets_read fx \<equiv> List.map_filter secret_of fx"

lemma effects_of:
  "gets [] = []" "gets (e # fx) = (case get_of e of None \<Rightarrow> gets fx | Some q \<Rightarrow> q # gets fx)"
  "secrets_read [] = []" "secrets_read (e # fx) = (case secret_of e of None \<Rightarrow> secrets_read fx | Some r \<Rightarrow> r # secrets_read fx)"
  by (simp_all add: List.map_filter_def split: option.split)

lemma fetch_effects:
  "fetchCatalogText D q sg w = (r, fx, sg', w') \<Longrightarrow> (gets fx = [] \<or> gets fx = [q]) \<and> secrets_read fx = [] \<and> (\<forall>x. r \<noteq> Inl DiscEscaped)"
  by (auto simp: fetchCatalogText_def effects_of left_body_def split: prod.splits if_splits discovery_answer.splits option.splits sum.splits)

lemma catalog_effects:
  assumes "request_catalog D p secret t sg w = (r, fx, sg', w')"
  shows "secrets_read fx = [] \<and> (gets fx = [] \<or> (\<exists>q. discovery_request (dv_parse D) p secret = Some q \<and> gets fx = [q]))
    \<and> (case r of Inl _ \<Rightarrow> True | Inr c \<Rightarrow> ca_provider c = pv_id p \<and> ca_protocol c = pv_protocol p \<and> distinct (map mo_id (ca_models c)))"
proof (cases "discovery_request (dv_parse D) p secret")
  case None
  with assms show ?thesis by (auto simp: request_catalog_def effects_of)
next
  case (Some q)
  obtain a gx sg1 w1 where f: "fetchCatalogText D q sg w = (a, gx, sg1, w1)" by (rule prod_cases4)
  from fetch_effects [OF f] have gx: "gets gx = [] \<or> gets gx = [q]" "secrets_read gx = []" by simp_all
  have fx: "fx = gx" using assms
    by (auto simp: request_catalog_def Some f split: sum.splits prod.splits if_splits)
  have "distinct (map mo_id (ca_models c)) \<and> ca_provider c = pv_id p \<and> ca_protocol c = pv_protocol p"
    if "parseModelCatalogDocument doc (pv_id p) (pv_protocol p) t = Inr c" for doc c
  proof -
    from that have "is_ok (parse_models (as_arr (field (the (json_parse doc)) ''data'')) {})"
      by (auto simp: parseModelCatalogDocument_def is_ok_def split: option.splits if_splits sum.splits)
    then show ?thesis using that all_models_exact
      by (auto simp: parseModelCatalogDocument_def is_ok_def split: option.splits if_splits sum.splits)
  qed
  then have "case r of Inl _ \<Rightarrow> True | Inr c \<Rightarrow> ca_provider c = pv_id p \<and> ca_protocol c = pv_protocol p \<and> distinct (map mo_id (ca_models c))"
    using assms by (auto simp: request_catalog_def Some f split: sum.splits prod.splits if_splits)
  with gx fx Some show ?thesis by auto
qed


text \<open>
  What a call may do, told without the code's own helpers.  A provider is known under the text \<open>k\<close>; a secret is due to it when it
  is enabled and the store answers a secret under its credential reference; and the one request to it is a GET of its base address with
  the models path of its protocol, an http or https address without a login, with the protocol's headers and an empty body.
\<close>

definition discoverable :: "'w discovery \<Rightarrow> string \<Rightarrow> 'w \<Rightarrow> provider_definition \<Rightarrow> string \<Rightarrow> bool" where
  "discoverable D k w p ref \<longleftrightarrow>
     matches_id k \<and> map_of (providers (dv_registry D w)) k = Some p \<and> pv_enabled p \<and> pv_credential p = Some ref"

definition models_query :: "url_parser \<Rightarrow> provider_definition \<Rightarrow> string \<Rightarrow> http_request \<Rightarrow> bool" where
  "models_query parse p secret q \<longleftrightarrow>
     hr_url q = strip_trailing_slashes (pv_base_url p)
                  @ (case pv_protocol p of AnthropicMessages \<Rightarrow> ''/v1/models'' | _ \<Rightarrow> ''/models'')
     \<and> (case parse (hr_url q) of
          None \<Rightarrow> False
        | Some u \<Rightarrow> url_protocol u \<in> {''http:'', ''https:''} \<and> url_username u = [] \<and> url_password u = [])
     \<and> hr_headers q =
         [(''content-type'', ''application/json''), (''accept'', ''text/event-stream'')]
         @ (case pv_protocol p of
              AnthropicMessages \<Rightarrow> [(''anthropic-version'', ''2023-06-01''), (''x-api-key'', secret)]
            | _ \<Rightarrow> [(''authorization'', ''Bearer '' @ secret)])
     \<and> hr_body q = []"

definition entitled :: "'w discovery \<Rightarrow> string \<Rightarrow> 'w \<Rightarrow> string \<Rightarrow> http_request \<Rightarrow> bool" where
  "entitled D k w ref q \<longleftrightarrow>
     (\<exists>p secret. discoverable D k w p ref \<and> fst (dv_credentials D ref w) = CredentialSecret secret \<and> secret \<noteq> []
        \<and> models_query (dv_parse D) p secret q)"

fun asked_once :: "'w discovery \<Rightarrow> jsval \<Rightarrow> 'w \<Rightarrow> disc_effect list \<Rightarrow> bool" where
  "asked_once D i w [] = True"
| "asked_once D (JStr k) w [RegistryRead j] = (j = k \<and> matches_id k)"
| "asked_once D (JStr k) w [RegistryRead j, SecretRead ref] = (j = k \<and> (\<exists>p. discoverable D k w p ref))"
| "asked_once D (JStr k) w [RegistryRead j, SecretRead ref, GetSent q] = (j = k \<and> entitled D k w ref q)"
| "asked_once D (JStr k) w [RegistryRead j, SecretRead ref, GetSent q, BodyLeft] = (j = k \<and> entitled D k w ref q)"
| "asked_once D i w _ = False"

definition catalog_named :: "discovery_failure + model_catalog \<Rightarrow> bool" where
  "catalog_named r = (case r of Inl _ \<Rightarrow> True | Inr c \<Rightarrow> distinct (map mo_id (ca_models c)))"

lemma models_query_iff: "models_query parse p secret q \<longleftrightarrow> discovery_request parse p secret = Some q"
proof -
  have url: "buildProviderUrl parse b e = Some u \<longleftrightarrow>
      u = strip_trailing_slashes b @ e
      \<and> (case parse u of None \<Rightarrow> False
         | Some v \<Rightarrow> url_protocol v \<in> {''http:'', ''https:''} \<and> url_username v = [] \<and> url_password v = [])" for b e u
    by (auto simp: buildProviderUrl_def Let_def split: option.splits if_splits)
  show ?thesis
    by (cases q; cases "pv_protocol p")
      (auto simp: models_query_def discovery_request_def url discovery_headers_def buildAnthropicHeaders_def
        buildOpenAIChatHeaders_def models_endpoint_def anthropic_models_endpoint_def openai_models_endpoint_def)
qed

lemma resolveProvider_iff:
  "resolveProvider (dv_registry D w) i = Inr p \<and> pv_credential p = Some ref
     \<longleftrightarrow> (\<exists>k. i = JStr k \<and> discoverable D k w p ref)"
  by (cases i) (auto simp: resolveProvider_def discoverable_def getProvider_def split: option.splits)

lemma fetch_shape:
  "fetchCatalogText D q sg w = (r, fx, sg', w') \<Longrightarrow>
     (fx = [] \<or> fx = [GetSent q] \<or> fx = [GetSent q, BodyLeft]) \<and> (if is_ok r \<or> sg = None then fx \<noteq> [] else True)"
  by (auto simp: fetchCatalogText_def left_body_def is_ok_def dest: observe_aborted
      split: prod.splits if_splits discovery_answer.splits option.splits sum.splits)

lemma catalog_shape:
  assumes "request_catalog D p secret t sg w = (r, fx, sg', w')"
  shows "(fx = [] \<or> (\<exists>q. models_query (dv_parse D) p secret q \<and> (fx = [GetSent q] \<or> fx = [GetSent q, BodyLeft])))
    \<and> (if is_ok r \<or> sg = None \<and> (\<exists>q. models_query (dv_parse D) p secret q) then fx \<noteq> [] else True)"
proof (cases "discovery_request (dv_parse D) p secret")
  case None
  with assms show ?thesis by (auto simp: request_catalog_def models_query_iff is_ok_def)
next
  case (Some q)
  obtain a gx sg1 w1 where f: "fetchCatalogText D q sg w = (a, gx, sg1, w1)" by (rule prod_cases4)
  have "fx = gx" and "is_ok r \<Longrightarrow> is_ok a" using assms
    by (auto simp: request_catalog_def Some f is_ok_def split: sum.splits prod.splits if_splits)
  with fetch_shape [OF f] show ?thesis by (auto simp: models_query_iff Some split: if_splits)
qed

lemma secret_shape:
  assumes "with_secret D p ref t sg w = (r, fx, sg', w')"
  shows "(\<exists>gx. fx = SecretRead ref # gx
      \<and> (gx = [] \<or> (\<exists>secret q. fst (dv_credentials D ref w) = CredentialSecret secret \<and> secret \<noteq> []
            \<and> models_query (dv_parse D) p secret q \<and> (gx = [GetSent q] \<or> gx = [GetSent q, BodyLeft])))
      \<and> (if is_ok r \<or> sg = None \<and> (\<exists>secret q. fst (dv_credentials D ref w) = CredentialSecret secret \<and> secret \<noteq> []
            \<and> models_query (dv_parse D) p secret q) then gx \<noteq> [] else True))
    \<and> catalog_named r"
proof -
  obtain got w1 where got: "dv_credentials D ref w = (got, w1)" by fastforce
  obtain aborted sg1 where seen: "observe sg = (aborted, sg1)" by fastforce
  show ?thesis
  proof (cases got)
    case (CredentialSecret secret)
    show ?thesis
    proof (cases "aborted \<or> secret = []")
      case True
      then have eq: "fx = [SecretRead ref]" "is_ok r = False" "catalog_named r"
        using assms by (auto simp: with_secret_def got seen CredentialSecret catalog_named_def is_ok_def split: if_splits)
      have "sg \<noteq> None" if "aborted" using that seen observe_aborted [of sg sg1] by auto
      with True show ?thesis by (auto simp: eq got CredentialSecret)
    next
      case False
      obtain r' gx sg2 w2 where c: "request_catalog D p secret t sg1 w1 = (r', gx, sg2, w2)" by (rule prod_cases4)
      have eq: "r = r'" "fx = SecretRead ref # gx"
        using assms False by (auto simp: with_secret_def got seen CredentialSecret c)
      have "catalog_named r'" using catalog_effects [OF c] by (auto simp: catalog_named_def split: sum.splits)
      moreover have "sg1 = None" if "sg = None" using that seen by simp
      moreover have "gx = [] \<or> (\<exists>q. models_query (dv_parse D) p secret q \<and> (gx = [GetSent q] \<or> gx = [GetSent q, BodyLeft]))"
        and "is_ok r' \<Longrightarrow> gx \<noteq> []" and "sg1 = None \<Longrightarrow> models_query (dv_parse D) p secret q \<Longrightarrow> gx \<noteq> []" for q
        using catalog_shape [OF c] by (auto split: if_splits)
      ultimately show ?thesis using False
        by (cases "gx = []") (simp add: eq got CredentialSecret, blast, simp add: eq got CredentialSecret)
    qed
  qed (use assms in \<open>auto simp: with_secret_def got seen catalog_named_def is_ok_def split: if_splits\<close>)
qed

lemma load_shape:
  assumes "loadCatalog D i sg t w = (r, fx, sg', w')"
  shows "asked_once D i w fx \<and> catalog_named r
    \<and> (if fst (observe sg) then fx = [] \<and> r = Inl (DiscFailed DiscAborted) else True)
    \<and> (if is_ok r \<or> sg = None \<and> is_string i \<and> (\<exists>ref q. entitled D (as_str i) w ref q) then gets fx \<noteq> [] else True)"
proof -
  obtain aborted sg1 where seen: "observe sg = (aborted, sg1)" by fastforce
  let ?g = "dv_registry D w"
  have none: "\<not> (is_string i \<and> entitled D (as_str i) w ref q)"
    if that: "\<And>p. resolveProvider ?g i \<noteq> Inr p \<or> pv_credential p = None" for ref q
  proof
    assume "is_string i \<and> entitled D (as_str i) w ref q"
    then obtain p where "i = JStr (as_str i)" and "discoverable D (as_str i) w p ref"
      by (cases i) (auto simp: entitled_def)
    with resolveProvider_iff [of D w i p ref] have "resolveProvider ?g i = Inr p \<and> pv_credential p = Some ref" by metis
    with that [of p] show False by simp
  qed
  have read: "asked_once D i w (if is_string i \<and> matches_id (as_str i) then [RegistryRead (as_str i)] else [])"
    by (cases i) auto
  have unsent: "gets (if P then [RegistryRead x] else []) = []" for P x by (simp add: effects_of)
  consider (stopped) "aborted" | (refused) e where "\<not> aborted" "resolveProvider ?g i = Inl e"
    | (missing) p where "\<not> aborted" "resolveProvider ?g i = Inr p" "pv_credential p = None"
    | (asked) p ref where "\<not> aborted" "resolveProvider ?g i = Inr p" "pv_credential p = Some ref"
    by (cases "resolveProvider ?g i") (auto simp: not_None_eq)
  then show ?thesis
  proof cases
    case stopped
    with assms seen show ?thesis by (auto simp: loadCatalog_def catalog_named_def is_ok_def)
  next
    case refused
    with assms read show ?thesis using none by (auto simp: loadCatalog_def seen catalog_named_def is_ok_def)
  next
    case missing
    with assms read show ?thesis using none by (auto simp: loadCatalog_def seen catalog_named_def is_ok_def)
  next
    case asked
    then obtain k where k: "i = JStr k" "discoverable D k w p ref" using resolveProvider_iff [of D w i p ref] by auto
    obtain r' gx sg2 w2 where c: "with_secret D p ref t sg1 w = (r', gx, sg2, w2)" by (rule prod_cases4)
    have eq: "r = r'" "fx = RegistryRead k # gx"
      using assms asked k by (auto simp: loadCatalog_def seen c discoverable_def)
    let ?secret = "\<lambda>s q. fst (dv_credentials D ref w) = CredentialSecret s \<and> s \<noteq> [] \<and> models_query (dv_parse D) p s q"
    have due: "entitled D k w ref' q \<longleftrightarrow> ref' = ref \<and> (\<exists>s. ?secret s q)" for ref' q
      using k(2) by (auto simp: entitled_def discoverable_def)
    from secret_shape [OF c] obtain hx where hx: "gx = SecretRead ref # hx" "catalog_named r'"
      and sent: "hx = [] \<or> (\<exists>s q. ?secret s q \<and> (hx = [GetSent q] \<or> hx = [GetSent q, BodyLeft]))"
      and must: "if is_ok r' \<or> sg1 = None \<and> (\<exists>s q. ?secret s q) then hx \<noteq> [] else True" by blast
    have known: "matches_id k" "\<exists>p. discoverable D k w p ref" using k(2) by (auto simp: discoverable_def)
    have once: "asked_once D i w fx"
    proof (cases "hx = []")
      case True
      then show ?thesis using known by (simp add: eq hx k(1))
    next
      case False
      with sent obtain s q where s: "?secret s q" and q: "hx = [GetSent q] \<or> hx = [GetSent q, BodyLeft]" by blast
      from s have "entitled D k w ref q" unfolding due by blast
      with q show ?thesis by (elim disjE) (simp_all add: eq hx k(1))
    qed
    have idle: "gets fx \<noteq> [] \<longleftrightarrow> hx \<noteq> []"
    proof (cases "hx = []")
      case False
      with sent obtain q where "hx = [GetSent q] \<or> hx = [GetSent q, BodyLeft]" by blast
      then show ?thesis by (elim disjE) (simp_all add: eq hx effects_of)
    qed (simp add: eq hx effects_of)
    have asks: "hx \<noteq> []" if "is_ok r \<or> sg = None \<and> (\<exists>ref q. entitled D k w ref q)"
    proof -
      have "is_ok r' \<or> sg1 = None \<and> (\<exists>s q. ?secret s q)" using that seen unfolding eq(1) due by auto
      with must show ?thesis unfolding if_P by simp
    qed
    have "fst (observe sg) = False" using asked(1) seen by simp
    with once idle asks hx(2) show ?thesis by (simp add: eq(1) k(1))
  qed
qed

text \<open>
  C36: discovery asks once and only for what it may.  Whatever the registry, the store, the client and the cancellation do, a call reads
  the registry at most once, then at most one credential, then sends at most one request; the credential is that of an enabled provider
  registered under the given well-formed identifier; the request is the GET of that provider's models address, \<open>/v1/models\<close> or
  \<open>/models\<close> behind its base address, with the protocol's headers that carry the secret just read and an empty body.  A call that is
  cancelled beforehand reads and sends nothing; one that is never cancelled and may ask does ask; a catalogue comes only from a request
  that was sent, and has no identifier twice.
\<close>

theorem discovery_asks_once:
  "case listModels D i sg w of (r, fx, _, _) \<Rightarrow>
     asked_once D i (snd (dv_clock D w)) fx \<and> catalog_named r
     \<and> (if fst (observe sg) then fx = [] \<and> r = Inl (DiscFailed DiscAborted) else True)
     \<and> (if is_ok r \<or> sg = None \<and> is_string i \<and> (\<exists>ref q. entitled D (as_str i) (snd (dv_clock D w)) ref q)
        then gets fx \<noteq> [] else True)"
proof -
  obtain now w1 where clock: "dv_clock D w = (now, w1)" by fastforce
  obtain r fx sg' w' where c: "loadCatalog D i sg (Fin now) w1 = (r, fx, sg', w')" by (rule prod_cases4)
  from load_shape [OF c] show ?thesis by (simp add: listModels_def clock c)
qed

text \<open>
  A health check is the catalogue call, judged: on the same world it does the same, it rejects exactly with an error of the local
  configuration, it answers healthy exactly when the catalogue is read, and the latency is never negative.
\<close>

theorem health_judges_the_catalog:
  "case listModels D i sg w of (r, fx, _, _) \<Rightarrow>
     (case checkProvider D i sg w of (h, fx', _, _) \<Rightarrow>
        fx' = fx
        \<and> (case h of
             Inl e \<Rightarrow> r = Inl e \<and> isConfigError e
           | Inr health \<Rightarrow>
               (ph_status health = Healthy \<longleftrightarrow> is_ok r) \<and> 0 \<le> ph_latency health \<and> ph_provider health = as_str i
               \<and> (case r of Inr _ \<Rightarrow> True | Inl e \<Rightarrow> ph_status health = healthStatusForError e \<and> \<not> isConfigError e)))"
proof -
  obtain now w1 where clock: "dv_clock D w = (now, w1)" by fastforce
  obtain r fx sg' w' where c: "loadCatalog D i sg (Fin now) w1 = (r, fx, sg', w')" by (rule prod_cases4)
  obtain later w2 where finish: "dv_clock D w' = (later, w2)" by fastforce
  have sick: "healthStatusForError e \<noteq> Healthy" for e by (simp add: healthStatusForError_def split: discovery_failure.split)
  show ?thesis
    by (cases r) (simp_all add: listModels_def checkProvider_def clock c finish Let_def is_ok_def sick)
qed

text \<open>
  A credential store that fails is an error of the local configuration, but the check of a sound provider then answers that the provider is
  unavailable, and the catalogue call rejects with the store's own error instead of a fixed one.
\<close>

lemma failing_store_escapes:
  assumes "resolveProvider (dv_registry D w1) i = Inr p" and "pv_credential p = Some ref" and "dv_clock D w = (now, w1)"
    and "fst (dv_credentials D ref w1) = CredentialFailed"
  shows "fst (listModels D i None w) = Inl DiscEscaped"
    and "case checkProvider D i None w of (h, _) \<Rightarrow> (case h of Inl _ \<Rightarrow> False | Inr health \<Rightarrow> ph_status health = Unavailable)"
proof -
  obtain w2 where got: "dv_credentials D ref w1 = (CredentialFailed, w2)" using assms(4) by (cases "dv_credentials D ref w1") auto
  then have load: "fst (loadCatalog D i None t w1) = Inl DiscEscaped" for t
    using assms(1,2) by (simp add: loadCatalog_def with_secret_def Let_def)
  then show "fst (listModels D i None w) = Inl DiscEscaped" by (simp add: listModels_def assms(3))
  obtain r fx sg' w3 where c: "loadCatalog D i None (Fin now) w1 = (r, fx, sg', w3)" by (rule prod_cases4)
  then have "r = Inl DiscEscaped" using load [of "Fin now"] by simp
  with c show "case checkProvider D i None w of (h, _) \<Rightarrow> (case h of Inl _ \<Rightarrow> False | Inr health \<Rightarrow> ph_status health = Unavailable)"
    by (cases "dv_clock D w3") (simp add: checkProvider_def assms(3) Let_def isConfigError_def healthStatusForError_def)
qed

end
