(* ===== verification/Session_Crypto.thy ===== *)
theory Session_Crypto
  imports Local_Api
begin

text \<open>
  \<open>packages/session-persistence/src\<close>, \<open>errors.ts\<close> and \<open>crypto.ts\<close>: the fixed errors, base64 and the
  encrypted envelope.  The cipher of \<open>node:crypto\<close> is a parameter: \<open>seal\<close> answers the ciphertext and the
  authentication tag of a text, \<open>unseal\<close> the text, or nothing when \<open>final\<close> throws.  The random
  initialisation vector is an argument.  Bytes are characters.
\<close>

section \<open>Errors\<close>

datatype session_error =
    SeInvalidOptions
  | SeInvalidFilePath
  | SeInvalidEvent
  | SeInvalidStatus
  | SeSessionLimitExceeded
  | SeEventLimitExceeded
  | SeEventTooLarge
  | SeFileInvalid
  | SeFileWriteFailed
  | SeRecoveryFailed

fun session_error_code :: "session_error \<Rightarrow> string" where
  "session_error_code SeInvalidOptions = ''invalid_session_persistence_options''"
| "session_error_code SeInvalidFilePath = ''invalid_session_file_path''"
| "session_error_code SeInvalidEvent = ''invalid_session_event''"
| "session_error_code SeInvalidStatus = ''invalid_session_status''"
| "session_error_code SeSessionLimitExceeded = ''session_limit_exceeded''"
| "session_error_code SeEventLimitExceeded = ''event_limit_exceeded''"
| "session_error_code SeEventTooLarge = ''event_too_large''"
| "session_error_code SeFileInvalid = ''session_file_invalid''"
| "session_error_code SeFileWriteFailed = ''session_file_write_failed''"
| "session_error_code SeRecoveryFailed = ''session_recovery_failed''"

fun session_error_message :: "session_error \<Rightarrow> string" where
  "session_error_message SeInvalidOptions = ''Session persistence options are invalid.''"
| "session_error_message SeInvalidFilePath = ''Session file path is invalid.''"
| "session_error_message SeInvalidEvent = ''Session event is invalid.''"
| "session_error_message SeInvalidStatus = ''Session status is invalid.''"
| "session_error_message SeSessionLimitExceeded = ''Session count limit exceeded.''"
| "session_error_message SeEventLimitExceeded = ''Session event count limit exceeded.''"
| "session_error_message SeEventTooLarge = ''Session event exceeds the size limit.''"
| "session_error_message SeFileInvalid = ''Session file is invalid.''"
| "session_error_message SeFileWriteFailed = ''Session file write failed.''"
| "session_error_message SeRecoveryFailed = ''Session recovery failed.''"

section \<open>Base64\<close>

text \<open>
  \<open>Buffer.toString("base64")\<close> and \<open>Buffer.from(text, "base64")\<close>.  The decoder takes both alphabets, passes over
  characters of neither, stops at a padding character and drops bits that fill no byte.
\<close>

definition b64_char :: "nat \<Rightarrow> char" where
  "b64_char n =
     char_of (if n < 26 then 65 + n else if n < 52 then 71 + n else if n < 62 then n - 4 else if n = 62 then 43 else 47)"

definition b64_value :: "char \<Rightarrow> nat option" where
  "b64_value c =
     (let x = of_char c in
      if 65 \<le> x \<and> x \<le> 90 then Some (x - 65) else if 97 \<le> x \<and> x \<le> 122 then Some (x - 71)
      else if 48 \<le> x \<and> x \<le> 57 then Some (x + 4) else if x = 43 \<or> x = 45 then Some 62
      else if x = 47 \<or> x = 95 then Some 63 else None)"

fun base64_encode :: "string \<Rightarrow> string" where
  "base64_encode [] = []"
| "base64_encode [a] = [b64_char (of_char a div 4), b64_char (of_char a mod 4 * 16), CHR ''='', CHR ''='']"
| "base64_encode [a, b] =
     [b64_char (of_char a div 4), b64_char (of_char a mod 4 * 16 + of_char b div 16),
      b64_char (of_char b mod 16 * 4), CHR ''='']"
| "base64_encode (a # b # c # r) =
     b64_char (of_char a div 4) # b64_char (of_char a mod 4 * 16 + of_char b div 16)
     # b64_char (of_char b mod 16 * 4 + of_char c div 64) # b64_char (of_char c mod 64) # base64_encode r"

fun bytes_of_sextets :: "nat list \<Rightarrow> string" where
  "bytes_of_sextets (a # b # c # d # r) =
     char_of (a * 4 + b div 16) # char_of (b mod 16 * 16 + c div 4) # char_of (c mod 4 * 64 + d) # bytes_of_sextets r"
| "bytes_of_sextets [a, b, c] = [char_of (a * 4 + b div 16), char_of (b mod 16 * 16 + c div 4)]"
| "bytes_of_sextets [a, b] = [char_of (a * 4 + b div 16)]"
| "bytes_of_sextets _ = []"

definition base64_decode :: "string \<Rightarrow> string" where
  "base64_decode s = bytes_of_sextets (List.map_filter b64_value (takeWhile (\<lambda>c. c \<noteq> CHR ''='') s))"

lemma b64_char_value: "n < 64 \<Longrightarrow> b64_value (b64_char n) = Some n \<and> b64_char n \<noteq> CHR ''=''"
proof -
  assume "n < 64"
  then have "n \<in> set [0..<64]" by simp
  moreover have "\<forall>n \<in> set [0..<64]. b64_value (b64_char n) = Some n \<and> b64_char n \<noteq> CHR ''=''" by code_simp
  ultimately show ?thesis by blast
qed

text \<open>The encoder through the six bit groups.\<close>

fun sextets :: "nat list \<Rightarrow> nat list" where
  "sextets [] = []"
| "sextets [a] = [a div 4, a mod 4 * 16]"
| "sextets [a, b] = [a div 4, a mod 4 * 16 + b div 16, b mod 16 * 4]"
| "sextets (a # b # c # r) =
     a div 4 # (a mod 4 * 16 + b div 16) # (b mod 16 * 4 + c div 64) # c mod 64 # sextets r"

lemma joined_digits:
  assumes "q < (n :: nat)"
  shows "(p * n + q) div n = p" and "(p * n + q) mod n = q"
  using assms by simp_all

lemma split_digits: "(x :: nat) div n * n + x mod n = x"
  by simp

lemma sextets_small: "list_all (\<lambda>x. x < 256) bs \<Longrightarrow> list_all (\<lambda>n. n < 64) (sextets bs)"
  by (induction bs rule: sextets.induct) auto

lemma sextets_bytes:
  "list_all (\<lambda>x. x < 256) bs \<Longrightarrow> bytes_of_sextets (sextets bs) = map char_of bs"
proof (induction bs rule: sextets.induct)
  case (3 a b)
  then have "b div 16 < 16" by auto
  then show ?case by (simp add: joined_digits split_digits)
next
  case (4 a b c r)
  then have "b div 16 < 16" "c div 64 < 4" by auto
  with 4 show ?case by (simp add: joined_digits split_digits)
qed simp_all

lemma base64_encode_sextets: "\<exists>k. base64_encode s = map b64_char (sextets (map of_char s)) @ replicate k (CHR ''='')"
proof (induction s rule: base64_encode.induct)
  case 1
  show ?case by (intro exI [of _ 0]) simp
next
  case (2 a)
  show ?case by (intro exI [of _ 2]) (simp add: numeral_2_eq_2)
next
  case (3 a b)
  show ?case by (intro exI [of _ 1]) simp
qed auto

lemma base64_decode_sextets:
  "list_all (\<lambda>n. n < 64) ns \<Longrightarrow> base64_decode (map b64_char ns @ replicate k (CHR ''='')) = bytes_of_sextets ns"
proof -
  assume small: "list_all (\<lambda>n. n < 64) ns"
  then have "takeWhile (\<lambda>c. c \<noteq> CHR ''='') (map b64_char ns @ replicate k (CHR ''='')) = map b64_char ns"
    by (subst takeWhile_append2) (auto simp: list_all_iff b64_char_value takeWhile_eq_Nil_iff)
  moreover from small have "List.map_filter b64_value (map b64_char ns) = ns"
    by (induction ns) (simp_all add: b64_char_value map_filter_simps)
  ultimately show ?thesis by (simp only: base64_decode_def)
qed

theorem base64_round_trip: "base64_decode (base64_encode s) = s"
proof -
  have small: "list_all (\<lambda>x. x < 256) (map of_char s :: nat list)" by (simp add: list_all_iff)
  from base64_encode_sextets [of s] obtain k where
    "base64_encode s = map b64_char (sextets (map of_char s)) @ replicate k (CHR ''='')" by blast
  then have "base64_decode (base64_encode s) = map char_of (map of_char s :: nat list)"
    using base64_decode_sextets [OF sextets_small [OF small]] sextets_bytes [OF small] by simp
  then show ?thesis by (simp add: comp_def)
qed

lemma base64_encode_Nil [simp]: "base64_encode s = [] \<longleftrightarrow> s = []"
  by (cases s rule: base64_encode.cases) auto

section \<open>The envelope\<close>

record cipher =
  ci_seal :: "string \<Rightarrow> string \<Rightarrow> string \<Rightarrow> string \<times> string"
  ci_unseal :: "string \<Rightarrow> string \<Rightarrow> string \<Rightarrow> string \<Rightarrow> string option"

definition key_bytes :: nat where "key_bytes = 32"
definition iv_bytes :: nat where "iv_bytes = 12"
definition tag_bytes :: nat where "tag_bytes = 16"

definition cipher_algorithm :: string where "cipher_algorithm = ''aes-256-gcm''"

text \<open>
  \<open>bytes_of\<close> tells the bytes of a value that is a \<open>Uint8Array\<close>.
\<close>

definition assertEncryptionKey :: "(jsval \<Rightarrow> string option) \<Rightarrow> jsval \<Rightarrow> session_error + unit" where
  "assertEncryptionKey bytes_of v =
     (case bytes_of v of
        None \<Rightarrow> Inl SeInvalidOptions
      | Some bs \<Rightarrow> if length bs \<noteq> key_bytes then Inl SeInvalidOptions else Inr ())"

definition encryptJson :: "cipher \<Rightarrow> string \<Rightarrow> string \<Rightarrow> string \<Rightarrow> jsval" where
  "encryptJson C iv plaintext key =
     (case ci_seal C key iv plaintext of
        (encrypted, tag) \<Rightarrow>
          JObj [(''version'', JNum (jsnat 1)), (''algorithm'', JStr cipher_algorithm), (''iv'', JStr (base64_encode iv)),
                (''authTag'', JStr (base64_encode tag)), (''ciphertext'', JStr (base64_encode encrypted))])"

definition envelope_fields :: "string list" where
  "envelope_fields = [''version'', ''algorithm'', ''iv'', ''authTag'', ''ciphertext'']"

definition filled_string :: "jsval \<Rightarrow> bool" where
  "filled_string v \<longleftrightarrow> is_string v \<and> as_str v \<noteq> []"

definition assertEnvelope :: "jsval \<Rightarrow> session_error + unit" where
  "assertEnvelope v =
     (if \<not> is_object v then Inl SeFileInvalid
      else if list_ex (\<lambda>k. k \<notin> set envelope_fields) (obj_keys v) then Inl SeFileInvalid
      else if field v ''version'' \<noteq> JNum (jsnat 1) then Inl SeFileInvalid
      else if field v ''algorithm'' \<noteq> JStr cipher_algorithm then Inl SeFileInvalid
      else if \<not> filled_string (field v ''iv'') then Inl SeFileInvalid
      else if \<not> filled_string (field v ''authTag'') then Inl SeFileInvalid
      else if \<not> filled_string (field v ''ciphertext'') then Inl SeFileInvalid
      else if length (base64_decode (as_str (field v ''iv''))) \<noteq> iv_bytes then Inl SeFileInvalid
      else if length (base64_decode (as_str (field v ''authTag''))) \<noteq> tag_bytes then Inl SeFileInvalid
      else Inr ())"

definition decryptEnvelope :: "cipher \<Rightarrow> jsval \<Rightarrow> string \<Rightarrow> session_error + string" where
  "decryptEnvelope C v key =
     rbind (assertEnvelope v) (\<lambda>_.
     case ci_unseal C key (base64_decode (as_str (field v ''iv''))) (base64_decode (as_str (field v ''authTag'')))
            (base64_decode (as_str (field v ''ciphertext''))) of
       None \<Rightarrow> Inl SeFileInvalid
     | Some text \<Rightarrow> Inr text)"

text \<open>What is documented of AES-256-GCM: a tag of 16 bytes, a ciphertext as long as the text, and decryption
  with the same key, vector and tag gives the text back.\<close>

definition cipher_ok :: "cipher \<Rightarrow> bool" where
  "cipher_ok C \<longleftrightarrow>
     (\<forall>key iv s. length key = key_bytes \<longrightarrow> length iv = iv_bytes \<longrightarrow>
        (case ci_seal C key iv s of (c, tag) \<Rightarrow>
           length c = length s \<and> length tag = tag_bytes \<and> ci_unseal C key iv tag c = Some s))"

lemma envelope_round_trip:
  assumes "cipher_ok C" and "length key = key_bytes" and "length iv = iv_bytes" and "s \<noteq> []"
  shows "assertEnvelope (encryptJson C iv s key) = Inr ()"
    and "decryptEnvelope C (encryptJson C iv s key) key = Inr s"
proof -
  obtain c tag where seal: "ci_seal C key iv s = (c, tag)" by fastforce
  from assms(1) [unfolded cipher_ok_def, rule_format, OF assms(2,3), of s]
  have c: "length c = length s" "length tag = tag_bytes" "ci_unseal C key iv tag c = Some s"
    by (simp_all add: seal)
  from c(1) assms(4) have "c \<noteq> []" by auto
  moreover from assms(3) c(2) have "iv \<noteq> []" "tag \<noteq> []" by (auto simp: iv_bytes_def tag_bytes_def)
  ultimately show ok: "assertEnvelope (encryptJson C iv s key) = Inr ()"
    using c(2) assms(3)
    by (simp add: assertEnvelope_def encryptJson_def seal envelope_fields_def filled_string_def base64_round_trip)
  show "decryptEnvelope C (encryptJson C iv s key) key = Inr s"
    unfolding decryptEnvelope_def ok by (simp add: encryptJson_def seal base64_round_trip c(3))
qed

end
