(* ===== verification/Memory_Context.thy ===== *)
theory Memory_Context
  imports Request_Encoding "HOL-Library.Sublist"
begin

text \<open>
  \<open>packages/agent-memory/src\<close>, the context builder (\<open>errors.ts\<close>, \<open>context-validation.ts\<close>,
  \<open>context-builder.ts\<close>): a conversation with retrieved memory is brought under a byte budget by
  replacing old history with a summary.  The summarizer is a parameter on a world \<open>'w\<close>: it throws,
  rejects, or answers a value.  Copies of JSON values are the values.
\<close>

section \<open>Errors\<close>

datatype context_error =
    ContextInvalidOptions
  | ContextInvalidMessages
  | ContextInvalidMemory
  | ContextBudgetExceeded
  | CompressionRequired
  | CompressionFailed
  | SummaryInvalid
  | SummaryTooLarge
  | ContextAborted

fun context_error_code :: "context_error \<Rightarrow> string" where
  "context_error_code ContextInvalidOptions = ''invalid_context_options''"
| "context_error_code ContextInvalidMessages = ''invalid_context_messages''"
| "context_error_code ContextInvalidMemory = ''invalid_context_memory''"
| "context_error_code ContextBudgetExceeded = ''context_budget_exceeded''"
| "context_error_code CompressionRequired = ''context_compression_required''"
| "context_error_code CompressionFailed = ''context_compression_failed''"
| "context_error_code SummaryInvalid = ''context_summary_invalid''"
| "context_error_code SummaryTooLarge = ''context_summary_too_large''"
| "context_error_code ContextAborted = ''context_aborted''"

fun context_error_message :: "context_error \<Rightarrow> string" where
  "context_error_message ContextInvalidOptions = ''Context options are invalid.''"
| "context_error_message ContextInvalidMessages = ''Context messages are invalid.''"
| "context_error_message ContextInvalidMemory = ''Context memory is invalid.''"
| "context_error_message ContextBudgetExceeded = ''Context budget exceeded.''"
| "context_error_message CompressionRequired = ''Context compression is required.''"
| "context_error_message CompressionFailed = ''Context compression failed.''"
| "context_error_message SummaryInvalid = ''Context summary is invalid.''"
| "context_error_message SummaryTooLarge = ''Context summary exceeds the size limit.''"
| "context_error_message ContextAborted = ''Context build aborted.''"

section \<open>Options\<close>

definition default_max_memory_content_bytes :: nat where "default_max_memory_content_bytes = 16 * 1024"
definition default_max_memory_tags :: nat where "default_max_memory_tags = 16"
definition default_max_memory_tag_bytes :: nat where "default_max_memory_tag_bytes = 128"
definition default_max_summary_bytes :: nat where "default_max_summary_bytes = 8 * 1024"

definition context_option_fields :: "string list" where
  "context_option_fields =
     [''messages'', ''memoryEntries'', ''maxContextBytes'', ''maxSummaryBytes'', ''summarizer'', ''signal'']"

definition context_sensitive_fields :: "string list" where
  "context_sensitive_fields =
     [''apikey'', ''api_key'', ''token'', ''authorization'', ''headers'', ''baseurl'', ''base_url'', ''endpoint'',
      ''secret'', ''credential'', ''password'']"

definition memory_entry_fields :: "string list" where
  "memory_entry_fields = [''id'', ''scopeId'', ''kind'', ''content'', ''tags'', ''createdAt'', ''updatedAt'']"

definition memory_kinds :: "string list" where
  "memory_kinds = [''fact'', ''preference'', ''decision'', ''todo'']"

text \<open>\<open>/^[A-Za-z0-9][A-Za-z0-9._-]{0,63}$/\<close>\<close>

definition is_alnum :: "char \<Rightarrow> bool" where
  "is_alnum c \<longleftrightarrow>
     (let n = (of_char c :: nat) in 48 \<le> n \<and> n \<le> 57 \<or> 65 \<le> n \<and> n \<le> 90 \<or> 97 \<le> n \<and> n \<le> 122)"

definition memory_id_ok :: "string \<Rightarrow> bool" where
  "memory_id_ok s \<longleftrightarrow>
     s \<noteq> [] \<and> is_alnum (hd s) \<and> list_all (\<lambda>c. is_alnum c \<or> c \<in> set ''._-'') (tl s) \<and> length s \<le> 64"

definition has_nul :: "string \<Rightarrow> bool" where
  "has_nul s \<longleftrightarrow> CHR 0x00 \<in> set s"

definition is_signal_like :: "jsval \<Rightarrow> bool" where
  "is_signal_like v \<longleftrightarrow>
     (is_object v \<or> is_array v) \<and> is_bool (field v ''aborted'') \<and> field v ''addEventListener'' = JFun"

definition estimateContextBytes :: "jsval list \<Rightarrow> nat" where
  "estimateContextBytes ms = length (stringify_text (JArr ms))"

definition assertSummarizer :: "jsval \<Rightarrow> context_error + unit" where
  "assertSummarizer v =
     (if \<not> is_object v \<and> \<not> is_array v \<or> field v ''summarize'' \<noteq> JFun then Inl ContextInvalidOptions else Inr ())"

definition finite_number :: "jsval \<Rightarrow> bool" where
  "finite_number v = (case v of JNum n \<Rightarrow> is_finite n | _ \<Rightarrow> False)"

text \<open>The loop over the tags; the state is \<open>seenTags\<close>.\<close>

definition check_tag :: "jsval \<Rightarrow> string set \<Rightarrow> context_error + string set" where
  "check_tag t seen =
     (if \<not> is_string t \<or> as_str t = [] \<or> has_nul (as_str t) then Inl ContextInvalidMemory
      else if as_str t \<in> seen then Inl ContextInvalidMemory
      else if default_max_memory_tag_bytes < length (as_str t) then Inl ContextInvalidMemory
      else Inr (insert (as_str t) seen))"

definition assertMemoryEntry :: "jsval \<Rightarrow> context_error + unit" where
  "assertMemoryEntry v =
     (if \<not> is_object v then Inl ContextInvalidMemory
      else if list_ex (\<lambda>k. k \<notin> set memory_entry_fields \<or> to_lower k \<in> set context_sensitive_fields) (obj_keys v)
        then Inl ContextInvalidMemory
      else if \<not> is_string (field v ''id'') \<or> \<not> memory_id_ok (as_str (field v ''id'')) then Inl ContextInvalidMemory
      else if \<not> is_string (field v ''scopeId'') \<or> \<not> memory_id_ok (as_str (field v ''scopeId''))
        then Inl ContextInvalidMemory
      else if \<not> is_string (field v ''kind'') \<or> as_str (field v ''kind'') \<notin> set memory_kinds
        then Inl ContextInvalidMemory
      else if \<not> is_string (field v ''content'') \<or> as_str (field v ''content'') = [] then Inl ContextInvalidMemory
      else if has_nul (as_str (field v ''content'')) then Inl ContextInvalidMemory
      else if default_max_memory_content_bytes < length (as_str (field v ''content'')) then Inl ContextInvalidMemory
      else if \<not> is_array (field v ''tags'') \<or> default_max_memory_tags < length (as_arr (field v ''tags''))
        then Inl ContextInvalidMemory
      else
        rbind (rfold check_tag (as_arr (field v ''tags'')) {}) (\<lambda>_.
        if \<not> finite_number (field v ''createdAt'') \<or> \<not> finite_number (field v ''updatedAt'')
        then Inl ContextInvalidMemory else Inr ()))"

record memory_entry =
  me_id :: string
  me_scope :: string
  me_kind :: string
  me_content :: string
  me_tags :: "string list"
  me_created :: jsnum
  me_updated :: jsnum

definition as_memory :: "jsval \<Rightarrow> memory_entry" where
  "as_memory v =
     \<lparr>me_id = as_str (field v ''id''), me_scope = as_str (field v ''scopeId''), me_kind = as_str (field v ''kind''),
      me_content = as_str (field v ''content''), me_tags = map as_str (as_arr (field v ''tags'')),
      me_created = as_num (field v ''createdAt''), me_updated = as_num (field v ''updatedAt'')\<rparr>"

text \<open>The loop over the entries; the state is \<open>memoryEntries\<close>, whose ids are \<open>seen\<close>.\<close>

definition add_memory :: "jsval \<Rightarrow> memory_entry list \<Rightarrow> context_error + memory_entry list" where
  "add_memory v got =
     rbind (assertMemoryEntry v) (\<lambda>_.
     if as_str (field v ''id'') \<in> set (map me_id got) then Inl ContextInvalidMemory
     else Inr (got @ [as_memory v]))"

record build_options =
  bo_messages :: "jsval list"
  bo_memory :: "memory_entry list"
  bo_max_context :: nat
  bo_max_summary :: nat
  bo_summarizer :: bool
  bo_signal :: bool

definition parseBuildOptions :: "jsval \<Rightarrow> context_error + build_options" where
  "parseBuildOptions options =
     (if \<not> is_object options then Inl ContextInvalidOptions
      else if list_ex (\<lambda>k. k \<notin> set context_option_fields \<or> to_lower k \<in> set context_sensitive_fields)
                (obj_keys options)
        then Inl ContextInvalidOptions
      else if \<not> is_array (field options ''messages'') then Inl ContextInvalidMessages
      else if \<not> is_ok (validateAgentMessages (field options ''messages'')) then Inl ContextInvalidMessages
      else if \<not> positive_integer (field options ''maxContextBytes'') then Inl ContextInvalidOptions
      else if field options ''maxSummaryBytes'' \<noteq> JUndef \<and> \<not> positive_integer (field options ''maxSummaryBytes'')
        then Inl ContextInvalidOptions
      else
        rbind (if field options ''summarizer'' = JUndef then Inr () else assertSummarizer (field options ''summarizer''))
          (\<lambda>_.
        rbind (if field options ''memoryEntries'' = JUndef then Inr []
               else if \<not> is_array (field options ''memoryEntries'') then Inl ContextInvalidMemory
               else rfold add_memory (as_arr (field options ''memoryEntries'')) []) (\<lambda>entries.
        if field options ''signal'' \<noteq> JUndef \<and> \<not> is_signal_like (field options ''signal'') then Inl ContextInvalidOptions
        else
          Inr \<lparr>bo_messages = as_arr (field options ''messages''), bo_memory = entries,
               bo_max_context = num_nat (as_num (field options ''maxContextBytes'')),
               bo_max_summary = (if field options ''maxSummaryBytes'' = JUndef then default_max_summary_bytes
                                 else num_nat (as_num (field options ''maxSummaryBytes''))),
               bo_summarizer = (field options ''summarizer'' \<noteq> JUndef),
               bo_signal = (field options ''signal'' \<noteq> JUndef)\<rparr>)))"

section \<open>Units of history\<close>

definition system_text :: "string \<Rightarrow> jsval" where
  "system_text t =
     JObj [(''role'', JStr ''system''), (''content'', JArr [JObj [(''type'', JStr ''text''), (''text'', JStr t)]])]"

fun join_lines :: "string list \<Rightarrow> string" where
  "join_lines [] = []"
| "join_lines [l] = l"
| "join_lines (l # ls) = l @ CHR 0x0A # join_lines ls"

definition renderMemoryMessage :: "memory_entry list \<Rightarrow> jsval" where
  "renderMemoryMessage es =
     system_text (''[Retrieved memory]'' @ CHR 0x0A
       # join_lines (map (\<lambda>e. ''- ['' @ me_kind e @ ''] '' @ me_content e) es))"

definition summary_message :: "string \<Rightarrow> jsval" where
  "summary_message s = system_text (''[Context summary]'' @ CHR 0x0A # s)"

definition has_block :: "string \<Rightarrow> jsval \<Rightarrow> bool" where
  "has_block kind m = list_ex (\<lambda>b. field b ''type'' = JStr kind) (as_arr (field m ''content''))"

definition messageHasToolResult :: "jsval \<Rightarrow> bool" where
  "messageHasToolResult m = has_block ''tool_result'' m"

definition messageHasToolCall :: "jsval \<Rightarrow> bool" where
  "messageHasToolCall m = has_block ''tool_call'' m"

definition has_role :: "string \<Rightarrow> jsval \<Rightarrow> bool" where
  "has_role r m \<longleftrightarrow> field m ''role'' = JStr r"

record history_unit =
  hu_index :: nat
  hu_messages :: "jsval list"
  hu_protected :: bool

text \<open>The scan for the last user message; \<open>None\<close> is \<open>-1\<close>.\<close>

fun last_user :: "jsval list \<Rightarrow> nat option" where
  "last_user [] = None"
| "last_user (m # ms) =
     (case last_user ms of
        Some i \<Rightarrow> Some (Suc i)
      | None \<Rightarrow> if has_role ''user'' m then Some 0 else None)"

definition in_tail :: "nat option \<Rightarrow> nat \<Rightarrow> bool" where
  "in_tail lu i \<longleftrightarrow> (case lu of None \<Rightarrow> False | Some k \<Rightarrow> k \<le> i)"

text \<open>The loop of \<open>buildUnits\<close> from position \<open>i\<close>.\<close>

function units_from :: "nat option \<Rightarrow> nat \<Rightarrow> jsval list \<Rightarrow> history_unit list" where
  "units_from lu i [] = []"
| "units_from lu i (m # ms) =
     (if messageHasToolCall m \<and> has_role ''assistant'' m then
        \<lparr>hu_index = i, hu_messages = m # takeWhile (has_role ''tool'') ms,
         hu_protected = has_role ''system'' m \<or> in_tail lu i\<rparr>
        # units_from lu (i + 1 + length (takeWhile (has_role ''tool'') ms)) (dropWhile (has_role ''tool'') ms)
      else
        \<lparr>hu_index = i, hu_messages = [m],
         hu_protected = has_role ''system'' m \<or> in_tail lu i \<or> messageHasToolResult m\<rparr>
        # units_from lu (i + 1) ms)"
  by pat_completeness auto
termination
  by (relation "measure (\<lambda>(lu, i, ms). length ms)") (auto simp: less_Suc_eq_le length_dropWhile_le)

definition buildUnits :: "jsval list \<Rightarrow> history_unit list" where
  "buildUnits ms = units_from (last_user ms) 0 ms"

section \<open>Building\<close>

datatype summary_answer = SummaryThrew | SummaryRejected | SummaryAnswered jsval

type_synonym 'w summarizer = "jsval list \<Rightarrow> 'w \<Rightarrow> summary_answer \<times> 'w"

definition validateSummary :: "jsval \<Rightarrow> nat \<Rightarrow> context_error + string" where
  "validateSummary v limit =
     (if \<not> is_string v \<or> as_str v = [] then Inl SummaryInvalid
      else if limit < length (as_str v) then Inl SummaryTooLarge
      else Inr (as_str v))"

text \<open>
  \<open>runSummarizer\<close>: the call happens first, then, when there is a signal, its flag is read and the answer
  races the abort event.
\<close>

definition runSummarizer ::
  "'w summarizer option \<Rightarrow> jsval list \<Rightarrow> bool \<Rightarrow> signal \<Rightarrow> nat \<Rightarrow> 'w \<Rightarrow> (context_error + string) \<times> 'w"
where
  "runSummarizer summarizer omitted raced sg limit w =
     (case summarizer of
        None \<Rightarrow> (Inl CompressionRequired, w)
      | Some f \<Rightarrow>
          (case f omitted w of
             (SummaryThrew, w') \<Rightarrow> (Inl CompressionFailed, w')
           | (answer, w') \<Rightarrow>
               (if raced \<and> (case observe sg of (a, sg') \<Rightarrow> a \<or> fst (observe sg')) then Inl ContextAborted
                else (case answer of
                        SummaryAnswered v \<Rightarrow> validateSummary v limit
                      | _ \<Rightarrow> Inl CompressionFailed), w')))"

definition kept_units :: "history_unit list \<Rightarrow> nat list \<Rightarrow> history_unit list" where
  "kept_units units kept = filter (\<lambda>u. hu_protected u \<or> hu_index u \<in> set kept) units"

definition unit_messages :: "history_unit list \<Rightarrow> jsval list" where
  "unit_messages us = concat (map hu_messages us)"

text \<open>
  The loop over the compressible units, newest first: the indices kept so far, and the omitted units.
\<close>

fun select_units ::
  "jsval list \<Rightarrow> int \<Rightarrow> history_unit list \<Rightarrow> history_unit list \<Rightarrow> nat list \<Rightarrow> history_unit list
     \<Rightarrow> nat list \<times> history_unit list"
where
  "select_units memory budget units [] kept omitted = (kept, omitted)"
| "select_units memory budget units (u # us) kept omitted =
     (if int (estimateContextBytes (memory @ unit_messages (kept_units units (hu_index u # kept)))) \<le> budget
      then select_units memory budget units us (hu_index u # kept) omitted
      else select_units memory budget units us kept (u # omitted))"

record build_result =
  br_messages :: "jsval list"
  br_compressed :: bool
  br_summary :: bool
  br_omitted :: nat
  br_ids :: "string list"
  br_bytes :: nat

definition summary_overhead :: nat where
  "summary_overhead = estimateContextBytes [summary_message []]"

definition memory_messages :: "memory_entry list \<Rightarrow> jsval list" where
  "memory_messages es = (if es \<noteq> [] then [renderMemoryMessage es] else [])"

text \<open>The result once the summary is there.\<close>

definition finish_context ::
  "build_options \<Rightarrow> jsval list \<Rightarrow> history_unit list \<Rightarrow> nat list \<Rightarrow> jsval list \<Rightarrow> string \<Rightarrow> context_error + build_result"
where
  "finish_context opts memory units kept omitted summary =
     (let final = memory @ summary_message summary # unit_messages (kept_units units kept) in
      if \<not> is_ok (validateAgentMessages (JArr final)) then Inl ContextInvalidMessages
      else if bo_max_context opts < estimateContextBytes final then Inl ContextBudgetExceeded
      else Inr \<lparr>br_messages = final, br_compressed = True, br_summary = True, br_omitted = length omitted,
                br_ids = map me_id (bo_memory opts), br_bytes = estimateContextBytes final\<rparr>)"

definition compress ::
  "build_options \<Rightarrow> 'w summarizer \<Rightarrow> signal \<Rightarrow> 'w \<Rightarrow> (context_error + build_result) \<times> 'w"
where
  "compress opts summarizer sg w =
     (let memory = memory_messages (bo_memory opts);
          units = buildUnits (bo_messages opts);
          compressible = filter (\<lambda>u. \<not> hu_protected u) units in
      if bo_max_context opts < estimateContextBytes (memory @ unit_messages (filter hu_protected units)) + summary_overhead
        then (Inl ContextBudgetExceeded, w)
      else if compressible = [] then (Inl ContextBudgetExceeded, w)
      else
        (case select_units memory (int (bo_max_context opts) - int summary_overhead) units (rev compressible) [] [] of
           (kept, omitted) \<Rightarrow>
             if omitted = [] then (Inl ContextBudgetExceeded, w)
             else
               (case runSummarizer (if bo_summarizer opts then Some summarizer else None) (unit_messages omitted)
                       (bo_signal opts) sg (bo_max_summary opts) w of
                  (Inl e, w') \<Rightarrow> (Inl e, w')
                | (Inr summary, w') \<Rightarrow> (finish_context opts memory units kept (unit_messages omitted) summary, w'))))"

definition buildContext :: "jsval \<Rightarrow> 'w summarizer \<Rightarrow> signal \<Rightarrow> 'w \<Rightarrow> (context_error + build_result) \<times> 'w" where
  "buildContext options summarizer sg w =
     (case parseBuildOptions options of
        Inl e \<Rightarrow> (Inl e, w)
      | Inr opts \<Rightarrow>
          (case (if bo_signal opts then observe sg else (False, sg)) of (aborted, sg') \<Rightarrow>
             if aborted then (Inl ContextAborted, w)
             else
               let assembled = memory_messages (bo_memory opts) @ bo_messages opts in
               if estimateContextBytes assembled \<le> bo_max_context opts then
                 (Inr \<lparr>br_messages = assembled, br_compressed = False, br_summary = False, br_omitted = 0,
                       br_ids = map me_id (bo_memory opts), br_bytes = estimateContextBytes assembled\<rparr>, w)
               else compress opts summarizer sg' w))"

end
