(* ===== verification/Memory_Store.thy ===== *)
theory Memory_Store
  imports Memory_Context "HOL-Library.Product_Lexorder" "HOL-Library.List_Lexorder" "HOL-Library.Char_ord"
begin

text \<open>
  \<open>packages/agent-memory/src/memory-store.ts\<close>: the in-memory store.  The clock answers a finite number and
  is an argument of \<open>save\<close>, like the identifier that the factory would make.  \<open>toLowerCase\<close> is the
  argument \<open>lower\<close> of \<open>search\<close>, because it maps text of every language.  Identifiers are ASCII, so the
  comparison of strings is the one of their bytes.
\<close>

section \<open>Errors and limits\<close>

datatype memory_error =
    MemoryInvalidOptions
  | MemoryInvalidEntry
  | MemoryInvalidQuery
  | MemoryLimitExceeded
  | MemoryInvalidId

fun memory_error_code :: "memory_error \<Rightarrow> string" where
  "memory_error_code MemoryInvalidOptions = ''invalid_memory_options''"
| "memory_error_code MemoryInvalidEntry = ''invalid_memory_entry''"
| "memory_error_code MemoryInvalidQuery = ''invalid_memory_query''"
| "memory_error_code MemoryLimitExceeded = ''memory_limit_exceeded''"
| "memory_error_code MemoryInvalidId = ''invalid_memory_id''"

fun memory_error_message :: "memory_error \<Rightarrow> string" where
  "memory_error_message MemoryInvalidOptions = ''Memory options are invalid.''"
| "memory_error_message MemoryInvalidEntry = ''Memory entry is invalid.''"
| "memory_error_message MemoryInvalidQuery = ''Memory query is invalid.''"
| "memory_error_message MemoryLimitExceeded = ''Memory limit exceeded.''"
| "memory_error_message MemoryInvalidId = ''Memory id is invalid.''"

definition default_memory_entries :: nat where "default_memory_entries = 128"
definition memory_entries_limit :: nat where "memory_entries_limit = 4096"
definition memory_content_limit :: nat where "memory_content_limit = 256 * 1024"
definition memory_tags_limit :: nat where "memory_tags_limit = 64"
definition memory_tag_limit :: nat where "memory_tag_limit = 1024"
definition default_search_limit :: nat where "default_search_limit = 20"
definition max_search_limit :: nat where "max_search_limit = 64"

record memory_limits =
  ml_entries :: nat
  ml_content :: nat
  ml_tags :: nat
  ml_tag :: nat

definition bounded_integer :: "jsval \<Rightarrow> nat \<Rightarrow> bool" where
  "bounded_integer v upper \<longleftrightarrow> positive_integer v \<and> \<not> num_less (jsnat upper) (as_num v)"

definition normalizeLimit :: "jsval \<Rightarrow> nat \<Rightarrow> nat \<Rightarrow> memory_error + nat" where
  "normalizeLimit v fallback upper =
     (if v = JUndef then Inr fallback
      else if \<not> bounded_integer v upper then Inl MemoryInvalidOptions
      else Inr (num_nat (as_num v)))"

text \<open>The constructor; \<open>clock\<close> and \<open>idFactory\<close> may be left out or must be functions.\<close>

definition new_memory_store :: "jsval \<Rightarrow> memory_error + memory_limits" where
  "new_memory_store options =
     (if \<not> is_object options then Inl MemoryInvalidOptions
      else if \<not> nullish (field options ''clock'') \<and> field options ''clock'' \<noteq> JFun
        \<or> \<not> nullish (field options ''idFactory'') \<and> field options ''idFactory'' \<noteq> JFun
        then Inl MemoryInvalidOptions
      else
        rbind (normalizeLimit (field options ''maxEntriesPerScope'') default_memory_entries memory_entries_limit) (\<lambda>n.
        rbind (normalizeLimit (field options ''maxContentBytes'') default_max_memory_content_bytes memory_content_limit) (\<lambda>c.
        rbind (normalizeLimit (field options ''maxTagsPerEntry'') default_max_memory_tags memory_tags_limit) (\<lambda>t.
        rbind (normalizeLimit (field options ''maxTagBytes'') default_max_memory_tag_bytes memory_tag_limit) (\<lambda>b.
        Inr \<lparr>ml_entries = n, ml_content = c, ml_tags = t, ml_tag = b\<rparr>)))))"

section \<open>Operations\<close>

type_synonym memory_scope = "(string \<times> memory_entry) list"
type_synonym memory_scopes = "(string \<times> memory_scope) list"

definition memory_input_fields :: "string list" where
  "memory_input_fields = [''id'', ''scopeId'', ''kind'', ''content'', ''tags'']"

definition memory_sensitive_fields :: "string list" where
  "memory_sensitive_fields =
     [''apikey'', ''api_key'', ''token'', ''authorization'', ''headers'', ''password'', ''secret'', ''credential'']"

definition assertId :: "jsval \<Rightarrow> memory_error \<Rightarrow> memory_error + unit" where
  "assertId v e = (if \<not> is_string v \<or> \<not> memory_id_ok (as_str v) then Inl e else Inr ())"

text \<open>The loop over the tags; the state is \<open>tags\<close>, which has the elements of \<open>seen\<close>.\<close>

definition save_tag :: "nat \<Rightarrow> jsval \<Rightarrow> string list \<Rightarrow> memory_error + string list" where
  "save_tag limit t got =
     (if \<not> is_string t \<or> as_str t = [] \<or> as_str t \<in> set got \<or> has_nul (as_str t) then Inl MemoryInvalidEntry
      else if limit < length (as_str t) then Inl MemoryInvalidEntry
      else Inr (got @ [as_str t]))"

definition save_tags :: "memory_limits \<Rightarrow> jsval \<Rightarrow> memory_error + string list" where
  "save_tags L v =
     (if v = JUndef then Inr []
      else if \<not> is_array v then Inl MemoryInvalidEntry
      else if ml_tags L < length (as_arr v) then Inl MemoryInvalidEntry
      else rfold (save_tag (ml_tag L)) (as_arr v) [])"

definition scope_of :: "memory_scopes \<Rightarrow> string \<Rightarrow> memory_scope" where
  "scope_of S s = (case map_of S s of None \<Rightarrow> [] | Some es \<Rightarrow> es)"

definition memory_save ::
  "memory_limits \<Rightarrow> jsval \<Rightarrow> jsval \<Rightarrow> rat \<Rightarrow> memory_scopes \<Rightarrow> memory_error + memory_entry \<times> memory_scopes"
where
  "memory_save L input made now S =
     (let f = field input; content = as_str (field input ''content''); scope_id = as_str (field input ''scopeId'') in
      if \<not> is_object input then Inl MemoryInvalidEntry
      else if list_ex (\<lambda>k. to_lower k \<in> set memory_sensitive_fields \<or> k \<notin> set memory_input_fields) (obj_keys input)
        then Inl MemoryInvalidEntry
      else
        rbind (assertId (f ''scopeId'') MemoryInvalidEntry) (\<lambda>_.
        if \<not> is_string (f ''kind'') \<or> as_str (f ''kind'') \<notin> set memory_kinds then Inl MemoryInvalidEntry
        else if \<not> is_string (f ''content'') \<or> content = [] \<or> ml_content L < length content then Inl MemoryInvalidEntry
        else if has_nul content \<or> has_nul scope_id then Inl MemoryInvalidEntry
        else
          rbind (save_tags L (f ''tags'')) (\<lambda>tags.
          let i = (if f ''id'' = JUndef then made else f ''id'') in
          rbind (assertId i MemoryInvalidId) (\<lambda>_.
          if has_nul (as_str i) then Inl MemoryInvalidId
          else
            let scope = scope_of S scope_id; existing = map_of scope (as_str i) in
            if existing = None \<and> ml_entries L \<le> length scope then Inl MemoryLimitExceeded
            else
              let entry = \<lparr>me_id = as_str i, me_scope = scope_id, me_kind = as_str (f ''kind''), me_content = content,
                           me_tags = tags,
                           me_created = (case existing of None \<Rightarrow> Fin now | Some e \<Rightarrow> me_created e),
                           me_updated = Fin now\<rparr>
              in Inr (entry, obj_put S scope_id (obj_put scope (as_str i) entry))))))"

definition memory_get :: "memory_scopes \<Rightarrow> string \<Rightarrow> string \<Rightarrow> memory_entry option" where
  "memory_get S s i = map_of (scope_of S s) i"

definition updated_at :: "memory_entry \<Rightarrow> rat" where
  "updated_at e = (case me_updated e of Fin q \<Rightarrow> q | _ \<Rightarrow> 0)"

text \<open>The comparison of \<open>list\<close>: newest first, then by identifier; sorting is stable.\<close>

definition list_rank :: "memory_entry \<Rightarrow> rat \<times> string" where
  "list_rank e = (- updated_at e, me_id e)"

definition memory_list :: "memory_scopes \<Rightarrow> string \<Rightarrow> memory_entry list" where
  "memory_list S s = sort_key list_rank (map snd (scope_of S s))"

lemma strip_any_shorter: "strip_any ws s = Some r \<Longrightarrow> length r < length s"
  by (auto dest!: strip_any_Some)

text \<open>\<open>split(/\s+/)\<close> without the empty pieces; the first argument is the piece being read.\<close>

function ws_tokens :: "string \<Rightarrow> string \<Rightarrow> string list" where
  "ws_tokens got s =
     (case s of
        [] \<Rightarrow> (if got = [] then [] else [got])
      | c # cs \<Rightarrow>
          (case strip_any ws_seqs (c # cs) of
             Some r \<Rightarrow> (if got = [] then [] else [got]) @ ws_tokens [] r
           | None \<Rightarrow> ws_tokens (got @ [c]) cs))"
  by pat_completeness auto
termination
  by (relation "measure (\<lambda>(got, s). length s)") (auto dest: strip_any_shorter)

declare ws_tokens.simps [simp del]

text \<open>\<open>String.prototype.includes\<close>.\<close>

fun str_includes :: "string \<Rightarrow> string \<Rightarrow> bool" where
  "str_includes needle [] = (needle = [])"
| "str_includes needle (c # cs) = (strip_prefix needle (c # cs) \<noteq> None \<or> str_includes needle cs)"

definition haystack :: "(string \<Rightarrow> string) \<Rightarrow> memory_entry \<Rightarrow> string" where
  "haystack lower e = lower (me_content e @ CHR 0x0A # join_lines (me_tags e))"

definition memory_score :: "(string \<Rightarrow> string) \<Rightarrow> string list \<Rightarrow> memory_entry \<Rightarrow> nat" where
  "memory_score lower tokens e = length (filter (\<lambda>t. str_includes t (haystack lower e)) tokens)"

text \<open>The comparison of \<open>search\<close>: most tokens first, then as in \<open>list\<close>.\<close>

definition search_rank :: "(string \<Rightarrow> string) \<Rightarrow> string list \<Rightarrow> memory_entry \<Rightarrow> int \<times> rat \<times> string" where
  "search_rank lower tokens e = (- int (memory_score lower tokens e), list_rank e)"

definition memory_search ::
  "(string \<Rightarrow> string) \<Rightarrow> memory_scopes \<Rightarrow> string \<Rightarrow> jsval \<Rightarrow> jsval \<Rightarrow> memory_error + memory_entry list"
where
  "memory_search lower S s query limit =
     (if \<not> is_string query \<or> js_trim (as_str query) = [] then Inl MemoryInvalidQuery
      else if limit \<noteq> JUndef \<and> \<not> bounded_integer limit max_search_limit then Inl MemoryInvalidQuery
      else
        let n = (if limit = JUndef then default_search_limit else num_nat (as_num limit));
            tokens = ws_tokens [] (lower (as_str query));
            scored = filter (\<lambda>e. 0 < memory_score lower tokens e) (map snd (scope_of S s))
        in Inr (take n (sort_key (search_rank lower tokens) scored)))"

definition memory_delete :: "memory_scopes \<Rightarrow> string \<Rightarrow> string \<Rightarrow> bool \<times> memory_scopes" where
  "memory_delete S s i =
     (case map_of S s of
        None \<Rightarrow> (False, S)
      | Some es \<Rightarrow> (map_of es i \<noteq> None, obj_put S s (filter (\<lambda>(k, _). k \<noteq> i) es)))"

definition memory_clear :: "memory_scopes \<Rightarrow> string \<Rightarrow> nat \<times> memory_scopes" where
  "memory_clear S s =
     (case map_of S s of
        None \<Rightarrow> (0, S)
      | Some es \<Rightarrow> (length es, obj_put S s []))"

section \<open>Ranked search\<close>

text \<open>A sorted list cut after \<open>n\<close>: nothing that was cut off ranks before something that stayed.\<close>

lemma take_sort_key:
  fixes f :: "'a \<Rightarrow> 'k::linorder"
  shows "sorted (map f (take n (sort_key f xs)))"
    and "length (take n (sort_key f xs)) = min n (length xs)"
    and "set (take n (sort_key f xs)) \<subseteq> set xs"
    and "x \<in> set xs \<Longrightarrow> x \<notin> set (take n (sort_key f xs)) \<Longrightarrow> y \<in> set (take n (sort_key f xs)) \<Longrightarrow> f y \<le> f x"
proof -
  let ?s = "sort_key f xs"
  show "sorted (map f (take n ?s))" using sorted_sort_key [of f xs] by (simp add: sorted_wrt_take flip: take_map)
  show "length (take n ?s) = min n (length xs)" by simp
  show "set (take n ?s) \<subseteq> set xs" using set_take_subset [of n ?s] by simp
  assume "x \<in> set xs" and out: "x \<notin> set (take n ?s)" and inn: "y \<in> set (take n ?s)"
  then have "x \<in> set ?s" by simp
  then have "x \<in> set (take n ?s) \<union> set (drop n ?s)" unfolding set_append [symmetric] append_take_drop_id .
  with out have x: "x \<in> set (drop n ?s)" by blast
  have "sorted (map f (take n ?s @ drop n ?s))" by simp
  with x inn show "f y \<le> f x" unfolding map_append sorted_append by auto
qed

lemma search_result:
  assumes "memory_search lower S s (JStr q) limit = Inr rs"
  defines "tokens \<equiv> ws_tokens [] (lower q)"
    and "n \<equiv> if limit = JUndef then default_search_limit else num_nat (as_num limit)"
  defines "hits \<equiv> filter (\<lambda>e. 0 < memory_score lower tokens e) (map snd (scope_of S s))"
  shows "rs = take n (sort_key (search_rank lower tokens) hits)"
  using assms(1) by (auto simp: memory_search_def tokens_def n_def hits_def Let_def split: if_splits)

section \<open>The store as a map\<close>

text \<open>
  What a client relies on: a store is a partial map from scopes and identifiers to entries, and the
  operations of one scope leave the others alone.
\<close>

locale scoped_store =
  fixes look :: "'s \<Rightarrow> 'k \<Rightarrow> 'k \<Rightarrow> 'e option"
    and put :: "'e \<Rightarrow> 's \<Rightarrow> 's"
    and drop_one :: "'s \<Rightarrow> 'k \<Rightarrow> 'k \<Rightarrow> 's"
    and wipe :: "'s \<Rightarrow> 'k \<Rightarrow> 's"
    and scope_key :: "'e \<Rightarrow> 'k"
    and entry_key :: "'e \<Rightarrow> 'k"
  assumes look_put: "look (put e S) s i = (if s = scope_key e \<and> i = entry_key e then Some e else look S s i)"
    and look_drop: "look (drop_one S s' i') s i = (if s = s' \<and> i = i' then None else look S s i)"
    and look_wipe: "look (wipe S s') s i = (if s = s' then None else look S s i)"
begin

lemma put_put: "scope_key e = scope_key f \<Longrightarrow> entry_key e = entry_key f \<Longrightarrow> look (put f (put e S)) = look (put f S)"
  by (rule ext, rule ext) (simp add: look_put)

lemma drop_put: "look (drop_one (put e S) (scope_key e) (entry_key e)) = look (drop_one S (scope_key e) (entry_key e))"
  by (rule ext, rule ext) (simp add: look_put look_drop)

lemma other_scope:
  "s \<noteq> scope_key e \<Longrightarrow> look (put e S) s = look S s"
  "s \<noteq> s' \<Longrightarrow> look (drop_one S s' i') s = look S s"
  "s \<noteq> s' \<Longrightarrow> look (wipe S s') s = look S s"
  by (rule ext; simp add: look_put look_drop look_wipe)+

end

definition put_entry :: "memory_entry \<Rightarrow> memory_scopes \<Rightarrow> memory_scopes" where
  "put_entry e S = obj_put S (me_scope e) (obj_put (scope_of S (me_scope e)) (me_id e) e)"

lemma map_of_obj_put_if: "map_of (obj_put kvs k v) j = (if j = k then Some v else map_of kvs j)"
  by (simp add: map_of_obj_put)

lemma scope_of_put [simp]: "scope_of (obj_put S s es) t = (if t = s then es else scope_of S t)"
  by (simp add: scope_of_def map_of_obj_put_if)

lemma scope_of_delete [simp]:
  "scope_of (snd (memory_delete S s i)) t = (if t = s then filter (\<lambda>(k, _). k \<noteq> i) (scope_of S s) else scope_of S t)"
  by (auto simp: memory_delete_def scope_of_def map_of_obj_put_if split: option.splits)

lemma scope_of_clear [simp]: "scope_of (snd (memory_clear S s)) t = (if t = s then [] else scope_of S t)"
  by (auto simp: memory_clear_def scope_of_def map_of_obj_put_if split: option.splits)

interpretation memory_map: scoped_store memory_get put_entry "\<lambda>S s i. snd (memory_delete S s i)"
    "\<lambda>S s. snd (memory_clear S s)" me_scope me_id
  by unfold_locales (auto simp: memory_get_def put_entry_def map_of_obj_put_if)

text \<open>What a successful \<open>save\<close> does to the store.\<close>

lemma memory_save_put:
  "memory_save L v made now S = Inr (e, S') \<Longrightarrow> S' = put_entry e S"
  by (auto simp: memory_save_def Let_def put_entry_def rbind_def split: if_splits sum.splits)

section \<open>The invariant\<close>

definition entry_ok :: "memory_limits \<Rightarrow> memory_entry \<Rightarrow> bool" where
  "entry_ok L e \<longleftrightarrow>
     memory_id_ok (me_id e) \<and> memory_id_ok (me_scope e) \<and> me_kind e \<in> set memory_kinds
     \<and> me_content e \<noteq> [] \<and> length (me_content e) \<le> ml_content L \<and> \<not> has_nul (me_content e)
     \<and> distinct (me_tags e) \<and> length (me_tags e) \<le> ml_tags L
     \<and> list_all (\<lambda>t. t \<noteq> [] \<and> length t \<le> ml_tag L \<and> \<not> has_nul t) (me_tags e)"

definition scope_ok :: "memory_limits \<Rightarrow> string \<Rightarrow> memory_scope \<Rightarrow> bool" where
  "scope_ok L s es \<longleftrightarrow>
     distinct (map fst es) \<and> length es \<le> ml_entries L
     \<and> list_all (\<lambda>(i, e). me_id e = i \<and> me_scope e = s \<and> entry_ok L e) es"

definition store_ok :: "memory_limits \<Rightarrow> memory_scopes \<Rightarrow> bool" where
  "store_ok L S \<longleftrightarrow> (\<forall>s. scope_ok L s (scope_of S s))"

lemma save_tags_ok:
  assumes "save_tags L v = Inr ts"
  shows "distinct ts \<and> length ts \<le> ml_tags L \<and> list_all (\<lambda>t. t \<noteq> [] \<and> length t \<le> ml_tag L \<and> \<not> has_nul t) ts"
proof -
  have "distinct us \<and> length us = length got + length xs \<and> list_all (\<lambda>t. t \<noteq> [] \<and> length t \<le> ml_tag L \<and> \<not> has_nul t) us"
    if "rfold (save_tag (ml_tag L)) xs got = Inr us" "distinct got"
      "list_all (\<lambda>t. t \<noteq> [] \<and> length t \<le> ml_tag L \<and> \<not> has_nul t) got" for xs got us
    using that by (induction xs arbitrary: got) (auto simp: save_tag_def split: if_splits)
  from this [of _ "[]" ts] assms show ?thesis by (auto simp: save_tags_def split: if_splits)
qed

lemma save_entry_ok: "memory_save L v made now S = Inr (e, S') \<Longrightarrow> entry_ok L e"
  by (auto simp: memory_save_def Let_def rbind_def entry_ok_def assertId_def split: if_splits sum.splits
      dest!: save_tags_ok)

lemma obj_put_length: "length (obj_put kvs k v) = (if map_of kvs k = None then Suc (length kvs) else length kvs)"
  by (induction kvs k v rule: obj_put.induct) auto

lemma save_room:
  "memory_save L v made now S = Inr (e, S') \<Longrightarrow>
     map_of (scope_of S (me_scope e)) (me_id e) \<noteq> None \<or> length (scope_of S (me_scope e)) < ml_entries L"
  by (auto simp: memory_save_def Let_def rbind_def split: if_splits sum.splits)

lemma put_entry_ok:
  assumes "store_ok L S" and "entry_ok L e"
    and "map_of (scope_of S (me_scope e)) (me_id e) \<noteq> None \<or> length (scope_of S (me_scope e)) < ml_entries L"
  shows "store_ok L (put_entry e S)"
proof -
  have "scope_ok L (me_scope e) (obj_put (scope_of S (me_scope e)) (me_id e) e)"
    using assms unfolding store_ok_def scope_ok_def
    by (auto simp: obj_put_length obj_put_distinct list_all_iff dest!: obj_put_values)
  with assms(1) show ?thesis by (simp add: store_ok_def put_entry_def)
qed

lemma filter_scope_ok: "scope_ok L s es \<Longrightarrow> scope_ok L s (filter P es)"
  by (auto simp: scope_ok_def list_all_iff distinct_map_filter intro: order_trans [OF length_filter_le])

section \<open>Any sequence of calls\<close>

datatype memory_call =
    SaveCall jsval jsval rat
  | DeleteCall string string
  | ClearCall string

fun memory_apply :: "memory_limits \<Rightarrow> memory_call \<Rightarrow> memory_scopes \<Rightarrow> memory_scopes" where
  "memory_apply L (SaveCall v made now) S = (case memory_save L v made now S of Inl _ \<Rightarrow> S | Inr (_, S') \<Rightarrow> S')"
| "memory_apply L (DeleteCall s i) S = snd (memory_delete S s i)"
| "memory_apply L (ClearCall s) S = snd (memory_clear S s)"

lemma memory_apply_ok: "store_ok L S \<Longrightarrow> store_ok L (memory_apply L c S)"
proof (cases c)
  case (SaveCall v made now)
  assume S: "store_ok L S"
  show ?thesis
  proof (cases "memory_save L v made now S")
    case (Inr r)
    obtain e S' where r: "r = (e, S')" by fastforce
    from Inr have ok: "memory_save L v made now S = Inr (e, S')" by (simp add: r)
    from put_entry_ok [OF S save_entry_ok [OF ok] save_room [OF ok]] memory_save_put [OF ok]
    show ?thesis by (simp add: SaveCall Inr r)
  qed (simp add: SaveCall S)
next
  case (DeleteCall s i)
  assume "store_ok L S"
  then show ?thesis by (simp add: DeleteCall store_ok_def filter_scope_ok)
next
  case (ClearCall s)
  assume "store_ok L S"
  then show ?thesis by (simp add: ClearCall store_ok_def scope_ok_def)
qed

section \<open>Properties\<close>

text \<open>
  Whatever calls a memory store has served, accepted or refused, each scope holds at most the
  configured number of entries under pairwise distinct identifiers, and each entry is filed under its own
  scope and identifier and keeps the limits on identifiers, kinds, content and tags.
\<close>

theorem memory_store_invariant: "store_ok L (fold (memory_apply L) calls [])"
proof -
  have "store_ok L S \<Longrightarrow> store_ok L (fold (memory_apply L) calls S)" for S
    by (induction calls arbitrary: S) (simp_all add: memory_apply_ok)
  moreover have "store_ok L []" by (simp add: store_ok_def scope_of_def scope_ok_def)
  ultimately show ?thesis by blast
qed

text \<open>
  The ranking of a search.  The result is sorted by the number of query tokens found, then by the time of
  the last update, then by identifier; it has only entries of the scope in which a token occurs; it has as
  many of them as the limit allows; and no entry that was left out ranks before one that is there.
\<close>

theorem memory_search_ranked:
  "case memory_search lower S s (JStr q) limit of
     Inl e \<Rightarrow> e = MemoryInvalidQuery
   | Inr rs \<Rightarrow>
       (let tokens = ws_tokens [] (lower q);
            n = (if limit = JUndef then default_search_limit else num_nat (as_num limit));
            hits = filter (\<lambda>e. 0 < memory_score lower tokens e) (map snd (scope_of S s)) in
        sorted (map (search_rank lower tokens) rs) \<and> set rs \<subseteq> set hits \<and> length rs = min n (length hits)
        \<and> {search_rank lower tokens y |y. y \<in> set rs}
          \<subseteq> {r. {x \<in> set hits. search_rank lower tokens x < r} \<subseteq> set rs})"
proof (cases "memory_search lower S s (JStr q) limit")
  case (Inl e)
  then show ?thesis by (auto simp: memory_search_def Let_def split: if_splits)
next
  case (Inr rs)
  let ?t = "ws_tokens [] (lower q)"
  let ?hits = "filter (\<lambda>e. 0 < memory_score lower ?t e) (map snd (scope_of S s))"
  from search_result [OF Inr] obtain n where rs: "rs = take n (sort_key (search_rank lower ?t) ?hits)"
    and n: "n = (if limit = JUndef then default_search_limit else num_nat (as_num limit))" by blast
  have "x \<in> set rs" if "x \<in> set ?hits" "y \<in> set rs" "search_rank lower ?t x < search_rank lower ?t y" for x y
    using take_sort_key(4) [of x ?hits n "search_rank lower ?t" y] that unfolding rs by fastforce
  moreover note take_sort_key(1-3) [where f = "search_rank lower ?t" and n = n and xs = ?hits]
  ultimately show ?thesis unfolding Inr sum.case Let_def rs [symmetric] n [symmetric] by blast
qed

end
