(* ===== verification/Session_Store.thy ===== *)
theory Session_Store
  imports Session_Crypto Memory_Store
begin

text \<open>
  \<open>packages/session-persistence/src\<close>, \<open>validation.ts\<close> and \<open>file-session-store.ts\<close>: the session store that
  writes every change to one encrypted file.  The file is its content, or nothing while it does not exist.
  What a call gets from outside is an argument: the vector of the cipher, the clock, the identifier of the
  factory, and the fate of the write, the rename and the check of the size.  Nothing reads the temporary
  file.  Copies of JSON values are the values.
\<close>

section \<open>Validation\<close>

definition session_statuses :: "session_status list" where
  "session_statuses = [SessionIdle, SessionRunning, SessionCompleted, SessionCancelled, SessionFailed]"

definition status_of :: "string \<Rightarrow> session_status option" where
  "status_of s = map_of (map (\<lambda>st. (status_name st, st)) session_statuses) s"

definition session_event_types :: "string list" where
  "session_event_types = [''route_selected'', ''text_delta'', ''tool_call'', ''usage'', ''completed'', ''error'']"

fun isSerializableJsonValue :: "jsval \<Rightarrow> bool" where
  "isSerializableJsonValue JNull = True"
| "isSerializableJsonValue (JStr _) = True"
| "isSerializableJsonValue (JBool _) = True"
| "isSerializableJsonValue (JNum n) = is_finite n"
| "isSerializableJsonValue (JArr vs) = list_all isSerializableJsonValue vs"
| "isSerializableJsonValue (JObj kvs) = list_all (\<lambda>kv. isSerializableJsonValue (snd kv)) kvs"
| "isSerializableJsonValue (JInst kvs) = list_all (\<lambda>kv. isSerializableJsonValue (snd kv)) kvs"
| "isSerializableJsonValue _ = False"

definition assertSessionStatus :: "jsval \<Rightarrow> session_error + session_status" where
  "assertSessionStatus v =
     (if \<not> is_string v then Inl SeInvalidStatus
      else (case status_of (as_str v) of None \<Rightarrow> Inl SeInvalidStatus | Some s \<Rightarrow> Inr s))"

definition assertSessionId :: "jsval \<Rightarrow> session_error + unit" where
  "assertSessionId v =
     (if \<not> filled_string v \<or> has_nul (as_str v) \<or> CHR ''/'' \<in> set (as_str v) \<or> CHR 0x5C \<in> set (as_str v)
      then Inl SeInvalidOptions else Inr ())"

definition natural_number :: "jsval \<Rightarrow> bool" where
  "natural_number v \<longleftrightarrow> (case v of JNum n \<Rightarrow> is_integer n \<and> \<not> num_less n (Fin 0) | _ \<Rightarrow> False)"

text \<open>The first switch: the fields of each type.\<close>

definition event_shape_ok :: "string \<Rightarrow> jsval \<Rightarrow> bool" where
  "event_shape_ok t v =
     (let f = field v in
      if t = ''route_selected'' then filled_string (f ''routeId'') \<and> filled_string (f ''model'')
      else if t = ''text_delta'' then is_string (f ''text'')
      else if t = ''tool_call'' then
        filled_string (f ''id'') \<and> filled_string (f ''name'') \<and> isSerializableJsonValue (f ''input'')
      else if t = ''usage'' then natural_number (f ''inputTokens'') \<and> natural_number (f ''outputTokens'')
      else if t = ''completed'' then True
      else if t = ''error'' then
        filled_string (f ''code'') \<and> filled_string (f ''message'') \<and> is_bool (f ''retryable'')
      else False)"

text \<open>The second switch: the fields that may be there.\<close>

definition event_fields :: "string \<Rightarrow> string list" where
  "event_fields t =
     [''type'', ''requestId''] @
     (if t = ''route_selected'' then [''routeId'', ''model'']
      else if t = ''text_delta'' then [''text'']
      else if t = ''tool_call'' then [''id'', ''name'', ''input'']
      else if t = ''usage'' then [''inputTokens'', ''outputTokens'']
      else if t = ''error'' then [''code'', ''message'', ''retryable'']
      else [])"

definition assertAgentEvent :: "jsval \<Rightarrow> nat \<Rightarrow> session_error + unit" where
  "assertAgentEvent v limit =
     (let t = as_str (field v ''type'') in
      if \<not> is_object v then Inl SeInvalidEvent
      else if \<not> is_string (field v ''type'') \<or> t \<notin> set session_event_types then Inl SeInvalidEvent
      else if \<not> filled_string (field v ''requestId'') then Inl SeInvalidEvent
      else if \<not> event_shape_ok t v then Inl SeInvalidEvent
      else if list_ex (\<lambda>k. k \<notin> set (event_fields t)) (obj_keys v) then Inl SeInvalidEvent
      else if limit < length (stringify_text v) then Inl SeEventTooLarge
      else Inr ())"

definition persisted_fields :: "string list" where
  "persisted_fields = [''id'', ''status'', ''createdAt'', ''updatedAt'', ''activeTurnId'', ''events'']"

definition assertPersistedSession :: "jsval \<Rightarrow> session_error + unit" where
  "assertPersistedSession v =
     (if \<not> is_object v then Inl SeFileInvalid
      else if list_ex (\<lambda>k. k \<notin> set persisted_fields) (obj_keys v) then Inl SeFileInvalid
      else
        rbind (assertSessionId (field v ''id'')) (\<lambda>_.
        rbind (assertSessionStatus (field v ''status'')) (\<lambda>_.
        if \<not> finite_number (field v ''createdAt'') \<or> \<not> finite_number (field v ''updatedAt'') then Inl SeFileInvalid
        else if field v ''activeTurnId'' \<noteq> JUndef \<and> \<not> filled_string (field v ''activeTurnId'') then Inl SeFileInvalid
        else if \<not> is_array (field v ''events'') then Inl SeFileInvalid
        else Inr ())))"

text \<open>The loop over the sessions; the state is \<open>seen\<close>.\<close>

definition check_persisted :: "jsval \<Rightarrow> string list \<Rightarrow> session_error + string list" where
  "check_persisted v seen =
     rbind (assertPersistedSession v) (\<lambda>_.
     if as_str (field v ''id'') \<in> set seen then Inl SeFileInvalid else Inr (as_str (field v ''id'') # seen))"

definition validatePersistedFile :: "jsval \<Rightarrow> session_error + unit" where
  "validatePersistedFile v =
     (if \<not> is_object v then Inl SeFileInvalid
      else if list_ex (\<lambda>k. k \<noteq> ''version'' \<and> k \<noteq> ''sessions'') (obj_keys v) then Inl SeFileInvalid
      else if field v ''version'' \<noteq> JNum (jsnat 1) then Inl SeFileInvalid
      else if \<not> is_array (field v ''sessions'') then Inl SeFileInvalid
      else rbind (rfold check_persisted (as_arr (field v ''sessions'')) []) (\<lambda>_. Inr ()))"

section \<open>Options\<close>

definition default_max_session_file :: nat where "default_max_session_file = 16 * 1024 * 1024"
definition max_session_file_limit :: nat where "max_session_file_limit = 64 * 1024 * 1024"
definition default_max_sessions :: nat where "default_max_sessions = 256"
definition max_sessions_limit :: nat where "max_sessions_limit = 4096"
definition default_max_session_events :: nat where "default_max_session_events = 10000"
definition max_session_events_limit :: nat where "max_session_events_limit = 100000"
definition default_max_event_bytes :: nat where "default_max_event_bytes = 256 * 1024"
definition max_event_bytes_limit :: nat where "max_event_bytes_limit = 1024 * 1024"

definition session_limit :: "jsval \<Rightarrow> nat \<Rightarrow> nat \<Rightarrow> session_error + nat" where
  "session_limit v fallback upper =
     (if v = JUndef then Inr fallback
      else if \<not> bounded_integer v upper then Inl SeInvalidOptions
      else Inr (num_nat (as_num v)))"

text \<open>\<open>is_absolute\<close> is \<open>path.isAbsolute\<close>, which depends on the platform.\<close>

definition assertAbsolutePath :: "(string \<Rightarrow> bool) \<Rightarrow> jsval \<Rightarrow> session_error + unit" where
  "assertAbsolutePath is_absolute v =
     (if \<not> filled_string v then Inl SeInvalidOptions
      else if has_nul (as_str v) \<or> CHR ''?'' \<in> set (as_str v) \<or> CHR ''#'' \<in> set (as_str v) then Inl SeInvalidOptions
      else if \<not> is_absolute (as_str v) then Inl SeInvalidOptions
      else Inr ())"

record store_config =
  sc_key :: string
  sc_file :: nat
  sc_sessions :: nat
  sc_events :: nat
  sc_event :: nat

definition parse_store_options ::
  "(string \<Rightarrow> bool) \<Rightarrow> (jsval \<Rightarrow> string option) \<Rightarrow> jsval \<Rightarrow> session_error + store_config"
where
  "parse_store_options is_absolute bytes_of options =
     (let f = field options in
      if \<not> is_object options then Inl SeInvalidOptions
      else
        rbind (assertAbsolutePath is_absolute (f ''filePath'')) (\<lambda>_.
        rbind (assertEncryptionKey bytes_of (f ''encryptionKey'')) (\<lambda>_.
        if \<not> nullish (f ''clock'') \<and> f ''clock'' \<noteq> JFun then Inl SeInvalidOptions
        else if \<not> nullish (f ''idFactory'') \<and> f ''idFactory'' \<noteq> JFun then Inl SeInvalidOptions
        else
          rbind (session_limit (f ''maxFileBytes'') default_max_session_file max_session_file_limit) (\<lambda>a.
          rbind (session_limit (f ''maxSessions'') default_max_sessions max_sessions_limit) (\<lambda>b.
          rbind (session_limit (f ''maxEventsPerSession'') default_max_session_events max_session_events_limit) (\<lambda>c.
          rbind (session_limit (f ''maxEventBytes'') default_max_event_bytes max_event_bytes_limit) (\<lambda>d.
          Inr \<lparr>sc_key = the (bytes_of (f ''encryptionKey'')), sc_file = a, sc_sessions = b, sc_events = c,
               sc_event = d\<rparr>))))))) "

section \<open>The file\<close>

record file_session =
  fse_id :: string
  fse_status :: session_status
  fse_created :: jsnum
  fse_updated :: jsnum
  fse_turn :: "string option"
  fse_events :: "jsval list"

type_synonym file_sessions = "(string \<times> file_session) list"

text \<open>\<open>cloneSession\<close> and \<open>cloneRecord\<close>.\<close>

definition session_fields :: "file_session \<Rightarrow> (string \<times> jsval) list" where
  "session_fields r =
     [(''id'', JStr (fse_id r)), (''status'', JStr (status_name (fse_status r))),
      (''createdAt'', JNum (fse_created r)), (''updatedAt'', JNum (fse_updated r))]
     @ (case fse_turn r of None \<Rightarrow> [] | Some t \<Rightarrow> [(''activeTurnId'', JStr t)])"

definition clone_session :: "file_session \<Rightarrow> jsval" where
  "clone_session r = JObj (session_fields r)"

definition cloneRecord :: "file_session \<Rightarrow> jsval" where
  "cloneRecord r = JObj (session_fields r @ [(''events'', JArr (fse_events r))])"

definition file_value :: "file_session list \<Rightarrow> jsval" where
  "file_value rs = JObj [(''version'', JNum (jsnat 1)), (''sessions'', JArr (map cloneRecord rs))]"

text \<open>What the file holds: the envelope of the sessions, and a line feed.\<close>

definition file_text :: "cipher \<Rightarrow> string \<Rightarrow> string \<Rightarrow> file_session list \<Rightarrow> string" where
  "file_text C key iv rs = stringify_text (encryptJson C iv (stringify_text (file_value rs)) key) @ [CHR 0x0A]"

definition buildFile :: "store_config \<Rightarrow> file_sessions \<Rightarrow> session_error + file_session list" where
  "buildFile L st =
     (if sc_sessions L < length st then Inl SeSessionLimitExceeded
      else if list_ex (\<lambda>(_, r). sc_events L < length (fse_events r)) st then Inl SeEventLimitExceeded
      else Inr (map snd st))"

text \<open>What one call gets from outside.\<close>

record call_env =
  ce_now :: jsnum
  ce_iv :: string
  ce_written :: bool
  ce_renamed :: bool
  ce_size :: "nat option"

definition persist ::
  "cipher \<Rightarrow> store_config \<Rightarrow> call_env \<Rightarrow> file_sessions \<Rightarrow> string option \<Rightarrow> (session_error + unit) \<times> string option"
where
  "persist C L env st file =
     (case buildFile L st of
        Inl e \<Rightarrow> (Inl e, file)
      | Inr rs \<Rightarrow>
          let payload_text = file_text C (sc_key L) (ce_iv env) rs in
          if sc_file L < length payload_text then (Inl SeEventTooLarge, file)
          else if \<not> ce_written env \<or> \<not> ce_renamed env then (Inl SeFileWriteFailed, file)
          else
            ((case ce_size env of
                None \<Rightarrow> Inl SeFileWriteFailed
              | Some n \<Rightarrow> if sc_file L < n then Inl SeFileWriteFailed else Inr ()),
             Some payload_text))"

section \<open>Operations\<close>

text \<open>
  Each call answers its result, the sessions and the file.  When \<open>persist\<close> throws, the sessions are what they
  were.
\<close>

definition file_create ::
  "cipher \<Rightarrow> store_config \<Rightarrow> call_env \<Rightarrow> jsval \<Rightarrow> file_sessions \<Rightarrow> string option
     \<Rightarrow> (session_error + jsval) \<times> file_sessions \<times> string option"
where
  "file_create C L env made st file =
     (if sc_sessions L \<le> length st then (Inl SeSessionLimitExceeded, st, file)
      else
        (case assertSessionId made of
           Inl e \<Rightarrow> (Inl e, st, file)
         | Inr _ \<Rightarrow>
             if map_of st (as_str made) \<noteq> None then (Inl SeInvalidOptions, st, file)
             else
               let r = \<lparr>fse_id = as_str made, fse_status = SessionIdle, fse_created = ce_now env,
                        fse_updated = ce_now env, fse_turn = None, fse_events = []\<rparr>;
                   st' = obj_put st (as_str made) r
               in (case persist C L env st' file of
                     (Inl e, file') \<Rightarrow> (Inl e, st, file')
                   | (Inr _, file') \<Rightarrow> (Inr (clone_session r), st', file'))))"

definition file_get :: "file_sessions \<Rightarrow> string \<Rightarrow> jsval option" where
  "file_get st i = map_option clone_session (map_of st i)"

definition file_events :: "file_sessions \<Rightarrow> string \<Rightarrow> jsval list" where
  "file_events st i = (case map_of st i of None \<Rightarrow> [] | Some r \<Rightarrow> fse_events r)"

definition file_append ::
  "cipher \<Rightarrow> store_config \<Rightarrow> call_env \<Rightarrow> string \<Rightarrow> jsval \<Rightarrow> file_sessions \<Rightarrow> string option
     \<Rightarrow> (session_error + unit) \<times> file_sessions \<times> string option"
where
  "file_append C L env i ev st file =
     (case map_of st i of
        None \<Rightarrow> (Inr (), st, file)
      | Some r \<Rightarrow>
          if sc_events L \<le> length (fse_events r) then (Inl SeEventLimitExceeded, st, file)
          else
            (case assertAgentEvent ev (sc_event L) of
               Inl e \<Rightarrow> (Inl e, st, file)
             | Inr _ \<Rightarrow>
                 let st' = obj_put st i (r\<lparr>fse_events := fse_events r @ [ev], fse_updated := ce_now env\<rparr>) in
                 (case persist C L env st' file of
                    (Inl e, file') \<Rightarrow> (Inl e, st, file')
                  | (Inr _, file') \<Rightarrow> (Inr (), st', file'))))"

definition file_set_status ::
  "cipher \<Rightarrow> store_config \<Rightarrow> call_env \<Rightarrow> string \<Rightarrow> jsval \<Rightarrow> jsval \<Rightarrow> file_sessions \<Rightarrow> string option
     \<Rightarrow> (session_error + unit) \<times> file_sessions \<times> string option"
where
  "file_set_status C L env i status turn_id st file =
     (case map_of st i of
        None \<Rightarrow> (Inr (), st, file)
      | Some r \<Rightarrow>
          (case assertSessionStatus status of
             Inl e \<Rightarrow> (Inl e, st, file)
           | Inr s \<Rightarrow>
               if turn_id \<noteq> JUndef \<and> \<not> filled_string turn_id then (Inl SeInvalidStatus, st, file)
               else
                 let st' = obj_put st i (r\<lparr>fse_status := s, fse_turn := optional_string turn_id,
                                           fse_updated := ce_now env\<rparr>) in
                 (case persist C L env st' file of
                    (Inl e, file') \<Rightarrow> (Inl e, st, file')
                  | (Inr _, file') \<Rightarrow> (Inr (), st', file'))))"

section \<open>Loading\<close>

definition loaded_session :: "jsval \<Rightarrow> file_session" where
  "loaded_session v =
     \<lparr>fse_id = as_str (field v ''id''), fse_status = the (status_of (as_str (field v ''status''))),
      fse_created = as_num (field v ''createdAt''), fse_updated = as_num (field v ''updatedAt''),
      fse_turn = optional_string (field v ''activeTurnId''), fse_events = as_arr (field v ''events'')\<rparr>"

text \<open>A session that was running has failed; \<open>now\<close> is what the clock says then.\<close>

definition recover_session :: "jsnum \<Rightarrow> file_session \<Rightarrow> file_session" where
  "recover_session now r =
     (if fse_status r = SessionRunning then r\<lparr>fse_status := SessionFailed, fse_turn := None, fse_updated := now\<rparr> else r)"

text \<open>The loop over the sessions of the file; the state is the map.  \<open>clock k\<close> is the answer for the \<open>k\<close>th session.\<close>

definition load_session :: "(nat \<Rightarrow> jsnum) \<Rightarrow> nat \<times> jsval \<Rightarrow> file_sessions \<Rightarrow> session_error + file_sessions" where
  "load_session clock kv st =
     rbind (assertPersistedSession (snd kv)) (\<lambda>_.
     let r = recover_session (clock (fst kv)) (loaded_session (snd kv)) in Inr (obj_put st (fse_id r) r))"

definition was_running :: "jsval \<Rightarrow> bool" where
  "was_running v \<longleftrightarrow> fse_status (loaded_session v) = SessionRunning"

text \<open>The sessions in a text, and whether one of them was recovered.\<close>

definition read_sessions :: "cipher \<Rightarrow> string \<Rightarrow> (nat \<Rightarrow> jsnum) \<Rightarrow> string \<Rightarrow> session_error + file_sessions \<times> bool" where
  "read_sessions C key clock raw =
     (if js_trim raw = [] then Inl SeFileInvalid
      else
        (case json_parse raw of
           None \<Rightarrow> Inl SeFileInvalid
         | Some envelope \<Rightarrow>
             rbind (assertEnvelope envelope) (\<lambda>_.
             rbind (decryptEnvelope C envelope key) (\<lambda>plaintext.
             case json_parse plaintext of
               None \<Rightarrow> Inl SeFileInvalid
             | Some parsed \<Rightarrow>
                 rbind (validatePersistedFile parsed) (\<lambda>_.
                 let vs = as_arr (field parsed ''sessions'') in
                 rbind (rfold (load_session clock) (enumerate 0 vs) []) (\<lambda>st.
                 Inr (st, list_ex was_running vs)))))))"

definition loadFromDisk ::
  "cipher \<Rightarrow> store_config \<Rightarrow> bool \<Rightarrow> (nat \<Rightarrow> jsnum) \<Rightarrow> call_env \<Rightarrow> string option
     \<Rightarrow> (session_error + file_sessions) \<times> string option"
where
  "loadFromDisk C L readable clock env file =
     (case file of
        None \<Rightarrow> (if readable then Inr [] else Inl SeFileInvalid, file)
      | Some raw \<Rightarrow>
          if \<not> readable then (Inl SeFileInvalid, file)
          else
            (case read_sessions C (sc_key L) clock raw of
               Inl e \<Rightarrow> (Inl e, file)
             | Inr (st, recovered) \<Rightarrow>
                 if \<not> recovered then (Inr st, file)
                 else
                   (case persist C L env st file of
                      (Inl _, file') \<Rightarrow> (Inl SeRecoveryFailed, file')
                    | (Inr _, file') \<Rightarrow> (Inr st, file'))))"

definition new_file_store ::
  "cipher \<Rightarrow> (string \<Rightarrow> bool) \<Rightarrow> (jsval \<Rightarrow> string option) \<Rightarrow> bool \<Rightarrow> (nat \<Rightarrow> jsnum) \<Rightarrow> call_env \<Rightarrow> jsval \<Rightarrow> string option
     \<Rightarrow> (session_error + store_config \<times> file_sessions) \<times> string option"
where
  "new_file_store C is_absolute bytes_of readable clock env options file =
     (case parse_store_options is_absolute bytes_of options of
        Inl e \<Rightarrow> (Inl e, file)
      | Inr L \<Rightarrow>
          (case loadFromDisk C L readable clock env file of
             (Inl e, file') \<Rightarrow> (Inl e, file')
           | (Inr st, file') \<Rightarrow> (Inr (L, st), file')))"

end
