(* ===== verification/Session_Reload.thy ===== *)
theory Session_Reload
  imports Session_Store Json_Pretty
begin

text \<open>
  What the file store keeps: a file that was written is read back as the sessions it was written from, the
  store follows the in-memory store on the calls it accepts, and a refused call leaves the sessions alone.
\<close>

section \<open>Text that survives the file\<close>

lemma b64_kept: "text_kept (base64_encode s)"
proof (rule text_kept_plain)
  have other: "b64_char n \<noteq> CHR 0xED" for n
  proof
    assume "b64_char n = CHR 0xED"
    then have "(of_char (b64_char n) :: nat) = of_char (CHR 0xED)" by simp
    then show False by (auto simp: b64_char_def split: if_splits)
  qed
  from base64_encode_sextets [of s] obtain k where
    "base64_encode s = map b64_char (sextets (map of_char s)) @ replicate k (CHR ''='')" by blast
  then show "CHR 0xED \<notin> set (base64_encode s)" using other [symmetric] by auto
qed

section \<open>Reading a file back\<close>

definition session_kept :: "file_session \<Rightarrow> bool" where
  "session_kept r \<longleftrightarrow>
     assertSessionId (JStr (fse_id r)) = Inr () \<and> text_kept (fse_id r)
     \<and> json_kept (JNum (fse_created r)) \<and> json_kept (JNum (fse_updated r))
     \<and> (case fse_turn r of None \<Rightarrow> True | Some t \<Rightarrow> t \<noteq> [] \<and> text_kept t)
     \<and> list_all json_kept (fse_events r)"

definition sessions_kept :: "file_sessions \<Rightarrow> bool" where
  "sessions_kept st \<longleftrightarrow> distinct (map fst st) \<and> list_all (\<lambda>(i, r). fse_id r = i \<and> session_kept r) st"

lemma status_of_name [simp]: "status_of (status_name s) = Some s"
  by (cases s) (simp_all add: status_of_def session_statuses_def)

lemma status_text_kept: "text_kept (status_name s)"
  by (rule text_kept_plain) (cases s; simp)

lemma record_names: "keys_ordered (session_fields r @ [(''events'', v)])"
  unfolding keys_ordered_def
  by (rule conjI, simp add: session_fields_def split: option.split)
    (rule property_order_names, simp add: session_fields_def array_index_def is_digit_def split: option.split)

lemma record_kept: "session_kept r \<Longrightarrow> json_kept (cloneRecord r)"
  using record_names [of r "JArr (fse_events r)"]
  by (auto simp: cloneRecord_def session_fields_def session_kept_def status_text_kept text_kept_plain split: option.split)

lemma file_kept: "list_all session_kept rs \<Longrightarrow> json_kept (file_value rs)"
  by (auto simp: file_value_def keys_ordered_def property_order_names array_index_def is_digit_def text_kept_plain
      list_all_iff record_kept jsnat_def intro!: number_kept_safe) (simp add: max_safe_integer_def)

lemma record_fields:
  "field (cloneRecord r) ''id'' = JStr (fse_id r)"
  "field (cloneRecord r) ''status'' = JStr (status_name (fse_status r))"
  "field (cloneRecord r) ''createdAt'' = JNum (fse_created r)"
  "field (cloneRecord r) ''updatedAt'' = JNum (fse_updated r)"
  "field (cloneRecord r) ''activeTurnId'' = (case fse_turn r of None \<Rightarrow> JUndef | Some t \<Rightarrow> JStr t)"
  "field (cloneRecord r) ''events'' = JArr (fse_events r)"
  by (simp_all add: cloneRecord_def session_fields_def split: option.split)

lemma loaded_record [simp]: "loaded_session (cloneRecord r) = r"
  by (cases r) (simp add: loaded_session_def record_fields optional_string_def split: option.split)

lemma record_accepted:
  assumes "session_kept r"
  shows "assertPersistedSession (cloneRecord r) = Inr ()"
proof -
  have "list_all (\<lambda>k. k \<in> set persisted_fields) (obj_keys (cloneRecord r))" "is_object (cloneRecord r)"
    by (simp_all add: cloneRecord_def session_fields_def persisted_fields_def split: option.split)
  moreover from assms have "finite_number (JNum (fse_created r))" "finite_number (JNum (fse_updated r))"
    by (auto simp: session_kept_def finite_number_def split: jsnum.splits)
  ultimately show ?thesis
    using assms
    by (auto simp: assertPersistedSession_def record_fields session_kept_def assertSessionStatus_def filled_string_def
        list_ex_iff list_all_iff split: option.splits)
qed

lemma check_records:
  assumes "list_all session_kept rs" and "distinct (map fse_id rs)" and "set (map fse_id rs) \<inter> set seen = {}"
  shows "rfold check_persisted (map cloneRecord rs) seen = Inr (rev (map fse_id rs) @ seen)"
  using assms
proof (induction rs arbitrary: seen)
  case (Cons r rs)
  then show ?case by (simp add: check_persisted_def record_accepted record_fields)
qed simp

definition recover_all :: "(nat \<Rightarrow> jsnum) \<Rightarrow> nat \<Rightarrow> file_sessions \<Rightarrow> file_sessions" where
  "recover_all clock n st = map (\<lambda>(k, (i, r)). (i, recover_session (clock k) r)) (enumerate n st)"

lemma recover_all_simps [simp]:
  "recover_all clock n [] = []"
  "recover_all clock n ((i, r) # st) = (i, recover_session (clock n) r) # recover_all clock (Suc n) st"
  by (simp_all add: recover_all_def)

lemma recover_session_id [simp]: "fse_id (recover_session t r) = fse_id r"
  by (simp add: recover_session_def)

lemma load_records:
  assumes "list_all (\<lambda>(i, r). fse_id r = i \<and> session_kept r) st" and "distinct (map fst st)"
    and "set (map fst st) \<inter> set (map fst got) = {}"
  shows "rfold (load_session clock) (enumerate n (map cloneRecord (map snd st))) got = Inr (got @ recover_all clock n st)"
  using assms
proof (induction st arbitrary: n got)
  case (Cons ir st)
  obtain i r where ir: "ir = (i, r)" by fastforce
  with Cons.prems have r: "fse_id r = i" "session_kept r" "i \<notin> fst ` set got" by auto
  with Cons.prems Cons.IH [of "got @ [(i, recover_session (clock n) r)]" "Suc n"] show ?case
    by (simp add: ir load_session_def record_accepted Let_def obj_put_new)
qed simp

lemma envelope_kept: "json_kept (encryptJson C iv s key)"
proof -
  have "text_kept cipher_algorithm" by (rule text_kept_plain) (simp add: cipher_algorithm_def)
  then show ?thesis
    by (auto simp: encryptJson_def keys_ordered_def property_order_names array_index_def is_digit_def text_kept_plain
        b64_kept jsnat_def split: prod.split intro!: number_kept_safe) (simp add: max_safe_integer_def)
qed

lemma kept_records: "sessions_kept st \<Longrightarrow> list_all session_kept (map snd st) \<and> map fse_id (map snd st) = map fst st"
  by (auto simp: sessions_kept_def list_all_iff intro!: nth_equalityI)

lemma file_value_accepted:
  assumes "sessions_kept st"
  shows "validatePersistedFile (file_value (map snd st)) = Inr ()"
proof -
  from kept_records [OF assms] have rs: "list_all session_kept (map snd st)" "map fse_id (map snd st) = map fst st" by blast+
  have "distinct (map fst st)" using assms by (simp add: sessions_kept_def)
  with check_records [of "map snd st" "[]"] rs
  have "rfold check_persisted (map cloneRecord (map snd st)) [] = Inr (rev (map fst st) @ [])" by (simp only: rs) simp
  then show ?thesis by (simp add: validatePersistedFile_def file_value_def)
qed

lemma read_written:
  assumes "cipher_ok C" and "length key = key_bytes" and "length iv = iv_bytes" and "sessions_kept st"
  shows "read_sessions C key clock (file_text C key iv (map snd st))
    = Inr (recover_all clock 0 st, list_ex (\<lambda>(_, r). fse_status r = SessionRunning) st)"
proof -
  let ?v = "file_value (map snd st)"
  let ?e = "encryptJson C iv (stringify_text ?v) key"
  have v: "json_kept ?v" using kept_records [OF assms(4)] by (simp add: file_kept)
  obtain kvs where "?v = JObj kvs" by (simp add: file_value_def)
  then have plain: "stringify_text ?v \<noteq> []" using stringify_object_text [of kvs] by auto
  obtain c tag where "ci_seal C key iv (stringify_text ?v) = (c, tag)" by fastforce
  then obtain kvs' where e: "?e = JObj kvs'" by (simp add: encryptJson_def)
  with stringify_object_text [of kvs'] obtain s where s: "stringify_text ?e = CHR ''{'' # s @ [CHR ''}'']" by auto
  have "js_trim (file_text C key iv (map snd st)) \<noteq> []"
    using trim_line [of s] by (simp add: file_text_def s)
  moreover have "json_parse (file_text C key iv (map snd st)) = Some ?e"
    unfolding file_text_def by (rule parse_line [OF envelope_kept])
  moreover note envelope_round_trip [OF assms(1-3) plain] parse_stringify [OF v] file_value_accepted [OF assms(4)]
  moreover have "as_arr (field ?v ''sessions'') = map cloneRecord (map snd st)" by (simp add: file_value_def)
  moreover have "rfold (load_session clock) (enumerate 0 (map cloneRecord (map snd st))) [] = Inr (recover_all clock 0 st)"
    using load_records [of st "[]" clock 0] assms(4) by (simp add: sessions_kept_def)
  moreover have "list_ex was_running (map cloneRecord (map snd st)) = list_ex (\<lambda>(_, r). fse_status r = SessionRunning) st"
    by (induction st) (auto simp: was_running_def)
  ultimately show ?thesis by (simp add: read_sessions_def Let_def)
qed

section \<open>One call\<close>

datatype store_call =
    CreateCall jsval
  | AppendCall string jsval
  | StatusCall string jsval jsval

fun store_step ::
  "cipher \<Rightarrow> store_config \<Rightarrow> call_env \<Rightarrow> store_call \<Rightarrow> file_sessions \<Rightarrow> string option
     \<Rightarrow> (session_error + unit) \<times> file_sessions \<times> string option"
where
  "store_step C L env (CreateCall made) st disk =
     (case file_create C L env made st disk of (r, st', disk') \<Rightarrow> (map_sum id (\<lambda>_. ()) r, st', disk'))"
| "store_step C L env (AppendCall i ev) st disk = file_append C L env i ev st disk"
| "store_step C L env (StatusCall i status turn_id) st disk = file_set_status C L env i status turn_id st disk"

text \<open>The sessions a call would leave, were it accepted.\<close>

fun changed :: "call_env \<Rightarrow> store_call \<Rightarrow> file_sessions \<Rightarrow> file_sessions" where
  "changed env (CreateCall made) st =
     obj_put st (as_str made) \<lparr>fse_id = as_str made, fse_status = SessionIdle, fse_created = ce_now env,
       fse_updated = ce_now env, fse_turn = None, fse_events = []\<rparr>"
| "changed env (AppendCall i ev) st =
     (case map_of st i of
        None \<Rightarrow> st
      | Some r \<Rightarrow> obj_put st i (r\<lparr>fse_events := fse_events r @ [ev], fse_updated := ce_now env\<rparr>))"
| "changed env (StatusCall i status turn_id) st =
     (case map_of st i of
        None \<Rightarrow> st
      | Some r \<Rightarrow> obj_put st i (r\<lparr>fse_status := the (status_of (as_str status)), fse_turn := optional_string turn_id,
                                  fse_updated := ce_now env\<rparr>))"

definition call_valid :: "store_call \<Rightarrow> bool" where
  "call_valid c \<longleftrightarrow>
     (case c of
        CreateCall made \<Rightarrow> is_ok (assertSessionId made)
      | AppendCall _ _ \<Rightarrow> True
      | StatusCall _ _ turn_id \<Rightarrow> turn_id = JUndef \<or> filled_string turn_id)"

text \<open>A call is refused, finds no session, or stands and falls with \<open>persist\<close>.\<close>

lemma store_step_cases:
  obtains (refused) e where "store_step C L env c st disk = (Inl e, st, disk)"
  | (unknown) "store_step C L env c st disk = (Inr (), st, disk)" "changed env c st = st"
  | (tried) "call_valid c" "store_step C L env c st disk =
      (case persist C L env (changed env c st) disk of
         (Inl e, disk') \<Rightarrow> (Inl e, st, disk')
       | (Inr _, disk') \<Rightarrow> (Inr (), changed env c st, disk'))"
proof (cases c)
  case (CreateCall made)
  show thesis
  proof (cases "sc_sessions L \<le> length st \<or> \<not> is_ok (assertSessionId made) \<or> map_of st (as_str made) \<noteq> None")
    case True
    then have "\<exists>e. file_create C L env made st disk = (Inl e, st, disk)"
      by (cases "assertSessionId made") (auto simp: file_create_def)
    then show thesis using refused by (auto simp: CreateCall)
  next
    case False
    show thesis
    proof (rule tried)
      show "call_valid c" using False by (simp add: CreateCall call_valid_def)
      show "store_step C L env c st disk = (case persist C L env (changed env c st) disk of
          (Inl e, disk') \<Rightarrow> (Inl e, st, disk') | (Inr _, disk') \<Rightarrow> (Inr (), changed env c st, disk'))"
        using False by (auto simp: CreateCall file_create_def Let_def is_ok_iff split: prod.split sum.split)
    qed
  qed
next
  case (AppendCall i ev)
  show thesis
  proof (cases "map_of st i")
    case None
    then show thesis using unknown by (simp add: AppendCall file_append_def)
  next
    case (Some r)
    show thesis
    proof (cases "sc_events L \<le> length (fse_events r) \<or> \<not> is_ok (assertAgentEvent ev (sc_event L))")
      case True
      then have "\<exists>e. store_step C L env c st disk = (Inl e, st, disk)"
        by (cases "assertAgentEvent ev (sc_event L)") (auto simp: AppendCall Some file_append_def)
      then show thesis using refused by blast
    next
      case False
      show thesis
        by (rule tried) (use False in \<open>auto simp: AppendCall Some file_append_def call_valid_def Let_def is_ok_iff
          split: prod.split sum.split\<close>)
    qed
  qed
next
  case (StatusCall i status turn_id)
  show thesis
  proof (cases "map_of st i")
    case None
    then show thesis using unknown by (simp add: StatusCall file_set_status_def)
  next
    case (Some r)
    show thesis
    proof (cases "\<not> is_ok (assertSessionStatus status) \<or> turn_id \<noteq> JUndef \<and> \<not> filled_string turn_id")
      case True
      then have "\<exists>e. store_step C L env c st disk = (Inl e, st, disk)"
        by (cases "assertSessionStatus status") (auto simp: StatusCall Some file_set_status_def)
      then show thesis using refused by blast
    next
      case False
      then have "assertSessionStatus status = Inr (the (status_of (as_str status)))"
        by (auto simp: assertSessionStatus_def split: if_splits option.splits)
      with False show thesis
        by (intro tried) (auto simp: StatusCall Some file_set_status_def call_valid_def Let_def split: prod.split sum.split)
    qed
  qed
qed

definition size_checked :: "store_config \<Rightarrow> call_env \<Rightarrow> bool" where
  "size_checked L env \<longleftrightarrow> (case ce_size env of None \<Rightarrow> False | Some n \<Rightarrow> n \<le> sc_file L)"

lemma persist_cases:
  obtains (failed) e where "persist C L env st disk = (Inl e, disk)"
  | (replaced) "persist C L env st disk = (Inl SeFileWriteFailed, Some (file_text C (sc_key L) (ce_iv env) (map snd st)))"
      "\<not> size_checked L env" "ce_written env" "ce_renamed env"
  | (written) "persist C L env st disk = (Inr (), Some (file_text C (sc_key L) (ce_iv env) (map snd st)))"
proof (cases "buildFile L st")
  case (Inl e)
  then show thesis using failed by (simp add: persist_def)
next
  case (Inr rs)
  then have rs: "rs = map snd st" by (simp add: buildFile_def split: if_splits)
  have "persist C L env st disk =
      (if sc_file L < length (file_text C (sc_key L) (ce_iv env) rs) then (Inl SeEventTooLarge, disk)
       else if \<not> ce_written env \<or> \<not> ce_renamed env then (Inl SeFileWriteFailed, disk)
       else (if size_checked L env then Inr () else Inl SeFileWriteFailed,
             Some (file_text C (sc_key L) (ce_iv env) rs)))"
    by (simp add: persist_def Inr Let_def size_checked_def split: option.split)
  with failed replaced written show thesis by (simp add: rs split: if_splits)
qed

lemma refused_call:
  assumes "store_step C L env c st disk = (Inl e, st', disk')"
  shows "st' = st" and "size_checked L env \<Longrightarrow> disk' = disk"
proof -
  have "st' = st \<and> (size_checked L env \<longrightarrow> disk' = disk)"
  proof (cases rule: store_step_cases [of C L env c st disk])
    case tried
    show ?thesis
      by (cases rule: persist_cases [of C L env "changed env c st" disk]) (use assms tried in auto)
  qed (use assms in auto)
  then show "st' = st" and "size_checked L env \<Longrightarrow> disk' = disk" by auto
qed

section \<open>The in-memory store\<close>

text \<open>A session of \<open>InMemoryLocalAgentSessionStore\<close> as the file store holds it.\<close>

definition embed_session :: "session_record \<Rightarrow> file_session" where
  "embed_session r =
     \<lparr>fse_id = ss_id r, fse_status = ss_status r, fse_created = jsnat (ss_created r), fse_updated = jsnat (ss_updated r),
      fse_turn = ss_turn r, fse_events = map event_value (ss_events r)\<rparr>"

definition embed :: "session_store \<Rightarrow> file_sessions" where
  "embed st = map (\<lambda>(i, r). (i, embed_session r)) st"

lemma embed_put: "embed (obj_put st i r) = obj_put (embed st) i (embed_session r)"
  by (induction st i r rule: obj_put.induct) (simp_all add: embed_def)

lemma embed_map_of: "map_of (embed st) i = map_option embed_session (map_of st i)"
  by (induction st) (auto simp: embed_def)

datatype typed_call =
    TCreate string
  | TAppend string agent_event
  | TStatus string session_status "string option"

fun raw_call :: "typed_call \<Rightarrow> store_call" where
  "raw_call (TCreate i) = CreateCall (JStr i)"
| "raw_call (TAppend i e) = AppendCall i (event_value e)"
| "raw_call (TStatus i s t) =
     StatusCall i (JStr (status_name s)) (case t of None \<Rightarrow> JUndef | Some t \<Rightarrow> JStr t)"

fun memory_step :: "nat \<Rightarrow> typed_call \<Rightarrow> session_store \<Rightarrow> session_store" where
  "memory_step now (TCreate i) st = snd (create_session i now st)"
| "memory_step now (TAppend i e) st = appendEvent now i e st"
| "memory_step now (TStatus i s t) st = setStatus now i s t st"

lemma changed_embed: "ce_now env = jsnat now \<Longrightarrow> changed env (raw_call c) (embed st) = embed (memory_step now c st)"
  by (cases c)
    (auto simp: create_session_def appendEvent_def setStatus_def embed_put embed_map_of embed_session_def new_session_def
      optional_string_def split: option.splits)

text \<open>A sequence of calls, and which of them were accepted.\<close>

fun file_run ::
  "cipher \<Rightarrow> store_config \<Rightarrow> (nat \<times> call_env \<times> typed_call) list \<Rightarrow> file_sessions \<Rightarrow> string option
     \<Rightarrow> bool list \<times> file_sessions \<times> string option"
where
  "file_run C L [] st disk = ([], st, disk)"
| "file_run C L ((now, env, c) # cs) st disk =
     (case store_step C L (env\<lparr>ce_now := jsnat now\<rparr>) (raw_call c) st disk of
        (r, st', disk') \<Rightarrow> (case file_run C L cs st' disk' of (oks, out) \<Rightarrow> (is_ok r # oks, out)))"

definition memory_run :: "(nat \<times> call_env \<times> typed_call) list \<Rightarrow> session_store \<Rightarrow> session_store" where
  "memory_run cs m = fold (\<lambda>(now, _, c). memory_step now c) cs m"

lemma store_step_embed:
  assumes "store_step C L env (raw_call c) (embed m) disk = (r, st', disk')" and "ce_now env = jsnat now"
  shows "st' = embed (if is_ok r then memory_step now c m else m)"
proof (cases rule: store_step_cases [of C L env "raw_call c" "embed m" disk])
  case unknown
  with assms(1) changed_embed [OF assms(2), of c m] show ?thesis by auto
next
  case tried
  show ?thesis
    by (cases rule: persist_cases [of C L env "changed env (raw_call c) (embed m)" disk])
      (use assms tried in \<open>auto simp: changed_embed\<close>)
qed (use assms in auto)

lemma file_run_embed:
  "file_run C L cs (embed m) disk = (oks, st, disk') \<Longrightarrow>
     st = embed (memory_run (map fst (filter snd (zip cs oks))) m)"
proof (induction cs arbitrary: m disk oks)
  case Nil
  then show ?case by (simp add: memory_run_def)
next
  case (Cons x cs)
  obtain now env c where x: "x = (now, env, c)" by (cases x)
  let ?env = "env\<lparr>ce_now := jsnat now\<rparr>"
  obtain r st1 disk1 where step: "store_step C L ?env (raw_call c) (embed m) disk = (r, st1, disk1)" by (metis prod_cases3)
  obtain oks' where oks: "oks = is_ok r # oks'" and rest: "file_run C L cs st1 disk1 = (oks', st, disk')"
    using Cons.prems by (auto simp: x step split: prod.splits)
  have st1: "st1 = embed (if is_ok r then memory_step now c m else m)"
    using store_step_embed [OF step] by simp
  from Cons.IH [OF rest [unfolded st1]] show ?case by (simp add: oks x memory_run_def)
qed

lemma file_get_embed: "file_get (embed m) i = get_session m i"
  by (auto simp: file_get_def get_session_def embed_map_of clone_session_def session_fields_def cloneSession_def
      embed_session_def option.map_comp intro!: map_option_cong)

lemma file_events_embed: "file_events (embed m) i = map event_value (listEvents m i)"
  by (simp add: file_events_def listEvents_def embed_map_of embed_session_def split: option.split)

section \<open>Any sequence of calls\<close>

text \<open>Calls whose data JSON text keeps; every other event is refused or changed by the file.\<close>

definition call_kept :: "call_env \<Rightarrow> store_call \<Rightarrow> bool" where
  "call_kept env c \<longleftrightarrow>
     json_kept (JNum (ce_now env))
     \<and> (case c of
          CreateCall made \<Rightarrow> text_kept (as_str made)
        | AppendCall _ ev \<Rightarrow> json_kept ev
        | StatusCall _ _ turn_id \<Rightarrow> text_kept (as_str turn_id))"

lemma put_kept:
  "sessions_kept st \<Longrightarrow> fse_id r = i \<Longrightarrow> session_kept r \<Longrightarrow> sessions_kept (obj_put st i r)"
  by (auto simp: sessions_kept_def obj_put_distinct list_all_iff dest!: obj_put_values)

lemma found_kept: "sessions_kept st \<Longrightarrow> map_of st i = Some r \<Longrightarrow> fse_id r = i \<and> session_kept r"
  by (auto simp: sessions_kept_def list_all_iff dest!: map_of_SomeD)

lemma changed_kept:
  assumes "sessions_kept st" and "call_kept env c" and "call_valid c"
  shows "sessions_kept (changed env c st)"
proof (cases c)
  case (CreateCall made)
  with assms(2,3) have "assertSessionId (JStr (as_str made)) = Inr ()"
    by (auto simp: call_valid_def assertSessionId_def filled_string_def split: if_splits)
  with assms(2) CreateCall show ?thesis
    by (auto intro!: put_kept [OF assms(1)] simp: session_kept_def call_kept_def)
next
  case (AppendCall i ev)
  with assms found_kept [OF assms(1), of i] show ?thesis
    by (auto split: option.split intro!: put_kept [OF assms(1)] simp: session_kept_def call_kept_def)
next
  case (StatusCall i status turn_id)
  with assms found_kept [OF assms(1), of i] show ?thesis
    by (auto split: option.split intro!: put_kept [OF assms(1)]
        simp: session_kept_def call_kept_def call_valid_def optional_string_def filled_string_def)
qed

fun store_run ::
  "cipher \<Rightarrow> store_config \<Rightarrow> (call_env \<times> store_call) list \<Rightarrow> file_sessions \<Rightarrow> string option
     \<Rightarrow> file_sessions \<times> string option"
where
  "store_run C L [] st disk = (st, disk)"
| "store_run C L ((env, c) # cs) st disk =
     (case store_step C L env c st disk of (_, st', disk') \<Rightarrow> store_run C L cs st' disk')"

definition held :: "cipher \<Rightarrow> string \<Rightarrow> file_sessions \<Rightarrow> string option \<Rightarrow> bool" where
  "held C key st disk \<longleftrightarrow>
     (case disk of
        None \<Rightarrow> st = []
      | Some raw \<Rightarrow> \<exists>iv. length iv = iv_bytes \<and> raw = file_text C key iv (map snd st))"

definition call_ok :: "store_config \<Rightarrow> call_env \<times> store_call \<Rightarrow> bool" where
  "call_ok L ec \<longleftrightarrow> length (ce_iv (fst ec)) = iv_bytes \<and> size_checked L (fst ec) \<and> call_kept (fst ec) (snd ec)"

lemma store_step_held:
  assumes "store_step C L env c st disk = (r, st', disk')" and "held C (sc_key L) st disk" and "sessions_kept st"
    and "call_ok L (env, c)"
  shows "held C (sc_key L) st' disk' \<and> sessions_kept st'"
proof (cases rule: store_step_cases [of C L env c st disk])
  case tried
  show ?thesis
  proof (cases rule: persist_cases [of C L env "changed env c st" disk])
    case written
    have "sessions_kept (changed env c st)"
      using assms(4) by (intro changed_kept [OF assms(3) _ tried(1)]) (simp add: call_ok_def)
    with tried written assms(1,4) show ?thesis by (auto simp: held_def call_ok_def)
  qed (use tried assms in \<open>auto simp: call_ok_def\<close>)
qed (use assms in auto)

lemma store_run_held:
  assumes "store_run C L cs st disk = (st', disk')" and "held C (sc_key L) st disk" and "sessions_kept st"
    and "list_all (call_ok L) cs"
  shows "held C (sc_key L) st' disk' \<and> sessions_kept st'"
  using assms
proof (induction cs arbitrary: st disk)
  case (Cons ec cs)
  obtain env c where ec: "ec = (env, c)" by fastforce
  obtain r st1 disk1 where step: "store_step C L env c st disk = (r, st1, disk1)" by (metis prod_cases3)
  from store_step_held [OF step Cons.prems(2,3)] Cons.prems(4) have "held C (sc_key L) st1 disk1" "sessions_kept st1"
    by (auto simp: ec)
  with Cons.IH Cons.prems(1,4) show ?case by (simp add: ec step)
qed simp

section \<open>Properties\<close>

text \<open>
  C9: the file store refines the in-memory store.  After any sequence of calls, with any fate of the writes and any
  file on disk, the file store answers for every session what the in-memory store answers after the accepted calls
  alone: a refused call leaves no trace in the sessions, an accepted one does exactly what memory does.
\<close>

theorem file_store_refines_memory:
  "case file_run C L cs [] disk of (oks, st, _) \<Rightarrow>
     (let m = memory_run (map fst (filter snd (zip cs oks))) [] in
      file_get st i = get_session m i \<and> file_events st i = map event_value (listEvents m i))"
proof -
  obtain oks st disk' where run: "file_run C L cs [] disk = (oks, st, disk')" by (metis prod_cases3)
  with file_run_embed [of C L cs "[]" disk oks st disk'] have
    "st = embed (memory_run (map fst (filter snd (zip cs oks))) [])" by (simp add: embed_def)
  then show ?thesis by (simp add: run file_get_embed file_events_embed Let_def)
qed

text \<open>
  C5: what was accepted is on disk.  While the size check after a rename does not fail, after any sequence of calls
  the file, read by a new store with the same key, gives exactly the sessions the old store held, in order, with
  those that were running marked as failed; and while there is no file, there are no sessions.
\<close>

theorem store_survives_restart:
  assumes "cipher_ok C" and "length (sc_key L) = key_bytes" and "list_all (call_ok L) cs"
  shows "case store_run C L cs [] None of
      (st, None) \<Rightarrow> st = []
    | (st, Some raw) \<Rightarrow>
        read_sessions C (sc_key L) clock raw
          = Inr (recover_all clock 0 st, list_ex (\<lambda>(_, r). fse_status r = SessionRunning) st)"
proof -
  obtain st disk where run: "store_run C L cs [] None = (st, disk)" by fastforce
  have "held C (sc_key L) [] None" "sessions_kept []" by (simp_all add: held_def sessions_kept_def)
  from store_run_held [OF run this assms(3)] have "held C (sc_key L) st disk" "sessions_kept st" by auto
  then show ?thesis
    using read_written [OF assms(1,2)] by (auto simp: run held_def split: option.splits)
qed

text \<open>
  A call can fail after its change is on disk.  When the file cannot be examined after the rename, an append is
  reported as failed and the store forgets the event, but the file has it, and the next store that loads the
  file shows it.
\<close>

theorem failed_append_is_on_disk:
  assumes "cipher_ok C" and "length (sc_key L) = key_bytes" and "length (ce_iv env) = iv_bytes"
    and "sessions_kept st" and "call_kept env (AppendCall i ev)"
    and "map_of st i = Some r" and "length (fse_events r) < sc_events L" and "assertAgentEvent ev (sc_event L) = Inr ()"
    and "buildFile L (changed env (AppendCall i ev) st) = Inr rs" and "length (file_text C (sc_key L) (ce_iv env) rs) \<le> sc_file L"
    and "ce_written env" and "ce_renamed env" and "ce_size env = None"
  shows "\<exists>raw. file_append C L env i ev st disk = (Inl SeFileWriteFailed, st, Some raw)
    \<and> (case read_sessions C (sc_key L) clock raw of
         Inl _ \<Rightarrow> False | Inr (got, _) \<Rightarrow> file_events got i = file_events st i @ [ev])"
proof -
  let ?st = "changed env (AppendCall i ev) st"
  let ?raw = "file_text C (sc_key L) (ce_iv env) rs"
  have rs: "rs = map snd ?st" using assms(9) by (simp add: buildFile_def split: if_splits)
  have "file_append C L env i ev st disk = (Inl SeFileWriteFailed, st, Some ?raw)"
    using assms(6-8) assms(9) assms(10-13) by (simp add: file_append_def Let_def persist_def)
  moreover have "sessions_kept ?st"
    by (rule changed_kept [OF assms(4,5)]) (simp add: call_valid_def)
  with read_written [OF assms(1-3)] have "read_sessions C (sc_key L) clock ?raw = Inr (recover_all clock 0 ?st,
      list_ex (\<lambda>(_, r). fse_status r = SessionRunning) ?st)" by (simp only: rs)
  moreover have same: "map_option fse_events (map_of (recover_all clock n xs) i) = map_option fse_events (map_of xs i)" for n xs
    by (induction xs arbitrary: n) (auto simp: recover_session_def)
  have "file_events (recover_all clock 0 ?st) i = file_events st i @ [ev]"
    using same [of 0 ?st] assms(6) by (auto simp: file_events_def map_of_obj_put_if split: option.splits)
  ultimately show ?thesis by auto
qed

text \<open>A cipher that leaves the text alone, and a short session.\<close>

definition plain_cipher :: cipher where
  "plain_cipher = \<lparr>ci_seal = \<lambda>key iv s. (s, replicate 16 (CHR ''t'')), ci_unseal = \<lambda>key iv tag c. Some c\<rparr>"

definition small_config :: store_config where
  "small_config = \<lparr>sc_key = replicate 32 (CHR ''k''), sc_file = 4096, sc_sessions = 4, sc_events = 8, sc_event = 256\<rparr>"

definition calm :: "nat option \<Rightarrow> call_env" where
  "calm checked = \<lparr>ce_now = jsnat 7, ce_iv = replicate 12 (CHR ''i''), ce_written = True, ce_renamed = True, ce_size = checked\<rparr>"

definition short_calls :: "(call_env \<times> store_call) list" where
  "short_calls =
     [(calm (Some 1), CreateCall (JStr ''s'')), (calm (Some 1), AppendCall ''s'' (event_value (ATextDelta ''r'' ''x''))),
      (calm (Some 1), StatusCall ''s'' (JStr ''running'') (JStr ''t''))]"

definition short_session :: file_session where
  "short_session =
     \<lparr>fse_id = ''s'', fse_status = SessionRunning, fse_created = jsnat 7, fse_updated = jsnat 7, fse_turn = Some ''t'',
      fse_events = [event_value (ATextDelta ''r'' ''x'')]\<rparr>"

lemma plain_cipher_ok: "cipher_ok plain_cipher"
  by (simp add: cipher_ok_def plain_cipher_def tag_bytes_def)

lemma small_key: "length (sc_key small_config) = key_bytes"
  by (simp add: small_config_def key_bytes_def)

lemma short_run: "fst (store_run plain_cipher small_config short_calls [] None) = [(''s'', short_session)]"
  by code_simp

lemma short_calls_ok: "list_all (call_ok small_config) short_calls"
  by code_simp

lemma store_survives_restart_witness:
  "\<exists>raw. store_run plain_cipher small_config short_calls [] None = ([(''s'', short_session)], Some raw)
     \<and> read_sessions plain_cipher (sc_key small_config) (\<lambda>_. jsnat 9) raw
       = Inr ([(''s'', short_session\<lparr>fse_status := SessionFailed, fse_turn := None, fse_updated := jsnat 9\<rparr>)], True)"
proof -
  obtain disk where run: "store_run plain_cipher small_config short_calls [] None = ([(''s'', short_session)], disk)"
    using short_run by (metis fst_conv surj_pair)
  from store_survives_restart [OF plain_cipher_ok small_key short_calls_ok, of "\<lambda>_. jsnat 9"]
  show ?thesis by (auto simp: run short_session_def recover_session_def split: option.splits)
qed

lemma failed_append_is_on_disk_witness:
  "\<exists>raw. file_append plain_cipher small_config (calm None) ''s'' (event_value (ACompleted ''r'')) [(''s'', short_session)] None
       = (Inl SeFileWriteFailed, [(''s'', short_session)], Some raw)
     \<and> (case read_sessions plain_cipher (sc_key small_config) (\<lambda>_. jsnat 9) raw of
          Inl _ \<Rightarrow> False
        | Inr (got, _) \<Rightarrow> file_events got ''s'' = [event_value (ATextDelta ''r'' ''x''), event_value (ACompleted ''r'')])"
proof -
  let ?env = "calm None" and ?ev = "event_value (ACompleted ''r'')" and ?st = "[(''s'', short_session)]"
  let ?rs = "map snd (changed ?env (AppendCall ''s'' ?ev) ?st)"
  have "length (ce_iv ?env) = iv_bytes" "sessions_kept ?st" "call_kept ?env (AppendCall ''s'' ?ev)"
    "map_of ?st ''s'' = Some short_session" "length (fse_events short_session) < sc_events small_config"
    "assertAgentEvent ?ev (sc_event small_config) = Inr ()"
    "buildFile small_config (changed ?env (AppendCall ''s'' ?ev) ?st) = Inr ?rs"
    "length (file_text plain_cipher (sc_key small_config) (ce_iv ?env) ?rs) \<le> sc_file small_config"
    "ce_written ?env" "ce_renamed ?env" "ce_size ?env = None"
    by code_simp+
  note failed = failed_append_is_on_disk [OF plain_cipher_ok small_key this, of None "\<lambda>_. jsnat 9"]
  have "file_events ?st ''s'' = [event_value (ATextDelta ''r'' ''x'')]" by (simp add: file_events_def short_session_def)
  with failed show ?thesis by (simp only: append.simps)
qed

end
