(* ===== verification/Context_Kept.thy ===== *)
theory Context_Kept
  imports Memory_Context
begin

text \<open>
  What \<open>buildContext\<close> keeps of a conversation, and how the built context fares with the request checks of
  the provider adapters.
\<close>

section \<open>What is kept\<close>

lemma units_whole: "unit_messages (units_from lu i ms) = ms"
  by (induction lu i ms rule: units_from.induct) (simp_all add: unit_messages_def)

lemma units_index: "u \<in> set (units_from lu i ms) \<Longrightarrow> i \<le> hu_index u"
  by (induction lu i ms rule: units_from.induct) (auto split: if_splits)

lemma units_distinct: "distinct (map hu_index (units_from lu i ms))"
proof (induction lu i ms rule: units_from.induct)
  case (2 lu i m ms)
  then show ?case using units_index [where lu = lu] by (auto dest!: units_index)
qed simp

text \<open>A unit with a system message is that message, and is protected.\<close>

lemma units_system:
  "u \<in> set (units_from lu i ms) \<Longrightarrow> \<not> hu_protected u \<Longrightarrow> x \<in> set (hu_messages u) \<Longrightarrow> \<not> has_role ''system'' x"
proof (induction lu i ms rule: units_from.induct)
  case (2 lu i m ms)
  have "x \<in> set (takeWhile (has_role ''tool'') ms) \<Longrightarrow> \<not> has_role ''system'' x"
    by (auto simp: has_role_def dest: set_takeWhileD)
  with 2 show ?case by (cases "messageHasToolCall m \<and> has_role ''assistant'' m") auto
qed simp

lemma unit_messages_simps [simp]:
  "unit_messages [] = []"
  "unit_messages (u # us) = hu_messages u @ unit_messages us"
  "unit_messages (us @ vs) = unit_messages us @ unit_messages vs"
  by (simp_all add: unit_messages_def)

lemma filter_units:
  "(\<And>u m. u \<in> set us \<Longrightarrow> \<not> P u \<Longrightarrow> m \<in> set (hu_messages u) \<Longrightarrow> \<not> Q m) \<Longrightarrow>
     filter Q (unit_messages (filter P us)) = filter Q (unit_messages us)"
proof (induction us)
  case (Cons u us)
  then have "\<not> P u \<Longrightarrow> filter Q (hu_messages u) = []" by (auto simp: filter_empty_conv)
  with Cons show ?case by auto
qed simp

lemma filter_units_subseq: "subseq (unit_messages (filter P us)) (unit_messages us)"
  by (induction us) (auto intro: list_emb_append_mono subseq_append' list_emb_append2)

lemma filter_units_length:
  "length (unit_messages (filter P us)) + length (unit_messages (filter (\<lambda>u. \<not> P u) us)) = length (unit_messages us)"
  by (induction us) auto

text \<open>The units from the last user message on are protected, and they start with it.\<close>

lemma last_user_Some: "last_user ms = Some k \<Longrightarrow> k < length ms \<and> has_role ''user'' (ms ! k)"
  by (induction ms arbitrary: k) (auto split: option.splits if_splits)

lemma units_tail_protected: "k \<le> i \<Longrightarrow> u \<in> set (units_from (Some k) i ms) \<Longrightarrow> hu_protected u"
  using units_index [of u "Some k" i ms]
  by (induction "Some k" i ms rule: units_from.induct) (auto simp: in_tail_def split: if_splits dest: units_index)

lemma tools_before_user:
  assumes "has_role ''user'' (ms ! j)"
  shows "length (takeWhile (has_role ''tool'') ms) \<le> j"
proof (rule ccontr)
  assume "\<not> length (takeWhile (has_role ''tool'') ms) \<le> j"
  then have j: "j < length (takeWhile (has_role ''tool'') ms)" by simp
  with set_takeWhileD [OF nth_mem [OF j]] have "has_role ''tool'' (ms ! j)" by (simp add: takeWhile_nth)
  with assms show False by (simp add: has_role_def)
qed

lemma units_tail:
  assumes "i \<le> k" and "k - i < length ms" and "has_role ''user'' (ms ! (k - i))"
  shows "\<exists>us vs. units_from (Some k) i ms = us @ vs \<and> unit_messages vs = drop (k - i) ms \<and> list_all hu_protected vs"
  using assms
proof (induction "Some k" i ms rule: units_from.induct)
  case (2 i m ms)
  show ?case
  proof (cases "k = i")
    case True
    then have "list_all hu_protected (units_from (Some k) i (m # ms))"
      by (auto simp: list_all_iff simp del: units_from.simps intro: units_tail_protected [of k i])
    moreover have "unit_messages (units_from (Some k) i (m # ms)) = drop (k - i) (m # ms)"
      using True by (simp add: units_whole del: units_from.simps)
    ultimately show ?thesis by (metis append_Nil)
  next
    case False
    with 2 have k: "i < k" by simp
    let ?ts = "takeWhile (has_role ''tool'') ms"
    show ?thesis
    proof (cases "messageHasToolCall m \<and> has_role ''assistant'' m")
      case True
      have user: "has_role ''user'' (ms ! (k - i - 1))" "k - i - 1 < length ms" using k "2.prems" by (simp_all add: nth_Cons')
      then have beyond: "length ?ts \<le> k - i - 1"
        using tools_before_user by blast
      have ki: "k - i = Suc (k - i - 1)" using k by simp
      have "drop (k - i) (m # ms) = drop (k - i - 1) ms" by (subst ki) simp
      moreover have e: "k - (i + 1 + length ?ts) + length ?ts = k - i - 1" using beyond k by simp
      ultimately have d: "drop (k - i) (m # ms) = drop (k - (i + 1 + length ?ts)) (dropWhile (has_role ''tool'') ms)"
        unfolding dropWhile_eq_drop drop_drop by (simp only:)
      have "has_role ''user'' (dropWhile (has_role ''tool'') ms ! (k - (i + 1 + length ?ts)))"
        using user e by (simp add: dropWhile_eq_drop add.commute)
      moreover have "k - (i + 1 + length ?ts) < length (dropWhile (has_role ''tool'') ms)"
        using user beyond by (simp add: dropWhile_eq_drop)
      moreover have "i + 1 + length ?ts \<le> k" using beyond k by simp
      ultimately obtain us vs where
        "units_from (Some k) (i + 1 + length ?ts) (dropWhile (has_role ''tool'') ms) = us @ vs"
        "unit_messages vs = drop (k - (i + 1 + length ?ts)) (dropWhile (has_role ''tool'') ms)" "list_all hu_protected vs"
        using "2.hyps"(1) [OF True] by auto
      with True d show ?thesis by (intro exI [of _ "_ # us"] exI [of _ vs]) simp
    next
      case no: False
      have "has_role ''user'' (ms ! (k - (i + 1)))" "k - (i + 1) < length ms" using k "2.prems" by (simp_all add: nth_Cons')
      with "2.hyps"(2) [OF no] k obtain us vs where "units_from (Some k) (i + 1) ms = us @ vs"
        "unit_messages vs = drop (k - (i + 1)) ms" "list_all hu_protected vs" by auto
      moreover have ki: "k - i = Suc (k - (i + 1))" using k by simp
      moreover have "drop (k - i) (m # ms) = drop (k - (i + 1)) ms" by (subst ki) simp
      ultimately show ?thesis using no by (intro exI [of _ "_ # us"] exI [of _ vs]) auto
    qed
  qed
qed simp

lemma select_units_spec:
  assumes "select_units memory b units us kept om = (kept', om')"
    and "distinct (map hu_index us)" and "set (map hu_index us) \<inter> set kept = {}"
  shows "set kept \<subseteq> set kept' \<and> set kept' \<subseteq> set kept \<union> set (map hu_index us)
    \<and> om' = rev (filter (\<lambda>u. hu_index u \<notin> set kept') us) @ om"
  using assms
proof (induction us arbitrary: kept om)
  case (Cons u us)
  show ?case
  proof (cases "int (estimateContextBytes (memory @ unit_messages (kept_units units (hu_index u # kept)))) \<le> b")
    case True
    with Cons.prems(1) have "select_units memory b units us (hu_index u # kept) om = (kept', om')" by simp
    from Cons.IH [OF this] Cons.prems(2,3) show ?thesis by auto
  next
    case False
    with Cons.prems(1) have "select_units memory b units us kept (u # om) = (kept', om')" by simp
    from Cons.IH [OF this] Cons.prems(2,3) show ?thesis by auto
  qed
qed simp

lemma select_all:
  assumes "select_units memory b units (rev (filter (\<lambda>u. \<not> hu_protected u) units)) [] [] = (kept, om)"
    and "distinct (map hu_index units)"
  shows "om = filter (\<lambda>u. \<not> (hu_protected u \<or> hu_index u \<in> set kept)) units"
proof -
  have "distinct (map hu_index (rev (filter (\<lambda>u. \<not> hu_protected u) units)))"
    using assms(2) by (simp add: distinct_map inj_on_def)
  from select_units_spec [OF assms(1) this] have "om = rev (filter (\<lambda>u. hu_index u \<notin> set kept) (rev (filter (\<lambda>u. \<not> hu_protected u) units)))"
    by simp
  also have "\<dots> = filter (\<lambda>u. hu_index u \<notin> set kept) (filter (\<lambda>u. \<not> hu_protected u) units)"
    by (simp only: rev_filter rev_rev_ident)
  also have "\<dots> = filter (\<lambda>u. \<not> (hu_protected u \<or> hu_index u \<in> set kept)) units"
    unfolding filter_filter by (rule filter_cong) auto
  finally show ?thesis .
qed

definition context_kept :: "build_options \<Rightarrow> build_result \<Rightarrow> bool" where
  "context_kept opts r \<longleftrightarrow>
     br_bytes r = estimateContextBytes (br_messages r) \<and> br_bytes r \<le> bo_max_context opts
     \<and> br_ids r = map me_id (bo_memory opts)
     \<and> (let memory = memory_messages (bo_memory opts); ms = bo_messages opts in
        if \<not> br_compressed r then br_messages r = memory @ ms \<and> br_omitted r = 0
        else \<exists>summary kept. br_messages r = memory @ summary_message summary # kept
          \<and> summary \<noteq> [] \<and> length summary \<le> bo_max_summary opts
          \<and> subseq kept ms \<and> filter (has_role ''system'') kept = filter (has_role ''system'') ms
          \<and> (case last_user ms of None \<Rightarrow> True | Some k \<Rightarrow> suffix (drop k ms) kept)
          \<and> length kept + br_omitted r = length ms)"

text \<open>What the kept units make of the conversation.\<close>

lemma kept_conversation:
  fixes P ms
  defines "kept \<equiv> unit_messages (filter (\<lambda>u. hu_protected u \<or> P u) (buildUnits ms))"
  shows "subseq kept ms" and "filter (has_role ''system'') kept = filter (has_role ''system'') ms"
    and "case last_user ms of None \<Rightarrow> True | Some k \<Rightarrow> suffix (drop k ms) kept"
    and "length kept + length (unit_messages (filter (\<lambda>u. \<not> (hu_protected u \<or> P u)) (buildUnits ms))) = length ms"
proof -
  have whole: "unit_messages (buildUnits ms) = ms" by (simp add: buildUnits_def units_whole)
  show "subseq kept ms" using filter_units_subseq [of "\<lambda>u. hu_protected u \<or> P u" "buildUnits ms"] by (simp add: kept_def whole)
  show "filter (has_role ''system'') kept = filter (has_role ''system'') ms"
    unfolding kept_def using filter_units [of "buildUnits ms" "\<lambda>u. hu_protected u \<or> P u" "has_role ''system''"]
    by (simp add: whole) (auto simp: buildUnits_def dest: units_system)
  show "length kept + length (unit_messages (filter (\<lambda>u. \<not> (hu_protected u \<or> P u)) (buildUnits ms))) = length ms"
    unfolding kept_def filter_units_length whole ..
  show "case last_user ms of None \<Rightarrow> True | Some k \<Rightarrow> suffix (drop k ms) kept"
  proof (cases "last_user ms")
    case (Some k)
    with last_user_Some [OF Some] units_tail [of 0 k ms] obtain us vs where
      "buildUnits ms = us @ vs" "unit_messages vs = drop k ms" "list_all hu_protected vs"
      by (auto simp: buildUnits_def)
    then have "filter (\<lambda>u. hu_protected u \<or> P u) vs = vs" by (simp add: list_all_iff filter_id_conv)
    then show ?thesis
      using \<open>buildUnits ms = us @ vs\<close> \<open>unit_messages vs = drop k ms\<close> by (auto simp: Some kept_def suffix_def)
  qed simp
qed

lemma summary_valid: "fst (runSummarizer f om raced sg limit w) = Inr s \<Longrightarrow> s \<noteq> [] \<and> length s \<le> limit"
  by (auto simp: runSummarizer_def validateSummary_def split: option.splits prod.splits summary_answer.splits if_splits)

lemma compress_kept:
  assumes "compress opts f sg w = (Inr r, w')"
  obtains kept summary where "br_messages r = memory_messages (bo_memory opts) @ summary_message summary
      # unit_messages (filter (\<lambda>u. hu_protected u \<or> hu_index u \<in> kept) (buildUnits (bo_messages opts)))"
    and "br_omitted r = length (unit_messages (filter (\<lambda>u. \<not> (hu_protected u \<or> hu_index u \<in> kept)) (buildUnits (bo_messages opts))))"
    and "summary \<noteq> []" and "length summary \<le> bo_max_summary opts" and "br_compressed r"
    and "br_bytes r = estimateContextBytes (br_messages r)" and "br_bytes r \<le> bo_max_context opts"
    and "br_ids r = map me_id (bo_memory opts)" and "is_ok (validateAgentMessages (JArr (br_messages r)))"
proof -
  let ?units = "buildUnits (bo_messages opts)"
  obtain kept om where sel: "select_units (memory_messages (bo_memory opts)) (int (bo_max_context opts) - int summary_overhead)
      ?units (rev (filter (\<lambda>u. \<not> hu_protected u) ?units)) [] [] = (kept, om)" by fastforce
  have om: "om = filter (\<lambda>u. \<not> (hu_protected u \<or> hu_index u \<in> set kept)) ?units"
    by (rule select_all [OF sel]) (simp add: buildUnits_def units_distinct)
  obtain a w1 where run: "runSummarizer (if bo_summarizer opts then Some f else None) (unit_messages om)
      (bo_signal opts) sg (bo_max_summary opts) w = (a, w1)" by fastforce
  from assms sel run obtain summary where a: "a = Inr summary"
    and fin: "finish_context opts (memory_messages (bo_memory opts)) ?units kept (unit_messages om) summary = Inr r"
    by (auto simp: compress_def Let_def split: if_splits sum.splits)
  from summary_valid [of "if bo_summarizer opts then Some f else None"] run a
  have "summary \<noteq> [] \<and> length summary \<le> bo_max_summary opts" by (metis fst_conv)
  with fin show thesis
    by (intro that [of summary "set kept"])
      (auto simp: finish_context_def Let_def kept_units_def om split: if_splits)
qed

section \<open>Against the adapters\<close>

text \<open>A call settles ids; with fewer settled ids before, the same conversation still passes.\<close>

lemma fewer_settled:
  assumes step: "\<And>x P S P' S' T. x \<in> set xs \<Longrightarrow> f x (P, S) = Inr (P', S') \<Longrightarrow> T \<subseteq> S \<Longrightarrow> \<exists>T'. f x (P, T) = Inr (P', T') \<and> T' \<subseteq> S'"
    and "rfold f xs (P, S) = Inr (P', S')" and "T \<subseteq> S"
  shows "\<exists>T'. rfold f xs (P, T) = (Inr (P', T') :: 'e + _) \<and> T' \<subseteq> S'"
  using assms
proof (induction xs arbitrary: P S T)
  case (Cons x xs)
  then obtain P1 S1 where s: "f x (P, S) = Inr (P1, S1)" and rest: "rfold f xs (P1, S1) = Inr (P', S')" by auto
  from Cons.prems(1) [OF _ s Cons.prems(3)] obtain T1 where t: "f x (P, T) = Inr (P1, T1)" "T1 \<subseteq> S1" by auto
  have "\<exists>T'. rfold f xs (P1, T1) = Inr (P', T') \<and> T' \<subseteq> S'"
    by (rule Cons.IH [OF _ rest t(2)]) (use Cons.prems(1) in \<open>meson list.set_intros(2)\<close>)
  with t(1) show ?case by auto
qed simp

lemma fewer_settled_message:
  assumes "correlate_message m (P, S) = Inr (P', S')" and "T \<subseteq> S"
  shows "\<exists>T'. correlate_message m (P, T) = Inr (P', T') \<and> T' \<subseteq> S'"
proof -
  have call: "\<exists>T'. correlate_call x (P, T) = Inr (P', T') \<and> T' \<subseteq> S'"
    if "correlate_call x (P, S) = Inr (P', S')" "T \<subseteq> S" for x P S P' S' T
    using that by (cases x) (auto simp: correlate_call_def split: if_splits)
  have result: "\<exists>T'. correlate_result x (P, T) = Inr (P', T') \<and> T' \<subseteq> S'"
    if "correlate_result x (P, S) = Inr (P', S')" "T \<subseteq> S" for x P S P' S' T
    using that by (cases x) (auto simp: correlate_result_def split: if_splits)
  note fold_call = fewer_settled [of "content m" correlate_call P S P' S' T]
  note fold_result = fewer_settled [of "content m" correlate_result P S P' S' T]
  show ?thesis
    using assms fold_call [OF call] fold_result [OF result]
    by (auto simp: correlate_message_def split: if_splits)
qed

lemma settled_grows_message:
  assumes "correlate_message m (P, S) = Inr (P', S')"
  shows "S \<subseteq> S'"
proof -
  have call: "S \<subseteq> snd v" if "correlate_call x u = Inr v" "S \<subseteq> snd u" for x u v
    using that by (cases x) (auto simp: correlate_call_def split: if_splits)
  have result: "S \<subseteq> snd v" if "correlate_result x u = Inr v" "S \<subseteq> snd u" for x u v
    using that by (cases x) (auto simp: correlate_result_def split: if_splits)
  have "S \<subseteq> snd v" if "rfold correlate_call (content m) (P, S) = Inr v" for v
    by (rule rfold_invariant [OF that]) (auto dest: call)
  moreover have "S \<subseteq> snd v" if "rfold correlate_result (content m) (P, S) = Inr v" for v
    by (rule rfold_invariant [OF that]) (auto dest: result)
  ultimately show ?thesis
    using assms by (auto simp: correlate_message_def split: if_splits)
qed

text \<open>The messages as the adapters read them.\<close>

definition correlate :: "jsval list \<Rightarrow> correlation \<Rightarrow> adapter_code + correlation" where
  "correlate ms st = rfold correlate_message (map as_message ms) st"

lemma correlate_append: "correlate (ms @ ns) st = rbind (correlate ms st) (correlate ns)"
  by (induction ms arbitrary: st) (auto simp: correlate_def rbind_def split: sum.splits)

lemma correlate_simps [simp]:
  "correlate [] st = Inr st"
  "correlate (m # ms) st = rbind (correlate_message (as_message m) st) (correlate ms)"
  by (simp_all add: correlate_def rbind_def split: sum.splits)

lemma fewer_settled_messages:
  "correlate ms (P, S) = Inr (P', S') \<Longrightarrow> T \<subseteq> S \<Longrightarrow> \<exists>T'. correlate ms (P, T) = Inr (P', T') \<and> T' \<subseteq> S'"
  unfolding correlate_def by (rule fewer_settled) (auto dest: fewer_settled_message)

lemma settled_grows: "correlate ms (P, S) = Inr (P', S') \<Longrightarrow> S \<subseteq> S'"
proof (induction ms arbitrary: P S)
  case (Cons m ms)
  then obtain P1 S1 where "correlate_message (as_message m) (P, S) = Inr (P1, S1)" "correlate ms (P1, S1) = Inr (P', S')" by auto
  with Cons.IH settled_grows_message show ?case by blast
qed simp

text \<open>Units that each start and end without a pending call.\<close>

fun balanced :: "string set \<Rightarrow> history_unit list \<Rightarrow> bool" where
  "balanced S [] = True"
| "balanced S (u # us) = (\<exists>S'. correlate (hu_messages u) ({}, S) = Inr ({}, S') \<and> balanced S' us)"

lemma balanced_filter:
  "balanced S us \<Longrightarrow> T \<subseteq> S \<Longrightarrow> \<exists>T'. correlate (unit_messages (filter P us)) ({}, T) = Inr ({}, T')"
proof (induction us arbitrary: S T)
  case (Cons u us)
  then obtain S' where u: "correlate (hu_messages u) ({}, S) = Inr ({}, S')" and us: "balanced S' us" by auto
  show ?case
  proof (cases "P u")
    case True
    from fewer_settled_messages [OF u Cons.prems(2)] obtain T1 where "correlate (hu_messages u) ({}, T) = Inr ({}, T1)" "T1 \<subseteq> S'" by auto
    with Cons.IH [OF us, of T1] True show ?thesis by (auto simp: correlate_append)
  next
    case False
    with Cons.IH [OF us, of T] settled_grows [OF u] Cons.prems(2) show ?thesis by auto
  qed
qed simp

definition role_ok :: "jsval \<Rightarrow> bool" where
  "role_ok m \<longleftrightarrow> (\<exists>r. field m ''role'' = JStr (role_name r))"

lemma role_ok_iff: "role_ok m \<Longrightarrow> has_role (role_name r) m \<longleftrightarrow> role (as_message m) = r"
  by (auto simp: role_ok_def has_role_def as_message_def) (metis as_role_name)

lemmas role_iffs = role_ok_iff [of _ System, simplified] role_ok_iff [of _ User, simplified]
  role_ok_iff [of _ Assistant, simplified] role_ok_iff [of _ Tool, simplified]

lemma correlate_call_none:
  "list_all (\<lambda>b. field b ''type'' \<noteq> JStr ''tool_call'') bs \<Longrightarrow> rfold correlate_call (map as_block bs) st = Inr st"
  by (cases st, induction bs) (auto simp: correlate_call_def as_block_def)

lemma correlate_result_none: "rfold correlate_result bs ({}, S) = Inr st \<Longrightarrow> st = ({}, S)"
proof (induction bs)
  case (Cons b bs)
  then show ?case by (cases b) (auto simp: correlate_result_def)
qed simp

lemma single_unit_settled:
  assumes "correlate_message (as_message m) ({}, S) = Inr st" and "role_ok m"
    and "\<not> (messageHasToolCall m \<and> has_role ''assistant'' m)"
  shows "st = ({}, S)"
proof (cases "role (as_message m) = Assistant")
  case True
  with assms(2,3) have "list_all (\<lambda>b. field b ''type'' \<noteq> JStr ''tool_call'') (as_arr (field m ''content''))"
    by (auto simp: role_iffs messageHasToolCall_def has_block_def list_ex_iff list_all_iff)
  from correlate_call_none [OF this] assms(1) True show ?thesis by (simp add: correlate_message_def as_message_def)
next
  case False
  then show ?thesis
    using assms(1) correlate_result_none by (auto simp: correlate_message_def split: if_splits)
qed

lemma pending_first:
  assumes "correlate (x # ms) (P, S) = Inr st" and "role (as_message x) = User \<or> role (as_message x) = Assistant"
  shows "P = {}"
  using assms by (auto simp: correlate_message_def rbind_def split: if_splits sum.splits)

lemma units_balanced:
  assumes "correlate ms ({}, S) = Inr ({}, S')" and "list_all role_ok ms"
    and "list_all (\<lambda>m. role (as_message m) \<noteq> System) (tl ms)"
  shows "balanced S (units_from lu i ms)"
  using assms
proof (induction lu i ms arbitrary: S rule: units_from.induct)
  case (2 lu i m ms)
  show ?case
  proof (cases "messageHasToolCall m \<and> has_role ''assistant'' m")
    case True
    let ?ts = "takeWhile (has_role ''tool'') ms" and ?rest = "dropWhile (has_role ''tool'') ms"
    have "correlate ((m # ?ts) @ ?rest) ({}, S) = Inr ({}, S')" using "2.prems"(1) by simp
    then obtain P S1 where group: "correlate (m # ?ts) ({}, S) = Inr (P, S1)" and rest: "correlate ?rest (P, S1) = Inr ({}, S')"
      unfolding correlate_append by (auto simp: rbind_def split: sum.splits)
    have "P = {}"
    proof (cases ?rest)
      case Nil
      with rest show ?thesis by simp
    next
      case (Cons x xs)
      then have x: "\<not> has_role ''tool'' x" "x \<in> set ms"
        by (metis hd_dropWhile list.distinct(1) list.sel(1)) (metis Cons list.set_intros(1) set_dropWhileD)
      with "2.prems"(2,3) have "role (as_message x) \<noteq> Tool" "role (as_message x) \<noteq> System"
        by (auto simp: list_all_iff role_iffs)
      with pending_first [of x xs P S1] rest Cons show ?thesis by (cases "role (as_message x)") auto
    qed
    moreover have "list_all role_ok ?rest" "list_all (\<lambda>m. role (as_message m) \<noteq> System) (tl ?rest)"
      using "2.prems"(2,3) by (auto simp: list_all_iff dest: set_dropWhileD list.set_sel(2) [rotated])
        (metis list.sel(2) list.set_sel(2) set_dropWhileD)
    ultimately show ?thesis using "2.IH"(1) [OF True, of S1] group rest True by auto
  next
    case False
    from "2.prems"(1) obtain st where m: "correlate_message (as_message m) ({}, S) = Inr st" and rest: "correlate ms st = Inr ({}, S')"
      by auto
    from single_unit_settled [OF m _ False] "2.prems"(2) have "st = ({}, S)" by simp
    moreover have "list_all (\<lambda>m. role (as_message m) \<noteq> System) (tl ms)"
      using "2.prems"(3) by (auto simp: list_all_iff dest: list.set_sel(2) [rotated]) (metis list.sel(2) list.set_sel(2))
    ultimately show ?thesis using "2.IH"(2) [OF False, of S] m rest "2.prems"(2) False by auto
  qed
qed simp

text \<open>What validation and the shape check say of the messages.\<close>

lemma validated_messages:
  assumes "validateAgentMessages (JArr ms) = Inr u"
  shows "list_all (\<lambda>m. role_ok m \<and> as_arr (field m ''content'') \<noteq> []) ms"
proof -
  from assms obtain seen where fold: "rfold validate_message ms {} = Inr seen"
    by (auto simp: validateAgentMessages_def rbind_def split: if_splits sum.splits)
  have one: "role_ok m \<and> as_arr (field m ''content'') \<noteq> []" if "validate_message m s = Inr t" for m s t
    using that by (auto simp: validate_message_def assertAgentRole_def allowed_agent_roles_def role_ok_def rbind_def is_string_iff
        intro: exI [of _ System] exI [of _ User] exI [of _ Assistant] exI [of _ Tool] split: if_splits sum.splits)
  show ?thesis
    using fold
  proof (induction ms arbitrary: seen rule: rev_induct)
    case (snoc m ms)
    then obtain s where "rfold validate_message ms {} = Inr s" "validate_message m s = Inr seen"
      by (auto simp: rfold_append)
    with snoc.IH one show ?case by auto
  qed simp
qed

lemma shape_system_first:
  assumes "assertRoleBlockShape ms = Inr u" and "j < length ms" and "0 < j" and "content (ms ! j) \<noteq> []"
  shows "role (ms ! j) \<noteq> System"
proof
  assume r: "role (ms ! j) = System"
  from assms(2) have "(j, ms ! j) \<in> set (zip [0..<length ms] ms)" by (auto simp: in_set_conv_nth)
  with assms(1) have "rall (check_block (role (ms ! j)) j) (content (ms ! j)) = Inr ()"
    by (auto simp: assertRoleBlockShape_def rall_ok)
  with assms(4) obtain b where "check_block System j b = Inr ()" by (auto simp: r rall_ok neq_Nil_conv)
  with assms(3) show False by (cases b) (auto simp: check_block_def)
qed

lemma shape_tail:
  assumes "assertRoleBlockShape (map as_message ms) = Inr u" and "list_all (\<lambda>m. as_arr (field m ''content'') \<noteq> []) ms"
  shows "list_all (\<lambda>m. role (as_message m) \<noteq> System) (tl ms)"
proof -
  have "role (as_message (ms ! j)) \<noteq> System" if "0 < j" "j < length ms" for j
    using shape_system_first [OF assms(1), of j] assms(2) that by (auto simp: list_all_iff as_message_def)
  then have "role (as_message (tl ms ! k)) \<noteq> System" if "k < length (tl ms)" for k
    using that by (simp add: nth_tl)
  then show ?thesis by (auto simp: list_all_iff in_set_conv_nth)
qed

lemma correlate_system [simp]: "correlate_message (as_message (system_text t)) st = Inr st"
  by (simp add: correlate_message_def as_message_def system_text_def as_role_def)

lemma correlate_memory [simp]: "correlate (memory_messages es) st = Inr st"
  by (simp add: memory_messages_def renderMemoryMessage_def)

lemma parsed_messages: "parseBuildOptions v = Inr opts \<Longrightarrow> validateAgentMessages (JArr (bo_messages opts)) = Inr ()"
  by (auto simp: parseBuildOptions_def rbind_def is_ok_iff is_array_iff split: if_splits sum.splits)

lemma built_cases:
  assumes "buildContext options f sg w = (Inr r, w')" and "parseBuildOptions options = Inr opts"
  obtains (whole) "br_messages r = memory_messages (bo_memory opts) @ bo_messages opts" and "\<not> br_compressed r"
      and "br_bytes r = estimateContextBytes (br_messages r)" and "br_bytes r \<le> bo_max_context opts"
      and "br_ids r = map me_id (bo_memory opts)" and "br_omitted r = 0"
  | (compressed) sg' where "compress opts f sg' w = (Inr r, w')"
  using assms by (auto simp: buildContext_def Let_def split: prod.splits if_splits)

lemma is_ok_unit: "is_ok (x :: 'e + unit) \<longleftrightarrow> x = Inr ()"
  by (auto simp: is_ok_iff)

lemma built_correlation:
  assumes "buildContext options f sg w = (Inr r, w')" and "parseBuildOptions options = Inr opts"
    and "assertRoleBlockShape (map as_message (bo_messages opts)) = Inr ()"
    and "assertToolCorrelation (map as_message (bo_messages opts)) = Inr ()"
  shows "assertToolCorrelation (map as_message (br_messages r)) = Inr ()"
proof -
  from validated_messages [OF parsed_messages [OF assms(2)]]
  have ms: "list_all role_ok (bo_messages opts)" "list_all (\<lambda>m. as_arr (field m ''content'') \<noteq> []) (bo_messages opts)"
    by (simp_all add: list_all_iff)
  from assms(4) obtain S where S: "correlate (bo_messages opts) ({}, {}) = Inr ({}, S)"
    by (auto simp: assertToolCorrelation_def correlate_def rbind_def split: sum.splits if_splits)
  from units_balanced [OF S ms(1) shape_tail [OF assms(3) ms(2)]]
  have bal: "balanced {} (buildUnits (bo_messages opts))" by (simp add: buildUnits_def)
  have "\<exists>T. correlate (br_messages r) ({}, {}) = Inr ({}, T)"
    using assms(1,2)
  proof (cases rule: built_cases)
    case whole
    with S show ?thesis by (simp add: correlate_append)
  next
    case (compressed sg')
    obtain summary K where "br_messages r = memory_messages (bo_memory opts) @ summary_message summary
      # unit_messages (filter (\<lambda>u. hu_protected u \<or> hu_index u \<in> K) (buildUnits (bo_messages opts)))"
      by (rule compress_kept [OF compressed]) blast
    with balanced_filter [OF bal] show ?thesis by (simp add: correlate_append summary_message_def)
  qed
  then show ?thesis by (auto simp: assertToolCorrelation_def correlate_def)
qed

text \<open>A second system message is what the adapters refuse.\<close>

lemma shape_refused:
  assumes "j < length ms" and "0 < j" and "role (ms ! j) = System" and "content (ms ! j) \<noteq> []"
  shows "assertRoleBlockShape ms = Inl InvalidAdapterRequest"
proof -
  have only: "assertRoleBlockShape ms = Inr () \<or> assertRoleBlockShape ms = Inl InvalidAdapterRequest"
  proof -
    have block: "rall (check_block r i) bs = Inr () \<or> rall (check_block r i) bs = Inl InvalidAdapterRequest" for r i bs
      by (induction bs) (auto simp: check_block_def split: content_block.splits)
    have "rall (\<lambda>(i, m). rall (check_block (role m) i) (content m)) xs = Inr ()
        \<or> rall (\<lambda>(i, m). rall (check_block (role m) i) (content m)) xs = Inl InvalidAdapterRequest" for xs
    proof (induction xs)
      case (Cons x xs)
      obtain i m where x: "x = (i, m)" by fastforce
      from this Cons show ?case using block [of "role m" i "content m"] by auto
    qed simp
    then show ?thesis by (simp add: assertRoleBlockShape_def)
  qed
  with shape_system_first [of ms "()" j] assms show ?thesis by auto
qed

lemma system_message_role: "role (as_message (system_text t)) = System" "content (as_message (system_text t)) = [TextBlock t]"
  by (simp_all add: as_message_def system_text_def as_role_def as_block_def)

lemma second_system:
  assumes "map as_message xs = ys" and "x \<in> set (tl xs)" and "role (as_message x) = System" and "content (as_message x) \<noteq> []"
  shows "assertRoleBlockShape ys = Inl InvalidAdapterRequest"
proof -
  from assms(2) obtain k where k: "k < length (tl xs)" "tl xs ! k = x" by (auto simp: in_set_conv_nth)
  then have "Suc k < length xs" "xs ! Suc k = x" by (auto simp: nth_tl)
  with assms show ?thesis by (intro shape_refused [of "Suc k"]) auto
qed

section \<open>Properties\<close>

text \<open>
  C34: what a built context keeps.  Its size is the one reported and is within the budget; without
  compression it is the memory message and the whole conversation; with compression it is the memory
  message, one summary of acceptable size, and a subsequence of the conversation that has every system
  message and everything from the last user message on, and the omitted messages are counted exactly.
\<close>

theorem context_keeps_protected:
  "case buildContext options f sg w of
     (Inl _, _) \<Rightarrow> True
   | (Inr r, _) \<Rightarrow> (case parseBuildOptions options of Inl _ \<Rightarrow> False | Inr opts \<Rightarrow> context_kept opts r)"
proof (cases "buildContext options f sg w")
  case (Pair a w')
  show ?thesis
  proof (cases a)
    case (Inr r)
    with Pair have built: "buildContext options f sg w = (Inr r, w')" by simp
    then obtain opts where opts: "parseBuildOptions options = Inr opts"
      by (auto simp: buildContext_def split: sum.splits)
    have "context_kept opts r"
      using built opts
    proof (cases rule: built_cases)
      case whole
      then show ?thesis by (simp add: context_kept_def)
    next
      case (compressed sg')
      show ?thesis
        by (rule compress_kept [OF compressed])
          (use kept_conversation [where ms = "bo_messages opts"] in \<open>auto simp: context_kept_def Let_def\<close>)
    qed
    then show ?thesis by (simp add: built opts)
  qed (simp add: Pair)
qed

text \<open>
  Compression never separates a tool call from its results.  When the conversation is one that the
  provider adapters accept (role and block shape, tool correlation), then in the built context, too, every
  call is answered exactly once and every result has its call.
\<close>

theorem context_keeps_tool_correlation:
  assumes "buildContext options f sg w = (Inr r, w')" and "parseBuildOptions options = Inr opts"
    and "assertRoleBlockShape (map as_message (bo_messages opts)) = Inr ()"
    and "assertToolCorrelation (map as_message (bo_messages opts)) = Inr ()"
  shows "assertToolCorrelation (map as_message (br_messages r)) = Inr ()"
  using assms by (rule built_correlation)

text \<open>
  A built context with more than one system message cannot be sent.  Memory and summary are system
  messages of their own, in front of the conversation's; whenever two of the three are there, both
  adapters refuse the context as an invalid request.
\<close>

theorem context_with_two_systems_refused:
  assumes "buildContext options f sg w = (Inr r, w')" and "parseBuildOptions options = Inr opts"
    and "(if bo_memory opts \<noteq> [] then 1 else 0) + (if br_compressed r then 1 else 0)
       + (if list_ex (has_role ''system'') (bo_messages opts) then 1 else 0) \<ge> (2 :: nat)"
  shows "assertRoleBlockShape (map as_message (br_messages r)) = Inl InvalidAdapterRequest"
proof -
  have ms: "list_all (\<lambda>m. role_ok m \<and> as_arr (field m ''content'') \<noteq> []) (bo_messages opts)"
    by (rule validated_messages [OF parsed_messages [OF assms(2)]])
  then have sys: "role (as_message m) = System \<and> content (as_message m) \<noteq> []"
    if "m \<in> set (bo_messages opts)" "has_role ''system'' m" for m
    using that role_iffs(1) [of m] by (auto simp: list_all_iff as_message_def)
  have old: "\<exists>m \<in> set xs. role (as_message m) = System \<and> content (as_message m) \<noteq> []"
    if "list_ex (has_role ''system'') (bo_messages opts)"
      "filter (has_role ''system'') xs = filter (has_role ''system'') (bo_messages opts)" for xs
  proof -
    from that(1) obtain m where m: "m \<in> set (bo_messages opts)" "has_role ''system'' m" by (auto simp: list_ex_iff)
    then have "m \<in> set (filter (has_role ''system'') xs)" by (simp add: that(2))
    with sys [OF m] show ?thesis by auto
  qed
  show ?thesis
    using assms(1,2)
  proof (cases rule: built_cases)
    case whole
    with assms(3) have "bo_memory opts \<noteq> []" "list_ex (has_role ''system'') (bo_messages opts)" by (auto split: if_splits)
    with old [of "bo_messages opts"] obtain m where "m \<in> set (tl (br_messages r))" "role (as_message m) = System"
      "content (as_message m) \<noteq> []" by (auto simp: whole(1) memory_messages_def)
    then show ?thesis by (rule second_system [OF refl])
  next
    case (compressed sg')
    show ?thesis
    proof (rule compress_kept [OF compressed])
      fix kept summary
      assume br: "br_messages r = memory_messages (bo_memory opts) @ summary_message summary
        # unit_messages (filter (\<lambda>u. hu_protected u \<or> hu_index u \<in> kept) (buildUnits (bo_messages opts)))"
      show ?thesis
      proof (cases "bo_memory opts = []")
        case False
        then show ?thesis
          by (intro second_system [OF refl, of "summary_message summary"])
            (simp_all add: br memory_messages_def summary_message_def system_message_role)
      next
        case True
        with assms(3) have "list_ex (has_role ''system'') (bo_messages opts)" by (auto split: if_splits)
        from old [OF this kept_conversation(2) [of "\<lambda>u. hu_index u \<in> kept"]] True obtain m where "m \<in> set (tl (br_messages r))"
          "role (as_message m) = System" "content (as_message m) \<noteq> []" by (auto simp: br memory_messages_def)
        then show ?thesis by (rule second_system [OF refl])
      qed
    qed
  qed
qed

text \<open>A conversation with a tool call, under a budget that it exceeds.\<close>

definition said :: "string \<Rightarrow> string \<Rightarrow> jsval" where
  "said who t =
     JObj [(''role'', JStr who), (''content'', JArr [JObj [(''type'', JStr ''text''), (''text'', JStr t)]])]"

definition long_talk :: "jsval list" where
  "long_talk =
     [said ''system'' ''s'', said ''user'' (replicate 200 (CHR ''a'')),
      message_value \<lparr>role = Assistant, content = [ToolCallBlock ''c'' ''n'' (JObj [])]\<rparr>,
      message_value \<lparr>role = Tool, content = [ToolResultBlock ''c'' ''x'' JUndef]\<rparr>,
      said ''user'' ''b'']"

definition talk_options :: "jsval list \<Rightarrow> nat \<Rightarrow> jsval" where
  "talk_options ms n =
     JObj [(''messages'', JArr ms), (''maxContextBytes'', JNum (jsnat n)),
           (''summarizer'', JObj [(''summarize'', JFun)])]"

definition brief :: "unit summarizer" where
  "brief ms w = (SummaryAnswered (JStr ''t''), w)"

lemma long_talk_parsed:
  "parseBuildOptions (talk_options long_talk 480) =
     Inr \<lparr>bo_messages = long_talk, bo_memory = [], bo_max_context = 480, bo_max_summary = 8192,
          bo_summarizer = True, bo_signal = False\<rparr>"
  by code_simp

lemma long_talk_built:
  "\<exists>r. buildContext (talk_options long_talk 480) brief None () = (Inr r, ()) \<and> br_compressed r"
proof -
  have "case buildContext (talk_options long_talk 480) brief None () of
      (Inr r, _) \<Rightarrow> br_compressed r | _ \<Rightarrow> False" by code_simp
  then show ?thesis by (auto split: prod.splits sum.splits)
qed

lemma context_keeps_tool_correlation_witness:
  "\<exists>r. buildContext (talk_options long_talk 480) brief None () = (Inr r, ())
     \<and> assertToolCorrelation (map as_message (br_messages r)) = Inr ()"
proof -
  obtain r where r: "buildContext (talk_options long_talk 480) brief None () = (Inr r, ())"
    using long_talk_built by blast
  have "assertRoleBlockShape (map as_message long_talk) = Inr ()" "assertToolCorrelation (map as_message long_talk) = Inr ()"
    by code_simp+
  with context_keeps_tool_correlation [OF r long_talk_parsed] r show ?thesis by simp
qed

lemma context_with_two_systems_refused_witness:
  "\<exists>r. buildContext (talk_options long_talk 480) brief None () = (Inr r, ())
     \<and> assertRoleBlockShape (map as_message (br_messages r)) = Inl InvalidAdapterRequest"
proof -
  obtain r where r: "buildContext (talk_options long_talk 480) brief None () = (Inr r, ())" "br_compressed r"
    using long_talk_built by blast
  have "list_ex (has_role ''system'') long_talk" by code_simp
  with context_with_two_systems_refused [OF r(1) long_talk_parsed] r show ?thesis by simp
qed

text \<open>
  The selection goes on after the first unit that does not fit: an older, shorter message is kept where a
  newer, longer one is dropped.
\<close>

lemma newer_history_dropped_first:
  "case buildContext (talk_options [said ''user'' ''a'', said ''user'' (replicate 200 (CHR ''b'')), said ''user'' ''c''] 300)
       brief None () of
     (Inr r, _) \<Rightarrow> br_messages r = [summary_message ''t'', said ''user'' ''a'', said ''user'' ''c''] | _ \<Rightarrow> False"
  by code_simp

end
