(* ===== verification/Local_Turns.thy ===== *)
theory Local_Turns
  imports Client_Calls
begin

text \<open>
  Client and server together: the path and the body that \<open>runTurn\<close> sends are the ones the server's
  handler works on, and the client yields what the handler streamed.
\<close>

section \<open>Path segments\<close>

definition steady :: "text_decoder \<Rightarrow> bool" where
  "steady d \<longleftrightarrow> td_bom d \<and> (td_need d = 0 \<longrightarrow> d = td_plain) \<and> (td_need d \<noteq> 0 \<longrightarrow> 128 \<le> td_lower d)"

lemma steady_plain: "steady td_plain"
  by (simp add: steady_def td_plain_def td_init_def)

lemma steady_byte: "steady d \<Longrightarrow> decode_byte d c = Some (d', s) \<Longrightarrow> steady d'"
  by (auto simp: steady_def decode_byte_def td_emit_def td_plain_def td_init_def Let_def split: if_splits)

lemma steady_ascii:
  "steady d \<Longrightarrow> (of_char c :: nat) < 128 \<Longrightarrow> decode_byte d c = Some (d', s) \<Longrightarrow> d = td_plain \<and> d' = td_plain \<and> s = [c]"
  by (auto simp: steady_def decode_byte_def td_emit_def td_plain_def td_init_def Let_def split: if_splits)

lemma upper_hex_val: "n < 16 \<Longrightarrow> hex_val (upper_hex n) = Some n"
proof -
  assume "n < 16"
  then have "n \<in> set [0..<16]" by simp
  moreover have "\<forall>n \<in> set [0..<16]. hex_val (upper_hex n) = Some n" by code_simp
  ultimately show ?thesis by blast
qed

lemma upper_hex_slash: "n < 16 \<Longrightarrow> CHR ''/'' \<noteq> upper_hex n"
proof -
  assume "n < 16"
  then have "n \<in> set [0..<16]" by simp
  moreover have "\<forall>n \<in> set [0..<16]. CHR ''/'' \<noteq> upper_hex n" by code_simp
  ultimately show ?thesis by blast
qed

lemma char_halves: "(of_char c :: nat) div 16 < 16 \<and> (of_char c :: nat) mod 16 < 16"
  using less_mult_imp_div_less [of "of_char c :: nat" 16 16] by simp

lemma unreserved_ascii: "uri_unreserved c \<Longrightarrow> (of_char c :: nat) < 128 \<and> c \<noteq> CHR ''%'' \<and> c \<noteq> CHR ''/''"
  unfolding uri_unreserved_def Let_def by (elim disjE conjE) (auto simp: insert_iff)

lemma decode_uri_percent:
  "decode_uri d (percent_byte c @ r) =
     (case decode_byte d c of None \<Rightarrow> None | Some (d', out) \<Rightarrow> map_option ((@) out) (decode_uri d' r))"
  using char_halves [of c] by (simp add: percent_byte_def upper_hex_val del: upper_hex.simps hex_val.simps)

lemma decode_encoded:
  assumes "encode_uri s = Some e" and "decode_bytes d s = Some (d', t)" and "td_need d' = 0" and "steady d"
  shows "decode_uri d e = Some t"
  using assms
proof (induction s arbitrary: d e t)
  case (Cons c cs)
  from Cons.prems(1) obtain e' where e': "encode_uri cs = Some e'"
    and e: "e = (if uri_unreserved c then [c] else percent_byte c) @ e'" by (auto split: if_splits)
  from Cons.prems(2) obtain d1 o1 t' where step: "decode_byte d c = Some (d1, o1)"
    and rest: "decode_bytes d1 cs = Some (d', t')" and t: "t = o1 @ t'" by (auto split: option.splits)
  from Cons.IH [OF e' rest Cons.prems(3) steady_byte [OF Cons.prems(4) step]] have ih: "decode_uri d1 e' = Some t'" .
  show ?case
  proof (cases "uri_unreserved c")
    case True
    with unreserved_ascii [OF True] steady_ascii [OF Cons.prems(4) _ step] ih show ?thesis
      by (simp add: e t td_plain_def td_init_def)
  next
    case False
    then show ?thesis by (simp add: e t decode_uri_percent step ih)
  qed
qed simp

lemma td_ready_plain: "td_ready = td_plain"
  by (simp add: td_ready_def td_plain_def)

lemma decode_path_encoded:
  assumes "encode_uri i = Some e" and "utf8_text i" and "i \<noteq> []" and "CHR 0x00 \<notin> set i"
  shows "decodePathSegment e = i"
proof -
  have "decode_uri td_plain e = Some i"
    by (rule decode_encoded [OF assms(1), of _ td_plain])
      (use assms(2) in \<open>simp_all add: steady_plain utf8_text_def td_ready_plain\<close>, simp add: td_plain_def td_init_def)
  with assms(3,4) show ?thesis by (simp add: decodePathSegment_def)
qed

lemma encoded_slash: "encode_uri s = Some e \<Longrightarrow> CHR ''/'' \<notin> set e"
proof (induction s arbitrary: e)
  case (Cons c cs)
  then obtain e' where "encode_uri cs = Some e'" and "e = (if uri_unreserved c then [c] else percent_byte c) @ e'"
    by (auto split: if_splits)
  with Cons.IH show ?case
    using upper_hex_slash [OF conjunct1 [OF char_halves [of c]]] upper_hex_slash [OF conjunct2 [OF char_halves [of c]]]
    by (auto simp: percent_byte_def dest: unreserved_ascii simp del: upper_hex.simps)
qed simp

lemma encoded_Nil: "encode_uri s = Some e \<Longrightarrow> s \<noteq> [] \<Longrightarrow> e \<noteq> []"
  by (cases s) (auto simp: percent_byte_def split: if_splits)

lemma split_path_slash: "CHR ''/'' \<notin> set xs \<Longrightarrow> split_path (xs @ CHR ''/'' # ys) = xs # split_path ys"
  by (induction xs) auto

lemma split_path_plain: "CHR ''/'' \<notin> set xs \<Longrightarrow> split_path xs = [xs]"
  by (induction xs) auto

lemma turns_path:
  assumes "CHR ''/'' \<notin> set e"
  shows "split_path (''/v1/sessions/'' @ e @ ''/turns'') = [[], ''v1'', ''sessions'', e, ''turns'']"
  using split_path_slash [OF assms, of "''turns''"] by simp

text \<open>The address of a session's turns is routed back to the session.\<close>

lemma turns_route:
  assumes "encode_uri i = Some e" and "utf8_text i" and "i \<noteq> []" and "CHR 0x00 \<notin> set i"
  shows "route_of (''/v1/sessions/'' @ e @ ''/turns'') = TurnsRoute i"
  unfolding route_of_def turns_path [OF encoded_slash [OF assms(1)]]
  using encoded_Nil [OF assms(1,3)] decode_path_encoded [OF assms] by simp

section \<open>Bodies\<close>

lemma utf8_lossy_decoded: "decode_bytes d s = Some (d', t) \<Longrightarrow> td_need d' = 0 \<Longrightarrow> utf8_lossy d s = t"
  by (induction s arbitrary: d t) (auto split: option.splits)

lemma utf8_lossy_text: "utf8_text s \<Longrightarrow> utf8_lossy td_plain s = s"
  by (rule utf8_lossy_decoded [where d' = td_plain]) (simp_all add: utf8_text_def td_ready_plain td_plain_def td_init_def)

lemma trim_braces: "js_trim (CHR ''{'' # s @ [CHR ''}'']) = CHR ''{'' # s @ [CHR ''}'']"
  by (rule js_trim_id) (simp_all add: ws_seqs_def)

lemma stringify_kept: "json_kept v \<Longrightarrow> json_stringify v = Some (stringify_text v)"
  using lexes_value [of v] by (auto simp: stringify_text_def)

lemma object_text: "json_kept (JObj kvs) \<Longrightarrow> \<exists>s. stringify_text (JObj kvs) = CHR ''{'' # s @ [CHR ''}'']"
  by (auto simp: stringify_text_def)

text \<open>A request that goes over the wire unchanged.\<close>

definition postable :: "jsnum \<Rightarrow> jsval \<Rightarrow> bool" where
  "postable limit v \<longleftrightarrow> json_kept v \<and> utf8_text (stringify_text v) \<and> \<not> num_less limit (jsnat (length (stringify_text v)))"

definition posted :: "string \<Rightarrow> string \<Rightarrow> http_call" where
  "posted path body = \<lparr>hc_method = ''POST'', hc_path = path, hc_chunks = [body], hc_end = BodyEnded\<rparr>"

lemma posted_body:
  assumes "postable limit (JObj kvs)"
  shows "call_body limit (posted path (stringify_text (JObj kvs))) = Inr (JObj kvs)"
proof -
  from assms object_text [of kvs] obtain s where "stringify_text (JObj kvs) = CHR ''{'' # s @ [CHR ''}'']"
    by (auto simp: postable_def)
  then have "js_trim (stringify_text (JObj kvs)) \<noteq> []" using trim_braces [of s] by simp
  with assms show ?thesis
    by (simp add: call_body_def posted_def readBody_def postable_def utf8_lossy_text parseJsonBody_def parse_stringify)
qed

section \<open>A turn over the wire\<close>

text \<open>
  A \<open>fetch\<close> that brings a request to the server's handler and its answer back: \<open>path_of\<close> is the path
  that the platform's URL parser finds, \<open>chop\<close> the way the transport cuts a body.
\<close>

definition sent_call :: "string \<Rightarrow> fetch_init \<Rightarrow> http_call" where
  "sent_call path init =
     \<lparr>hc_method = fi_method init, hc_path = path,
      hc_chunks = (case fi_body init of None \<Rightarrow> [] | Some b \<Rightarrow> [b]), hc_end = BodyEnded\<rparr>"

definition loopback ::
  "(string \<Rightarrow> string) \<Rightarrow> (string \<Rightarrow> string list) \<Rightarrow> jsnum \<Rightarrow> 'w runner \<Rightarrow> string \<Rightarrow> nat \<Rightarrow> (api_state \<times> 'w) fetcher"
where
  "loopback path_of chop limit run uuid now url init sw =
     (case http_handle limit None run (sent_call (path_of url) init) uuid now (fst sw) None (snd sw) of
        (Inl r, st, _, w) \<Rightarrow>
          (FetchAnswered \<lparr>fd_ok = (200 \<le> rp_status r \<and> rp_status r < 300),
             fd_body = Some (map Some (chop (response_text r)), SrcDone)\<rparr>, (st, w))
      | (Inr (_, out), st, _, w) \<Rightarrow>
          (FetchAnswered \<lparr>fd_ok = True, fd_body = Some (map Some (chop (streamed_text out)), SrcDone)\<rparr>, (st, w)))"

lemma posted_fields [simp]: "hc_path (posted path body) = path" "hc_method (posted path body) = ''POST''"
  by (simp_all add: posted_def)

lemma sent_posted: "sent_call path (json_init ''POST'' (Some body)) = posted path body"
  by (simp add: sent_call_def json_init_def posted_def)

text \<open>Events that the reader's limits let through.\<close>

definition fits :: "'w api_client \<Rightarrow> agent_event list \<Rightarrow> bool" where
  "fits C es \<longleftrightarrow> es \<noteq> [] \<and> closes es \<and> list_all (\<lambda>e. sent e \<and> utf8_text (line_text e) \<and> length (line_text e) \<le> cl_line C) es
     \<and> length (body_of es) \<le> cl_total C"

text \<open>The limits that the constructor lets through.\<close>

definition limits_ok :: "'w api_client \<Rightarrow> bool" where
  "limits_ok C \<longleftrightarrow> 0 < cl_line C \<and> cl_line C \<le> default_max_total_bytes
     \<and> 0 < cl_total C \<and> cl_total C \<le> default_max_total_bytes"

lemma safe_positive_jsnat: "0 < n \<Longrightarrow> n \<le> default_max_total_bytes \<Longrightarrow> safe_positive (JNum (jsnat n))"
proof -
  assume n: "0 < n" "n \<le> default_max_total_bytes"
  then have "int n \<le> 16777216" by (simp add: default_max_total_bytes_def)
  then have "(of_int (int n) :: rat) \<le> of_int 16777216" by (simp only: of_int_le_iff)
  then have "(of_nat n :: rat) \<le> 16777216" by simp
  with n(1) show ?thesis by (simp add: safe_positive_def jsnat_def max_safe_integer_def)
qed

lemma turn_limits:
  "limits_ok C \<Longrightarrow>
     read_limits (JObj [(''maxLineBytes'', JNum (jsnat (cl_line C))), (''maxTotalBytes'', JNum (jsnat (cl_total C)))])
       = Inr \<lparr>nl_line = cl_line C, nl_total = cl_total C\<rparr>"
  by (simp add: read_limits_def limit_value_def nullish_def limits_ok_def safe_positive_jsnat)

lemma client_limit_bounds: "client_limit v d = Inr n \<Longrightarrow> 0 < n \<and> n \<le> default_max_total_bytes"
proof -
  assume *: "client_limit v d = Inr n"
  then obtain q where q: "as_num (limit_value v d) = Fin q" "of_int \<lfloor>q\<rfloor> = q" "0 < q" "q \<le> of_nat default_max_total_bytes"
    and n: "n = nat \<lfloor>q\<rfloor>"
    by (auto simp: client_limit_def safe_positive_def jsnat_def Let_def split: if_splits jsval.splits jsnum.splits
        elim!: is_safe_integer.elims)
  from q(2,3) have "0 < \<lfloor>q\<rfloor>" by (metis of_int_0_less_iff)
  moreover from q(4) have "\<lfloor>q\<rfloor> \<le> int default_max_total_bytes" by (metis floor_mono floor_of_nat)
  ultimately show ?thesis by (simp add: n nat_le_iff)
qed

lemma new_client_limits: "new_client parse first given platform = Inr C \<Longrightarrow> limits_ok C"
  by (auto simp: new_client_def limits_ok_def Let_def rbind_def dest: client_limit_bounds split: sum.splits if_splits)

text \<open>The request as the server admits it.\<close>

lemma turn_call:
  assumes "postable limit (JObj kvs)" and "parseTurnRequest (JObj kvs) = Inr q"
  shows "turn_body limit (posted path (stringify_text (JObj kvs))) = Inr q"
  by (simp add: turn_body_def posted_body [OF assms(1)] assms(2))

lemma parsed_serialized:
  assumes "parseTurnRequest (JObj kvs) = Inr q" and "json_kept (JObj kvs)"
  shows "serializeTurnRequest (JObj kvs) = Inr (stringify_text (JObj kvs))"
  using assms(1) stringify_kept [OF assms(2)]
  by (auto simp: parseTurnRequest_def serializeTurnRequest_def serializeJson_def Let_def rbind_def
      split: if_splits sum.splits)

text \<open>The client's side, once its \<open>fetch\<close> has answered the streamed events.\<close>

lemma read_served:
  assumes "fits C out" and "limits_ok C" and "concat (chop (streamed_text out)) = streamed_text out"
  shows "parseNDJSONStream (map Some (chop (streamed_text out)), SrcDone) (GivenSignal None)
      (JObj [(''maxLineBytes'', JNum (jsnat (cl_line C))), (''maxTotalBytes'', JNum (jsnat (cl_total C)))]) = (out, None)"
  by (rule ndjson_read [OF _ _ _ _ turn_limits [OF assms(2)]])
    (use assms(1,3) in \<open>simp_all add: fits_def list_all_iff streamed_text_def body_of_def\<close>)

text \<open>
  C7: a turn over the wire.  When the client posts a request that the server accepts, for a session
  that is free, and the runner's events fit the client's limits, then the client yields exactly the
  events the server streamed, without an error; these events are also what the session's log
  gains, and the session is free again.
\<close>

theorem client_yields_served_turn:
  assumes "limits_ok C" and "cl_fetch C = loopback path_of chop limit run turn_id now"
    and "encode_uri i = Some e" and "utf8_text i" and "i \<noteq> []" and "CHR 0x00 \<notin> set i"
    and "path_of (cl_base C @ ''/v1/sessions/'' @ e @ ''/turns'') = ''/v1/sessions/'' @ e @ ''/turns''"
    and "concat (chop (streamed_text out)) = streamed_text out"
    and "postable limit (JObj kvs)" and "parseTurnRequest (JObj kvs) = Inr q"
    and "session_of st i = Some r" and "map_of (as_active st) i = None"
    and "serve_turn run (runner_call i turn_id q) None w = (out, s, w')" and "fits C out"
  shows "\<exists>st'. runTurn C (JStr i) (JObj kvs) (Some None) (st, w) = ((out, None), (st', w'))
      \<and> listEvents (as_store st') i = listEvents (as_store st) i @ out \<and> map_of (as_active st') i = None
      \<and> map_option ss_status (session_of st' i) = Some s"
proof -
  let ?st = "finish_turn now i s (fold (log_event now i) out (take_session now i turn_id st))"
  have "admit_turn st i = Inr ()" using assms(11,12) by (simp add: admit_turn_def get_session_def session_of_def)
  with turn_call [OF assms(9,10)] assms(13)
  have handled: "handleTurn limit run (posted path (stringify_text (JObj kvs))) i turn_id now st None w
      = (Inr (turn_id, out), ?st, w')" for path
    by (simp add: handleTurn_def)
  define P where P: "P = ''/v1/sessions/'' @ e @ ''/turns''"
  have route: "route_of P = TurnsRoute i" using turns_route [OF assms(3-6)] by (simp only: P)
  have url: "path_of (cl_base C @ P) = P" using assms(7) by (simp only: P)
  have fetched: "fetchResponse C (cl_base C @ P)
      (json_init ''POST'' (Some (stringify_text (JObj kvs)))) None (st, w)
      = (Inr \<lparr>fd_ok = True, fd_body = Some (map Some (chop (streamed_text out)), SrcDone)\<rparr>, None, (?st, w'))"
    unfolding fetchResponse_def assms(2) loopback_def url sent_posted http_handle_def
    by (simp add: route handled abort_seen_def)
  have kept: "json_kept (JObj kvs)" using assms(9) by (simp add: postable_def)
  have "runTurn C (JStr i) (JObj kvs) (Some None) (st, w) = ((out, None), (?st, w'))"
    unfolding runTurn_def
    by (simp add: parsed_serialized [OF assms(10) kept] lift_client_def encodePathSegment_def assms(3,5)
        fetched [unfolded P, simplified] read_served [of C out chop, OF assms(14,1,8)])
  moreover obtain r' where "session_of ?st i = Some r'" "ss_events r' = ss_events r @ out" "ss_status r' = s"
    using assms(11) by (simp add: session_of_logs)
  ultimately show ?thesis
    using assms(11) by (intro exI [of _ ?st]) (simp add: listEvents_def session_of_def)
qed

text \<open>A turn of two events on a fresh server.\<close>

definition demo_client :: "(api_state \<times> nat) api_client" where
  "demo_client =
     \<lparr>cl_base = ''http://localhost:1'',
      cl_fetch = loopback (drop 18) (\<lambda>s. [take 9 s, drop 9 s]) (jsnat 1000)
        (\<lambda>rq sg n. (Some (short_turn, SrcDone), Suc n)) ''t'' 7,
      cl_line = 100, cl_total = 1000, cl_body = 1000\<rparr>"

definition demo_request :: "(string \<times> jsval) list" where
  "demo_request =
     [(''messages'', JArr [JObj [(''role'', JStr ''user''),
        (''content'', JArr [JObj [(''type'', JStr ''text''), (''text'', JStr ''a'')]])]])]"

definition demo_state :: api_state where
  "demo_state = \<lparr>as_store = [(''a b'', new_session ''a b'' 1)], as_active = []\<rparr>"

lemma client_yields_served_turn_witness:
  "\<exists>st'. runTurn demo_client (JStr ''a b'') (JObj demo_request) (Some None) (demo_state, 0)
        = ((short_turn, None), (st', 1))
      \<and> listEvents (as_store st') ''a b'' = listEvents (as_store demo_state) ''a b'' @ short_turn
      \<and> map_of (as_active st') ''a b'' = None
      \<and> map_option ss_status (session_of st' ''a b'') = Some SessionCompleted"
proof (rule client_yields_served_turn)
  show "cl_fetch demo_client = loopback (drop 18) (\<lambda>s. [take 9 s, drop 9 s]) (jsnat 1000)
      (\<lambda>rq sg n. (Some (short_turn, SrcDone), Suc n)) ''t'' 7" by (simp add: demo_client_def)
  show "encode_uri ''a b'' = Some ''a%20b''" by code_simp
  show "limits_ok demo_client" by (simp add: limits_ok_def demo_client_def default_max_total_bytes_def)
  show "postable (jsnat 1000) (JObj demo_request)" by code_simp
  show "parseTurnRequest (JObj demo_request) = Inr \<lparr>tq_messages = as_arr (field (JObj demo_request) ''messages''),
      tq_tools = None, tq_route = None, tq_model = None, tq_max_tokens = None\<rparr>" by code_simp
  show "session_of demo_state ''a b'' = Some (new_session ''a b'' 1)" by code_simp
  show "fits demo_client short_turn" by code_simp
qed (simp_all add: demo_client_def demo_state_def serve_turn_def abort_seen_def short_turn_def utf8_text_ascii)

end
