(* ===== verification/Spec2Isabelle.thy ===== *)
theory Spec2Isabelle
  imports Desktop_Entry Build_Desktop Cli Host_Main Credentials Discovery Session_Reload Context_Kept Local_Turns Sse_Roundtrip Gateways Tool_Policy Loop_Requests
begin

text \<open>
  A verification library for Agent Routebench (TypeScript, \<open>packages/*/src\<close> and \<open>apps/*/src\<close>): the path of a request from the raw
  value a caller hands in, through validation, routing, encoding, the HTTP attempts with retry and failover, the decoding of the streamed
  answer and the agent loop that runs the tools the model asks for; the local API that serves such turns and its client; what is
  kept on disk; and the three programs on top: the host process, the command line and the desktop.

  \<^bold>\<open>Values, contracts, registry.\<close>

  \<^item> \<open>Prelude\<close>: results (\<open>Inl\<close> is what the source throws), cancellation signals,
    asynchronous sources, generators with their effects and the contract \<open>gen_ok\<close> over them.
  \<^item> \<open>Js_Value\<close>, \<open>Json_Text\<close>, \<open>Json_Pretty\<close>, \<open>Js_Number\<close>: the values of the language, doubles with their rounding,
    white space and trimming, \<open>JSON.parse\<close>, \<open>JSON.stringify\<close> with and without indentation, \<open>Number(text)\<close>.
  \<^item> \<open>Contracts\<close> (\<open>agent-contracts\<close>): the shared data and the request validators, with the error
    of every branch; acceptance of a raw value is equivalent to its declared shape and a declarative well-formedness.
  \<^item> \<open>Registry_Types\<close>, \<open>Registry\<close> (\<open>provider-registry\<close>): definitions of providers and routes,
    their validation, every operation of the registry, the resolution of a route; invariants over
    all sequences of calls.  \<open>Credentials\<close>: the store that guards a credential
    backend, the store in memory, the templates of providers.
  \<^item> \<open>Discovery\<close> (\<open>provider-discovery\<close>): the health check and the model catalogue of a provider, from the one request
    they make to the parsed answer.

  \<^bold>\<open>Models and agents.\<close>

  \<^item> \<open>Adapter_Common\<close>, \<open>Request_Encoding\<close> (\<open>model-gateway/src/adapters\<close>): error codes and limits, the
    protocol subset and the correlation of tool calls with results, both request bodies.
  \<^item> \<open>Sse\<close>, \<open>Sse_Framing\<close>, \<open>Sse_Roundtrip\<close> (\<open>adapters/sse.ts\<close>): the incremental framer, its
    independence of the chunking, its buffer bound and its round trip.
  \<^item> \<open>Stream_Runtime\<close>, \<open>Anthropic_Stream\<close>, \<open>OpenAI_Stream\<close> (\<open>adapters/stream-runtime.ts\<close> and the two
    decoders): the driver with every read of the abort flag, the two state machines that reassemble
    texts, tool calls, usage and completion.
  \<^item> \<open>Http_Attempt\<close>, \<open>Resilience\<close>, \<open>Gateways\<close> (\<open>http-transport.ts\<close>, \<open>candidate-attempt.ts\<close>,
    \<open>resilience.ts\<close>, the three gateways): one HTTP request, the retry policy with its double
    arithmetic, the loops over attempts and candidates; the stream refines a failover over independent candidates.
  \<^item> \<open>Agent_Core\<close>, \<open>Agent_Loop\<close>, \<open>Tool_Policy\<close>, \<open>Loop_Requests\<close> (\<open>agent-core\<close>, \<open>agent-runtime\<close>): the
    sanitised event stream of one request, the bounded multi-turn loop, the governed tool
    executor, and the loop against the adapters' request checks.
  \<^item> \<open>Agent_Backend\<close> (\<open>agent-backend\<close>): the options, the assembly of gateway, executor and loop into a
    runner, and the events it streams for a turn.
  \<^item> \<open>Memory_Store\<close>, \<open>Memory_Context\<close>, \<open>Context_Kept\<close> (\<open>agent-memory\<close>): the store, the context that is brought under a budget, and what a
    context always keeps.

  \<^bold>\<open>Serving and keeping.\<close>

  \<^item> \<open>Local_Api\<close>, \<open>Api_Server\<close>, \<open>Api_Turns\<close> (\<open>local-agent-api\<close>): the validators and the session store,
    the HTTP handler with its configuration and session routes, a turn on its own and the turns of
    several requests as a step relation.
  \<^item> \<open>Local_Client\<close>, \<open>Client_Calls\<close> (\<open>local-agent-client\<close>): the NDJSON reader and the calls of the client;
    \<open>Json_Roundtrip\<close>, \<open>Ndjson_Roundtrip\<close> and \<open>Local_Turns\<close> connect it with the server: JSON text, event
    lines, path segments and request bodies survive the wire, and a turn is yielded as it was served.
  \<^item> \<open>Session_Crypto\<close>, \<open>Session_Store\<close>, \<open>Session_Reload\<close> (\<open>session-persistence\<close>): the encrypted envelope, the file store with its
    failures, its refinement of the store in memory, and what a restart reads back.
  \<^item> \<open>Config_Snapshot\<close>, \<open>Config_Saved\<close>, \<open>Config_Manager\<close> (\<open>local-persistence\<close> and the manager of the host): the snapshot of the
    registry, its file, and the changes that are kept only when they have been written.

  \<^bold>\<open>Programs.\<close>

  \<^item> \<open>Agent_Host\<close>, \<open>Host_Main\<close> (\<open>apps/local-agent-host\<close>): the life of the server and of its listener as a machine, the arguments of the
    process, and the host that serves its configuration file: the order in which a start reads, opens and binds, and the registry that its
    manager, its server and its agents share.
  \<^item> \<open>Cli\<close> (\<open>apps/cli\<close>): the command line, the commands over the client and the exit codes.
  \<^item> \<open>Desktop_View\<close>, \<open>Tauri_Client\<close>, \<open>Desktop_Config\<close>, \<open>Desktop_Controller\<close>, \<open>Desktop_Ui\<close>, \<open>Desktop_Panel\<close>, \<open>Desktop_Entry\<close>
    (\<open>apps/desktop\<close>): the static page, its HTML text with the escaping that keeps texts out of tags; the client of the native host with its queue and its turn as a
    machine; the clients of configuration and credentials; the controller as a machine; the user interface as a machine over the controller
    and the clients, with its conversations and forms; the HTML text it shows; and the entry points.  The requests the interface
    sends are followed into the validators of \<open>Tauri_Client\<close> and \<open>Local_Api\<close>.
  \<^item> \<open>Build_Desktop\<close> (\<open>scripts/build-desktop.mjs\<close>): builds that run at once over one staging directory and one lock.

  \<^bold>\<open>Conventions.\<close>  Text is its UTF-8 byte string; a lone surrogate keeps its three byte form, and lengths in
  UTF-16 units are computed from the bytes.  Objects and maps are association lists in insertion
  order.  Whatever the source throws is the left side of a sum.  A cancellation signal is the number
  of reads of its flag that still answer \<open>false\<close> (\<open>None\<close>: it never fires); the code's reads and the
  race of an \<open>await\<close> each consume one.  An asynchronous source is the list of its values and how it ends; a
  generator is the list of what it yields with the effects and the world it leaves.  Where calls and answers interleave
  (server turns, host, native client, controller, interface) the code between two waits is one step of a machine, and a
  property holds of every sequence of inputs.  Loops recurse on the data
  they consume or on the attempts and turns that are left, so there is no fuel: every definition is total.

  \<^bold>\<open>Parameters.\<close>  What the code only calls is an argument: the platform's URL parser, \<open>fetch\<close>, the credential
  store of a gateway, the credential backend, the wait between attempts, tool executors, the policy and the approval handler, the
  cipher and its randomness, the file system's answers, the native host's \<open>invoke\<close>, the clock and the random identifiers.

  \<^bold>\<open>Not modelled.\<close>  Releasing iterators and cancelling bodies whose result is not awaited; focus, scrolling and the DOM beyond
  the HTML text that is assigned; stack overflow and memory limits of the engine; index files that only re-export.  Of the build of the
  desktop the text of the files is left out: what the compiler writes, the rewritten imports and the page are parts with a name.  The other
  scripts under \<open>scripts/\<close> run compilers, test runners and child processes and decide by their exit codes; the native host under
  \<open>src-tauri\<close> is in another language and stands behind \<open>invoke\<close> and \<open>listen\<close>.
\<close>

end
